(* ===== verification/Prelude.thy ===== *)
theory Prelude
  imports Main "HOL-Library.Word" "HOL-Library.Monad_Syntax"
begin

text \<open>
  Shared vocabulary of the development: the integer types of the code at their width, the
  reading of \<open>Panic()\<close> as the value \<open>None\<close>, and the list lemmas the component
  theories use.
  Every operation of the code that can call \<open>Panic\<close>, \<open>PanicFalse\<close> or
  \<open>PanicNull\<close>, or that can touch memory outside an allocation, returns an
  \<open>option\<close>; the normal return is \<open>Some\<close>.
\<close>

unbundle bit_operations_syntax

section \<open>Types\<close>

type_synonym u8 = "8 word"
type_synonym u16 = "16 word"
type_synonym u32 = "32 word"
type_synonym u64 = "64 word"

text \<open>A \<open>Task\<close> is a pointer; NULL is 0.\<close>

type_synonym task = nat

abbreviation (input) NULL_TASK :: task where
  "NULL_TASK \<equiv> 0"

type_synonym message_id = u16

section \<open>Panic\<close>

definition PanicFalse :: "bool \<Rightarrow> unit option" where
  "PanicFalse b = (if b then Some () else None)"

definition PanicNull :: "task \<Rightarrow> unit option" where
  "PanicNull t = PanicFalse (t \<noteq> NULL_TASK)"

lemma PanicFalse_simps [simp]:
  "PanicFalse True = Some ()"
  "PanicFalse False = None"
  "(PanicFalse b = Some u) = b"
  "(PanicFalse b = None) = (\<not> b)"
  by (simp_all add: PanicFalse_def)

lemma PanicNull_simps [simp]:
  "(PanicNull t = Some u) = (t \<noteq> NULL_TASK)"
  "(PanicNull t = None) = (t = NULL_TASK)"
  by (simp_all add: PanicNull_def)

section \<open>Arrays in allocated memory\<close>

text \<open>An array is the list of its cells; a cell that was never written is \<open>None\<close>.\<close>

definition write_cell :: "'a list \<Rightarrow> nat \<Rightarrow> 'a \<Rightarrow> 'a list option" where
  "write_cell xs i x = (if i < length xs then Some (xs[i := x]) else None)"

definition read_cell :: "'a option list \<Rightarrow> nat \<Rightarrow> 'a option" where
  "read_cell xs i = (if i < length xs then xs ! i else None)"

text \<open>\<open>realloc\<close>: the common part is kept, the rest is not written yet.\<close>

definition realloc_cells :: "'a option list \<Rightarrow> nat \<Rightarrow> 'a option list" where
  "realloc_cells xs n = take n xs @ replicate (n - length xs) None"

text \<open>
  \<open>memmove\<close> of \<open>n\<close> cells from \<open>src\<close> to \<open>dst\<close> of one array; reading or writing
  behind the end of the array is a fault.
\<close>

definition memmove_cells :: "'a option list \<Rightarrow> nat \<Rightarrow> nat \<Rightarrow> nat \<Rightarrow> 'a option list option" where
  "memmove_cells xs dst src n =
     (if n = 0 then Some xs
      else if src + n \<le> length xs \<and> dst + n \<le> length xs
      then Some (take dst xs @ take n (drop src xs) @ drop (dst + n) xs)
      else None)"

section \<open>Searching\<close>

lemma find_range_SomeD: "find P xs = Some i \<Longrightarrow> i \<in> set xs \<and> P i"
  by (auto simp: find_Some_iff)

section \<open>Integers in memory\<close>

text \<open>The processor stores integers with the low byte first.\<close>

definition le_bytes :: "nat \<Rightarrow> 'a::len word \<Rightarrow> u8 list" where
  "le_bytes n w = map (\<lambda>i. ucast (drop_bit (8 * i) w)) [0 ..< n]"

primrec le_word :: "u8 list \<Rightarrow> 'a::len word" where
  "le_word [] = 0"
| "le_word (b # bs) = ucast b OR push_bit 8 (le_word bs)"

lemma length_le_bytes [simp]: "length (le_bytes n w) = n"
  by (simp add: le_bytes_def)

lemma bit_le_word:
  "bit (le_word bs :: 'a::len word) k
    \<longleftrightarrow> k < LENGTH('a) \<and> k < 8 * length bs \<and> bit (bs ! (k div 8)) (k mod 8)"
proof (induction bs arbitrary: k)
  case (Cons b bs)
  show ?case
  proof (cases "k < 8")
    case True
    then show ?thesis by (auto simp: bit_or_iff bit_ucast_iff bit_push_bit_iff)
  next
    case False
    then have k: "k div 8 = Suc ((k - 8) div 8)" "k mod 8 = (k - 8) mod 8" by (simp_all add: le_div_geq le_mod_geq)
    have "\<not> bit b k" using False bit_imp_le_length [of b k] by auto
    then show ?thesis
      using False Cons.IH [of "k - 8"] by (auto simp: bit_or_iff bit_ucast_iff bit_push_bit_iff k)
  qed
qed simp

lemma le_word_le_bytes:
  assumes "LENGTH('a) \<le> 8 * n"
  shows "le_word (le_bytes n w) = (w :: 'a::len word)"
proof (rule bit_word_eqI)
  fix k assume k: "k < LENGTH('a)"
  then have "k div 8 < n" using assms by (simp add: div_less_iff_less_mult)
  with k assms show "bit (le_word (le_bytes n w) :: 'a word) k = bit w k"
    by (auto simp: bit_le_word le_bytes_def bit_ucast_iff bit_drop_bit_eq)
qed

section \<open>Counting up\<close>

lemma unat_Suc_below:
  fixes i n :: "'a::len word"
  assumes "i < n"
  shows "unat (i + 1) = unat i + 1"
proof -
  have "unat i + 1 \<le> unat n" using assms by (simp add: word_less_nat_alt)
  also have "unat n < 2 ^ LENGTH('a)" by (rule unsigned_less)
  finally show ?thesis by (simp add: unat_word_ariths)
qed

section \<open>Arithmetic modulo a sequence space\<close>

lemma mod_add_left_cancel:
  fixes a b c m :: nat
  shows "(a + b) mod m = (a + c) mod m \<longleftrightarrow> b mod m = c mod m"
proof -
  have "(a + b) mod m = (a + c) mod m \<longleftrightarrow> (int a + int b) mod int m = (int a + int c) mod int m"
    by (metis of_nat_add of_nat_eq_iff zmod_int)
  also have "\<dots> \<longleftrightarrow> int b mod int m = int c mod int m"
    by (simp add: mod_eq_dvd_iff)
  finally show ?thesis by (metis of_nat_eq_iff zmod_int)
qed

end
