(* ===== verification/RwcpServer.thy ===== *)
theory RwcpServer
  imports Prelude
begin

text \<open>
  The server side of the Reliable Write Command Protocol, \<open>libs/rwcp_server/rwcp_server.c\<close>:
  a receiver with six-bit sequence numbers, cumulative acknowledgements, gap reports and flow
  control. \<open>server_data\<close> is the static \<open>g_server_data\<close>; a handler returns the new
  state and the calls it makes of the GAIA library, \<open>GaiaRwcpSendNotification\<close>
  (\<open>Notify\<close>, with the one-byte header) and \<open>GaiaRwcpProcessCommand\<close>
  (\<open>ProcessCommand\<close>, with the payload handed to the upgrade). A segment is the list of its
  \<open>size\<close> bytes, the NULL pointer is \<open>None\<close>.
\<close>

section \<open>State and protocol constants\<close>

datatype rwcp_protocol_state = RWCP_LISTEN | RWCP_SYN_RCVD | RWCP_ESTABLISHED

record server_data =
  protocol_state :: rwcp_protocol_state
  out_of_sequence_status :: bool
  last_sequence_number :: u8
  rwcp_upgrade_header_size :: u8
  accept_segments :: bool
  client_task :: task

definition RWCP_CLIENT_CMD_DATA :: u8 where "RWCP_CLIENT_CMD_DATA = 0x00"
definition RWCP_CLIENT_CMD_SYN :: u8 where "RWCP_CLIENT_CMD_SYN = 0x40"
definition RWCP_CLIENT_CMD_RST :: u8 where "RWCP_CLIENT_CMD_RST = 0x80"
definition RWCP_CLIENT_CMD_RESERVED :: u8 where "RWCP_CLIENT_CMD_RESERVED = 0xc0"

definition RWCP_SERVER_CMD_DATA_ACK :: u8 where "RWCP_SERVER_CMD_DATA_ACK = 0x00"
definition RWCP_SERVER_CMD_SYN_ACK :: u8 where "RWCP_SERVER_CMD_SYN_ACK = 0x40"
definition RWCP_SERVER_CMD_RST :: u8 where "RWCP_SERVER_CMD_RST = 0x80"
definition RWCP_SERVER_CMD_GAP :: u8 where "RWCP_SERVER_CMD_GAP = 0xc0"

datatype rwcp_data_pkts =
    RWCP_DATA_PKT_IN_SEQUENCE
  | RWCP_DATA_PKT_DUPLICATE
  | RWCP_DATA_PKT_OUT_OF_SEQUENCE
  | RWCP_DATA_PKT_DISCARDED

definition RWCP_COMMAND_MASK :: u8 where "RWCP_COMMAND_MASK = 0xc0"
definition RWCP_SEQUENCE_MASK :: u8 where "RWCP_SEQUENCE_MASK = 0x3f"
abbreviation RWCP_SEQUENCE_NUMBER_MAX :: nat where "RWCP_SEQUENCE_NUMBER_MAX \<equiv> 64"
abbreviation RWCP_RECEIVE_WINDOW_MAX :: nat where "RWCP_RECEIVE_WINDOW_MAX \<equiv> 32"

datatype rwcp_out = Notify u8 | ProcessCommand "u8 list"

lemmas rwcp_commands =
  RWCP_CLIENT_CMD_DATA_def RWCP_CLIENT_CMD_SYN_def RWCP_CLIENT_CMD_RST_def
  RWCP_CLIENT_CMD_RESERVED_def RWCP_SERVER_CMD_DATA_ACK_def RWCP_SERVER_CMD_SYN_ACK_def
  RWCP_SERVER_CMD_RST_def RWCP_SERVER_CMD_GAP_def RWCP_COMMAND_MASK_def RWCP_SEQUENCE_MASK_def

section \<open>Notifications\<close>

definition rwcpSendNotification :: "u8 \<Rightarrow> u8 \<Rightarrow> rwcp_out list" where
  "rwcpSendNotification seqn command =
     [Notify ((0 OR (seqn AND RWCP_SEQUENCE_MASK)) OR (command AND RWCP_COMMAND_MASK))]"

definition rwcpDataAck :: "u8 \<Rightarrow> rwcp_out list" where
  "rwcpDataAck seqn = rwcpSendNotification seqn RWCP_SERVER_CMD_DATA_ACK"

definition rwcpRstAck :: "u8 \<Rightarrow> rwcp_out list" where
  "rwcpRstAck seqn = rwcpSendNotification seqn RWCP_SERVER_CMD_RST"

definition rwcpRst :: "u8 \<Rightarrow> rwcp_out list" where
  "rwcpRst seqn = rwcpSendNotification seqn RWCP_SERVER_CMD_RST"

definition rwcpSynAck :: "u8 \<Rightarrow> rwcp_out list" where
  "rwcpSynAck seqn = rwcpSendNotification seqn RWCP_SERVER_CMD_SYN_ACK"

definition rwcpGap :: "u8 \<Rightarrow> rwcp_out list" where
  "rwcpGap seqn = rwcpSendNotification seqn RWCP_SERVER_CMD_GAP"

lemmas rwcp_notify_defs =
  rwcpSendNotification_def rwcpDataAck_def rwcpRstAck_def rwcpRst_def rwcpSynAck_def rwcpGap_def

section \<open>Sequence numbers\<close>

text \<open>
  The C arithmetic is on \<open>int\<close> after promotion, and \<open>%\<close> truncates towards zero.
\<close>

definition c_rem :: "int \<Rightarrow> int \<Rightarrow> int" where
  "c_rem a b = sgn a * (\<bar>a\<bar> mod \<bar>b\<bar>)"

definition nextExpectedSequenceNumber :: "server_data \<Rightarrow> u8 \<Rightarrow> u8" where
  "nextExpectedSequenceNumber s current_sequence_number =
     word_of_int (c_rem (uint (last_sequence_number s) + 1) (int RWCP_SEQUENCE_NUMBER_MAX))"

definition isNextSequence :: "server_data \<Rightarrow> u8 \<Rightarrow> bool" where
  "isNextSequence s seqn = (seqn = nextExpectedSequenceNumber s (last_sequence_number s))"

definition isOutOfSequence :: "server_data \<Rightarrow> u8 \<Rightarrow> bool" where
  "isOutOfSequence s seqn =
     (let norm = (word_of_int (c_rem (uint seqn - uint (last_sequence_number s)
                     + int RWCP_SEQUENCE_NUMBER_MAX) (int RWCP_SEQUENCE_NUMBER_MAX)) :: u16)
      in norm > 0 \<and> norm \<le> of_nat RWCP_RECEIVE_WINDOW_MAX)"

section \<open>Segment handling\<close>

definition handleDataSegment ::
  "server_data \<Rightarrow> u8 \<Rightarrow> u8 list \<Rightarrow> rwcp_data_pkts \<times> server_data \<times> rwcp_out list" where
  "handleDataSegment s sequence_number data =
     (if accept_segments s then
        if isNextSequence s sequence_number then
          (RWCP_DATA_PKT_IN_SEQUENCE,
           s\<lparr>out_of_sequence_status := False, last_sequence_number := sequence_number\<rparr>,
           rwcpDataAck sequence_number @ [ProcessCommand (drop 1 data)])
        else if isOutOfSequence s sequence_number then
          (RWCP_DATA_PKT_OUT_OF_SEQUENCE,
           s\<lparr>out_of_sequence_status := True\<rparr>,
           (if \<not> out_of_sequence_status s then rwcpGap (last_sequence_number s) else []))
        else
          (RWCP_DATA_PKT_DUPLICATE, s, rwcpDataAck sequence_number)
      else (RWCP_DATA_PKT_DISCARDED, s, []))"

definition RwcpGetProtocolState :: "server_data \<Rightarrow> rwcp_protocol_state" where
  "RwcpGetProtocolState s = protocol_state s"

definition RwcpGetOutOfSequenceStatus :: "server_data \<Rightarrow> bool" where
  "RwcpGetOutOfSequenceStatus s = out_of_sequence_status s"

definition isRWwcpControlCmd :: "u8 \<Rightarrow> bool" where
  "isRWwcpControlCmd command = (command = RWCP_CLIENT_CMD_SYN \<or> command = RWCP_CLIENT_CMD_RST)"

text \<open>
  The three states of the \<open>switch\<close> of \<open>RwcpServerHandleMessage\<close>: the packet type
  (initially \<open>RWCP_DATA_PKT_IN_SEQUENCE\<close>), the new state and the outputs.
\<close>

definition handle_listen ::
  "server_data \<Rightarrow> u8 \<Rightarrow> u8 \<Rightarrow> rwcp_data_pkts \<times> server_data \<times> rwcp_out list" where
  "handle_listen s command sequence_number =
     (if command = RWCP_CLIENT_CMD_SYN then
        (RWCP_DATA_PKT_IN_SEQUENCE,
         s\<lparr>last_sequence_number := sequence_number, protocol_state := RWCP_SYN_RCVD\<rparr>,
         rwcpSynAck sequence_number)
      else if command = RWCP_CLIENT_CMD_RST then
        (RWCP_DATA_PKT_IN_SEQUENCE, s, rwcpRstAck sequence_number)
      else (RWCP_DATA_PKT_IN_SEQUENCE, s, rwcpRst sequence_number))"

definition handle_syn_rcvd ::
  "server_data \<Rightarrow> u8 \<Rightarrow> u8 \<Rightarrow> u8 list \<Rightarrow> rwcp_data_pkts \<times> server_data \<times> rwcp_out list" where
  "handle_syn_rcvd s command sequence_number data =
     (if command = RWCP_CLIENT_CMD_SYN then
        (RWCP_DATA_PKT_IN_SEQUENCE, s\<lparr>last_sequence_number := sequence_number\<rparr>,
         rwcpSynAck sequence_number)
      else if command = RWCP_CLIENT_CMD_RST then
        (RWCP_DATA_PKT_IN_SEQUENCE, s\<lparr>protocol_state := RWCP_LISTEN\<rparr>, rwcpRstAck sequence_number)
      else if command = RWCP_CLIENT_CMD_DATA then
        (let (ty, s', outs) =
               handleDataSegment (s\<lparr>out_of_sequence_status := False\<rparr>) sequence_number data
         in (ty, s'\<lparr>protocol_state := RWCP_ESTABLISHED\<rparr>, outs))
      else
        (RWCP_DATA_PKT_IN_SEQUENCE, s\<lparr>protocol_state := RWCP_LISTEN\<rparr>, rwcpRst sequence_number))"

definition handle_established ::
  "server_data \<Rightarrow> u8 \<Rightarrow> u8 \<Rightarrow> u8 list \<Rightarrow> rwcp_data_pkts \<times> server_data \<times> rwcp_out list" where
  "handle_established s command sequence_number data =
     (if command = RWCP_CLIENT_CMD_RST then
        (RWCP_DATA_PKT_IN_SEQUENCE, s\<lparr>protocol_state := RWCP_LISTEN\<rparr>, rwcpRstAck sequence_number)
      else if command = RWCP_CLIENT_CMD_DATA then
        handleDataSegment s sequence_number data
      else
        (RWCP_DATA_PKT_IN_SEQUENCE, s\<lparr>protocol_state := RWCP_LISTEN\<rparr>, rwcpRst sequence_number))"

text \<open>
  \<open>None\<close> is the read of \<open>data[0]\<close> past the end of an empty segment.
\<close>

definition RwcpServerHandleMessage ::
  "server_data \<Rightarrow> u8 list option \<Rightarrow> (bool \<times> server_data \<times> rwcp_out list) option" where
  "RwcpServerHandleMessage s data =
     (case data of
        None \<Rightarrow> Some (False, s, [])
      | Some [] \<Rightarrow> None
      | Some (rwcp_header # payload) \<Rightarrow>
          (let sequence_number = rwcp_header AND RWCP_SEQUENCE_MASK;
               command = rwcp_header AND RWCP_COMMAND_MASK;
               segment = rwcp_header # payload;
               (data_packet_type, s', outs) =
                 (case protocol_state s of
                    RWCP_LISTEN \<Rightarrow> handle_listen s command sequence_number
                  | RWCP_SYN_RCVD \<Rightarrow> handle_syn_rcvd s command sequence_number segment
                  | RWCP_ESTABLISHED \<Rightarrow> handle_established s command sequence_number segment);
               status = \<not> (isRWwcpControlCmd command
                          \<or> data_packet_type = RWCP_DATA_PKT_OUT_OF_SEQUENCE
                          \<or> data_packet_type = RWCP_DATA_PKT_DUPLICATE)
           in Some (status, s', outs)))"

definition RwcpServerFlowControl :: "server_data \<Rightarrow> bool \<Rightarrow> server_data" where
  "RwcpServerFlowControl s accept = s\<lparr>accept_segments := accept\<rparr>"

definition RwcpSetClientTask :: "server_data \<Rightarrow> task \<Rightarrow> server_data" where
  "RwcpSetClientTask s t = s\<lparr>client_task := t\<rparr>"

definition RwcpServerInit :: "server_data \<Rightarrow> u8 \<Rightarrow> server_data" where
  "RwcpServerInit s header_size =
     s\<lparr>protocol_state := RWCP_LISTEN, accept_segments := True, client_task := NULL_TASK,
       last_sequence_number := 0, rwcp_upgrade_header_size := header_size\<rparr>"

section \<open>Sequence arithmetic over stream indices\<close>


lemma seq_bits:
  assumes "unat (w::u8) < 64"
  shows "w AND 0x3f = w" "w AND 0xc0 = 0"
proof -
  have t: "take_bit 6 w = w"
    using assms by (simp add: word_unat_eq_iff unsigned_take_bit_eq take_bit_nat_eq_self_iff)
  have "(0x3f::u8) = mask 6" by (simp add: mask_eq_exp_minus_1)
  then show "w AND 0x3f = w" using t by (metis take_bit_eq_mask)
  have "(0xc0::u8) = push_bit 6 3" by (simp add: push_bit_eq_mult)
  then have "w AND 0xc0 = take_bit 6 w AND push_bit 6 3" using t by simp
  also have "\<dots> = 0"
    by (rule bit_word_eqI) (simp only: bit_and_iff bit_take_bit_iff bit_push_bit_iff, auto)
  finally show "w AND 0xc0 = 0" .
qed

lemma notify_ack: "unat w < 64 \<Longrightarrow> rwcpDataAck w = [Notify w]"
  by (simp add: rwcp_notify_defs rwcp_commands seq_bits)

text \<open>
  The six-bit number that a client gives the \<open>i\<close>-th segment after a SYN numbered
  \<open>s0\<close>.
\<close>

definition seq_of :: "nat \<Rightarrow> nat \<Rightarrow> u8" where
  "seq_of s0 i = word_of_nat ((s0 + i) mod RWCP_SEQUENCE_NUMBER_MAX)"

lemma unat_seq_of: "unat (seq_of s0 i) = (s0 + i) mod 64"
  by (simp add: seq_of_def unat_of_nat take_bit_eq_mod)

lemma isNext_seq:
  assumes "last_sequence_number s = seq_of s0 k"
  shows "isNextSequence s (seq_of s0 i) \<longleftrightarrow> (i mod 64 = Suc k mod 64)"
proof -
  have u: "uint (seq_of s0 k) = int ((s0 + k) mod 64)"
    by (metis unat_seq_of uint_nat)
  have "nextExpectedSequenceNumber s x = seq_of s0 (Suc k)" for x
  proof -
    have "c_rem (uint (last_sequence_number s) + 1) 64 = int (((s0 + k) mod 64 + 1) mod 64)"
      by (simp add: c_rem_def assms u zmod_int add.commute)
    also have "((s0 + k) mod 64 + 1) mod 64 = (s0 + Suc k) mod 64"
      by (simp add: mod_simps)
    finally show ?thesis
      by (simp add: nextExpectedSequenceNumber_def seq_of_def)
  qed
  then have "isNextSequence s (seq_of s0 i) \<longleftrightarrow> seq_of s0 i = seq_of s0 (Suc k)"
    by (simp add: isNextSequence_def)
  also have "\<dots> \<longleftrightarrow> (s0 + i) mod 64 = (s0 + Suc k) mod 64"
    by (metis unat_seq_of word_unat_eq_iff)
  also have "\<dots> \<longleftrightarrow> i mod 64 = Suc k mod 64"
    by (rule mod_add_left_cancel)
  finally show ?thesis .
qed

lemma isOOS_seq:
  assumes "last_sequence_number s = seq_of s0 k"
  shows "isOutOfSequence s (seq_of s0 i) \<longleftrightarrow>
    (let d = (int i - int k) mod 64 in 0 < d \<and> d \<le> 32)"
proof -
  define a where "a = (s0 + i) mod 64"
  define b where "b = (s0 + k) mod 64"
  have ab: "a < 64" "b < 64" by (simp_all add: a_def b_def)
  have u: "uint (seq_of s0 i) = int a" "uint (last_sequence_number s) = int b"
    using unat_seq_of[of s0 i] unat_seq_of[of s0 k] assms by (simp_all add: a_def b_def uint_nat)
  define d where "d = (int a - int b + 64) mod 64"
  have d: "c_rem (int a - int b + 64) 64 = d"
    using ab by (auto simp: c_rem_def sgn_if d_def)
  have dm: "d = (int i - int k) mod 64"
    unfolding d_def a_def b_def zmod_int by (simp add: mod_simps) 
  have rng: "0 \<le> d" "d < 64" by (simp_all add: d_def)
  have "unat (word_of_int d :: u16) = nat d"
    using rng by (simp add: unsigned_of_int take_bit_int_eq_self)
  then have "isOutOfSequence s (seq_of s0 i) \<longleftrightarrow> 0 < nat d \<and> nat d \<le> 32"
    by (simp add: isOutOfSequence_def u d word_less_nat_alt word_le_nat_alt)
  with rng show ?thesis by (auto simp: dm[symmetric] Let_def)
qed

section \<open>One segment in a synchronised session\<close>

text \<open>
  A session is synchronised at \<open>k\<close> when the server is established, accepts segments and
  has last acknowledged the \<open>k\<close>-th segment of the client's stream.
\<close>

definition synced :: "nat \<Rightarrow> nat \<Rightarrow> server_data \<Rightarrow> bool" where
  "synced s0 k s \<longleftrightarrow> protocol_state s = RWCP_ESTABLISHED \<and> accept_segments s
     \<and> last_sequence_number s = seq_of s0 k"

definition data_segment :: "nat \<Rightarrow> (nat \<Rightarrow> u8 list) \<Rightarrow> nat \<Rightarrow> u8 list" where
  "data_segment s0 pl i = seq_of s0 i # pl i"

definition in_window :: "nat \<Rightarrow> nat \<Rightarrow> bool" where
  "in_window k i \<longleftrightarrow> k < i + RWCP_RECEIVE_WINDOW_MAX \<and> i \<le> k + RWCP_RECEIVE_WINDOW_MAX"

lemma seq_of_header [simp]:
  "seq_of s0 i AND RWCP_SEQUENCE_MASK = seq_of s0 i"
  "seq_of s0 i AND RWCP_COMMAND_MASK = RWCP_CLIENT_CMD_DATA"
  using seq_bits [of "seq_of s0 i"] by (simp_all add: rwcp_commands unat_seq_of)

lemma in_window_next:
  assumes "in_window k i"
  shows "(i mod 64 = Suc k mod 64) = (i = Suc k)"
proof
  assume "i mod 64 = Suc k mod 64"
  then have "(64::int) dvd int i - int (Suc k)"
    by (metis mod_eq_dvd_iff of_nat_numeral zmod_int)
  moreover have "\<bar>int i - int (Suc k)\<bar> < 64"
    using assms by (auto simp: in_window_def)
  ultimately show "i = Suc k"
    using zdvd_imp_le [of 64 "\<bar>int i - int (Suc k)\<bar>"] by (cases "i = Suc k") auto
qed simp

lemma in_window_ahead:
  assumes "in_window k i"
  shows "(0 < (int i - int k) mod 64 \<and> (int i - int k) mod 64 \<le> 32) = (k < i)"
proof (cases "k \<le> i")
  case True
  then have "(int i - int k) mod 64 = int i - int k"
    using assms by (simp add: in_window_def)
  then show ?thesis using assms True by (simp add: in_window_def)
next
  case False
  then have "(int i - int k) mod 64 = int i - int k + 64"
    using assms mod_pos_pos_trivial [of "int i - int k + 64" 64] by (simp add: in_window_def)
  then show ?thesis using assms False by (simp add: in_window_def)
qed

lemma rwcpDataAck_seq_of [simp]: "rwcpDataAck (seq_of s0 i) = [Notify (seq_of s0 i)]"
  by (simp add: notify_ack unat_seq_of)

lemma handle_synced:
  assumes "synced s0 k s" and "in_window k i"
  shows "RwcpServerHandleMessage s (Some (data_segment s0 pl i)) =
    Some (if i = Suc k then
            (True, s\<lparr>out_of_sequence_status := False, last_sequence_number := seq_of s0 i\<rparr>,
             [Notify (seq_of s0 i), ProcessCommand (pl i)])
          else if k < i then
            (False, s\<lparr>out_of_sequence_status := True\<rparr>,
             if out_of_sequence_status s then [] else rwcpGap (seq_of s0 k))
          else (False, s, [Notify (seq_of s0 i)]))"
proof -
  have st: "protocol_state s = RWCP_ESTABLISHED" "accept_segments s"
    "last_sequence_number s = seq_of s0 k"
    using assms(1) by (simp_all add: synced_def)
  have nx: "isNextSequence s (seq_of s0 i) = (i = Suc k)"
    using isNext_seq [OF st(3)] in_window_next [OF assms(2)] by simp
  have oos: "isOutOfSequence s (seq_of s0 i) = (k < i)"
    using isOOS_seq [OF st(3)] in_window_ahead [OF assms(2)] by (simp add: Let_def)
  have ne: "RWCP_CLIENT_CMD_DATA \<noteq> RWCP_CLIENT_CMD_RST" "\<not> isRWwcpControlCmd RWCP_CLIENT_CMD_DATA"
    by (simp_all add: rwcp_commands isRWwcpControlCmd_def)
  show ?thesis
    using st nx oos ne
    by (simp add: RwcpServerHandleMessage_def data_segment_def handle_established_def
        handleDataSegment_def Let_def)
qed

lemma handle_synced_keeps:
  assumes "synced s0 k s" and "in_window k i"
    and "RwcpServerHandleMessage s (Some (data_segment s0 pl i)) = Some (st, s', outs)"
  shows "synced s0 (if i = Suc k then Suc k else k) s'"
  using assms(1,3) unfolding handle_synced [OF assms(1,2)]
  by (auto simp: synced_def split: if_splits)

section \<open>Streams of segments\<close>

text \<open>
  \<open>rwcp_run\<close> feeds a list of segments to the server. The client may lose, repeat and
  reorder segments, but sends a segment only while it is within the receive window of what
  the server has acknowledged (\<open>windowed\<close>); \<open>advance\<close> is the index the server
  ends at.
\<close>

fun rwcp_run :: "server_data \<Rightarrow> u8 list list \<Rightarrow> (server_data \<times> rwcp_out list) option" where
  "rwcp_run s [] = Some (s, [])"
| "rwcp_run s (d # ds) =
     (case RwcpServerHandleMessage s (Some d) of
        None \<Rightarrow> None
      | Some (st, s', outs) \<Rightarrow>
          (case rwcp_run s' ds of None \<Rightarrow> None | Some (s'', outs') \<Rightarrow> Some (s'', outs @ outs')))"

fun payloads :: "rwcp_out list \<Rightarrow> u8 list list" where
  "payloads [] = []"
| "payloads (ProcessCommand p # os) = p # payloads os"
| "payloads (Notify h # os) = payloads os"

definition acks :: "rwcp_out list \<Rightarrow> u8 set" where
  "acks os = {h. Notify h \<in> set os \<and> h AND RWCP_COMMAND_MASK = RWCP_SERVER_CMD_DATA_ACK}"

fun advance :: "nat \<Rightarrow> nat list \<Rightarrow> nat" where
  "advance k [] = k"
| "advance k (i # is) = advance (if i = Suc k then Suc k else k) is"

fun windowed :: "nat \<Rightarrow> nat list \<Rightarrow> bool" where
  "windowed k [] = True"
| "windowed k (i # is) = (in_window k i \<and> windowed (if i = Suc k then Suc k else k) is)"

lemma payloads_append [simp]: "payloads (xs @ ys) = payloads xs @ payloads ys"
  by (induction xs rule: payloads.induct) auto

lemma payloads_notify [simp]: "payloads (rwcpSendNotification a b) = []"
  by (simp add: rwcpSendNotification_def)

lemma acks_append [simp]: "acks (xs @ ys) = acks xs \<union> acks ys"
  by (auto simp: acks_def)

lemma advance_mono: "k \<le> advance k is"
  by (induction "is" arbitrary: k) (auto intro: Suc_leD)

lemma advance_append [simp]: "advance k (xs @ ys) = advance (advance k xs) ys"
  by (induction xs arbitrary: k) auto

lemma windowed_append [simp]: "windowed k (xs @ ys) = (windowed k xs \<and> windowed (advance k xs) ys)"
  by (induction xs arbitrary: k) auto

lemma advance_upto [simp]: "k \<le> n \<Longrightarrow> advance k [Suc k..<Suc n] = n"
proof (induction "n - k" arbitrary: k)
  case (Suc d)
  then have "[Suc k..<Suc n] = Suc k # [Suc (Suc k)..<Suc n]"
    by (simp add: upt_conv_Cons del: upt_Suc)
  with Suc.hyps(1) [of "Suc k"] Suc.hyps(2) Suc.prems show ?case
    by (simp del: upt_Suc)
qed simp

lemma windowed_upto [simp]: "k \<le> n \<Longrightarrow> windowed k [Suc k..<Suc n]"
proof (induction "n - k" arbitrary: k)
  case (Suc d)
  then have "[Suc k..<Suc n] = Suc k # [Suc (Suc k)..<Suc n]"
    by (simp add: upt_conv_Cons del: upt_Suc)
  with Suc.hyps(1) [of "Suc k"] Suc.hyps(2) Suc.prems show ?case
    by (simp add: in_window_def del: upt_Suc)
qed simp

lemma gap_not_ack: "acks (rwcpGap w) = {}"
proof -
  have "((w AND 0x3f) OR 0xc0) AND 0xc0 = (0xc0 :: u8)"
    by (simp add: bit.conj_disj_distrib2 and.assoc)
  then show ?thesis
    by (auto simp: acks_def rwcp_notify_defs rwcp_commands)
qed

text \<open>One step of the run, in the form the stream induction uses.\<close>

lemma synced_step:
  assumes "synced s0 k s" and "in_window k i"
  obtains st s' outs where
    "RwcpServerHandleMessage s (Some (data_segment s0 pl i)) = Some (st, s', outs)"
    "synced s0 (if i = Suc k then Suc k else k) s'"
    "payloads outs = (if i = Suc k then [pl i] else [])"
    "acks outs \<subseteq> (if i \<le> Suc k then {seq_of s0 i} else {})"
proof -
  let ?r = "RwcpServerHandleMessage s (Some (data_segment s0 pl i))"
  have keeps: "synced s0 (if i = Suc k then Suc k else k) (fst (snd (the ?r)))"
    using handle_synced_keeps [OF assms] handle_synced [OF assms, of pl]
    by (metis option.sel prod.collapse)
  have p: "payloads (snd (snd (the ?r))) = (if i = Suc k then [pl i] else [])"
    unfolding handle_synced [OF assms] by (auto simp: rwcpGap_def)
  have a: "acks (snd (snd (the ?r))) \<subseteq> (if i \<le> Suc k then {seq_of s0 i} else {})"
    unfolding handle_synced [OF assms] using gap_not_ack by (auto simp: acks_def)
  have r: "?r = Some (fst (the ?r), fst (snd (the ?r)), snd (snd (the ?r)))"
    unfolding handle_synced [OF assms] by simp
  show thesis by (rule that [OF r keeps p a])
qed

lemma rwcp_run_synced:
  assumes "synced s0 k s" and "windowed k is"
  shows "\<exists>s' outs. rwcp_run s (map (data_segment s0 pl) is) = Some (s', outs)
     \<and> synced s0 (advance k is) s'
     \<and> payloads outs = map pl [Suc k..<Suc (advance k is)]
     \<and> acks outs \<subseteq> seq_of s0 ` {i \<in> set is. i \<le> advance k is}"
  using assms
proof (induction "is" arbitrary: k s)
  case Nil
  then show ?case by (simp add: acks_def)
next
  case (Cons i "is")
  let ?k = "if i = Suc k then Suc k else k"
  obtain st s1 o1 where step:
    "RwcpServerHandleMessage s (Some (data_segment s0 pl i)) = Some (st, s1, o1)"
    "synced s0 ?k s1" "payloads o1 = (if i = Suc k then [pl i] else [])"
    "acks o1 \<subseteq> (if i \<le> Suc k then {seq_of s0 i} else {})"
    using synced_step [of s0 k s i pl] Cons.prems by auto
  obtain s2 o2 where rest:
    "rwcp_run s1 (map (data_segment s0 pl) is) = Some (s2, o2)"
    "synced s0 (advance ?k is) s2"
    "payloads o2 = map pl [Suc ?k..<Suc (advance ?k is)]"
    "acks o2 \<subseteq> seq_of s0 ` {j \<in> set is. j \<le> advance ?k is}"
    using Cons.IH [OF step(2)] Cons.prems(2) by auto
  have up: "[Suc k..<Suc (advance ?k is)] =
      (if i = Suc k then [Suc k] else []) @ [Suc ?k..<Suc (advance ?k is)]"
    using advance_mono [of ?k "is"] by (auto simp: upt_conv_Cons simp del: upt_Suc split: if_splits)
  have "payloads (o1 @ o2) = map pl [Suc k..<Suc (advance k (i # is))]"
    using step(3) rest(3) up by (auto simp del: upt_Suc split: if_splits)
  moreover have "acks (o1 @ o2) \<subseteq> seq_of s0 ` {j \<in> set (i # is). j \<le> advance k (i # is)}"
    using step(4) rest(4) advance_mono [of ?k "is"] by (auto split: if_splits)
  ultimately show ?case
    using step(1) rest(1,2) by simp
qed

section \<open>Every operation keeps six-bit sequence numbers\<close>

definition rwcp_wf :: "server_data \<Rightarrow> bool" where
  "rwcp_wf s \<longleftrightarrow> unat (last_sequence_number s) < RWCP_SEQUENCE_NUMBER_MAX"

lemma masked_sequence_bound: "unat (w AND RWCP_SEQUENCE_MASK) < 64"
proof -
  have "w AND RWCP_SEQUENCE_MASK = take_bit 6 w"
    by (simp add: RWCP_SEQUENCE_MASK_def take_bit_eq_mask mask_eq_exp_minus_1)
  moreover have "unat (take_bit 6 w) < 64"
    by (simp only: unsigned_take_bit_eq) (simp add: take_bit_eq_mod)
  ultimately show ?thesis
    by (simp only:)
qed

lemma handleDataSegment_wf:
  "handleDataSegment s sq d = (ty, s', outs) \<Longrightarrow> rwcp_wf s \<Longrightarrow> unat sq < 64 \<Longrightarrow> rwcp_wf s'"
  by (auto simp: handleDataSegment_def rwcp_wf_def split: if_splits)

lemma handle_wf:
  "unat sq < 64 \<Longrightarrow> rwcp_wf s \<Longrightarrow> rwcp_wf (fst (snd (handle_listen s c sq)))"
  "unat sq < 64 \<Longrightarrow> rwcp_wf s \<Longrightarrow> rwcp_wf (fst (snd (handle_syn_rcvd s c sq d)))"
  "unat sq < 64 \<Longrightarrow> rwcp_wf s \<Longrightarrow> rwcp_wf (fst (snd (handle_established s c sq d)))"
  by (auto simp: handle_listen_def handle_syn_rcvd_def handle_established_def handleDataSegment_def
      rwcp_wf_def Let_def split: if_splits prod.splits)

section \<open>Properties\<close>

text \<open>
  C1: in-order delivery. In a synchronised session, whatever the client loses, repeats or
  reorders within the receive window, the server never fails, the payloads it hands to the
  upgrade are exactly the segments following the synchronisation point, in order, without
  gap or duplicate, and the session stays synchronised at the last one.
\<close>

theorem rwcp_in_order_delivery:
  assumes "synced s0 k s" and "windowed k is"
  shows "\<exists>s' outs. rwcp_run s (map (data_segment s0 pl) is) = Some (s', outs)
     \<and> payloads outs = map pl [Suc k..<Suc (advance k is)]
     \<and> synced s0 (advance k is) s'"
  using rwcp_run_synced [OF assms, of pl] by blast

definition rwcp_demo :: server_data where
  "rwcp_demo = \<lparr>protocol_state = RWCP_ESTABLISHED, out_of_sequence_status = False,
     last_sequence_number = 62, rwcp_upgrade_header_size = 4, accept_segments = True,
     client_task = NULL_TASK\<rparr>"

lemma rwcp_demo_synced: "synced 62 0 rwcp_demo"
  by (simp add: synced_def rwcp_demo_def seq_of_def)

theorem rwcp_in_order_delivery_witness:
  "\<exists>s' outs. rwcp_run rwcp_demo (map (data_segment 62 (\<lambda>i. [of_nat i])) [1, 3, 1, 2, 3]) = Some (s', outs)
     \<and> payloads outs = [[1], [2], [3]] \<and> synced 62 3 s'"
proof -
  have w: "windowed 0 [1, 3, 1, 2, 3]" by (simp add: in_window_def)
  have a: "advance 0 [1, 3, 1, 2, 3] = 3" by simp
  have p: "map (\<lambda>i. [of_nat i :: u8]) [Suc 0..<Suc 3] = [[1], [2], [3]]" by (simp add: upt_rec)
  show ?thesis
    using rwcp_in_order_delivery [OF rwcp_demo_synced w, of "\<lambda>i. [of_nat i]"] unfolding a p .
qed

text \<open>
  The receiver of Go-Back-N, over the unbounded indices of the stream: it has everything up to \<open>k\<close>,
  and \<open>told\<close> says whether it has reported the present gap. The next segment is acknowledged and
  delivered and closes the gap; a segment further ahead is dropped, and the first one of a gap reports the
  last segment received; a segment it has already is acknowledged again.
\<close>

datatype gbn_out = Ack nat | Gap nat | Deliver nat

fun gbn_run :: "nat \<Rightarrow> bool \<Rightarrow> nat list \<Rightarrow> gbn_out list" where
  "gbn_run k told [] = []"
| "gbn_run k told (i # is) =
     (if i = Suc k then Ack i # Deliver i # gbn_run i False is
      else if k < i then (if told then [] else [Gap k]) @ gbn_run k True is
      else Ack i # gbn_run k told is)"

text \<open>How the outputs look on the wire and to the upgrade.\<close>

definition gbn_wire :: "nat \<Rightarrow> (nat \<Rightarrow> u8 list) \<Rightarrow> gbn_out \<Rightarrow> rwcp_out" where
  "gbn_wire s0 pl x =
     (case x of
        Ack i \<Rightarrow> Notify (seq_of s0 i)
      | Gap k \<Rightarrow> Notify (seq_of s0 k OR 0xc0)
      | Deliver i \<Rightarrow> ProcessCommand (pl i))"

lemma rwcpGap_seq_of: "rwcpGap (seq_of s0 k) = [Notify (seq_of s0 k OR 0xc0)]"
proof -
  have "RWCP_SERVER_CMD_GAP AND RWCP_COMMAND_MASK = 0xc0" by (simp add: rwcp_commands)
  then show ?thesis by (simp add: rwcpGap_def rwcpSendNotification_def)
qed

lemma rwcp_run_gbn:
  assumes "synced s0 k s" and "windowed k is"
  shows "\<exists>s'. rwcp_run s (map (data_segment s0 pl) is)
       = Some (s', map (gbn_wire s0 pl) (gbn_run k (out_of_sequence_status s) is))
     \<and> synced s0 (advance k is) s'"
  using assms
proof (induction "is" arbitrary: k s)
  case (Cons i "is")
  let ?k = "if i = Suc k then Suc k else k"
  let ?s = "if i = Suc k then s\<lparr>out_of_sequence_status := False, last_sequence_number := seq_of s0 i\<rparr>
    else if k < i then s\<lparr>out_of_sequence_status := True\<rparr> else s"
  have w: "in_window k i" "windowed ?k is" using Cons.prems(2) by simp_all
  have sy: "synced s0 ?k ?s" using Cons.prems(1) by (simp add: synced_def)
  from Cons.IH [OF sy w(2)] obtain s' where s': "rwcp_run ?s (map (data_segment s0 pl) is)
       = Some (s', map (gbn_wire s0 pl) (gbn_run ?k (out_of_sequence_status ?s) is))"
    "synced s0 (advance ?k is) s'" by blast
  then show ?case
    by (simp add: handle_synced [OF Cons.prems(1) w(1)] gbn_wire_def rwcpGap_seq_of split: if_splits)
qed simp

text \<open>The first data segment after a SYN is handled as in an established session without a gap.\<close>

lemma first_data_segment:
  assumes "protocol_state s = RWCP_SYN_RCVD"
  shows "RwcpServerHandleMessage s (Some (data_segment s0 pl i))
    = RwcpServerHandleMessage (s\<lparr>out_of_sequence_status := False, protocol_state := RWCP_ESTABLISHED\<rparr>)
        (Some (data_segment s0 pl i))"
proof -
  have "RWCP_CLIENT_CMD_DATA \<noteq> RWCP_CLIENT_CMD_RST" "RWCP_CLIENT_CMD_DATA \<noteq> RWCP_CLIENT_CMD_SYN"
    by (simp_all add: rwcp_commands)
  then show ?thesis
    using assms by (simp add: RwcpServerHandleMessage_def data_segment_def handle_syn_rcvd_def handle_established_def
      handleDataSegment_def isNextSequence_def nextExpectedSequenceNumber_def isOutOfSequence_def Let_def)
qed

definition syn_segment :: "nat \<Rightarrow> u8 list \<Rightarrow> u8 list" where
  "syn_segment s0 rest = (seq_of s0 0 OR 0x40) # rest"

lemma syn_header:
  "(seq_of s0 i OR 0x40) AND RWCP_SEQUENCE_MASK = seq_of s0 i"
  "(seq_of s0 i OR 0x40) AND RWCP_COMMAND_MASK = RWCP_CLIENT_CMD_SYN"
  "rwcpSynAck (seq_of s0 i) = [Notify (seq_of s0 i OR 0x40)]"
  using seq_of_header [of s0 i]
  by (simp_all add: bit.conj_disj_distrib2 rwcpSynAck_def rwcpSendNotification_def) (simp_all add: rwcp_commands)

lemma handle_syn:
  assumes "protocol_state s = RWCP_LISTEN \<or> protocol_state s = RWCP_SYN_RCVD"
  shows "RwcpServerHandleMessage s (Some (syn_segment s0 rest))
    = Some (False, s\<lparr>last_sequence_number := seq_of s0 0, protocol_state := RWCP_SYN_RCVD\<rparr>, [Notify (seq_of s0 0 OR 0x40)])"
proof -
  have "isRWwcpControlCmd RWCP_CLIENT_CMD_SYN" by (simp add: isRWwcpControlCmd_def)
  with assms show ?thesis
    by (cases s) (auto simp: RwcpServerHandleMessage_def syn_segment_def syn_header handle_listen_def
      handle_syn_rcvd_def Let_def)
qed

lemma syns_run:
  assumes "protocol_state s = RWCP_LISTEN \<or> protocol_state s = RWCP_SYN_RCVD"
  shows "rwcp_run s (replicate (Suc n) (syn_segment s0 rest) @ ds)
    = map_option (map_prod id ((@) (replicate (Suc n) (Notify (seq_of s0 0 OR 0x40)))))
        (rwcp_run (s\<lparr>last_sequence_number := seq_of s0 0, protocol_state := RWCP_SYN_RCVD\<rparr>) ds)"
  using assms
proof (induction n arbitrary: s)
  case 0
  then show ?case by (simp add: handle_syn split: option.splits prod.splits)
next
  case (Suc n)
  let ?s = "s\<lparr>last_sequence_number := seq_of s0 0, protocol_state := RWCP_SYN_RCVD\<rparr>"
  have "rwcp_run s (replicate (Suc (Suc n)) (syn_segment s0 rest) @ ds)
      = map_option (map_prod id ((@) [Notify (seq_of s0 0 OR 0x40)])) (rwcp_run ?s (replicate (Suc n) (syn_segment s0 rest) @ ds))"
    using handle_syn [OF Suc.prems, of s0 rest] by (simp split: option.splits prod.splits)
  also have "rwcp_run ?s (replicate (Suc n) (syn_segment s0 rest) @ ds)
      = map_option (map_prod id ((@) (replicate (Suc n) (Notify (seq_of s0 0 OR 0x40))))) (rwcp_run ?s ds)"
  proof -
    have same: "?s\<lparr>last_sequence_number := seq_of s0 0, protocol_state := RWCP_SYN_RCVD\<rparr> = ?s" by simp
    have "protocol_state ?s = RWCP_LISTEN \<or> protocol_state ?s = RWCP_SYN_RCVD" by simp
    from Suc.IH [OF this] show ?thesis unfolding same .
  qed
  finally show ?case by (cases "rwcp_run ?s ds") auto
qed

text \<open>
  C2: The server implements Go-Back-N, with everything it sends. From its initialisation, for a client that starts a
  session with a SYN, sent once or repeated, and then sends data segments in whatever order, with
  losses and repetitions, within the receive window, the server never fails, and all it sends and
  delivers is exactly: one SYN ACK for each SYN, and then, with six-bit numbers for the indices of the stream, the
  acknowledgements, gap reports and deliveries of the Go-Back-N receiver, in this order; in
  particular there is one gap report for each gap, and one acknowledgement for each duplicate.
\<close>

theorem rwcp_refines_go_back_n:
  assumes "windowed 0 is"
  shows "\<exists>s'. rwcp_run (RwcpServerInit s hs) (replicate (Suc n) (syn_segment s0 rest) @ map (data_segment s0 pl) is)
    = Some (s', replicate (Suc n) (Notify (seq_of s0 0 OR 0x40)) @ map (gbn_wire s0 pl) (gbn_run 0 False is))"
proof -
  let ?i = "RwcpServerInit s hs"
  let ?s = "?i\<lparr>last_sequence_number := seq_of s0 0, protocol_state := RWCP_SYN_RCVD\<rparr>"
  let ?e = "?s\<lparr>out_of_sequence_status := False, protocol_state := RWCP_ESTABLISHED\<rparr>"
  have e: "synced s0 0 ?e" "protocol_state ?i = RWCP_LISTEN" by (simp_all add: synced_def RwcpServerInit_def)
  have "\<exists>s'. rwcp_run ?s (map (data_segment s0 pl) is) = Some (s', map (gbn_wire s0 pl) (gbn_run 0 False is))"
  proof (cases "is")
    case (Cons i js)
    have "rwcp_run ?s (map (data_segment s0 pl) is) = rwcp_run ?e (map (data_segment s0 pl) is)"
      using first_data_segment [of ?s s0 pl i] by (simp add: Cons)
    with rwcp_run_gbn [OF e(1) assms, of pl] show ?thesis by auto
  qed simp
  then show ?thesis using syns_run [of ?i n s0 rest] e(2) by auto
qed

text \<open>
  Segment 2 comes first, twice, then segments 1, 2, 1 and 3, after two SYNs numbered 62: one gap report
  with the number 62, and the numbers wrap to 0 and 1.
\<close>

theorem rwcp_refines_go_back_n_witness:
  "\<exists>s'. rwcp_run (RwcpServerInit rwcp_demo 4)
      (replicate 2 (syn_segment 62 []) @ map (data_segment 62 (\<lambda>i. [of_nat i])) [2, 2, 1, 2, 1, 3])
    = Some (s', [Notify 0x7e, Notify 0x7e, Notify 0xfe, Notify 63, ProcessCommand [1], Notify 0, ProcessCommand [2],
        Notify 63, Notify 1, ProcessCommand [3]])"
proof -
  have w: "windowed 0 [2, 2, 1, 2, 1, 3]" by (simp add: in_window_def)
  have q: "seq_of 62 0 = 62" "seq_of 62 (Suc 0) = 63" "seq_of 62 2 = 0" "seq_of 62 3 = 1" by (simp_all add: seq_of_def)
  have g: "gbn_run 0 False [2, 2, 1, 2, 1, 3] = [Gap 0, Ack 1, Deliver 1, Ack 2, Deliver 2, Ack 1, Ack 3, Deliver 3]"
    by simp
  have r: "replicate (Suc 1) x = [x, x]" "replicate 2 x = [x, x]" for x :: 'a by (simp_all add: numeral_2_eq_2)
  from rwcp_refines_go_back_n [OF w, of rwcp_demo 4 1 62 "[]" "\<lambda>i. [of_nat i]"]
  show ?thesis unfolding r g by (simp add: gbn_wire_def q r)
qed

text \<open>
  acknowledgements are truthful. Every DATA ACK sent in a synchronised session carries the
  number of a segment the client did send and whose payload has been delivered.
\<close>

lemma rwcp_acks_only_delivered:
  assumes "synced s0 k s" and "windowed k is"
    and "rwcp_run s (map (data_segment s0 pl) is) = Some (s', outs)" and "h \<in> acks outs"
  shows "\<exists>i \<in> set is. h = seq_of s0 i \<and> (i \<le> k \<or> pl i \<in> set (payloads outs))"
proof -
  obtain i where i: "i \<in> set is" "i \<le> advance k is" "h = seq_of s0 i"
    using rwcp_run_synced [OF assms(1,2), of pl] assms(3,4) by auto
  moreover have "payloads outs = map pl [Suc k..<Suc (advance k is)]"
    using rwcp_run_synced [OF assms(1,2), of pl] assms(3) by auto
  ultimately show ?thesis
    by (intro bexI [of _ i]) (auto simp del: upt_Suc simp: not_le)
qed

theorem rwcp_acks_only_delivered_witness:
  "\<exists>i \<in> set [2, 1, 2]. (63 :: u8) = seq_of 62 i \<and> (i \<le> 0 \<or> [of_nat i] \<in> set [[1], [2 :: u8]])"
proof -
  obtain s' outs where run:
    "rwcp_run rwcp_demo (map (data_segment 62 (\<lambda>i. [of_nat i])) [2, 1, 2]) = Some (s', outs)"
    and outs: "outs = [Notify 254, Notify 63, ProcessCommand [1], Notify 0, ProcessCommand [2]]"
    by (simp add: rwcp_demo_def data_segment_def seq_of_def RwcpServerHandleMessage_def
        rwcp_commands rwcp_notify_defs handle_established_def handleDataSegment_def
        isNextSequence_def nextExpectedSequenceNumber_def isOutOfSequence_def c_rem_def
        isRWwcpControlCmd_def)
  show ?thesis
    using rwcp_acks_only_delivered [OF rwcp_demo_synced _ run, of 63] outs
    by (simp add: in_window_def acks_def rwcp_commands)
qed

text \<open>
  only a DATA segment with the expected number, received while the server accepts
  segments and has seen a SYN, reaches the upgrade, and it moves the session forward.
\<close>

lemma rwcp_delivery_guard:
  assumes "RwcpServerHandleMessage s (Some (h # p)) = Some (st, s', outs)"
    and "payloads outs \<noteq> []"
  shows "payloads outs = [p] \<and> accept_segments s \<and> protocol_state s \<noteq> RWCP_LISTEN
     \<and> h AND RWCP_COMMAND_MASK = RWCP_CLIENT_CMD_DATA
     \<and> h AND RWCP_SEQUENCE_MASK = nextExpectedSequenceNumber s (last_sequence_number s)
     \<and> protocol_state s' = RWCP_ESTABLISHED \<and> st
     \<and> last_sequence_number s' = h AND RWCP_SEQUENCE_MASK"
  using assms
  by (auto simp: RwcpServerHandleMessage_def handle_listen_def handle_syn_rcvd_def
      handle_established_def handleDataSegment_def Let_def rwcpSynAck_def rwcpRstAck_def rwcpRst_def
      rwcpDataAck_def rwcpGap_def isNextSequence_def nextExpectedSequenceNumber_def
      isRWwcpControlCmd_def rwcp_commands split: rwcp_protocol_state.splits if_splits)

theorem rwcp_delivery_guard_witness:
  "accept_segments rwcp_demo \<and> protocol_state rwcp_demo \<noteq> RWCP_LISTEN"
  using rwcp_delivery_guard [of rwcp_demo 63 "[7]"]
  by (simp add: rwcp_demo_def RwcpServerHandleMessage_def
        rwcp_commands rwcp_notify_defs handle_established_def handleDataSegment_def
        isNextSequence_def nextExpectedSequenceNumber_def c_rem_def isRWwcpControlCmd_def)

text \<open>
  the sequence number the server keeps stays in the six-bit space through every operation
  of the server, whatever the bytes of the message.
\<close>

lemma rwcp_sequence_number_bounded:
  assumes "rwcp_wf s"
  shows "(\<forall>data. pred_option (\<lambda>(st, s', outs). rwcp_wf s') (RwcpServerHandleMessage s data))
     \<and> rwcp_wf (RwcpServerFlowControl s accept) \<and> rwcp_wf (RwcpSetClientTask s t)
     \<and> rwcp_wf (RwcpServerInit s0 hs)"
proof -
  have "rwcp_wf s'" if "RwcpServerHandleMessage s data = Some (st, s', outs)" for data st s' outs
  proof -
    have "data \<noteq> Some []"
      using that by (auto simp: RwcpServerHandleMessage_def)
    then obtain h p where d: "data = Some (h # p) \<or> data = None"
      by (metis list.exhaust not_Some_eq)
    let ?q = "h AND RWCP_SEQUENCE_MASK" and ?c = "h AND RWCP_COMMAND_MASK"
    have "s' = s \<or> s' = fst (snd (handle_listen s ?c ?q))
        \<or> s' = fst (snd (handle_syn_rcvd s ?c ?q (h # p)))
        \<or> s' = fst (snd (handle_established s ?c ?q (h # p)))"
      using that d
      by (cases "protocol_state s")
        (auto simp: RwcpServerHandleMessage_def Let_def split_beta dest!: arg_cong [of _ _ fst])
    then show ?thesis
      using assms handle_wf [OF masked_sequence_bound [of h] assms] by auto
  qed
  then have "pred_option (\<lambda>(st, s', outs). rwcp_wf s') (RwcpServerHandleMessage s data)" for data
    by (cases "RwcpServerHandleMessage s data") auto
  then show ?thesis
    using assms
    by (simp add: rwcp_wf_def RwcpServerFlowControl_def RwcpSetClientTask_def RwcpServerInit_def)
qed

theorem rwcp_sequence_number_bounded_witness:
  "rwcp_wf rwcp_demo \<and> rwcp_wf (RwcpServerFlowControl rwcp_demo False)"
  using rwcp_sequence_number_bounded [of rwcp_demo False]
  by (simp add: rwcp_demo_def rwcp_wf_def)

end
