(* ===== verification/MessageQueue.thy ===== *)
theory MessageQueue
  imports Prelude "HOL-Library.Multiset"
begin

text \<open>
  The message scheduler of the firmware, \<open>trap_api_message.c\<close>: one time-ordered queue of
  unicast and multicast messages, each optionally blocked on a condition word, a list of
  delivered messages that are still retained, and the cancel, flush and query traps.
  \<open>vm\<close> holds the static variables of the file. The queue and the delivered list are the
  linked lists of the code, head first; \<open>next\<close> pointers and frees are not represented.
  What the code reads from outside is an argument: the millisecond clock (\<open>now\<close>), the
  memory the condition pointers point into (\<open>mem\<close>), and the handlers of the application
  tasks. \<open>put_message_ok\<close> is the answer of the scheduler's \<open>put_message\<close>.
\<close>

section \<open>Messages\<close>

text \<open>The union \<open>t\<close> with its discriminator \<open>multicast\<close>.\<close>

datatype recipients = Unicast task | Multicast "task list"

datatype CONDITION_WIDTH = CONDITION_WIDTH_UNUSED | CONDITION_WIDTH_16BIT | CONDITION_WIDTH_32BIT

text \<open>
  The payloads whose contents the queue itself inspects, and the application's own
  (\<open>App\<close>). A message is the address of its payload with the payload;
  \<open>None\<close> is the NULL message. The ids whose payload the queue reads are sent by the
  system, always with their payload; the model compares them as unequal when it is missing.
\<close>

datatype 'm message_body =
    More_data nat
  | More_space nat
  | Usb_suspended bool
  | Usb_config u16
  | Usb_alt_interface u8 u8
  | App 'm

type_synonym 'm msg_data = "nat \<times> 'm message_body"

record 'm app_message =
  am_due :: u32
  am_t :: recipients
  am_message :: "'m msg_data option"
  am_condition_addr :: "nat option"
  am_id :: message_id
  am_c_width :: CONDITION_WIDTH
  am_refcount :: u8

type_synonym 'm msg_queue = "'m app_message list"

record sink_source_hdlr_entry =
  hdlr_sink :: nat
  hdlr_source :: nat
  hdlr_task :: task

record 'm vm =
  vm_message_queue :: "'m msg_queue"
  vm_delivered_messages :: "'m msg_queue"
  sched_event_pending :: bool
  put_message_ok :: bool
  registered_hdlrs :: "task list"
  sink_source_hdlrs :: "sink_source_hdlr_entry list"
  run_timer :: "u32 option"

definition INVALIDATED_TASK :: task where "INVALIDATED_TASK = 1"
definition MAX_MULTICAST_RECIPIENTS :: u8 where "MAX_MULTICAST_RECIPIENTS = 15"
definition SYSTEM_MESSAGE_BASE :: message_id where "SYSTEM_MESSAGE_BASE = 0x8000"
definition MESSAGE_MORE_DATA :: message_id where "MESSAGE_MORE_DATA = SYSTEM_MESSAGE_BASE + 33"
definition MESSAGE_MORE_SPACE :: message_id where "MESSAGE_MORE_SPACE = SYSTEM_MESSAGE_BASE + 34"
definition MESSAGE_USB_ENUMERATED :: message_id where
  "MESSAGE_USB_ENUMERATED = SYSTEM_MESSAGE_BASE + 43"
definition MESSAGE_USB_SUSPENDED :: message_id where
  "MESSAGE_USB_SUSPENDED = SYSTEM_MESSAGE_BASE + 44"
definition MESSAGE_PSFL_FAULT :: message_id where "MESSAGE_PSFL_FAULT = SYSTEM_MESSAGE_BASE + 46"
definition MESSAGE_USB_DECONFIGURED :: message_id where
  "MESSAGE_USB_DECONFIGURED = SYSTEM_MESSAGE_BASE + 47"
definition MESSAGE_USB_ALT_INTERFACE :: message_id where
  "MESSAGE_USB_ALT_INTERFACE = SYSTEM_MESSAGE_BASE + 48"
definition MESSAGE_USB_ATTACHED :: message_id where
  "MESSAGE_USB_ATTACHED = SYSTEM_MESSAGE_BASE + 49"
definition MESSAGE_USB_DETACHED :: message_id where
  "MESSAGE_USB_DETACHED = SYSTEM_MESSAGE_BASE + 50"
definition MESSAGE_TX_POWER_CHANGE_EVENT :: message_id where
  "MESSAGE_TX_POWER_CHANGE_EVENT = SYSTEM_MESSAGE_BASE + 52"
definition D_IMMEDIATE :: u32 where "D_IMMEDIATE = -1"

lemmas system_message_ids =
  SYSTEM_MESSAGE_BASE_def MESSAGE_MORE_DATA_def MESSAGE_MORE_SPACE_def MESSAGE_USB_ENUMERATED_def
  MESSAGE_USB_SUSPENDED_def MESSAGE_PSFL_FAULT_def MESSAGE_USB_DECONFIGURED_def
  MESSAGE_USB_ALT_INTERFACE_def MESSAGE_USB_ATTACHED_def MESSAGE_USB_DETACHED_def
  MESSAGE_TX_POWER_CHANGE_EVENT_def

definition is_multicast :: "'m app_message \<Rightarrow> bool" where
  "is_multicast a = (case am_t a of Unicast _ \<Rightarrow> False | Multicast _ \<Rightarrow> True)"

text \<open>\<open>a->t.task == task\<close>: false for a multicast message, whose union holds a list.\<close>

definition unicast_to :: "task \<Rightarrow> 'm app_message \<Rightarrow> bool" where
  "unicast_to t a = (am_t a = Unicast t)"

section \<open>Time and conditions\<close>

text \<open>The difference of two times, in 32-bit two's complement.\<close>

definition VM_DIFF :: "u32 \<Rightarrow> u32 \<Rightarrow> int" where
  "VM_DIFF t u = sint (t - u)"

definition get_message_condition_value ::
  "(nat \<Rightarrow> u32) \<Rightarrow> nat option \<Rightarrow> CONDITION_WIDTH \<Rightarrow> u32" where
  "get_message_condition_value mem c c_width =
     (case c of
        None \<Rightarrow> 0
      | Some a \<Rightarrow>
          (case c_width of
             CONDITION_WIDTH_16BIT \<Rightarrow> mem a AND 0xFFFF
           | CONDITION_WIDTH_32BIT \<Rightarrow> mem a
           | CONDITION_WIDTH_UNUSED \<Rightarrow> 0))"

definition unblocked :: "(nat \<Rightarrow> u32) \<Rightarrow> 'm app_message \<Rightarrow> bool" where
  "unblocked mem a = (am_condition_addr a = None
     \<or> get_message_condition_value mem (am_condition_addr a) (am_c_width a) = 0)"

section \<open>Combining messages\<close>

definition similar :: "'m app_message \<Rightarrow> 'm app_message \<Rightarrow> bool" where
  "similar a b =
     (if is_multicast a then False
      else if am_t a = am_t b \<and> am_id a = am_id b then
        (if am_id a = MESSAGE_MORE_DATA then
           (case (am_message a, am_message b) of
              (Some (_, More_data x), Some (_, More_data y)) \<Rightarrow> x = y | _ \<Rightarrow> False)
         else if am_id a = MESSAGE_MORE_SPACE then
           (case (am_message a, am_message b) of
              (Some (_, More_space x), Some (_, More_space y)) \<Rightarrow> x = y | _ \<Rightarrow> False)
         else am_id a = MESSAGE_PSFL_FAULT \<or> am_id a = MESSAGE_TX_POWER_CHANGE_EVENT)
      else False)"

text \<open>\<open>*ma = *mb\<close>: the payload is overwritten, the address stays.\<close>

definition copy_payload :: "'m app_message \<Rightarrow> 'm app_message \<Rightarrow> 'm app_message option" where
  "copy_payload a b =
     (case (am_message a, am_message b) of
        (Some (p, _), Some (_, d)) \<Rightarrow> Some (a\<lparr>am_message := Some (p, d)\<rparr>)
      | _ \<Rightarrow> None)"

text \<open>\<open>Some a'\<close> is the overwritten message, when \<open>replace\<close> returns TRUE.\<close>

definition replace_msg :: "'m app_message \<Rightarrow> 'm app_message \<Rightarrow> 'm app_message option" where
  "replace_msg a b =
     (if is_multicast a then None
      else if am_t a \<noteq> am_t b then None
      else if am_id a = MESSAGE_USB_SUSPENDED then
        (if am_id a = am_id b then copy_payload a b else None)
      else if am_id a = MESSAGE_USB_ENUMERATED \<or> am_id a = MESSAGE_USB_DECONFIGURED then
        (if am_id b = MESSAGE_USB_ENUMERATED \<or> am_id b = MESSAGE_USB_DECONFIGURED
         then map_option (\<lambda>a'. a'\<lparr>am_id := am_id b\<rparr>) (copy_payload a b) else None)
      else if am_id a = MESSAGE_USB_ATTACHED \<or> am_id a = MESSAGE_USB_DETACHED then
        (if am_id b = MESSAGE_USB_ATTACHED \<or> am_id b = MESSAGE_USB_DETACHED
         then Some (a\<lparr>am_id := am_id b\<rparr>) else None)
      else if am_id a = MESSAGE_USB_ALT_INTERFACE then
        (if am_id a = am_id b then
           (case (am_message a, am_message b) of
              (Some (_, Usb_alt_interface i _), Some (_, Usb_alt_interface j _)) \<Rightarrow>
                (if i = j then copy_payload a b else None)
            | _ \<Rightarrow> None)
         else None)
      else None)"

fun already :: "'m app_message \<Rightarrow> 'm msg_queue \<Rightarrow> bool \<times> 'm msg_queue" where
  "already temp [] = (False, [])"
| "already temp (p # q) =
     (if similar p temp then (True, p # q)
      else case replace_msg p temp of
        Some p' \<Rightarrow> (True, p' # q)
      | None \<Rightarrow> (let (found, q') = already temp q in (found, p # q')))"

text \<open>
  \<open>insert\<close>: walk past every message due no later, drop the new one if it is similar to
  the last of those.
\<close>

fun insert_after :: "'m app_message option \<Rightarrow> 'm app_message \<Rightarrow> 'm msg_queue \<Rightarrow> bool \<times> 'm msg_queue" where
  "insert_after prev a [] =
     (case prev of
        Some p \<Rightarrow> (if similar p a then (False, []) else (True, [a]))
      | None \<Rightarrow> (True, [a]))"
| "insert_after prev a (x # q) =
     (if VM_DIFF (am_due a) (am_due x) \<ge> 0 then
        (let (done, q') = insert_after (Some x) a q in (done, x # q'))
      else case prev of
        Some p \<Rightarrow> (if similar p a then (False, x # q) else (True, a # x # q))
      | None \<Rightarrow> (True, a # x # q))"

definition insert_msg :: "'m app_message \<Rightarrow> 'm msg_queue \<Rightarrow> bool \<times> 'm msg_queue" where
  "insert_msg a q = insert_after None a q"

section \<open>Sending\<close>

definition vm_event_trigger :: "'m vm \<Rightarrow> 'm vm" where
  "vm_event_trigger s =
     (if \<not> sched_event_pending s then s\<lparr>sched_event_pending := put_message_ok s\<rparr> else s)"

text \<open>
  The argument \<open>task\<close> is a pointer to one task or, for a multicast, a NULL-terminated
  array, given here as the list of its tasks (\<open>None\<close> for a NULL array).
  The result is \<open>None\<close> where the code panics. The count of recipients has eight bits: an array of 255
  tasks or more passes the check when the count wraps, but is copied without its terminating NULL, so
  that walking it leaves the copy; the model has the fault here.
\<close>

definition recipients_of :: "task list option \<Rightarrow> bool \<Rightarrow> recipients option" where
  "recipients_of tasks multicast =
     (if multicast then
        (case tasks of
           None \<Rightarrow> None
         | Some [] \<Rightarrow> None
         | Some ts \<Rightarrow>
             (let lc = (1 + of_nat (length ts) :: u8)
              in if lc > MAX_MULTICAST_RECIPIENTS \<or> length ts \<ge> 255 then None else Some (Multicast ts)))
      else (case tasks of Some (t # _) \<Rightarrow> Some (Unicast t) | _ \<Rightarrow> None))"

definition vm_message_send_later ::
  "u32 \<Rightarrow> task list option \<Rightarrow> bool \<Rightarrow> message_id \<Rightarrow> 'm msg_data option \<Rightarrow> u32 \<Rightarrow> nat option
   \<Rightarrow> CONDITION_WIDTH \<Rightarrow> 'm vm \<Rightarrow> 'm vm option" where
  "vm_message_send_later timenow tasks multicast mid message delay c c_width s =
     do {
       t \<leftarrow> recipients_of tasks multicast;
       let a = \<lparr>am_due = delay + timenow, am_t = t, am_message = message,
                am_condition_addr = c, am_id = mid, am_c_width = c_width, am_refcount = 1\<rparr>;
       let (inserted, q) = insert_msg a (vm_message_queue s);
       Some (if inserted then vm_event_trigger (s\<lparr>vm_message_queue := q\<rparr>) else s)
     }"

definition send_message ::
  "u32 \<Rightarrow> task \<Rightarrow> message_id \<Rightarrow> 'm msg_data option \<Rightarrow> 'm vm \<Rightarrow> 'm vm option" where
  "send_message now t mid message s =
     vm_message_send_later now (Some [t]) False mid message D_IMMEDIATE None CONDITION_WIDTH_UNUSED s"

definition D_SEC :: "u32 \<Rightarrow> u32" where "D_SEC s = s * 1000"
definition D_MIN :: "u32 \<Rightarrow> u32" where "D_MIN m = m * 1000 * 60"

definition MessageSendLater ::
  "u32 \<Rightarrow> task \<Rightarrow> message_id \<Rightarrow> 'm msg_data option \<Rightarrow> u32 \<Rightarrow> 'm vm \<Rightarrow> 'm vm option" where
  "MessageSendLater now t mid message delay s =
     vm_message_send_later now (Some [t]) False mid message delay None CONDITION_WIDTH_UNUSED s"

text \<open>\<open>trap_api_extra.c\<close>\<close>

definition MessageSend ::
  "u32 \<Rightarrow> task \<Rightarrow> message_id \<Rightarrow> 'm msg_data option \<Rightarrow> 'm vm \<Rightarrow> 'm vm option" where
  "MessageSend now t mid message s = MessageSendLater now t mid message D_IMMEDIATE s"

definition MessageSendMulticastLater ::
  "u32 \<Rightarrow> task list option \<Rightarrow> message_id \<Rightarrow> 'm msg_data option \<Rightarrow> u32 \<Rightarrow> 'm vm \<Rightarrow> 'm vm option" where
  "MessageSendMulticastLater now tasklist mid message delay s =
     vm_message_send_later now tasklist True mid message delay None CONDITION_WIDTH_UNUSED s"

definition MessageSendConditionally ::
  "u32 \<Rightarrow> task \<Rightarrow> message_id \<Rightarrow> 'm msg_data option \<Rightarrow> nat option \<Rightarrow> 'm vm \<Rightarrow> 'm vm option" where
  "MessageSendConditionally now t mid m c s =
     vm_message_send_later now (Some [t]) False mid m D_IMMEDIATE c CONDITION_WIDTH_16BIT s"

definition MessageSendMulticastConditionally ::
  "u32 \<Rightarrow> task list option \<Rightarrow> message_id \<Rightarrow> 'm msg_data option \<Rightarrow> nat option \<Rightarrow> 'm vm \<Rightarrow> 'm vm option" where
  "MessageSendMulticastConditionally now tlist mid m c s =
     vm_message_send_later now tlist True mid m D_IMMEDIATE c CONDITION_WIDTH_16BIT s"

definition MessageSendConditionallyOnTask ::
  "u32 \<Rightarrow> task \<Rightarrow> message_id \<Rightarrow> 'm msg_data option \<Rightarrow> nat option \<Rightarrow> 'm vm \<Rightarrow> 'm vm option" where
  "MessageSendConditionallyOnTask now t mid m c s =
     vm_message_send_later now (Some [t]) False mid m D_IMMEDIATE c CONDITION_WIDTH_32BIT s"

definition MessageSendMulticastConditionallyOnTask ::
  "u32 \<Rightarrow> task list option \<Rightarrow> message_id \<Rightarrow> 'm msg_data option \<Rightarrow> nat option \<Rightarrow> 'm vm \<Rightarrow> 'm vm option" where
  "MessageSendMulticastConditionallyOnTask now tlist mid m c s =
     vm_message_send_later now tlist True mid m D_IMMEDIATE c CONDITION_WIDTH_32BIT s"

text \<open>Messages from the other processor, dropped when they can be combined.\<close>

definition trap_api_send_message_to_task_filtered ::
  "u32 \<Rightarrow> task \<Rightarrow> message_id \<Rightarrow> 'm msg_data option \<Rightarrow> bool \<Rightarrow> 'm vm \<Rightarrow> 'm vm option" where
  "trap_api_send_message_to_task_filtered now t mid message allow_duplicates s =
     (if t \<noteq> NULL_TASK then
        (if allow_duplicates then send_message now t mid message s
         else
           let temp = \<lparr>am_due = 0, am_t = Unicast t, am_message = message,
                       am_condition_addr = None, am_id = mid,
                       am_c_width = CONDITION_WIDTH_UNUSED, am_refcount = 0\<rparr>;
               (found, q) = already temp (vm_message_queue s)
           in if found then Some (s\<lparr>vm_message_queue := q\<rparr>) else send_message now t mid message s)
      else Some s)"

definition trap_api_send_message_filtered ::
  "u32 \<Rightarrow> nat \<Rightarrow> message_id \<Rightarrow> 'm msg_data option \<Rightarrow> bool \<Rightarrow> 'm vm \<Rightarrow> 'm vm option" where
  "trap_api_send_message_filtered now msg_type mid message allow_duplicates s =
     (if msg_type < length (registered_hdlrs s) then
        trap_api_send_message_to_task_filtered now (registered_hdlrs s ! msg_type) mid message
          allow_duplicates s
      else None)"

definition trap_api_register_message_task :: "task \<Rightarrow> nat \<Rightarrow> 'm vm \<Rightarrow> (task \<times> 'm vm) option" where
  "trap_api_register_message_task t msg_type_id s =
     (if msg_type_id < length (registered_hdlrs s) then
        Some (registered_hdlrs s ! msg_type_id,
              s\<lparr>registered_hdlrs := (registered_hdlrs s)[msg_type_id := t]\<rparr>)
      else None)"

section \<open>Delivery\<close>

text \<open>\<open>app_message_release\<close> on the first message that matches, and on the head.\<close>

fun app_message_release_at :: "('m app_message \<Rightarrow> bool) \<Rightarrow> 'm msg_queue \<Rightarrow> 'm msg_queue option" where
  "app_message_release_at P [] = None"
| "app_message_release_at P (a # q) =
     (if P a then
        (let a' = a\<lparr>am_refcount := am_refcount a - 1\<rparr>
         in Some (if am_refcount a' = 0 then q else a' # q))
      else map_option ((#) a) (app_message_release_at P q))"

definition app_message_release :: "'m msg_queue \<Rightarrow> 'm msg_queue" where
  "app_message_release q =
     (case app_message_release_at (\<lambda>_. True) q of None \<Rightarrow> q | Some q' \<Rightarrow> q')"

text \<open>
  The first message of the queue that no condition blocks, with the queue without it.
\<close>

fun first_unblocked ::
  "(nat \<Rightarrow> u32) \<Rightarrow> 'm msg_queue \<Rightarrow> ('m app_message \<times> 'm msg_queue) option" where
  "first_unblocked mem [] = None"
| "first_unblocked mem (a # q) =
     (if unblocked mem a then Some (a, q)
      else map_option (\<lambda>(m, q'). (m, a # q')) (first_unblocked mem q))"

text \<open>
  The application: the handler of a task, if it has one, and what running it on a message
  does to the queue.
\<close>

type_synonym 'm handlers =
  "task \<Rightarrow> (message_id \<Rightarrow> 'm msg_data option \<Rightarrow> 'm vm \<Rightarrow> 'm vm) option"

definition run_handler ::
  "'m handlers \<Rightarrow> task \<Rightarrow> message_id \<Rightarrow> 'm msg_data option \<Rightarrow> 'm vm \<Rightarrow> 'm vm" where
  "run_handler handler t mid m s = (case handler t of None \<Rightarrow> s | Some h \<Rightarrow> h mid m s)"

fun deliver_all ::
  "'m handlers \<Rightarrow> task list \<Rightarrow> message_id \<Rightarrow> 'm msg_data option \<Rightarrow> 'm vm \<Rightarrow> 'm vm" where
  "deliver_all handler [] mid m s = s"
| "deliver_all handler (t # ts) mid m s =
     deliver_all handler ts mid m
       (if t \<noteq> INVALIDATED_TASK then run_handler handler t mid m s else s)"

definition vm_message_next ::
  "u32 \<Rightarrow> (nat \<Rightarrow> u32) \<Rightarrow> 'm handlers \<Rightarrow> 'm vm \<Rightarrow> u32 \<times> 'm vm" where
  "vm_message_next now mem handler s =
     (case first_unblocked mem (vm_message_queue s) of
        None \<Rightarrow> (-1, s)
      | Some (a, q) \<Rightarrow>
          (let delta = VM_DIFF (am_due a) now
           in if delta > 0 then (word_of_int delta, s)
              else
                let s1 = s\<lparr>vm_message_queue := q,
                            vm_delivered_messages := a # vm_delivered_messages s\<rparr>;
                    s2 = (case am_t a of
                            Unicast t \<Rightarrow>
                              (if t \<noteq> NULL_TASK then run_handler handler t (am_id a) (am_message a) s1
                               else s1)
                          | Multicast ts \<Rightarrow> deliver_all handler ts (am_id a) (am_message a) s1)
                in (0, s2\<lparr>vm_delivered_messages := app_message_release (vm_delivered_messages s2)\<rparr>)))"

text \<open>The argument is the address of the message.\<close>

definition MessageRetain ::
  "message_id \<Rightarrow> nat option \<Rightarrow> 'm vm \<Rightarrow> 'm vm option" where
  "MessageRetain mid m s =
     (case vm_delivered_messages s of
        [] \<Rightarrow> None
      | a # q \<Rightarrow>
          (if m = None \<or> am_id a \<noteq> mid \<or> map_option fst (am_message a) \<noteq> m then None
           else Some (s\<lparr>vm_delivered_messages := a\<lparr>am_refcount := am_refcount a + 1\<rparr> # q\<rparr>)))"

definition MessageFree :: "message_id \<Rightarrow> nat option \<Rightarrow> 'm vm \<Rightarrow> 'm vm" where
  "MessageFree mid data s =
     (if data = None then s
      else case app_message_release_at (\<lambda>a. am_id a = mid \<and> map_option fst (am_message a) = data)
                  (vm_delivered_messages s) of
        Some q \<Rightarrow> s\<lparr>vm_delivered_messages := q\<rparr>
      | None \<Rightarrow> s)"

text \<open>
  The scheduler's handler; the argument is the answer of \<open>get_message\<close>. \<open>run_timer\<close>
  holds the interval of the timer that is running.
\<close>

datatype vm_msg = VM_MSG_STANDARD_RUN | VM_MSG_SIMPLE_EVENT

definition run_timer_limit :: u32 where "run_timer_limit = 0x3fffffff div 1000"

definition trap_api_sched_msg_handler ::
  "u32 \<Rightarrow> (nat \<Rightarrow> u32) \<Rightarrow> 'm handlers \<Rightarrow> vm_msg option \<Rightarrow> 'm vm \<Rightarrow> 'm vm" where
  "trap_api_sched_msg_handler now mem handler got s =
     (case got of
        None \<Rightarrow> s
      | Some mid \<Rightarrow>
          (let s1 = (case mid of
                       VM_MSG_STANDARD_RUN \<Rightarrow> s\<lparr>run_timer := None\<rparr>
                     | VM_MSG_SIMPLE_EVENT \<Rightarrow> s\<lparr>sched_event_pending := False\<rparr>);
               s2 = (if run_timer s1 \<noteq> None then s1\<lparr>run_timer := None\<rparr> else s1);
               (delay, s3) = vm_message_next now mem handler s2
           in if delay = 0 then vm_event_trigger s3
              else if delay \<noteq> -1 then
                s3\<lparr>run_timer := Some ((if delay > run_timer_limit then run_timer_limit else delay)
                                     * 1000)\<rparr>
              else s3))"

section \<open>Handlers of sinks and sources\<close>

definition hdlr_matches :: "nat \<Rightarrow> nat \<Rightarrow> sink_source_hdlr_entry \<Rightarrow> bool" where
  "hdlr_matches sink source e =
     (sink \<noteq> 0 \<and> hdlr_sink e = sink \<or> source \<noteq> 0 \<and> hdlr_source e = source)"

text \<open>\<open>trap_api_get_sink_source_hdlr_entry\<close> without creation.\<close>

definition get_hdlr_entry :: "nat \<Rightarrow> nat \<Rightarrow> 'm vm \<Rightarrow> sink_source_hdlr_entry option" where
  "get_hdlr_entry sink source s = find (hdlr_matches sink source) (sink_source_hdlrs s)"

fun set_hdlr_entry ::
  "nat \<Rightarrow> nat \<Rightarrow> task \<Rightarrow> sink_source_hdlr_entry list \<Rightarrow> task \<times> sink_source_hdlr_entry list" where
  "set_hdlr_entry sink source t [] =
     (NULL_TASK, [\<lparr>hdlr_sink = sink, hdlr_source = source, hdlr_task = t\<rparr>])"
| "set_hdlr_entry sink source t (e # es) =
     (if hdlr_matches sink source e
      then (hdlr_task e, \<lparr>hdlr_sink = sink, hdlr_source = source, hdlr_task = t\<rparr> # es)
      else let (old, es') = set_hdlr_entry sink source t es in (old, e # es'))"

fun remove_hdlr_entry ::
  "nat \<Rightarrow> nat \<Rightarrow> sink_source_hdlr_entry list \<Rightarrow> task option \<times> sink_source_hdlr_entry list" where
  "remove_hdlr_entry sink source [] = (None, [])"
| "remove_hdlr_entry sink source (e # es) =
     (if hdlr_matches sink source e then (Some (hdlr_task e), es)
      else let (old, es') = remove_hdlr_entry sink source es in (old, e # es'))"

definition remove_hdlr_entries_for_task :: "task \<Rightarrow> 'm vm \<Rightarrow> 'm vm" where
  "remove_hdlr_entries_for_task t s =
     s\<lparr>sink_source_hdlrs := filter (\<lambda>e. hdlr_task e \<noteq> t) (sink_source_hdlrs s)\<rparr>"

definition trap_api_message_get_stream_task :: "nat \<Rightarrow> nat \<Rightarrow> task \<Rightarrow> 'm vm \<Rightarrow> task \<times> 'm vm" where
  "trap_api_message_get_stream_task sink source t s =
     (if t = NULL_TASK then
        (let (old, es) = remove_hdlr_entry sink source (sink_source_hdlrs s)
         in (case old of None \<Rightarrow> NULL_TASK | Some u \<Rightarrow> u, s\<lparr>sink_source_hdlrs := es\<rparr>))
      else
        (let (old, es) = set_hdlr_entry sink source t (sink_source_hdlrs s)
         in (old, s\<lparr>sink_source_hdlrs := es\<rparr>)))"

text \<open>\<open>StreamSourceFromSink\<close> and \<open>StreamSinkFromSource\<close> are arguments.\<close>

definition MessageStreamTaskFromSink ::
  "(nat \<Rightarrow> nat) \<Rightarrow> nat \<Rightarrow> task \<Rightarrow> 'm vm \<Rightarrow> task \<times> 'm vm" where
  "MessageStreamTaskFromSink source_from_sink sink t s =
     trap_api_message_get_stream_task sink (if t \<noteq> NULL_TASK then source_from_sink sink else 0) t s"

definition MessageStreamTaskFromSource ::
  "(nat \<Rightarrow> nat) \<Rightarrow> nat \<Rightarrow> task \<Rightarrow> 'm vm \<Rightarrow> task \<times> 'm vm" where
  "MessageStreamTaskFromSource sink_from_source source t s =
     trap_api_message_get_stream_task (if t \<noteq> NULL_TASK then sink_from_source source else 0) source t s"

definition MessageStreamGetTaskFromSink :: "nat \<Rightarrow> 'm vm \<Rightarrow> task" where
  "MessageStreamGetTaskFromSink sink s =
     (case get_hdlr_entry sink 0 s of Some e \<Rightarrow> hdlr_task e | None \<Rightarrow> NULL_TASK)"

definition MessageStreamGetTaskFromSource :: "nat \<Rightarrow> 'm vm \<Rightarrow> task" where
  "MessageStreamGetTaskFromSource source s =
     (case get_hdlr_entry 0 source s of Some e \<Rightarrow> hdlr_task e | None \<Rightarrow> NULL_TASK)"

definition trap_api_send_sink_source_message_filtered ::
  "(u16 \<Rightarrow> nat) \<Rightarrow> (u16 \<Rightarrow> nat) \<Rightarrow> u32 \<Rightarrow> u16 \<Rightarrow> message_id \<Rightarrow> 'm msg_data option \<Rightarrow> bool
   \<Rightarrow> 'm vm \<Rightarrow> 'm vm option" where
  "trap_api_send_sink_source_message_filtered SINK_FROM_ID SOURCE_FROM_ID now stream_id mid message
     allow_duplicates s =
     (let entry = (case get_hdlr_entry (SINK_FROM_ID stream_id) 0 s of
                     Some e \<Rightarrow> Some e
                   | None \<Rightarrow> get_hdlr_entry 0 (SOURCE_FROM_ID stream_id) s)
      in case entry of
           None \<Rightarrow> Some s
         | Some e \<Rightarrow>
             (if allow_duplicates then send_message now (hdlr_task e) mid message s
              else
                let temp = \<lparr>am_due = 0, am_t = Unicast (hdlr_task e), am_message = message,
                            am_condition_addr = None, am_id = mid,
                            am_c_width = CONDITION_WIDTH_UNUSED, am_refcount = 0\<rparr>;
                    (found, q) = already temp (vm_message_queue s)
                in if found then Some (s\<lparr>vm_message_queue := q\<rparr>)
                   else send_message now (hdlr_task e) mid message s))"

section \<open>Cancelling and flushing\<close>

definition invalidate :: "task \<Rightarrow> task list \<Rightarrow> task list" where
  "invalidate t ts = map (\<lambda>x. if x = t then INVALIDATED_TASK else x) ts"

definition has_valid :: "task list \<Rightarrow> bool" where
  "has_valid ts = list_ex (\<lambda>x. x \<noteq> INVALIDATED_TASK) ts"

fun cancel_first :: "task \<Rightarrow> message_id \<Rightarrow> 'm msg_queue \<Rightarrow> bool \<Rightarrow> bool \<times> 'm msg_queue" where
  "cancel_first t mid [] rc = (rc, [])"
| "cancel_first t mid (a # q) rc =
     (if am_id a = mid then
        (case am_t a of
           Unicast u \<Rightarrow>
             (if u = t then (True, q)
              else let (rc', q') = cancel_first t mid q rc in (rc', a # q'))
         | Multicast ts \<Rightarrow>
             (let ts' = invalidate t ts;
                  rc1 = (rc \<or> t \<in> set ts)
              in if \<not> has_valid ts' then (True, q)
                 else let (rc', q') = cancel_first t mid q rc1
                      in (rc', a\<lparr>am_t := Multicast ts'\<rparr> # q')))
      else let (rc', q') = cancel_first t mid q rc in (rc', a # q'))"

definition MessageCancelFirst :: "task \<Rightarrow> message_id \<Rightarrow> 'm vm \<Rightarrow> bool \<times> 'm vm" where
  "MessageCancelFirst t mid s =
     (let (rc, q) = cancel_first t mid (vm_message_queue s) False
      in (rc, s\<lparr>vm_message_queue := q\<rparr>))"

text \<open>The loop of \<open>MessageCancelAll\<close>; \<open>None\<close> is a loop that does not end.\<close>

partial_function (option) cancel_all_loop ::
  "task \<Rightarrow> message_id \<Rightarrow> u16 \<Rightarrow> 'm msg_queue \<Rightarrow> (u16 \<times> 'm msg_queue) option" where
  "cancel_all_loop t mid cnt q =
     (let (rc, q') = cancel_first t mid q False
      in if rc then cancel_all_loop t mid (cnt + 1) q' else Some (cnt, q'))"

definition MessageCancelAll :: "task \<Rightarrow> message_id \<Rightarrow> 'm vm \<Rightarrow> (u16 \<times> 'm vm) option" where
  "MessageCancelAll t mid s =
     map_option (\<lambda>(cnt, q). (cnt, s\<lparr>vm_message_queue := q\<rparr>))
       (cancel_all_loop t mid 0 (vm_message_queue s))"

definition vm_message_forget :: "task \<Rightarrow> 'm vm \<Rightarrow> 'm vm" where
  "vm_message_forget t s =
     remove_hdlr_entries_for_task t
       (s\<lparr>registered_hdlrs := map (\<lambda>h. if h = t then NULL_TASK else h) (registered_hdlrs s)\<rparr>)"

fun flush_queue :: "task \<Rightarrow> u16 \<Rightarrow> 'm msg_queue \<Rightarrow> u16 \<times> 'm msg_queue" where
  "flush_queue t cnt [] = (cnt, [])"
| "flush_queue t cnt (a # q) =
     (case am_t a of
        Unicast u \<Rightarrow>
          (if u = t then flush_queue t (cnt + 1) q
           else let (n, q') = flush_queue t cnt q in (n, a # q'))
      | Multicast ts \<Rightarrow>
          (let ts' = invalidate t ts
           in if \<not> has_valid ts' then flush_queue t (cnt + 1) q
              else let (n, q') = flush_queue t cnt q in (n, a\<lparr>am_t := Multicast ts'\<rparr> # q')))"

definition MessageFlushTask :: "task \<Rightarrow> 'm vm \<Rightarrow> u16 \<times> 'm vm" where
  "MessageFlushTask t s =
     (let s1 = vm_message_forget t s; (n, q) = flush_queue t 0 (vm_message_queue s1)
      in (n, s1\<lparr>vm_message_queue := q\<rparr>))"

section \<open>Queries\<close>

definition addressed_to :: "task \<Rightarrow> 'm app_message \<Rightarrow> bool" where
  "addressed_to t p = (case am_t p of Unicast u \<Rightarrow> u = t | Multicast ts \<Rightarrow> t \<in> set ts)"

text \<open>
  The count and, through \<open>first_due\<close>, the time until the first pending message is due.
\<close>

fun pending_count :: "('m app_message \<Rightarrow> bool) \<Rightarrow> 'm msg_queue \<Rightarrow> u16 \<Rightarrow> u16" where
  "pending_count P [] cnt = cnt"
| "pending_count P (p # q) cnt = pending_count P q (if P p then cnt + 1 else cnt)"

definition MessagesPendingForTask :: "u32 \<Rightarrow> task \<Rightarrow> 'm vm \<Rightarrow> u16 \<times> int option" where
  "MessagesPendingForTask now t s =
     (pending_count (addressed_to t) (vm_message_queue s) 0,
      map_option (\<lambda>p. VM_DIFF (am_due p) now) (find (addressed_to t) (vm_message_queue s)))"

definition MessagePendingFirst :: "u32 \<Rightarrow> task \<Rightarrow> message_id \<Rightarrow> 'm vm \<Rightarrow> bool \<times> int option" where
  "MessagePendingFirst now t mid s =
     (case find (\<lambda>p. addressed_to t p \<and> am_id p = mid) (vm_message_queue s) of
        None \<Rightarrow> (False, None)
      | Some p \<Rightarrow> (True, Some (VM_DIFF (am_due p) now)))"

fun pending_match ::
  "task \<Rightarrow> bool \<Rightarrow> (task \<Rightarrow> message_id \<Rightarrow> 'm msg_data option \<Rightarrow> bool) \<Rightarrow> 'm msg_queue \<Rightarrow> u16 \<Rightarrow> u16" where
  "pending_match t once match_fn [] cnt = cnt"
| "pending_match t once match_fn (p # q) cnt =
     (if addressed_to t p \<and> match_fn t (am_id p) (am_message p)
      then (if once then cnt + 1 else pending_match t once match_fn q (cnt + 1))
      else pending_match t once match_fn q cnt)"

definition MessagePendingMatch ::
  "task \<Rightarrow> bool \<Rightarrow> (task \<Rightarrow> message_id \<Rightarrow> 'm msg_data option \<Rightarrow> bool) option \<Rightarrow> 'm vm \<Rightarrow> u16" where
  "MessagePendingMatch t once match_fn s =
     (case match_fn of
        None \<Rightarrow> 0
      | Some f \<Rightarrow> pending_match t once f (vm_message_queue s) 0)"

section \<open>The queue is kept in time order\<close>

text \<open>
  The 32-bit clock wraps, so times are compared as offsets from a reference time \<open>t0\<close>.
  A queue lies in the window of \<open>t0\<close> when every offset is below a quarter of the clock's
  range; \<open>run_timer_limit\<close> keeps the firmware inside it.
\<close>

definition due_off :: "u32 \<Rightarrow> 'm app_message \<Rightarrow> int" where
  "due_off t0 a = sint (am_due a - t0)"

definition in_window :: "u32 \<Rightarrow> 'm app_message \<Rightarrow> bool" where
  "in_window t0 a = (\<bar>due_off t0 a\<bar> < 2 ^ 30)"

definition queue_ordered :: "u32 \<Rightarrow> 'm msg_queue \<Rightarrow> bool" where
  "queue_ordered t0 q = sorted (map (due_off t0) q)"

lemma sint_diff_of_offsets:
  fixes x y t0 :: u32
  assumes "\<bar>sint (x - t0)\<bar> < 2 ^ 30" "\<bar>sint (y - t0)\<bar> < 2 ^ 30"
  shows "sint (x - y) = sint (x - t0) - sint (y - t0)"
proof -
  have "sint (x - y) = sint ((x - t0) - (y - t0))" by simp
  also have "\<dots> = signed_take_bit 31 (sint (x - t0) - sint (y - t0))"
    by (simp only: sint_word_ariths) simp
  also have "\<dots> = sint (x - t0) - sint (y - t0)"
    using assms by (intro signed_take_bit_int_eq_self) auto
  finally show ?thesis .
qed

lemma VM_DIFF_in_window:
  assumes "in_window t0 a" "in_window t0 x"
  shows "VM_DIFF (am_due a) (am_due x) = due_off t0 a - due_off t0 x"
  using assms unfolding VM_DIFF_def due_off_def in_window_def by (rule sint_diff_of_offsets)

lemma insert_after_splits:
  assumes "insert_after prev a q = (True, q')" "\<forall>x\<in>set (a # q). in_window t0 x"
    "queue_ordered t0 q"
  shows "\<exists>q1 q2. q = q1 @ q2 \<and> q' = q1 @ a # q2 \<and> (\<forall>x\<in>set q1. due_off t0 x \<le> due_off t0 a)
           \<and> (\<forall>x\<in>set q2. due_off t0 a < due_off t0 x)"
  using assms
proof (induction prev a q arbitrary: q' rule: insert_after.induct)
  case (1 prev a)
  then show ?case by (auto split: option.splits if_splits)
next
  case (2 prev a x q)
  have w: "in_window t0 a" "in_window t0 x" using "2.prems" by auto
  show ?case
  proof (cases "due_off t0 x \<le> due_off t0 a")
    case True
    then have le: "VM_DIFF (am_due a) (am_due x) \<ge> 0" using VM_DIFF_in_window [OF w] by simp
    then obtain q'' where q'': "insert_after (Some x) a q = (True, q'')" "q' = x # q''"
      using "2.prems"(1) by (auto split: prod.splits)
    from "2.IH" [OF le q''(1)] "2.prems" obtain q1 q2 where
      "q = q1 @ q2" "q'' = q1 @ a # q2" "\<forall>x\<in>set q1. due_off t0 x \<le> due_off t0 a"
      "\<forall>x\<in>set q2. due_off t0 a < due_off t0 x"
      by (auto simp: queue_ordered_def)
    with q''(2) True show ?thesis by (intro exI [of _ "x # q1"] exI [of _ q2]) auto
  next
    case False
    then have "\<not> VM_DIFF (am_due a) (am_due x) \<ge> 0" using VM_DIFF_in_window [OF w] by simp
    then have "q' = a # x # q" using "2.prems"(1) by (auto split: option.splits if_splits)
    moreover have "\<forall>y\<in>set (x # q). due_off t0 a < due_off t0 y"
      using False "2.prems"(3) by (auto simp: queue_ordered_def)
    ultimately show ?thesis by (intro exI [of _ "[]"] exI [of _ "x # q"]) auto
  qed
qed

lemma insert_after_dropped:
  assumes "insert_after prev a q = (False, q')"
  shows "q' = q"
  using assms
  by (induction prev a q arbitrary: q' rule: insert_after.induct)
    (auto split: option.splits if_splits prod.splits)

lemma sorted_insert_between:
  assumes "sorted (map f (q1 @ q2))" "\<forall>x\<in>set q1. f x \<le> f a" "\<forall>x\<in>set q2. f a < (f x :: int)"
  shows "sorted (map f (q1 @ a # q2))"
  using assms by (fastforce simp: sorted_append)

text \<open>
  Sending keeps the queue in time order, and first come first served for equal times: a message that
  is accepted is put behind every queued message that is due no later and before every message
  that is due later, whatever the wrap-around of the clock, as long as the due times lie within
  a quarter of the clock's range of each other.
\<close>
lemma insert_keeps_time_order:
  assumes "insert_msg a q = (True, q')" "\<forall>x\<in>set (a # q). in_window t0 x" "queue_ordered t0 q"
  shows "queue_ordered t0 q' \<and>
    (\<exists>q1 q2. q = q1 @ q2 \<and> q' = q1 @ a # q2 \<and> (\<forall>x\<in>set q1. due_off t0 x \<le> due_off t0 a)
       \<and> (\<forall>x\<in>set q2. due_off t0 a < due_off t0 x))"
proof -
  obtain q1 q2 where *: "q = q1 @ q2" "q' = q1 @ a # q2"
    "\<forall>x\<in>set q1. due_off t0 x \<le> due_off t0 a" "\<forall>x\<in>set q2. due_off t0 a < due_off t0 x"
    using insert_after_splits [OF assms(1) [unfolded insert_msg_def] assms(2,3)] by blast
  moreover have "queue_ordered t0 q'"
    using assms(3) * sorted_insert_between [of "due_off t0" q1 q2 a]
    unfolding queue_ordered_def by simp
  ultimately show ?thesis by blast
qed

definition plain_msg :: "task \<Rightarrow> message_id \<Rightarrow> u32 \<Rightarrow> 'm app_message" where
  "plain_msg t mid due =
     \<lparr>am_due = due, am_t = Unicast t, am_message = None, am_condition_addr = None, am_id = mid,
      am_c_width = CONDITION_WIDTH_UNUSED, am_refcount = 1\<rparr>"

lemma insert_keeps_time_order_witness:
  "\<exists>q1 q2. [plain_msg 5 1 0xFFFFFFF0, plain_msg 5 3 (4 :: u32)] = q1 @ q2
     \<and> [plain_msg 5 1 0xFFFFFFF0, plain_msg 5 2 2, plain_msg 5 3 4] = q1 @ plain_msg 5 2 2 # q2"
proof -
  let ?q = "[plain_msg 5 1 0xFFFFFFF0, plain_msg 5 3 (4 :: u32)]"
  have i: "insert_msg (plain_msg 5 2 2) ?q
             = (True, [plain_msg 5 1 0xFFFFFFF0, plain_msg 5 2 2, plain_msg 5 3 4])"
    by (simp add: insert_msg_def plain_msg_def VM_DIFF_def similar_def is_multicast_def)
  have w: "\<forall>x\<in>set (plain_msg 5 2 2 # ?q). in_window 0 x"
    by (simp add: plain_msg_def in_window_def due_off_def)
  have o: "queue_ordered 0 ?q"
    by (simp add: plain_msg_def queue_ordered_def due_off_def)
  from insert_keeps_time_order [OF i w o] show ?thesis by blast
qed

section \<open>Delivery takes the earliest deliverable message\<close>

lemma first_unblocked_SomeD:
  assumes "first_unblocked mem q = Some (a, q')"
  shows "\<exists>q1 q2. q = q1 @ a # q2 \<and> q' = q1 @ q2 \<and> unblocked mem a \<and> (\<forall>x\<in>set q1. \<not> unblocked mem x)"
  using assms
proof (induction q arbitrary: q')
  case (Cons x q)
  show ?case
  proof (cases "unblocked mem x")
    case True
    then show ?thesis using Cons.prems by (intro exI [of _ "[]"] exI [of _ q]) auto
  next
    case False
    then obtain q'' where "first_unblocked mem q = Some (a, q'')" "q' = x # q''"
      using Cons.prems by auto
    with Cons.IH False show ?thesis by (metis append_Cons set_ConsD)
  qed
qed simp

lemma first_unblocked_None_iff:
  "first_unblocked mem q = None \<longleftrightarrow> (\<forall>x\<in>set q. \<not> unblocked mem x)"
  by (induction q) auto

lemma first_unblocked_earliest:
  assumes "first_unblocked mem q = Some (a, q')" "queue_ordered t0 q"
  shows "a \<in> set q \<and> unblocked mem a \<and>
         (\<forall>x\<in>set q. unblocked mem x \<longrightarrow> due_off t0 a \<le> due_off t0 x)"
proof -
  obtain q1 q2 where "q = q1 @ a # q2" "unblocked mem a" "\<forall>x\<in>set q1. \<not> unblocked mem x"
    using first_unblocked_SomeD [OF assms(1)] by blast
  with assms(2) show ?thesis by (auto simp: queue_ordered_def sorted_append)
qed

lemma VM_DIFF_now:
  assumes "in_window t0 a" "\<bar>sint (now - t0)\<bar> < 2 ^ 30"
  shows "VM_DIFF (am_due a) now = due_off t0 a - sint (now - t0)"
  using sint_diff_of_offsets [of "am_due a" t0 now] assms
  by (simp add: VM_DIFF_def due_off_def in_window_def)

lemma sint_word_of_int_VM_DIFF [simp]: "sint (word_of_int (VM_DIFF t u) :: u32) = VM_DIFF t u"
  by (simp add: VM_DIFF_def)

text \<open>
  The scheduler never sleeps through a deliverable message: when \<open>vm_message_next\<close>
  reports a waiting time, nothing was delivered and the state is unchanged; the time is that of
  some deliverable (unblocked) message of the queue and no deliverable message is due earlier,
  and all of them lie in the future. It reports the endless wait exactly when every message of
  the queue is blocked.
\<close>
lemma vm_message_next_waits_right:
  assumes "vm_message_next now mem handler s = (d, s')" "d \<noteq> 0"
    "queue_ordered t0 (vm_message_queue s)" "\<forall>x\<in>set (vm_message_queue s). in_window t0 x"
    "\<bar>sint (now - t0)\<bar> < 2 ^ 30"
  shows "s' = s \<and>
    (if d = -1 then \<forall>x\<in>set (vm_message_queue s). \<not> unblocked mem x
     else (\<exists>a\<in>set (vm_message_queue s). unblocked mem a \<and> VM_DIFF (am_due a) now = sint d \<and> 0 < sint d)
       \<and> (\<forall>x\<in>set (vm_message_queue s). unblocked mem x \<longrightarrow> sint d \<le> VM_DIFF (am_due x) now))"
proof (cases "first_unblocked mem (vm_message_queue s)")
  case None
  then have "d = -1" "s' = s" using assms(1) by (simp_all add: vm_message_next_def)
  then show ?thesis using None by (simp add: first_unblocked_None_iff)
next
  case (Some aq)
  then obtain a q where aq: "first_unblocked mem (vm_message_queue s) = Some (a, q)" by force
  have pos: "VM_DIFF (am_due a) now > 0" and d: "d = word_of_int (VM_DIFF (am_due a) now)" "s' = s"
    using assms(1,2) aq by (auto simp: vm_message_next_def Let_def split: if_splits)
  have sd: "sint d = VM_DIFF (am_due a) now" using d by simp
  then have "d \<noteq> -1" using pos by auto
  moreover have "\<forall>x\<in>set (vm_message_queue s). unblocked mem x \<longrightarrow> sint d \<le> VM_DIFF (am_due x) now"
  proof (intro ballI impI)
    fix x assume x: "x \<in> set (vm_message_queue s)" "unblocked mem x"
    have f: "a \<in> set (vm_message_queue s)" "due_off t0 a \<le> due_off t0 x"
      using first_unblocked_earliest [OF aq assms(3)] x by auto
    have "VM_DIFF (am_due a) now \<le> VM_DIFF (am_due x) now"
      using f x assms(4) VM_DIFF_now [OF _ assms(5), of a] VM_DIFF_now [OF _ assms(5), of x] by simp
    then show "sint d \<le> VM_DIFF (am_due x) now" using sd by simp
  qed
  moreover have "a \<in> set (vm_message_queue s) \<and> unblocked mem a"
    using first_unblocked_earliest [OF aq assms(3)] by blast
  ultimately show ?thesis using sd pos d(2) by auto
qed

lemma vm_message_next_waits_right_witness:
  "let s = \<lparr>vm_message_queue = [(plain_msg 5 1 7 :: unit app_message)\<lparr>am_condition_addr := Some 3,
              am_c_width := CONDITION_WIDTH_16BIT\<rparr>, plain_msg 5 2 (9 :: u32)],
            vm_delivered_messages = [], sched_event_pending = False, put_message_ok = True,
            registered_hdlrs = [], sink_source_hdlrs = [], run_timer = None\<rparr>
   in \<forall>x\<in>set (vm_message_queue s). unblocked (\<lambda>_. 1) x \<longrightarrow> 5 \<le> VM_DIFF (am_due x) 4"
proof -
  let ?s = "\<lparr>vm_message_queue = [(plain_msg 5 1 7 :: unit app_message)\<lparr>am_condition_addr := Some 3,
              am_c_width := CONDITION_WIDTH_16BIT\<rparr>, plain_msg 5 2 (9 :: u32)],
            vm_delivered_messages = [], sched_event_pending = False, put_message_ok = True,
            registered_hdlrs = [], sink_source_hdlrs = [], run_timer = None\<rparr>"
  have n: "vm_message_next 4 (\<lambda>_. 1) (\<lambda>_. None) ?s = (5, ?s)"
    by (simp add: vm_message_next_def plain_msg_def unblocked_def get_message_condition_value_def
      VM_DIFF_def)
  have o: "queue_ordered 0 (vm_message_queue ?s)"
    by (simp add: plain_msg_def queue_ordered_def due_off_def)
  have w: "\<forall>x\<in>set (vm_message_queue ?s). in_window 0 x"
    by (simp add: plain_msg_def in_window_def due_off_def)
  have t: "\<bar>sint (4 - 0 :: u32)\<bar> < 2 ^ 30" by simp
  from vm_message_next_waits_right [OF n _ o w t] show ?thesis by (simp add: Let_def)
qed

section \<open>Cancelling and flushing remove exactly what they name\<close>

text \<open>What is left of one message once a task no longer receives it.\<close>

definition without_task :: "task \<Rightarrow> 'm app_message \<Rightarrow> 'm app_message option" where
  "without_task t a =
     (case am_t a of
        Unicast u \<Rightarrow> if u = t then None else Some a
      | Multicast ts \<Rightarrow>
          if has_valid (invalidate t ts) then Some (a\<lparr>am_t := Multicast (invalidate t ts)\<rparr>) else None)"

definition cancel_one :: "task \<Rightarrow> message_id \<Rightarrow> 'm app_message \<Rightarrow> 'm app_message option" where
  "cancel_one t mid a = (if am_id a = mid then without_task t a else Some a)"

lemma invalidate_simps [simp]:
  "invalidate t (invalidate t ts) = invalidate t ts"
  "invalidate t [] = []"
  "invalidate t (x # ts) = (if x = t then INVALIDATED_TASK else x) # invalidate t ts"
  by (simp_all add: invalidate_def)

lemma invalidate_id: "t \<notin> set ts \<Longrightarrow> invalidate t ts = ts"
  by (induction ts) auto

lemma invalidate_removes: "t \<noteq> INVALIDATED_TASK \<Longrightarrow> t \<notin> set (invalidate t ts)"
  by (induction ts) auto

lemma invalidate_keeps:
  "u \<noteq> t \<Longrightarrow> u \<noteq> INVALIDATED_TASK \<Longrightarrow> u \<in> set (invalidate t ts) \<longleftrightarrow> u \<in> set ts"
  by (induction ts) auto

lemma has_valid_if: "u \<in> set ts \<Longrightarrow> u \<noteq> INVALIDATED_TASK \<Longrightarrow> has_valid ts"
  by (auto simp: has_valid_def list_ex_iff)

text \<open>The work left for the loop of \<open>MessageCancelAll\<close>: messages and recipients to remove.\<close>

fun cancel_work :: "task \<Rightarrow> 'm msg_queue \<Rightarrow> nat" where
  "cancel_work t [] = 0"
| "cancel_work t (a # q) =
     Suc (case am_t a of Unicast _ \<Rightarrow> 0 | Multicast ts \<Rightarrow> length (filter ((=) t) ts)) + cancel_work t q"

lemma cancel_work_invalidate:
  "t \<noteq> INVALIDATED_TASK \<Longrightarrow> filter ((=) t) (invalidate t ts) = []"
  by (induction ts) auto

lemma cancel_first_found: "cancel_first t mid q True = (rc, q') \<Longrightarrow> rc"
  by (induction t mid q "True" arbitrary: rc q' rule: cancel_first.induct)
    (auto split: if_splits recipients.splits prod.splits simp: Let_def)

lemma cancel_first_work_le:
  assumes "cancel_first t mid q rc = (rc', q')" "t \<noteq> INVALIDATED_TASK"
  shows "cancel_work t q' \<le> cancel_work t q"
  using assms
  by (induction t mid q rc arbitrary: rc' q' rule: cancel_first.induct)
    (fastforce split: if_splits recipients.splits prod.splits
       simp: Let_def cancel_work_invalidate)+

lemma cancel_first_work_less:
  assumes "cancel_first t mid q False = (True, q')" "t \<noteq> INVALIDATED_TASK"
  shows "cancel_work t q' < cancel_work t q"
  using assms
proof (induction q arbitrary: q')
  case (Cons a q)
  show ?case
  proof (cases "am_id a = mid")
    case False
    with Cons show ?thesis by (auto split: prod.splits)
  next
    case True
    show ?thesis
    proof (cases "am_t a")
      case (Unicast u)
      with True Cons show ?thesis by (auto split: prod.splits if_splits)
    next
      case (Multicast ts)
      show ?thesis
      proof (cases "has_valid (invalidate t ts)")
        case False
        with True Multicast Cons.prems show ?thesis by simp
      next
        case valid: True
        then obtain q'' where q'': "cancel_first t mid q (t \<in> set ts) = (True, q'')"
          "q' = a\<lparr>am_t := Multicast (invalidate t ts)\<rparr> # q''"
          using True Multicast Cons.prems by (auto split: prod.splits)
        show ?thesis
        proof (cases "t \<in> set ts")
          case False
          with q'' Multicast Cons show ?thesis by (simp add: invalidate_id)
        next
          case mem: True
          then have "0 < length (filter ((=) t) ts)" by (simp add: filter_empty_conv)
          with q'' Multicast cancel_first_work_le [OF q''(1) Cons.prems(2)] Cons.prems(2)
          show ?thesis by (simp add: cancel_work_invalidate del: length_greater_0_conv)
        qed
      qed
    qed
  qed
qed simp

lemma cancel_first_map_filter:
  assumes "cancel_first t mid q rc = (rc', q')" "t \<noteq> INVALIDATED_TASK"
  shows "List.map_filter (cancel_one t mid) q' = List.map_filter (cancel_one t mid) q"
  using assms
  by (induction t mid q rc arbitrary: rc' q' rule: cancel_first.induct)
    (auto split: if_splits recipients.splits prod.splits
       simp: Let_def map_filter_simps cancel_one_def without_task_def)

lemma cancel_first_done:
  assumes "cancel_first t mid q False = (False, q')"
  shows "q' = List.map_filter (cancel_one t mid) q"
  using assms
proof (induction q arbitrary: q')
  case (Cons a q)
  show ?case
  proof (cases "am_t a")
    case (Unicast u)
    with Cons show ?thesis
      by (auto split: if_splits prod.splits
         simp: Let_def map_filter_simps cancel_one_def without_task_def)
  next
    case (Multicast ts)
    with Cons show ?thesis
      by (cases "t \<in> set ts")
        (auto split: if_splits prod.splits dest: cancel_first_found
         simp: Let_def map_filter_simps cancel_one_def without_task_def)
  qed
qed (simp add: map_filter_simps)

lemma cancel_all_loop_result:
  assumes "t \<noteq> INVALIDATED_TASK"
  shows "\<exists>n. cancel_all_loop t mid cnt q = Some (n, List.map_filter (cancel_one t mid) q)"
proof (induction "cancel_work t q" arbitrary: cnt q rule: less_induct)
  case less
  obtain rc q' where c: "cancel_first t mid q False = (rc, q')" by force
  show ?case
  proof (cases rc)
    case True
    with c have c': "cancel_first t mid q False = (True, q')" by simp
    from less [OF cancel_first_work_less [OF c' assms], of "cnt + 1"] c'
      cancel_first_map_filter [OF c' assms]
    show ?thesis by (subst cancel_all_loop.simps) simp
  next
    case False
    with c cancel_first_done [of t mid q q'] show ?thesis
      by (subst cancel_all_loop.simps) simp
  qed
qed

lemma cancel_one_not_pending:
  assumes "cancel_one t mid a = Some b" "t \<noteq> INVALIDATED_TASK"
  shows "\<not> (addressed_to t b \<and> am_id b = mid)"
  using assms
  by (auto simp: cancel_one_def without_task_def addressed_to_def invalidate_removes
    split: if_splits recipients.splits)

lemma set_map_filter_iff: "y \<in> set (List.map_filter f xs) \<longleftrightarrow> (\<exists>x\<in>set xs. f x = Some y)"
  by (induction xs) (auto simp: map_filter_simps split: option.splits)

lemma all_map_filter:
  assumes "\<And>x y. f x = Some y \<Longrightarrow> P y"
  shows "\<forall>y\<in>set (List.map_filter f xs). P y"
  using assms by (auto simp: set_map_filter_iff)

lemma find_map_filter_None:
  assumes "\<And>a b. f a = Some b \<Longrightarrow> \<not> P b"
  shows "find P (List.map_filter f q) = None"
  using assms by (auto simp: find_None_iff set_map_filter_iff)

text \<open>
  C3: \<open>MessageCancelAll\<close> always returns (for a task that is a real one) and takes the task
  out of exactly the queued messages with the id: unicast messages to it go, multicast messages
  lose the task and go when no recipient is left, every other message keeps its place; then no
  message with the id is pending for the task.
\<close>
theorem MessageCancelAll_exact:
  assumes "t \<noteq> INVALIDATED_TASK"
  shows "\<exists>n s'. MessageCancelAll t mid s = Some (n, s') \<and>
    s' = s\<lparr>vm_message_queue := List.map_filter (cancel_one t mid) (vm_message_queue s)\<rparr> \<and>
    MessagePendingFirst now t mid s' = (False, None)"
proof -
  obtain n where n: "cancel_all_loop t mid 0 (vm_message_queue s)
      = Some (n, List.map_filter (cancel_one t mid) (vm_message_queue s))"
    using cancel_all_loop_result [OF assms] by blast
  have "find (\<lambda>p. addressed_to t p \<and> am_id p = mid)
      (List.map_filter (cancel_one t mid) (vm_message_queue s)) = None"
    by (rule find_map_filter_None) (use cancel_one_not_pending assms in blast)
  with n show ?thesis by (simp add: MessageCancelAll_def MessagePendingFirst_def)
qed

theorem MessageCancelAll_exact_witness:
  "\<exists>n s'. MessageCancelAll 5 2 \<lparr>vm_message_queue = [plain_msg 5 1 7, plain_msg 5 2 9 :: unit app_message],
            vm_delivered_messages = [], sched_event_pending = False, put_message_ok = True,
            registered_hdlrs = [], sink_source_hdlrs = [], run_timer = None\<rparr> = Some (n, s')
      \<and> vm_message_queue s' = [plain_msg 5 1 7]"
proof -
  have t: "(5::task) \<noteq> INVALIDATED_TASK" by (simp add: INVALIDATED_TASK_def)
  from MessageCancelAll_exact [OF t, of 2 "\<lparr>vm_message_queue = [plain_msg 5 1 7, plain_msg 5 2 9 :: unit app_message],
            vm_delivered_messages = [], sched_event_pending = False, put_message_ok = True,
            registered_hdlrs = [], sink_source_hdlrs = [], run_timer = None\<rparr>"]
  show ?thesis
    by (fastforce simp: map_filter_simps cancel_one_def without_task_def plain_msg_def)
qed

lemma flush_queue_result: "snd (flush_queue t n q) = List.map_filter (without_task t) q"
  by (induction t n q rule: flush_queue.induct)
    (auto simp: map_filter_simps without_task_def Let_def split: recipients.splits prod.splits)

lemma vm_message_forget_queue [simp]: "vm_message_queue (vm_message_forget t s) = vm_message_queue s"
  by (simp add: vm_message_forget_def remove_hdlr_entries_for_task_def)

lemma MessageFlushTask_queue:
  "vm_message_queue (snd (MessageFlushTask t s)) = List.map_filter (without_task t) (vm_message_queue s)"
  using flush_queue_result [of t 0 "vm_message_queue s"]
  by (auto simp: MessageFlushTask_def Let_def split: prod.splits)

lemma without_task_not_addressed:
  "without_task t a = Some b \<Longrightarrow> t \<noteq> INVALIDATED_TASK \<Longrightarrow> \<not> addressed_to t b"
  by (auto simp: without_task_def addressed_to_def invalidate_removes
      split: if_splits recipients.splits)

lemma without_task_others:
  assumes "u \<noteq> t" "u \<noteq> INVALIDATED_TASK" "addressed_to u a"
  shows "\<exists>b. without_task t a = Some b \<and> addressed_to u b \<and> am_due b = am_due a \<and> am_id b = am_id a
           \<and> am_message b = am_message a"
  using assms
  by (cases "am_t a")
    (auto simp: without_task_def addressed_to_def invalidate_keeps
      intro: has_valid_if [of u, OF invalidate_keeps [THEN iffD2]])

lemma without_task_no_new:
  "without_task t a = Some b \<Longrightarrow> u \<noteq> t \<Longrightarrow> u \<noteq> INVALIDATED_TASK \<Longrightarrow> addressed_to u b \<Longrightarrow> addressed_to u a"
  by (auto simp: without_task_def addressed_to_def invalidate_keeps split: if_splits recipients.splits)

definition pending_of :: "task \<Rightarrow> 'm msg_queue \<Rightarrow> (u32 \<times> message_id \<times> 'm msg_data option) list" where
  "pending_of u q = map (\<lambda>a. (am_due a, am_id a, am_message a)) (filter (addressed_to u) q)"

lemma pending_of_simps [simp]:
  "pending_of u [] = []"
  "pending_of u (a # q) =
     (if addressed_to u a then (am_due a, am_id a, am_message a) # pending_of u q else pending_of u q)"
  by (simp_all add: pending_of_def)

lemma flush_keeps_others:
  assumes "u \<noteq> t" "u \<noteq> INVALIDATED_TASK"
  shows "pending_of u (List.map_filter (without_task t) q) = pending_of u q"
proof (induction q)
  case (Cons a q)
  show ?case
  proof (cases "addressed_to u a")
    case True
    from without_task_others [OF assms True] Cons show ?thesis
      by (auto simp: True map_filter_simps)
  next
    case False
    with Cons without_task_no_new [of t a _ u] assms show ?thesis
      by (auto simp: map_filter_simps split: option.splits)
  qed
qed (simp add: map_filter_simps)

lemma pending_count_filter: "pending_count P q n = n + of_nat (length (filter P q))"
  by (induction P q n rule: pending_count.induct) (auto simp: algebra_simps)

lemma pending_none:
  assumes "\<forall>a\<in>set q. \<not> addressed_to t a"
  shows "pending_count (addressed_to t) q 0 = 0" "find (addressed_to t) q = None"
proof -
  have "filter (addressed_to t) q = []" using assms by (simp add: filter_empty_conv)
  then show "pending_count (addressed_to t) q 0 = 0" by (simp add: pending_count_filter)
  show "find (addressed_to t) q = None" using assms by (simp add: find_None_iff)
qed

text \<open>
  C4: Flushing a task leaves nothing for it in the queue, in no multicast either, and is
  invisible to every other task: what it has pending (due times, ids and payloads, in order) is
  unchanged.
\<close>
theorem MessageFlushTask_isolates:
  assumes "t \<noteq> INVALIDATED_TASK" "MessageFlushTask t s = (n, s')"
  shows "MessagesPendingForTask now t s' = (0, None) \<and>
    (\<forall>u. u \<noteq> t \<and> u \<noteq> INVALIDATED_TASK \<longrightarrow>
       pending_of u (vm_message_queue s') = pending_of u (vm_message_queue s))"
proof -
  have q: "vm_message_queue s' = List.map_filter (without_task t) (vm_message_queue s)"
    using MessageFlushTask_queue [of t s] assms(2) by simp
  have "\<forall>a\<in>set (vm_message_queue s'). \<not> addressed_to t a"
    unfolding q by (rule all_map_filter) (rule without_task_not_addressed [OF _ assms(1)])
  from pending_none [OF this] have "MessagesPendingForTask now t s' = (0, None)"
    by (simp add: MessagesPendingForTask_def)
  then show ?thesis by (simp add: q flush_keeps_others)
qed

theorem MessageFlushTask_isolates_witness:
  "pending_of 6 (vm_message_queue (snd (MessageFlushTask 5
     \<lparr>vm_message_queue = [(plain_msg 5 1 7 :: unit app_message)\<lparr>am_t := Multicast [5, 6]\<rparr>, plain_msg 5 2 9],
      vm_delivered_messages = [], sched_event_pending = False, put_message_ok = True,
      registered_hdlrs = [5], sink_source_hdlrs = [], run_timer = None\<rparr>))) = [(7, 1, None)]"
proof -
  let ?s = "\<lparr>vm_message_queue = [(plain_msg 5 1 7 :: unit app_message)\<lparr>am_t := Multicast [5, 6]\<rparr>, plain_msg 5 2 9],
      vm_delivered_messages = [], sched_event_pending = False, put_message_ok = True,
      registered_hdlrs = [5], sink_source_hdlrs = [], run_timer = None\<rparr>"
  have t: "(5::task) \<noteq> INVALIDATED_TASK" by (simp add: INVALIDATED_TASK_def)
  have "(6::task) \<noteq> 5 \<and> (6::task) \<noteq> INVALIDATED_TASK" by (simp add: INVALIDATED_TASK_def)
  with MessageFlushTask_isolates [OF t prod.collapse [symmetric, of "MessageFlushTask 5 ?s"]]
  have "pending_of 6 (vm_message_queue (snd (MessageFlushTask 5 ?s))) = pending_of 6 (vm_message_queue ?s)"
    by blast
  then show ?thesis by (simp add: pending_of_def addressed_to_def plain_msg_def)
qed

section \<open>The mailbox contract\<close>

text \<open>
  What a component with a task of its own relies on: the ids posted to each task, as a
  multiset (the clock, and so the order, is left open), and what sending, cancelling and
  flushing do to it. \<open>ids\<close> are the ids that are never combined and \<open>tasks\<close> the real tasks.
\<close>

locale mailbox =
  fixes tasks :: "task set"
    and ids :: "message_id set"
    and posted :: "task \<Rightarrow> 'q \<Rightarrow> message_id multiset"
    and send :: "task \<Rightarrow> message_id \<Rightarrow> 'd \<Rightarrow> 'q \<Rightarrow> 'q option"
    and cancel_all :: "task \<Rightarrow> message_id \<Rightarrow> 'q \<Rightarrow> 'q option"
    and flush :: "task \<Rightarrow> 'q \<Rightarrow> 'q"
  assumes send_posted: "t \<in> tasks \<Longrightarrow> u \<in> tasks \<Longrightarrow> i \<in> ids \<Longrightarrow>
      \<exists>q'. send t i d q = Some q'
        \<and> posted u q' = (if u = t then add_mset i (posted u q) else posted u q)"
    and cancel_posted: "t \<in> tasks \<Longrightarrow> u \<in> tasks \<Longrightarrow>
      \<exists>q'. cancel_all t i q = Some q'
        \<and> posted u q' = (if u = t then filter_mset (\<lambda>j. j \<noteq> i) (posted u q) else posted u q)"
    and flush_posted: "t \<in> tasks \<Longrightarrow> u \<in> tasks \<Longrightarrow>
      posted u (flush t q) = (if u = t then {#} else posted u q)"
begin

lemma send_self:
  "t \<in> tasks \<Longrightarrow> i \<in> ids \<Longrightarrow> send t i d q = Some q' \<Longrightarrow> posted t q' = add_mset i (posted t q)"
  using send_posted [of t t i d q] by auto

lemma send_other:
  "t \<in> tasks \<Longrightarrow> u \<in> tasks \<Longrightarrow> u \<noteq> t \<Longrightarrow> i \<in> ids \<Longrightarrow> send t i d q = Some q' \<Longrightarrow> posted u q' = posted u q"
  using send_posted [of t u i d q] by auto

lemma send_defined: "t \<in> tasks \<Longrightarrow> i \<in> ids \<Longrightarrow> \<exists>q'. send t i d q = Some q'"
  using send_posted [of t t i d q] by blast

lemma cancel_defined: "t \<in> tasks \<Longrightarrow> \<exists>q'. cancel_all t i q = Some q'"
  using cancel_posted [of t t i q] by blast

lemma cancel_self:
  "t \<in> tasks \<Longrightarrow> cancel_all t i q = Some q' \<Longrightarrow> posted t q' = filter_mset (\<lambda>j. j \<noteq> i) (posted t q)"
  using cancel_posted [of t t i q] by auto

lemma cancel_other:
  "t \<in> tasks \<Longrightarrow> u \<in> tasks \<Longrightarrow> u \<noteq> t \<Longrightarrow> cancel_all t i q = Some q' \<Longrightarrow> posted u q' = posted u q"
  using cancel_posted [of t u i q] by auto

lemma not_posted_after_cancel:
  "t \<in> tasks \<Longrightarrow> cancel_all t i q = Some q' \<Longrightarrow> i \<notin># posted t q'"
  by (simp add: cancel_self)

lemma cancel_undoes_send:
  assumes "t \<in> tasks" "i \<in> ids" "send t i d q = Some q1" "cancel_all t i q1 = Some q2"
    "i \<notin># posted t q"
  shows "posted t q2 = posted t q"
proof -
  have "posted t q2 = filter_mset (\<lambda>j. j \<noteq> i) (add_mset i (posted t q))"
    using send_self assms(1-3) cancel_self [OF assms(1,4)] by simp
  also have "\<dots> = posted t q"
    using assms(5) by (auto intro!: filter_mset_eq_conv [THEN iffD2])
  finally show ?thesis .
qed

end

text \<open>The ids pending in the queue for one task.\<close>

definition posted_ids :: "task \<Rightarrow> 'm vm \<Rightarrow> message_id multiset" where
  "posted_ids t s = mset (map (\<lambda>(_, i, _). i) (pending_of t (vm_message_queue s)))"

lemma insert_after_pending:
  assumes "insert_after prev a q = (True, q')"
  shows "mset (pending_of t q')
    = (if addressed_to t a then {#(am_due a, am_id a, am_message a)#} else {#}) + mset (pending_of t q)"
  using assms
  by (induction prev a q arbitrary: q' rule: insert_after.induct)
    (fastforce split: option.splits if_splits prod.splits)+

text \<open>The two system ids that \<open>insert\<close> can drop as similar are not the application's.\<close>

definition combinable :: "message_id \<Rightarrow> bool" where
  "combinable i = (i \<in> {MESSAGE_MORE_DATA, MESSAGE_MORE_SPACE, MESSAGE_PSFL_FAULT,
     MESSAGE_TX_POWER_CHANGE_EVENT})"

lemma similar_combinable: "similar p a \<Longrightarrow> combinable (am_id a)"
  by (auto simp: similar_def combinable_def split: if_splits)

lemma insert_after_accepts:
  "\<not> combinable (am_id a) \<Longrightarrow> fst (insert_after prev a q)"
  by (induction prev a q rule: insert_after.induct)
    (auto split: option.splits prod.splits dest: similar_combinable)

lemma vm_event_trigger_queue [simp]: "vm_message_queue (vm_event_trigger s) = vm_message_queue s"
  by (simp add: vm_event_trigger_def)

lemma send_later_posted:
  assumes "\<not> combinable mid"
  shows "\<exists>s'. vm_message_send_later now (Some [t]) False mid m d c w s = Some s'
    \<and> posted_ids u s' = (if u = t then add_mset mid (posted_ids u s) else posted_ids u s)"
proof -
  define a where "a = \<lparr>am_due = d + now, am_t = Unicast t, am_message = m,
    am_condition_addr = c, am_id = mid, am_c_width = w, am_refcount = 1\<rparr>"
  obtain q' where q': "insert_msg a (vm_message_queue s) = (True, q')"
    using insert_after_accepts [of a None "vm_message_queue s"] assms
    by (cases "insert_msg a (vm_message_queue s)") (simp add: insert_msg_def a_def)
  have "mset (pending_of u q')
      = (if u = t then {#(am_due a, am_id a, am_message a)#} else {#})
        + mset (pending_of u (vm_message_queue s))"
    using insert_after_pending [OF q' [unfolded insert_msg_def], of u]
    by (simp add: addressed_to_def a_def)
  then have "image_mset (\<lambda>(_, i, _). i) (mset (pending_of u q'))
      = (if u = t then {#mid#} else {#})
        + image_mset (\<lambda>(_, i, _). i) (mset (pending_of u (vm_message_queue s)))"
    by (simp add: a_def)
  then show ?thesis using q'
    by (simp add: vm_message_send_later_def recipients_of_def a_def posted_ids_def)
qed


lemma without_task_id: "without_task t a = Some b \<Longrightarrow> am_id b = am_id a"
  by (auto simp: without_task_def split: if_splits recipients.splits)

lemma image_mset_pending:
  "image_mset (\<lambda>(_, i, _). i) (mset (pending_of u q)) = image_mset am_id (mset (filter (addressed_to u) q))"
  by (induction q) auto

lemma cancel_posted_ids:
  assumes "t \<noteq> INVALIDATED_TASK" "u \<noteq> INVALIDATED_TASK"
  shows "\<exists>n s'. MessageCancelAll t mid s = Some (n, s') \<and> posted_ids u s'
    = (if u = t then filter_mset (\<lambda>j. j \<noteq> mid) (posted_ids u s) else posted_ids u s)"
proof -
  have "mset (map (\<lambda>(_, i, _). i) (pending_of u (List.map_filter (cancel_one t mid) q)))
      = (if u = t then filter_mset (\<lambda>j. j \<noteq> mid) (mset (map (\<lambda>(_, i, _). i) (pending_of u q)))
         else mset (map (\<lambda>(_, i, _). i) (pending_of u q)))" for q :: "'a msg_queue"
  proof (induction q)
    case (Cons a q)
    show ?case
    proof (cases "am_id a = mid")
      case mid: True
      show ?thesis
      proof (cases "u = t")
        case True
        with mid Cons cancel_one_not_pending [of t mid a, OF _ assms(1)] show ?thesis
          by (auto simp: map_filter_simps cancel_one_def dest: without_task_id split: option.splits)
      next
        case False
        with mid Cons without_task_others [of u t a] without_task_no_new [of t a _ u] assms
        show ?thesis
          by (cases "addressed_to u a") (auto simp: map_filter_simps cancel_one_def split: option.splits)
      qed
    next
      case False
      then have "cancel_one t mid a = Some a" by (simp add: cancel_one_def)
      with Cons False show ?thesis by (cases "u = t") (simp_all add: map_filter_simps)
    qed
  qed (simp add: map_filter_simps)
  with cancel_all_loop_result [OF assms(1), of mid 0 "vm_message_queue s"] show ?thesis
    by (auto simp: MessageCancelAll_def posted_ids_def)
qed

lemma flush_posted_ids:
  assumes "t \<noteq> INVALIDATED_TASK" "u \<noteq> INVALIDATED_TASK"
  shows "posted_ids u (snd (MessageFlushTask t s)) = (if u = t then {#} else posted_ids u s)"
proof -
  have "filter (addressed_to t) (List.map_filter (without_task t) q) = []" for q :: "'a msg_queue"
    unfolding filter_empty_conv
    by (rule all_map_filter) (rule without_task_not_addressed [OF _ assms(1)])
  then have "posted_ids t (snd (MessageFlushTask t s)) = {#}"
    by (simp add: posted_ids_def pending_of_def MessageFlushTask_queue)
  then show ?thesis
    using assms by (auto simp: posted_ids_def MessageFlushTask_queue flush_keeps_others)
qed

text \<open>
  The interpretation: every task but the invalidated one, every id the queue does not combine.
  The clock, the payload and the delay or the 16-bit condition travel with the message.
\<close>

definition mb_send ::
  "task \<Rightarrow> message_id \<Rightarrow> u32 \<times> 'm msg_data option \<times> u32 \<times> nat option \<Rightarrow> 'm vm \<Rightarrow> 'm vm option" where
  "mb_send t i d s =
     (let (now, m, delay, c) = d
      in if c = None then MessageSendLater now t i m delay s else MessageSendConditionally now t i m c s)"

definition mb_cancel :: "task \<Rightarrow> message_id \<Rightarrow> 'm vm \<Rightarrow> 'm vm option" where
  "mb_cancel t i s = map_option snd (MessageCancelAll t i s)"

interpretation mq: mailbox "{t. t \<noteq> INVALIDATED_TASK}" "{i. \<not> combinable i}" posted_ids mb_send mb_cancel
  "\<lambda>t s. snd (MessageFlushTask t s)"
proof
  fix t u :: task and i and d :: "u32 \<times> 'a msg_data option \<times> u32 \<times> nat option" and q :: "'a vm"
  assume "i \<in> {i. \<not> combinable i}"
  then show "\<exists>q'. mb_send t i d q = Some q'
      \<and> posted_ids u q' = (if u = t then add_mset i (posted_ids u q) else posted_ids u q)"
    using send_later_posted [of i]
    by (cases d; cases "snd (snd (snd d))")
      (simp_all only: mb_send_def MessageSendLater_def MessageSendConditionally_def Let_def prod.case
        fst_conv snd_conv option.distinct if_True if_False refl mem_Collect_eq not_False_eq_True
        simp_thms)
next
  fix t u :: task and i and q :: "'a vm"
  assume "t \<in> {t. t \<noteq> INVALIDATED_TASK}" "u \<in> {t. t \<noteq> INVALIDATED_TASK}"
  then show "\<exists>q'. mb_cancel t i q = Some q'
      \<and> posted_ids u q' = (if u = t then filter_mset (\<lambda>j. j \<noteq> i) (posted_ids u q) else posted_ids u q)"
    using cancel_posted_ids [of t u i q] by (auto simp: mb_cancel_def)
next
  fix t u :: task and q :: "'a vm"
  assume "t \<in> {t. t \<noteq> INVALIDATED_TASK}" "u \<in> {t. t \<noteq> INVALIDATED_TASK}"
  then show "posted_ids u (snd (MessageFlushTask t q)) = (if u = t then {#} else posted_ids u q)"
    by (simp add: flush_posted_ids)
qed

text \<open>
  A message posted and then cancelled leaves no trace: for a real task and an application id that
  was not pending, sending it (now, later or on a condition) and cancelling all messages with
  that id both succeed and give back what was pending for the task before.
\<close>
lemma cancel_undoes_send_message:
  assumes "t \<noteq> INVALIDATED_TASK" "\<not> combinable i" "i \<notin># posted_ids t s"
  shows "\<exists>s1 n s2. mb_send t i d s = Some s1 \<and> MessageCancelAll t i s1 = Some (n, s2)
    \<and> posted_ids t s2 = posted_ids t s"
proof -
  obtain s1 where s1: "mb_send t i d s = Some s1"
    using mq.send_defined [of t i d s] assms by auto
  obtain s2 where s2: "mb_cancel t i s1 = Some s2"
    using mq.cancel_defined [of t i s1] assms by auto
  have "posted_ids t s2 = posted_ids t s"
    using mq.cancel_undoes_send [of t i d s s1 s2] s1 s2 assms by simp
  with s1 s2 show ?thesis by (auto simp: mb_cancel_def)
qed

theorem cancel_undoes_send_message_witness:
  "\<exists>s1 n s2. mb_send 5 2 (0, None, 10, None)
      \<lparr>vm_message_queue = [plain_msg 5 1 7 :: unit app_message],
       vm_delivered_messages = [], sched_event_pending = False, put_message_ok = True,
       registered_hdlrs = [5], sink_source_hdlrs = [], run_timer = None\<rparr> = Some s1
    \<and> MessageCancelAll 5 2 s1 = Some (n, s2) \<and> posted_ids 5 s2 = {#1#}"
proof -
  let ?s = "\<lparr>vm_message_queue = [plain_msg 5 1 7 :: unit app_message],
       vm_delivered_messages = [], sched_event_pending = False, put_message_ok = True,
       registered_hdlrs = [5], sink_source_hdlrs = [], run_timer = None\<rparr>"
  have p: "posted_ids 5 ?s = {#1#}"
    by (simp add: posted_ids_def addressed_to_def plain_msg_def)
  have "(5::task) \<noteq> INVALIDATED_TASK" by (simp add: INVALIDATED_TASK_def)
  moreover have "\<not> combinable 2" by (simp add: combinable_def system_message_ids)
  moreover have "(2 :: message_id) \<notin># posted_ids 5 ?s" by (simp add: p)
  ultimately show ?thesis
    using cancel_undoes_send_message [of 5 2 ?s "(0, None, 10, None)"] p by simp
qed

text \<open>
  \<open>MessageCancelFirst\<close> can take more than the first message: it takes the task out of
  every multicast with the id that it passes and goes on to the first unicast message, so two
  messages of the task can go in one call. (The interface describes it as cancelling the first
  queued message.)
\<close>
lemma MessageCancelFirst_takes_two:
  "let q = [(plain_msg 5 1 7 :: unit app_message)\<lparr>am_t := Multicast [5, 6]\<rparr>, plain_msg 5 1 9];
       (rc, q') = cancel_first 5 1 q False
   in rc \<and> length (pending_of 5 q) = 2 \<and> length (pending_of 5 q') = 0"
  by (simp add: plain_msg_def INVALIDATED_TASK_def has_valid_def addressed_to_def)

section \<open>A task that receives no multicast\<close>

text \<open>
  For such a task the result of \<open>MessageCancelAll\<close> counts the messages that were cancelled.
\<close>

definition direct_only :: "task \<Rightarrow> 'm msg_queue \<Rightarrow> bool" where
  "direct_only t q = (\<forall>a\<in>set q. case am_t a of Unicast _ \<Rightarrow> True | Multicast ts \<Rightarrow> t \<notin> set ts \<and> has_valid ts)"

lemma direct_only_simps [simp]:
  "direct_only t []"
  "direct_only t (a # q) \<longleftrightarrow>
     (case am_t a of Unicast _ \<Rightarrow> True | Multicast ts \<Rightarrow> t \<notin> set ts \<and> has_valid ts) \<and> direct_only t q"
  by (simp_all add: direct_only_def)

lemma without_task_direct:
  "direct_only t (a # q) \<Longrightarrow> without_task t a = (if unicast_to t a then None else Some a)"
  by (auto simp: without_task_def unicast_to_def invalidate_id split: recipients.splits)

lemma map_filter_direct:
  "direct_only t q \<Longrightarrow> List.map_filter (without_task t) q = filter (\<lambda>a. \<not> unicast_to t a) q"
  "direct_only t q \<Longrightarrow> List.map_filter (cancel_one t mid) q
     = filter (\<lambda>a. \<not> (unicast_to t a \<and> am_id a = mid)) q"
proof (induction q)
  case (Cons a q)
  {
    case 1
    from without_task_direct [OF 1] Cons(1) 1 show ?case by (simp add: map_filter_simps)
  next
    case 2
    from without_task_direct [OF 2] Cons(2) 2 show ?case by (simp add: map_filter_simps cancel_one_def)
  }
qed (simp_all add: map_filter_simps)

lemma cancel_first_direct:
  assumes "direct_only t q"
  shows "case cancel_first t mid q False of (rc, q') \<Rightarrow>
    direct_only t q' \<and> length (filter (\<lambda>a. unicast_to t a \<and> am_id a = mid) q)
      = length (filter (\<lambda>a. unicast_to t a \<and> am_id a = mid) q') + (if rc then 1 else 0)
    \<and> (\<not> rc \<longrightarrow> filter (\<lambda>a. unicast_to t a \<and> am_id a = mid) q = [])"
  using assms
  by (induction q) (auto simp: unicast_to_def invalidate_id Let_def split: recipients.splits prod.splits if_splits)

lemma cancel_all_count:
  assumes "direct_only t q"
  shows "\<exists>q'. cancel_all_loop t mid n q
    = Some (n + of_nat (length (filter (\<lambda>a. unicast_to t a \<and> am_id a = mid) q)), q')"
  using assms
proof (induction "length (filter (\<lambda>a. unicast_to t a \<and> am_id a = mid) q)" arbitrary: q n)
  case 0
  then show ?case
    using cancel_first_direct [OF 0(2), of mid]
    by (subst cancel_all_loop.simps) (auto split: prod.splits if_splits)
next
  case (Suc k)
  obtain rc q' where c: "cancel_first t mid q False = (rc, q')" by force
  have rc: "rc" "direct_only t q'" "k = length (filter (\<lambda>a. unicast_to t a \<and> am_id a = mid) q')"
    using cancel_first_direct [OF Suc(3), of mid] c Suc(2) by (auto split: if_splits)
  from Suc(1) [OF rc(3,2), of "n + 1"] obtain q''
    where e: "cancel_all_loop t mid (n + 1) q' = Some (n + 1 + of_nat k, q'')"
    unfolding rc(3) [symmetric] by blast
  show ?case
    unfolding Suc(2) [symmetric] using c rc(1) e by (subst cancel_all_loop.simps) simp
qed

lemma posted_ids_direct:
  assumes "direct_only t (vm_message_queue s)"
  shows "posted_ids t s = image_mset am_id (mset (filter (unicast_to t) (vm_message_queue s)))"
proof -
  have "filter (addressed_to t) q = filter (unicast_to t) q" if "direct_only t q" for q :: "'a msg_queue"
    using that by (induction q) (auto simp: addressed_to_def unicast_to_def split: recipients.splits)
  with assms show ?thesis unfolding posted_ids_def mset_map image_mset_pending by simp
qed

lemma MessageCancelAll_direct:
  assumes "direct_only t (vm_message_queue s)" "t \<noteq> INVALIDATED_TASK"
  shows "\<exists>s'. MessageCancelAll t mid s = Some (of_nat (count (posted_ids t s) mid), s')
    \<and> posted_ids t s' = filter_mset (\<lambda>j. j \<noteq> mid) (posted_ids t s)
    \<and> vm_message_queue s' = filter (\<lambda>a. \<not> (unicast_to t a \<and> am_id a = mid)) (vm_message_queue s)"
proof -
  obtain q' where q': "cancel_all_loop t mid 0 (vm_message_queue s)
      = Some (of_nat (length (filter (\<lambda>a. unicast_to t a \<and> am_id a = mid) (vm_message_queue s))), q')"
    using cancel_all_count [OF assms(1), of mid 0] by auto
  have "q' = List.map_filter (cancel_one t mid) (vm_message_queue s)"
    using cancel_all_loop_result [OF assms(2), of mid 0 "vm_message_queue s"] q' by auto
  moreover have "count (image_mset am_id (mset (filter (unicast_to t) q))) mid
      = length (filter (\<lambda>a. unicast_to t a \<and> am_id a = mid) q)" for q :: "'a msg_queue"
    by (induction q) auto
  ultimately show ?thesis
    using q' cancel_posted_ids [OF assms(2,2), of mid s] posted_ids_direct [OF assms(1)]
      map_filter_direct(2) [OF assms(1)]
    by (auto simp: MessageCancelAll_def simp del: filter_mset_eq_conv)
qed

end
