(* ===== verification/TaskList.thy ===== *)
theory TaskList
  imports MessageQueue
begin

text \<open>
  Task lists, \<open>libs/task_list/task_list.c\<close>: a list of tasks kept in three places (a flexible
  array behind the structure, one task in a union, or an allocated array in the same union),
  with a size of four bits and, for a list with data, a parallel array of 64-bit values. The
  model is at the level of this memory: an access outside an allocation, the use of one member
  of the union as the other, the read of memory that was never written and a panic are \<open>None\<close>.
  List pointers are not NULL and allocation succeeds. Then it is shown that the operations
  implement plain lists of tasks.
\<close>

section \<open>Memory\<close>

datatype task_list_type = TASKLIST_TYPE_STANDARD | TASKLIST_TYPE_WITH_DATA

text \<open>\<open>task_list_data_t\<close> is a union of 64 bits.\<close>

type_synonym task_list_data = u64

text \<open>
  A cell that was never written is \<open>None\<close>. \<open>U_task 0\<close> is also the NULL array.
\<close>

datatype task_union = U_task task | U_tasks "task option list"

record task_list =
  size_list :: nat
  size_flexible_tasks :: nat
  list_type :: task_list_type
  no_destroy :: bool
  tl_u :: task_union
  flexible_tasks :: "task list"
  tl_data :: "task_list_data option list"

definition TASK_LIST_SIZE_BITS :: nat where "TASK_LIST_SIZE_BITS = 4"
definition TASK_LIST_MAX_TASKS :: nat where "TASK_LIST_MAX_TASKS = 2 ^ TASK_LIST_SIZE_BITS - 1"

definition taskList_SizeSet :: "task_list \<Rightarrow> nat \<Rightarrow> task_list" where
  "taskList_SizeSet l n = l\<lparr>size_list := n mod 2 ^ TASK_LIST_SIZE_BITS\<rparr>"

definition taskList_FlexibleSizeSet :: "task_list \<Rightarrow> nat \<Rightarrow> task_list" where
  "taskList_FlexibleSizeSet l n = l\<lparr>size_flexible_tasks := n mod 2 ^ TASK_LIST_SIZE_BITS\<rparr>"

section \<open>Internal functions\<close>

definition taskList_GetTaskAtIndex :: "task_list \<Rightarrow> nat \<Rightarrow> task option" where
  "taskList_GetTaskAtIndex l index =
     (if index < size_flexible_tasks l then
        (if index < length (flexible_tasks l) then Some (flexible_tasks l ! index) else None)
      else if index = size_flexible_tasks l \<and> size_list l = index + 1 then
        (case tl_u l of U_task t \<Rightarrow> Some t | U_tasks _ \<Rightarrow> None)
      else
        (case tl_u l of U_task _ \<Rightarrow> None
         | U_tasks xs \<Rightarrow> read_cell xs (index - size_flexible_tasks l)))"

definition taskList_SetTaskAtIndex :: "task_list \<Rightarrow> task \<Rightarrow> nat \<Rightarrow> task_list option" where
  "taskList_SetTaskAtIndex l t index =
     (if index < size_flexible_tasks l then
        map_option (\<lambda>xs. l\<lparr>flexible_tasks := xs\<rparr>) (write_cell (flexible_tasks l) index t)
      else if index = size_flexible_tasks l \<and> index + 1 = size_list l then
        Some (l\<lparr>tl_u := U_task t\<rparr>)
      else
        (case tl_u l of U_task _ \<Rightarrow> None
         | U_tasks xs \<Rightarrow>
             map_option (\<lambda>ys. l\<lparr>tl_u := U_tasks ys\<rparr>)
               (write_cell xs (index - size_flexible_tasks l) (Some t))))"

text \<open>The last index that holds the task: the loop does not stop at the first.\<close>

fun find_index_loop :: "task_list \<Rightarrow> task \<Rightarrow> nat list \<Rightarrow> nat option \<Rightarrow> nat option option" where
  "find_index_loop l t [] found = Some found"
| "find_index_loop l t (i # is) found =
     (case taskList_GetTaskAtIndex l i of
        None \<Rightarrow> None
      | Some u \<Rightarrow> find_index_loop l t is (if u = t then Some i else found))"

definition taskList_FindTaskIndex :: "task_list \<Rightarrow> task \<Rightarrow> nat option option" where
  "taskList_FindTaskIndex l t = find_index_loop l t [0 ..< size_list l] None"

definition resize_union :: "task_list \<Rightarrow> nat \<Rightarrow> task_list option" where
  "resize_union l new_size =
     (let flex_size = size_flexible_tasks l; static_size = flex_size + 1; old_size = size_list l
      in if new_size = static_size then
           (if old_size > static_size then
              (case tl_u l of
                 U_tasks xs \<Rightarrow> map_option (\<lambda>t. l\<lparr>tl_u := U_task t\<rparr>) (read_cell xs 0)
               | U_task _ \<Rightarrow> None)
            else if old_size < static_size then Some (l\<lparr>tl_u := U_task NULL_TASK\<rparr>)
            else Some l)
         else if new_size > static_size then
           (if old_size = static_size then
              (case tl_u l of
                 U_task t \<Rightarrow>
                   Some (l\<lparr>tl_u := U_tasks (Some t # replicate (new_size - flex_size - 1) None)\<rparr>)
               | U_tasks _ \<Rightarrow> None)
            else
              (case tl_u l of
                 U_task t \<Rightarrow>
                   (if t = NULL_TASK
                    then Some (l\<lparr>tl_u := U_tasks (replicate (new_size - flex_size) None)\<rparr>) else None)
               | U_tasks xs \<Rightarrow> Some (l\<lparr>tl_u := U_tasks (realloc_cells xs (new_size - flex_size))\<rparr>)))
         else
           (if old_size > static_size then
              (case tl_u l of U_tasks _ \<Rightarrow> Some (l\<lparr>tl_u := U_task NULL_TASK\<rparr>) | U_task _ \<Rightarrow> None)
            else if old_size = static_size then Some (l\<lparr>tl_u := U_task NULL_TASK\<rparr>)
            else Some l))"

definition resize_data :: "task_list \<Rightarrow> nat \<Rightarrow> task_list" where
  "resize_data l new_size =
     (if list_type l = TASKLIST_TYPE_WITH_DATA
      then l\<lparr>tl_data := (if new_size \<noteq> 0 then realloc_cells (tl_data l) new_size else [])\<rparr>
      else l)"

definition taskList_Resize :: "task_list \<Rightarrow> nat \<Rightarrow> task_list option" where
  "taskList_Resize l new_size =
     do { l1 \<leftarrow> resize_union l new_size; Some (taskList_SizeSet (resize_data l1 new_size) new_size) }"

text \<open>
  \<open>iterateIndex\<close>: the outer option is failure, the inner one is whether another task was
  found; the task comes with its index, and \<open>next_task\<close> with the value it is left at.
\<close>

definition iterateIndex :: "task_list \<Rightarrow> task \<Rightarrow> ((task \<times> nat) option \<times> task) option" where
  "iterateIndex l next_task =
     (if size_list l \<noteq> 0 then
        (if next_task = 0 then
           do { t \<leftarrow> taskList_GetTaskAtIndex l 0; Some (Some (t, 0), t) }
         else
           do {
             found \<leftarrow> taskList_FindTaskIndex l next_task;
             case found of
               Some i \<Rightarrow>
                 (if i + 1 < size_list l then
                    do { t \<leftarrow> taskList_GetTaskAtIndex l (i + 1); Some (Some (t, i + 1), t) }
                  else Some (None, next_task))
             | None \<Rightarrow> Some (None, 0)
           })
      else Some (None, next_task))"

partial_function (option) array_loop ::
  "task_list \<Rightarrow> task \<Rightarrow> nat option \<Rightarrow> task option list \<Rightarrow> (nat option \<times> task option list) option" where
  "array_loop l next_task index arr =
     do {
       (r, next_task') \<leftarrow> iterateIndex l next_task;
       case r of
         None \<Rightarrow> Some (index, arr)
       | Some (t, i) \<Rightarrow> do { arr' \<leftarrow> write_cell arr i (Some t); array_loop l next_task' (Some i) arr' }
     }"

text \<open>The inner \<open>None\<close> is the NULL pointer returned for an empty list.\<close>

definition taskList_CreateNullTerminatedTaskArray :: "task_list \<Rightarrow> task option list option option" where
  "taskList_CreateNullTerminatedTaskArray l =
     (if size_list l \<noteq> 0 then
        do {
          (index, arr) \<leftarrow> array_loop l NULL_TASK None (replicate (size_list l + 1) None);
          i \<leftarrow> index;
          arr' \<leftarrow> write_cell arr (i + 1) (Some NULL_TASK);
          Some (Some arr')
        }
      else Some None)"

section \<open>External functions\<close>

text \<open>
  \<open>capacity - 1\<close> is an unsigned difference that is stored in a bit field: capacity 0 sets all its
  bits, so the list claims the largest flexible array and has none, and its first use is a fault.
\<close>

definition TaskList_InitialiseWithCapacity :: "nat \<Rightarrow> task_list option" where
  "TaskList_InitialiseWithCapacity capacity =
     do {
       PanicFalse (capacity \<le> TASK_LIST_MAX_TASKS);
       Some (taskList_FlexibleSizeSet
         \<lparr>size_list = 0, size_flexible_tasks = 0, list_type = TASKLIST_TYPE_STANDARD,
          no_destroy = True, tl_u = U_task NULL_TASK,
          flexible_tasks = replicate (capacity - 1) NULL_TASK, tl_data = []\<rparr>
         (if capacity = 0 then 2 ^ TASK_LIST_SIZE_BITS - 1 else capacity - 1))
     }"

definition TaskList_CreateWithCapacity :: "nat \<Rightarrow> task_list option" where
  "TaskList_CreateWithCapacity capacity =
     map_option (\<lambda>l. l\<lparr>no_destroy := False\<rparr>)
       (TaskList_InitialiseWithCapacity (if capacity = 0 then 1 else capacity))"

definition TaskList_Create :: "task_list option" where
  "TaskList_Create = TaskList_CreateWithCapacity 1"

definition TaskList_Initialise :: "task_list option" where
  "TaskList_Initialise = TaskList_InitialiseWithCapacity 1"

definition TaskList_WithDataInitialise :: task_list where
  "TaskList_WithDataInitialise =
     \<lparr>size_list = 0, size_flexible_tasks = 0, list_type = TASKLIST_TYPE_WITH_DATA,
      no_destroy = True, tl_u = U_task NULL_TASK, flexible_tasks = [], tl_data = []\<rparr>"

definition TaskList_WithDataCreate :: task_list where
  "TaskList_WithDataCreate = TaskList_WithDataInitialise\<lparr>no_destroy := False\<rparr>"

definition TaskList_Destroy :: "task_list \<Rightarrow> unit option" where
  "TaskList_Destroy l =
     do { PanicFalse (\<not> no_destroy l); _ \<leftarrow> taskList_Resize l 0; Some () }"

definition TaskList_IsTaskOnList :: "task_list \<Rightarrow> task \<Rightarrow> bool option" where
  "TaskList_IsTaskOnList l t = map_option (\<lambda>r. r \<noteq> None) (taskList_FindTaskIndex l t)"

definition TaskList_IsTaskListWithData :: "task_list \<Rightarrow> bool" where
  "TaskList_IsTaskListWithData l = (list_type l = TASKLIST_TYPE_WITH_DATA)"

text \<open>The index \<open>size - 1\<close> is computed in 16 bits.\<close>

definition TaskList_AddTask :: "task_list \<Rightarrow> task \<Rightarrow> (bool \<times> task_list) option" where
  "TaskList_AddTask l add_task =
     do {
       PanicNull add_task;
       on_list \<leftarrow> TaskList_IsTaskOnList l add_task;
       if on_list then Some (False, l)
       else do {
         l1 \<leftarrow> taskList_Resize l (size_list l + 1);
         l2 \<leftarrow> taskList_SetTaskAtIndex l1 add_task ((size_list l1 + 0xFFFF) mod 0x10000);
         Some (True, l2)
       }
     }"

definition TaskList_AddTaskWithData ::
  "task_list \<Rightarrow> task \<Rightarrow> task_list_data \<Rightarrow> (bool \<times> task_list) option" where
  "TaskList_AddTaskWithData l add_task d =
     (if TaskList_IsTaskListWithData l then
        do {
          (added, l1) \<leftarrow> TaskList_AddTask l add_task;
          if added then
            do { ds \<leftarrow> write_cell (tl_data l1) (size_list l1 - 1) (Some d);
                 Some (True, l1\<lparr>tl_data := ds\<rparr>) }
          else Some (False, l1)
        }
      else Some (False, l))"

fun shift_loop :: "nat list \<Rightarrow> task_list \<Rightarrow> task_list option" where
  "shift_loop [] l = Some l"
| "shift_loop (i # is) l =
     do { t \<leftarrow> taskList_GetTaskAtIndex l (i + 1); l' \<leftarrow> taskList_SetTaskAtIndex l t i; shift_loop is l' }"

definition TaskList_RemoveTask :: "task_list \<Rightarrow> task \<Rightarrow> (bool \<times> task_list) option" where
  "TaskList_RemoveTask l del_task =
     do {
       PanicNull del_task;
       found \<leftarrow> taskList_FindTaskIndex l del_task;
       case found of
         None \<Rightarrow> Some (False, l)
       | Some index \<Rightarrow>
           do {
             l1 \<leftarrow> shift_loop [index ..< size_list l - 1] l;
             let l2 = (if list_type l1 = TASKLIST_TYPE_WITH_DATA
                       then l1\<lparr>tl_data := take index (tl_data l1)
                              @ take (size_list l1 - index - 1) (drop (index + 1) (tl_data l1))
                              @ drop (size_list l1 - 1) (tl_data l1)\<rparr>
                       else l1);
             l3 \<leftarrow> taskList_Resize l2 (size_list l2 - 1);
             Some (True, l3)
           }
     }"

definition TaskList_RemoveAllTasks :: "task_list \<Rightarrow> task_list option" where
  "TaskList_RemoveAllTasks l =
     do { PanicFalse (list_type l \<noteq> TASKLIST_TYPE_WITH_DATA); taskList_Resize l 0 }"

text \<open>The only function that accepts a NULL list.\<close>

definition TaskList_Size :: "task_list option \<Rightarrow> nat" where
  "TaskList_Size l = (case l of None \<Rightarrow> 0 | Some l \<Rightarrow> size_list l)"

definition TaskList_Iterate :: "task_list \<Rightarrow> task \<Rightarrow> (bool \<times> task) option" where
  "TaskList_Iterate l next_task = map_option (\<lambda>(r, t). (r \<noteq> None, t)) (iterateIndex l next_task)"

text \<open>Raw access returns the index of the datum in the data array.\<close>

definition TaskList_IterateWithDataRaw :: "task_list \<Rightarrow> task \<Rightarrow> (nat option \<times> task) option" where
  "TaskList_IterateWithDataRaw l next_task =
     (if TaskList_IsTaskListWithData l
      then map_option (\<lambda>(r, t). (map_option snd r, t)) (iterateIndex l next_task)
      else Some (None, next_task))"

definition TaskList_IterateWithData ::
  "task_list \<Rightarrow> task \<Rightarrow> (task_list_data option \<times> task) option" where
  "TaskList_IterateWithData l next_task =
     do {
       (r, t) \<leftarrow> TaskList_IterateWithDataRaw l next_task;
       case r of
         None \<Rightarrow> Some (None, t)
       | Some i \<Rightarrow> do { d \<leftarrow> read_cell (tl_data l) i; Some (Some d, t) }
     }"

text \<open>
  The handler is given the task, its datum (which it may change) and an argument of type \<open>'s\<close>.
\<close>

partial_function (option) iterate_raw_loop ::
  "(task \<Rightarrow> task_list_data option \<Rightarrow> 's \<Rightarrow> bool \<times> task_list_data option \<times> 's) \<Rightarrow> bool \<Rightarrow> task
   \<Rightarrow> task_list \<Rightarrow> 's \<Rightarrow> (bool \<times> task_list \<times> 's) option" where
  "iterate_raw_loop handler proceed next_task l arg =
     (if proceed then
        do {
          (r, next_task') \<leftarrow> iterateIndex l next_task;
          case r of
            None \<Rightarrow> Some (proceed, l, arg)
          | Some (t, i) \<Rightarrow>
              (if i < length (tl_data l) then
                 (let (proceed', d, arg') = handler t (tl_data l ! i) arg
                  in iterate_raw_loop handler proceed' next_task' (l\<lparr>tl_data := (tl_data l)[i := d]\<rparr>) arg')
               else None)
        }
      else Some (proceed, l, arg))"

definition TaskList_IterateWithDataRawFunction ::
  "task_list \<Rightarrow> (task \<Rightarrow> task_list_data option \<Rightarrow> 's \<Rightarrow> bool \<times> task_list_data option \<times> 's) \<Rightarrow> 's
   \<Rightarrow> (bool \<times> task_list \<times> 's) option" where
  "TaskList_IterateWithDataRawFunction l handler arg =
     do { PanicFalse (TaskList_IsTaskListWithData l); iterate_raw_loop handler True 0 l arg }"

fun copy_loop :: "task_list \<Rightarrow> nat list \<Rightarrow> task_list \<Rightarrow> task_list option" where
  "copy_loop l [] new = Some new"
| "copy_loop l (i # is) new =
     do { t \<leftarrow> taskList_GetTaskAtIndex l i; new' \<leftarrow> taskList_SetTaskAtIndex new t i; copy_loop l is new' }"

definition TaskList_Duplicate :: "task_list \<Rightarrow> task_list option" where
  "TaskList_Duplicate l =
     do {
       new \<leftarrow> (if list_type l = TASKLIST_TYPE_STANDARD
               then TaskList_CreateWithCapacity (size_flexible_tasks l)
               else Some TaskList_WithDataCreate);
       let new = new\<lparr>size_list := size_list l, size_flexible_tasks := size_flexible_tasks l,
                     list_type := list_type l, no_destroy := False\<rparr>;
       new1 \<leftarrow> taskList_Resize new (size_list l);
       new2 \<leftarrow> copy_loop l [0 ..< size_list l] new1;
       Some (if list_type new2 = TASKLIST_TYPE_WITH_DATA
             then new2\<lparr>tl_data := take (size_list l) (tl_data l) @ drop (size_list l) (tl_data new2)\<rparr>
             else new2)
     }"

text \<open>The tasks a multicast reads from an array: those before the first NULL.\<close>

fun read_terminated :: "task option list \<Rightarrow> task list option" where
  "read_terminated [] = None"
| "read_terminated (c # cs) =
     do { t \<leftarrow> c; if t = NULL_TASK then Some [] else do { ts \<leftarrow> read_terminated cs; Some (t # ts) } }"

definition TaskList_MessageSendLaterWithSize ::
  "u32 \<Rightarrow> task_list \<Rightarrow> message_id \<Rightarrow> 'm msg_data option \<Rightarrow> nat \<Rightarrow> u32 \<Rightarrow> 'm vm \<Rightarrow> 'm vm option" where
  "TaskList_MessageSendLaterWithSize now l mid data size_data delay s =
     do {
       arr \<leftarrow> taskList_CreateNullTerminatedTaskArray l;
       case arr of
         Some cells \<Rightarrow>
           do {
             PanicFalse (size_data = 0 \<longrightarrow> data = None);
             ts \<leftarrow> read_terminated cells;
             MessageSendMulticastLater now (Some ts) mid data delay s
           }
       | None \<Rightarrow> Some s
     }"

definition TaskList_MessageSendWithSize ::
  "u32 \<Rightarrow> task_list \<Rightarrow> message_id \<Rightarrow> 'm msg_data option \<Rightarrow> nat \<Rightarrow> 'm vm \<Rightarrow> 'm vm option" where
  "TaskList_MessageSendWithSize now l mid data size_data s =
     TaskList_MessageSendLaterWithSize now l mid data size_data D_IMMEDIATE s"

definition TaskList_GetDataForTaskRaw :: "task_list \<Rightarrow> task \<Rightarrow> nat option option" where
  "TaskList_GetDataForTaskRaw l t =
     (if TaskList_IsTaskListWithData l then taskList_FindTaskIndex l t else Some None)"

definition TaskList_GetDataForTask :: "task_list \<Rightarrow> task \<Rightarrow> task_list_data option option" where
  "TaskList_GetDataForTask l t =
     do {
       r \<leftarrow> TaskList_GetDataForTaskRaw l t;
       case r of None \<Rightarrow> Some None | Some i \<Rightarrow> map_option Some (read_cell (tl_data l) i)
     }"

definition TaskList_SetDataForTask ::
  "task_list \<Rightarrow> task \<Rightarrow> task_list_data \<Rightarrow> (bool \<times> task_list) option" where
  "TaskList_SetDataForTask l t d =
     (if TaskList_IsTaskListWithData l then
        do {
          r \<leftarrow> taskList_FindTaskIndex l t;
          case r of
            None \<Rightarrow> Some (False, l)
          | Some i \<Rightarrow> do { ds \<leftarrow> write_cell (tl_data l) i (Some d); Some (True, l\<lparr>tl_data := ds\<rparr>) }
        }
      else Some (False, l))"

section \<open>The lists the memory stands for\<close>

definition union_of :: "nat \<Rightarrow> task list \<Rightarrow> task_union" where
  "union_of f ts =
     (if length ts \<le> f then U_task NULL_TASK
      else if length ts = f + 1 then U_task (ts ! f)
      else U_tasks (map Some (drop f ts)))"

definition data_of :: "task_list \<Rightarrow> task list \<Rightarrow> task_list_data option list \<Rightarrow> bool" where
  "data_of l ts ds =
     (if list_type l = TASKLIST_TYPE_WITH_DATA
      then size_flexible_tasks l = 0 \<and> tl_data l = ds \<and> length ds = length ts
      else tl_data l = [] \<and> ds = [])"

definition tl_repr :: "task_list \<Rightarrow> task list \<Rightarrow> task_list_data option list \<Rightarrow> bool" where
  "tl_repr l ts ds =
     (size_list l = length ts \<and> length ts \<le> 15 \<and> size_flexible_tasks l \<le> 14
      \<and> length (flexible_tasks l) = size_flexible_tasks l
      \<and> take (length ts) (flexible_tasks l) = take (size_flexible_tasks l) ts
      \<and> tl_u l = union_of (size_flexible_tasks l) ts \<and> data_of l ts ds)"

definition tasks_ok :: "task list \<Rightarrow> bool" where
  "tasks_ok ts = (distinct ts \<and> NULL_TASK \<notin> set ts)"

lemma tl_repr_size: "tl_repr l ts ds \<Longrightarrow> size_list l = length ts"
  by (simp add: tl_repr_def)

lemma get_repr:
  assumes "tl_repr l ts ds" "i < length ts"
  shows "taskList_GetTaskAtIndex l i = Some (ts ! i)"
proof (cases "i < size_flexible_tasks l")
  case True
  then have "flexible_tasks l ! i = take (length ts) (flexible_tasks l) ! i" using assms by simp
  also have "\<dots> = ts ! i" using assms True by (simp add: tl_repr_def)
  finally show ?thesis using True assms by (simp add: taskList_GetTaskAtIndex_def tl_repr_def)
next
  case False
  then show ?thesis
    using assms by (auto simp: taskList_GetTaskAtIndex_def tl_repr_def union_of_def read_cell_def)
qed

lemma union_of_update:
  assumes "i < length ts" "f \<le> i" "length ts \<noteq> f + 1"
  shows "union_of f (ts[i := t]) = U_tasks ((map Some (drop f ts))[i - f := Some t])"
  using assms by (simp add: union_of_def drop_update_swap map_update)

lemma set_eq:
  assumes "tl_repr l ts ds" "i < length ts"
  shows "taskList_SetTaskAtIndex l t i =
    Some (if i < size_flexible_tasks l then l\<lparr>flexible_tasks := (flexible_tasks l)[i := t]\<rparr>
          else l\<lparr>tl_u := union_of (size_flexible_tasks l) (ts[i := t])\<rparr>)"
proof -
  let ?f = "size_flexible_tasks l"
  have n: "size_list l = length ts" and u: "tl_u l = union_of ?f ts"
    and fl: "length (flexible_tasks l) = ?f" using assms by (simp_all add: tl_repr_def)
  consider "i < ?f" | "i = ?f" "length ts = ?f + 1" | "?f \<le> i" "length ts \<noteq> ?f + 1"
    using assms(2) by linarith
  then show ?thesis
  proof cases
    case 1
    then show ?thesis by (simp add: taskList_SetTaskAtIndex_def write_cell_def fl)
  next
    case 2
    then have "union_of ?f (ts[i := t]) = U_task t" by (simp add: union_of_def)
    with 2 n show ?thesis by (simp add: taskList_SetTaskAtIndex_def)
  next
    case 3
    with u assms have "tl_u l = U_tasks (map Some (drop ?f ts))" by (simp add: union_of_def)
    with 3 n assms(2) union_of_update [OF assms(2) 3, of t] show ?thesis
      by (auto simp: taskList_SetTaskAtIndex_def write_cell_def)
  qed
qed

lemma set_repr:
  assumes "tl_repr l ts ds" "i < length ts"
  shows "\<exists>l'. taskList_SetTaskAtIndex l t i = Some l' \<and> tl_repr l' (ts[i := t]) ds
    \<and> list_type l' = list_type l"
proof (cases "i < size_flexible_tasks l")
  case True
  let ?f = "size_flexible_tasks l"
  have "union_of ?f (ts[i := t]) = union_of ?f ts" using True by (simp add: union_of_def)
  moreover have "take (length ts) ((flexible_tasks l)[i := t]) = take ?f (ts[i := t])"
    using assms by (simp add: take_update_swap tl_repr_def)
  ultimately show ?thesis
    using True assms set_eq [OF assms, of t] by (simp add: tl_repr_def data_of_def)
next
  case False
  then show ?thesis
    using assms set_eq [OF assms, of t] by (simp add: tl_repr_def data_of_def)
qed

lemma find_index_loop_eq:
  assumes "\<And>i. i \<in> set is \<Longrightarrow> taskList_GetTaskAtIndex l i = Some (f i)"
  shows "find_index_loop l t is found = Some (fold (\<lambda>i r. if f i = t then Some i else r) is found)"
  using assms by (induction "is" arbitrary: found) auto

lemma fold_find_absent:
  "\<forall>i\<in>set is. f i \<noteq> t \<Longrightarrow> fold (\<lambda>i r. if f i = t then Some i else r) is found = found"
  by (induction "is" arbitrary: found) auto

lemma fold_find_unique:
  assumes "k \<in> set is" "\<forall>i\<in>set is. f i = t \<longleftrightarrow> i = k"
  shows "fold (\<lambda>i r. if f i = t then Some i else r) is found = Some k"
proof -
  have "fold (\<lambda>i r. if f i = t then Some i else r) is (Some k) = Some k"
    if "\<forall>i\<in>set is. f i = t \<longleftrightarrow> i = k" for "is"
    using that by (induction "is") auto
  with assms show ?thesis by (induction "is" arbitrary: found) auto
qed

lemma find_repr_absent:
  assumes "tl_repr l ts ds" "t \<notin> set ts"
  shows "taskList_FindTaskIndex l t = Some None"
proof -
  have "taskList_FindTaskIndex l t
      = Some (fold (\<lambda>i r. if ts ! i = t then Some i else r) [0 ..< length ts] None)"
    unfolding taskList_FindTaskIndex_def tl_repr_size [OF assms(1)]
    by (rule find_index_loop_eq) (simp add: get_repr [OF assms(1)])
  also have "\<dots> = Some None"
    using assms(2) by (subst fold_find_absent) (auto simp: in_set_conv_nth)
  finally show ?thesis .
qed

lemma find_repr_present:
  assumes "tl_repr l ts ds" "distinct ts" "k < length ts"
  shows "taskList_FindTaskIndex l (ts ! k) = Some (Some k)"
proof -
  have "taskList_FindTaskIndex l (ts ! k)
      = Some (fold (\<lambda>i r. if ts ! i = ts ! k then Some i else r) [0 ..< length ts] None)"
    unfolding taskList_FindTaskIndex_def tl_repr_size [OF assms(1)]
    by (rule find_index_loop_eq) (simp add: get_repr [OF assms(1)])
  also have "\<dots> = Some (Some k)"
    using assms(2,3) by (subst fold_find_unique [of k]) (auto simp: nth_eq_iff_index_eq)
  finally show ?thesis .
qed

lemma on_list_repr:
  assumes "tl_repr l ts ds" "distinct ts"
  shows "TaskList_IsTaskOnList l t = Some (t \<in> set ts)"
proof (cases "t \<in> set ts")
  case True
  then obtain k where "k < length ts" "t = ts ! k" by (auto simp: in_set_conv_nth)
  with find_repr_present [OF assms] True show ?thesis by (simp add: TaskList_IsTaskOnList_def)
next
  case False
  with find_repr_absent [OF assms(1)] show ?thesis by (simp add: TaskList_IsTaskOnList_def)
qed

section \<open>Adding and removing\<close>

lemma size_bits [simp]: "(2::nat) ^ TASK_LIST_SIZE_BITS = 16"
  by (simp add: TASK_LIST_SIZE_BITS_def)

lemma take_Suc_all: "length xs = f \<Longrightarrow> take n xs = take f ts \<Longrightarrow> length ts = n \<Longrightarrow> f \<le> n
    \<Longrightarrow> xs = take f ts"
  by (metis take_all)

lemma add_step_flex:
  assumes "tl_repr l ts ds" "length ts < size_flexible_tasks l"
  shows "\<exists>l1 l2. taskList_Resize l (length ts + 1) = Some l1
    \<and> taskList_SetTaskAtIndex l1 t ((size_list l1 + 0xFFFF) mod 0x10000) = Some l2
    \<and> tl_repr l2 (ts @ [t]) ds \<and> list_type l2 = list_type l"
proof -
  let ?f = "size_flexible_tasks l" and ?n = "length ts"
  have s: "list_type l = TASKLIST_TYPE_STANDARD"
    using assms by (cases "list_type l") (auto simp: tl_repr_def data_of_def)
  have u: "tl_u l = U_task 0" using assms by (simp add: tl_repr_def union_of_def)
  have r: "taskList_Resize l (?n + 1) = Some (l\<lparr>size_list := ?n + 1\<rparr>)"
    using assms s u by (auto simp: taskList_Resize_def resize_union_def resize_data_def Let_def
      taskList_SizeSet_def tl_repr_def)
  have t: "take (?n + 1) ((flexible_tasks l)[?n := t]) = take ?n (flexible_tasks l) @ [t]"
    using assms by (simp add: take_Suc_conv_app_nth tl_repr_def)
  show ?thesis
    using assms r s u t by (auto simp: taskList_SetTaskAtIndex_def write_cell_def tl_repr_def data_of_def
      union_of_def)
qed

lemma last_index: "n \<le> 15 \<Longrightarrow> (n + 1 + 0xFFFF) mod 0x10000 = (n :: nat)"
  by simp

lemma add_step_union:
  assumes "tl_repr l ts ds" "length ts = size_flexible_tasks l"
  shows "\<exists>l1 l2. taskList_Resize l (length ts + 1) = Some l1
    \<and> taskList_SetTaskAtIndex l1 t ((size_list l1 + 0xFFFF) mod 0x10000) = Some l2
    \<and> tl_repr l2 (ts @ [t]) (if list_type l = TASKLIST_TYPE_WITH_DATA then ds @ [None] else ds)
    \<and> list_type l2 = list_type l"
proof -
  let ?f = "size_flexible_tasks l" and ?n = "length ts"
  let ?l1 = "(resize_data (l\<lparr>tl_u := U_task 0\<rparr>) (?n + 1))\<lparr>size_list := ?n + 1\<rparr>"
  have n: "size_list l = ?n" "?n \<le> 14" "tl_u l = U_task 0"
    using assms by (simp_all add: tl_repr_def union_of_def)
  have r: "taskList_Resize l (?n + 1) = Some ?l1"
    using assms(2) n by (simp add: taskList_Resize_def resize_union_def Let_def taskList_SizeSet_def)
  have s: "taskList_SetTaskAtIndex ?l1 t ?n = Some (?l1\<lparr>tl_u := U_task t\<rparr>)"
    using assms(2) by (simp add: taskList_SetTaskAtIndex_def resize_data_def)
  have "tl_repr (?l1\<lparr>tl_u := U_task t\<rparr>) (ts @ [t])
      (if list_type l = TASKLIST_TYPE_WITH_DATA then ds @ [None] else ds)"
    using assms by (auto simp: tl_repr_def data_of_def union_of_def resize_data_def
      realloc_cells_def nth_append)
  then show ?thesis
    using r s n(2) by (simp add: last_index resize_data_def)
qed

lemma add_step_array:
  assumes "tl_repr l ts ds" "length ts > size_flexible_tasks l" "length ts < 15"
  shows "\<exists>l1 l2. taskList_Resize l (length ts + 1) = Some l1
    \<and> taskList_SetTaskAtIndex l1 t ((size_list l1 + 0xFFFF) mod 0x10000) = Some l2
    \<and> tl_repr l2 (ts @ [t]) (if list_type l = TASKLIST_TYPE_WITH_DATA then ds @ [None] else ds)
    \<and> list_type l2 = list_type l"
proof -
  let ?f = "size_flexible_tasks l" and ?n = "length ts"
  let ?l1 = "(resize_data (l\<lparr>tl_u := U_tasks (map Some (drop ?f ts) @ [None])\<rparr>) (?n + 1))
      \<lparr>size_list := ?n + 1\<rparr>"
  have n: "size_list l = ?n" "?n \<le> 15" "tl_u l = union_of ?f ts"
    using assms by (simp_all add: tl_repr_def)
  have r: "taskList_Resize l (?n + 1) = Some ?l1"
  proof (cases "?n = ?f + 1")
    case True
    then have "drop ?f ts = [ts ! ?f]" by (simp add: Cons_nth_drop_Suc [symmetric])
    with True n assms(3) show ?thesis
      by (simp add: taskList_Resize_def resize_union_def Let_def taskList_SizeSet_def union_of_def)
  next
    case False
    with n assms(2,3) show ?thesis
      by (simp add: taskList_Resize_def resize_union_def Let_def taskList_SizeSet_def union_of_def
        realloc_cells_def Suc_diff_le)
  qed
  have s: "taskList_SetTaskAtIndex ?l1 t ?n = Some (?l1\<lparr>tl_u := U_tasks (map Some (drop ?f ts) @ [Some t])\<rparr>)"
    using assms(2) by (simp add: taskList_SetTaskAtIndex_def resize_data_def write_cell_def list_update_append)
  have "tl_repr (?l1\<lparr>tl_u := U_tasks (map Some (drop ?f ts) @ [Some t])\<rparr>) (ts @ [t])
      (if list_type l = TASKLIST_TYPE_WITH_DATA then ds @ [None] else ds)"
    using assms by (auto simp: tl_repr_def data_of_def union_of_def resize_data_def realloc_cells_def)
  then show ?thesis
    using r s n(2) by (simp add: last_index resize_data_def)
qed

lemma AddTask_new:
  assumes "tl_repr l ts ds" "distinct ts" "t \<notin> set ts" "t \<noteq> NULL_TASK" "length ts < 15"
  shows "\<exists>l'. TaskList_AddTask l t = Some (True, l')
    \<and> tl_repr l' (ts @ [t]) (if list_type l = TASKLIST_TYPE_WITH_DATA then ds @ [None] else ds)
    \<and> list_type l' = list_type l"
proof -
  have n: "size_list l = length ts" using assms(1) by (rule tl_repr_size)
  have "\<exists>l1 l2. taskList_Resize l (length ts + 1) = Some l1
    \<and> taskList_SetTaskAtIndex l1 t ((size_list l1 + 0xFFFF) mod 0x10000) = Some l2
    \<and> tl_repr l2 (ts @ [t]) (if list_type l = TASKLIST_TYPE_WITH_DATA then ds @ [None] else ds)
    \<and> list_type l2 = list_type l"
  proof (cases "length ts" "size_flexible_tasks l" rule: linorder_cases)
    case less
    moreover from this have "list_type l \<noteq> TASKLIST_TYPE_WITH_DATA"
      using assms(1) by (auto simp: tl_repr_def data_of_def)
    ultimately show ?thesis using add_step_flex [OF assms(1), of t] by simp
  next
    case equal
    then show ?thesis by (rule add_step_union [OF assms(1)])
  next
    case greater
    then show ?thesis using add_step_array [OF assms(1)] assms(5) by simp
  qed
  then show ?thesis
    using assms on_list_repr [OF assms(1,2)] n
    by (auto simp: TaskList_AddTask_def PanicNull_def)
qed

lemma shift_loop_repr:
  assumes "tl_repr l ts ds" "k < length ts"
  shows "\<exists>l'. shift_loop [k ..< length ts - 1] l = Some l'
    \<and> tl_repr l' (take k ts @ drop (k + 1) ts @ [last ts]) ds \<and> list_type l' = list_type l"
  using assms
proof (induction "length ts - 1 - k" arbitrary: k l ts)
  case 0
  then have k: "k = length ts - 1" by simp
  then have "take k ts @ drop (k + 1) ts @ [last ts] = butlast ts @ [last ts]"
    by (simp add: butlast_conv_take)
  also have "\<dots> = ts" using "0.prems"(2) by (intro append_butlast_last_id) auto
  finally show ?case using "0.prems" k by simp
next
  case (Suc m)
  then have k: "k + 1 < length ts" by linarith
  obtain l1 where l1: "taskList_SetTaskAtIndex l (ts ! (k + 1)) k = Some l1"
    "tl_repr l1 (ts[k := ts ! (k + 1)]) ds" "list_type l1 = list_type l"
    using set_repr [OF Suc.prems, of "ts ! (k + 1)"] by blast
  let ?ts = "ts[k := ts ! (k + 1)]"
  have "m = length ?ts - 1 - (k + 1)" using Suc(2) by simp
  from Suc.hyps(1) [OF this l1(2)] k obtain l' where l':
    "shift_loop [k + 1 ..< length ts - 1] l1 = Some l'"
    "tl_repr l' (take (k + 1) ?ts @ drop (k + 2) ?ts @ [last ?ts]) ds" "list_type l' = list_type l1"
    by auto
  have "take (k + 1) ?ts = take k ts @ [ts ! (k + 1)]"
    using k by (simp add: take_Suc_conv_app_nth)
  moreover have "drop (k + 2) ?ts = drop (k + 2) ts" by simp
  moreover have "last ?ts = last ts" using k by (cases "ts = []") (simp_all add: last_conv_nth nth_list_update)
  moreover have "drop (k + 1) ts = ts ! (k + 1) # drop (k + 2) ts"
    using k by (simp add: Cons_nth_drop_Suc)
  ultimately have e: "take (k + 1) ?ts @ drop (k + 2) ?ts @ [last ?ts]
      = take k ts @ drop (k + 1) ts @ [last ts]" by simp
  have "[k ..< length ts - 1] = k # [k + 1 ..< length ts - 1]"
    using k by (subst upt_rec) auto
  then show ?case
    using l1 l' get_repr [OF Suc.prems(1) k] unfolding e by simp
qed

lemma resize_down_repr:
  assumes "tl_repr l ts ds" "ts \<noteq> []" "list_type l = TASKLIST_TYPE_WITH_DATA \<Longrightarrow> length ds' = length ts"
    "list_type l \<noteq> TASKLIST_TYPE_WITH_DATA \<Longrightarrow> ds' = []"
  shows "\<exists>l'. taskList_Resize (l\<lparr>tl_data := ds'\<rparr>) (length ts - 1) = Some l'
    \<and> tl_repr l' (butlast ts) (take (length ts - 1) ds') \<and> list_type l' = list_type l"
proof -
  let ?f = "size_flexible_tasks l" and ?n = "length ts"
  let ?l = "l\<lparr>tl_data := ds'\<rparr>"
  let ?l1 = "(resize_data (?l\<lparr>tl_u := union_of ?f (butlast ts)\<rparr>) (?n - 1))\<lparr>size_list := ?n - 1\<rparr>"
  have n: "size_list l = ?n" "?n \<le> 15" "tl_u l = union_of ?f ts" "0 < ?n"
    using assms(1,2) by (simp_all add: tl_repr_def)
  consider "?n < ?f + 1" | "?n = ?f + 1" | "?n = ?f + 2" | "?f + 2 < ?n" by linarith
  then have "resize_union ?l (?n - 1) = Some (?l\<lparr>tl_u := union_of ?f (butlast ts)\<rparr>)"
  proof cases
    case 1
    with n show ?thesis by (simp add: resize_union_def Let_def union_of_def)
  next
    case 2
    with n show ?thesis by (simp add: resize_union_def Let_def union_of_def)
  next
    case 3
    with n show ?thesis
      by (simp add: resize_union_def Let_def union_of_def read_cell_def nth_butlast)
  next
    case 4
    then have "take (?n - 1 - ?f) (map Some (drop ?f ts)) = map Some (drop ?f (butlast ts))"
      by (simp add: take_map [symmetric] butlast_conv_take drop_take)
    with 4 n show ?thesis
      by (auto simp: resize_union_def Let_def union_of_def realloc_cells_def)
  qed
  moreover have "(?n - 1) mod 16 = ?n - 1" using n by simp
  ultimately have r: "taskList_Resize ?l (?n - 1) = Some ?l1"
    by (simp add: taskList_Resize_def taskList_SizeSet_def resize_data_def)
  have "take (?n - 1) (flexible_tasks l) = take ?f (butlast ts)"
  proof -
    have "take (?n - 1) (flexible_tasks l) = take (?n - 1) (take ?n (flexible_tasks l))"
      by (simp add: min_def)
    also have "\<dots> = take (?n - 1) (take ?f ts)" using assms(1) by (simp add: tl_repr_def)
    also have "\<dots> = take ?f (butlast ts)" by (simp add: butlast_conv_take min.commute)
    finally show ?thesis .
  qed
  moreover have "take (?n - 1) ds' = []" if "?n - 1 = 0" using that by simp
  ultimately have "tl_repr ?l1 (butlast ts) (take (?n - 1) ds')"
    using assms n by (auto simp: tl_repr_def data_of_def resize_data_def realloc_cells_def)
  then show ?thesis using r by (simp add: resize_data_def)
qed

lemma remove1_nth:
  "distinct ts \<Longrightarrow> k < length ts \<Longrightarrow> take k ts @ drop (k + 1) ts = remove1 (ts ! k) ts"
proof (induction ts arbitrary: k)
  case (Cons a ts)
  then show ?case by (cases k) auto
qed simp

lemma zip_remove_nth:
  assumes "distinct ts" "k < length ts" "length ds = length ts"
  shows "zip (remove1 (ts ! k) ts) (take k ds @ drop (k + 1) ds)
    = filter (\<lambda>(u, _). u \<noteq> ts ! k) (zip ts ds)"
  using assms
proof (induction ts arbitrary: k ds)
  case (Cons a ts)
  obtain d ds' where ds: "ds = d # ds'" "length ds' = length ts" using Cons.prems by (cases ds) auto
  show ?case
  proof (cases k)
    case 0
    have "filter (\<lambda>(u, _). u \<noteq> a) (zip ts ds') = zip ts ds'"
      using Cons.prems(1) by (auto simp: filter_id_conv dest: set_zip_leftD)
    with 0 ds show ?thesis by simp
  next
    case (Suc j)
    with Cons.prems have "a \<noteq> ts ! j" by auto
    with Suc Cons ds show ?thesis by simp
  qed
qed simp

lemma RemoveTask_present:
  assumes "tl_repr l ts ds" "tasks_ok ts" "t \<in> set ts"
  shows "\<exists>l' ds'. TaskList_RemoveTask l t = Some (True, l') \<and> tl_repr l' (remove1 t ts) ds'
    \<and> list_type l' = list_type l
    \<and> zip (remove1 t ts) ds' = filter (\<lambda>(u, _). u \<noteq> t) (zip ts ds)"
proof -
  obtain k where k: "k < length ts" "t = ts ! k" using assms(3) by (auto simp: in_set_conv_nth)
  have d: "distinct ts" "t \<noteq> NULL_TASK"
    using assms(2,3) by (cases t; auto simp: tasks_ok_def)+
  let ?ts = "take k ts @ drop (k + 1) ts @ [last ts]"
  obtain l1 where l1: "shift_loop [k ..< size_list l - 1] l = Some l1" "tl_repr l1 ?ts ds"
    "list_type l1 = list_type l"
    using shift_loop_repr [OF assms(1) k(1)] tl_repr_size [OF assms(1)] by auto
  have n1: "length ?ts = length ts" "size_list l1 = length ts" "tl_data l1 = ds"
    using l1(2) k(1) by (auto simp: tl_repr_def data_of_def split: if_splits)
  define ds' where "ds' = (if list_type l1 = TASKLIST_TYPE_WITH_DATA
      then take k ds @ take (length ts - k - 1) (drop (k + 1) ds) @ drop (length ts - 1) ds else [])"
  have lds: "length ds = length ts" if "list_type l1 = TASKLIST_TYPE_WITH_DATA"
    using l1(2) n1 that by (simp add: tl_repr_def data_of_def)
  have lds': "length ds' = length ?ts" if "list_type l1 = TASKLIST_TYPE_WITH_DATA"
    using lds [OF that] k(1) n1 that by (simp add: ds'_def)
  obtain l3 where l3: "taskList_Resize (l1\<lparr>tl_data := ds'\<rparr>) (length ts - 1) = Some l3"
    "tl_repr l3 (butlast ?ts) (take (length ts - 1) ds')" "list_type l3 = list_type l1"
    using resize_down_repr [OF l1(2), of ds'] lds' n1(1) by (auto simp: ds'_def)
  have b: "butlast ?ts = remove1 t ts"
    using remove1_nth [OF d(1) k(1)] k(2) by (simp add: butlast_append)
  have "l1\<lparr>tl_data := ds'\<rparr> = (if list_type l1 = TASKLIST_TYPE_WITH_DATA
      then l1\<lparr>tl_data := ds'\<rparr> else l1)"
    using l1(2) by (auto simp: ds'_def tl_repr_def data_of_def)
  then have r: "TaskList_RemoveTask l t = Some (True, l3)"
    using find_repr_present [OF assms(1) d(1) k(1)] k(2) d(2) l1(1) l3(1) n1
    by (auto simp: TaskList_RemoveTask_def PanicNull_def Let_def ds'_def split: if_splits)
  have "zip (remove1 t ts) (take (length ts - 1) ds') = filter (\<lambda>(u, _). u \<noteq> t) (zip ts ds)"
  proof (cases "list_type l1 = TASKLIST_TYPE_WITH_DATA")
    case True
    then have "take (length ts - 1) ds' = take k ds @ drop (k + 1) ds"
      using lds k(1) by (simp add: ds'_def)
    with zip_remove_nth [OF d(1) k(1) lds [OF True]] k(2) show ?thesis by simp
  next
    case False
    with l1(2) have "ds = []" by (simp add: tl_repr_def data_of_def)
    then show ?thesis using False by (simp add: ds'_def)
  qed
  with r l3 b l1(3) show ?thesis by metis
qed

section \<open>The registry of tasks a list provides\<close>

text \<open>
  What a client that keeps its listeners in a task list relies on. \<open>valid\<close> lists hold at most
  \<open>capacity\<close> tasks.
\<close>

locale task_registry =
  fixes valid :: "'l \<Rightarrow> bool"
    and members :: "'l \<Rightarrow> task list"
    and capacity :: nat
    and add :: "'l \<Rightarrow> task \<Rightarrow> (bool \<times> 'l) option"
    and remove :: "'l \<Rightarrow> task \<Rightarrow> (bool \<times> 'l) option"
  assumes valid_members: "valid l \<Longrightarrow> tasks_ok (members l) \<and> length (members l) \<le> capacity"
    and add_new: "valid l \<Longrightarrow> t \<noteq> NULL_TASK \<Longrightarrow> t \<notin> set (members l) \<Longrightarrow> length (members l) < capacity \<Longrightarrow>
      \<exists>l'. add l t = Some (True, l') \<and> valid l' \<and> members l' = members l @ [t]"
    and add_old: "valid l \<Longrightarrow> t \<in> set (members l) \<Longrightarrow> add l t = Some (False, l)"
    and remove_old: "valid l \<Longrightarrow> t \<in> set (members l) \<Longrightarrow>
      \<exists>l'. remove l t = Some (True, l') \<and> valid l' \<and> members l' = remove1 t (members l)"
    and remove_absent: "valid l \<Longrightarrow> t \<noteq> NULL_TASK \<Longrightarrow> t \<notin> set (members l) \<Longrightarrow> remove l t = Some (False, l)"
begin

lemma remove_undoes_add:
  assumes "valid l" "t \<noteq> NULL_TASK" "t \<notin> set (members l)" "length (members l) < capacity"
  shows "\<exists>l1 l2. add l t = Some (True, l1) \<and> remove l1 t = Some (True, l2) \<and> valid l2
    \<and> members l2 = members l"
proof -
  obtain l1 where l1: "add l t = Some (True, l1)" "valid l1" "members l1 = members l @ [t]"
    using add_new [OF assms] by blast
  then obtain l2 where l2: "remove l1 t = Some (True, l2)" "valid l2"
      "members l2 = remove1 t (members l1)"
    using remove_old [of l1 t] by auto
  have "remove1 t (members l @ [t]) = members l" using assms(3) by (simp add: remove1_append)
  with l1 l2 show ?thesis by auto
qed

lemma add_twice:
  assumes "valid l" "t \<noteq> NULL_TASK" "length (members l) < capacity" "add l t = Some (b, l1)"
  shows "add l1 t = Some (False, l1)"
proof (cases "t \<in> set (members l)")
  case True
  with add_old [OF assms(1) True] assms(4) show ?thesis by simp
next
  case False
  obtain l1' where "add l t = Some (True, l1')" "valid l1'" "members l1' = members l @ [t]"
    using add_new [OF assms(1,2) False assms(3)] by blast
  with assms(4) add_old [of l1 t] show ?thesis by simp
qed

lemma add_keeps:
  assumes "valid l" "t \<noteq> NULL_TASK" "length (members l) < capacity" "add l t = Some (b, l')"
  shows "valid l' \<and> set (members l') \<subseteq> insert t (set (members l)) \<and> length (members l') \<le> length (members l) + 1"
proof (cases "t \<in> set (members l)")
  case True
  then show ?thesis using add_old [OF assms(1) True] assms(1,4) by auto
next
  case False
  then show ?thesis using add_new [OF assms(1,2) False assms(3)] assms(4) by auto
qed

lemma remove_gone:
  assumes "valid l" "t \<noteq> NULL_TASK" "remove l t = Some (b, l')"
  shows "valid l' \<and> t \<notin> set (members l') \<and> (\<forall>u. u \<noteq> t \<longrightarrow> u \<in> set (members l') \<longleftrightarrow> u \<in> set (members l))"
proof (cases "t \<in> set (members l)")
  case True
  have "distinct (members l)" using valid_members [OF assms(1)] by (simp add: tasks_ok_def)
  then show ?thesis using remove_old [OF assms(1) True] assms(3) by auto
next
  case False
  then show ?thesis using remove_absent [OF assms(1,2) False] assms by simp
qed

end

definition tl_members :: "task_list \<Rightarrow> task list" where
  "tl_members l = map (\<lambda>i. the (taskList_GetTaskAtIndex l i)) [0 ..< size_list l]"

definition tl_valid :: "task_list \<Rightarrow> bool" where
  "tl_valid l = (\<exists>ds. tl_repr l (tl_members l) ds \<and> tasks_ok (tl_members l))"

lemma tl_members_repr: "tl_repr l ts ds \<Longrightarrow> tl_members l = ts"
  by (intro nth_equalityI) (auto simp: tl_members_def tl_repr_size get_repr)

lemma tl_validI: "tl_repr l ts ds \<Longrightarrow> tasks_ok ts \<Longrightarrow> tl_valid l"
  using tl_members_repr by (auto simp: tl_valid_def)

lemma tasks_ok_append: "tasks_ok ts \<Longrightarrow> t \<noteq> NULL_TASK \<Longrightarrow> t \<notin> set ts \<Longrightarrow> tasks_ok (ts @ [t])"
  by (auto simp: tasks_ok_def)

lemma tasks_ok_remove1: "tasks_ok ts \<Longrightarrow> tasks_ok (remove1 t ts)"
  by (auto simp: tasks_ok_def)

interpretation tl: task_registry tl_valid tl_members 15 TaskList_AddTask TaskList_RemoveTask
proof
  fix l t
  assume "tl_valid l"
  then obtain ds where r: "tl_repr l (tl_members l) ds" and ok: "tasks_ok (tl_members l)"
    by (auto simp: tl_valid_def)
  have d: "distinct (tl_members l)" "NULL_TASK \<notin> set (tl_members l)"
    using ok by (simp_all add: tasks_ok_def)
  show "tasks_ok (tl_members l) \<and> length (tl_members l) \<le> 15" using r ok by (simp add: tl_repr_def)
  show "TaskList_AddTask l t = Some (False, l)" if "t \<in> set (tl_members l)"
    using on_list_repr [OF r d(1), of t] that d(2)
    by (cases t) (auto simp: TaskList_AddTask_def PanicNull_def)
  show "\<exists>l'. TaskList_AddTask l t = Some (True, l') \<and> tl_valid l' \<and> tl_members l' = tl_members l @ [t]"
    if "t \<noteq> NULL_TASK" "t \<notin> set (tl_members l)" "length (tl_members l) < 15"
    using AddTask_new [OF r d(1) that(2,1,3)] tasks_ok_append [OF ok that(1,2)]
    by (metis tl_validI tl_members_repr)
  show "\<exists>l'. TaskList_RemoveTask l t = Some (True, l') \<and> tl_valid l'
      \<and> tl_members l' = remove1 t (tl_members l)" if "t \<in> set (tl_members l)"
    using RemoveTask_present [OF r ok that] tasks_ok_remove1 [OF ok]
    by (metis tl_validI tl_members_repr)
  show "TaskList_RemoveTask l t = Some (False, l)" if "t \<noteq> NULL_TASK" "t \<notin> set (tl_members l)"
    using find_repr_absent [OF r that(2)] that(1) by (auto simp: TaskList_RemoveTask_def PanicNull_def)
qed

section \<open>Iterating and multicasting\<close>

lemma iterate_start:
  assumes "tl_repr l ts ds" "ts \<noteq> []"
  shows "iterateIndex l 0 = Some (Some (ts ! 0, 0), ts ! 0)"
  using get_repr [OF assms(1), of 0] assms by (simp add: iterateIndex_def tl_repr_size)

lemma iterate_next:
  assumes "tl_repr l ts ds" "tasks_ok ts" "k < length ts"
  shows "iterateIndex l (ts ! k) =
    Some (if k + 1 < length ts then (Some (ts ! (k + 1), k + 1), ts ! (k + 1)) else (None, ts ! k))"
proof -
  have "ts ! k \<noteq> 0" using assms(2,3) by (metis nth_mem tasks_ok_def)
  moreover have "size_list l \<noteq> 0" using tl_repr_size [OF assms(1)] assms(3) by auto
  ultimately show ?thesis
    using find_repr_present [OF assms(1) _ assms(3)] get_repr [OF assms(1), of "k + 1"] assms(2)
      tl_repr_size [OF assms(1)]
    by (auto simp: iterateIndex_def tasks_ok_def)
qed

lemma array_loop_repr:
  assumes "tl_repr l ts ds" "tasks_ok ts" "k < length ts"
  shows "array_loop l (ts ! k) (Some k) (map Some (take (k + 1) ts) @ replicate (length ts - k) None)
    = Some (Some (length ts - 1), map Some ts @ [None])"
  using assms(3)
proof (induction "length ts - 1 - k" arbitrary: k)
  case 0
  then have k: "length ts = k + 1" using "0.prems" by linarith
  then show ?case
    using iterate_next [OF assms(1,2) "0.prems"] by (subst array_loop.simps) simp
next
  case (Suc m)
  then have k: "k + 1 < length ts" by linarith
  have "replicate (length ts - k) None = None # replicate (length ts - (k + 1)) (None :: task option)"
    using k by (simp add: Suc_diff_Suc replicate_Suc [symmetric] del: replicate_Suc)
  then have "write_cell (map Some (take (k + 1) ts) @ replicate (length ts - k) None) (k + 1)
      (Some (ts ! (k + 1)))
    = Some (map Some (take (k + 1 + 1) ts) @ replicate (length ts - (k + 1)) None)"
    using k by (simp add: write_cell_def list_update_append take_Suc_conv_app_nth min_def)
  moreover have "m = length ts - 1 - (k + 1)" using Suc(2) by simp
  ultimately show ?case
    using Suc.hyps(1) [of "k + 1"] k iterate_next [OF assms(1,2) Suc.prems]
    by (subst array_loop.simps) simp
qed

lemma array_repr:
  assumes "tl_repr l ts ds" "tasks_ok ts"
  shows "taskList_CreateNullTerminatedTaskArray l
    = Some (if ts = [] then None else Some (map Some ts @ [Some NULL_TASK]))"
proof (cases "ts = []")
  case True
  then show ?thesis using tl_repr_size [OF assms(1)]
    by (simp add: taskList_CreateNullTerminatedTaskArray_def)
next
  case False
  then obtain t ts' where ts: "ts = t # ts'" by (cases ts) auto
  have "array_loop l 0 None (replicate (size_list l + 1) None)
      = array_loop l (ts ! 0) (Some 0) (map Some (take (0 + 1) ts) @ replicate (length ts - 0) None)"
    using iterate_start [OF assms(1) False] tl_repr_size [OF assms(1)] ts
    by (subst array_loop.simps) (simp add: write_cell_def)
  then have "array_loop l 0 None (replicate (size_list l + 1) None)
      = Some (Some (length ts - 1), map Some ts @ [None])"
    using array_loop_repr [OF assms, of 0] ts by simp
  then show ?thesis
    using False tl_repr_size [OF assms(1)] ts
    by (simp add: taskList_CreateNullTerminatedTaskArray_def write_cell_def list_update_append)
qed

lemma read_terminated_map:
  "NULL_TASK \<notin> set ts \<Longrightarrow> read_terminated (map Some ts @ [Some NULL_TASK]) = Some ts"
  by (induction ts) auto

lemma message_send_repr:
  assumes "tl_repr l ts ds" "tasks_ok ts" "n = 0 \<longrightarrow> data = None"
  shows "TaskList_MessageSendLaterWithSize now l mid data n delay s
    = (if ts = [] then Some s else MessageSendMulticastLater now (Some ts) mid data delay s)"
proof -
  have "read_terminated (map Some ts @ [Some NULL_TASK]) = Some ts"
    using assms(2) by (intro read_terminated_map) (simp add: tasks_ok_def)
  then show ?thesis
    using array_repr [OF assms(1,2)] assms(3) by (simp add: TaskList_MessageSendLaterWithSize_def)
qed

lemma message_send_tasks:
  assumes "tl_repr l ts ds" "tasks_ok ts" "n = 0 \<longrightarrow> data = None"
  shows "TaskList_MessageSendLaterWithSize now l mid data n delay s =
      (if ts = [] then Some s
       else if length ts \<le> 14 then
         (let (ins, q) = insert_msg \<lparr>am_due = delay + now, am_t = Multicast ts, am_message = data,
            am_condition_addr = None, am_id = mid, am_c_width = CONDITION_WIDTH_UNUSED,
            am_refcount = 1\<rparr> (vm_message_queue s)
          in Some (if ins then vm_event_trigger (s\<lparr>vm_message_queue := q\<rparr>) else s))
       else None)"
proof -
  have "length ts \<le> 15" using assms(1) by (simp add: tl_repr_def)
  then have "(1 + word_of_nat (length ts) :: u8) > MAX_MULTICAST_RECIPIENTS \<longleftrightarrow> 14 < length ts"
    by (simp add: MAX_MULTICAST_RECIPIENTS_def word_less_nat_alt unat_word_ariths unat_of_nat)
  then have "recipients_of (Some ts) True = (if length ts \<le> 14 then Some (Multicast ts) else None)"
    if "ts \<noteq> []"
    using that by (cases ts) (auto simp: recipients_of_def)
  then show ?thesis
    using message_send_repr [OF assms, of now mid delay s]
    by (auto simp: MessageSendMulticastLater_def vm_message_send_later_def Let_def split: prod.splits)
qed

lemma insert_multicast_accepted:
  "is_multicast a \<Longrightarrow> fst (insert_after prev a q)"
  by (induction prev a q rule: insert_after.induct)
    (auto split: option.splits prod.splits if_splits simp: similar_def is_multicast_def split: recipients.splits)

lemma message_send_posted:
  assumes "tl_repr l ts ds" "tasks_ok ts" "n = 0 \<longrightarrow> data = None" "length ts \<le> 14"
  shows "\<exists>s'. TaskList_MessageSendLaterWithSize now l mid data n delay s = Some s'
    \<and> posted_ids u s' = (if u \<in> set ts then add_mset mid (posted_ids u s) else posted_ids u s)"
proof (cases "ts = []")
  case False
  define a where "a = \<lparr>am_due = delay + now, am_t = Multicast ts, am_message = data,
    am_condition_addr = None, am_id = mid, am_c_width = CONDITION_WIDTH_UNUSED, am_refcount = 1\<rparr>"
  obtain q' where q': "insert_msg a (vm_message_queue s) = (True, q')"
    using insert_multicast_accepted [of a None "vm_message_queue s"]
    by (cases "insert_msg a (vm_message_queue s)") (simp add: insert_msg_def a_def is_multicast_def)
  have "mset (pending_of u q')
      = (if u \<in> set ts then {#(am_due a, am_id a, am_message a)#} else {#})
        + mset (pending_of u (vm_message_queue s))"
    using insert_after_pending [OF q' [unfolded insert_msg_def], of u] by (simp add: addressed_to_def a_def)
  then have "image_mset (\<lambda>(_, i, _). i) (mset (pending_of u q'))
      = (if u \<in> set ts then {#mid#} else {#})
        + image_mset (\<lambda>(_, i, _). i) (mset (pending_of u (vm_message_queue s)))"
    by (simp add: a_def)
  then show ?thesis
    using q' False assms(4) message_send_tasks [OF assms(1-3), of now mid delay s]
    by (simp add: posted_ids_def a_def [symmetric])
qed (simp add: message_send_tasks [OF assms(1-3)])

section \<open>Properties\<close>

text \<open>
  C5: \<open>TaskList_AddTask\<close> implements adding to a list without duplicates: on a list that holds
  fewer than 15 tasks, in whichever of its three storage layouts, a new task goes to the end (its
  datum, in a list with data, still unset), a task that is there changes nothing, and no access
  leaves an allocation.
\<close>
theorem AddTask_appends:
  assumes "tl_repr l ts ds" "tasks_ok ts" "t \<noteq> NULL_TASK" "length ts < 15"
  shows "\<exists>l'. TaskList_AddTask l t = Some (t \<notin> set ts, l')
    \<and> (if t \<in> set ts then l' = l
       else tl_repr l' (ts @ [t]) (if TaskList_IsTaskListWithData l then ds @ [None] else ds)
         \<and> tasks_ok (ts @ [t]))"
proof (cases "t \<in> set ts")
  case True
  have "tl_valid l" "tl_members l = ts"
    using assms(1,2) tl_validI tl_members_repr by auto
  then show ?thesis using tl.add_old [of l t] True by simp
next
  case False
  then show ?thesis
    using AddTask_new [OF assms(1) _ False assms(3,4)] assms(2) tasks_ok_append [OF assms(2,3) False]
    by (auto simp: tasks_ok_def TaskList_IsTaskListWithData_def)
qed

definition list_of_3 :: task_list where
  "list_of_3 = \<lparr>size_list = 3, size_flexible_tasks = 1, list_type = TASKLIST_TYPE_STANDARD,
     no_destroy = False, tl_u = U_tasks [Some 12, Some 13], flexible_tasks = [11], tl_data = []\<rparr>"

lemma list_of_3_repr: "tl_repr list_of_3 [11, 12, 13] []" "tasks_ok [11, 12, 13]"
  by (simp_all add: tl_repr_def list_of_3_def union_of_def data_of_def tasks_ok_def)

theorem AddTask_appends_witness:
  "\<exists>l'. TaskList_AddTask list_of_3 14 = Some (True, l') \<and> tl_repr l' [11, 12, 13, 14] []"
proof -
  have "\<not> TaskList_IsTaskListWithData list_of_3"
    by (simp add: TaskList_IsTaskListWithData_def list_of_3_def)
  with AddTask_appends [OF list_of_3_repr, of 14] show ?thesis by auto
qed

text \<open>
  \<open>TaskList_RemoveTask\<close> implements removal from a list: the task is gone, the others keep
  their order, every other task keeps its datum, and the storage moves between the allocated
  array, the union and the flexible array without an access outside an allocation; removing a
  task that is not there changes nothing.
\<close>
lemma RemoveTask_removes:
  assumes "tl_repr l ts ds" "tasks_ok ts" "t \<noteq> NULL_TASK"
  shows "\<exists>l' ds'. TaskList_RemoveTask l t = Some (t \<in> set ts, l') \<and> tl_repr l' (remove1 t ts) ds'
    \<and> tasks_ok (remove1 t ts) \<and> zip (remove1 t ts) ds' = filter (\<lambda>(u, _). u \<noteq> t) (zip ts ds)"
proof (cases "t \<in> set ts")
  case True
  then show ?thesis using RemoveTask_present [OF assms(1,2) True] tasks_ok_remove1 [OF assms(2)] by auto
next
  case False
  have "tl_valid l" "tl_members l = ts"
    using assms(1,2) tl_validI tl_members_repr by auto
  moreover have "filter (\<lambda>(u, _). u \<noteq> t) (zip ts ds) = zip ts ds"
    using False by (auto simp: filter_id_conv dest: set_zip_leftD)
  ultimately show ?thesis
    using tl.remove_absent [of l t] False assms by (auto simp: remove1_idem)
qed

theorem RemoveTask_removes_witness:
  "\<exists>l' ds'. TaskList_RemoveTask list_of_3 11 = Some (True, l') \<and> tl_repr l' [12, 13] ds'"
  using RemoveTask_removes [OF list_of_3_repr, of 11] by auto

text \<open>
  Walking a list from NULL meets every task once, in order, and stops, so a message sent to
  the list is one multicast to exactly its tasks: with at most 14 tasks it is queued for those
  tasks, with an empty list nothing is sent. A list of 15 tasks, which the list's own limit and
  the interface of the multicast allow, makes the send panic.
\<close>
lemma TaskList_send_reaches_all:
  assumes "tl_repr l ts ds" "tasks_ok ts" "n = 0 \<longrightarrow> data = None"
  shows "taskList_CreateNullTerminatedTaskArray l
      = Some (if ts = [] then None else Some (map Some ts @ [Some NULL_TASK])) \<and>
    TaskList_MessageSendLaterWithSize now l mid data n delay s =
      (if ts = [] then Some s
       else if length ts \<le> 14 then
         (let (ins, q) = insert_msg \<lparr>am_due = delay + now, am_t = Multicast ts, am_message = data,
            am_condition_addr = None, am_id = mid, am_c_width = CONDITION_WIDTH_UNUSED,
            am_refcount = 1\<rparr> (vm_message_queue s)
          in Some (if ins then vm_event_trigger (s\<lparr>vm_message_queue := q\<rparr>) else s))
       else None)"
  using message_send_tasks [OF assms] array_repr [OF assms(1,2)] by simp

theorem TaskList_send_reaches_all_witness:
  "TaskList_MessageSendLaterWithSize 0 list_of_3 7 (None :: unit msg_data option) 0 10
     \<lparr>vm_message_queue = [], vm_delivered_messages = [], sched_event_pending = False,
      put_message_ok = True, registered_hdlrs = [], sink_source_hdlrs = [], run_timer = None\<rparr>
   = Some \<lparr>vm_message_queue = [\<lparr>am_due = 10, am_t = Multicast [11, 12, 13], am_message = None,
        am_condition_addr = None, am_id = 7, am_c_width = CONDITION_WIDTH_UNUSED, am_refcount = 1\<rparr>],
      vm_delivered_messages = [], sched_event_pending = True,
      put_message_ok = True, registered_hdlrs = [], sink_source_hdlrs = [], run_timer = None\<rparr>"
proof -
  have "(0::nat) = 0 \<longrightarrow> (None :: unit msg_data option) = None" by simp
  from TaskList_send_reaches_all [OF list_of_3_repr this, of 0 7 10
     "\<lparr>vm_message_queue = [], vm_delivered_messages = [], sched_event_pending = False,
      put_message_ok = True, registered_hdlrs = [], sink_source_hdlrs = [], run_timer = None\<rparr>"]
  show ?thesis by (simp add: insert_msg_def vm_event_trigger_def)
qed

lemma full_list_resize:
  assumes "tl_repr l ts ds" "length ts = 15"
  shows "\<exists>l1. taskList_Resize l 16 = Some l1 \<and> size_list l1 = 0
    \<and> size_flexible_tasks l1 = size_flexible_tasks l
    \<and> (\<exists>xs. tl_u l1 = U_tasks xs \<and> length xs = 16 - size_flexible_tasks l)"
proof -
  let ?f = "size_flexible_tasks l"
  have n: "size_list l = 15" "?f \<le> 14" "tl_u l = union_of ?f ts" using assms by (simp_all add: tl_repr_def)
  show ?thesis
  proof (cases "?f = 14")
    case True
    with n assms(2) show ?thesis
      by (simp add: taskList_Resize_def resize_union_def union_of_def taskList_SizeSet_def resize_data_def)
  next
    case False
    with n assms(2) show ?thesis
      by (simp add: taskList_Resize_def resize_union_def union_of_def taskList_SizeSet_def
        resize_data_def realloc_cells_def)
  qed
qed

text \<open>
  The limit of 15 tasks is not checked: adding a new task to a list that is full wraps its
  four-bit size to zero and then writes the task at index 65535 of an array of at most 16 cells,
  outside its allocation, whatever the storage layout of the list.
\<close>
lemma AddTask_overflows_when_full:
  assumes "tl_repr l ts ds" "tasks_ok ts" "length ts = 15" "t \<notin> set ts"
  shows "TaskList_AddTask l t = None
    \<and> (\<exists>l1. taskList_Resize l (size_list l + 1) = Some l1 \<and> TaskList_Size (Some l1) = 0)"
proof -
  obtain l1 xs where l1: "taskList_Resize l 16 = Some l1" "size_list l1 = 0"
    "size_flexible_tasks l1 = size_flexible_tasks l" "tl_u l1 = U_tasks xs"
    "length xs = 16 - size_flexible_tasks l"
    using full_list_resize [OF assms(1,3)] by blast
  have f: "size_flexible_tasks l \<le> 14" "size_list l = 15" using assms(1,3) by (simp_all add: tl_repr_def)
  then have "taskList_SetTaskAtIndex l1 t 65535 = None"
    using l1 by (simp add: taskList_SetTaskAtIndex_def write_cell_def)
  then have "TaskList_AddTask l t = None"
    using l1 f on_list_repr [OF assms(1), of t] assms(2,4)
    by (auto simp: TaskList_AddTask_def PanicNull_def PanicFalse_def tasks_ok_def)
  then show ?thesis using l1 f by (simp add: TaskList_Size_def)
qed

definition full_list :: task_list where
  "full_list = \<lparr>size_list = 15, size_flexible_tasks = 0, list_type = TASKLIST_TYPE_STANDARD,
     no_destroy = False, tl_u = U_tasks (map Some [1 ..< 16]), flexible_tasks = [], tl_data = []\<rparr>"

lemma AddTask_overflows_when_full_witness: "TaskList_AddTask full_list 77 = None"
proof -
  have "tl_repr full_list [1 ..< 16] []"
    by (simp add: tl_repr_def full_list_def union_of_def data_of_def)
  moreover have "tasks_ok [1 ..< 16]" by (auto simp: tasks_ok_def)
  ultimately show ?thesis
    using AddTask_overflows_when_full [of full_list "[1 ..< 16]" "[]" 77] by auto
qed

text \<open>
  A duplicate of a list that has a flexible array and fills it cannot be made: the copy is
  allocated one task too short (the capacity passed is the length of the flexible array, not one more),
  and the copy loop then writes the last task of the flexible array outside the allocation.
\<close>
lemma Duplicate_overflows_flexible:
  assumes "tl_repr l ts ds" "0 < size_flexible_tasks l" "size_flexible_tasks l \<le> length ts"
  shows "TaskList_Duplicate l = None"
proof -
  let ?f = "size_flexible_tasks l"
  have n: "size_list l = length ts" "?f \<le> 14" "list_type l = TASKLIST_TYPE_STANDARD"
    using assms(1,2) by (cases "list_type l"; auto simp: tl_repr_def data_of_def)+
  have short: "copy_loop l is new = None"
    if "?f - 1 \<in> set is" "length (flexible_tasks new) = ?f - 1" "size_flexible_tasks new = ?f" for "is" new
    using that
  proof (induction "is" arbitrary: new)
    case (Cons i "is")
    show ?case
    proof (cases "taskList_GetTaskAtIndex l i")
      case (Some t)
      show ?thesis
      proof (cases "taskList_SetTaskAtIndex new t i")
        case (Some new')
        have "i \<noteq> ?f - 1"
        proof
          assume "i = ?f - 1"
          then have "taskList_SetTaskAtIndex new t i = None"
            using Cons.prems assms(2) by (simp add: taskList_SetTaskAtIndex_def write_cell_def)
          with Some show False by simp
        qed
        moreover have "length (flexible_tasks new') = ?f - 1 \<and> size_flexible_tasks new' = ?f"
          using Some Cons.prems
          by (auto simp: taskList_SetTaskAtIndex_def write_cell_def split: if_splits task_union.splits)
        ultimately show ?thesis
          using Cons \<open>taskList_GetTaskAtIndex l i = Some t\<close> Some by auto
      qed (simp add: Some)
    qed simp
  qed simp
  obtain new where new: "TaskList_CreateWithCapacity ?f = Some new"
    "length (flexible_tasks new) = ?f - 1"
    using n(2) assms(2) by (auto simp: TaskList_CreateWithCapacity_def TaskList_InitialiseWithCapacity_def
      TASK_LIST_MAX_TASKS_def taskList_FlexibleSizeSet_def)
  have keeps: "length (flexible_tasks l') = length (flexible_tasks k)
      \<and> size_flexible_tasks l' = size_flexible_tasks k" if "taskList_Resize k m = Some l'" for k l' m
    using that by (auto simp: taskList_Resize_def resize_union_def Let_def resize_data_def
      taskList_SizeSet_def bind_eq_Some_conv split: if_splits task_union.splits)
  have last: "?f - 1 \<in> set [0 ..< length ts]" using assms(2,3) by simp
  let ?new = "new\<lparr>size_list := length ts, size_flexible_tasks := ?f,
    list_type := TASKLIST_TYPE_STANDARD, no_destroy := False\<rparr>"
  show ?thesis
  proof (cases "taskList_Resize ?new (length ts)")
    case None
    with n new show ?thesis by (simp add: TaskList_Duplicate_def Let_def)
  next
    case (Some new1)
    with keeps [OF Some] new(2) short [OF last, of new1] n new(1) show ?thesis
      by (simp add: TaskList_Duplicate_def Let_def)
  qed
qed

lemma Duplicate_overflows_flexible_witness: "TaskList_Duplicate list_of_3 = None"
  using Duplicate_overflows_flexible [OF list_of_3_repr(1)] by (simp add: list_of_3_def)

text \<open>
  Data belong to their task: in a list with data, reading the datum of a task after setting
  it gives the new value, the data of all other tasks are as before, and the tasks too.
\<close>
lemma SetDataForTask_updates:
  assumes "tl_repr l ts ds" "tasks_ok ts" "TaskList_IsTaskListWithData l" "t \<in> set ts"
  shows "\<exists>l'. TaskList_SetDataForTask l t d = Some (True, l') \<and> tl_members l' = ts
    \<and> TaskList_GetDataForTask l' t = Some (Some d)
    \<and> (\<forall>u. u \<noteq> t \<longrightarrow> TaskList_GetDataForTask l' u = TaskList_GetDataForTask l u)"
proof -
  obtain k where k: "k < length ts" "t = ts ! k" using assms(4) by (auto simp: in_set_conv_nth)
  have d: "distinct ts" using assms(2) by (simp add: tasks_ok_def)
  have w: "list_type l = TASKLIST_TYPE_WITH_DATA" "length ds = length ts" "tl_data l = ds"
    using assms(1,3) by (auto simp: TaskList_IsTaskListWithData_def tl_repr_def data_of_def)
  let ?l = "l\<lparr>tl_data := ds[k := Some d]\<rparr>"
  have r: "tl_repr ?l ts (ds[k := Some d])" using assms(1) w by (simp add: tl_repr_def data_of_def)
  have s: "TaskList_SetDataForTask l t d = Some (True, ?l)"
    using find_repr_present [OF assms(1) d k(1)] k w assms(3)
    by (simp add: TaskList_SetDataForTask_def write_cell_def)
  have g: "TaskList_GetDataForTask ?l t = Some (Some d)"
    using find_repr_present [OF r d k(1)] k w
    by (simp add: TaskList_GetDataForTask_def TaskList_GetDataForTaskRaw_def
      TaskList_IsTaskListWithData_def read_cell_def)
  have o: "TaskList_GetDataForTask ?l u = TaskList_GetDataForTask l u" if "u \<noteq> t" for u
  proof (cases "u \<in> set ts")
    case True
    then obtain j where j: "j < length ts" "u = ts ! j" by (auto simp: in_set_conv_nth)
    with that k have "j \<noteq> k" by auto
    with find_repr_present [OF r d j(1)] find_repr_present [OF assms(1) d j(1)] j w show ?thesis
      by (simp add: TaskList_GetDataForTask_def TaskList_GetDataForTaskRaw_def
        TaskList_IsTaskListWithData_def read_cell_def)
  next
    case False
    with find_repr_absent [OF r False] find_repr_absent [OF assms(1) False] show ?thesis
      by (simp add: TaskList_GetDataForTask_def TaskList_GetDataForTaskRaw_def
        TaskList_IsTaskListWithData_def)
  qed
  show ?thesis using s g o tl_members_repr [OF r] by blast
qed

definition data_list :: task_list where
  "data_list = \<lparr>size_list = 2, size_flexible_tasks = 0, list_type = TASKLIST_TYPE_WITH_DATA,
     no_destroy = False, tl_u = U_tasks [Some 12, Some 13], flexible_tasks = [],
     tl_data = [Some 5, Some 6]\<rparr>"

theorem SetDataForTask_updates_witness:
  "\<exists>l'. TaskList_SetDataForTask data_list 13 9 = Some (True, l')
     \<and> TaskList_GetDataForTask l' 13 = Some (Some 9)"
proof -
  have "tl_repr data_list [12, 13] [Some 5, Some 6]"
    by (simp add: tl_repr_def data_list_def union_of_def data_of_def)
  moreover have "tasks_ok [12, 13]" by (simp add: tasks_ok_def)
  moreover have "TaskList_IsTaskListWithData data_list"
    by (simp add: TaskList_IsTaskListWithData_def data_list_def)
  moreover have "13 \<in> set [12, 13 :: task]" by simp
  ultimately show ?thesis using SetDataForTask_updates by blast
qed

end
