(* ===== verification/RulesEngine.thy ===== *)
theory RulesEngine
  imports TaskList
begin

text \<open>
  The rules engine, \<open>common/rules_engine/rules_engine.c\<close>: a fixed table of rules, each with the
  events that trigger it, a function that decides on an action and the message to send, and a
  status per rule. A rule function reads the application, which is the argument \<open>env\<close>; it gives
  its action and the parameters it passed to \<open>RulesEngine_CopyRunParams\<close>, if it did. Messages go
  into the message scheduler. Panics and memory faults are \<open>None\<close>; pointers are not NULL.
\<close>

section \<open>Data\<close>

datatype rule_status =
    rule_status_not_done
  | rule_status_ignored
  | rule_status_in_progress
  | rule_status_complete
  | rule_status_deferred

datatype rule_action =
    rule_action_run
  | rule_action_complete
  | rule_action_ignore
  | rule_action_defer
  | rule_action_run_with_param

datatype rule_flags = rule_flag_no_flags | rule_flag_always_evaluate | rule_flag_progress_matters

type_synonym rule_events = u64

definition RULE_EVENT_ALL_EVENTS_MASK :: rule_events where
  "RULE_EVENT_ALL_EVENTS_MASK = 0xFFFFFFFFFFFFFFFF"

record ('env, 'm) rule_entry =
  rule_events :: rule_events
  rule_flags :: rule_flags
  rule_fn :: "'env \<Rightarrow> rule_action \<times> (nat \<times> 'm msg_data) option"
  rule_message :: message_id

record ('env, 'm) rule_set =
  rs_events :: rule_events
  rs_rules :: "('env, 'm) rule_entry list"
  rules_state :: "rule_status list"
  rule_message_data :: "'m msg_data option"
  size_rule_message_data :: nat
  event_task :: task
  nop_tasks :: task_list
  nop_message_id :: message_id

section \<open>The status of rules\<close>

definition RulesEngine_SetRuleStatus ::
  "nat \<Rightarrow> rule_status \<Rightarrow> ('env, 'm) rule_set \<Rightarrow> ('env, 'm) rule_set option" where
  "RulesEngine_SetRuleStatus i new_status rs =
     (if rule_flags (rs_rules rs ! i) = rule_flag_always_evaluate then None
      else Some (rs\<lparr>rules_state := (rules_state rs)[i := new_status]\<rparr>))"

fun reset_loop ::
  "nat list \<Rightarrow> rule_events \<Rightarrow> ('env, 'm) rule_set \<Rightarrow> ('env, 'm) rule_set option" where
  "reset_loop [] event rs = Some rs"
| "reset_loop (i # is) event rs =
     (let rule = rs_rules rs ! i
      in if rule_events rule AND event \<noteq> 0 \<and> rule_flags rule \<noteq> rule_flag_always_evaluate
         then do { rs' \<leftarrow> RulesEngine_SetRuleStatus i rule_status_not_done rs; reset_loop is event rs' }
         else reset_loop is event rs)"

definition RulesEngine_ResetEvent ::
  "('env, 'm) rule_set \<Rightarrow> rule_events \<Rightarrow> ('env, 'm) rule_set option" where
  "RulesEngine_ResetEvent rs event =
     reset_loop [0 ..< length (rs_rules rs)] event (rs\<lparr>rs_events := rs_events rs AND NOT event\<rparr>)"

text \<open>The first loop of \<open>RulesEngine_UpdateRuleStatus\<close>: set the status of the matching rules.\<close>

fun update_loop ::
  "nat list \<Rightarrow> message_id \<Rightarrow> rule_status \<Rightarrow> rule_status \<Rightarrow> rule_events \<Rightarrow> bool \<Rightarrow> rule_events
   \<Rightarrow> ('env, 'm) rule_set \<Rightarrow> (bool \<times> rule_events \<times> ('env, 'm) rule_set) option" where
  "update_loop [] message status new_status event did emask rs = Some (did, emask, rs)"
| "update_loop (i # is) message status new_status event did emask rs =
     (let rule = rs_rules rs ! i
      in if rule_message rule = message \<and> rules_state rs ! i = status \<and> rule_events rule AND event \<noteq> 0
         then do {
           rs' \<leftarrow> RulesEngine_SetRuleStatus i new_status rs;
           update_loop is message status new_status event True (emask OR rule_events rule) rs'
         }
         else update_loop is message status new_status event did emask rs)"

text \<open>The second loop: take out the events of rules that are not complete.\<close>

fun mask_loop :: "nat list \<Rightarrow> rule_events \<Rightarrow> rule_events \<Rightarrow> ('env, 'm) rule_set \<Rightarrow> rule_events" where
  "mask_loop [] event emask rs = emask"
| "mask_loop (i # is) event emask rs =
     (let rule = rs_rules rs ! i
      in mask_loop is event
           (if rule_events rule AND event \<noteq> 0 \<and> rules_state rs ! i \<noteq> rule_status_complete
            then emask AND NOT (rule_events rule) else emask) rs)"

definition RulesEngine_UpdateRuleStatus ::
  "('env, 'm) rule_set \<Rightarrow> message_id \<Rightarrow> rule_status \<Rightarrow> rule_status \<Rightarrow> rule_events
   \<Rightarrow> (bool \<times> ('env, 'm) rule_set) option" where
  "RulesEngine_UpdateRuleStatus rs message status new_status event =
     do {
       let is = [0 ..< length (rs_rules rs)];
       (did, emask, rs1) \<leftarrow> update_loop is message status new_status event False 0 rs;
       let event_mask = mask_loop is event emask rs1;
       rs2 \<leftarrow> (if event_mask \<noteq> 0 then RulesEngine_ResetEvent rs1 event_mask else Some rs1);
       Some (did, rs2)
     }"

section \<open>Running rules\<close>

definition RulesEngine_CopyRunParams ::
  "('env, 'm) rule_set \<Rightarrow> 'm msg_data \<Rightarrow> nat \<Rightarrow> ('env, 'm) rule_set option" where
  "RulesEngine_CopyRunParams rs param size_param =
     do {
       PanicFalse (rule_message_data rs = None);
       Some (rs\<lparr>rule_message_data := Some param, size_rule_message_data := size_param\<rparr>)
     }"

definition RulesEngine_RunRule ::
  "'env \<Rightarrow> ('env, 'm) rule_set \<Rightarrow> nat \<Rightarrow> (rule_action \<times> ('env, 'm) rule_set) option" where
  "RulesEngine_RunRule env rs i =
     (case rule_fn (rs_rules rs ! i) env of
        (action, None) \<Rightarrow> Some (action, rs)
      | (action, Some (n, param)) \<Rightarrow>
          do { rs' \<leftarrow> RulesEngine_CopyRunParams rs param n; Some (action, rs') })"

text \<open>
  One round of the loop of \<open>RulesEngine_RunRules\<close>, for rule \<open>i\<close>, with the local \<open>events\<close>. The
  first component says whether the message of the rule was sent.
\<close>

definition run_rule_step ::
  "'env \<Rightarrow> u32 \<Rightarrow> nat \<Rightarrow> rule_events \<Rightarrow> ('env, 'm) rule_set \<Rightarrow> 'm vm
   \<Rightarrow> (bool \<times> rule_events \<times> ('env, 'm) rule_set \<times> 'm vm) option" where
  "run_rule_step env now i events rs s =
     (let rule = rs_rules rs ! i; always = (rule_flags rule = rule_flag_always_evaluate)
      in if rule_events rule AND events = rule_events rule \<or> always then
           (if rules_state rs ! i = rule_status_complete then Some (False, events, rs, s)
            else if rules_state rs ! i = rule_status_in_progress then
              Some (False, events AND NOT (rule_events rule), rs, s)
            else do {
              (action, rs1) \<leftarrow> RulesEngine_RunRule env rs i;
              case action of
                rule_action_run \<Rightarrow>
                  do {
                    rs2 \<leftarrow> (if always then Some rs1
                            else RulesEngine_SetRuleStatus i rule_status_in_progress rs1);
                    PanicFalse (size_rule_message_data rs2 = 0);
                    PanicFalse (rule_message_data rs2 = None);
                    s' \<leftarrow> MessageSend now (event_task rs2) (rule_message rule) None s;
                    Some (True, if always then events else events AND NOT (rule_events rule), rs2, s')
                  }
              | rule_action_run_with_param \<Rightarrow>
                  do {
                    rs2 \<leftarrow> (if always then Some rs1
                            else RulesEngine_SetRuleStatus i rule_status_in_progress rs1);
                    PanicFalse (size_rule_message_data rs2 \<noteq> 0);
                    PanicFalse (rule_message_data rs2 \<noteq> None);
                    s' \<leftarrow> MessageSend now (event_task rs2) (rule_message rule) (rule_message_data rs2) s;
                    Some (True, if always then events else events AND NOT (rule_events rule),
                          rs2\<lparr>rule_message_data := None, size_rule_message_data := 0\<rparr>, s')
                  }
              | rule_action_defer \<Rightarrow>
                  do {
                    rs2 \<leftarrow> RulesEngine_SetRuleStatus i rule_status_deferred rs1;
                    Some (False, events, rs2, s)
                  }
              | _ \<Rightarrow>
                  (if always then Some (False, events, rs1, s)
                   else do {
                     (_, rs2) \<leftarrow> RulesEngine_UpdateRuleStatus rs1 (rule_message rule)
                                  (rules_state rs1 ! i) rule_status_complete (rule_events rule);
                     Some (False, events, rs2, s)
                   })
            })
         else Some (False, events, rs, s))"

text \<open>The indices of the rules whose message was sent are returned with the new state.\<close>

fun run_rules_loop ::
  "'env \<Rightarrow> u32 \<Rightarrow> nat list \<Rightarrow> rule_events \<Rightarrow> ('env, 'm) rule_set \<Rightarrow> 'm vm
   \<Rightarrow> (nat list \<times> ('env, 'm) rule_set \<times> 'm vm) option" where
  "run_rules_loop env now [] events rs s = Some ([], rs, s)"
| "run_rules_loop env now (i # is) events rs s =
     do {
       (sent, events', rs', s') \<leftarrow> run_rule_step env now i events rs s;
       (log, rs2, s2) \<leftarrow> run_rules_loop env now is events' rs' s';
       Some (if sent then i # log else log, rs2, s2)
     }"

definition RulesEngine_RunRules ::
  "'env \<Rightarrow> u32 \<Rightarrow> ('env, 'm) rule_set \<Rightarrow> 'm vm
   \<Rightarrow> (nat list \<times> ('env, 'm) rule_set \<times> 'm vm) option" where
  "RulesEngine_RunRules env now rs s =
     run_rules_loop env now [0 ..< length (rs_rules rs)] (rs_events rs) rs s"

definition RulesEngine_Check ::
  "'env \<Rightarrow> u32 \<Rightarrow> ('env, 'm) rule_set \<Rightarrow> 'm vm \<Rightarrow> (('env, 'm) rule_set \<times> 'm vm) option" where
  "RulesEngine_Check env now rs s = map_option snd (RulesEngine_RunRules env now rs s)"

section \<open>Interface\<close>

definition RulesEngine_CreateRuleSet ::
  "('env, 'm) rule_entry list \<Rightarrow> message_id \<Rightarrow> task \<Rightarrow> ('env, 'm) rule_set option" where
  "RulesEngine_CreateRuleSet rules nop_id t =
     do {
       PanicNull t;
       nop \<leftarrow> TaskList_Initialise;
       Some \<lparr>rs_events = 0, rs_rules = rules,
             rules_state = replicate (length rules) rule_status_not_done,
             rule_message_data = None, size_rule_message_data = 0, event_task = t,
             nop_tasks = nop, nop_message_id = nop_id\<rparr>
     }"

definition RulesEngine_DestroyRuleSet :: "('env, 'm) rule_set \<Rightarrow> unit option" where
  "RulesEngine_DestroyRuleSet rs = do { _ \<leftarrow> TaskList_RemoveAllTasks (nop_tasks rs); Some () }"

definition RulesEngine_SetEvent ::
  "'env \<Rightarrow> u32 \<Rightarrow> ('env, 'm) rule_set \<Rightarrow> rule_events \<Rightarrow> 'm vm
   \<Rightarrow> (('env, 'm) rule_set \<times> 'm vm) option" where
  "RulesEngine_SetEvent env now rs event_mask s =
     RulesEngine_Check env now (rs\<lparr>rs_events := rs_events rs OR event_mask\<rparr>) s"

definition RulesEngine_GetEvents :: "('env, 'm) rule_set \<Rightarrow> rule_events" where
  "RulesEngine_GetEvents rs = rs_events rs"

definition RulesEngine_InProgress :: "('env, 'm) rule_set \<Rightarrow> bool" where
  "RulesEngine_InProgress rs =
     list_ex (\<lambda>i. rule_flags (rs_rules rs ! i) = rule_flag_progress_matters
                  \<and> rules_state rs ! i = rule_status_in_progress) [0 ..< length (rs_rules rs)]"

definition RulesEngine_SetRuleWithEventComplete ::
  "'env \<Rightarrow> u32 \<Rightarrow> ('env, 'm) rule_set \<Rightarrow> message_id \<Rightarrow> rule_events \<Rightarrow> 'm vm
   \<Rightarrow> (('env, 'm) rule_set \<times> 'm vm) option" where
  "RulesEngine_SetRuleWithEventComplete env now rs message event s =
     do {
       (did, rs1) \<leftarrow> RulesEngine_UpdateRuleStatus rs message rule_status_in_progress
                      rule_status_complete event;
       s1 \<leftarrow> (if did \<and> \<not> RulesEngine_InProgress rs1
              then TaskList_MessageSendWithSize now (nop_tasks rs1) (nop_message_id rs1) None 0 s
              else Some s);
       RulesEngine_Check env now rs1 s1
     }"

definition RulesEngine_SetRuleComplete ::
  "'env \<Rightarrow> u32 \<Rightarrow> ('env, 'm) rule_set \<Rightarrow> message_id \<Rightarrow> 'm vm
   \<Rightarrow> (('env, 'm) rule_set \<times> 'm vm) option" where
  "RulesEngine_SetRuleComplete env now rs message s =
     RulesEngine_SetRuleWithEventComplete env now rs message RULE_EVENT_ALL_EVENTS_MASK s"

definition RulesEngine_NopClientRegister ::
  "('env, 'm) rule_set \<Rightarrow> task \<Rightarrow> ('env, 'm) rule_set option" where
  "RulesEngine_NopClientRegister rs t =
     do { (_, l) \<leftarrow> TaskList_AddTask (nop_tasks rs) t; Some (rs\<lparr>nop_tasks := l\<rparr>) }"

section \<open>What the status loops compute\<close>

definition rs_wf :: "('env, 'm) rule_set \<Rightarrow> bool" where
  "rs_wf rs = (length (rules_state rs) = length (rs_rules rs))"

definition ev_of :: "('env, 'm) rule_set \<Rightarrow> nat \<Rightarrow> rule_events" where
  "ev_of rs i = rule_events (rs_rules rs ! i)"

definition always_of :: "('env, 'm) rule_set \<Rightarrow> nat \<Rightarrow> bool" where
  "always_of rs i = (rule_flags (rs_rules rs ! i) = rule_flag_always_evaluate)"

text \<open>The rules that an update of status applies to.\<close>

definition updated ::
  "('env, 'm) rule_set \<Rightarrow> message_id \<Rightarrow> rule_status \<Rightarrow> rule_events \<Rightarrow> nat \<Rightarrow> bool" where
  "updated rs message status event i =
     (rule_message (rs_rules rs ! i) = message \<and> rules_state rs ! i = status \<and> ev_of rs i AND event \<noteq> 0)"

lemma and_nonzero_iff: "(a :: 'a :: len word) AND b \<noteq> 0 \<longleftrightarrow> (\<exists>k < LENGTH('a). bit a k \<and> bit b k)"
proof -
  have "a AND b = 0 \<longleftrightarrow> (\<forall>k. \<not> (bit a k \<and> bit b k))"
    by (auto simp: bit_eq_iff bit_and_iff) (meson bit_imp_le_length)
  then show ?thesis by (metis bit_imp_le_length)
qed

lemma and_zero_bit: "(a :: 'a :: len word) AND b = 0 \<Longrightarrow> bit a k \<Longrightarrow> \<not> bit b k"
  by (metis bit_and_iff bit_0_eq bot_apply bot_bool_def)

lemma reset_loop_result:
  "\<exists>st. reset_loop is event rs = Some (rs\<lparr>rules_state := st\<rparr>) \<and> length st = length (rules_state rs)
     \<and> (\<forall>j < length st. st ! j = (if j \<in> set is \<and> ev_of rs j AND event \<noteq> 0 \<and> \<not> always_of rs j
          then rule_status_not_done else rules_state rs ! j))"
proof (induction "is" arbitrary: rs)
  case (Cons i "is")
  show ?case
  proof (cases "ev_of rs i AND event \<noteq> 0 \<and> \<not> always_of rs i")
    case True
    let ?rs = "rs\<lparr>rules_state := (rules_state rs)[i := rule_status_not_done]\<rparr>"
    obtain st where st: "reset_loop is event ?rs = Some (?rs\<lparr>rules_state := st\<rparr>)"
      "length st = length (rules_state rs)"
      "\<forall>j < length st. st ! j = (if j \<in> set is \<and> ev_of rs j AND event \<noteq> 0 \<and> \<not> always_of rs j
          then rule_status_not_done else (rules_state rs)[i := rule_status_not_done] ! j)"
      using Cons.IH [of ?rs] by (auto simp: ev_of_def always_of_def)
    have "reset_loop (i # is) event rs = Some (rs\<lparr>rules_state := st\<rparr>)"
      using True st(1) by (simp add: RulesEngine_SetRuleStatus_def ev_of_def always_of_def)
    moreover have "\<forall>j < length st. st ! j = (if j \<in> set (i # is) \<and> ev_of rs j AND event \<noteq> 0 \<and> \<not> always_of rs j
          then rule_status_not_done else rules_state rs ! j)"
    proof (intro allI impI)
      fix j assume "j < length st"
      then show "st ! j = (if j \<in> set (i # is) \<and> ev_of rs j AND event \<noteq> 0 \<and> \<not> always_of rs j
          then rule_status_not_done else rules_state rs ! j)"
        using st(2,3) True by (cases "j = i") simp_all
    qed
    ultimately show ?thesis using st(2) by blast
  next
    case False
    then have "reset_loop (i # is) event rs = reset_loop is event rs"
      by (auto simp: ev_of_def always_of_def Let_def)
    moreover obtain st where "reset_loop is event rs = Some (rs\<lparr>rules_state := st\<rparr>)"
      "length st = length (rules_state rs)"
      "\<forall>j < length st. st ! j = (if j \<in> set is \<and> ev_of rs j AND event \<noteq> 0 \<and> \<not> always_of rs j
          then rule_status_not_done else rules_state rs ! j)"
      using Cons.IH [of rs] by blast
    moreover have "j \<in> set (i # is) \<and> ev_of rs j AND event \<noteq> 0 \<and> \<not> always_of rs j
        \<longleftrightarrow> j \<in> set is \<and> ev_of rs j AND event \<noteq> 0 \<and> \<not> always_of rs j" for j
      using False by auto
    ultimately show ?thesis by (intro exI [of _ st]) (simp only: simp_thms)
  qed
next
  case Nil
  show ?case by (intro exI [of _ "rules_state rs"]) simp
qed

lemma update_loop_result:
  assumes "distinct is" "update_loop is message status new_status event did emask rs = Some (did', emask', rs')"
  shows "\<exists>st. rs' = rs\<lparr>rules_state := st\<rparr> \<and> length st = length (rules_state rs)
    \<and> (\<forall>j < length st. st ! j = (if j \<in> set is \<and> updated rs message status event j
          then new_status else rules_state rs ! j))
    \<and> (did' \<longleftrightarrow> did \<or> (\<exists>j\<in>set is. updated rs message status event j))
    \<and> (\<forall>b. bit emask' b \<longleftrightarrow> bit emask b \<or> (\<exists>j\<in>set is. updated rs message status event j \<and> bit (ev_of rs j) b))"
  using assms
proof (induction "is" arbitrary: did emask rs)
  case (Cons i "is")
  show ?case
  proof (cases "updated rs message status event i")
    case True
    let ?rs = "rs\<lparr>rules_state := (rules_state rs)[i := new_status]\<rparr>"
    have l: "update_loop is message status new_status event True (emask OR ev_of rs i) ?rs
        = Some (did', emask', rs')"
      using Cons.prems(2) True
      by (auto simp: updated_def ev_of_def RulesEngine_SetRuleStatus_def Let_def bind_eq_Some_conv
          split: if_splits)
    have same: "updated ?rs message status event j = updated rs message status event j" if "j \<in> set is" for j
    proof -
      have "j \<noteq> i" using that Cons.prems(1) by auto
      then show ?thesis by (simp add: updated_def ev_of_def)
    qed
    have ev: "ev_of ?rs j = ev_of rs j" for j by (simp add: ev_of_def)
    obtain st where st: "rs' = rs\<lparr>rules_state := st\<rparr>" "length st = length (rules_state rs)"
      "\<forall>j < length st. st ! j = (if j \<in> set is \<and> updated rs message status event j
          then new_status else (rules_state rs)[i := new_status] ! j)" "did'"
      "\<forall>b. bit emask' b \<longleftrightarrow> bit (emask OR ev_of rs i) b \<or> (\<exists>j\<in>set is. updated rs message status event j \<and> bit (ev_of rs j) b)"
      using Cons.IH [OF _ l] Cons.prems(1) same ev by (simp cong: conj_cong bex_cong if_cong) blast
    have "st ! j = (if j \<in> set (i # is) \<and> updated rs message status event j
          then new_status else rules_state rs ! j)" if "j < length st" for j
      using st(2,3) True that by (cases "j = i") simp_all
    then show ?thesis
      using st True by (intro exI [of _ st]) (auto simp: bit_or_iff)
  next
    case False
    then have "update_loop is message status new_status event did emask rs = Some (did', emask', rs')"
      using Cons.prems(2) by (auto simp: updated_def ev_of_def)
    note tail = this
    have "distinct is" using Cons.prems(1) by simp
    from Cons.IH [OF this tail]
    obtain st where st: "rs' = rs\<lparr>rules_state := st\<rparr>" "length st = length (rules_state rs)"
      "\<forall>j < length st. st ! j = (if j \<in> set is \<and> updated rs message status event j
          then new_status else rules_state rs ! j)"
      "did' \<longleftrightarrow> did \<or> (\<exists>j\<in>set is. updated rs message status event j)"
      "\<forall>b. bit emask' b \<longleftrightarrow> bit emask b \<or> (\<exists>j\<in>set is. updated rs message status event j \<and> bit (ev_of rs j) b)"
      by blast
    have "j \<in> set (i # is) \<and> updated rs message status event j
        \<longleftrightarrow> j \<in> set is \<and> updated rs message status event j" for j
      using False by auto
    with st False show ?thesis by (intro exI [of _ st]) simp
  qed
next
  case Nil
  then show ?case by (intro exI [of _ "rules_state rs"]) simp
qed


lemma mask_loop_bit:
  "bit (mask_loop is event emask rs) b \<longleftrightarrow> bit emask b \<and>
     \<not> (\<exists>i\<in>set is. ev_of rs i AND event \<noteq> 0 \<and> rules_state rs ! i \<noteq> rule_status_complete \<and> bit (ev_of rs i) b)"
  by (induction "is" arbitrary: emask) (auto simp: ev_of_def bit_and_iff bit_not_iff Let_def dest: bit_imp_le_length)

lemma ResetEvent_result:
  "\<exists>st. RulesEngine_ResetEvent rs event
      = Some (rs\<lparr>rs_events := rs_events rs AND NOT event, rules_state := st\<rparr>)
     \<and> length st = length (rules_state rs)
     \<and> (\<forall>j < length st. st ! j =
          (if j < length (rs_rules rs) \<and> ev_of rs j AND event \<noteq> 0 \<and> \<not> always_of rs j
           then rule_status_not_done else rules_state rs ! j))"
  using reset_loop_result [of "[0 ..< length (rs_rules rs)]" event "rs\<lparr>rs_events := rs_events rs AND NOT event\<rparr>"]
  by (auto simp: RulesEngine_ResetEvent_def ev_of_def always_of_def)

text \<open>The events that an update clears: all rules of the event are complete afterwards.\<close>

definition finished_event ::
  "('env, 'm) rule_set \<Rightarrow> message_id \<Rightarrow> rule_status \<Rightarrow> nat \<Rightarrow> bool" where
  "finished_event rs message status b =
     ((\<exists>i < length (rs_rules rs). updated rs message status RULE_EVENT_ALL_EVENTS_MASK i \<and> bit (ev_of rs i) b)
      \<and> (\<forall>i < length (rs_rules rs). bit (ev_of rs i) b \<longrightarrow> rules_state rs ! i = rule_status_complete
           \<or> updated rs message status RULE_EVENT_ALL_EVENTS_MASK i))"

lemma and_all_events: "e AND RULE_EVENT_ALL_EVENTS_MASK = e"
proof -
  have all: "RULE_EVENT_ALL_EVENTS_MASK = -1" by (simp add: RULE_EVENT_ALL_EVENTS_MASK_def)
  show ?thesis unfolding all by (rule bit_eqI) (simp add: bit_and_iff bit_imp_le_length)
qed

lemma update_status_all_events:
  assumes "rs_wf rs"
    "RulesEngine_UpdateRuleStatus rs message status rule_status_complete RULE_EVENT_ALL_EVENTS_MASK
       = Some (did, rs')"
  shows "(\<forall>b < 64. bit (rs_events rs') b \<longleftrightarrow> bit (rs_events rs) b \<and> \<not> finished_event rs message status b)
    \<and> (\<forall>i < length (rs_rules rs). rules_state rs' ! i =
         (if (\<exists>b < 64. bit (ev_of rs i) b \<and> finished_event rs message status b) \<and> \<not> always_of rs i
          then rule_status_not_done
          else if updated rs message status RULE_EVENT_ALL_EVENTS_MASK i then rule_status_complete
          else rules_state rs ! i))
    \<and> rs' = rs\<lparr>rs_events := rs_events rs', rules_state := rules_state rs'\<rparr>
    \<and> length (rules_state rs') = length (rs_rules rs)
    \<and> (did \<longleftrightarrow> (\<exists>i < length (rs_rules rs). updated rs message status RULE_EVENT_ALL_EVENTS_MASK i))"
proof -
  let ?all = RULE_EVENT_ALL_EVENTS_MASK and ?is = "[0 ..< length (rs_rules rs)]"
  obtain d em rs1 where l: "update_loop ?is message status rule_status_complete ?all False 0 rs
      = Some (d, em, rs1)"
    and r: "(if mask_loop ?is ?all em rs1 \<noteq> 0 then RulesEngine_ResetEvent rs1 (mask_loop ?is ?all em rs1)
             else Some rs1) = Some rs'"
    and d: "d = did"
    using assms(2) by (auto simp: RulesEngine_UpdateRuleStatus_def Let_def bind_eq_Some_conv
      split: if_splits)
  obtain st where st: "rs1 = rs\<lparr>rules_state := st\<rparr>" "length st = length (rules_state rs)"
    "\<forall>j < length st. st ! j = (if j \<in> set ?is \<and> updated rs message status ?all j
        then rule_status_complete else rules_state rs ! j)"
    "d \<longleftrightarrow> (\<exists>j\<in>set ?is. updated rs message status ?all j)"
    "\<forall>b. bit em b \<longleftrightarrow> bit (0 :: rule_events) b \<or> (\<exists>j\<in>set ?is. updated rs message status ?all j \<and> bit (ev_of rs j) b)"
    using update_loop_result [OF _ l] by auto
  define em' where "em' = mask_loop ?is ?all em rs1"
  have n: "length (rules_state rs) = length (rs_rules rs)" using assms(1) by (simp add: rs_wf_def)
  have ev1: "ev_of rs1 i = ev_of rs i" "always_of rs1 i = always_of rs i" for i
    by (simp_all add: st(1) ev_of_def always_of_def)
  have nz: "ev_of rs i AND ?all \<noteq> 0" if "bit (ev_of rs i) b" for i b
    using that by (auto simp: and_all_events)
  have fin: "bit em' b \<longleftrightarrow> finished_event rs message status b" for b
    unfolding em'_def mask_loop_bit finished_event_def ev1
    using st n nz by (auto simp: st(1) split: if_splits)
  have R: "\<exists>st'. rs' = rs1\<lparr>rs_events := rs_events rs AND NOT em', rules_state := st'\<rparr>
      \<and> length st' = length (rs_rules rs)
      \<and> (\<forall>j < length (rs_rules rs). st' ! j = (if ev_of rs j AND em' \<noteq> 0 \<and> \<not> always_of rs j
           then rule_status_not_done else st ! j))"
  proof (cases "em' = 0")
    case True
    with r [folded em'_def] have "rs' = rs1" by simp
    with True st(1,2) n show ?thesis by (intro exI [of _ st]) simp
  next
    case False
    then show ?thesis
      using r [folded em'_def] ResetEvent_result [of rs1 em'] st(1,2) ev1 n by auto
  qed
  have ov: "ev_of rs j AND em' \<noteq> 0 \<longleftrightarrow> (\<exists>b < 64. bit (ev_of rs j) b \<and> finished_event rs message status b)" for j
    using fin by (simp add: and_nonzero_iff)
  obtain st' where st': "rs' = rs1\<lparr>rs_events := rs_events rs AND NOT em', rules_state := st'\<rparr>"
    "length st' = length (rs_rules rs)" using R by blast
  have "did \<longleftrightarrow> (\<exists>i < length (rs_rules rs). updated rs message status ?all i)"
    using st(4) d by auto
  moreover have "rs' = rs\<lparr>rs_events := rs_events rs', rules_state := rules_state rs'\<rparr>"
    "length (rules_state rs') = length (rs_rules rs)" using st' st(1) by simp_all
  ultimately show ?thesis
    using R st n ov by (auto simp: bit_and_iff bit_not_iff fin)
qed

section \<open>Completion\<close>

text \<open>
  C7: Completing by message (\<open>RulesEngine_SetRuleComplete\<close>) does the following before it runs the
  rules again. It clears an event exactly if one of its rules has just been completed and every rule of
  the event is now complete. The rules of these events start over (except those always evaluated), the
  other rules of the message that were in progress become complete, and every other rule keeps
  its status, so no rule still in progress, deferred or not yet evaluated is reset. The tasks
  registered for it are told that nothing is in progress exactly if a rule was completed and none
  of the rules whose progress matters is left in progress. Then \<open>RulesEngine_Check\<close> starts from this
  state, and gives the result.
\<close>
theorem completion_clears_exactly_finished_events:
  assumes "rs_wf rs" "RulesEngine_SetRuleComplete env now rs message s = Some (rs', s')"
  shows "\<exists>events st s1. let rs1 = rs\<lparr>rs_events := events, rules_state := st\<rparr> in
    (\<forall>b < 64. bit events b \<longleftrightarrow>
       bit (rs_events rs) b \<and> \<not> finished_event rs message rule_status_in_progress b)
    \<and> length st = length (rs_rules rs)
    \<and> (\<forall>i < length (rs_rules rs). st ! i =
         (if (\<exists>b < 64. bit (ev_of rs i) b \<and> finished_event rs message rule_status_in_progress b) \<and> \<not> always_of rs i
          then rule_status_not_done
          else if updated rs message rule_status_in_progress RULE_EVENT_ALL_EVENTS_MASK i then rule_status_complete
          else rules_state rs ! i))
    \<and> (if (\<exists>i < length (rs_rules rs). updated rs message rule_status_in_progress RULE_EVENT_ALL_EVENTS_MASK i)
          \<and> \<not> RulesEngine_InProgress rs1
        then TaskList_MessageSendWithSize now (nop_tasks rs) (nop_message_id rs) None 0 s
        else Some s) = Some s1
    \<and> RulesEngine_Check env now rs1 s1 = Some (rs', s')"
proof -
  obtain did rs1 s1 where
    u: "RulesEngine_UpdateRuleStatus rs message rule_status_in_progress rule_status_complete
        RULE_EVENT_ALL_EVENTS_MASK = Some (did, rs1)"
    and s1: "(if did \<and> \<not> RulesEngine_InProgress rs1
        then TaskList_MessageSendWithSize now (nop_tasks rs1) (nop_message_id rs1) None 0 s else Some s) = Some s1"
    and c: "RulesEngine_Check env now rs1 s1 = Some (rs', s')"
    using assms(2) by (auto simp: RulesEngine_SetRuleComplete_def RulesEngine_SetRuleWithEventComplete_def
      bind_eq_Some_conv)
  note U = update_status_all_events [OF assms(1) u]
  have f: "rs\<lparr>rs_events := rs_events rs1, rules_state := rules_state rs1\<rparr> = rs1" using U by metis
  have nop: "nop_tasks rs = nop_tasks rs1" "nop_message_id rs = nop_message_id rs1"
    using arg_cong [OF f, of nop_tasks] arg_cong [OF f, of nop_message_id] by simp_all
  have d: "did \<longleftrightarrow> (\<exists>i < length (rs_rules rs). updated rs message rule_status_in_progress RULE_EVENT_ALL_EVENTS_MASK i)"
    using U by blast
  have "(if (\<exists>i < length (rs_rules rs). updated rs message rule_status_in_progress RULE_EVENT_ALL_EVENTS_MASK i)
          \<and> \<not> RulesEngine_InProgress rs1
        then TaskList_MessageSendWithSize now (nop_tasks rs) (nop_message_id rs) None 0 s
        else Some s) = Some s1"
    unfolding d [symmetric] nop by (rule s1)
  moreover have "\<forall>b < 64. bit (rs_events rs1) b \<longleftrightarrow>
      bit (rs_events rs) b \<and> \<not> finished_event rs message rule_status_in_progress b"
    "length (rules_state rs1) = length (rs_rules rs)" using U by blast+
  moreover note U [THEN conjunct2, THEN conjunct1]
  ultimately show ?thesis
    unfolding Let_def using c f
    by (intro exI [of _ "rs_events rs1"] exI [of _ "rules_state rs1"] exI [of _ s1] conjI) (assumption | simp only: f)+
qed

text \<open>A table of three rules for the examples: messages 1, 2 and 3; \<open>env\<close> is not read.\<close>

definition run_always :: "unit \<Rightarrow> rule_action \<times> (nat \<times> unit msg_data) option" where
  "run_always env = (rule_action_run, None)"

definition idle_vm :: "unit vm" where
  "idle_vm = \<lparr>vm_message_queue = [], vm_delivered_messages = [], sched_event_pending = False,
     put_message_ok = True, registered_hdlrs = [], sink_source_hdlrs = [], run_timer = None\<rparr>"

definition two_rules :: "(unit, unit) rule_entry list" where
  "two_rules =
     [\<lparr>rule_events = 3, rule_flags = rule_flag_no_flags, rule_fn = run_always, rule_message = 1\<rparr>,
      \<lparr>rule_events = 2, rule_flags = rule_flag_progress_matters, rule_fn = run_always, rule_message = 2\<rparr>]"

definition two_rules_set :: "rule_events \<Rightarrow> rule_status list \<Rightarrow> (unit, unit) rule_set" where
  "two_rules_set ev st =
     \<lparr>rs_events = ev, rs_rules = two_rules, rules_state = st, rule_message_data = None,
      size_rule_message_data = 0, event_task = 9,
      nop_tasks = \<lparr>size_list = 0, size_flexible_tasks = 0, list_type = TASKLIST_TYPE_STANDARD,
        no_destroy = True, tl_u = U_task 0, flexible_tasks = [], tl_data = []\<rparr>,
      nop_message_id = 8\<rparr>"

text \<open>
  Rule 0, with the events 0 and 1, is completed; rule 1, with event 1, is still in progress: event 0
  is cleared, event 1 is not.
\<close>

theorem completion_clears_exactly_finished_events_witness:
  "\<exists>rs' s' events st s1.
      RulesEngine_SetRuleComplete () 0 (two_rules_set 3 [rule_status_in_progress, rule_status_in_progress]) 1 idle_vm
        = Some (rs', s')
    \<and> \<not> bit events 0 \<and> bit events 1 \<and> st ! 1 = rule_status_in_progress
    \<and> RulesEngine_Check () 0 (two_rules_set events st) s1 = Some (rs', s')"
proof -
  let ?rs = "two_rules_set 3 [rule_status_in_progress, rule_status_in_progress]"
  have w: "rs_wf ?rs" by (simp add: rs_wf_def two_rules_set_def two_rules_def)
  have "\<exists>rs' s'. RulesEngine_SetRuleComplete () 0 ?rs 1 idle_vm = Some (rs', s')"
    by (simp add: RulesEngine_SetRuleComplete_def RulesEngine_SetRuleWithEventComplete_def
      RulesEngine_InProgress_def RulesEngine_Check_def RulesEngine_RunRules_def run_rule_step_def
      RulesEngine_UpdateRuleStatus_def two_rules_set_def two_rules_def Let_def
      RULE_EVENT_ALL_EVENTS_MASK_def RulesEngine_SetRuleStatus_def RulesEngine_ResetEvent_def upt_rec)
  then obtain rs' s' where rs': "RulesEngine_SetRuleComplete () 0 ?rs 1 idle_vm = Some (rs', s')"
    by blast
  from completion_clears_exactly_finished_events [OF w rs'] obtain events st s1 where
    ev: "\<forall>b < 64. bit events b \<longleftrightarrow> bit (rs_events ?rs) b \<and> \<not> finished_event ?rs 1 rule_status_in_progress b"
    and st: "\<forall>i < length (rs_rules ?rs). st ! i =
         (if (\<exists>b < 64. bit (ev_of ?rs i) b \<and> finished_event ?rs 1 rule_status_in_progress b) \<and> \<not> always_of ?rs i
          then rule_status_not_done
          else if updated ?rs 1 rule_status_in_progress RULE_EVENT_ALL_EVENTS_MASK i then rule_status_complete
          else rules_state ?rs ! i)"
    and c: "RulesEngine_Check () 0 (?rs\<lparr>rs_events := events, rules_state := st\<rparr>) s1 = Some (rs', s')"
    unfolding Let_def by blast
  have ur: "updated ?rs 1 rule_status_in_progress RULE_EVENT_ALL_EVENTS_MASK 0"
    "\<not> updated ?rs 1 rule_status_in_progress RULE_EVENT_ALL_EVENTS_MASK 1"
    by (simp_all add: updated_def two_rules_set_def two_rules_def ev_of_def RULE_EVENT_ALL_EVENTS_MASK_def)
  have n: "length (rs_rules ?rs) = 2" "ev_of ?rs 0 = 3" "ev_of ?rs 1 = 2"
    "rules_state ?rs = [rule_status_in_progress, rule_status_in_progress]" "rs_events ?rs = 3"
    by (simp_all add: two_rules_set_def two_rules_def ev_of_def)
  have f: "finished_event ?rs 1 rule_status_in_progress 0 \<and> \<not> finished_event ?rs 1 rule_status_in_progress 1"
    using ur n by (auto simp: finished_event_def less_2_cases_iff)
  have "b = 1" if "bit (2 :: rule_events) b" for b
    using that by (auto simp: bit_numeral_rec(1) bit_1_iff gr0_conv_Suc elim!: nat.exhaust split: nat.splits)
  then have "st ! 1 = rule_status_in_progress" using st f n ur(2) by auto
  moreover have "\<not> bit events 0" "bit events 1" using ev f n(5) by auto
  moreover have "?rs\<lparr>rs_events := events, rules_state := st\<rparr> = two_rules_set events st"
    by (simp add: two_rules_set_def)
  ultimately show ?thesis using rs' c by metis
qed

text \<open>
  Completing by message and event (\<open>RulesEngine_SetRuleWithEventComplete\<close>) can undo a rule
  in progress. Of two rules, the first for events 0 and 1 and the second for event 1, the second
  is started by event 1 and the first, when event 0 comes, by both; completing the first for
  event 0 alone then clears event 1 too, although the second rule is still in progress, and sets
  that rule back to not done, so its own completion is later ignored.
\<close>
lemma completion_with_event_resets_rule_in_progress:
  "\<exists>rs1 s1 rs2 s2 rs3 s3.
     RulesEngine_SetEvent () 0 (two_rules_set 0 [rule_status_not_done, rule_status_not_done]) 2 idle_vm
       = Some (rs1, s1) \<and>
     RulesEngine_SetEvent () 0 rs1 1 s1 = Some (rs2, s2) \<and> RulesEngine_InProgress rs2 \<and>
     rules_state rs2 = [rule_status_in_progress, rule_status_in_progress] \<and>
     RulesEngine_SetRuleWithEventComplete () 0 rs2 1 1 s2 = Some (rs3, s3) \<and>
     rules_state rs3 = [rule_status_not_done, rule_status_not_done] \<and> RulesEngine_GetEvents rs3 = 0"
  by (simp add: two_rules_set_def two_rules_def RulesEngine_SetEvent_def RulesEngine_Check_def
    RulesEngine_RunRules_def run_rule_step_def RulesEngine_RunRule_def run_always_def Let_def upt_rec
    RulesEngine_SetRuleStatus_def MessageSend_def MessageSendLater_def vm_message_send_later_def
    recipients_of_def insert_msg_def idle_vm_def vm_event_trigger_def VM_DIFF_def similar_def
    is_multicast_def RulesEngine_SetRuleWithEventComplete_def RulesEngine_UpdateRuleStatus_def
    RulesEngine_ResetEvent_def RulesEngine_InProgress_def RulesEngine_GetEvents_def D_IMMEDIATE_def
    TaskList_MessageSendWithSize_def TaskList_MessageSendLaterWithSize_def
    taskList_CreateNullTerminatedTaskArray_def)

section \<open>One pass over the rules\<close>

lemma UpdateRuleStatus_rules:
  assumes "RulesEngine_UpdateRuleStatus rs message status new event = Some (did, rs')"
  shows "rs_rules rs' = rs_rules rs"
proof -
  let ?is = "[0 ..< length (rs_rules rs)]"
  obtain d em rs1 where l: "update_loop ?is message status new event False 0 rs = Some (d, em, rs1)"
    and r: "(if mask_loop ?is event em rs1 \<noteq> 0 then RulesEngine_ResetEvent rs1 (mask_loop ?is event em rs1)
             else Some rs1) = Some rs'"
    using assms by (auto simp: RulesEngine_UpdateRuleStatus_def Let_def bind_eq_Some_conv split: if_splits)
  have "rs_rules rs1 = rs_rules rs" using update_loop_result [OF _ l] by auto
  with r ResetEvent_result [of rs1 "mask_loop ?is event em rs1"] show ?thesis
    by (auto split: if_splits)
qed

lemma RunRule_rules:
  "RulesEngine_RunRule env rs i = Some (a, rs') \<Longrightarrow>
     rs_rules rs' = rs_rules rs \<and> rules_state rs' = rules_state rs \<and> rs_events rs' = rs_events rs
     \<and> event_task rs' = event_task rs"
  by (auto simp: RulesEngine_RunRule_def RulesEngine_CopyRunParams_def bind_eq_Some_conv
    split: prod.splits option.splits)

lemma SetRuleStatus_rules:
  "RulesEngine_SetRuleStatus i st rs = Some rs' \<Longrightarrow> rs_rules rs' = rs_rules rs"
  by (auto simp: RulesEngine_SetRuleStatus_def split: if_splits)

lemma run_rule_step_shape:
  assumes "run_rule_step env now i events rs s = Some (sent, events', rs', s')"
  shows "rs_rules rs' = rs_rules rs
    \<and> (events' = events \<or> events' = events AND NOT (ev_of rs i))
    \<and> (sent \<and> \<not> always_of rs i \<longrightarrow> events' = events AND NOT (ev_of rs i) \<and> ev_of rs i AND events = ev_of rs i)"
  using assms
  by (auto simp: run_rule_step_def Let_def bind_eq_Some_conv ev_of_def always_of_def
    dest!: RunRule_rules SetRuleStatus_rules UpdateRuleStatus_rules
    split: if_splits rule_action.splits prod.splits)

definition sub_events :: "rule_events \<Rightarrow> rule_events \<Rightarrow> bool" where
  "sub_events a b = (a AND b = a)"

lemma sub_events_bits: "sub_events a b \<longleftrightarrow> (\<forall>k. bit a k \<longrightarrow> bit b k)"
proof
  assume "sub_events a b"
  then have "bit (a AND b) k = bit a k" for k by (simp add: sub_events_def)
  then show "\<forall>k. bit a k \<longrightarrow> bit b k" by (auto simp: bit_and_iff)
next
  assume "\<forall>k. bit a k \<longrightarrow> bit b k"
  then show "sub_events a b" unfolding sub_events_def by (intro bit_word_eqI) (auto simp: bit_and_iff)
qed

lemma and_zero_bits: "(a :: rule_events) AND b = 0 \<longleftrightarrow> (\<forall>k. \<not> (bit a k \<and> bit b k))"
  using and_nonzero_iff [of a b] and_zero_bit [of a b] by blast

lemma run_rules_loop_disjoint:
  assumes "run_rules_loop env now is events rs s = Some (sent, rs', s')" "distinct is"
  shows "rs_rules rs' = rs_rules rs \<and> distinct sent \<and> set sent \<subseteq> set is
    \<and> (\<forall>i\<in>set sent. \<not> always_of rs i \<longrightarrow> sub_events (ev_of rs i) events)
    \<and> (\<forall>i\<in>set sent. \<forall>j\<in>set sent. i \<noteq> j \<and> \<not> always_of rs i \<and> \<not> always_of rs j
         \<longrightarrow> ev_of rs i AND ev_of rs j = 0)"
  using assms
proof (induction "is" arbitrary: events rs s sent)
  case (Cons i "is")
  obtain b events1 rs1 s1 log where step: "run_rule_step env now i events rs s = Some (b, events1, rs1, s1)"
    and rest: "run_rules_loop env now is events1 rs1 s1 = Some (log, rs', s')"
    and sent: "sent = (if b then i # log else log)"
    using Cons.prems(1) by (auto simp: bind_eq_Some_conv)
  note sh = run_rule_step_shape [OF step]
  have same: "ev_of rs1 j = ev_of rs j" "always_of rs1 j = always_of rs j" for j
    using sh by (simp_all add: ev_of_def always_of_def)
  have IH: "rs_rules rs' = rs_rules rs1 \<and> distinct log \<and> set log \<subseteq> set is
    \<and> (\<forall>i\<in>set log. \<not> always_of rs i \<longrightarrow> sub_events (ev_of rs i) events1)
    \<and> (\<forall>i\<in>set log. \<forall>j\<in>set log. i \<noteq> j \<and> \<not> always_of rs i \<and> \<not> always_of rs j
         \<longrightarrow> ev_of rs i AND ev_of rs j = 0)"
    using Cons.IH [OF rest] Cons.prems(2) by (simp add: same)
  have e1: "sub_events events1 events"
    using sh by (auto simp: sub_events_bits bit_and_iff)
  have sub: "sub_events (ev_of rs j) events" if "j \<in> set sent" "\<not> always_of rs j" for j
  proof (cases "j \<in> set log")
    case True
    with IH that e1 show ?thesis by (auto simp: sub_events_bits)
  next
    case False
    with that sent have "j = i" "b" by (auto split: if_splits)
    with sh that show ?thesis by (auto simp: sub_events_def)
  qed
  have dis: "ev_of rs i AND ev_of rs j = 0" if "b" "\<not> always_of rs i" "j \<in> set log" "\<not> always_of rs j" for j
  proof -
    have "sub_events (ev_of rs j) (events AND NOT (ev_of rs i))" using sh IH that by auto
    then show ?thesis by (auto simp: sub_events_bits bit_and_iff bit_not_iff and_zero_bits)
  qed
  have "distinct sent \<and> set sent \<subseteq> set (i # is)"
    using IH Cons.prems(2) sent by (auto split: if_splits)
  moreover have "ev_of rs j AND ev_of rs k = 0"
    if "j \<in> set sent" "k \<in> set sent" "j \<noteq> k" "\<not> always_of rs j" "\<not> always_of rs k" for j k
    using that dis [of k] dis [of j] IH sent by (auto simp: and.commute split: if_splits)
  ultimately show ?case using IH sh sub by simp
qed simp

text \<open>
  C6: In one pass over the rules the messages that go out never compete for an event: any two
  rules started in the pass (other than those always evaluated) have no event in common, each is
  started once, and all its events were active when the pass began.
\<close>
theorem pass_starts_disjoint_rules:
  assumes "RulesEngine_RunRules env now rs s = Some (sent, rs', s')"
  shows "distinct sent \<and> (\<forall>i\<in>set sent. i < length (rs_rules rs)
      \<and> (\<not> always_of rs i \<longrightarrow> ev_of rs i AND RulesEngine_GetEvents rs = ev_of rs i))
    \<and> (\<forall>i\<in>set sent. \<forall>j\<in>set sent. i \<noteq> j \<and> \<not> always_of rs i \<and> \<not> always_of rs j
         \<longrightarrow> ev_of rs i AND ev_of rs j = 0)"
  using run_rules_loop_disjoint [OF assms [unfolded RulesEngine_RunRules_def]]
  by (auto simp: sub_events_def RulesEngine_GetEvents_def)

theorem pass_starts_disjoint_rules_witness:
  "\<exists>sent rs' s'. RulesEngine_RunRules () 0 (two_rules_set 3 [rule_status_not_done, rule_status_not_done])
      idle_vm = Some (sent, rs', s') \<and> sent = [0] \<and> distinct sent"
proof -
  have "\<exists>rs' s'. RulesEngine_RunRules () 0 (two_rules_set 3 [rule_status_not_done, rule_status_not_done])
      idle_vm = Some ([0], rs', s')"
    by (simp add: two_rules_set_def two_rules_def RulesEngine_RunRules_def run_rule_step_def
      RulesEngine_RunRule_def run_always_def Let_def upt_rec RulesEngine_SetRuleStatus_def
      MessageSend_def MessageSendLater_def vm_message_send_later_def recipients_of_def insert_msg_def
      idle_vm_def)
  then obtain rs' s' where r: "RulesEngine_RunRules () 0
      (two_rules_set 3 [rule_status_not_done, rule_status_not_done]) idle_vm = Some ([0], rs', s')" by blast
  from pass_starts_disjoint_rules [OF r] r show ?thesis by blast
qed

section \<open>When a pass cannot panic\<close>

text \<open>
  What the engine needs of its table: a rule gives parameters exactly when it asks to run with
  them, a rule that is always evaluated does not defer, and no such rule shares both its message and an
  event with a rule that is not.
\<close>

definition rule_behaves :: "'env \<Rightarrow> ('env, 'm) rule_entry \<Rightarrow> bool" where
  "rule_behaves env r =
     (case rule_fn r env of
        (rule_action_run_with_param, Some (n, _)) \<Rightarrow> n \<noteq> 0
      | (rule_action_run_with_param, None) \<Rightarrow> False
      | (rule_action_defer, p) \<Rightarrow> p = None \<and> rule_flags r \<noteq> rule_flag_always_evaluate
      | (_, p) \<Rightarrow> p = None)"

definition table_separates :: "('env, 'm) rule_entry list \<Rightarrow> bool" where
  "table_separates rules =
     (\<forall>r\<in>set rules. \<forall>q\<in>set rules. rule_flags r = rule_flag_always_evaluate
        \<and> rule_flags q \<noteq> rule_flag_always_evaluate \<and> rule_message r = rule_message q
        \<longrightarrow> rule_events r AND rule_events q = 0)"

definition no_params :: "('env, 'm) rule_set \<Rightarrow> bool" where
  "no_params rs = (rule_message_data rs = None \<and> size_rule_message_data rs = 0)"

lemma update_loop_total:
  assumes "\<forall>i\<in>set is. rule_message (rs_rules rs ! i) = message \<and> ev_of rs i AND event \<noteq> 0 \<longrightarrow> \<not> always_of rs i"
  shows "update_loop is message status new event did emask rs \<noteq> None"
  using assms
proof (induction "is" arbitrary: did emask rs)
  case (Cons i "is")
  then show ?case
    by (auto simp: Let_def RulesEngine_SetRuleStatus_def ev_of_def always_of_def)
qed simp

lemma UpdateRuleStatus_total:
  assumes "\<forall>i < length (rs_rules rs).
    rule_message (rs_rules rs ! i) = message \<and> ev_of rs i AND event \<noteq> 0 \<longrightarrow> \<not> always_of rs i"
  shows "\<exists>did rs'. RulesEngine_UpdateRuleStatus rs message status new event = Some (did, rs')"
proof -
  let ?is = "[0 ..< length (rs_rules rs)]"
  obtain d em rs1 where "update_loop ?is message status new event False 0 rs = Some (d, em, rs1)"
    using update_loop_total [of ?is rs message event status new False 0] assms by auto
  then show ?thesis
    using ResetEvent_result [of rs1 "mask_loop ?is event em rs1"]
    by (auto simp: RulesEngine_UpdateRuleStatus_def Let_def)
qed

lemma UpdateRuleStatus_params:
  assumes "RulesEngine_UpdateRuleStatus rs message status new event = Some (did, rs')"
  shows "no_params rs' = no_params rs"
proof -
  let ?is = "[0 ..< length (rs_rules rs)]"
  obtain d em rs1 where l: "update_loop ?is message status new event False 0 rs = Some (d, em, rs1)"
    and r: "(if mask_loop ?is event em rs1 \<noteq> 0 then RulesEngine_ResetEvent rs1 (mask_loop ?is event em rs1)
             else Some rs1) = Some rs'"
    using assms by (auto simp: RulesEngine_UpdateRuleStatus_def Let_def bind_eq_Some_conv split: if_splits)
  have "no_params rs1 = no_params rs" using update_loop_result [OF _ l] by (auto simp: no_params_def)
  with r ResetEvent_result [of rs1 "mask_loop ?is event em rs1"] show ?thesis
    by (auto simp: no_params_def split: if_splits)
qed

lemma MessageSend_total: "\<exists>s'. MessageSend now t mid m s = Some s'"
  by (simp add: MessageSend_def MessageSendLater_def vm_message_send_later_def recipients_of_def
    split: prod.splits)

lemma run_rule_step_total:
  assumes "no_params rs" "i < length (rs_rules rs)" "rule_behaves env (rs_rules rs ! i)"
    "table_separates (rs_rules rs)"
  shows "\<exists>sent events' rs' s'. run_rule_step env now i events rs s = Some (sent, events', rs', s') \<and> no_params rs'"
proof -
  have sep: "\<exists>did rs'. RulesEngine_UpdateRuleStatus rs (rule_message (rs_rules rs ! i)) st
      rule_status_complete (rule_events (rs_rules rs ! i)) = Some (did, rs') \<and> no_params rs'"
    if "\<not> always_of rs i" for st
  proof -
    have "\<forall>j < length (rs_rules rs). rule_message (rs_rules rs ! j) = rule_message (rs_rules rs ! i)
        \<and> ev_of rs j AND rule_events (rs_rules rs ! i) \<noteq> 0 \<longrightarrow> \<not> always_of rs j"
      using assms(2,4) that by (auto simp: table_separates_def always_of_def ev_of_def)
    from UpdateRuleStatus_total [OF this] UpdateRuleStatus_params assms(1) show ?thesis by metis
  qed
  obtain a p where f: "rule_fn (rs_rules rs ! i) env = (a, p)" by force
  show ?thesis
  proof (cases a)
    case rule_action_run
    with f assms show ?thesis
      using MessageSend_total [of now "event_task rs" "rule_message (rs_rules rs ! i)" None s]
      by (auto simp: rule_behaves_def run_rule_step_def Let_def RulesEngine_RunRule_def no_params_def
        RulesEngine_SetRuleStatus_def)
  next
    case rule_action_run_with_param
    with f assms obtain n d where p: "p = Some (n, d)" "n \<noteq> 0"
      by (auto simp: rule_behaves_def split: option.splits)
    then show ?thesis
      using rule_action_run_with_param f assms
        MessageSend_total [of now "event_task rs" "rule_message (rs_rules rs ! i)" "Some d" s]
      by (auto simp: run_rule_step_def Let_def RulesEngine_RunRule_def no_params_def
        RulesEngine_SetRuleStatus_def RulesEngine_CopyRunParams_def)
  next
    case rule_action_defer
    with f assms show ?thesis
      by (auto simp: rule_behaves_def run_rule_step_def Let_def RulesEngine_RunRule_def no_params_def
        RulesEngine_SetRuleStatus_def)
  next
    case rule_action_complete
    with f assms sep [of "rules_state rs ! i"] show ?thesis
      by (auto simp: rule_behaves_def run_rule_step_def Let_def RulesEngine_RunRule_def always_of_def
        ex_bool_eq)
  next
    case rule_action_ignore
    with f assms sep [of "rules_state rs ! i"] show ?thesis
      by (auto simp: rule_behaves_def run_rule_step_def Let_def RulesEngine_RunRule_def always_of_def
        ex_bool_eq)
  qed
qed

lemma run_rules_loop_total:
  assumes "no_params rs" "\<forall>i\<in>set is. i < length (rs_rules rs)" "\<forall>r\<in>set (rs_rules rs). rule_behaves env r"
    "table_separates (rs_rules rs)"
  shows "\<exists>sent rs' s'. run_rules_loop env now is events rs s = Some (sent, rs', s') \<and> no_params rs'"
  using assms
proof (induction "is" arbitrary: events rs s)
  case (Cons i "is")
  obtain sent e1 rs1 s1 where step: "run_rule_step env now i events rs s = Some (sent, e1, rs1, s1)" "no_params rs1"
    using run_rule_step_total [of rs i env now events s] Cons.prems by auto
  have "rs_rules rs1 = rs_rules rs" using run_rule_step_shape [OF step(1)] by simp
  then obtain log rs2 s2 where "run_rules_loop env now is e1 rs1 s1 = Some (log, rs2, s2)" "no_params rs2"
    using Cons.IH [of rs1 e1 s1] Cons.prems step(2) by auto
  with step show ?case by auto
qed simp

text \<open>
  The engine never panics on a table that behaves: if no parameters are left over and every
  rule of the table passes parameters exactly when it asks to run with them, no always-evaluated
  rule defers, and none shares its message and an event with an ordinary rule, then setting any
  events returns, and leaves no parameters over.
\<close>
lemma SetEvent_never_panics:
  assumes "no_params rs" "\<forall>r\<in>set (rs_rules rs). rule_behaves env r" "table_separates (rs_rules rs)"
  shows "\<exists>rs' s'. RulesEngine_SetEvent env now rs ev s = Some (rs', s') \<and> no_params rs'"
proof -
  let ?rs = "rs\<lparr>rs_events := rs_events rs OR ev\<rparr>"
  have "\<exists>sent rs' s'. run_rules_loop env now [0 ..< length (rs_rules ?rs)] (rs_events ?rs) ?rs s
      = Some (sent, rs', s') \<and> no_params rs'"
    by (rule run_rules_loop_total) (use assms in \<open>auto simp: no_params_def\<close>)
  then show ?thesis
    by (auto simp: RulesEngine_SetEvent_def RulesEngine_Check_def RulesEngine_RunRules_def)
qed

lemma SetEvent_never_panics_witness:
  "\<exists>rs' s'. RulesEngine_SetEvent () 0 (two_rules_set 0 [rule_status_not_done, rule_status_not_done]) 3
     idle_vm = Some (rs', s') \<and> no_params rs'"
  by (rule SetEvent_never_panics)
    (auto simp: two_rules_set_def two_rules_def no_params_def rule_behaves_def run_always_def table_separates_def)

text \<open>
  A rule that is ignored takes its siblings with it: of three rules for one event, where the
  first decides to ignore it, the second sends the same message as the first, and the third runs,
  the pass sends the third message only; the second rule's function (whatever it would decide) is never
  evaluated, and the rule counts as complete.
\<close>
lemma ignored_rule_hides_sibling:
  "let rules = [\<lparr>rule_events = 1, rule_flags = rule_flag_no_flags,
                 rule_fn = (\<lambda>_. (rule_action_ignore, None)), rule_message = 1\<rparr>,
                \<lparr>rule_events = 1, rule_flags = rule_flag_no_flags, rule_fn = f, rule_message = 1\<rparr>,
                \<lparr>rule_events = 1, rule_flags = rule_flag_no_flags, rule_fn = run_always, rule_message = 2\<rparr>];
       rs = (two_rules_set 1 (replicate 3 rule_status_not_done))\<lparr>rs_rules := rules\<rparr>
   in map_option (\<lambda>(sent, rs', _). (sent, rules_state rs')) (RulesEngine_RunRules () 0 rs idle_vm)
      = Some ([2], [rule_status_complete, rule_status_complete, rule_status_in_progress])"
  by (simp add: two_rules_set_def RulesEngine_RunRules_def run_rule_step_def RulesEngine_RunRule_def
    run_always_def Let_def upt_rec RulesEngine_SetRuleStatus_def RulesEngine_UpdateRuleStatus_def
    MessageSend_def MessageSendLater_def vm_message_send_later_def recipients_of_def insert_msg_def
    idle_vm_def numeral_3_eq_3)

end
