(* ===== verification/Procedures.thy ===== *)
theory Procedures
  imports MessageQueue
begin

text \<open>
  Delayed confirmations of topology procedures, \<open>topologies/common/procedures/procedures.c\<close>. A
  procedure that completes, or is cancelled, inside its own start or cancel function confirms it
  through a message to a task of this module; the identity of the procedure is part of the
  message id. Callbacks are values of the type \<open>'f\<close>; what the handler does is given as the call it
  makes. The message scheduler is the client's interface \<open>mailbox\<close>.
\<close>

section \<open>Data\<close>

type_synonym procedure_id = u16

definition PROCEDURE_ID_MAX :: procedure_id where "PROCEDURE_ID_MAX = 0xFF"

datatype procedure_result =
    procedure_result_success
  | procedure_result_failed
  | procedure_result_timeout

definition DELAY_COMPLETE_CFM :: message_id where "DELAY_COMPLETE_CFM = 0x100"
definition DELAY_CANCEL_CFM :: message_id where "DELAY_CANCEL_CFM = 0x200"

datatype 'f delay_cfm =
    DELAY_COMPLETE_CFM_T (cfm_fn: 'f) (cfm_proc: procedure_id) (cfm_result: procedure_result)
  | DELAY_CANCEL_CFM_T (cfm_fn: 'f) (cfm_proc: procedure_id) (cfm_result: procedure_result)

definition MESSAGE_ID_TO_DELAY_CFM_TYPE :: "message_id \<Rightarrow> message_id" where
  "MESSAGE_ID_TO_DELAY_CFM_TYPE i = i AND (DELAY_COMPLETE_CFM OR DELAY_CANCEL_CFM)"

definition PROC_ID_TO_DELAY_CFM_MESSAGE_ID :: "procedure_id \<Rightarrow> message_id \<Rightarrow> message_id" where
  "PROC_ID_TO_DELAY_CFM_MESSAGE_ID proc_id base_message_id = base_message_id + proc_id"

section \<open>Operations\<close>

text \<open>
  \<open>t\<close> is the task of this module, \<open>addr\<close> the address of the new message.
\<close>

definition Procedures_DelayedCompleteCfmCallback ::
  "u32 \<Rightarrow> nat \<Rightarrow> task \<Rightarrow> 'f \<Rightarrow> procedure_id \<Rightarrow> procedure_result \<Rightarrow> 'f delay_cfm vm \<Rightarrow> 'f delay_cfm vm option" where
  "Procedures_DelayedCompleteCfmCallback now addr t comp_fn proc result s =
     do {
       PanicFalse (PROCEDURE_ID_MAX \<ge> proc);
       MessageSend now t (PROC_ID_TO_DELAY_CFM_MESSAGE_ID proc DELAY_COMPLETE_CFM)
         (Some (addr, App (DELAY_COMPLETE_CFM_T comp_fn proc result))) s
     }"

definition Procedures_DelayedCancelCfmCallback ::
  "u32 \<Rightarrow> nat \<Rightarrow> task \<Rightarrow> 'f \<Rightarrow> procedure_id \<Rightarrow> procedure_result \<Rightarrow> 'f delay_cfm vm \<Rightarrow> 'f delay_cfm vm option" where
  "Procedures_DelayedCancelCfmCallback now addr t cancel_fn proc result s =
     do {
       PanicFalse (PROCEDURE_ID_MAX \<ge> proc);
       s1 \<leftarrow> MessageSend now t (PROC_ID_TO_DELAY_CFM_MESSAGE_ID proc DELAY_CANCEL_CFM)
               (Some (addr, App (DELAY_CANCEL_CFM_T cancel_fn proc result))) s;
       (_, s2) \<leftarrow> MessageCancelAll t (PROC_ID_TO_DELAY_CFM_MESSAGE_ID proc DELAY_COMPLETE_CFM) s1;
       Some s2
     }"

text \<open>The callback the handler makes; no callback for any other type of id.\<close>

definition Procedures_DelayCfmHandleMessage ::
  "message_id \<Rightarrow> 'f delay_cfm \<Rightarrow> ('f \<times> procedure_id \<times> procedure_result) option" where
  "Procedures_DelayCfmHandleMessage i message =
     (let type = MESSAGE_ID_TO_DELAY_CFM_TYPE i
      in if type = DELAY_COMPLETE_CFM \<or> type = DELAY_CANCEL_CFM
         then Some (cfm_fn message, cfm_proc message, cfm_result message) else None)"

section \<open>Properties\<close>

lemma proc_id_bits:
  assumes "proc \<le> PROCEDURE_ID_MAX" "base = 0x100 \<or> base = 0x200"
  shows "(base + proc) AND 0x300 = base"
proof -
  have p: "proc AND 0xFF = proc"
  proof -
    have "unat proc < 2 ^ 8" using assms(1) by (simp add: PROCEDURE_ID_MAX_def word_le_nat_alt)
    then have "take_bit 8 proc = proc" by (simp add: word_unat_eq_iff unsigned_take_bit_eq take_bit_nat_eq_self)
    then show ?thesis by (simp add: take_bit_eq_mask mask_eq_exp_minus_1)
  qed
  have "base AND proc = 0"
  proof -
    have "base AND proc = (base AND 0xFF) AND proc"
      using p by (metis and.assoc and.commute)
    then show ?thesis using assms(2) by auto
  qed
  then have "base + proc = base OR proc" by (simp add: disjunctive_add_eq_or)
  moreover have "proc AND 0x300 = 0"
  proof -
    have "proc AND 0x300 = proc AND (0xFF AND 0x300)" using p by (metis and.assoc)
    then show ?thesis by simp
  qed
  moreover have "base AND 0x300 = base" using assms(2) by auto
  ultimately show ?thesis by (simp add: bit.conj_disj_distrib2)
qed

lemma cfm_type:
  assumes "proc \<le> PROCEDURE_ID_MAX" "base = DELAY_COMPLETE_CFM \<or> base = DELAY_CANCEL_CFM"
  shows "MESSAGE_ID_TO_DELAY_CFM_TYPE (PROC_ID_TO_DELAY_CFM_MESSAGE_ID proc base) = base"
  using proc_id_bits [OF assms(1), of base] assms(2)
  by (auto simp: MESSAGE_ID_TO_DELAY_CFM_TYPE_def PROC_ID_TO_DELAY_CFM_MESSAGE_ID_def
    DELAY_COMPLETE_CFM_def DELAY_CANCEL_CFM_def)

lemma cfm_id_inj:
  assumes "p \<le> PROCEDURE_ID_MAX" "q \<le> PROCEDURE_ID_MAX"
    "b = DELAY_COMPLETE_CFM \<or> b = DELAY_CANCEL_CFM" "c = DELAY_COMPLETE_CFM \<or> c = DELAY_CANCEL_CFM"
  shows "PROC_ID_TO_DELAY_CFM_MESSAGE_ID p b = PROC_ID_TO_DELAY_CFM_MESSAGE_ID q c \<longleftrightarrow> p = q \<and> b = c"
  using cfm_type [OF assms(1,3)] cfm_type [OF assms(2,4)]
  by (auto simp: PROC_ID_TO_DELAY_CFM_MESSAGE_ID_def)

lemma cfm_id_not_combinable:
  assumes "p \<le> PROCEDURE_ID_MAX" "b = DELAY_COMPLETE_CFM \<or> b = DELAY_CANCEL_CFM"
  shows "\<not> combinable (PROC_ID_TO_DELAY_CFM_MESSAGE_ID p b)"
proof -
  have "MESSAGE_ID_TO_DELAY_CFM_TYPE i = 0" if "combinable i" for i
    using that by (auto simp: combinable_def system_message_ids MESSAGE_ID_TO_DELAY_CFM_TYPE_def
      DELAY_COMPLETE_CFM_def DELAY_CANCEL_CFM_def)
  then show ?thesis using cfm_type [OF assms] assms(2)
    by (auto simp: DELAY_COMPLETE_CFM_def DELAY_CANCEL_CFM_def)
qed

text \<open>
  A delayed confirmation reaches its callback: for every procedure id up to the highest, the
  message that is posted for a completion or a cancellation is one the handler recognises, with the id
  of no other procedure or kind, and handling it calls the function given, with the procedure and
  the result given.
\<close>
lemma delayed_cfm_roundtrip:
  assumes "proc \<le> PROCEDURE_ID_MAX" "q \<le> PROCEDURE_ID_MAX"
  shows "Procedures_DelayCfmHandleMessage (PROC_ID_TO_DELAY_CFM_MESSAGE_ID proc DELAY_COMPLETE_CFM)
        (DELAY_COMPLETE_CFM_T fn proc result) = Some (fn, proc, result)
    \<and> Procedures_DelayCfmHandleMessage (PROC_ID_TO_DELAY_CFM_MESSAGE_ID proc DELAY_CANCEL_CFM)
        (DELAY_CANCEL_CFM_T fn proc result) = Some (fn, proc, result)
    \<and> PROC_ID_TO_DELAY_CFM_MESSAGE_ID proc DELAY_COMPLETE_CFM
        \<noteq> PROC_ID_TO_DELAY_CFM_MESSAGE_ID q DELAY_CANCEL_CFM
    \<and> (\<forall>b. PROC_ID_TO_DELAY_CFM_MESSAGE_ID proc b = PROC_ID_TO_DELAY_CFM_MESSAGE_ID q b \<longrightarrow> proc = q)"
  using cfm_type [OF assms(1)] cfm_id_inj [OF assms]
  by (simp add: Procedures_DelayCfmHandleMessage_def DELAY_COMPLETE_CFM_def DELAY_CANCEL_CFM_def
    PROC_ID_TO_DELAY_CFM_MESSAGE_ID_def)

theorem delayed_cfm_roundtrip_witness:
  "Procedures_DelayCfmHandleMessage (PROC_ID_TO_DELAY_CFM_MESSAGE_ID 0xFF DELAY_CANCEL_CFM)
     (DELAY_CANCEL_CFM_T (5 :: nat) 0xFF procedure_result_failed) = Some (5, 0xFF, procedure_result_failed)"
  using delayed_cfm_roundtrip [of "0xFF" 0 "5 :: nat" procedure_result_failed] by (simp add: PROCEDURE_ID_MAX_def)

lemma MessageSend_mb: "MessageSend now t i m s = mb_send t i (now, m, D_IMMEDIATE, None) s"
  by (simp add: MessageSend_def mb_send_def)

text \<open>
  After a delayed cancel confirmation no completion of the cancelled procedure can arrive any
  more: the completions of the procedure that were in flight are gone from the queue, its cancel
  confirmation is posted once more, and what is pending for any other procedure, and for any other
  task, is as it was.
\<close>
lemma delayed_cancel_discards_completion:
  assumes "proc \<le> PROCEDURE_ID_MAX" "t \<noteq> INVALIDATED_TASK" "u \<noteq> INVALIDATED_TASK"
  shows "\<exists>s'. Procedures_DelayedCancelCfmCallback now addr t fn proc result s = Some s' \<and>
    posted_ids u s' =
      (if u = t then
         add_mset (PROC_ID_TO_DELAY_CFM_MESSAGE_ID proc DELAY_CANCEL_CFM)
           (filter_mset (\<lambda>j. j \<noteq> PROC_ID_TO_DELAY_CFM_MESSAGE_ID proc DELAY_COMPLETE_CFM) (posted_ids u s))
       else posted_ids u s)"
proof -
  let ?cancel = "PROC_ID_TO_DELAY_CFM_MESSAGE_ID proc DELAY_CANCEL_CFM"
  let ?comp = "PROC_ID_TO_DELAY_CFM_MESSAGE_ID proc DELAY_COMPLETE_CFM"
  let ?d = "(now, Some (addr, App (DELAY_CANCEL_CFM_T fn proc result)), D_IMMEDIATE, None)"
  have nc: "\<not> combinable ?cancel" using cfm_id_not_combinable [OF assms(1)] by simp
  have ne: "?cancel \<noteq> ?comp"
    using cfm_id_inj [OF assms(1,1), of DELAY_CANCEL_CFM DELAY_COMPLETE_CFM]
    by (simp add: DELAY_CANCEL_CFM_def DELAY_COMPLETE_CFM_def)
  obtain s1 where s1: "mb_send t ?cancel ?d s = Some s1"
    "posted_ids u s1 = (if u = t then add_mset ?cancel (posted_ids u s) else posted_ids u s)"
    using mq.send_posted [of t u ?cancel ?d s] nc assms by auto
  obtain s2 where s2: "mb_cancel t ?comp s1 = Some s2"
    "posted_ids u s2 = (if u = t then filter_mset (\<lambda>j. j \<noteq> ?comp) (posted_ids u s1) else posted_ids u s1)"
    using mq.cancel_posted [of t u ?comp s1] assms by auto
  have "Procedures_DelayedCancelCfmCallback now addr t fn proc result s = Some s2"
    using assms(1) s1(1) s2(1)
    by (auto simp: Procedures_DelayedCancelCfmCallback_def MessageSend_mb mb_cancel_def PanicFalse_def)
  moreover have "posted_ids u s2 = (if u = t then add_mset ?cancel
      (filter_mset (\<lambda>j. j \<noteq> ?comp) (posted_ids u s)) else posted_ids u s)"
    unfolding s2(2) s1(2) using ne by (cases "u = t") simp_all
  ultimately show ?thesis by blast
qed

theorem delayed_cancel_discards_completion_witness:
  "\<exists>s'. Procedures_DelayedCancelCfmCallback 0 100 7 (1 :: nat) 3 procedure_result_success
      \<lparr>vm_message_queue = [plain_msg 7 0x103 5, plain_msg 7 0x104 5], vm_delivered_messages = [],
       sched_event_pending = False, put_message_ok = True, registered_hdlrs = [],
       sink_source_hdlrs = [], run_timer = None\<rparr> = Some s' \<and> posted_ids 7 s' = {#0x203, 0x104#}"
proof -
  let ?s = "\<lparr>vm_message_queue = [plain_msg 7 0x103 5, plain_msg 7 0x104 5], vm_delivered_messages = [],
       sched_event_pending = False, put_message_ok = True, registered_hdlrs = [],
       sink_source_hdlrs = [], run_timer = None\<rparr> :: nat delay_cfm vm"
  have p: "posted_ids 7 ?s = {#0x103, 0x104#}"
    by (simp add: posted_ids_def addressed_to_def plain_msg_def)
  have "(3 :: procedure_id) \<le> PROCEDURE_ID_MAX" by (simp add: PROCEDURE_ID_MAX_def)
  moreover have "(7 :: task) \<noteq> INVALIDATED_TASK" by (simp add: INVALIDATED_TASK_def)
  ultimately show ?thesis
    using delayed_cancel_discards_completion [of 3 7 7 0 100 1 procedure_result_success ?s] p
    by (simp add: PROC_ID_TO_DELAY_CFM_MESSAGE_ID_def DELAY_CANCEL_CFM_def DELAY_COMPLETE_CFM_def)
qed

end
