(* ===== verification/ScriptEngine.thy ===== *)
theory ScriptEngine
  imports Procedures
begin

text \<open>
  The script engine, \<open>topologies/common/script_engine/script_engine.c\<close>: it runs the procedures of
  a script one after another for the goals engine. The start and cancel functions of the
  procedures ('p) and the callbacks of the client ('f) are outside; a call to one of them is an
  output. A procedure must not call back from within its start or cancel function
  (\<open>procedures.h\<close>), and the engine has finished its own update when it calls the client, so the answers
  are later inputs. Panics are \<open>None\<close>.
\<close>

section \<open>Data\<close>

datatype script_engine_state = script_engine_idle | script_engine_active | script_engine_cancelling

record ('p, 'd) procedure_script =
  script_procs :: "'p list"
  script_procs_data :: "'d list"
  script_proc_list_size :: nat

record ('p, 'd, 'f) script_engine =
  se_state :: script_engine_state
  next_step :: nat
  se_script :: "('p, 'd) procedure_script option"
  se_proc :: procedure_id
  script_client :: task
  se_start_fn :: "'f option"
  se_complete_fn :: "'f option"
  se_cancel_fn :: "'f option"

datatype ('p, 'd, 'f) se_call =
    Proc_start 'p task 'd
  | Proc_cancel 'p
  | Client_complete 'f procedure_id procedure_result
  | Client_cancelled 'f procedure_id procedure_result

type_synonym ('p, 'd, 'f) se_result = "(('p, 'd, 'f) se_call list \<times> ('p, 'd, 'f) script_engine) option"

section \<open>Operations\<close>

definition scriptEngine_EngineReset :: "('p, 'd, 'f) script_engine \<Rightarrow> ('p, 'd, 'f) script_engine" where
  "scriptEngine_EngineReset td = td\<lparr>se_state := script_engine_idle, next_step := 0, se_script := None\<rparr>"

text \<open>\<open>td->complete_fn(td->proc, result)\<close>; a NULL function pointer faults.\<close>

definition call_complete :: "procedure_result \<Rightarrow> ('p, 'd, 'f) script_engine \<Rightarrow> ('p, 'd, 'f) se_result" where
  "call_complete result td = do { f \<leftarrow> se_complete_fn td; Some ([Client_complete f (se_proc td) result], td) }"

definition scriptEngine_StartCurrentStep :: "('p, 'd, 'f) script_engine \<Rightarrow> ('p, 'd, 'f) se_result" where
  "scriptEngine_StartCurrentStep td =
     do {
       script \<leftarrow> se_script td;
       if next_step td < script_proc_list_size script then
         (if next_step td < length (script_procs script) \<and> next_step td < length (script_procs_data script)
          then Some ([Proc_start (script_procs script ! next_step td) (script_client td)
                        (script_procs_data script ! next_step td)], td)
          else None)
       else if next_step td = script_proc_list_size script then
         call_complete procedure_result_success (scriptEngine_EngineReset td)
       else None
     }"

definition scriptEngine_ProcStartCfm ::
  "procedure_id \<Rightarrow> procedure_result \<Rightarrow> ('p, 'd, 'f) script_engine \<Rightarrow> ('p, 'd, 'f) se_result" where
  "scriptEngine_ProcStartCfm proc result td =
     (if result \<noteq> procedure_result_success then None else Some ([], td))"

definition scriptEngine_ProcCompleteCfm ::
  "procedure_id \<Rightarrow> procedure_result \<Rightarrow> ('p, 'd, 'f) script_engine \<Rightarrow> ('p, 'd, 'f) se_result" where
  "scriptEngine_ProcCompleteCfm proc result td =
     (if se_state td = script_engine_active then
        (case result of
           procedure_result_success \<Rightarrow>
             scriptEngine_StartCurrentStep (td\<lparr>next_step := next_step td + 1\<rparr>)
         | procedure_result_timeout \<Rightarrow> call_complete procedure_result_timeout (scriptEngine_EngineReset td)
         | procedure_result_failed \<Rightarrow> call_complete procedure_result_failed (scriptEngine_EngineReset td))
      else Some ([], td))"

definition scriptEngine_ProcCancelCfm ::
  "procedure_id \<Rightarrow> procedure_result \<Rightarrow> ('p, 'd, 'f) script_engine \<Rightarrow> ('p, 'd, 'f) se_result" where
  "scriptEngine_ProcCancelCfm proc result td =
     do {
       PanicFalse (se_state td = script_engine_cancelling);
       let td = scriptEngine_EngineReset td;
       f \<leftarrow> se_cancel_fn td;
       Some ([Client_cancelled f (se_proc td) result], td)
     }"

definition ScriptEngine_StartScript ::
  "task \<Rightarrow> ('p, 'd) procedure_script \<Rightarrow> procedure_id \<Rightarrow> 'f \<Rightarrow> 'f \<Rightarrow> ('p, 'd, 'f) script_engine
   \<Rightarrow> ('p, 'd, 'f) se_result" where
  "ScriptEngine_StartScript client_task script proc proc_start_cfm_fn proc_complete_fn td =
     do {
       PanicFalse (se_state td = script_engine_idle);
       scriptEngine_StartCurrentStep
         (td\<lparr>se_start_fn := Some proc_start_cfm_fn, se_complete_fn := Some proc_complete_fn,
             se_proc := proc, script_client := client_task,
             se_state := script_engine_active, next_step := 0, se_script := Some script\<rparr>)
     }"

text \<open>The first component is what \<open>ScriptEngine_CancelScript\<close> returns.\<close>

definition ScriptEngine_CancelScript ::
  "task \<Rightarrow> 'f \<Rightarrow> ('p, 'd, 'f) script_engine
   \<Rightarrow> (bool \<times> ('p, 'd, 'f) se_call list \<times> ('p, 'd, 'f) script_engine) option" where
  "ScriptEngine_CancelScript client proc_cancel_cfm_fn td =
     do {
       PanicFalse (script_client td = client);
       if se_state td \<noteq> script_engine_active then Some (False, [], td)
       else do {
         let td = td\<lparr>se_state := script_engine_cancelling, se_cancel_fn := Some proc_cancel_cfm_fn\<rparr>;
         script \<leftarrow> se_script td;
         if next_step td < length (script_procs script)
         then Some (True, [Proc_cancel (script_procs script ! next_step td)], td) else None
       }
     }"

section \<open>Reachable states\<close>

text \<open>The script tables of \<open>DEFINE_TOPOLOGY_SCRIPT\<close>: both arrays have the length that is declared.\<close>

definition script_ok :: "('p, 'd) procedure_script \<Rightarrow> bool" where
  "script_ok s = (length (script_procs s) = script_proc_list_size s
     \<and> length (script_procs_data s) = script_proc_list_size s)"

definition se_initial :: "('p, 'd, 'f) script_engine" where
  "se_initial = \<lparr>se_state = script_engine_idle, next_step = 0, se_script = None, se_proc = 0,
     script_client = NULL_TASK, se_start_fn = None, se_complete_fn = None, se_cancel_fn = None\<rparr>"

text \<open>
  One step of the engine with the calls it makes. A script is started when none is running; the
  client that cancels is the one that started; a cancellation is confirmed when one is under way;
  completions may come at any time.
\<close>

inductive se_step ::
  "('p, 'd, 'f) script_engine \<Rightarrow> ('p, 'd, 'f) se_call list \<Rightarrow> ('p, 'd, 'f) script_engine \<Rightarrow> bool" where
  start: "ScriptEngine_StartScript t script proc f g td = Some (calls, td') \<Longrightarrow> script_ok script
    \<Longrightarrow> se_step td calls td'"
| cancel: "ScriptEngine_CancelScript t f td = Some (b, calls, td') \<Longrightarrow> se_step td calls td'"
| complete: "scriptEngine_ProcCompleteCfm proc result td = Some (calls, td') \<Longrightarrow> se_step td calls td'"
| started: "scriptEngine_ProcStartCfm proc result td = Some (calls, td') \<Longrightarrow> se_step td calls td'"
| cancelled: "scriptEngine_ProcCancelCfm proc result td = Some (calls, td') \<Longrightarrow> se_step td calls td'"

inductive se_reachable :: "('p, 'd, 'f) script_engine \<Rightarrow> bool" where
  initial: "se_reachable se_initial"
| step: "se_reachable td \<Longrightarrow> se_step td calls td' \<Longrightarrow> se_reachable td'"

inductive_cases se_stepE: "se_step td calls td'"

definition se_inv :: "('p, 'd, 'f) script_engine \<Rightarrow> bool" where
  "se_inv td =
     (case se_state td of
        script_engine_idle \<Rightarrow> next_step td = 0 \<and> se_script td = None
      | _ \<Rightarrow> se_complete_fn td \<noteq> None \<and> (case se_script td of None \<Rightarrow> False
             | Some s \<Rightarrow> script_ok s \<and> next_step td < script_proc_list_size s)
           \<and> (se_state td = script_engine_cancelling \<longrightarrow> se_cancel_fn td \<noteq> None))"

lemmas se_defs = scriptEngine_EngineReset_def call_complete_def scriptEngine_StartCurrentStep_def
  scriptEngine_ProcStartCfm_def scriptEngine_ProcCompleteCfm_def scriptEngine_ProcCancelCfm_def
  ScriptEngine_StartScript_def ScriptEngine_CancelScript_def

lemma se_step_inv: "se_step td calls td' \<Longrightarrow> se_inv td \<Longrightarrow> se_inv td'"
  by (erule se_stepE)
    (auto simp: se_defs se_inv_def script_ok_def Let_def bind_eq_Some_conv
      split: if_splits option.splits script_engine_state.splits procedure_result.splits)

lemma se_reachable_inv: "se_reachable td \<Longrightarrow> se_inv td"
proof (induction rule: se_reachable.induct)
  case initial
  then show ?case by (simp add: se_inv_def se_initial_def)
next
  case step
  then show ?case using se_step_inv by blast
qed

section \<open>Properties\<close>

text \<open>
  C9: The engine never runs past the end of a script nor loses its client: in every reachable state
  a completion with any result, a successful start confirmation, a cancellation by the client that
  started the script, the confirmation of a cancellation under way, and the start of a script when
  none is running all return; none of them panics or reads outside the tables of the script.
\<close>
theorem script_engine_never_panics:
  assumes "se_reachable td"
  shows "scriptEngine_ProcCompleteCfm proc result td \<noteq> None \<and>
    scriptEngine_ProcStartCfm proc procedure_result_success td \<noteq> None \<and>
    ScriptEngine_CancelScript (script_client td) f td \<noteq> None \<and>
    (se_state td = script_engine_cancelling \<longrightarrow> scriptEngine_ProcCancelCfm proc result td \<noteq> None) \<and>
    (se_state td = script_engine_idle \<and> script_ok script \<longrightarrow>
       ScriptEngine_StartScript t script proc f g td \<noteq> None)"
  using se_reachable_inv [OF assms]
  by (auto simp: se_defs se_inv_def script_ok_def Let_def
    split: option.splits script_engine_state.splits procedure_result.splits)

definition script_ab :: "(string, nat) procedure_script" where
  "script_ab = \<lparr>script_procs = [''a'', ''b''], script_procs_data = [10, 20], script_proc_list_size = 2\<rparr>"

theorem script_engine_never_panics_witness:
  "ScriptEngine_StartScript 5 script_ab 1 (0 :: nat) 1 se_initial \<noteq> None"
proof -
  have i: "se_state se_initial = script_engine_idle \<and> script_ok script_ab"
    by (simp add: se_initial_def script_ok_def script_ab_def)
  have r: "se_reachable (se_initial :: (string, nat, nat) script_engine)" by (rule se_reachable.initial)
  from script_engine_never_panics [OF r, THEN conjunct2, THEN conjunct2, THEN conjunct2, THEN conjunct2] i
  show ?thesis by blast
qed


text \<open>Feeding the engine the completions one by one.\<close>

fun feed ::
  "(procedure_id \<times> procedure_result) list \<Rightarrow> ('p, 'd, 'f) script_engine \<Rightarrow> ('p, 'd, 'f) se_result" where
  "feed [] td = Some ([], td)"
| "feed ((proc, r) # rs) td =
     do {
       (calls, td1) \<leftarrow> scriptEngine_ProcCompleteCfm proc r td;
       (calls', td2) \<leftarrow> feed rs td1;
       Some (calls @ calls', td2)
     }"

lemma feed_idle: "se_state td \<noteq> script_engine_active \<Longrightarrow> feed rs td = Some ([], td)"
  by (induction rs) (auto simp: scriptEngine_ProcCompleteCfm_def)




text \<open>
  Cancelling stops the script at once: when a running script is cancelled by its client, only
  the procedure being run is cancelled; whatever completions still arrive start nothing, and the
  confirmation of the cancellation is passed to the client as its one and only report, with the
  engine idle.
\<close>
lemma cancelled_script_starts_nothing:
  assumes "se_reachable td" "se_state td = script_engine_active"
  shows "\<exists>td1 script. ScriptEngine_CancelScript (script_client td) f td
      = Some (True, [Proc_cancel (script_procs script ! next_step td)], td1)
    \<and> se_script td = Some script \<and> feed rs td1 = Some ([], td1)
    \<and> (\<exists>td2. scriptEngine_ProcCancelCfm proc result td1
         = Some ([Client_cancelled f (se_proc td) result], td2) \<and> se_state td2 = script_engine_idle)"
proof -
  obtain script where s: "se_script td = Some script" "script_ok script"
    "next_step td < script_proc_list_size script"
    using se_reachable_inv [OF assms(1)] assms(2) by (auto simp: se_inv_def split: option.splits)
  let ?td = "td\<lparr>se_state := script_engine_cancelling, se_cancel_fn := Some f\<rparr>"
  have "feed rs ?td = Some ([], ?td)" by (rule feed_idle) simp
  then show ?thesis using s assms(2) by (simp add: se_defs script_ok_def Let_def)
qed

theorem cancelled_script_starts_nothing_witness:
  "\<exists>calls td td1. ScriptEngine_StartScript 5 script_ab 1 (0 :: nat) 1 se_initial = Some (calls, td)
    \<and> ScriptEngine_CancelScript (script_client td) 9 td = Some (True, [Proc_cancel ''a''], td1)
    \<and> feed [(1, procedure_result_success)] td1 = Some ([], td1)"
proof -
  obtain calls td where st: "ScriptEngine_StartScript 5 script_ab 1 (0 :: nat) 1 se_initial = Some (calls, td)"
    "se_state td = script_engine_active" "next_step td = 0" "se_script td = Some script_ab"
    by (auto simp: se_defs script_ab_def se_initial_def)
  have "script_ok script_ab" by (simp add: script_ok_def script_ab_def)
  with st(1) have "se_reachable td" by (blast intro: se_reachable.intros se_step.intros)
  from cancelled_script_starts_nothing [OF this st(2), of 9 "[(1, procedure_result_success)]"] st
  show ?thesis by (auto simp: script_ab_def)
qed

end
