(* ===== verification/GoalsEngine.thy ===== *)
theory GoalsEngine
  imports RulesEngine ScriptEngine
begin

text \<open>
  The goals engine, \<open>topologies/common/goals_engine/goals_engine.c\<close>: it runs the procedure of a goal
  when the contention rules allow it and otherwise keeps the decision as a conditional message to its own
  queue task, blocked by a lock in one of eight slots. The state holds the goal set, the message
  scheduler and the calls made to procedures and to the script engine, oldest first.
  \<open>sync g\<close> says that cancelling goal \<open>g\<close> is confirmed before the cancel function returns, in
  which case the client has cleared the goal by then; \<open>now\<close> and \<open>addr\<close> are the clock and the
  address of a copied message. Panics and accesses outside the goal table are \<open>None\<close>.
\<close>

section \<open>Data\<close>

type_synonym goal_id = nat
type_synonym goal_mask = u64

definition GOAL_ID_NONE :: goal_id where "GOAL_ID_NONE = 0"
definition GOAL_ID_MIN :: nat where "GOAL_ID_MIN = 1"
definition GOAL_ID_MAX :: nat where "GOAL_ID_MAX = 63"
definition GOAL_MASK_NONE :: goal_mask where "GOAL_MASK_NONE = 0"

datatype goal_contention = goal_contention_wait | goal_contention_cancel | goal_contention_concurrent

record ('p, 's) goal_entry =
  goal_proc :: procedure_id
  goal_contention :: goal_contention
  exclusive_goal :: goal_id
  success_event :: rule_events
  timeout_event :: rule_events
  failed_event :: rule_events
  proc_fns :: "'p option"
  proc_script :: "'s option"
  concurrent_goals :: "goal_id list option"

record pending_goal_entry =
  pg_id :: goal_id
  pg_rule_id :: message_id
  pg_lock :: u16
  pg_lock_mask :: goal_mask

datatype ('p, 's, 'm) ge_call =
    Call_start_script 's procedure_id
  | Call_start_proc 'p "'m msg_data option"
  | Call_cancel_script
  | Call_cancel_proc 'p

record ('p, 's, 'm) goal_set =
  gs_goals :: "('p, 's) goal_entry list"
  proc_result_task :: task
  active_goals_mask :: goal_mask
  queue_task :: task
  queue_msg_count :: u8
  queue_msg_count_max :: u8
  pending_goals :: "pending_goal_entry list"
  pending_goals_addr :: nat
  gs_vm :: "'m vm"
  gs_calls :: "('p, 's, 'm) ge_call list"

definition GOAL_MASK :: "goal_id \<Rightarrow> goal_mask" where
  "GOAL_MASK i = push_bit i 1"

definition REMOVE_GOAL_FROM_MASK :: "goal_mask \<Rightarrow> goal_id \<Rightarrow> goal_mask" where
  "REMOVE_GOAL_FROM_MASK m goal = m AND NOT (GOAL_MASK goal)"

definition GOAL_LOCK_MASK_BIT :: u16 where "GOAL_LOCK_MASK_BIT = 1"

definition SET_LOCK_FROM_MASK :: "pending_goal_entry \<Rightarrow> pending_goal_entry" where
  "SET_LOCK_FROM_MASK e =
     e\<lparr>pg_lock := (if pg_lock_mask e \<noteq> GOAL_MASK_NONE then GOAL_LOCK_MASK_BIT else 0)\<rparr>"

definition INITIAL_GOAL_QUEUE_COUNT :: nat where "INITIAL_GOAL_QUEUE_COUNT = 8"

definition empty_entry :: pending_goal_entry where
  "empty_entry = \<lparr>pg_id = 0, pg_rule_id = 0, pg_lock = 0, pg_lock_mask = 0\<rparr>"

text \<open>The address of the lock of a slot: entries of 16 bytes with the lock at offset 4.\<close>

definition lock_address :: "('p, 's, 'm) goal_set \<Rightarrow> nat \<Rightarrow> nat" where
  "lock_address gs i = pending_goals_addr gs + 16 * i + 4"

definition goal_at :: "('p, 's, 'm) goal_set \<Rightarrow> goal_id \<Rightarrow> ('p, 's) goal_entry option" where
  "goal_at gs g = (if g < length (gs_goals gs) then Some (gs_goals gs ! g) else None)"

definition log_call :: "('p, 's, 'm) ge_call \<Rightarrow> ('p, 's, 'm) goal_set \<Rightarrow> ('p, 's, 'm) goal_set" where
  "log_call c gs = gs\<lparr>gs_calls := gs_calls gs @ [c]\<rparr>"

section \<open>Utility functions\<close>

definition goalsEngine_ValidateInitParams :: "('p, 's) goal_entry list \<Rightarrow> bool" where
  "goalsEngine_ValidateInitParams goals = (GOAL_ID_MIN \<le> length goals \<and> length goals \<le> GOAL_ID_MAX)"

definition GoalsEngine_FindGoalForProcedure ::
  "('p, 's, 'm) goal_set \<Rightarrow> procedure_id \<Rightarrow> goal_id option" where
  "GoalsEngine_FindGoalForProcedure gs proc =
     find (\<lambda>i. goal_proc (gs_goals gs ! i) = proc) [1 ..< length (gs_goals gs)]"

text \<open>The loop of \<open>goalsEngine_FirstGoalFromMask\<close>; without end when no bit above bit 0 is set.\<close>

partial_function (option) first_goal_loop :: "goal_id \<Rightarrow> goal_mask \<Rightarrow> goal_id option" where
  "first_goal_loop goal m =
     (let goal = goal + 1; m = drop_bit 1 m
      in if \<not> bit m 0 then first_goal_loop goal m else Some goal)"

definition goalsEngine_FirstGoalFromMask :: "('p, 's, 'm) goal_set \<Rightarrow> goal_mask \<Rightarrow> goal_id option" where
  "goalsEngine_FirstGoalFromMask gs m =
     do {
       PanicFalse (m \<noteq> 0);
       goal \<leftarrow> first_goal_loop GOAL_ID_NONE m;
       PanicFalse (goal < length (gs_goals gs));
       Some goal
     }"

definition goalsEngine_IsScriptedGoal :: "('p, 's) goal_entry \<Rightarrow> bool" where
  "goalsEngine_IsScriptedGoal g = (proc_script g \<noteq> None)"

definition goalsEngine_GoalCancelsActive :: "('p, 's) goal_entry \<Rightarrow> bool" where
  "goalsEngine_GoalCancelsActive g = (goal_contention g = goal_contention_cancel)"

definition goalsEngine_GoalRunsConcurrently :: "('p, 's) goal_entry \<Rightarrow> bool" where
  "goalsEngine_GoalRunsConcurrently g = (goal_contention g = goal_contention_concurrent)"

section \<open>The queue\<close>

definition find_slot :: "goal_id \<Rightarrow> pending_goal_entry list \<Rightarrow> nat option" where
  "find_slot g ps = find (\<lambda>i. pg_id (ps ! i) = g) [0 ..< length ps]"

definition goalsEngine_QueueGoal ::
  "u32 \<Rightarrow> nat \<Rightarrow> message_id \<Rightarrow> 'm msg_data option \<Rightarrow> goal_mask \<Rightarrow> goal_id
   \<Rightarrow> ('p, 's, 'm) goal_set \<Rightarrow> ('p, 's, 'm) goal_set option" where
  "goalsEngine_QueueGoal now addr rule_id goal_data wait_mask new_goal gs =
     do {
       i \<leftarrow> (case find_slot new_goal (pending_goals gs) of
               Some i \<Rightarrow> Some i
             | None \<Rightarrow> find_slot GOAL_ID_NONE (pending_goals gs));
       let entry = (SET_LOCK_FROM_MASK ((pending_goals gs ! i)\<lparr>pg_lock_mask := wait_mask\<rparr>))
                     \<lparr>pg_rule_id := rule_id, pg_id := new_goal\<rparr>;
       vm \<leftarrow> MessageSendConditionally now (queue_task gs) rule_id
               (map_option (\<lambda>(_, d). (addr, d)) goal_data) (Some (lock_address gs i)) (gs_vm gs);
       let cnt = queue_msg_count gs + 1;
       Some (gs\<lparr>pending_goals := (pending_goals gs)[i := entry], gs_vm := vm, queue_msg_count := cnt,
               queue_msg_count_max := (if cnt > queue_msg_count_max gs then cnt else queue_msg_count_max gs)\<rparr>)
     }"

definition goalsEngine_DequeGoal ::
  "goal_id \<Rightarrow> ('p, 's, 'm) goal_set \<Rightarrow> ('p, 's, 'm) goal_set option" where
  "goalsEngine_DequeGoal goal gs =
     (case find_slot goal (pending_goals gs) of
        None \<Rightarrow> Some gs
      | Some i \<Rightarrow>
          do {
            (n, vm) \<leftarrow> MessageCancelAll (queue_task gs) (pg_rule_id (pending_goals gs ! i)) (gs_vm gs);
            Some (gs\<lparr>gs_vm := vm, queue_msg_count := queue_msg_count gs - ucast n,
                     pending_goals := (pending_goals gs)[i := empty_entry]\<rparr>)
          })"

definition goalsEngine_GoalQueueSize :: "('p, 's, 'm) goal_set \<Rightarrow> u8" where
  "goalsEngine_GoalQueueSize gs = queue_msg_count gs"

definition goalsEngine_ResetPendingQueueIfEmpty ::
  "('p, 's, 'm) goal_set \<Rightarrow> ('p, 's, 'm) goal_set" where
  "goalsEngine_ResetPendingQueueIfEmpty gs =
     (if goalsEngine_GoalQueueSize gs = 0
      then gs\<lparr>pending_goals := replicate (length (pending_goals gs)) empty_entry\<rparr> else gs)"

definition goalsEngine_ClearPendingGoalsQueue ::
  "('p, 's, 'm) goal_set \<Rightarrow> ('p, 's, 'm) goal_set" where
  "goalsEngine_ClearPendingGoalsQueue gs =
     goalsEngine_ResetPendingQueueIfEmpty
       (gs\<lparr>gs_vm := snd (MessageFlushTask (queue_task gs) (gs_vm gs)), queue_msg_count := 0\<rparr>)"

section \<open>Goals\<close>

definition goalsEngine_GoalCanRunNow :: "('p, 's, 'm) goal_set \<Rightarrow> bool \<Rightarrow> bool" where
  "goalsEngine_GoalCanRunNow gs is_new_goal =
     (active_goals_mask gs = GOAL_MASK_NONE \<and> (goalsEngine_GoalQueueSize gs = 0 \<or> \<not> is_new_goal))"

definition GoalsEngine_IsGoalActive :: "('p, 's, 'm) goal_set \<Rightarrow> goal_id \<Rightarrow> bool" where
  "GoalsEngine_IsGoalActive gs goal = (active_goals_mask gs AND GOAL_MASK goal = GOAL_MASK goal)"

definition GoalsEngine_IsGoalQueued :: "('p, 's, 'm) goal_set \<Rightarrow> goal_id \<Rightarrow> bool" where
  "GoalsEngine_IsGoalQueued gs goal = list_ex (\<lambda>e. pg_id e = goal) (pending_goals gs)"

definition GoalsEngine_IsAnyGoalPending :: "('p, 's, 'm) goal_set \<Rightarrow> bool" where
  "GoalsEngine_IsAnyGoalPending gs = (queue_msg_count gs \<noteq> 0)"

definition GoalsEngine_ClearGoal ::
  "('p, 's, 'm) goal_set \<Rightarrow> goal_id \<Rightarrow> ('p, 's, 'm) goal_set" where
  "GoalsEngine_ClearGoal gs goal =
     gs\<lparr>active_goals_mask := REMOVE_GOAL_FROM_MASK (active_goals_mask gs) goal,
        pending_goals := map (\<lambda>e. if pg_id e \<noteq> GOAL_ID_NONE
            then SET_LOCK_FROM_MASK (e\<lparr>pg_lock_mask := REMOVE_GOAL_FROM_MASK (pg_lock_mask e) goal\<rparr>)
            else e) (pending_goals gs)\<rparr>"

definition goalsEngine_CancelGoal ::
  "(goal_id \<Rightarrow> bool) \<Rightarrow> goal_id \<Rightarrow> ('p, 's, 'm) goal_set \<Rightarrow> ('p, 's, 'm) goal_set option" where
  "goalsEngine_CancelGoal sync cancel_goal gs =
     do {
       g \<leftarrow> goal_at gs cancel_goal;
       gs1 \<leftarrow> (if goalsEngine_IsScriptedGoal g then Some (log_call Call_cancel_script gs)
               else do { p \<leftarrow> proc_fns g; Some (log_call (Call_cancel_proc p) gs) });
       Some (if sync cancel_goal then GoalsEngine_ClearGoal gs1 cancel_goal else gs1)
     }"

text \<open>The new wait mask is returned with the state.\<close>

definition goalsEngine_HandleExclusiveGoals ::
  "(goal_id \<Rightarrow> bool) \<Rightarrow> goal_id \<Rightarrow> goal_mask \<Rightarrow> ('p, 's, 'm) goal_set
   \<Rightarrow> (bool \<times> goal_mask \<times> ('p, 's, 'm) goal_set) option" where
  "goalsEngine_HandleExclusiveGoals sync new_goal wait_mask gs =
     do {
       g \<leftarrow> goal_at gs new_goal;
       let exclusive = exclusive_goal g;
       if exclusive \<noteq> GOAL_ID_NONE \<and> exclusive < length (gs_goals gs)
          \<and> GoalsEngine_IsGoalActive gs exclusive
       then do {
         gs1 \<leftarrow> goalsEngine_DequeGoal exclusive gs;
         gs2 \<leftarrow> goalsEngine_CancelGoal sync exclusive gs1;
         Some (True, if \<not> GoalsEngine_IsGoalActive gs2 exclusive
                     then REMOVE_GOAL_FROM_MASK wait_mask exclusive else wait_mask, gs2)
       }
       else Some (False, wait_mask, gs)
     }"

partial_function (option) cancel_active_loop ::
  "(goal_id \<Rightarrow> bool) \<Rightarrow> goal_mask \<Rightarrow> ('p, 's, 'm) goal_set \<Rightarrow> ('p, 's, 'm) goal_set option" where
  "cancel_active_loop sync working_cancel_mask gs =
     (if working_cancel_mask \<noteq> 0 then
        do {
          goal \<leftarrow> goalsEngine_FirstGoalFromMask gs working_cancel_mask;
          gs1 \<leftarrow> goalsEngine_CancelGoal sync goal gs;
          cancel_active_loop sync (REMOVE_GOAL_FROM_MASK working_cancel_mask goal) gs1
        }
      else Some gs)"

definition goalsEngine_CheckIfNewGoalCancelsActiveGoals ::
  "(goal_id \<Rightarrow> bool) \<Rightarrow> goal_id \<Rightarrow> goal_mask \<Rightarrow> ('p, 's, 'm) goal_set
   \<Rightarrow> (bool \<times> goal_mask \<times> ('p, 's, 'm) goal_set) option" where
  "goalsEngine_CheckIfNewGoalCancelsActiveGoals sync new_goal wait_mask gs =
     do {
       g \<leftarrow> goal_at gs new_goal;
       if goalsEngine_GoalCancelsActive g then
         do {
           gs1 \<leftarrow> cancel_active_loop sync (active_goals_mask gs) (goalsEngine_ClearPendingGoalsQueue gs);
           Some (True, active_goals_mask gs1, gs1)
         }
       else Some (False, wait_mask, gs)
     }"

definition goalsEngine_HandleDuplicateCancellationGoal ::
  "goal_id \<Rightarrow> ('p, 's, 'm) goal_set \<Rightarrow> (bool \<times> ('p, 's, 'm) goal_set) option" where
  "goalsEngine_HandleDuplicateCancellationGoal new_goal gs =
     do {
       g \<leftarrow> goal_at gs new_goal;
       if goalsEngine_GoalCancelsActive g \<and> GoalsEngine_IsGoalActive gs new_goal
       then Some (True, goalsEngine_ClearPendingGoalsQueue gs)
       else Some (False, gs)
     }"

definition goalsEngine_GetConcurrentGoalsMask :: "('p, 's) goal_entry \<Rightarrow> goal_mask" where
  "goalsEngine_GetConcurrentGoalsMask g =
     (case concurrent_goals g of
        None \<Rightarrow> 0
      | Some ids \<Rightarrow> fold (\<lambda>i m. m OR GOAL_MASK i) (takeWhile (\<lambda>i. i \<noteq> GOAL_ID_NONE) ids) 0)"

definition goalsEngine_HandleConcurrentGoals ::
  "goal_id \<Rightarrow> goal_mask \<Rightarrow> ('p, 's, 'm) goal_set \<Rightarrow> (bool \<times> goal_mask) option" where
  "goalsEngine_HandleConcurrentGoals new_goal wait_mask gs =
     do {
       g \<leftarrow> goal_at gs new_goal;
       Some (if goalsEngine_GoalRunsConcurrently g
             then (True, wait_mask AND NOT (goalsEngine_GetConcurrentGoalsMask g))
             else (False, wait_mask))
     }"

definition update_queue_entry ::
  "('p, 's, 'm) goal_set \<Rightarrow> pending_goal_entry \<Rightarrow> pending_goal_entry option" where
  "update_queue_entry gs e =
     (if pg_rule_id e \<noteq> 0 then
        do {
          g \<leftarrow> goal_at gs (pg_id e);
          let wait_mask = (if goal_contention g = goal_contention_concurrent
              then active_goals_mask gs AND NOT (goalsEngine_GetConcurrentGoalsMask g)
              else active_goals_mask gs);
          Some (if wait_mask \<noteq> pg_lock_mask e then SET_LOCK_FROM_MASK (e\<lparr>pg_lock_mask := wait_mask\<rparr>) else e)
        }
      else Some e)"

definition goalsEngine_UpdateQueueMasks ::
  "('p, 's, 'm) goal_set \<Rightarrow> ('p, 's, 'm) goal_set option" where
  "goalsEngine_UpdateQueueMasks gs =
     (if queue_msg_count gs \<noteq> 0 then
        map_option (\<lambda>ps. gs\<lparr>pending_goals := ps\<rparr>) (those (map (update_queue_entry gs) (pending_goals gs)))
      else Some gs)"

definition goalsEngine_StartGoal ::
  "goal_id \<Rightarrow> 'm msg_data option \<Rightarrow> ('p, 's, 'm) goal_set \<Rightarrow> ('p, 's, 'm) goal_set option" where
  "goalsEngine_StartGoal goal goal_data gs =
     do {
       g \<leftarrow> goal_at gs goal;
       let gs1 = gs\<lparr>active_goals_mask := active_goals_mask gs OR GOAL_MASK goal\<rparr>;
       gs2 \<leftarrow> (case proc_script g of
                 Some s \<Rightarrow> Some (log_call (Call_start_script s (goal_proc g)) gs1)
               | None \<Rightarrow> do { p \<leftarrow> proc_fns g; Some (log_call (Call_start_proc p goal_data) gs1) });
       goalsEngine_UpdateQueueMasks gs2
     }"

section \<open>Interface\<close>

definition GoalsEngine_CreateGoalSet ::
  "('p, 's) goal_entry list \<Rightarrow> task \<Rightarrow> task \<Rightarrow> nat \<Rightarrow> 'm vm \<Rightarrow> ('p, 's, 'm) goal_set option" where
  "GoalsEngine_CreateGoalSet goals pending_goal_queue_task result_task addr vm =
     do {
       PanicFalse (goalsEngine_ValidateInitParams goals);
       Some \<lparr>gs_goals = goals, proc_result_task = result_task, active_goals_mask = 0,
             queue_task = pending_goal_queue_task, queue_msg_count = 0, queue_msg_count_max = 0,
             pending_goals = replicate INITIAL_GOAL_QUEUE_COUNT empty_entry,
             pending_goals_addr = addr, gs_vm = vm, gs_calls = []\<rparr>
     }"

definition activate_contended ::
  "u32 \<Rightarrow> nat \<Rightarrow> (goal_id \<Rightarrow> bool) \<Rightarrow> bool \<Rightarrow> goal_id \<Rightarrow> message_id \<Rightarrow> 'm msg_data option
   \<Rightarrow> ('p, 's, 'm) goal_set \<Rightarrow> ('p, 's, 'm) goal_set option" where
  "activate_contended now addr sync is_new_goal new_goal rule_id goal_data gs =
     do {
       let wait_mask = active_goals_mask gs;
       (cancels, wait_mask, gs1) \<leftarrow>
         goalsEngine_CheckIfNewGoalCancelsActiveGoals sync new_goal wait_mask gs;
       if cancels then
         (if wait_mask = 0 \<and> goalsEngine_GoalCanRunNow gs1 is_new_goal
          then goalsEngine_StartGoal new_goal goal_data gs1
          else goalsEngine_QueueGoal now addr rule_id goal_data wait_mask new_goal gs1)
       else do {
         (concurrent, wait_mask) \<leftarrow> goalsEngine_HandleConcurrentGoals new_goal wait_mask gs1;
         (_, wait_mask, gs2) \<leftarrow> goalsEngine_HandleExclusiveGoals sync new_goal wait_mask gs1;
         if concurrent \<and> wait_mask = 0 \<or> goalsEngine_GoalCanRunNow gs2 is_new_goal
         then goalsEngine_StartGoal new_goal goal_data gs2
         else goalsEngine_QueueGoal now addr rule_id goal_data wait_mask new_goal gs2
       }
     }"

definition GoalsEngine_ActivateGoal ::
  "u32 \<Rightarrow> nat \<Rightarrow> (goal_id \<Rightarrow> bool) \<Rightarrow> goal_id \<Rightarrow> task \<Rightarrow> message_id \<Rightarrow> 'm msg_data option
   \<Rightarrow> ('p, 's, 'm) goal_set \<Rightarrow> ('p, 's, 'm) goal_set option" where
  "GoalsEngine_ActivateGoal now addr sync new_goal t rule_id goal_data gs =
     (let is_new_goal = (t \<noteq> queue_task gs)
      in if new_goal = GOAL_ID_NONE then Some gs
         else do {
           let gs1 = (if \<not> is_new_goal then gs\<lparr>queue_msg_count := queue_msg_count gs - 1\<rparr> else gs);
           (duplicate, gs2) \<leftarrow> goalsEngine_HandleDuplicateCancellationGoal new_goal gs1;
           if duplicate then Some gs2
           else do {
             gs3 \<leftarrow> (if goalsEngine_GoalCanRunNow gs2 is_new_goal
                     then goalsEngine_StartGoal new_goal goal_data gs2
                     else activate_contended now addr sync is_new_goal new_goal rule_id goal_data gs2);
             Some (goalsEngine_ResetPendingQueueIfEmpty gs3)
           }
         })"

definition GoalsEngine_GetGoalCompleteEvent ::
  "('p, 's, 'm) goal_set \<Rightarrow> goal_id \<Rightarrow> procedure_result \<Rightarrow> rule_events option" where
  "GoalsEngine_GetGoalCompleteEvent gs goal result =
     do {
       g \<leftarrow> goal_at gs goal;
       Some (case result of
               procedure_result_success \<Rightarrow> success_event g
             | procedure_result_timeout \<Rightarrow> timeout_event g
             | procedure_result_failed \<Rightarrow> failed_event g)
     }"

section \<open>What the operations keep\<close>

definition ge_frame :: "('p, 's, 'm) goal_set \<Rightarrow> ('p, 's, 'm) goal_set \<Rightarrow> bool" where
  "ge_frame gs gs' = (gs_goals gs' = gs_goals gs \<and> queue_task gs' = queue_task gs
     \<and> pending_goals_addr gs' = pending_goals_addr gs
     \<and> length (pending_goals gs') = length (pending_goals gs))"

lemma ge_frame_refl [simp]: "ge_frame gs gs"
  by (simp add: ge_frame_def)

lemma ge_frame_trans: "ge_frame a b \<Longrightarrow> ge_frame b c \<Longrightarrow> ge_frame a c"
  by (simp add: ge_frame_def)

lemma ge_frame_goal_at: "ge_frame gs gs' \<Longrightarrow> goal_at gs' g = goal_at gs g"
  by (simp add: ge_frame_def goal_at_def)

definition sub_mask :: "goal_mask \<Rightarrow> goal_mask \<Rightarrow> bool" where
  "sub_mask a b = (a AND NOT b = 0)"

lemma sub_mask_bits: "sub_mask a b \<longleftrightarrow> (\<forall>k. bit a k \<longrightarrow> bit b k)"
proof
  assume "sub_mask a b"
  then have "\<not> bit (a AND NOT b) k" for k by (simp add: sub_mask_def)
  then show "\<forall>k. bit a k \<longrightarrow> bit b k"
    using bit_imp_le_length [of a] by (auto simp: bit_and_iff bit_not_iff)
next
  assume "\<forall>k. bit a k \<longrightarrow> bit b k"
  then show "sub_mask a b" unfolding sub_mask_def by (intro bit_word_eqI) (auto simp: bit_and_iff bit_not_iff)
qed

lemma bit_GOAL_MASK: "bit (GOAL_MASK i) k \<longleftrightarrow> k = i \<and> i < 64"
  by (auto simp: GOAL_MASK_def bit_exp_iff)

lemma bit_REMOVE: "bit (REMOVE_GOAL_FROM_MASK m g) k \<longleftrightarrow> bit m k \<and> k \<noteq> g"
  by (auto simp: REMOVE_GOAL_FROM_MASK_def bit_and_iff bit_not_iff bit_GOAL_MASK dest: bit_imp_le_length)

lemma IsGoalActive_bit: "g < 64 \<Longrightarrow> GoalsEngine_IsGoalActive gs g \<longleftrightarrow> bit (active_goals_mask gs) g"
proof -
  assume g: "g < 64"
  have "GoalsEngine_IsGoalActive gs g = sub_events (GOAL_MASK g) (active_goals_mask gs)"
    by (simp add: GoalsEngine_IsGoalActive_def sub_events_def and.commute)
  with g show ?thesis by (simp add: sub_events_bits bit_GOAL_MASK)
qed

lemma sub_mask_refl [simp]: "sub_mask m m"
  by (simp add: sub_mask_bits)

lemma sub_mask_trans: "sub_mask a b \<Longrightarrow> sub_mask b c \<Longrightarrow> sub_mask a c"
  by (simp add: sub_mask_bits)

lemma sub_mask_REMOVE [simp]: "sub_mask (REMOVE_GOAL_FROM_MASK m g) m"
  by (simp add: sub_mask_bits bit_REMOVE)

lemma those_length: "those xs = Some ys \<Longrightarrow> length ys = length xs"
  by (induction xs arbitrary: ys) (auto split: option.splits)

lemma UpdateQueueMasks_frame:
  "goalsEngine_UpdateQueueMasks gs = Some gs' \<Longrightarrow>
     ge_frame gs gs' \<and> active_goals_mask gs' = active_goals_mask gs \<and> gs_vm gs' = gs_vm gs
     \<and> queue_msg_count gs' = queue_msg_count gs \<and> gs_calls gs' = gs_calls gs"
  by (auto simp: goalsEngine_UpdateQueueMasks_def ge_frame_def split: if_splits dest: those_length)

lemma StartGoal_frame:
  "goalsEngine_StartGoal g d gs = Some gs' \<Longrightarrow>
     ge_frame gs gs' \<and> active_goals_mask gs' = active_goals_mask gs OR GOAL_MASK g
     \<and> gs_vm gs' = gs_vm gs \<and> queue_msg_count gs' = queue_msg_count gs"
  by (auto simp: goalsEngine_StartGoal_def Let_def bind_eq_Some_conv log_call_def ge_frame_def
    split: option.splits dest!: UpdateQueueMasks_frame)

lemma QueueGoal_frame:
  "goalsEngine_QueueGoal now addr r d w g gs = Some gs' \<Longrightarrow>
     ge_frame gs gs' \<and> active_goals_mask gs' = active_goals_mask gs"
  by (auto simp: goalsEngine_QueueGoal_def Let_def bind_eq_Some_conv ge_frame_def)

lemma DequeGoal_frame:
  "goalsEngine_DequeGoal g gs = Some gs' \<Longrightarrow> ge_frame gs gs' \<and> active_goals_mask gs' = active_goals_mask gs"
  by (auto simp: goalsEngine_DequeGoal_def bind_eq_Some_conv ge_frame_def split: option.splits)

lemma Reset_frame:
  "ge_frame gs (goalsEngine_ResetPendingQueueIfEmpty gs)"
  "active_goals_mask (goalsEngine_ResetPendingQueueIfEmpty gs) = active_goals_mask gs"
  "gs_vm (goalsEngine_ResetPendingQueueIfEmpty gs) = gs_vm gs"
  "queue_msg_count (goalsEngine_ResetPendingQueueIfEmpty gs) = queue_msg_count gs"
  by (simp_all add: goalsEngine_ResetPendingQueueIfEmpty_def ge_frame_def)

lemma ClearPending_frame:
  "ge_frame gs (goalsEngine_ClearPendingGoalsQueue gs)"
  "active_goals_mask (goalsEngine_ClearPendingGoalsQueue gs) = active_goals_mask gs"
  by (simp_all add: goalsEngine_ClearPendingGoalsQueue_def goalsEngine_ResetPendingQueueIfEmpty_def ge_frame_def)

lemma ClearGoal_frame:
  "ge_frame gs (GoalsEngine_ClearGoal gs g)
   \<and> active_goals_mask (GoalsEngine_ClearGoal gs g) = REMOVE_GOAL_FROM_MASK (active_goals_mask gs) g"
  by (simp add: GoalsEngine_ClearGoal_def ge_frame_def)

lemma CancelGoal_frame:
  assumes "goalsEngine_CancelGoal sync g gs = Some gs'"
  shows "ge_frame gs gs' \<and> sub_mask (active_goals_mask gs') (active_goals_mask gs)"
proof -
  obtain c where "gs' = (if sync g then GoalsEngine_ClearGoal (log_call c gs) g else log_call c gs)"
    using assms by (auto simp: goalsEngine_CancelGoal_def bind_eq_Some_conv split: if_splits)
  moreover have "ge_frame gs (log_call c gs) \<and> active_goals_mask (log_call c gs) = active_goals_mask gs"
    by (simp add: log_call_def ge_frame_def)
  ultimately show ?thesis
    using ClearGoal_frame [of "log_call c gs" g] ge_frame_trans [of gs "log_call c gs"] by auto
qed

lemma cancel_active_loop_frame:
  assumes "cancel_active_loop sync m gs = Some gs'"
  shows "ge_frame gs gs' \<and> sub_mask (active_goals_mask gs') (active_goals_mask gs)"
proof (rule cancel_active_loop.raw_induct [where P = "\<lambda>_ _ gs gs'. ge_frame gs gs'
    \<and> sub_mask (active_goals_mask gs') (active_goals_mask gs)", OF _ assms], goal_cases)
  case (1 loop sync m gs gs')
  show ?case
  proof (cases "m = 0")
    case True
    with 1(2) show ?thesis by simp
  next
    case False
    then obtain goal gs1 where c: "goalsEngine_CancelGoal sync goal gs = Some gs1"
      "loop sync (REMOVE_GOAL_FROM_MASK m goal) gs1 = Some gs'"
      using 1(2) by (auto simp: bind_eq_Some_conv)
    from CancelGoal_frame [OF c(1)] 1(1) [OF c(2)] show ?thesis
      by (blast intro: ge_frame_trans sub_mask_trans)
  qed
qed

lemma CheckCancels_frame:
  assumes "goalsEngine_CheckIfNewGoalCancelsActiveGoals sync g w gs = Some (c, w', gs')" "goal_at gs g = Some e"
  shows "ge_frame gs gs' \<and> sub_mask (active_goals_mask gs') (active_goals_mask gs)
    \<and> c = goalsEngine_GoalCancelsActive e \<and> w' = (if c then active_goals_mask gs' else w)
    \<and> (\<not> c \<longrightarrow> gs' = gs)"
proof (cases "goalsEngine_GoalCancelsActive e")
  case True
  with assms obtain gs1 where "cancel_active_loop sync (active_goals_mask gs)
      (goalsEngine_ClearPendingGoalsQueue gs) = Some gs1" "c" "w' = active_goals_mask gs1" "gs' = gs1"
    by (auto simp: goalsEngine_CheckIfNewGoalCancelsActiveGoals_def bind_eq_Some_conv)
  with cancel_active_loop_frame ClearPending_frame True show ?thesis by (metis ge_frame_trans)
next
  case False
  with assms show ?thesis
    by (auto simp: goalsEngine_CheckIfNewGoalCancelsActiveGoals_def sub_mask_bits)
qed

lemma HandleExclusive_frame:
  assumes "goalsEngine_HandleExclusiveGoals sync g w gs = Some (b, w', gs')" "length (gs_goals gs) \<le> 63"
  shows "ge_frame gs gs' \<and> sub_mask (active_goals_mask gs') (active_goals_mask gs)
    \<and> (\<forall>k. bit w k \<and> bit (active_goals_mask gs') k \<longrightarrow> bit w' k) \<and> sub_mask w' w"
  using assms
  by (auto simp: goalsEngine_HandleExclusiveGoals_def Let_def bind_eq_Some_conv bit_REMOVE sub_mask_bits
      IsGoalActive_bit
    dest!: DequeGoal_frame CancelGoal_frame split: if_splits intro: ge_frame_trans)

section \<open>Goals only run together when they allow it\<close>

text \<open>The goals that run beside goal \<open>g\<close>, and whether entry \<open>e\<close> accepts them.\<close>

definition others :: "('p, 's, 'm) goal_set \<Rightarrow> goal_id \<Rightarrow> goal_mask" where
  "others gs g = REMOVE_GOAL_FROM_MASK (active_goals_mask gs) g"

definition accepts :: "('p, 's) goal_entry \<Rightarrow> goal_mask \<Rightarrow> bool" where
  "accepts e m = (m = 0 \<or> goal_contention e = goal_contention_concurrent
     \<and> sub_mask m (goalsEngine_GetConcurrentGoalsMask e))"

lemma others_after_start:
  assumes "goalsEngine_StartGoal g d gs = Some gs'" "accepts e (active_goals_mask gs)"
  shows "accepts e (others gs' g) \<and> sub_mask (others gs' g) (active_goals_mask gs)"
proof -
  have "sub_mask (others gs' g) (active_goals_mask gs)"
    using StartGoal_frame [OF assms(1)]
    by (auto simp: others_def sub_mask_bits bit_REMOVE bit_or_iff bit_GOAL_MASK)
  moreover have "x = 0" if "sub_mask x 0" for x using that by (simp add: sub_mask_def)
  ultimately show ?thesis using assms(2) by (auto simp: accepts_def intro: sub_mask_trans)
qed

lemma activate_contended_accepts:
  assumes "activate_contended now addr sync new g r d gs = Some gs'" "goal_at gs g = Some e"
    "length (gs_goals gs) \<le> 63" "g < 64" "bit (active_goals_mask gs') g" "\<not> bit (active_goals_mask gs) g"
  shows "accepts e (others gs' g) \<and> sub_mask (others gs' g) (active_goals_mask gs)"
proof -
  obtain c w1 gs1 where c: "goalsEngine_CheckIfNewGoalCancelsActiveGoals sync g (active_goals_mask gs) gs
      = Some (c, w1, gs1)"
    using assms(1) by (auto simp: activate_contended_def Let_def bind_eq_Some_conv)
  note cf = CheckCancels_frame [OF c assms(2)]
  have e1: "goal_at gs1 g = Some e" using cf ge_frame_goal_at assms(2) by metis
  have n1: "\<not> bit (active_goals_mask gs1) g" using cf assms(6) by (auto simp: sub_mask_bits)
  have zero: "accepts e 0" by (simp add: accepts_def)
  show ?thesis
  proof (cases c)
    case True
    have b: "(if w1 = 0 \<and> goalsEngine_GoalCanRunNow gs1 new then goalsEngine_StartGoal g d gs1
        else goalsEngine_QueueGoal now addr r d w1 g gs1) = Some gs'"
      using assms(1) c True by (simp add: activate_contended_def Let_def)
    have "goalsEngine_QueueGoal now addr r d w1 g gs1 \<noteq> Some gs'"
      using QueueGoal_frame [of now addr r d w1 g gs1 gs'] n1 assms(5) by auto
    with b have st: "goalsEngine_StartGoal g d gs1 = Some gs'" "active_goals_mask gs1 = 0"
      by (auto simp: goalsEngine_GoalCanRunNow_def GOAL_MASK_NONE_def split: if_splits)
    have "accepts e (active_goals_mask gs1)" using st(2) zero by simp
    from others_after_start [OF st(1) this] cf show ?thesis by (blast intro: sub_mask_trans)
  next
    case False
    then have gs1: "gs1 = gs" "w1 = active_goals_mask gs" using cf by auto
    obtain b w2 where hc: "goalsEngine_HandleConcurrentGoals g w1 gs1 = Some (b, w2)"
      using assms(1) c False by (auto simp: activate_contended_def Let_def bind_eq_Some_conv)
    obtain b' w3 gs2 where he: "goalsEngine_HandleExclusiveGoals sync g w2 gs1 = Some (b', w3, gs2)"
      using assms(1) c False hc by (auto simp: activate_contended_def Let_def bind_eq_Some_conv)
    note ef = HandleExclusive_frame [OF he, unfolded gs1(1), OF assms(3)]
    have n2: "\<not> bit (active_goals_mask gs2) g" using ef assms(6) by (auto simp: sub_mask_bits)
    have br: "(if b \<and> w3 = 0 \<or> goalsEngine_GoalCanRunNow gs2 new then goalsEngine_StartGoal g d gs2
        else goalsEngine_QueueGoal now addr r d w3 g gs2) = Some gs'"
      using assms(1) c False hc he by (simp add: activate_contended_def Let_def)
    have "goalsEngine_QueueGoal now addr r d w3 g gs2 \<noteq> Some gs'"
      using QueueGoal_frame [of now addr r d w3 g gs2 gs'] n2 assms(5) by auto
    with br have st: "goalsEngine_StartGoal g d gs2 = Some gs'" "b \<and> w3 = 0 \<or> active_goals_mask gs2 = 0"
      by (auto simp: goalsEngine_GoalCanRunNow_def GOAL_MASK_NONE_def split: if_splits)
    have "accepts e (active_goals_mask gs2)"
    proof (cases "active_goals_mask gs2 = 0")
      case True
      then show ?thesis using zero by simp
    next
      case nz: False
      with st(2) have b: b "w3 = 0" by auto
      with hc e1 gs1 have con: "goal_contention e = goal_contention_concurrent"
        "w2 = active_goals_mask gs AND NOT (goalsEngine_GetConcurrentGoalsMask e)"
        by (auto simp: goalsEngine_HandleConcurrentGoals_def goalsEngine_GoalRunsConcurrently_def
            split: if_splits)
      have "bit (goalsEngine_GetConcurrentGoalsMask e) k" if k: "bit (active_goals_mask gs2) k" for k
      proof (rule ccontr)
        assume n: "\<not> bit (goalsEngine_GetConcurrentGoalsMask e) k"
        have "k < 64" using bit_imp_le_length [OF k] by simp
        then have "bit w2 k" using n k ef con(2) by (auto simp: sub_mask_bits bit_and_iff bit_not_iff)
        with ef k b show False by auto
      qed
      with con show ?thesis by (simp add: accepts_def sub_mask_bits)
    qed
    from others_after_start [OF st(1) this] ef show ?thesis by (blast intro: sub_mask_trans)
  qed
qed

text \<open>
  C10: Goals run together only as the goal table allows: whenever activating a goal, newly decided
  or delivered from the queue, makes it active, the goals active beside it were active before and either there
  are none or the goal is a concurrent one that names all of them.
\<close>
theorem goals_run_compatibly:
  assumes "GoalsEngine_ActivateGoal now addr sync g t r d gs = Some gs'" "goal_at gs g = Some e"
    "length (gs_goals gs) \<le> GOAL_ID_MAX" "\<not> GoalsEngine_IsGoalActive gs g" "GoalsEngine_IsGoalActive gs' g"
  shows "accepts e (others gs' g) \<and> sub_mask (others gs' g) (active_goals_mask gs)"
proof -
  have len: "length (gs_goals gs) \<le> 63" using assms(3) by (simp add: GOAL_ID_MAX_def)
  with assms(2) have g: "g < 64" by (auto simp: goal_at_def split: if_splits)
  have act: "\<not> bit (active_goals_mask gs) g" "bit (active_goals_mask gs') g"
    using assms(4,5) IsGoalActive_bit [OF g] by auto
  let ?gs1 = "if t = queue_task gs then gs\<lparr>queue_msg_count := queue_msg_count gs - 1\<rparr> else gs"
  have f1: "active_goals_mask ?gs1 = active_goals_mask gs" "gs_goals ?gs1 = gs_goals gs" "goal_at ?gs1 g = Some e"
    using assms(2) by (auto simp: goal_at_def split: if_split_asm)
  have nz: "g \<noteq> GOAL_ID_NONE" using assms(1) act by (auto simp: GoalsEngine_ActivateGoal_def)
  obtain dup gs2 where h: "goalsEngine_HandleDuplicateCancellationGoal g ?gs1 = Some (dup, gs2)"
    using assms(1) nz by (auto simp: GoalsEngine_ActivateGoal_def Let_def bind_eq_Some_conv)
  have h2: "\<not> dup" "gs2 = ?gs1"
    using h f1 act(1) IsGoalActive_bit [OF g, of ?gs1]
    by (auto simp: goalsEngine_HandleDuplicateCancellationGoal_def split: if_splits)
  obtain gs3 where gs3: "(if goalsEngine_GoalCanRunNow ?gs1 (t \<noteq> queue_task gs)
      then goalsEngine_StartGoal g d ?gs1
      else activate_contended now addr sync (t \<noteq> queue_task gs) g r d ?gs1) = Some gs3"
    "gs' = goalsEngine_ResetPendingQueueIfEmpty gs3"
    using assms(1) nz h h2 by (auto simp: GoalsEngine_ActivateGoal_def Let_def bind_eq_Some_conv)
  have same: "others gs' g = others gs3 g" "bit (active_goals_mask gs3) g"
    using gs3(2) Reset_frame(2) [of gs3] act(2) by (simp_all add: others_def)
  show ?thesis
  proof (cases "goalsEngine_GoalCanRunNow ?gs1 (t \<noteq> queue_task gs)")
    case True
    then have "accepts e (active_goals_mask ?gs1)"
      by (simp add: accepts_def goalsEngine_GoalCanRunNow_def GOAL_MASK_NONE_def)
    with others_after_start [of g d ?gs1 gs3 e] True gs3(1) same(1) f1(1) show ?thesis by simp
  next
    case False
    with gs3(1) have ac: "activate_contended now addr sync (t \<noteq> queue_task gs) g r d ?gs1 = Some gs3"
      by (simp only: if_False)
    have "length (gs_goals ?gs1) \<le> 63" "\<not> bit (active_goals_mask ?gs1) g"
      using len act(1) by (simp_all only: f1 not_False_eq_True)
    from activate_contended_accepts [OF ac f1(3) this(1) g same(2) this(2)] same(1) f1(1)
    show ?thesis by simp
  qed
qed

definition simple_goal :: "goal_contention \<Rightarrow> goal_id list option \<Rightarrow> nat \<Rightarrow> (nat, nat) goal_entry" where
  "simple_goal c con p = \<lparr>goal_proc = of_nat p, goal_contention = c, exclusive_goal = 0, success_event = 0,
     timeout_event = 0, failed_event = 0, proc_fns = Some p, proc_script = None, concurrent_goals = con\<rparr>"

definition three_goals :: "(nat, nat) goal_entry list" where
  "three_goals = [simple_goal goal_contention_wait None 0, simple_goal goal_contention_wait None 1,
     simple_goal goal_contention_concurrent (Some [1]) 2, simple_goal goal_contention_wait None 3]"

definition goals_running :: "goal_mask \<Rightarrow> (nat, nat, unit) goal_set" where
  "goals_running m = \<lparr>gs_goals = three_goals, proc_result_task = 4, active_goals_mask = m, queue_task = 7,
     queue_msg_count = 0, queue_msg_count_max = 0, pending_goals = replicate 8 empty_entry,
     pending_goals_addr = 1000, gs_vm = idle_vm, gs_calls = []\<rparr>"

theorem goals_run_compatibly_witness:
  "\<exists>gs'. GoalsEngine_ActivateGoal 0 0 (\<lambda>_. False) 2 9 102 None (goals_running 2) = Some gs'
    \<and> accepts (simple_goal goal_contention_concurrent (Some [1]) 2) (others gs' 2)"
proof -
  have "\<exists>gs'. GoalsEngine_ActivateGoal 0 0 (\<lambda>_. False) 2 9 102 None (goals_running 2) = Some gs'
      \<and> GoalsEngine_IsGoalActive gs' 2"
    by (simp add: GoalsEngine_ActivateGoal_def goals_running_def three_goals_def simple_goal_def Let_def
      GOAL_ID_NONE_def goalsEngine_HandleDuplicateCancellationGoal_def goal_at_def
      goalsEngine_GoalCancelsActive_def goalsEngine_GoalCanRunNow_def GOAL_MASK_NONE_def
      activate_contended_def goalsEngine_CheckIfNewGoalCancelsActiveGoals_def
      goalsEngine_HandleConcurrentGoals_def goalsEngine_GoalRunsConcurrently_def
      goalsEngine_GetConcurrentGoalsMask_def goalsEngine_HandleExclusiveGoals_def GOAL_MASK_def
      goalsEngine_StartGoal_def goalsEngine_UpdateQueueMasks_def log_call_def GoalsEngine_IsGoalActive_def
      goalsEngine_ResetPendingQueueIfEmpty_def goalsEngine_GoalQueueSize_def)
  then obtain gs' where gs': "GoalsEngine_ActivateGoal 0 0 (\<lambda>_. False) 2 9 102 None (goals_running 2) = Some gs'"
    "GoalsEngine_IsGoalActive gs' 2" by blast
  have "goal_at (goals_running 2) 2 = Some (simple_goal goal_contention_concurrent (Some [1]) 2)"
    by (simp add: goal_at_def goals_running_def three_goals_def)
  moreover have "length (gs_goals (goals_running 2)) \<le> GOAL_ID_MAX"
    by (simp add: goals_running_def three_goals_def GOAL_ID_MAX_def)
  moreover have "\<not> GoalsEngine_IsGoalActive (goals_running 2) 2"
    by (simp add: GoalsEngine_IsGoalActive_def goals_running_def GOAL_MASK_def)
  ultimately show ?thesis using goals_run_compatibly [OF gs'(1) _ _ _ gs'(2)] gs'(1) by blast
qed

section \<open>The queue and its locks\<close>

definition slot_ok :: "goal_mask \<Rightarrow> pending_goal_entry \<Rightarrow> bool" where
  "slot_ok active e =
     (sub_mask (pg_lock_mask e) active
      \<and> pg_lock e = (if pg_lock_mask e \<noteq> 0 then GOAL_LOCK_MASK_BIT else 0)
      \<and> (pg_id e = GOAL_ID_NONE \<longrightarrow> pg_lock_mask e = 0 \<and> pg_rule_id e = 0))"

definition queue_ok :: "('p, 's, 'm) goal_set \<Rightarrow> bool" where
  "queue_ok gs =
     (direct_only (queue_task gs) (vm_message_queue (gs_vm gs))
      \<and> (\<forall>a\<in>set (vm_message_queue (gs_vm gs)). unicast_to (queue_task gs) a
           \<longrightarrow> am_c_width a = CONDITION_WIDTH_16BIT
             \<and> (\<exists>i < length (pending_goals gs). am_condition_addr a = Some (lock_address gs i))))"

text \<open>
  The invariant of a goal set: every lock waits only for goals that are active, every queued decision is
  blocked by the lock of a slot, and the counter is the number of decisions queued; \<open>k\<close> is 1 while a
  decision that has left the queue is being handed to \<open>GoalsEngine_ActivateGoal\<close>, else 0.
\<close>

definition ge_inv :: "nat \<Rightarrow> ('p, 's, 'm) goal_set \<Rightarrow> bool" where
  "ge_inv k gs =
     (queue_task gs \<noteq> INVALIDATED_TASK \<and> (\<forall>e\<in>set (pending_goals gs). slot_ok (active_goals_mask gs) e)
      \<and> queue_ok gs
      \<and> queue_msg_count gs = of_nat (size (posted_ids (queue_task gs) (gs_vm gs)) + k))"

lemma slot_ok_empty [simp]: "slot_ok m empty_entry"
  by (simp add: slot_ok_def empty_entry_def sub_mask_def)

lemma slot_ok_SET_LOCK:
  "sub_mask (pg_lock_mask e) m \<Longrightarrow> pg_id e \<noteq> GOAL_ID_NONE \<Longrightarrow> slot_ok m (SET_LOCK_FROM_MASK e)"
  by (simp add: slot_ok_def SET_LOCK_FROM_MASK_def GOAL_MASK_NONE_def)

lemma insert_after_mset: "insert_after prev a q = (True, q') \<Longrightarrow> mset q' = add_mset a (mset q)"
  by (induction prev a q arbitrary: q' rule: insert_after.induct)
    (fastforce split: option.splits if_splits prod.splits)+

lemma send_conditionally_queue:
  assumes "\<not> combinable r" "MessageSendConditionally now t r m c vm = Some vm'"
  shows "\<exists>a. am_t a = Unicast t \<and> am_c_width a = CONDITION_WIDTH_16BIT \<and> am_condition_addr a = c
    \<and> am_id a = r \<and> mset (vm_message_queue vm') = add_mset a (mset (vm_message_queue vm))"
proof -
  define a where "a = \<lparr>am_due = D_IMMEDIATE + now, am_t = Unicast t, am_message = m,
    am_condition_addr = c, am_id = r, am_c_width = CONDITION_WIDTH_16BIT, am_refcount = 1\<rparr>"
  obtain q' where q': "insert_msg a (vm_message_queue vm) = (True, q')"
    using insert_after_accepts [of a None "vm_message_queue vm"] assms(1)
    by (cases "insert_msg a (vm_message_queue vm)") (simp add: insert_msg_def a_def)
  then have "vm_message_queue vm' = q'"
    using assms(2) by (auto simp: MessageSendConditionally_def vm_message_send_later_def
      recipients_of_def a_def)
  with insert_after_mset [OF q' [unfolded insert_msg_def]] show ?thesis
    by (intro exI [of _ a]) (simp add: a_def)
qed

lemma find_slot_less: "find_slot g ps = Some i \<Longrightarrow> i < length ps \<and> pg_id (ps ! i) = g"
  by (auto simp: find_slot_def find_Some_iff)

lemma QueueGoal_inv:
  assumes "goalsEngine_QueueGoal now addr r d w g gs = Some gs'" "ge_inv 0 gs"
    "sub_mask w (active_goals_mask gs)" "\<not> combinable r" "g \<noteq> GOAL_ID_NONE"
  shows "ge_inv 0 gs' \<and> r \<in># posted_ids (queue_task gs) (gs_vm gs')"
proof -
  obtain i vm where i: "i < length (pending_goals gs)"
    and vm: "MessageSendConditionally now (queue_task gs) r (map_option (\<lambda>(_, d). (addr, d)) d)
      (Some (lock_address gs i)) (gs_vm gs) = Some vm"
    and gs': "pending_goals gs' = (pending_goals gs)[i := (SET_LOCK_FROM_MASK
        ((pending_goals gs ! i)\<lparr>pg_lock_mask := w\<rparr>))\<lparr>pg_rule_id := r, pg_id := g\<rparr>]"
      "gs_vm gs' = vm" "queue_msg_count gs' = queue_msg_count gs + 1"
    using assms(1) find_slot_less
    by (fastforce simp: goalsEngine_QueueGoal_def Let_def bind_eq_Some_conv split: option.splits)
  have fr: "ge_frame gs gs'" "active_goals_mask gs' = active_goals_mask gs"
    using QueueGoal_frame [OF assms(1)] by auto
  obtain a where a: "am_t a = Unicast (queue_task gs)" "am_c_width a = CONDITION_WIDTH_16BIT"
    "am_condition_addr a = Some (lock_address gs i)"
    "mset (vm_message_queue vm) = add_mset a (mset (vm_message_queue (gs_vm gs)))"
    using send_conditionally_queue [OF assms(4) vm] by blast
  have "set (vm_message_queue vm) = insert a (set (vm_message_queue (gs_vm gs)))"
    using a(4) by (metis set_mset_add_mset_insert set_mset_mset)
  then have "queue_ok gs'"
    using assms(2) a fr i gs'(2) by (auto simp: ge_inv_def queue_ok_def direct_only_def ge_frame_def
      lock_address_def unicast_to_def)
  moreover have p: "posted_ids (queue_task gs) vm = add_mset r (posted_ids (queue_task gs) (gs_vm gs))"
    using send_later_posted [OF assms(4), of now "queue_task gs" "map_option (\<lambda>(_, d). (addr, d)) d"
      D_IMMEDIATE "Some (lock_address gs i)" CONDITION_WIDTH_16BIT "gs_vm gs" "queue_task gs"] vm
    by (simp add: MessageSendConditionally_def)
  moreover have "slot_ok (active_goals_mask gs) ((SET_LOCK_FROM_MASK
      ((pending_goals gs ! i)\<lparr>pg_lock_mask := w\<rparr>))\<lparr>pg_rule_id := r, pg_id := g\<rparr>)"
    using assms(3,5) by (simp add: slot_ok_def SET_LOCK_FROM_MASK_def GOAL_MASK_NONE_def)
  ultimately show ?thesis
    using assms(2) fr gs' by (auto simp: ge_inv_def ge_frame_def dest!: set_update_subset_insert [THEN subsetD])
qed

lemma ge_invD:
  assumes "ge_inv k gs"
  shows "queue_task gs \<noteq> INVALIDATED_TASK" "direct_only (queue_task gs) (vm_message_queue (gs_vm gs))"
    "\<forall>e\<in>set (pending_goals gs). slot_ok (active_goals_mask gs) e" "queue_ok gs"
  using assms by (auto simp: ge_inv_def queue_ok_def)

lemma queue_ok_subset:
  assumes "queue_ok gs" "ge_frame gs gs'" "set (vm_message_queue (gs_vm gs')) \<subseteq> set (vm_message_queue (gs_vm gs))"
  shows "queue_ok gs'"
proof -
  have eq: "queue_task gs' = queue_task gs" "length (pending_goals gs') = length (pending_goals gs)"
    "lock_address gs' = lock_address gs"
    using assms(2) by (simp_all add: ge_frame_def lock_address_def fun_eq_iff)
  show ?thesis
    using assms(1) subsetD [OF assms(3)] unfolding queue_ok_def direct_only_def eq by blast
qed

lemma slots_update_empty:
  "\<forall>e\<in>set ps. slot_ok m e \<Longrightarrow> \<forall>e\<in>set (ps[i := empty_entry]). slot_ok m e"
  by (auto dest!: set_update_subset_insert [THEN subsetD])

lemma DequeGoal_inv:
  assumes "goalsEngine_DequeGoal g gs = Some gs'" "ge_inv 0 gs"
  shows "ge_inv 0 gs'"
proof (cases "find_slot g (pending_goals gs)")
  case None
  with assms show ?thesis by (simp add: goalsEngine_DequeGoal_def)
next
  case (Some i)
  let ?t = "queue_task gs" and ?r = "pg_rule_id (pending_goals gs ! i)"
  note d = ge_invD [OF assms(2)]
  obtain vm where vm: "MessageCancelAll ?t ?r (gs_vm gs) = Some (of_nat (count (posted_ids ?t (gs_vm gs)) ?r), vm)"
    "posted_ids ?t vm = filter_mset (\<lambda>j. j \<noteq> ?r) (posted_ids ?t (gs_vm gs))"
    "vm_message_queue vm = filter (\<lambda>a. \<not> (unicast_to ?t a \<and> am_id a = ?r)) (vm_message_queue (gs_vm gs))"
    using MessageCancelAll_direct [OF d(2,1), of ?r] by blast
  have gs': "gs' = gs\<lparr>gs_vm := vm, queue_msg_count := queue_msg_count gs
        - ucast (of_nat (count (posted_ids ?t (gs_vm gs)) ?r) :: u16),
      pending_goals := (pending_goals gs)[i := empty_entry]\<rparr>"
    using assms(1) Some vm(1) by (simp add: goalsEngine_DequeGoal_def)
  have fr: "ge_frame gs gs'" by (simp add: gs' ge_frame_def)
  have q: "queue_ok gs'" using queue_ok_subset [OF d(4) fr] vm(3) by (auto simp: gs')
  have "size (posted_ids ?t (gs_vm gs)) = size (posted_ids ?t vm) + count (posted_ids ?t (gs_vm gs)) ?r"
  proof -
    have "size M = size (filter_mset (\<lambda>j. j \<noteq> x) M) + count M x" for M :: "message_id multiset" and x
      by (induction M) auto
    then show ?thesis using vm(2) by simp
  qed
  then have "of_nat (size (posted_ids ?t (gs_vm gs)))
      - ucast (of_nat (count (posted_ids ?t (gs_vm gs)) ?r) :: u16) = (of_nat (size (posted_ids ?t vm)) :: u8)"
    by (simp add: unsigned_of_nat take_bit_nat_def word_of_nat_eq_iff mod_mod_cancel take_bit_eq_mod)
  then show ?thesis
    using assms(2) q slots_update_empty [OF d(3), of i] by (simp add: ge_inv_def gs')
qed

lemma Reset_inv: "ge_inv 0 gs \<Longrightarrow> ge_inv 0 (goalsEngine_ResetPendingQueueIfEmpty gs)"
proof -
  assume i: "ge_inv 0 gs"
  have "queue_ok (goalsEngine_ResetPendingQueueIfEmpty gs)"
    using queue_ok_subset [OF ge_invD(4) [OF i] Reset_frame(1)] Reset_frame(3) [of gs] by simp
  with i show ?thesis by (auto simp: ge_inv_def goalsEngine_ResetPendingQueueIfEmpty_def)
qed

lemma ClearPending_inv:
  assumes "ge_inv 0 gs"
  shows "ge_inv 0 (goalsEngine_ClearPendingGoalsQueue gs)
    \<and> posted_ids (queue_task gs) (gs_vm (goalsEngine_ClearPendingGoalsQueue gs)) = {#}"
proof -
  let ?t = "queue_task gs"
  let ?gs = "gs\<lparr>gs_vm := snd (MessageFlushTask ?t (gs_vm gs)), queue_msg_count := 0\<rparr>"
  note d = ge_invD [OF assms]
  have p: "posted_ids ?t (gs_vm ?gs) = {#}" using flush_posted_ids [OF d(1,1)] by simp
  have "vm_message_queue (gs_vm ?gs) = filter (\<lambda>a. \<not> unicast_to ?t a) (vm_message_queue (gs_vm gs))"
    using map_filter_direct(1) [OF d(2)] by (simp add: MessageFlushTask_queue)
  then have "queue_ok ?gs" using queue_ok_subset [OF d(4), of ?gs] by (auto simp: ge_frame_def)
  with assms p have "ge_inv 0 ?gs" by (simp add: ge_inv_def)
  with p show ?thesis using Reset_inv [of ?gs] Reset_frame(3) [of ?gs]
    by (simp add: goalsEngine_ClearPendingGoalsQueue_def)
qed

lemma ClearGoal_inv:
  assumes "ge_inv k gs"
  shows "ge_inv k (GoalsEngine_ClearGoal gs g)"
proof -
  have m: "sub_mask (REMOVE_GOAL_FROM_MASK a g) (REMOVE_GOAL_FROM_MASK b g)" if "sub_mask a b" for a b
    using that by (simp add: sub_mask_bits bit_REMOVE)
  have "\<forall>e\<in>set (pending_goals (GoalsEngine_ClearGoal gs g)).
      slot_ok (REMOVE_GOAL_FROM_MASK (active_goals_mask gs) g) e"
  proof
    fix e' assume "e' \<in> set (pending_goals (GoalsEngine_ClearGoal gs g))"
    then obtain e where e: "e \<in> set (pending_goals gs)" "e' = (if pg_id e \<noteq> GOAL_ID_NONE
        then SET_LOCK_FROM_MASK (e\<lparr>pg_lock_mask := REMOVE_GOAL_FROM_MASK (pg_lock_mask e) g\<rparr>) else e)"
      by (auto simp: GoalsEngine_ClearGoal_def)
    have ok: "slot_ok (active_goals_mask gs) e" using ge_invD(3) [OF assms] e(1) by blast
    show "slot_ok (REMOVE_GOAL_FROM_MASK (active_goals_mask gs) g) e'"
    proof (cases "pg_id e = GOAL_ID_NONE")
      case True
      with e(2) ok show ?thesis by (simp add: slot_ok_def sub_mask_def)
    next
      case False
      with e(2) ok m show ?thesis by (simp add: slot_ok_SET_LOCK slot_ok_def [of "active_goals_mask gs"])
    qed
  qed
  moreover have "queue_ok (GoalsEngine_ClearGoal gs g)"
    using queue_ok_subset [OF ge_invD(4) [OF assms], of "GoalsEngine_ClearGoal gs g"] ClearGoal_frame [of gs g]
    by (simp add: GoalsEngine_ClearGoal_def)
  ultimately show ?thesis using assms by (simp add: ge_inv_def GoalsEngine_ClearGoal_def)
qed

lemma log_call_inv: "ge_inv k (log_call c gs) = ge_inv k gs"
  by (simp add: ge_inv_def queue_ok_def log_call_def lock_address_def)

lemma CancelGoal_inv:
  assumes "goalsEngine_CancelGoal sync g gs = Some gs'" "ge_inv k gs"
  shows "ge_inv k gs'"
proof -
  obtain c where "gs' = (if sync g then GoalsEngine_ClearGoal (log_call c gs) g else log_call c gs)"
    using assms(1) by (auto simp: goalsEngine_CancelGoal_def bind_eq_Some_conv split: if_splits)
  then show ?thesis using assms(2) ClearGoal_inv [of k "log_call c gs" g] log_call_inv by auto
qed

lemma CancelGoal_vm: "goalsEngine_CancelGoal sync g gs = Some gs' \<Longrightarrow> gs_vm gs' = gs_vm gs"
  by (auto simp: goalsEngine_CancelGoal_def bind_eq_Some_conv log_call_def GoalsEngine_ClearGoal_def
    split: if_splits)

lemma cancel_active_loop_inv:
  assumes "cancel_active_loop sync m gs = Some gs'"
  shows "ge_inv k gs \<longrightarrow> ge_inv k gs'"
proof (rule cancel_active_loop.raw_induct [where P = "\<lambda>_ _ gs gs'. ge_inv k gs \<longrightarrow> ge_inv k gs'",
      OF _ assms], goal_cases)
  case (1 loop sync m gs gs')
  show ?case
  proof (cases "m = 0")
    case True
    with 1(2) show ?thesis by simp
  next
    case False
    then obtain goal gs1 where c: "goalsEngine_CancelGoal sync goal gs = Some gs1"
      "loop sync (REMOVE_GOAL_FROM_MASK m goal) gs1 = Some gs'"
      using 1(2) by (auto simp: bind_eq_Some_conv)
    from CancelGoal_inv [OF c(1)] 1(1) [OF c(2)] show ?thesis by blast
  qed
qed

lemma CheckCancels_inv:
  assumes "goalsEngine_CheckIfNewGoalCancelsActiveGoals sync g w gs = Some (c, w', gs')" "ge_inv 0 gs"
  shows "ge_inv 0 gs'"
  using assms ClearPending_inv [OF assms(2)] cancel_active_loop_inv
  by (fastforce simp: goalsEngine_CheckIfNewGoalCancelsActiveGoals_def bind_eq_Some_conv split: if_splits)

lemma HandleExclusive_inv:
  assumes "goalsEngine_HandleExclusiveGoals sync g w gs = Some (b, w', gs')" "ge_inv 0 gs"
    "length (gs_goals gs) \<le> 63" "sub_mask w (active_goals_mask gs)"
  shows "ge_inv 0 gs' \<and> sub_mask w' (active_goals_mask gs')"
proof -
  obtain e where e: "goal_at gs g = Some e"
    using assms(1) by (auto simp: goalsEngine_HandleExclusiveGoals_def bind_eq_Some_conv)
  let ?x = "exclusive_goal e"
  show ?thesis
  proof (cases "?x \<noteq> GOAL_ID_NONE \<and> ?x < length (gs_goals gs) \<and> GoalsEngine_IsGoalActive gs ?x")
    case True
    then obtain gs1 where q: "goalsEngine_DequeGoal ?x gs = Some gs1"
      "goalsEngine_CancelGoal sync ?x gs1 = Some gs'"
      "w' = (if \<not> GoalsEngine_IsGoalActive gs' ?x then REMOVE_GOAL_FROM_MASK w ?x else w)"
      using assms(1) e by (auto simp: goalsEngine_HandleExclusiveGoals_def Let_def bind_eq_Some_conv)
    have inv: "ge_inv 0 gs'" using DequeGoal_inv [OF q(1) assms(2)] CancelGoal_inv [OF q(2)] by blast
    have "active_goals_mask gs' = (if sync ?x then REMOVE_GOAL_FROM_MASK (active_goals_mask gs) ?x
        else active_goals_mask gs)"
      using q(2) DequeGoal_frame [OF q(1)]
      by (auto simp: goalsEngine_CancelGoal_def bind_eq_Some_conv log_call_def GoalsEngine_ClearGoal_def
        split: if_splits)
    moreover have "GoalsEngine_IsGoalActive gs' ?x = bit (active_goals_mask gs') ?x"
      using True assms(3) by (intro IsGoalActive_bit) auto
    moreover have "sub_mask (REMOVE_GOAL_FROM_MASK w ?x) (REMOVE_GOAL_FROM_MASK (active_goals_mask gs) ?x)"
      using assms(4) by (simp add: sub_mask_bits bit_REMOVE)
    ultimately have "sub_mask w' (active_goals_mask gs')"
      using q(3) assms(4) by (auto simp: bit_REMOVE intro: sub_mask_trans)
    with inv show ?thesis by blast
  next
    case False
    with assms e show ?thesis
      by (auto simp: goalsEngine_HandleExclusiveGoals_def Let_def)
  qed
qed

lemma update_queue_entry_ok:
  assumes "update_queue_entry gs e = Some e'" "slot_ok (active_goals_mask gs) e"
  shows "slot_ok (active_goals_mask gs) e'"
proof (cases "pg_rule_id e = 0")
  case True
  with assms show ?thesis by (simp add: update_queue_entry_def)
next
  case False
  then have id: "pg_id e \<noteq> GOAL_ID_NONE" using assms(2) by (auto simp: slot_ok_def)
  have "sub_mask (a AND NOT b) a" for a b
    by (auto simp: sub_mask_bits bit_and_iff)
  with False id assms show ?thesis
    by (auto simp: update_queue_entry_def Let_def bind_eq_Some_conv slot_ok_SET_LOCK split: if_splits)
qed

lemma those_map_ok:
  assumes "those (map f xs) = Some ys" "\<forall>x\<in>set xs. P x" "\<And>x y. f x = Some y \<Longrightarrow> P x \<Longrightarrow> Q y"
  shows "\<forall>y\<in>set ys. Q y"
  using assms by (induction xs arbitrary: ys) (auto split: option.splits)

lemma StartGoal_inv:
  assumes "goalsEngine_StartGoal g d gs = Some gs'" "ge_inv 0 gs"
  shows "ge_inv 0 gs'"
proof -
  have "\<exists>c. goalsEngine_UpdateQueueMasks (log_call c
      (gs\<lparr>active_goals_mask := active_goals_mask gs OR GOAL_MASK g\<rparr>)) = Some gs'"
    using assms(1) by (auto simp: goalsEngine_StartGoal_def Let_def bind_eq_Some_conv split: option.splits)
  then obtain c where c: "goalsEngine_UpdateQueueMasks (log_call c
      (gs\<lparr>active_goals_mask := active_goals_mask gs OR GOAL_MASK g\<rparr>)) = Some gs'" by blast
  let ?gs = "log_call c (gs\<lparr>active_goals_mask := active_goals_mask gs OR GOAL_MASK g\<rparr>)"
  have up: "sub_mask (active_goals_mask gs) (active_goals_mask ?gs)"
    by (auto simp: sub_mask_bits log_call_def bit_or_iff)
  have s: "\<forall>e\<in>set (pending_goals ?gs). slot_ok (active_goals_mask ?gs) e"
    using ge_invD(3) [OF assms(2)] up
    by (auto simp: slot_ok_def log_call_def intro: sub_mask_trans)
  note f = UpdateQueueMasks_frame [OF c]
  have s': "\<forall>e\<in>set (pending_goals gs'). slot_ok (active_goals_mask ?gs) e"
  proof (cases "queue_msg_count ?gs = 0")
    case True
    with c s show ?thesis by (simp add: goalsEngine_UpdateQueueMasks_def)
  next
    case False
    with c obtain ps where ps: "those (map (update_queue_entry ?gs) (pending_goals ?gs)) = Some ps"
      "pending_goals gs' = ps" by (auto simp: goalsEngine_UpdateQueueMasks_def)
    from those_map_ok [OF ps(1) s] update_queue_entry_ok [of ?gs] ps(2) show ?thesis by blast
  qed
  have fr: "ge_frame gs gs'" using f by (simp add: log_call_def ge_frame_def)
  have "queue_ok gs'" using queue_ok_subset [OF ge_invD(4) [OF assms(2)] fr] f by (simp add: log_call_def)
  with s' f fr assms(2) show ?thesis by (simp add: ge_inv_def ge_frame_def log_call_def)
qed

definition decided :: "('p, 's, 'm) goal_set \<Rightarrow> goal_id \<Rightarrow> message_id \<Rightarrow> bool" where
  "decided gs g r = (GoalsEngine_IsGoalActive gs g \<or> r \<in># posted_ids (queue_task gs) (gs_vm gs))"

lemma StartGoal_decided:
  assumes "goalsEngine_StartGoal g d gs = Some gs'" "ge_inv 0 gs" "g < 64"
  shows "ge_inv 0 gs' \<and> decided gs' g r"
  using StartGoal_inv [OF assms(1,2)] StartGoal_frame [OF assms(1)] assms(3)
  by (simp add: decided_def IsGoalActive_bit bit_or_iff bit_GOAL_MASK)

lemma QueueGoal_decided:
  assumes "goalsEngine_QueueGoal now addr r d w g gs = Some gs'" "ge_inv 0 gs"
    "sub_mask w (active_goals_mask gs)" "\<not> combinable r" "g \<noteq> GOAL_ID_NONE"
  shows "ge_inv 0 gs' \<and> decided gs' g r"
  using QueueGoal_inv [OF assms] QueueGoal_frame [OF assms(1)] by (auto simp: decided_def ge_frame_def)

lemma activate_contended_inv:
  assumes "activate_contended now addr sync new g r d gs = Some gs'" "ge_inv 0 gs"
    "length (gs_goals gs) \<le> 63" "g < 64" "g \<noteq> GOAL_ID_NONE" "\<not> combinable r"
  shows "ge_inv 0 gs' \<and> decided gs' g r"
proof -
  obtain c w1 gs1 where c: "goalsEngine_CheckIfNewGoalCancelsActiveGoals sync g (active_goals_mask gs) gs
      = Some (c, w1, gs1)"
    using assms(1) by (auto simp: activate_contended_def Let_def bind_eq_Some_conv)
  obtain e where e: "goal_at gs g = Some e"
    using c by (auto simp: goalsEngine_CheckIfNewGoalCancelsActiveGoals_def bind_eq_Some_conv)
  note cf = CheckCancels_frame [OF c e]
  have i1: "ge_inv 0 gs1" by (rule CheckCancels_inv [OF c assms(2)])
  show ?thesis
  proof (cases c)
    case True
    then have w: "sub_mask w1 (active_goals_mask gs1)" using cf by simp
    have "(if w1 = 0 \<and> goalsEngine_GoalCanRunNow gs1 new then goalsEngine_StartGoal g d gs1
        else goalsEngine_QueueGoal now addr r d w1 g gs1) = Some gs'"
      using assms(1) c True by (simp add: activate_contended_def Let_def)
    then show ?thesis
      using StartGoal_decided [OF _ i1 assms(4)] QueueGoal_decided [OF _ i1 w assms(6,5)]
      by (metis (full_types))
  next
    case False
    then have gs1: "gs1 = gs" "w1 = active_goals_mask gs" using cf by auto
    obtain b w2 where hc: "goalsEngine_HandleConcurrentGoals g w1 gs1 = Some (b, w2)"
      using assms(1) c False by (auto simp: activate_contended_def Let_def bind_eq_Some_conv)
    obtain b' w3 gs2 where he: "goalsEngine_HandleExclusiveGoals sync g w2 gs1 = Some (b', w3, gs2)"
      using assms(1) c False hc by (auto simp: activate_contended_def Let_def bind_eq_Some_conv)
    have w2: "sub_mask w2 (active_goals_mask gs)"
      using hc gs1 by (auto simp: goalsEngine_HandleConcurrentGoals_def bind_eq_Some_conv sub_mask_bits
        bit_and_iff split: if_splits)
    have i2: "ge_inv 0 gs2 \<and> sub_mask w3 (active_goals_mask gs2)"
      using HandleExclusive_inv [OF he i1] assms(3) w2 gs1 by simp
    have "(if b \<and> w3 = 0 \<or> goalsEngine_GoalCanRunNow gs2 new then goalsEngine_StartGoal g d gs2
        else goalsEngine_QueueGoal now addr r d w3 g gs2) = Some gs'"
      using assms(1) c False hc he by (simp add: activate_contended_def Let_def)
    then show ?thesis
      using StartGoal_decided [OF _ _ assms(4), of d gs2 gs' r] i2
        QueueGoal_decided [of now addr r d w3 g gs2 gs', OF _ _ _ assms(6,5)]
      by (metis (full_types))
  qed
qed

lemma decided_Reset: "decided (goalsEngine_ResetPendingQueueIfEmpty gs) g r = decided gs g r"
  by (simp add: decided_def goalsEngine_ResetPendingQueueIfEmpty_def GoalsEngine_IsGoalActive_def)

text \<open>
  No decision is lost and no lock is stale: activating a goal, newly decided or delivered from
  the queue, keeps the invariant of the goal set (the count of queued decisions is exact, every
  decision is blocked by the lock of a slot, and every lock waits only for goals that are active), and
  afterwards the goal is active or its decision is queued.
\<close>
lemma activation_keeps_decisions:
  assumes "GoalsEngine_ActivateGoal now addr sync g t r d gs = Some gs'"
    "ge_inv (if t = queue_task gs then 1 else 0) gs" "length (gs_goals gs) \<le> GOAL_ID_MAX"
    "g \<noteq> GOAL_ID_NONE" "\<not> combinable r"
  shows "ge_inv 0 gs' \<and> decided gs' g r"
proof -
  have len: "length (gs_goals gs) \<le> 63" using assms(3) by (simp add: GOAL_ID_MAX_def)
  let ?gs1 = "if t = queue_task gs then gs\<lparr>queue_msg_count := queue_msg_count gs - 1\<rparr> else gs"
  have i1: "ge_inv 0 ?gs1"
    using assms(2) by (auto simp: ge_inv_def queue_ok_def lock_address_def split: if_splits)
  obtain dup gs2 where h: "goalsEngine_HandleDuplicateCancellationGoal g ?gs1 = Some (dup, gs2)"
    using assms(1,4) by (auto simp: GoalsEngine_ActivateGoal_def Let_def bind_eq_Some_conv)
  obtain e where e: "goal_at ?gs1 g = Some e"
    using h by (auto simp: goalsEngine_HandleDuplicateCancellationGoal_def bind_eq_Some_conv)
  then have g: "g < 64" using len by (auto simp: goal_at_def split: if_splits)
  show ?thesis
  proof (cases dup)
    case True
    then have "gs' = goalsEngine_ClearPendingGoalsQueue ?gs1" "GoalsEngine_IsGoalActive ?gs1 g"
      using assms(1,4) h e
      by (auto simp: GoalsEngine_ActivateGoal_def Let_def goalsEngine_HandleDuplicateCancellationGoal_def
        split: if_split_asm)
    then show ?thesis
      using ClearPending_inv [OF i1] ClearPending_frame(2) [of ?gs1]
      by (simp only: decided_def GoalsEngine_IsGoalActive_def simp_thms)
  next
    case False
    then have gs2: "gs2 = ?gs1"
      using h e by (auto simp: goalsEngine_HandleDuplicateCancellationGoal_def split: if_split_asm)
    obtain gs3 where gs3: "(if goalsEngine_GoalCanRunNow ?gs1 (t \<noteq> queue_task gs)
        then goalsEngine_StartGoal g d ?gs1
        else activate_contended now addr sync (t \<noteq> queue_task gs) g r d ?gs1) = Some gs3"
      "gs' = goalsEngine_ResetPendingQueueIfEmpty gs3"
      using assms(1,4) h False gs2 by (auto simp: GoalsEngine_ActivateGoal_def Let_def bind_eq_Some_conv)
    have len1: "length (gs_goals ?gs1) \<le> 63" using len by simp
    have "ge_inv 0 gs3 \<and> decided gs3 g r"
    proof (cases "goalsEngine_GoalCanRunNow ?gs1 (t \<noteq> queue_task gs)")
      case True
      with gs3(1) have "goalsEngine_StartGoal g d ?gs1 = Some gs3" by (simp only: if_True)
      from StartGoal_decided [OF this i1 g] show ?thesis .
    next
      case False
      with gs3(1) have "activate_contended now addr sync (t \<noteq> queue_task gs) g r d ?gs1 = Some gs3"
        by (simp only: if_False)
      from activate_contended_inv [OF this i1 len1 g assms(4,5)] show ?thesis .
    qed
    with gs3(2) Reset_inv decided_Reset show ?thesis by blast
  qed
qed

lemma goals_running_inv: "ge_inv 0 (goals_running m)"
  by (auto simp: ge_inv_def goals_running_def queue_ok_def idle_vm_def posted_ids_def INVALIDATED_TASK_def)

lemma activation_keeps_decisions_witness:
  "\<exists>gs'. GoalsEngine_ActivateGoal 0 0 (\<lambda>_. False) 3 9 103 None (goals_running 2) = Some gs'
    \<and> ge_inv 0 gs' \<and> decided gs' 3 103"
proof -
  have "\<exists>gs'. GoalsEngine_ActivateGoal 0 0 (\<lambda>_. False) 3 9 103 None (goals_running 2) = Some gs'"
    by (simp add: GoalsEngine_ActivateGoal_def goals_running_def three_goals_def simple_goal_def Let_def
      GOAL_ID_NONE_def goalsEngine_HandleDuplicateCancellationGoal_def goal_at_def
      goalsEngine_GoalCancelsActive_def goalsEngine_GoalCanRunNow_def GOAL_MASK_NONE_def
      activate_contended_def goalsEngine_CheckIfNewGoalCancelsActiveGoals_def
      goalsEngine_HandleConcurrentGoals_def goalsEngine_GoalRunsConcurrently_def
      goalsEngine_HandleExclusiveGoals_def goalsEngine_QueueGoal_def find_slot_def empty_entry_def upt_rec
      MessageSendConditionally_def vm_message_send_later_def recipients_of_def split: prod.splits)
  then obtain gs' where gs': "GoalsEngine_ActivateGoal 0 0 (\<lambda>_. False) 3 9 103 None (goals_running 2) = Some gs'"
    by blast
  have "ge_inv (if 9 = queue_task (goals_running 2) then 1 else 0) (goals_running 2)"
    using goals_running_inv by (simp add: goals_running_def)
  moreover have "length (gs_goals (goals_running 2)) \<le> GOAL_ID_MAX"
    by (simp add: goals_running_def three_goals_def GOAL_ID_MAX_def)
  moreover have "(3 :: goal_id) \<noteq> GOAL_ID_NONE" by (simp add: GOAL_ID_NONE_def)
  moreover have "\<not> combinable 103" by (simp add: combinable_def system_message_ids)
  ultimately show ?thesis using activation_keeps_decisions [OF gs'] gs' by blast
qed

section \<open>The goal sets that can be reached\<close>

text \<open>The goal set after the scheduler has taken a message out of the queue.\<close>

definition taken_from_queue :: "'m msg_queue \<Rightarrow> ('p, 's, 'm) goal_set \<Rightarrow> ('p, 's, 'm) goal_set" where
  "taken_from_queue q gs = gs\<lparr>gs_vm := (gs_vm gs)\<lparr>vm_message_queue := q\<rparr>\<rparr>"

lemma taken_from_queue_inv:
  assumes "ge_inv 0 gs" "vm_message_queue (gs_vm gs) = q1 @ a # q2" "unicast_to (queue_task gs) a"
  shows "ge_inv 1 (taken_from_queue (q1 @ q2) gs)"
proof -
  let ?gs = "taken_from_queue (q1 @ q2) gs" and ?t = "queue_task gs"
  have q: "queue_ok ?gs"
    using queue_ok_subset [OF ge_invD(4) [OF assms(1)], of ?gs] assms(2)
    by (auto simp: taken_from_queue_def ge_frame_def)
  then have d: "direct_only ?t (q1 @ q2)" by (simp add: queue_ok_def taken_from_queue_def)
  have "posted_ids ?t (gs_vm gs) = add_mset (am_id a) (posted_ids ?t (gs_vm ?gs))"
    using posted_ids_direct [OF ge_invD(2) [OF assms(1)]] posted_ids_direct [of ?t "gs_vm ?gs"] d assms(2,3)
    by (simp add: taken_from_queue_def)
  then show ?thesis
    using assms(1) q by (simp add: ge_inv_def taken_from_queue_def)
qed


lemma CheckCancels_goal:
  "goalsEngine_CheckIfNewGoalCancelsActiveGoals sync g w gs = Some r \<Longrightarrow> \<exists>e. goal_at gs g = Some e"
  by (auto simp: goalsEngine_CheckIfNewGoalCancelsActiveGoals_def bind_eq_Some_conv)

lemma activate_contended_frame:
  assumes "activate_contended now addr sync new g r d gs = Some gs'" "length (gs_goals gs) \<le> 63"
  shows "ge_frame gs gs'"
proof -
  obtain c w1 gs1 where c: "goalsEngine_CheckIfNewGoalCancelsActiveGoals sync g (active_goals_mask gs) gs
      = Some (c, w1, gs1)"
    using assms(1) by (auto simp: activate_contended_def Let_def bind_eq_Some_conv)
  obtain e where "goal_at gs g = Some e" using CheckCancels_goal [OF c] by blast
  with CheckCancels_frame [OF c] have f1: "ge_frame gs gs1" by blast
  then have l1: "length (gs_goals gs1) \<le> 63" using assms(2) by (simp add: ge_frame_def)
  show ?thesis
  proof (cases c)
    case True
    then have "goalsEngine_StartGoal g d gs1 = Some gs' \<or> goalsEngine_QueueGoal now addr r d w1 g gs1 = Some gs'"
      using assms(1) c by (auto simp: activate_contended_def Let_def split: if_split_asm)
    then have "ge_frame gs1 gs'" by (auto dest: StartGoal_frame QueueGoal_frame)
    with f1 show ?thesis by (rule ge_frame_trans)
  next
    case False
    then obtain x w2 b w3 gs2 where h: "goalsEngine_HandleExclusiveGoals sync g w2 gs1 = Some (b, w3, gs2)"
      "goalsEngine_StartGoal g d gs2 = Some gs' \<or> goalsEngine_QueueGoal now addr r d w3 g gs2 = Some gs'"
      using assms(1) c by (auto simp: activate_contended_def Let_def bind_eq_Some_conv split: if_split_asm)
    have "ge_frame gs1 gs2" using HandleExclusive_frame [OF h(1) l1] by blast
    moreover have "ge_frame gs2 gs'" using h(2) by (auto dest: StartGoal_frame QueueGoal_frame)
    ultimately show ?thesis using f1 by (blast intro: ge_frame_trans)
  qed
qed

lemma ActivateGoal_frame:
  assumes "GoalsEngine_ActivateGoal now addr sync g t r d gs = Some gs'" "length (gs_goals gs) \<le> 63"
  shows "ge_frame gs gs'"
proof (cases "g = GOAL_ID_NONE")
  case False
  let ?gs1 = "if t = queue_task gs then gs\<lparr>queue_msg_count := queue_msg_count gs - 1\<rparr> else gs"
  have f1: "ge_frame gs ?gs1" "length (gs_goals ?gs1) \<le> 63" using assms(2) by (simp_all add: ge_frame_def)
  obtain dup gs2 where h: "goalsEngine_HandleDuplicateCancellationGoal g ?gs1 = Some (dup, gs2)"
    using assms(1) False by (auto simp: GoalsEngine_ActivateGoal_def Let_def bind_eq_Some_conv)
  then have f2: "ge_frame ?gs1 gs2"
    using ClearPending_frame(1) [of ?gs1]
    by (auto simp: goalsEngine_HandleDuplicateCancellationGoal_def bind_eq_Some_conv split: if_split_asm)
  then have l2: "length (gs_goals gs2) \<le> 63" using f1(2) by (simp add: ge_frame_def)
  have f: "ge_frame gs gs2" by (rule ge_frame_trans [OF f1(1) f2])
  show ?thesis
  proof (cases dup)
    case True
    then show ?thesis using assms(1) h False f by (simp add: GoalsEngine_ActivateGoal_def Let_def)
  next
    case nd: False
    obtain gs3 where gs3: "(if goalsEngine_GoalCanRunNow gs2 (t \<noteq> queue_task gs)
        then goalsEngine_StartGoal g d gs2
        else activate_contended now addr sync (t \<noteq> queue_task gs) g r d gs2) = Some gs3"
      "gs' = goalsEngine_ResetPendingQueueIfEmpty gs3"
      using assms(1) h nd False by (auto simp: GoalsEngine_ActivateGoal_def Let_def bind_eq_Some_conv)
    have "ge_frame gs2 gs3"
      using gs3(1) StartGoal_frame activate_contended_frame [OF _ l2] by (auto split: if_split_asm)
    with f gs3(2) Reset_frame(1) show ?thesis using ge_frame_trans by blast
  qed
qed (use assms(1) in \<open>simp add: GoalsEngine_ActivateGoal_def Let_def\<close>)

text \<open>
  The life of a goal set: it is created on a queue task nobody has posted to; decisions of the topology
  activate goals; the scheduler delivers a decision from the queue once it is not blocked,
  reading the locks in memory, and it is handed to the engine again; a goal is cleared when its
  procedure completes; and in between other components post to and are served by the same
  scheduler, which changes none of the messages of the queue task.
\<close>

definition reads_locks :: "(nat \<Rightarrow> u32) \<Rightarrow> ('p, 's, 'm) goal_set \<Rightarrow> bool" where
  "reads_locks mem gs =
     (\<forall>i < length (pending_goals gs). mem (lock_address gs i) AND 0xFFFF = ucast (pg_lock (pending_goals gs ! i)))"

inductive goals_reachable :: "('p, 's, 'm) goal_set \<Rightarrow> bool" where
  created: "GoalsEngine_CreateGoalSet goals qt rt addr vm = Some gs \<Longrightarrow> qt \<noteq> INVALIDATED_TASK
    \<Longrightarrow> direct_only qt (vm_message_queue vm) \<Longrightarrow> filter (unicast_to qt) (vm_message_queue vm) = []
    \<Longrightarrow> goals_reachable gs"
| activated: "goals_reachable gs \<Longrightarrow> t \<noteq> queue_task gs \<Longrightarrow> \<not> combinable r
    \<Longrightarrow> GoalsEngine_ActivateGoal now addr sync g t r d gs = Some gs' \<Longrightarrow> goals_reachable gs'"
| delivered: "goals_reachable gs \<Longrightarrow> reads_locks mem gs
    \<Longrightarrow> first_unblocked mem (vm_message_queue (gs_vm gs)) = Some (a, q) \<Longrightarrow> unicast_to (queue_task gs) a
    \<Longrightarrow> g \<noteq> GOAL_ID_NONE \<Longrightarrow> \<not> combinable (am_id a)
    \<Longrightarrow> GoalsEngine_ActivateGoal now addr sync g (queue_task gs) (am_id a) d (taken_from_queue q gs) = Some gs'
    \<Longrightarrow> goals_reachable gs'"
| cleared: "goals_reachable gs \<Longrightarrow> goals_reachable (GoalsEngine_ClearGoal gs g)"
| others_served: "goals_reachable gs \<Longrightarrow> direct_only (queue_task gs) (vm_message_queue vm)
    \<Longrightarrow> filter (unicast_to (queue_task gs)) (vm_message_queue vm)
      = filter (unicast_to (queue_task gs)) (vm_message_queue (gs_vm gs))
    \<Longrightarrow> goals_reachable (gs\<lparr>gs_vm := vm\<rparr>)"

lemma others_served_inv:
  assumes "ge_inv k gs" "direct_only (queue_task gs) (vm_message_queue vm)"
    "filter (unicast_to (queue_task gs)) (vm_message_queue vm)
      = filter (unicast_to (queue_task gs)) (vm_message_queue (gs_vm gs))"
  shows "ge_inv k (gs\<lparr>gs_vm := vm\<rparr>)"
proof -
  let ?qt = "queue_task gs"
  have s: "a \<in> set (vm_message_queue vm) \<and> unicast_to ?qt a
      \<longleftrightarrow> a \<in> set (vm_message_queue (gs_vm gs)) \<and> unicast_to ?qt a" for a
    using arg_cong [OF assms(3), of set] by auto
  have "posted_ids ?qt vm = posted_ids ?qt (gs_vm gs)"
    using posted_ids_direct [OF assms(2)] posted_ids_direct [OF ge_invD(2) [OF assms(1)]] assms(3) by simp
  moreover have "queue_ok (gs\<lparr>gs_vm := vm\<rparr>)"
    using ge_invD(4) [OF assms(1)] assms(2) s by (simp add: queue_ok_def lock_address_def) blast
  ultimately show ?thesis using assms(1) by (simp add: ge_inv_def)
qed

lemma goals_reachable_inv:
  assumes "goals_reachable gs"
  shows "ge_inv 0 gs \<and> length (gs_goals gs) \<le> GOAL_ID_MAX"
  using assms
proof induction
  case (created goals qt rt addr vm gs)
  have "gs = \<lparr>gs_goals = goals, proc_result_task = rt, active_goals_mask = 0,
             queue_task = qt, queue_msg_count = 0, queue_msg_count_max = 0,
             pending_goals = replicate INITIAL_GOAL_QUEUE_COUNT empty_entry,
             pending_goals_addr = addr, gs_vm = vm, gs_calls = []\<rparr>" "length goals \<le> GOAL_ID_MAX"
    using created(1) by (auto simp: GoalsEngine_CreateGoalSet_def goalsEngine_ValidateInitParams_def bind_eq_Some_conv)
  moreover have "\<forall>a\<in>set (vm_message_queue vm). \<not> unicast_to qt a" using created(4) by (simp add: filter_empty_conv)
  ultimately show ?case
    using created(2,3) posted_ids_direct [OF created(3)] created(4) by (simp add: ge_inv_def queue_ok_def)
next
  case (activated gs t r now addr sync g d gs')
  have l: "length (gs_goals gs) \<le> 63" using activated.IH by (simp add: GOAL_ID_MAX_def)
  have "length (gs_goals gs') \<le> GOAL_ID_MAX"
    using ActivateGoal_frame [OF activated.hyps(4) l] activated.IH by (simp add: ge_frame_def)
  moreover have "ge_inv 0 gs'"
  proof (cases "g = GOAL_ID_NONE")
    case True
    then show ?thesis using activated by (simp add: GoalsEngine_ActivateGoal_def Let_def)
  next
    case False
    have "ge_inv (if t = queue_task gs then 1 else 0) gs" using activated by simp
    from activation_keeps_decisions [OF activated.hyps(4) this _ False activated.hyps(3)] activated.IH
    show ?thesis by blast
  qed
  ultimately show ?case by blast
next
  case (delivered gs mem a q g now addr sync d gs')
  obtain q1 q2 where q: "vm_message_queue (gs_vm gs) = q1 @ a # q2" "q = q1 @ q2"
    using first_unblocked_SomeD [OF delivered.hyps(3)] by blast
  have i: "ge_inv 1 (taken_from_queue q gs)"
    unfolding q(2) by (rule taken_from_queue_inv) (use delivered q(1) in auto)
  have l: "length (gs_goals (taken_from_queue q gs)) \<le> 63" "queue_task (taken_from_queue q gs) = queue_task gs"
    using delivered.IH by (simp_all add: GOAL_ID_MAX_def taken_from_queue_def)
  have "length (gs_goals gs') \<le> GOAL_ID_MAX"
    using ActivateGoal_frame [OF delivered.hyps(7) l(1)] l(1) by (simp add: ge_frame_def GOAL_ID_MAX_def)
  moreover have "ge_inv 0 gs'"
    using activation_keeps_decisions [OF delivered.hyps(7) _ _ delivered.hyps(5,6)] i l by (simp add: GOAL_ID_MAX_def)
  ultimately show ?case by blast
next
  case (cleared gs g)
  then show ?case using ClearGoal_inv [of 0 gs g] ClearGoal_frame [of gs g] by (simp add: ge_frame_def)
next
  case (others_served gs vm)
  then show ?case using others_served_inv by fastforce
qed

lemma replicate_8: "replicate 8 x = [x, x, x, x, x, x, x, x]" and replicate_7: "replicate 7 x = [x, x, x, x, x, x, x]"
  by (simp_all add: numeral_eq_Suc)

lemma queued_message_slot:
  assumes "ge_inv 0 gs" "reads_locks mem gs"
    "a \<in> set (vm_message_queue (gs_vm gs))" "unicast_to (queue_task gs) a"
  shows "\<exists>i < length (pending_goals gs). am_condition_addr a = Some (lock_address gs i)
    \<and> sub_mask (pg_lock_mask (pending_goals gs ! i)) (active_goals_mask gs)
    \<and> (unblocked mem a \<longleftrightarrow> pg_lock_mask (pending_goals gs ! i) = 0)"
proof -
  obtain i where i: "i < length (pending_goals gs)" "am_condition_addr a = Some (lock_address gs i)"
    "am_c_width a = CONDITION_WIDTH_16BIT"
    using ge_invD(4) [OF assms(1)] assms(3,4) by (auto simp: queue_ok_def)
  have "slot_ok (active_goals_mask gs) (pending_goals gs ! i)" using ge_invD(3) [OF assms(1)] i(1) by simp
  then have "sub_mask (pg_lock_mask (pending_goals gs ! i)) (active_goals_mask gs)"
    "pg_lock (pending_goals gs ! i) = (if pg_lock_mask (pending_goals gs ! i) \<noteq> 0 then 1 else 0)"
    by (simp_all add: slot_ok_def GOAL_LOCK_MASK_BIT_def)
  moreover have "mem (lock_address gs i) AND 0xFFFF = ucast (pg_lock (pending_goals gs ! i))"
    using assms(2) i(1) by (simp add: reads_locks_def)
  ultimately show ?thesis
    using i by (intro exI [of _ i]) (simp add: unblocked_def get_message_condition_value_def)
qed

text \<open>
  C11: The queue cannot deadlock. In every state a goal set can reach by activations, deliveries from the
  queue, completions and whatever other components do with the scheduler, every queued decision
  is blocked by the lock of a slot that waits only for goals that are active, and the scheduler
  finds the lock open exactly if the slot waits for none. So when no goal is active any more,
  every queued decision is deliverable, and if one is pending the scheduler finds a message.
\<close>
theorem idle_goal_set_delivers:
  assumes "goals_reachable gs" "reads_locks mem gs"
  shows "(\<forall>a\<in>set (vm_message_queue (gs_vm gs)). unicast_to (queue_task gs) a
      \<longrightarrow> (\<exists>i < length (pending_goals gs). am_condition_addr a = Some (lock_address gs i)
            \<and> sub_mask (pg_lock_mask (pending_goals gs ! i)) (active_goals_mask gs)
            \<and> (unblocked mem a \<longleftrightarrow> pg_lock_mask (pending_goals gs ! i) = 0)))
    \<and> (active_goals_mask gs = GOAL_MASK_NONE \<longrightarrow>
        (\<forall>a\<in>set (vm_message_queue (gs_vm gs)). unicast_to (queue_task gs) a \<longrightarrow> unblocked mem a)
      \<and> (GoalsEngine_IsAnyGoalPending gs \<longrightarrow> first_unblocked mem (vm_message_queue (gs_vm gs)) \<noteq> None))"
proof -
  have inv: "ge_inv 0 gs" using goals_reachable_inv [OF assms(1)] by blast
  note slots = queued_message_slot [OF inv assms(2)]
  have ub: "unblocked mem a"
    if "active_goals_mask gs = GOAL_MASK_NONE" "a \<in> set (vm_message_queue (gs_vm gs))" "unicast_to (queue_task gs) a" for a
    using slots [OF that(2,3)] that(1) by (auto simp: sub_mask_def GOAL_MASK_NONE_def)
  have "first_unblocked mem (vm_message_queue (gs_vm gs)) \<noteq> None"
    if "active_goals_mask gs = GOAL_MASK_NONE" "queue_msg_count gs \<noteq> 0"
  proof -
    have "posted_ids (queue_task gs) (gs_vm gs) \<noteq> {#}"
      using inv that(2) by (auto simp: ge_inv_def)
    then have "filter (unicast_to (queue_task gs)) (vm_message_queue (gs_vm gs)) \<noteq> []"
      using posted_ids_direct [OF ge_invD(2) [OF inv]] by (auto simp: filter_empty_conv)
    then obtain a where "a \<in> set (vm_message_queue (gs_vm gs))" "unicast_to (queue_task gs) a"
      by (auto simp: filter_empty_conv)
    with ub [OF that(1)] show ?thesis by (auto simp: first_unblocked_None_iff)
  qed
  with slots ub show ?thesis by (auto simp: GoalsEngine_IsAnyGoalPending_def)
qed

text \<open>Goal 1 runs, goal 3 is queued behind it, and goal 1 completes.\<close>

definition three_goal_set :: "(nat, nat, unit) goal_set option" where
  "three_goal_set = GoalsEngine_CreateGoalSet three_goals 7 4 1000 idle_vm"

theorem idle_goal_set_delivers_witness:
  "\<exists>gs1 gs2. do { gs0 \<leftarrow> three_goal_set;
         gs1 \<leftarrow> GoalsEngine_ActivateGoal 0 0 (\<lambda>_. False) 1 9 101 None gs0;
         GoalsEngine_ActivateGoal 0 0 (\<lambda>_. False) 3 9 103 None gs1 } = Some gs1
    \<and> first_unblocked (\<lambda>_. 1) (vm_message_queue (gs_vm gs1)) = None
    \<and> gs2 = GoalsEngine_ClearGoal gs1 1
    \<and> first_unblocked (\<lambda>_. 0) (vm_message_queue (gs_vm gs2)) \<noteq> None"
proof -
  let ?gs0 = "goals_running 0"
  have c: "three_goal_set = Some ?gs0"
    by (simp add: three_goal_set_def GoalsEngine_CreateGoalSet_def goalsEngine_ValidateInitParams_def three_goals_def
      GOAL_ID_MIN_def GOAL_ID_MAX_def goals_running_def INITIAL_GOAL_QUEUE_COUNT_def)
  let ?gs1 = "(goals_running 2)\<lparr>gs_calls := [Call_start_proc 1 None]\<rparr>"
  have a1: "GoalsEngine_ActivateGoal 0 0 (\<lambda>_. False) 1 9 101 None ?gs0 = Some ?gs1"
    by (simp add: GoalsEngine_ActivateGoal_def goals_running_def three_goals_def simple_goal_def Let_def
      GOAL_ID_NONE_def goalsEngine_HandleDuplicateCancellationGoal_def goal_at_def
      goalsEngine_GoalCancelsActive_def goalsEngine_GoalCanRunNow_def GOAL_MASK_NONE_def
      goalsEngine_GoalQueueSize_def goalsEngine_StartGoal_def goalsEngine_UpdateQueueMasks_def log_call_def
      goalsEngine_ResetPendingQueueIfEmpty_def GOAL_MASK_def)
  let ?e = "\<lparr>pg_id = 3, pg_rule_id = 103, pg_lock = 1, pg_lock_mask = 2\<rparr>"
  have "\<exists>gs2 m. GoalsEngine_ActivateGoal 0 0 (\<lambda>_. False) 3 9 103 None ?gs1 = Some gs2
      \<and> pending_goals gs2 = ?e # replicate 7 empty_entry \<and> active_goals_mask gs2 = 2
      \<and> vm_message_queue (gs_vm gs2) = [m] \<and> am_condition_addr m = Some 1004 \<and> am_c_width m = CONDITION_WIDTH_16BIT
      \<and> queue_task gs2 = 7 \<and> pending_goals_addr gs2 = 1000
      \<and> queue_msg_count gs2 = 1"
    by (simp add: GoalsEngine_ActivateGoal_def goals_running_def three_goals_def simple_goal_def Let_def
      GOAL_ID_NONE_def goalsEngine_HandleDuplicateCancellationGoal_def goal_at_def
      goalsEngine_GoalCancelsActive_def goalsEngine_GoalCanRunNow_def GOAL_MASK_NONE_def
      activate_contended_def goalsEngine_CheckIfNewGoalCancelsActiveGoals_def
      goalsEngine_HandleConcurrentGoals_def goalsEngine_GoalRunsConcurrently_def SET_LOCK_FROM_MASK_def
      goalsEngine_HandleExclusiveGoals_def goalsEngine_QueueGoal_def find_slot_def empty_entry_def upt_rec
      goalsEngine_ResetPendingQueueIfEmpty_def goalsEngine_GoalQueueSize_def GOAL_LOCK_MASK_BIT_def lock_address_def
      MessageSendConditionally_def vm_message_send_later_def recipients_of_def insert_msg_def idle_vm_def
      replicate_8 replicate_7 split: prod.splits)
  then obtain gs2 m where gs2: "GoalsEngine_ActivateGoal 0 0 (\<lambda>_. False) 3 9 103 None ?gs1 = Some gs2"
    "pending_goals gs2 = ?e # replicate 7 empty_entry" "active_goals_mask gs2 = 2"
    "vm_message_queue (gs_vm gs2) = [m]" "am_condition_addr m = Some 1004" "am_c_width m = CONDITION_WIDTH_16BIT"
    "queue_msg_count gs2 = 1" by blast
  have r0: "goals_reachable ?gs0"
    by (rule goals_reachable.created [OF c [unfolded three_goal_set_def]])
      (simp_all add: INVALIDATED_TASK_def idle_vm_def)
  have "goals_reachable ?gs1"
    by (rule goals_reachable.activated [OF r0 _ _ a1]) (simp_all add: goals_running_def combinable_def system_message_ids)
  then have "goals_reachable gs2"
    by (rule goals_reachable.activated [OF _ _ _ gs2(1)])
      (simp_all add: goals_running_def combinable_def system_message_ids)
  then have r: "goals_reachable (GoalsEngine_ClearGoal gs2 1)" by (rule goals_reachable.cleared)
  have p: "pending_goals (GoalsEngine_ClearGoal gs2 1)
      = \<lparr>pg_id = 3, pg_rule_id = 103, pg_lock = 0, pg_lock_mask = 0\<rparr> # replicate 7 empty_entry"
    by (simp add: GoalsEngine_ClearGoal_def gs2(2) empty_entry_def SET_LOCK_FROM_MASK_def REMOVE_GOAL_FROM_MASK_def
      GOAL_MASK_def GOAL_MASK_NONE_def GOAL_ID_NONE_def)
  have l: "reads_locks (\<lambda>_. 0) (GoalsEngine_ClearGoal gs2 1)"
    unfolding reads_locks_def p by (auto simp: empty_entry_def less_Suc_eq_0_disj nth_Cons')
  have idle: "active_goals_mask (GoalsEngine_ClearGoal gs2 1) = GOAL_MASK_NONE"
    by (simp add: GoalsEngine_ClearGoal_def gs2(3) REMOVE_GOAL_FROM_MASK_def GOAL_MASK_def GOAL_MASK_NONE_def)
  have "GoalsEngine_IsAnyGoalPending (GoalsEngine_ClearGoal gs2 1)"
    by (simp add: GoalsEngine_IsAnyGoalPending_def GoalsEngine_ClearGoal_def gs2(7))
  with idle_goal_set_delivers [OF r l] idle
  have "first_unblocked (\<lambda>_. 0) (vm_message_queue (gs_vm (GoalsEngine_ClearGoal gs2 1))) \<noteq> None" by blast
  moreover have "first_unblocked (\<lambda>_. 1) (vm_message_queue (gs_vm gs2)) = None"
    by (simp add: gs2(4-6) unblocked_def get_message_condition_value_def)
  moreover have "do { gs0 \<leftarrow> three_goal_set;
         gs1 \<leftarrow> GoalsEngine_ActivateGoal 0 0 (\<lambda>_. False) 1 9 101 None gs0;
         GoalsEngine_ActivateGoal 0 0 (\<lambda>_. False) 3 9 103 None gs1 } = Some gs2"
    by (simp only: c a1 gs2(1) bind.bind_lunit)
  ultimately show ?thesis by blast
qed

definition goal_3_queued :: "(nat, nat, unit) goal_set" where
  "goal_3_queued = (goals_running 0)\<lparr>queue_msg_count := 1,
     pending_goals := \<lparr>pg_id = 3, pg_rule_id = 103, pg_lock = 0, pg_lock_mask = 0\<rparr> # replicate 7 empty_entry,
     gs_vm := idle_vm\<lparr>vm_message_queue := [(plain_msg 7 103 0)\<lparr>am_condition_addr := Some 1004,
       am_c_width := CONDITION_WIDTH_16BIT\<rparr>]\<rparr>\<rparr>"

text \<open>
  A goal is still reported as queued while it runs: with goal 1 active and goals 3 and 4
  queued behind it, goal 1 completes, the decision of goal 3 is delivered and goal 3 starts; its
  only decision has left the queue, yet \<open>GoalsEngine_IsGoalQueued\<close> answers TRUE for it, because its slot
  is released only when the whole queue is empty.
\<close>
lemma running_goal_reported_queued:
  "let s0 = (goals_running 2)\<lparr>gs_goals := three_goals @ [simple_goal goal_contention_wait None 4]\<rparr>
   in \<exists>s1 s2 s4. GoalsEngine_ActivateGoal 0 0 (\<lambda>_. False) 3 9 103 None s0 = Some s1 \<and>
     GoalsEngine_ActivateGoal 0 0 (\<lambda>_. False) 4 9 104 None s1 = Some s2 \<and>
     map am_id (vm_message_queue (gs_vm s2)) = [103, 104] \<and>
     (let s3 = GoalsEngine_ClearGoal s2 1;
          delivered = s3\<lparr>gs_vm := (gs_vm s3)\<lparr>vm_message_queue := tl (vm_message_queue (gs_vm s3))\<rparr>\<rparr>
      in GoalsEngine_ActivateGoal 0 0 (\<lambda>_. False) 3 7 103 None delivered = Some s4) \<and>
     gs_calls s4 = [Call_start_proc 3 None] \<and> GoalsEngine_IsGoalActive s4 3 \<and>
     map am_id (vm_message_queue (gs_vm s4)) = [104] \<and> GoalsEngine_IsGoalQueued s4 3"
  by (simp add: goals_running_def three_goals_def simple_goal_def Let_def upt_rec
      GoalsEngine_ActivateGoal_def GOAL_ID_NONE_def goalsEngine_HandleDuplicateCancellationGoal_def goal_at_def
      goalsEngine_GoalCancelsActive_def goalsEngine_GoalCanRunNow_def GOAL_MASK_NONE_def GOAL_LOCK_MASK_BIT_def
      activate_contended_def goalsEngine_CheckIfNewGoalCancelsActiveGoals_def
      goalsEngine_HandleConcurrentGoals_def goalsEngine_GoalRunsConcurrently_def SET_LOCK_FROM_MASK_def
      goalsEngine_HandleExclusiveGoals_def goalsEngine_QueueGoal_def find_slot_def empty_entry_def
      goalsEngine_StartGoal_def goalsEngine_UpdateQueueMasks_def update_queue_entry_def log_call_def
      goalsEngine_ResetPendingQueueIfEmpty_def goalsEngine_GoalQueueSize_def GoalsEngine_ClearGoal_def
      REMOVE_GOAL_FROM_MASK_def GOAL_MASK_def GoalsEngine_IsGoalActive_def GoalsEngine_IsGoalQueued_def
      MessageSendConditionally_def vm_message_send_later_def recipients_of_def insert_msg_def idle_vm_def
      VM_DIFF_def similar_def is_multicast_def system_message_ids vm_event_trigger_def replicate_8)

end
