(* ===== verification/KeyValueList.thy ===== *)
theory KeyValueList
  imports Prelude "HOL-Library.Multiset"
begin

text \<open>
  The key-value list, \<open>libs/key_value_list/key_value_list.c\<close>: values of one, two and four bytes are
  kept in one array per width, their keys in a single array in the same order (first the keys of
  the 8-bit values, then those of the 16-bit and 32-bit ones); all other values are kept in a linked
  list with their key. The counters are eight bits wide. A value is the list of its bytes. Lists are valid
  pointers, allocation succeeds; accesses outside an allocation are \<open>None\<close>. The removal of a value of
  one, two or four bytes reads the element behind the array of its width and the element behind the
  array of keys. What is there is not the list's memory: it is an argument of the removal, which says
  of each array whether the element behind it can be read and what it then is. If it cannot be read,
  the removal is a fault.
\<close>

section \<open>Data\<close>

record large_kv_element =
  lk_len :: u16
  lk_key :: u16
  lk_data :: "u8 list"

record kv_list =
  len_keys :: u8
  len8 :: u8
  len16 :: u8
  len32 :: u8
  kv_keys :: "u16 option list"
  values8 :: "u8 list option list"
  values16 :: "u8 list option list"
  values32 :: "u8 list option list"
  kv_head :: "large_kv_element list"

text \<open>Where the pointer returned by a lookup points to.\<close>

datatype kv_location = In_values8 nat | In_values16 nat | In_values32 nat | In_element nat

definition kv_load :: "kv_list \<Rightarrow> kv_location \<Rightarrow> u8 list option" where
  "kv_load l loc =
     (case loc of
        In_values8 i \<Rightarrow> read_cell (values8 l) i
      | In_values16 i \<Rightarrow> read_cell (values16 l) i
      | In_values32 i \<Rightarrow> read_cell (values32 l) i
      | In_element i \<Rightarrow> if i < length (kv_head l) then Some (lk_data (kv_head l ! i)) else None)"

text \<open>The memory behind the end of each array; \<open>None\<close> where reading it is a fault.\<close>

record memory_behind =
  behind_keys :: "u16 option"
  behind8 :: "u8 list option"
  behind16 :: "u8 list option"
  behind32 :: "u8 list option"

section \<open>Operations\<close>

definition KeyValueList_Create :: kv_list where
  "KeyValueList_Create = \<lparr>len_keys = 0, len8 = 0, len16 = 0, len32 = 0, kv_keys = [], values8 = [],
     values16 = [], values32 = [], kv_head = []\<rparr>"

text \<open>The loops over the first \<open>n\<close> keys from index \<open>i\<close> and over the linked list.\<close>

fun find_key :: "u16 option list \<Rightarrow> u16 \<Rightarrow> nat list \<Rightarrow> nat option option" where
  "find_key ks k [] = Some None"
| "find_key ks k (i # is) =
     do { c \<leftarrow> read_cell ks i; if c = k then Some (Some i) else find_key ks k is }"

definition find_large :: "kv_list \<Rightarrow> u16 \<Rightarrow> nat option" where
  "find_large l k = find (\<lambda>i. lk_key (kv_head l ! i) = k) [0 ..< length (kv_head l)]"

definition KeyValueList_Get :: "kv_list \<Rightarrow> u16 \<Rightarrow> (kv_location \<times> nat) option option" where
  "KeyValueList_Get l k =
     (case find_large l k of
        Some i \<Rightarrow> Some (Some (In_element i, unat (lk_len (kv_head l ! i))))
      | None \<Rightarrow>
          do {
            r \<leftarrow> find_key (kv_keys l) k [0 ..< unat (len_keys l)];
            case r of
              None \<Rightarrow> Some None
            | Some index \<Rightarrow>
                if index < unat (len8 l) then Some (Some (In_values8 index, 1))
                else let index = index - unat (len8 l)
                     in if index < unat (len16 l) then Some (Some (In_values16 index, 2))
                        else Some (Some (In_values32 (index - unat (len16 l)), 4))
          })"

definition KeyValueList_IsSet :: "kv_list \<Rightarrow> u16 \<Rightarrow> bool option" where
  "KeyValueList_IsSet l k = map_option (\<lambda>r. r \<noteq> None) (KeyValueList_Get l k)"

definition KeyValueList_GetSized :: "kv_list \<Rightarrow> u16 \<Rightarrow> nat \<Rightarrow> kv_location option option" where
  "KeyValueList_GetSized l k sz =
     do {
       r \<leftarrow> (if sz = 1 then
               map_option (map_option In_values8) (find_key (kv_keys l) k [0 ..< unat (len8 l)])
             else if sz = 2 then
               map_option (map_option (\<lambda>i. In_values16 (i - unat (len8 l))))
                 (find_key (kv_keys l) k [unat (len8 l) ..< unat (len8 l) + unat (len16 l)])
             else if sz = 4 then
               map_option (map_option (\<lambda>i. In_values32 (i - (unat (len8 l) + unat (len16 l)))))
                 (find_key (kv_keys l) k [unat (len8 l) + unat (len16 l)
                    ..< unat (len8 l) + unat (len16 l) + unat (len32 l)])
             else Some (map_option In_element (find_large l k)));
       case r of
         Some loc \<Rightarrow> Some (Some loc)
       | None \<Rightarrow> do { set \<leftarrow> KeyValueList_IsSet l k; PanicFalse (\<not> set); Some None }
     }"

text \<open>One value more at the end of the array \<open>vs\<close> of \<open>n\<close> values.\<close>

definition push_value :: "u8 list option list \<Rightarrow> nat \<Rightarrow> u8 list \<Rightarrow> u8 list option list option" where
  "push_value vs n value = write_cell (realloc_cells vs (n + 1)) n (Some value)"

definition insert_key :: "u16 \<Rightarrow> nat \<Rightarrow> kv_list \<Rightarrow> kv_list option" where
  "insert_key key key_index l =
     do {
       let n = unat (len_keys l);
       PanicFalse (key_index \<le> n);
       ks \<leftarrow> memmove_cells (realloc_cells (kv_keys l) (n + 1)) (key_index + 1) key_index (n - key_index);
       ks' \<leftarrow> write_cell ks key_index (Some key);
       Some (l\<lparr>kv_keys := ks', len_keys := len_keys l + 1\<rparr>)
     }"

definition keyValueList_addKeyValuePair :: "kv_list \<Rightarrow> u16 \<Rightarrow> u8 list \<Rightarrow> kv_list option" where
  "keyValueList_addKeyValuePair l key value =
     do {
       let sz = length value;
       (key_index, l1) \<leftarrow>
         (if sz = 1 then do {
            vs \<leftarrow> push_value (values8 l) (unat (len8 l)) value;
            Some (unat (len8 l), l\<lparr>values8 := vs, len8 := len8 l + 1\<rparr>)
          }
          else if sz = 2 then do {
            vs \<leftarrow> push_value (values16 l) (unat (len16 l)) value;
            Some (unat (len8 l) + unat (len16 l), l\<lparr>values16 := vs, len16 := len16 l + 1\<rparr>)
          }
          else if sz = 4 then do {
            vs \<leftarrow> push_value (values32 l) (unat (len32 l)) value;
            Some (unat (len8 l) + unat (len16 l) + unat (len32 l), l\<lparr>values32 := vs, len32 := len32 l + 1\<rparr>)
          }
          else Some (0, l\<lparr>kv_head := \<lparr>lk_len = of_nat sz, lk_key = key, lk_data = value\<rparr> # kv_head l\<rparr>));
       if sz \<le> 4 then insert_key key key_index l1 else Some l1
     }"

definition KeyValueList_Add :: "kv_list \<Rightarrow> u16 \<Rightarrow> u8 list \<Rightarrow> (bool \<times> kv_list) option" where
  "KeyValueList_Add l key value =
     do {
       set \<leftarrow> KeyValueList_IsSet l key;
       if \<not> set then do { l' \<leftarrow> keyValueList_addKeyValuePair l key value; Some (True, l') }
       else Some (False, l)
     }"

text \<open>
  Take element \<open>i\<close> out of an array of \<open>n\<close> elements and shrink it; an empty array is freed. The
  elements moved are those from \<open>i + 1\<close> to \<open>n\<close>, and element \<open>n\<close> is behind the array.
\<close>

definition remove_element :: "'a option \<Rightarrow> 'a option list \<Rightarrow> nat \<Rightarrow> nat \<Rightarrow> 'a option list option" where
  "remove_element behind vs i n =
     do {
       x \<leftarrow> behind;
       vs' \<leftarrow> memmove_cells (vs @ [Some x]) i (i + 1) (n - i);
       Some (if n - 1 \<noteq> 0 then realloc_cells (take n vs') (n - 1) else [])
     }"

definition KeyValueList_Remove :: "memory_behind \<Rightarrow> kv_list \<Rightarrow> u16 \<Rightarrow> kv_list option" where
  "KeyValueList_Remove mem l key =
     (case find_large l key of
        Some i \<Rightarrow> Some (l\<lparr>kv_head := take i (kv_head l) @ drop (Suc i) (kv_head l)\<rparr>)
      | None \<Rightarrow>
          do {
            r \<leftarrow> find_key (kv_keys l) key [0 ..< unat (len_keys l)];
            case r of
              None \<Rightarrow> Some l
            | Some key_index \<Rightarrow>
                do {
                  l1 \<leftarrow>
                    (if key_index < unat (len8 l) then do {
                       vs \<leftarrow> remove_element (behind8 mem) (values8 l) key_index (unat (len8 l));
                       Some (l\<lparr>values8 := vs, len8 := len8 l - 1\<rparr>)
                     }
                     else let index = key_index - unat (len8 l)
                     in if index < unat (len16 l) then do {
                       vs \<leftarrow> remove_element (behind16 mem) (values16 l) index (unat (len16 l));
                       Some (l\<lparr>values16 := vs, len16 := len16 l - 1\<rparr>)
                     }
                     else let index = index - unat (len16 l)
                     in if index < unat (len32 l) then do {
                       vs \<leftarrow> remove_element (behind32 mem) (values32 l) index (unat (len32 l));
                       Some (l\<lparr>values32 := vs, len32 := len32 l - 1\<rparr>)
                     }
                     else None);
                  ks \<leftarrow> remove_element (behind_keys mem) (kv_keys l1) key_index (unat (len_keys l1));
                  Some (l1\<lparr>kv_keys := ks, len_keys := len_keys l1 - 1\<rparr>)
                }
          })"

definition KeyValueList_RemoveAll :: "kv_list \<Rightarrow> kv_list" where
  "KeyValueList_RemoveAll l = KeyValueList_Create"

section \<open>Arrays as lists\<close>

lemma realloc_one_more [simp]:
  "realloc_cells (map Some xs) (Suc (length xs)) = map Some xs @ [None]"
  by (simp add: realloc_cells_def)

lemma push_value_Some: "n = length xs \<Longrightarrow> push_value (map Some xs) n x = Some (map Some (xs @ [x]))"
  by (simp add: push_value_def write_cell_def list_update_append)

lemma insert_cells:
  assumes "i \<le> length xs"
  shows "do { ys \<leftarrow> memmove_cells (map Some xs @ [None]) (Suc i) i (length xs - i); write_cell ys i (Some x) }
    = Some (map Some (take i xs @ x # drop i xs))"
proof -
  have "memmove_cells (map Some xs @ [None]) (Suc i) i (length xs - i)
      = Some (take (Suc i) (map Some xs @ [None]) @ map Some (drop i xs))"
    using assms by (auto simp: memmove_cells_def drop_map)
  moreover have "take (Suc i) (map Some xs @ [None]) = map Some (take i xs) @ [(map Some xs @ [None]) ! i]"
    using assms by (subst take_Suc_conv_app_nth) (auto simp: take_map)
  ultimately have "memmove_cells (map Some xs @ [None]) (Suc i) i (length xs - i)
      = Some (map Some (take i xs) @ (map Some xs @ [None]) ! i # map Some (drop i xs))"
    by (simp del: take_append)
  then show ?thesis
    using assms by (simp add: write_cell_def list_update_append min_def)
qed

text \<open>The removal depends on the memory behind the array, but not on its contents.\<close>

lemma remove_element_Some:
  assumes "i < length xs" "n = length xs"
  shows "remove_element behind (map Some xs) i n
    = (if behind = None then None else Some (map Some (take i xs @ drop (Suc i) xs)))"
proof (cases behind)
  case (Some x)
  have "memmove_cells (map Some xs @ [Some x]) i (Suc i) (length xs - i)
      = Some (map Some (take i xs @ drop (Suc i) xs) @ [Some x, Some x])"
    using assms(1) by (simp add: memmove_cells_def take_map drop_map Suc_diff_Suc)
  moreover have "length xs = 1 \<Longrightarrow> take i xs @ drop (Suc i) xs = []" using assms by auto
  ultimately show ?thesis
    using assms Some by (auto simp: remove_element_def realloc_cells_def)
qed (simp add: remove_element_def)

section \<open>The map a list stands for\<close>

definition kv_values :: "kv_list \<Rightarrow> u8 list option list" where
  "kv_values l = values8 l @ values16 l @ values32 l"

definition kv_entries :: "kv_list \<Rightarrow> (u16 \<times> u8 list) list" where
  "kv_entries l = map (\<lambda>e. (lk_key e, lk_data e)) (kv_head l)
     @ zip (map the (kv_keys l)) (map the (kv_values l))"

definition kv_view :: "kv_list \<Rightarrow> u16 \<rightharpoonup> u8 list" where
  "kv_view l = map_of (kv_entries l)"

definition all_written :: "nat \<Rightarrow> u8 list option list \<Rightarrow> bool" where
  "all_written n vs = (\<forall>v\<in>set vs. map_option length v = Some n)"

definition kv_ok :: "kv_list \<Rightarrow> bool" where
  "kv_ok l = (unat (len8 l) = length (values8 l) \<and> unat (len16 l) = length (values16 l)
     \<and> unat (len32 l) = length (values32 l) \<and> unat (len_keys l) = length (kv_keys l)
     \<and> length (kv_keys l) = length (kv_values l) \<and> None \<notin> set (kv_keys l)
     \<and> all_written 1 (values8 l) \<and> all_written 2 (values16 l) \<and> all_written 4 (values32 l)
     \<and> (\<forall>e\<in>set (kv_head l). unat (lk_len e) = length (lk_data e) \<and> 4 < length (lk_data e))
     \<and> distinct (map fst (kv_entries l)))"

lemma no_None_map: "None \<notin> set xs \<Longrightarrow> xs = map Some (map the xs)"
  by (induction xs) auto

lemma all_written_map: "all_written n xs \<Longrightarrow> xs = map Some (map the xs)"
  by (rule no_None_map) (auto simp: all_written_def)

text \<open>The state in terms of the keys and values themselves.\<close>

definition kv_parts ::
  "kv_list \<Rightarrow> u16 list \<Rightarrow> u8 list list \<Rightarrow> u8 list list \<Rightarrow> u8 list list \<Rightarrow> bool" where
  "kv_parts l ks v8 v16 v32 = (kv_keys l = map Some ks \<and> values8 l = map Some v8 \<and> values16 l = map Some v16
     \<and> values32 l = map Some v32 \<and> unat (len8 l) = length v8 \<and> unat (len16 l) = length v16
     \<and> unat (len32 l) = length v32 \<and> unat (len_keys l) = length ks
     \<and> length ks = length v8 + length v16 + length v32
     \<and> (\<forall>v\<in>set v8. length v = 1) \<and> (\<forall>v\<in>set v16. length v = 2) \<and> (\<forall>v\<in>set v32. length v = 4)
     \<and> (\<forall>e\<in>set (kv_head l). unat (lk_len e) = length (lk_data e) \<and> 4 < length (lk_data e))
     \<and> distinct (map lk_key (kv_head l) @ ks))"

lemma kv_parts_entries:
  "kv_parts l ks v8 v16 v32 \<Longrightarrow> map fst (kv_entries l) = map lk_key (kv_head l) @ ks"
  by (simp add: kv_parts_def kv_entries_def kv_values_def comp_def map_fst_zip)

lemma kv_parts_lengths:
  assumes "kv_parts l ks v8 v16 v32"
  shows "unat (len8 l) = length v8" "unat (len16 l) = length v16" "unat (len32 l) = length v32"
    "unat (len_keys l) = length ks" "length ks = length v8 + length v16 + length v32"
  using assms by (simp_all add: kv_parts_def)

lemma kv_parts_ok: "kv_parts l ks v8 v16 v32 \<Longrightarrow> kv_ok l"
  using kv_parts_entries [of l ks v8 v16 v32]
  by (auto simp: kv_parts_def kv_ok_def kv_values_def all_written_def)

lemma kv_ok_parts:
  assumes "kv_ok l" shows "\<exists>ks v8 v16 v32. kv_parts l ks v8 v16 v32"
proof -
  have w: "values8 l = map Some (map the (values8 l))" "values16 l = map Some (map the (values16 l))"
    "values32 l = map Some (map the (values32 l))" "kv_keys l = map Some (map the (kv_keys l))"
    using assms by (auto simp only: kv_ok_def intro: all_written_map no_None_map)
  have "map fst (kv_entries l) = map lk_key (kv_head l) @ map the (kv_keys l)"
    using assms by (simp add: kv_entries_def kv_ok_def comp_def map_fst_zip)
  then have "kv_parts l (map the (kv_keys l)) (map the (values8 l)) (map the (values16 l)) (map the (values32 l))"
    using assms w unfolding kv_parts_def kv_ok_def kv_values_def all_written_def by auto
  then show ?thesis by blast
qed

lemma kv_view_parts:
  "kv_parts l ks v8 v16 v32 \<Longrightarrow> kv_view l
     = map_of (map (\<lambda>e. (lk_key e, lk_data e)) (kv_head l) @ zip ks (v8 @ v16 @ v32))"
  by (simp add: kv_view_def kv_entries_def kv_parts_def kv_values_def comp_def)

section \<open>Lookups\<close>

lemma find_key_Some:
  "\<forall>i\<in>set is. i < length ks \<Longrightarrow> find_key (map Some ks) k is = Some (find (\<lambda>i. ks ! i = k) is)"
  by (induction "is") (auto simp: read_cell_def)

lemma find_nth_distinct:
  assumes "distinct ks" "i < length ks" "i \<in> set is"
  shows "find (\<lambda>j. ks ! j = ks ! i) is = Some i \<or> (\<exists>j\<in>set is. j \<ge> length ks)"
proof (cases "\<exists>j\<in>set is. j \<ge> length ks")
  case False
  then show ?thesis
    using assms(3)
  proof (induction "is")
    case (Cons a "is")
    then show ?case using assms(1,2) by (auto simp: nth_eq_iff_index_eq not_le)
  qed simp
qed simp

lemma find_large_Some: "find_large l k = Some i \<Longrightarrow> i < length (kv_head l) \<and> lk_key (kv_head l ! i) = k"
  using find_range_SomeD by (fastforce simp: find_large_def)

lemma find_large_None: "find_large l k = None \<Longrightarrow> k \<notin> lk_key ` set (kv_head l)"
  by (auto simp: find_large_def find_None_iff in_set_conv_nth)

lemma kv_view_large:
  assumes "kv_parts l ks v8 v16 v32" "i < length (kv_head l)"
  shows "kv_view l (lk_key (kv_head l ! i)) = Some (lk_data (kv_head l ! i))"
proof -
  let ?h = "map (\<lambda>e. (lk_key e, lk_data e)) (kv_head l)"
  have "map_of ?h (lk_key (kv_head l ! i)) = Some (lk_data (kv_head l ! i))"
    using assms by (intro map_of_is_SomeI) (auto simp: kv_parts_def comp_def)
  with kv_view_parts [OF assms(1)] show ?thesis by (simp add: map_add_Some_iff)
qed

lemma map_of_large_None: "k \<notin> lk_key ` set es \<Longrightarrow> map_of (map (\<lambda>e. (lk_key e, lk_data e)) es) k = None"
  by (induction es) auto

lemma kv_view_small:
  assumes "kv_parts l ks v8 v16 v32" "i < length ks"
  shows "kv_view l (ks ! i) = Some ((v8 @ v16 @ v32) ! i)"
proof -
  have "lk_key ` set (kv_head l) \<inter> set ks = {}" using assms(1) by (simp add: kv_parts_def)
  with nth_mem [OF assms(2)] have "ks ! i \<notin> lk_key ` set (kv_head l)" by blast
  moreover have "map_of (zip ks (v8 @ v16 @ v32)) (ks ! i) = Some ((v8 @ v16 @ v32) ! i)"
    using assms by (intro map_of_zip_nth) (auto simp: kv_parts_def)
  ultimately show ?thesis
    using kv_view_parts [OF assms(1)] by (simp add: map_add_def map_of_large_None)
qed

lemma kv_view_None:
  assumes "kv_parts l ks v8 v16 v32" "k \<notin> lk_key ` set (kv_head l)" "k \<notin> set ks"
  shows "kv_view l k = None"
  using assms kv_view_parts [OF assms(1)]
  by (auto simp: map_add_def map_of_large_None kv_parts_def map_of_zip_is_None split: option.splits)

lemma find_None_notin: "find (\<lambda>i. ks ! i = k) [0 ..< length ks] = None \<longleftrightarrow> k \<notin> set ks"
  by (auto simp: find_None_iff in_set_conv_nth)

lemma Get_parts:
  assumes "kv_parts l ks v8 v16 v32"
  shows "\<exists>r. KeyValueList_Get l k = Some r \<and> (case r of None \<Rightarrow> kv_view l k = None
    | Some (loc, n) \<Rightarrow> \<exists>v. kv_load l loc = Some v \<and> kv_view l k = Some v \<and> n = length v)"
proof (cases "find_large l k")
  case (Some i)
  then show ?thesis
    using find_large_Some [OF Some] kv_view_large [OF assms, of i] assms
    by (auto simp: KeyValueList_Get_def kv_load_def kv_parts_def)
next
  case None
  have f: "find_key (kv_keys l) k [0 ..< unat (len_keys l)] = Some (find (\<lambda>i. ks ! i = k) [0 ..< length ks])"
    using assms by (simp add: kv_parts_def find_key_Some)
  show ?thesis
  proof (cases "find (\<lambda>i. ks ! i = k) [0 ..< length ks]")
    case None
    then show ?thesis
      using kv_view_None [OF assms find_large_None [OF \<open>find_large l k = None\<close>]]
      by (simp add: KeyValueList_Get_def \<open>find_large l k = None\<close> f find_None_notin [symmetric])
  next
    case (Some i)
    then have i: "i < length ks" "ks ! i = k" using find_range_SomeD [OF Some] by auto
    have "KeyValueList_Get l k =
        (if i < length v8 then Some (Some (In_values8 i, 1))
         else if i - length v8 < length v16 then Some (Some (In_values16 (i - length v8), 2))
         else Some (Some (In_values32 (i - length v8 - length v16), 4)))"
      by (simp add: KeyValueList_Get_def \<open>find_large l k = None\<close> f Some kv_parts_lengths(1-3) [OF assms] Let_def)
    then show ?thesis
      using kv_view_small [OF assms i(1)] i assms
      by (auto simp: kv_load_def read_cell_def kv_parts_def nth_append)
  qed
qed

section \<open>Adding and removing\<close>

lemma map_of_inserted:
  "k \<notin> fst ` set (xs @ ys) \<Longrightarrow> map_of (xs @ (k, v) # ys) = (map_of (xs @ ys))(k \<mapsto> v)"
proof (intro ext)
  fix x
  assume "k \<notin> fst ` set (xs @ ys)"
  then have "map_of xs k = None" "map_of ys k = None" by (auto simp: map_of_eq_None_iff)
  then show "map_of (xs @ (k, v) # ys) x = ((map_of (xs @ ys))(k \<mapsto> v)) x"
    by (auto simp: map_add_def split: option.splits)
qed

lemma map_of_deleted:
  "k \<notin> fst ` set (xs @ ys) \<Longrightarrow> map_of (xs @ ys) = (map_of (xs @ (k, v) # ys))(k := None)"
proof (intro ext)
  fix x
  assume "k \<notin> fst ` set (xs @ ys)"
  then have "map_of xs k = None" "map_of ys k = None" by (auto simp: map_of_eq_None_iff)
  then show "map_of (xs @ ys) x = ((map_of (xs @ (k, v) # ys))(k := None)) x"
    by (auto simp: map_add_def split: option.splits)
qed

lemma zip_inserted:
  assumes "length ks = length vs" "i \<le> length ks"
  shows "zip (take i ks @ k # drop i ks) (take i vs @ v # drop i vs)
    = take i (zip ks vs) @ (k, v) # drop i (zip ks vs)"
  using assms by (simp add: take_zip drop_zip zip_append min_def)

lemma distinct_insert: "i \<le> length ks \<Longrightarrow> distinct (as @ take i ks @ k # drop i ks)
    \<longleftrightarrow> distinct (as @ ks) \<and> k \<notin> set as \<and> k \<notin> set ks"
proof -
  have "mset (as @ take i ks @ k # drop i ks) = mset (k # as @ ks)"
    by (metis (no_types, opaque_lifting) append_take_drop_id mset.simps(2) mset_append
      union_mset_add_mset_left union_mset_add_mset_right)
  then have "distinct (as @ take i ks @ k # drop i ks) = distinct (k # as @ ks)"
    by (metis mset_eq_imp_distinct_iff)
  then show ?thesis by auto
qed

lemma kv_view_inserted:
  assumes "kv_parts l ks v8 v16 v32" "kv_parts l' (take i ks @ k # drop i ks) w8 w16 w32"
    "w8 @ w16 @ w32 = take i (v8 @ v16 @ v32) @ v # drop i (v8 @ v16 @ v32)" "i \<le> length ks"
    "kv_head l' = kv_head l"
  shows "kv_view l' = (kv_view l)(k \<mapsto> v)"
proof -
  let ?vs = "v8 @ v16 @ v32" and ?h = "map (\<lambda>e. (lk_key e, lk_data e)) (kv_head l)"
  have len: "length ks = length ?vs" using assms(1) by (simp add: kv_parts_def)
  have fresh: "k \<notin> lk_key ` set (kv_head l)" "k \<notin> set ks"
    using assms(2,5) distinct_insert [OF assms(4), of "map lk_key (kv_head l)" k] by (auto simp: kv_parts_def)
  have nf: "k \<notin> fst ` set (?h @ take i (zip ks ?vs) @ drop i (zip ks ?vs))"
    using fresh by (auto dest: set_zip_leftD)
  have "kv_view l' = map_of (?h @ take i (zip ks ?vs) @ (k, v) # drop i (zip ks ?vs))"
    using kv_view_parts [OF assms(2)] assms(3,5) zip_inserted [OF len assms(4)] by simp
  also have "\<dots> = (map_of (?h @ take i (zip ks ?vs) @ drop i (zip ks ?vs)))(k \<mapsto> v)"
    by (rule map_of_inserted [of k "?h @ take i (zip ks ?vs)" "drop i (zip ks ?vs)" v, unfolded append_assoc, OF nf])
  also have "\<dots> = (kv_view l)(k \<mapsto> v)"
    using kv_view_parts [OF assms(1)] by simp
  finally show ?thesis .
qed

lemma unat_add_one: "unat (w :: u8) < 255 \<Longrightarrow> unat (w + 1) = Suc (unat w)"
  by (simp add: unat_word_ariths)

lemma unat_sub_one: "0 < unat (w :: u8) \<Longrightarrow> unat (w - 1) = unat w - 1"
  by (metis less_numeral_extra(3) unat_0 unat_minus_one)

lemma insert_key_Some:
  assumes "kv_keys l = map Some ks" "unat (len_keys l) = length ks" "i \<le> length ks"
  shows "insert_key k i l = Some (l\<lparr>kv_keys := map Some (take i ks @ k # drop i ks), len_keys := len_keys l + 1\<rparr>)"
  using insert_cells [OF assms(3), of k] assms
  by (auto simp: insert_key_def bind_eq_Some_conv Let_def split: bind_splits)

definition storable :: "u8 list \<Rightarrow> bool" where
  "storable v = (length v \<notin> {0, 3} \<and> length v < 65536)"

definition kv_room :: "kv_list \<Rightarrow> bool" where
  "kv_room l = (unat (len_keys l) < 255)"

lemma take_i_insert: "i = length xs \<Longrightarrow> take i (xs @ ys) @ v # drop i (xs @ ys) = (xs @ [v]) @ ys"
  by simp

lemma add_pair_parts:
  assumes p: "kv_parts l ks v8 v16 v32" and "kv_room l" "storable v" "kv_view l k = None"
  shows "\<exists>l'. keyValueList_addKeyValuePair l k v = Some l' \<and> kv_ok l' \<and> kv_view l' = (kv_view l)(k \<mapsto> v)"
proof -
  let ?vs = "v8 @ v16 @ v32"
  have lk: "length ks < 255" using p assms(2) by (simp add: kv_parts_def kv_room_def)
  note len = kv_parts_lengths [OF p]
  have fresh: "k \<notin> set ks" "k \<notin> lk_key ` set (kv_head l)"
    using assms(4) kv_view_small [OF p] kv_view_large [OF p] by (fastforce simp: in_set_conv_nth)+
  let ?ins = "\<lambda>i. take i ks @ k # drop i ks"
  have d: "i \<le> length ks \<Longrightarrow> distinct (map lk_key (kv_head l) @ ?ins i)" for i
    using p fresh by (simp only: distinct_insert) (auto simp: kv_parts_def)
  consider (1) "length v = 1" | (2) "length v = 2" | (4) "length v = 4" | (large) "4 < length v" "length v < 65536"
    using assms(3) unfolding storable_def by (simp del: length_0_conv length_greater_0_conv) linarith
  then show ?thesis
  proof cases
    case 1
    let ?l = "l\<lparr>values8 := map Some (v8 @ [v]), len8 := len8 l + 1,
      kv_keys := map Some (?ins (length v8)), len_keys := len_keys l + 1\<rparr>"
    have "keyValueList_addKeyValuePair l k v = Some ?l"
      using p 1 len by (simp add: keyValueList_addKeyValuePair_def push_value_Some kv_parts_def insert_key_Some Let_def)
    moreover have l': "kv_parts ?l (?ins (length v8)) (v8 @ [v]) v16 v32"
      using p 1 lk len d [of "length v8"] by (simp add: kv_parts_def unat_add_one)
    moreover have "kv_view ?l = (kv_view l)(k \<mapsto> v)"
      by (rule kv_view_inserted [OF p l']) (use len in simp_all)
    ultimately show ?thesis using kv_parts_ok [OF l'] by blast
  next
    case 2
    let ?i = "length v8 + length v16"
    let ?l = "l\<lparr>values16 := map Some (v16 @ [v]), len16 := len16 l + 1,
      kv_keys := map Some (?ins ?i), len_keys := len_keys l + 1\<rparr>"
    have "keyValueList_addKeyValuePair l k v = Some ?l"
      using p 2 len by (simp add: keyValueList_addKeyValuePair_def push_value_Some kv_parts_def insert_key_Some Let_def)
    moreover have l': "kv_parts ?l (?ins ?i) v8 (v16 @ [v]) v32"
      using p 2 lk len d [of ?i] by (simp add: kv_parts_def unat_add_one)
    moreover have "kv_view ?l = (kv_view l)(k \<mapsto> v)"
      by (rule kv_view_inserted [OF p l']) (use len in simp_all)
    ultimately show ?thesis using kv_parts_ok [OF l'] by blast
  next
    case 4
    let ?i = "length v8 + length v16 + length v32"
    let ?l = "l\<lparr>values32 := map Some (v32 @ [v]), len32 := len32 l + 1,
      kv_keys := map Some (?ins ?i), len_keys := len_keys l + 1\<rparr>"
    have "keyValueList_addKeyValuePair l k v = Some ?l"
      using p 4 len by (simp add: keyValueList_addKeyValuePair_def push_value_Some kv_parts_def insert_key_Some Let_def)
    moreover have l': "kv_parts ?l (?ins ?i) v8 v16 (v32 @ [v])"
      using p 4 lk len d [of ?i] by (simp add: kv_parts_def unat_add_one)
    moreover have "kv_view ?l = (kv_view l)(k \<mapsto> v)"
      by (rule kv_view_inserted [OF p l']) (use len in simp_all)
    ultimately show ?thesis using kv_parts_ok [OF l'] by blast
  next
    case large
    let ?l = "l\<lparr>kv_head := \<lparr>lk_len = of_nat (length v), lk_key = k, lk_data = v\<rparr> # kv_head l\<rparr>"
    have "keyValueList_addKeyValuePair l k v = Some ?l"
      using large by (simp add: keyValueList_addKeyValuePair_def Let_def)
    moreover have l': "kv_parts ?l ks v8 v16 v32"
      using p large fresh by (auto simp: kv_parts_def unat_of_nat)
    moreover have "kv_view ?l = (kv_view l)(k \<mapsto> v)"
      using kv_view_parts [OF l'] kv_view_parts [OF p] by simp
    ultimately show ?thesis using kv_parts_ok by blast
  qed
qed

lemma zip_deleted:
  assumes "length ks = length vs"
  shows "zip (take i ks @ drop (Suc i) ks) (take i vs @ drop (Suc i) vs)
    = take i (zip ks vs) @ drop (Suc i) (zip ks vs)"
  using assms by (simp add: take_zip drop_zip zip_append)

lemma kv_view_deleted:
  assumes "kv_parts l ks v8 v16 v32" "kv_parts l' (take i ks @ drop (Suc i) ks) w8 w16 w32"
    "w8 @ w16 @ w32 = take i (v8 @ v16 @ v32) @ drop (Suc i) (v8 @ v16 @ v32)" "i < length ks"
    "kv_head l' = kv_head l"
  shows "kv_view l' = (kv_view l)(ks ! i := None)"
proof -
  let ?vs = "v8 @ v16 @ v32" and ?h = "map (\<lambda>e. (lk_key e, lk_data e)) (kv_head l)"
  let ?z = "zip ks ?vs"
  have len: "length ks = length ?vs" using assms(1) by (simp add: kv_parts_def)
  have split: "?z = take i ?z @ (ks ! i, ?vs ! i) # drop (Suc i) ?z"
    using assms(4) len id_take_nth_drop [of i ?z] by simp
  have "distinct (map fst (?h @ ?z))"
    using assms(1) by (simp add: kv_parts_def comp_def map_fst_zip)
  then have "distinct (map fst (?h @ take i ?z @ (ks ! i, ?vs ! i) # drop (Suc i) ?z))"
    using split by simp
  then have nf: "ks ! i \<notin> fst ` set ((?h @ take i ?z) @ drop (Suc i) ?z)" by auto
  have "kv_view l' = map_of ((?h @ take i ?z) @ drop (Suc i) ?z)"
    using kv_view_parts [OF assms(2)] assms(3,5) zip_deleted [OF len] by simp
  also have "\<dots> = (map_of ((?h @ take i ?z) @ (ks ! i, ?vs ! i) # drop (Suc i) ?z))(ks ! i := None)"
    by (rule map_of_deleted [OF nf])
  also have "\<dots> = (kv_view l)(ks ! i := None)"
    using kv_view_parts [OF assms(1)] split by (simp only: append_assoc)
  finally show ?thesis .
qed

lemma distinct_delete: "distinct (as @ ks) \<Longrightarrow> distinct (as @ take i ks @ drop (Suc i) ks)"
proof -
  assume d: "distinct (as @ ks)"
  show ?thesis
  proof (cases "i < length ks")
    case True
    then have "distinct (as @ take i ks @ ks ! i # drop (Suc i) ks)"
      using d by (simp only: id_take_nth_drop [symmetric])
    then show ?thesis by auto
  qed (use d in simp)
qed

text \<open>
  What removing a key needs to be defined: the element behind the array of its value's width and the
  one behind the array of keys can be read, unless the key is absent or has a value in the linked list.
\<close>

definition behind_values :: "memory_behind \<Rightarrow> nat \<Rightarrow> u8 list option" where
  "behind_values mem n = (if n = 1 then behind8 mem else if n = 2 then behind16 mem else behind32 mem)"

definition removable :: "memory_behind \<Rightarrow> kv_list \<Rightarrow> u16 \<Rightarrow> bool" where
  "removable mem l k =
     (case kv_view l k of
        None \<Rightarrow> True
      | Some v \<Rightarrow> 4 < length v \<or> behind_values mem (length v) \<noteq> None \<and> behind_keys mem \<noteq> None)"

lemma removable_absent [simp]: "kv_view l k = None \<Longrightarrow> removable mem l k"
  by (simp add: removable_def)

lemma Remove_large_parts:
  assumes p: "kv_parts l ks v8 v16 v32" and "find_large l k = Some i"
  shows "\<exists>l'. KeyValueList_Remove mem l k = Some l' \<and> removable mem l k \<and> kv_ok l' \<and> kv_view l' = (kv_view l)(k := None)
    \<and> len_keys l' = len_keys l"
proof -
  let ?h = "kv_head l" let ?f = "\<lambda>e. (lk_key e, lk_data e)"
  let ?l = "l\<lparr>kv_head := take i ?h @ drop (Suc i) ?h\<rparr>"
  have i: "i < length ?h" "lk_key (?h ! i) = k" using find_large_Some [OF assms(2)] by auto
  have split: "?h = take i ?h @ ?h ! i # drop (Suc i) ?h" by (rule id_take_nth_drop [OF i(1)])
  have "distinct (map lk_key (take i ?h @ ?h ! i # drop (Suc i) ?h) @ ks)"
    using p by (simp only: split [symmetric]) (simp add: kv_parts_def)
  then have d: "distinct (map lk_key (take i ?h @ drop (Suc i) ?h) @ ks)"
    "k \<notin> lk_key ` set (take i ?h)" "k \<notin> lk_key ` set (drop (Suc i) ?h)" "k \<notin> set ks"
    using i(2) by auto
  have l': "kv_parts ?l ks v8 v16 v32"
    using p d(1) by (auto simp: kv_parts_def dest: in_set_takeD in_set_dropD)
  have nf: "k \<notin> fst ` set (map ?f (take i ?h) @ map ?f (drop (Suc i) ?h) @ zip ks (v8 @ v16 @ v32))"
    using d by (auto dest: set_zip_leftD)
  have "kv_view ?l = map_of (map ?f (take i ?h) @ map ?f (drop (Suc i) ?h) @ zip ks (v8 @ v16 @ v32))"
    using kv_view_parts [OF l'] by simp
  also have "\<dots> = (map_of (map ?f (take i ?h) @ (k, lk_data (?h ! i)) # map ?f (drop (Suc i) ?h)
      @ zip ks (v8 @ v16 @ v32)))(k := None)"
    by (rule map_of_deleted [OF nf])
  also have "\<dots> = (map_of (map ?f (take i ?h @ ?h ! i # drop (Suc i) ?h) @ zip ks (v8 @ v16 @ v32)))(k := None)"
    using i(2) by simp
  also have "\<dots> = (kv_view l)(k := None)"
    using kv_view_parts [OF p] by (simp only: split [symmetric])
  finally have v: "kv_view ?l = (kv_view l)(k := None)" .
  have "kv_view l k = Some (lk_data (?h ! i))" "4 < length (lk_data (?h ! i))"
    using kv_view_large [OF p i(1)] i p by (auto simp: kv_parts_def)
  then have "removable mem l k" by (simp add: removable_def)
  with v show ?thesis
    using kv_parts_ok [OF l'] assms(2) by (simp add: KeyValueList_Remove_def)
qed

lemma Remove_small_parts:
  assumes p: "kv_parts l ks v8 v16 v32" and "find_large l k = None" and i: "i < length ks" "ks ! i = k"
  shows "\<exists>l'. KeyValueList_Remove mem l k = (if removable mem l k then Some l' else None)
    \<and> kv_ok l' \<and> kv_view l' = (kv_view l)(k := None) \<and> len_keys l' = len_keys l - 1"
proof -
  note len = kv_parts_lengths [OF p]
  have vw: "kv_view l k = Some ((v8 @ v16 @ v32) ! i)" using kv_view_small [OF p i(1)] i(2) by simp
  have vl: "\<forall>v\<in>set v8. length v = 1" "\<forall>v\<in>set v16. length v = 2" "\<forall>v\<in>set v32. length v = 4"
    using p by (simp_all add: kv_parts_def)
  let ?del = "take i ks @ drop (Suc i) ks"
  have "find (\<lambda>j. ks ! j = k) [0 ..< length ks] = Some i"
    using find_nth_distinct [of ks i "[0 ..< length ks]"] i p by (auto simp: kv_parts_def)
  then have f: "find_key (kv_keys l) k [0 ..< unat (len_keys l)] = Some (Some i)"
    using p by (simp add: kv_parts_def find_key_Some)
  have kr: "remove_element (behind_keys mem) (kv_keys l) i (unat (len_keys l)) 
      = (if behind_keys mem = None then None else Some (map Some ?del))"
    using p i len by (simp add: kv_parts_def remove_element_Some)
  have d: "distinct (map lk_key (kv_head l) @ ?del)"
    by (rule distinct_delete) (use p in \<open>simp add: kv_parts_def\<close>)
  have lk: "unat (len_keys l - 1) = length ks - 1"
    using unat_sub_one [of "len_keys l"] len(4) i(1) by linarith
  consider (1) "i < length v8" | (2) "length v8 \<le> i" "i - length v8 < length v16"
    | (4) "length v8 + length v16 \<le> i" "i - length v8 - length v16 < length v32"
    using i len by linarith
  then show ?thesis
  proof cases
    case 1
    let ?v = "take i v8 @ drop (Suc i) v8"
    let ?l = "l\<lparr>values8 := map Some ?v, len8 := len8 l - 1, kv_keys := map Some ?del, len_keys := len_keys l - 1\<rparr>"
    have "remove_element (behind8 mem) (values8 l) i (unat (len8 l))
        = (if behind8 mem = None then None else Some (map Some ?v))"
      using p 1 len(1) by (simp add: kv_parts_def remove_element_Some)
    moreover have rm: "removable mem l k \<longleftrightarrow> behind8 mem \<noteq> None \<and> behind_keys mem \<noteq> None"
      using 1 vl(1) by (simp add: removable_def behind_values_def vw nth_append)
    ultimately have r: "KeyValueList_Remove mem l k = (if removable mem l k then Some ?l else None)"
      using 1 by (auto simp add: KeyValueList_Remove_def assms(2) f kr len(1-3))
    have lv: "unat (len8 l - 1) = length v8 - 1"
      using unat_sub_one [of "len8 l"] len 1 by linarith
    have l': "kv_parts ?l ?del ?v v16 v32"
      using p 1 i len d lk lv by (auto simp: kv_parts_def dest: in_set_takeD in_set_dropD)
    have "kv_view ?l = (kv_view l)(k := None)"
      using kv_view_deleted [OF p l' _ i(1)] 1 i(2) by simp
    with r kv_parts_ok [OF l'] show ?thesis by (intro exI [of _ ?l]) simp
  next
    case 2
    let ?j = "i - length v8" let ?v = "take ?j v16 @ drop (Suc ?j) v16"
    let ?l = "l\<lparr>values16 := map Some ?v, len16 := len16 l - 1, kv_keys := map Some ?del, len_keys := len_keys l - 1\<rparr>"
    have "remove_element (behind16 mem) (values16 l) ?j (unat (len16 l))
        = (if behind16 mem = None then None else Some (map Some ?v))"
      using p 2 len(2) by (simp add: kv_parts_def remove_element_Some)
    moreover have rm: "removable mem l k \<longleftrightarrow> behind16 mem \<noteq> None \<and> behind_keys mem \<noteq> None"
      using 2 vl(2) by (simp add: removable_def behind_values_def vw nth_append)
    ultimately have r: "KeyValueList_Remove mem l k = (if removable mem l k then Some ?l else None)"
      using 2 by (auto simp add: KeyValueList_Remove_def assms(2) f kr len(1-3) Let_def)
    have lv: "unat (len16 l - 1) = length v16 - 1"
      using unat_sub_one [of "len16 l"] len 2 by linarith
    have l': "kv_parts ?l ?del v8 ?v v32"
      using p 2 i len d lk lv by (auto simp: kv_parts_def dest: in_set_takeD in_set_dropD)
    have "kv_view ?l = (kv_view l)(k := None)"
      using kv_view_deleted [OF p l' _ i(1)] 2 i(2) by (simp add: Suc_diff_le)
    with r kv_parts_ok [OF l'] show ?thesis by (intro exI [of _ ?l]) simp
  next
    case 4
    let ?j = "i - length v8 - length v16" let ?v = "take ?j v32 @ drop (Suc ?j) v32"
    let ?l = "l\<lparr>values32 := map Some ?v, len32 := len32 l - 1, kv_keys := map Some ?del, len_keys := len_keys l - 1\<rparr>"
    have "remove_element (behind32 mem) (values32 l) ?j (unat (len32 l))
        = (if behind32 mem = None then None else Some (map Some ?v))"
      using p 4 len(3) by (simp add: kv_parts_def remove_element_Some)
    moreover have "\<not> i < length v8" "\<not> i - length v8 < length v16" using 4 by linarith+
    moreover have rm: "removable mem l k \<longleftrightarrow> behind32 mem \<noteq> None \<and> behind_keys mem \<noteq> None"
      using 4 vl(3) by (simp add: removable_def behind_values_def vw nth_append)
    ultimately have r: "KeyValueList_Remove mem l k = (if removable mem l k then Some ?l else None)"
      using 4 by (auto simp add: KeyValueList_Remove_def assms(2) f kr len(1-3) Let_def)
    have lv: "unat (len32 l - 1) = length v32 - 1"
      using unat_sub_one [of "len32 l"] len 4 by linarith
    have l': "kv_parts ?l ?del v8 v16 ?v"
      using p 4 i len d lk lv by (auto simp: kv_parts_def dest: in_set_takeD in_set_dropD)
    have "kv_view ?l = (kv_view l)(k := None)"
      using kv_view_deleted [OF p l' _ i(1)] 4 i(2) by (simp add: Suc_diff_le)
    with r kv_parts_ok [OF l'] show ?thesis by (intro exI [of _ ?l]) simp
  qed
qed

section \<open>The store as an interface\<close>

text \<open>
  What a client of a property store relies on: \<open>view\<close> is the map a store stands for,
  \<open>room\<close> says that one more value fits, \<open>fits\<close> which values can be stored, and \<open>safe\<close>
  that a removal is defined in the environment it runs in.
\<close>

locale property_store =
  fixes ok :: "'s \<Rightarrow> bool" and view :: "'s \<Rightarrow> 'k \<rightharpoonup> 'v" and room :: "'s \<Rightarrow> bool"
    and fits :: "'v \<Rightarrow> bool" and safe :: "'m \<Rightarrow> 's \<Rightarrow> 'k \<Rightarrow> bool"
    and create :: 's and add :: "'s \<Rightarrow> 'k \<Rightarrow> 'v \<Rightarrow> (bool \<times> 's) option"
    and remove :: "'m \<Rightarrow> 's \<Rightarrow> 'k \<Rightarrow> 's option"
  assumes create_ok: "ok create \<and> room create \<and> view create = Map.empty"
    and add_new: "ok s \<Longrightarrow> room s \<Longrightarrow> fits v \<Longrightarrow> view s k = None
      \<Longrightarrow> \<exists>s'. add s k v = Some (True, s') \<and> ok s' \<and> view s' = (view s)(k \<mapsto> v)"
    and add_old: "ok s \<Longrightarrow> view s k \<noteq> None \<Longrightarrow> add s k v = Some (False, s)"
    and remove_law: "ok s \<Longrightarrow> \<exists>s'. remove m s k = (if safe m s k then Some s' else None)
      \<and> ok s' \<and> view s' = (view s)(k := None) \<and> (room s \<longrightarrow> room s')"
begin

text \<open>Setting a value: add it, and where the key is taken remove that first and add again.\<close>

definition set_value :: "'m \<Rightarrow> 's \<Rightarrow> 'k \<Rightarrow> 'v \<Rightarrow> 's option" where
  "set_value m s k v =
     do {
       (added, s1) \<leftarrow> add s k v;
       if added then Some s1
       else do { s2 \<leftarrow> remove m s1 k; (again, s3) \<leftarrow> add s2 k v; PanicFalse again; Some s3 }
     }"

lemma set_value_law:
  assumes "ok s" "room s" "fits v"
  shows "\<exists>s'. set_value m s k v = (if view s k = None \<or> safe m s k then Some s' else None)
    \<and> ok s' \<and> view s' = (view s)(k \<mapsto> v)"
proof (cases "view s k")
  case None
  then show ?thesis
    using add_new [OF assms None] by (auto simp: set_value_def)
next
  case (Some w)
  then have old: "add s k v = Some (False, s)" using add_old [OF assms(1)] by simp
  obtain s2 where s2: "remove m s k = (if safe m s k then Some s2 else None)" "ok s2"
    "view s2 = (view s)(k := None)" "room s2"
    using remove_law [OF assms(1)] assms(2) by blast
  have "view s2 k = None" by (simp add: s2(3))
  from add_new [OF s2(2,4) assms(3) this] obtain s3
    where "add s2 k v = Some (True, s3)" "ok s3" "view s3 = (view s2)(k \<mapsto> v)" by blast
  then show ?thesis by (intro exI [of _ s3]) (simp add: set_value_def old s2 Some)
qed

end

lemma Get_view:
  assumes "kv_ok l"
  shows "\<exists>r. KeyValueList_Get l k = Some r \<and> (case r of None \<Rightarrow> kv_view l k = None
    | Some (loc, n) \<Rightarrow> \<exists>v. kv_load l loc = Some v \<and> kv_view l k = Some v \<and> n = length v)"
  using kv_ok_parts [OF assms] Get_parts by blast

lemma kv_view_at:
  assumes "kv_ok l" shows "KeyValueList_IsSet l k = Some (kv_view l k \<noteq> None)"
  using Get_view [OF assms, of k] by (auto simp: KeyValueList_IsSet_def split: option.split_asm)

lemma Add_new:
  assumes "kv_ok l" "kv_room l" "storable v" "kv_view l k = None"
  shows "\<exists>l'. KeyValueList_Add l k v = Some (True, l') \<and> kv_ok l' \<and> kv_view l' = (kv_view l)(k \<mapsto> v)"
  using kv_ok_parts [OF assms(1)] add_pair_parts [OF _ assms(2-4)] kv_view_at [OF assms(1), of k] assms(4)
  by (fastforce simp: KeyValueList_Add_def)

lemma Add_old:
  "kv_ok l \<Longrightarrow> kv_view l k \<noteq> None \<Longrightarrow> KeyValueList_Add l k v = Some (False, l)"
  by (simp add: KeyValueList_Add_def kv_view_at)

lemma Remove_absent:
  assumes "kv_parts l ks v8 v16 v32" "find_large l k = None" "k \<notin> set ks"
  shows "KeyValueList_Remove mem l k = Some l \<and> kv_view l k = None"
proof -
  have "find_key (kv_keys l) k [0 ..< unat (len_keys l)] = Some None"
    using assms by (simp add: kv_parts_def find_key_Some find_None_notin [symmetric])
  then show ?thesis
    using assms kv_view_None [OF assms(1) find_large_None [OF assms(2)]] by (simp add: KeyValueList_Remove_def)
qed

lemma Remove_view:
  assumes "kv_ok l"
  shows "\<exists>l'. KeyValueList_Remove mem l k = (if removable mem l k then Some l' else None)
    \<and> kv_ok l' \<and> kv_view l' = (kv_view l)(k := None) \<and> (kv_room l \<longrightarrow> kv_room l')"
proof -
  obtain ks v8 v16 v32 where p: "kv_parts l ks v8 v16 v32" using kv_ok_parts [OF assms] by blast
  show ?thesis
  proof (cases "find_large l k")
    case (Some i)
    then show ?thesis using Remove_large_parts [OF p Some, of mem] by (auto simp: kv_room_def)
  next
    case None
    show ?thesis
    proof (cases "k \<in> set ks")
      case True
      then obtain i where i: "i < length ks" "ks ! i = k" by (auto simp: in_set_conv_nth)
      have pos: "0 < unat (len_keys l)" using i p by (auto simp: kv_parts_def)
      obtain l' where l': "KeyValueList_Remove mem l k = (if removable mem l k then Some l' else None)" "kv_ok l'"
        "kv_view l' = (kv_view l)(k := None)" "len_keys l' = len_keys l - 1"
        using Remove_small_parts [OF p None i] by blast
      have "kv_room l'" if "kv_room l"
        using that unat_sub_one [OF pos] l'(4) by (simp add: kv_room_def)
      with l' show ?thesis by blast
    next
      case False
      have a: "KeyValueList_Remove mem l k = Some l" "kv_view l k = None"
        using Remove_absent [OF p None False] by simp_all
      then have "kv_view l = (kv_view l)(k := None)" by (metis fun_upd_triv)
      with a assms show ?thesis by (intro exI [of _ l]) simp
    qed
  qed
qed

lemma Create_view: "kv_ok KeyValueList_Create \<and> kv_room KeyValueList_Create
    \<and> kv_view KeyValueList_Create = Map.empty"
  by (simp add: kv_ok_def KeyValueList_Create_def kv_values_def all_written_def kv_entries_def
    kv_room_def kv_view_def)

interpretation kv: property_store kv_ok kv_view kv_room storable removable KeyValueList_Create
  KeyValueList_Add KeyValueList_Remove
  using Create_view Add_new Add_old Remove_view by unfold_locales

section \<open>Properties\<close>

lemma find_in_range:
  assumes "distinct ks" "i < length ks" "b \<le> length ks"
  shows "find (\<lambda>j. ks ! j = ks ! i) [a ..< b] = (if a \<le> i \<and> i < b then Some i else None)"
proof (cases "a \<le> i \<and> i < b")
  case True
  then show ?thesis using find_nth_distinct [OF assms(1,2), of "[a ..< b]"] assms(3) by auto
next
  case False
  then show ?thesis using assms by (auto simp: find_None_iff nth_eq_iff_index_eq)
qed

lemma find_absent: "k \<notin> set ks \<Longrightarrow> b \<le> length ks \<Longrightarrow> find (\<lambda>j. ks ! j = k) [a ..< b] = None"
  by (auto simp: find_None_iff)

lemma GetSized_searches:
  assumes "kv_parts l ks v8 v16 v32"
  shows "KeyValueList_GetSized l k n = do {
      r \<leftarrow> Some (if n = 1 then map_option In_values8 (find (\<lambda>j. ks ! j = k) [0 ..< length v8])
        else if n = 2 then map_option (\<lambda>i. In_values16 (i - length v8))
          (find (\<lambda>j. ks ! j = k) [length v8 ..< length v8 + length v16])
        else if n = 4 then map_option (\<lambda>i. In_values32 (i - (length v8 + length v16)))
          (find (\<lambda>j. ks ! j = k) [length v8 + length v16 ..< length v8 + length v16 + length v32])
        else map_option In_element (find_large l k));
      case r of Some loc \<Rightarrow> Some (Some loc)
      | None \<Rightarrow> if kv_view l k = None then Some None else None }"
proof -
  have f: "b \<le> length ks \<Longrightarrow> find_key (kv_keys l) k [a ..< b] = Some (find (\<lambda>j. ks ! j = k) [a ..< b])" for a b
    using assms by (simp add: kv_parts_def find_key_Some)
  show ?thesis
    using kv_parts_lengths [OF assms]
    by (simp add: KeyValueList_GetSized_def kv_view_at [OF kv_parts_ok [OF assms]] f split: option.split)
qed

lemma small_not_large:
  assumes "kv_parts l ks v8 v16 v32" "k \<in> set ks"
  shows "find_large l k = None"
proof (rule ccontr)
  assume "find_large l k \<noteq> None"
  then have "k \<in> lk_key ` set (kv_head l)" using find_large_Some [of l k] by force
  with assms show False by (auto simp: kv_parts_def)
qed

lemma GetSized_small:
  assumes p: "kv_parts l ks v8 v16 v32" and "i < length ks"
  shows "case kv_view l (ks ! i) of
      None \<Rightarrow> KeyValueList_GetSized l (ks ! i) n = Some None
    | Some v \<Rightarrow> \<exists>loc. kv_load l loc = Some v \<and> KeyValueList_GetSized l (ks ! i) n =
        (if n = length v \<or> 4 < length v \<and> n \<notin> {1, 2, 4} then Some (Some loc) else None)"
proof -
  define k where "k = ks ! i"
  then have i: "i < length ks" "ks ! i = k" using assms(2) by auto
  note gs = GetSized_searches [OF p, of k n] and len = kv_parts_lengths [OF p]
  have v: "kv_view l k = Some ((v8 @ v16 @ v32) ! i)" using kv_view_small [OF p i(1)] i(2) by simp
  have f: "b \<le> length ks \<Longrightarrow> find (\<lambda>j. ks ! j = k) [a ..< b] = (if a \<le> i \<and> i < b then Some i else None)" for a b
    using find_in_range [of ks i b a] i p by (simp add: kv_parts_def)
  have w: "\<forall>v\<in>set v8. length v = 1" "\<forall>v\<in>set v16. length v = 2" "\<forall>v\<in>set v32. length v = 4"
    "values8 l = map Some v8" "values16 l = map Some v16" "values32 l = map Some v32"
    using p by (auto simp: kv_parts_def)
  have lg: "find_large l k = None" using small_not_large [OF p, of k] i by auto
  consider (1) "i < length v8" | (2) "length v8 \<le> i" "i - length v8 < length v16"
    | (4) "length v8 + length v16 \<le> i" "i - (length v8 + length v16) < length v32"
    using i(1) len by linarith
  then show ?thesis
  proof cases
    case 1
    then have "(v8 @ v16 @ v32) ! i = v8 ! i" "length (v8 ! i) = 1" using w by (auto simp: nth_append)
    with v gs f len 1 lg w show ?thesis unfolding i(2)
      by (auto simp: kv_load_def read_cell_def intro!: exI [of _ "In_values8 i"])
  next
    case 2
    then have "(v8 @ v16 @ v32) ! i = v16 ! (i - length v8)" "length (v16 ! (i - length v8)) = 2"
      using w by (auto simp: nth_append)
    with v gs f len 2 lg w show ?thesis unfolding i(2)
      by (auto simp: kv_load_def read_cell_def intro!: exI [of _ "In_values16 (i - length v8)"])
  next
    case 4
    let ?j = "i - (length v8 + length v16)"
    have "(v8 @ v16 @ v32) ! i = v32 ! ?j" "length (v32 ! ?j) = 4"
      using 4 w by (auto simp: nth_append)
    with v gs f len 4 lg w show ?thesis unfolding i(2)
      by (auto simp: kv_load_def read_cell_def intro!: exI [of _ "In_values32 ?j"])
  qed
qed

lemma GetSized_view:
  assumes "kv_ok l"
  shows "case kv_view l k of
      None \<Rightarrow> KeyValueList_GetSized l k n = Some None
    | Some v \<Rightarrow> \<exists>loc. kv_load l loc = Some v \<and> KeyValueList_GetSized l k n =
        (if n = length v \<or> 4 < length v \<and> n \<notin> {1, 2, 4} then Some (Some loc) else None)"
proof -
  obtain ks v8 v16 v32 where p: "kv_parts l ks v8 v16 v32" using kv_ok_parts [OF assms] by blast
  note gs = GetSized_searches [OF p, of k n] and len = kv_parts_lengths [OF p]
  consider (small) i where "i < length ks" "ks ! i = k" | (large) i where "find_large l k = Some i" "k \<notin> set ks"
    | (absent) "find_large l k = None" "k \<notin> set ks"
    using small_not_large [OF p, of k] by (cases "find_large l k") (auto simp: in_set_conv_nth)
  then show ?thesis
  proof cases
    case small
    then show ?thesis using GetSized_small [OF p small(1), of n] by (simp only: small(2))
  next
    case large
    then have i: "i < length (kv_head l)" "lk_key (kv_head l ! i) = k" using find_large_Some by blast+
    then have "kv_view l k = Some (lk_data (kv_head l ! i))" "4 < length (lk_data (kv_head l ! i))"
      using kv_view_large [OF p i(1)] p by (auto simp: kv_parts_def)
    then show ?thesis
      using gs find_absent [OF large(2)] large(1) i(1) len
      by (auto simp: kv_load_def intro!: exI [of _ "In_element i"])
  next
    case absent
    then show ?thesis
      using gs find_absent [OF absent(2)] kv_view_None [OF p find_large_None [OF absent(1)] absent(2)] len by simp
  qed
qed

text \<open>
  C14: A lookup with an expected size keeps its contract: a key that is absent gives NULL; the value of a
  key that is set is returned exactly if its size is the one asked for, and any other size is a
  panic. This is for the sizes 1, 2 and 4, and for every size where the stored value has at most
  four bytes; between two sizes in the linked list the code does not compare
  (\<open>GetSized_long_unchecked\<close>).
\<close>
theorem GetSized_checks_size:
  assumes "kv_ok l" "n \<in> {1, 2, 4} \<or> (\<forall>v. kv_view l k = Some v \<longrightarrow> length v \<le> 4)"
  shows "case kv_view l k of
      None \<Rightarrow> KeyValueList_GetSized l k n = Some None
    | Some v \<Rightarrow> \<exists>loc. kv_load l loc = Some v
        \<and> KeyValueList_GetSized l k n = (if n = length v then Some (Some loc) else None)"
  using GetSized_view [OF assms(1), of k n] assms(2) by (cases "kv_view l k") auto

text \<open>
  A value of more than four bytes is returned for every expected size other than 1, 2 and 4, although the
  interface promises a panic when the sizes differ.
\<close>
lemma GetSized_long_unchecked:
  assumes "kv_ok l" "kv_view l k = Some v" "4 < length v" "n \<notin> {1, 2, 4}"
  shows "\<exists>loc. kv_load l loc = Some v \<and> KeyValueList_GetSized l k n = Some (Some loc)"
  using GetSized_view [OF assms(1), of k n] assms(2-4) by auto

lemma Create_ok: "kv_ok KeyValueList_Create" "kv_view KeyValueList_Create = Map.empty"
  using Create_view by simp_all

lemma one_pair:
  assumes "storable v"
  obtains l where "KeyValueList_Add KeyValueList_Create k v = Some (True, l)" "kv_ok l" "kv_room l" "kv_view l = [k \<mapsto> v]"
proof -
  obtain l where l: "KeyValueList_Add KeyValueList_Create k v = Some (True, l)" "kv_ok l" "kv_view l = [k \<mapsto> v]"
    using kv.add_new [of KeyValueList_Create v k] Create_view assms by auto
  have "kv_keys l = [] \<or> kv_keys l = [Some k]"
    using l(1) by (auto simp: KeyValueList_Add_def KeyValueList_Create_def keyValueList_addKeyValuePair_def
      insert_key_def realloc_cells_def memmove_cells_def write_cell_def Let_def split: bind_splits if_splits)
  then have "kv_room l" using l(2) by (auto simp: kv_room_def kv_ok_def)
  with l that show ?thesis by blast
qed

lemma two_bytes: "storable [1, 2]"
  by (simp add: storable_def)

theorem GetSized_checks_size_witness:
  "\<exists>l loc. KeyValueList_Add KeyValueList_Create 5 [1, 2] = Some (True, l)
    \<and> KeyValueList_GetSized l 5 2 = Some (Some loc) \<and> kv_load l loc = Some [1, 2]
    \<and> KeyValueList_GetSized l 5 1 = None \<and> KeyValueList_GetSized l 5 7 = None
    \<and> KeyValueList_GetSized l 6 2 = Some None"
proof -
  obtain l where l: "KeyValueList_Add KeyValueList_Create 5 [1, 2] = Some (True, l)" "kv_ok l"
    "kv_view l = [5 \<mapsto> [1, 2]]" using one_pair [OF two_bytes] by blast
  show ?thesis
    using l GetSized_checks_size [OF l(2), of 2 5] GetSized_checks_size [OF l(2), of 1 5]
      GetSized_checks_size [OF l(2), of 7 5] GetSized_checks_size [OF l(2), of 2 6] by auto
qed

text \<open>
  C13: A key-value list is a finite map from keys to byte strings: in every valid list, adding stores
  a new key and refuses a key that is set, removing takes exactly that key out, and a lookup
  returns the location and size of exactly the stored bytes. Every operation keeps the list valid.
  Adding and looking up never panic or leave an array, for values that are not 0 or 3 bytes long, as
  long as fewer than 255 values of up to four bytes are stored. Removing a key whose value has one,
  two or four bytes reads one element behind two of the arrays: it is a fault exactly if one of
  these elements cannot be read, and otherwise its result does not depend on what they are.
\<close>
theorem KeyValueList_is_map:
  assumes "kv_ok l" "kv_room l" "storable v"
  shows "\<exists>added removed found. KeyValueList_Add l k v = Some (kv_view l k = None, added)
    \<and> kv_ok added \<and> kv_view added = (if kv_view l k = None then (kv_view l)(k \<mapsto> v) else kv_view l)
    \<and> KeyValueList_Remove mem l k = (if removable mem l k then Some removed else None)
    \<and> kv_ok removed \<and> kv_view removed = (kv_view l)(k := None)
    \<and> KeyValueList_Get l k = Some found
    \<and> (case found of None \<Rightarrow> kv_view l k = None
       | Some (loc, n) \<Rightarrow> \<exists>w. kv_load l loc = Some w \<and> kv_view l k = Some w \<and> n = length w)"
proof -
  have "\<exists>added. KeyValueList_Add l k v = Some (kv_view l k = None, added) \<and> kv_ok added
      \<and> kv_view added = (if kv_view l k = None then (kv_view l)(k \<mapsto> v) else kv_view l)"
    using kv.add_new [OF assms, of k] kv.add_old [OF assms(1), of k v] assms(1)
    by (cases "kv_view l k") auto
  with kv.remove_law [OF assms(1), of mem k] Get_view [OF assms(1), of k] show ?thesis by blast
qed

theorem KeyValueList_is_map_witness:
  "\<exists>l l'. KeyValueList_Add KeyValueList_Create 5 [1, 2] = Some (True, l) \<and> kv_view l = [5 \<mapsto> [1, 2]]
    \<and> KeyValueList_Remove \<lparr>behind_keys = Some 9, behind8 = None, behind16 = Some [3, 4], behind32 = None\<rparr> l 5 = Some l'
    \<and> kv_view l' = Map.empty
    \<and> KeyValueList_Remove \<lparr>behind_keys = Some 9, behind8 = None, behind16 = None, behind32 = None\<rparr> l 5 = None"
proof -
  obtain l where l: "KeyValueList_Add KeyValueList_Create 5 [1, 2] = Some (True, l)" "kv_ok l" "kv_room l"
    "kv_view l = [5 \<mapsto> [1, 2]]" using one_pair [OF two_bytes] by blast
  have r: "removable mem l 5 \<longleftrightarrow> behind16 mem \<noteq> None \<and> behind_keys mem \<noteq> None" for mem
    using l(4) by (simp add: removable_def behind_values_def)
  show ?thesis
    using l KeyValueList_is_map [OF l(2,3) two_bytes, of 5
        "\<lparr>behind_keys = Some 9, behind8 = None, behind16 = Some [3, 4], behind32 = None\<rparr>"]
      KeyValueList_is_map [OF l(2,3) two_bytes, of 5
        "\<lparr>behind_keys = Some 9, behind8 = None, behind16 = None, behind32 = None\<rparr>"]
    by (auto simp: r)
qed

text \<open>
  A value of three bytes destroys the list it is added to: the value goes to the linked list, but its key is
  inserted in front of the keys of the small values too. Here an 8-bit value is stored under key 1;
  once a 3-byte value is added under key 2, key 1 is reported as a 32-bit value in an array that
  was never allocated.
\<close>
lemma three_byte_value_corrupts:
  "\<exists>l1 l2. KeyValueList_Add KeyValueList_Create 1 [0xAA] = Some (True, l1)
    \<and> KeyValueList_Get l1 1 = Some (Some (In_values8 0, 1)) \<and> kv_load l1 (In_values8 0) = Some [0xAA]
    \<and> KeyValueList_Add l1 2 [1, 2, 3] = Some (True, l2)
    \<and> KeyValueList_Get l2 1 = Some (Some (In_values32 0, 4)) \<and> kv_load l2 (In_values32 0) = None"
  by (simp add: KeyValueList_Add_def KeyValueList_IsSet_def KeyValueList_Get_def KeyValueList_Create_def
    find_large_def keyValueList_addKeyValuePair_def push_value_def insert_key_def realloc_cells_def
    write_cell_def memmove_cells_def read_cell_def kv_load_def Let_def upt_rec)

end
