(* ===== verification/Device.thy ===== *)
theory Device
  imports KeyValueList
begin

text \<open>
  Device instances, \<open>libs/device/device.c\<close>, and the list of devices,
  \<open>libs/device_list/device_list.c\<close>. A device is a key-value list of properties. Setting a
  property calls the handler that is registered (a function pointer, 'h); the calls made are outputs.
  The device list holds pointers to devices, 0 for a free slot; \<open>heap\<close> gives the device a pointer
  points to. Panics and invalid accesses are \<open>None\<close>. Setting a property that is set removes the old
  value first, which reads behind the arrays of the list: that memory, \<open>mem\<close>, is an argument.
\<close>

section \<open>Properties of a device\<close>

datatype 'h device_call = Property_set 'h u16 "u8 list"

type_synonym 'h device_result = "(bool \<times> kv_list \<times> 'h device_call list) option"

definition device_Add :: "'h option \<Rightarrow> kv_list \<Rightarrow> u16 \<Rightarrow> u8 list \<Rightarrow> 'h device_result" where
  "device_Add handler device pid value =
     do {
       (added, d) \<leftarrow> KeyValueList_Add device pid value;
       Some (added, d, if added then (case handler of Some h \<Rightarrow> [Property_set h pid value] | None \<Rightarrow> []) else [])
     }"

definition Device_Create :: kv_list where
  "Device_Create = KeyValueList_Create"

definition Device_IsPropertySet :: "kv_list \<Rightarrow> u16 \<Rightarrow> bool option" where
  "Device_IsPropertySet device pid = KeyValueList_IsSet device pid"

definition Device_RemoveProperty :: "memory_behind \<Rightarrow> kv_list \<Rightarrow> u16 \<Rightarrow> kv_list option" where
  "Device_RemoveProperty mem device pid = KeyValueList_Remove mem device pid"

definition Device_SetProperty :: "memory_behind \<Rightarrow> 'h option \<Rightarrow> kv_list \<Rightarrow> u16 \<Rightarrow> u8 list \<Rightarrow> 'h device_result" where
  "Device_SetProperty mem handler device pid value =
     do {
       (added, d, calls) \<leftarrow> device_Add handler device pid value;
       if \<not> added then do {
         d1 \<leftarrow> Device_RemoveProperty mem d pid;
         (again, d2, calls2) \<leftarrow> device_Add handler d1 pid value;
         PanicFalse again;
         Some (True, d2, calls @ calls2)
       }
       else Some (True, d, calls)
     }"


definition Device_GetProperty :: "kv_list \<Rightarrow> u16 \<Rightarrow> (kv_location \<times> nat) option option" where
  "Device_GetProperty device pid = KeyValueList_Get device pid"

definition Device_GetPropertySized :: "kv_list \<Rightarrow> u16 \<Rightarrow> nat \<Rightarrow> kv_location option option" where
  "Device_GetPropertySized device pid n = KeyValueList_GetSized device pid n"

definition Device_SetPropertyPtr :: "'h option \<Rightarrow> kv_list \<Rightarrow> u16 \<Rightarrow> u32 \<Rightarrow> 'h device_result" where
  "Device_SetPropertyPtr handler device pid pointer = device_Add handler device pid (le_bytes 4 pointer)"

text \<open>The integer at the location that a sized lookup gives.\<close>

definition get_word :: "kv_list \<Rightarrow> u16 \<Rightarrow> nat \<Rightarrow> 'a::len word option option" where
  "get_word device pid n =
     do {
       r \<leftarrow> KeyValueList_GetSized device pid n;
       case r of
         Some loc \<Rightarrow> do { bytes \<leftarrow> kv_load device loc; Some (Some (le_word bytes)) }
       | None \<Rightarrow> Some None
     }"

definition Device_GetPropertyPtr :: "kv_list \<Rightarrow> u16 \<Rightarrow> u32 option" where
  "Device_GetPropertyPtr device pid = map_option (\<lambda>r. case r of Some p \<Rightarrow> p | None \<Rightarrow> 0) (get_word device pid 4)"







text \<open>The new value of \<open>onPropertySetHandler\<close>; only one client may be registered.\<close>

definition Device_RegisterOnPropertySetHandler :: "'h option \<Rightarrow> 'h option \<Rightarrow> 'h option option" where
  "Device_RegisterOnPropertySetHandler current handler =
     (if current \<noteq> None \<and> handler \<noteq> None then None else Some handler)"

section \<open>The list of devices\<close>

record device_list =
  dl_slots :: "nat list option"
  trusted_device_list :: nat

text \<open>The array that the loops run over: a NULL array faults unless it has no elements.\<close>

definition device_slots :: "device_list \<Rightarrow> nat list option" where
  "device_slots dl = (if trusted_device_list dl = 0 then Some [] else dl_slots dl)"

definition DeviceList_Init :: "u8 \<Rightarrow> device_list \<Rightarrow> device_list option" where
  "DeviceList_Init num_devices dl =
     do {
       PanicFalse (dl_slots dl = None);
       Some \<lparr>dl_slots = Some (replicate (unat num_devices) 0), trusted_device_list = unat num_devices\<rparr>
     }"

definition DeviceList_GetNumOfDevices :: "device_list \<Rightarrow> nat option" where
  "DeviceList_GetNumOfDevices dl = map_option (\<lambda>xs. length (filter (\<lambda>d. d \<noteq> 0) xs)) (device_slots dl)"

definition DeviceList_RemoveAllDevices :: "device_list \<Rightarrow> device_list option" where
  "DeviceList_RemoveAllDevices dl = do { _ \<leftarrow> device_slots dl; Some (dl\<lparr>dl_slots := None\<rparr>) }"

fun add_device_loop :: "nat \<Rightarrow> nat list \<Rightarrow> bool \<times> nat list" where
  "add_device_loop device [] = (False, [])"
| "add_device_loop device (d # ds) =
     (if d = 0 then (True, device # ds)
      else if d = device then (False, d # ds)
      else let (added, ds') = add_device_loop device ds in (added, d # ds'))"

definition DeviceList_AddDevice :: "nat \<Rightarrow> device_list \<Rightarrow> (bool \<times> device_list) option" where
  "DeviceList_AddDevice device dl =
     do {
       xs \<leftarrow> device_slots dl;
       let (added, ys) = add_device_loop device xs;
       Some (added, if added then dl\<lparr>dl_slots := Some ys\<rparr> else dl)
     }"

fun remove_device_loop :: "nat \<Rightarrow> nat list \<Rightarrow> nat list" where
  "remove_device_loop device [] = []"
| "remove_device_loop device (d # ds) = (if d = device then 0 # ds else d # remove_device_loop device ds)"

definition DeviceList_RemoveDevice :: "nat \<Rightarrow> device_list \<Rightarrow> device_list option" where
  "DeviceList_RemoveDevice device dl =
     do {
       xs \<leftarrow> device_slots dl;
       Some (if trusted_device_list dl = 0 then dl else dl\<lparr>dl_slots := Some (remove_device_loop device xs)\<rparr>)
     }"

definition DeviceList_IsDeviceOnList :: "nat \<Rightarrow> device_list \<Rightarrow> bool option" where
  "DeviceList_IsDeviceOnList device dl =
     (if device = 0 then Some False else map_option (\<lambda>xs. device \<in> set xs) (device_slots dl))"

text \<open>The devices found, in the order they are written to \<open>device_array\<close>.\<close>

fun deviceList_FindMatchingDevices ::
  "(nat \<Rightarrow> kv_list) \<Rightarrow> u16 \<Rightarrow> u8 list \<Rightarrow> bool \<Rightarrow> nat list \<Rightarrow> nat list option" where
  "deviceList_FindMatchingDevices heap pid value just_first [] = Some []"
| "deviceList_FindMatchingDevices heap pid value just_first (d # ds) =
     (if d = 0 then deviceList_FindMatchingDevices heap pid value just_first ds
      else do {
        r \<leftarrow> Device_GetProperty (heap d) pid;
        matches \<leftarrow> (case r of
            None \<Rightarrow> Some False
          | Some (loc, n) \<Rightarrow>
              if length value = n then map_option (\<lambda>bytes. bytes = value) (kv_load (heap d) loc) else Some False);
        if matches \<and> just_first then Some [d]
        else do {
          found \<leftarrow> deviceList_FindMatchingDevices heap pid value just_first ds;
          Some (if matches then d # found else found)
        }
      })"

fun deviceList_FindDevicesWithProperty :: "(nat \<Rightarrow> kv_list) \<Rightarrow> u16 \<Rightarrow> nat list \<Rightarrow> nat list option" where
  "deviceList_FindDevicesWithProperty heap pid [] = Some []"
| "deviceList_FindDevicesWithProperty heap pid (d # ds) =
     do {
       has \<leftarrow> (if d = 0 then Some False
              else map_option (\<lambda>r. r \<noteq> None) (Device_GetProperty (heap d) pid));
       found \<leftarrow> deviceList_FindDevicesWithProperty heap pid ds;
       Some (if has then d # found else found)
     }"

definition DeviceList_GetFirstDeviceWithPropertyValue ::
  "(nat \<Rightarrow> kv_list) \<Rightarrow> u16 \<Rightarrow> u8 list \<Rightarrow> device_list \<Rightarrow> nat option" where
  "DeviceList_GetFirstDeviceWithPropertyValue heap pid value dl =
     do {
       xs \<leftarrow> device_slots dl;
       found \<leftarrow> deviceList_FindMatchingDevices heap pid value True xs;
       PanicFalse (length found \<le> 1);
       Some (case found of d # _ \<Rightarrow> d | [] \<Rightarrow> 0)
     }"

definition DeviceList_GetAllDevicesWithPropertyValue ::
  "(nat \<Rightarrow> kv_list) \<Rightarrow> u16 \<Rightarrow> u8 list \<Rightarrow> device_list \<Rightarrow> nat list option" where
  "DeviceList_GetAllDevicesWithPropertyValue heap pid value dl =
     do { xs \<leftarrow> device_slots dl; deviceList_FindMatchingDevices heap pid value False xs }"

definition DeviceList_GetAllDevicesWithProperty ::
  "(nat \<Rightarrow> kv_list) \<Rightarrow> u16 \<Rightarrow> device_list \<Rightarrow> nat list option" where
  "DeviceList_GetAllDevicesWithProperty heap pid dl =
     do { xs \<leftarrow> device_slots dl; deviceList_FindDevicesWithProperty heap pid xs }"

text \<open>The devices the action is called for, in this order.\<close>

definition DeviceList_Iterate :: "device_list \<Rightarrow> nat list option" where
  "DeviceList_Iterate dl = map_option (filter (\<lambda>d. d \<noteq> 0)) (device_slots dl)"

definition DeviceList_GetMaxTrustedDevices :: "device_list \<Rightarrow> u8 option" where
  "DeviceList_GetMaxTrustedDevices dl =
     do { PanicFalse (trusted_device_list dl \<noteq> 0); Some (of_nat (trusted_device_list dl)) }"

section \<open>Properties\<close>

definition set_calls :: "'h option \<Rightarrow> u16 \<Rightarrow> u8 list \<Rightarrow> 'h device_call list" where
  "set_calls handler pid value = (case handler of Some h \<Rightarrow> [Property_set h pid value] | None \<Rightarrow> [])"

lemma SetProperty_set_value:
  "Device_SetProperty mem h d pid v
    = map_option (\<lambda>d'. (True, d', set_calls h pid v)) (kv.set_value mem d pid v)"
  by (auto simp: Device_SetProperty_def kv.set_value_def device_Add_def Device_RemoveProperty_def set_calls_def
    PanicFalse_def split: option.splits bind_splits)



lemma SetProperty_result:
  assumes "kv_ok d" "kv_room d" "storable v"
  shows "\<exists>d'. Device_SetProperty mem h d pid v
      = (if removable mem d pid then Some (True, d', set_calls h pid v) else None)
    \<and> kv_ok d' \<and> kv_view d' = (kv_view d)(pid \<mapsto> v)"
proof -
  obtain d' where d': "kv.set_value mem d pid v
      = (if kv_view d pid = None \<or> removable mem d pid then Some d' else None)"
    "kv_ok d'" "kv_view d' = (kv_view d)(pid \<mapsto> v)" using kv.set_value_law [OF assms] by blast
  moreover have "kv_view d pid = None \<or> removable mem d pid \<longleftrightarrow> removable mem d pid" by auto
  ultimately show ?thesis by (auto simp: SetProperty_set_value)
qed

lemma SetProperty_view:
  assumes "kv_ok d" "kv_room d" "storable v" "removable mem d pid"
  shows "\<exists>d'. Device_SetProperty mem h d pid v = Some (True, d', set_calls h pid v)
    \<and> kv_ok d' \<and> kv_view d' = (kv_view d)(pid \<mapsto> v)"
  using SetProperty_result [OF assms(1-3), of mem h pid] assms(4) by simp

text \<open>
  The interface says that setting a property fails if it exists already; the code replaces the value
  and reports success.
\<close>

lemma SetProperty_replaces:
  assumes "kv_ok d" "kv_room d" "storable v" "kv_view d pid = Some w" "removable mem d pid"
  shows "\<exists>d'. Device_SetProperty mem h d pid v = Some (True, d', set_calls h pid v) \<and> kv_view d' pid = Some v"
  using SetProperty_view [OF assms(1-3,5), of h] by auto






definition matches :: "(nat \<Rightarrow> kv_list) \<Rightarrow> u16 \<Rightarrow> u8 list \<Rightarrow> nat \<Rightarrow> bool" where
  "matches heap pid value d = (d \<noteq> 0 \<and> kv_view (heap d) pid = Some value)"

lemma FindMatching_filter:
  assumes "\<forall>d\<in>set xs. d \<noteq> 0 \<longrightarrow> kv_ok (heap d)"
  shows "deviceList_FindMatchingDevices heap pid value first xs
    = Some ((if first then take 1 else (\<lambda>ys. ys)) (filter (matches heap pid value) xs))"
  using assms
proof (induction xs)
  case (Cons d ds)
  show ?case
  proof (cases "d = 0")
    case True
    then show ?thesis using Cons by (simp add: matches_def)
  next
    case False
    then obtain r where "KeyValueList_Get (heap d) pid = Some r"
      "case r of None \<Rightarrow> kv_view (heap d) pid = None
        | Some (loc, n) \<Rightarrow> \<exists>v. kv_load (heap d) loc = Some v \<and> kv_view (heap d) pid = Some v \<and> n = length v"
      using Get_view [of "heap d" pid] Cons.prems by auto
    then show ?thesis
      using Cons False by (auto simp: matches_def Device_GetProperty_def split: option.split_asm)
  qed
qed simp

lemma FindWithProperty_filter:
  assumes "\<forall>d\<in>set xs. d \<noteq> 0 \<longrightarrow> kv_ok (heap d)"
  shows "deviceList_FindDevicesWithProperty heap pid xs
    = Some (filter (\<lambda>d. d \<noteq> 0 \<and> kv_view (heap d) pid \<noteq> None) xs)"
  using assms
proof (induction xs)
  case (Cons d ds)
  then show ?case
    using kv_view_at [of "heap d" pid]
    by (auto simp: Device_GetProperty_def KeyValueList_IsSet_def)
qed simp

text \<open>
  The queries of the device list are complete: for every list of valid devices, the queries
  return, in list order, exactly the listed devices whose property has the value (or is set at all); the
  query for the first device returns the first of those, and NULL exactly if there is none.
\<close>
lemma device_queries_complete:
  assumes "device_slots dl = Some xs" "\<forall>d\<in>set xs. d \<noteq> 0 \<longrightarrow> kv_ok (heap d)"
  shows "DeviceList_GetAllDevicesWithPropertyValue heap pid value dl = Some (filter (matches heap pid value) xs)
    \<and> DeviceList_GetAllDevicesWithProperty heap pid dl
        = Some (filter (\<lambda>d. d \<noteq> 0 \<and> kv_view (heap d) pid \<noteq> None) xs)
    \<and> DeviceList_GetFirstDeviceWithPropertyValue heap pid value dl
        = Some (case find (matches heap pid value) xs of Some d \<Rightarrow> d | None \<Rightarrow> 0)"
proof -
  have "take 1 (filter (matches heap pid value) xs)
      = (case find (matches heap pid value) xs of Some d \<Rightarrow> [d] | None \<Rightarrow> [])"
    by (induction xs) auto
  then show ?thesis
    using assms(1) FindMatching_filter [OF assms(2), of pid "value"] FindWithProperty_filter [OF assms(2), of pid]
    by (simp add: DeviceList_GetAllDevicesWithPropertyValue_def DeviceList_GetAllDevicesWithProperty_def
      DeviceList_GetFirstDeviceWithPropertyValue_def split: option.splits)
qed

theorem device_queries_complete_witness:
  "DeviceList_GetFirstDeviceWithPropertyValue (\<lambda>_. Device_Create) 3 [1]
     \<lparr>dl_slots = Some [0, 7], trusted_device_list = 2\<rparr> = Some 0"
  using device_queries_complete [of "\<lparr>dl_slots = Some [0, 7], trusted_device_list = 2\<rparr>" "[0, 7]"
      "\<lambda>_. Device_Create" 3 "[1]"] Create_view
  by (simp add: device_slots_def Device_Create_def matches_def)

text \<open>
  Adding does not keep devices distinct: a free slot in front of a listed device takes the device a
  second time, and removing it then leaves it on the list.
\<close>
lemma device_added_twice:
  "let dl = \<lparr>dl_slots = Some [5, 7], trusted_device_list = 2\<rparr>
   in do { dl1 \<leftarrow> DeviceList_RemoveDevice 5 dl; (added, dl2) \<leftarrow> DeviceList_AddDevice 7 dl1;
           dl3 \<leftarrow> DeviceList_RemoveDevice 7 dl2; listed \<leftarrow> DeviceList_IsDeviceOnList 7 dl3; Some (added, listed) }
     = Some (True, True)"
  by (simp add: DeviceList_RemoveDevice_def DeviceList_AddDevice_def DeviceList_IsDeviceOnList_def
    device_slots_def Let_def)

text \<open>
  Once all devices are removed the array is gone but its length is kept, so every further
  operation that looks at a slot reads through a NULL pointer.
\<close>
lemma removed_list_faults:
  assumes "dl_slots dl = Some xs" "trusted_device_list dl \<noteq> 0"
  shows "\<exists>dl'. DeviceList_RemoveAllDevices dl = Some dl' \<and> DeviceList_GetNumOfDevices dl' = None
    \<and> DeviceList_AddDevice d dl' = None"
  using assms by (simp add: DeviceList_RemoveAllDevices_def DeviceList_GetNumOfDevices_def
    DeviceList_AddDevice_def device_slots_def)

end
