(* ===== verification/BandwidthManager.thy ===== *)
theory BandwidthManager
  imports Prelude "HOL-Library.Multiset"
begin

text \<open>
  The bandwidth manager, \<open>domains/bt/bandwidth_manager\<close>: features of three priorities register,
  start and stop; while a feature of higher priority runs, the features below it are told to
  throttle. The features are kept in an array of six slots. Starting and stopping rearrange the slots
  so that running features come first, and post a message holding the slot of the feature to the
  manager's own task, which is handled later. A slot pointer is its index. Calls of the features'
  callbacks ('c) are outputs, in order; panics, NULL callbacks and accesses outside the arrays
  are \<open>None\<close>.
\<close>

section \<open>Data\<close>

datatype bandwidth_manager_priority =
  high_bandwidth_manager_priority | medium_bandwidth_manager_priority | low_bandwidth_manager_priority
  | unused_bandwidth_manager_priority

primrec priority_code :: "bandwidth_manager_priority \<Rightarrow> nat" where
  "priority_code high_bandwidth_manager_priority = 0"
| "priority_code medium_bandwidth_manager_priority = 1"
| "priority_code low_bandwidth_manager_priority = 2"
| "priority_code unused_bandwidth_manager_priority = 3"

lemma priority_code_inj: "priority_code p = priority_code q \<longleftrightarrow> p = q"
  by (cases p; cases q) auto

instantiation bandwidth_manager_priority :: linorder
begin

definition "p \<le> q \<longleftrightarrow> priority_code p \<le> priority_code q"
definition "p < q \<longleftrightarrow> priority_code p < priority_code q"

instance
  by standard (auto simp: less_eq_bandwidth_manager_priority_def less_bandwidth_manager_priority_def priority_code_inj)

end

lemmas priority_order = less_eq_bandwidth_manager_priority_def less_bandwidth_manager_priority_def

type_synonym feature_id = nat

definition BANDWIDTH_MGR_FEATURE_MAX :: feature_id where "BANDWIDTH_MGR_FEATURE_MAX = 6"
definition BANDWIDTH_MGR_FEATURE_INVALID_ID :: feature_id where "BANDWIDTH_MGR_FEATURE_INVALID_ID = 7"

record feature_bitfields =
  bf_priority :: bandwidth_manager_priority
  bf_running :: bool
  bf_throttle_required :: bool
  bf_identifier :: feature_id

record 'c feature_info =
  fi_callback :: "'c option"
  fi_bitfields :: feature_bitfields

datatype bandwidth_manager_action = BANDWIDTH_MGR_ACTION_MSG_START | BANDWIDTH_MGR_ACTION_MSG_STOP

text \<open>The messages posted to \<open>bandwidth_manager_info.task\<close> and not handled yet are \<open>bw_messages\<close>.\<close>

record 'c bandwidth_manager =
  bw_initialised :: bool
  active_features_num :: u8
  registered_features_num :: nat
  bw_features :: "'c feature_info list"
  bw_messages :: "(bandwidth_manager_action \<times> nat) list"

type_synonym 'c throttle_calls = "('c \<times> bool) list"

definition running :: "'c feature_info \<Rightarrow> bool" where "running f = bf_running (fi_bitfields f)"
definition throttled :: "'c feature_info \<Rightarrow> bool" where "throttled f = bf_throttle_required (fi_bitfields f)"
definition priority :: "'c feature_info \<Rightarrow> bandwidth_manager_priority" where "priority f = bf_priority (fi_bitfields f)"
definition ident :: "'c feature_info \<Rightarrow> feature_id" where "ident f = bf_identifier (fi_bitfields f)"

lemmas feature_fields = running_def throttled_def priority_def ident_def

definition set_state :: "bool \<Rightarrow> bool \<Rightarrow> 'c feature_info \<Rightarrow> 'c feature_info" where
  "set_state run throttle f =
     f\<lparr>fi_bitfields := (fi_bitfields f)\<lparr>bf_running := run, bf_throttle_required := throttle\<rparr>\<rparr>"

definition registered :: "'c bandwidth_manager \<Rightarrow> 'c feature_info list" where
  "registered s = take (registered_features_num s) (bw_features s)"

section \<open>Handling an action\<close>

definition feature_priorities :: "bandwidth_manager_priority list" where
  "feature_priorities = [high_bandwidth_manager_priority, medium_bandwidth_manager_priority,
     low_bandwidth_manager_priority]"

definition bandwidthManager_getHighestRunningFeaturePrio ::
  "(bandwidth_manager_priority \<Rightarrow> u8) \<Rightarrow> bandwidth_manager_priority \<Rightarrow> bandwidth_manager_priority" where
  "bandwidthManager_getHighestRunningFeaturePrio running_feature_prios default_prio =
     fold (\<lambda>p highest. if running_feature_prios p \<noteq> 0 \<and> p < highest then p else highest)
       feature_priorities default_prio"

text \<open>
  The loops over the registered features that tell some of them to throttle, or no longer to:
  \<open>sel\<close> selects the features, \<open>t\<close> is the new value.
\<close>

fun notify_loop ::
  "('c feature_info \<Rightarrow> bool) \<Rightarrow> bool \<Rightarrow> 'c feature_info list
   \<Rightarrow> ('c throttle_calls \<times> 'c feature_info list) option" where
  "notify_loop sel t [] = Some ([], [])"
| "notify_loop sel t (f # fs) =
     do {
       (call, f') \<leftarrow> (if sel f \<and> throttled f \<noteq> t
                     then do { c \<leftarrow> fi_callback f; Some ([(c, t)], set_state (running f) t f) }
                     else Some ([], f));
       (calls, fs') \<leftarrow> notify_loop sel t fs;
       Some (call @ calls, f' # fs')
     }"

definition notify ::
  "('c feature_info \<Rightarrow> bool) \<Rightarrow> bool \<Rightarrow> 'c bandwidth_manager
   \<Rightarrow> ('c throttle_calls \<times> 'c bandwidth_manager) option" where
  "notify sel t s =
     do {
       (calls, fs) \<leftarrow> notify_loop sel t (registered s);
       Some (calls, s\<lparr>bw_features := fs @ drop (registered_features_num s) (bw_features s)\<rparr>)
     }"

definition bandwidthManager_throttleBandwidthOfAllLowPrioFeatures ::
  "bandwidth_manager_priority \<Rightarrow> 'c bandwidth_manager
   \<Rightarrow> ('c throttle_calls \<times> 'c bandwidth_manager) option" where
  "bandwidthManager_throttleBandwidthOfAllLowPrioFeatures higher_feature_prio s =
     notify (\<lambda>f. higher_feature_prio < priority f \<and> running f) True s"

definition bandwidthManager_unthrottleBandwidthOfFeatures ::
  "bandwidth_manager_priority \<Rightarrow> 'c bandwidth_manager
   \<Rightarrow> ('c throttle_calls \<times> 'c bandwidth_manager) option" where
  "bandwidthManager_unthrottleBandwidthOfFeatures feature_prio s =
     notify (\<lambda>f. feature_prio = priority f \<and> running f) False s"

definition running_at_priority :: "'c bandwidth_manager \<Rightarrow> bandwidth_manager_priority \<Rightarrow> u8" where
  "running_at_priority s p = of_nat (length (filter (\<lambda>f. running f \<and> priority f = p) (registered s)))"

definition bandwidthManager_handleAction ::
  "nat \<Rightarrow> bandwidth_manager_action \<Rightarrow> 'c bandwidth_manager
   \<Rightarrow> ('c throttle_calls \<times> 'c bandwidth_manager) option" where
  "bandwidthManager_handleAction slot action s =
     do {
       PanicFalse (\<forall>f\<in>set (registered s). running f \<longrightarrow> priority f \<noteq> unused_bandwidth_manager_priority);
       PanicFalse (slot < length (bw_features s));
       let acting = priority (bw_features s ! slot);
       let total_running = sum_list (map (running_at_priority s) feature_priorities);
       case action of
         BANDWIDTH_MGR_ACTION_MSG_START \<Rightarrow>
           (if total_running > 1 then
              (case acting of
                 high_bandwidth_manager_priority \<Rightarrow>
                   bandwidthManager_throttleBandwidthOfAllLowPrioFeatures high_bandwidth_manager_priority s
               | unused_bandwidth_manager_priority \<Rightarrow> Some ([], s)
               | _ \<Rightarrow> bandwidthManager_throttleBandwidthOfAllLowPrioFeatures
                       (bandwidthManager_getHighestRunningFeaturePrio (running_at_priority s) acting) s)
            else Some ([], s))
       | BANDWIDTH_MGR_ACTION_MSG_STOP \<Rightarrow>
           (if total_running > 0 then
              (let highest = bandwidthManager_getHighestRunningFeaturePrio (running_at_priority s)
                               low_bandwidth_manager_priority
               in if highest > acting then bandwidthManager_unthrottleBandwidthOfFeatures highest s
                  else Some ([], s))
            else Some ([], s))
     }"

text \<open>The delivery of the oldest message.\<close>

definition bandwidthManager_handleMessage ::
  "'c bandwidth_manager \<Rightarrow> ('c throttle_calls \<times> 'c bandwidth_manager) option" where
  "bandwidthManager_handleMessage s =
     (case bw_messages s of
        [] \<Rightarrow> Some ([], s)
      | (action, slot) # ms \<Rightarrow> bandwidthManager_handleAction slot action (s\<lparr>bw_messages := ms\<rparr>))"

section \<open>Slots\<close>

definition bandwidthManager_GetFeatureInfoUsingIdentifier ::
  "'c bandwidth_manager \<Rightarrow> feature_id \<Rightarrow> nat option" where
  "bandwidthManager_GetFeatureInfoUsingIdentifier s i =
     (if i < BANDWIDTH_MGR_FEATURE_MAX
      then find (\<lambda>j. ident (registered s ! j) = i) [0 ..< length (registered s)]
      else None)"

definition bandwidthManager_GetFirstNonRunningFeature :: "'c bandwidth_manager \<Rightarrow> nat option" where
  "bandwidthManager_GetFirstNonRunningFeature s =
     find (\<lambda>j. \<not> running (registered s ! j)) [0 ..< length (registered s)]"

definition bandwidthManager_ArrangeFeatureSlot ::
  "nat \<Rightarrow> 'c bandwidth_manager \<Rightarrow> nat \<times> 'c bandwidth_manager" where
  "bandwidthManager_ArrangeFeatureSlot current s =
     (let fs = bw_features s; last_slot = registered_features_num s - 1
      in if running (fs ! current) then
           (case bandwidthManager_GetFirstNonRunningFeature s of
              Some j \<Rightarrow>
                if j < current
                then (j, s\<lparr>bw_features := fs[current := fs ! j, j := fs ! current]\<rparr>)
                else (current, s)
            | None \<Rightarrow> (current, s))
         else if current \<noteq> last_slot \<and> running (fs ! (current + 1)) then
           (last_slot, s\<lparr>bw_features := take current fs @ take (last_slot - current) (drop (current + 1) fs)
                          @ fs ! current # drop (last_slot + 1) fs\<rparr>)
         else (current, s))"

section \<open>Interface\<close>

text \<open>Memory set to zero.\<close>

definition empty_bitfields :: feature_bitfields where
  "empty_bitfields = \<lparr>bf_priority = high_bandwidth_manager_priority, bf_running = False,
     bf_throttle_required = False, bf_identifier = 0\<rparr>"

definition empty_feature :: "'c feature_info" where
  "empty_feature = \<lparr>fi_callback = None, fi_bitfields = empty_bitfields\<rparr>"

definition BandwidthManager_Init :: "'c bandwidth_manager \<Rightarrow> 'c bandwidth_manager" where
  "BandwidthManager_Init s =
     (if \<not> bw_initialised s
      then s\<lparr>bw_initialised := True, active_features_num := 0, registered_features_num := 0,
             bw_features := replicate BANDWIDTH_MGR_FEATURE_MAX (empty_feature\<lparr>fi_bitfields :=
               empty_bitfields\<lparr>bf_identifier := BANDWIDTH_MGR_FEATURE_INVALID_ID\<rparr>\<rparr>)\<rparr>
      else s)"

definition BandwidthManager_RegisterFeature ::
  "feature_id \<Rightarrow> bandwidth_manager_priority \<Rightarrow> 'c option \<Rightarrow> 'c bandwidth_manager
   \<Rightarrow> bool \<times> 'c bandwidth_manager" where
  "BandwidthManager_RegisterFeature i prio callback s =
     (if i < BANDWIDTH_MGR_FEATURE_MAX \<and> registered_features_num s < BANDWIDTH_MGR_FEATURE_MAX
         \<and> bw_initialised s \<and> prio < unused_bandwidth_manager_priority
         \<and> \<not> (prio \<noteq> high_bandwidth_manager_priority \<and> callback = None)
      then let (slot, s1) = (case bandwidthManager_GetFeatureInfoUsingIdentifier s i of
                 Some j \<Rightarrow> (j, s)
               | None \<Rightarrow> (registered_features_num s,
                          s\<lparr>registered_features_num := registered_features_num s + 1\<rparr>));
               f = \<lparr>fi_callback = callback, fi_bitfields = empty_bitfields
                     \<lparr>bf_priority := prio, bf_identifier := i\<rparr>\<rparr>
           in (True, s1\<lparr>bw_features := (bw_features s1)[slot := f]\<rparr>)
      else (False, s))"

definition BandwidthManager_FeatureStart :: "feature_id \<Rightarrow> 'c bandwidth_manager \<Rightarrow> bool \<times> 'c bandwidth_manager" where
  "BandwidthManager_FeatureStart i s =
     (case bandwidthManager_GetFeatureInfoUsingIdentifier s i of
        None \<Rightarrow> (False, s)
      | Some j \<Rightarrow>
          if running (bw_features s ! j) then (False, s)
          else let s1 = s\<lparr>bw_features := (bw_features s)[j := set_state True False (bw_features s ! j)],
                          active_features_num := active_features_num s + 1\<rparr>;
                   (slot, s2) = bandwidthManager_ArrangeFeatureSlot j s1
               in (True, s2\<lparr>bw_messages := bw_messages s2 @ [(BANDWIDTH_MGR_ACTION_MSG_START, slot)]\<rparr>))"

definition BandwidthManager_FeatureStop :: "feature_id \<Rightarrow> 'c bandwidth_manager \<Rightarrow> bool \<times> 'c bandwidth_manager" where
  "BandwidthManager_FeatureStop i s =
     (case bandwidthManager_GetFeatureInfoUsingIdentifier s i of
        None \<Rightarrow> (False, s)
      | Some j \<Rightarrow>
          if \<not> running (bw_features s ! j) then (False, s)
          else let s1 = s\<lparr>bw_features := (bw_features s)[j := set_state False False (bw_features s ! j)],
                          active_features_num := active_features_num s - 1\<rparr>;
                   (slot, s2) = bandwidthManager_ArrangeFeatureSlot j s1
               in (True, s2\<lparr>bw_messages := bw_messages s2 @ [(BANDWIDTH_MGR_ACTION_MSG_STOP, slot)]\<rparr>))"

definition BandwidthManager_IsThrottleRequired :: "feature_id \<Rightarrow> 'c bandwidth_manager \<Rightarrow> bool option" where
  "BandwidthManager_IsThrottleRequired i s =
     do {
       j \<leftarrow> bandwidthManager_GetFeatureInfoUsingIdentifier s i;
       let f = bw_features s ! j;
       Some (if running f then throttled f else True)
     }"

definition BandwidthManager_IsFeatureRunning :: "feature_id \<Rightarrow> 'c bandwidth_manager \<Rightarrow> bool option" where
  "BandwidthManager_IsFeatureRunning i s =
     do { j \<leftarrow> bandwidthManager_GetFeatureInfoUsingIdentifier s i; Some (running (bw_features s ! j)) }"

definition BandwidthManager_GetFeaturePriority ::
  "feature_id \<Rightarrow> 'c bandwidth_manager \<Rightarrow> bandwidth_manager_priority option" where
  "BandwidthManager_GetFeaturePriority i s =
     do { j \<leftarrow> bandwidthManager_GetFeatureInfoUsingIdentifier s i; Some (priority (bw_features s ! j)) }"

definition BandwidthManager_GetActiveFeaturesNum :: "'c bandwidth_manager \<Rightarrow> u8" where
  "BandwidthManager_GetActiveFeaturesNum s = active_features_num s"

definition BandwidthManager_SetActiveFeaturesNum :: "u8 \<Rightarrow> 'c bandwidth_manager \<Rightarrow> 'c bandwidth_manager" where
  "BandwidthManager_SetActiveFeaturesNum n s = s\<lparr>active_features_num := n\<rparr>"

definition BandwidthManager_ResetAllFeaturesInfo :: "'c bandwidth_manager \<Rightarrow> 'c bandwidth_manager" where
  "BandwidthManager_ResetAllFeaturesInfo s =
     BandwidthManager_SetActiveFeaturesNum 0
       (s\<lparr>bw_features := map (set_state False False) (registered s)
           @ drop (registered_features_num s) (bw_features s)\<rparr>)"

definition BandwidthManager_UpdateFeatureInfo :: "feature_bitfields \<Rightarrow> 'c bandwidth_manager \<Rightarrow> 'c bandwidth_manager" where
  "BandwidthManager_UpdateFeatureInfo b s =
     (case bandwidthManager_GetFeatureInfoUsingIdentifier s (bf_identifier b) of
        None \<Rightarrow> s
      | Some j \<Rightarrow> snd (bandwidthManager_ArrangeFeatureSlot j
                    (s\<lparr>bw_features := (bw_features s)[j := (bw_features s ! j)\<lparr>fi_bitfields := b\<rparr>]\<rparr>)))"

definition BandwidthManager_RefreshFeatureThrottleStatus :: "'c bandwidth_manager \<Rightarrow> 'c throttle_calls option" where
  "BandwidthManager_RefreshFeatureThrottleStatus s =
     those (map (\<lambda>f. map_option (\<lambda>c. (c, True)) (fi_callback f))
       (filter (\<lambda>f. running f \<and> throttled f) (registered s)))"

section \<open>Handover\<close>

definition bandwidthManager_Veto :: "'c bandwidth_manager \<Rightarrow> bool" where
  "bandwidthManager_Veto s = (bw_messages s \<noteq> [])"

text \<open>
  What is sent to the other earbud: the number of active features and, as the length callback
  says, the bit fields of that many slots; nothing when no feature is active.
\<close>

definition bandwidthManager_Marshal :: "'c bandwidth_manager \<Rightarrow> (u8 \<times> feature_bitfields list) option" where
  "bandwidthManager_Marshal s =
     (if active_features_num s > 0
      then Some (active_features_num s, map fi_bitfields (take (unat (active_features_num s)) (bw_features s)))
      else None)"

definition bandwidthManager_UnmarshalActiveFeaturesInfo ::
  "u8 \<times> feature_bitfields list \<Rightarrow> 'c bandwidth_manager \<Rightarrow> 'c bandwidth_manager" where
  "bandwidthManager_UnmarshalActiveFeaturesInfo data s =
     BandwidthManager_SetActiveFeaturesNum (fst data)
       (fold BandwidthManager_UpdateFeatureInfo (take (unat (fst data)) (snd data))
         (BandwidthManager_ResetAllFeaturesInfo s))"

definition bandwidthManager_Commit :: "bool \<Rightarrow> 'c bandwidth_manager \<Rightarrow> ('c throttle_calls \<times> 'c bandwidth_manager) option" where
  "bandwidthManager_Commit is_primary s =
     (if \<not> is_primary then Some ([], BandwidthManager_ResetAllFeaturesInfo s)
      else do { calls \<leftarrow> BandwidthManager_RefreshFeatureThrottleStatus s; Some (calls, s) })"

section \<open>Loops over the features\<close>

lemma set_state_fields [simp]:
  "running (set_state r t f) = r" "throttled (set_state r t f) = t" "priority (set_state r t f) = priority f"
  "ident (set_state r t f) = ident f" "fi_callback (set_state r t f) = fi_callback f"
  by (simp_all add: set_state_def feature_fields)

lemma set_state_same [simp]: "set_state (running f) (throttled f) f = f"
  by (simp add: set_state_def feature_fields)

definition notified :: "('c feature_info \<Rightarrow> bool) \<Rightarrow> bool \<Rightarrow> 'c feature_info \<Rightarrow> 'c feature_info" where
  "notified sel t f = (if sel f then set_state (running f) t f else f)"

lemma notified_fields [simp]:
  "running (notified sel t f) = running f" "priority (notified sel t f) = priority f"
  "ident (notified sel t f) = ident f" "fi_callback (notified sel t f) = fi_callback f"
  "throttled (notified sel t f) = (if sel f then t else throttled f)"
  by (simp_all add: notified_def)

lemma ident_notified [simp]: "ident \<circ> notified sel t = ident"
  by auto

lemma notify_loop_Some:
  assumes "\<forall>f\<in>set fs. sel f \<longrightarrow> fi_callback f \<noteq> None"
  shows "notify_loop sel t fs = Some
    (map (\<lambda>f. (the (fi_callback f), t)) (filter (\<lambda>f. sel f \<and> throttled f \<noteq> t) fs), map (notified sel t) fs)"
  using assms
proof (induction fs)
  case (Cons f fs)
  have "set_state (running f) t f = f" if "throttled f = t" using set_state_same [of f] that by (simp only:)
  with Cons show ?case by (auto simp: notified_def)
qed simp

definition with_registered :: "'c feature_info list \<Rightarrow> 'c bandwidth_manager \<Rightarrow> 'c bandwidth_manager" where
  "with_registered rs s = s\<lparr>bw_features := rs @ drop (registered_features_num s) (bw_features s)\<rparr>"

lemma notify_Some:
  assumes "\<forall>f\<in>set (registered s). sel f \<longrightarrow> fi_callback f \<noteq> None"
  shows "\<exists>calls. notify sel t s = Some (calls, with_registered (map (notified sel t) (registered s)) s)"
  using notify_loop_Some [OF assms, of t] by (simp add: notify_def with_registered_def)

definition usable :: "'c feature_info \<Rightarrow> bool" where
  "usable f = (priority f \<noteq> unused_bandwidth_manager_priority \<and> ident f < BANDWIDTH_MGR_FEATURE_MAX
     \<and> (fi_callback f = None \<longrightarrow> priority f = high_bandwidth_manager_priority)
     \<and> (throttled f \<longrightarrow> running f))"

definition running_first :: "'c feature_info list \<Rightarrow> bool" where
  "running_first fs = (fs = filter running fs @ filter (\<lambda>f. \<not> running f) fs)"

text \<open>The invariant of the slots; it holds at all times.\<close>

definition bw_ok :: "'c bandwidth_manager \<Rightarrow> bool" where
  "bw_ok s = (bw_initialised s \<and> length (bw_features s) = BANDWIDTH_MGR_FEATURE_MAX
     \<and> registered_features_num s \<le> BANDWIDTH_MGR_FEATURE_MAX
     \<and> distinct (map ident (registered s)) \<and> (\<forall>f\<in>set (registered s). usable f)
     \<and> running_first (registered s)
     \<and> active_features_num s = of_nat (length (filter running (registered s)))
     \<and> (\<forall>(a, slot)\<in>set (bw_messages s). slot < registered_features_num s))"

lemma bw_ok_parts:
  assumes "bw_ok s"
  shows "length (registered s) = registered_features_num s" "length (registered s) \<le> 6"
    "bw_features s = registered s @ drop (registered_features_num s) (bw_features s)"
  using assms by (simp_all add: bw_ok_def registered_def BANDWIDTH_MGR_FEATURE_MAX_def min_def)

lemma running_first_parts:
  "running_first fs \<longleftrightarrow> (\<exists>R N. fs = R @ N \<and> (\<forall>f\<in>set R. running f) \<and> (\<forall>f\<in>set N. \<not> running f))"
proof
  show "running_first fs \<Longrightarrow> \<exists>R N. fs = R @ N \<and> (\<forall>f\<in>set R. running f) \<and> (\<forall>f\<in>set N. \<not> running f)"
    by (intro exI [of _ "filter running fs"] exI [of _ "filter (\<lambda>f. \<not> running f) fs"]) (auto simp: running_first_def)
qed (auto simp: running_first_def)

lemma with_registered_simps [simp]:
  assumes "length rs = registered_features_num s"
  shows "registered (with_registered rs s) = rs" "with_registered xs (with_registered rs s) = with_registered xs s"
  using assms by (simp_all add: registered_def with_registered_def)

lemma with_registered_fields [simp]:
  "registered_features_num (with_registered rs s) = registered_features_num s"
  "active_features_num (with_registered rs s) = active_features_num s"
  "bw_initialised (with_registered rs s) = bw_initialised s"
  "bw_messages (with_registered rs s) = bw_messages s"
  by (simp_all add: with_registered_def)

lemma filter_map_notified [simp]:
  "filter running (map (notified sel t) fs) = map (notified sel t) (filter running fs)"
  "filter (\<lambda>f. \<not> running f) (map (notified sel t) fs) = map (notified sel t) (filter (\<lambda>f. \<not> running f) fs)"
  by (induction fs) auto

lemma notified_keeps_ok:
  assumes "bw_ok s" "\<forall>f\<in>set (registered s). sel f \<longrightarrow> running f"
  shows "bw_ok (with_registered (map (notified sel t) (registered s)) s)"
proof -
  let ?m = "map (notified sel t) (registered s)"
  note len = bw_ok_parts [OF assms(1)]
  have "map ident ?m = map ident (registered s)" by simp
  moreover have "running_first ?m"
    using assms(1) by (auto simp: bw_ok_def running_first_def simp flip: map_append)
  moreover have "\<forall>f\<in>set ?m. usable f"
    using assms by (auto simp: bw_ok_def usable_def)
  moreover have "length (bw_features (with_registered ?m s)) = BANDWIDTH_MGR_FEATURE_MAX"
    using assms(1) len by (simp add: bw_ok_def with_registered_def BANDWIDTH_MGR_FEATURE_MAX_def)
  ultimately show ?thesis
    using assms(1) len(1) by (simp add: bw_ok_def)
qed

lemma length_filter_priorities:
  assumes "\<forall>f\<in>set fs. running f \<longrightarrow> priority f \<noteq> unused_bandwidth_manager_priority"
  shows "sum_list (map (\<lambda>p. length (filter (\<lambda>f. running f \<and> priority f = p) fs)) feature_priorities)
    = length (filter running fs)"
  using assms
proof (induction fs)
  case (Cons f fs)
  then show ?case by (cases "priority f") (auto simp: feature_priorities_def)
qed (simp add: feature_priorities_def)

lemma total_running:
  assumes "bw_ok s"
  shows "sum_list (map (running_at_priority s) feature_priorities) = of_nat (length (filter running (registered s)))"
proof -
  have "\<forall>f\<in>set (registered s). running f \<longrightarrow> priority f \<noteq> unused_bandwidth_manager_priority"
    using assms by (auto simp: bw_ok_def usable_def)
  from length_filter_priorities [OF this, symmetric] show ?thesis
    by (simp add: running_at_priority_def feature_priorities_def)
qed

lemma of_nat_u8_compare:
  "n \<le> 6 \<Longrightarrow> ((of_nat n :: u8) > 1) = (n > 1)" "n \<le> 6 \<Longrightarrow> ((of_nat n :: u8) > 0) = (n > 0)"
  "n \<le> 6 \<Longrightarrow> ((of_nat n :: u8) = 0) = (n = 0)"
  by (auto simp: word_less_nat_alt unat_of_nat word_of_nat_eq_0_iff dest: dvd_imp_le)

lemma running_at_priority_iff:
  assumes "bw_ok s"
  shows "running_at_priority s p \<noteq> 0 \<longleftrightarrow> (\<exists>f\<in>set (registered s). running f \<and> priority f = p)"
proof -
  have "length (filter (\<lambda>f. running f \<and> priority f = p) (registered s)) \<le> 6"
    using length_filter_le bw_ok_parts(2) [OF assms] by (rule le_trans)
  then show ?thesis
    by (auto simp: running_at_priority_def of_nat_u8_compare filter_empty_conv)
qed

lemma highest_running:
  assumes "bw_ok s" "d \<noteq> unused_bandwidth_manager_priority"
  defines "H \<equiv> bandwidthManager_getHighestRunningFeaturePrio (running_at_priority s) d"
  shows "H \<le> d" "\<forall>f\<in>set (registered s). running f \<longrightarrow> H \<le> priority f"
    "H = d \<or> (\<exists>f\<in>set (registered s). running f \<and> priority f = H)"
proof -
  have H: "H \<le> d \<and> (\<forall>p\<in>set feature_priorities. running_at_priority s p \<noteq> 0 \<longrightarrow> H \<le> p)
      \<and> (H = d \<or> running_at_priority s H \<noteq> 0)"
    unfolding H_def bandwidthManager_getHighestRunningFeaturePrio_def feature_priorities_def
    by (cases d) (auto simp: priority_order)
  moreover have "priority f \<in> set feature_priorities" if "f \<in> set (registered s)" for f
    using assms(1) that by (cases "priority f") (auto simp: bw_ok_def usable_def feature_priorities_def)
  ultimately show "H \<le> d" "\<forall>f\<in>set (registered s). running f \<longrightarrow> H \<le> priority f"
    "H = d \<or> (\<exists>f\<in>set (registered s). running f \<and> priority f = H)"
    using running_at_priority_iff [OF assms(1)] by blast+
qed

section \<open>Actions\<close>

lemma notify_ok:
  assumes "bw_ok s" "\<forall>f\<in>set (registered s). sel f \<longrightarrow> high_bandwidth_manager_priority < priority f"
  shows "\<exists>calls. notify sel t s = Some (calls, with_registered (map (notified sel t) (registered s)) s)"
proof (rule notify_Some)
  show "\<forall>f\<in>set (registered s). sel f \<longrightarrow> fi_callback f \<noteq> None"
    using assms by (fastforce simp: bw_ok_def usable_def)
qed

lemma slot_usable:
  assumes "bw_ok s" "slot < registered_features_num s"
  shows "slot < length (bw_features s)" "usable (bw_features s ! slot)" "bw_features s ! slot \<in> set (registered s)"
proof -
  note len = bw_ok_parts [OF assms(1)]
  have e: "bw_features s ! slot = registered s ! slot"
    using assms(2) by (simp add: registered_def)
  show m: "bw_features s ! slot \<in> set (registered s)" unfolding e using assms(2) len(1) by (intro nth_mem) simp
  with assms(1) show "usable (bw_features s ! slot)" by (simp add: bw_ok_def)
  show "slot < length (bw_features s)" using assms by (simp add: bw_ok_def)
qed

lemma with_registered_id: "registered_features_num s \<le> length (bw_features s) \<Longrightarrow> with_registered (registered s) s = s"
  by (simp add: with_registered_def registered_def)

lemma notified_none: "(\<forall>f\<in>set fs. \<not> sel f) \<Longrightarrow> map (notified sel t) fs = fs"
  by (induction fs) (auto simp: notified_def)

lemma no_change:
  assumes "bw_ok s" "\<forall>f\<in>set (registered s). \<not> sel f"
  shows "with_registered (map (notified sel t) (registered s)) s = s"
  using assms with_registered_id [of s] by (simp add: notified_none bw_ok_def)

lemma no_unused_running:
  "bw_ok s \<Longrightarrow> \<forall>f\<in>set (registered s). running f \<longrightarrow> priority f \<noteq> unused_bandwidth_manager_priority"
  by (auto simp: bw_ok_def usable_def)

lemma count_running_le: "bw_ok s \<Longrightarrow> length (filter running (registered s)) \<le> 6"
  using length_filter_le [of running "registered s"] bw_ok_parts(2) [of s] by linarith

lemma throttle_Some:
  assumes "bw_ok s"
  shows "\<exists>calls. bandwidthManager_throttleBandwidthOfAllLowPrioFeatures H s
    = Some (calls, with_registered (map (notified (\<lambda>f. H < priority f \<and> running f) True) (registered s)) s)"
proof -
  have "high_bandwidth_manager_priority < p" if "H < p" for p :: bandwidth_manager_priority
    using that by (auto simp: priority_order)
  then show ?thesis
    unfolding bandwidthManager_throttleBandwidthOfAllLowPrioFeatures_def by (intro notify_ok [OF assms]) auto
qed

lemma unthrottle_Some:
  assumes "bw_ok s" "acting < H"
  shows "\<exists>calls. bandwidthManager_unthrottleBandwidthOfFeatures H s
    = Some (calls, with_registered (map (notified (\<lambda>f. H = priority f \<and> running f) False) (registered s)) s)"
  unfolding bandwidthManager_unthrottleBandwidthOfFeatures_def using assms(2)
  by (intro notify_ok [OF assms(1)]) (auto simp: priority_order)


text \<open>A stop action lets the features of the highest running priority go on, if that is below the acting one.\<close>

lemma handle_STOP:
  assumes "bw_ok s" "slot < registered_features_num s"
  shows "\<exists>calls H. bandwidthManager_handleAction slot BANDWIDTH_MGR_ACTION_MSG_STOP s
      = Some (calls, with_registered (map (notified (\<lambda>f. priority (bw_features s ! slot) < H \<and> H = priority f \<and> running f) False) (registered s)) s)
    \<and> (\<forall>f\<in>set (registered s). running f \<longrightarrow> H \<le> priority f)
    \<and> ((\<exists>f\<in>set (registered s). running f) \<longrightarrow> (\<exists>f\<in>set (registered s). running f \<and> priority f = H))"
proof -
  let ?a = "bw_features s ! slot" and ?h = "bandwidthManager_handleAction slot BANDWIDTH_MGR_ACTION_MSG_STOP s"
  define H where "H = bandwidthManager_getHighestRunningFeaturePrio (running_at_priority s) low_bandwidth_manager_priority"
  have h: "\<forall>f\<in>set (registered s). running f \<longrightarrow> H \<le> priority f"
    "H = low_bandwidth_manager_priority \<or> (\<exists>f\<in>set (registered s). running f \<and> priority f = H)"
    using highest_running [OF assms(1), of low_bandwidth_manager_priority] by (auto simp: H_def)
  have low: "priority f = low_bandwidth_manager_priority"
    if "f \<in> set (registered s)" "running f" "low_bandwidth_manager_priority \<le> priority f" for f
    using that no_unused_running [OF assms(1)] by (cases "priority f") (auto simp: priority_order)
  have ex: "(\<exists>f\<in>set (registered s). running f) \<longrightarrow> (\<exists>f\<in>set (registered s). running f \<and> priority f = H)"
    using h low by metis
  note slot = slot_usable [OF assms]
  let ?sel = "\<lambda>f. priority ?a < H \<and> H = priority f \<and> running f"
  have "\<exists>calls. ?h = Some (calls, with_registered (map (notified ?sel False) (registered s)) s)"
  proof (cases "(\<exists>f\<in>set (registered s). running f) \<and> priority ?a < H")
    case True
    then have "?h = bandwidthManager_unthrottleBandwidthOfFeatures H s"
      using slot(1) no_unused_running [OF assms(1)] of_nat_u8_compare(2) [OF count_running_le [OF assms(1)]]
      by (auto simp: bandwidthManager_handleAction_def total_running [OF assms(1)] H_def filter_empty_conv Let_def)
    with unthrottle_Some [OF assms(1), of "priority ?a" H] True show ?thesis by auto
  next
    case False
    then have "?h = Some ([], s)"
      using slot(1) no_unused_running [OF assms(1)] of_nat_u8_compare(2) [OF count_running_le [OF assms(1)]]
      by (auto simp: bandwidthManager_handleAction_def total_running [OF assms(1)] H_def filter_empty_conv Let_def)
    moreover have "\<forall>f\<in>set (registered s). \<not> ?sel f" using False by auto
    ultimately show ?thesis using no_change [OF assms(1), of ?sel False] by simp
  qed
  then obtain calls where "?h = Some (calls, with_registered (map (notified ?sel False) (registered s)) s)" ..
  with h(1) ex show ?thesis by (intro exI [of _ calls] exI [of _ H] conjI) simp_all
qed

section \<open>Starting and stopping\<close>

lemma find_first_index:
  assumes "m < length xs" "P (xs ! m)" "\<forall>j<m. \<not> P (xs ! j)"
  shows "find (\<lambda>j. P (xs ! j)) [0 ..< length xs] = Some m"
  using assms by (auto simp: find_Some_iff intro!: exI [of _ m])

lemma registered_split:
  assumes "registered s = R @ N" "registered_features_num s \<le> length (bw_features s)"
  shows "bw_features s = R @ N @ drop (registered_features_num s) (bw_features s)"
    "length R + length N = registered_features_num s"
proof -
  show "bw_features s = R @ N @ drop (registered_features_num s) (bw_features s)"
    using append_take_drop_id [of "registered_features_num s" "bw_features s"] assms(1)
    unfolding registered_def by (metis append_assoc)
  have "length (registered s) = registered_features_num s" using assms(2) by (simp add: registered_def)
  with assms(1) show "length R + length N = registered_features_num s" by simp
qed

lemma Arrange_running:
  assumes "registered s = R @ x # N" "registered_features_num s \<le> length (bw_features s)"
    "\<forall>f\<in>set R. running f" "\<forall>f\<in>set N. f \<noteq> f' \<longrightarrow> \<not> running f" "running f'"
    "j = length R + k" "(x # N) ! k = f'" "k \<le> length N" "0 < k \<longrightarrow> \<not> running x"
  shows "bandwidthManager_ArrangeFeatureSlot j s
    = (length R, with_registered (R @ f' # (if k = 0 then N else N[k - 1 := x])) s)"
proof -
  note sp = registered_split [OF assms(1,2)]
  define D where "D = drop (registered_features_num s) (bw_features s)"
  have fs: "bw_features s = R @ x # N @ D" using sp(1) by (simp add: D_def)
  have cur: "bw_features s ! j = f'"
    using assms(6-8) nth_append_left [of k "x # N" D] by (simp add: fs)
  show ?thesis
  proof (cases k)
    case 0
    then have "f' = x" using assms(7) by simp
    have "\<not> j0 < j" if "bandwidthManager_GetFirstNonRunningFeature s = Some j0" for j0
    proof -
      have "\<not> running (registered s ! j0)"
        using find_range_SomeD [OF that [unfolded bandwidthManager_GetFirstNonRunningFeature_def]] by simp
      then show ?thesis using assms(1,3,6) 0 by (auto simp: nth_append)
    qed
    then have "bandwidthManager_ArrangeFeatureSlot j s = (j, s)"
      using cur assms(5) by (auto simp: bandwidthManager_ArrangeFeatureSlot_def Let_def split: option.split)
    moreover have "with_registered (R @ x # N) s = s"
      using with_registered_id [OF assms(2)] assms(1) by simp
    ultimately show ?thesis using 0 assms(6) \<open>f' = x\<close> by simp
  next
    case (Suc m)
    then have x: "\<not> running x" using assms(9) by simp
    have "bandwidthManager_GetFirstNonRunningFeature s = Some (length R)"
      unfolding bandwidthManager_GetFirstNonRunningFeature_def
      by (rule find_first_index) (use assms(1,3) x in \<open>auto simp: nth_append\<close>)
    moreover have "(bw_features s)[j := x, length R := f']
        = R @ f' # N[m := x] @ D"
      using Suc assms(6,8) by (simp add: fs list_update_append split: nat.split)
    moreover have "bw_features s ! length R = x" by (simp add: fs)
    ultimately show ?thesis
      using cur assms(5,6) Suc
      by (simp add: bandwidthManager_ArrangeFeatureSlot_def with_registered_def Let_def D_def [symmetric])
  qed
qed

lemma Arrange_stopped:
  assumes "registered s = R1 @ f # R2 @ N" "registered_features_num s \<le> length (bw_features s)"
    "\<not> running f" "\<forall>g\<in>set R2. running g" "\<forall>g\<in>set N. \<not> running g"
  shows "bandwidthManager_ArrangeFeatureSlot (length R1) s
    = (if R2 = [] then (length R1, s)
       else (registered_features_num s - 1, with_registered (R1 @ R2 @ N @ [f]) s))"
proof -
  note sp = registered_split [OF assms(1,2)]
  define D where "D = drop (registered_features_num s) (bw_features s)"
  have fs: "bw_features s = R1 @ f # R2 @ N @ D" using sp(1) by (simp add: D_def)
  have cur: "bw_features s ! length R1 = f" by (simp add: fs)
  show ?thesis
  proof (cases R2)
    case Nil
    show ?thesis
    proof (cases N)
      case Nil2: Nil
      then have "length R1 = registered_features_num s - 1" using sp(2) Nil by simp
      then show ?thesis using cur assms(3) Nil by (simp add: bandwidthManager_ArrangeFeatureSlot_def)
    next
      case (Cons y N')
      then have "bw_features s ! Suc (length R1) = y" using Nil by (simp add: fs nth_append)
      then show ?thesis
        using cur assms(3,5) Nil Cons by (simp add: bandwidthManager_ArrangeFeatureSlot_def Let_def)
    qed
  next
    case (Cons y R2')
    then have "bw_features s ! Suc (length R1) = y" by (simp add: fs nth_append)
    moreover have ne: "length R1 \<noteq> registered_features_num s - 1" using sp(2) Cons by simp
    moreover have "take (registered_features_num s - 1 - length R1) (drop (Suc (length R1)) (bw_features s)) = R2 @ N"
      using sp(2) by (simp add: fs)
    moreover have "take (length R1) (bw_features s) = R1" by (simp add: fs)
    moreover have "Suc (registered_features_num s - 1) = registered_features_num s" using sp(2) by simp
    ultimately show ?thesis
      using cur assms(3,4) Cons
      by (simp add: bandwidthManager_ArrangeFeatureSlot_def Let_def with_registered_def D_def [symmetric])
  qed
qed

lemma Get_SomeD:
  "bandwidthManager_GetFeatureInfoUsingIdentifier s i = Some j
    \<Longrightarrow> j < length (registered s) \<and> ident (registered s ! j) = i"
  using find_range_SomeD by (fastforce simp: bandwidthManager_GetFeatureInfoUsingIdentifier_def split: if_split_asm)

definition posted :: "u8 \<Rightarrow> bandwidth_manager_action \<times> nat \<Rightarrow> 'c bandwidth_manager \<Rightarrow> 'c bandwidth_manager" where
  "posted active m s = s\<lparr>active_features_num := active, bw_messages := bw_messages s @ [m]\<rparr>"

lemma posted_fields [simp]:
  "registered (posted n m s) = registered s" "registered_features_num (posted n m s) = registered_features_num s"
  "bw_initialised (posted n m s) = bw_initialised s" "bw_features (posted n m s) = bw_features s"
  "active_features_num (posted n m s) = n" "bw_messages (posted n m s) = bw_messages s @ [m]"
  by (simp_all add: posted_def registered_def)

lemma FeatureStart_effect:
  assumes ok: "bw_ok s" and "bandwidthManager_GetFeatureInfoUsingIdentifier s i = Some j"
    and "\<not> running (bw_features s ! j)"
  shows "\<exists>R N1 f N2 N. registered s = R @ N1 @ f # N2 \<and> ident f = i \<and> \<not> running f \<and> (\<forall>g\<in>set R. running g)
    \<and> (\<forall>g\<in>set N. \<not> running g) \<and> mset N = mset (N1 @ N2)
    \<and> BandwidthManager_FeatureStart i s = (True, posted (active_features_num s + 1)
        (BANDWIDTH_MGR_ACTION_MSG_START, length R) (with_registered (R @ set_state True False f # N) s))"
proof -
  obtain R N0 where R: "registered s = R @ N0" "\<forall>g\<in>set R. running g" "\<forall>g\<in>set N0. \<not> running g"
    using ok running_first_parts [of "registered s"] by (auto simp: bw_ok_def)
  have n: "registered_features_num s \<le> length (bw_features s)" using ok by (simp add: bw_ok_def)
  note sp = registered_split [OF R(1) n]
  define D where "D = drop (registered_features_num s) (bw_features s)"
  have fs: "bw_features s = R @ N0 @ D" using sp(1) by (simp add: D_def)
  have j: "j < length R + length N0" "ident ((R @ N0) ! j) = i" using Get_SomeD [OF assms(2)] R(1) by simp_all
  have "length R \<le> j"
  proof (rule ccontr)
    assume "\<not> length R \<le> j"
    then have "bw_features s ! j \<in> set R" by (simp add: fs nth_append)
    with R(2) assms(3) show False by blast
  qed
  then obtain k where k: "j = length R + k" "k < length N0" using j(1) by (metis add_less_cancel_left le_iff_add)
  define f where "f = N0 ! k"
  have f: "bw_features s ! j = f" using k by (simp add: fs nth_append f_def)
  let ?f = "set_state True False f"
  let ?s = "s\<lparr>bw_features := (bw_features s)[j := ?f], active_features_num := active_features_num s + 1\<rparr>"
  have rs: "registered ?s = R @ N0[k := ?f]"
    using R(1) k sp(2) by (simp add: registered_def fs list_update_append)
  obtain x N' where N': "N0 = x # N'" using k(2) by (cases N0) auto
  define y where "y = (if k = 0 then ?f else x)"
  define M where "M = (if k = 0 then N' else N'[k - 1 := ?f])"
  have yM: "N0[k := ?f] = y # M" by (cases k) (simp_all add: N' y_def M_def)
  let ?N = "if k = 0 then M else M[k - 1 := y]"
  have "bandwidthManager_ArrangeFeatureSlot j ?s = (length R, with_registered (R @ ?f # ?N) ?s)"
  proof (rule Arrange_running)
    show "registered ?s = R @ y # M" using rs yM by simp
    show "\<forall>g\<in>set M. g \<noteq> ?f \<longrightarrow> \<not> running g"
      using R(3) N' k(2) by (auto simp: M_def dest!: set_update_subset_insert [THEN subsetD] split: if_split_asm)
    show "(y # M) ! k = ?f" using k(2) by (simp flip: yM)
    show "0 < k \<longrightarrow> \<not> running y" using R(3) N' by (simp add: y_def)
  qed (use R n k N' in \<open>auto simp: M_def\<close>)
  then have start: "BandwidthManager_FeatureStart i s = (True, posted (active_features_num s + 1)
      (BANDWIDTH_MGR_ACTION_MSG_START, length R) (with_registered (R @ ?f # ?N) s))"
    using assms(2,3) f sp(2) k
    by (simp add: BandwidthManager_FeatureStart_def Let_def posted_def with_registered_def)
  have N: "?N = (if k = 0 then N' else N'[k - 1 := x])" by (simp add: M_def y_def)
  have split: "N0 = take k N0 @ f # drop (Suc k) N0" unfolding f_def by (rule id_take_nth_drop [OF k(2)])
  have "mset ?N + {#f#} = mset N0"
    unfolding N using k(2) by (cases k) (auto simp: N' f_def mset_update)
  moreover have "mset N0 = mset (take k N0 @ drop (Suc k) N0) + {#f#}" by (subst split) simp
  ultimately have "mset ?N = mset (take k N0 @ drop (Suc k) N0)" by simp
  moreover have "\<forall>g\<in>set ?N. \<not> running g"
    unfolding N using R(3) N' by (auto dest!: set_update_subset_insert [THEN subsetD] split: if_split_asm)
  moreover have "ident f = i" "\<not> running f" using j(2) k f assms(3) by (simp_all add: nth_append f_def)
  moreover have "registered s = R @ take k N0 @ f # drop (Suc k) N0" using R(1) split by simp
  ultimately show ?thesis using start R(2) by blast
qed

lemma FeatureStop_effect:
  assumes ok: "bw_ok s" and "bandwidthManager_GetFeatureInfoUsingIdentifier s i = Some j"
    and "running (bw_features s ! j)"
  shows "\<exists>R1 f R2 N N' slot. registered s = R1 @ f # R2 @ N \<and> ident f = i \<and> running f
    \<and> (\<forall>g\<in>set (R1 @ R2). running g) \<and> (\<forall>g\<in>set N'. \<not> running g)
    \<and> mset N' = mset (set_state False False f # N)
    \<and> slot < registered_features_num s \<and> (R1 @ R2 @ N') ! slot = set_state False False f
    \<and> BandwidthManager_FeatureStop i s = (True, posted (active_features_num s - 1)
        (BANDWIDTH_MGR_ACTION_MSG_STOP, slot) (with_registered (R1 @ R2 @ N') s))"
proof -
  obtain R N where R: "registered s = R @ N" "\<forall>g\<in>set R. running g" "\<forall>g\<in>set N. \<not> running g"
    using ok running_first_parts [of "registered s"] by (auto simp: bw_ok_def)
  have n: "registered_features_num s \<le> length (bw_features s)" using ok by (simp add: bw_ok_def)
  note sp = registered_split [OF R(1) n]
  define D where "D = drop (registered_features_num s) (bw_features s)"
  have fs: "bw_features s = R @ N @ D" using sp(1) by (simp add: D_def)
  have j: "j < length R + length N" "ident ((R @ N) ! j) = i" using Get_SomeD [OF assms(2)] R(1) by simp_all
  have k: "j < length R"
  proof (rule ccontr)
    assume "\<not> j < length R"
    moreover from this have "j - length R < length N" using j(1) by linarith
    ultimately have "bw_features s ! j \<in> set N" by (simp add: fs nth_append)
    with R(3) assms(3) show False by blast
  qed
  define R1 f R2 where "R1 = take j R" and "f = R ! j" and "R2 = drop (Suc j) R"
  have Rs: "R = R1 @ f # R2" "length R1 = j" using id_take_nth_drop [OF k] k by (simp_all add: R1_def f_def R2_def)
  let ?f = "set_state False False f"
  let ?s = "s\<lparr>bw_features := (bw_features s)[j := ?f], active_features_num := active_features_num s - 1\<rparr>"
  have nj: "registered_features_num s - j = Suc (length R2 + length N)" using sp(2) Rs by simp
  then have rs: "registered ?s = R1 @ ?f # R2 @ N"
    using Rs sp(2) by (simp add: registered_def fs list_update_append)
  have arr: "bandwidthManager_ArrangeFeatureSlot (length R1) ?s
    = (if R2 = [] then (length R1, ?s)
       else (registered_features_num ?s - 1, with_registered (R1 @ R2 @ N @ [?f]) ?s))"
    by (rule Arrange_stopped [OF rs]) (use n R Rs in auto)
  define N' where "N' = (if R2 = [] then ?f # N else N @ [?f])"
  define slot where "slot = (if R2 = [] then length R1 else registered_features_num s - 1)"
  have ws: "R2 = [] \<Longrightarrow> with_registered (R1 @ R2 @ N') s = s\<lparr>bw_features := (bw_features s)[j := ?f]\<rparr>"
    using Rs unfolding with_registered_def D_def [symmetric] by (simp add: N'_def fs list_update_append)
  have "BandwidthManager_FeatureStop i s = (True, posted (active_features_num s - 1)
        (BANDWIDTH_MGR_ACTION_MSG_STOP, slot) (with_registered (R1 @ R2 @ N') s))"
    using assms(2,3) arr Rs(2) ws nj
    by (auto simp: BandwidthManager_FeatureStop_def Let_def posted_def slot_def fs nth_append f_def [symmetric]
      Rs with_registered_def N'_def list_update_append)
  moreover have "slot < registered_features_num s" "(R1 @ R2 @ N') ! slot = ?f"
    using sp(2) Rs by (auto simp: slot_def N'_def nth_append)
  moreover have "ident f = i" "running f" using j(2) k assms(3) by (simp_all add: nth_append f_def fs)
  ultimately show ?thesis
    using R Rs by (intro exI [of _ R1] exI [of _ f] exI [of _ R2] exI [of _ N] exI [of _ N'] exI [of _ slot])
      (auto simp: N'_def)
qed

section \<open>The invariant of the slots\<close>

lemma running_first_append:
  "\<forall>f\<in>set R. running f \<Longrightarrow> \<forall>f\<in>set N. \<not> running f \<Longrightarrow> running_first (R @ N)"
  using running_first_parts by blast

lemma filter_running_append [simp]:
  "\<forall>f\<in>set R. running f \<Longrightarrow> filter running R = R" "\<forall>f\<in>set R. \<not> running f \<Longrightarrow> filter running R = []"
  by simp_all

lemma rearranged_ok:
  assumes ok: "bw_ok s" and rs: "length rs = registered_features_num s" "distinct (map ident rs)"
    "\<forall>f\<in>set rs. usable f" "running_first rs" and m: "slot < registered_features_num s"
    and n: "n = of_nat (length (filter running rs))"
  shows "bw_ok (posted n (a, slot) (with_registered rs s))"
proof -
  have "length (bw_features (with_registered rs s)) = BANDWIDTH_MGR_FEATURE_MAX"
    using ok rs(1) bw_ok_parts [OF ok] by (simp add: bw_ok_def with_registered_def BANDWIDTH_MGR_FEATURE_MAX_def)
  then show ?thesis using assms by (simp add: bw_ok_def ball_Un)
qed

lemma Get_NoneD:
  assumes "bandwidthManager_GetFeatureInfoUsingIdentifier s i = None" "i < BANDWIDTH_MGR_FEATURE_MAX"
  shows "i \<notin> ident ` set (registered s)"
  using assms by (auto simp: bandwidthManager_GetFeatureInfoUsingIdentifier_def find_None_iff in_set_conv_nth)

lemma mset_map_distinct: "mset xs = mset ys \<Longrightarrow> distinct (map f xs) = distinct (map f ys)"
  by (metis mset_eq_imp_distinct_iff mset_map)

lemma FeatureStart_ok:
  assumes "bw_ok s" "BandwidthManager_FeatureStart i s = (b, s')"
  shows "bw_ok s'"
proof (cases "\<exists>j. bandwidthManager_GetFeatureInfoUsingIdentifier s i = Some j \<and> \<not> running (bw_features s ! j)")
  case False
  then have "s' = s" using assms(2)
    by (auto simp: BandwidthManager_FeatureStart_def split: option.split_asm)
  with assms(1) show ?thesis by simp
next
  case True
  then obtain j where j: "bandwidthManager_GetFeatureInfoUsingIdentifier s i = Some j" "\<not> running (bw_features s ! j)"
    by blast
  obtain R N1 f N2 N where e: "registered s = R @ N1 @ f # N2" "\<not> running f" "\<forall>g\<in>set R. running g"
    "\<forall>g\<in>set N. \<not> running g" "mset N = mset (N1 @ N2)"
    and eff: "BandwidthManager_FeatureStart i s = (True, posted (active_features_num s + 1)
        (BANDWIDTH_MGR_ACTION_MSG_START, length R) (with_registered (R @ set_state True False f # N) s))"
    using FeatureStart_effect [OF assms(1) j] by blast
  have s': "s' = posted (active_features_num s + 1)
        (BANDWIDTH_MGR_ACTION_MSG_START, length R) (with_registered (R @ set_state True False f # N) s)"
    using assms(2) eff by simp
  let ?rs = "R @ set_state True False f # N"
  have len: "length N = length N1 + length N2" "set N = set (N1 @ N2)"
    using e(5) by (metis length_append size_mset, metis mset_eq_setD)
  have m: "mset (map ident ?rs) = mset (map ident (registered s))"
    using e(1) arg_cong [OF e(5), of "image_mset ident"] by simp
  have n: "\<forall>g\<in>set (N1 @ f # N2). \<not> running g" using e(2,4) len(2) by auto
  then have cnt: "filter running (registered s) = R" using e(1,3) by simp
  show ?thesis unfolding s'
  proof (rule rearranged_ok [OF assms(1)])
    show "length ?rs = registered_features_num s" using bw_ok_parts(1) [OF assms(1)] e(1) len(1) by simp
    show "distinct (map ident ?rs)" using m assms(1) by (metis bw_ok_def mset_eq_imp_distinct_iff)
    show "\<forall>f\<in>set ?rs. usable f" using assms(1) e(1) len(2) by (auto simp: bw_ok_def usable_def)
    show "running_first ?rs" using running_first_append [of "R @ [set_state True False f]" N] e(3,4) by simp
    show "length R < registered_features_num s" using bw_ok_parts(1) [OF assms(1)] e(1) by simp
    show "active_features_num s + 1 = of_nat (length (filter running ?rs))"
      using assms(1) cnt e(3,4) by (simp add: bw_ok_def)
  qed
qed

lemma FeatureStop_ok:
  assumes "bw_ok s" "BandwidthManager_FeatureStop i s = (b, s')"
  shows "bw_ok s'"
proof (cases "\<exists>j. bandwidthManager_GetFeatureInfoUsingIdentifier s i = Some j \<and> running (bw_features s ! j)")
  case False
  then have "s' = s" using assms(2)
    by (auto simp: BandwidthManager_FeatureStop_def split: option.split_asm)
  with assms(1) show ?thesis by simp
next
  case True
  then obtain j where j: "bandwidthManager_GetFeatureInfoUsingIdentifier s i = Some j" "running (bw_features s ! j)"
    by blast
  obtain R1 f R2 N N' slot where e: "registered s = R1 @ f # R2 @ N" "running f" "\<forall>g\<in>set (R1 @ R2). running g"
    "\<forall>g\<in>set N'. \<not> running g" "mset N' = mset (set_state False False f # N)" "slot < registered_features_num s"
    and eff: "BandwidthManager_FeatureStop i s = (True, posted (active_features_num s - 1)
        (BANDWIDTH_MGR_ACTION_MSG_STOP, slot) (with_registered (R1 @ R2 @ N') s))"
    using FeatureStop_effect [OF assms(1) j] by blast
  have s': "s' = posted (active_features_num s - 1)
        (BANDWIDTH_MGR_ACTION_MSG_STOP, slot) (with_registered (R1 @ R2 @ N') s)"
    using assms(2) eff by simp
  let ?rs = "R1 @ R2 @ N'"
  have len: "length N' = Suc (length N)" "set N' = insert (set_state False False f) (set N)"
    using e(5) by (metis length_Cons size_mset, metis list.simps(15) mset_eq_setD)
  have m: "mset (map ident ?rs) = mset (map ident (registered s))"
    using e(1) arg_cong [OF e(5), of "image_mset ident"] by simp
  have n: "\<forall>g\<in>set N. \<not> running g" using e(4) len(2) by auto
  then have cnt: "filter running (registered s) = R1 @ f # R2" using e(1-3) by simp
  show ?thesis unfolding s'
  proof (rule rearranged_ok [OF assms(1)])
    show "length ?rs = registered_features_num s" using bw_ok_parts(1) [OF assms(1)] e(1) len(1) by simp
    show "distinct (map ident ?rs)" using m assms(1) by (metis bw_ok_def mset_eq_imp_distinct_iff)
    show "\<forall>f\<in>set ?rs. usable f" using assms(1) e(1) len(2) by (auto simp: bw_ok_def usable_def)
    show "running_first ?rs" using running_first_append [of "R1 @ R2" N'] e(3,4) by simp
    show "slot < registered_features_num s" by (rule e(6))
    show "active_features_num s - 1 = of_nat (length (filter running ?rs))"
      using assms(1) cnt e(3,4) by (simp add: bw_ok_def)
  qed
qed

lemma handleAction_ok:
  assumes "bw_ok s" "slot < registered_features_num s"
  shows "\<exists>calls s'. bandwidthManager_handleAction slot a s = Some (calls, s') \<and> bw_ok s'
    \<and> registered_features_num s' = registered_features_num s"
proof (cases a)
  case BANDWIDTH_MGR_ACTION_MSG_STOP
  obtain calls H where h: "bandwidthManager_handleAction slot a s = Some (calls, with_registered
      (map (notified (\<lambda>f. priority (bw_features s ! slot) < H \<and> H = priority f \<and> running f) False) (registered s)) s)"
    using handle_STOP [OF assms] BANDWIDTH_MGR_ACTION_MSG_STOP by blast
  show ?thesis unfolding h
    by (intro exI conjI, rule refl, rule notified_keeps_ok [OF assms(1)]) simp_all
next
  case BANDWIDTH_MGR_ACTION_MSG_START
  note slot = slot_usable [OF assms]
  let ?h = "bandwidthManager_handleAction slot a s" and ?p = "priority (bw_features s ! slot)"
  have "?h = Some ([], s) \<or> (\<exists>H. ?h = bandwidthManager_throttleBandwidthOfAllLowPrioFeatures H s)"
    using slot(1,2) no_unused_running [OF assms(1)] BANDWIDTH_MGR_ACTION_MSG_START
    by (cases ?p) (auto simp: bandwidthManager_handleAction_def usable_def Let_def)
  then show ?thesis
  proof
    assume "?h = Some ([], s)"
    then show ?thesis using assms(1) by simp
  next
    assume "\<exists>H. ?h = bandwidthManager_throttleBandwidthOfAllLowPrioFeatures H s"
    then obtain H calls where h: "?h = Some (calls, with_registered
        (map (notified (\<lambda>f. H < priority f \<and> running f) True) (registered s)) s)"
      using throttle_Some [OF assms(1)] by metis
    show ?thesis unfolding h
      by (intro exI conjI, rule refl, rule notified_keeps_ok [OF assms(1)]) simp_all
  qed
qed

lemma handleMessage_ok:
  assumes "bw_ok s"
  shows "\<exists>calls s'. bandwidthManager_handleMessage s = Some (calls, s') \<and> bw_ok s'"
proof (cases "bw_messages s")
  case Nil
  then show ?thesis using assms by (simp add: bandwidthManager_handleMessage_def)
next
  case (Cons m ms)
  obtain a slot where m: "m = (a, slot)" by (cases m)
  have "bw_ok (s\<lparr>bw_messages := ms\<rparr>)" "slot < registered_features_num (s\<lparr>bw_messages := ms\<rparr>)"
    using assms Cons m by (auto simp: bw_ok_def registered_def)
  from handleAction_ok [OF this, of a] show ?thesis
    using Cons m by (auto simp: bandwidthManager_handleMessage_def)
qed

section \<open>Throttling\<close>

text \<open>A feature is throttled exactly when it runs and a feature of higher priority runs.\<close>

definition throttling_exact :: "'c feature_info list \<Rightarrow> bool" where
  "throttling_exact fs = (\<forall>f\<in>set fs. throttled f \<longleftrightarrow> running f \<and> (\<exists>g\<in>set fs. running g \<and> priority g < priority f))"

definition settled :: "'c bandwidth_manager \<Rightarrow> bool" where
  "settled s = throttling_exact (registered s)"







lemma handle_update [simp]:
  "registered (s\<lparr>active_features_num := n, bw_messages := ms\<rparr>) = registered s"
  "bw_messages (with_registered rs s) = bw_messages s"
  by (simp_all add: registered_def)



section \<open>Reachable states\<close>

definition bw_initial :: "'c bandwidth_manager" where
  "bw_initial = BandwidthManager_Init \<lparr>bw_initialised = False, active_features_num = 0,
     registered_features_num = 0, bw_features = replicate 6 empty_feature, bw_messages = []\<rparr>"

text \<open>
  Operations and deliveries in any order. A feature may be registered again with other attributes,
  except while it is running (\<open>reregistering_running_miscounts\<close> shows what that does).
\<close>

definition not_running :: "'c bandwidth_manager \<Rightarrow> feature_id \<Rightarrow> bool" where
  "not_running s i =
     (case bandwidthManager_GetFeatureInfoUsingIdentifier s i of
        None \<Rightarrow> True
      | Some j \<Rightarrow> \<not> running (bw_features s ! j))"

inductive bw_reachable :: "'c bandwidth_manager \<Rightarrow> bool" where
  init: "bw_reachable bw_initial"
| register: "bw_reachable s \<Longrightarrow> not_running s i
    \<Longrightarrow> bw_reachable (snd (BandwidthManager_RegisterFeature i p c s))"
| start: "bw_reachable s \<Longrightarrow> bw_reachable (snd (BandwidthManager_FeatureStart i s))"
| stop: "bw_reachable s \<Longrightarrow> bw_reachable (snd (BandwidthManager_FeatureStop i s))"
| handle: "bw_reachable s \<Longrightarrow> bandwidthManager_handleMessage s = Some (calls, s') \<Longrightarrow> bw_reachable s'"

text \<open>The same where every start and stop is handled before the next one.\<close>

inductive bw_paced :: "'c bandwidth_manager \<Rightarrow> bool" where
  init: "bw_paced bw_initial"
| register: "bw_paced s \<Longrightarrow> bandwidthManager_GetFeatureInfoUsingIdentifier s i = None
    \<Longrightarrow> bw_paced (snd (BandwidthManager_RegisterFeature i p c s))"
| start: "bw_paced s \<Longrightarrow> bandwidthManager_handleMessage (snd (BandwidthManager_FeatureStart i s)) = Some (calls, s')
    \<Longrightarrow> bw_paced s'"
| stop: "bw_paced s \<Longrightarrow> bandwidthManager_handleMessage (snd (BandwidthManager_FeatureStop i s)) = Some (calls, s')
    \<Longrightarrow> bw_paced s'"

lemma bw_initial_ok: "bw_ok bw_initial" "settled bw_initial" "bw_messages bw_initial = []"
  by (simp_all add: bw_initial_def BandwidthManager_Init_def bw_ok_def registered_def running_first_def
    settled_def throttling_exact_def)

lemma Register_new:
  fixes s :: "'c bandwidth_manager" and c :: "'c option"
  assumes ok: "bw_ok s" and new: "bandwidthManager_GetFeatureInfoUsingIdentifier s i = None"
    and s'_def: "s' = snd (BandwidthManager_RegisterFeature i p c s)"
  shows "bw_ok s' \<and> (settled s \<longrightarrow> settled s') \<and> bw_messages s' = bw_messages s"
proof (cases "s' = s")
  case False
  let ?f = "\<lparr>fi_callback = c, fi_bitfields = empty_bitfields\<lparr>bf_priority := p, bf_identifier := i\<rparr>\<rparr>"
  let ?n = "registered_features_num s"
  have i: "i < BANDWIDTH_MGR_FEATURE_MAX" "?n < BANDWIDTH_MGR_FEATURE_MAX" "p < unused_bandwidth_manager_priority"
    "p = high_bandwidth_manager_priority \<or> c \<noteq> None"
    and s': "s' = s\<lparr>registered_features_num := ?n + 1, bw_features := (bw_features s)[?n := ?f]\<rparr>"
    using False new unfolding s'_def BandwidthManager_RegisterFeature_def by (auto split: if_split_asm)
  have rs: "registered s' = registered s @ [?f]"
    using ok i(2) by (simp add: s' registered_def bw_ok_def take_Suc_conv_app_nth)
  have f: "\<not> running ?f" "\<not> throttled ?f" "priority ?f = p" "ident ?f = i" "fi_callback ?f = c"
    by (simp_all add: feature_fields empty_bitfields_def)
  have "usable ?f" using i f by (auto simp: usable_def priority_order)
  moreover have "running_first (registered s @ [?f])"
    using ok f(1) by (simp add: bw_ok_def running_first_def)
  moreover have "i \<notin> ident ` set (registered s)" by (rule Get_NoneD [OF new i(1)])
  ultimately have "bw_ok s'"
    using ok i(2) f rs by (auto simp: bw_ok_def s')
  moreover have "settled s \<longrightarrow> settled s'" using rs f by (auto simp: settled_def throttling_exact_def)
  ultimately show ?thesis by (simp add: s')
qed (use ok in simp)

lemma Register_again:
  fixes s :: "'c bandwidth_manager" and c :: "'c option"
  assumes ok: "bw_ok s" and j: "bandwidthManager_GetFeatureInfoUsingIdentifier s i = Some j" "\<not> running (bw_features s ! j)"
    and s'_def: "s' = snd (BandwidthManager_RegisterFeature i p c s)"
  shows "bw_ok s'"
proof (cases "s' = s")
  case False
  let ?f = "\<lparr>fi_callback = c, fi_bitfields = empty_bitfields\<lparr>bf_priority := p, bf_identifier := i\<rparr>\<rparr>"
  have i: "i < BANDWIDTH_MGR_FEATURE_MAX" "p < unused_bandwidth_manager_priority"
    "p = high_bandwidth_manager_priority \<or> c \<noteq> None" and s': "s' = s\<lparr>bw_features := (bw_features s)[j := ?f]\<rparr>"
    using False j(1) unfolding s'_def BandwidthManager_RegisterFeature_def by (auto split: if_split_asm)
  have jl: "j < length (registered s)" "ident (registered s ! j) = i" using Get_SomeD [OF j(1)] by simp_all
  have rs: "registered s' = (registered s)[j := ?f]" by (simp add: s' registered_def take_update_swap)
  have nr: "\<not> running (registered s ! j)" using j(2) jl(1) by (simp add: registered_def)
  have f: "\<not> running ?f" "\<not> throttled ?f" "priority ?f = p" "ident ?f = i" "fi_callback ?f = c"
    by (simp_all add: feature_fields empty_bitfields_def)
  have "usable ?f" using i f by (auto simp: usable_def priority_order)
  then have "\<forall>g\<in>set (registered s'). usable g"
    using ok unfolding rs by (auto simp: bw_ok_def dest!: set_update_subset_insert [THEN subsetD])
  moreover have "map ident (registered s') = map ident (registered s)"
    using jl f(4) by (simp add: rs map_update) (metis list_update_id nth_map)
  moreover have run: "map running (registered s') = map running (registered s)"
  proof (rule nth_equalityI)
    fix k assume "k < length (map running (registered s'))"
    then show "map running (registered s') ! k = map running (registered s) ! k"
      using nr f(1) by (cases "k = j") (simp_all add: rs)
  qed (simp add: rs)
  moreover have "running_first (registered s')"
  proof -
    obtain R N where e: "registered s = R @ N" "\<forall>g\<in>set R. running g" "\<forall>g\<in>set N. \<not> running g"
      using ok running_first_parts [of "registered s"] by (auto simp: bw_ok_def)
    have "length R \<le> j" using nr e jl(1) by (metis nth_append nth_mem not_le)
    then have "registered s' = R @ N[j - length R := ?f]" by (simp add: rs e(1) list_update_append)
    moreover have "\<forall>g\<in>set (N[j - length R := ?f]). \<not> running g"
      using e(3) f(1) by (auto dest!: set_update_subset_insert [THEN subsetD])
    ultimately show ?thesis using e(2) running_first_parts by blast
  qed
  moreover have "length (filter running fs) = length (filter id (map running fs))" for fs :: "'c feature_info list"
    by (induction fs) auto
  then have "length (filter running (registered s')) = length (filter running (registered s))"
    by (simp only: run)
  ultimately show ?thesis
    using ok by (simp add: bw_ok_def s')
qed (use ok in simp)

lemma Register_ok: "bw_ok s \<Longrightarrow> not_running s i \<Longrightarrow> bw_ok (snd (BandwidthManager_RegisterFeature i p c s))"
  using Register_new [OF _ _ refl] Register_again [OF _ _ _ refl]
  by (cases "bandwidthManager_GetFeatureInfoUsingIdentifier s i") (auto simp: not_running_def)

lemma reachable_ok: "bw_reachable s \<Longrightarrow> bw_ok s"
proof (induction rule: bw_reachable.induct)
  case (handle s calls s')
  then show ?case using handleMessage_ok [OF handle.IH] by auto
next
  case (start s i)
  then show ?case using FeatureStart_ok [of s i] by (cases "BandwidthManager_FeatureStart i s") simp
next
  case (stop s i)
  then show ?case using FeatureStop_ok [of s i] by (cases "BandwidthManager_FeatureStop i s") simp
qed (auto intro: bw_initial_ok Register_ok)


section \<open>Properties\<close>

text \<open>
  C16: The slots stay consistent under every interleaving of registrations (first ones, and repeated ones
  of features that are not running), starts, stops and deliveries:
  identifiers are unique, running features occupy the first slots and the count of active features is
  their number (which is what a handover transfers), every pending message names a registered slot,
  and handling it neither panics nor calls a NULL callback.
\<close>
theorem bandwidth_slots_consistent:
  assumes "bw_reachable s"
  shows "distinct (map ident (registered s))
    \<and> (\<exists>R N. registered s = R @ N \<and> (\<forall>f\<in>set R. running f) \<and> (\<forall>f\<in>set N. \<not> running f)
        \<and> BandwidthManager_GetActiveFeaturesNum s = of_nat (length R) \<and> length R \<le> 6)
    \<and> (\<forall>(a, slot)\<in>set (bw_messages s). slot < registered_features_num s)
    \<and> bandwidthManager_handleMessage s \<noteq> None"
proof -
  have ok: "bw_ok s" by (rule reachable_ok [OF assms])
  obtain R N where RN: "registered s = R @ N" "\<forall>f\<in>set R. running f" "\<forall>f\<in>set N. \<not> running f"
    using ok running_first_parts [of "registered s"] by (auto simp: bw_ok_def)
  then have "active_features_num s = of_nat (length R)" "length R \<le> 6"
    using ok count_running_le [OF ok] by (auto simp: bw_ok_def)
  with RN ok handleMessage_ok [OF ok] show ?thesis
    by (auto simp: BandwidthManager_GetActiveFeaturesNum_def bw_ok_def)
qed


text \<open>Three features, one of high and two of low priority, registered and started one after another.\<close>

definition demo_feature :: "feature_id \<Rightarrow> bandwidth_manager_priority \<Rightarrow> nat option \<Rightarrow> bool \<Rightarrow> bool \<Rightarrow> nat feature_info" where
  "demo_feature i p c run t = \<lparr>fi_callback = c, fi_bitfields = \<lparr>bf_priority = p, bf_running = run,
     bf_throttle_required = t, bf_identifier = i\<rparr>\<rparr>"

definition demo_state :: "u8 \<Rightarrow> nat feature_info list \<Rightarrow> nat bandwidth_manager" where
  "demo_state n fs = \<lparr>bw_initialised = True, active_features_num = n, registered_features_num = length fs,
     bw_features = fs @ replicate (6 - length fs)
       (empty_feature\<lparr>fi_bitfields := empty_bitfields\<lparr>bf_identifier := 7\<rparr>\<rparr>), bw_messages = []\<rparr>"

abbreviation "demo_high \<equiv> demo_feature 0 high_bandwidth_manager_priority None"
abbreviation "demo_low1 \<equiv> demo_feature 2 low_bandwidth_manager_priority (Some 2)"
abbreviation "demo_low2 \<equiv> demo_feature 3 low_bandwidth_manager_priority (Some 3)"

lemmas bw_eval =
  demo_state_def demo_feature_def BandwidthManager_RegisterFeature_def BandwidthManager_FeatureStart_def
  BandwidthManager_FeatureStop_def bandwidthManager_GetFeatureInfoUsingIdentifier_def
  bandwidthManager_ArrangeFeatureSlot_def bandwidthManager_GetFirstNonRunningFeature_def
  bandwidthManager_handleMessage_def bandwidthManager_handleAction_def
  bandwidthManager_throttleBandwidthOfAllLowPrioFeatures_def bandwidthManager_unthrottleBandwidthOfFeatures_def
  bandwidthManager_getHighestRunningFeaturePrio_def notify_def running_at_priority_def feature_priorities_def
  registered_def feature_fields set_state_def priority_order BANDWIDTH_MGR_FEATURE_MAX_def Let_def upt_rec

lemma demo_initial: "bw_initial = demo_state 0 []"
  by (simp add: bw_initial_def BandwidthManager_Init_def demo_state_def BANDWIDTH_MGR_FEATURE_MAX_def
    BANDWIDTH_MGR_FEATURE_INVALID_ID_def)

lemma demo_registered:
  "snd (BandwidthManager_RegisterFeature 0 high_bandwidth_manager_priority None (demo_state 0 []))
    = demo_state 0 [demo_high False False]"
  "snd (BandwidthManager_RegisterFeature 2 low_bandwidth_manager_priority (Some 2) (demo_state 0 [demo_high False False]))
    = demo_state 0 [demo_high False False, demo_low1 False False]"
  "snd (BandwidthManager_RegisterFeature 3 low_bandwidth_manager_priority (Some 3)
      (demo_state 0 [demo_high False False, demo_low1 False False]))
    = demo_state 0 [demo_high False False, demo_low1 False False, demo_low2 False False]"
  by (simp_all add: bw_eval empty_bitfields_def numeral_eq_Suc)

lemma demo_started:
  "bandwidthManager_handleMessage (snd (BandwidthManager_FeatureStart 0
      (demo_state 0 [demo_high False False, demo_low1 False False, demo_low2 False False])))
    = Some ([], demo_state 1 [demo_high True False, demo_low1 False False, demo_low2 False False])"
  "bandwidthManager_handleMessage (snd (BandwidthManager_FeatureStart 2
      (demo_state 1 [demo_high True False, demo_low1 False False, demo_low2 False False])))
    = Some ([(2, True)], demo_state 2 [demo_high True False, demo_low1 True True, demo_low2 False False])"
  "bandwidthManager_handleMessage (snd (BandwidthManager_FeatureStart 3
      (demo_state 2 [demo_high True False, demo_low1 True True, demo_low2 False False])))
    = Some ([(3, True)], demo_state 3 [demo_high True False, demo_low1 True True, demo_low2 True True])"
  by (simp_all add: bw_eval)

lemma demo_absent:
  "bandwidthManager_GetFeatureInfoUsingIdentifier (demo_state 0 []) 0 = None"
  "bandwidthManager_GetFeatureInfoUsingIdentifier (demo_state 0 [demo_high False False]) 2 = None"
  "bandwidthManager_GetFeatureInfoUsingIdentifier (demo_state 0 [demo_high False False, demo_low1 False False]) 3 = None"
  by (simp_all add: bw_eval)

lemma demo_all_registered: "bw_paced (demo_state 0 [demo_high False False, demo_low1 False False, demo_low2 False False])"
proof -
  have "bw_paced (demo_state 0 [])" by (simp only: demo_initial [symmetric] bw_paced.init)
  from bw_paced.register [OF this demo_absent(1), of high_bandwidth_manager_priority None]
  have "bw_paced (demo_state 0 [demo_high False False])" by (simp only: demo_registered)
  from bw_paced.register [OF this demo_absent(2), of low_bandwidth_manager_priority "Some 2"]
  have "bw_paced (demo_state 0 [demo_high False False, demo_low1 False False])" by (simp only: demo_registered)
  from bw_paced.register [OF this demo_absent(3), of low_bandwidth_manager_priority "Some 3"]
  show ?thesis by (simp only: demo_registered)
qed

lemmas demo_paced = bw_paced.start [OF bw_paced.start [OF bw_paced.start
  [OF demo_all_registered demo_started(1)] demo_started(2)] demo_started(3)]

lemma paced_reachable: "bw_paced s \<Longrightarrow> bw_reachable s"
  by (induction rule: bw_paced.induct) (auto intro: bw_reachable.intros simp: not_running_def)


text \<open>
  With three features running, the one of high priority stops and is registered again with low priority,
  before the stop is handled.
\<close>

theorem bandwidth_slots_consistent_witness:
  "let s = snd (BandwidthManager_RegisterFeature 0 low_bandwidth_manager_priority (Some 9)
       (snd (BandwidthManager_FeatureStop 0 (demo_state 3 [demo_high True False, demo_low1 True True, demo_low2 True True]))))
   in bw_messages s = [(BANDWIDTH_MGR_ACTION_MSG_STOP, 2)] \<and> bandwidthManager_handleMessage s \<noteq> None
     \<and> distinct (map ident (registered s))"
proof -
  let ?s0 = "demo_state 3 [demo_high True False, demo_low1 True True, demo_low2 True True]"
  let ?s1 = "snd (BandwidthManager_FeatureStop 0 ?s0)"
  let ?s = "snd (BandwidthManager_RegisterFeature 0 low_bandwidth_manager_priority (Some 9) ?s1)"
  have "not_running ?s1 0" by (simp add: not_running_def bw_eval empty_bitfields_def)
  then have "bw_reachable ?s"
    by (intro bw_reachable.register bw_reachable.stop paced_reachable demo_paced)
  moreover have "bw_messages ?s = [(BANDWIDTH_MGR_ACTION_MSG_STOP, 2)]" by (simp add: bw_eval)
  ultimately show ?thesis using bandwidth_slots_consistent [of ?s] unfolding Let_def by blast
qed

text \<open>
  Registering a feature again while it is running clears its running flag but leaves the count of active
  features: here it stays 3 with two features running, and the first of them is behind the idle one.
\<close>
lemma reregistering_running_miscounts:
  "\<exists>s :: nat bandwidth_manager. bw_reachable s \<and>
    (let s' = snd (BandwidthManager_RegisterFeature 0 high_bandwidth_manager_priority None s)
     in BandwidthManager_GetActiveFeaturesNum s' = 3 \<and> map running (registered s') = [False, True, True])"
proof -
  let ?s = "demo_state 3 [demo_high True False, demo_low1 True True, demo_low2 True True]"
  have "let s' = snd (BandwidthManager_RegisterFeature 0 high_bandwidth_manager_priority None ?s)
     in BandwidthManager_GetActiveFeaturesNum s' = 3 \<and> map running (registered s') = [False, True, True]"
    by (simp add: bw_eval BandwidthManager_GetActiveFeaturesNum_def registered_def empty_bitfields_def)
  with paced_reachable [OF demo_paced] show ?thesis by blast
qed

text \<open>
  Two stops in a row can leave a feature throttled for ever: with one high and two low priority
  features running, the high one and then the first low one stop before the manager's task handles the
  messages. The second stop shifts the slots, so the first message now names the low
  priority feature, and nobody tells the remaining one to go on, although it is the only
  feature running and no message is pending.
\<close>
lemma stop_messages_name_wrong_feature:
  "\<exists>s :: nat bandwidth_manager. bw_paced s \<and>
    (let s2 = snd (BandwidthManager_FeatureStop 2 (snd (BandwidthManager_FeatureStop 0 s)))
     in \<exists>s3 s4. bandwidthManager_handleMessage s2 = Some ([], s3) \<and> bandwidthManager_handleMessage s3 = Some ([], s4)
       \<and> bw_messages s4 = [] \<and> BandwidthManager_GetActiveFeaturesNum s4 = 1
       \<and> BandwidthManager_IsFeatureRunning 3 s4 = Some True \<and> BandwidthManager_IsThrottleRequired 3 s4 = Some True)"
proof -
  let ?s = "demo_state 3 [demo_high True False, demo_low1 True True, demo_low2 True True]"
  let ?s2 = "snd (BandwidthManager_FeatureStop 2 (snd (BandwidthManager_FeatureStop 0 ?s)))"
  let ?after = "\<lambda>ms. (demo_state 1 [demo_low2 True True, demo_high False False, demo_low1 False False])\<lparr>bw_messages := ms\<rparr>"
  let ?m = "(BANDWIDTH_MGR_ACTION_MSG_STOP, 2)"
  have s2: "?s2 = ?after [?m, ?m]" by (simp add: bw_eval)
  have h: "bandwidthManager_handleMessage (?after [?m, ?m]) = Some ([], ?after [?m])"
    "bandwidthManager_handleMessage (?after [?m]) = Some ([], ?after [])"
    by (simp_all add: bw_eval)
  have r: "BandwidthManager_IsFeatureRunning 3 (?after []) = Some True"
    "BandwidthManager_IsThrottleRequired 3 (?after []) = Some True" "BandwidthManager_GetActiveFeaturesNum (?after []) = 1"
    by (simp_all add: bw_eval BandwidthManager_IsFeatureRunning_def BandwidthManager_IsThrottleRequired_def
      BandwidthManager_GetActiveFeaturesNum_def)
  have "bw_messages (?after []) = []" by simp
  with s2 h r demo_paced show ?thesis
    unfolding Let_def
    by (intro exI [of _ ?s] conjI exI [of _ "?after [?m]"] exI [of _ "?after []"]) (simp_all only: s2)
qed

section \<open>Handover\<close>

lemma map_ident_set_state: "map ident (map (set_state r t) fs) = map ident fs"
  by simp

lemma find_unique:
  assumes "m < length xs" "P (xs ! m)" "\<forall>j < length xs. P (xs ! j) \<longrightarrow> j = m"
  shows "find (\<lambda>j. P (xs ! j)) [0 ..< length xs] = Some m"
  by (rule find_first_index [of m xs P, OF assms(1,2)]) (metis assms(1,3) less_irrefl less_trans)

lemma UpdateFeatureInfo_effect:
  assumes "registered s = R @ N" "registered_features_num s \<le> length (bw_features s)"
    "\<forall>g\<in>set R. running g" "\<forall>g\<in>set N. \<not> running g" "distinct (map ident (R @ N))"
    "g \<in> set N" "ident g = bf_identifier b" "bf_identifier b < BANDWIDTH_MGR_FEATURE_MAX" "bf_running b"
  shows "\<exists>N2. registered (BandwidthManager_UpdateFeatureInfo b s) = R @ g\<lparr>fi_bitfields := b\<rparr> # N2
    \<and> mset N = mset (g # N2) \<and> (\<forall>h\<in>set N2. \<not> running h)
    \<and> registered_features_num (BandwidthManager_UpdateFeatureInfo b s) = registered_features_num s
    \<and> length (bw_features (BandwidthManager_UpdateFeatureInfo b s)) = length (bw_features s)"
proof -
  note sp = registered_split [OF assms(1,2)]
  define D where "D = drop (registered_features_num s) (bw_features s)"
  have fs: "bw_features s = R @ N @ D" using sp(1) by (simp add: D_def)
  obtain k where k: "k < length N" "N ! k = g" using assms(6) by (auto simp: in_set_conv_nth)
  let ?j = "length R + k" let ?f = "g\<lparr>fi_bitfields := b\<rparr>"
  have "find (\<lambda>j. ident ((R @ N) ! j) = bf_identifier b) [0 ..< length (R @ N)] = Some ?j"
  proof (rule find_unique)
    show "?j < length (R @ N)" using k by simp
    show "ident ((R @ N) ! ?j) = bf_identifier b" using k assms(7) by (simp add: nth_append)
    show "\<forall>j < length (R @ N). ident ((R @ N) ! j) = bf_identifier b \<longrightarrow> j = ?j"
    proof (intro allI impI)
      fix j assume j: "j < length (R @ N)" "ident ((R @ N) ! j) = bf_identifier b"
      have "ident ((R @ N) ! ?j) = bf_identifier b" using k assms(7) by (simp add: nth_append)
      with j k have "map ident (R @ N) ! j = map ident (R @ N) ! ?j" by (simp del: map_append)
      then show "j = ?j" using nth_eq_iff_index_eq [OF assms(5)] j(1) k(1) by simp
    qed
  qed
  then have get: "bandwidthManager_GetFeatureInfoUsingIdentifier s (bf_identifier b) = Some ?j"
    using assms(1,8) by (simp add: bandwidthManager_GetFeatureInfoUsingIdentifier_def)
  let ?s = "s\<lparr>bw_features := (bw_features s)[?j := ?f]\<rparr>"
  have rs: "registered ?s = R @ N[k := ?f]"
    using assms(1) k sp(2) by (simp add: registered_def fs list_update_append)
  obtain x N' where N': "N = x # N'" using k(1) by (cases N) auto
  define y where "y = (if k = 0 then ?f else x)"
  define M where "M = (if k = 0 then N' else N'[k - 1 := ?f])"
  have yM: "N[k := ?f] = y # M" by (cases k) (simp_all add: N' y_def M_def)
  let ?N = "if k = 0 then M else M[k - 1 := y]"
  have run: "running ?f" using assms(9) by (simp add: running_def)
  have arr: "bandwidthManager_ArrangeFeatureSlot ?j ?s = (length R, with_registered (R @ ?f # ?N) ?s)"
  proof (rule Arrange_running)
    show "registered ?s = R @ y # M" using rs yM by simp
    show "\<forall>h\<in>set M. h \<noteq> ?f \<longrightarrow> \<not> running h"
      using assms(4) N' k(1) by (auto simp: M_def dest!: set_update_subset_insert [THEN subsetD] split: if_split_asm)
    show "(y # M) ! k = ?f" using k(1) by (simp flip: yM)
    show "0 < k \<longrightarrow> \<not> running y" using assms(4) N' by (simp add: y_def)
  qed (use assms(2,3) k(1) N' run in \<open>auto simp: M_def\<close>)
  have len: "length (R @ ?f # ?N) = registered_features_num s"
    using sp(2) N' k by (auto simp: M_def)
  have "BandwidthManager_UpdateFeatureInfo b s = with_registered (R @ ?f # ?N) ?s"
    using get arr k by (simp add: BandwidthManager_UpdateFeatureInfo_def fs nth_append)
  moreover have N: "?N = (if k = 0 then N' else N'[k - 1 := x])" by (simp add: M_def y_def)
  moreover have "mset N = mset (g # ?N)"
    unfolding N using k by (cases k) (auto simp: N' mset_update)
  moreover have "\<forall>h\<in>set ?N. \<not> running h"
    unfolding N using assms(4) N' by (auto dest!: set_update_subset_insert [THEN subsetD] split: if_split_asm)
  moreover have "length (bw_features (with_registered (R @ ?f # ?N) ?s)) = length (bw_features s)"
    using len assms(2) by (simp add: with_registered_def)
  ultimately show ?thesis using len by (intro exI [of _ ?N]) simp
qed

lemma fold_UpdateFeatureInfo:
  assumes "registered s = R @ N" "registered_features_num s \<le> length (bw_features s)"
    "\<forall>g\<in>set R. running g" "\<forall>g\<in>set N. \<not> running g" "distinct (map ident (R @ N))"
    "\<forall>b\<in>set bs. bf_running b \<and> bf_identifier b < BANDWIDTH_MGR_FEATURE_MAX \<and> bf_identifier b \<in> ident ` set N"
    "distinct (map bf_identifier bs)"
  shows "\<exists>R' N'. registered (fold BandwidthManager_UpdateFeatureInfo bs s) = R @ R' @ N'
    \<and> map fi_bitfields R' = bs \<and> (\<forall>g\<in>set N'. \<not> running g)"
  using assms
proof (induction bs arbitrary: s R N)
  case Nil
  then show ?case by (intro exI [of _ "[]"] exI [of _ N]) simp
next
  case (Cons b bs)
  obtain g where g: "g \<in> set N" "ident g = bf_identifier b" using Cons.prems(6) by auto
  obtain N2 where N2: "registered (BandwidthManager_UpdateFeatureInfo b s) = R @ g\<lparr>fi_bitfields := b\<rparr> # N2"
    "mset N = mset (g # N2)" "\<forall>h\<in>set N2. \<not> running h"
    "registered_features_num (BandwidthManager_UpdateFeatureInfo b s) = registered_features_num s"
    "length (bw_features (BandwidthManager_UpdateFeatureInfo b s)) = length (bw_features s)"
    using UpdateFeatureInfo_effect [OF Cons.prems(1-5) g] Cons.prems(6) by auto
  let ?g = "g\<lparr>fi_bitfields := b\<rparr>"
  have ig: "ident ?g = ident g" "running ?g" using g(2) Cons.prems(6) by (simp_all add: ident_def running_def)
  have setN: "set N = insert g (set N2)" using mset_eq_setD [OF N2(2)] by simp
  have "mset (map ident ((R @ [?g]) @ N2)) = mset (map ident (R @ N))"
    using arg_cong [OF N2(2), of "image_mset ident"] ig(1) by simp
  then have d: "distinct (map ident ((R @ [?g]) @ N2))"
    using Cons.prems(5) by (metis mset_eq_imp_distinct_iff)
  have bs: "\<forall>c\<in>set bs. bf_running c \<and> bf_identifier c < BANDWIDTH_MGR_FEATURE_MAX \<and> bf_identifier c \<in> ident ` set N2"
  proof
    fix c assume c: "c \<in> set bs"
    then have "bf_identifier c \<noteq> bf_identifier b" using Cons.prems(7) by (auto simp: image_iff)
    with c Cons.prems(6) g(2) setN
    show "bf_running c \<and> bf_identifier c < BANDWIDTH_MGR_FEATURE_MAX \<and> bf_identifier c \<in> ident ` set N2" by auto
  qed
  have "\<exists>R' N'. registered (fold BandwidthManager_UpdateFeatureInfo bs (BandwidthManager_UpdateFeatureInfo b s))
      = (R @ [?g]) @ R' @ N' \<and> map fi_bitfields R' = bs \<and> (\<forall>g\<in>set N'. \<not> running g)"
    by (rule Cons.IH [OF _ _ _ N2(3) d bs]) (use N2 Cons.prems ig in auto)
  then obtain R' N' where "registered (fold BandwidthManager_UpdateFeatureInfo bs (BandwidthManager_UpdateFeatureInfo b s))
      = (R @ [?g]) @ R' @ N'" "map fi_bitfields R' = bs" "\<forall>g\<in>set N'. \<not> running g" by blast
  then show ?case by (intro exI [of _ "?g # R'"] exI [of _ N']) simp
qed

text \<open>
  C18: A handover transfers the running features: when it is not vetoed, and every running feature is
  registered on the other earbud too, restoring the marshalled data there makes exactly
  the same features run, in the same order and with the same priority and throttling state,
  and the count of active features agrees.
\<close>
theorem handover_restores_features:
  assumes "bw_reachable s" "bw_reachable peer" "bandwidthManager_Marshal s = Some data"
    "\<forall>f\<in>set (registered s). running f \<longrightarrow> ident f \<in> ident ` set (registered peer)"
  shows "map fi_bitfields (filter running (registered (bandwidthManager_UnmarshalActiveFeaturesInfo data peer)))
      = map fi_bitfields (filter running (registered s))
    \<and> BandwidthManager_GetActiveFeaturesNum (bandwidthManager_UnmarshalActiveFeaturesInfo data peer)
      = BandwidthManager_GetActiveFeaturesNum s"
proof -
  have ok: "bw_ok s" "bw_ok peer" using reachable_ok assms(1,2) by blast+
  obtain R N where RN: "registered s = R @ N" "\<forall>f\<in>set R. running f" "\<forall>f\<in>set N. \<not> running f"
    using ok(1) running_first_parts [of "registered s"] by (auto simp: bw_ok_def)
  have n: "registered_features_num s \<le> length (bw_features s)" using ok(1) by (simp add: bw_ok_def)
  note sp = registered_split [OF RN(1) n]
  have act: "active_features_num s = of_nat (length R)" "length R \<le> 6"
    using ok(1) RN count_running_le [OF ok(1)] by (auto simp: bw_ok_def)
  then have una: "unat (active_features_num s) = length R" by (simp add: unat_of_nat)
  have tk: "take (length R) (bw_features s) = R" by (subst sp(1)) simp
  have data: "data = (active_features_num s, map fi_bitfields R)"
    using assms(3) una tk by (auto simp: bandwidthManager_Marshal_def split: if_split_asm)
  define p0 where "p0 = BandwidthManager_ResetAllFeaturesInfo peer"
  have p0: "registered p0 = [] @ map (set_state False False) (registered peer)"
    "registered_features_num p0 = registered_features_num peer" "length (bw_features p0) = length (bw_features peer)"
    using bw_ok_parts(1) [OF ok(2)] ok(2)
    by (auto simp: p0_def BandwidthManager_ResetAllFeaturesInfo_def BandwidthManager_SetActiveFeaturesNum_def
      registered_def bw_ok_def min_def)
  have R: "\<forall>f\<in>set R. usable f" "distinct (map ident R)" using ok(1) RN(1) by (auto simp: bw_ok_def)
  have mem: "\<forall>f\<in>set R. running f \<and> ident f < BANDWIDTH_MGR_FEATURE_MAX
      \<and> ident f \<in> ident ` set (map (set_state False False) (registered peer))"
    using RN R(1) assms(4) by (auto simp: usable_def image_image)
  have "\<exists>R' N'. registered (fold BandwidthManager_UpdateFeatureInfo (map fi_bitfields R) p0) = [] @ R' @ N'
    \<and> map fi_bitfields R' = map fi_bitfields R \<and> (\<forall>g\<in>set N'. \<not> running g)"
  proof (rule fold_UpdateFeatureInfo [OF p0(1)])
    show "\<forall>b\<in>set (map fi_bitfields R). bf_running b \<and> bf_identifier b < BANDWIDTH_MGR_FEATURE_MAX
        \<and> bf_identifier b \<in> ident ` set (map (set_state False False) (registered peer))"
      using mem by (simp add: running_def ident_def image_image)
    show "distinct (map bf_identifier (map fi_bitfields R))"
      using R(2) by (simp add: comp_def ident_def [abs_def])
  qed (use ok(2) p0 in \<open>auto simp: bw_ok_def map_ident_set_state simp del: map_map\<close>)
  then obtain R' N' where R': "registered (fold BandwidthManager_UpdateFeatureInfo (map fi_bitfields R) p0) = R' @ N'"
    "map fi_bitfields R' = map fi_bitfields R" "\<forall>g\<in>set N'. \<not> running g" by auto
  have "\<forall>g\<in>set R'. running g"
  proof
    fix g assume "g \<in> set R'"
    then have "fi_bitfields g \<in> set (map fi_bitfields R)" using R'(2) by (metis image_eqI set_map)
    then show "running g" using RN(2) by (auto simp: running_def)
  qed
  then have "filter running (R' @ N') = R'" "filter running (R @ N) = R" using R'(3) RN by simp_all
  moreover have "registered (bandwidthManager_UnmarshalActiveFeaturesInfo data peer) = R' @ N'"
    using R'(1) una by (simp add: bandwidthManager_UnmarshalActiveFeaturesInfo_def data p0_def [symmetric]
      BandwidthManager_SetActiveFeaturesNum_def registered_def)
  ultimately show ?thesis
    using R'(2) RN(1) by (simp add: BandwidthManager_GetActiveFeaturesNum_def
      bandwidthManager_UnmarshalActiveFeaturesInfo_def BandwidthManager_SetActiveFeaturesNum_def data)
qed

theorem handover_restores_features_witness:
  "\<exists>data. bandwidthManager_Marshal (demo_state 3 [demo_high True False, demo_low1 True True, demo_low2 True True]) = Some data
    \<and> BandwidthManager_GetActiveFeaturesNum (bandwidthManager_UnmarshalActiveFeaturesInfo data
        (demo_state 0 [demo_high False False, demo_low1 False False, demo_low2 False False])) = 3"
proof -
  let ?s = "demo_state 3 [demo_high True False, demo_low1 True True, demo_low2 True True]"
  let ?p = "demo_state 0 [demo_high False False, demo_low1 False False, demo_low2 False False]"
  obtain data where data: "bandwidthManager_Marshal ?s = Some data"
    by (simp add: bandwidthManager_Marshal_def demo_state_def)
  have "\<forall>f\<in>set (registered ?s). running f \<longrightarrow> ident f \<in> ident ` set (registered ?p)"
    by (simp add: bw_eval)
  from handover_restores_features [OF paced_reachable [OF demo_paced] paced_reachable [OF demo_all_registered] data this]
  show ?thesis using data by (auto simp: BandwidthManager_GetActiveFeaturesNum_def demo_state_def)
qed

end
