(* ===== verification/DomainMessage.thy ===== *)
theory DomainMessage
  imports Prelude
begin

text \<open>
  The numbering of the application's messages, \<open>domains/common/domain_message.h\<close>, and the message
  broker, \<open>libs/message_broker/message_broker.c\<close>, which passes a client's interest in message groups
  on to the components that own them. The X-macro tables of the header are lists of names; the
  enumerations they expand to are the positions in the list. Every row of the tables asks for one group.
  The registration functions of the owners are opaque (\<open>'f\<close>); the broker's calls of them are its output.
\<close>

section \<open>Message groups\<close>

type_synonym message_group = u16

definition domains_message_groups :: "string list" where
  "domains_message_groups =
    [''INTERNAL'', ''AV'', ''APP_HFP'', ''PAIRING'', ''AV_GAIA'', ''DFU'', ''CON_MANAGER'', ''PEER_SIG'',
     ''HANDSET_SIG'', ''PHY_STATE'', ''HEADSET_PHY_STATE'', ''BATTERY_APP'', ''ADV_MANAGER'',
     ''MIRROR_PROFILE'', ''PROXIMITY'', ''ACCELEROMETER'', ''HALL_EFFECT'', ''TOUCH'', ''CHARGER'',
     ''DEVICE'', ''PROFILE_MANAGER'', ''APP_GATT'', ''POWER_APP'', ''KYMERA'', ''TEMPERATURE'',
     ''AUDIO_SYNC'', ''VOLUME'', ''REMOTE_NAME'', ''PEER_PAIR_LE'', ''PEER_FIND_ROLE'', ''KEY_SYNC'',
     ''BREDR_SCAN_MANAGER'', ''UI'', ''PROMPTS'', ''AV_UI'', ''AV_AVRCP'', ''POWER_UI'', ''DFU_PEER'',
     ''TELEPHONY'', ''LE_SCAN_MANAGER'', ''HANDOVER_PROFILE'', ''LOCAL_NAME'', ''LOCAL_ADDR'',
     ''DEVICE_TEST'', ''BATTERY_REGION'', ''STATE_OF_CHARGE'', ''DEVICE_SPECIFIC_LOGICAL_INPUT'',
     ''LOGICAL_INPUT'', ''ANC'', ''LEAKTHROUGH'', ''FIT_TEST'', ''QCOM_CON_MANAGER'',
     ''WIRED_AUDIO_DETECT'', ''USB_DEVICE'', ''USB_AUDIO'', ''LE_AUDIO'', ''CASE'', ''GAMING_MODE_UI'',
     ''LE_BROADCAST_MANAGER'', ''SYSTEM_STATE'', ''BT_DEVICE'', ''DEVICE_SYNC'', ''APP_AGHFP'']"

definition services_message_groups :: "string list" where
  "services_message_groups =
    [''HANDSET_SERVICE'', ''STATE_PROXY'', ''HDMA'', ''VOLUME_SERVICE'', ''VOICE_UI_SERVICE'',
     ''AUDIO_CURATION_SERVICE'']"

definition topology_message_groups :: "string list" where
  "topology_message_groups =
    [''TWS_TOPOLOGY'', ''TWS_TOPOLOGY_CLIENT_NOTIFIER'', ''HEADSET_TOPOLOGY'',
     ''TWS_TOPOLOGY_PRIMARY_GOALS'', ''TWS_TOPOLOGY_SECONDARY_GOALS'']"

definition apps_message_groups :: "string list" where
  "apps_message_groups = [''SYSTEM'', ''CONN_RULES'', ''EARBUD_ROLE'', ''CHARGER_CASE'', ''USB_DONGLE'']"

definition ui_inputs_message_groups :: "string list" where
  "ui_inputs_message_groups =
    [''UI_INPUTS_TELEPHONY'', ''UI_INPUTS_MEDIA_PLAYER'', ''UI_INPUTS_PEER'', ''UI_INPUTS_DEVICE_STATE'',
     ''UI_INPUTS_VOLUME'', ''UI_INPUTS_HANDSET'', ''UI_INPUTS_AUDIO_CURATION'', ''UI_INPUTS_VOICE_UI'',
     ''UI_INPUTS_GAMING_MODE'', ''UI_INPUTS_APP'', ''UI_INPUTS_BOUNDS_CHECK'']"

definition message_groups :: "string list" where
  "message_groups = domains_message_groups @ services_message_groups @ topology_message_groups
     @ apps_message_groups @ ui_inputs_message_groups"

fun position :: "'a \<Rightarrow> 'a list \<Rightarrow> nat" where
  "position x [] = 0"
| "position x (y # ys) = (if x = y then 0 else position x ys + 1)"

definition MESSAGE_GROUP :: "string \<Rightarrow> message_group" where
  "MESSAGE_GROUP name = of_nat (position name message_groups)"

text \<open>The macros compute in \<open>int\<close>; message ids have 16 bits.\<close>

definition MSG_GRP_TO_ID :: "message_group \<Rightarrow> message_id" where
  "MSG_GRP_TO_ID g = push_bit 6 g"

definition ID_TO_MSG_GRP :: "message_id \<Rightarrow> message_group" where
  "ID_TO_MSG_GRP i = drop_bit 6 i"

definition MESSAGE_BASE :: "string \<Rightarrow> message_id" where
  "MESSAGE_BASE name = MSG_GRP_TO_ID (MESSAGE_GROUP name)"

definition MESSAGE_LIMIT :: "string \<Rightarrow> message_id" where
  "MESSAGE_LIMIT name = MSG_GRP_TO_ID (MESSAGE_GROUP name + 1) - 1"

definition ID_IN_MSG_GRP :: "string \<Rightarrow> message_id \<Rightarrow> bool" where
  "ID_IN_MSG_GRP name i = (MESSAGE_BASE name \<le> i \<and> i \<le> MESSAGE_LIMIT name)"

definition MESSAGE_GROUPS_MAX :: message_id where
  "MESSAGE_GROUPS_MAX = MESSAGE_LIMIT (last message_groups) + 1"

definition CL_MESSAGE_BASE :: message_id where "CL_MESSAGE_BASE = 0x5000"

section \<open>The message broker\<close>

record 'f message_broker_group_registration =
  message_group :: message_group
  last_message_group :: message_group
  MessageGroupRegister :: 'f

type_synonym 'f message_broker_state = "'f message_broker_group_registration list"

type_synonym 'f register_calls = "('f \<times> task \<times> message_group) list"

definition MessageBroker_Init :: "'f message_broker_group_registration list \<Rightarrow> 'f message_broker_state" where
  "MessageBroker_Init registrations = registrations"

definition register_group :: "'f message_broker_state \<Rightarrow> task \<Rightarrow> message_group \<Rightarrow> 'f register_calls" where
  "register_group registrations t g =
     map (\<lambda>r. (MessageGroupRegister r, t, message_group r))
       (filter (\<lambda>r. message_group r \<le> g \<and> g \<le> last_message_group r) registrations)"

text \<open>The index of the outer loop has 16 bits, the number of groups 32.\<close>

partial_function (option) register_loop ::
  "'f message_broker_state \<Rightarrow> task \<Rightarrow> message_group list \<Rightarrow> u32 \<Rightarrow> u16 \<Rightarrow> 'f register_calls
   \<Rightarrow> 'f register_calls option" where
  "register_loop registrations t msg_groups num_groups i calls =
     (if ucast i < num_groups then
        if unat i < length msg_groups then
          (let new = register_group registrations t (msg_groups ! unat i)
           in if new = [] then None
              else register_loop registrations t msg_groups num_groups (i + 1) (calls @ new))
        else None
      else Some calls)"

definition MessageBroker_RegisterInterestInMsgGroups ::
  "'f message_broker_state \<Rightarrow> task \<Rightarrow> message_group list option \<Rightarrow> u32 \<Rightarrow> 'f register_calls option" where
  "MessageBroker_RegisterInterestInMsgGroups registrations t msg_groups num_groups =
     do {
       PanicNull t;
       gs \<leftarrow> msg_groups;
       register_loop registrations t gs num_groups 0 []
     }"

section \<open>Ranges of message ids\<close>

lemmas message_groups_defs =
  message_groups_def domains_message_groups_def services_message_groups_def topology_message_groups_def
  apps_message_groups_def ui_inputs_message_groups_def

lemma length_message_groups: "length message_groups = 90"
  by (simp add: message_groups_defs)

lemma distinct_message_groups: "distinct message_groups"
  by code_simp

lemma position_nth: "x \<in> set xs \<Longrightarrow> position x xs < length xs \<and> xs ! position x xs = x"
  by (induction xs) auto

lemma position_inject: "x \<in> set xs \<Longrightarrow> y \<in> set xs \<Longrightarrow> position x xs = position y xs \<Longrightarrow> x = y"
  using position_nth by metis

lemma MESSAGE_GROUP_bound: "name \<in> set message_groups \<Longrightarrow> unat (MESSAGE_GROUP name) = position name message_groups
    \<and> position name message_groups < 90"
  using position_nth [of name message_groups]
  by (simp add: MESSAGE_GROUP_def length_message_groups unat_of_nat take_bit_nat_eq_self)

lemma unat_group_range:
  assumes "unat g < 1023"
  shows "unat (MSG_GRP_TO_ID g) = 64 * unat g" "unat (MSG_GRP_TO_ID (g + 1) - 1) = 64 * unat g + 63"
proof -
  have "unat (g + 1) = unat g + 1"
    using assms by (intro trans [OF unat_word_ariths(1)]) simp
  moreover have "unat (MSG_GRP_TO_ID h) = 64 * unat h" if "unat h \<le> 1023" for h
    using that unat_word_ariths(2) [of "64 :: u16" h] by (simp add: MSG_GRP_TO_ID_def push_bit_eq_mult mult.commute)
  ultimately show "unat (MSG_GRP_TO_ID g) = 64 * unat g" "unat (MSG_GRP_TO_ID (g + 1) - 1) = 64 * unat g + 63"
    using assms by (auto simp: unat_sub word_le_nat_alt)
qed

lemma group_of_id:
  assumes "unat g < 1023"
  shows "MSG_GRP_TO_ID g \<le> i \<and> i \<le> MSG_GRP_TO_ID (g + 1) - 1 \<longleftrightarrow> ID_TO_MSG_GRP i = g"
proof -
  have "ID_TO_MSG_GRP i = g \<longleftrightarrow> unat i div 64 = unat g"
    by (simp add: ID_TO_MSG_GRP_def word_unat_eq_iff drop_bit_eq_div unat_div_distrib)
  also have "\<dots> \<longleftrightarrow> 64 * unat g \<le> unat i \<and> unat i \<le> 64 * unat g + 63"
    using div_mult_mod_eq [of "unat i" 64] mod_less_divisor [of 64 "unat i"] by linarith
  finally show ?thesis
    using unat_group_range [OF assms] by (simp add: word_le_nat_alt)
qed

lemma unat_u16_u32: "unat (ucast (i :: u16) :: u32) = unat i"
proof -
  have "unat i < 2 ^ LENGTH(16)" by (rule unsigned_less)
  then have "unat i < 2 ^ 32" by simp
  then show ?thesis by (simp add: unsigned_ucast_eq take_bit_nat_eq_self)
qed

lemma register_loop_run:
  assumes "ucast i \<le> n" "unat n = length gs" "unat n < 2 ^ 16"
  shows "register_loop regs t gs n i calls =
    (if \<forall>g\<in>set (drop (unat i) gs). register_group regs t g \<noteq> []
     then Some (calls @ concat (map (register_group regs t) (drop (unat i) gs))) else None)"
  using assms
proof (induction "length gs - unat i" arbitrary: i calls)
  case 0
  then have "ucast i = n" by (simp add: word_le_nat_alt word_unat_eq_iff unat_u16_u32)
  then show ?case using 0 by (subst register_loop.simps) (simp add: unat_u16_u32)
next
  case (Suc k)
  have i: "unat i < length gs" using Suc(2) by simp
  then have lt: "ucast i < n" using Suc(4) by (simp add: word_less_nat_alt unat_u16_u32)
  have i1: "unat (i + 1) = unat i + 1"
    using i Suc(4,5) by (intro trans [OF unat_word_ariths(1)]) simp
  have d: "drop (unat i) gs = gs ! unat i # drop (unat i + 1) gs" using i by (simp add: Cons_nth_drop_Suc)
  have "k = length gs - unat (i + 1)" "ucast (i + 1) \<le> n"
    using Suc(2,4) i i1 by (simp_all add: word_le_nat_alt unat_u16_u32)
  from Suc(1) [OF this Suc(4,5)] show ?case
    using lt i by (subst register_loop.simps) (auto simp: Let_def d i1)
qed

section \<open>Properties\<close>

text \<open>
  C19: The message ids of the application are divided without overlap: an id lies between the base and
  the limit of a group exactly when converting it back gives that group, so no id belongs to two
  groups; every group has 64 ids, and all groups together end below the ids of the connection library.
\<close>
theorem message_ids_partitioned:
  assumes "name \<in> set message_groups"
  shows "(ID_IN_MSG_GRP name i \<longleftrightarrow> ID_TO_MSG_GRP i = MESSAGE_GROUP name) \<and>
    (\<forall>other\<in>set message_groups. ID_IN_MSG_GRP name i \<longrightarrow> ID_IN_MSG_GRP other i \<longrightarrow> other = name) \<and>
    unat (MESSAGE_LIMIT name) = unat (MESSAGE_BASE name) + 63 \<and>
    MESSAGE_GROUPS_MAX \<le> CL_MESSAGE_BASE \<and> MESSAGE_LIMIT name < MESSAGE_GROUPS_MAX"
proof -
  have iff: "ID_IN_MSG_GRP nm i \<longleftrightarrow> ID_TO_MSG_GRP i = MESSAGE_GROUP nm" if "nm \<in> set message_groups" for nm
    using MESSAGE_GROUP_bound [OF that] group_of_id [of "MESSAGE_GROUP nm" i]
    by (simp add: ID_IN_MSG_GRP_def MESSAGE_BASE_def MESSAGE_LIMIT_def)
  have "other = name" if "other \<in> set message_groups" "MESSAGE_GROUP other = MESSAGE_GROUP name" for other
    using that assms MESSAGE_GROUP_bound position_inject by metis
  moreover have m: "MESSAGE_GROUPS_MAX = 5760" by code_simp
  moreover have "unat (MESSAGE_LIMIT name) = unat (MESSAGE_BASE name) + 63 \<and> MESSAGE_LIMIT name < 5760"
    using MESSAGE_GROUP_bound [OF assms] unat_group_range [of "MESSAGE_GROUP name"]
    by (simp add: MESSAGE_BASE_def MESSAGE_LIMIT_def word_less_nat_alt)
  ultimately show ?thesis
    using iff [OF assms] iff by (auto simp: CL_MESSAGE_BASE_def m)
qed

theorem message_ids_partitioned_witness:
  "ID_IN_MSG_GRP ''CHARGER'' 0x481 \<longleftrightarrow> ID_TO_MSG_GRP 0x481 = MESSAGE_GROUP ''CHARGER''"
proof -
  have "''CHARGER'' \<in> set message_groups" by code_simp
  from message_ids_partitioned [OF this] show ?thesis by blast
qed

text \<open>
  Registering an interest in message groups reaches exactly the owners: for a non-NULL task and an
  array of fewer than 65536 groups the broker calls, group by group, the registration function of every
  owner whose range contains the group, with the owner's first group; it panics exactly when one
  of the groups has no owner.
\<close>
lemma broker_registers_with_owners:
  assumes "t \<noteq> NULL_TASK" "unat num_groups = length gs" "length gs < 2 ^ 16"
  shows "MessageBroker_RegisterInterestInMsgGroups regs t (Some gs) num_groups =
    (if \<forall>g\<in>set gs. \<exists>r\<in>set regs. message_group r \<le> g \<and> g \<le> last_message_group r
     then Some (concat (map (\<lambda>g. [(MessageGroupRegister r, t, message_group r).
                  r \<leftarrow> regs, message_group r \<le> g \<and> g \<le> last_message_group r]) gs))
     else None)"
proof -
  have n: "register_group regs t g \<noteq> [] \<longleftrightarrow> (\<exists>r\<in>set regs. message_group r \<le> g \<and> g \<le> last_message_group r)" for g
    by (auto simp: register_group_def filter_empty_conv)
  have e: "register_group regs t g =
      [(MessageGroupRegister r, t, message_group r). r \<leftarrow> regs, message_group r \<le> g \<and> g \<le> last_message_group r]" for g
    by (induction regs) (simp_all add: register_group_def)
  have "(0 :: u16) = 0 \<and> ucast (0 :: u16) \<le> num_groups" by simp
  then have "MessageBroker_RegisterInterestInMsgGroups regs t (Some gs) num_groups =
     (if \<forall>g\<in>set gs. register_group regs t g \<noteq> [] then Some (concat (map (register_group regs t) gs)) else None)"
    using assms register_loop_run [of 0 num_groups gs regs t "[]"]
    by (simp add: MessageBroker_RegisterInterestInMsgGroups_def PanicNull_def)
  then show ?thesis unfolding n e [symmetric] by simp
qed

theorem broker_registers_with_owners_witness:
  "MessageBroker_RegisterInterestInMsgGroups
     [\<lparr>message_group = 4, last_message_group = 6, MessageGroupRegister = ''owner''\<rparr>] 9 (Some [5, 4]) 2
   = Some [(''owner'', 9, 4), (''owner'', 9, 4)]"
  using broker_registers_with_owners [of 9 2 "[5, 4]"
    "[\<lparr>message_group = 4, last_message_group = 6, MessageGroupRegister = ''owner''\<rparr>]"] by simp

end
