(* ===== verification/SystemState.thy ===== *)
theory SystemState
  imports TaskList DomainMessage
begin

text \<open>
  The system state component, \<open>domains/power/system_state/system_state.c\<close>: the application's
  life cycle as a state that changes by transitions. A transition enters a transitional state, calls the
  step functions of its table one after the other, waits after an asynchronous step for that step's
  message, and completes in a stable state; every change of state is told to the listeners. The state
  holds the context of the file, the scheduler and the calls of the step functions and
  message handlers, oldest first (\<open>'f\<close> names a function); the steps do not call the component
  back before they return. A table is the array with its length (\<open>None\<close> is the NULL pointer) and the
  registered count. The clock and the address of an allocated message are arguments; reads outside
  an array and through NULL, and panics, are \<open>None\<close>.
\<close>

section \<open>Data\<close>

type_synonym system_state_state = u32

definition system_state_powered_off :: system_state_state where "system_state_powered_off = 2"
definition system_state_initialisation :: system_state_state where "system_state_initialisation = 4"
definition system_state_initialised :: system_state_state where "system_state_initialised = 8"
definition system_state_starting_up :: system_state_state where "system_state_starting_up = 16"
definition system_state_limbo :: system_state_state where "system_state_limbo = 32"
definition system_state_powering_on :: system_state_state where "system_state_powering_on = 64"
definition system_state_active :: system_state_state where "system_state_active = 128"
definition system_state_powering_off :: system_state_state where "system_state_powering_off = 256"
definition system_state_going_to_sleep :: system_state_state where "system_state_going_to_sleep = 512"
definition system_state_sleeping :: system_state_state where "system_state_sleeping = 1024"
definition system_state_shutting_down :: system_state_state where "system_state_shutting_down = 2048"
definition system_state_shutting_down_promptly :: system_state_state where
  "system_state_shutting_down_promptly = 4096"

lemmas system_state_defs =
  system_state_powered_off_def system_state_initialisation_def system_state_initialised_def
  system_state_starting_up_def system_state_limbo_def system_state_powering_on_def system_state_active_def
  system_state_powering_off_def system_state_going_to_sleep_def system_state_sleeping_def
  system_state_shutting_down_def system_state_shutting_down_promptly_def

definition SYSTEM_STATE_STATE_CHANGE :: message_id where
  "SYSTEM_STATE_STATE_CHANGE = MESSAGE_BASE ''SYSTEM_STATE''"

record 'f system_state_step =
  step_fn :: 'f
  async_message_id :: u16
  async_handler :: "'f option"

record 'f transition_table =
  transition_table :: "'f system_state_step list option"
  transition_table_count :: u32

text \<open>The tables of the context; a pointer to one of them is its name.\<close>

datatype transition_name =
    T_init | T_startup | T_power_on | T_power_off | T_sleep | T_shutdown | T_emergency_shutdown

record system_state_current_transition =
  transition :: "transition_name option"
  ct_index :: u32
  transition_task :: task
  state_on_completition :: system_state_state

text \<open>The payload \<open>SYSTEM_STATE_STATE_CHANGE_T\<close>.\<close>

datatype state_change = State_change system_state_state system_state_state

datatype 'f ss_call =
    Call_step 'f task
  | Call_handler 'f "state_change msg_data option"

record 'f system_state_ctx =
  ss_state :: system_state_state
  state_change_listeners :: task_list
  is_limbo_removed :: bool
  current_transition :: system_state_current_transition
  tables :: "transition_name \<Rightarrow> 'f transition_table"
  ss_vm :: "state_change vm"
  ss_calls :: "'f ss_call list"

definition empty_table :: "'f transition_table" where
  "empty_table = \<lparr>transition_table = None, transition_table_count = 0\<rparr>"

section \<open>Initialisation and tables\<close>

definition SystemState_Init :: "'f system_state_ctx \<Rightarrow> 'f system_state_ctx option" where
  "SystemState_Init s =
     do {
       listeners \<leftarrow> TaskList_CreateWithCapacity 2;
       Some (s\<lparr>ss_state := system_state_powered_off, state_change_listeners := listeners,
               is_limbo_removed := False,
               current_transition := (current_transition s)\<lparr>transition := None, ct_index := 0,
                 state_on_completition := 0\<rparr>,
               tables := (\<lambda>_. empty_table)\<rparr>)
     }"

definition SystemState_RemoveLimboState :: "'f system_state_ctx \<Rightarrow> 'f system_state_ctx" where
  "SystemState_RemoveLimboState s = s\<lparr>is_limbo_removed := True\<rparr>"

definition systemState_RegisterTable ::
  "transition_name \<Rightarrow> 'f system_state_step list option \<Rightarrow> u32 \<Rightarrow> 'f system_state_ctx \<Rightarrow> 'f system_state_ctx" where
  "systemState_RegisterTable table steps n s =
     s\<lparr>tables := (tables s)(table := \<lparr>transition_table = steps, transition_table_count = n\<rparr>)\<rparr>"

definition SystemState_RegisterTableForInitialise where
  "SystemState_RegisterTableForInitialise steps n s = systemState_RegisterTable T_init steps n s"
definition SystemState_RegisterTableForStartUp where
  "SystemState_RegisterTableForStartUp steps n s = systemState_RegisterTable T_startup steps n s"
definition SystemState_RegisterTableForPowerOn where
  "SystemState_RegisterTableForPowerOn steps n s = systemState_RegisterTable T_power_on steps n s"
definition SystemState_RegisterTableForPowerOff where
  "SystemState_RegisterTableForPowerOff steps n s = systemState_RegisterTable T_power_off steps n s"
definition SystemState_RegisterTableForSleep where
  "SystemState_RegisterTableForSleep steps n s = systemState_RegisterTable T_sleep steps n s"
definition SystemState_RegisterTableForShutdown where
  "SystemState_RegisterTableForShutdown steps n s = systemState_RegisterTable T_shutdown steps n s"
definition SystemState_RegisterTableForEmergencyShutdown where
  "SystemState_RegisterTableForEmergencyShutdown steps n s =
     systemState_RegisterTable T_emergency_shutdown steps n s"

section \<open>Transitions\<close>

definition systemState_SetState ::
  "u32 \<Rightarrow> nat \<Rightarrow> system_state_state \<Rightarrow> 'f system_state_ctx \<Rightarrow> 'f system_state_ctx option" where
  "systemState_SetState now addr new_state s =
     do {
       let msg = State_change (ss_state s) new_state;
       q \<leftarrow> TaskList_MessageSendWithSize now (state_change_listeners s) SYSTEM_STATE_STATE_CHANGE
              (Some (addr, App msg)) 8 (ss_vm s);
       Some (s\<lparr>ss_state := new_state, ss_vm := q\<rparr>)
     }"

definition systemState_CompleteTransition ::
  "u32 \<Rightarrow> nat \<Rightarrow> 'f system_state_ctx \<Rightarrow> 'f system_state_ctx option" where
  "systemState_CompleteTransition now addr s =
     systemState_SetState now addr (state_on_completition (current_transition s)) s"

definition with_index :: "u32 \<Rightarrow> 'f system_state_ctx \<Rightarrow> 'f system_state_ctx" where
  "with_index i s = s\<lparr>current_transition := (current_transition s)\<lparr>ct_index := i\<rparr>\<rparr>"

definition ss_index :: "'f system_state_ctx \<Rightarrow> u32" where
  "ss_index s = ct_index (current_transition s)"

definition log_ss :: "'f ss_call \<Rightarrow> 'f system_state_ctx \<Rightarrow> 'f system_state_ctx" where
  "log_ss c s = s\<lparr>ss_calls := ss_calls s @ [c]\<rparr>"

definition read_step :: "'f system_state_step list option \<Rightarrow> u32 \<Rightarrow> 'f system_state_step option" where
  "read_step steps i =
     (case steps of None \<Rightarrow> None | Some xs \<Rightarrow> if unat i < length xs then Some (xs ! unat i) else None)"

lemma index_simps [simp]:
  "ss_index (with_index i s) = i" "tables (with_index i s) = tables s" "ss_index (log_ss c s) = ss_index s"
  "tables (log_ss c s) = tables s"
  by (simp_all add: ss_index_def with_index_def log_ss_def)

text \<open>The loop; the result tells whether it ran to the end of the table.\<close>

function transition_loop ::
  "transition_name \<Rightarrow> 'f system_state_ctx \<Rightarrow> (bool \<times> 'f system_state_ctx) option" where
  "transition_loop table s =
     (if ss_index s < transition_table_count (tables s table) then
        (case read_step (transition_table (tables s table)) (ss_index s) of
           None \<Rightarrow> None
         | Some st \<Rightarrow>
             (let s1 = log_ss (Call_step (step_fn st) (transition_task (current_transition s))) s
              in if async_message_id st \<noteq> 0 then Some (False, s1)
                 else transition_loop table (with_index (ss_index s1 + 1) s1)))
      else Some (True, s))"
  by auto

termination
proof (relation "measure (\<lambda>(table, s). unat (transition_table_count (tables s table)) - unat (ss_index s))")
qed (auto simp: unat_Suc_below word_less_nat_alt)

declare transition_loop.simps [simp del]

definition systemState_DoTransition ::
  "u32 \<Rightarrow> nat \<Rightarrow> transition_name \<Rightarrow> 'f system_state_ctx \<Rightarrow> 'f system_state_ctx option" where
  "systemState_DoTransition now addr table s =
     do {
       (finished, s1) \<leftarrow> transition_loop table (with_index (ss_index s + 1) s);
       if finished then systemState_CompleteTransition now addr s1 else Some s1
     }"

definition systemState_MessageHandler ::
  "u32 \<Rightarrow> nat \<Rightarrow> message_id \<Rightarrow> state_change msg_data option \<Rightarrow> 'f system_state_ctx
   \<Rightarrow> 'f system_state_ctx option" where
  "systemState_MessageHandler now addr i msg s =
     do {
       table \<leftarrow> transition (current_transition s);
       if transition_table (tables s table) = None then Some s
       else do {
         st \<leftarrow> read_step (transition_table (tables s table)) (ss_index s);
         if i \<noteq> async_message_id st then Some s
         else systemState_DoTransition now addr table
                (case async_handler st of Some h \<Rightarrow> log_ss (Call_handler h msg) s | None \<Rightarrow> s)
       }
     }"

definition SystemState_RegisterForStateChanges ::
  "task \<Rightarrow> 'f system_state_ctx \<Rightarrow> 'f system_state_ctx option" where
  "SystemState_RegisterForStateChanges listener s =
     map_option (\<lambda>(_, l). s\<lparr>state_change_listeners := l\<rparr>) (TaskList_AddTask (state_change_listeners s) listener)"

definition SystemState_GetState :: "'f system_state_ctx \<Rightarrow> system_state_state" where
  "SystemState_GetState s = ss_state s"

definition SystemState_GetTransitionTask :: "'f system_state_ctx \<Rightarrow> task" where
  "SystemState_GetTransitionTask s = transition_task (current_transition s)"

definition systemState_SetupCurrentTransition ::
  "transition_name \<Rightarrow> system_state_state \<Rightarrow> 'f system_state_ctx \<Rightarrow> 'f system_state_ctx" where
  "systemState_SetupCurrentTransition table end_state s =
     s\<lparr>current_transition := (current_transition s)\<lparr>transition := Some table, ct_index := -1,
         state_on_completition := end_state\<rparr>\<rparr>"

definition systemState_InitiateTransiton ::
  "u32 \<Rightarrow> nat \<Rightarrow> system_state_state \<Rightarrow> system_state_state \<Rightarrow> system_state_state \<Rightarrow> transition_name
   \<Rightarrow> 'f system_state_ctx \<Rightarrow> (bool \<times> 'f system_state_ctx) option" where
  "systemState_InitiateTransiton now addr start_state transitional_state end_state table s =
     (if SystemState_GetState s AND start_state = 0 then Some (False, s)
      else do {
        s1 \<leftarrow> systemState_SetState now addr transitional_state s;
        s2 \<leftarrow> systemState_DoTransition now addr table (systemState_SetupCurrentTransition table end_state s1);
        Some (True, s2)
      })"

section \<open>Interface\<close>

definition SystemState_Initialise :: "u32 \<Rightarrow> nat \<Rightarrow> 'f system_state_ctx \<Rightarrow> (bool \<times> 'f system_state_ctx) option" where
  "SystemState_Initialise now addr s =
     systemState_InitiateTransiton now addr system_state_powered_off system_state_initialisation
       system_state_initialised T_init s"

definition SystemState_StartUp :: "u32 \<Rightarrow> nat \<Rightarrow> 'f system_state_ctx \<Rightarrow> (bool \<times> 'f system_state_ctx) option" where
  "SystemState_StartUp now addr s =
     systemState_InitiateTransiton now addr system_state_initialised system_state_starting_up
       (if is_limbo_removed s then system_state_active else system_state_limbo) T_startup s"

definition SystemState_PowerOn :: "u32 \<Rightarrow> nat \<Rightarrow> 'f system_state_ctx \<Rightarrow> (bool \<times> 'f system_state_ctx) option" where
  "SystemState_PowerOn now addr s =
     (if is_limbo_removed s then Some (False, s)
      else systemState_InitiateTransiton now addr (system_state_powering_off OR system_state_limbo)
             system_state_powering_on system_state_active T_power_on s)"

definition SystemState_PowerOff :: "u32 \<Rightarrow> nat \<Rightarrow> 'f system_state_ctx \<Rightarrow> (bool \<times> 'f system_state_ctx) option" where
  "SystemState_PowerOff now addr s =
     (if is_limbo_removed s then Some (False, s)
      else systemState_InitiateTransiton now addr (system_state_powering_on OR system_state_active)
             system_state_powering_off system_state_limbo T_power_off s)"

definition SystemState_Sleep :: "u32 \<Rightarrow> nat \<Rightarrow> 'f system_state_ctx \<Rightarrow> (bool \<times> 'f system_state_ctx) option" where
  "SystemState_Sleep now addr s =
     systemState_InitiateTransiton now addr
       (if is_limbo_removed s then system_state_active else system_state_limbo)
       system_state_going_to_sleep system_state_sleeping T_sleep s"

definition SystemState_Shutdown :: "u32 \<Rightarrow> nat \<Rightarrow> 'f system_state_ctx \<Rightarrow> (bool \<times> 'f system_state_ctx) option" where
  "SystemState_Shutdown now addr s =
     systemState_InitiateTransiton now addr
       (if is_limbo_removed s then system_state_active else system_state_limbo)
       system_state_shutting_down system_state_powered_off T_shutdown s"

definition SystemState_EmergencyShutdown ::
  "u32 \<Rightarrow> nat \<Rightarrow> 'f system_state_ctx \<Rightarrow> (bool \<times> 'f system_state_ctx) option" where
  "SystemState_EmergencyShutdown now addr s =
     do {
       s1 \<leftarrow> systemState_SetState now addr system_state_shutting_down_promptly s;
       s2 \<leftarrow> systemState_DoTransition now addr T_emergency_shutdown
               (systemState_SetupCurrentTransition T_emergency_shutdown system_state_powered_off s1);
       Some (True, s2)
     }"

section \<open>Frame lemmas\<close>

definition listeners_ok :: "'f system_state_ctx \<Rightarrow> bool" where
  "listeners_ok s = (tl_valid (state_change_listeners s) \<and> length (tl_members (state_change_listeners s)) \<le> 14)"

lemma SetState_done:
  assumes "listeners_ok s"
  shows "\<exists>q. systemState_SetState now addr new s = Some (s\<lparr>ss_state := new, ss_vm := q\<rparr>)"
proof -
  obtain ds where "tl_repr (state_change_listeners s) (tl_members (state_change_listeners s)) ds"
    "tasks_ok (tl_members (state_change_listeners s))" "length (tl_members (state_change_listeners s)) \<le> 14"
    using assms by (auto simp: listeners_ok_def tl_valid_def)
  from message_send_posted [OF this(1,2) _ this(3), of 8 "Some (addr, App (State_change (ss_state s) new))" now
      SYSTEM_STATE_STATE_CHANGE D_IMMEDIATE "ss_vm s" 0]
  show ?thesis by (auto simp: systemState_SetState_def TaskList_MessageSendWithSize_def)
qed

lemma SetState_SomeD:
  "systemState_SetState now addr new s = Some s' \<Longrightarrow> \<exists>q. s' = s\<lparr>ss_state := new, ss_vm := q\<rparr>"
  by (auto simp: systemState_SetState_def bind_eq_Some_conv)

lemma log_with_index: "log_ss c (with_index i s) = with_index i (log_ss c s)"
  by (simp add: log_ss_def with_index_def)

lemma with_index_twice [simp]: "with_index i (with_index j s) = with_index i s"
  by (simp add: with_index_def)

lemma with_index_same [simp]: "with_index (ss_index s) s = s"
  by (simp add: with_index_def ss_index_def)

text \<open>What the loop changes: the index and the calls.\<close>

lemma transition_loop_frame:
  "transition_loop table s = Some (finished, s') \<Longrightarrow>
    \<exists>i cs. s' = with_index i (s\<lparr>ss_calls := cs\<rparr>) \<and> finished = (\<not> i < transition_table_count (tables s table))"
proof (induction table s rule: transition_loop.induct)
  case (1 table s)
  show ?case
  proof (cases "ss_index s < transition_table_count (tables s table)")
    case False
    then have "s' = with_index (ss_index s) (s\<lparr>ss_calls := ss_calls s\<rparr>)" "finished"
      using 1(2) by (simp_all add: transition_loop.simps [of table s])
    then show ?thesis using False by blast
  next
    case True
    obtain st where st: "read_step (transition_table (tables s table)) (ss_index s) = Some st"
      using 1(2) True by (cases "read_step (transition_table (tables s table)) (ss_index s)")
        (simp_all add: transition_loop.simps [of table s])
    define s1 where "s1 = log_ss (Call_step (step_fn st) (transition_task (current_transition s))) s"
    show ?thesis
    proof (cases "async_message_id st = 0")
      case False
      then have "s' = s1" "\<not> finished"
        using 1(2) True st by (simp_all add: transition_loop.simps [of table s] s1_def Let_def)
      moreover have "s1 = with_index (ss_index s) (s\<lparr>ss_calls := ss_calls s1\<rparr>)"
        by (simp add: s1_def log_ss_def with_index_def ss_index_def)
      ultimately have "s' = with_index (ss_index s) (s\<lparr>ss_calls := ss_calls s1\<rparr>)" "\<not> finished" by simp_all
      then show ?thesis using True by blast
    next
      case sync: True
      then have "transition_loop table (with_index (ss_index s1 + 1) s1) = Some (finished, s')"
        using 1(2) True st by (simp add: transition_loop.simps [of table s] s1_def Let_def)
      from 1(1) [OF True st s1_def _ this] sync
      obtain i cs where "finished = (\<not> i < transition_table_count (tables s table))"
        "s' = with_index i (with_index (ss_index s1 + 1) s1\<lparr>ss_calls := cs\<rparr>)"
        by (auto simp: s1_def)
      moreover from this(2) have "s' = with_index i (s\<lparr>ss_calls := cs\<rparr>)"
        by (simp add: s1_def log_ss_def with_index_def)
      ultimately show ?thesis by blast
    qed
  qed
qed

section \<open>A transition runs its table\<close>

text \<open>The calls of one step; \<open>pl\<close> is the payload of the message that completes it.\<close>

definition calls_of_step :: "task \<Rightarrow> ('f system_state_step \<Rightarrow> state_change msg_data option) \<Rightarrow> 'f system_state_step \<Rightarrow> 'f ss_call list" where
  "calls_of_step t pl st = Call_step (step_fn st) t #
     (if async_message_id st = 0 then []
      else case async_handler st of Some h \<Rightarrow> [Call_handler h (pl st)] | None \<Rightarrow> [])"

definition awaited :: "('f system_state_step \<Rightarrow> state_change msg_data option) \<Rightarrow> 'f system_state_step list
  \<Rightarrow> (message_id \<times> state_change msg_data option) list" where
  "awaited pl xs = map (\<lambda>st. (async_message_id st, pl st)) (filter (\<lambda>st. async_message_id st \<noteq> 0) xs)"

fun handle_messages :: "u32 \<Rightarrow> nat \<Rightarrow> (message_id \<times> state_change msg_data option) list \<Rightarrow> 'f system_state_ctx
  \<Rightarrow> 'f system_state_ctx option" where
  "handle_messages now addr [] s = Some s"
| "handle_messages now addr ((i, m) # ms) s =
     do { s' \<leftarrow> systemState_MessageHandler now addr i m s; handle_messages now addr ms s' }"

definition in_transition ::
  "transition_name \<Rightarrow> 'f system_state_step list \<Rightarrow> task \<Rightarrow> system_state_state \<Rightarrow> 'f system_state_ctx \<Rightarrow> bool" where
  "in_transition table xs t e s =
     (tables s table = \<lparr>transition_table = Some xs, transition_table_count = of_nat (length xs)\<rparr>
      \<and> transition (current_transition s) = Some table \<and> transition_task (current_transition s) = t
      \<and> state_on_completition (current_transition s) = e \<and> listeners_ok s)"

lemma in_transition_simps [simp]:
  "in_transition table xs t e (with_index i s) = in_transition table xs t e s"
  "in_transition table xs t e (log_ss c s) = in_transition table xs t e s"
  by (simp_all add: in_transition_def with_index_def log_ss_def listeners_ok_def)

lemma DoTransition_runs:
  assumes "length xs < 2 ^ 32" "in_transition table xs t e s" "i \<le> length xs" "ss_index s + 1 = of_nat i"
    "n \<le> length (awaited pl (drop i xs))"
  shows "\<exists>s1 s2. systemState_DoTransition now addr table s = Some s1
    \<and> handle_messages now addr (take n (awaited pl (drop i xs))) s1 = Some s2
    \<and> (n < length (awaited pl (drop i xs)) \<longrightarrow> ss_state s2 = ss_state s)
    \<and> (n = length (awaited pl (drop i xs)) \<longrightarrow> ss_state s2 = e
         \<and> ss_calls s2 = ss_calls s @ concat (map (calls_of_step t pl) (drop i xs)))"
  using assms(2-)
proof (induction "length xs - i" arbitrary: i s n)
  case 0
  then have i: "i = length xs" by simp
  have cnt: "tables s table = \<lparr>transition_table = Some xs, transition_table_count = of_nat (length xs)\<rparr>"
    "state_on_completition (current_transition s) = e" "listeners_ok s"
    using 0(2) by (simp_all add: in_transition_def)
  have "transition_loop table (with_index (ss_index s + 1) s) = Some (True, with_index (ss_index s + 1) s)"
    using 0(4) i cnt(1) by (subst transition_loop.simps) simp
  moreover have "listeners_ok (with_index (ss_index s + 1) s)"
    using cnt(3) by (simp add: listeners_ok_def with_index_def)
  moreover from SetState_done [OF this, of now addr e] obtain q where
    "systemState_SetState now addr e (with_index (ss_index s + 1) s)
      = Some (with_index (ss_index s + 1) s\<lparr>ss_state := e, ss_vm := q\<rparr>)" by blast
  moreover have "state_on_completition (current_transition (with_index (ss_index s + 1) s)) = e"
    using cnt(2) by (simp add: with_index_def)
  ultimately have "systemState_DoTransition now addr table s
      = Some (with_index (ss_index s + 1) s\<lparr>ss_state := e, ss_vm := q\<rparr>)"
    by (simp add: systemState_DoTransition_def systemState_CompleteTransition_def)
  then show ?case using 0(5) i by (simp add: awaited_def with_index_def)
next
  case (Suc k)
  then have i: "i < length xs" by simp
  define st where "st = xs ! i"
  have d: "drop i xs = st # drop (i + 1) xs" using i by (simp add: st_def Cons_nth_drop_Suc)
  have cnt: "tables s table = \<lparr>transition_table = Some xs, transition_table_count = of_nat (length xs)\<rparr>"
    "transition_task (current_transition s) = t" "transition (current_transition s) = Some table"
    using Suc(3) by (simp_all add: in_transition_def)
  have ui: "unat (ss_index s + 1) = i" "ss_index s + 1 < of_nat (length xs)"
    using Suc(5) i assms(1) by (simp_all add: unat_of_nat take_bit_nat_eq_self word_less_nat_alt)
  define s1 where "s1 = log_ss (Call_step (step_fn st) t) (with_index (ss_index s + 1) s)"
  have task1: "transition_task (current_transition (with_index (ss_index s + 1) s)) = t"
    using cnt(2) by (simp add: with_index_def)
  have rd: "read_step (transition_table (tables s table)) (ss_index s + 1) = Some st"
    using cnt(1) ui i by (simp add: read_step_def st_def)
  have loop: "transition_loop table (with_index (ss_index s + 1) s)
      = (if async_message_id st \<noteq> 0 then Some (False, s1)
         else transition_loop table (with_index (ss_index s1 + 1) s1))"
    using ui(2) cnt(1) rd task1 by (subst transition_loop.simps) (simp add: s1_def Let_def)
  have next1: "ss_index s1 + 1 = of_nat (i + 1)" using Suc(5) by (simp add: s1_def add.commute)
  have in1: "in_transition table xs t e s1" using Suc(3) by (simp add: s1_def)
  have st1: "ss_state s1 = ss_state s" "ss_calls s1 = ss_calls s @ [Call_step (step_fn st) t]"
    by (simp_all add: s1_def log_ss_def with_index_def)
  have k: "k = length xs - (i + 1)" using Suc(2) by simp
  show ?case
  proof (cases "async_message_id st = 0")
    case True
    then have a: "awaited pl (drop i xs) = awaited pl (drop (i + 1) xs)" by (simp add: d awaited_def)
    have "systemState_DoTransition now addr table s = systemState_DoTransition now addr table s1"
      using loop True by (simp add: systemState_DoTransition_def)
    moreover have "i + 1 \<le> length xs" "n \<le> length (awaited pl (drop (i + 1) xs))" using i Suc(6) a by simp_all
    from Suc(1) [OF k in1 this(1) next1 this(2)] st1 have "\<exists>s2 s3. systemState_DoTransition now addr table s1 = Some s2
      \<and> handle_messages now addr (take n (awaited pl (drop (i + 1) xs))) s2 = Some s3
      \<and> (n < length (awaited pl (drop (i + 1) xs)) \<longrightarrow> ss_state s3 = ss_state s)
      \<and> (n = length (awaited pl (drop (i + 1) xs)) \<longrightarrow> ss_state s3 = e
           \<and> ss_calls s3 = ss_calls s @ concat (map (calls_of_step t pl) (drop i xs)))"
      using True by (simp add: d calls_of_step_def)
    ultimately show ?thesis unfolding a by simp
  next
    case False
    then have a: "awaited pl (drop i xs) = (async_message_id st, pl st) # awaited pl (drop (i + 1) xs)"
      by (simp add: d awaited_def)
    have do1: "systemState_DoTransition now addr table s = Some s1"
      using loop False by (simp add: systemState_DoTransition_def)
    show ?thesis
    proof (cases n)
      case 0
      then show ?thesis using do1 a st1 by simp
    next
      case (Suc m)
      define s2 where "s2 = (case async_handler st of Some h \<Rightarrow> log_ss (Call_handler h (pl st)) s1 | None \<Rightarrow> s1)"
      have in2: "in_transition table xs t e s2" "ss_index s2 + 1 = of_nat (i + 1)" "ss_state s2 = ss_state s"
        "ss_calls s2 = ss_calls s @ calls_of_step t pl st"
        using in1 next1 st1 False
        by (auto simp: s2_def calls_of_step_def log_ss_def ss_index_def split: option.splits)
           (auto simp: in_transition_def listeners_ok_def)
      have h: "systemState_MessageHandler now addr (async_message_id st) (pl st) s1
          = systemState_DoTransition now addr table s2"
      proof -
        have "transition (current_transition s1) = Some table" "tables s1 = tables s" "ss_index s1 = ss_index s + 1"
          using in1 by (simp_all add: in_transition_def) (simp_all add: s1_def)
        then show ?thesis using cnt(1) rd by (simp add: systemState_MessageHandler_def s2_def)
      qed
      have "i + 1 \<le> length xs" "m \<le> length (awaited pl (drop (i + 1) xs))" using i \<open>n = Suc m\<close> Suc.prems(4) a by simp_all
      from Suc.hyps(1) [OF k in2(1) this(1) in2(2) this(2)] obtain s3 s4
        where "systemState_DoTransition now addr table s2 = Some s3"
        "handle_messages now addr (take m (awaited pl (drop (i + 1) xs))) s3 = Some s4"
        "m < length (awaited pl (drop (i + 1) xs)) \<longrightarrow> ss_state s4 = ss_state s"
        "m = length (awaited pl (drop (i + 1) xs)) \<longrightarrow> ss_state s4 = e
           \<and> ss_calls s4 = ss_calls s @ concat (map (calls_of_step t pl) (drop i xs))"
        unfolding in2(3,4) d by auto
      then show ?thesis using do1 h \<open>n = Suc m\<close> a by (intro exI [of _ s1] exI [of _ s4]) simp
    qed
  qed
qed

section \<open>States and transitions belong together\<close>

definition running_transition :: "'f system_state_ctx \<Rightarrow> bool" where
  "running_transition s =
     (case transition (current_transition s) of
        None \<Rightarrow> False
      | Some table \<Rightarrow> ss_index s < transition_table_count (tables s table))"

text \<open>The table of a transitional state and the states in which it may end.\<close>

definition transition_of :: "system_state_state \<Rightarrow> (transition_name \<times> system_state_state list) option" where
  "transition_of st =
     map_of [(system_state_initialisation, (T_init, [system_state_initialised])),
       (system_state_starting_up, (T_startup, [system_state_limbo, system_state_active])),
       (system_state_powering_on, (T_power_on, [system_state_active])),
       (system_state_powering_off, (T_power_off, [system_state_limbo])),
       (system_state_going_to_sleep, (T_sleep, [system_state_sleeping])),
       (system_state_shutting_down, (T_shutdown, [system_state_powered_off])),
       (system_state_shutting_down_promptly, (T_emergency_shutdown, [system_state_powered_off]))] st"

definition stable_state :: "system_state_state \<Rightarrow> bool" where
  "stable_state st = (st \<in> {system_state_powered_off, system_state_initialised, system_state_limbo,
     system_state_active, system_state_sleeping})"

definition tables_ok :: "'f system_state_ctx \<Rightarrow> bool" where
  "tables_ok s = (\<forall>table xs. transition_table (tables s table) = Some xs
     \<longrightarrow> unat (transition_table_count (tables s table)) = length xs)"

definition ss_inv :: "'f system_state_ctx \<Rightarrow> bool" where
  "ss_inv s =
     (if running_transition s
      then \<exists>table ends. transition_of (ss_state s) = Some (table, ends)
             \<and> transition (current_transition s) = Some table
             \<and> state_on_completition (current_transition s) \<in> set ends
      else stable_state (ss_state s))"

text \<open>One call into the component.\<close>

inductive ss_step :: "'f system_state_ctx \<Rightarrow> 'f system_state_ctx \<Rightarrow> bool" where
  "SystemState_Initialise now addr s = Some (b, s') \<Longrightarrow> ss_step s s'"
| "SystemState_StartUp now addr s = Some (b, s') \<Longrightarrow> ss_step s s'"
| "SystemState_PowerOn now addr s = Some (b, s') \<Longrightarrow> ss_step s s'"
| "SystemState_PowerOff now addr s = Some (b, s') \<Longrightarrow> ss_step s s'"
| "SystemState_Sleep now addr s = Some (b, s') \<Longrightarrow> ss_step s s'"
| "SystemState_Shutdown now addr s = Some (b, s') \<Longrightarrow> ss_step s s'"
| "SystemState_EmergencyShutdown now addr s = Some (b, s') \<Longrightarrow> ss_step s s'"
| "systemState_MessageHandler now addr i m s = Some s' \<Longrightarrow> ss_step s s'"
| "SystemState_RegisterForStateChanges t s = Some s' \<Longrightarrow> ss_step s s'"
| "transition (current_transition s) \<noteq> Some table \<Longrightarrow>
     steps = None \<or> (\<exists>xs. steps = Some xs \<and> unat n = length xs) \<Longrightarrow>
     ss_step s (systemState_RegisterTable table steps n s)"
| "ss_step s (SystemState_RemoveLimboState s)"

inductive ss_reachable :: "'f system_state_ctx \<Rightarrow> bool" where
  "SystemState_Init s0 = Some s \<Longrightarrow> ss_reachable s"
| "ss_reachable s \<Longrightarrow> ss_step s s' \<Longrightarrow> ss_reachable s'"

lemma DoTransition_frame:
  assumes "systemState_DoTransition now addr table s = Some s'" "transition (current_transition s) = Some table"
  shows "transition (current_transition s') = Some table
    \<and> state_on_completition (current_transition s') = state_on_completition (current_transition s)
    \<and> ss_state s' = (if running_transition s' then ss_state s else state_on_completition (current_transition s))
    \<and> tables s' = tables s"
proof -
  obtain f s1 where l: "transition_loop table (with_index (ss_index s + 1) s) = Some (f, s1)"
    "(if f then systemState_CompleteTransition now addr s1 else Some s1) = Some s'"
    using assms(1) by (auto simp: systemState_DoTransition_def bind_eq_Some_conv)
  obtain i cs where f: "f = (\<not> i < transition_table_count (tables s table))"
    and s1: "s1 = with_index i (s\<lparr>ss_calls := cs\<rparr>)"
    using transition_loop_frame [OF l(1)] by (auto simp: with_index_def)
  have e: "transition (current_transition s1) = Some table" "ss_state s1 = ss_state s" "ss_index s1 = i"
    "state_on_completition (current_transition s1) = state_on_completition (current_transition s)" "tables s1 = tables s"
    using assms(2) by (simp_all add: s1) (simp_all add: with_index_def)
  have r: "running_transition s1 = (\<not> f)" using e f by (simp add: running_transition_def)
  show ?thesis
  proof (cases f)
    case True
    then obtain q where "s' = s1\<lparr>ss_state := state_on_completition (current_transition s1), ss_vm := q\<rparr>"
      using l(2) SetState_SomeD by (fastforce simp: systemState_CompleteTransition_def)
    then show ?thesis using e r True by (simp add: running_transition_def ss_index_def)
  qed (use l(2) e r in simp)
qed

lemma InitiateTransition_inv:
  assumes "systemState_InitiateTransiton now addr start st e table s = Some (b, s')" "ss_inv s"
    "transition_of st = Some (table, ends)" "e \<in> set ends" "stable_state e"
  shows "ss_inv s' \<and> tables s' = tables s"
proof (cases "ss_state s AND start = 0")
  case True
  then show ?thesis using assms(1,2) by (simp add: systemState_InitiateTransiton_def SystemState_GetState_def)
next
  case False
  then obtain s1 where s1: "systemState_SetState now addr st s = Some s1"
    "systemState_DoTransition now addr table (systemState_SetupCurrentTransition table e s1) = Some s'"
    using assms(1) by (auto simp: systemState_InitiateTransiton_def SystemState_GetState_def bind_eq_Some_conv)
  have "ss_state s1 = st" "tables s1 = tables s" using SetState_SomeD [OF s1(1)] by auto
  then show ?thesis
    using DoTransition_frame [OF s1(2)] assms(3-5)
    by (auto simp: ss_inv_def systemState_SetupCurrentTransition_def)
qed

lemma transition_of_simps:
  "transition_of system_state_initialisation = Some (T_init, [system_state_initialised])"
  "transition_of system_state_starting_up = Some (T_startup, [system_state_limbo, system_state_active])"
  "transition_of system_state_powering_on = Some (T_power_on, [system_state_active])"
  "transition_of system_state_powering_off = Some (T_power_off, [system_state_limbo])"
  "transition_of system_state_going_to_sleep = Some (T_sleep, [system_state_sleeping])"
  "transition_of system_state_shutting_down = Some (T_shutdown, [system_state_powered_off])"
  "transition_of system_state_shutting_down_promptly = Some (T_emergency_shutdown, [system_state_powered_off])"
  by (simp_all add: transition_of_def system_state_defs)

lemma stable_state_simps:
  "stable_state system_state_powered_off" "stable_state system_state_initialised" "stable_state system_state_limbo"
  "stable_state system_state_active" "stable_state system_state_sleeping"
  by (simp_all add: stable_state_def)

lemma EmergencyShutdown_inv:
  assumes "SystemState_EmergencyShutdown now addr s = Some (b, s')"
  shows "ss_inv s' \<and> tables s' = tables s"
proof -
  obtain s1 where s1: "systemState_SetState now addr system_state_shutting_down_promptly s = Some s1"
    "systemState_DoTransition now addr T_emergency_shutdown
       (systemState_SetupCurrentTransition T_emergency_shutdown system_state_powered_off s1) = Some s'"
    using assms by (auto simp: SystemState_EmergencyShutdown_def bind_eq_Some_conv)
  have "ss_state s1 = system_state_shutting_down_promptly" "tables s1 = tables s"
    using SetState_SomeD [OF s1(1)] by auto
  then show ?thesis
    using DoTransition_frame [OF s1(2)]
    by (auto simp: ss_inv_def systemState_SetupCurrentTransition_def transition_of_simps stable_state_simps)
qed

lemma MessageHandler_inv:
  assumes "systemState_MessageHandler now addr i m s = Some s'" "ss_inv s"
    "tables_ok s"
  shows "ss_inv s' \<and> tables s' = tables s"
proof -
  obtain table where t: "transition (current_transition s) = Some table"
    using assms(1) by (auto simp: systemState_MessageHandler_def bind_eq_Some_conv)
  show ?thesis
  proof (cases "s' = s")
    case False
    then obtain st where st: "read_step (transition_table (tables s table)) (ss_index s) = Some st"
      "transition_table (tables s table) \<noteq> None"
      "systemState_DoTransition now addr table
        (case async_handler st of Some h \<Rightarrow> log_ss (Call_handler h m) s | None \<Rightarrow> s) = Some s'"
      using assms(1) t by (auto simp: systemState_MessageHandler_def bind_eq_Some_conv split: if_splits)
    have "unat (ss_index s) < unat (transition_table_count (tables s table))"
      using assms(3) st(1) by (auto simp: tables_ok_def read_step_def split: option.splits if_splits)
    then have r: "running_transition s" using t by (simp add: running_transition_def word_less_nat_alt)
    let ?s = "case async_handler st of Some h \<Rightarrow> log_ss (Call_handler h m) s | None \<Rightarrow> s"
    have e: "current_transition ?s = current_transition s" "ss_state ?s = ss_state s" "tables ?s = tables s"
      by (simp_all add: log_ss_def split: option.splits)
    obtain ends where "transition_of (ss_state s) = Some (table, ends)"
      "state_on_completition (current_transition s) \<in> set ends"
      using assms(2) r t by (auto simp: ss_inv_def)
    moreover have "\<forall>e\<in>set ends. stable_state e"
      using calculation(1) by (auto simp: transition_of_def stable_state_simps split: if_splits)
    ultimately show ?thesis
      using DoTransition_frame [OF st(3)] t e by (auto simp: ss_inv_def)
  qed (use assms(2) in simp)
qed

lemma SystemState_Init_done:
  "\<exists>l. SystemState_Init s = Some (s\<lparr>ss_state := system_state_powered_off, state_change_listeners := l,
      is_limbo_removed := False,
      current_transition := (current_transition s)\<lparr>transition := None, ct_index := 0, state_on_completition := 0\<rparr>,
      tables := (\<lambda>_. empty_table)\<rparr>) \<and> tl_valid l \<and> tl_members l = []"
proof -
  obtain l where l: "TaskList_CreateWithCapacity 2 = Some l" "tl_repr l [] []"
    by (auto simp: TaskList_CreateWithCapacity_def TaskList_InitialiseWithCapacity_def TASK_LIST_MAX_TASKS_def
        TASK_LIST_SIZE_BITS_def taskList_FlexibleSizeSet_def tl_repr_def union_of_def data_of_def)
  then show ?thesis
    using tl_validI [OF l(2)] tl_members_repr [OF l(2)]
    by (intro exI [of _ l]) (simp add: SystemState_Init_def tasks_ok_def)
qed

lemma interface_inv:
  assumes "ss_inv s"
  shows "SystemState_Initialise now addr s = Some (b, s') \<Longrightarrow> ss_inv s' \<and> tables s' = tables s"
    "SystemState_StartUp now addr s = Some (b, s') \<Longrightarrow> ss_inv s' \<and> tables s' = tables s"
    "SystemState_PowerOn now addr s = Some (b, s') \<Longrightarrow> ss_inv s' \<and> tables s' = tables s"
    "SystemState_PowerOff now addr s = Some (b, s') \<Longrightarrow> ss_inv s' \<and> tables s' = tables s"
    "SystemState_Sleep now addr s = Some (b, s') \<Longrightarrow> ss_inv s' \<and> tables s' = tables s"
    "SystemState_Shutdown now addr s = Some (b, s') \<Longrightarrow> ss_inv s' \<and> tables s' = tables s"
  unfolding SystemState_Initialise_def SystemState_StartUp_def SystemState_PowerOn_def SystemState_PowerOff_def
    SystemState_Sleep_def SystemState_Shutdown_def
  using InitiateTransition_inv [OF _ assms] assms
  by (auto simp: transition_of_simps stable_state_simps split: if_splits)

lemma ss_inv_frame:
  assumes "current_transition s' = current_transition s" "ss_state s' = ss_state s" "tables s' = tables s"
  shows "ss_inv s' = ss_inv s" "tables_ok s' = tables_ok s"
proof -
  have "running_transition s' = running_transition s"
    using assms by (simp add: running_transition_def ss_index_def cong: option.case_cong)
  then show "ss_inv s' = ss_inv s" "tables_ok s' = tables_ok s" using assms by (simp_all add: ss_inv_def tables_ok_def)
qed

lemma ss_step_inv:
  assumes "ss_step s s'" "ss_inv s" "tables_ok s"
  shows "ss_inv s' \<and> tables_ok s'"
  using assms(1)
proof cases
  case (8 now addr i m)
  then show ?thesis using MessageHandler_inv [OF 8 assms(2,3)] assms(3) by (simp add: tables_ok_def)
next
  case (9 t)
  then obtain l where "s' = s\<lparr>state_change_listeners := l\<rparr>" by (auto simp: SystemState_RegisterForStateChanges_def)
  then show ?thesis using assms(2,3) ss_inv_frame [of s' s] by simp
next
  case (10 table steps n)
  then have "running_transition s' = running_transition s"
    by (auto simp: running_transition_def ss_index_def systemState_RegisterTable_def split: option.split)
  then show ?thesis
    using 10 assms(2,3) by (auto simp: ss_inv_def tables_ok_def systemState_RegisterTable_def)
next
  case 11
  then show ?thesis using assms(2,3) ss_inv_frame [of s' s] by (simp add: SystemState_RemoveLimboState_def)
next
  case 1
  then show ?thesis using interface_inv(1) [OF assms(2) 1] assms(3) by (simp add: tables_ok_def)
next
  case 2
  then show ?thesis using interface_inv(2) [OF assms(2) 2] assms(3) by (simp add: tables_ok_def)
next
  case 3
  then show ?thesis using interface_inv(3) [OF assms(2) 3] assms(3) by (simp add: tables_ok_def)
next
  case 4
  then show ?thesis using interface_inv(4) [OF assms(2) 4] assms(3) by (simp add: tables_ok_def)
next
  case 5
  then show ?thesis using interface_inv(5) [OF assms(2) 5] assms(3) by (simp add: tables_ok_def)
next
  case 6
  then show ?thesis using interface_inv(6) [OF assms(2) 6] assms(3) by (simp add: tables_ok_def)
next
  case 7
  then show ?thesis using EmergencyShutdown_inv [OF 7] assms(3) by (simp add: tables_ok_def)
qed

lemma ss_reachable_inv: "ss_reachable s \<Longrightarrow> ss_inv s \<and> tables_ok s"
proof (induction rule: ss_reachable.induct)
  case (1 s0 s)
  obtain l where "s = s0\<lparr>ss_state := system_state_powered_off, state_change_listeners := l,
      is_limbo_removed := False,
      current_transition := (current_transition s0)\<lparr>transition := None, ct_index := 0, state_on_completition := 0\<rparr>,
      tables := (\<lambda>_. empty_table)\<rparr>"
    using SystemState_Init_done [of s0] 1 by auto
  then show ?case
    by (simp add: ss_inv_def running_transition_def stable_state_simps tables_ok_def empty_table_def)
qed (use ss_step_inv in blast)

section \<open>Properties\<close>

text \<open>
  C27: A transition runs its table in order and ends in its final state: when the system is in a start state,
  with a table of steps, initiating the transition and delivering the messages of the
  asynchronous steps one after the other calls every step once, in the order of the table, and after
  each asynchronous step its message handler; until the last of these messages the system stays
  in the transitional state, and after it it is in the final state.
\<close>
theorem transition_runs_in_order:
  assumes "ss_state s AND start \<noteq> 0" "listeners_ok s" "length xs < 2 ^ 32"
    "tables s table = \<lparr>transition_table = Some xs, transition_table_count = of_nat (length xs)\<rparr>"
    "n \<le> length (awaited pl xs)"
  shows "\<exists>s1 s2. systemState_InitiateTransiton now addr start st e table s = Some (True, s1)
    \<and> handle_messages now addr (take n (awaited pl xs)) s1 = Some s2
    \<and> (n < length (awaited pl xs) \<longrightarrow> ss_state s2 = st)
    \<and> (n = length (awaited pl xs) \<longrightarrow> ss_state s2 = e
         \<and> ss_calls s2 = ss_calls s @ concat (map (calls_of_step (SystemState_GetTransitionTask s) pl) xs))"
proof -
  obtain q where q: "systemState_SetState now addr st s = Some (s\<lparr>ss_state := st, ss_vm := q\<rparr>)"
    using SetState_done [OF assms(2)] by blast
  define s0 where "s0 = systemState_SetupCurrentTransition table e (s\<lparr>ss_state := st, ss_vm := q\<rparr>)"
  have "in_transition table xs (SystemState_GetTransitionTask s) e s0" "ss_index s0 + 1 = of_nat 0"
    using assms(2,4) by (simp_all add: s0_def systemState_SetupCurrentTransition_def in_transition_def listeners_ok_def
        SystemState_GetTransitionTask_def ss_index_def)
  from DoTransition_runs [OF assms(3) this(1) _ this(2), of n pl now addr] obtain s1 s2 where
    "systemState_DoTransition now addr table s0 = Some s1"
    "handle_messages now addr (take n (awaited pl xs)) s1 = Some s2"
    "n < length (awaited pl xs) \<longrightarrow> ss_state s2 = ss_state s0"
    "n = length (awaited pl xs) \<longrightarrow> ss_state s2 = e
         \<and> ss_calls s2 = ss_calls s0 @ concat (map (calls_of_step (SystemState_GetTransitionTask s) pl) xs)"
    using assms(5) by auto
  moreover have "ss_state s0 = st" "ss_calls s0 = ss_calls s"
    by (simp_all add: s0_def systemState_SetupCurrentTransition_def)
  ultimately show ?thesis
    using q assms(1) by (intro exI [of _ s1] exI [of _ s2])
      (simp add: systemState_InitiateTransiton_def SystemState_GetState_def s0_def [symmetric])
qed

definition demo_system :: "string system_state_ctx" where
  "demo_system =
     \<lparr>ss_state = system_state_active,
      state_change_listeners = \<lparr>size_list = 0, size_flexible_tasks = 0, list_type = TASKLIST_TYPE_STANDARD,
        no_destroy = False, tl_u = U_task NULL_TASK, flexible_tasks = [], tl_data = []\<rparr>,
      is_limbo_removed = True,
      current_transition = \<lparr>transition = None, ct_index = 0, transition_task = 50, state_on_completition = 0\<rparr>,
      tables = (\<lambda>_. empty_table)(T_sleep :=
        \<lparr>transition_table = Some
           [\<lparr>step_fn = ''prepare'', async_message_id = 77, async_handler = Some ''prepared''\<rparr>,
            \<lparr>step_fn = ''finalSleepStep'', async_message_id = 0, async_handler = None\<rparr>],
         transition_table_count = 2\<rparr>),
      ss_vm = \<lparr>vm_message_queue = [], vm_delivered_messages = [], sched_event_pending = False, put_message_ok = True,
        registered_hdlrs = [], sink_source_hdlrs = [], run_timer = None\<rparr>,
      ss_calls = []\<rparr>"

theorem transition_runs_in_order_witness:
  "\<exists>s1 s2. SystemState_Sleep 5 0 demo_system = Some (True, s1) \<and> handle_messages 5 0 [(77, None)] s1 = Some s2
    \<and> ss_state s2 = system_state_sleeping
    \<and> ss_calls s2 = [Call_step ''prepare'' 50, Call_handler ''prepared'' None, Call_step ''finalSleepStep'' 50]"
proof -
  let ?xs = "[\<lparr>step_fn = ''prepare'', async_message_id = 77, async_handler = Some ''prepared''\<rparr>,
            \<lparr>step_fn = ''finalSleepStep'', async_message_id = 0, async_handler = None\<rparr>]"
  have r: "tl_repr (state_change_listeners demo_system) [] []"
    by (simp add: demo_system_def tl_repr_def union_of_def data_of_def)
  have l: "listeners_ok demo_system"
    using tl_validI [OF r] tl_members_repr [OF r] by (simp add: listeners_ok_def tasks_ok_def)
  have a: "ss_state demo_system AND system_state_active \<noteq> 0" by (simp add: demo_system_def system_state_active_def)
  have t: "tables demo_system T_sleep = \<lparr>transition_table = Some ?xs, transition_table_count = of_nat (length ?xs)\<rparr>"
    "is_limbo_removed demo_system" "ss_calls demo_system = []" "SystemState_GetTransitionTask demo_system = 50"
    by (simp_all add: demo_system_def SystemState_GetTransitionTask_def)
  have n: "length ?xs < 2 ^ 32" "1 \<le> length (awaited (\<lambda>_. None) ?xs)" by (simp_all add: awaited_def)
  from transition_runs_in_order [OF a l n(1) t(1) n(2), of 5 0 system_state_going_to_sleep system_state_sleeping]
  show ?thesis by (simp add: SystemState_Sleep_def t(2-4) awaited_def calls_of_step_def)
qed

text \<open>
  C28: The state and the running transition always belong together: in every state reachable from the
  initialisation, the system is in a stable state when no transition is running, and otherwise in
  the transitional state of the very table that is running, which ends in a state allowed for it.
\<close>
theorem system_state_consistent:
  assumes "ss_reachable s"
  shows "if running_transition s
    then \<exists>table ends. transition_of (ss_state s) = Some (table, ends)
           \<and> transition (current_transition s) = Some table
           \<and> state_on_completition (current_transition s) \<in> set ends
    else stable_state (ss_state s)"
  using ss_reachable_inv [OF assms] by (simp add: ss_inv_def)

theorem system_state_consistent_witness:
  "\<exists>s. SystemState_Init demo_system = Some s \<and> stable_state (ss_state s)"
proof -
  obtain l where s: "SystemState_Init demo_system = Some (demo_system\<lparr>ss_state := system_state_powered_off,
      state_change_listeners := l, is_limbo_removed := False,
      current_transition := (current_transition demo_system)\<lparr>transition := None, ct_index := 0, state_on_completition := 0\<rparr>,
      tables := (\<lambda>_. empty_table)\<rparr>)"
    using SystemState_Init_done by blast
  from system_state_consistent [OF ss_reachable.intros(1) [OF s]] show ?thesis
    using s by (auto simp: running_transition_def)
qed

text \<open>
  A message for a completed transition is read against the step behind the end of the table.
\<close>

lemma late_message_faults:
  assumes "ss_reachable s" "transition (current_transition s) = Some table" "\<not> running_transition s"
    "transition_table (tables s table) \<noteq> None"
  shows "systemState_MessageHandler now addr i m s = None"
proof -
  obtain xs where xs: "transition_table (tables s table) = Some xs" using assms(4) by auto
  have "\<not> unat (ss_index s) < length xs"
    using ss_reachable_inv [OF assms(1)] assms(2,3) xs
    by (auto simp: tables_ok_def running_transition_def word_less_nat_alt)
  then show ?thesis using assms(2) xs by (simp add: systemState_MessageHandler_def read_step_def)
qed

end
