(* ===== verification/ClientData.thy ===== *)
theory ClientData
  imports TaskList
begin

text \<open>
  Task lists with data as tables: the contract between a component that keeps a word of state for each of its
  client tasks in a task list with data, and the task list. The clients' flags and temperature limits
  rest on it.
\<close>

section \<open>The contract\<close>

text \<open>
  \<open>table\<close> is the list of the clients with their data, in the order of registration; the index
  found for a client is its place in the table, where its datum can be replaced.
\<close>

locale client_table =
  fixes valid :: "'l \<Rightarrow> bool"
    and table :: "'l \<Rightarrow> (task \<times> task_list_data) list"
    and capacity :: nat
    and add :: "'l \<Rightarrow> task \<Rightarrow> task_list_data \<Rightarrow> (bool \<times> 'l) option"
    and remove :: "'l \<Rightarrow> task \<Rightarrow> (bool \<times> 'l) option"
    and find_client :: "'l \<Rightarrow> task \<Rightarrow> nat option option"
    and put :: "'l \<Rightarrow> nat \<Rightarrow> task_list_data \<Rightarrow> 'l"
  assumes table_distinct: "valid l \<Longrightarrow> distinct (map fst (table l))"
    and add_new: "valid l \<Longrightarrow> t \<noteq> NULL_TASK \<Longrightarrow> t \<notin> fst ` set (table l) \<Longrightarrow> length (table l) < capacity \<Longrightarrow>
      \<exists>l'. add l t d = Some (True, l') \<and> valid l' \<and> table l' = table l @ [(t, d)]"
    and add_old: "valid l \<Longrightarrow> t \<in> fst ` set (table l) \<Longrightarrow> add l t d = Some (False, l)"
    and remove_any: "valid l \<Longrightarrow> t \<noteq> NULL_TASK \<Longrightarrow>
      \<exists>l'. remove l t = Some (t \<in> fst ` set (table l), l') \<and> valid l'
        \<and> table l' = filter (\<lambda>(u, _). u \<noteq> t) (table l)"
    and find_present: "valid l \<Longrightarrow> i < length (table l) \<Longrightarrow> find_client l (fst (table l ! i)) = Some (Some i)"
    and find_absent: "valid l \<Longrightarrow> t \<notin> fst ` set (table l) \<Longrightarrow> find_client l t = Some None"
    and put_replaces: "valid l \<Longrightarrow> i < length (table l) \<Longrightarrow>
      valid (put l i d) \<and> table (put l i d) = (table l)[i := (fst (table l ! i), d)]"
begin

lemma find_client_total:
  assumes "valid l"
  obtains (absent) "t \<notin> fst ` set (table l)" "find_client l t = Some None"
  | (present) i where "i < length (table l)" "fst (table l ! i) = t" "find_client l t = Some (Some i)"
proof (cases "t \<in> fst ` set (table l)")
  case True
  then obtain i where "i < length (table l)" "fst (table l ! i) = t" by (auto simp: in_set_conv_nth)
  then show ?thesis using find_present [OF assms] present by blast
qed (use find_absent [OF assms] absent in blast)

lemma put_at_client:
  assumes "valid l" "i < length (table l)"
  shows "table (put l i d) = map (\<lambda>(u, e). (u, if u = fst (table l ! i) then d else e)) (table l)"
proof -
  have "(table l)[i := (fst (table l ! i), d)]
      = map (\<lambda>(u, e). (u, if u = fst (table l ! i) then d else e)) (table l)"
  proof (rule nth_equalityI)
    fix j assume "j < length ((table l)[i := (fst (table l ! i), d)])"
    then have j: "j < length (table l)" by simp
    have "fst (table l ! j) = fst (table l ! i) \<longleftrightarrow> j = i"
      using table_distinct [OF assms(1)] j assms(2) nth_eq_iff_index_eq [of "map fst (table l)" j i] by simp
    then show "(table l)[i := (fst (table l ! i), d)] ! j
        = map (\<lambda>(u, e). (u, if u = fst (table l ! i) then d else e)) (table l) ! j"
      using j by (cases "table l ! j") (auto simp: nth_list_update)
  qed simp
  then show ?thesis using put_replaces [OF assms] by simp
qed

text \<open>Registering and removing a client restores the table.\<close>

lemma remove_undoes_add:
  assumes "valid l" "t \<noteq> NULL_TASK" "t \<notin> fst ` set (table l)" "length (table l) < capacity"
  shows "\<exists>l1 l2. add l t d = Some (True, l1) \<and> remove l1 t = Some (True, l2) \<and> table l2 = table l"
proof -
  obtain l1 where l1: "add l t d = Some (True, l1)" "valid l1" "table l1 = table l @ [(t, d)]"
    using add_new [OF assms] by blast
  obtain l2 where l2: "remove l1 t = Some (True, l2)" "table l2 = filter (\<lambda>(u, _). u \<noteq> t) (table l1)"
    using remove_any [OF l1(2) assms(2)] l1(3) by auto
  have "filter (\<lambda>(u, _). u \<noteq> t) (table l) = table l"
    using assms(3) by (auto simp: filter_id_conv image_iff)
  then show ?thesis using l1 l2 by simp
qed

end

section \<open>Task lists provide it\<close>

definition td_table :: "task_list \<Rightarrow> (task \<times> task_list_data) list" where
  "td_table l = zip (tl_members l) (map the (tl_data l))"

definition td_valid :: "task_list \<Rightarrow> bool" where
  "td_valid l = (\<exists>ds. tl_repr l (tl_members l) (map Some ds) \<and> tasks_ok (tl_members l) \<and> TaskList_IsTaskListWithData l)"

definition td_put :: "task_list \<Rightarrow> nat \<Rightarrow> task_list_data \<Rightarrow> task_list" where
  "td_put l i d = l\<lparr>tl_data := (tl_data l)[i := Some d]\<rparr>"

lemma td_validD:
  assumes "td_valid l"
  shows "\<exists>ds. tl_repr l (map fst (td_table l)) (map Some ds) \<and> tl_data l = map Some ds
    \<and> ds = map snd (td_table l) \<and> tl_members l = map fst (td_table l)"
    "tasks_ok (map fst (td_table l))" "TaskList_IsTaskListWithData l" "length (td_table l) \<le> 15"
proof -
  obtain ds where ds: "tl_repr l (tl_members l) (map Some ds)" "tasks_ok (tl_members l)" "TaskList_IsTaskListWithData l"
    using assms by (auto simp: td_valid_def)
  then have d: "tl_data l = map Some ds" "length ds = length (tl_members l)"
    by (auto simp: tl_repr_def data_of_def TaskList_IsTaskListWithData_def)
  then have m: "map fst (td_table l) = tl_members l" "map snd (td_table l) = ds" by (simp_all add: td_table_def comp_def)
  show "\<exists>ds. tl_repr l (map fst (td_table l)) (map Some ds) \<and> tl_data l = map Some ds
    \<and> ds = map snd (td_table l) \<and> tl_members l = map fst (td_table l)" using ds(1) d(1) m by auto
  show "tasks_ok (map fst (td_table l))" using ds(2) m(1) by simp
  show "TaskList_IsTaskListWithData l" by (rule ds(3))
  have "length (td_table l) = length (tl_members l)" by (simp add: m(1) [symmetric])
  then show "length (td_table l) \<le> 15" using ds(1) by (simp add: tl_repr_def)
qed

lemma td_validI:
  assumes "tl_repr l ts (map Some ds)" "tasks_ok ts" "TaskList_IsTaskListWithData l"
  shows "td_valid l" "td_table l = zip ts ds"
proof -
  have "tl_members l = ts" by (rule tl_members_repr [OF assms(1)])
  moreover have "tl_data l = map Some ds"
    using assms(1,3) by (simp add: tl_repr_def data_of_def TaskList_IsTaskListWithData_def)
  ultimately show "td_valid l" "td_table l = zip ts ds"
    using assms by (auto simp: td_valid_def td_table_def comp_def)
qed

lemma td_valid_tl: "td_valid l \<Longrightarrow> tl_valid l"
  by (auto simp: td_valid_def tl_valid_def)

lemma td_members: "td_valid l \<Longrightarrow> tl_members l = map fst (td_table l)"
  using td_validD(1) by blast

lemma td_size: "td_valid l \<Longrightarrow> size_list l = length (td_table l)"
  using td_validD(1) [of l] tl_repr_size by fastforce

interpretation td: client_table td_valid td_table 15 TaskList_AddTaskWithData TaskList_RemoveTask
  TaskList_GetDataForTaskRaw td_put
proof
  fix l t d
  assume v: "td_valid l"
  obtain ds where r: "tl_repr l (map fst (td_table l)) (map Some ds)" "tl_data l = map Some ds"
    "ds = map snd (td_table l)" "tl_members l = map fst (td_table l)" using td_validD(1) [OF v] by blast
  note ok = td_validD(2) [OF v] and wd = td_validD(3) [OF v]
  have d: "distinct (map fst (td_table l))" using ok by (simp add: tasks_ok_def)
  have ty: "list_type l = TASKLIST_TYPE_WITH_DATA" using wd by (simp add: TaskList_IsTaskListWithData_def)
  show "distinct (map fst (td_table l))" by (rule d)
  show "\<exists>l'. TaskList_AddTaskWithData l t d = Some (True, l') \<and> td_valid l' \<and> td_table l' = td_table l @ [(t, d)]"
    if nz: "t \<noteq> NULL_TASK" and nin: "t \<notin> fst ` set (td_table l)" and lt: "length (td_table l) < 15"
  proof -
    have n: "t \<notin> set (map fst (td_table l))" "length (map fst (td_table l)) < 15" using nin lt by simp_all
    obtain l1 where l1: "TaskList_AddTask l t = Some (True, l1)"
      "tl_repr l1 (map fst (td_table l) @ [t]) (map Some ds @ [None])" "list_type l1 = list_type l"
      using AddTask_new [OF r(1) d n(1) nz n(2)] ty by auto
    have s: "size_list l1 = length (td_table l) + 1" "tl_data l1 = map Some ds @ [None]" "length ds = length (td_table l)"
      using tl_repr_size [OF l1(2)] l1(2,3) ty r(3) by (simp_all add: tl_repr_def data_of_def)
    let ?l = "l1\<lparr>tl_data := map Some (ds @ [d])\<rparr>"
    have a: "TaskList_AddTaskWithData l t d = Some (True, ?l)"
      using wd l1(1) s by (simp add: TaskList_AddTaskWithData_def write_cell_def list_update_append)
    have rep: "tl_repr ?l (map fst (td_table l) @ [t]) (map Some (ds @ [d]))"
      using l1(2,3) ty by (simp add: tl_repr_def data_of_def)
    have "tasks_ok (map fst (td_table l) @ [t])" using tasks_ok_append [OF ok nz n(1)] .
    moreover have "TaskList_IsTaskListWithData ?l" using l1(3) wd by (simp add: TaskList_IsTaskListWithData_def)
    ultimately have "td_valid ?l" "td_table ?l = zip (map fst (td_table l) @ [t]) (ds @ [d])"
      using td_validI [OF rep] by blast+
    moreover have "zip (map fst (td_table l) @ [t]) (ds @ [d]) = td_table l @ [(t, d)]"
      using r(3) by (simp add: zip_map_fst_snd)
    ultimately show ?thesis using a by simp
  qed
  show "TaskList_AddTaskWithData l t d = Some (False, l)" if "t \<in> fst ` set (td_table l)"
  proof -
    have "t \<in> set (tl_members l)" using that by (simp add: r(4))
    then have "TaskList_AddTask l t = Some (False, l)" using tl.add_old [OF td_valid_tl [OF v]] by blast
    then show ?thesis using wd by (simp add: TaskList_AddTaskWithData_def)
  qed
  show "\<exists>l'. TaskList_RemoveTask l t = Some (t \<in> fst ` set (td_table l), l') \<and> td_valid l'
      \<and> td_table l' = filter (\<lambda>(u, _). u \<noteq> t) (td_table l)" if nz: "t \<noteq> NULL_TASK"
  proof (cases "t \<in> fst ` set (td_table l)")
    case True
    then have "t \<in> set (map fst (td_table l))" by simp
    from RemoveTask_present [OF r(1) ok this] obtain l' ds' where l':
      "TaskList_RemoveTask l t = Some (True, l')" "tl_repr l' (remove1 t (map fst (td_table l))) ds'"
      "list_type l' = list_type l"
      "zip (remove1 t (map fst (td_table l))) ds' = filter (\<lambda>(u, _). u \<noteq> t) (zip (map fst (td_table l)) (map Some ds))"
      by blast
    have len: "length ds' = length (remove1 t (map fst (td_table l)))"
      using l'(2,3) ty by (simp add: tl_repr_def data_of_def)
    have filtered: "map snd (filter (\<lambda>(u, _). u \<noteq> t) (zip (map fst xs) (map Some (map snd xs))))
        = map Some (map snd (filter (\<lambda>(u, _). u \<noteq> t) xs))" for xs :: "(task \<times> task_list_data) list"
      by (induction xs) auto
    have "ds' = map snd (filter (\<lambda>(u, _). u \<noteq> t) (zip (map fst (td_table l)) (map Some ds)))"
      using l'(4) len by (metis map_snd_zip)
    also have "\<dots> = map Some (map snd (filter (\<lambda>(u, _). u \<noteq> t) (td_table l)))"
      unfolding r(3) by (rule filtered)
    finally have ds': "ds' = map Some (map snd (filter (\<lambda>(u, _). u \<noteq> t) (td_table l)))" .
    have "remove1 t (map fst (td_table l)) = map fst (filter (\<lambda>(u, _). u \<noteq> t) (td_table l))"
      using d by (simp add: distinct_remove1_removeAll removeAll_filter_not_eq filter_map comp_def case_prod_unfold)
        (metis (mono_tags, lifting))
    then have "td_valid l'" "td_table l' = zip (map fst (filter (\<lambda>(u, _). u \<noteq> t) (td_table l)))
        (map snd (filter (\<lambda>(u, _). u \<noteq> t) (td_table l)))"
      using td_validI [OF l'(2) [unfolded ds'] tasks_ok_remove1 [OF ok]] l'(3) wd
      by (simp_all add: TaskList_IsTaskListWithData_def)
    then show ?thesis using l'(1) True by (simp add: zip_map_fst_snd)
  next
    case False
    then have "t \<notin> set (tl_members l)" by (simp add: r(4))
    then have "TaskList_RemoveTask l t = Some (False, l)" using tl.remove_absent [OF td_valid_tl [OF v] nz] by blast
    moreover have "filter (\<lambda>(u, _). u \<noteq> t) (td_table l) = td_table l"
      using False by (auto simp: filter_id_conv image_iff)
    ultimately show ?thesis using False v by simp
  qed
  show "TaskList_GetDataForTaskRaw l t = Some None" if "t \<notin> fst ` set (td_table l)"
    using find_repr_absent [OF r(1), of t] that wd by (simp add: TaskList_GetDataForTaskRaw_def)
next
  fix l i d
  assume v: "td_valid l" and i: "i < length (td_table l)"
  obtain ds where r: "tl_repr l (map fst (td_table l)) (map Some ds)" "tl_data l = map Some ds"
    "ds = map snd (td_table l)" "tl_members l = map fst (td_table l)" using td_validD(1) [OF v] by blast
  note ok = td_validD(2) [OF v] and wd = td_validD(3) [OF v]
  have d: "distinct (map fst (td_table l))" using ok by (simp add: tasks_ok_def)
  show "TaskList_GetDataForTaskRaw l (fst (td_table l ! i)) = Some (Some i)"
    using find_repr_present [OF r(1) d, of i] i wd by (simp add: TaskList_GetDataForTaskRaw_def)
  have rep: "tl_repr (td_put l i d) (map fst (td_table l)) (map Some (ds[i := d]))"
    using r(1,2) i wd by (simp add: tl_repr_def data_of_def td_put_def map_update TaskList_IsTaskListWithData_def)
  have "TaskList_IsTaskListWithData (td_put l i d)" using wd by (simp add: TaskList_IsTaskListWithData_def td_put_def)
  from td_validI [OF rep ok this] have "td_valid (td_put l i d)" "td_table (td_put l i d) = zip (map fst (td_table l)) (ds[i := d])" .
  moreover have "zip (map fst (td_table l)) (ds[i := d]) = (td_table l)[i := (fst (td_table l ! i), d)]"
    using r(3) i by (intro nth_equalityI) (auto simp: nth_list_update prod_eq_iff)
  ultimately show "td_valid (td_put l i d) \<and> td_table (td_put l i d) = (td_table l)[i := (fst (td_table l ! i), d)]" by simp
qed

section \<open>Visiting all clients\<close>

text \<open>
  \<open>TaskList_IterateWithDataRawFunction\<close> visits every client once, in order: a handler that always goes on,
  as long as \<open>P\<close> holds of its argument, maps the table and folds over it.
\<close>

locale client_visitor =
  fixes handler :: "task \<Rightarrow> task_list_data option \<Rightarrow> 's \<Rightarrow> bool \<times> task_list_data option \<times> 's"
    and P :: "'s \<Rightarrow> bool"
    and datum :: "task \<Rightarrow> task_list_data \<Rightarrow> task_list_data"
    and effect :: "task \<Rightarrow> task_list_data \<Rightarrow> 's \<Rightarrow> 's"
  assumes visits: "P arg \<Longrightarrow> handler t (Some d) arg = (True, Some (datum t d), effect t d arg)"
    and keeps: "P arg \<Longrightarrow> P (effect t d arg)"
begin

abbreviation visited :: "task \<times> task_list_data \<Rightarrow> task \<times> task_list_data" where
  "visited \<equiv> \<lambda>(t, d). (t, datum t d)"

abbreviation visit :: "task \<times> task_list_data \<Rightarrow> 's \<Rightarrow> 's" where
  "visit \<equiv> \<lambda>(t, d). effect t d"

lemma keeps_visits: "P arg \<Longrightarrow> P (fold visit es arg)"
  by (induction es arbitrary: arg) (auto intro: keeps)

lemma visit_one:
  assumes "td_valid l" "k < length (td_table l)" "P arg"
  shows "\<exists>l'. handler (fst (td_table l ! k)) (tl_data l ! k) arg
      = (True, tl_data l' ! k, visit (td_table l ! k) arg) \<and> l' = l\<lparr>tl_data := (tl_data l)[k := tl_data l' ! k]\<rparr>
    \<and> td_valid l' \<and> td_table l' = (td_table l)[k := visited (td_table l ! k)]"
proof -
  let ?e = "td_table l ! k"
  have d: "tl_data l ! k = Some (snd ?e)" "k < length (tl_data l)" using td_validD(1) [OF assms(1)] assms(2) by auto
  show ?thesis
    using td.put_replaces [OF assms(1,2), of "datum (fst ?e) (snd ?e)"] visits [OF assms(3)] d
    by (intro exI [of _ "td_put l k (datum (fst ?e) (snd ?e))"]) (simp add: td_put_def case_prod_unfold)
qed

lemma visit_from:
  assumes "td_valid l" "k < length (td_table l)" "P arg"
  shows "\<exists>l'. iterate_raw_loop handler True (fst (td_table l ! k)) l arg
      = Some (True, l', fold visit (drop (k + 1) (td_table l)) arg)
    \<and> td_valid l' \<and> td_table l' = take (k + 1) (td_table l) @ map visited (drop (k + 1) (td_table l))"
  using assms
proof (induction "length (td_table l) - 1 - k" arbitrary: k l arg)
  case 0
  then have n: "length (td_table l) = k + 1" by linarith
  obtain ds where r: "tl_repr l (map fst (td_table l)) (map Some ds)" using td_validD(1) [OF 0(2)] by blast
  from iterate_next [OF r td_validD(2) [OF 0(2)], of k] n show ?case
    using 0(2) by (subst iterate_raw_loop.simps) simp
next
  case (Suc m)
  then have k: "k + 1 < length (td_table l)" by linarith
  obtain ds where r: "tl_repr l (map fst (td_table l)) (map Some ds)" "tl_data l = map Some ds"
    "ds = map snd (td_table l)" using td_validD(1) [OF Suc(3)] by blast
  have it: "iterateIndex l (fst (td_table l ! k)) = Some (Some (fst (td_table l ! (k + 1)), k + 1), fst (td_table l ! (k + 1)))"
    using iterate_next [OF r(1) td_validD(2) [OF Suc(3)], of k] k by simp
  obtain l1 where l1: "handler (fst (td_table l ! (k + 1))) (tl_data l ! (k + 1)) arg
      = (True, tl_data l1 ! (k + 1), visit (td_table l ! (k + 1)) arg)"
    "l1 = l\<lparr>tl_data := (tl_data l)[k + 1 := tl_data l1 ! (k + 1)]\<rparr>" "td_valid l1"
    "td_table l1 = (td_table l)[k + 1 := visited (td_table l ! (k + 1))]" using visit_one [OF Suc(3) k Suc(5)] by blast
  have len: "k + 1 < length (tl_data l)" using k r(2,3) by simp
  have same: "fst (td_table l1 ! (k + 1)) = fst (td_table l ! (k + 1))" using l1(4) k by (simp add: case_prod_unfold)
  have "P (visit (td_table l ! (k + 1)) arg)" using keeps [OF Suc(5)] by (simp add: case_prod_unfold)
  moreover have "m = length (td_table l1) - 1 - (k + 1)" "k + 1 < length (td_table l1)" using Suc(2) l1(4) k by simp_all
  note Suc(1) [OF this(1) l1(3) this(2)]
  ultimately obtain l' where l': "iterate_raw_loop handler True (fst (td_table l ! (k + 1))) l1 (visit (td_table l ! (k + 1)) arg)
      = Some (True, l', fold visit (drop (k + 1 + 1) (td_table l1)) (visit (td_table l ! (k + 1)) arg))" "td_valid l'"
    "td_table l' = take (k + 1 + 1) (td_table l1) @ map visited (drop (k + 1 + 1) (td_table l1))"
    unfolding same by blast
  have "iterate_raw_loop handler True (fst (td_table l ! k)) l arg
      = iterate_raw_loop handler True (fst (td_table l ! (k + 1))) (l\<lparr>tl_data := (tl_data l)[k + 1 := tl_data l1 ! (k + 1)]\<rparr>)
          (visit (td_table l ! (k + 1)) arg)"
    using len by (subst iterate_raw_loop.simps) (simp add: it [simplified] l1(1) [simplified])
  then have "iterate_raw_loop handler True (fst (td_table l ! k)) l arg
      = Some (True, l', fold visit (drop (k + 1 + 1) (td_table l1)) (visit (td_table l ! (k + 1)) arg))"
    using l'(1) l1(2) by simp
  moreover have "fold visit (drop (k + 1 + 1) (td_table l1)) (visit (td_table l ! (k + 1)) arg) = fold visit (drop (k + 1) (td_table l)) arg"
    using k by (simp add: l1(4) Cons_nth_drop_Suc [symmetric])
  moreover have "take (k + 1 + 1) (td_table l1) @ map visited (drop (k + 1 + 1) (td_table l1))
      = take (k + 1) (td_table l) @ map visited (drop (k + 1) (td_table l))"
    unfolding l1(4) using k by (simp add: take_Suc_conv_app_nth Cons_nth_drop_Suc [symmetric])
  ultimately show ?case using l'(2,3) by simp
qed

lemma visits_all:
  assumes "td_valid l" "P arg"
  shows "\<exists>l'. TaskList_IterateWithDataRawFunction l handler arg = Some (True, l', fold visit (td_table l) arg)
    \<and> td_valid l' \<and> td_table l' = map visited (td_table l)"
proof (cases "td_table l = []")
  case True
  then show ?thesis
    using td_size [OF assms(1)] td_validD(3) [OF assms(1)] assms(1)
    by (simp add: TaskList_IterateWithDataRawFunction_def, subst iterate_raw_loop.simps) (simp add: iterateIndex_def)
next
  case False
  then have k: "0 < length (td_table l)" by simp
  obtain ds where r: "tl_repr l (map fst (td_table l)) (map Some ds)" "tl_data l = map Some ds"
    "ds = map snd (td_table l)" using td_validD(1) [OF assms(1)] by blast
  have it: "iterateIndex l 0 = Some (Some (fst (td_table l ! 0), 0), fst (td_table l ! 0))"
    using iterate_start [OF r(1)] False k by (simp del: length_greater_0_conv)
  obtain l1 where l1: "handler (fst (td_table l ! 0)) (tl_data l ! 0) arg = (True, tl_data l1 ! 0, visit (td_table l ! 0) arg)"
    "l1 = l\<lparr>tl_data := (tl_data l)[0 := tl_data l1 ! 0]\<rparr>" "td_valid l1"
    "td_table l1 = (td_table l)[0 := visited (td_table l ! 0)]" using visit_one [OF assms(1) k assms(2)] by blast
  have len: "0 < length (tl_data l)" using k r(2,3) by simp
  have same: "fst (td_table l1 ! 0) = fst (td_table l ! 0)" using l1(4) k by (simp add: case_prod_unfold)
  have "P (visit (td_table l ! 0) arg)" using keeps [OF assms(2)] by (simp add: case_prod_unfold)
  moreover have "0 < length (td_table l1)" using l1(4) k by simp
  ultimately obtain l' where l': "iterate_raw_loop handler True (fst (td_table l ! 0)) l1 (visit (td_table l ! 0) arg)
      = Some (True, l', fold visit (drop (0 + 1) (td_table l1)) (visit (td_table l ! 0) arg))" "td_valid l'"
    "td_table l' = take (0 + 1) (td_table l1) @ map visited (drop (0 + 1) (td_table l1))"
    using visit_from [OF l1(3), of 0] unfolding same by blast
  have "TaskList_IterateWithDataRawFunction l handler arg
      = iterate_raw_loop handler True (fst (td_table l ! 0)) (l\<lparr>tl_data := (tl_data l)[0 := tl_data l1 ! 0]\<rparr>) (visit (td_table l ! 0) arg)"
    using len td_validD(3) [OF assms(1)]
    by (simp add: TaskList_IterateWithDataRawFunction_def, subst iterate_raw_loop.simps) (simp add: it l1(1))
  then have "TaskList_IterateWithDataRawFunction l handler arg
      = Some (True, l', fold visit (drop (0 + 1) (td_table l1)) (visit (td_table l ! 0) arg))" using l'(1) l1(2) by simp
  moreover obtain e es where "td_table l = e # es" using False by (cases "td_table l") auto
  ultimately show ?thesis using l'(2,3) by (simp add: l1(4))
qed

end

end
