(* ===== verification/BatteryRegion.thy ===== *)
theory BatteryRegion
  imports TaskList DomainMessage
begin

text \<open>
  The battery region component, \<open>domains/power/battery_region\<close>, and the earbud's operating region tables,
  \<open>earbud/src/earbud_region_config.c\<close>. Once a second the component classifies the averaged battery
  voltage and temperature by a table of regions, one table while charging and one while
  discharging; the region gives the charge current, the battery state told to the clients and a
  charging timer. The state holds the component's data, the scheduler that carries its
  messages to itself and to its clients, and the calls made to the charger, the user interface and the
  handlers, oldest first; none of these change the component's data. A region table is its address with
  its entries. The readings (\<open>voltage\<close>, \<open>temperature\<close>, \<open>is_connected\<close>), the clock and the
  address of an allocated message are arguments. Accesses behind a table, calls through
  an unset handler structure and panics are \<open>None\<close>. \<open>LOW_BATTERY_CUSTOM_UI\<close> is defined, as in the header.
\<close>

section \<open>Data\<close>

type_synonym i8 = "8 word"

datatype charger_region_type = NORMAL_REGION | CRITICAL_REGION | SAFETY_REGION

datatype battery_region_state =
    battery_region_unknown | battery_region_unsafe | battery_region_critical | battery_region_ok

record charge_region =
  current :: u16
  voltage_min :: u16
  voltage_max :: u16
  voltage_hysteresis :: u8
  temp_min :: i8
  temp_max :: i8
  temp_hysteresis :: u8
  region_type :: charger_region_type
  charging_timer :: u16

type_synonym region_table = "nat \<times> charge_region list"

record battery_region_handlers =
  safety_handler :: "nat option"
  charging_timeout_handler :: "nat option"
  transition_handler :: "nat option"

datatype charge_mode = DISCHARGE_MODE | CHARGE_MODE

datatype region_call =
    Call_UpdateCurrent
  | Call_transition_handler nat u8 u8
  | Call_safety_handler nat u8 u8
  | Call_charging_timeout_handler nat
  | Call_DisableReasonAdd_TIMEOUT
  | Call_DisableReasonClear_TIMEOUT
  | Call_TonePlay
  | Call_InformContextChange battery_region_state
  | Call_RegisterUiProvider
  | Call_Charger_ClientRegister task

record battery_region_ctx =
  charge_table :: region_table
  charge_table_len :: u32
  discharge_table :: region_table
  discharge_table_len :: u32
  handler_funcs :: "battery_region_handlers option"

record battery_region_data =
  br_task :: task
  client_tasks_list :: task_list
  period :: u16
  br_table :: region_table
  region_table_len :: u8
  region :: u8
  br_state :: battery_region_state
  region_ctx :: battery_region_ctx
  charging_timer_timeout :: bool
  br_vm :: "battery_region_state vm"
  br_calls :: "region_call list"

definition BATTERY_REGION_UNDEFINED :: u8 where "BATTERY_REGION_UNDEFINED = 0xFF"
definition BATTERY_REGION_CLIENT_TASKS_LIST_INIT_CAPACITY :: nat where
  "BATTERY_REGION_CLIENT_TASKS_LIST_INIT_CAPACITY = 5"

definition batteryRegion_GetReadingPeriodMs :: u32 where "batteryRegion_GetReadingPeriodMs = D_SEC 1"

definition INTERNAL_MESSAGE_BASE :: message_id where "INTERNAL_MESSAGE_BASE = MESSAGE_BASE ''INTERNAL''"
definition MESSAGE_BATTERY_REGION_INTERNAL_CHARGING_TIMER :: message_id where
  "MESSAGE_BATTERY_REGION_INTERNAL_CHARGING_TIMER = INTERNAL_MESSAGE_BASE"
definition MESSAGE_BATTERY_REGION_INTERNAL_UPDATE_TRIGGER :: message_id where
  "MESSAGE_BATTERY_REGION_INTERNAL_UPDATE_TRIGGER = INTERNAL_MESSAGE_BASE + 1"
definition MESSAGE_BATTERY_INTERNAL_STATUS_UPDATE :: message_id where
  "MESSAGE_BATTERY_INTERNAL_STATUS_UPDATE = INTERNAL_MESSAGE_BASE + 2"
definition MESSAGE_BATTERY_REGION_UPDATE :: message_id where
  "MESSAGE_BATTERY_REGION_UPDATE = MESSAGE_BASE ''BATTERY_REGION'' + 1"
definition CHARGER_MESSAGE_DETACHED :: message_id where
  "CHARGER_MESSAGE_DETACHED = MESSAGE_BASE ''CHARGER'' + 1"

definition log_region_call :: "region_call \<Rightarrow> battery_region_data \<Rightarrow> battery_region_data" where
  "log_region_call c s = s\<lparr>br_calls := br_calls s @ [c]\<rparr>"

section \<open>Messages\<close>

text \<open>Sending to and cancelling for the component's own task.\<close>

definition send_self :: "u32 \<Rightarrow> message_id \<Rightarrow> u32 \<Rightarrow> battery_region_data \<Rightarrow> battery_region_data option" where
  "send_self now i delay s =
     map_option (\<lambda>q. s\<lparr>br_vm := q\<rparr>) (MessageSendLater now (br_task s) i None delay (br_vm s))"

definition cancel_self :: "message_id \<Rightarrow> battery_region_data \<Rightarrow> battery_region_data option" where
  "cancel_self i s = map_option (\<lambda>(_, q). s\<lparr>br_vm := q\<rparr>) (MessageCancelAll (br_task s) i (br_vm s))"

definition batteryRegion_ScheduleNextRegionUpdate ::
  "u32 \<Rightarrow> u32 \<Rightarrow> battery_region_data \<Rightarrow> battery_region_data option" where
  "batteryRegion_ScheduleNextRegionUpdate now delay s =
     send_self now MESSAGE_BATTERY_REGION_INTERNAL_UPDATE_TRIGGER delay s"

text \<open>The size passed is that of the pointer \<open>msg\<close>.\<close>

definition batteryRegion_ServiceClients ::
  "u32 \<Rightarrow> nat \<Rightarrow> battery_region_data \<Rightarrow> battery_region_data option" where
  "batteryRegion_ServiceClients now addr s =
     (if TaskList_Size (Some (client_tasks_list s)) \<noteq> 0 then
        map_option (\<lambda>q. s\<lparr>br_vm := q\<rparr>)
          (TaskList_MessageSendWithSize now (client_tasks_list s) MESSAGE_BATTERY_REGION_UPDATE
             (Some (addr, App (br_state s))) 4 (br_vm s))
      else Some s)"

section \<open>Classifying a reading\<close>

text \<open>The limits are computed in \<open>int\<close> and stored in 16 and 8 bits.\<close>

definition batteryRegion_VolTempInRegion ::
  "battery_region_data \<Rightarrow> u8 \<Rightarrow> u16 \<Rightarrow> i8 \<Rightarrow> bool \<Rightarrow> bool option" where
  "batteryRegion_VolTempInRegion s rgn voltage temperature apply_hysteresis =
     (if rgn = BATTERY_REGION_UNDEFINED then Some False
      else if unat rgn < length (snd (br_table s)) then
        (let r = snd (br_table s) ! unat rgn;
             vh = (if apply_hysteresis then uint (voltage_hysteresis r) else 0);
             th = (if apply_hysteresis then uint (temp_hysteresis r) else 0);
             v_min = word_of_int (uint (voltage_min r) - vh) :: u16;
             v_max = word_of_int (uint (voltage_max r) + vh) :: u16;
             t_min = word_of_int (sint (temp_min r) - th) :: i8;
             t_max = word_of_int (sint (temp_max r) + th) :: i8
         in Some ((uint voltage \<ge> sint v_min \<and> voltage \<le> v_max)
                  \<and> (sint temperature \<ge> sint t_min \<and> sint temperature \<le> sint t_max)))
      else None)"

fun find_region :: "battery_region_data \<Rightarrow> u16 \<Rightarrow> i8 \<Rightarrow> nat list \<Rightarrow> nat option option" where
  "find_region s voltage temperature [] = Some None"
| "find_region s voltage temperature (i # is) =
     do {
       b \<leftarrow> batteryRegion_VolTempInRegion s (of_nat i) voltage temperature False;
       if b then Some (Some i) else find_region s voltage temperature is
     }"

definition select_table :: "bool \<Rightarrow> battery_region_data \<Rightarrow> battery_region_data" where
  "select_table is_connected s =
     (let c = region_ctx s
      in if is_connected then
           (if fst (br_table s) \<noteq> fst (charge_table c)
            then s\<lparr>region := BATTERY_REGION_UNDEFINED, br_table := charge_table c,
                   region_table_len := ucast (charge_table_len c)\<rparr>
            else s)
         else
           (if fst (br_table s) \<noteq> fst (discharge_table c)
            then s\<lparr>region := BATTERY_REGION_UNDEFINED, br_table := discharge_table c,
                   region_table_len := ucast (discharge_table_len c)\<rparr>
            else s))"

definition state_of_type :: "charger_region_type \<Rightarrow> battery_region_state" where
  "state_of_type t =
     (case t of CRITICAL_REGION \<Rightarrow> battery_region_critical | SAFETY_REGION \<Rightarrow> battery_region_unsafe
      | NORMAL_REGION \<Rightarrow> battery_region_ok)"

section \<open>Changing the region\<close>

definition call_region_handlers :: "u8 \<Rightarrow> battery_region_data \<Rightarrow> battery_region_data option" where
  "call_region_handlers prev_region s =
     do {
       h \<leftarrow> handler_funcs (region_ctx s);
       let s1 = (case transition_handler h of
                   Some f \<Rightarrow> log_region_call (Call_transition_handler f prev_region (region s)) s
                 | None \<Rightarrow> s);
       Some (case safety_handler h of
               Some f \<Rightarrow> if br_state s1 = battery_region_unsafe
                         then log_region_call (Call_safety_handler f prev_region (region s1)) s1 else s1
             | None \<Rightarrow> s1)
     }"

definition enter_region :: "u32 \<Rightarrow> nat \<Rightarrow> bool \<Rightarrow> nat \<Rightarrow> battery_region_data \<Rightarrow> battery_region_data option" where
  "enter_region now addr is_connected i s =
     do {
       let new_region = snd (br_table s) ! i;
       s1 \<leftarrow> cancel_self MESSAGE_BATTERY_REGION_INTERNAL_CHARGING_TIMER s;
       let prev_region = region s1;
       let s2 = s1\<lparr>region := of_nat i, br_state := state_of_type (region_type new_region)\<rparr>;
       s3 \<leftarrow> (if \<not> is_connected \<and> br_state s2 = battery_region_ok
              then send_self now MESSAGE_BATTERY_INTERNAL_STATUS_UPDATE D_IMMEDIATE s2
              else cancel_self MESSAGE_BATTERY_INTERNAL_STATUS_UPDATE s2);
       let s4 = log_region_call Call_UpdateCurrent s3;
       s5 \<leftarrow> (if current new_region \<noteq> 0 \<and> charging_timer new_region \<noteq> 0
              then send_self now MESSAGE_BATTERY_REGION_INTERNAL_CHARGING_TIMER
                     (D_MIN (ucast (charging_timer new_region))) s4
              else Some s4);
       s6 \<leftarrow> call_region_handlers prev_region s5;
       batteryRegion_ServiceClients now addr s6
     }"

definition batteryRegion_UpdateRegion ::
  "u32 \<Rightarrow> nat \<Rightarrow> u16 \<Rightarrow> i8 \<Rightarrow> bool \<Rightarrow> battery_region_data \<Rightarrow> battery_region_data option" where
  "batteryRegion_UpdateRegion now addr voltage temperature is_connected s =
     do {
       let s1 = select_table is_connected s;
       same \<leftarrow> batteryRegion_VolTempInRegion s1 (region s1) voltage temperature True;
       if same then Some s1
       else do {
         found \<leftarrow> find_region s1 voltage temperature [0 ..< unat (region_table_len s1)];
         case found of
           Some i \<Rightarrow> enter_region now addr is_connected i s1
         | None \<Rightarrow> Some s1
       }
     }"

section \<open>Message handler and interface\<close>

definition batteryRegion_HandleMessage ::
  "u32 \<Rightarrow> nat \<Rightarrow> u16 \<Rightarrow> i8 \<Rightarrow> bool \<Rightarrow> message_id \<Rightarrow> battery_region_data \<Rightarrow> battery_region_data option" where
  "batteryRegion_HandleMessage now addr voltage temperature is_connected i s =
     (if i = MESSAGE_BATTERY_REGION_INTERNAL_CHARGING_TIMER then
        do {
          h \<leftarrow> handler_funcs (region_ctx s);
          let s1 = (case charging_timeout_handler h of
                      Some f \<Rightarrow> log_region_call (Call_charging_timeout_handler f) s | None \<Rightarrow> s);
          Some (log_region_call Call_DisableReasonAdd_TIMEOUT s1\<lparr>charging_timer_timeout := True\<rparr>)
        }
      else if i = MESSAGE_BATTERY_REGION_INTERNAL_UPDATE_TRIGGER then
        do {
          s1 \<leftarrow> batteryRegion_UpdateRegion now addr voltage temperature is_connected s;
          batteryRegion_ScheduleNextRegionUpdate now (ucast (period s1)) s1
        }
      else if i = MESSAGE_BATTERY_INTERNAL_STATUS_UPDATE then
        send_self now MESSAGE_BATTERY_INTERNAL_STATUS_UPDATE (D_SEC 20)
          (log_region_call (Call_InformContextChange (br_state s)) (log_region_call Call_TonePlay s))
      else if i = CHARGER_MESSAGE_DETACHED then
        do {
          s1 \<leftarrow> cancel_self MESSAGE_BATTERY_REGION_INTERNAL_CHARGING_TIMER s;
          Some (log_region_call Call_DisableReasonClear_TIMEOUT s1\<lparr>charging_timer_timeout := False\<rparr>)
        }
      else Some s)"

definition batteryRegion_GetCurrentContext :: "battery_region_data \<Rightarrow> battery_region_state" where
  "batteryRegion_GetCurrentContext s = br_state s"

text \<open>The data are zeroed: no table, region 0 before it is set undefined, state unknown.\<close>

definition BatteryRegion_Init :: "u32 \<Rightarrow> battery_region_data \<Rightarrow> battery_region_data option" where
  "BatteryRegion_Init now s =
     do {
       clients \<leftarrow> TaskList_InitialiseWithCapacity BATTERY_REGION_CLIENT_TASKS_LIST_INIT_CAPACITY;
       let s1 = s\<lparr>client_tasks_list := clients, period := ucast batteryRegion_GetReadingPeriodMs,
                  br_table := (0, []), region_table_len := 0, region := BATTERY_REGION_UNDEFINED,
                  br_state := battery_region_unknown\<rparr>;
       batteryRegion_ScheduleNextRegionUpdate now 0
         (log_region_call (Call_Charger_ClientRegister (br_task s)) (log_region_call Call_RegisterUiProvider s1))
     }"

definition BatteryRegion_SetChargeRegionConfigTable ::
  "charge_mode \<Rightarrow> region_table \<Rightarrow> u32 \<Rightarrow> battery_region_data \<Rightarrow> battery_region_data" where
  "BatteryRegion_SetChargeRegionConfigTable mode config_table config_size s =
     s\<lparr>region_ctx :=
         (case mode of
            CHARGE_MODE \<Rightarrow> (region_ctx s)\<lparr>charge_table := config_table, charge_table_len := config_size\<rparr>
          | DISCHARGE_MODE \<Rightarrow>
              (region_ctx s)\<lparr>discharge_table := config_table, discharge_table_len := config_size\<rparr>)\<rparr>"

definition BatteryRegion_SetHandlerStructure ::
  "battery_region_handlers option \<Rightarrow> battery_region_data \<Rightarrow> battery_region_data" where
  "BatteryRegion_SetHandlerStructure config_table s =
     s\<lparr>region_ctx := (region_ctx s)\<lparr>handler_funcs := config_table\<rparr>\<rparr>"

definition BatteryRegion_Register :: "task \<Rightarrow> battery_region_data \<Rightarrow> (bool \<times> battery_region_data) option" where
  "BatteryRegion_Register t s =
     map_option (\<lambda>(r, l). (r, s\<lparr>client_tasks_list := l\<rparr>)) (TaskList_AddTask (client_tasks_list s) t)"

definition BatteryRegion_Unregister :: "task \<Rightarrow> battery_region_data \<Rightarrow> battery_region_data option" where
  "BatteryRegion_Unregister t s =
     map_option (\<lambda>(_, l). s\<lparr>client_tasks_list := l\<rparr>) (TaskList_RemoveTask (client_tasks_list s) t)"

definition BatteryRegion_GetState :: "battery_region_data \<Rightarrow> battery_region_state" where
  "BatteryRegion_GetState s = br_state s"

definition BatteryRegion_GetCurrent :: "battery_region_data \<Rightarrow> u16 option" where
  "BatteryRegion_GetCurrent s =
     (if region s = BATTERY_REGION_UNDEFINED \<or> br_state s = battery_region_unknown then Some 0
      else if unat (region s) < length (snd (br_table s))
      then Some (current (snd (br_table s) ! unat (region s)))
      else None)"

section \<open>The earbud's tables\<close>

definition Vpre :: u16 where "Vpre = 2100"
definition appConfigChargerCriticalThresholdVoltage :: u16 where
  "appConfigChargerCriticalThresholdVoltage = 3300"
definition appConfigChargerPreFastThresholdVoltage :: u16 where
  "appConfigChargerPreFastThresholdVoltage = 3000"
definition appConfigChargerTerminationVoltage :: u16 where "appConfigChargerTerminationVoltage = 4200"
definition appConfigChargerPreCurrent :: u16 where "appConfigChargerPreCurrent = 20"

definition entry :: "u16 \<Rightarrow> u16 \<Rightarrow> u16 \<Rightarrow> u8 \<Rightarrow> i8 \<Rightarrow> i8 \<Rightarrow> u8 \<Rightarrow> charger_region_type \<Rightarrow> u16 \<Rightarrow> charge_region" where
  "entry c v_min v_max vh t_min t_max th ty timer =
     \<lparr>current = c, voltage_min = v_min, voltage_max = v_max, voltage_hysteresis = vh, temp_min = t_min,
      temp_max = t_max, temp_hysteresis = th, region_type = ty, charging_timer = timer\<rparr>"

text \<open>
  The build chooses \<open>BATTERY_REGION_HALF_CHARGE\<close> (\<open>half\<close>), the fast and trickle currents and
  \<open>CHARGING_TIMER_TIMEOUT\<close>.
\<close>

definition minHalfFastRegionTemp :: i8 where "minHalfFastRegionTemp = 0"
definition minFastRegionTemp :: "bool \<Rightarrow> i8" where "minFastRegionTemp half = (if half then 15 else 0)"
definition maxFastRegionTemp :: i8 where "maxFastRegionTemp = 45"

definition earbud_charge_mode_config_table :: "bool \<Rightarrow> u16 \<Rightarrow> u16 \<Rightarrow> u16 \<Rightarrow> charge_region list" where
  "earbud_charge_mode_config_table half FAST TRICKLE CHARGING_TIMER_TIMEOUT =
     (let Vfloat = appConfigChargerTerminationVoltage; Vcrit = appConfigChargerCriticalThresholdVoltage;
          Vfast = appConfigChargerPreFastThresholdVoltage; PRE = appConfigChargerPreCurrent;
          half_row = (\<lambda>v_min v_max ty timer. if half
                       then [entry (FAST div 2) v_min v_max 50 minHalfFastRegionTemp (minFastRegionTemp half) 1 ty timer]
                       else [])
      in
      [entry 0 Vfloat 4350 100 (-40) 0 1 NORMAL_REGION 0,
       entry 0 Vfloat 4350 100 0 45 1 NORMAL_REGION 0,
       entry 0 Vfloat 4350 100 45 85 1 NORMAL_REGION 0,
       entry 0 3600 Vfloat 50 (-40) 0 1 NORMAL_REGION 0] @
      half_row 3600 Vfloat NORMAL_REGION CHARGING_TIMER_TIMEOUT @
      [entry FAST 3600 Vfloat 50 (minFastRegionTemp half) maxFastRegionTemp 1 NORMAL_REGION CHARGING_TIMER_TIMEOUT,
       entry 0 3600 Vfloat 50 45 85 1 NORMAL_REGION 0,
       entry 0 Vcrit 3600 50 (-40) 0 1 NORMAL_REGION 0] @
      half_row Vcrit 3600 NORMAL_REGION CHARGING_TIMER_TIMEOUT @
      [entry FAST Vcrit 3600 50 (minFastRegionTemp half) maxFastRegionTemp 1 NORMAL_REGION CHARGING_TIMER_TIMEOUT,
       entry 0 Vcrit 3600 50 45 85 1 NORMAL_REGION 0,
       entry 0 Vfast Vcrit 50 (-40) 0 1 CRITICAL_REGION 0] @
      half_row Vfast Vcrit CRITICAL_REGION 0 @
      [entry FAST Vfast Vcrit 50 (minFastRegionTemp half) maxFastRegionTemp 1 CRITICAL_REGION 0,
       entry 0 Vfast Vcrit 50 45 85 1 CRITICAL_REGION 0,
       entry 0 Vpre Vfast 50 (-40) 0 1 CRITICAL_REGION 0,
       entry PRE Vpre Vfast 50 0 45 1 CRITICAL_REGION 0,
       entry 0 Vpre Vfast 50 45 85 1 CRITICAL_REGION 0,
       entry 0 0 Vpre 50 (-40) 0 1 CRITICAL_REGION 0,
       entry TRICKLE 0 Vpre 50 0 45 1 CRITICAL_REGION 0,
       entry 0 0 Vpre 50 45 85 1 CRITICAL_REGION 0])"

definition earbud_discharge_mode_config_table :: "charge_region list" where
  "earbud_discharge_mode_config_table =
     [entry 0 4200 4350 100 (-40) (-20) 1 NORMAL_REGION 0,
      entry 0 4200 4350 100 (-20) 60 1 NORMAL_REGION 0,
      entry 0 4200 4350 100 60 85 1 NORMAL_REGION 0,
      entry 0 3300 4200 50 (-40) (-20) 1 NORMAL_REGION 0,
      entry 0 3300 4200 50 (-20) 60 1 NORMAL_REGION 0,
      entry 0 3300 4200 50 60 85 1 NORMAL_REGION 0,
      entry 0 3000 3300 50 (-40) (-20) 1 CRITICAL_REGION 0,
      entry 0 3000 3300 50 (-20) 60 1 CRITICAL_REGION 0,
      entry 0 3000 3300 50 60 85 1 CRITICAL_REGION 0,
      entry 0 0 3000 50 (-40) (-20) 1 SAFETY_REGION 0,
      entry 0 0 3000 50 (-20) 60 1 SAFETY_REGION 0,
      entry 0 0 3000 50 60 85 1 SAFETY_REGION 0]"

definition earbud_region_handlers :: battery_region_handlers where
  "earbud_region_handlers =
     \<lparr>safety_handler = None, charging_timeout_handler = None, transition_handler = None\<rparr>"

section \<open>Specification of the classification\<close>

definition contains :: "bool \<Rightarrow> u16 \<Rightarrow> i8 \<Rightarrow> charge_region \<Rightarrow> bool" where
  "contains h v t r =
     (let vh = (if h then uint (voltage_hysteresis r) else 0); th = (if h then uint (temp_hysteresis r) else 0)
      in uint (voltage_min r) - vh \<le> uint v \<and> uint v \<le> uint (voltage_max r) + vh
         \<and> sint (temp_min r) - th \<le> sint t \<and> sint t \<le> sint (temp_max r) + th)"

text \<open>Limits that survive their storage.\<close>

definition limits_fit :: "charge_region \<Rightarrow> bool" where
  "limits_fit r = (uint (voltage_min r) < 2 ^ 15
     \<and> uint (voltage_max r) + uint (voltage_hysteresis r) < 2 ^ 16
     \<and> sint (temp_min r) - uint (temp_hysteresis r) \<ge> - 128
     \<and> sint (temp_max r) + uint (temp_hysteresis r) < 128)"

definition first_region :: "charge_region list \<Rightarrow> u16 \<Rightarrow> i8 \<Rightarrow> nat option" where
  "first_region tbl v t = find (\<lambda>i. contains False v t (tbl ! i)) [0 ..< length tbl]"

text \<open>The region after a reading: the same while the reading stays in its hysteresis, else the first that holds it.\<close>

definition next_region :: "charge_region list \<Rightarrow> nat option \<Rightarrow> u16 \<Rightarrow> i8 \<Rightarrow> nat option" where
  "next_region tbl prev v t =
     (case prev of
        Some i \<Rightarrow> if contains True v t (tbl ! i) then prev
                  else if first_region tbl v t = None then prev else first_region tbl v t
      | None \<Rightarrow> first_region tbl v t)"

definition region_of :: "battery_region_data \<Rightarrow> nat option" where
  "region_of s = (if region s = BATTERY_REGION_UNDEFINED then None else Some (unat (region s)))"

definition mode_table :: "bool \<Rightarrow> battery_region_data \<Rightarrow> region_table" where
  "mode_table is_connected s = (if is_connected then charge_table (region_ctx s) else discharge_table (region_ctx s))"

section \<open>Well-formed configurations\<close>

definition table_ok :: "region_table \<Rightarrow> u32 \<Rightarrow> bool" where
  "table_ok tbl n = (fst tbl \<noteq> 0 \<and> unat n = length (snd tbl) \<and> length (snd tbl) < 255
     \<and> (\<forall>r\<in>set (snd tbl). limits_fit r))"

definition config_ok :: "battery_region_data \<Rightarrow> bool" where
  "config_ok s = (let c = region_ctx s in
     table_ok (charge_table c) (charge_table_len c) \<and> table_ok (discharge_table c) (discharge_table_len c)
     \<and> fst (charge_table c) \<noteq> fst (discharge_table c) \<and> handler_funcs c \<noteq> None)"

definition clients_ok :: "battery_region_data \<Rightarrow> bool" where
  "clients_ok s = (tl_valid (client_tasks_list s) \<and> length (tl_members (client_tasks_list s)) \<le> 14
     \<and> br_task s \<notin> set (tl_members (client_tasks_list s)) \<and> br_task s \<noteq> INVALIDATED_TASK)"

text \<open>The current region belongs to the table in use and gives the state.\<close>

definition region_ok :: "battery_region_data \<Rightarrow> bool" where
  "region_ok s =
     ((region s = BATTERY_REGION_UNDEFINED \<and> br_table s = (0, [])
       \<or> (\<exists>c. br_table s = mode_table c s \<and> unat (region_table_len s) = length (snd (br_table s))))
      \<and> (\<forall>i. region_of s = Some i \<longrightarrow> i < length (snd (br_table s))
           \<and> br_state s = state_of_type (region_type (snd (br_table s) ! i))))"

lemma table_okD:
  "table_ok tbl n \<Longrightarrow> fst tbl \<noteq> 0" "table_ok tbl n \<Longrightarrow> unat n = length (snd tbl)"
  "table_ok tbl n \<Longrightarrow> length (snd tbl) < 255" "table_ok tbl n \<Longrightarrow> r \<in> set (snd tbl) \<Longrightarrow> limits_fit r"
  by (simp_all add: table_ok_def)

lemma mode_table_ok: "config_ok s \<Longrightarrow> \<exists>n. table_ok (mode_table c s) n"
  by (auto simp: config_ok_def mode_table_def Let_def)

lemma unat_ucast_len: "table_ok tbl n \<Longrightarrow> unat (ucast n :: u8) = length (snd tbl)"
  by (simp add: table_ok_def unsigned_ucast_eq take_bit_nat_eq_self)

lemma select_table_selects:
  fixes c :: bool
  assumes "config_ok s" "region_ok s"
  defines "s1 \<equiv> select_table c s"
  shows "br_table s1 = mode_table c s" "unat (region_table_len s1) = length (snd (mode_table c s))"
    "region_of s1 = (if br_table s = mode_table c s then region_of s else None)"
    "region_ctx s1 = region_ctx s" "client_tasks_list s1 = client_tasks_list s" "br_task s1 = br_task s"
    "br_vm s1 = br_vm s" "br_state s1 = br_state s" "charging_timer_timeout s1 = charging_timer_timeout s"
    "period s1 = period s"
proof -
  have ok: "table_ok (charge_table (region_ctx s)) (charge_table_len (region_ctx s))"
    "table_ok (discharge_table (region_ctx s)) (discharge_table_len (region_ctx s))"
    "fst (charge_table (region_ctx s)) \<noteq> fst (discharge_table (region_ctx s))"
    using assms(1) by (auto simp: config_ok_def Let_def)
  have nz: "charge_table (region_ctx s) \<noteq> (0, [])" "discharge_table (region_ctx s) \<noteq> (0, [])"
    using table_okD(1) [OF ok(1)] table_okD(1) [OF ok(2)] by (metis fst_conv)+
  have t: "br_table s = (0, []) \<or> br_table s = charge_table (region_ctx s) \<or> br_table s = discharge_table (region_ctx s)"
    using assms(2) by (auto simp: region_ok_def mode_table_def split: if_splits)
  have u: "br_table s = (0, []) \<longrightarrow> region s = BATTERY_REGION_UNDEFINED"
    "br_table s \<noteq> (0, []) \<longrightarrow> unat (region_table_len s) = length (snd (br_table s))"
    using assms(2) nz by (auto simp: region_ok_def mode_table_def split: if_splits)
  show "br_table s1 = mode_table c s" "unat (region_table_len s1) = length (snd (mode_table c s))"
    "region_of s1 = (if br_table s = mode_table c s then region_of s else None)"
    using t u nz table_okD(1) [OF ok(1)] table_okD(1) [OF ok(2)] ok(3) unat_ucast_len [OF ok(1)] unat_ucast_len [OF ok(2)]
    by (auto simp: s1_def select_table_def Let_def mode_table_def region_of_def)
qed (simp_all add: s1_def select_table_def Let_def)

section \<open>Classification\<close>

lemma sint_of_int_16: "- 32768 \<le> x \<Longrightarrow> x < 32768 \<Longrightarrow> sint (word_of_int x :: u16) = x"
  by (simp add: sint_sbintrunc' signed_take_bit_int_eq_self)

lemma sint_of_int_8: "- 128 \<le> x \<Longrightarrow> x < 128 \<Longrightarrow> sint (word_of_int x :: i8) = x"
  by (simp add: sint_sbintrunc' signed_take_bit_int_eq_self)

lemma uint_of_int_16: "0 \<le> x \<Longrightarrow> x < 65536 \<Longrightarrow> uint (word_of_int x :: u16) = x"
  by (simp add: uint_word_of_int)

lemma VolTemp_contains:
  assumes "rgn \<noteq> BATTERY_REGION_UNDEFINED" "unat rgn < length (snd (br_table s))"
    and fit: "limits_fit (snd (br_table s) ! unat rgn)"
  shows "batteryRegion_VolTempInRegion s rgn v t h = Some (contains h v t (snd (br_table s) ! unat rgn))"
proof -
  define r where "r = snd (br_table s) ! unat rgn"
  define vh where "vh = (if h then uint (voltage_hysteresis r) else 0)"
  define th where "th = (if h then uint (temp_hysteresis r) else 0)"
  have "uint (voltage_hysteresis r) < 2 ^ LENGTH(8)" "uint (temp_hysteresis r) < 2 ^ LENGTH(8)"
    by (rule unsigned_less)+
  then have h: "0 \<le> vh" "vh \<le> uint (voltage_hysteresis r)" "vh < 256" "0 \<le> th" "th \<le> uint (temp_hysteresis r)"
    by (simp_all add: vh_def th_def)
  have f: "uint (voltage_min r) < 32768" "uint (voltage_max r) + uint (voltage_hysteresis r) < 65536"
    "sint (temp_min r) - uint (temp_hysteresis r) \<ge> - 128" "sint (temp_max r) + uint (temp_hysteresis r) < 128"
    using fit by (simp_all add: limits_fit_def r_def)
  have b: "sint (temp_min r) < 128" "sint (temp_max r) \<ge> -128" "0 \<le> uint (voltage_min r)" "0 \<le> uint (voltage_max r)"
    using sint_lt [of "temp_min r"] sint_ge [of "temp_max r"] by simp_all
  have "sint (word_of_int (uint (voltage_min r) - vh) :: u16) = uint (voltage_min r) - vh"
    "sint (word_of_int (sint (temp_min r) - th) :: i8) = sint (temp_min r) - th"
    "sint (word_of_int (sint (temp_max r) + th) :: i8) = sint (temp_max r) + th"
    using h f b by (intro sint_of_int_16 sint_of_int_8; linarith)+
  moreover have "uint (word_of_int (uint (voltage_max r) + vh) :: u16) = uint (voltage_max r) + vh"
    using h f b by (intro uint_of_int_16; linarith)
  ultimately show ?thesis
    using assms(1,2)
    by (simp add: batteryRegion_VolTempInRegion_def contains_def Let_def word_le_def r_def [symmetric]
        vh_def [symmetric] th_def [symmetric])
qed

lemma of_nat_region:
  assumes "i < 255"
  shows "unat (of_nat i :: u8) = i" "(of_nat i :: u8) \<noteq> BATTERY_REGION_UNDEFINED"
proof -
  show u: "unat (of_nat i :: u8) = i" using assms by (simp add: unat_of_nat take_bit_nat_eq_self)
  show "(of_nat i :: u8) \<noteq> BATTERY_REGION_UNDEFINED"
    using u assms by (auto simp: BATTERY_REGION_UNDEFINED_def)
qed

lemma find_region_first:
  assumes "table_ok (br_table s) n" "set is \<subseteq> {0 ..< length (snd (br_table s))}"
  shows "find_region s v t is = Some (find (\<lambda>i. contains False v t (snd (br_table s) ! i)) is)"
  using assms(2)
proof (induction "is")
  case (Cons i "is")
  then have i: "i < 255" "i < length (snd (br_table s))" using table_okD(3) [OF assms(1)] by auto
  have "batteryRegion_VolTempInRegion s (of_nat i) v t False = Some (contains False v t (snd (br_table s) ! i))"
    using VolTemp_contains [of "of_nat i" s v t False] of_nat_region [OF i(1)] i(2) table_okD(4) [OF assms(1)] by simp
  then show ?case using Cons by simp
qed simp

lemma first_region_SomeD:
  "first_region tbl v t = Some i \<Longrightarrow> i < length tbl \<and> contains False v t (tbl ! i)"
  using find_range_SomeD by (fastforce simp: first_region_def)

lemma UpdateRegion_eq:
  fixes c :: bool
  assumes "config_ok s" "region_ok s"
  defines "s1 \<equiv> select_table c s"
  shows "batteryRegion_UpdateRegion now addr v t c s =
    (case region_of s1 of
       Some i \<Rightarrow> if contains True v t (snd (br_table s1) ! i) then Some s1
         else (case first_region (snd (br_table s1)) v t of Some j \<Rightarrow> enter_region now addr c j s1 | None \<Rightarrow> Some s1)
     | None \<Rightarrow> (case first_region (snd (br_table s1)) v t of Some j \<Rightarrow> enter_region now addr c j s1 | None \<Rightarrow> Some s1))"
proof -
  note s1 = select_table_selects [OF assms(1,2), of c, folded s1_def]
  obtain n where ok: "table_ok (br_table s1) n" using mode_table_ok [OF assms(1)] s1(1) by auto
  have find: "find_region s1 v t [0 ..< unat (region_table_len s1)] = Some (first_region (snd (br_table s1)) v t)"
    using find_region_first [OF ok, of "[0 ..< length (snd (br_table s1))]"] s1(1,2) by (simp add: first_region_def)
  have "batteryRegion_VolTempInRegion s1 (region s1) v t True
      = Some (case region_of s1 of Some i \<Rightarrow> contains True v t (snd (br_table s1) ! i) | None \<Rightarrow> False)"
  proof (cases "region_of s1")
    case None
    then show ?thesis by (simp add: region_of_def batteryRegion_VolTempInRegion_def split: if_splits)
  next
    case (Some i)
    then have i: "i = unat (region s1)" "region s1 \<noteq> BATTERY_REGION_UNDEFINED" by (auto simp: region_of_def split: if_splits)
    have "i < length (snd (br_table s1))"
      using Some s1(1,3) assms(2) by (auto simp: region_ok_def split: if_splits)
    then show ?thesis using VolTemp_contains [OF i(2)] i table_okD(4) [OF ok] Some by simp
  qed
  then show ?thesis
    by (simp add: batteryRegion_UpdateRegion_def s1_def [symmetric] find Let_def split: option.splits)
qed

section \<open>Messages of the component\<close>

definition own_messages :: "battery_region_data \<Rightarrow> message_id multiset" where
  "own_messages s = posted_ids (br_task s) (br_vm s)"

lemma region_message_ids:
  "MESSAGE_BATTERY_REGION_INTERNAL_CHARGING_TIMER = 0" "MESSAGE_BATTERY_REGION_INTERNAL_UPDATE_TRIGGER = 1"
  "MESSAGE_BATTERY_INTERNAL_STATUS_UPDATE = 2" "MESSAGE_BATTERY_REGION_UPDATE = 0xB01" "CHARGER_MESSAGE_DETACHED = 0x481"
  by code_simp+

lemma not_combinable_ids: "\<not> combinable 0" "\<not> combinable 1" "\<not> combinable 2"
  by (simp_all add: combinable_def system_message_ids)

lemma send_self_posts:
  assumes "\<not> combinable i" "br_task s \<noteq> INVALIDATED_TASK"
  shows "\<exists>q. send_self now i d s = Some (s\<lparr>br_vm := q\<rparr>) \<and> own_messages (s\<lparr>br_vm := q\<rparr>) = add_mset i (own_messages s)"
proof -
  have e: "mb_send (br_task s) i (now, None, d, None) (br_vm s) = MessageSendLater now (br_task s) i None d (br_vm s)"
    by (simp add: mb_send_def)
  obtain q where "mb_send (br_task s) i (now, None, d, None) (br_vm s) = Some q"
    using mq.send_defined [of "br_task s" i] assms by blast
  then show ?thesis
    using mq.send_self [of "br_task s" i "(now, None, d, None)" "br_vm s" q] assms
    by (intro exI [of _ q]) (simp add: send_self_def own_messages_def e)
qed

lemma cancel_self_cancels:
  assumes "br_task s \<noteq> INVALIDATED_TASK"
  shows "\<exists>q. cancel_self i s = Some (s\<lparr>br_vm := q\<rparr>)
    \<and> own_messages (s\<lparr>br_vm := q\<rparr>) = filter_mset (\<lambda>j. j \<noteq> i) (own_messages s)"
  using cancel_posted_ids [of "br_task s" "br_task s" i "br_vm s"] assms
  by (auto simp: cancel_self_def own_messages_def)

lemma send_or_cancel_self:
  assumes "br_task s \<noteq> INVALIDATED_TASK" "\<not> combinable i"
  shows "\<exists>q. (if b then send_self now i d s else cancel_self i s) = Some (s\<lparr>br_vm := q\<rparr>)
    \<and> own_messages (s\<lparr>br_vm := q\<rparr>)
      = (if b then add_mset i (own_messages s) else filter_mset (\<lambda>j. j \<noteq> i) (own_messages s))"
  using send_self_posts [OF assms(2,1)] cancel_self_cancels [OF assms(1)] by (cases b) simp_all

lemma send_or_keep_self:
  assumes "br_task s \<noteq> INVALIDATED_TASK" "\<not> combinable i"
  shows "\<exists>q. (if b then send_self now i d s else Some s) = Some (s\<lparr>br_vm := q\<rparr>)
    \<and> own_messages (s\<lparr>br_vm := q\<rparr>) = (if b then add_mset i (own_messages s) else own_messages s)"
proof (cases b)
  case False
  then show ?thesis by (intro exI [of _ "br_vm s"]) simp
qed (use send_self_posts [OF assms(2,1)] in simp)

lemma ServiceClients_done:
  assumes "clients_ok s"
  shows "\<exists>q. batteryRegion_ServiceClients now addr s = Some (s\<lparr>br_vm := q\<rparr>)
    \<and> own_messages (s\<lparr>br_vm := q\<rparr>) = own_messages s"
proof (cases "TaskList_Size (Some (client_tasks_list s)) \<noteq> 0")
  case True
  obtain ds where "tl_repr (client_tasks_list s) (tl_members (client_tasks_list s)) ds"
    "tasks_ok (tl_members (client_tasks_list s))"
    using assms by (auto simp: clients_ok_def tl_valid_def)
  from message_send_posted [OF this, of 4 "Some (addr, App (br_state s))" now MESSAGE_BATTERY_REGION_UPDATE D_IMMEDIATE
      "br_vm s" "br_task s"]
  show ?thesis
    using True assms
    by (auto simp: batteryRegion_ServiceClients_def TaskList_MessageSendWithSize_def own_messages_def clients_ok_def)
next
  case False
  then show ?thesis by (intro exI [of _ "br_vm s"]) (simp add: batteryRegion_ServiceClients_def)
qed

text \<open>What a change of region leaves alone.\<close>

definition same_setup :: "battery_region_data \<Rightarrow> battery_region_data \<Rightarrow> bool" where
  "same_setup s s' = (br_task s' = br_task s \<and> client_tasks_list s' = client_tasks_list s \<and> period s' = period s
     \<and> region_ctx s' = region_ctx s \<and> charging_timer_timeout s' = charging_timer_timeout s)"

lemma same_setup_ok:
  "same_setup s s' \<Longrightarrow> config_ok s' = config_ok s" "same_setup s s' \<Longrightarrow> clients_ok s' = clients_ok s"
  "same_setup s s' \<Longrightarrow> mode_table c s' = mode_table c s"
  by (simp_all add: same_setup_def config_ok_def clients_ok_def mode_table_def)

lemma call_region_handlers_done:
  "handler_funcs (region_ctx s) \<noteq> None \<Longrightarrow> \<exists>cs. call_region_handlers p s = Some (s\<lparr>br_calls := cs\<rparr>)"
proof -
  assume "handler_funcs (region_ctx s) \<noteq> None"
  then obtain h where h: "handler_funcs (region_ctx s) = Some h" by auto
  have "call_region_handlers p s = Some (s\<lparr>br_calls := br_calls s
      @ (case transition_handler h of Some f \<Rightarrow> [Call_transition_handler f p (region s)] | None \<Rightarrow> [])
      @ (case safety_handler h of Some f \<Rightarrow> if br_state s = battery_region_unsafe
           then [Call_safety_handler f p (region s)] else [] | None \<Rightarrow> [])\<rparr>)"
    by (simp add: call_region_handlers_def h log_region_call_def Let_def split: option.split)
  then show ?thesis by blast
qed

text \<open>The messages the component has posted to itself after a change to region \<open>r\<close>.\<close>

definition messages_in :: "bool \<Rightarrow> charge_region \<Rightarrow> message_id multiset \<Rightarrow> message_id multiset" where
  "messages_in c r m =
     (let m1 = filter_mset (\<lambda>j. j \<noteq> MESSAGE_BATTERY_REGION_INTERNAL_CHARGING_TIMER) m;
          m2 = (if \<not> c \<and> region_type r = NORMAL_REGION then add_mset MESSAGE_BATTERY_INTERNAL_STATUS_UPDATE m1
                else filter_mset (\<lambda>j. j \<noteq> MESSAGE_BATTERY_INTERNAL_STATUS_UPDATE) m1)
      in if current r \<noteq> 0 \<and> charging_timer r \<noteq> 0
         then add_mset MESSAGE_BATTERY_REGION_INTERNAL_CHARGING_TIMER m2 else m2)"

lemma enter_region_done:
  assumes "clients_ok s" "handler_funcs (region_ctx s) \<noteq> None"
  shows "\<exists>s'. enter_region now addr c i s = Some s' \<and> region s' = of_nat i \<and> br_table s' = br_table s
    \<and> region_table_len s' = region_table_len s
    \<and> br_state s' = state_of_type (region_type (snd (br_table s) ! i))
    \<and> own_messages s' = messages_in c (snd (br_table s) ! i) (own_messages s) \<and> same_setup s s'"
proof -
  let ?r = "snd (br_table s) ! i"
  have t: "br_task s \<noteq> INVALIDATED_TASK" using assms(1) by (simp add: clients_ok_def)
  have ok_iff: "(state_of_type (region_type ?r) = battery_region_ok) = (region_type ?r = NORMAL_REGION)"
    by (simp add: state_of_type_def split: charger_region_type.splits)
  obtain q1 where q1: "cancel_self MESSAGE_BATTERY_REGION_INTERNAL_CHARGING_TIMER s = Some (s\<lparr>br_vm := q1\<rparr>)"
    "own_messages (s\<lparr>br_vm := q1\<rparr>) = filter_mset (\<lambda>j. j \<noteq> MESSAGE_BATTERY_REGION_INTERNAL_CHARGING_TIMER) (own_messages s)"
    using cancel_self_cancels [OF t] by blast
  define s2 where "s2 = s\<lparr>br_vm := q1, region := of_nat i, br_state := state_of_type (region_type ?r)\<rparr>"
  have own_upd: "own_messages (x\<lparr>region := a, br_state := b\<rparr>) = own_messages x"
    "own_messages (log_region_call k x) = own_messages x" "own_messages (x\<lparr>br_calls := cs\<rparr>) = own_messages x" for x a b k cs
    by (simp_all add: own_messages_def log_region_call_def)
  have s2: "own_messages s2 = filter_mset (\<lambda>j. j \<noteq> MESSAGE_BATTERY_REGION_INTERNAL_CHARGING_TIMER) (own_messages s)"
    "br_task s2 = br_task s" "br_state s2 = state_of_type (region_type ?r)"
    using q1(2) own_upd(1) [where x = "s\<lparr>br_vm := q1\<rparr>"] by (simp_all add: s2_def)
  obtain q3 where q3: "(if \<not> c \<and> br_state s2 = battery_region_ok
      then send_self now MESSAGE_BATTERY_INTERNAL_STATUS_UPDATE D_IMMEDIATE s2
      else cancel_self MESSAGE_BATTERY_INTERNAL_STATUS_UPDATE s2) = Some (s2\<lparr>br_vm := q3\<rparr>)"
    "own_messages (s2\<lparr>br_vm := q3\<rparr>) = (if \<not> c \<and> region_type ?r = NORMAL_REGION
      then add_mset MESSAGE_BATTERY_INTERNAL_STATUS_UPDATE (own_messages s2)
      else filter_mset (\<lambda>j. j \<noteq> MESSAGE_BATTERY_INTERNAL_STATUS_UPDATE) (own_messages s2))"
    using send_or_cancel_self [of s2 MESSAGE_BATTERY_INTERNAL_STATUS_UPDATE "\<not> c \<and> br_state s2 = battery_region_ok"
        now D_IMMEDIATE] t s2(2) not_combinable_ids(3)
    unfolding region_message_ids s2(3) ok_iff by auto
  define s4 where "s4 = log_region_call Call_UpdateCurrent (s2\<lparr>br_vm := q3\<rparr>)"
  have s4: "own_messages s4 = own_messages (s2\<lparr>br_vm := q3\<rparr>)" "br_task s4 = br_task s"
    by (simp_all add: s4_def own_upd) (simp add: log_region_call_def s2_def)
  obtain q5 where q5: "(if current ?r \<noteq> 0 \<and> charging_timer ?r \<noteq> 0
      then send_self now MESSAGE_BATTERY_REGION_INTERNAL_CHARGING_TIMER (D_MIN (ucast (charging_timer ?r))) s4
      else Some s4) = Some (s4\<lparr>br_vm := q5\<rparr>)"
    "own_messages (s4\<lparr>br_vm := q5\<rparr>) = (if current ?r \<noteq> 0 \<and> charging_timer ?r \<noteq> 0
      then add_mset MESSAGE_BATTERY_REGION_INTERNAL_CHARGING_TIMER (own_messages s4) else own_messages s4)"
    using send_or_keep_self [of s4 MESSAGE_BATTERY_REGION_INTERNAL_CHARGING_TIMER
        "current ?r \<noteq> 0 \<and> charging_timer ?r \<noteq> 0" now "D_MIN (ucast (charging_timer ?r))"] t s4(2)
      not_combinable_ids(1) unfolding region_message_ids by auto
  let ?s5 = "s4\<lparr>br_vm := q5\<rparr>"
  obtain cs where cs: "call_region_handlers (region s) ?s5 = Some (?s5\<lparr>br_calls := cs\<rparr>)"
    using call_region_handlers_done [of ?s5] assms(2) by (auto simp: s4_def log_region_call_def s2_def)
  let ?s6 = "?s5\<lparr>br_calls := cs\<rparr>"
  have "clients_ok ?s6" using assms(1) by (simp add: clients_ok_def s4_def log_region_call_def s2_def)
  then obtain q7 where q7: "batteryRegion_ServiceClients now addr ?s6 = Some (?s6\<lparr>br_vm := q7\<rparr>)"
    "own_messages (?s6\<lparr>br_vm := q7\<rparr>) = own_messages ?s6"
    using ServiceClients_done by blast
  have "enter_region now addr c i s = Some (?s6\<lparr>br_vm := q7\<rparr>)"
  proof -
    have "region (s\<lparr>br_vm := q1\<rparr>) = region s" by simp
    then show ?thesis
      by (simp only: enter_region_def Let_def q1(1) bind.bind_lunit s2_def [symmetric] q3(1) s4_def [symmetric]
          q5(1) cs q7(1))
  qed
  moreover have "own_messages (?s6\<lparr>br_vm := q7\<rparr>) = messages_in c ?r (own_messages s)"
    unfolding q7(2) own_upd(3) q5(2) s4(1) q3(2) s2(1) messages_in_def by (simp add: Let_def)
  moreover have "same_setup s (?s6\<lparr>br_vm := q7\<rparr>)" "region (?s6\<lparr>br_vm := q7\<rparr>) = of_nat i"
    "br_table (?s6\<lparr>br_vm := q7\<rparr>) = br_table s" "region_table_len (?s6\<lparr>br_vm := q7\<rparr>) = region_table_len s"
    "br_state (?s6\<lparr>br_vm := q7\<rparr>) = state_of_type (region_type ?r)"
    by (simp_all add: s4_def log_region_call_def s2_def same_setup_def)
  ultimately show ?thesis by blast
qed

lemma region_of_entered: "region s = of_nat i \<Longrightarrow> i < 255 \<Longrightarrow> region_of s = Some i"
  using of_nat_region [of i] by (simp add: region_of_def)

text \<open>One update: the region follows \<open>next_region\<close>, and the messages change only with the region.\<close>

lemma UpdateRegion_done:
  fixes c :: bool
  assumes "config_ok s" "region_ok s" "clients_ok s"
  defines "tbl \<equiv> snd (mode_table c s)"
    and "prev \<equiv> (if br_table s = mode_table c s then region_of s else None)"
  shows "\<exists>s'. batteryRegion_UpdateRegion now addr v t c s = Some s' \<and> br_table s' = mode_table c s
    \<and> region_of s' = next_region tbl prev v t \<and> region_ok s' \<and> same_setup s s'
    \<and> (\<forall>i. region_of s' = Some i \<longrightarrow> br_state s' = state_of_type (region_type (tbl ! i)))
    \<and> (own_messages s' = own_messages s
       \<or> (\<exists>i<length tbl. region_of s' = Some i \<and> own_messages s' = messages_in c (tbl ! i) (own_messages s)))"
proof -
  define s1 where "s1 = select_table c s"
  note s1 = select_table_selects [OF assms(1,2), of c, folded s1_def]
  obtain n where tok: "table_ok (mode_table c s) n" using mode_table_ok [OF assms(1)] by blast
  have same: "same_setup s s1" using s1 by (simp add: same_setup_def)
  have own: "own_messages s1 = own_messages s" using s1 by (simp add: own_messages_def)
  have st: "br_state s1 = state_of_type (region_type (tbl ! i)) \<and> i < length tbl" if "region_of s1 = Some i" for i
    using assms(2) that s1(3,8) by (auto simp: region_ok_def tbl_def split: if_splits)
  have ok1: "region_ok s1"
    unfolding region_ok_def
  proof (intro conjI allI impI disjI2 exI [of _ c])
    show "br_table s1 = mode_table c s1" using s1(1,4) by (simp add: mode_table_def)
  qed (use st s1(1,2) in \<open>auto simp: tbl_def\<close>)
  have prev: "region_of s1 = prev" using s1(3) by (simp add: prev_def)
  have enter: "\<exists>s'. enter_region now addr c j s1 = Some s' \<and> br_table s' = mode_table c s
    \<and> region_of s' = Some j \<and> region_ok s' \<and> same_setup s s' \<and> br_state s' = state_of_type (region_type (tbl ! j))
    \<and> own_messages s' = messages_in c (tbl ! j) (own_messages s)" if j: "j < length tbl" for j
  proof -
    have j2: "j < 255" using table_okD(3) [OF tok] j by (simp add: tbl_def)
    have "clients_ok s1" "handler_funcs (region_ctx s1) \<noteq> None"
      using assms(1,3) s1 by (simp_all add: clients_ok_def config_ok_def Let_def)
    from enter_region_done [OF this, of now addr c j] obtain s' where s': "enter_region now addr c j s1 = Some s'"
      "region s' = of_nat j" "br_table s' = br_table s1" "region_table_len s' = region_table_len s1"
      "br_state s' = state_of_type (region_type (tbl ! j))" "own_messages s' = messages_in c (tbl ! j) (own_messages s)"
      "same_setup s1 s'"
      unfolding own s1(1) tbl_def by blast
    have "region_of s' = Some j" using region_of_entered [OF s'(2) j2] .
    moreover have "same_setup s s'" using same s'(7) by (simp add: same_setup_def)
    moreover have "region_ok s'"
      unfolding region_ok_def
    proof (intro conjI allI impI disjI2 exI [of _ c])
      show "br_table s' = mode_table c s'" using s'(3) s1(1) same_setup_ok(3) [OF \<open>same_setup s s'\<close>] by simp
    qed (use s' s1(1,2) j \<open>region_of s' = Some j\<close> in \<open>auto simp: tbl_def\<close>)
    ultimately show ?thesis using s' s1(1) by metis
  qed
  have keep: "batteryRegion_UpdateRegion now addr v t c s = Some s1 \<Longrightarrow> next_region tbl prev v t = prev \<Longrightarrow> ?thesis"
    by (intro exI [of _ s1]) (simp add: s1(1) ok1 same own st prev)
  have upd: "batteryRegion_UpdateRegion now addr v t c s = enter_region now addr c j s1
      \<Longrightarrow> next_region tbl prev v t = Some j \<Longrightarrow> j < length tbl \<Longrightarrow> ?thesis" for j
    using enter [of j] by auto
  have U: "batteryRegion_UpdateRegion now addr v t c s =
    (case prev of
       Some i \<Rightarrow> if contains True v t (tbl ! i) then Some s1
         else (case first_region tbl v t of Some j \<Rightarrow> enter_region now addr c j s1 | None \<Rightarrow> Some s1)
     | None \<Rightarrow> (case first_region tbl v t of Some j \<Rightarrow> enter_region now addr c j s1 | None \<Rightarrow> Some s1))"
    unfolding UpdateRegion_eq [OF assms(1,2)] s1_def [symmetric] prev s1(1) tbl_def [symmetric] by simp
  show ?thesis
  proof (cases "first_region tbl v t")
    case None
    then show ?thesis by (intro keep) (simp_all add: U next_region_def split: option.splits)
  next
    case (Some j)
    then have j: "j < length tbl" using first_region_SomeD by blast
    show ?thesis
    proof (cases "\<exists>i. prev = Some i \<and> contains True v t (tbl ! i)")
      case True
      then show ?thesis by (intro keep) (auto simp: U next_region_def)
    next
      case False
      then show ?thesis by (intro upd [OF _ _ j]) (auto simp: U next_region_def Some split: option.splits)
    qed
  qed
qed

section \<open>The earbud's tables cover the battery's range\<close>

definition earbud_configured :: "bool \<Rightarrow> u16 \<Rightarrow> u16 \<Rightarrow> u16 \<Rightarrow> battery_region_data \<Rightarrow> bool" where
  "earbud_configured half FAST TRICKLE timeout s =
     (let c = region_ctx s; ct = earbud_charge_mode_config_table half FAST TRICKLE timeout;
          dt = earbud_discharge_mode_config_table
      in snd (charge_table c) = ct \<and> charge_table_len c = of_nat (length ct)
         \<and> snd (discharge_table c) = dt \<and> discharge_table_len c = of_nat (length dt)
         \<and> fst (charge_table c) \<noteq> 0 \<and> fst (discharge_table c) \<noteq> 0 \<and> fst (charge_table c) \<noteq> fst (discharge_table c)
         \<and> handler_funcs c = Some earbud_region_handlers)"

lemmas earbud_table_defs =
  earbud_charge_mode_config_table_def earbud_discharge_mode_config_table_def entry_def Vpre_def
  appConfigChargerCriticalThresholdVoltage_def appConfigChargerPreFastThresholdVoltage_def
  appConfigChargerTerminationVoltage_def appConfigChargerPreCurrent_def minHalfFastRegionTemp_def
  minFastRegionTemp_def maxFastRegionTemp_def

definition in_battery_range :: "u16 \<Rightarrow> i8 \<Rightarrow> bool" where
  "in_battery_range v t = (uint v \<le> 4350 \<and> - 40 \<le> sint t \<and> sint t \<le> 85)"

lemma earbud_limits_fit:
  "r \<in> set (earbud_charge_mode_config_table half FAST TRICKLE timeout) \<Longrightarrow> limits_fit r"
  "r \<in> set earbud_discharge_mode_config_table \<Longrightarrow> limits_fit r"
  by (auto simp: earbud_table_defs Let_def limits_fit_def split: if_splits)

lemma earbud_config_ok: "earbud_configured half FAST TRICKLE timeout s \<Longrightarrow> config_ok s"
proof -
  assume e: "earbud_configured half FAST TRICKLE timeout s"
  have "length (earbud_charge_mode_config_table half FAST TRICKLE timeout) < 22"
    "length earbud_discharge_mode_config_table = 12"
    by (simp_all add: earbud_table_defs Let_def)
  then show ?thesis
    using e earbud_limits_fit
    by (auto simp: earbud_configured_def config_ok_def table_ok_def Let_def unat_of_nat take_bit_nat_eq_self)
qed

lemma contains_mono: "contains False v t r \<Longrightarrow> contains True v t r"
proof -
  have "0 \<le> uint (voltage_hysteresis r)" "0 \<le> uint (temp_hysteresis r)" by simp_all
  then show "contains False v t r \<Longrightarrow> contains True v t r" unfolding contains_def Let_def if_True if_False by linarith
qed

lemma next_region_contains:
  assumes "\<And>i. prev = Some i \<Longrightarrow> i < length tbl" "\<exists>r\<in>set tbl. contains False v t r"
  shows "\<exists>i<length tbl. next_region tbl prev v t = Some i \<and> contains True v t (tbl ! i)"
proof -
  obtain j where j: "first_region tbl v t = Some j"
    using assms(2) by (cases "first_region tbl v t") (auto simp: first_region_def find_None_iff in_set_conv_nth)
  then have "j < length tbl" "contains True v t (tbl ! j)"
    using first_region_SomeD [OF j] contains_mono by auto
  then show ?thesis
    using assms(1) j by (cases prev) (auto simp: next_region_def)
qed

lemma earbud_discharge_covers:
  assumes "in_battery_range v t"
  shows "\<exists>r\<in>set earbud_discharge_mode_config_table. contains False v t r"
proof -
  have "0 \<le> uint v" by simp
  then show ?thesis
    using assms
    by (cases "uint v \<le> 3000"; cases "uint v \<le> 3300"; cases "uint v \<le> 4200"; cases "sint t \<le> -20"; cases "sint t \<le> 60")
      (simp_all add: earbud_discharge_mode_config_table_def entry_def contains_def in_battery_range_def)
qed

lemma earbud_charge_covers:
  assumes "in_battery_range v t"
  shows "\<exists>r\<in>set (earbud_charge_mode_config_table half FAST TRICKLE timeout). contains False v t r"
proof -
  have "0 \<le> uint v" by simp
  then have "uint v \<le> 2100 \<or> (2100 \<le> uint v \<and> uint v \<le> 3000) \<or> (3000 \<le> uint v \<and> uint v \<le> 3300)
      \<or> (3300 \<le> uint v \<and> uint v \<le> 3600) \<or> (3600 \<le> uint v \<and> uint v \<le> 4200) \<or> (4200 \<le> uint v \<and> uint v \<le> 4350)"
    "(-40 \<le> sint t \<and> sint t \<le> 0) \<or> (0 \<le> sint t \<and> sint t \<le> 15) \<or> (15 \<le> sint t \<and> sint t \<le> 45)
      \<or> (45 \<le> sint t \<and> sint t \<le> 85)"
    using assms by (auto simp: in_battery_range_def)
  then show ?thesis
    by (elim disjE) (simp_all add: earbud_table_defs Let_def contains_def)
qed

lemma earbud_discharge_states:
  "r \<in> set earbud_discharge_mode_config_table \<Longrightarrow> contains True v t r \<Longrightarrow>
    (region_type r = SAFETY_REGION \<longrightarrow> uint v \<le> 3050) \<and> (region_type r = NORMAL_REGION \<longrightarrow> uint v \<ge> 3250)
    \<and> (region_type r = CRITICAL_REGION \<longrightarrow> 2950 \<le> uint v \<and> uint v \<le> 3350)"
  by (auto simp: earbud_discharge_mode_config_table_def entry_def contains_def)

lemma earbud_charge_current:
  "r \<in> set (earbud_charge_mode_config_table half FAST TRICKLE timeout) \<Longrightarrow> contains True v t r \<Longrightarrow> current r \<noteq> 0 \<Longrightarrow>
    uint v \<le> 4250 \<and> - 1 \<le> sint t \<and> sint t \<le> 46 \<and> current r \<in> {FAST, FAST div 2, 20, TRICKLE}
    \<and> (half \<and> sint t < 14 \<longrightarrow> current r \<in> {FAST div 2, 20, TRICKLE})
    \<and> (current r = TRICKLE \<or> uint v \<ge> 2050)"
  by (auto simp: earbud_table_defs Let_def contains_def split: if_splits)

section \<open>The life of the component\<close>

definition with_queue :: "battery_region_state msg_queue \<Rightarrow> battery_region_data \<Rightarrow> battery_region_data" where
  "with_queue q s = s\<lparr>br_vm := (br_vm s)\<lparr>vm_message_queue := q\<rparr>\<rparr>"

definition internal_ids :: "message_id set" where
  "internal_ids = {MESSAGE_BATTERY_REGION_INTERNAL_CHARGING_TIMER,
     MESSAGE_BATTERY_REGION_INTERNAL_UPDATE_TRIGGER, MESSAGE_BATTERY_INTERNAL_STATUS_UPDATE}"

text \<open>
  One step: the scheduler takes a message of the component out of the queue and hands it over; the charger
  sends a message of its own; a client registers or unregisters; or the rest of the system uses the queue,
  without the internal messages of this component.
\<close>

inductive region_step :: "battery_region_data \<Rightarrow> battery_region_data \<Rightarrow> bool" where
  deliver: "vm_message_queue (br_vm s) = q1 @ a # q2 \<Longrightarrow> unicast_to (br_task s) a \<Longrightarrow>
    batteryRegion_HandleMessage now addr v t c (am_id a) (with_queue (q1 @ q2) s) = Some s' \<Longrightarrow> region_step s s'"
| charger: "i \<notin> internal_ids \<Longrightarrow> batteryRegion_HandleMessage now addr v t c i s = Some s' \<Longrightarrow> region_step s s'"
| register: "t \<noteq> br_task s \<Longrightarrow> length (tl_members (client_tasks_list s)) < 14 \<Longrightarrow>
    BatteryRegion_Register t s = Some (r, s') \<Longrightarrow> region_step s s'"
| unregister: "BatteryRegion_Unregister t s = Some s' \<Longrightarrow> region_step s s'"
| others: "\<forall>i\<in>internal_ids. count (posted_ids (br_task s) vm') i = count (own_messages s) i \<Longrightarrow>
    region_step s (s\<lparr>br_vm := vm'\<rparr>)"

inductive region_reachable :: "battery_region_data \<Rightarrow> bool" where
  init: "config_ok s0 \<Longrightarrow> br_task s0 \<noteq> INVALIDATED_TASK \<Longrightarrow> own_messages s0 = {#} \<Longrightarrow>
    BatteryRegion_Init now s0 = Some s \<Longrightarrow> region_reachable s"
| step: "region_reachable s \<Longrightarrow> region_step s s' \<Longrightarrow> region_reachable s'"

inductive_cases region_stepE: "region_step s s'"

definition region_inv :: "nat \<Rightarrow> battery_region_data \<Rightarrow> bool" where
  "region_inv n s = (config_ok s \<and> region_ok s \<and> clients_ok s
     \<and> count (own_messages s) MESSAGE_BATTERY_REGION_INTERNAL_UPDATE_TRIGGER = n
     \<and> count (own_messages s) MESSAGE_BATTERY_REGION_INTERNAL_CHARGING_TIMER \<le> 1)"

lemma same_setup_frame:
  assumes "br_task s' = br_task s" "client_tasks_list s' = client_tasks_list s" "region_ctx s' = region_ctx s"
    "br_table s' = br_table s" "region_table_len s' = region_table_len s" "region s' = region s" "br_state s' = br_state s"
  shows "config_ok s' = config_ok s" "region_ok s' = region_ok s" "clients_ok s' = clients_ok s"
  using assms by (simp_all add: config_ok_def region_ok_def clients_ok_def mode_table_def region_of_def)

lemma messages_in_counts:
  "count (messages_in c r m) MESSAGE_BATTERY_REGION_INTERNAL_UPDATE_TRIGGER
     = count m MESSAGE_BATTERY_REGION_INTERNAL_UPDATE_TRIGGER"
  "count (messages_in c r m) MESSAGE_BATTERY_REGION_INTERNAL_CHARGING_TIMER \<le> Suc 0"
  by (simp_all add: messages_in_def Let_def region_message_ids)

lemma UpdateRegion_inv:
  assumes "region_inv n s"
  shows "\<exists>s'. batteryRegion_UpdateRegion now addr v t c s = Some s' \<and> region_inv n s'"
proof -
  from assms have ok: "config_ok s" "region_ok s" "clients_ok s" by (simp_all add: region_inv_def)
  obtain s' where s': "batteryRegion_UpdateRegion now addr v t c s = Some s'" "region_ok s'" "same_setup s s'"
    "own_messages s' = own_messages s
     \<or> (\<exists>i. own_messages s' = messages_in c (snd (mode_table c s) ! i) (own_messages s))"
    using UpdateRegion_done [OF ok, of now addr v t c] by blast
  have "count (own_messages s') MESSAGE_BATTERY_REGION_INTERNAL_UPDATE_TRIGGER = n"
    "count (own_messages s') MESSAGE_BATTERY_REGION_INTERNAL_CHARGING_TIMER \<le> 1"
    using s'(4) assms by (auto simp: region_inv_def messages_in_counts)
  then have "region_inv n s'"
    using ok s'(2) same_setup_ok(1,2) [OF s'(3)] by (simp add: region_inv_def)
  with s'(1) show ?thesis by blast
qed

lemma send_self_inv:
  assumes "region_inv n s" "i \<in> internal_ids" "i \<noteq> MESSAGE_BATTERY_REGION_INTERNAL_CHARGING_TIMER"
  shows "\<exists>s'. send_self now i d s = Some s'
    \<and> region_inv (if i = MESSAGE_BATTERY_REGION_INTERNAL_UPDATE_TRIGGER then n + 1 else n) s'"
proof -
  have "\<not> combinable i" using assms(2) not_combinable_ids by (auto simp: internal_ids_def region_message_ids)
  then obtain q where q: "send_self now i d s = Some (s\<lparr>br_vm := q\<rparr>)"
    "own_messages (s\<lparr>br_vm := q\<rparr>) = add_mset i (own_messages s)"
    using send_self_posts [of i s now d] assms(1) by (auto simp: region_inv_def clients_ok_def)
  then show ?thesis
    using assms same_setup_frame [of "s\<lparr>br_vm := q\<rparr>" s] by (simp add: region_inv_def)
qed

lemma region_inv_logged [simp]: "region_inv n (log_region_call k s) = region_inv n s"
  "region_inv n (s\<lparr>charging_timer_timeout := b\<rparr>) = region_inv n s"
  by (simp_all add: region_inv_def log_region_call_def config_ok_def region_ok_def clients_ok_def mode_table_def
      region_of_def own_messages_def)

lemma region_inv_clients:
  assumes "region_inv n s" "clients_ok (s\<lparr>client_tasks_list := l\<rparr>)"
  shows "region_inv n (s\<lparr>client_tasks_list := l\<rparr>)"
proof -
  have "config_ok (s\<lparr>client_tasks_list := l\<rparr>) = config_ok s" "region_ok (s\<lparr>client_tasks_list := l\<rparr>) = region_ok s"
    by (simp_all add: config_ok_def region_ok_def mode_table_def region_of_def)
  then show ?thesis using assms by (simp add: region_inv_def own_messages_def)
qed

lemma HandleMessage_inv:
  assumes "region_inv n s" "i = MESSAGE_BATTERY_REGION_INTERNAL_UPDATE_TRIGGER \<longrightarrow> n = 0"
  shows "\<exists>s'. batteryRegion_HandleMessage now addr v t c i s = Some s'
    \<and> region_inv (if i = MESSAGE_BATTERY_REGION_INTERNAL_UPDATE_TRIGGER then 1 else n) s'"
proof -
  obtain h where h: "handler_funcs (region_ctx s) = Some h"
    using assms(1) by (auto simp: region_inv_def config_ok_def Let_def)
  have t: "br_task s \<noteq> INVALIDATED_TASK" using assms(1) by (simp add: region_inv_def clients_ok_def)
  consider "i = MESSAGE_BATTERY_REGION_INTERNAL_CHARGING_TIMER" | "i = MESSAGE_BATTERY_REGION_INTERNAL_UPDATE_TRIGGER"
    | "i = MESSAGE_BATTERY_INTERNAL_STATUS_UPDATE" | "i = CHARGER_MESSAGE_DETACHED"
    | "i \<noteq> MESSAGE_BATTERY_REGION_INTERNAL_CHARGING_TIMER" "i \<noteq> MESSAGE_BATTERY_REGION_INTERNAL_UPDATE_TRIGGER"
      "i \<noteq> MESSAGE_BATTERY_INTERNAL_STATUS_UPDATE" "i \<noteq> CHARGER_MESSAGE_DETACHED" by blast
  then show ?thesis
  proof cases
    case 1
    then show ?thesis
      using assms(1) h by (auto simp: batteryRegion_HandleMessage_def region_message_ids split: option.splits)
  next
    case 2
    obtain s1 where s1: "batteryRegion_UpdateRegion now addr v t c s = Some s1" "region_inv n s1"
      using UpdateRegion_inv [OF assms(1)] by blast
    then show ?thesis
      using 2 assms(2) send_self_inv [of n s1 MESSAGE_BATTERY_REGION_INTERNAL_UPDATE_TRIGGER now "ucast (period s1)"]
      by (auto simp: batteryRegion_HandleMessage_def batteryRegion_ScheduleNextRegionUpdate_def internal_ids_def
          region_message_ids)
  next
    case 3
    then show ?thesis
      using assms(1) send_self_inv [of n "log_region_call (Call_InformContextChange (br_state s)) (log_region_call Call_TonePlay s)"
          MESSAGE_BATTERY_INTERNAL_STATUS_UPDATE now "D_SEC 20"]
      by (auto simp: batteryRegion_HandleMessage_def internal_ids_def region_message_ids)
  next
    case 4
    obtain q where q: "cancel_self MESSAGE_BATTERY_REGION_INTERNAL_CHARGING_TIMER s = Some (s\<lparr>br_vm := q\<rparr>)"
      "own_messages (s\<lparr>br_vm := q\<rparr>) = filter_mset (\<lambda>j. j \<noteq> MESSAGE_BATTERY_REGION_INTERNAL_CHARGING_TIMER) (own_messages s)"
      using cancel_self_cancels [OF t] by blast
    have "region_inv n (s\<lparr>br_vm := q\<rparr>)"
      using assms(1) q(2) same_setup_frame [of "s\<lparr>br_vm := q\<rparr>" s] by (simp add: region_inv_def region_message_ids)
    then show ?thesis
      using 4 q(1) by (simp add: batteryRegion_HandleMessage_def region_message_ids)
  next
    case 5
    then show ?thesis using assms(1) by (simp add: batteryRegion_HandleMessage_def)
  qed
qed

lemma posted_ids_taken:
  assumes "vm_message_queue s = q1 @ a # q2" "unicast_to t a"
  shows "posted_ids t s = add_mset (am_id a) (posted_ids t (s\<lparr>vm_message_queue := q1 @ q2\<rparr>))"
  using assms by (simp add: posted_ids_def pending_of_def addressed_to_def unicast_to_def)

lemma deliver_inv:
  assumes "region_inv 1 s" "vm_message_queue (br_vm s) = q1 @ a # q2" "unicast_to (br_task s) a"
  shows "\<exists>s'. batteryRegion_HandleMessage now addr v t c (am_id a) (with_queue (q1 @ q2) s) = Some s' \<and> region_inv 1 s'"
proof -
  let ?s = "with_queue (q1 @ q2) s"
  let ?n = "if am_id a = MESSAGE_BATTERY_REGION_INTERNAL_UPDATE_TRIGGER then 0 else 1"
  have own: "own_messages s = add_mset (am_id a) (own_messages ?s)"
    using posted_ids_taken [OF assms(2,3)] by (simp add: own_messages_def with_queue_def)
  have "config_ok ?s = config_ok s" "region_ok ?s = region_ok s" "clients_ok ?s = clients_ok s"
    by (intro same_setup_frame; simp add: with_queue_def)+
  then have "region_inv ?n ?s" using assms(1) own by (auto simp: region_inv_def split: if_splits)
  from HandleMessage_inv [OF this, of "am_id a"] show ?thesis
    by (cases "am_id a = MESSAGE_BATTERY_REGION_INTERNAL_UPDATE_TRIGGER") auto
qed

lemma region_step_inv:
  assumes "region_inv 1 s" "region_step s s'"
  shows "region_inv 1 s'"
  using assms(2)
proof (cases rule: region_step.cases)
  case 1: (deliver q1 a q2 now addr v t c)
  then show ?thesis using deliver_inv [OF assms(1) 1(1,2), of now addr v t c] by auto
next
  case 2: (charger i now addr v t c)
  then show ?thesis using HandleMessage_inv [OF assms(1), of i now addr v t c] by (auto simp: internal_ids_def)
next
  case 3: (register t r)
  then obtain l where l: "TaskList_AddTask (client_tasks_list s) t = Some (r, l)" "s' = s\<lparr>client_tasks_list := l\<rparr>"
    by (auto simp: BatteryRegion_Register_def)
  have nz: "t \<noteq> NULL_TASK" using l(1) by (auto simp: TaskList_AddTask_def bind_eq_Some_conv)
  have v: "tl_valid (client_tasks_list s)" using assms(1) by (simp add: region_inv_def clients_ok_def)
  have "tl_valid l \<and> set (tl_members l) \<subseteq> insert t (set (tl_members (client_tasks_list s)))
      \<and> length (tl_members l) \<le> length (tl_members (client_tasks_list s)) + 1"
    using tl.add_keeps [OF v nz _ l(1)] 3(2) by simp
  then have "clients_ok s'" using assms(1) 3(1,2) l(2) by (auto simp: region_inv_def clients_ok_def)
  then show ?thesis using assms(1) l(2) region_inv_clients by simp
next
  case 4: (unregister t)
  then obtain r l where l: "TaskList_RemoveTask (client_tasks_list s) t = Some (r, l)" "s' = s\<lparr>client_tasks_list := l\<rparr>"
    by (auto simp: BatteryRegion_Unregister_def)
  have nz: "t \<noteq> NULL_TASK" using l(1) by (auto simp: TaskList_RemoveTask_def bind_eq_Some_conv)
  have v: "tl_valid (client_tasks_list s)" using assms(1) by (simp add: region_inv_def clients_ok_def)
  have "tl_valid l \<and> set (tl_members l) \<subseteq> set (tl_members (client_tasks_list s))
      \<and> length (tl_members l) \<le> length (tl_members (client_tasks_list s))"
    using tl.remove_old [OF v, of t] tl.remove_absent [OF v nz] l(1) v
    by (cases "t \<in> set (tl_members (client_tasks_list s))") (auto simp: length_remove1 dest: set_mp [OF set_remove1_subset])
  then have "clients_ok s'" using assms(1) l(2) by (auto simp: region_inv_def clients_ok_def)
  then show ?thesis using assms(1) l(2) region_inv_clients by simp
next
  case 5: (others vm')
  have "config_ok s' = config_ok s" "region_ok s' = region_ok s" "clients_ok s' = clients_ok s"
    by (intro same_setup_frame; simp add: 5(1))+
  then show ?thesis using assms(1) 5 by (simp add: region_inv_def own_messages_def internal_ids_def)
qed

lemma Init_inv:
  assumes "config_ok s0" "br_task s0 \<noteq> INVALIDATED_TASK" "own_messages s0 = {#}"
  shows "\<exists>s. BatteryRegion_Init now s0 = Some s \<and> region_inv 1 s"
proof -
  obtain l where l: "TaskList_InitialiseWithCapacity 5 = Some l" "tl_repr l [] []"
    by (auto simp: TaskList_InitialiseWithCapacity_def TASK_LIST_MAX_TASKS_def TASK_LIST_SIZE_BITS_def
        taskList_FlexibleSizeSet_def tl_repr_def union_of_def data_of_def)
  define s1 where "s1 = log_region_call (Call_Charger_ClientRegister (br_task s0)) (log_region_call Call_RegisterUiProvider
    (s0\<lparr>client_tasks_list := l, period := ucast batteryRegion_GetReadingPeriodMs, br_table := (0, []),
        region_table_len := 0, region := BATTERY_REGION_UNDEFINED, br_state := battery_region_unknown\<rparr>))"
  have "tl_valid l" "tl_members l = []"
    using tl_validI [OF l(2)] tl_members_repr [OF l(2)] by (simp_all add: tasks_ok_def)
  then have "region_inv 0 s1"
    using assms by (simp add: region_inv_def s1_def log_region_call_def config_ok_def region_ok_def clients_ok_def
        region_of_def own_messages_def)
  moreover have "br_task s1 = br_task s0" by (simp add: s1_def log_region_call_def)
  ultimately show ?thesis
    using send_self_inv [of 0 s1 MESSAGE_BATTERY_REGION_INTERNAL_UPDATE_TRIGGER now 0] l(1)
    by (simp add: BatteryRegion_Init_def BATTERY_REGION_CLIENT_TASKS_LIST_INIT_CAPACITY_def
        batteryRegion_ScheduleNextRegionUpdate_def s1_def [symmetric] internal_ids_def region_message_ids)
qed

lemma region_reachable_inv: "region_reachable s \<Longrightarrow> region_inv 1 s"
proof (induction rule: region_reachable.induct)
  case (init s0 now s)
  then show ?case using Init_inv [OF init(1-3), of now] by auto
qed (rule region_step_inv)

section \<open>Properties\<close>

lemma UpdateRegion_earbud:
  assumes "earbud_configured half FAST TRICKLE timeout s" "region_ok s" "clients_ok s" "in_battery_range v t"
  shows "\<exists>s' r. batteryRegion_UpdateRegion now addr v t c s = Some s' \<and> r \<in> set (snd (mode_table c s))
    \<and> contains True v t r \<and> br_state s' = state_of_type (region_type r)
    \<and> BatteryRegion_GetCurrent s' = Some (current r)"
proof -
  let ?tbl = "snd (mode_table c s)"
  define prev where "prev = (if br_table s = mode_table c s then region_of s else None)"
  obtain s' where s': "batteryRegion_UpdateRegion now addr v t c s = Some s'" "br_table s' = mode_table c s"
    "region_of s' = next_region ?tbl prev v t"
    "\<forall>i. region_of s' = Some i \<longrightarrow> br_state s' = state_of_type (region_type (?tbl ! i))"
    unfolding prev_def using UpdateRegion_done [OF earbud_config_ok [OF assms(1)] assms(2,3), of now addr v t c] by blast
  have "\<exists>r\<in>set ?tbl. contains False v t r"
    using assms(1) earbud_charge_covers [OF assms(4)] earbud_discharge_covers [OF assms(4)]
    by (simp add: mode_table_def earbud_configured_def Let_def)
  moreover have "i < length ?tbl" if "prev = Some i" for i
    using that assms(2) by (auto simp: prev_def region_ok_def split: if_splits)
  ultimately obtain i where i: "i < length ?tbl" "region_of s' = Some i" "contains True v t (?tbl ! i)"
    using next_region_contains [of prev ?tbl v t] s'(3) by auto
  have "br_state s' = state_of_type (region_type (?tbl ! i))" using s'(4) i(2) by simp
  moreover from this have "BatteryRegion_GetCurrent s' = Some (current (?tbl ! i))"
    using i(1,2) s'(2)
    by (auto simp: BatteryRegion_GetCurrent_def region_of_def state_of_type_def split: if_splits charger_region_type.splits)
  ultimately show ?thesis using s'(1) i(1,3) nth_mem by blast
qed

definition demo_region_data :: battery_region_data where
  "demo_region_data =
     \<lparr>br_task = 40,
      client_tasks_list = \<lparr>size_list = 0, size_flexible_tasks = 0, list_type = TASKLIST_TYPE_STANDARD,
        no_destroy = False, tl_u = U_task NULL_TASK, flexible_tasks = [], tl_data = []\<rparr>,
      period = 1000, br_table = (0, []), region_table_len = 0, region = BATTERY_REGION_UNDEFINED,
      br_state = battery_region_unknown,
      region_ctx =
        \<lparr>charge_table = (100, earbud_charge_mode_config_table True 140 30 509),
         charge_table_len = of_nat (length (earbud_charge_mode_config_table True 140 30 509)),
         discharge_table = (200, earbud_discharge_mode_config_table),
         discharge_table_len = of_nat (length earbud_discharge_mode_config_table),
         handler_funcs = Some earbud_region_handlers\<rparr>,
      charging_timer_timeout = False,
      br_vm = \<lparr>vm_message_queue = [], vm_delivered_messages = [], sched_event_pending = False, put_message_ok = True,
        registered_hdlrs = [], sink_source_hdlrs = [], run_timer = None\<rparr>,
      br_calls = []\<rparr>"

lemma demo_region_ok:
  "earbud_configured True 140 30 509 demo_region_data" "region_ok demo_region_data" "clients_ok demo_region_data"
  "own_messages demo_region_data = {#}" "br_task demo_region_data \<noteq> INVALIDATED_TASK"
proof -
  have r: "tl_repr (client_tasks_list demo_region_data) [] []"
    by (simp add: demo_region_data_def tl_repr_def union_of_def data_of_def)
  show "clients_ok demo_region_data"
    using tl_validI [OF r] tl_members_repr [OF r]
    by (simp add: clients_ok_def tasks_ok_def) (simp add: demo_region_data_def INVALIDATED_TASK_def)
qed (simp_all add: demo_region_data_def earbud_configured_def region_ok_def region_of_def own_messages_def posted_ids_def
      INVALIDATED_TASK_def)

text \<open>
  Charging is confined to the safe window: with the earbud's tables, a connected charger and any reading
  between 0 and 4350 mV and between -40 and 85 degrees, an update succeeds and the charge current it
  selects is zero unless the reading is at most 4250 mV and between -1 and 46 degrees; below 2050 mV only the
  trickle current is possible, and on boards with two charging regions the full fast current
  needs at least 14 degrees.
\<close>
lemma charging_current_safe:
  assumes "earbud_configured half FAST TRICKLE timeout s" "region_ok s" "clients_ok s" "in_battery_range v t"
  shows "\<exists>s' cur. batteryRegion_UpdateRegion now addr v t True s = Some s' \<and> BatteryRegion_GetCurrent s' = Some cur
    \<and> (cur \<noteq> 0 \<longrightarrow> uint v \<le> 4250 \<and> - 1 \<le> sint t \<and> sint t \<le> 46 \<and> cur \<in> {FAST, FAST div 2, 20, TRICKLE}
         \<and> (half \<and> sint t < 14 \<longrightarrow> cur \<in> {FAST div 2, 20, TRICKLE}) \<and> (cur = TRICKLE \<or> uint v \<ge> 2050))"
proof -
  obtain s' r where s': "batteryRegion_UpdateRegion now addr v t True s = Some s'"
    "r \<in> set (earbud_charge_mode_config_table half FAST TRICKLE timeout)" "contains True v t r"
    "BatteryRegion_GetCurrent s' = Some (current r)"
    using UpdateRegion_earbud [OF assms, of now addr True] assms(1)
    by (auto simp: mode_table_def earbud_configured_def Let_def)
  then show ?thesis using earbud_charge_current [OF s'(2,3)] by blast
qed

lemma charging_current_safe_witness:
  "\<exists>s' cur. batteryRegion_UpdateRegion 0 0 4000 60 True demo_region_data = Some s'
     \<and> BatteryRegion_GetCurrent s' = Some cur \<and> cur = 0"
proof -
  have "in_battery_range 4000 60" by (simp add: in_battery_range_def)
  from charging_current_safe [OF demo_region_ok(1-3) this, of 0 0] show ?thesis by fastforce
qed

text \<open>
  The battery state follows the voltage: with the earbud's tables, no charger and any reading in range, an
  update succeeds and the state it reports is known; it is unsafe only up to 3050 mV, critical only from
  2950 to 3350 mV and ok only from 3250 mV, whatever the state was before.
\<close>
lemma battery_state_bounds:
  assumes "earbud_configured half FAST TRICKLE timeout s" "region_ok s" "clients_ok s" "in_battery_range v t"
  shows "\<exists>s'. batteryRegion_UpdateRegion now addr v t False s = Some s' \<and>
    (case BatteryRegion_GetState s' of
       battery_region_unknown \<Rightarrow> False
     | battery_region_unsafe \<Rightarrow> uint v \<le> 3050
     | battery_region_critical \<Rightarrow> 2950 \<le> uint v \<and> uint v \<le> 3350
     | battery_region_ok \<Rightarrow> 3250 \<le> uint v)"
proof -
  obtain s' r where s': "batteryRegion_UpdateRegion now addr v t False s = Some s'"
    "r \<in> set earbud_discharge_mode_config_table" "contains True v t r" "br_state s' = state_of_type (region_type r)"
    using UpdateRegion_earbud [OF assms, of now addr False] assms(1)
    by (auto simp: mode_table_def earbud_configured_def Let_def)
  then show ?thesis
    using earbud_discharge_states [OF s'(2,3)]
    by (auto simp: BatteryRegion_GetState_def state_of_type_def split: charger_region_type.splits)
qed

theorem battery_state_bounds_witness:
  "\<exists>s'. batteryRegion_UpdateRegion 0 0 2500 20 False demo_region_data = Some s'
     \<and> BatteryRegion_GetState s' = battery_region_unsafe"
proof -
  have "in_battery_range 2500 20" by (simp add: in_battery_range_def)
  from battery_state_bounds [OF demo_region_ok(1-3) this, of 0 0] obtain s'
    where "batteryRegion_UpdateRegion 0 0 2500 20 False demo_region_data = Some s'"
      "case BatteryRegion_GetState s' of battery_region_unknown \<Rightarrow> False
       | battery_region_unsafe \<Rightarrow> uint (2500 :: u16) \<le> 3050
       | battery_region_critical \<Rightarrow> 2950 \<le> uint (2500 :: u16) \<and> uint (2500 :: u16) \<le> 3350
       | battery_region_ok \<Rightarrow> 3250 \<le> uint (2500 :: u16)"
    by blast
  then show ?thesis by (cases "BatteryRegion_GetState s'") auto
qed

text \<open>
  C26: Battery monitoring never stops and never faults: in every state the component can reach from its
  initialisation, through its own messages, the charger's, registrations of up to 14 clients (as many as a task list can
  send a message to) and whatever other components do with
  the message queue, exactly one update trigger and at most one charging timer are pending, and
  whichever of its messages is delivered next is handled without a fault.
\<close>
theorem battery_monitoring_continues:
  assumes "region_reachable s"
  shows "count (own_messages s) MESSAGE_BATTERY_REGION_INTERNAL_UPDATE_TRIGGER = 1 \<and>
    count (own_messages s) MESSAGE_BATTERY_REGION_INTERNAL_CHARGING_TIMER \<le> 1 \<and>
    (\<forall>q1 a q2. vm_message_queue (br_vm s) = q1 @ a # q2 \<and> unicast_to (br_task s) a \<longrightarrow>
       batteryRegion_HandleMessage now addr v t c (am_id a) (with_queue (q1 @ q2) s) \<noteq> None)"
proof -
  have i: "region_inv 1 s" by (rule region_reachable_inv [OF assms])
  have "batteryRegion_HandleMessage now addr v t c (am_id a) (with_queue (q1 @ q2) s) \<noteq> None"
    if "vm_message_queue (br_vm s) = q1 @ a # q2" "unicast_to (br_task s) a" for q1 a q2
    using deliver_inv [OF i that, of now addr v t c] by auto
  then show ?thesis using i by (simp add: region_inv_def)
qed

theorem battery_monitoring_continues_witness:
  "\<exists>s. BatteryRegion_Init 7 demo_region_data = Some s
     \<and> count (own_messages s) MESSAGE_BATTERY_REGION_INTERNAL_UPDATE_TRIGGER = 1"
proof -
  have "config_ok demo_region_data" using earbud_config_ok [OF demo_region_ok(1)] .
  note i = this demo_region_ok(5,4)
  obtain s where s: "BatteryRegion_Init 7 demo_region_data = Some s" using Init_inv [OF i, of 7] by blast
  from battery_monitoring_continues [OF region_reachable.init [OF i s]] s show ?thesis by blast
qed

text \<open>
  The status messages of the low battery interface are not unique: every time an update on battery enters a
  normal region, one more of them is posted, and each of them reposts itself every 20 seconds.
\<close>

lemma status_updates_accumulate:
  assumes "config_ok s" "region_ok s" "clients_ok s" "br_table s = mode_table False s"
    "region_of s = Some i" "\<not> contains True v t (snd (br_table s) ! i)" "first_region (snd (br_table s)) v t = Some j"
    "region_type (snd (br_table s) ! j) = NORMAL_REGION"
  shows "\<exists>s'. batteryRegion_UpdateRegion now addr v t False s = Some s'
    \<and> count (own_messages s') MESSAGE_BATTERY_INTERNAL_STATUS_UPDATE
      = count (own_messages s) MESSAGE_BATTERY_INTERNAL_STATUS_UPDATE + 1"
proof -
  define s1 where "s1 = select_table False s"
  note s1 = select_table_selects [OF assms(1,2), of False, folded s1_def]
  have U: "batteryRegion_UpdateRegion now addr v t False s = enter_region now addr False j s1"
    using UpdateRegion_eq [OF assms(1,2), of now addr v t False, folded s1_def] s1(1,3) assms(4-7) by simp
  have "clients_ok s1" "handler_funcs (region_ctx s1) \<noteq> None"
    using assms(1,3) s1 by (simp_all add: clients_ok_def config_ok_def Let_def)
  then obtain s' where "enter_region now addr False j s1 = Some s'"
    "own_messages s' = messages_in False (snd (br_table s1) ! j) (own_messages s1)"
    using enter_region_done [of s1 now addr False j] by blast
  then show ?thesis
    using U s1(1,6,7) assms(4,8) by (auto simp: messages_in_def Let_def region_message_ids own_messages_def)
qed

text \<open>Outside the tables nothing is selected: a charging region and its current stay in force.\<close>

lemma out_of_range_keeps_current:
  assumes "config_ok s" "region_ok s" "br_table s = mode_table c s" "first_region (snd (br_table s)) v t = None"
  shows "batteryRegion_UpdateRegion now addr v t c s = Some s"
proof -
  have "select_table c s = s"
    using assms(3) by (cases c) (auto simp: select_table_def mode_table_def Let_def)
  then show ?thesis using UpdateRegion_eq [OF assms(1,2), of now addr v t c] assms(4) by (auto split: option.splits)
qed

lemma hot_battery_keeps_charging:
  "\<exists>s1. batteryRegion_UpdateRegion 0 0 4000 20 True demo_region_data = Some s1
    \<and> BatteryRegion_GetCurrent s1 = Some 140
    \<and> batteryRegion_UpdateRegion 1000 0 4000 90 True s1 = Some s1"
proof -
  let ?s = demo_region_data and ?tbl = "earbud_charge_mode_config_table True 140 30 509"
  have tbl: "snd (mode_table True ?s) = ?tbl" by (simp add: demo_region_data_def mode_table_def)
  have n: "first_region ?tbl 4000 20 = Some 5" "first_region ?tbl 4000 90 = None" "current (?tbl ! 5) = 140" by code_simp+
  have none: "br_table ?s \<noteq> mode_table True ?s" by (simp add: demo_region_data_def mode_table_def)
  obtain s1 where s1: "batteryRegion_UpdateRegion 0 0 4000 20 True ?s = Some s1" "br_table s1 = mode_table True ?s"
    "region_of s1 = Some 5" "region_ok s1" "same_setup ?s s1" "br_state s1 = state_of_type (region_type (?tbl ! 5))"
    using UpdateRegion_done [OF earbud_config_ok [OF demo_region_ok(1)] demo_region_ok(2,3), of 0 0 4000 20 True] none
    by (auto simp: tbl n next_region_def)
  have "5 < length ?tbl" by (simp add: earbud_charge_mode_config_table_def Let_def)
  then have "BatteryRegion_GetCurrent s1 = Some 140"
    using s1(2,3,6) n(3) tbl
    by (auto simp: BatteryRegion_GetCurrent_def region_of_def state_of_type_def split: if_splits charger_region_type.splits)
  moreover have "config_ok s1" "br_table s1 = mode_table True s1"
    using same_setup_ok(1,3) [OF s1(5)] earbud_config_ok [OF demo_region_ok(1)] s1(2) by simp_all
  then have "batteryRegion_UpdateRegion 1000 0 4000 90 True s1 = Some s1"
    using out_of_range_keeps_current [OF _ s1(4), of True 4000 90] n(2) tbl s1(2) by simp
  ultimately show ?thesis using s1(1) by blast
qed

end
