(* ===== verification/Temperature.thy ===== *)
theory Temperature
  imports ClientData DomainMessage "HOL-Library.Signed_Division" "HOL-Library.Multiset"
begin

text \<open>
  The temperature component, \<open>domains/sensor/temperature/temperature.c\<close>, and the earbud's
  thermistor table, \<open>earbud/src/earbud_temperature_config.c\<close>. A measured voltage is looked up in the table,
  starting from the previous temperature; the readings go through a median filter and an exponential
  average, and a client is told when the average leaves or enters its limits. The state holds the task
  data, the static variables of the file and of its functions, the scheduler and the requests to the
  sensor. A client's limits and its current state are bytes of its datum in a task list with data. The
  clock, the addresses of the allocated messages (one for each client), the sensor's ADC source and
  \<open>VmReadVrefConstant()\<close> are arguments. \<open>int8\<close> and \<open>int32\<close> are words read by \<open>sint\<close>; C's
  division is \<open>sdiv\<close>. Reads outside the table and panics are \<open>None\<close>.
\<close>

section \<open>Data\<close>

type_synonym int8 = "8 word"
type_synonym int32 = "32 word"

definition TEMPERATURE_MIN :: int where "TEMPERATURE_MIN = -40"
definition TEMPERATURE_MAX :: int where "TEMPERATURE_MAX = 85"

record temperature_lookup =
  lk_voltage :: u16
  lk_temperature :: int8

type_synonym temperatureState = u8

definition TEMPERATURE_STATE_WITHIN_LIMITS :: temperatureState where "TEMPERATURE_STATE_WITHIN_LIMITS = 0"
definition TEMPERATURE_STATE_ABOVE_UPPER_LIMIT :: temperatureState where "TEMPERATURE_STATE_ABOVE_UPPER_LIMIT = 1"
definition TEMPERATURE_STATE_BELOW_LOWER_LIMIT :: temperatureState where "TEMPERATURE_STATE_BELOW_LOWER_LIMIT = 2"
definition TEMPERATURE_STATE_UNKNOWN :: temperatureState where "TEMPERATURE_STATE_UNKNOWN = 3"

definition TEMPERATURE_STATE_CHANGED_IND :: message_id where
  "TEMPERATURE_STATE_CHANGED_IND = MESSAGE_BASE ''TEMPERATURE''"
definition MESSAGE_TEMPERATURE_INTERNAL_MEASUREMENT_TRIGGER :: message_id where
  "MESSAGE_TEMPERATURE_INTERNAL_MEASUREMENT_TRIGGER = 0"
definition MESSAGE_ADC_RESULT :: message_id where "MESSAGE_ADC_RESULT = SYSTEM_MESSAGE_BASE + 37"

definition INVALID_TEMPERATURE :: int8 where "INVALID_TEMPERATURE = 100"

definition appConfigTemperatureReadingPeriodMs :: u32 where "appConfigTemperatureReadingPeriodMs = D_SEC 10"
definition appConfigTemperatureMedianFilterWindow :: u16 where "appConfigTemperatureMedianFilterWindow = 5"
definition appConfigTemperatureSmoothingWeight :: u8 where "appConfigTemperatureSmoothingWeight = 50"

datatype temperature_call = Sensor_init | Sensor_request task | Unexpected_message message_id

text \<open>
  The static variables: \<open>input_arr\<close> and \<open>filter_index\<close> of the median filter, \<open>ema_t\<close> of the average,
  \<open>vref_raw\<close> of the ADC handler, the test values, and the lookup table with its size.
\<close>

record temperature_data =
  temp_task :: task
  temp_period :: u16
  median_filter_window :: u16
  instantaneous :: int8
  weight :: u8
  last_ema :: int32
  current_ema :: int32
  temp_clients :: task_list
  temperature_config_table :: "temperature_lookup list option"
  temperature_config_size :: u32
  input_arr :: "int8 option list option"
  filter_index :: u8
  ema_t :: u8
  vref_raw :: u16
  fake_battery_temperature :: int8
  battery_temp_test_on :: bool
  temp_vm :: "temperatureState vm"
  temp_calls :: "temperature_call list"

definition log_temp :: "temperature_call \<Rightarrow> temperature_data \<Rightarrow> temperature_data" where
  "log_temp c s = s\<lparr>temp_calls := temp_calls s @ [c]\<rparr>"

section \<open>From voltage to temperature\<close>

definition read_lookup :: "temperature_lookup list option \<Rightarrow> u32 \<Rightarrow> temperature_lookup option" where
  "read_lookup table i =
     (case table of None \<Rightarrow> None | Some xs \<Rightarrow> if unat i < length xs then Some (xs ! unat i) else None)"

function search_forward ::
  "temperature_lookup list option \<Rightarrow> u32 \<Rightarrow> u16 \<Rightarrow> u32 \<Rightarrow> int8 option" where
  "search_forward table table_size voltage index =
     (if index < table_size then
        do {
          e \<leftarrow> read_lookup table index;
          if voltage \<ge> lk_voltage e then Some (lk_temperature e)
          else search_forward table table_size voltage (index + 1)
        }
      else Some (word_of_int TEMPERATURE_MAX))"
  by auto

termination
  by (relation "measure (\<lambda>(_, table_size, _, index). unat table_size - unat index)")
    (auto simp: unat_Suc_below word_less_nat_alt)

function search_back :: "temperature_lookup list option \<Rightarrow> u16 \<Rightarrow> u16 \<Rightarrow> u32 \<Rightarrow> int8 option" where
  "search_back table voltage prev_mv index =
     (if index > 0 then
        do {
          e \<leftarrow> read_lookup table (index - 1);
          if voltage \<ge> prev_mv \<and> voltage < lk_voltage e
          then map_option lk_temperature (read_lookup table index)
          else search_back table voltage (lk_voltage e) (index - 1)
        }
      else Some (word_of_int TEMPERATURE_MIN))"
  by auto

termination
  by (relation "measure (\<lambda>(_, _, _, index). unat index)") (auto simp: unat_gt_0 unat_minus_one)

declare search_forward.simps [simp del] search_back.simps [simp del]

definition temperature_GetTemperature :: "u16 \<Rightarrow> int8 \<Rightarrow> temperature_data \<Rightarrow> int8 option" where
  "temperature_GetTemperature voltage prev_temperature s =
     (let prev_index = word_of_int (sint prev_temperature - TEMPERATURE_MIN) :: u32
      in do {
        prev \<leftarrow> read_lookup (temperature_config_table s) prev_index;
        if voltage < lk_voltage prev
        then search_forward (temperature_config_table s) (temperature_config_size s) voltage (prev_index + 1)
        else search_back (temperature_config_table s) voltage (lk_voltage prev) prev_index
      })"

section \<open>Filters\<close>

text \<open>
  The exchanges that sort a copy of the readings. With an index of 255 the loops, whose counters have
  eight bits, do not end.
\<close>

definition swap_step :: "nat \<Rightarrow> nat \<Rightarrow> int8 list \<Rightarrow> int8 list" where
  "swap_step j k xs = (if sint (xs ! j) > sint (xs ! k) then xs[j := xs ! k, k := xs ! j] else xs)"

definition sort_from :: "nat \<Rightarrow> int8 list \<Rightarrow> int8 list" where
  "sort_from j xs = fold (swap_step j) [j + 1 ..< length xs] xs"

definition sort_readings :: "int8 list \<Rightarrow> int8 list" where
  "sort_readings xs = fold sort_from [0 ..< length xs] xs"

fun shift_input :: "nat list \<Rightarrow> int8 option list \<Rightarrow> int8 option list option" where
  "shift_input [] xs = Some xs"
| "shift_input (i # is) xs = (if i + 1 < length xs then shift_input is (xs[i := xs ! (i + 1)]) else None)"

definition temperature_MedianFiltering :: "int8 \<Rightarrow> temperature_data \<Rightarrow> (int8 \<times> temperature_data) option" where
  "temperature_MedianFiltering reading s =
     (let window = unat (median_filter_window s); index = unat (filter_index s);
          arr = (case input_arr s of None \<Rightarrow> replicate window None | Some xs \<Rightarrow> xs)
      in do {
        arr1 \<leftarrow> write_cell arr index (Some reading);
        sort_arr \<leftarrow> those (take (index + 1) arr1);
        PanicFalse (index \<noteq> 255);
        let median_val = sort_readings sort_arr ! (index div 2);
        if int index = int window - 1 then
          do {
            arr2 \<leftarrow> shift_input [0 ..< window - 1] arr1;
            arr3 \<leftarrow> write_cell arr2 (window - 1) (Some 0);
            Some (median_val, s\<lparr>input_arr := Some arr3\<rparr>)
          }
        else Some (median_val, s\<lparr>input_arr := Some arr1, filter_index := filter_index s + 1\<rparr>)
      })"

definition temperature_ExponentialAverage :: "int8 \<Rightarrow> temperature_data \<Rightarrow> int32 \<times> temperature_data" where
  "temperature_ExponentialAverage reading s =
     (if ema_t s = 1 then (word_of_int (sint reading * 100), s\<lparr>ema_t := ema_t s + 1\<rparr>)
      else (word_of_int (uint (weight s) * sint reading)
              + word_of_int (sint (word_of_int ((100 - uint (weight s)) * sint (last_ema s)) :: int32) sdiv 100), s))"

section \<open>Clients\<close>

text \<open>\<open>data->arr_s8[i]\<close>\<close>

definition get_s8 :: "nat \<Rightarrow> task_list_data \<Rightarrow> int8" where
  "get_s8 i d = ucast (drop_bit (8 * i) d)"

definition set_s8 :: "nat \<Rightarrow> int8 \<Rightarrow> task_list_data \<Rightarrow> task_list_data" where
  "set_s8 i v d = (d AND NOT (push_bit (8 * i) (mask 8))) OR push_bit (8 * i) (ucast v)"

definition CLIENT_LOWER_LIMIT_INDEX :: nat where "CLIENT_LOWER_LIMIT_INDEX = 0"
definition CLIENT_UPPER_LIMIT_INDEX :: nat where "CLIENT_UPPER_LIMIT_INDEX = 1"
definition CLIENT_CURRENT_STATE_INDEX :: nat where "CLIENT_CURRENT_STATE_INDEX = 2"

definition appTemperatureGetAverage :: "temperature_data \<Rightarrow> int8" where
  "appTemperatureGetAverage s =
     (if fake_battery_temperature s \<noteq> INVALID_TEMPERATURE then fake_battery_temperature s
      else word_of_int (sint (current_ema s) sdiv 100))"

definition appTemperatureGetInstantaneous :: "temperature_data \<Rightarrow> int8" where
  "appTemperatureGetInstantaneous s =
     (if fake_battery_temperature s \<noteq> INVALID_TEMPERATURE then fake_battery_temperature s else instantaneous s)"

definition appTemperatureServiceClient ::
  "u32 \<Rightarrow> (task \<Rightarrow> nat) \<Rightarrow> task \<Rightarrow> task_list_data \<Rightarrow> temperature_data
   \<Rightarrow> (task_list_data \<times> temperature_data) option" where
  "appTemperatureServiceClient now addr task data s =
     (let lower_limit = get_s8 CLIENT_LOWER_LIMIT_INDEX data;
          upper_limit = get_s8 CLIENT_UPPER_LIMIT_INDEX data;
          t = appTemperatureGetAverage s;
          next_state = (if sint t \<ge> sint upper_limit then TEMPERATURE_STATE_ABOVE_UPPER_LIMIT
                        else if sint t \<le> sint lower_limit then TEMPERATURE_STATE_BELOW_LOWER_LIMIT
                        else TEMPERATURE_STATE_WITHIN_LIMITS)
      in if next_state \<noteq> get_s8 CLIENT_CURRENT_STATE_INDEX data then
           map_option (\<lambda>q. (set_s8 CLIENT_CURRENT_STATE_INDEX next_state data, s\<lparr>temp_vm := q\<rparr>))
             (MessageSend now task TEMPERATURE_STATE_CHANGED_IND (Some (addr task, App next_state)) (temp_vm s))
         else Some (data, s))"

text \<open>The handler of the iteration over the clients; a failed call is remembered as \<open>None\<close>.\<close>

definition service_handler ::
  "u32 \<Rightarrow> (task \<Rightarrow> nat) \<Rightarrow> task \<Rightarrow> task_list_data option \<Rightarrow> temperature_data option
   \<Rightarrow> bool \<times> task_list_data option \<times> temperature_data option" where
  "service_handler now addr task data arg =
     (case do { s \<leftarrow> arg; d \<leftarrow> data; appTemperatureServiceClient now addr task d s } of
        None \<Rightarrow> (True, data, None)
      | Some (d, s) \<Rightarrow> (True, Some d, Some s))"

definition appTemperatureServiceClients ::
  "u32 \<Rightarrow> (task \<Rightarrow> nat) \<Rightarrow> temperature_data \<Rightarrow> temperature_data option" where
  "appTemperatureServiceClients now addr s =
     do {
       (_, l, r) \<leftarrow> TaskList_IterateWithDataRawFunction (temp_clients s) (service_handler now addr) (Some s);
       map_option (\<lambda>s1. s1\<lparr>temp_clients := l\<rparr>) r
     }"

definition handleTemperatureReading ::
  "u32 \<Rightarrow> (task \<Rightarrow> nat) \<Rightarrow> int8 \<Rightarrow> temperature_data \<Rightarrow> temperature_data option" where
  "handleTemperatureReading now addr reading s =
     do {
       (median_reading, s1) \<leftarrow> temperature_MedianFiltering reading s;
       let s2 = s1\<lparr>instantaneous := median_reading, last_ema := current_ema s1\<rparr>;
       let (ema_reading, s3) = temperature_ExponentialAverage median_reading s2;
       appTemperatureServiceClients now addr (s3\<lparr>current_ema := ema_reading\<rparr>)
     }"

section \<open>Messages\<close>

datatype adc_source = adcsel_vref_hq_buff | other_adc_source nat

text \<open>\<open>MessageAdcResult\<close>: the source and the reading.\<close>

definition Temperature_AdcResultHandler ::
  "adc_source \<Rightarrow> u32 \<Rightarrow> adc_source \<Rightarrow> u16 \<Rightarrow> temperature_data \<Rightarrow> u16 \<times> temperature_data" where
  "Temperature_AdcResultHandler sensor vref_const adc_source reading s =
     (if adc_source = adcsel_vref_hq_buff then (0, s\<lparr>vref_raw := reading\<rparr>)
      else if adc_source = sensor then
        (if vref_raw s \<noteq> 0 then ucast (vref_const * ucast reading div ucast (vref_raw s)) else 0, s)
      else (0, s))"

definition trigger_measurement :: "u32 \<Rightarrow> u32 \<Rightarrow> temperature_data \<Rightarrow> temperature_data option" where
  "trigger_measurement now delay s =
     map_option (\<lambda>q. s\<lparr>temp_vm := q\<rparr>)
       (MessageSendLater now (temp_task s) MESSAGE_TEMPERATURE_INTERNAL_MEASUREMENT_TRIGGER None delay (temp_vm s))"

definition appTemperatureHandleMessage ::
  "adc_source \<Rightarrow> u32 \<Rightarrow> u32 \<Rightarrow> (task \<Rightarrow> nat) \<Rightarrow> message_id \<Rightarrow> adc_source \<times> u16 \<Rightarrow> temperature_data
   \<Rightarrow> temperature_data option" where
  "appTemperatureHandleMessage sensor vref_const now addr i message s =
     (if i = MESSAGE_TEMPERATURE_INTERNAL_MEASUREMENT_TRIGGER then Some (log_temp (Sensor_request (temp_task s)) s)
      else if i = MESSAGE_ADC_RESULT then
        (if \<not> battery_temp_test_on s \<and> fake_battery_temperature s = INVALID_TEMPERATURE then
           (let (voltage_mv, s1) = Temperature_AdcResultHandler sensor vref_const (fst message) (snd message) s
            in if voltage_mv \<noteq> 0 then
                 do {
                   t_new \<leftarrow> temperature_GetTemperature voltage_mv (instantaneous s1) s1;
                   s2 \<leftarrow> handleTemperatureReading now addr t_new s1;
                   trigger_measurement now (ucast (temp_period s2)) s2
                 }
               else Some s1)
         else Some s)
      else Some (log_temp (Unexpected_message i) s))"

section \<open>Interface\<close>

definition appTemperatureInit :: "temperature_data \<Rightarrow> temperature_data" where
  "appTemperatureInit s =
     (let s1 = log_temp Sensor_init
                 (s\<lparr>temp_clients := TaskList_WithDataCreate,
                    temp_period := ucast appConfigTemperatureReadingPeriodMs,
                    median_filter_window := appConfigTemperatureMedianFilterWindow,
                    weight := appConfigTemperatureSmoothingWeight\<rparr>)
      in if fake_battery_temperature s1 = INVALID_TEMPERATURE then log_temp (Sensor_request (temp_task s1)) s1 else s1)"

definition appTemperatureClientRegister ::
  "u32 \<Rightarrow> (task \<Rightarrow> nat) \<Rightarrow> task \<Rightarrow> int8 \<Rightarrow> int8 \<Rightarrow> temperature_data \<Rightarrow> (bool \<times> temperature_data) option" where
  "appTemperatureClientRegister now addr task lower_limit upper_limit s =
     do {
       let data = set_s8 CLIENT_CURRENT_STATE_INDEX TEMPERATURE_STATE_UNKNOWN
                    (set_s8 CLIENT_UPPER_LIMIT_INDEX upper_limit (set_s8 CLIENT_LOWER_LIMIT_INDEX lower_limit 0));
       (data1, s1) \<leftarrow> appTemperatureServiceClient now addr task data s;
       (added, l) \<leftarrow> TaskList_AddTaskWithData (temp_clients s1) task data1;
       PanicFalse added;
       Some (True, s1\<lparr>temp_clients := l\<rparr>)
     }"

definition appTemperatureClientUnregister :: "task \<Rightarrow> temperature_data \<Rightarrow> temperature_data option" where
  "appTemperatureClientUnregister task s =
     do {
       (removed, l) \<leftarrow> TaskList_RemoveTask (temp_clients s) task;
       PanicFalse removed;
       Some (s\<lparr>temp_clients := l\<rparr>)
     }"

definition appTemperatureClientGetState :: "task \<Rightarrow> temperature_data \<Rightarrow> temperatureState option" where
  "appTemperatureClientGetState task s =
     do {
       found \<leftarrow> TaskList_GetDataForTaskRaw (temp_clients s) task;
       i \<leftarrow> found;
       d \<leftarrow> read_cell (tl_data (temp_clients s)) i;
       Some (get_s8 CLIENT_CURRENT_STATE_INDEX d)
     }"

definition Temperature_SetConfigurationTable ::
  "temperature_lookup list option \<Rightarrow> u32 \<Rightarrow> temperature_data \<Rightarrow> temperature_data" where
  "Temperature_SetConfigurationTable config_table config_size s =
     s\<lparr>temperature_config_table := config_table, temperature_config_size := config_size\<rparr>"

definition appTemperatureSetFakeValue ::
  "u32 \<Rightarrow> (task \<Rightarrow> nat) \<Rightarrow> int8 \<Rightarrow> temperature_data \<Rightarrow> temperature_data option" where
  "appTemperatureSetFakeValue now addr temperature s =
     appTemperatureServiceClients now addr (s\<lparr>fake_battery_temperature := temperature\<rparr>)"

definition appTemperatureUnsetFakeValue :: "u32 \<Rightarrow> temperature_data \<Rightarrow> temperature_data option" where
  "appTemperatureUnsetFakeValue now s =
     trigger_measurement now 0 (s\<lparr>fake_battery_temperature := INVALID_TEMPERATURE\<rparr>)"

definition appTemperatureTestInjectFakeLevel ::
  "u32 \<Rightarrow> (task \<Rightarrow> nat) \<Rightarrow> int8 \<Rightarrow> temperature_data \<Rightarrow> temperature_data option" where
  "appTemperatureTestInjectFakeLevel now addr temperature s =
     handleTemperatureReading now addr temperature (s\<lparr>battery_temp_test_on := True\<rparr>)"

definition appTemperatureResumeAdcMeasurements :: "u32 \<Rightarrow> temperature_data \<Rightarrow> temperature_data option" where
  "appTemperatureResumeAdcMeasurements now s = trigger_measurement now 0 (s\<lparr>battery_temp_test_on := False\<rparr>)"

section \<open>The earbud's thermistor\<close>

definition lookup :: "nat \<Rightarrow> int \<Rightarrow> temperature_lookup" where
  "lookup v t = \<lparr>lk_voltage = of_nat v, lk_temperature = word_of_int t\<rparr>"

definition earbud_temperature_config_table :: "temperature_lookup list" where
  "earbud_temperature_config_table =
   [
    lookup 1730 (-40), lookup 1725 (-39), lookup 1721 (-38), lookup 1716 (-37), lookup 1711 (-36),
    lookup 1706 (-35), lookup 1700 (-34), lookup 1695 (-33), lookup 1689 (-32), lookup 1682 (-31),
    lookup 1676 (-30), lookup 1669 (-29), lookup 1662 (-28), lookup 1654 (-27), lookup 1647 (-26),
    lookup 1639 (-25), lookup 1630 (-24), lookup 1622 (-23), lookup 1613 (-22), lookup 1603 (-21),
    lookup 1594 (-20), lookup 1584 (-19), lookup 1574 (-18), lookup 1563 (-17), lookup 1552 (-16),
    lookup 1541 (-15), lookup 1529 (-14), lookup 1517 (-13), lookup 1505 (-12), lookup 1493 (-11),
    lookup 1480 (-10), lookup 1467 (-9), lookup 1453 (-8), lookup 1439 (-7), lookup 1425 (-6),
    lookup 1411 (-5), lookup 1396 (-4), lookup 1381 (-3), lookup 1366 (-2), lookup 1350 (-1), lookup 1334 0,
    lookup 1318 1, lookup 1302 2, lookup 1286 3, lookup 1269 4, lookup 1252 5, lookup 1235 6, lookup 1218 7,
    lookup 1201 8, lookup 1183 9, lookup 1166 10, lookup 1148 11, lookup 1131 12, lookup 1113 13,
    lookup 1095 14, lookup 1077 15, lookup 1059 16, lookup 1041 17, lookup 1023 18, lookup 1005 19,
    lookup 988 20, lookup 970 21, lookup 952 22, lookup 934 23, lookup 917 24, lookup 900 25, lookup 882 26,
    lookup 865 27, lookup 848 28, lookup 831 29, lookup 814 30, lookup 798 31, lookup 781 32, lookup 765 33,
    lookup 749 34, lookup 733 35, lookup 718 36, lookup 702 37, lookup 687 38, lookup 672 39, lookup 657 40,
    lookup 643 41, lookup 629 42, lookup 614 43, lookup 601 44, lookup 587 45, lookup 574 46, lookup 561 47,
    lookup 548 48, lookup 535 49, lookup 523 50, lookup 511 51, lookup 499 52, lookup 487 53, lookup 476 54,
    lookup 465 55, lookup 454 56, lookup 443 57, lookup 433 58, lookup 423 59, lookup 413 60, lookup 403 61,
    lookup 394 62, lookup 384 63, lookup 375 64, lookup 366 65, lookup 358 66, lookup 349 67, lookup 341 68,
    lookup 333 69, lookup 325 70, lookup 317 71, lookup 310 72, lookup 302 73, lookup 295 74, lookup 288 75,
    lookup 282 76, lookup 275 77, lookup 269 78, lookup 262 79, lookup 256 80, lookup 250 81, lookup 244 82,
    lookup 239 83, lookup 233 84, lookup 228 85
   ]"

definition EarbudTemperature_GetConfigTable :: "temperature_lookup list \<times> u32" where
  "EarbudTemperature_GetConfigTable =
     (earbud_temperature_config_table, of_nat (length earbud_temperature_config_table))"

section \<open>The lookup\<close>

text \<open>A table calibrated for the range: falling voltages, one entry for each degree from the lowest.\<close>

definition calibrated :: "temperature_lookup list \<Rightarrow> bool" where
  "calibrated xs =
     (length xs = nat (TEMPERATURE_MAX - TEMPERATURE_MIN) + 1
      \<and> successively (\<lambda>a b. lk_voltage b < lk_voltage a) xs
      \<and> map lk_temperature xs = map (\<lambda>i. word_of_int (TEMPERATURE_MIN + int i)) [0 ..< length xs])"

definition in_range :: "int8 \<Rightarrow> bool" where
  "in_range t = (TEMPERATURE_MIN \<le> sint t \<and> sint t \<le> TEMPERATURE_MAX)"

text \<open>The specification: the first entry, from the coldest, whose voltage is not above the reading.\<close>

definition temperature_of :: "temperature_lookup list \<Rightarrow> u16 \<Rightarrow> int8" where
  "temperature_of xs voltage =
     (case find (\<lambda>e. lk_voltage e \<le> voltage) xs of None \<Rightarrow> word_of_int TEMPERATURE_MAX | Some e \<Rightarrow> lk_temperature e)"

lemma earbud_table_calibrated: "calibrated earbud_temperature_config_table"
proof -
  have "length earbud_temperature_config_table = nat (TEMPERATURE_MAX - TEMPERATURE_MIN) + 1"
    by (simp add: earbud_temperature_config_table_def TEMPERATURE_MAX_def TEMPERATURE_MIN_def)
  moreover have "successively (\<lambda>a b. lk_voltage b < lk_voltage a) earbud_temperature_config_table"
    by (simp add: earbud_temperature_config_table_def lookup_def)
  moreover have "map lk_temperature earbud_temperature_config_table
      = map (\<lambda>i. word_of_int (TEMPERATURE_MIN + int i)) [0 ..< length earbud_temperature_config_table]"
    by (simp add: earbud_temperature_config_table_def lookup_def TEMPERATURE_MIN_def upt_rec)
  ultimately show ?thesis by (simp add: calibrated_def)
qed

lemma calibrated_sorted: "calibrated xs \<Longrightarrow> sorted_wrt (\<lambda>a b. lk_voltage b < lk_voltage a) xs"
proof -
  have "transp (\<lambda>a b :: temperature_lookup. lk_voltage b < lk_voltage a)" by (intro transpI) (rule order.strict_trans)
  from successively_conv_sorted_wrt [OF this] show "calibrated xs \<Longrightarrow> ?thesis" by (simp add: calibrated_def)
qed

lemma unat_of_small: "n < 2 ^ 32 \<Longrightarrow> unat (of_nat n :: u32) = n"
  by (simp add: unsigned_of_nat take_bit_nat_eq_self)

lemma find_first:
  "m < length xs \<Longrightarrow> P (xs ! m) \<Longrightarrow> (\<And>j. j < m \<Longrightarrow> \<not> P (xs ! j)) \<Longrightarrow> find P xs = Some (xs ! m)"
  by (auto simp: find_Some_iff)

lemma find_from: "(\<And>j. j < n \<Longrightarrow> j < length xs \<Longrightarrow> \<not> P (xs ! j)) \<Longrightarrow> find P xs = find P (drop n xs)"
proof (induction n arbitrary: xs)
  case (Suc n)
  show ?case
  proof (cases xs)
    case (Cons x ys)
    have "\<not> P x" using Suc(2) [of 0] Cons by simp
    moreover have "find P ys = find P (drop n ys)" by (rule Suc(1)) (use Suc(2) [of "Suc _"] Cons in auto)
    ultimately show ?thesis using Cons by simp
  qed simp
qed simp

lemma search_forward_find:
  assumes "length xs < 2 ^ 32" "n \<le> length xs"
  shows "search_forward (Some xs) (of_nat (length xs)) voltage (of_nat n) = Some (temperature_of (drop n xs) voltage)"
  using assms(2)
proof (induction "length xs - n" arbitrary: n)
  case 0
  then show ?case by (subst search_forward.simps) (simp add: temperature_of_def)
next
  case (Suc m)
  then have n: "n < length xs" "n < 2 ^ 32" using assms(1) by linarith+
  then have u: "unat (of_nat n :: u32) = n" "of_nat n < (of_nat (length xs) :: u32)"
    using assms(1) by (simp_all add: unsigned_of_nat take_bit_nat_eq_self word_less_nat_alt)
  have d: "drop n xs = xs ! n # drop (n + 1) xs" using n(1) by (simp add: Cons_nth_drop_Suc)
  have "search_forward (Some xs) (of_nat (length xs)) voltage (of_nat (n + 1)) = Some (temperature_of (drop (n + 1) xs) voltage)"
    by (rule Suc(1)) (use Suc(2) n in auto)
  then show ?case
    using u n(1) unfolding d by (subst search_forward.simps) (simp add: read_lookup_def temperature_of_def add.commute)
qed

lemma search_back_find:
  assumes "sorted_wrt (\<lambda>a b. lk_voltage b < lk_voltage a) xs" "lk_temperature (xs ! 0) = word_of_int TEMPERATURE_MIN"
    "length xs < 2 ^ 32" "n < length xs" "lk_voltage (xs ! n) \<le> voltage"
  shows "search_back (Some xs) voltage (lk_voltage (xs ! n)) (of_nat n) = Some (temperature_of xs voltage)"
  using assms(4,5)
proof (induction n)
  case 0
  then have "find (\<lambda>e. lk_voltage e \<le> voltage) xs = Some (xs ! 0)" by (intro find_first) auto
  then show ?case using assms(2) by (subst search_back.simps) (simp add: temperature_of_def)
next
  case (Suc n)
  have u: "unat (of_nat (Suc n) :: u32) = Suc n" "of_nat (Suc n) - 1 = (of_nat n :: u32)" "unat (of_nat n :: u32) = n"
    using Suc(2) assms(3) by (simp_all add: unsigned_of_nat take_bit_nat_eq_self del: of_nat_Suc) simp
  then have "(of_nat (Suc n) :: u32) > 0" by (simp add: word_less_nat_alt del: of_nat_Suc)
  note step = this u Suc(2,3)
  show ?case
  proof (cases "voltage < lk_voltage (xs ! n)")
    case True
    have "find (\<lambda>e. lk_voltage e \<le> voltage) xs = Some (xs ! Suc n)"
    proof (rule find_first)
      fix j assume "j < Suc n"
      then have "lk_voltage (xs ! n) \<le> lk_voltage (xs ! j)"
        using sorted_wrt_nth_less [OF assms(1), of j n] Suc(2) by (cases "j = n") auto
      then show "\<not> lk_voltage (xs ! j) \<le> voltage" using True by auto
    qed (use Suc(2,3) in auto)
    then show ?thesis
      using step True by (subst search_back.simps) (simp add: read_lookup_def temperature_of_def del: of_nat_Suc)
  next
    case False
    then have "search_back (Some xs) voltage (lk_voltage (xs ! n)) (of_nat n) = Some (temperature_of xs voltage)"
      using Suc(1,2) by simp
    then show ?thesis
      using step False by (subst search_back.simps) (simp add: read_lookup_def del: of_nat_Suc)
  qed
qed

lemma lookup_stateless:
  assumes "calibrated xs" "temperature_config_table s = Some xs" "temperature_config_size s = of_nat (length xs)"
    "in_range prev"
  shows "temperature_GetTemperature voltage prev s = Some (temperature_of xs voltage)"
proof -
  have len: "length xs = 126" using assms(1) by (simp add: calibrated_def TEMPERATURE_MAX_def TEMPERATURE_MIN_def)
  have srt: "sorted_wrt (\<lambda>a b. lk_voltage b < lk_voltage a) xs" using calibrated_sorted [OF assms(1)] .
  have "0 \<le> sint prev - TEMPERATURE_MIN" using assms(4) by (simp add: in_range_def)
  then obtain n where i: "sint prev - TEMPERATURE_MIN = int n" by (rule nonneg_int_cases)
  have n: "n < length xs" using assms(4) i unfolding in_range_def len TEMPERATURE_MAX_def TEMPERATURE_MIN_def by linarith
  have w: "word_of_int (sint prev - TEMPERATURE_MIN) = (of_nat n :: u32)" unfolding i by simp
  have u: "unat (of_nat n :: u32) = n" by (rule unat_of_small) (use n len in simp)
  have rd: "read_lookup (Some xs) (of_nat n) = Some (xs ! n)" using u n by (simp add: read_lookup_def)
  have "map lk_temperature xs ! 0 = map (\<lambda>i. word_of_int (TEMPERATURE_MIN + int i)) [0 ..< length xs] ! 0"
    using assms(1) by (simp add: calibrated_def)
  then have first: "lk_temperature (xs ! 0) = word_of_int TEMPERATURE_MIN" using len by simp
  have big: "length xs < 2 ^ 32" using len by simp
  show ?thesis
  proof (cases "voltage < lk_voltage (xs ! n)")
    case True
    have "\<not> lk_voltage (xs ! j) \<le> voltage" if "j < n + 1" for j
    proof -
      have "lk_voltage (xs ! n) \<le> lk_voltage (xs ! j)"
        using sorted_wrt_nth_less [OF srt, of j n] n that by (cases "j = n") auto
      then show ?thesis using True by auto
    qed
    then have "temperature_of (drop (n + 1) xs) voltage = temperature_of xs voltage"
      using find_from [of "n + 1" xs "\<lambda>e. lk_voltage e \<le> voltage"] by (simp add: temperature_of_def)
    moreover have "search_forward (Some xs) (of_nat (length xs)) voltage (of_nat (n + 1))
        = Some (temperature_of (drop (n + 1) xs) voltage)"
      by (rule search_forward_find) (use big n in auto)
    moreover have "of_nat n + 1 = (of_nat (n + 1) :: u32)" by simp
    ultimately show ?thesis
      unfolding temperature_GetTemperature_def Let_def w assms(2,3) rd using True by (simp add: add.commute)
  next
    case False
    then show ?thesis
      unfolding temperature_GetTemperature_def Let_def w assms(2,3) rd
      using search_back_find [OF srt first big n, of voltage] by simp
  qed
qed

lemma temperature_of_range:
  assumes "calibrated xs"
  shows "in_range (temperature_of xs voltage)"
proof (cases "find (\<lambda>e. lk_voltage e \<le> voltage) xs")
  case None
  then show ?thesis by (simp add: temperature_of_def in_range_def TEMPERATURE_MAX_def TEMPERATURE_MIN_def)
next
  case (Some e)
  then obtain i where i: "i < length xs" "e = xs ! i" by (auto simp: find_Some_iff)
  have len: "length xs = 126" using assms by (simp add: calibrated_def TEMPERATURE_MAX_def TEMPERATURE_MIN_def)
  have "map lk_temperature xs ! i = map (\<lambda>i. word_of_int (TEMPERATURE_MIN + int i)) [0 ..< length xs] ! i"
    using assms by (simp add: calibrated_def)
  then have "lk_temperature e = word_of_int (TEMPERATURE_MIN + int i)" using i by simp
  then have "sint (lk_temperature e) = TEMPERATURE_MIN + int i"
    using i(1) len by (simp only: sint_sbintrunc' TEMPERATURE_MIN_def) (rule signed_take_bit_int_eq_self, simp_all)
  then show ?thesis using Some i(1) len by (simp add: temperature_of_def in_range_def TEMPERATURE_MAX_def TEMPERATURE_MIN_def)
qed

section \<open>Sorting the readings\<close>

lemma swap_step_simps [simp]:
  "length (swap_step j k xs) = length xs"
  by (simp add: swap_step_def)

lemma swap_step_mset: "j < length xs \<Longrightarrow> k < length xs \<Longrightarrow> mset (swap_step j k xs) = mset xs"
  by (simp add: swap_step_def mset_swap)

text \<open>One pass brings the smallest of the readings from \<open>j\<close> on to \<open>j\<close>.\<close>

lemma sort_pass:
  assumes "j < m" "m \<le> length xs"
  shows "length (fold (swap_step j) [j + 1 ..< m] xs) = length xs
    \<and> mset (fold (swap_step j) [j + 1 ..< m] xs) = mset xs
    \<and> take j (fold (swap_step j) [j + 1 ..< m] xs) = take j xs
    \<and> (\<forall>k. j \<le> k \<and> k < m \<longrightarrow> sint (fold (swap_step j) [j + 1 ..< m] xs ! j) \<le> sint (fold (swap_step j) [j + 1 ..< m] xs ! k))"
  using assms
proof (induction m)
  case (Suc m)
  show ?case
  proof (cases "j = m")
    case False
    then have m: "j < m" "m < length xs" using Suc.prems by simp_all
    define ys where "ys = fold (swap_step j) [j + 1 ..< m] xs"
    have ys: "length ys = length xs" "mset ys = mset xs" "take j ys = take j xs"
      "\<And>k. j \<le> k \<Longrightarrow> k < m \<Longrightarrow> sint (ys ! j) \<le> sint (ys ! k)"
      using Suc.IH m by (simp_all add: ys_def)
    have f: "fold (swap_step j) [j + 1 ..< Suc m] xs = swap_step j m ys" using m by (simp add: ys_def)
    have "take j (swap_step j m ys) = take j ys" using m by (simp add: swap_step_def)
    moreover have "mset (swap_step j m ys) = mset ys" using m ys(1) by (intro swap_step_mset) simp_all
    moreover have "sint (swap_step j m ys ! j) \<le> sint (swap_step j m ys ! k)" if "j \<le> k" "k < Suc m" for k
      using ys(1) that m ys(4) [of k]
      by (cases "k = m"; cases "k = j") (auto simp: swap_step_def nth_list_update)
    ultimately show ?thesis unfolding f using ys by simp
  next
    case True
    have "sint (xs ! j) \<le> sint (xs ! k)" if "j \<le> k" "k < Suc m" for k
      using that True by (cases "k = j") simp_all
    then show ?thesis using True by simp
  qed
qed simp

lemma sort_from_facts:
  assumes "j < length xs"
  shows "length (sort_from j xs) = length xs" "mset (sort_from j xs) = mset xs" "take j (sort_from j xs) = take j xs"
    "k < length xs \<Longrightarrow> j \<le> k \<Longrightarrow> sint (sort_from j xs ! j) \<le> sint (sort_from j xs ! k)"
  using sort_pass [OF assms order.refl] by (auto simp: sort_from_def)

lemma sort_readings_upto:
  assumes "n \<le> length xs"
  shows "length (fold sort_from [0 ..< n] xs) = length xs \<and> mset (fold sort_from [0 ..< n] xs) = mset xs
    \<and> sorted (map sint (take n (fold sort_from [0 ..< n] xs)))
    \<and> (\<forall>a\<in>set (take n (fold sort_from [0 ..< n] xs)). \<forall>b\<in>set (drop n (fold sort_from [0 ..< n] xs)). sint a \<le> sint b)"
  using assms
proof (induction n)
  case (Suc n)
  define ys where "ys = fold sort_from [0 ..< n] xs"
  have ys: "length ys = length xs" "mset ys = mset xs" "sorted (map sint (take n ys))"
    "\<And>a b. a \<in> set (take n ys) \<Longrightarrow> b \<in> set (drop n ys) \<Longrightarrow> sint a \<le> sint b"
    using Suc by (auto simp: ys_def)
  have n: "n < length ys" using Suc(2) ys(1) by simp
  let ?zs = "sort_from n ys"
  note zs = sort_from_facts [OF n]
  have f: "fold sort_from [0 ..< Suc n] xs = ?zs" by (simp add: ys_def)
  have "mset (take n ?zs) + mset (drop n ?zs) = mset (take n ys) + mset (drop n ys)"
    using zs(2) by (metis append_take_drop_id mset_append)
  then have "mset (drop n ?zs) = mset (drop n ys)" by (simp add: zs(3))
  then have dz: "set (drop n ?zs) = set (drop n ys)" by (rule mset_eq_setD)
  have tz: "take (Suc n) ?zs = take n ys @ [?zs ! n]" using n zs(1,3) by (simp add: take_Suc_conv_app_nth)
  have "?zs ! n \<in> set (drop n ?zs)" using n zs(1) by (simp add: Cons_nth_drop_Suc [symmetric])
  then have low: "\<forall>a\<in>set (take n ys). sint a \<le> sint (?zs ! n)" using ys(4) dz by simp
  have "sint (?zs ! n) \<le> sint b" if b: "b \<in> set (drop (Suc n) ?zs)" for b
  proof -
    obtain i where "i < length (drop (Suc n) ?zs)" "b = drop (Suc n) ?zs ! i"
      using b unfolding in_set_conv_nth by blast
    then show ?thesis using zs(1) zs(4) [of "Suc n + i"] by simp
  qed
  moreover have "set (drop (Suc n) ?zs) \<subseteq> set (drop n ?zs)" by (rule set_drop_subset_set_drop) simp
  ultimately have "\<forall>a\<in>set (take (Suc n) ?zs). \<forall>b\<in>set (drop (Suc n) ?zs). sint a \<le> sint b"
    using ys(4) dz by (auto simp: tz)
  moreover have "sorted (map sint (take (Suc n) ?zs))" using ys(3) low by (simp add: tz sorted_append)
  ultimately show ?case unfolding f using zs(1,2) ys(1,2) by simp
qed simp

text \<open>The specification of the median filter.\<close>

definition median :: "int8 list \<Rightarrow> int" where
  "median xs = sort (map sint xs) ! ((length xs - 1) div 2)"

lemma sort_readings_median:
  assumes "xs \<noteq> []"
  shows "length (sort_readings xs) = length xs" "set (sort_readings xs) = set xs"
    "sint (sort_readings xs ! ((length xs - 1) div 2)) = median xs"
proof -
  have s: "length (sort_readings xs) = length xs" "mset (sort_readings xs) = mset xs" "sorted (map sint (sort_readings xs))"
    using sort_readings_upto [of "length xs" xs] by (auto simp: sort_readings_def)
  show "length (sort_readings xs) = length xs" by (rule s(1))
  show "set (sort_readings xs) = set xs" by (rule mset_eq_setD [OF s(2)])
  have "sort (map sint xs) = map sint (sort_readings xs)"
    using s(2,3) by (intro properties_for_sort) simp_all
  moreover have "(length xs - 1) div 2 < length xs" using assms by (cases xs) auto
  ultimately show "sint (sort_readings xs ! ((length xs - 1) div 2)) = median xs" using s(1) by (simp add: median_def)
qed

section \<open>The median filter\<close>

definition last_readings :: "nat \<Rightarrow> int8 list \<Rightarrow> int8 list" where
  "last_readings n hist = drop (length hist - n) hist"

text \<open>The static variables of the filter after the readings \<open>hist\<close>.\<close>

definition filter_holds :: "int8 list \<Rightarrow> temperature_data \<Rightarrow> bool" where
  "filter_holds hist s =
     (let w = unat (median_filter_window s); n = min (length hist) (w - 1)
      in 0 < w \<and> w < 256 \<and> unat (filter_index s) = n
         \<and> (case input_arr s of
              None \<Rightarrow> hist = []
            | Some arr \<Rightarrow> length arr = w \<and> take n arr = map Some (last_readings n hist)))"

lemma shift_input_shifts:
  assumes "n < length xs" "i \<le> n"
  shows "shift_input [i ..< n] xs = Some (take i xs @ drop (i + 1) (take (n + 1) xs) @ drop n xs)"
  using assms
proof (induction "n - i" arbitrary: i xs)
  case 0
  then show ?case by simp
next
  case (Suc m)
  then have i: "i < n" by simp
  let ?ys = "xs[i := xs ! (i + 1)]"
  have "shift_input [i + 1 ..< n] ?ys = Some (take (i + 1) ?ys @ drop (i + 1 + 1) (take (n + 1) ?ys) @ drop n ?ys)"
    by (rule Suc(1)) (use Suc i in auto)
  moreover have "take (i + 1) ?ys = take i xs @ [xs ! (i + 1)]" using i Suc(3) by (simp add: take_Suc_conv_app_nth)
  moreover have "drop (i + 1) (take (n + 1) xs) = xs ! (i + 1) # drop (i + 1 + 1) (take (n + 1) xs)"
    using i Suc(3) by (simp add: Cons_nth_drop_Suc [symmetric])
  moreover have "drop (i + 1 + 1) (take (n + 1) ?ys) = drop (i + 1 + 1) (take (n + 1) xs)" "drop n ?ys = drop n xs"
    using i by (simp_all add: take_update_swap)
  ultimately show ?case using i Suc(3) by (simp add: upt_conv_Cons)
qed

lemma those_map_Some [simp]: "those (map Some xs) = Some xs"
  by (induction xs) simp_all

lemma median_step:
  assumes "filter_holds hist s"
  shows "\<exists>m arr i. temperature_MedianFiltering r s = Some (m, s\<lparr>input_arr := arr, filter_index := i\<rparr>)
    \<and> filter_holds (hist @ [r]) (s\<lparr>input_arr := arr, filter_index := i\<rparr>)
    \<and> sint m = median (last_readings (unat (median_filter_window s)) (hist @ [r]))
    \<and> m \<in> set (last_readings (unat (median_filter_window s)) (hist @ [r]))"
proof -
  define w where "w = unat (median_filter_window s)"
  define n where "n = min (length hist) (w - 1)"
  define arr where "arr = (case input_arr s of None \<Rightarrow> replicate w None | Some xs \<Rightarrow> xs)"
  have w: "0 < w" "w < 256" and n: "unat (filter_index s) = n" and arr: "length arr = w"
    "take n arr = map Some (last_readings n hist)"
    using assms by (auto simp: filter_holds_def Let_def w_def n_def arr_def last_readings_def split: option.splits)
  define arr1 where "arr1 = arr[n := Some r]"
  define L where "L = last_readings n hist @ [r]"
  have nw: "n < w" "n \<le> length hist" using w(1) by (auto simp: n_def)
  have L: "L = last_readings (n + 1) (hist @ [r])" "length L = n + 1" using nw(2) by (simp_all add: L_def last_readings_def)
  have "last_readings w (hist @ [r]) = L"
    unfolding L(1) using w(1) by (cases "length hist < w") (auto simp: last_readings_def n_def min_def)
  note Lw = this
  have arr1: "length arr1 = w" "take (n + 1) arr1 = map Some L" "write_cell arr n (Some r) = Some arr1"
    using arr nw(1) by (simp_all add: arr1_def L_def take_Suc_conv_app_nth write_cell_def)
  define m where "m = sort_readings L ! (n div 2)"
  have "L \<noteq> []" by (simp add: L_def)
  note md = sort_readings_median [OF this]
  have m: "sint m = median L" "m \<in> set L"
    using md(3) L(2) md(1,2) nth_mem [of "n div 2" "sort_readings L"] by (simp_all add: m_def)
  have i: "n \<noteq> 255" using nw(1) w(2) by simp
  show ?thesis
  proof (cases "n = w - 1")
    case True
    define arr2 where "arr2 = drop 1 arr1 @ drop (w - 1) arr1"
    have "shift_input [0 ..< w - 1] arr1 = Some arr2"
      using shift_input_shifts [of "w - 1" arr1 0] arr1(1) w(1) by (simp add: arr2_def)
    moreover have "write_cell arr2 (w - 1) (Some 0) = Some (arr2[w - 1 := Some 0])"
      using arr1(1) w(1) by (simp add: arr2_def write_cell_def)
    ultimately have f: "temperature_MedianFiltering r s = Some (m, s\<lparr>input_arr := Some (arr2[w - 1 := Some 0]), filter_index := filter_index s\<rparr>)"
      using arr1 n i True w(1)
      by (simp add: temperature_MedianFiltering_def Let_def w_def [symmetric] arr_def [symmetric] m_def)
    have len: "length (arr2[w - 1 := Some 0]) = w" using arr1(1) w(1) by (simp add: arr2_def)
    have "take (w - 1) (arr2[w - 1 := Some 0]) = drop 1 arr1" using arr1(1) by (simp add: arr2_def)
    also have "\<dots> = map Some (drop 1 L)" using arr1(1,2) True w(1) by (simp add: drop_map [symmetric])
    also have "drop 1 L = last_readings n (hist @ [r])" using nw(2) unfolding L(1) by (simp add: last_readings_def Suc_diff_le)
    finally have "filter_holds (hist @ [r]) (s\<lparr>input_arr := Some (arr2[w - 1 := Some 0]), filter_index := filter_index s\<rparr>)"
      using w n nw(2) True len by (simp add: filter_holds_def Let_def w_def [symmetric])
    then show ?thesis using f m Lw
      by (intro exI [of _ m] exI [of _ "Some (arr2[w - 1 := Some 0])"] exI [of _ "filter_index s"]) (simp add: w_def)
  next
    case False
    have int: "int n \<noteq> int w - 1" using False w(1) by linarith
    have f: "temperature_MedianFiltering r s = Some (m, s\<lparr>input_arr := Some arr1, filter_index := filter_index s + 1\<rparr>)"
      using arr1 n i int
      by (simp add: temperature_MedianFiltering_def Let_def w_def [symmetric] arr_def [symmetric] m_def)
    have hn: "n = length hist" "n + 1 \<le> w - 1" using False by (auto simp: n_def)
    have "unat (filter_index s + 1) = n + 1"
      using n hn(2) w(2) by (simp add: unat_word_ariths)
    then have "filter_holds (hist @ [r]) (s\<lparr>input_arr := Some arr1, filter_index := filter_index s + 1\<rparr>)"
      using w hn arr1 L(1) by (simp add: filter_holds_def Let_def w_def [symmetric])
    then show ?thesis using f m Lw
      by (intro exI [of _ m] exI [of _ "Some arr1"] exI [of _ "filter_index s + 1"]) (simp add: w_def)
  qed
qed

section \<open>The average\<close>

lemma sdiv_bounds:
  fixes x :: int
  assumes "100 * lo \<le> x" "x \<le> 100 * hi"
  shows "lo \<le> x sdiv 100 \<and> x sdiv 100 \<le> hi"
proof -
  have d: "a \<le> y div 100" "y div 100 \<le> b" if "100 * a \<le> y" "y \<le> 100 * b" for a b y :: int
    using zdiv_mono1 [OF that(1), of 100] zdiv_mono1 [OF that(2), of 100] by simp_all
  show ?thesis
  proof (cases "0 \<le> x")
    case True
    then have "x sdiv 100 = x div 100" by (cases "x = 0") (simp_all add: signed_divide_int_def)
    then show ?thesis using d [OF assms] by simp
  next
    case False
    then have "x sdiv 100 = - ((- x) div 100)" by (simp add: signed_divide_int_def)
    moreover have "100 * (- hi) \<le> - x" "- x \<le> 100 * (- lo)" using assms by linarith+
    ultimately show ?thesis using d [of "- hi" "- x" "- lo"] by linarith
  qed
qed

lemma sint_word32: "- (2 ^ 31) \<le> x \<Longrightarrow> x < 2 ^ 31 \<Longrightarrow> sint (word_of_int x :: int32) = x"
  by (simp only: sint_sbintrunc') (rule signed_take_bit_int_eq_self, simp_all)

lemma sint_word8: "- 128 \<le> x \<Longrightarrow> x \<le> 127 \<Longrightarrow> sint (word_of_int x :: int8) = x"
  by (simp only: sint_sbintrunc') (rule signed_take_bit_int_eq_self, simp_all)

lemma sint8_range: "- 128 \<le> sint (t :: int8)" "sint (t :: int8) \<le> 127"
  using sint_range_size [of t] by (simp_all add: word_size)

lemma ExponentialAverage_between:
  assumes "uint (weight s) \<le> 100" "lo \<le> sint reading" "sint reading \<le> hi" "- 128 \<le> lo" "hi \<le> 127"
    "ema_t s \<noteq> 1 \<longrightarrow> 100 * lo \<le> sint (last_ema s) \<and> sint (last_ema s) \<le> 100 * hi"
    "temperature_ExponentialAverage reading s = (ema, s')"
  shows "100 * lo \<le> sint ema \<and> sint ema \<le> 100 * hi"
proof (cases "ema_t s = 1")
  case True
  then have "ema = word_of_int (sint reading * 100)" using assms(7) by (simp add: temperature_ExponentialAverage_def)
  moreover have "sint (word_of_int (sint reading * 100) :: int32) = sint reading * 100"
    by (rule sint_word32) (use assms(2-5) in simp_all)
  ultimately have "sint ema = sint reading * 100" by (simp only:)
  then show ?thesis using assms(2,3) by simp
next
  case False
  let ?w = "uint (weight s)" and ?e = "sint (last_ema s)" and ?r = "sint reading"
  define v where "v = 100 - ?w"
  have w: "0 \<le> ?w" "0 \<le> v" "v \<le> 100" "?w + v = 100" using assms(1) by (simp_all add: v_def)
  have e: "100 * lo \<le> ?e" "?e \<le> 100 * hi" using assms(6) False by simp_all
  have x: "100 * (v * lo) \<le> v * ?e" "v * ?e \<le> 100 * (v * hi)"
    using mult_left_mono [OF e(1) w(2)] mult_left_mono [OF e(2) w(2)] by (simp_all add: algebra_simps)
  have b: "- 12800 \<le> v * lo" "v * hi \<le> 12700"
  proof -
    have "v * (- 128) \<le> v * lo" by (rule mult_left_mono [OF assms(4) w(2)])
    then show "- 12800 \<le> v * lo" using w by linarith
    have "v * hi \<le> v * 127" by (rule mult_left_mono [OF assms(5) w(2)])
    then show "v * hi \<le> 12700" using w by linarith
  qed
  have s: "sint (word_of_int (v * ?e) :: int32) = v * ?e"
    by (rule sint_word32) (use x b in simp_all)
  define q where "q = (v * ?e) sdiv 100"
  have q: "v * lo \<le> q" "q \<le> v * hi" using sdiv_bounds [OF x] by (simp_all add: q_def)
  have r: "?w * lo \<le> ?w * ?r" "?w * ?r \<le> ?w * hi"
    by (rule mult_left_mono [OF assms(2) w(1)], rule mult_left_mono [OF assms(3) w(1)])
  have sum: "100 * lo \<le> ?w * ?r + q" "?w * ?r + q \<le> 100 * hi"
  proof -
    have "(?w + v) * lo = ?w * lo + v * lo" "(?w + v) * hi = ?w * hi + v * hi" by (simp_all only: distrib_right)
    then show "100 * lo \<le> ?w * ?r + q" "?w * ?r + q \<le> 100 * hi" using q r unfolding w(4) by linarith+
  qed
  have "ema = word_of_int (?w * ?r) + word_of_int (sint (word_of_int ((100 - ?w) * ?e) :: int32) sdiv 100)"
    using assms(7) False by (auto simp: temperature_ExponentialAverage_def)
  then have "ema = word_of_int (?w * ?r + q)" unfolding v_def [symmetric] s q_def [symmetric] by (simp only: of_int_add)
  moreover have "sint (word_of_int (?w * ?r + q) :: int32) = ?w * ?r + q"
    by (rule sint_word32) (use sum assms(4,5) in simp_all)
  ultimately show ?thesis using sum by simp
qed

lemma ExponentialAverage_frame:
  "temperature_ExponentialAverage reading s = (ema, s') \<Longrightarrow> s' = s\<lparr>ema_t := ema_t s'\<rparr> \<and> (ema_t s' = 1 \<longleftrightarrow> False) \<or> s' = s \<and> ema_t s \<noteq> 1"
  by (auto simp: temperature_ExponentialAverage_def split: if_splits)

section \<open>The clients\<close>

lemma s8_simps:
  "get_s8 i (set_s8 i v d) = v" if "i < 8"
  using that by (intro bit_word_eqI) (auto simp: get_s8_def set_s8_def bit_simps)

lemma s8_other:
  assumes "i \<noteq> j"
  shows "get_s8 j (set_s8 i v d) = get_s8 j d"
proof (intro bit_word_eqI)
  fix n assume "n < LENGTH(8)"
  then have n: "n < 8" by simp
  have far: "8 \<le> 8 * j + n - 8 * i" if "8 * i \<le> 8 * j + n" using assms n that by linarith
  have v: "\<not> bit v (8 * j + n - 8 * i)" if "8 * i \<le> 8 * j + n"
    using far [OF that] bit_imp_le_length [of v "8 * j + n - 8 * i"] by auto
  have d: "bit d (8 * j + n) \<Longrightarrow> 8 * j + n < 64" using bit_imp_le_length [of d "8 * j + n"] by simp
  show "bit (get_s8 j (set_s8 i v d)) n = bit (get_s8 j d) n"
    using n v far d by (auto simp: get_s8_def set_s8_def bit_simps)
qed

lemma s8_same: "set_s8 i (get_s8 i d) d = d"
  by (intro bit_word_eqI) (auto simp: get_s8_def set_s8_def bit_simps)

text \<open>The state of a client with these limits at the average \<open>a\<close>.\<close>

definition limits_state :: "int8 \<Rightarrow> task_list_data \<Rightarrow> temperatureState" where
  "limits_state a d =
     (if sint a \<ge> sint (get_s8 CLIENT_UPPER_LIMIT_INDEX d) then TEMPERATURE_STATE_ABOVE_UPPER_LIMIT
      else if sint a \<le> sint (get_s8 CLIENT_LOWER_LIMIT_INDEX d) then TEMPERATURE_STATE_BELOW_LOWER_LIMIT
      else TEMPERATURE_STATE_WITHIN_LIMITS)"

abbreviation client_state :: "task_list_data \<Rightarrow> temperatureState" where
  "client_state \<equiv> get_s8 CLIENT_CURRENT_STATE_INDEX"

abbreviation with_client_state :: "temperatureState \<Rightarrow> task_list_data \<Rightarrow> task_list_data" where
  "with_client_state \<equiv> set_s8 CLIENT_CURRENT_STATE_INDEX"

lemma not_combinable: "\<not> combinable TEMPERATURE_STATE_CHANGED_IND"
  "\<not> combinable MESSAGE_TEMPERATURE_INTERNAL_MEASUREMENT_TRIGGER"
  by code_simp+

lemma average_vm [simp]: "appTemperatureGetAverage (s\<lparr>temp_vm := q\<rparr>) = appTemperatureGetAverage s"
  by (simp add: appTemperatureGetAverage_def)

lemma ServiceClient_done:
  "\<exists>q. appTemperatureServiceClient now addr t d s
      = Some (with_client_state (limits_state (appTemperatureGetAverage s) d) d, s\<lparr>temp_vm := q\<rparr>)
    \<and> posted_ids u q = posted_ids u (temp_vm s)
        + (if u = t \<and> limits_state (appTemperatureGetAverage s) d \<noteq> client_state d
           then {#TEMPERATURE_STATE_CHANGED_IND#} else {#})"
proof -
  let ?n = "limits_state (appTemperatureGetAverage s) d"
  have e: "appTemperatureServiceClient now addr t d s
      = (if ?n \<noteq> client_state d
         then map_option (\<lambda>q. (with_client_state ?n d, s\<lparr>temp_vm := q\<rparr>))
                (MessageSend now t TEMPERATURE_STATE_CHANGED_IND (Some (addr t, App ?n)) (temp_vm s))
         else Some (d, s))"
    by (simp add: appTemperatureServiceClient_def limits_state_def Let_def)
  show ?thesis
  proof (cases "?n = client_state d")
    case True
    then show ?thesis using s8_same [of CLIENT_CURRENT_STATE_INDEX d] unfolding e
      by (intro exI [of _ "temp_vm s"]) simp
  next
    case False
    obtain q where "MessageSend now t TEMPERATURE_STATE_CHANGED_IND (Some (addr t, App ?n)) (temp_vm s) = Some q"
      "posted_ids u q = (if u = t then add_mset TEMPERATURE_STATE_CHANGED_IND (posted_ids u (temp_vm s)) else posted_ids u (temp_vm s))"
      using send_later_posted [OF not_combinable(1)] unfolding MessageSend_def MessageSendLater_def by blast
    then show ?thesis using False unfolding e by (intro exI [of _ q]) simp
  qed
qed

definition service_effect ::
  "u32 \<Rightarrow> (task \<Rightarrow> nat) \<Rightarrow> task \<Rightarrow> task_list_data \<Rightarrow> temperature_data option \<Rightarrow> temperature_data option" where
  "service_effect now addr t d arg = do { s \<leftarrow> arg; (_, s') \<leftarrow> appTemperatureServiceClient now addr t d s; Some s' }"

interpretation temperature_visitor: client_visitor "service_handler now addr"
  "\<lambda>arg. \<exists>s. arg = Some s \<and> appTemperatureGetAverage s = a" "\<lambda>t d. with_client_state (limits_state a d) d"
  "service_effect now addr" for now addr a
proof
  fix t d and arg :: "temperature_data option"
  assume "\<exists>s. arg = Some s \<and> appTemperatureGetAverage s = a"
  then obtain s where s: "arg = Some s" "appTemperatureGetAverage s = a" by blast
  then obtain q where "appTemperatureServiceClient now addr t d s
      = Some (with_client_state (limits_state a d) d, s\<lparr>temp_vm := q\<rparr>)" using ServiceClient_done by blast
  then show "service_handler now addr t (Some d) arg
      = (True, Some (with_client_state (limits_state a d) d), service_effect now addr t d arg)"
    "\<exists>s. service_effect now addr t d arg = Some s \<and> appTemperatureGetAverage s = a"
    using s by (simp_all add: service_handler_def service_effect_def)
qed

lemma service_effects:
  "\<exists>q. fold (\<lambda>(t, d). service_effect now addr t d) es (Some s) = Some (s\<lparr>temp_vm := q\<rparr>)
    \<and> posted_ids u q = posted_ids u (temp_vm s)
        + mset (map (\<lambda>_. TEMPERATURE_STATE_CHANGED_IND)
                  (filter (\<lambda>(t, d). t = u \<and> limits_state (appTemperatureGetAverage s) d \<noteq> client_state d) es))"
proof (induction es arbitrary: s)
  case Nil
  then show ?case by (intro exI [of _ "temp_vm s"]) simp
next
  case (Cons e es)
  obtain t d where e: "e = (t, d)" by (cases e)
  obtain q where q: "appTemperatureServiceClient now addr t d s
      = Some (with_client_state (limits_state (appTemperatureGetAverage s) d) d, s\<lparr>temp_vm := q\<rparr>)"
    "posted_ids u q = posted_ids u (temp_vm s)
        + (if u = t \<and> limits_state (appTemperatureGetAverage s) d \<noteq> client_state d
           then {#TEMPERATURE_STATE_CHANGED_IND#} else {#})" using ServiceClient_done by blast
  have f: "service_effect now addr t d (Some s) = Some (s\<lparr>temp_vm := q\<rparr>)" using q(1) by (simp add: service_effect_def)
  obtain q' where "fold (\<lambda>(t, d). service_effect now addr t d) es (Some (s\<lparr>temp_vm := q\<rparr>)) = Some (s\<lparr>temp_vm := q'\<rparr>)"
    "posted_ids u q' = posted_ids u q
        + mset (map (\<lambda>_. TEMPERATURE_STATE_CHANGED_IND)
                  (filter (\<lambda>(t, d). t = u \<and> limits_state (appTemperatureGetAverage s) d \<noteq> client_state d) es))"
    using Cons [of "s\<lparr>temp_vm := q\<rparr>"] by auto
  then show ?case using f q(2) by (intro exI [of _ q']) (auto simp: e)
qed

lemma inform_clients_done:
  assumes "td_valid (temp_clients s)"
  shows "\<exists>l q. appTemperatureServiceClients now addr s = Some (s\<lparr>temp_vm := q, temp_clients := l\<rparr>)
    \<and> td_valid l
    \<and> td_table l = map (\<lambda>(t, d). (t, with_client_state (limits_state (appTemperatureGetAverage s) d) d)) (td_table (temp_clients s))
    \<and> posted_ids u q = posted_ids u (temp_vm s)
        + mset (map (\<lambda>_. TEMPERATURE_STATE_CHANGED_IND)
                  (filter (\<lambda>(t, d). t = u \<and> limits_state (appTemperatureGetAverage s) d \<noteq> client_state d)
                    (td_table (temp_clients s))))"
proof -
  obtain l where l: "TaskList_IterateWithDataRawFunction (temp_clients s) (service_handler now addr) (Some s)
      = Some (True, l, fold (\<lambda>(t, d). service_effect now addr t d) (td_table (temp_clients s)) (Some s))" "td_valid l"
    "td_table l = map (\<lambda>(t, d). (t, with_client_state (limits_state (appTemperatureGetAverage s) d) d)) (td_table (temp_clients s))"
    using temperature_visitor.visits_all [OF assms, of "Some s" "appTemperatureGetAverage s" now addr] by auto
  obtain q where "fold (\<lambda>(t, d). service_effect now addr t d) (td_table (temp_clients s)) (Some s) = Some (s\<lparr>temp_vm := q\<rparr>)"
    "posted_ids u q = posted_ids u (temp_vm s)
        + mset (map (\<lambda>_. TEMPERATURE_STATE_CHANGED_IND)
                  (filter (\<lambda>(t, d). t = u \<and> limits_state (appTemperatureGetAverage s) d \<noteq> client_state d)
                    (td_table (temp_clients s))))"
    using service_effects by blast
  then show ?thesis using l by (intro exI [of _ l] exI [of _ q]) (simp add: appTemperatureServiceClients_def)
qed

text \<open>What one client gets from being served, and what it is told when it asks.\<close>

lemma ServiceClients_informs:
  assumes "td_valid (temp_clients s)" "(t, d) \<in> set (td_table (temp_clients s))"
  shows "\<exists>s'. appTemperatureServiceClients now addr s = Some s' \<and> td_valid (temp_clients s')
    \<and> (t, with_client_state (limits_state (appTemperatureGetAverage s) d) d) \<in> set (td_table (temp_clients s'))
    \<and> (limits_state (appTemperatureGetAverage s) d \<noteq> client_state d \<longrightarrow>
         TEMPERATURE_STATE_CHANGED_IND \<in># posted_ids t (temp_vm s'))"
proof -
  obtain l q where s': "appTemperatureServiceClients now addr s = Some (s\<lparr>temp_vm := q, temp_clients := l\<rparr>)" "td_valid l"
    "td_table l = map (\<lambda>(t, d). (t, with_client_state (limits_state (appTemperatureGetAverage s) d) d)) (td_table (temp_clients s))"
    "posted_ids t q = posted_ids t (temp_vm s)
        + mset (map (\<lambda>_. TEMPERATURE_STATE_CHANGED_IND)
                  (filter (\<lambda>(u, d). u = t \<and> limits_state (appTemperatureGetAverage s) d \<noteq> client_state d)
                    (td_table (temp_clients s))))"
    using inform_clients_done [OF assms(1)] by blast
  have "(t, with_client_state (limits_state (appTemperatureGetAverage s) d) d) \<in> set (td_table l)"
    unfolding s'(3) using assms(2) by (force simp: image_iff)
  moreover have "TEMPERATURE_STATE_CHANGED_IND \<in># posted_ids t q"
    if "limits_state (appTemperatureGetAverage s) d \<noteq> client_state d"
    unfolding s'(4) using assms(2) that by force
  ultimately show ?thesis using s'(1,2) by (intro exI [of _ "s\<lparr>temp_vm := q, temp_clients := l\<rparr>"]) simp
qed

lemma ClientGetState_table:
  assumes "td_valid (temp_clients s)" "(t, d) \<in> set (td_table (temp_clients s))"
  shows "appTemperatureClientGetState t s = Some (client_state d)"
proof -
  obtain i where i: "i < length (td_table (temp_clients s))" "td_table (temp_clients s) ! i = (t, d)"
    using assms(2) by (auto simp: in_set_conv_nth)
  have "read_cell (tl_data (temp_clients s)) i = Some d" using td_validD(1) [OF assms(1)] i by (auto simp: read_cell_def)
  then show ?thesis using td.find_present [OF assms(1) i(1)] i(2) by (simp add: appTemperatureClientGetState_def)
qed

section \<open>Invariant\<close>

definition lowest :: "int8 list \<Rightarrow> int" where "lowest hist = Min (sint ` set hist)"
definition highest :: "int8 list \<Rightarrow> int" where "highest hist = Max (sint ` set hist)"

definition temp_inv :: "int8 list \<Rightarrow> temperature_data \<Rightarrow> bool" where
  "temp_inv hist s =
     (td_valid (temp_clients s)
      \<and> (\<exists>xs. calibrated xs \<and> temperature_config_table s = Some xs \<and> temperature_config_size s = of_nat (length xs))
      \<and> filter_holds hist s \<and> median_filter_window s = 5 \<and> weight s = 50
      \<and> (\<forall>t\<in>set hist. in_range t)
      \<and> (hist = [] \<longrightarrow> instantaneous s = 0 \<and> ema_t s = 1 \<and> current_ema s = 0)
      \<and> (hist \<noteq> [] \<longrightarrow> ema_t s \<noteq> 1 \<and> sint (instantaneous s) = median (last_readings 5 hist)
           \<and> in_range (instantaneous s)
           \<and> 100 * lowest hist \<le> sint (current_ema s) \<and> sint (current_ema s) \<le> 100 * highest hist))"

lemma lowest_highest:
  assumes "t \<in> set hist"
  shows "lowest hist \<le> sint t" "sint t \<le> highest hist" "- 128 \<le> lowest hist" "highest hist \<le> 127"
proof -
  have f: "finite (sint ` set hist)" "sint ` set hist \<noteq> {}" using assms by auto
  show "lowest hist \<le> sint t" "sint t \<le> highest hist" using f assms by (simp_all add: lowest_def highest_def)
  show "- 128 \<le> lowest hist" using Min_in [OF f] sint8_range(1) unfolding lowest_def by fastforce
  show "highest hist \<le> 127" using Max_in [OF f] sint8_range(2) unfolding highest_def by fastforce
qed

lemma lowest_highest_append:
  assumes "hist \<noteq> []"
  shows "lowest (hist @ rs) \<le> lowest hist" "highest hist \<le> highest (hist @ rs)"
proof -
  have "sint ` set hist \<subseteq> sint ` set (hist @ rs)" "sint ` set hist \<noteq> {}" using assms by auto
  then show "lowest (hist @ rs) \<le> lowest hist" "highest hist \<le> highest (hist @ rs)"
    unfolding lowest_def highest_def by (intro Min_antimono Max_mono; simp)+
qed

lemma filter_holds_cong:
  assumes "median_filter_window s' = median_filter_window s" "input_arr s' = input_arr s" "filter_index s' = filter_index s"
  shows "filter_holds hist s' = filter_holds hist s"
  unfolding filter_holds_def assms ..

lemma temp_inv_frame:
  assumes "temp_inv hist s" "td_valid (temp_clients s')" "temperature_config_table s' = temperature_config_table s"
    "temperature_config_size s' = temperature_config_size s" "median_filter_window s' = median_filter_window s"
    "weight s' = weight s" "instantaneous s' = instantaneous s" "ema_t s' = ema_t s" "current_ema s' = current_ema s"
    "input_arr s' = input_arr s" "filter_index s' = filter_index s"
  shows "temp_inv hist s'"
proof -
  have "filter_holds hist s' = filter_holds hist s" by (rule filter_holds_cong) (rule assms)+
  then show ?thesis using assms by (simp add: temp_inv_def)
qed

lemma last_readings_set: "set (last_readings n hist) \<subseteq> set hist"
  by (simp add: last_readings_def set_drop_subset)

text \<open>A reading in range is always accepted.\<close>

lemma handleTemperatureReading_done:
  assumes "temp_inv hist s" "in_range r"
  shows "\<exists>s'. handleTemperatureReading now addr r s = Some s' \<and> temp_inv (hist @ [r]) s'
    \<and> temp_task s' = temp_task s \<and> temperature_config_table s' = temperature_config_table s
    \<and> fake_battery_temperature s' = fake_battery_temperature s
    \<and> td_table (temp_clients s') = map (\<lambda>(t, d). (t, with_client_state (limits_state (appTemperatureGetAverage s') d) d))
        (td_table (temp_clients s))"
proof -
  have f: "filter_holds hist s" and w: "unat (median_filter_window s) = 5" "weight s = 50" and v: "td_valid (temp_clients s)"
    using assms(1) by (simp_all add: temp_inv_def)
  obtain m arr i where m: "temperature_MedianFiltering r s = Some (m, s\<lparr>input_arr := arr, filter_index := i\<rparr>)"
    "filter_holds (hist @ [r]) (s\<lparr>input_arr := arr, filter_index := i\<rparr>)"
    "sint m = median (last_readings 5 (hist @ [r]))" "m \<in> set (last_readings 5 (hist @ [r]))"
    using median_step [OF f, of r] unfolding w(1) by blast
  have mh: "m \<in> set (hist @ [r])" using m(4) last_readings_set by blast
  have all: "\<forall>t\<in>set (hist @ [r]). in_range t" using assms by (auto simp: temp_inv_def)
  define s2 where "s2 = s\<lparr>input_arr := arr, filter_index := i, instantaneous := m, last_ema := current_ema s\<rparr>"
  obtain ema s3 where e: "temperature_ExponentialAverage m s2 = (ema, s3)" by (cases "temperature_ExponentialAverage m s2")
  have s3: "s3 = s2\<lparr>ema_t := ema_t s3\<rparr>" "ema_t s3 \<noteq> 1"
    using ExponentialAverage_frame [OF e] by auto
  have prev: "ema_t s2 \<noteq> 1 \<longrightarrow> 100 * lowest (hist @ [r]) \<le> sint (last_ema s2) \<and> sint (last_ema s2) \<le> 100 * highest (hist @ [r])"
    using assms(1) lowest_highest_append [of hist "[r]"] by (cases "hist = []") (auto simp: s2_def temp_inv_def)
  have "uint (weight s2) \<le> 100" using w(2) by (simp add: s2_def)
  from ExponentialAverage_between [OF this lowest_highest(1,2) [OF mh] lowest_highest(3,4) [OF mh] prev e]
  have b: "100 * lowest (hist @ [r]) \<le> sint ema \<and> sint ema \<le> 100 * highest (hist @ [r])" .
  define s4 where "s4 = s3\<lparr>current_ema := ema\<rparr>"
  have s4: "s4 = s\<lparr>input_arr := arr, filter_index := i, instantaneous := m, last_ema := current_ema s, ema_t := ema_t s3, current_ema := ema\<rparr>"
    unfolding s4_def by (subst s3(1)) (simp add: s2_def)
  have "filter_holds (hist @ [r]) s4"
    using m(2) filter_holds_cong [of s4 "s\<lparr>input_arr := arr, filter_index := i\<rparr>"] by (simp add: s4)
  then have inv4: "temp_inv (hist @ [r]) s4"
    using assms(1) m(3) bspec [OF all mh] all b s3(2) unfolding s4 by (simp add: temp_inv_def)
  have "td_valid (temp_clients s4)" using v by (simp add: s4)
  from inform_clients_done [OF this, of now addr] obtain l q where
    sc: "appTemperatureServiceClients now addr s4 = Some (s4\<lparr>temp_vm := q, temp_clients := l\<rparr>)" "td_valid l"
    "td_table l = map (\<lambda>(t, d). (t, with_client_state (limits_state (appTemperatureGetAverage s4) d) d)) (td_table (temp_clients s4))"
    by blast
  let ?s' = "s4\<lparr>temp_vm := q, temp_clients := l\<rparr>"
  have "handleTemperatureReading now addr r s = Some ?s'"
    using m(1) e sc(1) by (simp add: handleTemperatureReading_def s2_def [symmetric] s4_def)
  moreover have "temp_inv (hist @ [r]) ?s'" by (rule temp_inv_frame [OF inv4]) (simp_all add: sc(2))
  moreover have "appTemperatureGetAverage ?s' = appTemperatureGetAverage s4" by (simp add: appTemperatureGetAverage_def)
  moreover have "temp_clients s4 = temp_clients s" "temp_task ?s' = temp_task s"
    "temperature_config_table ?s' = temperature_config_table s"
    "fake_battery_temperature ?s' = fake_battery_temperature s" by (simp_all add: s4)
  ultimately show ?thesis using sc(3) by (intro exI [of _ ?s']) simp
qed

lemma trigger_done:
  "\<exists>q. trigger_measurement now delay s = Some (s\<lparr>temp_vm := q\<rparr>)
    \<and> MESSAGE_TEMPERATURE_INTERNAL_MEASUREMENT_TRIGGER \<in># posted_ids (temp_task s) q"
proof -
  obtain q where "MessageSendLater now (temp_task s) MESSAGE_TEMPERATURE_INTERNAL_MEASUREMENT_TRIGGER None delay (temp_vm s) = Some q"
    "posted_ids (temp_task s) q = add_mset MESSAGE_TEMPERATURE_INTERNAL_MEASUREMENT_TRIGGER (posted_ids (temp_task s) (temp_vm s))"
    using send_later_posted [OF not_combinable(2), of now "temp_task s" None delay None CONDITION_WIDTH_UNUSED "temp_vm s" "temp_task s"]
    unfolding MessageSendLater_def by auto
  then show ?thesis by (intro exI [of _ q]) (simp add: trigger_measurement_def)
qed

text \<open>The reading a message brings, if any.\<close>

definition message_voltage :: "adc_source \<Rightarrow> u32 \<Rightarrow> message_id \<Rightarrow> adc_source \<times> u16 \<Rightarrow> temperature_data \<Rightarrow> u16" where
  "message_voltage sensor vref_const i message s =
     (if i = MESSAGE_ADC_RESULT \<and> \<not> battery_temp_test_on s \<and> fake_battery_temperature s = INVALID_TEMPERATURE
      then fst (Temperature_AdcResultHandler sensor vref_const (fst message) (snd message) s) else 0)"

definition message_reading :: "adc_source \<Rightarrow> u32 \<Rightarrow> message_id \<Rightarrow> adc_source \<times> u16 \<Rightarrow> temperature_data \<Rightarrow> int8 list" where
  "message_reading sensor vref_const i message s =
     (let v = message_voltage sensor vref_const i message s
      in if v = 0 then [] else [temperature_of (the (temperature_config_table s)) v])"

lemma HandleMessage_done:
  assumes "temp_inv hist s"
  shows "\<exists>s'. appTemperatureHandleMessage sensor vref_const now addr i message s = Some s'
    \<and> temp_inv (hist @ message_reading sensor vref_const i message s) s'
    \<and> temperature_config_table s' = temperature_config_table s
    \<and> (message_voltage sensor vref_const i message s \<noteq> 0 \<longrightarrow>
         MESSAGE_TEMPERATURE_INTERNAL_MEASUREMENT_TRIGGER \<in># posted_ids (temp_task s) (temp_vm s'))"
proof (cases "message_voltage sensor vref_const i message s = 0")
  case True
  obtain v s1 where a: "Temperature_AdcResultHandler sensor vref_const (fst message) (snd message) s = (v, s1)"
    by (cases "Temperature_AdcResultHandler sensor vref_const (fst message) (snd message) s")
  have s1: "\<exists>x. s1 = s\<lparr>vref_raw := x\<rparr>"
    using a by (auto simp: Temperature_AdcResultHandler_def split: if_splits intro: exI [of _ "vref_raw s"])
  have "\<exists>s'. appTemperatureHandleMessage sensor vref_const now addr i message s = Some s'
      \<and> (s' = s \<or> (\<exists>c. s' = log_temp c s) \<or> s' = s1)"
    using True a by (auto simp: appTemperatureHandleMessage_def message_voltage_def)
  then obtain s' where s': "appTemperatureHandleMessage sensor vref_const now addr i message s = Some s'"
    "s' = s \<or> (\<exists>c. s' = log_temp c s) \<or> s' = s1" by blast
  have "td_valid (temp_clients s)" using assms by (simp add: temp_inv_def)
  then have "temp_inv hist s'"
    using s'(2) s1 by (elim disjE exE) (auto intro!: temp_inv_frame [OF assms] simp: log_temp_def)
  moreover have "temperature_config_table s' = temperature_config_table s" using s'(2) s1 by (auto simp: log_temp_def)
  ultimately show ?thesis using s'(1) True by (simp add: message_reading_def)
next
  case False
  then have i: "i = MESSAGE_ADC_RESULT" "\<not> battery_temp_test_on s" "fake_battery_temperature s = INVALID_TEMPERATURE"
    by (auto simp: message_voltage_def split: if_splits)
  obtain v s1 where a: "Temperature_AdcResultHandler sensor vref_const (fst message) (snd message) s = (v, s1)"
    by (cases "Temperature_AdcResultHandler sensor vref_const (fst message) (snd message) s")
  then have v: "message_voltage sensor vref_const i message s = v" "v \<noteq> 0" using False i by (simp_all add: message_voltage_def)
  then have s1: "s1 = s" using a by (auto simp: Temperature_AdcResultHandler_def split: if_splits)
  obtain xs where xs: "calibrated xs" "temperature_config_table s = Some xs" "temperature_config_size s = of_nat (length xs)"
    using assms by (auto simp: temp_inv_def)
  have "in_range (instantaneous s)"
    using assms by (cases "hist = []") (auto simp: temp_inv_def in_range_def TEMPERATURE_MIN_def TEMPERATURE_MAX_def)
  note g = lookup_stateless [OF xs this, of v]
  obtain s2 where s2: "handleTemperatureReading now addr (temperature_of xs v) s = Some s2" "temp_inv (hist @ [temperature_of xs v]) s2"
    "temp_task s2 = temp_task s" "temperature_config_table s2 = temperature_config_table s"
    using handleTemperatureReading_done [OF assms temperature_of_range [OF xs(1)], of now addr] by blast
  obtain q where q: "trigger_measurement now (ucast (temp_period s2)) s2 = Some (s2\<lparr>temp_vm := q\<rparr>)"
    "MESSAGE_TEMPERATURE_INTERNAL_MEASUREMENT_TRIGGER \<in># posted_ids (temp_task s2) q" using trigger_done by blast
  have "MESSAGE_ADC_RESULT \<noteq> MESSAGE_TEMPERATURE_INTERNAL_MEASUREMENT_TRIGGER"
    by (simp add: MESSAGE_ADC_RESULT_def MESSAGE_TEMPERATURE_INTERNAL_MEASUREMENT_TRIGGER_def SYSTEM_MESSAGE_BASE_def)
  then have "appTemperatureHandleMessage sensor vref_const now addr i message s = Some (s2\<lparr>temp_vm := q\<rparr>)"
    using i a v(2) s1 g s2(1) q(1) by (simp add: appTemperatureHandleMessage_def)
  moreover have "temp_inv (hist @ [temperature_of xs v]) (s2\<lparr>temp_vm := q\<rparr>)"
    by (rule temp_inv_frame [OF s2(2)]) (use s2(2) in \<open>simp_all add: temp_inv_def\<close>)
  ultimately show ?thesis using v xs(2) q(2) s2(3,4) by (simp add: message_reading_def)
qed

section \<open>Reachable states\<close>

text \<open>The static storage at the start.\<close>

definition temp_start :: "temperature_data \<Rightarrow> bool" where
  "temp_start s =
     (input_arr s = None \<and> filter_index s = 0 \<and> ema_t s = 1 \<and> instantaneous s = 0 \<and> last_ema s = 0 \<and> current_ema s = 0
      \<and> fake_battery_temperature s = INVALID_TEMPERATURE)"

text \<open>
  The states after an initialisation with a calibrated table, with the readings so far. The test interface injects
  temperatures in range.
\<close>

inductive temperature_reachable :: "temperature_lookup list \<Rightarrow> int8 list \<Rightarrow> temperature_data \<Rightarrow> bool" for xs where
  init: "temp_start s \<Longrightarrow> calibrated xs \<Longrightarrow>
    temperature_reachable xs [] (appTemperatureInit (Temperature_SetConfigurationTable (Some xs) (of_nat (length xs)) s))"
| message: "temperature_reachable xs hist s \<Longrightarrow>
    appTemperatureHandleMessage sensor vref_const now addr i m s = Some s' \<Longrightarrow>
    temperature_reachable xs (hist @ message_reading sensor vref_const i m s) s'"
| inject: "temperature_reachable xs hist s \<Longrightarrow> in_range t \<Longrightarrow>
    appTemperatureTestInjectFakeLevel now addr t s = Some s' \<Longrightarrow> temperature_reachable xs (hist @ [t]) s'"
| resume: "temperature_reachable xs hist s \<Longrightarrow>
    appTemperatureResumeAdcMeasurements now s = Some s' \<Longrightarrow> temperature_reachable xs hist s'"
| set_fake: "temperature_reachable xs hist s \<Longrightarrow>
    appTemperatureSetFakeValue now addr t s = Some s' \<Longrightarrow> temperature_reachable xs hist s'"
| unset_fake: "temperature_reachable xs hist s \<Longrightarrow>
    appTemperatureUnsetFakeValue now s = Some s' \<Longrightarrow> temperature_reachable xs hist s'"
| client_register: "temperature_reachable xs hist s \<Longrightarrow> t \<noteq> NULL_TASK \<Longrightarrow> length (td_table (temp_clients s)) < 15 \<Longrightarrow>
    appTemperatureClientRegister now addr t lo hi s = Some (b, s') \<Longrightarrow> temperature_reachable xs hist s'"
| client_unregister: "temperature_reachable xs hist s \<Longrightarrow> t \<noteq> NULL_TASK \<Longrightarrow>
    appTemperatureClientUnregister t s = Some s' \<Longrightarrow> temperature_reachable xs hist s'"

lemma td_create: "td_valid TaskList_WithDataCreate" "td_table TaskList_WithDataCreate = []"
proof -
  have r: "tl_repr TaskList_WithDataCreate [] (map Some [])"
    by (simp add: tl_repr_def TaskList_WithDataCreate_def TaskList_WithDataInitialise_def data_of_def union_of_def)
  have "TaskList_IsTaskListWithData TaskList_WithDataCreate"
    by (simp add: TaskList_IsTaskListWithData_def TaskList_WithDataCreate_def TaskList_WithDataInitialise_def)
  from td_validI [OF r _ this] show "td_valid TaskList_WithDataCreate" "td_table TaskList_WithDataCreate = []"
    by (simp_all add: tasks_ok_def)
qed

lemma temp_inv_clients: "temp_inv hist s \<Longrightarrow> td_valid (temp_clients s)"
  by (simp add: temp_inv_def)

lemma trigger_inv:
  assumes "temp_inv hist s" "trigger_measurement now delay s = Some s'"
  shows "temp_inv hist s'"
proof -
  obtain q where "s' = s\<lparr>temp_vm := q\<rparr>" using assms(2) trigger_done [of now delay s] by auto
  then show ?thesis using temp_inv_clients [OF assms(1)] by (auto intro: temp_inv_frame [OF assms(1)])
qed

lemma temperature_init_inv:
  assumes "temp_start s" "calibrated xs"
  shows "temp_inv [] (appTemperatureInit (Temperature_SetConfigurationTable (Some xs) (of_nat (length xs)) s))"
proof -
  let ?s = "appTemperatureInit (Temperature_SetConfigurationTable (Some xs) (of_nat (length xs)) s)"
  have f: "temp_clients ?s = TaskList_WithDataCreate" "median_filter_window ?s = 5" "weight ?s = 50"
    "input_arr ?s = None" "filter_index ?s = 0" "ema_t ?s = 1" "instantaneous ?s = 0" "current_ema ?s = 0"
    "temperature_config_table ?s = Some xs" "temperature_config_size ?s = of_nat (length xs)"
    using assms(1)
    by (simp_all add: appTemperatureInit_def Temperature_SetConfigurationTable_def log_temp_def Let_def temp_start_def
        appConfigTemperatureMedianFilterWindow_def appConfigTemperatureSmoothingWeight_def)
  then show ?thesis using td_create(1) assms(2) by (simp add: temp_inv_def filter_holds_def)
qed

lemma temperature_reachable_inv:
  "temperature_reachable xs hist s \<Longrightarrow> temp_inv hist s \<and> temperature_config_table s = Some xs \<and> calibrated xs"
proof (induction rule: temperature_reachable.induct)
  case (init s)
  have "temperature_config_table (appTemperatureInit (Temperature_SetConfigurationTable (Some xs) (of_nat (length xs)) s)) = Some xs"
    by (simp add: appTemperatureInit_def Temperature_SetConfigurationTable_def log_temp_def Let_def)
  then show ?case using temperature_init_inv [OF init] init(2) by simp
next
  case (message hist s sensor vref_const now addr i m s')
  then show ?case using HandleMessage_done [of hist s sensor vref_const now addr i m] by auto
next
  case (inject hist s t now addr s')
  let ?s = "s\<lparr>battery_temp_test_on := True\<rparr>"
  have "temp_inv hist ?s"
    by (rule temp_inv_frame [OF conjunct1 [OF inject(4)]]) (use inject(4) temp_inv_clients in auto)
  from handleTemperatureReading_done [OF this inject(2), of now addr] inject(3,4)
  show ?case by (auto simp: appTemperatureTestInjectFakeLevel_def)
next
  case (resume hist s now s')
  let ?s = "s\<lparr>battery_temp_test_on := False\<rparr>"
  have "temp_inv hist ?s"
    by (rule temp_inv_frame [OF conjunct1 [OF resume(3)]]) (use resume(3) temp_inv_clients in auto)
  from trigger_inv [OF this resume(2) [unfolded appTemperatureResumeAdcMeasurements_def]] resume show ?case
    by (auto simp: appTemperatureResumeAdcMeasurements_def trigger_measurement_def)
next
  case (set_fake hist s now addr t s')
  let ?s = "s\<lparr>fake_battery_temperature := t\<rparr>"
  have i: "temp_inv hist ?s"
    by (rule temp_inv_frame [OF conjunct1 [OF set_fake(3)]]) (use set_fake(3) temp_inv_clients in auto)
  obtain l q where s': "s' = ?s\<lparr>temp_vm := q, temp_clients := l\<rparr>" "td_valid l"
    using inform_clients_done [OF temp_inv_clients [OF i], where now = now and addr = addr and u = 0] set_fake(2)
    unfolding appTemperatureSetFakeValue_def by auto
  have "temp_inv hist s'" unfolding s'(1) by (rule temp_inv_frame [OF i]) (simp_all add: s'(2))
  then show ?case using set_fake(3) s'(1) by simp
next
  case (unset_fake hist s now s')
  let ?s = "s\<lparr>fake_battery_temperature := INVALID_TEMPERATURE\<rparr>"
  have "temp_inv hist ?s"
    by (rule temp_inv_frame [OF conjunct1 [OF unset_fake(3)]]) (use unset_fake(3) temp_inv_clients in auto)
  from trigger_inv [OF this unset_fake(2) [unfolded appTemperatureUnsetFakeValue_def]] unset_fake show ?case
    by (auto simp: appTemperatureUnsetFakeValue_def trigger_measurement_def)
next
  case (client_register hist s t now addr lo hi b s')
  then have i: "temp_inv hist s" by simp
  let ?d = "set_s8 CLIENT_CURRENT_STATE_INDEX TEMPERATURE_STATE_UNKNOWN
      (set_s8 CLIENT_UPPER_LIMIT_INDEX hi (set_s8 CLIENT_LOWER_LIMIT_INDEX lo 0))"
  obtain q0 where "appTemperatureServiceClient now addr t ?d s
      = Some (with_client_state (limits_state (appTemperatureGetAverage s) ?d) ?d, s\<lparr>temp_vm := q0\<rparr>)"
    using ServiceClient_done [where now = now and addr = addr and t = t and d = ?d and s = s] by blast
  then obtain d q l where s': "s' = s\<lparr>temp_vm := q, temp_clients := l\<rparr>" "TaskList_AddTaskWithData (temp_clients s) t d = Some (True, l)"
    using client_register(4) by (auto simp: appTemperatureClientRegister_def Let_def bind_eq_Some_conv)
  have "td_valid l"
    using s'(2) td.add_old [OF temp_inv_clients [OF i], of t d] td.add_new [OF temp_inv_clients [OF i] client_register(2) _ client_register(3), of d]
    by (cases "t \<in> fst ` set (td_table (temp_clients s))") auto
  then have "temp_inv hist s'" unfolding s'(1) by (intro temp_inv_frame [OF i]) simp_all
  then show ?case using client_register(5) s'(1) by simp
next
  case (client_unregister hist s t s')
  then have i: "temp_inv hist s" by simp
  obtain l where s': "s' = s\<lparr>temp_clients := l\<rparr>" "td_valid l"
    using client_unregister(3) td.remove_any [OF temp_inv_clients [OF i] client_unregister(2)]
    by (auto simp: appTemperatureClientUnregister_def bind_eq_Some_conv)
  have "temp_inv hist s'" unfolding s'(1) by (rule temp_inv_frame [OF i]) (simp_all add: s'(2))
  then show ?case using client_unregister(4) s'(1) by simp
qed

section \<open>Properties\<close>

text \<open>
  C37: The lookup does not depend on where it starts: with the earbud's thermistor table, for every voltage and
  every previous temperature in range, the search from the previous entry gives the temperature of the first
  entry whose voltage is not above the measured one, or the highest temperature if there is none; the result is in
  range again.
\<close>
theorem temperature_lookup_stateless:
  assumes "Temperature_SetConfigurationTable (Some (fst EarbudTemperature_GetConfigTable))
      (snd EarbudTemperature_GetConfigTable) s0 = s"
    "TEMPERATURE_MIN \<le> sint prev" "sint prev \<le> TEMPERATURE_MAX"
  shows "temperature_GetTemperature voltage prev s = Some (temperature_of earbud_temperature_config_table voltage)
    \<and> TEMPERATURE_MIN \<le> sint (temperature_of earbud_temperature_config_table voltage)
    \<and> sint (temperature_of earbud_temperature_config_table voltage) \<le> TEMPERATURE_MAX"
proof -
  have "temperature_config_table s = Some earbud_temperature_config_table"
    "temperature_config_size s = of_nat (length earbud_temperature_config_table)"
    using assms(1) by (auto simp: Temperature_SetConfigurationTable_def EarbudTemperature_GetConfigTable_def)
  from lookup_stateless [OF earbud_table_calibrated this, of prev voltage]
    temperature_of_range [OF earbud_table_calibrated, of voltage] assms(2,3)
  show ?thesis by (simp add: in_range_def)
qed

text \<open>
  C36: The filters compute what they should: in every reachable state after the readings \<open>hist\<close>, the
  instantaneous temperature is the median of the last five readings (of all, if there were fewer), and the
  average, unless it is faked, lies between the lowest and the highest reading.
\<close>
theorem readings_filtered:
  assumes "temperature_reachable xs hist s" "hist \<noteq> []" "fake_battery_temperature s = INVALID_TEMPERATURE"
  shows "sint (appTemperatureGetInstantaneous s) = sort (map sint (last_readings 5 hist)) ! ((min (length hist) 5 - 1) div 2)
    \<and> (\<exists>lo\<in>set hist. sint lo \<le> sint (appTemperatureGetAverage s))
    \<and> (\<exists>hi\<in>set hist. sint (appTemperatureGetAverage s) \<le> sint hi)"
proof -
  have i: "temp_inv hist s" using temperature_reachable_inv [OF assms(1)] by blast
  have "length (last_readings 5 hist) = min (length hist) 5" by (simp add: last_readings_def)
  then have med: "sint (instantaneous s) = sort (map sint (last_readings 5 hist)) ! ((min (length hist) 5 - 1) div 2)"
    using i assms(2) by (simp add: temp_inv_def median_def)
  have e: "100 * lowest hist \<le> sint (current_ema s)" "sint (current_ema s) \<le> 100 * highest hist"
    using i assms(2) by (simp_all add: temp_inv_def)
  obtain t where t: "t \<in> set hist" using assms(2) by (cases hist) auto
  note b = sdiv_bounds [OF e]
  have "sint (word_of_int (sint (current_ema s) sdiv 100) :: int8) = sint (current_ema s) sdiv 100"
    by (rule sint_word8) (use b lowest_highest(3,4) [OF t] in linarith)+
  then have a: "sint (appTemperatureGetAverage s) = sint (current_ema s) sdiv 100"
    using assms(3) by (simp add: appTemperatureGetAverage_def)
  have f: "finite (sint ` set hist)" "sint ` set hist \<noteq> {}" using t by auto
  obtain lo hi where "lo \<in> set hist" "sint lo = lowest hist" "hi \<in> set hist" "sint hi = highest hist"
    using Min_in [OF f] Max_in [OF f] unfolding lowest_def highest_def by fastforce
  then show ?thesis
    using med a b assms(3) by (intro conjI bexI [of _ lo] bexI [of _ hi]) (simp_all add: appTemperatureGetInstantaneous_def)
qed

text \<open>
  The clients know how the temperature stands: whenever the clients are served, every client's state becomes
  its classification of the average against its own limits, the limits stay, and exactly the clients whose state
  changed are sent one indication; everybody else's messages stay the same.
\<close>
lemma temperature_clients_informed:
  assumes "temperature_reachable xs hist s"
  shows "\<exists>s'. appTemperatureServiceClients now addr s = Some s'
    \<and> map fst (td_table (temp_clients s')) = map fst (td_table (temp_clients s))
    \<and> (\<forall>(t, d)\<in>set (td_table (temp_clients s')).
         client_state d = limits_state (appTemperatureGetAverage s) d
         \<and> appTemperatureClientGetState t s' = Some (client_state d))
    \<and> (\<forall>i < length (td_table (temp_clients s)). \<forall>j < 2.
         get_s8 j (snd (td_table (temp_clients s') ! i)) = get_s8 j (snd (td_table (temp_clients s) ! i)))
    \<and> posted_ids u (temp_vm s') = posted_ids u (temp_vm s)
        + (if \<exists>d. (u, d) \<in> set (td_table (temp_clients s)) \<and> limits_state (appTemperatureGetAverage s) d \<noteq> client_state d
           then {#TEMPERATURE_STATE_CHANGED_IND#} else {#})"
proof -
  have v: "td_valid (temp_clients s)" using temperature_reachable_inv [OF assms] temp_inv_clients by blast
  obtain l q where s': "appTemperatureServiceClients now addr s = Some (s\<lparr>temp_vm := q, temp_clients := l\<rparr>)" "td_valid l"
    "td_table l = map (\<lambda>(t, d). (t, with_client_state (limits_state (appTemperatureGetAverage s) d) d)) (td_table (temp_clients s))"
    "posted_ids u q = posted_ids u (temp_vm s)
        + mset (map (\<lambda>_. TEMPERATURE_STATE_CHANGED_IND)
                  (filter (\<lambda>(t, d). t = u \<and> limits_state (appTemperatureGetAverage s) d \<noteq> client_state d)
                    (td_table (temp_clients s))))"
    using inform_clients_done [OF v] by blast
  have st: "client_state d = limits_state (appTemperatureGetAverage s) d" if "(t, d) \<in> set (td_table l)" for t d
    using that unfolding s'(3) by (auto simp: s8_simps CLIENT_CURRENT_STATE_INDEX_def limits_state_def s8_other
        CLIENT_UPPER_LIMIT_INDEX_def CLIENT_LOWER_LIMIT_INDEX_def)
  have gs: "appTemperatureClientGetState t (s\<lparr>temp_vm := q, temp_clients := l\<rparr>) = Some (client_state d)"
    if "(t, d) \<in> set (td_table l)" for t d
    using ClientGetState_table [of "s\<lparr>temp_vm := q, temp_clients := l\<rparr>" t d] s'(2) that by simp
  have one: "mset (map (\<lambda>_. x) (filter (\<lambda>(t, d). t = u \<and> P d) es)) = (if \<exists>d. (u, d) \<in> set es \<and> P d then {#x#} else {#})"
    if "distinct (map fst es)" for es :: "(task \<times> task_list_data) list" and x :: message_id and P
    using that
  proof (induction es)
    case (Cons e es)
    obtain t d where e: "e = (t, d)" by (cases e)
    show ?case
    proof (cases "t = u")
      case True
      then have "filter (\<lambda>(t, d). t = u \<and> P d) es = []" using Cons.prems e by (auto simp: filter_empty_conv image_iff)
      moreover have "(u, d') \<in> set es \<longleftrightarrow> False" for d' using Cons.prems e True by (auto simp: image_iff)
      ultimately show ?thesis using e True by auto
    qed (use Cons e in auto)
  qed simp
  have "posted_ids u q = posted_ids u (temp_vm s)
        + (if \<exists>d. (u, d) \<in> set (td_table (temp_clients s)) \<and> limits_state (appTemperatureGetAverage s) d \<noteq> client_state d
           then {#TEMPERATURE_STATE_CHANGED_IND#} else {#})"
    unfolding s'(4) by (subst one [OF td.table_distinct [OF v]]) (rule refl)
  moreover have "map fst (td_table l) = map fst (td_table (temp_clients s))" unfolding s'(3) by auto
  moreover have "get_s8 j (snd (td_table l ! i)) = get_s8 j (snd (td_table (temp_clients s) ! i))"
    if "i < length (td_table (temp_clients s))" "j < 2" for i j
    using that unfolding s'(3) by (simp add: case_prod_unfold s8_other CLIENT_CURRENT_STATE_INDEX_def)
  ultimately show ?thesis using s'(1) st gs by (intro exI [of _ "s\<lparr>temp_vm := q, temp_clients := l\<rparr>"]) auto
qed

text \<open>
  Monitoring never faults, and goes on: in every reachable state every message is handled without a panic or a read
  outside the table; if it brings a voltage other than zero, the temperature of that voltage is the next reading and
  the next measurement is posted.
\<close>
lemma temperature_monitoring_continues:
  assumes "temperature_reachable xs hist s"
  shows "\<exists>s'. appTemperatureHandleMessage sensor vref_const now addr i message s = Some s'
    \<and> (message_voltage sensor vref_const i message s \<noteq> 0 \<longrightarrow>
         temperature_reachable xs (hist @ [temperature_of xs (message_voltage sensor vref_const i message s)]) s'
         \<and> MESSAGE_TEMPERATURE_INTERNAL_MEASUREMENT_TRIGGER \<in># posted_ids (temp_task s) (temp_vm s'))"
proof -
  have i: "temp_inv hist s" "temperature_config_table s = Some xs" using temperature_reachable_inv [OF assms] by blast+
  obtain s' where s': "appTemperatureHandleMessage sensor vref_const now addr i message s = Some s'"
    "message_voltage sensor vref_const i message s \<noteq> 0 \<longrightarrow>
         MESSAGE_TEMPERATURE_INTERNAL_MEASUREMENT_TRIGGER \<in># posted_ids (temp_task s) (temp_vm s')"
    using HandleMessage_done [OF i(1)] by blast
  then show ?thesis
    using temperature_reachable.message [OF assms s'(1)] i(2) by (auto simp: message_reading_def Let_def)
qed

text \<open>
  A voltage of zero (a shorted sensor, or no reference yet) ends the measurements: no further one is requested.
\<close>

lemma zero_voltage_stops_monitoring:
  assumes "message_voltage sensor vref_const MESSAGE_ADC_RESULT message s = 0"
  shows "\<exists>s'. appTemperatureHandleMessage sensor vref_const now addr MESSAGE_ADC_RESULT message s = Some s'
    \<and> temp_vm s' = temp_vm s \<and> temp_calls s' = temp_calls s"
proof -
  have "MESSAGE_ADC_RESULT \<noteq> MESSAGE_TEMPERATURE_INTERNAL_MEASUREMENT_TRIGGER"
    by (simp add: MESSAGE_ADC_RESULT_def MESSAGE_TEMPERATURE_INTERNAL_MEASUREMENT_TRIGGER_def SYSTEM_MESSAGE_BASE_def)
  then show ?thesis
    using assms by (cases "Temperature_AdcResultHandler sensor vref_const (fst message) (snd message) s")
      (auto simp: appTemperatureHandleMessage_def message_voltage_def Temperature_AdcResultHandler_def split: if_splits)
qed

text \<open>A test value above the range makes the next lookup read behind the table.\<close>

lemma injected_value_faults:
  assumes "calibrated xs" "temperature_config_table s = Some xs" "TEMPERATURE_MAX < sint prev"
  shows "temperature_GetTemperature voltage prev s = None"
proof -
  have "0 \<le> sint prev - TEMPERATURE_MIN" using assms(3) by (simp add: TEMPERATURE_MAX_def TEMPERATURE_MIN_def)
  then obtain n where n: "sint prev - TEMPERATURE_MIN = int n" by (rule nonneg_int_cases)
  have len: "length xs = 126" using assms(1) by (simp add: calibrated_def TEMPERATURE_MAX_def TEMPERATURE_MIN_def)
  have "n < 2 ^ 32" "126 \<le> n"
    using n assms(3) sint8_range [of prev] by (simp_all add: TEMPERATURE_MAX_def TEMPERATURE_MIN_def)
  then have "\<not> unat (of_nat n :: u32) < length xs" using unat_of_small [of n] len by simp
  then show ?thesis
    unfolding temperature_GetTemperature_def Let_def n assms(2) by (simp add: read_lookup_def)
qed

section \<open>Witnesses\<close>

definition demo_temperature :: temperature_data where
  "demo_temperature = \<lparr>temp_task = 4, temp_period = 0, median_filter_window = 0, instantaneous = 0, weight = 0,
     last_ema = 0, current_ema = 0, temp_clients = TaskList_WithDataCreate, temperature_config_table = None,
     temperature_config_size = 0, input_arr = None, filter_index = 0, ema_t = 1, vref_raw = 0,
     fake_battery_temperature = INVALID_TEMPERATURE, battery_temp_test_on = False,
     temp_vm = \<lparr>vm_message_queue = [], vm_delivered_messages = [], sched_event_pending = False, put_message_ok = True,
       registered_hdlrs = [], sink_source_hdlrs = [], run_timer = None\<rparr>,
     temp_calls = []\<rparr>"

abbreviation "demo_init \<equiv> appTemperatureInit (Temperature_SetConfigurationTable (Some earbud_temperature_config_table)
    (of_nat (length earbud_temperature_config_table)) demo_temperature)"

lemma demo_reachable: "temperature_reachable earbud_temperature_config_table [] demo_init"
  by (rule temperature_reachable.init [OF _ earbud_table_calibrated]) (simp add: temp_start_def demo_temperature_def)

lemma demo_fake: "fake_battery_temperature demo_init = INVALID_TEMPERATURE"
  by (simp add: appTemperatureInit_def Temperature_SetConfigurationTable_def log_temp_def Let_def demo_temperature_def)

theorem temperature_lookup_stateless_witness:
  "\<exists>t. temperature_GetTemperature 900 25 (Temperature_SetConfigurationTable (Some (fst EarbudTemperature_GetConfigTable))
      (snd EarbudTemperature_GetConfigTable) demo_temperature) = Some t \<and> TEMPERATURE_MIN \<le> sint t"
  using temperature_lookup_stateless [OF refl, of 25 900 demo_temperature]
  by (auto simp: TEMPERATURE_MIN_def TEMPERATURE_MAX_def)

theorem readings_filtered_witness:
  "\<exists>s. temperature_reachable earbud_temperature_config_table [25] s \<and> sint (appTemperatureGetInstantaneous s) = 25"
proof -
  let ?s = "demo_init\<lparr>battery_temp_test_on := True\<rparr>"
  have i: "temp_inv [] demo_init" using temperature_reachable_inv [OF demo_reachable] by blast
  have "temp_inv [] ?s" by (rule temp_inv_frame [OF i]) (use temp_inv_clients [OF i] in simp_all)
  moreover have r: "in_range 25" by (simp add: in_range_def TEMPERATURE_MIN_def TEMPERATURE_MAX_def)
  ultimately obtain s' where s': "handleTemperatureReading 5 (\<lambda>_. 0) 25 ?s = Some s'"
    "fake_battery_temperature s' = INVALID_TEMPERATURE"
    using handleTemperatureReading_done [of "[]" ?s 25 5 "\<lambda>_. 0"] demo_fake by auto
  have "appTemperatureTestInjectFakeLevel 5 (\<lambda>_. 0) 25 demo_init = Some s'"
    using s'(1) by (simp add: appTemperatureTestInjectFakeLevel_def)
  from temperature_reachable.inject [OF demo_reachable r this]
  have re: "temperature_reachable earbud_temperature_config_table [25] s'" by simp
  from readings_filtered [OF this _ s'(2)] have "sint (appTemperatureGetInstantaneous s') = 25"
    by (simp add: last_readings_def)
  then show ?thesis using re by blast
qed

lemma demo_cold_client:
  "\<exists>s d. temperature_reachable earbud_temperature_config_table [] s \<and> td_table (temp_clients s) = [(3, d)]
    \<and> limits_state (appTemperatureGetAverage s) d = TEMPERATURE_STATE_BELOW_LOWER_LIMIT"
proof -
  have v: "td_valid (temp_clients demo_init)" "td_table (temp_clients demo_init) = []"
    using td_create by (simp_all add: appTemperatureInit_def log_temp_def Let_def)
  let ?d = "set_s8 CLIENT_CURRENT_STATE_INDEX TEMPERATURE_STATE_UNKNOWN
      (set_s8 CLIENT_UPPER_LIMIT_INDEX 40 (set_s8 CLIENT_LOWER_LIMIT_INDEX 10 0))"
  obtain q where q: "appTemperatureServiceClient 5 (\<lambda>_. 0) 3 ?d demo_init
      = Some (with_client_state (limits_state (appTemperatureGetAverage demo_init) ?d) ?d, demo_init\<lparr>temp_vm := q\<rparr>)"
    using ServiceClient_done [where now = 5 and addr = "\<lambda>_. 0" and t = 3 and d = ?d and s = demo_init] by blast
  let ?e = "with_client_state (limits_state (appTemperatureGetAverage demo_init) ?d) ?d"
  obtain l where l: "TaskList_AddTaskWithData (temp_clients demo_init) 3 ?e = Some (True, l)" "td_table l = [(3, ?e)]"
    using td.add_new [OF v(1), of 3 ?e] v(2) by auto
  let ?s = "demo_init\<lparr>temp_vm := q, temp_clients := l\<rparr>"
  have "appTemperatureClientRegister 5 (\<lambda>_. 0) 3 10 40 demo_init = Some (True, ?s)"
    using q l(1) by (simp add: appTemperatureClientRegister_def)
  from temperature_reachable.client_register [OF demo_reachable _ _ this] v(2)
  have re: "temperature_reachable earbud_temperature_config_table [] ?s" by simp
  have "current_ema demo_init = 0"
    by (simp add: appTemperatureInit_def Temperature_SetConfigurationTable_def log_temp_def Let_def demo_temperature_def)
  then have "appTemperatureGetAverage ?s = 0" using demo_fake by (simp add: appTemperatureGetAverage_def signed_divide_int_def)
  then have "limits_state (appTemperatureGetAverage ?s) ?e = TEMPERATURE_STATE_BELOW_LOWER_LIMIT"
    by (simp add: limits_state_def s8_simps s8_other CLIENT_CURRENT_STATE_INDEX_def CLIENT_UPPER_LIMIT_INDEX_def
        CLIENT_LOWER_LIMIT_INDEX_def)
  then show ?thesis using re l(2) by (intro exI [of _ ?s] exI [of _ ?e]) simp
qed

theorem temperature_clients_informed_witness:
  "\<exists>s s'. temperature_reachable earbud_temperature_config_table [] s \<and> map fst (td_table (temp_clients s)) = [3]
    \<and> appTemperatureServiceClients 5 (\<lambda>_. 0) s = Some s' \<and> map fst (td_table (temp_clients s')) = [3]"
proof -
  obtain s d where s: "temperature_reachable earbud_temperature_config_table [] s" "td_table (temp_clients s) = [(3, d)]"
    using demo_cold_client by blast
  from temperature_clients_informed [OF s(1), of 5 "\<lambda>_. 0"] s show ?thesis by fastforce
qed

lemma temperature_monitoring_continues_witness:
  "\<exists>s'. appTemperatureHandleMessage adcsel_vref_hq_buff 1200 5 (\<lambda>_. 0) MESSAGE_ADC_RESULT (other_adc_source 3, 700) demo_init = Some s'"
  using temperature_monitoring_continues [OF demo_reachable] by blast

end
