(* ===== verification/PowerManager.thy ===== *)
theory PowerManager
  imports SystemState ClientData BatteryRegion Temperature
begin

text \<open>
  The power manager, \<open>domains/power/power_manager\<close>: it asks its clients to prepare for sleep or shutdown,
  waits for all of them and then lets the system state component do the transition. Each client's
  flags are its datum in a task list with data. The state contains the system state component and,
  in it, the scheduler. What the power manager asks other components is the argument
  \<open>power_conditions\<close>: the charger's two answers, the battery state and whether the temperature is
  within its client's limits; they do not change during a call. Requests for the run-time profile and
  registrations with other components are outputs. Panics are \<open>None\<close>. The calls that start the
  sleep and shutdown transitions return here; the step function that switches the hardware
  off does not return when it succeeds, which ends the run.
\<close>

section \<open>Data\<close>

datatype powerState =
    POWER_STATE_INIT
  | POWER_STATE_OK
  | POWER_STATE_TERMINATING_CLIENTS_NOTIFIED
  | POWER_STATE_TERMINATING_CLIENTS_RESPONDED
  | POWER_STATE_SOPORIFIC_CLIENTS_NOTIFIED
  | POWER_STATE_SOPORIFIC_CLIENTS_RESPONDED

datatype run_time_profile = VM_BALANCED | VM_PERFORMANCE

datatype power_call =
    Call_RequestRunTimeProfile run_time_profile
  | Call_RegisterMonitors task
  | Call_RegisterWithUi task

record 'f power_data =
  power_task :: task
  clients :: task_list
  performance_req_count :: u32
  power_state :: powerState
  allow_dormant :: bool
  user_initiated_shutdown :: bool
  init_complete :: bool
  system_state :: "'f system_state_ctx"
  power_calls :: "power_call list"

record power_conditions =
  charger_can_power_off :: bool
  charger_can_enter_dormant :: bool
  battery_state :: battery_region_state
  temperature_within_limits :: bool

definition APP_POWER_INIT_CFM :: message_id where "APP_POWER_INIT_CFM = MESSAGE_BASE ''POWER_APP''"
definition APP_POWER_SLEEP_PREPARE_IND :: message_id where
  "APP_POWER_SLEEP_PREPARE_IND = APP_POWER_INIT_CFM + 1"
definition APP_POWER_SLEEP_CANCELLED_IND :: message_id where
  "APP_POWER_SLEEP_CANCELLED_IND = APP_POWER_INIT_CFM + 2"
definition APP_POWER_SHUTDOWN_PREPARE_IND :: message_id where
  "APP_POWER_SHUTDOWN_PREPARE_IND = APP_POWER_INIT_CFM + 3"
definition APP_POWER_SHUTDOWN_CANCELLED_IND :: message_id where
  "APP_POWER_SHUTDOWN_CANCELLED_IND = APP_POWER_INIT_CFM + 4"
definition POWER_ON :: message_id where "POWER_ON = APP_POWER_INIT_CFM + 5"
definition POWER_OFF :: message_id where "POWER_OFF = APP_POWER_INIT_CFM + 6"

definition CHARGER_MESSAGE_ATTACHED :: message_id where "CHARGER_MESSAGE_ATTACHED = MESSAGE_BASE ''CHARGER''"
definition CHARGER_MESSAGE_COMPLETED :: message_id where "CHARGER_MESSAGE_COMPLETED = MESSAGE_BASE ''CHARGER'' + 2"

definition isMessageUiInput :: "message_id \<Rightarrow> bool" where
  "isMessageUiInput i = (MESSAGE_BASE ''UI_INPUTS_TELEPHONY'' \<le> i \<and> i < MESSAGE_BASE ''UI_INPUTS_BOUNDS_CHECK'')"

definition APP_POWER_ALLOW_SLEEP :: u32 where "APP_POWER_ALLOW_SLEEP = 1"
definition APP_POWER_SHUTDOWN_PREPARE_RESPONSE_PENDING :: u32 where
  "APP_POWER_SHUTDOWN_PREPARE_RESPONSE_PENDING = 2"
definition APP_POWER_SLEEP_PREPARE_RESPONSE_PENDING :: u32 where
  "APP_POWER_SLEEP_PREPARE_RESPONSE_PENDING = 4"

definition log_power :: "power_call \<Rightarrow> 'f power_data \<Rightarrow> 'f power_data" where
  "log_power c s = s\<lparr>power_calls := power_calls s @ [c]\<rparr>"

text \<open>The scheduler and the system state component inside the state.\<close>

definition with_vm :: "state_change vm \<Rightarrow> 'f power_data \<Rightarrow> 'f power_data" where
  "with_vm q s = s\<lparr>system_state := (system_state s)\<lparr>ss_vm := q\<rparr>\<rparr>"

definition power_vm :: "'f power_data \<Rightarrow> state_change vm" where
  "power_vm s = ss_vm (system_state s)"

definition send_clients :: "u32 \<Rightarrow> message_id \<Rightarrow> 'f power_data \<Rightarrow> 'f power_data option" where
  "send_clients now i s =
     map_option (\<lambda>q. with_vm q s) (TaskList_MessageSendWithSize now (clients s) i None 0 (power_vm s))"

definition send_to :: "u32 \<Rightarrow> task \<Rightarrow> message_id \<Rightarrow> 'f power_data \<Rightarrow> 'f power_data option" where
  "send_to now t i s = map_option (\<lambda>q. with_vm q s) (MessageSend now t i None (power_vm s))"

definition cancel_for :: "task \<Rightarrow> message_id \<Rightarrow> 'f power_data \<Rightarrow> 'f power_data option" where
  "cancel_for t i s = map_option (\<lambda>(_, q). with_vm q s) (MessageCancelAll t i (power_vm s))"

section \<open>Client flags\<close>

text \<open>\<open>data->u32\<close> is the low half of the client's 64-bit datum.\<close>

definition data_u32 :: "task_list_data \<Rightarrow> u32" where "data_u32 d = ucast d"

text \<open>The loops over the clients; the argument starts at NULL.\<close>

partial_function (option) all_clients_loop :: "(u32 \<Rightarrow> bool) \<Rightarrow> task_list \<Rightarrow> task \<Rightarrow> bool option" where
  "all_clients_loop P l next_task =
     do {
       (r, next_task') \<leftarrow> TaskList_IterateWithDataRaw l next_task;
       case r of
         None \<Rightarrow> Some True
       | Some i \<Rightarrow>
           do {
             d \<leftarrow> read_cell (tl_data l) i;
             if P (data_u32 d) then all_clients_loop P l next_task' else Some False
           }
     }"

partial_function (option) set_flag_loop :: "u32 \<Rightarrow> task_list \<Rightarrow> task \<Rightarrow> task_list option" where
  "set_flag_loop flag l next_task =
     do {
       (r, next_task') \<leftarrow> TaskList_IterateWithDataRaw l next_task;
       case r of
         None \<Rightarrow> Some l
       | Some i \<Rightarrow>
           do {
             d \<leftarrow> read_cell (tl_data l) i;
             set_flag_loop flag (td_put l i (d OR ucast flag)) next_task'
           }
     }"

definition appPowerAllClientsHaveFlagCleared :: "u32 \<Rightarrow> 'f power_data \<Rightarrow> bool option" where
  "appPowerAllClientsHaveFlagCleared flag s =
     (if TaskList_Size (Some (clients s)) \<noteq> 0
      then all_clients_loop (\<lambda>d. d AND flag = 0) (clients s) NULL_TASK
      else Some False)"

definition appPowerAllClientsHaveFlagSet :: "u32 \<Rightarrow> 'f power_data \<Rightarrow> bool option" where
  "appPowerAllClientsHaveFlagSet flag s =
     (if TaskList_Size (Some (clients s)) \<noteq> 0
      then all_clients_loop (\<lambda>d. d AND flag \<noteq> 0) (clients s) NULL_TASK
      else Some True)"

definition change_client ::
  "(task_list_data \<Rightarrow> task_list_data) \<Rightarrow> task \<Rightarrow> 'f power_data \<Rightarrow> (bool \<times> 'f power_data) option" where
  "change_client f t s =
     do {
       found \<leftarrow> TaskList_GetDataForTaskRaw (clients s) t;
       case found of
         None \<Rightarrow> Some (False, s)
       | Some i \<Rightarrow> do { d \<leftarrow> read_cell (tl_data (clients s)) i; Some (True, s\<lparr>clients := td_put (clients s) i (f d)\<rparr>) }
     }"

definition appPowerSetFlagInClient :: "task \<Rightarrow> u32 \<Rightarrow> 'f power_data \<Rightarrow> (bool \<times> 'f power_data) option" where
  "appPowerSetFlagInClient t flag s = change_client (\<lambda>d. d OR ucast flag) t s"

definition appPowerClearFlagInClient :: "task \<Rightarrow> u32 \<Rightarrow> 'f power_data \<Rightarrow> (bool \<times> 'f power_data) option" where
  "appPowerClearFlagInClient t flag s = change_client (\<lambda>d. d AND NOT (ucast flag)) t s"

definition appPowerSetFlagInAllClients :: "u32 \<Rightarrow> 'f power_data \<Rightarrow> 'f power_data option" where
  "appPowerSetFlagInAllClients flag s =
     map_option (\<lambda>l. s\<lparr>clients := l\<rparr>) (set_flag_loop flag (clients s) NULL_TASK)"

section \<open>Conditions\<close>

definition appPowerCanPowerOff :: "power_conditions \<Rightarrow> bool" where
  "appPowerCanPowerOff c = charger_can_power_off c"

definition appPowerCanSleep :: "power_conditions \<Rightarrow> 'f power_data \<Rightarrow> bool" where
  "appPowerCanSleep c s = (charger_can_enter_dormant c \<and> allow_dormant s \<and> init_complete s)"

definition appPowerNeedsToPowerOff :: "power_conditions \<Rightarrow> 'f power_data \<Rightarrow> bool" where
  "appPowerNeedsToPowerOff c s =
     (appPowerCanPowerOff c
      \<and> (\<not> temperature_within_limits c \<or> user_initiated_shutdown s \<or> battery_state c = battery_region_unsafe))"

section \<open>State machine\<close>

text \<open>A transition of the system state component; its answer is not looked at.\<close>

definition run_system ::
  "('f system_state_ctx \<Rightarrow> (bool \<times> 'f system_state_ctx) option) \<Rightarrow> 'f power_data \<Rightarrow> 'f power_data option" where
  "run_system f s = map_option (\<lambda>(_, ss). s\<lparr>system_state := ss\<rparr>) (f (system_state s))"

definition exit_power_state :: "u32 \<Rightarrow> 'f power_data \<Rightarrow> 'f power_data option" where
  "exit_power_state now s =
     (case power_state s of
        POWER_STATE_INIT \<Rightarrow> send_to now (SystemState_GetTransitionTask (system_state s)) APP_POWER_INIT_CFM s
      | POWER_STATE_OK \<Rightarrow> Some s
      | POWER_STATE_TERMINATING_CLIENTS_NOTIFIED \<Rightarrow> Some s
      | POWER_STATE_TERMINATING_CLIENTS_RESPONDED \<Rightarrow> send_clients now APP_POWER_SHUTDOWN_CANCELLED_IND s
      | POWER_STATE_SOPORIFIC_CLIENTS_NOTIFIED \<Rightarrow> Some s
      | POWER_STATE_SOPORIFIC_CLIENTS_RESPONDED \<Rightarrow> send_clients now APP_POWER_SLEEP_CANCELLED_IND s)"

text \<open>
  \<open>appPowerSetState\<close> with the entry functions; an entry function may set the next state in turn.
\<close>

fun entry_depth :: "powerState \<Rightarrow> nat" where
  "entry_depth POWER_STATE_TERMINATING_CLIENTS_NOTIFIED = 2"
| "entry_depth POWER_STATE_SOPORIFIC_CLIENTS_NOTIFIED = 2"
| "entry_depth POWER_STATE_TERMINATING_CLIENTS_RESPONDED = 1"
| "entry_depth POWER_STATE_SOPORIFIC_CLIENTS_RESPONDED = 1"
| "entry_depth _ = 0"

function appPowerSetState ::
  "u32 \<Rightarrow> nat \<Rightarrow> power_conditions \<Rightarrow> powerState \<Rightarrow> 'f power_data \<Rightarrow> 'f power_data option" where
  "appPowerSetState now addr c new_state s =
     do {
       s1 \<leftarrow> exit_power_state now s;
       let s2 = s1\<lparr>power_state := new_state\<rparr>;
       case new_state of
         POWER_STATE_OK \<Rightarrow> Some (s2\<lparr>user_initiated_shutdown := False\<rparr>)
       | POWER_STATE_TERMINATING_CLIENTS_NOTIFIED \<Rightarrow>
           (if TaskList_Size (Some (clients s2)) \<noteq> 0 then
              do {
                s3 \<leftarrow> send_clients now APP_POWER_SHUTDOWN_PREPARE_IND s2;
                s4 \<leftarrow> appPowerSetFlagInAllClients APP_POWER_SHUTDOWN_PREPARE_RESPONSE_PENDING s3;
                send_clients now POWER_OFF s4
              }
            else appPowerSetState now addr c POWER_STATE_TERMINATING_CLIENTS_RESPONDED s2)
       | POWER_STATE_TERMINATING_CLIENTS_RESPONDED \<Rightarrow>
           do {
             s3 \<leftarrow> (if appPowerNeedsToPowerOff c s2 then
                      (if user_initiated_shutdown s2 then run_system (SystemState_Shutdown now addr) s2
                       else run_system (SystemState_EmergencyShutdown now addr) s2)
                    else Some s2);
             appPowerSetState now addr c POWER_STATE_OK s3
           }
       | POWER_STATE_SOPORIFIC_CLIENTS_NOTIFIED \<Rightarrow>
           (if TaskList_Size (Some (clients s2)) \<noteq> 0 then
              do {
                s3 \<leftarrow> send_clients now APP_POWER_SLEEP_PREPARE_IND s2;
                appPowerSetFlagInAllClients APP_POWER_SLEEP_PREPARE_RESPONSE_PENDING s3
              }
            else appPowerSetState now addr c POWER_STATE_SOPORIFIC_CLIENTS_RESPONDED s2)
       | POWER_STATE_SOPORIFIC_CLIENTS_RESPONDED \<Rightarrow>
           (if appPowerCanSleep c s2 then run_system (SystemState_Sleep now addr) s2
            else appPowerSetState now addr c POWER_STATE_OK s2)
       | POWER_STATE_INIT \<Rightarrow> None
     }"
  by pat_completeness auto

termination
  by (relation "measure (\<lambda>(now, addr, c, new_state, s). entry_depth new_state)") auto

declare appPowerSetState.simps [simp del]

definition appPowerHandlePowerEvent ::
  "u32 \<Rightarrow> nat \<Rightarrow> power_conditions \<Rightarrow> 'f power_data \<Rightarrow> 'f power_data option" where
  "appPowerHandlePowerEvent now addr c s =
     (case power_state s of
        POWER_STATE_INIT \<Rightarrow>
          do {
            s1 \<leftarrow> (if appPowerNeedsToPowerOff c s then run_system (SystemState_Shutdown now addr) s else Some s);
            appPowerSetState now addr c POWER_STATE_OK s1
          }
      | POWER_STATE_OK \<Rightarrow>
          (if appPowerNeedsToPowerOff c s then
             appPowerSetState now addr c POWER_STATE_TERMINATING_CLIENTS_NOTIFIED s
           else do {
             allowed \<leftarrow> appPowerAllClientsHaveFlagSet APP_POWER_ALLOW_SLEEP s;
             if allowed \<and> appPowerCanSleep c s
             then appPowerSetState now addr c POWER_STATE_SOPORIFIC_CLIENTS_NOTIFIED s
             else Some s
           })
      | _ \<Rightarrow> Some s)"

section \<open>Interface\<close>

definition appPowerPerformanceInit :: "'f power_data \<Rightarrow> 'f power_data" where
  "appPowerPerformanceInit s = log_power (Call_RequestRunTimeProfile VM_BALANCED) s"

definition appPowerPerformanceProfileRequest :: "'f power_data \<Rightarrow> 'f power_data option" where
  "appPowerPerformanceProfileRequest s =
     (let s1 = (if performance_req_count s = 0
                then log_power (Call_RequestRunTimeProfile VM_PERFORMANCE) s else s);
          s2 = s1\<lparr>performance_req_count := performance_req_count s1 + 1\<rparr>
      in if performance_req_count s2 = 0 then None else Some s2)"

definition appPowerPerformanceProfileRelinquish :: "'f power_data \<Rightarrow> 'f power_data" where
  "appPowerPerformanceProfileRelinquish s =
     (if performance_req_count s > 0 then
        (let s1 = s\<lparr>performance_req_count := performance_req_count s - 1\<rparr>
         in if performance_req_count s1 = 0 then log_power (Call_RequestRunTimeProfile VM_BALANCED) s1 else s1)
      else s)"

definition appPowerInit :: "'f power_data \<Rightarrow> 'f power_data" where
  "appPowerInit s =
     log_power (Call_RegisterWithUi (power_task s))
       (log_power (Call_RegisterMonitors (power_task s))
         (appPowerPerformanceInit
           (s\<lparr>clients := TaskList_WithDataInitialise, performance_req_count := 0, power_state := POWER_STATE_INIT,
              allow_dormant := True, user_initiated_shutdown := False, init_complete := False\<rparr>)))"

definition appPowerInitComplete ::
  "u32 \<Rightarrow> nat \<Rightarrow> power_conditions \<Rightarrow> 'f power_data \<Rightarrow> 'f power_data option" where
  "appPowerInitComplete now addr c s = appPowerHandlePowerEvent now addr c (s\<lparr>init_complete := True\<rparr>)"

definition appPowerOn :: "u32 \<Rightarrow> 'f power_data \<Rightarrow> 'f power_data option" where
  "appPowerOn now s = send_clients now POWER_ON s"

definition appPowerOffRequest ::
  "u32 \<Rightarrow> nat \<Rightarrow> power_conditions \<Rightarrow> 'f power_data \<Rightarrow> (bool \<times> 'f power_data) option" where
  "appPowerOffRequest now addr c s =
     (if appPowerCanPowerOff c then
        (case power_state s of
           POWER_STATE_INIT \<Rightarrow> Some (False, s)
         | POWER_STATE_OK \<Rightarrow>
             map_option (Pair True) (appPowerSetState now addr c POWER_STATE_TERMINATING_CLIENTS_NOTIFIED
                                      (s\<lparr>user_initiated_shutdown := True\<rparr>))
         | POWER_STATE_TERMINATING_CLIENTS_NOTIFIED \<Rightarrow> Some (True, s)
         | POWER_STATE_TERMINATING_CLIENTS_RESPONDED \<Rightarrow> Some (True, s)
         | POWER_STATE_SOPORIFIC_CLIENTS_NOTIFIED \<Rightarrow> Some (False, s)
         | POWER_STATE_SOPORIFIC_CLIENTS_RESPONDED \<Rightarrow> Some (False, s))
      else Some (False, s))"

definition appPowerClientRegister :: "u32 \<Rightarrow> task \<Rightarrow> 'f power_data \<Rightarrow> 'f power_data option" where
  "appPowerClientRegister now t s =
     do {
       (added, l) \<leftarrow> TaskList_AddTaskWithData (clients s) t 0;
       let s1 = s\<lparr>clients := l\<rparr>;
       if added then
         (case power_state s1 of
            POWER_STATE_INIT \<Rightarrow> None
          | POWER_STATE_OK \<Rightarrow> Some s1
          | POWER_STATE_TERMINATING_CLIENTS_NOTIFIED \<Rightarrow>
              do {
                (_, s2) \<leftarrow> appPowerSetFlagInClient t APP_POWER_SHUTDOWN_PREPARE_RESPONSE_PENDING s1;
                send_to now t APP_POWER_SHUTDOWN_PREPARE_IND s2
              }
          | POWER_STATE_TERMINATING_CLIENTS_RESPONDED \<Rightarrow> Some s1
          | POWER_STATE_SOPORIFIC_CLIENTS_NOTIFIED \<Rightarrow>
              do {
                (_, s2) \<leftarrow> appPowerSetFlagInClient t APP_POWER_SLEEP_PREPARE_RESPONSE_PENDING s1;
                send_to now t APP_POWER_SLEEP_PREPARE_IND s2
              }
          | POWER_STATE_SOPORIFIC_CLIENTS_RESPONDED \<Rightarrow> Some s1)
       else Some s1
     }"

definition appPowerClientAllowSleep ::
  "u32 \<Rightarrow> nat \<Rightarrow> power_conditions \<Rightarrow> task \<Rightarrow> 'f power_data \<Rightarrow> 'f power_data option" where
  "appPowerClientAllowSleep now addr c t s =
     do {
       (_, s1) \<leftarrow> appPowerSetFlagInClient t APP_POWER_ALLOW_SLEEP s;
       if power_state s1 = POWER_STATE_OK then
         do {
           allowed \<leftarrow> appPowerAllClientsHaveFlagSet APP_POWER_ALLOW_SLEEP s1;
           if allowed \<and> appPowerCanSleep c s1
           then appPowerSetState now addr c POWER_STATE_SOPORIFIC_CLIENTS_NOTIFIED s1
           else Some s1
         }
       else Some s1
     }"

definition appPowerClientProhibitSleep :: "task \<Rightarrow> 'f power_data \<Rightarrow> 'f power_data option" where
  "appPowerClientProhibitSleep t s = map_option snd (appPowerClearFlagInClient t APP_POWER_ALLOW_SLEEP s)"

text \<open>The two responses of a client have the same shape.\<close>

definition prepare_response ::
  "powerState \<Rightarrow> u32 \<Rightarrow> powerState \<Rightarrow> u32 \<Rightarrow> nat \<Rightarrow> power_conditions \<Rightarrow> task \<Rightarrow> 'f power_data
   \<Rightarrow> 'f power_data option" where
  "prepare_response waiting flag responded now addr c t s =
     (if power_state s = waiting then
        do {
          (found, s1) \<leftarrow> appPowerClearFlagInClient t flag s;
          if found then
            do {
              all_cleared \<leftarrow> appPowerAllClientsHaveFlagCleared flag s1;
              if all_cleared then appPowerSetState now addr c responded s1 else Some s1
            }
          else Some s1
        }
      else Some s)"

definition appPowerShutdownPrepareResponse ::
  "u32 \<Rightarrow> nat \<Rightarrow> power_conditions \<Rightarrow> task \<Rightarrow> 'f power_data \<Rightarrow> 'f power_data option" where
  "appPowerShutdownPrepareResponse now addr c t s =
     prepare_response POWER_STATE_TERMINATING_CLIENTS_NOTIFIED APP_POWER_SHUTDOWN_PREPARE_RESPONSE_PENDING
       POWER_STATE_TERMINATING_CLIENTS_RESPONDED now addr c t s"

definition appPowerSleepPrepareResponse ::
  "u32 \<Rightarrow> nat \<Rightarrow> power_conditions \<Rightarrow> task \<Rightarrow> 'f power_data \<Rightarrow> 'f power_data option" where
  "appPowerSleepPrepareResponse now addr c t s =
     prepare_response POWER_STATE_SOPORIFIC_CLIENTS_NOTIFIED APP_POWER_SLEEP_PREPARE_RESPONSE_PENDING
       POWER_STATE_SOPORIFIC_CLIENTS_RESPONDED now addr c t s"

definition appPowerClientUnregister ::
  "u32 \<Rightarrow> nat \<Rightarrow> power_conditions \<Rightarrow> task \<Rightarrow> 'f power_data \<Rightarrow> 'f power_data option" where
  "appPowerClientUnregister now addr c t s =
     do {
       s1 \<leftarrow> appPowerClientAllowSleep now addr c t s;
       s2 \<leftarrow> appPowerShutdownPrepareResponse now addr c t s1;
       s3 \<leftarrow> appPowerSleepPrepareResponse now addr c t s2;
       s4 \<leftarrow> cancel_for t APP_POWER_SLEEP_PREPARE_IND s3;
       s5 \<leftarrow> cancel_for t APP_POWER_SLEEP_CANCELLED_IND s4;
       s6 \<leftarrow> cancel_for t APP_POWER_SHUTDOWN_PREPARE_IND s5;
       s7 \<leftarrow> cancel_for t APP_POWER_SHUTDOWN_CANCELLED_IND s6;
       (_, l) \<leftarrow> TaskList_RemoveTask (clients s7) t;
       Some (s7\<lparr>clients := l\<rparr>)
     }"

definition appPowerIsShuttingDown :: "'f power_data \<Rightarrow> bool" where
  "appPowerIsShuttingDown s =
     (power_state s = POWER_STATE_TERMINATING_CLIENTS_NOTIFIED
      \<or> power_state s = POWER_STATE_TERMINATING_CLIENTS_RESPONDED)"

definition appPowerHandleMessage ::
  "u32 \<Rightarrow> nat \<Rightarrow> power_conditions \<Rightarrow> message_id \<Rightarrow> 'f power_data \<Rightarrow> 'f power_data option" where
  "appPowerHandleMessage now addr c i s =
     (if isMessageUiInput i then Some s
      else if i \<in> {CHARGER_MESSAGE_ATTACHED, CHARGER_MESSAGE_DETACHED, CHARGER_MESSAGE_COMPLETED,
                   MESSAGE_BATTERY_REGION_UPDATE, TEMPERATURE_STATE_CHANGED_IND}
      then appPowerHandlePowerEvent now addr c s
      else Some s)"

datatype power_provider_context = context_power_on | context_powering_off | context_entering_sleep

text \<open>\<open>None\<close> is \<open>BAD_CONTEXT\<close>.\<close>

definition appPowerCurrentContext :: "'f power_data \<Rightarrow> power_provider_context option" where
  "appPowerCurrentContext s =
     (case power_state s of
        POWER_STATE_INIT \<Rightarrow> None
      | POWER_STATE_OK \<Rightarrow> Some context_power_on
      | POWER_STATE_TERMINATING_CLIENTS_NOTIFIED \<Rightarrow> Some context_powering_off
      | POWER_STATE_TERMINATING_CLIENTS_RESPONDED \<Rightarrow> Some context_powering_off
      | POWER_STATE_SOPORIFIC_CLIENTS_NOTIFIED \<Rightarrow> Some context_entering_sleep
      | POWER_STATE_SOPORIFIC_CLIENTS_RESPONDED \<Rightarrow> Some context_entering_sleep)"

definition powerManager_RegisterMessageGroup ::
  "u32 \<Rightarrow> nat \<Rightarrow> power_conditions \<Rightarrow> task \<Rightarrow> message_group \<Rightarrow> 'f power_data \<Rightarrow> 'f power_data option" where
  "powerManager_RegisterMessageGroup now addr c t grp s =
     do {
       PanicFalse (grp = MESSAGE_GROUP ''POWER_APP'');
       s1 \<leftarrow> appPowerClientRegister now t s;
       appPowerClientAllowSleep now addr c t s1
     }"

section \<open>The clients as a table\<close>

lemma iterate_raw:
  assumes "td_valid l"
  shows "TaskList_IterateWithDataRaw l 0 = Some (if td_table l = [] then (None, 0) else (Some 0, fst (td_table l ! 0)))"
    "k < length (td_table l) \<Longrightarrow> TaskList_IterateWithDataRaw l (fst (td_table l ! k))
      = Some (if k + 1 < length (td_table l) then (Some (k + 1), fst (td_table l ! (k + 1)))
              else (None, fst (td_table l ! k)))"
proof -
  obtain ds where r: "tl_repr l (map fst (td_table l)) (map Some ds)" using td_validD(1) [OF assms] by blast
  note ok = td_validD(2) [OF assms] and wd = td_validD(3) [OF assms]
  show "TaskList_IterateWithDataRaw l 0 = Some (if td_table l = [] then (None, 0) else (Some 0, fst (td_table l ! 0)))"
  proof (cases "td_table l = []")
    case True
    then show ?thesis
      using td_size [OF assms] wd by (simp add: TaskList_IterateWithDataRaw_def iterateIndex_def)
  next
    case False
    then show ?thesis using iterate_start [OF r] wd by (simp add: TaskList_IterateWithDataRaw_def)
  qed
  show "k < length (td_table l) \<Longrightarrow> TaskList_IterateWithDataRaw l (fst (td_table l ! k))
      = Some (if k + 1 < length (td_table l) then (Some (k + 1), fst (td_table l ! (k + 1)))
              else (None, fst (td_table l ! k)))"
    using iterate_next [OF r ok, of k] wd by (simp add: TaskList_IterateWithDataRaw_def)
qed

lemma read_client:
  "td_valid l \<Longrightarrow> i < length (td_table l) \<Longrightarrow> read_cell (tl_data l) i = Some (snd (td_table l ! i))"
  using td_validD(1) [of l] by (auto simp: read_cell_def)

lemma all_clients_from:
  assumes "td_valid l" "k < length (td_table l)"
  shows "all_clients_loop P l (fst (td_table l ! k))
    = Some (\<forall>(t, d)\<in>set (drop (k + 1) (td_table l)). P (data_u32 d))"
  using assms(2)
proof (induction "length (td_table l) - 1 - k" arbitrary: k)
  case 0
  then have "length (td_table l) = k + 1" by linarith
  then show ?case using iterate_raw(2) [OF assms(1), of k] 0(2) by (subst all_clients_loop.simps) simp
next
  case (Suc m)
  then have k: "k + 1 < length (td_table l)" by linarith
  have "drop (k + 1) (td_table l) = td_table l ! (k + 1) # drop (k + 1 + 1) (td_table l)"
    using k by (simp add: Cons_nth_drop_Suc)
  moreover have "m = length (td_table l) - 1 - (k + 1)" using Suc(2) by simp
  ultimately show ?case
    using Suc(1) [of "k + 1"] k iterate_raw(2) [OF assms(1) Suc(3)] read_client [OF assms(1) k]
    by (subst all_clients_loop.simps) (auto simp: case_prod_unfold)
qed

lemma all_clients_loop_all:
  assumes "td_valid l"
  shows "all_clients_loop P l NULL_TASK = Some (\<forall>(t, d)\<in>set (td_table l). P (data_u32 d))"
proof (cases "td_table l")
  case Nil
  then show ?thesis using iterate_raw(1) [OF assms] by (subst all_clients_loop.simps) simp
next
  case (Cons e es)
  then have "0 < length (td_table l)" by simp
  from all_clients_from [OF assms this] read_client [OF assms this] iterate_raw(1) [OF assms] Cons
  show ?thesis by (subst all_clients_loop.simps) (auto simp: case_prod_unfold)
qed

abbreviation with_flag :: "u32 \<Rightarrow> task \<times> task_list_data \<Rightarrow> task \<times> task_list_data" where
  "with_flag flag \<equiv> \<lambda>(t, d). (t, d OR ucast flag)"

lemma set_flag_from:
  assumes "td_valid l" "k < length (td_table l)"
  shows "\<exists>l'. set_flag_loop flag l (fst (td_table l ! k)) = Some l' \<and> td_valid l'
    \<and> td_table l' = take (k + 1) (td_table l) @ map (with_flag flag) (drop (k + 1) (td_table l))"
  using assms
proof (induction "length (td_table l) - 1 - k" arbitrary: k l)
  case 0
  then have "length (td_table l) = k + 1" by linarith
  then show ?case using iterate_raw(2) [OF 0(2), of k] 0(2,3) by (subst set_flag_loop.simps) simp
next
  case (Suc m)
  then have k: "k + 1 < length (td_table l)" by linarith
  let ?l = "td_put l (k + 1) (snd (td_table l ! (k + 1)) OR ucast flag)"
  have p: "td_valid ?l" "td_table ?l = (td_table l)[k + 1 := with_flag flag (td_table l ! (k + 1))]"
    using td.put_replaces [OF Suc(3) k] by (simp_all add: case_prod_unfold)
  have "fst (td_table ?l ! (k + 1)) = fst (td_table l ! (k + 1))" using p(2) k by (simp add: case_prod_unfold)
  moreover have "m = length (td_table ?l) - 1 - (k + 1)" "k + 1 < length (td_table ?l)" using Suc(2) p(2) k by simp_all
  note Suc(1) [OF this(1) p(1) this(2)]
  moreover have "take (k + 1 + 1) (td_table ?l) @ map (with_flag flag) (drop (k + 1 + 1) (td_table ?l))
      = take (k + 1) (td_table l) @ map (with_flag flag) (drop (k + 1) (td_table l))"
    unfolding p(2) using k by (simp add: take_Suc_conv_app_nth Cons_nth_drop_Suc [symmetric])
  ultimately show ?case
    using iterate_raw(2) [OF Suc(3,4)] k read_client [OF Suc(3) k] by (subst set_flag_loop.simps) simp
qed

lemma set_flag_loop_all:
  assumes "td_valid l"
  shows "\<exists>l'. set_flag_loop flag l NULL_TASK = Some l' \<and> td_valid l' \<and> td_table l' = map (with_flag flag) (td_table l)"
proof (cases "td_table l = []")
  case True
  then show ?thesis using assms iterate_raw(1) [OF assms] by (subst set_flag_loop.simps) simp
next
  case False
  then have k: "0 < length (td_table l)" by simp
  let ?l = "td_put l 0 (snd (td_table l ! 0) OR ucast flag)"
  have p: "td_valid ?l" "td_table ?l = (td_table l)[0 := with_flag flag (td_table l ! 0)]"
    using td.put_replaces [OF assms k] by (simp_all add: case_prod_unfold)
  have "fst (td_table ?l ! 0) = fst (td_table l ! 0)" "0 < length (td_table ?l)" using p(2) k by (simp_all add: case_prod_unfold)
  with set_flag_from [OF p(1) this(2)] obtain l' where l': "set_flag_loop flag ?l (fst (td_table l ! 0)) = Some l'" "td_valid l'"
    "td_table l' = take 1 (td_table ?l) @ map (with_flag flag) (drop 1 (td_table ?l))" by auto
  have "td_table l' = map (with_flag flag) (td_table l)"
    using k unfolding l'(3) p(2) by (cases "td_table l") simp_all
  then show ?thesis
    using l'(1,2) iterate_raw(1) [OF assms] False read_client [OF assms k] by (subst set_flag_loop.simps) simp
qed

lemma change_client_table:
  assumes "td_valid (clients s)"
  shows "\<exists>l. change_client f t s = Some (t \<in> fst ` set (td_table (clients s)), s\<lparr>clients := l\<rparr>) \<and> td_valid l
    \<and> td_table l = map (\<lambda>(u, e). (u, if u = t then f e else e)) (td_table (clients s))"
proof -
  consider (absent) "t \<notin> fst ` set (td_table (clients s))" "TaskList_GetDataForTaskRaw (clients s) t = Some None"
    | (present) i where "i < length (td_table (clients s))" "fst (td_table (clients s) ! i) = t"
        "TaskList_GetDataForTaskRaw (clients s) t = Some (Some i)"
    by (rule td.find_client_total [OF assms, of t])
  then show ?thesis
  proof cases
  case absent
  have "map (\<lambda>(u, e). (u, if u = t then f e else e)) (td_table (clients s)) = td_table (clients s)"
    using absent(1) by (intro map_idI) (auto simp: image_iff)
  then show ?thesis using absent assms by (intro exI [of _ "clients s"]) (simp add: change_client_def)
next
  case (present i)
  have "map (\<lambda>(u, e). (u, if u = t then f (snd (td_table (clients s) ! i)) else e)) (td_table (clients s))
      = map (\<lambda>(u, e). (u, if u = t then f e else e)) (td_table (clients s))"
  proof (rule map_cong [OF refl])
    fix x assume x: "x \<in> set (td_table (clients s))"
    obtain u e where ue: "x = (u, e)" by (cases x)
    have "(t, snd (td_table (clients s) ! i)) \<in> set (td_table (clients s))"
      using present(1,2) nth_mem [of i "td_table (clients s)"] by (metis prod.collapse)
    then have "u = t \<Longrightarrow> e = snd (td_table (clients s) ! i)"
      using td.table_distinct [OF assms] x ue by (auto dest: eq_key_imp_eq_value)
    then show "(case x of (u, e) \<Rightarrow> (u, if u = t then f (snd (td_table (clients s) ! i)) else e))
        = (case x of (u, e) \<Rightarrow> (u, if u = t then f e else e))" by (simp add: ue)
  qed
  moreover have "t \<in> fst ` set (td_table (clients s))" using present(1,2) nth_mem by blast
  ultimately show ?thesis
    using present read_client [OF assms present(1)] td.put_replaces [OF assms present(1)]
      td.put_at_client [OF assms present(1), of "f (snd (td_table (clients s) ! i))", unfolded present(2)]
    by (intro exI [of _ "td_put (clients s) i (f (snd (td_table (clients s) ! i)))"])
      (simp add: change_client_def del: map_eq_conv)
qed
qed

text \<open>The three flags are the bits 0, 1 and 2 of the datum.\<close>

lemma flag_test:
  "data_u32 d AND APP_POWER_ALLOW_SLEEP = 0 \<longleftrightarrow> \<not> bit d 0"
  "data_u32 d AND APP_POWER_SHUTDOWN_PREPARE_RESPONSE_PENDING = 0 \<longleftrightarrow> \<not> bit d 1"
  "data_u32 d AND APP_POWER_SLEEP_PREPARE_RESPONSE_PENDING = 0 \<longleftrightarrow> \<not> bit d 2"
  using and_exp_eq_0_iff_not_bit [of "data_u32 d" 0] and_exp_eq_0_iff_not_bit [of "data_u32 d" 1]
    and_exp_eq_0_iff_not_bit [of "data_u32 d" 2]
  by (simp_all add: data_u32_def APP_POWER_ALLOW_SLEEP_def APP_POWER_SHUTDOWN_PREPARE_RESPONSE_PENDING_def
      APP_POWER_SLEEP_PREPARE_RESPONSE_PENDING_def bit_ucast_iff)

lemma bit_small: "bit (1 :: 64 word) j \<longleftrightarrow> j = 0" "bit (2 :: 64 word) j \<longleftrightarrow> j = 1" "bit (4 :: 64 word) j \<longleftrightarrow> j = 2"
  using bit_exp_iff [of 0 j, where ?'a = "64 word"] bit_exp_iff [of 1 j, where ?'a = "64 word"]
    bit_exp_iff [of 2 j, where ?'a = "64 word"] by auto

lemma bit_flag:
  "bit (ucast APP_POWER_ALLOW_SLEEP :: task_list_data) j \<longleftrightarrow> j = 0"
  "bit (ucast APP_POWER_SHUTDOWN_PREPARE_RESPONSE_PENDING :: task_list_data) j \<longleftrightarrow> j = 1"
  "bit (ucast APP_POWER_SLEEP_PREPARE_RESPONSE_PENDING :: task_list_data) j \<longleftrightarrow> j = 2"
  using bit_small [of j]
  by (simp_all add: APP_POWER_ALLOW_SLEEP_def APP_POWER_SHUTDOWN_PREPARE_RESPONSE_PENDING_def
      APP_POWER_SLEEP_PREPARE_RESPONSE_PENDING_def)

lemma flag_set:
  fixes d :: task_list_data
  shows "bit (d OR ucast APP_POWER_ALLOW_SLEEP) j \<longleftrightarrow> bit d j \<or> j = 0"
    "bit (d OR ucast APP_POWER_SHUTDOWN_PREPARE_RESPONSE_PENDING) j \<longleftrightarrow> bit d j \<or> j = 1"
    "bit (d OR ucast APP_POWER_SLEEP_PREPARE_RESPONSE_PENDING) j \<longleftrightarrow> bit d j \<or> j = 2"
  by (simp_all only: bit_or_iff bit_flag)

lemma flag_clear:
  fixes d :: task_list_data
  shows "bit (d AND NOT (ucast APP_POWER_ALLOW_SLEEP)) j \<longleftrightarrow> bit d j \<and> j \<noteq> 0"
    "bit (d AND NOT (ucast APP_POWER_SHUTDOWN_PREPARE_RESPONSE_PENDING)) j \<longleftrightarrow> bit d j \<and> j \<noteq> 1"
    "bit (d AND NOT (ucast APP_POWER_SLEEP_PREPARE_RESPONSE_PENDING)) j \<longleftrightarrow> bit d j \<and> j \<noteq> 2"
  using bit_imp_le_length [of d j]
  by (auto simp only: bit_and_iff bit_not_iff bit_flag possible_bit_word)

definition pending :: "nat \<Rightarrow> 'f power_data \<Rightarrow> bool" where
  "pending k s = (\<exists>(t, d)\<in>set (td_table (clients s)). bit d k)"

lemma all_cleared_table:
  assumes "td_valid (clients s)" "td_table (clients s) \<noteq> []"
  shows "appPowerAllClientsHaveFlagCleared APP_POWER_SHUTDOWN_PREPARE_RESPONSE_PENDING s = Some (\<not> pending 1 s)"
    "appPowerAllClientsHaveFlagCleared APP_POWER_SLEEP_PREPARE_RESPONSE_PENDING s = Some (\<not> pending 2 s)"
  using assms td_size [OF assms(1)]
  by (auto simp: appPowerAllClientsHaveFlagCleared_def TaskList_Size_def all_clients_loop_all flag_test pending_def)

lemma all_allow_table:
  assumes "td_valid (clients s)"
  shows "appPowerAllClientsHaveFlagSet APP_POWER_ALLOW_SLEEP s = Some (\<forall>(t, d)\<in>set (td_table (clients s)). bit d 0)"
  using assms td_size [OF assms]
  by (auto simp: appPowerAllClientsHaveFlagSet_def TaskList_Size_def all_clients_loop_all flag_test)

text \<open>Messages change the scheduler only.\<close>

lemma with_vm_simps [simp]:
  "clients (with_vm q s) = clients s" "power_state (with_vm q s) = power_state s"
  "user_initiated_shutdown (with_vm q s) = user_initiated_shutdown s" "power_vm (with_vm q s) = q"
  "with_vm q (with_vm r s) = with_vm q s" "system_state (with_vm q s) = (system_state s)\<lparr>ss_vm := q\<rparr>"
  "allow_dormant (with_vm q s) = allow_dormant s" "init_complete (with_vm q s) = init_complete s"
  by (simp_all add: with_vm_def power_vm_def)

lemma messages_frame:
  "send_clients now i s = Some s' \<Longrightarrow> \<exists>q. s' = with_vm q s"
  "send_to now t i s = Some s' \<Longrightarrow> \<exists>q. s' = with_vm q s"
  "cancel_for t i s = Some s' \<Longrightarrow> \<exists>q. s' = with_vm q s"
  "exit_power_state now s = Some s' \<Longrightarrow> \<exists>q. s' = with_vm q s"
proof -
  show a: "send_clients now i s = Some s' \<Longrightarrow> \<exists>q. s' = with_vm q s" for i by (auto simp: send_clients_def)
  show b: "send_to now t i s = Some s' \<Longrightarrow> \<exists>q. s' = with_vm q s" for t i by (auto simp: send_to_def)
  show "cancel_for t i s = Some s' \<Longrightarrow> \<exists>q. s' = with_vm q s" by (auto simp: cancel_for_def)
  have "\<exists>q. s = with_vm q s" by (intro exI [of _ "power_vm s"]) (simp add: with_vm_def power_vm_def)
  then show "exit_power_state now s = Some s' \<Longrightarrow> \<exists>q. s' = with_vm q s"
    using a b by (auto simp: exit_power_state_def split: powerState.splits)
qed

lemma run_system_frame: "run_system f s = Some s' \<Longrightarrow> \<exists>ss. s' = s\<lparr>system_state := ss\<rparr>"
  by (auto simp: run_system_def)

section \<open>The states\<close>

abbreviation no_clients :: "'f power_data \<Rightarrow> bool" where "no_clients s \<equiv> td_table (clients s) = []"

text \<open>
  What a completed change of state leaves behind: only the scheduler, the system state component, the
  flags of the clients, the state and \<open>user_initiated_shutdown\<close> change.
\<close>

lemma SetState_OK:
  assumes "appPowerSetState now addr c POWER_STATE_OK s = Some s'"
  shows "\<exists>q. s' = with_vm q (s\<lparr>power_state := POWER_STATE_OK, user_initiated_shutdown := False\<rparr>)"
proof -
  obtain s1 where s1: "exit_power_state now s = Some s1" "s' = s1\<lparr>power_state := POWER_STATE_OK, user_initiated_shutdown := False\<rparr>"
    using assms by (auto simp: appPowerSetState.simps [where new_state = POWER_STATE_OK] bind_eq_Some_conv)
  from messages_frame(4) [OF s1(1)] obtain q where "s1 = with_vm q s" by blast
  then show ?thesis using s1(2) by (intro exI [of _ q]) (simp add: with_vm_def)
qed

lemma SetState_terminated:
  assumes "appPowerSetState now addr c POWER_STATE_TERMINATING_CLIENTS_RESPONDED s = Some s'"
  shows "\<exists>ss. s' = s\<lparr>system_state := ss, power_state := POWER_STATE_OK, user_initiated_shutdown := False\<rparr>"
proof -
  let ?r = "\<lambda>s1. s1\<lparr>power_state := POWER_STATE_TERMINATING_CLIENTS_RESPONDED\<rparr>"
  obtain s1 s3 where s1: "exit_power_state now s = Some s1" "s3 = ?r s1 \<or> (\<exists>f. run_system f (?r s1) = Some s3)"
    "appPowerSetState now addr c POWER_STATE_OK s3 = Some s'"
    using assms by (subst (asm) appPowerSetState.simps) (auto simp: bind_eq_Some_conv Let_def split: if_splits)
  from messages_frame(4) [OF s1(1)] obtain q where q: "s1 = with_vm q s" by blast
  have "\<exists>ss. s3 = (?r s1)\<lparr>system_state := ss\<rparr>" using s1(2)
  proof
    assume "s3 = ?r s1"
    then show ?thesis by (intro exI [of _ "system_state s1"]) simp
  qed (use run_system_frame in blast)
  then obtain ss where "s3 = (?r s1)\<lparr>system_state := ss\<rparr>" by blast
  with SetState_OK [OF s1(3)] obtain r where "s' = with_vm r ((?r s1)\<lparr>system_state := ss, power_state := POWER_STATE_OK, user_initiated_shutdown := False\<rparr>)"
    by auto
  then show ?thesis by (intro exI [of _ "ss\<lparr>ss_vm := r\<rparr>"]) (simp add: q with_vm_def)
qed

lemma SetState_asleep:
  assumes "appPowerSetState now addr c POWER_STATE_SOPORIFIC_CLIENTS_RESPONDED s = Some s'"
  shows "\<exists>ss. s' = s\<lparr>system_state := ss, power_state := POWER_STATE_OK, user_initiated_shutdown := False\<rparr>
    \<or> s' = s\<lparr>system_state := ss, power_state := POWER_STATE_SOPORIFIC_CLIENTS_RESPONDED\<rparr>"
proof -
  let ?r = "\<lambda>s1. s1\<lparr>power_state := POWER_STATE_SOPORIFIC_CLIENTS_RESPONDED\<rparr>"
  obtain s1 where s1: "exit_power_state now s = Some s1"
    "(\<exists>f. run_system f (?r s1) = Some s') \<or> appPowerSetState now addr c POWER_STATE_OK (?r s1) = Some s'"
    using assms by (subst (asm) appPowerSetState.simps) (auto simp: bind_eq_Some_conv Let_def split: if_splits)
  from messages_frame(4) [OF s1(1)] obtain q where q: "s1 = with_vm q s" by blast
  from s1(2) show ?thesis
  proof
    assume "\<exists>f. run_system f (?r s1) = Some s'"
    then obtain ss where "s' = (?r s1)\<lparr>system_state := ss\<rparr>" using run_system_frame by blast
    then show ?thesis by (intro exI [of _ ss] disjI2) (simp add: q with_vm_def)
  next
    assume "appPowerSetState now addr c POWER_STATE_OK (?r s1) = Some s'"
    from SetState_OK [OF this] obtain r where
      "s' = with_vm r ((?r s1)\<lparr>power_state := POWER_STATE_OK, user_initiated_shutdown := False\<rparr>)" by blast
    then show ?thesis by (intro exI [of _ "(system_state s)\<lparr>ss_vm := r\<rparr>"] disjI1) (simp add: q with_vm_def)
  qed
qed

lemma SetFlagInAllClients_table:
  assumes "td_valid (clients s)"
  shows "\<exists>l. appPowerSetFlagInAllClients flag s = Some (s\<lparr>clients := l\<rparr>) \<and> td_valid l
    \<and> td_table l = map (with_flag flag) (td_table (clients s))"
  using set_flag_loop_all [OF assms, of flag] by (auto simp: appPowerSetFlagInAllClients_def)

lemma TaskList_Size_table: "td_valid l \<Longrightarrow> TaskList_Size (Some l) = 0 \<longleftrightarrow> td_table l = []"
  using td_size [of l] by (simp add: TaskList_Size_def)

lemma SetState_terminating:
  assumes "appPowerSetState now addr c POWER_STATE_TERMINATING_CLIENTS_NOTIFIED s = Some s'" "td_valid (clients s)"
  shows "if no_clients s
    then \<exists>ss. s' = s\<lparr>system_state := ss, power_state := POWER_STATE_OK, user_initiated_shutdown := False\<rparr>
    else \<exists>q l. s' = with_vm q (s\<lparr>power_state := POWER_STATE_TERMINATING_CLIENTS_NOTIFIED, clients := l\<rparr>) \<and> td_valid l
      \<and> td_table l = map (with_flag APP_POWER_SHUTDOWN_PREPARE_RESPONSE_PENDING) (td_table (clients s))"
proof -
  let ?r = "\<lambda>s1. s1\<lparr>power_state := POWER_STATE_TERMINATING_CLIENTS_NOTIFIED\<rparr>"
  obtain s1 where s1: "exit_power_state now s = Some s1" using assms(1)
    by (subst (asm) appPowerSetState.simps) (auto simp: bind_eq_Some_conv)
  from messages_frame(4) [OF s1] obtain q where q: "s1 = with_vm q s" by blast
  show ?thesis
  proof (cases "no_clients s")
    case True
    have "appPowerSetState now addr c POWER_STATE_TERMINATING_CLIENTS_RESPONDED (?r s1) = Some s'"
      using assms s1 True q TaskList_Size_table [OF assms(2)] by (subst (asm) appPowerSetState.simps) simp
    from SetState_terminated [OF this] obtain ss where
      "s' = (?r s1)\<lparr>system_state := ss, power_state := POWER_STATE_OK, user_initiated_shutdown := False\<rparr>" by blast
    then have "s' = s\<lparr>system_state := ss, power_state := POWER_STATE_OK, user_initiated_shutdown := False\<rparr>"
      by (simp add: q with_vm_def)
    then show ?thesis using True by auto
  next
    case False
    then obtain s3 s4 where s3: "send_clients now APP_POWER_SHUTDOWN_PREPARE_IND (?r s1) = Some s3"
      "appPowerSetFlagInAllClients APP_POWER_SHUTDOWN_PREPARE_RESPONSE_PENDING s3 = Some s4"
      "send_clients now POWER_OFF s4 = Some s'"
      using assms s1 q TaskList_Size_table [OF assms(2)]
      by (subst (asm) appPowerSetState.simps) (auto simp: bind_eq_Some_conv)
    from messages_frame(1) [OF s3(1)] obtain q1 where q1: "s3 = with_vm q1 (?r s1)" by blast
    then have "clients s3 = clients s" by (simp add: q)
    with SetFlagInAllClients_table [of s3 APP_POWER_SHUTDOWN_PREPARE_RESPONSE_PENDING] assms(2) s3(2) obtain l where
      l: "s4 = s3\<lparr>clients := l\<rparr>" "td_valid l"
      "td_table l = map (with_flag APP_POWER_SHUTDOWN_PREPARE_RESPONSE_PENDING) (td_table (clients s))" by auto
    from messages_frame(1) [OF s3(3)] obtain q2 where "s' = with_vm q2 s4" by blast
    then have "s' = with_vm q2 (s\<lparr>power_state := POWER_STATE_TERMINATING_CLIENTS_NOTIFIED, clients := l\<rparr>)"
      by (simp add: q q1 l(1) with_vm_def)
    then show ?thesis using False l(2,3) by (simp only: if_False) blast
  qed
qed

lemma SetState_soporific:
  assumes "appPowerSetState now addr c POWER_STATE_SOPORIFIC_CLIENTS_NOTIFIED s = Some s'" "td_valid (clients s)"
  shows "if no_clients s
    then \<exists>ss. s' = s\<lparr>system_state := ss, power_state := POWER_STATE_OK, user_initiated_shutdown := False\<rparr>
      \<or> s' = s\<lparr>system_state := ss, power_state := POWER_STATE_SOPORIFIC_CLIENTS_RESPONDED\<rparr>
    else \<exists>q l. s' = with_vm q (s\<lparr>power_state := POWER_STATE_SOPORIFIC_CLIENTS_NOTIFIED, clients := l\<rparr>) \<and> td_valid l
      \<and> td_table l = map (with_flag APP_POWER_SLEEP_PREPARE_RESPONSE_PENDING) (td_table (clients s))"
proof -
  let ?r = "\<lambda>s1. s1\<lparr>power_state := POWER_STATE_SOPORIFIC_CLIENTS_NOTIFIED\<rparr>"
  obtain s1 where s1: "exit_power_state now s = Some s1" using assms(1)
    by (subst (asm) appPowerSetState.simps) (auto simp: bind_eq_Some_conv)
  from messages_frame(4) [OF s1] obtain q where q: "s1 = with_vm q s" by blast
  show ?thesis
  proof (cases "no_clients s")
    case True
    have "appPowerSetState now addr c POWER_STATE_SOPORIFIC_CLIENTS_RESPONDED (?r s1) = Some s'"
      using assms s1 True q TaskList_Size_table [OF assms(2)] by (subst (asm) appPowerSetState.simps) simp
    from SetState_asleep [OF this] show ?thesis
      using True by (simp add: q with_vm_def)
  next
    case False
    then obtain s3 where s3: "send_clients now APP_POWER_SLEEP_PREPARE_IND (?r s1) = Some s3"
      "appPowerSetFlagInAllClients APP_POWER_SLEEP_PREPARE_RESPONSE_PENDING s3 = Some s'"
      using assms s1 q TaskList_Size_table [OF assms(2)]
      by (subst (asm) appPowerSetState.simps) (auto simp: bind_eq_Some_conv)
    from messages_frame(1) [OF s3(1)] obtain q1 where q1: "s3 = with_vm q1 (?r s1)" by blast
    then have "clients s3 = clients s" by (simp add: q)
    with SetFlagInAllClients_table [of s3 APP_POWER_SLEEP_PREPARE_RESPONSE_PENDING] assms(2) s3(2) obtain l where
      l: "s' = s3\<lparr>clients := l\<rparr>" "td_valid l"
      "td_table l = map (with_flag APP_POWER_SLEEP_PREPARE_RESPONSE_PENDING) (td_table (clients s))" by auto
    have "s' = with_vm q1 (s\<lparr>power_state := POWER_STATE_SOPORIFIC_CLIENTS_NOTIFIED, clients := l\<rparr>)"
      by (simp add: q q1 l(1) with_vm_def)
    then show ?thesis using False l(2,3) by (simp only: if_False) blast
  qed
qed

section \<open>Invariant\<close>

definition power_inv :: "'f power_data \<Rightarrow> bool" where
  "power_inv s =
     (td_valid (clients s)
      \<and> (pending 1 s \<longleftrightarrow> power_state s = POWER_STATE_TERMINATING_CLIENTS_NOTIFIED)
      \<and> (pending 2 s \<longleftrightarrow> power_state s = POWER_STATE_SOPORIFIC_CLIENTS_NOTIFIED)
      \<and> power_state s \<noteq> POWER_STATE_TERMINATING_CLIENTS_RESPONDED
      \<and> (user_initiated_shutdown s \<longrightarrow> power_state s = POWER_STATE_TERMINATING_CLIENTS_NOTIFIED)
      \<and> (power_state s = POWER_STATE_INIT \<longrightarrow> no_clients s))"

text \<open>The system state component but for the scheduler in it: no transition was started.\<close>

definition same_system :: "'f power_data \<Rightarrow> 'f power_data \<Rightarrow> bool" where
  "same_system s s' = (\<exists>q. system_state s' = (system_state s)\<lparr>ss_vm := q\<rparr>)"

definition no_response_pending :: "'f power_data \<Rightarrow> bool" where
  "no_response_pending s = (\<not> pending 1 s \<and> \<not> pending 2 s)"

lemma same_system_refl [simp]: "same_system s s"
  unfolding same_system_def by (intro exI [of _ "ss_vm (system_state s)"]) simp

lemma same_system_trans: "same_system s t \<Longrightarrow> same_system t u \<Longrightarrow> same_system s u"
  unfolding same_system_def by (elim exE) (metis (no_types) system_state_ctx.update_convs(6) system_state_ctx.surjective)

lemma same_system_simps [simp]:
  "same_system s (with_vm q s')" if "system_state s' = system_state s"
  using that by (auto simp: same_system_def)

lemma same_systemI: "system_state s' = system_state s \<Longrightarrow> same_system s s'"
  by (metis same_system_def same_system_refl)

lemma pending_simps [simp]:
  "pending k (with_vm q s) = pending k s"
  "pending k (s\<lparr>system_state := ss\<rparr>) = pending k s"
  "pending k (s\<lparr>power_state := p\<rparr>) = pending k s"
  "pending k (s\<lparr>user_initiated_shutdown := u\<rparr>) = pending k s"
  "pending k (s\<lparr>power_calls := cs\<rparr>) = pending k s"
  "pending k (s\<lparr>performance_req_count := n\<rparr>) = pending k s"
  "pending k (s\<lparr>init_complete := b\<rparr>) = pending k s"
  "pending k (s\<lparr>allow_dormant := b\<rparr>) = pending k s"
  by (simp_all add: pending_def)

lemma pending_table: "clients s' = clients s \<Longrightarrow> pending k s' = pending k s"
  by (simp add: pending_def)

lemma pending_notified:
  assumes "td_table (clients s') = map (with_flag flag) (td_table (clients s))"
    "\<And>d. bit (d OR ucast flag :: task_list_data) k \<longleftrightarrow> bit d k \<or> k = n" "\<not> no_clients s"
  shows "pending k s' \<longleftrightarrow> pending k s \<or> k = n"
proof -
  have "(\<exists>x\<in>set (td_table (clients s)). True) \<longleftrightarrow> True" using assms(3) by (cases "td_table (clients s)") auto
  then show ?thesis unfolding pending_def assms(1) using assms(2) by (auto simp: case_prod_unfold)
qed

fun next_states :: "powerState \<Rightarrow> powerState set" where
  "next_states POWER_STATE_TERMINATING_CLIENTS_NOTIFIED = {POWER_STATE_OK, POWER_STATE_TERMINATING_CLIENTS_NOTIFIED}"
| "next_states POWER_STATE_SOPORIFIC_CLIENTS_NOTIFIED =
     {POWER_STATE_OK, POWER_STATE_SOPORIFIC_CLIENTS_NOTIFIED, POWER_STATE_SOPORIFIC_CLIENTS_RESPONDED}"
| "next_states POWER_STATE_SOPORIFIC_CLIENTS_RESPONDED = {POWER_STATE_OK, POWER_STATE_SOPORIFIC_CLIENTS_RESPONDED}"
| "next_states _ = {POWER_STATE_OK}"

lemma SetState_inv:
  assumes "appPowerSetState now addr c st s = Some s'" "td_valid (clients s)" "no_response_pending s"
    "user_initiated_shutdown s \<longrightarrow> st \<noteq> POWER_STATE_SOPORIFIC_CLIENTS_NOTIFIED \<and> st \<noteq> POWER_STATE_SOPORIFIC_CLIENTS_RESPONDED"
    "st \<noteq> POWER_STATE_INIT"
  shows "power_inv s' \<and> (same_system s s' \<or> no_response_pending s') \<and> power_state s' \<in> next_states st"
proof (cases st)
  case POWER_STATE_OK
  with SetState_OK [of now addr c s s'] assms(1) obtain q where
    "s' = with_vm q (s\<lparr>power_state := POWER_STATE_OK, user_initiated_shutdown := False\<rparr>)" by auto
  then show ?thesis using assms POWER_STATE_OK by (simp add: power_inv_def no_response_pending_def)
next
  case POWER_STATE_TERMINATING_CLIENTS_RESPONDED
  with SetState_terminated [of now addr c s s'] assms(1) obtain ss where
    "s' = s\<lparr>system_state := ss, power_state := POWER_STATE_OK, user_initiated_shutdown := False\<rparr>" by auto
  then show ?thesis using assms POWER_STATE_TERMINATING_CLIENTS_RESPONDED by (simp add: power_inv_def no_response_pending_def)
next
  case POWER_STATE_SOPORIFIC_CLIENTS_RESPONDED
  with SetState_asleep [of now addr c s s'] assms(1) obtain ss where
    "s' = s\<lparr>system_state := ss, power_state := POWER_STATE_OK, user_initiated_shutdown := False\<rparr>
    \<or> s' = s\<lparr>system_state := ss, power_state := POWER_STATE_SOPORIFIC_CLIENTS_RESPONDED\<rparr>" by blast
  then show ?thesis using assms POWER_STATE_SOPORIFIC_CLIENTS_RESPONDED
    by (elim disjE) (simp_all add: power_inv_def no_response_pending_def)
next
  case POWER_STATE_TERMINATING_CLIENTS_NOTIFIED
  note st = SetState_terminating [OF assms(1) [unfolded this] assms(2)]
  show ?thesis
  proof (cases "no_clients s")
    case True
    with st obtain ss where
      "s' = s\<lparr>system_state := ss, power_state := POWER_STATE_OK, user_initiated_shutdown := False\<rparr>" by auto
    then show ?thesis using assms POWER_STATE_TERMINATING_CLIENTS_NOTIFIED by (simp add: power_inv_def no_response_pending_def)
  next
    case False
    with st obtain q l where l: "s' = with_vm q (s\<lparr>power_state := POWER_STATE_TERMINATING_CLIENTS_NOTIFIED, clients := l\<rparr>)"
      "td_valid l" "td_table l = map (with_flag APP_POWER_SHUTDOWN_PREPARE_RESPONSE_PENDING) (td_table (clients s))" by auto
    have "td_table (clients s') = map (with_flag APP_POWER_SHUTDOWN_PREPARE_RESPONSE_PENDING) (td_table (clients s))"
      using l by simp
    from pending_notified [OF this flag_set(2) False] have "pending k s' \<longleftrightarrow> pending k s \<or> k = 1" for k .
    then show ?thesis using assms l(1,2) POWER_STATE_TERMINATING_CLIENTS_NOTIFIED
      by (simp add: power_inv_def no_response_pending_def)
  qed
next
  case POWER_STATE_SOPORIFIC_CLIENTS_NOTIFIED
  note st = SetState_soporific [OF assms(1) [unfolded this] assms(2)]
  show ?thesis
  proof (cases "no_clients s")
    case True
    with st obtain ss where
      "s' = s\<lparr>system_state := ss, power_state := POWER_STATE_OK, user_initiated_shutdown := False\<rparr>
      \<or> s' = s\<lparr>system_state := ss, power_state := POWER_STATE_SOPORIFIC_CLIENTS_RESPONDED\<rparr>" by auto
    then show ?thesis using assms POWER_STATE_SOPORIFIC_CLIENTS_NOTIFIED
      by (elim disjE) (simp_all add: power_inv_def no_response_pending_def)
  next
    case False
    with st obtain q l where l: "s' = with_vm q (s\<lparr>power_state := POWER_STATE_SOPORIFIC_CLIENTS_NOTIFIED, clients := l\<rparr>)"
      "td_valid l" "td_table l = map (with_flag APP_POWER_SLEEP_PREPARE_RESPONSE_PENDING) (td_table (clients s))" by auto
    have "td_table (clients s') = map (with_flag APP_POWER_SLEEP_PREPARE_RESPONSE_PENDING) (td_table (clients s))"
      using l by simp
    from pending_notified [OF this flag_set(3) False] have "pending k s' \<longleftrightarrow> pending k s \<or> k = 2" for k .
    then show ?thesis using assms l(1,2) POWER_STATE_SOPORIFIC_CLIENTS_NOTIFIED
      by (simp add: power_inv_def no_response_pending_def)
  qed
qed (use assms in simp)

definition good_move :: "'f power_data \<Rightarrow> 'f power_data \<Rightarrow> bool" where
  "good_move s s' = (power_inv s' \<and> (same_system s s' \<or> no_response_pending s'))"

lemma good_move_refl: "power_inv s \<Longrightarrow> good_move s s"
  by (simp add: good_move_def)

lemma inv_frame:
  assumes "power_inv s" "clients s' = clients s" "power_state s' = power_state s"
    "user_initiated_shutdown s' = user_initiated_shutdown s"
  shows "power_inv s'"
  using assms pending_table [of s' s] by (simp add: power_inv_def)

lemma good_move_frame:
  assumes "power_inv s" "clients s' = clients s" "power_state s' = power_state s"
    "user_initiated_shutdown s' = user_initiated_shutdown s" "same_system s s'"
  shows "good_move s s'"
  using inv_frame [OF assms(1-4)] assms(5) by (simp add: good_move_def)

lemma at_rest:
  assumes "power_inv s" "power_state s \<noteq> POWER_STATE_TERMINATING_CLIENTS_NOTIFIED"
    "power_state s \<noteq> POWER_STATE_SOPORIFIC_CLIENTS_NOTIFIED"
  shows "no_response_pending s" "td_valid (clients s)" "\<not> user_initiated_shutdown s"
  using assms by (auto simp: power_inv_def no_response_pending_def)

lemma HandlePowerEvent_move:
  assumes "power_inv s" "appPowerHandlePowerEvent now addr c s = Some s'"
  shows "good_move s s'"
proof (cases "power_state s")
  case POWER_STATE_INIT
  then obtain s1 where s1: "s1 = s \<or> (\<exists>f. run_system f s = Some s1)" "appPowerSetState now addr c POWER_STATE_OK s1 = Some s'"
    using assms(2) by (auto simp: appPowerHandlePowerEvent_def bind_eq_Some_conv split: if_splits)
  then have "clients s1 = clients s" "user_initiated_shutdown s1 = user_initiated_shutdown s"
    "no_response_pending s1 = no_response_pending s"
    using run_system_frame by (fastforce simp: no_response_pending_def)+
  with SetState_inv [OF s1(2)] at_rest [OF assms(1)] POWER_STATE_INIT show ?thesis
    by (auto simp: good_move_def power_inv_def no_response_pending_def)
next
  case POWER_STATE_OK
  then have "s' = s \<or> (\<exists>st. appPowerSetState now addr c st s = Some s' \<and> st \<noteq> POWER_STATE_INIT)"
    using assms(2) by (auto simp: appPowerHandlePowerEvent_def bind_eq_Some_conv split: if_splits)
  then show ?thesis
  proof (elim disjE exE conjE)
    fix st assume st: "appPowerSetState now addr c st s = Some s'" "st \<noteq> POWER_STATE_INIT"
    show ?thesis using SetState_inv [OF st(1)] st(2) at_rest [OF assms(1)] POWER_STATE_OK by (simp add: good_move_def)
  qed (use good_move_refl [OF assms(1)] in simp)
qed (use assms good_move_refl in \<open>simp_all add: appPowerHandlePowerEvent_def\<close>)

lemma OffRequest_move:
  assumes "power_inv s" "appPowerOffRequest now addr c s = Some (b, s')"
  shows "good_move s s'"
proof (cases "power_state s = POWER_STATE_OK \<and> appPowerCanPowerOff c")
  case True
  then have st: "appPowerSetState now addr c POWER_STATE_TERMINATING_CLIENTS_NOTIFIED
      (s\<lparr>user_initiated_shutdown := True\<rparr>) = Some s'"
    using assms(2) by (auto simp: appPowerOffRequest_def)
  from SetState_inv [OF this] at_rest [OF assms(1)] True show ?thesis
    by (auto simp: good_move_def no_response_pending_def same_system_def)
next
  case False
  then show ?thesis using assms good_move_refl [OF assms(1)]
    by (auto simp: appPowerOffRequest_def split: if_splits powerState.splits)
qed

text \<open>What a change of one client's flags does to the responses that are pending.\<close>

abbreviation change_at :: "(task_list_data \<Rightarrow> task_list_data) \<Rightarrow> task \<Rightarrow> task \<times> task_list_data \<Rightarrow> task \<times> task_list_data" where
  "change_at f t \<equiv> \<lambda>(u, e). (u, if u = t then f e else e)"

lemma change_client_SomeD:
  assumes "change_client f t s = Some (found, s')" "td_valid (clients s)"
  shows "found \<longleftrightarrow> t \<in> fst ` set (td_table (clients s))"
    "\<exists>l. s' = s\<lparr>clients := l\<rparr> \<and> td_valid l \<and> td_table l = map (change_at f t) (td_table (clients s))"
  using change_client_table [OF assms(2), of f t] assms(1) by auto

lemma pending_changed:
  assumes "td_table (clients s') = map (change_at f t) (td_table (clients s))" "\<And>d. bit (f d) k = bit d k"
  shows "pending k s' = pending k s"
proof -
  have "(\<exists>x\<in>set (td_table (clients s)). case change_at f t x of (u, d) \<Rightarrow> bit d k)
      = (\<exists>x\<in>set (td_table (clients s)). case x of (u, d) \<Rightarrow> bit d k)"
    using assms(2) by (intro bex_cong) (auto simp: case_prod_unfold)
  then show ?thesis unfolding pending_def assms(1) by simp
qed

lemma change_move:
  assumes "power_inv s" "change_client f t s = Some (found, s')" "\<And>d. bit (f d) 1 = bit d 1" "\<And>d. bit (f d) 2 = bit d 2"
  shows "good_move s s' \<and> power_state s' = power_state s \<and> same_system s s'"
proof -
  have "td_valid (clients s)" using assms(1) by (simp add: power_inv_def)
  from change_client_SomeD(2) [OF assms(2) this] obtain l where
    l: "s' = s\<lparr>clients := l\<rparr>" "td_valid l" "td_table l = map (change_at f t) (td_table (clients s))" by blast
  have "pending 1 s' = pending 1 s" "pending 2 s' = pending 2 s"
    using pending_changed [where s' = s' and f = f and t = t and s = s] l(1,3) assms(3,4) by simp_all
  then show ?thesis using assms(1) l by (simp add: good_move_def power_inv_def same_systemI)
qed

lemma ProhibitSleep_move:
  assumes "power_inv s" "appPowerClientProhibitSleep t s = Some s'"
  shows "good_move s s'"
  using assms change_move flag_clear(1)
  by (fastforce simp: appPowerClientProhibitSleep_def appPowerClearFlagInClient_def)

lemma AllowSleep_move:
  assumes "power_inv s" "appPowerClientAllowSleep now addr c t s = Some s'"
  shows "good_move s s'"
proof -
  obtain found s1 where s1: "appPowerSetFlagInClient t APP_POWER_ALLOW_SLEEP s = Some (found, s1)"
    "s' = s1 \<or> power_state s1 = POWER_STATE_OK \<and> appPowerSetState now addr c POWER_STATE_SOPORIFIC_CLIENTS_NOTIFIED s1 = Some s'"
    using assms(2) by (auto simp: appPowerClientAllowSleep_def bind_eq_Some_conv split: if_splits)
  have m: "good_move s s1 \<and> power_state s1 = power_state s \<and> same_system s s1"
    using change_move [OF assms(1) s1(1) [unfolded appPowerSetFlagInClient_def]] flag_set(1) by simp
  from s1(2) show ?thesis
  proof
    assume a: "power_state s1 = POWER_STATE_OK \<and> appPowerSetState now addr c POWER_STATE_SOPORIFIC_CLIENTS_NOTIFIED s1 = Some s'"
    from m have "power_inv s1" by (simp add: good_move_def)
    from SetState_inv [OF a [THEN conjunct2]] at_rest [OF this] a m show ?thesis
      by (auto simp: good_move_def intro: same_system_trans)
  qed (use m in simp)
qed

text \<open>The two handshakes: the state that waits, the flag, its bit and the state that follows.\<close>

definition handshakes :: "(powerState \<times> u32 \<times> powerState \<times> nat) set" where
  "handshakes =
     {(POWER_STATE_TERMINATING_CLIENTS_NOTIFIED, APP_POWER_SHUTDOWN_PREPARE_RESPONSE_PENDING,
       POWER_STATE_TERMINATING_CLIENTS_RESPONDED, 1),
      (POWER_STATE_SOPORIFIC_CLIENTS_NOTIFIED, APP_POWER_SLEEP_PREPARE_RESPONSE_PENDING,
       POWER_STATE_SOPORIFIC_CLIENTS_RESPONDED, 2)}"

lemma handshake_facts:
  assumes "(w, flag, r, k) \<in> handshakes"
  shows "bit (d AND NOT (ucast flag) :: task_list_data) j \<longleftrightarrow> bit d j \<and> j \<noteq> k"
    "td_valid (clients s) \<Longrightarrow> \<not> no_clients s \<Longrightarrow> appPowerAllClientsHaveFlagCleared flag s = Some (\<not> pending k s)"
    "power_inv s \<Longrightarrow> pending k s \<longleftrightarrow> power_state s = w"
    "power_inv s \<Longrightarrow> power_state s = w \<Longrightarrow> \<not> pending k s' \<Longrightarrow> \<forall>j. j \<noteq> k \<longrightarrow> pending j s' = pending j s \<Longrightarrow> no_response_pending s'"
    "r \<noteq> POWER_STATE_INIT" "r \<noteq> POWER_STATE_TERMINATING_CLIENTS_NOTIFIED" "r \<noteq> POWER_STATE_SOPORIFIC_CLIENTS_NOTIFIED"
    "w \<notin> next_states r" "w = POWER_STATE_SOPORIFIC_CLIENTS_NOTIFIED \<or> r \<noteq> POWER_STATE_SOPORIFIC_CLIENTS_RESPONDED"
    "k < 64"
  using assms by (auto simp: handshakes_def flag_clear all_cleared_table power_inv_def no_response_pending_def)

lemma cleared_client:
  assumes "power_inv s" "(w, flag, r, k) \<in> handshakes" "appPowerClearFlagInClient t flag s = Some (found, s1)"
  shows "found \<longleftrightarrow> t \<in> fst ` set (td_table (clients s))"
    "\<exists>l. s1 = s\<lparr>clients := l\<rparr> \<and> td_valid l \<and> td_table l = map (change_at (\<lambda>d. d AND NOT (ucast flag)) t) (td_table (clients s))"
    "j \<noteq> k \<Longrightarrow> pending j s1 = pending j s"
    "pending k s1 \<longleftrightarrow> (\<exists>(u, d)\<in>set (td_table (clients s)). u \<noteq> t \<and> bit d k)"
    "(t, d) \<in> set (td_table (clients s1)) \<Longrightarrow> \<not> bit d k"
proof -
  have v: "td_valid (clients s)" using assms(1) by (simp add: power_inv_def)
  note ch = change_client_SomeD [OF assms(3) [unfolded appPowerClearFlagInClient_def] v]
  show "found \<longleftrightarrow> t \<in> fst ` set (td_table (clients s))" by (rule ch(1))
  show "\<exists>l. s1 = s\<lparr>clients := l\<rparr> \<and> td_valid l \<and> td_table l = map (change_at (\<lambda>d. d AND NOT (ucast flag)) t) (td_table (clients s))"
    by (rule ch(2))
  then have tab: "td_table (clients s1) = map (change_at (\<lambda>d. d AND NOT (ucast flag)) t) (td_table (clients s))" by auto
  note b = handshake_facts(1) [OF assms(2)]
  show "j \<noteq> k \<Longrightarrow> pending j s1 = pending j s" by (rule pending_changed [OF tab]) (simp add: b)
  have "(case change_at (\<lambda>d. d AND NOT (ucast flag)) t x of (u, d) \<Rightarrow> bit d k) = (case x of (u, d) \<Rightarrow> u \<noteq> t \<and> bit d k)"
    for x :: "task \<times> task_list_data" using b by (cases x) auto
  then show "pending k s1 \<longleftrightarrow> (\<exists>(u, d)\<in>set (td_table (clients s)). u \<noteq> t \<and> bit d k)"
    unfolding pending_def tab by simp
  show "(t, d) \<in> set (td_table (clients s1)) \<Longrightarrow> \<not> bit d k" unfolding tab using b by auto
qed

lemma prepare_response_move:
  assumes "power_inv s" "(w, flag, r, k) \<in> handshakes" "prepare_response w flag r now addr c t s = Some s'"
  shows "good_move s s' \<and> (\<forall>d. (t, d) \<in> set (td_table (clients s')) \<longrightarrow> \<not> bit d k)
    \<and> (s' = s \<or> power_state s = w \<and> power_state s' \<in> insert w (next_states r))"
proof (cases "power_state s = w")
  case False
  then have "s' = s" "\<not> pending k s" using assms(3) handshake_facts(3) [OF assms(2,1)] by (simp_all add: prepare_response_def)
  then show ?thesis using good_move_refl [OF assms(1)] by (auto simp: pending_def)
next
  case True
  then obtain found s1 where s1: "appPowerClearFlagInClient t flag s = Some (found, s1)"
    using assms(3) by (auto simp: prepare_response_def bind_eq_Some_conv)
  note cl = cleared_client [OF assms(1,2) s1]
  from cl(2) obtain l where l: "s1 = s\<lparr>clients := l\<rparr>" "td_valid l"
    "td_table l = map (change_at (\<lambda>d. d AND NOT (ucast flag)) t) (td_table (clients s))" by blast
  have p: "no_response_pending s1" if "\<not> pending k s1"
    using handshake_facts(4) [OF assms(2,1) True that] cl(3) by simp
  have still: ?thesis if e: "s' = s1" and pk: "pending k s1"
  proof -
    have "power_inv s1"
      using assms(1) l(1,2,3) cl(3) pk True handshake_facts(3) [OF assms(2,1)] assms(2)
      by (auto simp: power_inv_def handshakes_def)
    then show ?thesis using l(1) True cl(5) unfolding e by (simp add: good_move_def same_systemI)
  qed
  show ?thesis
  proof (cases found)
    case False
    then have "t \<notin> fst ` set (td_table (clients s))" using cl(1) by simp
    then have "pending k s1 = pending k s" unfolding cl(4) unfolding pending_def by (intro bex_cong) (auto simp: image_iff)
    then show ?thesis using still assms(3) True False s1 handshake_facts(3) [OF assms(2,1)] by (simp add: prepare_response_def)
  next
    case f: True
    then have "\<not> no_clients s1" using cl(1) l by auto
    note ac = handshake_facts(2) [OF assms(2) _ this]
    show ?thesis
    proof (cases "pending k s1")
      case True
      then have "s' = s1" using assms(3) \<open>power_state s = w\<close> f s1 ac l by (simp add: prepare_response_def)
      then show ?thesis using still True by blast
    next
      case False
      then have st: "appPowerSetState now addr c r s1 = Some s'"
        using assms(3) \<open>power_state s = w\<close> f s1 ac l by (simp add: prepare_response_def)
      have "user_initiated_shutdown s1 \<longrightarrow> r \<noteq> POWER_STATE_SOPORIFIC_CLIENTS_RESPONDED"
        using assms(1,2) True l(1) by (auto simp: power_inv_def handshakes_def)
      then have m: "power_inv s' \<and> (same_system s1 s' \<or> no_response_pending s') \<and> power_state s' \<in> next_states r"
        using SetState_inv [OF st _ p [OF False]] l handshake_facts [OF assms(2)] by simp
      then have "same_system s s' \<or> no_response_pending s'" using l(1) by (auto simp: same_system_def)
      moreover have "\<not> pending k s'" using m handshake_facts(3,8) [OF assms(2)] by auto
      ultimately show ?thesis using m True by (auto simp: good_move_def pending_def)
    qed
  qed
qed

lemma ShutdownPrepareResponse_move:
  assumes "power_inv s" "appPowerShutdownPrepareResponse now addr c t s = Some s'"
  shows "good_move s s'" "(t, d) \<in> set (td_table (clients s')) \<Longrightarrow> \<not> bit d 1"
  using prepare_response_move [OF assms(1) _ assms(2) [unfolded appPowerShutdownPrepareResponse_def], of 1]
  by (auto simp: handshakes_def)

lemma SleepPrepareResponse_move:
  assumes "power_inv s" "appPowerSleepPrepareResponse now addr c t s = Some s'"
  shows "good_move s s'" "(t, d) \<in> set (td_table (clients s')) \<Longrightarrow> \<not> bit d 2"
    "s' = s \<or> power_state s' \<noteq> POWER_STATE_TERMINATING_CLIENTS_NOTIFIED"
proof -
  have h: "(POWER_STATE_SOPORIFIC_CLIENTS_NOTIFIED, APP_POWER_SLEEP_PREPARE_RESPONSE_PENDING,
      POWER_STATE_SOPORIFIC_CLIENTS_RESPONDED, 2) \<in> handshakes" by (simp add: handshakes_def)
  note m = prepare_response_move [OF assms(1) h assms(2) [unfolded appPowerSleepPrepareResponse_def]]
  show "good_move s s'" "(t, d) \<in> set (td_table (clients s')) \<Longrightarrow> \<not> bit d 2" using m by blast+
  show "s' = s \<or> power_state s' \<noteq> POWER_STATE_TERMINATING_CLIENTS_NOTIFIED" using m by auto
qed

lemma ClientRegister_move:
  assumes "power_inv s" "t \<noteq> NULL_TASK" "length (td_table (clients s)) < 15" "appPowerClientRegister now t s = Some s'"
  shows "good_move s s'"
proof -
  have v: "td_valid (clients s)" using assms(1) by (simp add: power_inv_def)
  show ?thesis
  proof (cases "t \<in> fst ` set (td_table (clients s))")
    case True
    then have "s' = s" using assms(4) td.add_old [OF v True, of 0] by (simp add: appPowerClientRegister_def)
    then show ?thesis using good_move_refl [OF assms(1)] by simp
  next
    case False
    from td.add_new [OF v assms(2) this assms(3), of 0] obtain l where
      l: "TaskList_AddTaskWithData (clients s) t 0 = Some (True, l)" "td_valid l" "td_table l = td_table (clients s) @ [(t, 0)]"
      by blast
    let ?s = "s\<lparr>clients := l\<rparr>"
    have p: "pending k ?s = pending k s" for k using l(3) by (simp add: pending_def)
    have told: "good_move s s'" if h: "(w, flag, r, k) \<in> handshakes" "power_state s = w"
      and st: "appPowerSetFlagInClient t flag ?s = Some (found, s1)" "send_to now t i s1 = Some s'"
      and b: "\<And>d j. bit (d OR ucast flag :: task_list_data) j \<longleftrightarrow> bit d j \<or> j = k" for w flag r k found s1 i
    proof -
      have "td_valid (clients ?s)" using l(2) by simp
      from change_client_SomeD(2) [OF st(1) [unfolded appPowerSetFlagInClient_def] this] obtain l1 where
        l1: "s1 = ?s\<lparr>clients := l1\<rparr>" "td_valid l1" "td_table l1 = map (change_at (\<lambda>d. d OR ucast flag) t) (td_table (clients ?s))"
        by blast
      have tab: "td_table (clients s1) = map (change_at (\<lambda>d. d OR ucast flag) t) (td_table (clients ?s))" using l1 by simp
      have "pending j s1 = pending j s" if "j \<noteq> k" for j
        using pending_changed [OF tab, of j] b that p by simp
      moreover have "(t, 0 OR ucast flag) \<in> set (td_table (clients s1))" unfolding tab using l(3) by force
      then have "pending k s1" unfolding pending_def using b by force
      ultimately have "pending j s1 = pending j s" for j
        using handshake_facts(3) [OF h(1) assms(1)] h(2) by (cases "j = k") simp_all
      moreover have "power_state s \<noteq> POWER_STATE_INIT" using h by (auto simp: handshakes_def)
      ultimately have "power_inv s1" using assms(1) l1(1,2) by (simp add: power_inv_def)
      moreover obtain q where q: "s' = with_vm q s1" using messages_frame(2) [OF st(2)] by blast
      moreover have "system_state s1 = system_state s" using l1(1) by simp
      ultimately show ?thesis
        using inv_frame [of s1 s'] by (auto simp: good_move_def same_system_def)
    qed
    show ?thesis
    proof (cases "power_state s = POWER_STATE_TERMINATING_CLIENTS_NOTIFIED \<or> power_state s = POWER_STATE_SOPORIFIC_CLIENTS_NOTIFIED")
      case True
      then show ?thesis
      proof
        assume n: "power_state s = POWER_STATE_TERMINATING_CLIENTS_NOTIFIED"
        then obtain found s1 where
          "appPowerSetFlagInClient t APP_POWER_SHUTDOWN_PREPARE_RESPONSE_PENDING ?s = Some (found, s1)"
          "send_to now t APP_POWER_SHUTDOWN_PREPARE_IND s1 = Some s'"
          using assms(4) l(1) by (auto simp: appPowerClientRegister_def bind_eq_Some_conv)
        from told [OF _ n this flag_set(2)] show ?thesis by (simp add: handshakes_def)
      next
        assume n: "power_state s = POWER_STATE_SOPORIFIC_CLIENTS_NOTIFIED"
        then obtain found s1 where
          "appPowerSetFlagInClient t APP_POWER_SLEEP_PREPARE_RESPONSE_PENDING ?s = Some (found, s1)"
          "send_to now t APP_POWER_SLEEP_PREPARE_IND s1 = Some s'"
          using assms(4) l(1) by (auto simp: appPowerClientRegister_def bind_eq_Some_conv)
        from told [OF _ n this flag_set(3)] show ?thesis by (simp add: handshakes_def)
      qed
    next
      case no: False
      then have "s' = ?s" "power_state s \<noteq> POWER_STATE_INIT"
        using assms(4) l(1) by (auto simp: appPowerClientRegister_def Let_def split: powerState.splits)
      then show ?thesis using assms(1) l(2) p no by (simp add: good_move_def power_inv_def same_systemI)
    qed
  qed
qed

lemma pending_remove:
  assumes "td_table (clients s') = filter (\<lambda>(u, _). u \<noteq> t) (td_table (clients s))"
    "\<And>d. (t, d) \<in> set (td_table (clients s)) \<Longrightarrow> \<not> bit d k"
  shows "pending k s' = pending k s"
proof -
  have "(\<exists>x\<in>set (filter (\<lambda>(u, _). u \<noteq> t) xs). case x of (_, d) \<Rightarrow> bit d k) = (\<exists>x\<in>set xs. case x of (_, d) \<Rightarrow> bit d k)"
    if "\<And>d. (t, d) \<in> set xs \<Longrightarrow> \<not> bit d k" for xs :: "(task \<times> task_list_data) list"
    using that by (induction xs) auto
  then show ?thesis unfolding pending_def assms(1) using assms(2) by blast
qed

lemma prepare_response_quiet:
  assumes "power_inv s" "no_response_pending s" "(w, flag, r, k) \<in> handshakes"
  shows "prepare_response w flag r now addr c t s = Some s"
  using assms handshake_facts(3) [OF assms(3,1)]
  by (auto simp: prepare_response_def no_response_pending_def handshakes_def)

lemma prepare_responses_quiet:
  assumes "power_inv s" "no_response_pending s"
  shows "appPowerShutdownPrepareResponse now addr c t s = Some s" "appPowerSleepPrepareResponse now addr c t s = Some s"
  using prepare_response_quiet [OF assms]
  by (auto simp: appPowerShutdownPrepareResponse_def appPowerSleepPrepareResponse_def handshakes_def)

lemma ClientUnregister_move:
  assumes "power_inv s" "t \<noteq> NULL_TASK" "appPowerClientUnregister now addr c t s = Some s'"
  shows "good_move s s'"
proof -
  obtain s1 s2 s3 s4 s5 s6 s7 b l where st: "appPowerClientAllowSleep now addr c t s = Some s1"
    "appPowerShutdownPrepareResponse now addr c t s1 = Some s2" "appPowerSleepPrepareResponse now addr c t s2 = Some s3"
    "cancel_for t APP_POWER_SLEEP_PREPARE_IND s3 = Some s4" "cancel_for t APP_POWER_SLEEP_CANCELLED_IND s4 = Some s5"
    "cancel_for t APP_POWER_SHUTDOWN_PREPARE_IND s5 = Some s6" "cancel_for t APP_POWER_SHUTDOWN_CANCELLED_IND s6 = Some s7"
    "TaskList_RemoveTask (clients s7) t = Some (b, l)" "s' = s7\<lparr>clients := l\<rparr>"
    using assms(3) by (auto simp: appPowerClientUnregister_def bind_eq_Some_conv)
  have m1: "good_move s s1" by (rule AllowSleep_move [OF assms(1) st(1)])
  then have i1: "power_inv s1" by (simp add: good_move_def)
  have m2: "good_move s1 s2" by (rule ShutdownPrepareResponse_move(1) [OF i1 st(2)])
  then have i2: "power_inv s2" by (simp add: good_move_def)
  have m3: "good_move s2 s3" by (rule SleepPrepareResponse_move(1) [OF i2 st(3)])
  then have i3: "power_inv s3" by (simp add: good_move_def)
  have m: "same_system s s3 \<or> no_response_pending s3"
  proof (cases "no_response_pending s1 \<or> no_response_pending s2")
    case True
    then have "no_response_pending s2" using prepare_responses_quiet(1) [OF i1] st(2) by auto
    then show ?thesis using prepare_responses_quiet(2) [OF i2] st(3) by auto
  next
    case False
    then show ?thesis using m1 m2 m3 by (auto simp: good_move_def intro: same_system_trans)
  qed
  have "\<not> bit d 1 \<and> \<not> bit d 2" if "(t, d) \<in> set (td_table (clients s3))" for d
  proof
    show "\<not> bit d 2" by (rule SleepPrepareResponse_move(2) [OF i2 st(3) that])
    show "\<not> bit d 1" using SleepPrepareResponse_move(3) [OF i2 st(3)]
    proof
      assume "s3 = s2"
      then show ?thesis using ShutdownPrepareResponse_move(2) [OF i1 st(2), of d] that by simp
    next
      assume "power_state s3 \<noteq> POWER_STATE_TERMINATING_CLIENTS_NOTIFIED"
      then have "\<not> pending 1 s3" using i3 by (simp add: power_inv_def)
      then show ?thesis using that by (auto simp: pending_def)
    qed
  qed
  note clear = this
  obtain q where s7: "s7 = with_vm q s3" using st(4-7) messages_frame(3) by (metis with_vm_simps(5))
  have "td_valid (clients s3)" using i3 by (simp add: power_inv_def)
  from td.remove_any [OF this assms(2)] st(8) s7 have l: "td_valid l" "td_table l = filter (\<lambda>(u, _). u \<noteq> t) (td_table (clients s3))"
    by auto
  have "td_table (clients s') = filter (\<lambda>(u, _). u \<noteq> t) (td_table (clients s3))" using l(2) st(9) by simp
  from pending_remove [OF this] clear have p: "pending 1 s' = pending 1 s3" "pending 2 s' = pending 2 s3" by blast+
  have "power_inv s'" using i3 p l st(9) s7 by (auto simp: power_inv_def)
  moreover have "same_system s3 s'" using st(9) s7 by (auto simp: same_system_def)
  ultimately show ?thesis using m p same_system_trans by (auto simp: good_move_def no_response_pending_def)
qed

lemma ClientRegister_same: "appPowerClientRegister now t s = Some s' \<Longrightarrow> same_system s s'"
proof -
  assume a: "appPowerClientRegister now t s = Some s'"
  have told: "same_system s s'" if set: "appPowerSetFlagInClient t flag (s\<lparr>clients := l\<rparr>) = Some (found, s1)"
    and sent: "send_to now t i s1 = Some s'" for flag l found s1 i
  proof -
    have "system_state s1 = system_state s"
      using set by (auto simp: appPowerSetFlagInClient_def change_client_def bind_eq_Some_conv split: option.splits)
    moreover obtain q where "s' = with_vm q s1" using messages_frame(2) [OF sent] by blast
    ultimately show ?thesis by (auto simp: same_system_def)
  qed
  show ?thesis using a told
    by (auto simp: appPowerClientRegister_def Let_def bind_eq_Some_conv same_systemI split: if_splits powerState.splits)
qed

lemma td_empty: "td_valid TaskList_WithDataInitialise" "td_table TaskList_WithDataInitialise = []"
proof -
  have r: "tl_repr TaskList_WithDataInitialise [] (map Some [])"
    by (simp add: tl_repr_def TaskList_WithDataInitialise_def data_of_def union_of_def)
  have "TaskList_IsTaskListWithData TaskList_WithDataInitialise"
    by (simp add: TaskList_IsTaskListWithData_def TaskList_WithDataInitialise_def)
  from td_validI [OF r _ this] show "td_valid TaskList_WithDataInitialise" "td_table TaskList_WithDataInitialise = []"
    by (simp_all add: tasks_ok_def)
qed

text \<open>The operations, each with the answers of the other components at that time.\<close>

inductive power_op :: "'f power_data \<Rightarrow> 'f power_data \<Rightarrow> bool" where
  message: "appPowerHandleMessage now addr c i s = Some s' \<Longrightarrow> power_op s s'"
| init_completed: "appPowerInitComplete now addr c s = Some s' \<Longrightarrow> power_op s s'"
| on: "appPowerOn now s = Some s' \<Longrightarrow> power_op s s'"
| off_request: "appPowerOffRequest now addr c s = Some (b, s') \<Longrightarrow> power_op s s'"
| client_register: "t \<noteq> NULL_TASK \<Longrightarrow> length (td_table (clients s)) < 15 \<Longrightarrow>
    appPowerClientRegister now t s = Some s' \<Longrightarrow> power_op s s'"
| message_group: "t \<noteq> NULL_TASK \<Longrightarrow> length (td_table (clients s)) < 15 \<Longrightarrow>
    powerManager_RegisterMessageGroup now addr c t grp s = Some s' \<Longrightarrow> power_op s s'"
| unregister: "t \<noteq> NULL_TASK \<Longrightarrow> appPowerClientUnregister now addr c t s = Some s' \<Longrightarrow> power_op s s'"
| allow_sleep: "appPowerClientAllowSleep now addr c t s = Some s' \<Longrightarrow> power_op s s'"
| prohibit_sleep: "appPowerClientProhibitSleep t s = Some s' \<Longrightarrow> power_op s s'"
| shutdown_response: "appPowerShutdownPrepareResponse now addr c t s = Some s' \<Longrightarrow> power_op s s'"
| sleep_response: "appPowerSleepPrepareResponse now addr c t s = Some s' \<Longrightarrow> power_op s s'"
| profile_request: "appPowerPerformanceProfileRequest s = Some s' \<Longrightarrow> power_op s s'"
| profile_relinquish: "power_op s (appPowerPerformanceProfileRelinquish s)"

text \<open>Between two operations the rest of the system may change the system state component.\<close>

inductive power_reachable :: "'f power_data \<Rightarrow> bool" where
  start: "power_reachable (appPowerInit s)"
| operation: "power_reachable s \<Longrightarrow> power_op s s' \<Longrightarrow> power_reachable s'"
| other_components: "power_reachable s \<Longrightarrow> power_reachable (s\<lparr>system_state := ss\<rparr>)"

lemma HandleMessage_cases:
  assumes "appPowerHandleMessage now addr c i s = Some s'"
  shows "s' = s \<or> appPowerHandlePowerEvent now addr c s = Some s'"
  using assms by (auto simp: appPowerHandleMessage_def split: if_splits)

lemma power_op_move: "power_op s s' \<Longrightarrow> power_inv s \<Longrightarrow> good_move s s'"
proof (induction rule: power_op.induct)
  case (message now addr c i s s')
  then show ?case using HandleMessage_cases HandlePowerEvent_move good_move_refl by metis
next
  case (init_completed now addr c s s')
  have "power_inv (s\<lparr>init_complete := True\<rparr>)" by (rule inv_frame [OF init_completed(2)]) simp_all
  from HandlePowerEvent_move [OF this init_completed(1) [unfolded appPowerInitComplete_def]] show ?case
    by (simp add: good_move_def same_system_def)
next
  case (on now s s')
  then obtain q where "s' = with_vm q s" using messages_frame(1) [OF on(1) [unfolded appPowerOn_def]] by blast
  then show ?case using on(2) by (intro good_move_frame) simp_all
next
  case (client_register t s now s')
  then show ?case by (intro ClientRegister_move)
next
  case (message_group t s now addr c grp s')
  then obtain s1 where s1: "appPowerClientRegister now t s = Some s1" "appPowerClientAllowSleep now addr c t s1 = Some s'"
    by (auto simp: powerManager_RegisterMessageGroup_def bind_eq_Some_conv)
  have m: "good_move s s1" by (rule ClientRegister_move [OF message_group(4,1,2) s1(1)])
  then have i1: "power_inv s1" by (simp add: good_move_def)
  show ?case
  proof (cases "same_system s s1")
    case True
    then show ?thesis using AllowSleep_move [OF i1 s1(2)] by (auto simp: good_move_def intro: same_system_trans)
  next
    case False
    then show ?thesis using ClientRegister_same [OF s1(1)] by simp
  qed
next
  case (profile_request s s')
  then have "clients s' = clients s \<and> power_state s' = power_state s \<and> system_state s' = system_state s
      \<and> user_initiated_shutdown s' = user_initiated_shutdown s"
    by (auto simp: appPowerPerformanceProfileRequest_def Let_def log_power_def split: if_splits)
  then show ?case using profile_request(2) by (intro good_move_frame) (simp_all add: same_systemI)
next
  case (profile_relinquish s)
  have "clients s' = clients s \<and> power_state s' = power_state s \<and> system_state s' = system_state s
      \<and> user_initiated_shutdown s' = user_initiated_shutdown s" if "s' = appPowerPerformanceProfileRelinquish s" for s'
    using that by (simp add: appPowerPerformanceProfileRelinquish_def Let_def log_power_def)
  then show ?case using profile_relinquish by (intro good_move_frame) (simp_all add: same_systemI)
qed (auto intro: OffRequest_move ClientUnregister_move AllowSleep_move ProhibitSleep_move
      ShutdownPrepareResponse_move(1) SleepPrepareResponse_move(1))

lemma power_reachable_inv: "power_reachable s \<Longrightarrow> power_inv s"
proof (induction rule: power_reachable.induct)
  case (start s)
  have "td_valid TaskList_WithDataInitialise" "td_table TaskList_WithDataInitialise = []" by (rule td_empty)+
  then show ?case by (simp add: appPowerInit_def appPowerPerformanceInit_def log_power_def power_inv_def pending_def)
next
  case (operation s s')
  then show ?case using power_op_move good_move_def by blast
next
  case (other_components s ss)
  show ?case by (rule inv_frame [OF other_components(2)]) simp_all
qed

section \<open>The handshake completes\<close>

text \<open>Every table of the system state component has as many steps as registered.\<close>

definition system_ok :: "'f system_state_ctx \<Rightarrow> bool" where
  "system_ok s =
     (listeners_ok s
      \<and> (\<forall>n. unat (transition_table_count (tables s n))
               = (case transition_table (tables s n) of None \<Rightarrow> 0 | Some xs \<Rightarrow> length xs)))"

lemma transition_loop_total:
  "system_ok s \<Longrightarrow> \<exists>f i cs. transition_loop table s = Some (f, with_index i (s\<lparr>ss_calls := cs\<rparr>))"
proof (induction table s rule: transition_loop.induct)
  case (1 table s)
  show ?case
  proof (cases "ss_index s < transition_table_count (tables s table)")
    case False
    then have "transition_loop table s = Some (True, with_index (ss_index s) (s\<lparr>ss_calls := ss_calls s\<rparr>))"
      by (simp add: transition_loop.simps [of table s])
    then show ?thesis by blast
  next
    case True
    then have "unat (ss_index s) < (case transition_table (tables s table) of None \<Rightarrow> 0 | Some xs \<Rightarrow> length xs)"
      using 1(2) by (simp add: system_ok_def word_less_nat_alt)
    then obtain st where st: "read_step (transition_table (tables s table)) (ss_index s) = Some st"
      by (auto simp: read_step_def split: option.splits)
    define s1 where "s1 = log_ss (Call_step (step_fn st) (transition_task (current_transition s))) s"
    have s1: "system_ok (with_index (ss_index s1 + 1) s1)" "s1 = s\<lparr>ss_calls := ss_calls s1\<rparr>" "ss_index s1 = ss_index s"
      using 1(2) by (simp_all add: s1_def system_ok_def listeners_ok_def log_ss_def with_index_def ss_index_def)
    show ?thesis
    proof (cases "async_message_id st \<noteq> 0")
      case True
      have "transition_loop table s = Some (False, s1)"
        using True st \<open>ss_index s < _\<close> by (simp add: transition_loop.simps [of table s] s1_def)
      moreover have "s1 = with_index (ss_index s1) (s\<lparr>ss_calls := ss_calls s1\<rparr>)" using s1(2) by simp
      ultimately show ?thesis by metis
    next
      case False
      from 1(1) [OF \<open>ss_index s < _\<close> st s1_def _ s1(1)] False obtain f i cs where
        "transition_loop table (with_index (ss_index s1 + 1) s1)
          = Some (f, with_index i ((with_index (ss_index s1 + 1) s1)\<lparr>ss_calls := cs\<rparr>))" by auto
      moreover have "with_index i ((with_index (ss_index s1 + 1) s1)\<lparr>ss_calls := cs\<rparr>) = with_index i (s\<lparr>ss_calls := cs\<rparr>)"
        using s1(2) by (simp add: s1_def log_ss_def with_index_def)
      moreover have "transition_loop table s = transition_loop table (with_index (ss_index s1 + 1) s1)"
        using False st \<open>ss_index s < _\<close> by (simp add: transition_loop.simps [of table s] s1_def)
      ultimately show ?thesis by metis
    qed
  qed
qed

lemma DoTransition_total:
  assumes "system_ok s"
  shows "\<exists>s'. systemState_DoTransition now addr table s = Some s'"
proof -
  have "system_ok (with_index (ss_index s + 1) s)" using assms by (simp add: system_ok_def listeners_ok_def with_index_def)
  from transition_loop_total [OF this] obtain f i cs where
    l: "transition_loop table (with_index (ss_index s + 1) s)
      = Some (f, with_index i ((with_index (ss_index s + 1) s)\<lparr>ss_calls := cs\<rparr>))" by blast
  have "listeners_ok (with_index i ((with_index (ss_index s + 1) s)\<lparr>ss_calls := cs\<rparr>))"
    using assms by (simp add: system_ok_def listeners_ok_def with_index_def)
  then have "\<exists>s'. systemState_CompleteTransition now addr (with_index i ((with_index (ss_index s + 1) s)\<lparr>ss_calls := cs\<rparr>)) = Some s'"
    unfolding systemState_CompleteTransition_def using SetState_done by blast
  then show ?thesis using l by (cases f) (simp_all add: systemState_DoTransition_def)
qed

lemma system_calls_total:
  assumes "system_ok s"
  shows "\<exists>b s'. systemState_InitiateTransiton now addr start st e table s = Some (b, s')"
    "\<exists>b s'. SystemState_EmergencyShutdown now addr s = Some (b, s')"
proof -
  have begun: "\<exists>s1 s'. systemState_SetState now addr st s = Some s1
    \<and> systemState_DoTransition now addr table (systemState_SetupCurrentTransition table e s1) = Some s'" for st table e
  proof -
    obtain q where q: "systemState_SetState now addr st s = Some (s\<lparr>ss_state := st, ss_vm := q\<rparr>)"
      using SetState_done [of s now addr st] assms unfolding system_ok_def by blast
    have "system_ok (systemState_SetupCurrentTransition table e (s\<lparr>ss_state := st, ss_vm := q\<rparr>))"
      using assms by (simp add: system_ok_def listeners_ok_def systemState_SetupCurrentTransition_def)
    from DoTransition_total [OF this] q show ?thesis by blast
  qed
  show "\<exists>b s'. systemState_InitiateTransiton now addr start st e table s = Some (b, s')"
    using begun [of st table e] by (auto simp: systemState_InitiateTransiton_def)
  show "\<exists>b s'. SystemState_EmergencyShutdown now addr s = Some (b, s')"
    using begun [of system_state_shutting_down_promptly T_emergency_shutdown system_state_powered_off]
    by (auto simp: SystemState_EmergencyShutdown_def)
qed

lemma send_clients_total:
  assumes "td_valid (clients s)" "length (td_table (clients s)) \<le> 14"
  shows "\<exists>q. send_clients now i s = Some (with_vm q s)"
proof -
  obtain ds where "tl_repr (clients s) (map fst (td_table (clients s))) (map Some ds)" using td_validD(1) [OF assms(1)] by blast
  from message_send_posted [OF this td_validD(2) [OF assms(1)], of 0 None now i D_IMMEDIATE "power_vm s" 0] assms(2)
  show ?thesis by (auto simp: send_clients_def TaskList_MessageSendWithSize_def)
qed

text \<open>What the power manager does with the system when all clients have responded.\<close>

definition shutdown_outcome :: "u32 \<Rightarrow> nat \<Rightarrow> power_conditions \<Rightarrow> 'f power_data \<Rightarrow> 'f power_data \<Rightarrow> bool" where
  "shutdown_outcome now addr c s s' =
     (if appPowerNeedsToPowerOff c s
      then \<exists>b ss q. (if user_initiated_shutdown s then SystemState_Shutdown now addr (system_state s)
                     else SystemState_EmergencyShutdown now addr (system_state s)) = Some (b, ss)
             \<and> system_state s' = ss\<lparr>ss_vm := q\<rparr>
      else same_system s s')"

lemma shutdown_outcome_cong:
  assumes "system_state s1 = system_state s" "user_initiated_shutdown s1 = user_initiated_shutdown s"
  shows "shutdown_outcome now addr c s1 s' = shutdown_outcome now addr c s s'"
proof -
  have "appPowerNeedsToPowerOff c s1 = appPowerNeedsToPowerOff c s" using assms by (simp add: appPowerNeedsToPowerOff_def)
  then show ?thesis using assms by (simp add: shutdown_outcome_def same_system_def)
qed

lemma SetState_terminated_total:
  assumes "td_valid (clients s)" "length (td_table (clients s)) \<le> 14" "system_ok (system_state s)"
    "power_state s = POWER_STATE_TERMINATING_CLIENTS_NOTIFIED"
  shows "\<exists>s'. appPowerSetState now addr c POWER_STATE_TERMINATING_CLIENTS_RESPONDED s = Some s'
    \<and> power_state s' = POWER_STATE_OK \<and> clients s' = clients s \<and> shutdown_outcome now addr c s s'"
proof -
  let ?r = "s\<lparr>power_state := POWER_STATE_TERMINATING_CLIENTS_RESPONDED\<rparr>"
  have e: "exit_power_state now s = Some s" using assms(4) by (simp add: exit_power_state_def)
  have ok: "\<exists>q. appPowerSetState now addr c POWER_STATE_OK (?r\<lparr>system_state := ss\<rparr>)
      = Some (with_vm q (?r\<lparr>system_state := ss\<rparr>)\<lparr>power_state := POWER_STATE_OK, user_initiated_shutdown := False\<rparr>)" for ss
    using send_clients_total [of "?r\<lparr>system_state := ss\<rparr>" now APP_POWER_SHUTDOWN_CANCELLED_IND] assms(1,2)
    by (auto simp: appPowerSetState.simps [where new_state = POWER_STATE_OK] exit_power_state_def)
  have n: "appPowerNeedsToPowerOff c ?r = appPowerNeedsToPowerOff c s" by (simp add: appPowerNeedsToPowerOff_def)
  show ?thesis
  proof (cases "appPowerNeedsToPowerOff c s")
    case False
    then have "appPowerSetState now addr c POWER_STATE_TERMINATING_CLIENTS_RESPONDED s
        = appPowerSetState now addr c POWER_STATE_OK (?r\<lparr>system_state := system_state s\<rparr>)"
      using e n by (subst appPowerSetState.simps) simp
    then show ?thesis using ok [of "system_state s"] False by (auto simp: shutdown_outcome_def same_system_def)
  next
    case True
    let ?f = "if user_initiated_shutdown s then SystemState_Shutdown now addr else SystemState_EmergencyShutdown now addr"
    have "\<exists>b ss. SystemState_Shutdown now addr (system_state s) = Some (b, ss)"
      unfolding SystemState_Shutdown_def by (rule system_calls_total(1) [OF assms(3)])
    then obtain b ss where ss: "?f (system_state s) = Some (b, ss)"
      using system_calls_total(2) [OF assms(3), of now addr] by fastforce
    then have "run_system ?f ?r = Some (?r\<lparr>system_state := ss\<rparr>)" by (simp add: run_system_def)
    then have "appPowerSetState now addr c POWER_STATE_TERMINATING_CLIENTS_RESPONDED s
        = appPowerSetState now addr c POWER_STATE_OK (?r\<lparr>system_state := ss\<rparr>)"
      using e n True by (subst appPowerSetState.simps) (simp split: if_splits)
    then show ?thesis using ok [of ss] True ss by (auto simp: shutdown_outcome_def split: if_splits)
  qed
qed

definition waiting_for :: "'f power_data \<Rightarrow> task set" where
  "waiting_for s = {t. \<exists>d. (t, d) \<in> set (td_table (clients s)) \<and> bit d 1}"

lemma waiting_for_pending: "waiting_for s = {} \<longleftrightarrow> \<not> pending 1 s"
  by (auto simp: waiting_for_def pending_def)

lemma ShutdownPrepareResponse_total:
  assumes "power_inv s" "length (td_table (clients s)) \<le> 14" "system_ok (system_state s)"
    "power_state s = POWER_STATE_TERMINATING_CLIENTS_NOTIFIED"
  shows "\<exists>s'. appPowerShutdownPrepareResponse now addr c t s = Some s' \<and> power_inv s'
    \<and> (if waiting_for s \<subseteq> {t} then power_state s' = POWER_STATE_OK \<and> shutdown_outcome now addr c s s'
       else \<exists>l. s' = s\<lparr>clients := l\<rparr> \<and> length (td_table l) = length (td_table (clients s))
              \<and> waiting_for s' = waiting_for s - {t})"
proof -
  have h: "(POWER_STATE_TERMINATING_CLIENTS_NOTIFIED, APP_POWER_SHUTDOWN_PREPARE_RESPONSE_PENDING,
      POWER_STATE_TERMINATING_CLIENTS_RESPONDED, 1) \<in> handshakes" by (simp add: handshakes_def)
  have v: "td_valid (clients s)" using assms(1) by (simp add: power_inv_def)
  obtain found s1 where s1: "appPowerClearFlagInClient t APP_POWER_SHUTDOWN_PREPARE_RESPONSE_PENDING s = Some (found, s1)"
    using change_client_table [OF v, of "\<lambda>d. d AND NOT (ucast APP_POWER_SHUTDOWN_PREPARE_RESPONSE_PENDING)" t]
    by (auto simp: appPowerClearFlagInClient_def)
  note cl = cleared_client [OF assms(1) h s1]
  let ?g = "change_at (\<lambda>d. d AND NOT (ucast APP_POWER_SHUTDOWN_PREPARE_RESPONSE_PENDING)) t"
  from cl(2) obtain l where l: "s1 = s\<lparr>clients := l\<rparr>" "td_valid l" "td_table l = map ?g (td_table (clients s))" by blast
  have p: "pending 1 s1 \<longleftrightarrow> \<not> waiting_for s \<subseteq> {t}" unfolding cl(4) by (auto simp: waiting_for_def)
  have "(u, d) \<in> set (map ?g xs) \<longleftrightarrow> (\<exists>e. (u, e) \<in> set xs
      \<and> d = (if u = t then e AND NOT (ucast APP_POWER_SHUTDOWN_PREPARE_RESPONSE_PENDING) else e))" for u d xs by force
  note memb = this
  have tab: "td_table (clients s1) = map ?g (td_table (clients s))" using l(1,3) by simp
  have w: "waiting_for s1 = waiting_for s - {t}"
  proof (intro set_eqI)
    fix u
    have "u \<in> waiting_for s1 \<longleftrightarrow> (\<exists>d. (\<exists>e. (u, e) \<in> set (td_table (clients s))
        \<and> d = (if u = t then e AND NOT (ucast APP_POWER_SHUTDOWN_PREPARE_RESPONSE_PENDING) else e)) \<and> bit d 1)"
      unfolding waiting_for_def tab by (simp only: memb mem_Collect_eq)
    also have "\<dots> \<longleftrightarrow> (\<exists>e. (u, e) \<in> set (td_table (clients s)) \<and> bit e 1 \<and> u \<noteq> t)"
      by (cases "u = t") (auto simp: flag_clear(2))
    finally show "u \<in> waiting_for s1 \<longleftrightarrow> u \<in> waiting_for s - {t}" by (auto simp: waiting_for_def)
  qed
  have "\<exists>s'. appPowerShutdownPrepareResponse now addr c t s = Some s'
    \<and> (if waiting_for s \<subseteq> {t} then power_state s' = POWER_STATE_OK \<and> shutdown_outcome now addr c s s'
       else \<exists>l. s' = s\<lparr>clients := l\<rparr> \<and> length (td_table l) = length (td_table (clients s))
              \<and> waiting_for s' = waiting_for s - {t})"
  proof (cases found)
    case False
    then have "t \<notin> waiting_for s" using cl(1) by (auto simp: waiting_for_def image_iff)
    moreover have "waiting_for s \<noteq> {}" using assms(1,4) by (simp add: waiting_for_pending power_inv_def)
    moreover from calculation have "\<not> waiting_for s \<subseteq> {t}" by blast
    moreover have "appPowerShutdownPrepareResponse now addr c t s = Some s1"
      using s1 False assms(4) by (simp add: appPowerShutdownPrepareResponse_def prepare_response_def)
    ultimately show ?thesis using l w by auto
  next
    case True
    then have "\<not> no_clients s1" using cl(1) l by auto
    then have ac: "appPowerAllClientsHaveFlagCleared APP_POWER_SHUTDOWN_PREPARE_RESPONSE_PENDING s1 = Some (\<not> pending 1 s1)"
      using l(1,2) by (intro all_cleared_table(1)) simp_all
    show ?thesis
    proof (cases "pending 1 s1")
      case True
      then have "appPowerShutdownPrepareResponse now addr c t s = Some s1"
        using s1 \<open>found\<close> assms(4) ac by (simp add: appPowerShutdownPrepareResponse_def prepare_response_def)
      then show ?thesis using p True l w by auto
    next
      case False
      have r: "appPowerShutdownPrepareResponse now addr c t s
          = appPowerSetState now addr c POWER_STATE_TERMINATING_CLIENTS_RESPONDED s1"
        using s1 \<open>found\<close> assms(4) ac False by (simp add: appPowerShutdownPrepareResponse_def prepare_response_def)
      have "td_valid (clients s1)" "length (td_table (clients s1)) \<le> 14" "system_ok (system_state s1)"
        "power_state s1 = POWER_STATE_TERMINATING_CLIENTS_NOTIFIED" using l assms(2-4) by simp_all
      from SetState_terminated_total [OF this, of now addr c] obtain s' where
        s': "appPowerSetState now addr c POWER_STATE_TERMINATING_CLIENTS_RESPONDED s1 = Some s'"
        "power_state s' = POWER_STATE_OK" "shutdown_outcome now addr c s1 s'" by blast
      have "shutdown_outcome now addr c s s'"
        using s'(3) shutdown_outcome_cong [of s1 s now addr c s'] l(1) by simp
      then show ?thesis using r s' p False by auto
    qed
  qed
  moreover have "power_inv s'" if "appPowerShutdownPrepareResponse now addr c t s = Some s'" for s'
    using ShutdownPrepareResponse_move(1) [OF assms(1) that] by (simp add: good_move_def)
  ultimately show ?thesis by blast
qed

text \<open>The responses of several clients, one after the other.\<close>

fun shutdown_responses ::
  "u32 \<Rightarrow> nat \<Rightarrow> power_conditions \<Rightarrow> task list \<Rightarrow> 'f power_data \<Rightarrow> 'f power_data option" where
  "shutdown_responses now addr c [] s = Some s"
| "shutdown_responses now addr c (t # ts) s =
     do { s1 \<leftarrow> appPowerShutdownPrepareResponse now addr c t s; shutdown_responses now addr c ts s1 }"

lemma shutdown_responses_late:
  "power_state s \<noteq> POWER_STATE_TERMINATING_CLIENTS_NOTIFIED \<Longrightarrow> shutdown_responses now addr c ts s = Some s"
  by (induction ts) (simp_all add: appPowerShutdownPrepareResponse_def prepare_response_def)

lemma shutdown_responses_outcome:
  assumes "power_inv s" "length (td_table (clients s)) \<le> 14" "system_ok (system_state s)"
    "power_state s = POWER_STATE_TERMINATING_CLIENTS_NOTIFIED"
  shows "\<exists>s'. shutdown_responses now addr c ts s = Some s'
    \<and> (if waiting_for s \<subseteq> set ts then power_state s' = POWER_STATE_OK \<and> shutdown_outcome now addr c s s'
       else power_state s' = POWER_STATE_TERMINATING_CLIENTS_NOTIFIED \<and> system_state s' = system_state s)"
  using assms
proof (induction ts arbitrary: s)
  case Nil
  then have "waiting_for s \<noteq> {}" by (simp add: waiting_for_pending power_inv_def)
  then show ?case using Nil by simp
next
  case (Cons t ts)
  from ShutdownPrepareResponse_total [OF Cons.prems, of now addr c t] obtain s1 where
    s1: "appPowerShutdownPrepareResponse now addr c t s = Some s1" "power_inv s1"
    "if waiting_for s \<subseteq> {t} then power_state s1 = POWER_STATE_OK \<and> shutdown_outcome now addr c s s1
       else \<exists>l. s1 = s\<lparr>clients := l\<rparr> \<and> length (td_table l) = length (td_table (clients s))
              \<and> waiting_for s1 = waiting_for s - {t}" by blast
  show ?case
  proof (cases "waiting_for s \<subseteq> {t}")
    case True
    then show ?thesis using s1 shutdown_responses_late [of s1 now addr c ts] by auto
  next
    case False
    then obtain l where l: "s1 = s\<lparr>clients := l\<rparr>" "length (td_table l) = length (td_table (clients s))"
      "waiting_for s1 = waiting_for s - {t}" using s1(3) by auto
    have e: "system_state s1 = system_state s" "user_initiated_shutdown s1 = user_initiated_shutdown s"
      "power_state s1 = power_state s" using l(1) by simp_all
    have "length (td_table (clients s1)) \<le> 14" "system_ok (system_state s1)"
      "power_state s1 = POWER_STATE_TERMINATING_CLIENTS_NOTIFIED" using l(1,2) Cons.prems(2-4) by simp_all
    from Cons.IH [OF s1(2) this] obtain s' where s': "shutdown_responses now addr c ts s1 = Some s'"
      "if waiting_for s1 \<subseteq> set ts then power_state s' = POWER_STATE_OK \<and> shutdown_outcome now addr c s1 s'
       else power_state s' = POWER_STATE_TERMINATING_CLIENTS_NOTIFIED \<and> system_state s' = system_state s1" by blast
    have "shutdown_outcome now addr c s1 s' = shutdown_outcome now addr c s s'"
      by (rule shutdown_outcome_cong) (rule e)+
    moreover have "waiting_for s1 \<subseteq> set ts \<longleftrightarrow> waiting_for s \<subseteq> set (t # ts)" unfolding l(3) by auto
    ultimately have "if waiting_for s \<subseteq> set (t # ts) then power_state s' = POWER_STATE_OK \<and> shutdown_outcome now addr c s s'
       else power_state s' = POWER_STATE_TERMINATING_CLIENTS_NOTIFIED \<and> system_state s' = system_state s"
      using s'(2) e(1) by (simp only:)
    then show ?thesis using s1(1) s'(1) by (intro exI [of _ s']) simp
  qed
qed

section \<open>Limits of the handshakes\<close>

text \<open>
  Once all clients have agreed to sleep, no operation of the power manager leaves that state: neither a
  power event, such as an unsafe battery or an attached charger, nor a client that
  prohibits sleep.
\<close>

lemma soporific_responded_stays:
  assumes "power_op s s'" "power_state s = POWER_STATE_SOPORIFIC_CLIENTS_RESPONDED"
  shows "power_state s' = POWER_STATE_SOPORIFIC_CLIENTS_RESPONDED"
proof -
  have ch: "change_client f t r = Some (b, r') \<Longrightarrow> power_state r' = power_state r" for f t b and r r' :: "'a power_data"
    by (auto simp: change_client_def bind_eq_Some_conv split: option.splits)
  have al: "appPowerClientAllowSleep now addr c t r = Some r' \<Longrightarrow> power_state r = POWER_STATE_SOPORIFIC_CLIENTS_RESPONDED \<Longrightarrow>
      power_state r' = POWER_STATE_SOPORIFIC_CLIENTS_RESPONDED" for now addr c t and r r' :: "'a power_data"
    using ch by (auto simp: appPowerClientAllowSleep_def appPowerSetFlagInClient_def bind_eq_Some_conv split: if_splits)
  have rg: "appPowerClientRegister now t r = Some r' \<Longrightarrow> power_state r = POWER_STATE_SOPORIFIC_CLIENTS_RESPONDED \<Longrightarrow>
      power_state r' = POWER_STATE_SOPORIFIC_CLIENTS_RESPONDED" for now t and r r' :: "'a power_data"
    by (auto simp: appPowerClientRegister_def Let_def bind_eq_Some_conv split: if_splits)
  have pr: "appPowerShutdownPrepareResponse now addr c t r = Some r"  "appPowerSleepPrepareResponse now addr c t r = Some r"
    if "power_state r = POWER_STATE_SOPORIFIC_CLIENTS_RESPONDED" for now addr c t and r :: "'a power_data"
    using that by (simp_all add: appPowerShutdownPrepareResponse_def appPowerSleepPrepareResponse_def prepare_response_def)
  have ca: "cancel_for t i r = Some r' \<Longrightarrow> power_state r' = power_state r" for t i and r r' :: "'a power_data"
    by (auto simp: cancel_for_def)
  show ?thesis using assms
  proof (induction rule: power_op.induct)
    case (unregister t now addr c s s')
    then show ?case
      using al pr by (auto simp: appPowerClientUnregister_def bind_eq_Some_conv dest!: ca)
  next
    case (profile_request s s')
    then show ?case by (auto simp: appPowerPerformanceProfileRequest_def Let_def log_power_def split: if_splits)
  next
    case (profile_relinquish s)
    then show ?case by (simp add: appPowerPerformanceProfileRelinquish_def Let_def log_power_def)
  next
    case (on now s s')
    then show ?case by (auto simp: appPowerOn_def send_clients_def)
  qed (auto simp: appPowerHandleMessage_def appPowerHandlePowerEvent_def appPowerInitComplete_def appPowerOffRequest_def
      powerManager_RegisterMessageGroup_def appPowerClientProhibitSleep_def appPowerClearFlagInClient_def bind_eq_Some_conv pr
      dest!: rg al ch split: if_splits)
qed

section \<open>Properties\<close>

text \<open>
  C29: The state of the power manager and the responses it waits for always agree: in every reachable
  state a shutdown response of some client is outstanding exactly when the clients have been notified of a
  shutdown, a sleep response exactly when they have been notified of sleep, it never rests in the
  state in which all have agreed to a shutdown, a shutdown is user-initiated only while the
  clients prepare for it, and there are no clients before the initialisation is complete.
\<close>
theorem power_states_consistent:
  assumes "power_reachable s"
  shows "((\<exists>(t, d)\<in>set (td_table (clients s)). bit d 1) \<longleftrightarrow> power_state s = POWER_STATE_TERMINATING_CLIENTS_NOTIFIED)
    \<and> ((\<exists>(t, d)\<in>set (td_table (clients s)). bit d 2) \<longleftrightarrow> power_state s = POWER_STATE_SOPORIFIC_CLIENTS_NOTIFIED)
    \<and> power_state s \<noteq> POWER_STATE_TERMINATING_CLIENTS_RESPONDED
    \<and> (user_initiated_shutdown s \<longrightarrow> appPowerIsShuttingDown s)
    \<and> (power_state s = POWER_STATE_INIT \<longrightarrow> td_table (clients s) = [])"
  using power_reachable_inv [OF assms] by (simp add: power_inv_def appPowerIsShuttingDown_def pending_def)

text \<open>
  C30: No power transition starts behind a client's back: an operation of the power manager after which some
  client still has to answer a request to prepare for shutdown or for sleep has left the system state component
  as it was, but for the messages posted.
\<close>
theorem no_transition_while_pending:
  assumes "power_reachable s" "power_op s s'" "(t, d) \<in> set (td_table (clients s'))" "bit d 1 \<or> bit d 2"
  shows "\<exists>q. system_state s' = (system_state s)\<lparr>ss_vm := q\<rparr>"
proof -
  have "\<not> no_response_pending s'" using assms(3,4) by (auto simp: no_response_pending_def pending_def)
  then show ?thesis
    using power_op_move [OF assms(2) power_reachable_inv [OF assms(1)]] by (simp add: good_move_def same_system_def)
qed

text \<open>
  C31: The shutdown handshake completes, whatever the order of the answers: with at most 14 clients
  notified of a shutdown, the clients' responses (repeated ones and those of strangers included) leave
  the power manager waiting, and the system untouched, as long as some notified client has not answered; once all
  have, it is back in its normal state, having run the shutdown if the user asked for it, the emergency
  shutdown if not, or neither if powering off is no longer needed or possible.
\<close>
theorem shutdown_handshake_completes:
  assumes "power_reachable s" "power_state s = POWER_STATE_TERMINATING_CLIENTS_NOTIFIED"
    "length (td_table (clients s)) \<le> 14" "system_ok (system_state s)"
  shows "\<exists>s'. shutdown_responses now addr c ts s = Some s'
    \<and> (if \<forall>(t, d)\<in>set (td_table (clients s)). bit d 1 \<longrightarrow> t \<in> set ts
       then power_state s' = POWER_STATE_OK \<and> shutdown_outcome now addr c s s'
       else power_state s' = POWER_STATE_TERMINATING_CLIENTS_NOTIFIED \<and> system_state s' = system_state s)"
proof -
  have "(\<forall>(t, d)\<in>set (td_table (clients s)). bit d 1 \<longrightarrow> t \<in> set ts) \<longleftrightarrow> waiting_for s \<subseteq> set ts"
    by (auto simp: waiting_for_def)
  then show ?thesis
    using shutdown_responses_outcome [OF power_reachable_inv [OF assms(1)] assms(3,4,2), of now addr c ts] by (simp only:)
qed


text \<open>A power manager with one client that the user has just asked to power off.\<close>

definition demo_power :: "string power_data" where
  "demo_power = \<lparr>power_task = 3, clients = TaskList_WithDataInitialise, performance_req_count = 0,
     power_state = POWER_STATE_INIT, allow_dormant = True, user_initiated_shutdown = False, init_complete = False,
     system_state = demo_system, power_calls = []\<rparr>"

definition demo_conditions :: power_conditions where
  "demo_conditions = \<lparr>charger_can_power_off = True, charger_can_enter_dormant = False,
     battery_state = battery_region_ok, temperature_within_limits = True\<rparr>"

lemma demo_system_ok: "system_ok (demo_system\<lparr>ss_vm := q\<rparr>)"
proof -
  have r: "tl_repr (state_change_listeners demo_system) [] []"
    by (simp add: demo_system_def tl_repr_def union_of_def data_of_def)
  have "listeners_ok demo_system"
    using tl_validI [OF r] tl_members_repr [OF r] by (simp add: listeners_ok_def tasks_ok_def)
  then show ?thesis by (simp add: system_ok_def listeners_ok_def) (simp add: demo_system_def empty_table_def)
qed

lemma demo_notified:
  "\<exists>s s' :: string power_data. power_reachable s \<and> power_op s s' \<and> power_state s' = POWER_STATE_TERMINATING_CLIENTS_NOTIFIED
    \<and> td_table (clients s') = [(7, 2)] \<and> system_ok (system_state s')
    \<and> power_state s = POWER_STATE_OK \<and> td_table (clients s) = [(7, 0)] \<and> power_task s = 3"
proof -
  let ?s0 = "appPowerInit demo_power"
  have s0: "clients ?s0 = TaskList_WithDataInitialise" "power_state ?s0 = POWER_STATE_INIT" "\<not> user_initiated_shutdown ?s0"
    "system_state ?s0 = demo_system"
    by (simp_all add: appPowerInit_def appPowerPerformanceInit_def log_power_def demo_power_def)
  have "\<not> combinable APP_POWER_INIT_CFM" by code_simp
  from send_later_posted [OF this] obtain q0 where
    q0: "exit_power_state 5 (?s0\<lparr>init_complete := True\<rparr>) = Some (with_vm q0 (?s0\<lparr>init_complete := True\<rparr>))"
    using s0 by (fastforce simp: exit_power_state_def send_to_def MessageSend_def MessageSendLater_def)
  have n: "\<not> appPowerNeedsToPowerOff demo_conditions (?s0\<lparr>init_complete := True\<rparr>)"
    using s0(3) by (simp add: appPowerNeedsToPowerOff_def demo_conditions_def)
  let ?s1 = "with_vm q0 (?s0\<lparr>init_complete := True\<rparr>)\<lparr>power_state := POWER_STATE_OK, user_initiated_shutdown := False\<rparr>"
  have s1: "appPowerInitComplete 5 0 demo_conditions ?s0 = Some ?s1"
    using s0(2) n q0
    by (simp add: appPowerInitComplete_def appPowerHandlePowerEvent_def appPowerSetState.simps [where new_state = POWER_STATE_OK])
  have c1: "clients ?s1 = TaskList_WithDataInitialise" "system_state ?s1 = demo_system\<lparr>ss_vm := q0\<rparr>" using s0 by simp_all
  from td.add_new [OF td_empty(1), of 7 0] td_empty(2) obtain l where
    l: "TaskList_AddTaskWithData TaskList_WithDataInitialise 7 0 = Some (True, l)" "td_valid l" "td_table l = [(7, 0)]" by auto
  let ?s2 = "?s1\<lparr>clients := l\<rparr>"
  have s2: "appPowerClientRegister 5 7 ?s1 = Some ?s2" using c1 l(1) by (simp add: appPowerClientRegister_def)
  have r2: "power_reachable ?s2"
  proof (rule power_reachable.operation)
    show "power_reachable ?s1"
      by (rule power_reachable.operation [OF power_reachable.start]) (rule power_op.init_completed [OF s1])
    show "power_op ?s1 ?s2" by (rule power_op.client_register [OF _ _ s2]) (simp_all add: c1 td_empty(2))
  qed
  let ?u = "?s2\<lparr>user_initiated_shutdown := True\<rparr>"
  let ?v = "?u\<lparr>power_state := POWER_STATE_TERMINATING_CLIENTS_NOTIFIED\<rparr>"
  obtain q1 where q1: "send_clients 5 APP_POWER_SHUTDOWN_PREPARE_IND ?v = Some (with_vm q1 ?v)"
    using send_clients_total [of ?v 5] l by auto
  obtain l2 where l2: "appPowerSetFlagInAllClients APP_POWER_SHUTDOWN_PREPARE_RESPONSE_PENDING (with_vm q1 ?v)
      = Some ((with_vm q1 ?v)\<lparr>clients := l2\<rparr>)" "td_valid l2"
    "td_table l2 = map (with_flag APP_POWER_SHUTDOWN_PREPARE_RESPONSE_PENDING) [(7, 0)]"
    using SetFlagInAllClients_table [of "with_vm q1 ?v" APP_POWER_SHUTDOWN_PREPARE_RESPONSE_PENDING] l by auto
  let ?w = "(with_vm q1 ?v)\<lparr>clients := l2\<rparr>"
  obtain q2 where q2: "send_clients 5 POWER_OFF ?w = Some (with_vm q2 ?w)"
    using send_clients_total [of ?w 5] l2 by auto
  have "appPowerSetState 5 0 demo_conditions POWER_STATE_TERMINATING_CLIENTS_NOTIFIED ?u = Some (with_vm q2 ?w)"
    using q1 l2(1) q2 TaskList_Size_table [OF l(2)] l(3)
    by (subst appPowerSetState.simps) (simp add: exit_power_state_def)
  then have "appPowerOffRequest 5 0 demo_conditions ?s2 = Some (True, with_vm q2 ?w)"
    by (simp add: appPowerOffRequest_def appPowerCanPowerOff_def demo_conditions_def)
  note op = power_op.off_request [OF this]
  have "td_table (clients (with_vm q2 ?w)) = [(7, 2)]"
    using l2(3) by (simp add: APP_POWER_SHUTDOWN_PREPARE_RESPONSE_PENDING_def)
  moreover have "system_ok (system_state (with_vm q2 ?w))"
    using s0(4) demo_system_ok [of q2] by simp
  moreover have "power_task ?s2 = 3"
    by (simp add: with_vm_def appPowerInit_def appPowerPerformanceInit_def log_power_def demo_power_def)
  ultimately show ?thesis using r2 op l(3) by (intro exI [of _ ?s2] exI [of _ "with_vm q2 ?w"]) simp
qed

theorem power_states_consistent_witness:
  "\<exists>s :: string power_data. power_reachable s \<and> power_state s = POWER_STATE_TERMINATING_CLIENTS_NOTIFIED
    \<and> (\<exists>(t, d)\<in>set (td_table (clients s)). bit d 1)"
proof -
  obtain s s' :: "string power_data" where s: "power_reachable s" "power_op s s'"
    "power_state s' = POWER_STATE_TERMINATING_CLIENTS_NOTIFIED" using demo_notified by blast
  have "power_reachable s'" by (rule power_reachable.operation [OF s(1,2)])
  from this power_states_consistent [OF this] s(3) show ?thesis by blast
qed

theorem no_transition_while_pending_witness:
  "\<exists>s s' :: string power_data. power_op s s' \<and> td_table (clients s') = [(7, 2)]
    \<and> (\<exists>q. system_state s' = (system_state s)\<lparr>ss_vm := q\<rparr>)"
proof -
  obtain s s' :: "string power_data" where s: "power_reachable s" "power_op s s'" "td_table (clients s') = [(7, 2)]"
    using demo_notified by blast
  have "(7, 2) \<in> set (td_table (clients s'))" "bit (2 :: task_list_data) 1 \<or> bit (2 :: task_list_data) 2"
    using s(3) bit_small(2) by simp_all
  from no_transition_while_pending [OF s(1,2) this] s(2,3) show ?thesis by blast
qed

theorem shutdown_handshake_completes_witness:
  "\<exists>s s' :: string power_data. power_state s = POWER_STATE_TERMINATING_CLIENTS_NOTIFIED
    \<and> shutdown_responses 5 0 demo_conditions [9, 7] s = Some s' \<and> power_state s' = POWER_STATE_OK"
proof -
  obtain s0 s :: "string power_data" where s: "power_reachable s0" "power_op s0 s"
    "power_state s = POWER_STATE_TERMINATING_CLIENTS_NOTIFIED" "td_table (clients s) = [(7, 2)]" "system_ok (system_state s)"
    using demo_notified by blast
  have r: "power_reachable s" by (rule power_reachable.operation [OF s(1,2)])
  have "length (td_table (clients s)) \<le> 14" using s(4) by simp
  from shutdown_handshake_completes [OF r s(3) this s(5), of 5 0 demo_conditions "[9, 7]"] s(3,4) show ?thesis by auto
qed

end
