(* ===== verification/MessageData.thy ===== *)
theory MessageData
  imports TaskList
begin

text \<open>
  The messages of a task together with their contents. Some components keep a part of their state in
  the messages they post to themselves: a timer message carries a pointer to what it is for. The locale
  \<open>data_mailbox\<close> is what they rely on, the interpretation that \<open>MessageQueue\<close> provides it.
\<close>

section \<open>The contract\<close>

locale data_mailbox =
  fixes tasks :: "'t set" and ids :: "'i set"
    and pending :: "'t \<Rightarrow> 'q \<Rightarrow> ('i \<times> 'd) multiset"
    and send :: "'e \<Rightarrow> 't \<Rightarrow> 'i \<Rightarrow> 'd \<Rightarrow> 'q \<Rightarrow> 'q option"
    and cancel_all :: "'t \<Rightarrow> 'i \<Rightarrow> 'q \<Rightarrow> 'q option"
  assumes send_pending: "i \<in> ids \<Longrightarrow> \<exists>q'. send e t i d q = Some q'
      \<and> (\<forall>u. pending u q' = (if u = t then add_mset (i, d) (pending u q) else pending u q))"
    and cancel_pending: "t \<in> tasks \<Longrightarrow> \<exists>q'. cancel_all t i q = Some q'
      \<and> (\<forall>u\<in>tasks. pending u q' = (if u = t then filter_mset (\<lambda>p. fst p \<noteq> i) (pending u q) else pending u q))"
begin

definition with_id :: "'t \<Rightarrow> 'i \<Rightarrow> 'q \<Rightarrow> 'd multiset" where
  "with_id t i q = image_mset snd (filter_mset (\<lambda>p. fst p = i) (pending t q))"

lemma with_id_send:
  assumes "i \<in> ids" "send e t i d q = Some q'"
  shows "with_id u j q' = (if u = t \<and> j = i then add_mset d (with_id u j q) else with_id u j q)"
  using send_pending [OF assms(1), of e t d q] assms(2) by (auto simp: with_id_def)

lemma with_id_cancel:
  assumes "t \<in> tasks" "u \<in> tasks" "cancel_all t i q = Some q'"
  shows "with_id u j q' = (if u = t \<and> j = i then {#} else with_id u j q)"
proof -
  have "filter_mset (\<lambda>p. fst p = j) (filter_mset (\<lambda>p. fst p \<noteq> i) (pending t q))
      = (if j = i then {#} else filter_mset (\<lambda>p. fst p = j) (pending t q))"
  proof (cases "j = i")
    case False
    then have "(fst p \<noteq> i \<and> fst p = j) = (fst p = j)" for p :: "'i \<times> 'd" by auto
    with False show ?thesis by (simp add: filter_filter_mset conj_commute)
  qed (simp add: filter_filter_mset)
  then show ?thesis
    using cancel_pending [OF assms(1), of i q] assms by (auto simp: with_id_def)
qed

text \<open>Cancelling and posting again leaves one message with the id.\<close>

lemma restart:
  assumes "t \<in> tasks" "i \<in> ids"
  shows "\<exists>q1 q2. cancel_all t i q = Some q1 \<and> send e t i d q1 = Some q2
    \<and> (\<forall>j. with_id t j q2 = (if j = i then {#d#} else with_id t j q))"
proof -
  obtain q1 where q1: "cancel_all t i q = Some q1" using cancel_pending [OF assms(1), of i q] by auto
  obtain q2 where q2: "send e t i d q1 = Some q2" using send_pending [OF assms(2), of e t d q1] by auto
  show ?thesis
    using q1 q2 with_id_send [OF assms(2) q2] with_id_cancel [OF assms(1,1) q1] by auto
qed

end

section \<open>The scheduler provides it\<close>

definition posted_data :: "task \<Rightarrow> 'm vm \<Rightarrow> (message_id \<times> 'm msg_data option) multiset" where
  "posted_data t s = mset (map snd (pending_of t (vm_message_queue s)))"

definition data_send :: "u32 \<times> u32 \<Rightarrow> task \<Rightarrow> message_id \<Rightarrow> 'm msg_data option \<Rightarrow> 'm vm \<Rightarrow> 'm vm option" where
  "data_send e t i m s = MessageSendLater (fst e) t i m (snd e) s"

lemma send_later_data:
  assumes "\<not> combinable i"
  shows "\<exists>s'. data_send e t i m s = Some s'
    \<and> (\<forall>u. posted_data u s' = (if u = t then add_mset (i, m) (posted_data u s) else posted_data u s))"
proof -
  define a where "a = \<lparr>am_due = snd e + fst e, am_t = Unicast t, am_message = m,
    am_condition_addr = None, am_id = i, am_c_width = CONDITION_WIDTH_UNUSED, am_refcount = 1\<rparr>"
  obtain q' where q': "insert_msg a (vm_message_queue s) = (True, q')"
    using insert_after_accepts [of a None "vm_message_queue s"] assms
    by (cases "insert_msg a (vm_message_queue s)") (simp add: insert_msg_def a_def)
  have "mset (pending_of u q') = (if u = t then {#(am_due a, i, m)#} else {#}) + mset (pending_of u (vm_message_queue s))"
    for u using insert_after_pending [OF q' [unfolded insert_msg_def], of u] by (simp add: addressed_to_def a_def)
  then show ?thesis
    using q' by (simp add: data_send_def MessageSendLater_def vm_message_send_later_def recipients_of_def
        a_def [symmetric] posted_data_def)
qed

lemma pending_of_cancel_one:
  assumes "t \<noteq> INVALIDATED_TASK" "u \<noteq> INVALIDATED_TASK"
  shows "map snd (pending_of u (List.map_filter (cancel_one t i) q))
    = (if u = t then filter (\<lambda>p. fst p \<noteq> i) (map snd (pending_of u q)) else map snd (pending_of u q))"
proof (induction q)
  case (Cons a q)
  have keep: "(am_id b, am_message b) = (am_id a, am_message a)" if "without_task t a = Some b" for b
    using that by (auto simp: without_task_def split: if_splits recipients.splits)
  show ?case
  proof (cases "am_id a = i")
    case True
    show ?thesis
    proof (cases "u = t")
      case True
      with \<open>am_id a = i\<close> Cons cancel_one_not_pending [of t i a, OF _ assms(1)] show ?thesis
        by (auto simp: map_filter_simps cancel_one_def dest: without_task_id split: option.splits)
    next
      case False
      with \<open>am_id a = i\<close> Cons without_task_others [of u t a] without_task_no_new [of t a _ u] assms keep
      show ?thesis
        by (cases "addressed_to u a") (auto simp: map_filter_simps cancel_one_def split: option.splits)
    qed
  next
    case False
    then have "cancel_one t i a = Some a" by (simp add: cancel_one_def)
    with Cons False show ?thesis by (cases "u = t") (simp_all add: map_filter_simps)
  qed
qed (simp add: map_filter_simps)

lemma cancel_data:
  assumes "t \<noteq> INVALIDATED_TASK"
  shows "\<exists>s'. mb_cancel t i s = Some s' \<and> (\<forall>u\<in>{t. t \<noteq> INVALIDATED_TASK}.
    posted_data u s' = (if u = t then filter_mset (\<lambda>p. fst p \<noteq> i) (posted_data u s) else posted_data u s))"
proof -
  let ?q = "List.map_filter (cancel_one t i) (vm_message_queue s)"
  obtain n where "MessageCancelAll t i s = Some (n, s\<lparr>vm_message_queue := ?q\<rparr>)"
    using cancel_all_loop_result [OF assms, of i 0 "vm_message_queue s"] by (auto simp: MessageCancelAll_def)
  then show ?thesis
    unfolding posted_data_def mb_cancel_def
    by (simp add: pending_of_cancel_one [OF assms] mset_filter del: mset_map)
qed

interpretation md: data_mailbox "{t. t \<noteq> INVALIDATED_TASK}" "{i. \<not> combinable i}" posted_data data_send mb_cancel
proof
  show "\<exists>q'. data_send e t i d q = Some q'
      \<and> (\<forall>u. posted_data u q' = (if u = t then add_mset (i, d) (posted_data u q) else posted_data u q))"
    if "i \<in> {i. \<not> combinable i}" for e t i d and q :: "'a vm"
    by (rule send_later_data) (use that in simp)
  show "\<exists>q'. mb_cancel t i q = Some q' \<and> (\<forall>u\<in>{t. t \<noteq> INVALIDATED_TASK}.
      posted_data u q' = (if u = t then filter_mset (\<lambda>p. fst p \<noteq> i) (posted_data u q) else posted_data u q))"
    if "t \<in> {t. t \<noteq> INVALIDATED_TASK}" for t i and q :: "'a vm"
    by (rule cancel_data) (use that in simp)
qed

text \<open>A message that is taken from the queue, and one that goes to a list of tasks.\<close>

lemma posted_data_taken:
  assumes "vm_message_queue s = q1 @ a # q2" "unicast_to t a"
  shows "posted_data t s = add_mset (am_id a, am_message a) (posted_data t (s\<lparr>vm_message_queue := q1 @ q2\<rparr>))"
  using assms by (simp add: posted_data_def pending_of_def addressed_to_def unicast_to_def)

lemma message_send_data:
  assumes "tl_repr l ts ds" "tasks_ok ts" "n = 0 \<longrightarrow> data = None" "length ts \<le> 14"
  shows "\<exists>s'. TaskList_MessageSendLaterWithSize now l mid data n delay s = Some s'
    \<and> (\<forall>u. posted_data u s' = (if u \<in> set ts then add_mset (mid, data) (posted_data u s) else posted_data u s))"
proof (cases "ts = []")
  case False
  define a where "a = \<lparr>am_due = delay + now, am_t = Multicast ts, am_message = data,
    am_condition_addr = None, am_id = mid, am_c_width = CONDITION_WIDTH_UNUSED, am_refcount = 1\<rparr>"
  obtain q' where q': "insert_msg a (vm_message_queue s) = (True, q')"
    using insert_multicast_accepted [of a None "vm_message_queue s"]
    by (cases "insert_msg a (vm_message_queue s)") (simp add: insert_msg_def a_def is_multicast_def)
  have "mset (pending_of u q')
      = (if u \<in> set ts then {#(am_due a, mid, data)#} else {#}) + mset (pending_of u (vm_message_queue s))" for u
    using insert_after_pending [OF q' [unfolded insert_msg_def], of u] by (simp add: addressed_to_def a_def)
  then show ?thesis
    using q' False assms(4) message_send_tasks [OF assms(1-3), of now mid delay s]
    by (simp add: posted_data_def a_def [symmetric])
qed (simp add: message_send_tasks [OF assms(1-3)])

end
