(* ===== verification/PioMonitor.thy ===== *)
theory PioMonitor
  imports MessageData
begin

text \<open>
  The monitor of the input pins, \<open>libs/pio_monitor/pio_monitor.c\<close>. A client registers pins (PIOs); the
  monitor debounces all registered pins, keeps the last level of each one in its client's entry and
  sends the client a copy of the message of the firmware when a level has changed. A client with more than
  nine pins has several entries. The linked list of entries is a list; its tail pointer is the last
  element. The clock, the addresses of the allocated messages and the levels of the pins (\<open>PioGet32Bank\<close>)
  are arguments, the requests to debounce are outputs. Accesses outside an array and panics are \<open>None\<close>.
\<close>

unbundle bit_operations_syntax

section \<open>Data\<close>

record message_pio_changed =
  mpc_state :: u16
  mpc_time :: u32
  mpc_state16to31 :: u16
  mpc_bank :: u16

text \<open>The messages on the queue: those of the pins, and the clients' own.\<close>

datatype 'a pio_payload = Pio_changed message_pio_changed | Own 'a

definition PIOM_NUM_PIOS :: nat where "PIOM_NUM_PIOS = 96"
definition PIOM_NUM_BANKS :: nat where "PIOM_NUM_BANKS = PIOM_NUM_PIOS div 32"
definition PIOS_PER_BANK :: nat where "PIOS_PER_BANK = 32"
definition MAX_PIOS_PER_TASK :: nat where "MAX_PIOS_PER_TASK = 9"
definition EMPTY_PIO :: u8 where "EMPTY_PIO = 0xFF"
definition PIO_MONITOR_ENABLE_CFM :: message_id where "PIO_MONITOR_ENABLE_CFM = 0x7F8A"
definition MESSAGE_PIO_CHANGED :: message_id where "MESSAGE_PIO_CHANGED = SYSTEM_MESSAGE_BASE + 35"

record pio_monitor_client =
  cl_task :: task
  states :: u16
  numPios :: u8
  pios :: "u8 list"

record pio_debounce =
  db_bank :: nat
  db_mask :: u32
  db_reads :: u16
  db_period :: u16

record 'a pio_monitor_state =
  pm_task :: task
  cl_list :: "pio_monitor_client list"
  debounce_reads :: u16
  debounce_period :: u16
  pm_enabled :: bool
  pm_vm :: "'a pio_payload vm"
  pm_debounced :: "pio_debounce list"

definition PioCommonPioBank :: "nat \<Rightarrow> nat" where "PioCommonPioBank pio = pio div PIOS_PER_BANK"

definition PioCommonPioMask :: "nat \<Rightarrow> u32" where "PioCommonPioMask pio = push_bit (pio mod PIOS_PER_BANK) 1"

text \<open>\<open>None\<close> is the result \<open>FALSE\<close>; \<open>Some b\<close> is \<open>TRUE\<close> with \<open>*was_set = b\<close>.\<close>

definition PioMonitorIsPioInMessage :: "message_pio_changed \<Rightarrow> nat \<Rightarrow> bool option" where
  "PioMonitorIsPioInMessage change pio =
     (let state = push_bit 16 (ucast (mpc_state16to31 change)) + ucast (mpc_state change) :: u32
      in if unat (mpc_bank change) = PioCommonPioBank pio
         then Some (state AND PioCommonPioMask pio \<noteq> 0) else None)"

section \<open>Changes of the pins\<close>

fun changed_pios :: "message_pio_changed \<Rightarrow> u32 \<Rightarrow> nat \<Rightarrow> nat list \<Rightarrow> pio_monitor_client \<Rightarrow> 'a pio_payload vm
    \<Rightarrow> (pio_monitor_client \<times> 'a pio_payload vm) option" where
  "changed_pios mpc now addr [] client q = Some (client, q)"
| "changed_pios mpc now addr (p # ps) client q =
     (if p < length (pios client) then
        (case PioMonitorIsPioInMessage mpc (unat (pios client ! p)) of
           None \<Rightarrow> changed_pios mpc now addr ps client q
         | Some pio_set \<Rightarrow>
             if pio_set \<noteq> bit (states client) p then
               do {
                 let client = client\<lparr>states := states client XOR push_bit p 1\<rparr>;
                 q \<leftarrow> MessageSend now (cl_task client) MESSAGE_PIO_CHANGED (Some (addr, App (Pio_changed mpc))) q;
                 changed_pios mpc now addr ps client q
               }
             else changed_pios mpc now addr ps client q)
      else None)"

fun changed_clients :: "message_pio_changed \<Rightarrow> u32 \<Rightarrow> nat \<Rightarrow> pio_monitor_client list \<Rightarrow> 'a pio_payload vm
    \<Rightarrow> (pio_monitor_client list \<times> 'a pio_payload vm) option" where
  "changed_clients mpc now addr [] q = Some ([], q)"
| "changed_clients mpc now addr (client # cs) q =
     do {
       (client, q) \<leftarrow> changed_pios mpc now addr [0 ..< unat (numPios client)] client q;
       (cs, q) \<leftarrow> changed_clients mpc now addr cs q;
       Some (client # cs, q)
     }"

definition handleMessagePioChangedClients ::
  "message_pio_changed \<Rightarrow> u32 \<Rightarrow> nat \<Rightarrow> 'a pio_monitor_state \<Rightarrow> 'a pio_monitor_state option" where
  "handleMessagePioChangedClients mpc now addr state =
     do {
       (cs, q) \<leftarrow> changed_clients mpc now addr (cl_list state) (pm_vm state);
       Some (state\<lparr>cl_list := cs, pm_vm := q\<rparr>)
     }"

definition pioHandler ::
  "u32 \<Rightarrow> nat \<Rightarrow> message_id \<Rightarrow> message_pio_changed \<Rightarrow> 'a pio_monitor_state \<Rightarrow> 'a pio_monitor_state option" where
  "pioHandler now addr mid message state =
     (if mid = MESSAGE_PIO_CHANGED then handleMessagePioChangedClients message now addr state else Some state)"

section \<open>Clients\<close>

definition findClient :: "task \<Rightarrow> pio_monitor_client list \<Rightarrow> nat option" where
  "findClient t cs = find (\<lambda>i. cl_task (cs ! i) = t \<and> unat (numPios (cs ! i)) < MAX_PIOS_PER_TASK) [0 ..< length cs]"

definition newClient :: "task \<Rightarrow> pio_monitor_client" where
  "newClient t = \<lparr>cl_task = t, states = 0, numPios = 0, pios = replicate MAX_PIOS_PER_TASK EMPTY_PIO\<rparr>"

definition addPioToClient ::
  "(nat \<Rightarrow> u32) \<Rightarrow> u8 \<Rightarrow> pio_monitor_client \<Rightarrow> pio_monitor_client option" where
  "addPioToClient PioGet32Bank pio client =
     (let bank = PioCommonPioBank (unat pio); mask = PioCommonPioMask (unat pio);
          pin_state = (if PioGet32Bank bank AND mask \<noteq> 0 then 1 else 0) :: u32
      in do {
        PanicFalse (unat (numPios client) < MAX_PIOS_PER_TASK);
        ps \<leftarrow> write_cell (pios client) (unat (numPios client)) pio;
        Some (client\<lparr>pios := ps, numPios := numPios client + 1,
          states := states client OR ucast (push_bit (unat (numPios client)) pin_state)\<rparr>)
      })"

definition findPioInClient :: "pio_monitor_client \<Rightarrow> u8 \<Rightarrow> nat option" where
  "findPioInClient client pio = find (\<lambda>i. pios client ! i = pio) [0 ..< unat (numPios client)]"

fun remove_pio_loop :: "u8 \<Rightarrow> nat list \<Rightarrow> u16 \<Rightarrow> u16 \<Rightarrow> pio_monitor_client \<Rightarrow> pio_monitor_client" where
  "remove_pio_loop pio [] mask_a mask_c client = client"
| "remove_pio_loop pio (i # is) mask_a mask_c client =
     (if pios client ! i = pio then
        let left_a = drop_bit 1 (states client AND mask_a);
            right_c = states client AND mask_c;
            ps = fold (\<lambda>i ps. ps[i - 1 := ps ! i]) [i + 1 ..< unat (numPios client)] (pios client);
            n = numPios client - 1
        in client\<lparr>states := left_a OR right_c, numPios := n, pios := ps[unat n := EMPTY_PIO]\<rparr>
      else remove_pio_loop pio is (push_bit 1 mask_a) (push_bit 1 mask_c OR 1) client)"

definition removePioFromClient :: "u8 \<Rightarrow> pio_monitor_client \<Rightarrow> pio_monitor_client" where
  "removePioFromClient pio client = remove_pio_loop pio [0 ..< unat (numPios client)] 0xfffe 0 client"

definition addClient :: "(nat \<Rightarrow> u32) \<Rightarrow> task \<Rightarrow> u8 \<Rightarrow> pio_monitor_client list \<Rightarrow> pio_monitor_client list option" where
  "addClient PioGet32Bank t pio cs =
     (case findClient t cs of
        None \<Rightarrow> map_option (\<lambda>client. cs @ [client]) (addPioToClient PioGet32Bank pio (newClient t))
      | Some i \<Rightarrow> map_option (\<lambda>client. cs[i := client]) (addPioToClient PioGet32Bank pio (cs ! i)))"

fun removeClient :: "task \<Rightarrow> u8 \<Rightarrow> pio_monitor_client list \<Rightarrow> pio_monitor_client list" where
  "removeClient t pio [] = []"
| "removeClient t pio (client # cs) =
     (if cl_task client = t \<and> findPioInClient client pio \<noteq> None then
        let client = removePioFromClient pio client
        in if numPios client = 0 then cs else client # removeClient t pio cs
      else client # removeClient t pio cs)"

section \<open>Debouncing\<close>

definition setPioBounce :: "nat \<Rightarrow> u32 \<Rightarrow> 'a pio_monitor_state \<Rightarrow> 'a pio_monitor_state" where
  "setPioBounce bank pio_mask state = state\<lparr>pm_debounced := pm_debounced state
     @ [\<lparr>db_bank = bank, db_mask = pio_mask, db_reads = debounce_reads state, db_period = debounce_period state\<rparr>]\<rparr>"

text \<open>The pins of the clients, in the order in which the loops visit them.\<close>

definition client_pios :: "pio_monitor_client \<Rightarrow> u8 list" where
  "client_pios client = map (\<lambda>p. pios client ! p) [0 ..< unat (numPios client)]"

definition updateDebounced :: "u8 \<Rightarrow> 'a pio_monitor_state \<Rightarrow> 'a pio_monitor_state" where
  "updateDebounced pio state =
     (let pio_bank = PioCommonPioBank (unat pio);
          pio_bank_mask = fold (\<lambda>p mask. if PioCommonPioBank (unat p) = pio_bank
            then mask OR PioCommonPioMask (unat p) else mask) (concat (map client_pios (cl_list state))) 0
      in setPioBounce pio_bank pio_bank_mask state)"

fun all_masks :: "u8 list \<Rightarrow> u32 list \<Rightarrow> u32 list option" where
  "all_masks [] masks = Some masks"
| "all_masks (p # ps) masks =
     (let client_bank = PioCommonPioBank (unat p)
      in if client_bank < length masks
         then all_masks ps (masks[client_bank := masks ! client_bank OR PioCommonPioMask (unat p)]) else None)"

definition updateAllDebounced :: "'a pio_monitor_state \<Rightarrow> 'a pio_monitor_state option" where
  "updateAllDebounced state =
     do {
       masks \<leftarrow> all_masks (concat (map client_pios (cl_list state))) (replicate PIOM_NUM_BANKS 0);
       Some (fold (\<lambda>bank. setPioBounce bank (masks ! bank)) [0 ..< PIOM_NUM_BANKS] state)
     }"

section \<open>The interface\<close>

definition PioMonitorInit :: "'a pio_monitor_state \<Rightarrow> bool \<times> 'a pio_monitor_state" where
  "PioMonitorInit state = (True, state\<lparr>cl_list := [], debounce_reads := 0, debounce_period := 0\<rparr>)"

definition PioMonitorGetTask :: "'a pio_monitor_state \<Rightarrow> task" where "PioMonitorGetTask state = pm_task state"

definition PioMonitorSetDebounceParameters :: "u16 \<Rightarrow> u16 \<Rightarrow> 'a pio_monitor_state \<Rightarrow> 'a pio_monitor_state" where
  "PioMonitorSetDebounceParameters reads period state = state\<lparr>debounce_reads := reads, debounce_period := period\<rparr>"

fun send_enable :: "u32 \<Rightarrow> pio_monitor_client list \<Rightarrow> 'a pio_payload vm \<Rightarrow> 'a pio_payload vm option" where
  "send_enable now [] q = Some q"
| "send_enable now (client # cs) q =
     do { q \<leftarrow> MessageSend now (cl_task client) PIO_MONITOR_ENABLE_CFM None q; send_enable now cs q }"

definition enableClients :: "u32 \<Rightarrow> 'a pio_monitor_state \<Rightarrow> 'a pio_monitor_state option" where
  "enableClients now state =
     do {
       state \<leftarrow> updateAllDebounced state;
       q \<leftarrow> send_enable now (cl_list state) (pm_vm state);
       Some (state\<lparr>pm_vm := q\<rparr>)
     }"

text \<open>\<open>pm_enabled\<close> records that \<open>MessagePioTask\<close> has been called: the firmware then sends its messages to the monitor.\<close>

definition PioMonitorEnable :: "u32 \<Rightarrow> 'a pio_monitor_state \<Rightarrow> 'a pio_monitor_state option" where
  "PioMonitorEnable now state = enableClients now (state\<lparr>pm_enabled := True\<rparr>)"

definition PioMonitorRegisterTask ::
  "(nat \<Rightarrow> u32) \<Rightarrow> task \<Rightarrow> u8 \<Rightarrow> 'a pio_monitor_state \<Rightarrow> 'a pio_monitor_state option" where
  "PioMonitorRegisterTask PioGet32Bank client pio state =
     map_option (\<lambda>cs. state\<lparr>cl_list := cs\<rparr>) (addClient PioGet32Bank client pio (cl_list state))"

definition PioMonitorUnregisterTask :: "task \<Rightarrow> u8 \<Rightarrow> 'a pio_monitor_state \<Rightarrow> 'a pio_monitor_state" where
  "PioMonitorUnregisterTask client pio state =
     updateDebounced pio (state\<lparr>cl_list := removeClient client pio (cl_list state)\<rparr>)"

section \<open>What the monitor keeps: clients, their pins and the last levels\<close>

definition client_view :: "pio_monitor_client \<Rightarrow> (u8 \<times> bool) list" where
  "client_view c = map (\<lambda>p. (pios c ! p, bit (states c) p)) [0 ..< unat (numPios c)]"

definition registrations :: "pio_monitor_client list \<Rightarrow> (task \<times> u8 \<times> bool) list" where
  "registrations cs = concat (map (\<lambda>c. map (\<lambda>e. (cl_task c, e)) (client_view c)) cs)"

definition client_ok :: "pio_monitor_client \<Rightarrow> bool" where
  "client_ok c = (length (pios c) = MAX_PIOS_PER_TASK \<and> unat (numPios c) \<le> MAX_PIOS_PER_TASK
     \<and> (\<forall>i\<ge>unat (numPios c). \<not> bit (states c) i))"

definition pm_clients_ok :: "pio_monitor_client list \<Rightarrow> bool" where
  "pm_clients_ok cs = (\<forall>c\<in>set cs. client_ok c \<and> numPios c \<noteq> 0)"

lemma registrations_simps [simp]:
  "registrations [] = []"
  "registrations (c # cs) = map (\<lambda>e. (cl_task c, e)) (client_view c) @ registrations cs"
  "registrations (cs @ ds) = registrations cs @ registrations ds"
  by (simp_all add: registrations_def)

lemma pm_clients_ok_simps [simp]:
  "pm_clients_ok []"
  "pm_clients_ok (c # cs) \<longleftrightarrow> client_ok c \<and> numPios c \<noteq> 0 \<and> pm_clients_ok cs"
  "pm_clients_ok (cs @ ds) \<longleftrightarrow> pm_clients_ok cs \<and> pm_clients_ok ds"
  by (auto simp: pm_clients_ok_def)

lemma client_view_length [simp]: "length (client_view c) = unat (numPios c)"
  by (simp add: client_view_def)

lemma client_pios_view: "client_pios c = map fst (client_view c)"
  by (simp add: client_pios_def client_view_def)

text \<open>The level a pin has after a message.\<close>

definition new_level :: "message_pio_changed \<Rightarrow> u8 \<Rightarrow> bool \<Rightarrow> bool" where
  "new_level mpc pio b = (case PioMonitorIsPioInMessage mpc (unat pio) of None \<Rightarrow> b | Some b' \<Rightarrow> b')"

abbreviation pio_message :: "nat \<Rightarrow> message_pio_changed \<Rightarrow> message_id \<times> 'a pio_payload msg_data option" where
  "pio_message addr mpc \<equiv> (MESSAGE_PIO_CHANGED, Some (addr, App (Pio_changed mpc)))"

lemma pio_ids_not_combinable: "\<not> combinable MESSAGE_PIO_CHANGED" "\<not> combinable PIO_MONITOR_ENABLE_CFM"
  by (simp_all add: combinable_def system_message_ids MESSAGE_PIO_CHANGED_def PIO_MONITOR_ENABLE_CFM_def)

lemma message_send_one:
  assumes "\<not> combinable i"
  shows "\<exists>q'. MessageSend now t i m q = Some q'
    \<and> (\<forall>u. posted_data u q' = (if u = t then add_mset (i, m) (posted_data u q) else posted_data u q))"
  using send_later_data [OF assms, of "(now, D_IMMEDIATE)" t m q] by (simp add: data_send_def MessageSend_def)

lemma changed_pios_done:
  assumes "distinct ps" "\<forall>p\<in>set ps. p < length (pios c) \<and> p < 16"
  shows "\<exists>s q'. changed_pios mpc now addr ps c q = Some (c\<lparr>states := s\<rparr>, q')
    \<and> (\<forall>i. bit s i = (if i \<in> set ps then new_level mpc (pios c ! i) (bit (states c) i) else bit (states c) i))
    \<and> (\<forall>u. posted_data u q' = posted_data u q + (if u = cl_task c then replicate_mset (length
        (filter (\<lambda>p. new_level mpc (pios c ! p) (bit (states c) p) \<noteq> bit (states c) p) ps)) (pio_message addr mpc) else {#}))"
  using assms
proof (induction ps arbitrary: c q)
  case Nil
  then show ?case by (intro exI [of _ "states c"] exI [of _ q]) simp
next
  case (Cons p ps)
  have p: "p < length (pios c)" "p < 16" "p \<notin> set ps" using Cons.prems by auto
  show ?case
  proof (cases "new_level mpc (pios c ! p) (bit (states c) p) = bit (states c) p")
    case True
    obtain s q' where "changed_pios mpc now addr ps c q = Some (c\<lparr>states := s\<rparr>, q')"
      "\<forall>i. bit s i = (if i \<in> set ps then new_level mpc (pios c ! i) (bit (states c) i) else bit (states c) i)"
      "\<forall>u. posted_data u q' = posted_data u q + (if u = cl_task c then replicate_mset (length
        (filter (\<lambda>p. new_level mpc (pios c ! p) (bit (states c) p) \<noteq> bit (states c) p) ps)) (pio_message addr mpc) else {#})"
      using Cons.IH [of c q] Cons.prems by auto
    then show ?thesis
      using p True by (intro exI [of _ s] exI [of _ q'])
        (auto simp: new_level_def split: option.splits)
  next
    case False
    then obtain b where b: "PioMonitorIsPioInMessage mpc (unat (pios c ! p)) = Some b" "b \<noteq> bit (states c) p"
      by (auto simp: new_level_def split: option.splits)
    define s1 where "s1 = states c XOR push_bit p 1"
    have s1: "states c XOR 2 ^ p = s1" by (simp add: s1_def)
    let ?c = "c\<lparr>states := s1\<rparr>"
    have bits: "bit s1 i = (if i = p then b else bit (states c) i)" for i
      using b(2) p(2) by (auto simp: s1_def bit_simps)
    obtain q1 where q1: "MessageSend now (cl_task c) MESSAGE_PIO_CHANGED (Some (addr, App (Pio_changed mpc))) q = Some q1"
      "\<forall>u. posted_data u q1 = (if u = cl_task c then add_mset (pio_message addr mpc) (posted_data u q) else posted_data u q)"
      using message_send_one [OF pio_ids_not_combinable(1)] by blast
    obtain s q' where s: "changed_pios mpc now addr ps ?c q1 = Some (?c\<lparr>states := s\<rparr>, q')"
      "\<forall>i. bit s i = (if i \<in> set ps then new_level mpc (pios c ! i) (bit (states ?c) i) else bit (states ?c) i)"
      "\<forall>u. posted_data u q' = posted_data u q1 + (if u = cl_task c then replicate_mset (length
        (filter (\<lambda>p. new_level mpc (pios c ! p) (bit (states ?c) p) \<noteq> bit (states ?c) p) ps)) (pio_message addr mpc) else {#})"
      using Cons.IH [of ?c q1] Cons.prems by auto
    have same: "filter (\<lambda>p. new_level mpc (pios c ! p) (bit s1 p) \<noteq> bit s1 p) ps
        = filter (\<lambda>p. new_level mpc (pios c ! p) (bit (states c) p) \<noteq> bit (states c) p) ps"
      using p(3) by (intro filter_cong refl) (auto simp: bits)
    have "bit s i = (if i \<in> set (p # ps) then new_level mpc (pios c ! i) (bit (states c) i) else bit (states c) i)" for i
      using s(2) p(3) b by (auto simp: bits new_level_def)
    then show ?thesis
      using s(1,3) q1 b p False same by (intro exI [of _ s] exI [of _ q']) (simp add: s1)
  qed
qed

lemma changed_client:
  assumes "client_ok c"
  shows "\<exists>c' q'. changed_pios mpc now addr [0 ..< unat (numPios c)] c q = Some (c', q') \<and> client_ok c'
    \<and> cl_task c' = cl_task c \<and> numPios c' = numPios c \<and> pios c' = pios c
    \<and> client_view c' = map (\<lambda>(p, b). (p, new_level mpc p b)) (client_view c)
    \<and> (\<forall>u. posted_data u q' = posted_data u q + (if u = cl_task c then replicate_mset (length
        (filter (\<lambda>(p, b). new_level mpc p b \<noteq> b) (client_view c))) (pio_message addr mpc) else {#}))"
proof -
  have n: "unat (numPios c) \<le> 9" "length (pios c) = 9"
    using assms by (simp_all add: client_ok_def MAX_PIOS_PER_TASK_def)
  obtain s q' where s: "changed_pios mpc now addr [0 ..< unat (numPios c)] c q = Some (c\<lparr>states := s\<rparr>, q')"
    "\<forall>i. bit s i = (if i \<in> set [0 ..< unat (numPios c)] then new_level mpc (pios c ! i) (bit (states c) i) else bit (states c) i)"
    "\<forall>u. posted_data u q' = posted_data u q + (if u = cl_task c then replicate_mset (length
      (filter (\<lambda>p. new_level mpc (pios c ! p) (bit (states c) p) \<noteq> bit (states c) p) [0 ..< unat (numPios c)]))
      (pio_message addr mpc) else {#})"
    using changed_pios_done [of "[0 ..< unat (numPios c)]" c mpc now addr q] n by auto
  moreover have "client_view (c\<lparr>states := s\<rparr>) = map (\<lambda>(p, b). (p, new_level mpc p b)) (client_view c)"
    using s(2) by (simp add: client_view_def)
  moreover have "client_ok (c\<lparr>states := s\<rparr>)" using assms s(2) by (simp add: client_ok_def)
  moreover have "length (filter (\<lambda>p. new_level mpc (pios c ! p) (bit (states c) p) \<noteq> bit (states c) p) [0 ..< unat (numPios c)])
      = length (filter (\<lambda>(p, b). new_level mpc p b \<noteq> b) (client_view c))"
    by (simp add: client_view_def filter_map o_def)
  ultimately show ?thesis by (intro exI [of _ "c\<lparr>states := s\<rparr>"] exI [of _ q']) simp
qed

lemma replicate_mset_add: "replicate_mset (m + n) x = replicate_mset m x + replicate_mset n x"
  by (rule multiset_eqI) simp

lemma changed_clients_done:
  assumes "pm_clients_ok cs"
  shows "\<exists>cs' q'. changed_clients mpc now addr cs q = Some (cs', q') \<and> pm_clients_ok cs'
    \<and> registrations cs' = map (\<lambda>(t, p, b). (t, p, new_level mpc p b)) (registrations cs)
    \<and> (\<forall>u. posted_data u q' = posted_data u q + replicate_mset (length
        (filter (\<lambda>(t, p, b). t = u \<and> new_level mpc p b \<noteq> b) (registrations cs))) (pio_message addr mpc))"
  using assms
proof (induction cs arbitrary: q)
  case (Cons c cs)
  then have c: "client_ok c" "numPios c \<noteq> 0" "pm_clients_ok cs" by simp_all
  obtain c' q1 where c': "changed_pios mpc now addr [0 ..< unat (numPios c)] c q = Some (c', q1)" "client_ok c'"
    "cl_task c' = cl_task c" "numPios c' = numPios c"
    "client_view c' = map (\<lambda>(p, b). (p, new_level mpc p b)) (client_view c)"
    "\<forall>u. posted_data u q1 = posted_data u q + (if u = cl_task c then replicate_mset (length
        (filter (\<lambda>(p, b). new_level mpc p b \<noteq> b) (client_view c))) (pio_message addr mpc) else {#})"
    using changed_client [OF c(1), of mpc now addr q] by blast
  obtain cs' q2 where cs': "changed_clients mpc now addr cs q1 = Some (cs', q2)" "pm_clients_ok cs'"
    "registrations cs' = map (\<lambda>(t, p, b). (t, p, new_level mpc p b)) (registrations cs)"
    "\<forall>u. posted_data u q2 = posted_data u q1 + replicate_mset (length
        (filter (\<lambda>(t, p, b). t = u \<and> new_level mpc p b \<noteq> b) (registrations cs))) (pio_message addr mpc)"
    using Cons.IH [OF c(3), of q1] by blast
  have "length (filter (\<lambda>(t, p, b). t = u \<and> new_level mpc p b \<noteq> b) (map (\<lambda>e. (cl_task c, e)) es))
      = (if u = cl_task c then length (filter (\<lambda>(p, b). new_level mpc p b \<noteq> b) es) else 0)" for u es
    by (induction es) auto
  then have "posted_data u q2 = posted_data u q + replicate_mset (length
      (filter (\<lambda>(t, p, b). t = u \<and> new_level mpc p b \<noteq> b) (registrations (c # cs)))) (pio_message addr mpc)" for u
    using c'(6) cs'(4) by (simp add: replicate_mset_add add.assoc)
  then show ?case
    using c' cs' c(2) by (intro exI [of _ "c' # cs'"] exI [of _ q2]) (simp add: case_prod_unfold)
qed simp

section \<open>Registering and unregistering\<close>

lemma client_view_append:
  assumes "client_ok c" "unat (numPios c) < MAX_PIOS_PER_TASK"
  shows "\<exists>c'. addPioToClient get pio c = Some c' \<and> client_ok c' \<and> numPios c' \<noteq> 0 \<and> cl_task c' = cl_task c
    \<and> client_view c' = client_view c @ [(pio, get (PioCommonPioBank (unat pio)) AND PioCommonPioMask (unat pio) \<noteq> 0)]"
proof -
  define n where "n = unat (numPios c)"
  define up where "up = (get (PioCommonPioBank (unat pio)) AND PioCommonPioMask (unat pio) \<noteq> 0)"
  define st where "st = states c OR ucast (push_bit n (if up then 1 else 0 :: u32))"
  have n: "n < 9" "length (pios c) = 9" "\<forall>i\<ge>n. \<not> bit (states c) i"
    using assms by (simp_all add: client_ok_def MAX_PIOS_PER_TASK_def n_def)
  have n1: "unat (numPios c + 1) = n + 1"
    using n(1) by (simp add: n_def unat_word_ariths)
  let ?c = "c\<lparr>pios := (pios c)[n := pio], numPios := numPios c + 1, states := st\<rparr>"
  have bits: "bit st i = (bit (states c) i \<or> (i = n \<and> up))" for i
    using n(1) by (auto simp: st_def bit_simps split: if_splits)
  have "addPioToClient get pio c = Some ?c"
    using assms(2) n(2) by (simp add: addPioToClient_def write_cell_def n_def [symmetric] up_def [symmetric] st_def
        MAX_PIOS_PER_TASK_def Let_def)
  moreover have "client_view ?c = client_view c @ [(pio, up)]"
    using n(2,3) bits n(1) by (simp add: client_view_def n1 n_def [symmetric] nth_append cong: map_cong)
  moreover have "client_ok ?c" using n bits by (auto simp: client_ok_def n1 MAX_PIOS_PER_TASK_def)
  moreover have "numPios ?c \<noteq> 0" using n1 by auto
  ultimately show ?thesis by (auto simp: up_def)
qed

lemma newClient_view: "client_ok (newClient t)" "client_view (newClient t) = []" "cl_task (newClient t) = t"
    "unat (numPios (newClient t)) < MAX_PIOS_PER_TASK"
  by (simp_all add: newClient_def client_ok_def client_view_def MAX_PIOS_PER_TASK_def)

definition pio_level :: "(nat \<Rightarrow> u32) \<Rightarrow> u8 \<Rightarrow> bool" where
  "pio_level get pio = (get (PioCommonPioBank (unat pio)) AND PioCommonPioMask (unat pio) \<noteq> 0)"

lemma addClient_done:
  assumes "pm_clients_ok cs"
  shows "\<exists>cs'. addClient get t pio cs = Some cs' \<and> pm_clients_ok cs'
    \<and> mset (registrations cs') = add_mset (t, pio, pio_level get pio) (mset (registrations cs))"
proof (cases "findClient t cs")
  case None
  obtain c where c: "addPioToClient get pio (newClient t) = Some c" "client_ok c" "numPios c \<noteq> 0" "cl_task c = t"
    "client_view c = [(pio, pio_level get pio)]"
    using client_view_append [OF newClient_view(1,4), of get pio t] by (auto simp: newClient_view pio_level_def)
  then show ?thesis
    using None assms by (intro exI [of _ "cs @ [c]"]) (simp add: addClient_def)
next
  case (Some i)
  then have i: "i < length cs" "cl_task (cs ! i) = t" "unat (numPios (cs ! i)) < MAX_PIOS_PER_TASK"
    using find_range_SomeD [of _ "[0 ..< length cs]" i] by (auto simp: findClient_def dest: find_range_SomeD)
  have "cs ! i \<in> set cs" using i(1) by simp
  then have ok: "client_ok (cs ! i)" using assms by (simp add: pm_clients_ok_def)
  obtain c where c: "addPioToClient get pio (cs ! i) = Some c" "client_ok c" "numPios c \<noteq> 0" "cl_task c = t"
    "client_view c = client_view (cs ! i) @ [(pio, pio_level get pio)]"
    using client_view_append [OF ok i(3), of get pio] i(2) by (auto simp: pio_level_def)
  define ds es where "ds = take i cs" and "es = drop (Suc i) cs"
  have cs: "cs = ds @ cs ! i # es" using i(1) by (simp add: ds_def es_def id_take_nth_drop)
  have "cs[i := c] = ds @ c # es" using i(1) by (simp add: ds_def es_def upd_conv_take_nth_drop)
  moreover have "mset (registrations (ds @ c # es))
      = add_mset (t, pio, pio_level get pio) (mset (registrations (ds @ cs ! i # es)))"
    using c(4,5) i(2) by simp
  moreover have "pm_clients_ok (ds @ c # es)"
    using assms c(2,3) cs pm_clients_ok_simps(2,3) by metis
  ultimately show ?thesis using Some c(1) cs by (auto simp: addClient_def)
qed

lemma shift_down:
  assumes "length xs = l" "n \<le> l"
  shows "length (fold (\<lambda>i ps. ps[i - 1 := ps ! i]) [i + 1 ..< n] xs) = l
    \<and> (\<forall>j<l. fold (\<lambda>i ps. ps[i - 1 := ps ! i]) [i + 1 ..< n] xs ! j
        = (if i \<le> j \<and> j + 1 < n then xs ! (j + 1) else xs ! j))"
  using assms(2)
proof (induction n)
  case (Suc n)
  define ys where "ys = fold (\<lambda>i ps. ps[i - 1 := ps ! i]) [i + 1 ..< n] xs"
  have ys: "length ys = l" "\<And>j. j < l \<Longrightarrow> ys ! j = (if i \<le> j \<and> j + 1 < n then xs ! (j + 1) else xs ! j)"
    using Suc by (simp_all add: ys_def)
  show ?case
  proof (cases "i + 1 \<le> n")
    case True
    then have "fold (\<lambda>i ps. ps[i - 1 := ps ! i]) [i + 1 ..< Suc n] xs = ys[n - 1 := ys ! n]" by (simp add: ys_def)
    then show ?thesis using True ys Suc.prems by (auto simp: nth_list_update)
  qed (use assms(1) in auto)
qed (use assms(1) in simp)

text \<open>The two masks cut the levels around the removed one.\<close>

lemma remove_pio_loop_at:
  assumes "k \<le> i" "i < n" "n \<le> 9" "pios c ! i = pio" "\<forall>j. k \<le> j \<and> j < i \<longrightarrow> pios c ! j \<noteq> pio"
    "unat (numPios c) = n" "length (pios c) = 9"
  shows "\<exists>st ps. remove_pio_loop pio [k ..< n] (NOT (mask (k + 1))) (mask k) c
      = c\<lparr>states := st, numPios := numPios c - 1, pios := ps\<rparr> \<and> length ps = 9
    \<and> (\<forall>j<n - 1. ps ! j = (if j < i then pios c ! j else pios c ! (j + 1)))
    \<and> (\<forall>j. bit st j = (if j < i then bit (states c) j else bit (states c) (j + 1)))"
  using assms
proof (induction "i - k" arbitrary: k)
  case 0
  then have k: "k = i" by simp
  have n1: "unat (numPios c - 1) = n - 1" using 0(3,7) unat_minus_one [of "numPios c"] by (cases "numPios c = 0") auto
  let ?ps = "(fold (\<lambda>i ps. ps[i - 1 := ps ! i]) [i + 1 ..< n] (pios c))[n - 1 := EMPTY_PIO]"
  let ?st = "drop_bit 1 (states c AND NOT (mask (i + 1))) OR (states c AND mask i)"
  have "remove_pio_loop pio [k ..< n] (NOT (mask (k + 1))) (mask k) c
      = c\<lparr>states := ?st, numPios := numPios c - 1, pios := ?ps\<rparr>"
    using 0(3,5,7) by (simp add: k upt_conv_Cons n1 Let_def)
  moreover have "length ?ps = 9 \<and> (\<forall>j<n - 1. ?ps ! j = (if j < i then pios c ! j else pios c ! (j + 1)))"
    using shift_down [OF 0(8) 0(4), of i] 0(3,4) by auto
  moreover have "bit ?st j = (if j < i then bit (states c) j else bit (states c) (j + 1))" for j
    using 0(3,4) by (auto simp: bit_simps dest: bit_imp_le_length)
  ultimately show ?case by blast
next
  case (Suc d)
  have "k < n" "pios c ! k \<noteq> pio" using Suc(2,4,7) by auto
  moreover have "push_bit 1 (NOT (mask (k + 1))) = (NOT (mask (k + 2)) :: u16)"
    by (rule bit_eqI, simp only: bit_push_bit_iff bit_not_iff bit_mask_iff, auto)
  moreover have "push_bit 1 (mask k) OR 1 = (mask (k + 1) :: u16)"
    by (simp add: mask_Suc_double or.commute mult.commute)
  moreover have "\<exists>st ps. remove_pio_loop pio [Suc k ..< n] (NOT (mask (Suc k + 1))) (mask (Suc k)) c
      = c\<lparr>states := st, numPios := numPios c - 1, pios := ps\<rparr> \<and> length ps = 9
    \<and> (\<forall>j<n - 1. ps ! j = (if j < i then pios c ! j else pios c ! (j + 1)))
    \<and> (\<forall>j. bit st j = (if j < i then bit (states c) j else bit (states c) (j + 1)))"
    using Suc by (intro Suc(1)) auto
  ultimately show ?case by (simp add: upt_conv_Cons)
qed

lemma filter_removes_nth:
  assumes "distinct (map fst v)" "i < length v" "fst (v ! i) = x"
  shows "filter (\<lambda>e. fst e \<noteq> x) v = take i v @ drop (i + 1) v"
proof -
  define ds es where "ds = take i v" and "es = drop (i + 1) v"
  have v: "v = ds @ v ! i # es" using assms(2) by (simp add: ds_def es_def id_take_nth_drop)
  with assms(1) have "distinct (map fst (ds @ v ! i # es))" by metis
  then have "x \<notin> fst ` set ds" "x \<notin> fst ` set es" using assms(3) by auto
  then have "filter (\<lambda>e. fst e \<noteq> x) ds = ds" "filter (\<lambda>e. fst e \<noteq> x) es = es"
    by (auto intro!: filter_True)
  moreover have "filter (\<lambda>e. fst e \<noteq> x) v = filter (\<lambda>e. fst e \<noteq> x) (ds @ v ! i # es)" using v by simp
  ultimately show ?thesis using assms(3) by (simp add: ds_def es_def)
qed

lemma find_first_range:
  "find P [0 ..< n] = Some i \<Longrightarrow> i < n \<and> P i \<and> (\<forall>j<i. \<not> P j)"
  by (auto simp: find_Some_iff)

lemma findPioInClient_view:
  "findPioInClient c pio = None \<longleftrightarrow> pio \<notin> fst ` set (client_view c)"
  by (auto simp: findPioInClient_def client_view_def find_None_iff image_image)

lemma removePioFromClient_view:
  assumes "client_ok c" "distinct (map fst (client_view c))" "findPioInClient c pio \<noteq> None"
  shows "client_ok (removePioFromClient pio c) \<and> cl_task (removePioFromClient pio c) = cl_task c
    \<and> client_view (removePioFromClient pio c) = filter (\<lambda>e. fst e \<noteq> pio) (client_view c)"
proof -
  define n where "n = unat (numPios c)"
  obtain i where i: "i < n" "pios c ! i = pio" "\<forall>j<i. pios c ! j \<noteq> pio"
    using assms(3) by (auto simp: findPioInClient_def n_def dest: find_first_range)
  have c: "n \<le> 9" "length (pios c) = 9" "\<forall>j\<ge>n. \<not> bit (states c) j"
    using assms(1) by (simp_all add: client_ok_def n_def MAX_PIOS_PER_TASK_def)
  have mask1: "(0xfffe :: u16) = NOT (mask (0 + 1))" "(0 :: u16) = mask 0" by simp_all
  obtain st ps where r: "removePioFromClient pio c = c\<lparr>states := st, numPios := numPios c - 1, pios := ps\<rparr>" "length ps = 9"
    "\<forall>j<n - 1. ps ! j = (if j < i then pios c ! j else pios c ! (j + 1))"
    "\<forall>j. bit st j = (if j < i then bit (states c) j else bit (states c) (j + 1))"
    using remove_pio_loop_at [of 0 i n c pio] i c(1,2)
    unfolding removePioFromClient_def mask1 n_def [symmetric] by auto
  have n1: "unat (numPios c - 1) = n - 1"
    using i(1) unat_minus_one [of "numPios c"] by (cases "numPios c = 0") (auto simp: n_def)
  have "client_view (removePioFromClient pio c) = take i (client_view c) @ drop (i + 1) (client_view c)"
    using i(1) by (intro nth_equalityI) (auto simp: r(1,3,4) client_view_def n1 n_def [symmetric] nth_append)
  moreover have "\<dots> = filter (\<lambda>e. fst e \<noteq> pio) (client_view c)"
    using i by (intro filter_removes_nth [symmetric] assms(2)) (simp_all add: client_view_def n_def)
  moreover have "client_ok (removePioFromClient pio c)"
    using c r(2,4) i(1) by (auto simp: r(1) client_ok_def n1 MAX_PIOS_PER_TASK_def)
  ultimately show ?thesis by (simp add: r(1))
qed

definition registered_once :: "pio_monitor_client list \<Rightarrow> bool" where
  "registered_once cs = distinct (map (\<lambda>(t, p, b). (t, p)) (registrations cs))"

lemma removeClient_done:
  assumes "pm_clients_ok cs" "registered_once cs"
  shows "pm_clients_ok (removeClient t pio cs)
    \<and> registrations (removeClient t pio cs) = filter (\<lambda>(u, p, b). \<not> (u = t \<and> p = pio)) (registrations cs)"
  using assms
proof (induction cs)
  case (Cons c cs)
  let ?keep = "\<lambda>(u, p, b). \<not> (u = t \<and> p = pio)" and ?own = "map (\<lambda>e. (cl_task c, e)) (client_view c)"
  have c: "client_ok c" "numPios c \<noteq> 0" "pm_clients_ok cs" "registered_once cs"
    using Cons.prems by (simp_all add: registered_once_def)
  have d: "distinct (map (\<lambda>(t, p, b). (t, p)) ?own)" using Cons.prems(2) by (simp add: registered_once_def)
  have "map (\<lambda>(t, p, b). (t, p)) ?own = map (Pair (cl_task c)) (map fst (client_view c))" by (simp add: case_prod_unfold)
  then have dv: "distinct (map fst (client_view c))" using d distinct_map by metis
  show ?case
  proof (cases "cl_task c = t \<and> findPioInClient c pio \<noteq> None")
    case True
    let ?c = "removePioFromClient pio c"
    have r: "client_ok ?c" "cl_task ?c = t" "client_view ?c = filter (\<lambda>e. fst e \<noteq> pio) (client_view c)"
      using removePioFromClient_view [OF c(1) dv] True by auto
    have own: "filter ?keep ?own = map (\<lambda>e. (t, e)) (client_view ?c)"
      using True by (simp add: r(3) filter_map o_def case_prod_unfold)
    obtain b where "(pio, b) \<in> set (client_view c)" using True by (auto simp: findPioInClient_view)
    then have "(t, pio) \<in> set (map (\<lambda>(t, p, b). (t, p)) ?own)" using True by force
    then have "(t, pio) \<notin> set (map (\<lambda>(t, p, b). (t, p)) (registrations cs))"
      using Cons.prems(2) unfolding registered_once_def registrations_simps map_append distinct_append by blast
    then have rest: "filter ?keep (registrations cs) = registrations cs" by (force intro!: filter_True)
    show ?thesis
    proof (cases "numPios ?c = 0")
      case True
      then have "client_view ?c = []" by (simp add: client_view_def)
      then show ?thesis using \<open>cl_task c = t \<and> _\<close> True own rest c(3) by (simp add: Let_def)
    next
      case False
      then show ?thesis using \<open>cl_task c = t \<and> _\<close> own r Cons.IH [OF c(3,4)] by (simp add: Let_def)
    qed
  next
    case False
    then have "filter ?keep ?own = ?own"
      by (auto intro!: filter_True simp: findPioInClient_view rev_image_eqI)
    then show ?thesis using False Cons.IH [OF c(3,4)] c(1,2) by auto
  qed
qed simp

text \<open>The pins that are debounced are those that are registered.\<close>

lemma pio_mask_bit: "n < 32 \<Longrightarrow> bit (PioCommonPioMask pio) n \<longleftrightarrow> n = pio mod 32"
  by (auto simp: PioCommonPioMask_def PIOS_PER_BANK_def bit_simps)

lemma debounce_mask_bit:
  assumes "n < 32"
  shows "bit (fold (\<lambda>p m. if PioCommonPioBank (unat p) = bank then m OR PioCommonPioMask (unat p) else m) ps m0) n
    \<longleftrightarrow> bit m0 n \<or> (\<exists>p\<in>set ps. unat (p :: u8) = 32 * bank + n)"
proof (induction ps arbitrary: m0)
  case (Cons p ps)
  have "unat p = 32 * bank + n \<longleftrightarrow> PioCommonPioBank (unat p) = bank \<and> n = unat p mod 32"
    using assms by (auto simp: PioCommonPioBank_def PIOS_PER_BANK_def)
  then show ?case
    by (simp add: Cons.IH bit_or_iff pio_mask_bit [OF assms])
qed simp

lemma all_masks_done:
  assumes "length masks = PIOM_NUM_BANKS"
  shows "all_masks ps masks =
    (if \<forall>p\<in>set ps. unat p < PIOM_NUM_PIOS
     then Some (map (\<lambda>bank. fold (\<lambda>p m. if PioCommonPioBank (unat p) = bank then m OR PioCommonPioMask (unat p) else m)
       ps (masks ! bank)) [0 ..< PIOM_NUM_BANKS]) else None)"
  using assms
proof (induction ps arbitrary: masks)
  case Nil
  then show ?case by (auto intro!: nth_equalityI)
next
  case (Cons p ps)
  let ?b = "PioCommonPioBank (unat p)"
  have b: "?b < PIOM_NUM_BANKS \<longleftrightarrow> unat p < PIOM_NUM_PIOS"
    by (auto simp: PioCommonPioBank_def PIOM_NUM_BANKS_def PIOM_NUM_PIOS_def PIOS_PER_BANK_def)
  show ?case
  proof (cases "?b < PIOM_NUM_BANKS")
    case True
    then show ?thesis
      using b Cons.prems Cons.IH [of "masks[?b := masks ! ?b OR PioCommonPioMask (unat p)]"]
      by (auto simp: Let_def nth_list_update intro!: map_cong)
  qed (use b Cons.prems in \<open>auto simp: Let_def\<close>)
qed

section \<open>Properties\<close>

text \<open>
  C40: The monitor refines a table of registrations (task, pin, last level): in every well-formed
  state, registering a pin adds one registration, with the level the pin has now, wherever
  there is room for it; if no task has registered a pin twice, unregistering removes exactly the registration of
  that task and pin, moving the levels of the pins behind it in its entry, and asks for the
  debouncing of exactly the pins of the bank that are still registered.
\<close>
theorem pio_registrations_refine:
  assumes "pm_clients_ok (cl_list s)"
  shows "(\<exists>s'. PioMonitorRegisterTask get t pio s = Some s' \<and> pm_clients_ok (cl_list s')
      \<and> mset (registrations (cl_list s')) = add_mset (t, pio, pio_level get pio) (mset (registrations (cl_list s))))
    \<and> (registered_once (cl_list s) \<longrightarrow> (\<exists>m. PioMonitorUnregisterTask t pio s = s\<lparr>cl_list := removeClient t pio (cl_list s),
          pm_debounced := pm_debounced s @ [\<lparr>db_bank = unat pio div 32, db_mask = m,
            db_reads = debounce_reads s, db_period = debounce_period s\<rparr>]\<rparr>
      \<and> pm_clients_ok (removeClient t pio (cl_list s))
      \<and> registrations (removeClient t pio (cl_list s))
          = filter (\<lambda>(u, p, b). \<not> (u = t \<and> p = pio)) (registrations (cl_list s))
      \<and> (\<forall>n<32. bit m n \<longleftrightarrow> (\<exists>(u, p, b)\<in>set (registrations (removeClient t pio (cl_list s))).
          unat p = 32 * (unat pio div 32) + n))))"
proof
  show "\<exists>s'. PioMonitorRegisterTask get t pio s = Some s' \<and> pm_clients_ok (cl_list s')
      \<and> mset (registrations (cl_list s')) = add_mset (t, pio, pio_level get pio) (mset (registrations (cl_list s)))"
    using addClient_done [OF assms, of get t pio] by (auto simp: PioMonitorRegisterTask_def)
next
  have "\<exists>m. PioMonitorUnregisterTask t pio s = s\<lparr>cl_list := removeClient t pio (cl_list s),
          pm_debounced := pm_debounced s @ [\<lparr>db_bank = unat pio div 32, db_mask = m,
            db_reads = debounce_reads s, db_period = debounce_period s\<rparr>]\<rparr>
      \<and> pm_clients_ok (removeClient t pio (cl_list s))
      \<and> registrations (removeClient t pio (cl_list s))
          = filter (\<lambda>(u, p, b). \<not> (u = t \<and> p = pio)) (registrations (cl_list s))
      \<and> (\<forall>n<32. bit m n \<longleftrightarrow> (\<exists>(u, p, b)\<in>set (registrations (removeClient t pio (cl_list s))).
          unat p = 32 * (unat pio div 32) + n))"
    if once: "registered_once (cl_list s)"
  proof -
  define cs where "cs = removeClient t pio (cl_list s)"
  have cs: "pm_clients_ok cs"
    "registrations cs = filter (\<lambda>(u, p, b). \<not> (u = t \<and> p = pio)) (registrations (cl_list s))"
    using removeClient_done [OF assms once, of t pio] by (simp_all add: cs_def)
  define m where "m = fold (\<lambda>p m. if PioCommonPioBank (unat p) = PioCommonPioBank (unat pio)
    then m OR PioCommonPioMask (unat p) else m) (concat (map client_pios cs)) 0"
  have pins: "p \<in> set (concat (map client_pios cs)) \<longleftrightarrow> (\<exists>(u, p', b)\<in>set (registrations cs). p' = p)" for p
    by (force simp: registrations_def client_pios_view)
  have "bit m n \<longleftrightarrow> (\<exists>(u, p, b)\<in>set (registrations cs). unat p = 32 * (unat pio div 32) + n)" if "n < 32" for n
    using debounce_mask_bit [OF that, of "PioCommonPioBank (unat pio)" "concat (map client_pios cs)" 0]
    unfolding m_def pins Bex_def by (fastforce simp: PioCommonPioBank_def PIOS_PER_BANK_def)
  then show ?thesis
    using cs unfolding cs_def [symmetric]
    by (intro exI [of _ m]) (simp add: PioMonitorUnregisterTask_def updateDebounced_def setPioBounce_def cs_def [symmetric]
        m_def Let_def, simp add: PioCommonPioBank_def PIOS_PER_BANK_def)
  qed
  then show "registered_once (cl_list s) \<longrightarrow> (\<exists>m. PioMonitorUnregisterTask t pio s = s\<lparr>cl_list := removeClient t pio (cl_list s),
          pm_debounced := pm_debounced s @ [\<lparr>db_bank = unat pio div 32, db_mask = m,
            db_reads = debounce_reads s, db_period = debounce_period s\<rparr>]\<rparr>
      \<and> pm_clients_ok (removeClient t pio (cl_list s))
      \<and> registrations (removeClient t pio (cl_list s))
          = filter (\<lambda>(u, p, b). \<not> (u = t \<and> p = pio)) (registrations (cl_list s))
      \<and> (\<forall>n<32. bit m n \<longleftrightarrow> (\<exists>(u, p, b)\<in>set (registrations (removeClient t pio (cl_list s))).
          unat p = 32 * (unat pio div 32) + n)))" by blast
qed

text \<open>
  Every change of a pin is reported, once: when the firmware reports the levels of a bank,
  every task gets as many \<open>MESSAGE_PIO_CHANGED\<close> messages, with the contents of the report, as it has pins
  registered whose level differs from the last one it was told, and no other message; afterwards the monitor
  has the levels of the report for the pins of the bank and the old levels of the other pins.
\<close>
lemma pio_changes_reported:
  assumes "pm_clients_ok (cl_list s)"
  shows "\<exists>s'. pioHandler now addr MESSAGE_PIO_CHANGED mpc s = Some s' \<and> pm_clients_ok (cl_list s')
    \<and> registrations (cl_list s') = map (\<lambda>(t, p, b). (t, p, new_level mpc p b)) (registrations (cl_list s))
    \<and> (\<forall>u. posted_data u (pm_vm s') = posted_data u (pm_vm s)
        + replicate_mset (length (filter (\<lambda>(t, p, b). t = u \<and> new_level mpc p b \<noteq> b) (registrations (cl_list s))))
            (MESSAGE_PIO_CHANGED, Some (addr, App (Pio_changed mpc))))"
proof -
  obtain cs q where "changed_clients mpc now addr (cl_list s) (pm_vm s) = Some (cs, q)" "pm_clients_ok cs"
    "registrations cs = map (\<lambda>(t, p, b). (t, p, new_level mpc p b)) (registrations (cl_list s))"
    "\<forall>u. posted_data u q = posted_data u (pm_vm s) + replicate_mset (length
        (filter (\<lambda>(t, p, b). t = u \<and> new_level mpc p b \<noteq> b) (registrations (cl_list s)))) (pio_message addr mpc)"
    using changed_clients_done [OF assms, of mpc now addr "pm_vm s"] by blast
  then show ?thesis
    by (intro exI [of _ "s\<lparr>cl_list := cs, pm_vm := q\<rparr>"]) (simp add: pioHandler_def handleMessagePioChangedClients_def)
qed

text \<open>Two tasks: one with pins 1, 40 and 70, one with pin 1.\<close>

definition demo_clients :: "pio_monitor_client list" where
  "demo_clients = [\<lparr>cl_task = 5, states = 0b101, numPios = 3, pios = [1, 40, 70] @ replicate 6 EMPTY_PIO\<rparr>,
     \<lparr>cl_task = 6, states = 1, numPios = 1, pios = 1 # replicate 8 EMPTY_PIO\<rparr>]"

definition demo_monitor :: "unit pio_monitor_state" where
  "demo_monitor = \<lparr>pm_task = 4, cl_list = demo_clients, debounce_reads = 4, debounce_period = 5, pm_enabled = True,
     pm_vm = \<lparr>vm_message_queue = [], vm_delivered_messages = [], sched_event_pending = False, put_message_ok = True,
       registered_hdlrs = [], sink_source_hdlrs = [], run_timer = None\<rparr>, pm_debounced = []\<rparr>"

lemma demo_clients_ok: "pm_clients_ok demo_clients" "registered_once demo_clients"
    "registrations demo_clients = [(5, 1, True), (5, 40, False), (5, 70, True), (6, 1, True)]"
proof -
  have "\<not> bit (0b101 :: u16) i" if "3 \<le> i" for i
  proof -
    have "(0b101 :: u16) = 0b101 AND mask 3" by (simp add: mask_eq_exp_minus_1)
    then have "bit (0b101 :: u16) i \<longleftrightarrow> bit (0b101 AND mask 3 :: u16) i" by metis
    with that show ?thesis by (simp add: bit_simps)
  qed
  moreover have "\<not> bit (1 :: u16) i" if "1 \<le> i" for i using that by (simp add: bit_1_iff)
  ultimately show "pm_clients_ok demo_clients"
    by (simp add: demo_clients_def client_ok_def MAX_PIOS_PER_TASK_def)
  show r: "registrations demo_clients = [(5, 1, True), (5, 40, False), (5, 70, True), (6, 1, True)]"
    by (simp add: demo_clients_def client_view_def upt_rec)
  then show "registered_once demo_clients" by (simp add: registered_once_def)
qed

theorem pio_registrations_refine_witness:
  "registrations (removeClient 5 40 demo_clients) = [(5, 1, True), (5, 70, True), (6, 1, True)]
   \<and> (\<exists>s'. PioMonitorRegisterTask (\<lambda>_. 2 ^ 9) 5 41 demo_monitor = Some s'
     \<and> mset (registrations (cl_list s')) = add_mset (5, 41, True) (mset (registrations demo_clients)))"
proof -
  have "pio_level (\<lambda>_. 2 ^ 9) 41"
    by (simp add: pio_level_def PioCommonPioMask_def PIOS_PER_BANK_def)
  then show ?thesis
    using pio_registrations_refine [of demo_monitor "\<lambda>_. 2 ^ 9" 5 41] pio_registrations_refine [of demo_monitor "\<lambda>_. 0" 5 40]
    by (auto simp: demo_monitor_def demo_clients_ok)
qed

lemma pio_changes_reported_witness:
  "\<exists>s'. pioHandler 0 100 MESSAGE_PIO_CHANGED \<lparr>mpc_state = 0, mpc_time = 7, mpc_state16to31 = 0, mpc_bank = 0\<rparr> demo_monitor = Some s'
     \<and> registrations (cl_list s') = [(5, 1, False), (5, 40, False), (5, 70, True), (6, 1, False)]
     \<and> size (posted_data 5 (pm_vm s')) = 1 \<and> size (posted_data 6 (pm_vm s')) = 1 \<and> posted_data 7 (pm_vm s') = {#}"
proof -
  let ?m = "\<lparr>mpc_state = 0, mpc_time = 7, mpc_state16to31 = 0, mpc_bank = 0\<rparr>"
  have l: "new_level ?m 1 True = False" "new_level ?m 40 False = False" "new_level ?m 70 True = True"
    by (simp_all add: new_level_def PioMonitorIsPioInMessage_def PioCommonPioBank_def PIOS_PER_BANK_def)
  have d: "cl_list demo_monitor = demo_clients" "\<And>u. posted_data u (pm_vm demo_monitor) = {#}"
    by (simp_all add: demo_monitor_def posted_data_def)
  have "pm_clients_ok (cl_list demo_monitor)" by (simp add: d demo_clients_ok)
  from pio_changes_reported [OF this, of 0 100 ?m] show ?thesis
    by (auto simp: d demo_clients_ok l)
qed

text \<open>
  Enabling the monitor writes outside its array of masks when a pin behind the last bank is registered
  (\<open>PioMonitorRegisterTask\<close> does not check the pin).
\<close>

lemma enable_with_invalid_pin:
  assumes "p \<in> set (client_pios c)" "c \<in> set (cl_list s)" "unat p \<ge> PIOM_NUM_PIOS"
  shows "PioMonitorEnable now s = None"
proof -
  have "p \<in> set (concat (map client_pios (cl_list s)))" using assms(1,2) by auto
  then have "all_masks (concat (map client_pios (cl_list s))) (replicate PIOM_NUM_BANKS 0) = None"
    using all_masks_done [of "replicate PIOM_NUM_BANKS 0" "concat (map client_pios (cl_list s))"] assms(3)
    by (metis length_replicate linorder_not_le)
  then show ?thesis by (simp add: PioMonitorEnable_def enableClients_def updateAllDebounced_def)
qed

text \<open>A task with more than nine pins has two entries and is told twice that the monitor is enabled.\<close>

lemma send_enable_done:
  "\<exists>q'. send_enable now cs q = Some q' \<and> (\<forall>u. posted_data u q' = posted_data u q
     + replicate_mset (length (filter (\<lambda>c. cl_task c = u) cs)) (PIO_MONITOR_ENABLE_CFM, None))"
proof (induction cs arbitrary: q)
  case (Cons c cs)
  obtain q1 where q1: "MessageSend now (cl_task c) PIO_MONITOR_ENABLE_CFM None q = Some q1"
    "\<forall>u. posted_data u q1 = (if u = cl_task c then add_mset (PIO_MONITOR_ENABLE_CFM, None) (posted_data u q) else posted_data u q)"
    using message_send_one [OF pio_ids_not_combinable(2)] by blast
  from Cons.IH [of q1] q1 show ?case by auto
qed simp

lemma enabled_once_per_entry:
  assumes "\<forall>c\<in>set (cl_list s). \<forall>p\<in>set (client_pios c). unat p < PIOM_NUM_PIOS"
  shows "\<exists>s'. PioMonitorEnable now s = Some s' \<and> (\<forall>u. posted_data u (pm_vm s') = posted_data u (pm_vm s)
     + replicate_mset (length (filter (\<lambda>c. cl_task c = u) (cl_list s))) (PIO_MONITOR_ENABLE_CFM, None))"
proof -
  have bounce: "cl_list (fold (\<lambda>bank. setPioBounce bank (f bank)) bs s0) = cl_list s0
      \<and> pm_vm (fold (\<lambda>bank. setPioBounce bank (f bank)) bs s0) = pm_vm s0" for f bs and s0 :: "'a pio_monitor_state"
    by (induction bs arbitrary: s0) (simp_all add: setPioBounce_def)
  obtain masks where m: "all_masks (concat (map client_pios (cl_list s))) (replicate PIOM_NUM_BANKS 0) = Some masks"
    using all_masks_done [of "replicate PIOM_NUM_BANKS 0" "concat (map client_pios (cl_list s))"] assms by auto
  obtain q where "send_enable now (cl_list s) (pm_vm s) = Some q" "\<forall>u. posted_data u q = posted_data u (pm_vm s)
     + replicate_mset (length (filter (\<lambda>c. cl_task c = u) (cl_list s))) (PIO_MONITOR_ENABLE_CFM, None)"
    using send_enable_done by blast
  then show ?thesis using m bounce by (auto simp: PioMonitorEnable_def enableClients_def updateAllDebounced_def)
qed

end
