(* ===== verification/InputEvents.thy ===== *)
theory InputEvents
  imports PioMonitor
begin

text \<open>
  The input event manager, \<open>libs/input_event_manager/input_event_manager.c\<close>. It maps pins to input
  events, and a table of actions turns their changes into messages for its clients: at the press or
  the release of a combination of events (\<open>ENTER\<close>, \<open>RELEASE\<close>), after it has been held for a while
  (\<open>HELD\<close>), at the release after it has been held (\<open>HELD_RELEASE\<close>), or after a number of clicks
  (\<open>MULTI_CLICK\<close>). A pointer to an action is its index in the table, and a timer message carries such a
  pointer. The state contains the pin monitor and with it the scheduler. The clock, the addresses of the allocated
  messages, the levels of the pins and the results of the pin driver are arguments. Accesses outside an array,
  shifts by more than the width and panics are \<open>None\<close>.
\<close>

section \<open>Data\<close>

datatype InputEventAction = ENTER | HELD | RELEASE | HELD_RELEASE | MULTI_CLICK

record InputActionMessage =
  ia_bits :: u32
  ia_mask :: u32
  ia_action :: InputEventAction
  ia_timeout :: u16
  ia_repeat :: u16
  ia_count :: u16
  ia_message :: message_id

record InputEventConfig =
  pio_to_iem_id :: "8 word list"
  pio_input_mask :: "u32 list"
  cfg_debounce_reads :: u16
  cfg_debounce_period :: u16

datatype input_event_multiclick_states = IEM_STATE_MULTICLICK_IDLE | IEM_STATE_MULTICLICK_COUNTING

record InputMultiClickState =
  input_event_mask :: u32
  mc_state :: input_event_multiclick_states
  n_clicks :: u16

datatype pio_call = Pio_map nat u32 | Pio_deep_sleep nat u32 | Pio_input nat u32

record InputEventState =
  iem_task :: task
  client_tasks :: task_list
  action_table :: "InputActionMessage list"
  num_action_messages :: u32
  multi_click_state :: InputMultiClickState
  input_event_bits :: u32
  repeat_action :: "nat option"
  held_release :: "nat option"
  input_config :: InputEventConfig
  pio_state :: "u32 list"
  numActivePios :: u16
  maxActivePios :: u16
  iem_monitor :: "nat pio_monitor_state"
  iem_pio_calls :: "pio_call list"

definition NUMBER_OF_PIO_BANKS :: nat where "NUMBER_OF_PIO_BANKS = (80 + PIOS_PER_BANK - 1) div PIOS_PER_BANK"
definition IEM_NUM_PIOS :: nat where "IEM_NUM_PIOS = NUMBER_OF_PIO_BANKS * PIOS_PER_BANK"
definition MULTI_CLICK_TIMEOUT :: u32 where "MULTI_CLICK_TIMEOUT = 500"
definition IEM_INTERNAL_HELD_TIMER :: message_id where "IEM_INTERNAL_HELD_TIMER = 0"
definition IEM_INTERNAL_REPEAT_TIMER :: message_id where "IEM_INTERNAL_REPEAT_TIMER = 1"
definition IEM_INTERNAL_HELD_RELEASE_TIMER :: message_id where "IEM_INTERNAL_HELD_RELEASE_TIMER = 2"
definition IEM_INTERNAL_MULTI_CLICK_TIMER :: message_id where "IEM_INTERNAL_MULTI_CLICK_TIMER = 3"

text \<open>The scheduler, messages of the manager to itself and to its clients.\<close>

definition iem_vm :: "InputEventState \<Rightarrow> nat pio_payload vm" where "iem_vm s = pm_vm (iem_monitor s)"

definition with_iem_vm :: "nat pio_payload vm \<Rightarrow> InputEventState \<Rightarrow> InputEventState" where
  "with_iem_vm q s = s\<lparr>iem_monitor := (iem_monitor s)\<lparr>pm_vm := q\<rparr>\<rparr>"

definition iem_send_later ::
  "u32 \<Rightarrow> message_id \<Rightarrow> nat pio_payload msg_data option \<Rightarrow> u32 \<Rightarrow> InputEventState \<Rightarrow> InputEventState option" where
  "iem_send_later now i m d s = map_option (\<lambda>q. with_iem_vm q s) (MessageSendLater now (iem_task s) i m d (iem_vm s))"

definition iem_cancel_all :: "message_id \<Rightarrow> InputEventState \<Rightarrow> (u16 \<times> InputEventState) option" where
  "iem_cancel_all i s = map_option (\<lambda>(n, q). (n, with_iem_vm q s)) (MessageCancelAll (iem_task s) i (iem_vm s))"

definition iem_cancel :: "message_id \<Rightarrow> InputEventState \<Rightarrow> InputEventState option" where
  "iem_cancel i s = map_option snd (iem_cancel_all i s)"

definition iem_send_clients :: "u32 \<Rightarrow> message_id \<Rightarrow> InputEventState \<Rightarrow> InputEventState option" where
  "iem_send_clients now i s =
     map_option (\<lambda>q. with_iem_vm q s) (TaskList_MessageSendWithSize now (client_tasks s) i None 0 (iem_vm s))"

definition action_at :: "InputEventState \<Rightarrow> nat \<Rightarrow> InputActionMessage option" where
  "action_at s i = (if i < length (action_table s) then Some (action_table s ! i) else None)"

definition pointer_to :: "nat \<Rightarrow> nat \<Rightarrow> nat pio_payload msg_data option" where
  "pointer_to addr i = Some (addr, App (Own i))"

section \<open>Presses and releases\<close>

definition getPreviousBitState :: "InputEventState \<Rightarrow> InputActionMessage \<Rightarrow> bool" where
  "getPreviousBitState state a = (ia_bits a = input_event_bits state AND ia_mask a)"

definition actionIsPress :: "u32 \<Rightarrow> InputActionMessage \<Rightarrow> bool" where
  "actionIsPress bits a = (ia_bits a = bits AND ia_mask a)"

definition actionIsRelease :: "InputEventState \<Rightarrow> InputActionMessage \<Rightarrow> u32 \<Rightarrow> bool" where
  "actionIsRelease state a bits = (getPreviousBitState state a \<and> \<not> actionIsPress bits a)"

definition enterAction :: "u32 \<Rightarrow> nat \<Rightarrow> InputActionMessage \<Rightarrow> u32 \<Rightarrow> InputEventState \<Rightarrow> InputEventState option" where
  "enterAction now i a bits state =
     (if actionIsPress bits a then
        do {
          state \<leftarrow> iem_cancel IEM_INTERNAL_REPEAT_TIMER state;
          state \<leftarrow> iem_send_clients now (ia_message a) state;
          if ia_repeat a \<noteq> 0
          then iem_send_later now IEM_INTERNAL_REPEAT_TIMER None (ucast (ia_repeat a)) (state\<lparr>repeat_action := Some i\<rparr>)
          else Some (state\<lparr>repeat_action := None\<rparr>)
        }
      else if ia_repeat a \<noteq> 0 \<and> repeat_action state = Some i \<and> actionIsRelease state a bits then
        do {
          state \<leftarrow> iem_cancel IEM_INTERNAL_REPEAT_TIMER state;
          Some (state\<lparr>repeat_action := None\<rparr>)
        }
      else Some state)"

definition releaseAction :: "u32 \<Rightarrow> InputActionMessage \<Rightarrow> u32 \<Rightarrow> InputEventState \<Rightarrow> InputEventState option" where
  "releaseAction now a bits state =
     (if actionIsRelease state a bits then iem_send_clients now (ia_message a) state else Some state)"

definition heldActionButtonDownAction ::
  "u32 \<Rightarrow> nat \<Rightarrow> nat \<Rightarrow> InputActionMessage \<Rightarrow> InputEventState \<Rightarrow> InputEventState option" where
  "heldActionButtonDownAction now addr i a state =
     iem_send_later now IEM_INTERNAL_HELD_TIMER (pointer_to addr i) (ucast (ia_timeout a)) state"

definition heldActionButtonReleaseAction :: "InputEventState \<Rightarrow> InputEventState option" where
  "heldActionButtonReleaseAction state =
     do {
       (n, state) \<leftarrow> iem_cancel_all IEM_INTERNAL_HELD_TIMER state;
       if n = 0 then iem_cancel IEM_INTERNAL_REPEAT_TIMER state else Some state
     }"

definition heldAction ::
  "u32 \<Rightarrow> nat \<Rightarrow> nat \<Rightarrow> InputActionMessage \<Rightarrow> u32 \<Rightarrow> InputEventState \<Rightarrow> InputEventState option" where
  "heldAction now addr i a bits state =
     (if actionIsPress bits a then heldActionButtonDownAction now addr i a state
      else if actionIsRelease state a bits then heldActionButtonReleaseAction state
      else Some state)"

definition heldReleaseButtonDownAction ::
  "u32 \<Rightarrow> nat \<Rightarrow> nat \<Rightarrow> InputActionMessage \<Rightarrow> InputEventState \<Rightarrow> InputEventState option" where
  "heldReleaseButtonDownAction now addr i a state =
     do {
       state \<leftarrow> iem_send_later now IEM_INTERNAL_HELD_RELEASE_TIMER (pointer_to addr i) (ucast (ia_timeout a)) state;
       Some (state\<lparr>held_release := None\<rparr>)
     }"

definition heldReleaseButtonReleaseAction ::
  "u32 \<Rightarrow> nat \<Rightarrow> InputActionMessage \<Rightarrow> InputEventState \<Rightarrow> InputEventState option" where
  "heldReleaseButtonReleaseAction now i a state =
     do {
       state \<leftarrow> iem_cancel IEM_INTERNAL_HELD_RELEASE_TIMER state;
       if held_release state = Some i
       then iem_send_clients now (ia_message a) (state\<lparr>held_release := None\<rparr>)
       else Some state
     }"

definition heldReleaseAction ::
  "u32 \<Rightarrow> nat \<Rightarrow> nat \<Rightarrow> InputActionMessage \<Rightarrow> u32 \<Rightarrow> InputEventState \<Rightarrow> InputEventState option" where
  "heldReleaseAction now addr i a bits state =
     (if actionIsPress bits a then heldReleaseButtonDownAction now addr i a state
      else if actionIsRelease state a bits then heldReleaseButtonReleaseAction now i a state
      else Some state)"

section \<open>Clicks\<close>

definition multi_click_idle :: InputMultiClickState where
  "multi_click_idle = \<lparr>input_event_mask = 0, mc_state = IEM_STATE_MULTICLICK_IDLE, n_clicks = 0\<rparr>"

definition multiClickEnd :: "InputEventState \<Rightarrow> InputEventState option" where
  "multiClickEnd state =
     do {
       state \<leftarrow> iem_cancel IEM_INTERNAL_MULTI_CLICK_TIMER state;
       Some (state\<lparr>multi_click_state := multi_click_idle\<rparr>)
     }"

definition multiClickReStartTimer :: "u32 \<Rightarrow> nat \<Rightarrow> nat \<Rightarrow> InputEventState \<Rightarrow> InputEventState option" where
  "multiClickReStartTimer now addr i state =
     do {
       state \<leftarrow> iem_cancel IEM_INTERNAL_MULTI_CLICK_TIMER state;
       iem_send_later now IEM_INTERNAL_MULTI_CLICK_TIMER (pointer_to addr i) MULTI_CLICK_TIMEOUT state
     }"

definition multiClickCount :: "InputEventState \<Rightarrow> InputEventState" where
  "multiClickCount state =
     state\<lparr>multi_click_state := (multi_click_state state)\<lparr>n_clicks := n_clicks (multi_click_state state) + 1\<rparr>\<rparr>"

definition multiClickStart ::
  "u32 \<Rightarrow> nat \<Rightarrow> nat \<Rightarrow> InputActionMessage \<Rightarrow> InputEventState \<Rightarrow> InputEventState option" where
  "multiClickStart now addr i a state =
     do {
       state \<leftarrow> iem_cancel IEM_INTERNAL_MULTI_CLICK_TIMER state;
       multiClickReStartTimer now addr i (state\<lparr>multi_click_state :=
         \<lparr>input_event_mask = ia_mask a, mc_state = IEM_STATE_MULTICLICK_COUNTING, n_clicks = 0\<rparr>\<rparr>)
     }"

definition multiClickAction ::
  "u32 \<Rightarrow> nat \<Rightarrow> nat \<Rightarrow> InputActionMessage \<Rightarrow> u32 \<Rightarrow> InputEventState \<Rightarrow> InputEventState option" where
  "multiClickAction now addr i a bits state =
     (case mc_state (multi_click_state state) of
        IEM_STATE_MULTICLICK_IDLE \<Rightarrow>
          if actionIsPress bits a then multiClickStart now addr i a state else Some state
      | IEM_STATE_MULTICLICK_COUNTING \<Rightarrow>
          if actionIsPress bits a then
            (if input_event_mask (multi_click_state state) \<noteq> ia_mask a
             then multiClickStart now addr i a state else multiClickReStartTimer now addr i state)
          else if actionIsRelease state a bits then
            (if input_event_mask (multi_click_state state) = ia_mask a
             then Some (multiClickCount state) else Some state)
          else Some state)"

section \<open>Changes of the input events\<close>

definition perform_action ::
  "u32 \<Rightarrow> nat \<Rightarrow> u32 \<Rightarrow> nat \<Rightarrow> InputActionMessage \<Rightarrow> bool \<Rightarrow> InputEventState \<Rightarrow> (bool \<times> InputEventState) option" where
  "perform_action now addr bits i a flag_multiclick_processed state =
     (case ia_action a of
        ENTER \<Rightarrow> map_option (Pair flag_multiclick_processed) (enterAction now i a bits state)
      | RELEASE \<Rightarrow> map_option (Pair flag_multiclick_processed) (releaseAction now a bits state)
      | MULTI_CLICK \<Rightarrow>
          if \<not> flag_multiclick_processed then map_option (Pair True) (multiClickAction now addr i a bits state)
          else Some (flag_multiclick_processed, state)
      | HELD \<Rightarrow> map_option (Pair flag_multiclick_processed) (heldAction now addr i a bits state)
      | HELD_RELEASE \<Rightarrow> map_option (Pair flag_multiclick_processed) (heldReleaseAction now addr i a bits state))"

fun action_loop ::
  "u32 \<Rightarrow> nat \<Rightarrow> u32 \<Rightarrow> u32 \<Rightarrow> nat list \<Rightarrow> bool \<Rightarrow> InputEventState \<Rightarrow> InputEventState option" where
  "action_loop now addr bits changed_bits [] flag state = Some state"
| "action_loop now addr bits changed_bits (i # is) flag state =
     do {
       a \<leftarrow> action_at state i;
       (flag, state) \<leftarrow> (if changed_bits AND ia_mask a \<noteq> 0 then perform_action now addr bits i a flag state
                          else Some (flag, state));
       action_loop now addr bits changed_bits is flag state
     }"

definition inputEventsChanged :: "u32 \<Rightarrow> nat \<Rightarrow> u32 \<Rightarrow> InputEventState \<Rightarrow> InputEventState option" where
  "inputEventsChanged now addr bits state =
     do {
       state \<leftarrow> action_loop now addr bits (input_event_bits state XOR bits) [0 ..< unat (num_action_messages state)]
         False state;
       Some (state\<lparr>input_event_bits := bits\<rparr>)
     }"

text \<open>The events of the pins that are set. A shift by a negative number or by 32 and more is undefined.\<close>

fun bank_events :: "8 word list \<Rightarrow> u32 \<Rightarrow> nat \<Rightarrow> nat list \<Rightarrow> u32 \<Rightarrow> u32 option" where
  "bank_events ids bank_state pio_base [] events = Some events"
| "bank_events ids bank_state pio_base (pio # ps) events =
     (if bank_state AND push_bit pio 1 \<noteq> 0 then
        if pio_base + pio < length ids \<and> 0 \<le> sint (ids ! (pio_base + pio)) \<and> sint (ids ! (pio_base + pio)) < 32 then
          bank_events ids bank_state pio_base ps (events OR push_bit (nat (sint (ids ! (pio_base + pio)))) 1)
        else None
      else bank_events ids bank_state pio_base ps events)"

fun bank_loop :: "8 word list \<Rightarrow> u32 list \<Rightarrow> nat list \<Rightarrow> u32 \<Rightarrow> u32 option" where
  "bank_loop ids levels [] events = Some events"
| "bank_loop ids levels (bank # banks) events =
     (if bank < length levels then
        do { events \<leftarrow> bank_events ids (levels ! bank) (bank * 32) [0 ..< 32] events; bank_loop ids levels banks events }
      else None)"

definition calculateInputEvents :: "InputEventState \<Rightarrow> u32 option" where
  "calculateInputEvents state =
     bank_loop (pio_to_iem_id (input_config state)) (pio_state state) [0 ..< NUMBER_OF_PIO_BANKS] 0"

definition handleMessagePioChangedEvents ::
  "u32 \<Rightarrow> nat \<Rightarrow> message_pio_changed \<Rightarrow> InputEventState \<Rightarrow> InputEventState option" where
  "handleMessagePioChangedEvents now addr mpc state =
     (let levels = ucast (mpc_state mpc) + push_bit 16 (ucast (mpc_state16to31 mpc)) :: u32; bank = unat (mpc_bank mpc)
      in if bank < length (pio_input_mask (input_config state)) \<and> bank < length (pio_state state) then
           (let masked = levels AND pio_input_mask (input_config state) ! bank
            in if pio_state state ! bank \<noteq> masked then
                 do {
                   let state = state\<lparr>pio_state := (pio_state state)[bank := masked]\<rparr>;
                   bits \<leftarrow> calculateInputEvents state;
                   inputEventsChanged now addr bits state
                 }
               else Some state)
         else None)"

fun initial_banks ::
  "u32 \<Rightarrow> nat \<Rightarrow> (nat \<Rightarrow> u32) \<Rightarrow> nat list \<Rightarrow> InputEventState \<Rightarrow> InputEventState option" where
  "initial_banks now addr PioGet32Bank [] state = Some state"
| "initial_banks now addr PioGet32Bank (bank # banks) state =
     do {
       let levels = PioGet32Bank bank;
       state \<leftarrow> handleMessagePioChangedEvents now addr
         \<lparr>mpc_state = ucast (levels AND 0xFFFF), mpc_time = 0, mpc_state16to31 = ucast (drop_bit 16 levels AND 0xFFFF),
          mpc_bank = of_nat bank\<rparr> state;
       initial_banks now addr PioGet32Bank banks state
     }"

definition waitForEnableConfirmation ::
  "u32 \<Rightarrow> nat \<Rightarrow> (nat \<Rightarrow> u32) \<Rightarrow> InputEventState \<Rightarrow> InputEventState option" where
  "waitForEnableConfirmation now addr PioGet32Bank state =
     (let state = state\<lparr>numActivePios := numActivePios state + 1\<rparr>
      in if numActivePios state = maxActivePios state
         then initial_banks now addr PioGet32Bank [0 ..< NUMBER_OF_PIO_BANKS] state else Some state)"

section \<open>The handler\<close>

text \<open>The action a timer message points to.\<close>

definition message_action :: "nat pio_payload msg_data option \<Rightarrow> nat option" where
  "message_action m = (case m of Some (_, App (Own i)) \<Rightarrow> Some i | _ \<Rightarrow> None)"

definition held_timer :: "u32 \<Rightarrow> nat \<Rightarrow> InputEventState \<Rightarrow> InputEventState option" where
  "held_timer now i state =
     do {
       a \<leftarrow> action_at state i;
       state \<leftarrow> multiClickEnd state;
       state \<leftarrow> iem_send_clients now (ia_message a) state;
       state \<leftarrow> iem_cancel IEM_INTERNAL_REPEAT_TIMER state;
       if ia_repeat a \<noteq> 0 then
         do {
           state \<leftarrow> iem_send_later now IEM_INTERNAL_REPEAT_TIMER None (ucast (ia_repeat a)) state;
           Some (state\<lparr>repeat_action := Some i\<rparr>)
         }
       else Some state
     }"

definition repeat_timer :: "u32 \<Rightarrow> InputEventState \<Rightarrow> InputEventState option" where
  "repeat_timer now state =
     (case repeat_action state of
        None \<Rightarrow> Some state
      | Some i \<Rightarrow>
          do {
            a \<leftarrow> action_at state i;
            state \<leftarrow> iem_send_clients now (ia_message a) state;
            iem_send_later now IEM_INTERNAL_REPEAT_TIMER None (ucast (ia_repeat a)) state
          })"

definition held_release_timer :: "nat \<Rightarrow> InputEventState \<Rightarrow> InputEventState option" where
  "held_release_timer i state = multiClickEnd (state\<lparr>held_release := Some i\<rparr>)"

fun click_loop :: "u32 \<Rightarrow> InputActionMessage \<Rightarrow> nat list \<Rightarrow> InputEventState \<Rightarrow> InputEventState option" where
  "click_loop now input_action [] state = Some state"
| "click_loop now input_action (i # is) state =
     do {
       a \<leftarrow> action_at state i;
       state \<leftarrow> (if ia_action a = MULTI_CLICK \<and> ia_count a = n_clicks (multi_click_state state)
                    \<and> ia_bits a = ia_bits input_action \<and> ia_mask a = ia_mask input_action
                 then iem_send_clients now (ia_message a) state else Some state);
       click_loop now input_action is state
     }"

definition multi_click_timer :: "u32 \<Rightarrow> nat \<Rightarrow> InputEventState \<Rightarrow> InputEventState option" where
  "multi_click_timer now i state =
     do {
       a \<leftarrow> action_at state i;
       if input_event_bits state = ia_mask a then Some state
       else do {
         state \<leftarrow> click_loop now a [0 ..< unat (num_action_messages state)] state;
         multiClickEnd state
       }
     }"

definition iemHandler ::
  "u32 \<Rightarrow> nat \<Rightarrow> (nat \<Rightarrow> u32) \<Rightarrow> message_id \<Rightarrow> nat pio_payload msg_data option
   \<Rightarrow> InputEventState \<Rightarrow> InputEventState option" where
  "iemHandler now addr PioGet32Bank mid message state =
     (if mid = MESSAGE_PIO_CHANGED then
        (case message of
           Some (_, App (Pio_changed mpc)) \<Rightarrow> handleMessagePioChangedEvents now addr mpc state
         | _ \<Rightarrow> None)
      else if mid = PIO_MONITOR_ENABLE_CFM then waitForEnableConfirmation now addr PioGet32Bank state
      else if mid = IEM_INTERNAL_HELD_TIMER then
        do { i \<leftarrow> message_action message; held_timer now i state }
      else if mid = IEM_INTERNAL_REPEAT_TIMER then repeat_timer now state
      else if mid = IEM_INTERNAL_HELD_RELEASE_TIMER then
        do { i \<leftarrow> message_action message; held_release_timer i state }
      else if mid = IEM_INTERNAL_MULTI_CLICK_TIMER then
        do { i \<leftarrow> message_action message; multi_click_timer now i state }
      else Some state)"

section \<open>The interface\<close>

definition log_pio :: "pio_call \<Rightarrow> InputEventState \<Rightarrow> InputEventState" where
  "log_pio c s = s\<lparr>iem_pio_calls := iem_pio_calls s @ [c]\<rparr>"

fun configure_banks :: "(nat \<Rightarrow> u32) \<Rightarrow> (nat \<Rightarrow> u32) \<Rightarrow> nat list \<Rightarrow> InputEventState \<Rightarrow> InputEventState option" where
  "configure_banks PioSetMapPins32Bank PioSetDir32Bank [] state = Some state"
| "configure_banks PioSetMapPins32Bank PioSetDir32Bank (bank # banks) state =
     (if bank < length (pio_input_mask (input_config state)) then
        do {
          let m = pio_input_mask (input_config state) ! bank;
          PanicFalse (PioSetMapPins32Bank bank = 0);
          PanicFalse (PioSetDir32Bank bank = 0);
          configure_banks PioSetMapPins32Bank PioSetDir32Bank banks
            (log_pio (Pio_input bank m) (log_pio (Pio_deep_sleep bank m) (log_pio (Pio_map bank m) state)))
        }
      else None)"

definition configurePioHardware :: "(nat \<Rightarrow> u32) \<Rightarrow> (nat \<Rightarrow> u32) \<Rightarrow> InputEventState \<Rightarrow> InputEventState option" where
  "configurePioHardware PioSetMapPins32Bank PioSetDir32Bank state =
     configure_banks PioSetMapPins32Bank PioSetDir32Bank [0 ..< NUMBER_OF_PIO_BANKS] state"

fun register_pins :: "(nat \<Rightarrow> u32) \<Rightarrow> nat list \<Rightarrow> InputEventState \<Rightarrow> InputEventState option" where
  "register_pins PioGet32Bank [] state = Some state"
| "register_pins PioGet32Bank (pio # ps) state =
     (if pio < length (pio_to_iem_id (input_config state)) then
        do {
          state \<leftarrow> (if pio_to_iem_id (input_config state) ! pio \<noteq> -1
            then map_option (\<lambda>m. state\<lparr>iem_monitor := m\<rparr>)
              (PioMonitorRegisterTask PioGet32Bank (iem_task state) (of_nat pio) (iem_monitor state))
            else Some state);
          register_pins PioGet32Bank ps state
        }
      else None)"

definition registerForPioEvents :: "(nat \<Rightarrow> u32) \<Rightarrow> InputEventState \<Rightarrow> InputEventState option" where
  "registerForPioEvents PioGet32Bank state =
     do {
       state \<leftarrow> register_pins PioGet32Bank [0 ..< IEM_NUM_PIOS] state;
       Some (state\<lparr>maxActivePios := 1\<rparr>)
     }"

definition InputEventManager_RegisterClient :: "task \<Rightarrow> InputEventState \<Rightarrow> InputEventState option" where
  "InputEventManager_RegisterClient client state =
     map_option (\<lambda>(_, l). state\<lparr>client_tasks := l\<rparr>) (TaskList_AddTask (client_tasks state) client)"

definition InputEventManagerInit ::
  "(nat \<Rightarrow> u32) \<Rightarrow> (nat \<Rightarrow> u32) \<Rightarrow> (nat \<Rightarrow> u32) \<Rightarrow> task \<Rightarrow> InputActionMessage list \<Rightarrow> u32 \<Rightarrow> InputEventConfig
   \<Rightarrow> InputEventState \<Rightarrow> (task \<times> InputEventState) option" where
  "InputEventManagerInit PioGet32Bank PioSetMapPins32Bank PioSetDir32Bank client actions action_table_dim config state =
     do {
       l \<leftarrow> TaskList_Create;
       (_, l) \<leftarrow> TaskList_AddTask l client;
       let state = state\<lparr>client_tasks := l, action_table := actions, num_action_messages := action_table_dim,
         multi_click_state := multi_click_idle, input_event_bits := 0, repeat_action := None, held_release := None,
         input_config := config, pio_state := replicate NUMBER_OF_PIO_BANKS 0, numActivePios := 0, maxActivePios := 0\<rparr>;
       state \<leftarrow> configurePioHardware PioSetMapPins32Bank PioSetDir32Bank state;
       state \<leftarrow> registerForPioEvents PioGet32Bank state;
       let state = state\<lparr>iem_monitor := PioMonitorSetDebounceParameters (cfg_debounce_period config)
         (cfg_debounce_reads config) (iem_monitor state)\<rparr>;
       Some (iem_task state, state)
     }"

section \<open>Timers and messages to the clients\<close>

definition timers :: "InputEventState \<Rightarrow> message_id \<Rightarrow> nat pio_payload msg_data option multiset" where
  "timers s i = md.with_id (iem_task s) i (iem_vm s)"

definition iem_ok :: "InputEventState \<Rightarrow> bool" where
  "iem_ok s = (iem_task s \<noteq> INVALIDATED_TASK \<and> unat (num_action_messages s) = length (action_table s)
     \<and> tl_valid (client_tasks s) \<and> length (tl_members (client_tasks s)) \<le> 14 \<and> iem_task s \<notin> set (tl_members (client_tasks s)))"

text \<open>
  A change of the scheduler by the manager: which timers are pending afterwards, and which messages every
  client has got.
\<close>

definition vm_moved ::
  "InputEventState \<Rightarrow> nat pio_payload vm \<Rightarrow> (message_id \<Rightarrow> nat pio_payload msg_data option multiset) \<Rightarrow> message_id list \<Rightarrow> bool" where
  "vm_moved s q T ms = ((\<forall>i. md.with_id (iem_task s) i q = T i)
     \<and> (\<forall>u. u \<noteq> iem_task s \<and> u \<noteq> INVALIDATED_TASK \<longrightarrow> posted_data u q = posted_data u (iem_vm s)
          + (if u \<in> set (tl_members (client_tasks s)) then mset (map (\<lambda>m. (m, None)) ms) else {#})))"

lemma with_iem_vm_simps [simp]:
  "iem_vm (with_iem_vm q s) = q" "iem_task (with_iem_vm q s) = iem_task s" "client_tasks (with_iem_vm q s) = client_tasks s"
  "action_table (with_iem_vm q s) = action_table s" "num_action_messages (with_iem_vm q s) = num_action_messages s"
  "multi_click_state (with_iem_vm q s) = multi_click_state s" "input_event_bits (with_iem_vm q s) = input_event_bits s"
  "repeat_action (with_iem_vm q s) = repeat_action s" "held_release (with_iem_vm q s) = held_release s"
  "input_config (with_iem_vm q s) = input_config s" "pio_state (with_iem_vm q s) = pio_state s"
  "numActivePios (with_iem_vm q s) = numActivePios s" "maxActivePios (with_iem_vm q s) = maxActivePios s"
  "with_iem_vm q (with_iem_vm q' s) = with_iem_vm q s" "with_iem_vm (iem_vm s) s = s"
  by (simp_all add: iem_vm_def with_iem_vm_def)

lemma iem_vm_simps [simp]:
  "iem_vm (s\<lparr>repeat_action := r\<rparr>) = iem_vm s" "iem_vm (s\<lparr>held_release := h\<rparr>) = iem_vm s"
  "iem_vm (s\<lparr>multi_click_state := m\<rparr>) = iem_vm s" "iem_vm (s\<lparr>input_event_bits := b\<rparr>) = iem_vm s"
  "iem_vm (s\<lparr>pio_state := p\<rparr>) = iem_vm s" "iem_vm (s\<lparr>numActivePios := n\<rparr>) = iem_vm s"
  "with_iem_vm q (s\<lparr>repeat_action := r\<rparr>) = (with_iem_vm q s)\<lparr>repeat_action := r\<rparr>"
  "with_iem_vm q (s\<lparr>held_release := h\<rparr>) = (with_iem_vm q s)\<lparr>held_release := h\<rparr>"
  "with_iem_vm q (s\<lparr>multi_click_state := m\<rparr>) = (with_iem_vm q s)\<lparr>multi_click_state := m\<rparr>"
  by (simp_all add: iem_vm_def with_iem_vm_def)

lemma vm_moved_timers: "vm_moved s q T ms \<Longrightarrow> iem_task s' = iem_task s \<Longrightarrow> iem_vm s' = q \<Longrightarrow> timers s' = T"
  by (auto simp: vm_moved_def timers_def)

lemma vm_moved_refl: "vm_moved s (iem_vm s) (timers s) []"
  by (simp add: vm_moved_def timers_def)

lemma vm_moved_trans:
  assumes "vm_moved s q T ms" "vm_moved s' q' T' ms'" "iem_task s' = iem_task s" "client_tasks s' = client_tasks s" "iem_vm s' = q"
  shows "vm_moved s q' T' (ms @ ms')"
  using assms by (simp add: vm_moved_def)

lemma internal_ids:
  "IEM_INTERNAL_HELD_TIMER = 0" "IEM_INTERNAL_REPEAT_TIMER = 1" "IEM_INTERNAL_HELD_RELEASE_TIMER = 2"
  "IEM_INTERNAL_MULTI_CLICK_TIMER = 3"
  by (simp_all add: IEM_INTERNAL_HELD_TIMER_def IEM_INTERNAL_REPEAT_TIMER_def IEM_INTERNAL_HELD_RELEASE_TIMER_def
      IEM_INTERNAL_MULTI_CLICK_TIMER_def)

lemma internal_ids_not_combinable:
  "\<not> combinable IEM_INTERNAL_HELD_TIMER" "\<not> combinable IEM_INTERNAL_REPEAT_TIMER"
  "\<not> combinable IEM_INTERNAL_HELD_RELEASE_TIMER" "\<not> combinable IEM_INTERNAL_MULTI_CLICK_TIMER"
  by (simp_all add: internal_ids combinable_def system_message_ids)

lemma moved_send:
  assumes "\<not> combinable i"
  shows "\<exists>q. iem_send_later now i m d s = Some (with_iem_vm q s)
    \<and> vm_moved s q ((timers s)(i := add_mset m (timers s i))) []"
proof -
  obtain q where q: "data_send (now, d) (iem_task s) i m (iem_vm s) = Some q"
    "\<forall>u. posted_data u q = (if u = iem_task s then add_mset (i, m) (posted_data u (iem_vm s)) else posted_data u (iem_vm s))"
    using send_later_data [OF assms] by blast
  then show ?thesis
    using md.with_id_send [of i "(now, d)" "iem_task s" m "iem_vm s" q] assms
    by (intro exI [of _ q]) (auto simp: iem_send_later_def data_send_def vm_moved_def timers_def)
qed

lemma moved_cancel_all:
  assumes "iem_task s \<noteq> INVALIDATED_TASK"
  shows "\<exists>n q. iem_cancel_all i s = Some (n, with_iem_vm q s) \<and> vm_moved s q ((timers s)(i := {#})) []"
proof -
  obtain q where q: "mb_cancel (iem_task s) i (iem_vm s) = Some q"
    "\<forall>u\<in>{t. t \<noteq> INVALIDATED_TASK}. posted_data u q = (if u = iem_task s
       then filter_mset (\<lambda>p. fst p \<noteq> i) (posted_data u (iem_vm s)) else posted_data u (iem_vm s))"
    using cancel_data [OF assms] by blast
  then obtain n where "MessageCancelAll (iem_task s) i (iem_vm s) = Some (n, q)" by (auto simp: mb_cancel_def)
  then show ?thesis
    using q md.with_id_cancel [of "iem_task s" "iem_task s" i "iem_vm s" q] assms
    by (intro exI [of _ n] exI [of _ q]) (auto simp: iem_cancel_all_def vm_moved_def timers_def)
qed

lemma moved_cancel:
  assumes "iem_task s \<noteq> INVALIDATED_TASK"
  shows "\<exists>q. iem_cancel i s = Some (with_iem_vm q s) \<and> vm_moved s q ((timers s)(i := {#})) []"
  using moved_cancel_all [OF assms, of i] by (auto simp: iem_cancel_def)

lemma moved_clients:
  assumes "iem_ok s"
  shows "\<exists>q. iem_send_clients now i s = Some (with_iem_vm q s) \<and> vm_moved s q (timers s) [i]"
proof -
  obtain ds where "tl_repr (client_tasks s) (tl_members (client_tasks s)) ds" "tasks_ok (tl_members (client_tasks s))"
    using assms by (auto simp: iem_ok_def tl_valid_def)
  then obtain q where "TaskList_MessageSendLaterWithSize now (client_tasks s) i None 0 D_IMMEDIATE (iem_vm s) = Some q"
    "\<forall>u. posted_data u q = (if u \<in> set (tl_members (client_tasks s)) then add_mset (i, None) (posted_data u (iem_vm s))
       else posted_data u (iem_vm s))"
    using message_send_data [of "client_tasks s" "tl_members (client_tasks s)" ds 0 None now i D_IMMEDIATE "iem_vm s"] assms
    by (auto simp: iem_ok_def)
  then show ?thesis
    using assms by (intro exI [of _ q])
      (auto simp: iem_send_clients_def TaskList_MessageSendWithSize_def vm_moved_def timers_def iem_ok_def md.with_id_def)
qed

lemma moved_restart:
  assumes "iem_task s \<noteq> INVALIDATED_TASK"
  shows "\<exists>q. multiClickReStartTimer now addr i s = Some (with_iem_vm q s)
    \<and> vm_moved s q ((timers s)(IEM_INTERNAL_MULTI_CLICK_TIMER := {#pointer_to addr i#})) []"
proof -
  let ?T = "(timers s)(IEM_INTERNAL_MULTI_CLICK_TIMER := {#})"
  obtain q where q: "iem_cancel IEM_INTERNAL_MULTI_CLICK_TIMER s = Some (with_iem_vm q s)" "vm_moved s q ?T []"
    using moved_cancel [OF assms] by blast
  then have T: "timers (with_iem_vm q s) = ?T" by (intro vm_moved_timers) simp_all
  obtain q' where "iem_send_later now IEM_INTERNAL_MULTI_CLICK_TIMER (pointer_to addr i) MULTI_CLICK_TIMEOUT (with_iem_vm q s)
      = Some (with_iem_vm q' s)"
    "vm_moved (with_iem_vm q s) q' ((timers s)(IEM_INTERNAL_MULTI_CLICK_TIMER := {#pointer_to addr i#})) []"
    using moved_send [OF internal_ids_not_combinable(4), of now _ _ "with_iem_vm q s"] by (auto simp: T)
  then show ?thesis
    using q vm_moved_trans [OF q(2)] by (auto simp: multiClickReStartTimer_def)
qed

section \<open>The invariant\<close>

text \<open>
  Timers of one kind: each one is for an action of that kind that is pressed (\<open>P\<close>), and no action has two.
\<close>

definition pressed_timers ::
  "InputActionMessage list \<Rightarrow> InputEventAction \<Rightarrow> (nat \<Rightarrow> bool) \<Rightarrow> nat pio_payload msg_data option multiset \<Rightarrow> bool" where
  "pressed_timers tab k P T = ((\<forall>x\<in>#T. \<exists>i. message_action x = Some i \<and> i < length tab \<and> ia_action (tab ! i) = k \<and> P i)
     \<and> (\<forall>i. size (filter_mset (\<lambda>x. message_action x = Some i) T) \<le> 1))"

definition clicks_ok ::
  "InputActionMessage list \<Rightarrow> InputMultiClickState \<Rightarrow> nat pio_payload msg_data option multiset \<Rightarrow> bool" where
  "clicks_ok tab m T = (case mc_state m of
       IEM_STATE_MULTICLICK_IDLE \<Rightarrow> m = multi_click_idle \<and> T = {#}
     | IEM_STATE_MULTICLICK_COUNTING \<Rightarrow> size T \<le> 1 \<and> (\<forall>x\<in>#T. \<exists>i. message_action x = Some i \<and> i < length tab
         \<and> ia_action (tab ! i) = MULTI_CLICK \<and> ia_mask (tab ! i) = input_event_mask m))"

definition timers_inv ::
  "InputActionMessage list \<Rightarrow> (nat \<Rightarrow> bool) \<Rightarrow> (message_id \<Rightarrow> nat pio_payload msg_data option multiset)
   \<Rightarrow> nat option \<Rightarrow> nat option \<Rightarrow> InputMultiClickState \<Rightarrow> bool" where
  "timers_inv tab P T r h m = (pressed_timers tab HELD P (T IEM_INTERNAL_HELD_TIMER)
     \<and> pressed_timers tab HELD_RELEASE P (T IEM_INTERNAL_HELD_RELEASE_TIMER)
     \<and> (\<forall>i. h = Some i \<longrightarrow> i < length tab \<and> ia_action (tab ! i) = HELD_RELEASE \<and> P i)
     \<and> size (T IEM_INTERNAL_REPEAT_TIMER) \<le> 1
     \<and> (T IEM_INTERNAL_REPEAT_TIMER \<noteq> {#} \<longrightarrow> r \<noteq> None) \<and> (\<forall>i. r = Some i \<longrightarrow> i < length tab)
     \<and> clicks_ok tab m (T IEM_INTERNAL_MULTI_CLICK_TIMER))"

definition inv_at :: "(nat \<Rightarrow> bool) \<Rightarrow> InputEventState \<Rightarrow> bool" where
  "inv_at P s = timers_inv (action_table s) P (timers s) (repeat_action s) (held_release s) (multi_click_state s)"

lemma pressed_timers_simps [simp]: "pressed_timers tab k P {#}"
  by (simp add: pressed_timers_def)

lemma pressed_timers_add:
  assumes "pressed_timers tab k P T" "\<not> P i" "message_action x = Some i" "i < length tab" "ia_action (tab ! i) = k"
  shows "pressed_timers tab k (P(i := True)) (add_mset x T)"
proof -
  have "filter_mset (\<lambda>x. message_action x = Some i) T = {#}"
    using assms(1,2) by (auto simp: pressed_timers_def)
  then show ?thesis using assms by (auto simp: pressed_timers_def)
qed

lemma pressed_timers_other:
  assumes "pressed_timers tab k P T" "ia_action (tab ! i) = k \<Longrightarrow> P i \<Longrightarrow> b"
  shows "pressed_timers tab k (P(i := b)) T"
  using assms by (fastforce simp: pressed_timers_def)

lemma clicks_ok_idle [simp]: "clicks_ok tab multi_click_idle {#}"
  by (simp add: clicks_ok_def multi_click_idle_def)

lemma message_action_pointer [simp]: "message_action (pointer_to addr i) = Some i"
  by (simp add: message_action_def pointer_to_def)

section \<open>What an action does\<close>

definition reports :: "InputEventState \<Rightarrow> nat option \<Rightarrow> u32 \<Rightarrow> nat \<Rightarrow> InputActionMessage \<Rightarrow> bool" where
  "reports s h b i a = (case ia_action a of
       ENTER \<Rightarrow> actionIsPress b a
     | RELEASE \<Rightarrow> actionIsRelease s a b
     | HELD_RELEASE \<Rightarrow> actionIsRelease s a b \<and> h = Some i
     | _ \<Rightarrow> False)"

definition held_release_after :: "nat option \<Rightarrow> InputEventState \<Rightarrow> u32 \<Rightarrow> nat \<Rightarrow> InputActionMessage \<Rightarrow> nat option" where
  "held_release_after h s b i a =
     (if ia_action a = HELD_RELEASE \<and> (actionIsPress b a \<or> actionIsRelease s a b \<and> h = Some i) then None else h)"

text \<open>The counting of clicks, without the scheduler.\<close>

definition click_step ::
  "nat \<Rightarrow> nat \<Rightarrow> InputActionMessage \<Rightarrow> bool \<Rightarrow> bool \<Rightarrow> InputMultiClickState \<times> nat pio_payload msg_data option multiset
   \<Rightarrow> InputMultiClickState \<times> nat pio_payload msg_data option multiset" where
  "click_step addr i a press release mT =
     (let (m, T) = mT; start = (\<lparr>input_event_mask = ia_mask a, mc_state = IEM_STATE_MULTICLICK_COUNTING, n_clicks = 0\<rparr>,
        {#pointer_to addr i#})
      in if press then
           (if mc_state m = IEM_STATE_MULTICLICK_COUNTING \<and> input_event_mask m = ia_mask a
            then (m, {#pointer_to addr i#}) else start)
         else if release \<and> mc_state m = IEM_STATE_MULTICLICK_COUNTING \<and> input_event_mask m = ia_mask a
         then (m\<lparr>n_clicks := n_clicks m + 1\<rparr>, T) else (m, T))"

lemma multiClickStart_done:
  assumes "iem_task s \<noteq> INVALIDATED_TASK"
  shows "\<exists>q. multiClickStart now addr i a s = Some ((with_iem_vm q s)\<lparr>multi_click_state :=
      \<lparr>input_event_mask = ia_mask a, mc_state = IEM_STATE_MULTICLICK_COUNTING, n_clicks = 0\<rparr>\<rparr>)
    \<and> vm_moved s q ((timers s)(IEM_INTERNAL_MULTI_CLICK_TIMER := {#pointer_to addr i#})) []"
proof -
  let ?m = "\<lparr>input_event_mask = ia_mask a, mc_state = IEM_STATE_MULTICLICK_COUNTING, n_clicks = 0\<rparr>"
  obtain q1 where q1: "iem_cancel IEM_INTERNAL_MULTI_CLICK_TIMER s = Some (with_iem_vm q1 s)"
    "vm_moved s q1 ((timers s)(IEM_INTERNAL_MULTI_CLICK_TIMER := {#})) []"
    using moved_cancel [OF assms] by blast
  let ?s = "(with_iem_vm q1 s)\<lparr>multi_click_state := ?m\<rparr>"
  have T: "timers ?s = (timers s)(IEM_INTERNAL_MULTI_CLICK_TIMER := {#})"
    by (rule vm_moved_timers [OF q1(2)]) simp_all
  obtain q where q: "multiClickReStartTimer now addr i ?s = Some (with_iem_vm q ?s)"
    "vm_moved ?s q ((timers s)(IEM_INTERNAL_MULTI_CLICK_TIMER := {#pointer_to addr i#})) []"
    using moved_restart [of ?s now addr i] assms by (auto simp: T)
  show ?thesis
    using q1 q vm_moved_trans [OF q1(2) q(2)] by (auto simp: multiClickStart_def)
qed

lemma multiClickAction_done:
  assumes "iem_task s \<noteq> INVALIDATED_TASK"
  shows "\<exists>q T m. multiClickAction now addr i a b s = Some ((with_iem_vm q s)\<lparr>multi_click_state := m\<rparr>)
    \<and> (m, T) = click_step addr i a (actionIsPress b a) (actionIsRelease s a b)
        (multi_click_state s, timers s IEM_INTERNAL_MULTI_CLICK_TIMER)
    \<and> vm_moved s q ((timers s)(IEM_INTERNAL_MULTI_CLICK_TIMER := T)) []"
proof -
  have keep: "with_iem_vm (iem_vm s) s\<lparr>multi_click_state := multi_click_state s\<rparr> = s"
    "vm_moved s (iem_vm s) ((timers s)(i := timers s i)) []" for i
    using vm_moved_refl by simp_all
  obtain q1 where q1: "multiClickReStartTimer now addr i s = Some (with_iem_vm q1 s)"
    "vm_moved s q1 ((timers s)(IEM_INTERNAL_MULTI_CLICK_TIMER := {#pointer_to addr i#})) []"
    using moved_restart [OF assms] by blast
  obtain q2 where q2: "multiClickStart now addr i a s = Some ((with_iem_vm q2 s)\<lparr>multi_click_state :=
      \<lparr>input_event_mask = ia_mask a, mc_state = IEM_STATE_MULTICLICK_COUNTING, n_clicks = 0\<rparr>\<rparr>)"
    "vm_moved s q2 ((timers s)(IEM_INTERNAL_MULTI_CLICK_TIMER := {#pointer_to addr i#})) []"
    using multiClickStart_done [OF assms] by blast
  consider (restart) "actionIsPress b a" "mc_state (multi_click_state s) = IEM_STATE_MULTICLICK_COUNTING"
      "input_event_mask (multi_click_state s) = ia_mask a"
    | (start) "actionIsPress b a" "\<not> (mc_state (multi_click_state s) = IEM_STATE_MULTICLICK_COUNTING
        \<and> input_event_mask (multi_click_state s) = ia_mask a)"
    | (count) "\<not> actionIsPress b a" "actionIsRelease s a b" "mc_state (multi_click_state s) = IEM_STATE_MULTICLICK_COUNTING"
      "input_event_mask (multi_click_state s) = ia_mask a"
    | (none) "\<not> actionIsPress b a" "\<not> (actionIsRelease s a b \<and> mc_state (multi_click_state s) = IEM_STATE_MULTICLICK_COUNTING
        \<and> input_event_mask (multi_click_state s) = ia_mask a)" by blast
  then show ?thesis
  proof cases
    case restart
    then show ?thesis using q1
      by (intro exI [of _ q1] exI [of _ "{#pointer_to addr i#}"] exI [of _ "multi_click_state s"])
        (simp add: multiClickAction_def click_step_def)
  next
    case start
    then show ?thesis using q2
      by (intro exI [of _ q2] exI [of _ "{#pointer_to addr i#}"]
          exI [of _ "\<lparr>input_event_mask = ia_mask a, mc_state = IEM_STATE_MULTICLICK_COUNTING, n_clicks = 0\<rparr>"])
        (auto simp: multiClickAction_def click_step_def split: input_event_multiclick_states.splits)
  next
    case count
    then show ?thesis using keep
      by (intro exI [of _ "iem_vm s"] exI [of _ "timers s IEM_INTERNAL_MULTI_CLICK_TIMER"]
          exI [of _ "(multi_click_state s)\<lparr>n_clicks := n_clicks (multi_click_state s) + 1\<rparr>"])
        (simp add: multiClickAction_def click_step_def multiClickCount_def)
  next
    case none
    then show ?thesis using keep
      by (intro exI [of _ "iem_vm s"] exI [of _ "timers s IEM_INTERNAL_MULTI_CLICK_TIMER"] exI [of _ "multi_click_state s"])
        (auto simp: multiClickAction_def click_step_def split: input_event_multiclick_states.splits)
  qed
qed

lemma press_excludes:
  assumes "(b0 XOR b) AND ia_mask a \<noteq> 0" "actionIsPress b0 a"
  shows "\<not> actionIsPress b a"
proof
  assume "actionIsPress b a"
  with assms(2) have "b0 AND ia_mask a = b AND ia_mask a" by (simp add: actionIsPress_def)
  moreover have "(b0 XOR b) AND ia_mask a = (b0 AND ia_mask a) XOR (b AND ia_mask a)"
    by (rule bit_eqI) (auto simp: bit_simps)
  ultimately show False using assms(1) by simp
qed

lemma timers_inv_other:
  assumes "timers_inv tab P T r h m" "ia_action (tab ! i) \<noteq> HELD" "ia_action (tab ! i) \<noteq> HELD_RELEASE"
  shows "timers_inv tab (P(i := b)) T r h m"
  using assms by (auto simp: timers_inv_def intro!: pressed_timers_other)

lemma enterAction_done:
  assumes "iem_ok s" "i < length (action_table s)" "inv_at P s" "ia_action (action_table s ! i) = ENTER"
  defines "a \<equiv> action_table s ! i"
  shows "\<exists>q T r. enterAction now i a b s = Some ((with_iem_vm q s)\<lparr>repeat_action := r\<rparr>)
    \<and> vm_moved s q T (if actionIsPress b a then [ia_message a] else [])
    \<and> timers_inv (action_table s) (P(i := p)) T r (held_release s) (multi_click_state s)
    \<and> T IEM_INTERNAL_MULTI_CLICK_TIMER = timers s IEM_INTERNAL_MULTI_CLICK_TIMER"
proof -
  have inv: "timers_inv (action_table s) (P(i := p)) (timers s) (repeat_action s) (held_release s) (multi_click_state s)"
    using assms(3,4) timers_inv_other by (auto simp: inv_at_def)
  have t: "iem_task s \<noteq> INVALIDATED_TASK" using assms(1) by (simp add: iem_ok_def)
  obtain q1 where q1: "iem_cancel IEM_INTERNAL_REPEAT_TIMER s = Some (with_iem_vm q1 s)"
    "vm_moved s q1 ((timers s)(IEM_INTERNAL_REPEAT_TIMER := {#})) []" using moved_cancel [OF t] by blast
  have t1: "timers (with_iem_vm q1 s) = (timers s)(IEM_INTERNAL_REPEAT_TIMER := {#})"
    by (rule vm_moved_timers [OF q1(2)]) simp_all
  show ?thesis
  proof (cases "actionIsPress b a")
    case True
    obtain q2 where q2: "iem_send_clients now (ia_message a) (with_iem_vm q1 s) = Some (with_iem_vm q2 s)"
      "vm_moved (with_iem_vm q1 s) q2 ((timers s)(IEM_INTERNAL_REPEAT_TIMER := {#})) [ia_message a]"
      using moved_clients [of "with_iem_vm q1 s" now "ia_message a"] assms(1) by (auto simp: iem_ok_def t1)
    have m2: "vm_moved s q2 ((timers s)(IEM_INTERNAL_REPEAT_TIMER := {#})) [ia_message a]"
      using vm_moved_trans [OF q1(2) q2(2)] by simp
    show ?thesis
    proof (cases "ia_repeat a \<noteq> 0")
      case True
      let ?s = "(with_iem_vm q2 s)\<lparr>repeat_action := Some i\<rparr>" and ?T = "(timers s)(IEM_INTERNAL_REPEAT_TIMER := {#None#})"
      have t2: "timers ?s = (timers s)(IEM_INTERNAL_REPEAT_TIMER := {#})" by (rule vm_moved_timers [OF m2]) simp_all
      obtain q where q: "iem_send_later now IEM_INTERNAL_REPEAT_TIMER None (ucast (ia_repeat a)) ?s = Some (with_iem_vm q ?s)"
        "vm_moved ?s q ?T []"
        using moved_send [OF internal_ids_not_combinable(2), of now None _ ?s] by (auto simp: t2)
      have "timers_inv (action_table s) (P(i := p)) ?T (Some i) (held_release s) (multi_click_state s)"
        using inv assms(2) by (simp add: timers_inv_def internal_ids)
      then show ?thesis
        using q1 q2 q vm_moved_trans [OF m2 q(2)] True \<open>actionIsPress b a\<close>
        by (intro exI [of _ q] exI [of _ ?T] exI [of _ "Some i"]) (simp add: enterAction_def internal_ids)
    next
      case False
      have "timers_inv (action_table s) (P(i := p)) ((timers s)(IEM_INTERNAL_REPEAT_TIMER := {#})) None (held_release s) (multi_click_state s)"
        using inv by (simp add: timers_inv_def internal_ids)
      then show ?thesis
        using q1 q2 m2 False \<open>actionIsPress b a\<close>
        by (intro exI [of _ q2] exI [of _ "(timers s)(IEM_INTERNAL_REPEAT_TIMER := {#})"] exI [of _ None])
          (simp add: enterAction_def internal_ids)
    qed
  next
    case np: False
    show ?thesis
    proof (cases "ia_repeat a \<noteq> 0 \<and> repeat_action s = Some i \<and> actionIsRelease s a b")
      case True
      have "timers_inv (action_table s) (P(i := p)) ((timers s)(IEM_INTERNAL_REPEAT_TIMER := {#})) None (held_release s) (multi_click_state s)"
        using inv by (simp add: timers_inv_def internal_ids)
      then show ?thesis
        using q1 True np
        by (intro exI [of _ q1] exI [of _ "(timers s)(IEM_INTERNAL_REPEAT_TIMER := {#})"] exI [of _ None])
          (simp add: enterAction_def internal_ids)
    next
      case False
      then show ?thesis
        using inv np vm_moved_refl
        by (intro exI [of _ "iem_vm s"] exI [of _ "timers s"] exI [of _ "repeat_action s"]) (auto simp: enterAction_def)
    qed
  qed
qed

lemma heldAction_done:
  assumes "iem_ok s" "i < length (action_table s)" "inv_at P s" "ia_action (action_table s ! i) = HELD"
    "(input_event_bits s XOR b) AND ia_mask (action_table s ! i) \<noteq> 0"
    "P i = actionIsPress (input_event_bits s) (action_table s ! i)"
  defines "a \<equiv> action_table s ! i"
  shows "\<exists>q T. heldAction now addr i a b s = Some (with_iem_vm q s) \<and> vm_moved s q T []
    \<and> timers_inv (action_table s) (P(i := actionIsPress b a)) T (repeat_action s) (held_release s) (multi_click_state s)
    \<and> T IEM_INTERNAL_MULTI_CLICK_TIMER = timers s IEM_INTERNAL_MULTI_CLICK_TIMER"
proof -
  have inv: "timers_inv (action_table s) P (timers s) (repeat_action s) (held_release s) (multi_click_state s)"
    using assms(3) by (simp add: inv_at_def)
  have t: "iem_task s \<noteq> INVALIDATED_TASK" using assms(1) by (simp add: iem_ok_def)
  have hr: "pressed_timers (action_table s) HELD_RELEASE (P(i := x)) (timers s IEM_INTERNAL_HELD_RELEASE_TIMER)" for x
    using inv assms(4) by (intro pressed_timers_other) (simp_all add: timers_inv_def)
  have other: "timers_inv (action_table s) (P(i := x)) T (repeat_action s) (held_release s) (multi_click_state s)"
    if "pressed_timers (action_table s) HELD (P(i := x)) (T IEM_INTERNAL_HELD_TIMER)"
      "\<forall>j. j \<noteq> IEM_INTERNAL_HELD_TIMER \<longrightarrow> T j = timers s j \<or> j = IEM_INTERNAL_REPEAT_TIMER \<and> T j = {#}" for x T
    using that inv hr [of x] assms(4) that(2) [rule_format, of IEM_INTERNAL_REPEAT_TIMER]
      that(2) [rule_format, of IEM_INTERNAL_HELD_RELEASE_TIMER] that(2) [rule_format, of IEM_INTERNAL_MULTI_CLICK_TIMER]
    by (auto simp: timers_inv_def internal_ids)
  show ?thesis
  proof (cases "actionIsPress b a")
    case True
    obtain q where q: "iem_send_later now IEM_INTERNAL_HELD_TIMER (pointer_to addr i) (ucast (ia_timeout a)) s = Some (with_iem_vm q s)"
      "vm_moved s q ((timers s)(IEM_INTERNAL_HELD_TIMER := add_mset (pointer_to addr i) (timers s IEM_INTERNAL_HELD_TIMER))) []"
      using moved_send [OF internal_ids_not_combinable(1)] by blast
    have "\<not> P i" using press_excludes [OF assms(5)] assms(6) True by (auto simp: a_def)
    then have "pressed_timers (action_table s) HELD (P(i := True)) (add_mset (pointer_to addr i) (timers s IEM_INTERNAL_HELD_TIMER))"
      using inv assms(2,4) by (intro pressed_timers_add) (simp_all add: timers_inv_def)
    then show ?thesis
      using q True other [of True "(timers s)(IEM_INTERNAL_HELD_TIMER := add_mset (pointer_to addr i) (timers s IEM_INTERNAL_HELD_TIMER))"]
      by (intro exI [of _ q] exI [of _ "(timers s)(IEM_INTERNAL_HELD_TIMER := add_mset (pointer_to addr i) (timers s IEM_INTERNAL_HELD_TIMER))"])
        (simp add: heldAction_def heldActionButtonDownAction_def internal_ids)
  next
    case np: False
    show ?thesis
    proof (cases "actionIsRelease s a b")
      case True
      obtain n q1 where q1: "iem_cancel_all IEM_INTERNAL_HELD_TIMER s = Some (n, with_iem_vm q1 s)"
        "vm_moved s q1 ((timers s)(IEM_INTERNAL_HELD_TIMER := {#})) []" using moved_cancel_all [OF t] by blast
      have t1: "timers (with_iem_vm q1 s) = (timers s)(IEM_INTERNAL_HELD_TIMER := {#})"
        by (rule vm_moved_timers [OF q1(2)]) simp_all
      obtain q2 where q2: "iem_cancel IEM_INTERNAL_REPEAT_TIMER (with_iem_vm q1 s) = Some (with_iem_vm q2 s)"
        "vm_moved (with_iem_vm q1 s) q2 ((timers s)(IEM_INTERNAL_HELD_TIMER := {#}, IEM_INTERNAL_REPEAT_TIMER := {#})) []"
        using moved_cancel [of "with_iem_vm q1 s" IEM_INTERNAL_REPEAT_TIMER] t by (auto simp: t1)
      show ?thesis
      proof (cases "n = 0")
        case True
        then show ?thesis
          using np \<open>actionIsRelease s a b\<close> q1 q2 vm_moved_trans [OF q1(2) q2(2)]
            other [of False "(timers s)(IEM_INTERNAL_HELD_TIMER := {#}, IEM_INTERNAL_REPEAT_TIMER := {#})"]
          by (intro exI [of _ q2] exI [of _ "(timers s)(IEM_INTERNAL_HELD_TIMER := {#}, IEM_INTERNAL_REPEAT_TIMER := {#})"])
            (simp add: heldAction_def heldActionButtonReleaseAction_def internal_ids)
      next
        case False
        then show ?thesis
          using np \<open>actionIsRelease s a b\<close> q1 other [of False "(timers s)(IEM_INTERNAL_HELD_TIMER := {#})"]
          by (intro exI [of _ q1] exI [of _ "(timers s)(IEM_INTERNAL_HELD_TIMER := {#})"])
            (simp add: heldAction_def heldActionButtonReleaseAction_def internal_ids)
      qed
    next
      case False
      then have "\<not> P i" using np assms(6) by (auto simp: actionIsRelease_def getPreviousBitState_def actionIsPress_def a_def)
      then have "P(i := False) = P" by (simp add: fun_upd_idem)
      then show ?thesis
        using np False inv vm_moved_refl
        by (intro exI [of _ "iem_vm s"] exI [of _ "timers s"]) (simp add: heldAction_def)
    qed
  qed
qed

lemma heldReleaseAction_done:
  assumes "iem_ok s" "i < length (action_table s)" "inv_at P s" "ia_action (action_table s ! i) = HELD_RELEASE"
    "(input_event_bits s XOR b) AND ia_mask (action_table s ! i) \<noteq> 0"
    "P i = actionIsPress (input_event_bits s) (action_table s ! i)"
  defines "a \<equiv> action_table s ! i"
  defines "h \<equiv> held_release_after (held_release s) s b i a"
  shows "\<exists>q T. heldReleaseAction now addr i a b s = Some ((with_iem_vm q s)\<lparr>held_release := h\<rparr>)
    \<and> vm_moved s q T (if actionIsRelease s a b \<and> held_release s = Some i then [ia_message a] else [])
    \<and> timers_inv (action_table s) (P(i := actionIsPress b a)) T (repeat_action s) h (multi_click_state s)
    \<and> T IEM_INTERNAL_MULTI_CLICK_TIMER = timers s IEM_INTERNAL_MULTI_CLICK_TIMER"
proof -
  have inv: "timers_inv (action_table s) P (timers s) (repeat_action s) (held_release s) (multi_click_state s)"
    using assms(3) by (simp add: inv_at_def)
  have t: "iem_task s \<noteq> INVALIDATED_TASK" using assms(1) by (simp add: iem_ok_def)
  have hd: "pressed_timers (action_table s) HELD (P(i := x)) (timers s IEM_INTERNAL_HELD_TIMER)" for x
    using inv assms(4) by (intro pressed_timers_other) (simp_all add: timers_inv_def)
  have other: "timers_inv (action_table s) (P(i := x)) ((timers s)(IEM_INTERNAL_HELD_RELEASE_TIMER := T))
      (repeat_action s) h' (multi_click_state s)"
    if "pressed_timers (action_table s) HELD_RELEASE (P(i := x)) T" "h' = None \<or> h' = held_release s \<and> h' \<noteq> Some i" for x T h'
    using that inv hd [of x] assms(4) by (auto simp: timers_inv_def internal_ids)
  show ?thesis
  proof (cases "actionIsPress b a")
    case True
    let ?T = "add_mset (pointer_to addr i) (timers s IEM_INTERNAL_HELD_RELEASE_TIMER)"
    obtain q where q: "iem_send_later now IEM_INTERNAL_HELD_RELEASE_TIMER (pointer_to addr i) (ucast (ia_timeout a)) s
        = Some (with_iem_vm q s)" "vm_moved s q ((timers s)(IEM_INTERNAL_HELD_RELEASE_TIMER := ?T)) []"
      using moved_send [OF internal_ids_not_combinable(3)] by blast
    have "\<not> P i" using press_excludes [OF assms(5)] assms(6) True by (auto simp: a_def)
    then have "pressed_timers (action_table s) HELD_RELEASE (P(i := True)) ?T"
      using inv assms(2,4) by (intro pressed_timers_add) (simp_all add: timers_inv_def)
    moreover have "h = None" "\<not> actionIsRelease s a b"
      using True assms(4) by (simp_all add: h_def held_release_after_def a_def actionIsRelease_def)
    ultimately show ?thesis
      using q True other [of True ?T h] by (intro exI [of _ q] exI [of _ "(timers s)(IEM_INTERNAL_HELD_RELEASE_TIMER := ?T)"])
        (simp add: heldReleaseAction_def heldReleaseButtonDownAction_def internal_ids)
  next
    case np: False
    show ?thesis
    proof (cases "actionIsRelease s a b")
      case True
      let ?T = "(timers s)(IEM_INTERNAL_HELD_RELEASE_TIMER := {#})"
      obtain q1 where q1: "iem_cancel IEM_INTERNAL_HELD_RELEASE_TIMER s = Some (with_iem_vm q1 s)" "vm_moved s q1 ?T []"
        using moved_cancel [OF t] by blast
      let ?s = "(with_iem_vm q1 s)\<lparr>held_release := None\<rparr>"
      have t1: "timers ?s = ?T" by (rule vm_moved_timers [OF q1(2)]) simp_all
      obtain q2 where q2: "iem_send_clients now (ia_message a) ?s = Some (with_iem_vm q2 ?s)" "vm_moved ?s q2 ?T [ia_message a]"
        using moved_clients [of ?s now "ia_message a"] assms(1) by (auto simp: iem_ok_def t1)
      show ?thesis
      proof (cases "held_release s = Some i")
        case True
        then have "h = None" using \<open>actionIsRelease s a b\<close> assms(4) by (simp add: h_def held_release_after_def a_def)
        then show ?thesis
          using True np \<open>actionIsRelease s a b\<close> q1 q2 vm_moved_trans [OF q1(2) q2(2)] other [of False "{#}" None]
          by (intro exI [of _ q2] exI [of _ ?T])
            (simp add: heldReleaseAction_def heldReleaseButtonReleaseAction_def internal_ids)
      next
        case False
        then have "h = held_release s" using np by (simp add: h_def held_release_after_def)
        then show ?thesis
          using False np \<open>actionIsRelease s a b\<close> q1 other [of False "{#}" h]
          by (intro exI [of _ q1] exI [of _ ?T])
            (simp add: heldReleaseAction_def heldReleaseButtonReleaseAction_def internal_ids)
      qed
    next
      case False
      then have "\<not> P i" using np assms(6) by (auto simp: actionIsRelease_def getPreviousBitState_def actionIsPress_def a_def)
      then have "P(i := False) = P" by (simp add: fun_upd_idem)
      moreover have "h = held_release s" using np False by (simp add: h_def held_release_after_def)
      ultimately show ?thesis
        using np False inv vm_moved_refl
        by (intro exI [of _ "iem_vm s"] exI [of _ "timers s"]) (simp add: heldReleaseAction_def)
    qed
  qed
qed

lemma clicks_ok_step:
  assumes "clicks_ok tab m T" "i < length tab" "ia_action (tab ! i) = MULTI_CLICK"
    "click_step addr i (tab ! i) p r (m, T) = (m', T')"
  shows "clicks_ok tab m' T'"
  using assms by (auto simp: clicks_ok_def click_step_def split: if_splits input_event_multiclick_states.splits)

lemma perform_action_done:
  assumes "iem_ok s" "i < length (action_table s)" "inv_at P s"
    "(input_event_bits s XOR b) AND ia_mask (action_table s ! i) \<noteq> 0"
    "P i = actionIsPress (input_event_bits s) (action_table s ! i)"
  defines "a \<equiv> action_table s ! i"
  defines "h \<equiv> held_release_after (held_release s) s b i a"
  shows "\<exists>q T r m. perform_action now addr b i a flag s = Some (flag \<or> ia_action a = MULTI_CLICK,
      (with_iem_vm q s)\<lparr>repeat_action := r, held_release := h, multi_click_state := m\<rparr>)
    \<and> vm_moved s q T (if reports s (held_release s) b i a then [ia_message a] else [])
    \<and> timers_inv (action_table s) (P(i := actionIsPress b a)) T r h m
    \<and> (m, T IEM_INTERNAL_MULTI_CLICK_TIMER) = (if ia_action a = MULTI_CLICK \<and> \<not> flag
        then click_step addr i a (actionIsPress b a) (actionIsRelease s a b)
          (multi_click_state s, timers s IEM_INTERNAL_MULTI_CLICK_TIMER)
        else (multi_click_state s, timers s IEM_INTERNAL_MULTI_CLICK_TIMER))"
proof -
  have inv: "timers_inv (action_table s) P (timers s) (repeat_action s) (held_release s) (multi_click_state s)"
    using assms(3) by (simp add: inv_at_def)
  have t: "iem_task s \<noteq> INVALIDATED_TASK" using assms(1) by (simp add: iem_ok_def)
  have same: "x\<lparr>repeat_action := repeat_action x\<rparr> = x" "x\<lparr>held_release := held_release x\<rparr> = x"
    "x\<lparr>multi_click_state := multi_click_state x\<rparr> = x" for x :: InputEventState by simp_all
  show ?thesis
  proof (cases "ia_action a")
    case ENTER
    then have h: "h = held_release s" by (simp add: h_def held_release_after_def)
    obtain q T r where "enterAction now i a b s = Some ((with_iem_vm q s)\<lparr>repeat_action := r\<rparr>)"
      "vm_moved s q T (if actionIsPress b a then [ia_message a] else [])"
      "timers_inv (action_table s) (P(i := actionIsPress b a)) T r (held_release s) (multi_click_state s)"
      "T IEM_INTERNAL_MULTI_CLICK_TIMER = timers s IEM_INTERNAL_MULTI_CLICK_TIMER"
      using enterAction_done [OF assms(1-3), of now b "actionIsPress b a"] ENTER unfolding a_def by blast
    then show ?thesis
      using ENTER h by (intro exI [of _ q] exI [of _ T] exI [of _ r] exI [of _ "multi_click_state s"])
        (simp add: perform_action_def reports_def)
  next
    case HELD
    then have h: "h = held_release s" by (simp add: h_def held_release_after_def)
    obtain q T where "heldAction now addr i a b s = Some (with_iem_vm q s)" "vm_moved s q T []"
      "timers_inv (action_table s) (P(i := actionIsPress b a)) T (repeat_action s) (held_release s) (multi_click_state s)"
      "T IEM_INTERNAL_MULTI_CLICK_TIMER = timers s IEM_INTERNAL_MULTI_CLICK_TIMER"
      using heldAction_done [OF assms(1-3) _ assms(4,5), of now addr] HELD unfolding a_def by blast
    then show ?thesis
      using HELD h by (intro exI [of _ q] exI [of _ T] exI [of _ "repeat_action s"] exI [of _ "multi_click_state s"])
        (simp add: perform_action_def reports_def)
  next
    case RELEASE
    then have h: "h = held_release s" by (simp add: h_def held_release_after_def)
    obtain q where q: "releaseAction now a b s = Some (with_iem_vm q s)"
      "vm_moved s q (timers s) (if actionIsRelease s a b then [ia_message a] else [])"
    proof (cases "actionIsRelease s a b")
      case True
      then show ?thesis using moved_clients [OF assms(1)] that by (auto simp: releaseAction_def)
    next
      case False
      then show ?thesis using that [of "iem_vm s"] vm_moved_refl by (simp add: releaseAction_def)
    qed
    moreover have "timers_inv (action_table s) (P(i := actionIsPress b a)) (timers s) (repeat_action s) (held_release s)
        (multi_click_state s)" using timers_inv_other [OF inv] RELEASE by (simp add: a_def)
    ultimately show ?thesis
      using RELEASE h by (intro exI [of _ q] exI [of _ "timers s"] exI [of _ "repeat_action s"] exI [of _ "multi_click_state s"])
        (simp add: perform_action_def reports_def)
  next
    case HELD_RELEASE
    obtain q T where "heldReleaseAction now addr i a b s = Some ((with_iem_vm q s)\<lparr>held_release := h\<rparr>)"
      "vm_moved s q T (if actionIsRelease s a b \<and> held_release s = Some i then [ia_message a] else [])"
      "timers_inv (action_table s) (P(i := actionIsPress b a)) T (repeat_action s) h (multi_click_state s)"
      "T IEM_INTERNAL_MULTI_CLICK_TIMER = timers s IEM_INTERNAL_MULTI_CLICK_TIMER"
      using heldReleaseAction_done [OF assms(1-3) _ assms(4,5), of now addr] HELD_RELEASE unfolding a_def h_def by blast
    then show ?thesis
      using HELD_RELEASE by (intro exI [of _ q] exI [of _ T] exI [of _ "repeat_action s"] exI [of _ "multi_click_state s"])
        (simp add: perform_action_def reports_def)
  next
    case MULTI_CLICK
    then have h: "h = held_release s" by (simp add: h_def held_release_after_def)
    obtain q T m where q: "multiClickAction now addr i a b s = Some ((with_iem_vm q s)\<lparr>multi_click_state := m\<rparr>)"
      "(m, T) = click_step addr i a (actionIsPress b a) (actionIsRelease s a b)
        (multi_click_state s, timers s IEM_INTERNAL_MULTI_CLICK_TIMER)"
      "vm_moved s q ((timers s)(IEM_INTERNAL_MULTI_CLICK_TIMER := T)) []"
      using multiClickAction_done [OF t] by blast
    have inv2: "timers_inv (action_table s) (P(i := actionIsPress b a)) (timers s) (repeat_action s) (held_release s)
        (multi_click_state s)" using timers_inv_other [OF inv] MULTI_CLICK by (simp add: a_def)
    show ?thesis
    proof (cases flag)
      case True
      then show ?thesis
        using MULTI_CLICK h inv2 vm_moved_refl by (intro exI [of _ "iem_vm s"] exI [of _ "timers s"]
            exI [of _ "repeat_action s"] exI [of _ "multi_click_state s"]) (simp add: perform_action_def reports_def)
    next
      case False
      have "clicks_ok (action_table s) m T"
        using inv clicks_ok_step [OF _ assms(2) _ q(2) [symmetric, unfolded a_def]] MULTI_CLICK
        by (simp add: timers_inv_def a_def)
      then have "timers_inv (action_table s) (P(i := actionIsPress b a)) ((timers s)(IEM_INTERNAL_MULTI_CLICK_TIMER := T))
          (repeat_action s) (held_release s) m" using inv2 by (simp add: timers_inv_def internal_ids)
      then show ?thesis
        using MULTI_CLICK h False q by (intro exI [of _ q] exI [of _ "(timers s)(IEM_INTERNAL_MULTI_CLICK_TIMER := T)"]
            exI [of _ "repeat_action s"] exI [of _ m]) (simp add: perform_action_def reports_def)
    qed
  qed
qed

text \<open>The messages a change of the events sends to the clients.\<close>

fun reported :: "InputEventState \<Rightarrow> u32 \<Rightarrow> nat list \<Rightarrow> nat option \<Rightarrow> message_id list" where
  "reported s b [] h = []"
| "reported s b (i # is) h =
     (let a = action_table s ! i
      in if (input_event_bits s XOR b) AND ia_mask a \<noteq> 0
         then (if reports s h b i a then [ia_message a] else []) @ reported s b is (held_release_after h s b i a)
         else reported s b is h)"

text \<open>The one entry that counts clicks in a change.\<close>

definition click_entry :: "InputEventState \<Rightarrow> u32 \<Rightarrow> nat list \<Rightarrow> nat option" where
  "click_entry s b is = find (\<lambda>i. (input_event_bits s XOR b) AND ia_mask (action_table s ! i) \<noteq> 0
     \<and> ia_action (action_table s ! i) = MULTI_CLICK) is"

definition clicked :: "nat \<Rightarrow> InputEventState \<Rightarrow> u32 \<Rightarrow> nat option \<Rightarrow> InputMultiClickState \<times> nat pio_payload msg_data option multiset" where
  "clicked addr s b entry = (case entry of
       None \<Rightarrow> (multi_click_state s, timers s IEM_INTERNAL_MULTI_CLICK_TIMER)
     | Some i \<Rightarrow> click_step addr i (action_table s ! i) (actionIsPress b (action_table s ! i))
         (actionIsRelease s (action_table s ! i) b) (multi_click_state s, timers s IEM_INTERNAL_MULTI_CLICK_TIMER))"

lemma unchanged_press:
  assumes "(b0 XOR b) AND ia_mask a = 0"
  shows "actionIsPress b a = actionIsPress b0 a"
proof -
  have "bit ((b0 XOR b) AND ia_mask a) n = bit (0 :: u32) n" for n using assms by simp
  then have "b0 AND ia_mask a = b AND ia_mask a" by (intro bit_eqI) (auto simp: bit_simps)
  then show ?thesis by (simp add: actionIsPress_def)
qed

lemma release_cong:
  assumes "input_event_bits s' = input_event_bits s"
  shows "actionIsRelease s' a b = actionIsRelease s a b" "reports s' h b i a = reports s h b i a"
    "held_release_after h s' b i a = held_release_after h s b i a"
  using assms by (simp_all add: actionIsRelease_def getPreviousBitState_def reports_def held_release_after_def
      split: InputEventAction.splits)

lemma reported_cong:
  assumes "input_event_bits s' = input_event_bits s" "action_table s' = action_table s"
  shows "reported s' b is h = reported s b is h"
  by (induction "is" arbitrary: h) (simp_all add: assms Let_def release_cong [OF assms(1)])

lemma action_loop_done:
  assumes "iem_ok s" "\<forall>i\<in>set is. i < length (action_table s)" "distinct is" "inv_at P s"
    "\<forall>i\<in>set is. P i = actionIsPress (input_event_bits s) (action_table s ! i)"
  shows "\<exists>q T r h m. action_loop now addr b (input_event_bits s XOR b) is flag s
        = Some ((with_iem_vm q s)\<lparr>repeat_action := r, held_release := h, multi_click_state := m\<rparr>)
    \<and> vm_moved s q T (reported s b is (held_release s))
    \<and> timers_inv (action_table s) (\<lambda>i. if i \<in> set is then actionIsPress b (action_table s ! i) else P i) T r h m
    \<and> (m, T IEM_INTERNAL_MULTI_CLICK_TIMER) = clicked addr s b (if flag then None else click_entry s b is)"
  using assms
proof (induction "is" arbitrary: s P flag)
  case Nil
  have "(with_iem_vm (iem_vm s) s)\<lparr>repeat_action := repeat_action s, held_release := held_release s,
      multi_click_state := multi_click_state s\<rparr> = s" by simp
  then show ?case
    using vm_moved_refl [of s] Nil(4)
    by (intro exI [of _ "iem_vm s"] exI [of _ "timers s"] exI [of _ "repeat_action s"] exI [of _ "held_release s"]
        exI [of _ "multi_click_state s"]) (simp add: inv_at_def clicked_def click_entry_def)
next
  case (Cons i "is")
  define a where "a = action_table s ! i"
  have i: "i < length (action_table s)" "P i = actionIsPress (input_event_bits s) a" using Cons.prems by (auto simp: a_def)
  let ?b0 = "input_event_bits s"
  show ?case
  proof (cases "(?b0 XOR b) AND ia_mask a = 0")
    case True
    have "P = P(i := actionIsPress b a)" using unchanged_press [OF True] i(2) by (simp add: fun_upd_idem)
    then have P: "(\<lambda>j. if j \<in> set (i # is) then actionIsPress b (action_table s ! j) else P j)
        = (\<lambda>j. if j \<in> set is then actionIsPress b (action_table s ! j) else P j)"
      using unchanged_press [OF True] i(2) by (auto simp: a_def)
    have e1: "click_entry s b (i # is) = click_entry s b is" using True by (simp add: click_entry_def a_def)
    have e2: "reported s b (i # is) h = reported s b is h" for h using True by (simp add: a_def)
    have e3: "action_loop now addr b (?b0 XOR b) (i # is) flag s = action_loop now addr b (?b0 XOR b) is flag s"
      using True i(1) by (simp add: a_def action_at_def)
    show ?thesis
      unfolding P e1 e2 e3 using Cons.prems by (intro Cons.IH) simp_all
  next
    case False
    have D: "(?b0 XOR b) AND ia_mask (action_table s ! i) \<noteq> 0" using False by (simp add: a_def)
    obtain q T r m where q: "perform_action now addr b i a flag s = Some (flag \<or> ia_action a = MULTI_CLICK,
        (with_iem_vm q s)\<lparr>repeat_action := r, held_release := held_release_after (held_release s) s b i a, multi_click_state := m\<rparr>)"
      "vm_moved s q T (if reports s (held_release s) b i a then [ia_message a] else [])"
      "timers_inv (action_table s) (P(i := actionIsPress b a)) T r (held_release_after (held_release s) s b i a) m"
      "(m, T IEM_INTERNAL_MULTI_CLICK_TIMER) = (if ia_action a = MULTI_CLICK \<and> \<not> flag
        then click_step addr i a (actionIsPress b a) (actionIsRelease s a b)
          (multi_click_state s, timers s IEM_INTERNAL_MULTI_CLICK_TIMER)
        else (multi_click_state s, timers s IEM_INTERNAL_MULTI_CLICK_TIMER))"
      using perform_action_done [OF Cons.prems(1) i(1) Cons.prems(4) D i(2) [unfolded a_def], of now addr flag]
      unfolding a_def by blast
    define h where "h = held_release_after (held_release s) s b i a"
    define s1 where "s1 = (with_iem_vm q s)\<lparr>repeat_action := r, held_release := h, multi_click_state := m\<rparr>"
    let ?flag = "flag \<or> ia_action a = MULTI_CLICK"
    have f: "action_table s1 = action_table s" "input_event_bits s1 = ?b0" "held_release s1 = h" "iem_vm s1 = q"
      "iem_task s1 = iem_task s" "client_tasks s1 = client_tasks s" "num_action_messages s1 = num_action_messages s"
      "repeat_action s1 = r" "multi_click_state s1 = m"
      "(with_iem_vm q' s1)\<lparr>repeat_action := r', held_release := h', multi_click_state := m'\<rparr>
        = (with_iem_vm q' s)\<lparr>repeat_action := r', held_release := h', multi_click_state := m'\<rparr>" for q' r' h' m'
      by (simp_all add: s1_def)
    have T: "timers s1 = T" by (rule vm_moved_timers [OF q(2) f(5,4)])
    have pre: "iem_ok s1" "inv_at (P(i := actionIsPress b a)) s1" "distinct is" "i \<notin> set is"
      using Cons.prems q(3) [folded h_def] by (simp_all add: iem_ok_def inv_at_def T f)
    have now: "\<forall>j\<in>set is. j < length (action_table s1)"
      "\<forall>j\<in>set is. (P(i := actionIsPress b a)) j = actionIsPress (input_event_bits s1) (action_table s1 ! j)"
      using Cons.prems(2,5) pre(4) by (auto simp: f)
    obtain q' T' r' h' m' where l: "action_loop now addr b (?b0 XOR b) is ?flag s1
        = Some ((with_iem_vm q' s)\<lparr>repeat_action := r', held_release := h', multi_click_state := m'\<rparr>)"
      "vm_moved s1 q' T' (reported s1 b is h)"
      "timers_inv (action_table s) (\<lambda>j. if j \<in> set is then actionIsPress b (action_table s ! j) else (P(i := actionIsPress b a)) j)
         T' r' h' m'"
      "(m', T' IEM_INTERNAL_MULTI_CLICK_TIMER) = clicked addr s1 b (if ?flag then None else click_entry s1 b is)"
      using Cons.IH [OF pre(1) now(1) pre(3,2) now(2), of ?flag, unfolded f] by blast
    have P: "(\<lambda>j. if j \<in> set (i # is) then actionIsPress b (action_table s ! j) else P j)
        = (\<lambda>j. if j \<in> set is then actionIsPress b (action_table s ! j) else (P(i := actionIsPress b a)) j)"
      by (auto simp: a_def)
    have R: "reported s b (i # is) (held_release s)
        = (if reports s (held_release s) b i a then [ia_message a] else []) @ reported s1 b is h"
      using False reported_cong [of s1 s b "is" h] by (simp add: a_def h_def f Let_def)
    have "vm_moved s q' T' (reported s b (i # is) (held_release s))"
      unfolding R by (rule vm_moved_trans [OF q(2) l(2) f(5,6,4)])
    moreover have "(m', T' IEM_INTERNAL_MULTI_CLICK_TIMER) = clicked addr s b (if flag then None else click_entry s b (i # is))"
      using l(4) q(4) D
      by (auto simp: clicked_def click_entry_def T f a_def release_cong(1) [OF f(2)] split: if_splits option.splits)
    moreover have e: "action_loop now addr b (?b0 XOR b) (i # is) flag s = action_loop now addr b (?b0 XOR b) is ?flag s1"
      using q(1) [folded h_def, folded s1_def] False i(1) by (simp add: action_at_def a_def [symmetric])
    ultimately show ?thesis
      unfolding P e by (intro exI [of _ q'] exI [of _ T'] exI [of _ r'] exI [of _ h'] exI [of _ m'] conjI l(1,3))
  qed
qed

section \<open>Changes of the events and of the pins\<close>

definition iem_now :: "InputEventState \<Rightarrow> bool" where
  "iem_now s = inv_at (\<lambda>i. actionIsPress (input_event_bits s) (action_table s ! i)) s"

lemma pressed_timers_mono:
  assumes "pressed_timers tab k P T" "\<And>i. i < length tab \<Longrightarrow> P i \<Longrightarrow> P' i"
  shows "pressed_timers tab k P' T"
  using assms by (fastforce simp: pressed_timers_def)

lemma timers_inv_mono:
  assumes "timers_inv tab P T r h m" "\<And>i. i < length tab \<Longrightarrow> P i \<Longrightarrow> P' i"
  shows "timers_inv tab P' T r h m"
  using assms pressed_timers_mono [where P = P and P' = P' and tab = tab] by (auto simp: timers_inv_def)

lemma inputEventsChanged_done:
  assumes "iem_ok s" "iem_now s"
  defines "entries \<equiv> [0 ..< length (action_table s)]"
  shows "\<exists>q T r h m. inputEventsChanged now addr b s
      = Some ((with_iem_vm q s)\<lparr>repeat_action := r, held_release := h, multi_click_state := m, input_event_bits := b\<rparr>)
    \<and> vm_moved s q T (reported s b entries (held_release s))
    \<and> timers_inv (action_table s) (\<lambda>i. actionIsPress b (action_table s ! i)) T r h m
    \<and> (m, T IEM_INTERNAL_MULTI_CLICK_TIMER) = clicked addr s b (click_entry s b entries)"
proof -
  let ?P = "\<lambda>i. actionIsPress (input_event_bits s) (action_table s ! i)"
  have e: "\<forall>i\<in>set entries. i < length (action_table s)" "distinct entries" "[0 ..< unat (num_action_messages s)] = entries"
    using assms(1) by (simp_all add: entries_def iem_ok_def)
  obtain q T r h m where l: "action_loop now addr b (input_event_bits s XOR b) entries False s
      = Some ((with_iem_vm q s)\<lparr>repeat_action := r, held_release := h, multi_click_state := m\<rparr>)"
    "vm_moved s q T (reported s b entries (held_release s))"
    "timers_inv (action_table s) (\<lambda>i. if i \<in> set entries then actionIsPress b (action_table s ! i) else ?P i) T r h m"
    "(m, T IEM_INTERNAL_MULTI_CLICK_TIMER) = clicked addr s b (click_entry s b entries)"
    using action_loop_done [OF assms(1) e(1,2), of ?P now addr b False] assms(2) by (auto simp: iem_now_def)
  have "timers_inv (action_table s) (\<lambda>i. actionIsPress b (action_table s ! i)) T r h m"
    by (rule timers_inv_mono [OF l(3)]) (simp add: entries_def)
  then show ?thesis
    using l(1,2,4) unfolding inputEventsChanged_def e(3)
    by (intro exI [of _ q] exI [of _ T] exI [of _ r] exI [of _ h] exI [of _ m]) simp
qed

text \<open>The input events are those of the pins.\<close>

definition pin_set :: "u32 list \<Rightarrow> nat \<Rightarrow> bool" where "pin_set levels pin = bit (levels ! (pin div 32)) (pin mod 32)"

definition event_of :: "InputEventConfig \<Rightarrow> nat \<Rightarrow> nat" where "event_of c pin = nat (sint (pio_to_iem_id c ! pin))"

definition pins_ok :: "InputEventConfig \<Rightarrow> u32 list \<Rightarrow> bool" where
  "pins_ok c levels = (length (pio_to_iem_id c) = 96 \<and> length (pio_input_mask c) = 3 \<and> length levels = 3
     \<and> (\<forall>pin<96. pin_set (pio_input_mask c) pin \<longrightarrow> 0 \<le> sint (pio_to_iem_id c ! pin) \<and> sint (pio_to_iem_id c ! pin) < 32)
     \<and> (\<forall>pin<96. pin_set levels pin \<longrightarrow> pin_set (pio_input_mask c) pin))"

lemma bank_events_done:
  assumes "\<forall>p\<in>set ps. p < 32 \<and> (bit st p \<longrightarrow> base + p < length ids \<and> 0 \<le> sint (ids ! (base + p)) \<and> sint (ids ! (base + p)) < 32)"
  shows "\<exists>e'. bank_events ids st base ps e = Some e'
    \<and> (\<forall>j<32. bit e' j \<longleftrightarrow> bit e j \<or> (\<exists>p\<in>set ps. bit st p \<and> nat (sint (ids ! (base + p))) = j))"
  using assms
proof (induction ps arbitrary: e)
  case (Cons p ps)
  have t: "st AND push_bit p 1 \<noteq> 0 \<longleftrightarrow> bit st p" by (simp only: bit_iff_and_push_bit_not_eq_0)
  define n where "n = nat (sint (ids ! (base + p)))"
  show ?case
  proof (cases "bit st p")
    case True
    obtain e' where e': "bank_events ids st base ps (e OR push_bit n 1) = Some e'"
      "\<forall>j<32. bit e' j \<longleftrightarrow> bit (e OR push_bit n 1) j \<or> (\<exists>p\<in>set ps. bit st p \<and> nat (sint (ids ! (base + p))) = j)"
      using Cons.IH [of "e OR push_bit n 1"] Cons.prems by auto
    have "bit (e OR push_bit n 1) j \<longleftrightarrow> bit e j \<or> n = j" if "j < 32" for j using that by (auto simp: bit_simps)
    moreover have "bank_events ids st base (p # ps) e = Some e'" using e'(1) t True Cons.prems by (simp add: n_def)
    ultimately show ?thesis using e'(2) True by (auto simp: n_def)
  next
    case False
    then show ?thesis using Cons.IH [of e] Cons.prems t by auto
  qed
qed simp

lemma bank_loop_done:
  assumes "pins_ok c levels" "\<forall>b\<in>set banks. b < 3"
  shows "\<exists>e'. bank_loop (pio_to_iem_id c) levels banks e = Some e'
    \<and> (\<forall>j<32. bit e' j \<longleftrightarrow> bit e j \<or> (\<exists>b\<in>set banks. \<exists>p<32. bit (levels ! b) p \<and> event_of c (b * 32 + p) = j))"
  using assms(2)
proof (induction banks arbitrary: e)
  case (Cons b banks)
  have valid: "b * 32 + p < 96 \<and> 0 \<le> sint (pio_to_iem_id c ! (b * 32 + p)) \<and> sint (pio_to_iem_id c ! (b * 32 + p)) < 32"
    if "p < 32" "bit (levels ! b) p" for p
  proof -
    have pin: "b * 32 + p < 96" "(b * 32 + p) div 32 = b" "(b * 32 + p) mod 32 = p" using that(1) Cons.prems by auto
    then have "pin_set levels (b * 32 + p)" using that(2) by (simp add: pin_set_def)
    then show ?thesis using assms(1) pin(1) by (auto simp: pins_ok_def)
  qed
  have len: "length (pio_to_iem_id c) = 96" "length levels = 3" using assms(1) by (simp_all add: pins_ok_def)
  obtain e1 where e1: "bank_events (pio_to_iem_id c) (levels ! b) (b * 32) [0 ..< 32] e = Some e1"
    "\<forall>j<32. bit e1 j \<longleftrightarrow> bit e j \<or> (\<exists>p\<in>set [0 ..< 32]. bit (levels ! b) p \<and> nat (sint (pio_to_iem_id c ! (b * 32 + p))) = j)"
    using bank_events_done [of "[0 ..< 32]" "levels ! b" "b * 32" "pio_to_iem_id c" e] valid len by auto
  obtain e2 where e2: "bank_loop (pio_to_iem_id c) levels banks e1 = Some e2"
    "\<forall>j<32. bit e2 j \<longleftrightarrow> bit e1 j \<or> (\<exists>b\<in>set banks. \<exists>p<32. bit (levels ! b) p \<and> event_of c (b * 32 + p) = j)"
    using Cons.IH [of e1] Cons.prems by auto
  then show ?case using e1 len(2) Cons.prems by (auto simp: event_of_def)
qed simp

lemma calculateInputEvents_done:
  assumes "pins_ok (input_config s) (pio_state s)"
  shows "\<exists>e. calculateInputEvents s = Some e
    \<and> (\<forall>j<32. bit e j \<longleftrightarrow> (\<exists>pin<96. pin_set (pio_state s) pin \<and> event_of (input_config s) pin = j))"
proof -
  have banks: "[0 ..< NUMBER_OF_PIO_BANKS] = [0 ..< 3]" by (simp add: NUMBER_OF_PIO_BANKS_def PIOS_PER_BANK_def)
  obtain e where e: "bank_loop (pio_to_iem_id (input_config s)) (pio_state s) [0 ..< 3] 0 = Some e"
    "\<forall>j<32. bit e j \<longleftrightarrow> bit (0 :: u32) j \<or> (\<exists>b\<in>set [0 ..< 3]. \<exists>p<32. bit (pio_state s ! b) p
      \<and> event_of (input_config s) (b * 32 + p) = j)"
    using bank_loop_done [OF assms, of "[0 ..< 3]" 0] by auto
  have "(\<exists>b\<in>set [0 ..< 3]. \<exists>p<32. bit (pio_state s ! b) p \<and> event_of (input_config s) (b * 32 + p) = j)
      \<longleftrightarrow> (\<exists>pin<96. pin_set (pio_state s) pin \<and> event_of (input_config s) pin = j)" for j
  proof
    assume "\<exists>b\<in>set [0 ..< 3]. \<exists>p<32. bit (pio_state s ! b) p \<and> event_of (input_config s) (b * 32 + p) = j"
    then obtain b p where "b < 3" "p < 32" "bit (pio_state s ! b) p" "event_of (input_config s) (b * 32 + p) = j" by auto
    then show "\<exists>pin<96. pin_set (pio_state s) pin \<and> event_of (input_config s) pin = j"
      by (intro exI [of _ "b * 32 + p"]) (simp add: pin_set_def)
  next
    assume "\<exists>pin<96. pin_set (pio_state s) pin \<and> event_of (input_config s) pin = j"
    then obtain pin where pin: "pin < 96" "pin_set (pio_state s) pin" "event_of (input_config s) pin = j" by auto
    then have "pin div 32 \<in> set [0 ..< 3]" "pin div 32 * 32 + pin mod 32 = pin" by auto
    then show "\<exists>b\<in>set [0 ..< 3]. \<exists>p<32. bit (pio_state s ! b) p \<and> event_of (input_config s) (b * 32 + p) = j"
      using pin by (intro bexI [of _ "pin div 32"] exI [of _ "pin mod 32"]) (auto simp: pin_set_def)
  qed
  then show ?thesis using e by (simp add: calculateInputEvents_def banks)
qed

section \<open>The handler keeps the invariant\<close>

lemma timers_simps [simp]:
  "timers (s\<lparr>pio_state := p\<rparr>) = timers s" "timers (s\<lparr>numActivePios := n\<rparr>) = timers s"
  "timers (s\<lparr>held_release := h\<rparr>) = timers s" "timers (s\<lparr>multi_click_state := m\<rparr>) = timers s"
  "timers (s\<lparr>client_tasks := l\<rparr>) = timers s"
  by (intro ext, simp add: timers_def iem_vm_def)+

definition iem_inv :: "InputEventState \<Rightarrow> bool" where
  "iem_inv s = (iem_ok s \<and> iem_now s \<and> pins_ok (input_config s) (pio_state s)
     \<and> calculateInputEvents s = Some (input_event_bits s))"

lemma calculateInputEvents_cong:
  "pio_state s' = pio_state s \<Longrightarrow> input_config s' = input_config s \<Longrightarrow> calculateInputEvents s' = calculateInputEvents s"
  by (simp add: calculateInputEvents_def)

lemma iem_inv_frame:
  assumes "iem_inv s" "iem_now s'" "iem_task s' = iem_task s" "client_tasks s' = client_tasks s" "action_table s' = action_table s"
    "num_action_messages s' = num_action_messages s" "input_config s' = input_config s" "pio_state s' = pio_state s"
    "input_event_bits s' = input_event_bits s"
  shows "iem_inv s'"
  using assms calculateInputEvents_cong [of s' s] by (simp add: iem_inv_def iem_ok_def)

lemma pio_bank_masked:
  assumes "pins_ok c levels" "bank < 3"
  shows "pins_ok c (levels[bank := w AND pio_input_mask c ! bank])"
proof -
  have "pin_set (pio_input_mask c) pin" if "pin < 96" "pin_set (levels[bank := w AND pio_input_mask c ! bank]) pin" for pin
    using that assms by (cases "pin div 32 = bank") (auto simp: pin_set_def pins_ok_def nth_list_update bit_and_iff)
  then show ?thesis using assms by (simp add: pins_ok_def)
qed

lemma handle_pio_changed:
  assumes "iem_inv s" "unat (mpc_bank mpc) < 3"
  shows "\<exists>s'. handleMessagePioChangedEvents now addr mpc s = Some s' \<and> iem_inv s'"
proof -
  define w :: u32 where "w = ucast (mpc_state mpc) + push_bit 16 (ucast (mpc_state16to31 mpc))"
  define bank where "bank = unat (mpc_bank mpc)"
  define st where "st = (pio_state s)[bank := w AND pio_input_mask (input_config s) ! bank]"
  let ?s = "s\<lparr>pio_state := st\<rparr>"
  have ok: "iem_ok s" "iem_now s" "pins_ok (input_config s) (pio_state s)" using assms(1) by (simp_all add: iem_inv_def)
  have len: "length (pio_input_mask (input_config s)) = 3" "length (pio_state s) = 3" "bank < 3"
    using ok(3) assms(2) by (simp_all add: pins_ok_def bank_def)
  show ?thesis
  proof (cases "pio_state s ! bank = w AND pio_input_mask (input_config s) ! bank")
    case True
    then have "handleMessagePioChangedEvents now addr mpc s = Some s"
      using len unfolding handleMessagePioChangedEvents_def w_def [symmetric] bank_def [symmetric] by (simp add: Let_def)
    then show ?thesis using assms(1) by simp
  next
    case False
    have pins: "pins_ok (input_config ?s) (pio_state ?s)" using pio_bank_masked [OF ok(3) len(3)] by (simp add: st_def)
    obtain e where e: "calculateInputEvents ?s = Some e" using calculateInputEvents_done [OF pins] by blast
    have now: "iem_ok ?s" "iem_now ?s"
      using ok(1,2) by (simp_all add: iem_ok_def iem_now_def inv_at_def timers_def)
    obtain q T r h m where c: "inputEventsChanged now addr e ?s
        = Some ((with_iem_vm q ?s)\<lparr>repeat_action := r, held_release := h, multi_click_state := m, input_event_bits := e\<rparr>)"
      "vm_moved ?s q T (reported ?s e [0 ..< length (action_table ?s)] (held_release ?s))"
      "timers_inv (action_table ?s) (\<lambda>i. actionIsPress e (action_table ?s ! i)) T r h m"
      using inputEventsChanged_done [OF now, of now addr e] by blast
    define s' where "s' = (with_iem_vm q ?s)\<lparr>repeat_action := r, held_release := h, multi_click_state := m, input_event_bits := e\<rparr>"
    have f: "iem_task s' = iem_task ?s" "iem_vm s' = q" "action_table s' = action_table ?s" "pio_state s' = pio_state ?s"
      "input_config s' = input_config ?s" "client_tasks s' = client_tasks ?s" "num_action_messages s' = num_action_messages ?s"
      "repeat_action s' = r" "held_release s' = h" "multi_click_state s' = m" "input_event_bits s' = e"
      by (simp_all add: s'_def)
    have "timers s' = T" by (rule vm_moved_timers [OF c(2) f(1,2)])
    then have "iem_now s'" using c(3) by (simp add: iem_now_def inv_at_def f)
    moreover have "calculateInputEvents s' = Some e" using e calculateInputEvents_cong [OF f(4,5)] by simp
    ultimately have "iem_inv s'" using now(1) pins by (simp add: iem_inv_def iem_ok_def f)
    moreover have "handleMessagePioChangedEvents now addr mpc s = Some s'"
      using len False e c(1) unfolding handleMessagePioChangedEvents_def w_def [symmetric] bank_def [symmetric] s'_def st_def
      by (simp add: Let_def)
    ultimately show ?thesis by blast
  qed
qed

lemma iem_inv_numActive [simp]: "iem_inv (s\<lparr>numActivePios := n\<rparr>) = iem_inv s"
  by (auto simp: iem_inv_def iem_ok_def iem_now_def inv_at_def timers_def calculateInputEvents_def)

lemma wait_for_enable:
  assumes "iem_inv s"
  shows "\<exists>s'. waitForEnableConfirmation now addr get s = Some s' \<and> iem_inv s'"
proof -
  have "\<exists>s'. initial_banks now addr get banks s = Some s' \<and> iem_inv s'" if "iem_inv s" "\<forall>b\<in>set banks. b < 3" for banks s
    using that
  proof (induction banks arbitrary: s)
    case (Cons b banks)
    let ?mpc = "\<lparr>mpc_state = ucast (get b AND 0xFFFF), mpc_time = 0, mpc_state16to31 = ucast (drop_bit 16 (get b) AND 0xFFFF),
      mpc_bank = of_nat b\<rparr>"
    have "unat (mpc_bank ?mpc) < 3" using Cons.prems(2) by (simp add: unat_of_nat)
    then obtain s1 where "handleMessagePioChangedEvents now addr ?mpc s = Some s1" "iem_inv s1"
      using handle_pio_changed [OF Cons.prems(1), of ?mpc now addr] by blast
    then show ?case using Cons.IH [of s1] Cons.prems(2) by (simp add: Let_def)
  qed simp
  then show ?thesis
    using assms by (auto simp: waitForEnableConfirmation_def Let_def NUMBER_OF_PIO_BANKS_def PIOS_PER_BANK_def)
qed

lemma multiClickEnd_done:
  assumes "iem_task s \<noteq> INVALIDATED_TASK"
  shows "\<exists>q. multiClickEnd s = Some ((with_iem_vm q s)\<lparr>multi_click_state := multi_click_idle\<rparr>)
    \<and> vm_moved s q ((timers s)(IEM_INTERNAL_MULTI_CLICK_TIMER := {#})) []"
proof -
  obtain q where "iem_cancel IEM_INTERNAL_MULTI_CLICK_TIMER s = Some (with_iem_vm q s)"
    "vm_moved s q ((timers s)(IEM_INTERNAL_MULTI_CLICK_TIMER := {#})) []" using moved_cancel [OF assms] by blast
  then show ?thesis by (intro exI [of _ q]) (simp add: multiClickEnd_def)
qed

lemma held_timer_done:
  assumes "iem_ok s" "iem_now s" "i < length (action_table s)"
  shows "\<exists>q T r. held_timer now i s = Some ((with_iem_vm q s)\<lparr>multi_click_state := multi_click_idle, repeat_action := r\<rparr>)
    \<and> vm_moved s q T [ia_message (action_table s ! i)]
    \<and> timers_inv (action_table s) (\<lambda>i. actionIsPress (input_event_bits s) (action_table s ! i)) T r (held_release s) multi_click_idle"
proof -
  let ?a = "action_table s ! i" and ?P = "\<lambda>i. actionIsPress (input_event_bits s) (action_table s ! i)"
  let ?T1 = "(timers s)(IEM_INTERNAL_MULTI_CLICK_TIMER := {#})"
  let ?T3 = "?T1(IEM_INTERNAL_REPEAT_TIMER := {#})"
  have t: "iem_task s \<noteq> INVALIDATED_TASK" using assms(1) by (simp add: iem_ok_def)
  obtain q1 where q1: "multiClickEnd s = Some ((with_iem_vm q1 s)\<lparr>multi_click_state := multi_click_idle\<rparr>)" "vm_moved s q1 ?T1 []"
    using multiClickEnd_done [OF t] by blast
  define s1 where "s1 = (with_iem_vm q1 s)\<lparr>multi_click_state := multi_click_idle\<rparr>"
  have f1: "iem_task s1 = iem_task s" "client_tasks s1 = client_tasks s" "iem_vm s1 = q1" "iem_ok s1" "repeat_action s1 = repeat_action s"
    using assms(1) by (simp_all add: s1_def iem_ok_def)
  have t1: "timers s1 = ?T1" by (rule vm_moved_timers [OF q1(2) f1(1,3)])
  obtain q2 where q2: "iem_send_clients now (ia_message ?a) s1 = Some (with_iem_vm q2 s1)" "vm_moved s1 q2 ?T1 [ia_message ?a]"
    using moved_clients [OF f1(4)] t1 by auto
  have t2: "timers (with_iem_vm q2 s1) = ?T1" by (rule vm_moved_timers [OF q2(2)]) simp_all
  obtain q3 where q3: "iem_cancel IEM_INTERNAL_REPEAT_TIMER (with_iem_vm q2 s1) = Some (with_iem_vm q3 s1)"
    "vm_moved (with_iem_vm q2 s1) q3 ?T3 []"
    using moved_cancel [of "with_iem_vm q2 s1" IEM_INTERNAL_REPEAT_TIMER] t f1(1) t2 by auto
  have m3: "vm_moved s q3 ?T3 [ia_message ?a]"
    using vm_moved_trans [OF vm_moved_trans [OF q1(2) q2(2) f1(1,2,3)] q3(2)] f1 by simp
  have inv: "timers_inv (action_table s) ?P ?T3 r (held_release s) multi_click_idle" if "\<forall>i. r = Some i \<longrightarrow> i < length (action_table s)" for r
    using assms(2) that by (simp add: iem_now_def inv_at_def timers_inv_def internal_ids)
  have begin': "held_timer now i s = (if ia_repeat ?a \<noteq> 0 then
      do { state \<leftarrow> iem_send_later now IEM_INTERNAL_REPEAT_TIMER None (ucast (ia_repeat ?a)) (with_iem_vm q3 s1);
           Some (state\<lparr>repeat_action := Some i\<rparr>) } else Some (with_iem_vm q3 s1))"
    using q1(1) q2(1) q3(1) assms(3) by (simp add: held_timer_def action_at_def s1_def [symmetric])
  show ?thesis
  proof (cases "ia_repeat ?a \<noteq> 0")
    case True
    let ?T4 = "?T3(IEM_INTERNAL_REPEAT_TIMER := {#None#})"
    have t3: "timers (with_iem_vm q3 s1) = ?T3" by (rule vm_moved_timers [OF m3]) (simp_all add: f1)
    obtain q where q: "iem_send_later now IEM_INTERNAL_REPEAT_TIMER None (ucast (ia_repeat ?a)) (with_iem_vm q3 s1) = Some (with_iem_vm q s1)"
      "vm_moved (with_iem_vm q3 s1) q ?T4 []"
      using moved_send [OF internal_ids_not_combinable(2), of now None _ "with_iem_vm q3 s1"] t3 by auto
    have "vm_moved s q ?T4 [ia_message ?a]" using vm_moved_trans [OF m3 q(2)] f1 by simp
    moreover have "timers_inv (action_table s) ?P ?T4 (Some i) (held_release s) multi_click_idle"
      using inv [of "Some i"] assms(3) by (simp add: timers_inv_def internal_ids)
    ultimately show ?thesis
      using True begin' q(1) by (intro exI [of _ q] exI [of _ ?T4] exI [of _ "Some i"]) (simp add: s1_def)
  next
    case False
    have "\<forall>i. repeat_action s = Some i \<longrightarrow> i < length (action_table s)"
      using assms(2) by (simp add: iem_now_def inv_at_def timers_inv_def)
    then show ?thesis
      using False begin' m3 inv
      by (intro exI [of _ q3] exI [of _ ?T3] exI [of _ "repeat_action s"]) (simp add: s1_def)
  qed
qed

lemma repeat_timer_done:
  assumes "iem_ok s" "iem_now s" "timers s IEM_INTERNAL_REPEAT_TIMER = {#}"
  shows "\<exists>q T. repeat_timer now s = Some (with_iem_vm q s)
    \<and> vm_moved s q T (case repeat_action s of None \<Rightarrow> [] | Some i \<Rightarrow> [ia_message (action_table s ! i)])
    \<and> timers_inv (action_table s) (\<lambda>i. actionIsPress (input_event_bits s) (action_table s ! i)) T (repeat_action s)
        (held_release s) (multi_click_state s)"
proof (cases "repeat_action s")
  case None
  then show ?thesis
    using assms(2) vm_moved_refl by (intro exI [of _ "iem_vm s"] exI [of _ "timers s"])
      (simp add: repeat_timer_def iem_now_def inv_at_def)
next
  case (Some i)
  let ?a = "action_table s ! i" and ?T = "(timers s)(IEM_INTERNAL_REPEAT_TIMER := {#None#})"
  have i: "i < length (action_table s)" using assms(2) Some by (simp add: iem_now_def inv_at_def timers_inv_def)
  obtain q1 where q1: "iem_send_clients now (ia_message ?a) s = Some (with_iem_vm q1 s)" "vm_moved s q1 (timers s) [ia_message ?a]"
    using moved_clients [OF assms(1)] by blast
  have t1: "timers (with_iem_vm q1 s) = timers s" by (rule vm_moved_timers [OF q1(2)]) simp_all
  obtain q where q: "iem_send_later now IEM_INTERNAL_REPEAT_TIMER None (ucast (ia_repeat ?a)) (with_iem_vm q1 s) = Some (with_iem_vm q s)"
    "vm_moved (with_iem_vm q1 s) q ?T []"
    using moved_send [OF internal_ids_not_combinable(2), of now None _ "with_iem_vm q1 s"] t1 assms(3) by auto
  have "timers_inv (action_table s) (\<lambda>i. actionIsPress (input_event_bits s) (action_table s ! i)) ?T (repeat_action s)
      (held_release s) (multi_click_state s)"
    using assms(2) Some by (simp add: iem_now_def inv_at_def timers_inv_def internal_ids)
  then show ?thesis
    using Some i q1 q vm_moved_trans [OF q1(2) q(2)] by (intro exI [of _ q] exI [of _ ?T]) (simp add: repeat_timer_def action_at_def)
qed

text \<open>The messages at the end of a series of clicks.\<close>

definition click_messages :: "InputEventState \<Rightarrow> InputActionMessage \<Rightarrow> nat list \<Rightarrow> message_id list" where
  "click_messages s a is = map (\<lambda>i. ia_message (action_table s ! i)) (filter (\<lambda>i. ia_action (action_table s ! i) = MULTI_CLICK
     \<and> ia_count (action_table s ! i) = n_clicks (multi_click_state s) \<and> ia_bits (action_table s ! i) = ia_bits a
     \<and> ia_mask (action_table s ! i) = ia_mask a) is)"

lemma click_loop_done:
  assumes "iem_ok s" "\<forall>i\<in>set is. i < length (action_table s)"
  shows "\<exists>q. click_loop now a is s = Some (with_iem_vm q s) \<and> vm_moved s q (timers s) (click_messages s a is)"
  using assms
proof (induction "is" arbitrary: s)
  case Nil
  then show ?case using vm_moved_refl by (intro exI [of _ "iem_vm s"]) (simp add: click_messages_def)
next
  case (Cons i "is")
  let ?b = "action_table s ! i"
  let ?c = "ia_action ?b = MULTI_CLICK \<and> ia_count ?b = n_clicks (multi_click_state s) \<and> ia_bits ?b = ia_bits a \<and> ia_mask ?b = ia_mask a"
  obtain q1 where q1: "(if ?c then iem_send_clients now (ia_message ?b) s else Some s) = Some (with_iem_vm q1 s)"
    "vm_moved s q1 (timers s) (if ?c then [ia_message ?b] else [])"
  proof (cases ?c)
    case True
    then show ?thesis using moved_clients [OF Cons.prems(1)] that by auto
  next
    case False
    then show ?thesis
      using that [of "iem_vm s"] vm_moved_refl by (simp only: if_False with_iem_vm_simps refl simp_thms)
  qed
  have t1: "timers (with_iem_vm q1 s) = timers s" by (rule vm_moved_timers [OF q1(2)]) simp_all
  have "iem_ok (with_iem_vm q1 s)" using Cons.prems(1) by (simp add: iem_ok_def)
  then obtain q where q: "click_loop now a is (with_iem_vm q1 s) = Some (with_iem_vm q s)"
    "vm_moved (with_iem_vm q1 s) q (timers s) (click_messages s a is)"
    using Cons.IH [of "with_iem_vm q1 s"] Cons.prems(2) by (auto simp: t1 click_messages_def)
  have "click_messages s a (i # is) = (if ?c then [ia_message ?b] else []) @ click_messages s a is"
    by (simp add: click_messages_def)
  moreover have "click_loop now a (i # is) s
      = do { state \<leftarrow> (if ?c then iem_send_clients now (ia_message ?b) s else Some s); click_loop now a is state }"
    using Cons.prems(2) by (simp add: action_at_def)
  ultimately show ?case
    using q1(1) q(1) vm_moved_trans [OF q1(2) q(2)] by (intro exI [of _ q]) simp
qed

lemma multi_click_timer_done:
  assumes "iem_ok s" "i < length (action_table s)" "input_event_bits s \<noteq> ia_mask (action_table s ! i)"
  shows "\<exists>q. multi_click_timer now i s = Some ((with_iem_vm q s)\<lparr>multi_click_state := multi_click_idle\<rparr>)
    \<and> vm_moved s q ((timers s)(IEM_INTERNAL_MULTI_CLICK_TIMER := {#}))
        (click_messages s (action_table s ! i) [0 ..< length (action_table s)])"
proof -
  let ?a = "action_table s ! i"
  have n: "unat (num_action_messages s) = length (action_table s)" using assms(1) by (simp add: iem_ok_def)
  obtain q1 where q1: "click_loop now ?a [0 ..< length (action_table s)] s = Some (with_iem_vm q1 s)"
    "vm_moved s q1 (timers s) (click_messages s ?a [0 ..< length (action_table s)])"
    using click_loop_done [OF assms(1), of "[0 ..< length (action_table s)]"] by auto
  have t1: "timers (with_iem_vm q1 s) = timers s" by (rule vm_moved_timers [OF q1(2)]) simp_all
  obtain q where q: "multiClickEnd (with_iem_vm q1 s) = Some ((with_iem_vm q s)\<lparr>multi_click_state := multi_click_idle\<rparr>)"
    "vm_moved (with_iem_vm q1 s) q ((timers s)(IEM_INTERNAL_MULTI_CLICK_TIMER := {#})) []"
    using multiClickEnd_done [of "with_iem_vm q1 s"] assms(1) by (auto simp: t1 iem_ok_def)
  then show ?thesis
    using q1 assms(2,3) n vm_moved_trans [OF q1(2) q(2)]
    by (intro exI [of _ q]) (simp add: multi_click_timer_def action_at_def)
qed

section \<open>The life of the component\<close>

definition iem_with_queue :: "nat pio_payload msg_queue \<Rightarrow> InputEventState \<Rightarrow> InputEventState" where
  "iem_with_queue q s = with_iem_vm ((iem_vm s)\<lparr>vm_message_queue := q\<rparr>) s"

definition iem_internal_ids :: "message_id set" where
  "iem_internal_ids = {IEM_INTERNAL_HELD_TIMER, IEM_INTERNAL_REPEAT_TIMER, IEM_INTERNAL_HELD_RELEASE_TIMER,
     IEM_INTERNAL_MULTI_CLICK_TIMER}"

text \<open>
  One step: the scheduler takes a message of the manager out of the queue and hands it over; a client
  registers; or the rest of the system uses the monitor and the scheduler, without the timers of the manager.
\<close>

inductive iem_step :: "InputEventState \<Rightarrow> InputEventState \<Rightarrow> bool" where
  deliver: "vm_message_queue (iem_vm s) = q1 @ a # q2 \<Longrightarrow> unicast_to (iem_task s) a \<Longrightarrow>
    iemHandler now addr get (am_id a) (am_message a) (iem_with_queue (q1 @ q2) s) = Some s' \<Longrightarrow> iem_step s s'"
| register: "t \<noteq> iem_task s \<Longrightarrow> length (tl_members (client_tasks s)) < 14 \<Longrightarrow>
    InputEventManager_RegisterClient t s = Some s' \<Longrightarrow> iem_step s s'"
| others: "\<forall>i\<in>iem_internal_ids. md.with_id (iem_task s) i (pm_vm m) = timers s i \<Longrightarrow> iem_step s (s\<lparr>iem_monitor := m\<rparr>)"

inductive iem_reachable :: "InputEventState \<Rightarrow> bool" where
  init: "iem_task s0 \<noteq> INVALIDATED_TASK \<Longrightarrow> t \<noteq> iem_task s0 \<Longrightarrow> \<forall>i\<in>iem_internal_ids. timers s0 i = {#} \<Longrightarrow>
    unat n = length tab \<Longrightarrow> pins_ok c (replicate 3 0) \<Longrightarrow>
    InputEventManagerInit get res1 res2 t tab n c s0 = Some (t', s) \<Longrightarrow> iem_reachable s"
| step: "iem_reachable s \<Longrightarrow> iem_step s s' \<Longrightarrow> iem_reachable s'"

inductive_cases iem_stepE: "iem_step s s'"

lemma internal_ids_set: "iem_internal_ids = {0, 1, 2, 3}"
  by (simp add: iem_internal_ids_def internal_ids)

lemma timers_inv_cong:
  assumes "\<forall>i\<in>iem_internal_ids. T' i = T i"
  shows "timers_inv tab P T' r h m = timers_inv tab P T r h m"
  using assms by (simp add: timers_inv_def internal_ids internal_ids_set)

lemma timers_taken:
  assumes "vm_message_queue (iem_vm s) = q1 @ a # q2" "unicast_to (iem_task s) a"
  shows "timers s i = (if i = am_id a then add_mset (am_message a) (timers (iem_with_queue (q1 @ q2) s) i)
    else timers (iem_with_queue (q1 @ q2) s) i)"
  using posted_data_taken [OF assms] by (simp add: timers_def md.with_id_def iem_with_queue_def)

lemma pressed_timers_taken:
  "pressed_timers tab k P (add_mset x T) \<Longrightarrow> pressed_timers tab k P T
     \<and> (\<exists>i. message_action x = Some i \<and> i < length tab \<and> ia_action (tab ! i) = k \<and> P i)"
proof (intro conjI)
  assume a: "pressed_timers tab k P (add_mset x T)"
  have "size (filter_mset (\<lambda>x. message_action x = Some i) T) \<le> size (filter_mset (\<lambda>x. message_action x = Some i) (add_mset x T))" for i
    by simp
  then have "size (filter_mset (\<lambda>x. message_action x = Some i) T) \<le> 1" for i
    using a order_trans unfolding pressed_timers_def by blast
  with a show "pressed_timers tab k P T" by (simp add: pressed_timers_def)
qed (simp add: pressed_timers_def)

lemma clicks_ok_taken:
  "clicks_ok tab m (add_mset x T) \<Longrightarrow> clicks_ok tab m T \<and> T = {#} \<and> mc_state m = IEM_STATE_MULTICLICK_COUNTING
     \<and> (\<exists>i. message_action x = Some i \<and> i < length tab \<and> ia_action (tab ! i) = MULTI_CLICK \<and> ia_mask (tab ! i) = input_event_mask m)"
  by (auto simp: clicks_ok_def split: input_event_multiclick_states.splits)

text \<open>What is known of a message when it is delivered.\<close>

definition delivered_ok :: "InputEventState \<Rightarrow> message_id \<Rightarrow> nat pio_payload msg_data option \<Rightarrow> bool" where
  "delivered_ok s i m = (
     (i = IEM_INTERNAL_HELD_TIMER \<longrightarrow> (\<exists>k. message_action m = Some k \<and> k < length (action_table s)
        \<and> ia_action (action_table s ! k) = HELD \<and> actionIsPress (input_event_bits s) (action_table s ! k)))
     \<and> (i = IEM_INTERNAL_HELD_RELEASE_TIMER \<longrightarrow> (\<exists>k. message_action m = Some k \<and> k < length (action_table s)
        \<and> ia_action (action_table s ! k) = HELD_RELEASE \<and> actionIsPress (input_event_bits s) (action_table s ! k)))
     \<and> (i = IEM_INTERNAL_MULTI_CLICK_TIMER \<longrightarrow> mc_state (multi_click_state s) = IEM_STATE_MULTICLICK_COUNTING
        \<and> timers s i = {#} \<and> (\<exists>k. message_action m = Some k \<and> k < length (action_table s)
        \<and> ia_action (action_table s ! k) = MULTI_CLICK \<and> ia_mask (action_table s ! k) = input_event_mask (multi_click_state s)))
     \<and> (i = IEM_INTERNAL_REPEAT_TIMER \<longrightarrow> repeat_action s \<noteq> None \<and> timers s i = {#}))"

lemma deliver_facts:
  assumes "iem_inv s" "vm_message_queue (iem_vm s) = q1 @ a # q2" "unicast_to (iem_task s) a"
  shows "iem_inv (iem_with_queue (q1 @ q2) s) \<and> delivered_ok (iem_with_queue (q1 @ q2) s) (am_id a) (am_message a)"
proof -
  let ?s = "iem_with_queue (q1 @ q2) s"
  have f: "iem_task ?s = iem_task s" "client_tasks ?s = client_tasks s" "action_table ?s = action_table s"
    "num_action_messages ?s = num_action_messages s" "input_config ?s = input_config s" "pio_state ?s = pio_state s"
    "input_event_bits ?s = input_event_bits s" "repeat_action ?s = repeat_action s" "held_release ?s = held_release s"
    "multi_click_state ?s = multi_click_state s"
    by (simp_all add: iem_with_queue_def)
  have T: "timers s i = (if i = am_id a then add_mset (am_message a) (timers ?s i) else timers ?s i)" for i
    by (rule timers_taken [OF assms(2,3)])
  have inv: "timers_inv (action_table s) (\<lambda>i. actionIsPress (input_event_bits s) (action_table s ! i)) (timers s)
      (repeat_action s) (held_release s) (multi_click_state s)"
    using assms(1) by (simp add: iem_inv_def iem_now_def inv_at_def)
  have "iem_now ?s \<and> delivered_ok ?s (am_id a) (am_message a)"
  proof (cases "am_id a \<in> {0, 1, 2, 3}")
    case False
    then show ?thesis using inv by (simp add: timers_inv_def T iem_now_def inv_at_def f delivered_ok_def internal_ids)
  next
    case True
    then consider "am_id a = 0" | "am_id a = 1" | "am_id a = 2" | "am_id a = 3" by blast
    then show ?thesis
    proof cases
      case 1
      then show ?thesis
        using inv by (simp add: timers_inv_def T iem_now_def inv_at_def f delivered_ok_def internal_ids pressed_timers_taken)
          (blast dest: pressed_timers_taken)
    next
      case 2
      then show ?thesis
        using inv by (simp add: timers_inv_def T iem_now_def inv_at_def f delivered_ok_def internal_ids)
    next
      case 3
      then show ?thesis
        using inv by (simp add: timers_inv_def T iem_now_def inv_at_def f delivered_ok_def internal_ids)
          (blast dest: pressed_timers_taken)
    next
      case 4
      then show ?thesis
        using inv by (simp add: timers_inv_def T iem_now_def inv_at_def f delivered_ok_def internal_ids)
          (blast dest: clicks_ok_taken)
    qed
  qed
  then show ?thesis using iem_inv_frame [OF assms(1)] f by blast
qed

lemma pio_message_ids: "MESSAGE_PIO_CHANGED = 0x8023" "PIO_MONITOR_ENABLE_CFM = 0x7F8A"
  by (simp_all add: MESSAGE_PIO_CHANGED_def PIO_MONITOR_ENABLE_CFM_def SYSTEM_MESSAGE_BASE_def)

lemma iem_now_moved:
  assumes "vm_moved s q T ms" "timers_inv (action_table s) (\<lambda>i. actionIsPress (input_event_bits s) (action_table s ! i)) T r h m"
    "iem_task s' = iem_task s" "iem_vm s' = q" "action_table s' = action_table s" "input_event_bits s' = input_event_bits s"
    "repeat_action s' = r" "held_release s' = h" "multi_click_state s' = m"
  shows "iem_now s'"
  using assms vm_moved_timers [OF assms(1,3,4)] by (simp add: iem_now_def inv_at_def)

lemma held_release_timer_done:
  assumes "iem_ok s" "iem_now s" "i < length (action_table s)" "ia_action (action_table s ! i) = HELD_RELEASE"
    "actionIsPress (input_event_bits s) (action_table s ! i)"
  shows "\<exists>q T. held_release_timer i s = Some ((with_iem_vm q s)\<lparr>held_release := Some i, multi_click_state := multi_click_idle\<rparr>)
    \<and> vm_moved s q T []
    \<and> timers_inv (action_table s) (\<lambda>i. actionIsPress (input_event_bits s) (action_table s ! i)) T (repeat_action s)
        (Some i) multi_click_idle"
proof -
  let ?s = "s\<lparr>held_release := Some i\<rparr>"
  obtain q where q: "multiClickEnd ?s = Some ((with_iem_vm q ?s)\<lparr>multi_click_state := multi_click_idle\<rparr>)"
    "vm_moved ?s q ((timers ?s)(IEM_INTERNAL_MULTI_CLICK_TIMER := {#})) []"
    using multiClickEnd_done [of ?s] assms(1) by (auto simp: iem_ok_def)
  then have "vm_moved s q ((timers s)(IEM_INTERNAL_MULTI_CLICK_TIMER := {#})) []" by (simp add: vm_moved_def)
  moreover have "timers_inv (action_table s) (\<lambda>i. actionIsPress (input_event_bits s) (action_table s ! i))
      ((timers s)(IEM_INTERNAL_MULTI_CLICK_TIMER := {#})) (repeat_action s) (Some i) multi_click_idle"
    using assms by (simp add: iem_now_def inv_at_def timers_inv_def internal_ids)
  ultimately show ?thesis
    using q(1) by (intro exI [of _ q] exI [of _ "(timers s)(IEM_INTERNAL_MULTI_CLICK_TIMER := {#})"])
      (simp add: held_release_timer_def)
qed

lemma iemHandler_inv:
  assumes "iem_inv s" "delivered_ok s i m"
    "i = MESSAGE_PIO_CHANGED \<longrightarrow> (\<exists>a mpc. m = Some (a, App (Pio_changed mpc)) \<and> unat (mpc_bank mpc) < 3)"
  shows "\<exists>s'. iemHandler now addr get i m s = Some s' \<and> iem_inv s'"
proof -
  let ?P = "\<lambda>i. actionIsPress (input_event_bits s) (action_table s ! i)"
  have ok: "iem_ok s" "iem_now s" using assms(1) by (simp_all add: iem_inv_def)
  have inv: "timers_inv (action_table s) ?P (timers s) (repeat_action s) (held_release s) (multi_click_state s)"
    using ok(2) by (simp add: iem_now_def inv_at_def)
  consider (pio) "i = 0x8023" | (enable) "i = 0x7F8A" | (held) "i = 0" | (repeat) "i = 1" | (release) "i = 2" | (click) "i = 3"
    | (other) "i \<noteq> 0x8023" "i \<noteq> 0x7F8A" "i \<noteq> 0" "i \<noteq> 1" "i \<noteq> 2" "i \<noteq> 3" by blast
  then show ?thesis
  proof cases
    case pio
    then obtain a mpc where "m = Some (a, App (Pio_changed mpc))" "unat (mpc_bank mpc) < 3"
      using assms(3) by (auto simp: pio_message_ids)
    then show ?thesis
      using pio handle_pio_changed [OF assms(1), of mpc now addr] by (simp add: iemHandler_def pio_message_ids)
  next
    case enable
    then show ?thesis using wait_for_enable [OF assms(1), of now addr get] by (simp add: iemHandler_def pio_message_ids)
  next
    case held
    then obtain k where k: "message_action m = Some k" "k < length (action_table s)"
      using assms(2) by (auto simp: delivered_ok_def internal_ids)
    obtain q T r where h: "held_timer now k s = Some ((with_iem_vm q s)\<lparr>multi_click_state := multi_click_idle, repeat_action := r\<rparr>)"
      "vm_moved s q T [ia_message (action_table s ! k)]" "timers_inv (action_table s) ?P T r (held_release s) multi_click_idle"
      using held_timer_done [OF ok k(2)] by blast
    define s' where "s' = (with_iem_vm q s)\<lparr>multi_click_state := multi_click_idle, repeat_action := r\<rparr>"
    have "iem_now s'" by (rule iem_now_moved [OF h(2,3)]) (simp_all add: s'_def)
    then have "iem_inv s'" by (rule iem_inv_frame [OF assms(1)]) (simp_all add: s'_def)
    then show ?thesis using held k h(1) by (simp add: iemHandler_def pio_message_ids internal_ids s'_def)
  next
    case repeat
    then have "timers s IEM_INTERNAL_REPEAT_TIMER = {#}" using assms(2) by (simp add: delivered_ok_def internal_ids)
    from repeat_timer_done [OF ok this, of now] obtain q T ms where r: "repeat_timer now s = Some (with_iem_vm q s)"
      "vm_moved s q T ms" "timers_inv (action_table s) ?P T (repeat_action s) (held_release s) (multi_click_state s)" by blast
    have "iem_now (with_iem_vm q s)" by (rule iem_now_moved [OF r(2,3)]) simp_all
    then have "iem_inv (with_iem_vm q s)" by (rule iem_inv_frame [OF assms(1)]) simp_all
    then show ?thesis using repeat r(1) by (simp add: iemHandler_def pio_message_ids internal_ids)
  next
    case release
    then obtain k where k: "message_action m = Some k" "k < length (action_table s)" "ia_action (action_table s ! k) = HELD_RELEASE" "?P k"
      using assms(2) by (auto simp: delivered_ok_def internal_ids)
    obtain q T where h: "held_release_timer k s = Some ((with_iem_vm q s)\<lparr>held_release := Some k, multi_click_state := multi_click_idle\<rparr>)"
      "vm_moved s q T []" "timers_inv (action_table s) ?P T (repeat_action s) (Some k) multi_click_idle"
      using held_release_timer_done [OF ok k(2-4)] by blast
    define s' where "s' = (with_iem_vm q s)\<lparr>held_release := Some k, multi_click_state := multi_click_idle\<rparr>"
    have "iem_now s'" by (rule iem_now_moved [OF h(2,3)]) (simp_all add: s'_def)
    then have "iem_inv s'" by (rule iem_inv_frame [OF assms(1)]) (simp_all add: s'_def)
    then show ?thesis using release k h(1) by (simp add: iemHandler_def pio_message_ids internal_ids s'_def)
  next
    case click
    then obtain k where k: "message_action m = Some k" "k < length (action_table s)"
      using assms(2) by (auto simp: delivered_ok_def internal_ids)
    have hd: "iemHandler now addr get i m s = multi_click_timer now k s"
      using click k(1) by (simp add: iemHandler_def pio_message_ids internal_ids)
    show ?thesis
    proof (cases "input_event_bits s = ia_mask (action_table s ! k)")
      case True
      then show ?thesis using assms(1) k(2) hd by (simp add: multi_click_timer_def action_at_def)
    next
      case False
      obtain q ms where c: "multi_click_timer now k s = Some ((with_iem_vm q s)\<lparr>multi_click_state := multi_click_idle\<rparr>)"
        "vm_moved s q ((timers s)(IEM_INTERNAL_MULTI_CLICK_TIMER := {#})) ms"
        using multi_click_timer_done [OF ok(1) k(2) False] by blast
      define s' where "s' = (with_iem_vm q s)\<lparr>multi_click_state := multi_click_idle\<rparr>"
      have "timers_inv (action_table s) ?P ((timers s)(IEM_INTERNAL_MULTI_CLICK_TIMER := {#})) (repeat_action s) (held_release s) multi_click_idle"
        using inv by (simp add: timers_inv_def internal_ids)
      then have "iem_now s'" by (rule iem_now_moved [OF c(2)]) (simp_all add: s'_def)
      then have "iem_inv s'" by (rule iem_inv_frame [OF assms(1)]) (simp_all add: s'_def)
      then show ?thesis using c(1) hd by (simp add: s'_def)
    qed
  next
    case other
    then show ?thesis using assms(1) by (simp add: iemHandler_def pio_message_ids internal_ids)
  qed
qed

lemma pio_changed_payload:
  assumes "iemHandler now addr get MESSAGE_PIO_CHANGED m s = Some s'" "length (pio_state s) = 3"
  shows "\<exists>a mpc. m = Some (a, App (Pio_changed mpc)) \<and> unat (mpc_bank mpc) < 3"
  using assms by (auto simp: iemHandler_def handleMessagePioChangedEvents_def Let_def
      split: option.splits message_body.splits pio_payload.splits if_splits)

lemma register_pins_frame:
  "register_pins get ps s = Some s' \<Longrightarrow> \<exists>cs. s' = s\<lparr>iem_monitor := (iem_monitor s)\<lparr>cl_list := cs\<rparr>\<rparr>"
proof (induction ps arbitrary: s)
  case Nil
  then show ?case by (intro exI [of _ "cl_list (iem_monitor s)"]) simp
next
  case (Cons p ps)
  show ?case
  proof (cases "pio_to_iem_id (input_config s) ! p \<noteq> -1")
    case True
    obtain cs where "register_pins get ps (s\<lparr>iem_monitor := (iem_monitor s)\<lparr>cl_list := cs\<rparr>\<rparr>) = Some s'"
      using Cons.prems True by (auto simp: PioMonitorRegisterTask_def bind_eq_Some_conv split: if_splits)
    from Cons.IH [OF this] show ?thesis by auto
  next
    case False
    then show ?thesis using Cons by (simp split: if_splits)
  qed
qed

lemma configure_banks_frame:
  "configure_banks r1 r2 banks s = Some s' \<Longrightarrow> \<exists>cs. s' = s\<lparr>iem_pio_calls := cs\<rparr>"
proof (induction banks arbitrary: s)
  case Nil
  then show ?case by (intro exI [of _ "iem_pio_calls s"]) simp
next
  case (Cons b banks)
  then obtain cs where "configure_banks r1 r2 banks (s\<lparr>iem_pio_calls := cs\<rparr>) = Some s'"
    by (auto simp: log_pio_def bind_eq_Some_conv PanicFalse_def Let_def split: if_splits)
  from Cons.IH [OF this] show ?case by auto
qed

lemma iem_step_inv:
  assumes "iem_inv s" "iem_step s s'"
  shows "iem_inv s'"
  using assms(2)
proof (cases rule: iem_step.cases)
  case d: (deliver q1 a q2 now addr get)
  let ?s = "iem_with_queue (q1 @ q2) s"
  have f: "iem_inv ?s" "delivered_ok ?s (am_id a) (am_message a)" using deliver_facts [OF assms(1) d(1,2)] by simp_all
  have "length (pio_state ?s) = 3" using f(1) by (simp add: iem_inv_def pins_ok_def)
  then show ?thesis using iemHandler_inv [OF f, of now addr get] pio_changed_payload d(3) by fastforce
next
  case r: (register t)
  then obtain b l where l: "TaskList_AddTask (client_tasks s) t = Some (b, l)" "s' = s\<lparr>client_tasks := l\<rparr>"
    by (auto simp: InputEventManager_RegisterClient_def)
  have nz: "t \<noteq> NULL_TASK" using l(1) by (auto simp: TaskList_AddTask_def bind_eq_Some_conv)
  have ok: "iem_ok s" using assms(1) by (simp add: iem_inv_def)
  have k: "tl_valid l \<and> set (tl_members l) \<subseteq> insert t (set (tl_members (client_tasks s)))
      \<and> length (tl_members l) \<le> length (tl_members (client_tasks s)) + 1"
    using ok r(2) by (intro tl.add_keeps [OF _ nz _ l(1)]) (simp_all add: iem_ok_def)
  have "iem_task s \<notin> set (tl_members l)" using k r(1) ok by (auto simp: iem_ok_def)
  then have "iem_ok s'" using ok k r(2) l(2) by (simp add: iem_ok_def)
  moreover have "iem_now s'" using assms(1) l(2) by (simp add: iem_inv_def iem_now_def inv_at_def)
  ultimately show ?thesis
    using assms(1) l(2) calculateInputEvents_cong [of s' s] by (simp add: iem_inv_def)
next
  case o: (others m)
  have "\<forall>i\<in>iem_internal_ids. timers s' i = timers s i" using o by (simp add: timers_def iem_vm_def)
  then have "iem_now s'"
    using assms(1) timers_inv_cong [of "timers s'" "timers s"] o(1) by (simp add: iem_inv_def iem_now_def inv_at_def)
  then show ?thesis by (rule iem_inv_frame [OF assms(1)]) (simp_all add: o(1))
qed

lemma InputEventManagerInit_fields:
  assumes "InputEventManagerInit get res1 res2 t tab n c s0 = Some (t', s)"
  shows "iem_task s = iem_task s0" "tl_valid (client_tasks s)" "tl_members (client_tasks s) = [t]" "action_table s = tab"
    "num_action_messages s = n" "multi_click_state s = multi_click_idle" "input_event_bits s = 0" "repeat_action s = None"
    "held_release s = None" "input_config s = c" "pio_state s = replicate 3 0" "iem_vm s = iem_vm s0" "t' = iem_task s0"
    "debounce_reads (iem_monitor s) = cfg_debounce_period c" "debounce_period (iem_monitor s) = cfg_debounce_reads c"
proof -
  obtain l where l: "TaskList_Create = Some l" "tl_repr l [] []"
    by (auto simp: TaskList_Create_def TaskList_CreateWithCapacity_def TaskList_InitialiseWithCapacity_def TASK_LIST_MAX_TASKS_def
        TASK_LIST_SIZE_BITS_def taskList_FlexibleSizeSet_def tl_repr_def union_of_def data_of_def)
  have v: "tl_valid l" "tl_members l = []"
    using tl_validI [OF l(2)] tl_members_repr [OF l(2)] by (simp_all add: tasks_ok_def)
  obtain b l' where l': "TaskList_AddTask l t = Some (b, l')"
    using assms by (auto simp: InputEventManagerInit_def bind_eq_Some_conv l(1))
  have nz: "t \<noteq> NULL_TASK" using l' by (auto simp: TaskList_AddTask_def bind_eq_Some_conv)
  have k: "tl_valid l'" "tl_members l' = [t]" using tl.add_new [OF v(1) nz] l' v(2) by auto
  define s1 where "s1 = s0\<lparr>client_tasks := l', action_table := tab, num_action_messages := n,
    multi_click_state := multi_click_idle, input_event_bits := 0, repeat_action := None, held_release := None,
    input_config := c, pio_state := replicate NUMBER_OF_PIO_BANKS 0, numActivePios := 0, maxActivePios := 0\<rparr>"
  obtain s2 s3 where s2: "configurePioHardware res1 res2 s1 = Some s2" "register_pins get [0 ..< IEM_NUM_PIOS] s2 = Some s3"
    "s = s3\<lparr>maxActivePios := 1, iem_monitor := PioMonitorSetDebounceParameters (cfg_debounce_period c)
         (cfg_debounce_reads c) (iem_monitor s3)\<rparr>" "t' = iem_task s3"
    using assms unfolding s1_def
    by (auto simp: InputEventManagerInit_def registerForPioEvents_def bind_eq_Some_conv l(1) l')
  obtain cs ps where e: "s2 = s1\<lparr>iem_pio_calls := cs\<rparr>" "s3 = s2\<lparr>iem_monitor := (iem_monitor s2)\<lparr>cl_list := ps\<rparr>\<rparr>"
    using configure_banks_frame s2(1) register_pins_frame [OF s2(2)] unfolding configurePioHardware_def by metis
  show "iem_task s = iem_task s0" "tl_valid (client_tasks s)" "tl_members (client_tasks s) = [t]" "action_table s = tab"
    "num_action_messages s = n" "multi_click_state s = multi_click_idle" "input_event_bits s = 0" "repeat_action s = None"
    "held_release s = None" "input_config s = c" "pio_state s = replicate 3 0" "iem_vm s = iem_vm s0" "t' = iem_task s0"
    "debounce_reads (iem_monitor s) = cfg_debounce_period c" "debounce_period (iem_monitor s) = cfg_debounce_reads c"
    by (simp_all add: s2(3,4) e s1_def k PioMonitorSetDebounceParameters_def NUMBER_OF_PIO_BANKS_def PIOS_PER_BANK_def iem_vm_def)
qed

lemma iem_init_inv:
  assumes "iem_task s0 \<noteq> INVALIDATED_TASK" "t \<noteq> iem_task s0" "\<forall>i\<in>iem_internal_ids. timers s0 i = {#}" "unat n = length tab"
    "pins_ok c (replicate 3 0)" "InputEventManagerInit get res1 res2 t tab n c s0 = Some (t', s)"
  shows "iem_inv s"
proof -
  note f = InputEventManagerInit_fields [OF assms(6)]
  have ok: "iem_ok s" using assms(1,2,4) by (simp add: iem_ok_def f)
  have "\<forall>i\<in>iem_internal_ids. timers s i = {#}" using assms(3) by (simp add: timers_def f)
  then have now: "iem_now s" by (simp add: iem_now_def inv_at_def timers_inv_def f iem_internal_ids_def)
  obtain w where w: "calculateInputEvents s = Some w" "\<forall>j<32. bit w j \<longleftrightarrow> (\<exists>pin<96. pin_set (pio_state s) pin \<and> event_of (input_config s) pin = j)"
    using calculateInputEvents_done [of s] assms(5) by (auto simp: f)
  have "w = 0" using w(2) by (intro bit_eqI) (auto simp: f pin_set_def)
  then show ?thesis using ok now w(1) assms(5) by (simp add: iem_inv_def f)
qed

lemma register_pins_total:
  assumes "\<forall>p\<in>set ps. p < length (pio_to_iem_id (input_config s))" "pm_clients_ok (cl_list (iem_monitor s))"
  shows "\<exists>s'. register_pins get ps s = Some s'"
  using assms
proof (induction ps arbitrary: s)
  case (Cons p ps)
  obtain cs where cs: "addClient get (iem_task s) (of_nat p) (cl_list (iem_monitor s)) = Some cs" "pm_clients_ok cs"
    using addClient_done [OF Cons.prems(2), of get "iem_task s" "of_nat p"] by blast
  show ?case
    using Cons.IH [of s] Cons.IH [of "s\<lparr>iem_monitor := (iem_monitor s)\<lparr>cl_list := cs\<rparr>\<rparr>"] Cons.prems cs
    by (simp add: PioMonitorRegisterTask_def)
qed simp

lemma configure_banks_total:
  assumes "\<forall>b\<in>set banks. b < length (pio_input_mask (input_config s)) \<and> r1 b = 0 \<and> r2 b = 0"
  shows "\<exists>s'. configure_banks r1 r2 banks s = Some s'"
  using assms by (induction banks arbitrary: s) (simp_all add: log_pio_def Let_def)

lemma InputEventManagerInit_total:
  assumes "pins_ok c (replicate 3 0)" "\<forall>b. res1 b = 0 \<and> res2 b = 0" "t \<noteq> NULL_TASK" "pm_clients_ok (cl_list (iem_monitor s0))"
  shows "\<exists>s. InputEventManagerInit get res1 res2 t tab n c s0 = Some (iem_task s0, s)"
proof -
  obtain l where l: "TaskList_Create = Some l" "tl_repr l [] []"
    by (auto simp: TaskList_Create_def TaskList_CreateWithCapacity_def TaskList_InitialiseWithCapacity_def TASK_LIST_MAX_TASKS_def
        TASK_LIST_SIZE_BITS_def taskList_FlexibleSizeSet_def tl_repr_def union_of_def data_of_def)
  have v: "tl_valid l" "tl_members l = []"
    using tl_validI [OF l(2)] tl_members_repr [OF l(2)] by (simp_all add: tasks_ok_def)
  obtain l' where l': "TaskList_AddTask l t = Some (True, l')" using tl.add_new [OF v(1) assms(3)] v(2) by auto
  define s1 where "s1 = s0\<lparr>client_tasks := l', action_table := tab, num_action_messages := n,
    multi_click_state := multi_click_idle, input_event_bits := 0, repeat_action := None, held_release := None,
    input_config := c, pio_state := replicate NUMBER_OF_PIO_BANKS 0, numActivePios := 0, maxActivePios := 0\<rparr>"
  have c1: "input_config s1 = c" "iem_monitor s1 = iem_monitor s0" by (simp_all add: s1_def)
  have banks: "NUMBER_OF_PIO_BANKS = 3" "IEM_NUM_PIOS = 96"
    by (simp_all add: NUMBER_OF_PIO_BANKS_def IEM_NUM_PIOS_def PIOS_PER_BANK_def)
  obtain s2 where s2: "configurePioHardware res1 res2 s1 = Some s2"
    using configure_banks_total [of "[0 ..< 3]" s1 res1 res2] assms(1,2)
    by (auto simp: configurePioHardware_def banks c1 pins_ok_def)
  obtain cs where e: "s2 = s1\<lparr>iem_pio_calls := cs\<rparr>" using configure_banks_frame s2 unfolding configurePioHardware_def by blast
  obtain s3 where s3: "register_pins get [0 ..< IEM_NUM_PIOS] s2 = Some s3"
    using register_pins_total [of "[0 ..< 96]" s2 get] assms(1,4) by (auto simp: e c1 banks pins_ok_def)
  have "InputEventManagerInit get res1 res2 t tab n c s0 = Some (iem_task s3, s3\<lparr>maxActivePios := 1,
      iem_monitor := PioMonitorSetDebounceParameters (cfg_debounce_period c) (cfg_debounce_reads c) (iem_monitor s3)\<rparr>)"
    using s2 s3 by (simp add: InputEventManagerInit_def l(1) l' s1_def [symmetric] registerForPioEvents_def)
  then show ?thesis using InputEventManagerInit_fields(13) by fastforce
qed

lemma iem_reachable_inv: "iem_reachable s \<Longrightarrow> iem_inv s"
proof (induction rule: iem_reachable.induct)
  case (init s0 t n tab c get res1 res2 t' s)
  then show ?case by (intro iem_init_inv)
qed (rule iem_step_inv)

section \<open>Series of clicks\<close>

text \<open>A click presses the events of a mask and releases them.\<close>

definition click :: "u32 \<Rightarrow> nat \<Rightarrow> u32 \<Rightarrow> InputEventState \<Rightarrow> InputEventState option" where
  "click now addr m s =
     do {
       s1 \<leftarrow> inputEventsChanged now addr (input_event_bits s OR m) s;
       inputEventsChanged now addr (input_event_bits s) s1
     }"

fun clicks :: "u32 \<Rightarrow> nat \<Rightarrow> u32 \<Rightarrow> nat \<Rightarrow> InputEventState \<Rightarrow> InputEventState option" where
  "clicks now addr m 0 s = Some s"
| "clicks now addr m (Suc n) s = do { s1 \<leftarrow> click now addr m s; clicks now addr m n s1 }"

text \<open>The entry \<open>i\<close> is the first one that counts clicks of the mask \<open>m\<close>.\<close>

definition counts_clicks :: "InputActionMessage list \<Rightarrow> nat \<Rightarrow> u32 \<Rightarrow> bool" where
  "counts_clicks tab i m = (i < length tab \<and> m \<noteq> 0 \<and> ia_action (tab ! i) = MULTI_CLICK \<and> ia_bits (tab ! i) = m \<and> ia_mask (tab ! i) = m
     \<and> (\<forall>k<i. ia_action (tab ! k) = MULTI_CLICK \<longrightarrow> m AND ia_mask (tab ! k) = 0))"

definition counting :: "u32 \<Rightarrow> nat \<Rightarrow> InputMultiClickState" where
  "counting m n = \<lparr>input_event_mask = m, mc_state = IEM_STATE_MULTICLICK_COUNTING, n_clicks = of_nat n\<rparr>"

definition same_set_up :: "InputEventState \<Rightarrow> InputEventState \<Rightarrow> bool" where
  "same_set_up s s' = (iem_task s' = iem_task s \<and> client_tasks s' = client_tasks s \<and> action_table s' = action_table s
     \<and> num_action_messages s' = num_action_messages s)"

lemma find_first_entry:
  assumes "i < n" "P i" "\<forall>k<i. \<not> P k"
  shows "find P [0 ..< n] = Some i"
  using assms by (auto simp: find_Some_iff intro!: exI [of _ i])

lemma click_entry_of:
  assumes "counts_clicks (action_table s) i m" "input_event_bits s XOR b = m"
  shows "click_entry s b [0 ..< length (action_table s)] = Some i"
  using assms unfolding click_entry_def counts_clicks_def by (intro find_first_entry) auto

lemma change_at_entry:
  assumes "iem_ok s" "iem_now s" "click_entry s b [0 ..< length (action_table s)] = Some i"
  shows "\<exists>s'. inputEventsChanged now addr b s = Some s' \<and> iem_ok s' \<and> iem_now s' \<and> same_set_up s s' \<and> input_event_bits s' = b
    \<and> (multi_click_state s', timers s' IEM_INTERNAL_MULTI_CLICK_TIMER)
       = click_step addr i (action_table s ! i) (actionIsPress b (action_table s ! i)) (actionIsRelease s (action_table s ! i) b)
          (multi_click_state s, timers s IEM_INTERNAL_MULTI_CLICK_TIMER)"
proof -
  obtain q T r h mc where c: "inputEventsChanged now addr b s
      = Some ((with_iem_vm q s)\<lparr>repeat_action := r, held_release := h, multi_click_state := mc, input_event_bits := b\<rparr>)"
    "vm_moved s q T (reported s b [0 ..< length (action_table s)] (held_release s))"
    "timers_inv (action_table s) (\<lambda>i. actionIsPress b (action_table s ! i)) T r h mc"
    "(mc, T IEM_INTERNAL_MULTI_CLICK_TIMER) = clicked addr s b (click_entry s b [0 ..< length (action_table s)])"
    using inputEventsChanged_done [OF assms(1,2)] by blast
  define s' where "s' = (with_iem_vm q s)\<lparr>repeat_action := r, held_release := h, multi_click_state := mc, input_event_bits := b\<rparr>"
  have f: "iem_task s' = iem_task s" "client_tasks s' = client_tasks s" "action_table s' = action_table s" "iem_vm s' = q"
    "num_action_messages s' = num_action_messages s" "input_event_bits s' = b" "repeat_action s' = r" "held_release s' = h"
    "multi_click_state s' = mc" by (simp_all add: s'_def)
  have t: "timers s' = T" by (rule vm_moved_timers [OF c(2) f(1,4)])
  have "iem_now s'" using c(3) by (simp add: iem_now_def inv_at_def t f)
  moreover have "iem_ok s'" using assms(1) by (simp add: iem_ok_def f)
  ultimately show ?thesis
    using c(1,4) assms(3) unfolding s'_def [symmetric]
    by (intro exI [of _ s']) (simp add: same_set_up_def f t clicked_def)
qed

lemmas change_counted = change_at_entry [OF _ _ click_entry_of]

lemma click_bits:
  assumes "b AND m = (0 :: u32)"
  shows "b XOR (b OR m) = m" "(b OR m) XOR b = m" "(b OR m) AND m = m"
proof -
  have z: "\<not> (bit b n \<and> bit m n)" for n
  proof -
    have "bit (b AND m) n = bit (0 :: u32) n" using assms by simp
    then show ?thesis by (simp add: bit_simps)
  qed
  show "b XOR (b OR m) = m" "(b OR m) XOR b = m" by (rule bit_eqI; use z in \<open>auto simp: bit_simps\<close>)+
  show "(b OR m) AND m = m" by (rule bit_eqI) (auto simp: bit_simps)
qed

lemma click_once:
  assumes "iem_ok s" "iem_now s" "counts_clicks (action_table s) i m" "input_event_bits s AND m = 0"
    "multi_click_state s = (if k = 0 \<and> idle then multi_click_idle else counting m k)"
  shows "\<exists>s'. click now addr m s = Some s' \<and> iem_ok s' \<and> iem_now s' \<and> same_set_up s s' \<and> input_event_bits s' = input_event_bits s
    \<and> multi_click_state s' = counting m (k + 1) \<and> timers s' IEM_INTERNAL_MULTI_CLICK_TIMER = {#pointer_to addr i#}"
proof -
  let ?b = "input_event_bits s" and ?a = "action_table s ! i"
  have a: "ia_bits ?a = m" "ia_mask ?a = m" "m \<noteq> 0" using assms(3) by (simp_all add: counts_clicks_def)
  have press: "actionIsPress (?b OR m) ?a" "\<not> actionIsPress ?b ?a"
    using click_bits(3) [OF assms(4)] assms(4) a by (simp_all add: actionIsPress_def)
  obtain s1 where s1: "inputEventsChanged now addr (?b OR m) s = Some s1" "iem_ok s1" "iem_now s1" "same_set_up s s1"
    "input_event_bits s1 = ?b OR m"
    "(multi_click_state s1, timers s1 IEM_INTERNAL_MULTI_CLICK_TIMER) = click_step addr i ?a True (actionIsRelease s ?a (?b OR m))
      (multi_click_state s, timers s IEM_INTERNAL_MULTI_CLICK_TIMER)"
    using change_counted [OF assms(1-3) click_bits(1) [OF assms(4)], of now addr] press by auto
  have m1: "multi_click_state s1 = counting m k" "timers s1 IEM_INTERNAL_MULTI_CLICK_TIMER = {#pointer_to addr i#}"
    using s1(6) assms(5) a by (auto simp: click_step_def counting_def multi_click_idle_def split: if_splits)
  have tab: "action_table s1 = action_table s" using s1(4) by (simp add: same_set_up_def)
  have rel: "actionIsRelease s1 ?a ?b"
    using press a click_bits(3) [OF assms(4)] s1(5) by (simp add: actionIsRelease_def getPreviousBitState_def)
  have x: "input_event_bits s1 XOR ?b = m" using s1(5) click_bits(2) [OF assms(4)] by simp
  obtain s2 where s2: "inputEventsChanged now addr ?b s1 = Some s2" "iem_ok s2" "iem_now s2" "same_set_up s1 s2" "input_event_bits s2 = ?b"
    "(multi_click_state s2, timers s2 IEM_INTERNAL_MULTI_CLICK_TIMER) = click_step addr i ?a False True
      (multi_click_state s1, timers s1 IEM_INTERNAL_MULTI_CLICK_TIMER)"
    using change_counted [OF s1(2,3) _ x, of i now addr] assms(3) rel press(2) by (auto simp: tab)
  have "multi_click_state s2 = counting m (k + 1)" "timers s2 IEM_INTERNAL_MULTI_CLICK_TIMER = {#pointer_to addr i#}"
    using s2(6) m1 a by (auto simp: click_step_def counting_def add.commute)
  then show ?thesis
    using s1(1,4) s2 by (intro exI [of _ s2]) (simp add: click_def same_set_up_def)
qed

lemma clicks_done:
  assumes "iem_ok s" "iem_now s" "counts_clicks (action_table s) i m" "input_event_bits s AND m = 0" "multi_click_state s = counting m k"
    "timers s IEM_INTERNAL_MULTI_CLICK_TIMER = {#pointer_to addr i#}"
  shows "\<exists>s'. clicks now addr m n s = Some s' \<and> iem_ok s' \<and> iem_now s' \<and> same_set_up s s' \<and> input_event_bits s' = input_event_bits s
    \<and> multi_click_state s' = counting m (k + n) \<and> timers s' IEM_INTERNAL_MULTI_CLICK_TIMER = {#pointer_to addr i#}"
  using assms
proof (induction n arbitrary: s k)
  case 0
  then show ?case by (simp add: same_set_up_def)
next
  case (Suc n)
  obtain s1 where s1: "click now addr m s = Some s1" "iem_ok s1" "iem_now s1" "same_set_up s s1" "input_event_bits s1 = input_event_bits s"
    "multi_click_state s1 = counting m (k + 1)" "timers s1 IEM_INTERNAL_MULTI_CLICK_TIMER = {#pointer_to addr i#}"
    using click_once [OF Suc.prems(1-4), of k False now addr] Suc.prems(5) by auto
  have "counts_clicks (action_table s1) i m" "input_event_bits s1 AND m = 0"
    using Suc.prems(3,4) s1(4,5) by (simp_all add: same_set_up_def)
  then obtain s2 where "clicks now addr m n s1 = Some s2" "iem_ok s2" "iem_now s2" "same_set_up s1 s2"
    "input_event_bits s2 = input_event_bits s1" "multi_click_state s2 = counting m (k + 1 + n)"
    "timers s2 IEM_INTERNAL_MULTI_CLICK_TIMER = {#pointer_to addr i#}"
    using Suc.IH [OF s1(2,3) _ _ s1(6,7)] by blast
  then show ?case using s1(1,4,5) by (intro exI [of _ s2]) (simp add: same_set_up_def)
qed

text \<open>What the clients get when the timer ends the series.\<close>

lemma click_series_end:
  assumes "iem_ok s" "counts_clicks (action_table s) i m" "input_event_bits s AND m = 0" "n < 2 ^ 16"
    "multi_click_state s = counting m n" "u \<in> set (tl_members (client_tasks s))" "u \<noteq> INVALIDATED_TASK"
  shows "\<exists>s'. iemHandler now addr get IEM_INTERNAL_MULTI_CLICK_TIMER (pointer_to addr' i) s = Some s'
    \<and> multi_click_state s' = multi_click_idle
    \<and> posted_data u (iem_vm s') = posted_data u (iem_vm s) + mset (map (\<lambda>e. (ia_message e, None))
        (filter (\<lambda>e. ia_action e = MULTI_CLICK \<and> ia_bits e = m \<and> ia_mask e = m \<and> unat (ia_count e) = n) (action_table s)))"
proof -
  let ?a = "action_table s ! i"
  have a: "i < length (action_table s)" "ia_bits ?a = m" "ia_mask ?a = m" "m \<noteq> 0" using assms(2) by (simp_all add: counts_clicks_def)
  have ne: "input_event_bits s \<noteq> ia_mask ?a" using assms(3) a by auto
  obtain q where q: "multi_click_timer now i s = Some ((with_iem_vm q s)\<lparr>multi_click_state := multi_click_idle\<rparr>)"
    "vm_moved s q ((timers s)(IEM_INTERNAL_MULTI_CLICK_TIMER := {#})) (click_messages s ?a [0 ..< length (action_table s)])"
    using multi_click_timer_done [OF assms(1) a(1) ne] by blast
  have cnt: "c = of_nat n \<longleftrightarrow> unat c = n" for c :: u16
    using assms(4) by (auto simp: unat_of_nat)
  have "click_messages s ?a [0 ..< length (action_table s)]
      = map ia_message (filter (\<lambda>e. ia_action e = MULTI_CLICK \<and> unat (ia_count e) = n \<and> ia_bits e = m \<and> ia_mask e = m)
          (map ((!) (action_table s)) [0 ..< length (action_table s)]))"
    by (simp add: click_messages_def assms(5) counting_def a cnt filter_map o_def del: map_nth)
  then have "click_messages s ?a [0 ..< length (action_table s)]
      = map ia_message (filter (\<lambda>e. ia_action e = MULTI_CLICK \<and> ia_bits e = m \<and> ia_mask e = m \<and> unat (ia_count e) = n)
          (action_table s))" by (simp add: map_nth conj_commute conj_left_commute)
  moreover have "u \<noteq> iem_task s" using assms(1,6) by (auto simp: iem_ok_def)
  ultimately have "posted_data u q = posted_data u (iem_vm s) + mset (map (\<lambda>e. (ia_message e, None))
        (filter (\<lambda>e. ia_action e = MULTI_CLICK \<and> ia_bits e = m \<and> ia_mask e = m \<and> unat (ia_count e) = n) (action_table s)))"
    using q(2) assms(6,7) by (simp add: vm_moved_def o_def)
  then show ?thesis
    using q(1) by (intro exI [of _ "(with_iem_vm q s)\<lparr>multi_click_state := multi_click_idle\<rparr>"])
      (simp add: iemHandler_def pio_message_ids internal_ids)
qed

section \<open>Properties\<close>

text \<open>The messages of a change, entry by entry.\<close>

definition entry_reports :: "InputEventState \<Rightarrow> u32 \<Rightarrow> nat \<Rightarrow> bool" where
  "entry_reports s b i =
     (let a = action_table s ! i; differs = (\<lambda>e. (input_event_bits s XOR b) AND ia_mask e \<noteq> 0)
      in differs a \<and> (case ia_action a of
           ENTER \<Rightarrow> actionIsPress b a
         | RELEASE \<Rightarrow> actionIsPress (input_event_bits s) a \<and> \<not> actionIsPress b a
         | HELD_RELEASE \<Rightarrow> actionIsPress (input_event_bits s) a \<and> \<not> actionIsPress b a \<and> held_release s = Some i
             \<and> (\<forall>j<i. ia_action (action_table s ! j) = HELD_RELEASE \<and> differs (action_table s ! j)
                 \<longrightarrow> \<not> actionIsPress b (action_table s ! j))
         | _ \<Rightarrow> False))"

lemma reported_from:
  assumes "k \<le> n" "h = (if \<exists>j<k. ia_action (action_table s ! j) = HELD_RELEASE
      \<and> (input_event_bits s XOR b) AND ia_mask (action_table s ! j) \<noteq> 0
      \<and> (actionIsPress b (action_table s ! j) \<or> actionIsRelease s (action_table s ! j) b \<and> held_release s = Some j)
    then None else held_release s)"
  shows "reported s b [k ..< n] h = map (\<lambda>i. ia_message (action_table s ! i)) (filter (entry_reports s b) [k ..< n])"
  using assms
proof (induction "n - k" arbitrary: k h)
  case (Suc d)
  define a where "a = action_table s ! k"
  have step: "[k ..< n] = k # [Suc k ..< n]" using Suc(2) by (simp add: upt_conv_Cons)
  have rel: "actionIsRelease s a b \<longleftrightarrow> actionIsPress (input_event_bits s) a \<and> \<not> actionIsPress b a"
    by (simp add: actionIsRelease_def getPreviousBitState_def actionIsPress_def)
  define h' where "h' = (if (input_event_bits s XOR b) AND ia_mask a \<noteq> 0 then held_release_after h s b k a else h)"
  have next': "h' = (if \<exists>j<Suc k. ia_action (action_table s ! j) = HELD_RELEASE
      \<and> (input_event_bits s XOR b) AND ia_mask (action_table s ! j) \<noteq> 0
      \<and> (actionIsPress b (action_table s ! j) \<or> actionIsRelease s (action_table s ! j) b \<and> held_release s = Some j)
    then None else held_release s)"
    unfolding h'_def Suc(4) held_release_after_def by (auto simp: less_Suc_eq a_def)
  have rep: "(input_event_bits s XOR b) AND ia_mask a \<noteq> 0 \<and> reports s h b k a \<longleftrightarrow> entry_reports s b k"
    unfolding entry_reports_def reports_def Suc(4) a_def [symmetric] Let_def rel
    by (auto simp: actionIsRelease_def split: InputEventAction.splits)
  have "reported s b [Suc k ..< n] h' = map (\<lambda>i. ia_message (action_table s ! i)) (filter (entry_reports s b) [Suc k ..< n])"
    using Suc(1) [OF _ _ next'] Suc(2) by simp
  moreover have "reported s b [k ..< n] h = (if entry_reports s b k then [ia_message a] else []) @ reported s b [Suc k ..< n] h'"
    unfolding step using rep by (auto simp: Let_def a_def [symmetric] h'_def)
  ultimately show ?case unfolding step by (simp add: a_def)
qed simp

lemma reported_entries:
  "reported s b [0 ..< n] (held_release s) = map (\<lambda>i. ia_message (action_table s ! i)) (filter (entry_reports s b) [0 ..< n])"
  by (rule reported_from) simp_all

text \<open>
  Clients are told of every press and release: in every reachable state, a change of the input
  events sends to each client exactly the messages of the entries of the action table for which there is something to tell,
  in any order of events and for any table: \<open>ENTER\<close> entries whose combination of events is now complete,
  \<open>RELEASE\<close> entries whose combination no longer is, and the \<open>HELD_RELEASE\<close> entry whose time had expired last, if its
  combination is released; and it cannot fail.
\<close>
lemma input_changes_reported:
  assumes "iem_reachable s" "u \<in> set (tl_members (client_tasks s))" "u \<noteq> INVALIDATED_TASK"
  shows "\<exists>s'. inputEventsChanged now addr b s = Some s' \<and> input_event_bits s' = b
    \<and> posted_data u (iem_vm s') = posted_data u (iem_vm s) + mset (map (\<lambda>i. (ia_message (action_table s ! i), None))
        (filter (entry_reports s b) [0 ..< length (action_table s)]))"
proof -
  have ok: "iem_ok s" "iem_now s" using iem_reachable_inv [OF assms(1)] by (simp_all add: iem_inv_def)
  obtain q T r h m where c: "inputEventsChanged now addr b s
      = Some ((with_iem_vm q s)\<lparr>repeat_action := r, held_release := h, multi_click_state := m, input_event_bits := b\<rparr>)"
    "vm_moved s q T (reported s b [0 ..< length (action_table s)] (held_release s))"
    using inputEventsChanged_done [OF ok] by blast
  have "u \<noteq> iem_task s" using ok(1) assms(2) by (auto simp: iem_ok_def)
  then show ?thesis
    using c(2) assms(2,3) unfolding c(1) reported_entries by (simp add: vm_moved_def o_def)
qed

text \<open>
  C38: The timers of the input event manager belong to what is pressed. In every state it can reach, whatever happens to
  the pins and however its messages interleave: each pending hold timer is for an entry of its kind whose events are
  pressed now, no entry has two of them; the entry remembered for a held release is still
  pressed; at most one repeat timer is pending, and then there is an action to repeat; no click timer is
  pending unless clicks are being counted, and then at most one, for the mask that is counted; and the input
  events are those of the pins.
\<close>
theorem input_timers_sound:
  assumes "iem_reachable s"
  shows "(\<forall>k id. (id, k) \<in> {(IEM_INTERNAL_HELD_TIMER, HELD), (IEM_INTERNAL_HELD_RELEASE_TIMER, HELD_RELEASE)} \<longrightarrow>
      (\<forall>m\<in>#timers s id. \<exists>i<length (action_table s). message_action m = Some i \<and> ia_action (action_table s ! i) = k
         \<and> actionIsPress (input_event_bits s) (action_table s ! i))
      \<and> (\<forall>i. size (filter_mset (\<lambda>m. message_action m = Some i) (timers s id)) \<le> 1))
    \<and> (\<forall>i. held_release s = Some i \<longrightarrow> actionIsPress (input_event_bits s) (action_table s ! i))
    \<and> size (timers s IEM_INTERNAL_REPEAT_TIMER) \<le> 1
    \<and> (timers s IEM_INTERNAL_REPEAT_TIMER \<noteq> {#} \<longrightarrow> repeat_action s \<noteq> None)
    \<and> (mc_state (multi_click_state s) = IEM_STATE_MULTICLICK_IDLE \<longrightarrow>
         timers s IEM_INTERNAL_MULTI_CLICK_TIMER = {#} \<and> n_clicks (multi_click_state s) = 0)
    \<and> size (timers s IEM_INTERNAL_MULTI_CLICK_TIMER) \<le> 1
    \<and> (\<forall>m\<in>#timers s IEM_INTERNAL_MULTI_CLICK_TIMER. \<exists>i<length (action_table s). message_action m = Some i
         \<and> ia_mask (action_table s ! i) = input_event_mask (multi_click_state s))
    \<and> calculateInputEvents s = Some (input_event_bits s)"
proof -
  have inv: "iem_inv s" by (rule iem_reachable_inv [OF assms])
  then have "timers_inv (action_table s) (\<lambda>i. actionIsPress (input_event_bits s) (action_table s ! i)) (timers s)
      (repeat_action s) (held_release s) (multi_click_state s)" by (simp add: iem_inv_def iem_now_def inv_at_def)
  moreover have "calculateInputEvents s = Some (input_event_bits s)" using inv by (simp add: iem_inv_def)
  ultimately show ?thesis
    by (auto simp: timers_inv_def pressed_timers_def clicks_ok_def multi_click_idle_def split: input_event_multiclick_states.splits)
qed

lemma posted_data_of_others:
  assumes "vm_message_queue (iem_vm s) = q1 @ a # q2" "unicast_to (iem_task s) a" "u \<noteq> iem_task s"
  shows "posted_data u (iem_vm (iem_with_queue (q1 @ q2) s)) = posted_data u (iem_vm s)"
  using assms by (simp add: posted_data_def pending_of_def iem_with_queue_def addressed_to_def unicast_to_def)

text \<open>
  A hold is only reported while the button is held: when the scheduler hands a hold timer to the
  manager in a reachable state, the timer points to a \<open>HELD\<close> entry, every client gets that entry's message
  and no other, and at that moment the pins that are mapped to the entry's events are set exactly as
  the entry requires.
\<close>
lemma held_only_while_pressed:
  assumes "iem_reachable s" "vm_message_queue (iem_vm s) = q1 @ a # q2" "unicast_to (iem_task s) a"
    "am_id a = IEM_INTERNAL_HELD_TIMER"
  shows "\<exists>k s'. message_action (am_message a) = Some k \<and> k < length (action_table s) \<and> ia_action (action_table s ! k) = HELD
    \<and> iemHandler now addr get (am_id a) (am_message a) (iem_with_queue (q1 @ q2) s) = Some s'
    \<and> (\<forall>u\<in>set (tl_members (client_tasks s)). u \<noteq> INVALIDATED_TASK \<longrightarrow>
         posted_data u (iem_vm s') = add_mset (ia_message (action_table s ! k), None) (posted_data u (iem_vm s)))
    \<and> (\<forall>j<32. bit (ia_mask (action_table s ! k)) j \<longrightarrow> bit (ia_bits (action_table s ! k)) j
         = (\<exists>pin<96. pin_set (pio_state s) pin \<and> event_of (input_config s) pin = j))"
proof -
  let ?s = "iem_with_queue (q1 @ q2) s"
  have inv: "iem_inv s" by (rule iem_reachable_inv [OF assms(1)])
  have d: "iem_inv ?s" "delivered_ok ?s (am_id a) (am_message a)" using deliver_facts [OF inv assms(2,3)] by simp_all
  have f: "action_table ?s = action_table s" "input_event_bits ?s = input_event_bits s" "client_tasks ?s = client_tasks s"
    "iem_task ?s = iem_task s" by (simp_all add: iem_with_queue_def)
  obtain k where k: "message_action (am_message a) = Some k" "k < length (action_table s)" "ia_action (action_table s ! k) = HELD"
    "actionIsPress (input_event_bits s) (action_table s ! k)"
    using d(2) assms(4) by (auto simp: delivered_ok_def f)
  have ok: "iem_ok ?s" "iem_now ?s" using d(1) by (simp_all add: iem_inv_def)
  have k': "k < length (action_table ?s)" using k(2) by (simp only: f)
  from held_timer_done [OF ok k'] obtain q T r where
    h: "held_timer now k ?s = Some ((with_iem_vm q ?s)\<lparr>multi_click_state := multi_click_idle, repeat_action := r\<rparr>)"
    "vm_moved ?s q T [ia_message (action_table s ! k)]" unfolding f by blast
  have told: "posted_data u q = add_mset (ia_message (action_table s ! k), None) (posted_data u (iem_vm s))"
    if "u \<in> set (tl_members (client_tasks s))" "u \<noteq> INVALIDATED_TASK" for u
  proof -
    have "u \<noteq> iem_task s" using that(1) ok(1) by (auto simp: iem_ok_def f)
    then show ?thesis using h(2) that posted_data_of_others [OF assms(2,3)] by (simp add: vm_moved_def f)
  qed
  have bits: "bit (ia_bits (action_table s ! k)) j = (\<exists>pin<96. pin_set (pio_state s) pin \<and> event_of (input_config s) pin = j)"
    if "j < 32" "bit (ia_mask (action_table s ! k)) j" for j
  proof -
    have "bit (ia_bits (action_table s ! k)) j = bit (input_event_bits s) j"
      using k(4) that by (simp add: actionIsPress_def bit_and_iff)
    then show ?thesis using calculateInputEvents_done [of s] inv that(1) by (auto simp: iem_inv_def)
  qed
  show ?thesis
    using k(1-3) h(1) told bits assms(4)
    by (intro exI [of _ k] exI [of _ "(with_iem_vm q ?s)\<lparr>multi_click_state := multi_click_idle, repeat_action := r\<rparr>"])
      (simp add: iemHandler_def pio_message_ids internal_ids)
qed

text \<open>
  C39: Clicks are counted: for a button whose mask \<open>m\<close> is the mask and the bits of the first \<open>MULTI_CLICK\<close> entry
  of the table that shares an event with it (\<open>counts_clicks\<close>), from a reachable state in which no clicks are being
  counted and the button is not pressed, \<open>n\<close> presses and releases of it that follow one another before the click
  timer expires leave one click timer pending; when it is delivered, every client gets the messages of exactly the
  entries for \<open>n\<close> clicks of that button, and no clicks are being counted any more. Where an entry for a
  combination of buttons comes first, the code looks at that entry only (\<open>combination_hides_clicks\<close>).
\<close>
theorem clicks_counted:
  assumes "iem_reachable s" "counts_clicks (action_table s) i m" "input_event_bits s AND m = 0"
    "mc_state (multi_click_state s) = IEM_STATE_MULTICLICK_IDLE" "0 < n" "n < 2 ^ 16"
    "u \<in> set (tl_members (client_tasks s))" "u \<noteq> INVALIDATED_TASK"
  shows "\<exists>s1. clicks now addr m n s = Some s1
    \<and> timers s1 IEM_INTERNAL_MULTI_CLICK_TIMER = {#pointer_to addr i#}
    \<and> (\<forall>q. \<exists>s2. iemHandler now addr get IEM_INTERNAL_MULTI_CLICK_TIMER (pointer_to addr i) (iem_with_queue q s1) = Some s2
        \<and> multi_click_state s2 = multi_click_idle
        \<and> posted_data u (iem_vm s2) = posted_data u (iem_vm (iem_with_queue q s1)) + mset (map (\<lambda>e. (ia_message e, None))
            (filter (\<lambda>e. ia_action e = MULTI_CLICK \<and> ia_bits e = m \<and> ia_mask e = m \<and> unat (ia_count e) = n) (action_table s))))"
proof -
  have ok: "iem_ok s" "iem_now s" using iem_reachable_inv [OF assms(1)] by (simp_all add: iem_inv_def)
  obtain n' where n: "n = Suc n'" using assms(5) by (cases n) auto
  have "multi_click_state s = multi_click_idle" using ok(2) assms(4) by (simp add: iem_now_def inv_at_def timers_inv_def clicks_ok_def)
  then obtain s1 where s1: "click now addr m s = Some s1" "iem_ok s1" "iem_now s1" "same_set_up s s1"
    "input_event_bits s1 = input_event_bits s" "multi_click_state s1 = counting m 1"
    "timers s1 IEM_INTERNAL_MULTI_CLICK_TIMER = {#pointer_to addr i#}"
    using click_once [OF ok assms(2,3), of 0 True now addr] by auto
  have "counts_clicks (action_table s1) i m" "input_event_bits s1 AND m = 0"
    using assms(2,3) s1(4,5) by (simp_all add: same_set_up_def)
  then obtain s2 where s2: "clicks now addr m n' s1 = Some s2" "iem_ok s2" "same_set_up s1 s2" "input_event_bits s2 = input_event_bits s1"
    "multi_click_state s2 = counting m n" "timers s2 IEM_INTERNAL_MULTI_CLICK_TIMER = {#pointer_to addr i#}"
    using clicks_done [OF s1(2,3) _ _ s1(6,7), of now n'] n by auto
  have f: "action_table s2 = action_table s" "client_tasks s2 = client_tasks s"
    using s1(4) s2(3) by (simp_all add: same_set_up_def)
  have "\<exists>s3. iemHandler now addr get IEM_INTERNAL_MULTI_CLICK_TIMER (pointer_to addr i) (iem_with_queue q s2) = Some s3
        \<and> multi_click_state s3 = multi_click_idle
        \<and> posted_data u (iem_vm s3) = posted_data u (iem_vm (iem_with_queue q s2)) + mset (map (\<lambda>e. (ia_message e, None))
            (filter (\<lambda>e. ia_action e = MULTI_CLICK \<and> ia_bits e = m \<and> ia_mask e = m \<and> unat (ia_count e) = n) (action_table s)))" for q
  proof -
    let ?s = "iem_with_queue q s2"
    have g: "action_table ?s = action_table s" "client_tasks ?s = client_tasks s" "input_event_bits ?s = input_event_bits s"
      "multi_click_state ?s = counting m n" "iem_ok ?s"
      using f s1(5) s2 by (simp_all add: iem_with_queue_def iem_ok_def)
    show ?thesis
      using click_series_end [OF g(5), of i m n u now addr get addr] assms(2,3,6-8) unfolding g by simp
  qed
  then show ?thesis using s1(1) s2(1,6) n by (intro exI [of _ s2]) simp
qed

text \<open>
  Only the first \<open>MULTI_CLICK\<close> entry that shares an event with the change is looked at: if it is for a
  combination that is not pressed, a click of one of its buttons is not counted, whatever entries follow.
\<close>
lemma combination_hides_clicks:
  assumes "iem_reachable s" "click_entry s (input_event_bits s OR m) [0 ..< length (action_table s)] = Some k"
    "input_event_bits s AND m = 0" "mc_state (multi_click_state s) = IEM_STATE_MULTICLICK_IDLE"
    "\<not> actionIsPress (input_event_bits s OR m) (action_table s ! k)" "\<not> actionIsPress (input_event_bits s) (action_table s ! k)"
  shows "\<exists>s'. click now addr m s = Some s' \<and> multi_click_state s' = multi_click_idle
    \<and> timers s' IEM_INTERNAL_MULTI_CLICK_TIMER = {#}"
proof -
  have ok: "iem_ok s" "iem_now s" using iem_reachable_inv [OF assms(1)] by (simp_all add: iem_inv_def)
  have idle: "multi_click_state s = multi_click_idle" "timers s IEM_INTERNAL_MULTI_CLICK_TIMER = {#}"
    using ok(2) assms(4) by (simp_all add: iem_now_def inv_at_def timers_inv_def clicks_ok_def)
  obtain s1 where s1: "inputEventsChanged now addr (input_event_bits s OR m) s = Some s1" "iem_ok s1" "iem_now s1"
    "same_set_up s s1" "input_event_bits s1 = input_event_bits s OR m" "multi_click_state s1 = multi_click_idle"
    "timers s1 IEM_INTERNAL_MULTI_CLICK_TIMER = {#}"
    using change_at_entry [OF ok assms(2), of now addr] assms(5) idle
    by (auto simp: click_step_def Let_def multi_click_idle_def split: if_split_asm)
  have t: "action_table s1 = action_table s" using s1(4) by (simp add: same_set_up_def)
  have "input_event_bits s1 XOR input_event_bits s = input_event_bits s XOR (input_event_bits s OR m)"
    using click_bits [OF assms(3)] s1(5) by simp
  then have e: "click_entry s1 (input_event_bits s) [0 ..< length (action_table s1)] = Some k"
    using assms(2) unfolding click_entry_def t by simp
  obtain s2 where "inputEventsChanged now addr (input_event_bits s) s1 = Some s2" "multi_click_state s2 = multi_click_idle"
    "timers s2 IEM_INTERNAL_MULTI_CLICK_TIMER = {#}"
    using change_at_entry [OF s1(2,3) e, of now addr] assms(6) s1(6,7) unfolding t
    by (auto simp: click_step_def Let_def multi_click_idle_def split: if_split_asm)
  with s1(1) show ?thesis by (auto simp: click_def)
qed

section \<open>A demonstration: one button on pin 3\<close>

definition demo_config :: InputEventConfig where
  "demo_config = \<lparr>pio_to_iem_id = (replicate 96 (- 1))[3 := 0], pio_input_mask = [8, 0, 0],
     cfg_debounce_reads = 4, cfg_debounce_period = 5\<rparr>"

definition demo_actions :: "InputActionMessage list" where
  "demo_actions = [
     \<lparr>ia_bits = 1, ia_mask = 1, ia_action = HELD, ia_timeout = 1000, ia_repeat = 0, ia_count = 0, ia_message = 0x501\<rparr>,
     \<lparr>ia_bits = 1, ia_mask = 1, ia_action = MULTI_CLICK, ia_timeout = 0, ia_repeat = 0, ia_count = 1, ia_message = 0x502\<rparr>,
     \<lparr>ia_bits = 1, ia_mask = 1, ia_action = MULTI_CLICK, ia_timeout = 0, ia_repeat = 0, ia_count = 2, ia_message = 0x503\<rparr>,
     \<lparr>ia_bits = 1, ia_mask = 1, ia_action = ENTER, ia_timeout = 0, ia_repeat = 0, ia_count = 0, ia_message = 0x504\<rparr>]"

definition demo_start :: InputEventState where
  "demo_start = \<lparr>iem_task = 9, client_tasks = TaskList_WithDataInitialise, action_table = [], num_action_messages = 0,
     multi_click_state = multi_click_idle, input_event_bits = 0, repeat_action = None, held_release = None,
     input_config = demo_config, pio_state = [], numActivePios = 0, maxActivePios = 0,
     iem_monitor = \<lparr>pm_task = 4, cl_list = [], debounce_reads = 0, debounce_period = 0, pm_enabled = False,
       pm_vm = \<lparr>vm_message_queue = [], vm_delivered_messages = [], sched_event_pending = False, put_message_ok = True,
         registered_hdlrs = [], sink_source_hdlrs = [], run_timer = None\<rparr>, pm_debounced = []\<rparr>,
     iem_pio_calls = []\<rparr>"

lemma demo_pin:
  assumes "pin < 96"
  shows "pin_set [8, 0, 0] pin \<longleftrightarrow> pin = 3"
proof -
  have b8: "bit (8 :: u32) n \<longleftrightarrow> n = 3" for n
  proof -
    have "(8 :: u32) = push_bit 3 1" by simp
    then have "bit (8 :: u32) n \<longleftrightarrow> bit (push_bit 3 (1 :: u32)) n" by metis
    then show ?thesis by (simp only: bit_push_bit_iff bit_1_iff) auto
  qed
  consider "pin div 32 = 0" | "pin div 32 = 1" | "pin div 32 = 2" using assms by linarith
  then show ?thesis
  proof cases
    case 1
    show ?thesis unfolding pin_set_def 1 nth_Cons_0 b8 using 1 div_mult_mod_eq [of pin 32] by auto
  next
    case 2
    then show ?thesis by (auto simp: pin_set_def)
  next
    case 3
    then show ?thesis by (auto simp: pin_set_def)
  qed
qed

lemma demo_pins_ok: "pins_ok demo_config (replicate 3 0)" "pins_ok demo_config [8, 0, 0]"
proof -
  have "\<not> pin_set (replicate 3 0) pin" if "pin < 96" for pin using that by (simp add: pin_set_def)
  then show "pins_ok demo_config (replicate 3 0)" "pins_ok demo_config [8, 0, 0]"
    using demo_pin by (auto simp: pins_ok_def demo_config_def)
qed

lemma iem_demo_reachable:
  assumes "unat n = length tab"
  shows "\<exists>s. iem_reachable s \<and> iem_task s = 9 \<and> tl_members (client_tasks s) = [7] \<and> action_table s = tab
     \<and> num_action_messages s = n \<and> input_event_bits s = 0 \<and> multi_click_state s = multi_click_idle \<and> held_release s = None
     \<and> iem_vm s = iem_vm demo_start \<and> pio_state s = [0, 0, 0] \<and> input_config s = demo_config"
proof -
  obtain s where s: "InputEventManagerInit (\<lambda>_. 0) (\<lambda>_. 0) (\<lambda>_. 0) 7 tab n demo_config demo_start = Some (iem_task demo_start, s)"
    using InputEventManagerInit_total [OF demo_pins_ok(1), of "\<lambda>_. 0" "\<lambda>_. 0" 7 demo_start "\<lambda>_. 0" tab n]
    by (auto simp: demo_start_def)
  have "iem_reachable s"
    by (rule iem_reachable.init [OF _ _ _ _ demo_pins_ok(1) s])
      (simp_all add: demo_start_def INVALIDATED_TASK_def assms timers_def md.with_id_def posted_data_def iem_vm_def)
  then show ?thesis
    using InputEventManagerInit_fields [OF s] by (intro exI [of _ s]) (simp add: demo_start_def numeral_3_eq_3)
qed

lemma input_changes_reported_witness:
  "\<exists>s s'. iem_reachable s \<and> action_table s = demo_actions \<and> inputEventsChanged 0 100 1 s = Some s' \<and> input_event_bits s' = 1
     \<and> posted_data 7 (iem_vm s') = posted_data 7 (iem_vm s) + {#(0x504, None)#}"
proof -
  obtain s where s: "iem_reachable s" "tl_members (client_tasks s) = [7]" "action_table s = demo_actions" "input_event_bits s = 0"
    using iem_demo_reachable [of 4 demo_actions] by (auto simp: demo_actions_def)
  have e: "filter (entry_reports s 1) [0 ..< length demo_actions] = [3]"
    by (simp add: demo_actions_def upt_rec entry_reports_def s(3,4) actionIsPress_def)
  have "7 \<noteq> INVALIDATED_TASK" by (simp add: INVALIDATED_TASK_def)
  then show ?thesis
    using input_changes_reported [OF s(1), of 7 0 100 1] s e by (auto simp: demo_actions_def)
qed

theorem input_timers_sound_witness:
  "\<exists>s. iem_reachable s \<and> action_table s = demo_actions \<and> size (timers s IEM_INTERNAL_REPEAT_TIMER) \<le> 1
     \<and> timers s IEM_INTERNAL_MULTI_CLICK_TIMER = {#} \<and> calculateInputEvents s = Some 0"
proof -
  obtain s where s: "iem_reachable s" "action_table s = demo_actions" "input_event_bits s = 0" "multi_click_state s = multi_click_idle"
    using iem_demo_reachable [of 4 demo_actions] by (auto simp: demo_actions_def)
  then show ?thesis using input_timers_sound [OF s(1)] by (intro exI [of _ s]) (simp add: multi_click_idle_def)
qed

theorem clicks_counted_witness:
  "\<exists>s s1. iem_reachable s \<and> clicks 0 100 1 2 s = Some s1
     \<and> (\<exists>s2. iemHandler 0 100 (\<lambda>_. 0) IEM_INTERNAL_MULTI_CLICK_TIMER (pointer_to 100 1) (iem_with_queue [] s1) = Some s2
       \<and> posted_data 7 (iem_vm s2) = {#(0x503, None)#})"
proof -
  obtain s where s: "iem_reachable s" "tl_members (client_tasks s) = [7]" "action_table s = demo_actions" "input_event_bits s = 0"
    "multi_click_state s = multi_click_idle"
    using iem_demo_reachable [of 4 demo_actions] by (auto simp: demo_actions_def)
  have c: "counts_clicks (action_table s) 1 1" by (simp add: counts_clicks_def s(3) demo_actions_def)
  have f: "filter (\<lambda>e. ia_action e = MULTI_CLICK \<and> ia_bits e = 1 \<and> ia_mask e = 1 \<and> unat (ia_count e) = 2) demo_actions
      = [demo_actions ! 2]" by (simp add: demo_actions_def)
  have "(7 :: task) \<noteq> INVALIDATED_TASK" by (simp add: INVALIDATED_TASK_def)
  moreover have "mc_state (multi_click_state s) = IEM_STATE_MULTICLICK_IDLE" by (simp add: s(5) multi_click_idle_def)
  ultimately obtain s1 where s1: "clicks 0 100 1 2 s = Some s1" "\<forall>q. \<exists>s2.
      iemHandler 0 100 (\<lambda>_. 0) IEM_INTERNAL_MULTI_CLICK_TIMER (pointer_to 100 1) (iem_with_queue q s1) = Some s2
      \<and> multi_click_state s2 = multi_click_idle
      \<and> posted_data 7 (iem_vm s2) = posted_data 7 (iem_vm (iem_with_queue q s1)) + mset (map (\<lambda>e. (ia_message e, None)) [demo_actions ! 2])"
    using clicks_counted [OF s(1) c, of 2 7 0 100 "\<lambda>_. 0"] s(2,4) unfolding f [symmetric] s(3) by auto
  have "posted_data 7 (iem_vm (iem_with_queue [] s1)) = {#}" by (simp add: iem_with_queue_def posted_data_def)
  then show ?thesis
    using s(1) s1(1) s1(2) [rule_format, of "[]"] by (auto simp: demo_actions_def)
qed

definition demo_pin_message :: "nat pio_payload app_message" where
  "demo_pin_message = (plain_msg 9 MESSAGE_PIO_CHANGED 0)\<lparr>am_message := Some (50, App (Pio_changed
     \<lparr>mpc_state = 8, mpc_time = 0, mpc_state16to31 = 0, mpc_bank = 0\<rparr>))\<rparr>"

definition demo_held_message :: "nat pio_payload app_message" where
  "demo_held_message = (plain_msg 9 IEM_INTERNAL_HELD_TIMER 1000)\<lparr>am_message := pointer_to 100 0\<rparr>"

lemma demo_held:
  "\<exists>s. iem_reachable s \<and> iem_task s = 9 \<and> tl_members (client_tasks s) = [7] \<and> action_table s = [demo_actions ! 0]
     \<and> vm_message_queue (iem_vm s) = [demo_held_message]"
proof -
  obtain s where s: "iem_reachable s" "iem_task s = 9" "tl_members (client_tasks s) = [7]" "action_table s = [demo_actions ! 0]"
    "num_action_messages s = 1" "input_event_bits s = 0" "iem_vm s = iem_vm demo_start" "pio_state s = [0, 0, 0]"
    "input_config s = demo_config"
    using iem_demo_reachable [of 1 "[demo_actions ! 0]"] by auto
  define m where "m = (iem_monitor s)\<lparr>pm_vm := (iem_vm s)\<lparr>vm_message_queue := [demo_pin_message]\<rparr>\<rparr>"
  let ?s1 = "s\<lparr>iem_monitor := m\<rparr>"
  have v: "iem_vm ?s1 = (iem_vm s)\<lparr>vm_message_queue := [demo_pin_message]\<rparr>" by (simp add: iem_vm_def m_def)
  have none: "md.with_id 9 i (iem_vm demo_start) = {#}" for i
    by (simp add: md.with_id_def posted_data_def iem_vm_def demo_start_def)
  have "\<forall>i\<in>iem_internal_ids. md.with_id (iem_task s) i (pm_vm m) = timers s i"
    using none by (simp add: s(2,7) timers_def m_def)
      (simp add: md.with_id_def posted_data_def demo_pin_message_def plain_msg_def addressed_to_def pio_message_ids internal_ids_set)
  then have r1: "iem_reachable ?s1" by (intro iem_reachable.step [OF s(1)] iem_step.others)
  define s2 where "s2 = iem_with_queue [] ?s1"
  have f: "iem_task s2 = 9" "tl_members (client_tasks s2) = [7]" "action_table s2 = [demo_actions ! 0]" "num_action_messages s2 = 1"
    "input_event_bits s2 = 0" "pio_state s2 = [0, 0, 0]" "input_config s2 = demo_config" "iem_vm s2 = iem_vm demo_start"
    using s v by (simp_all add: s2_def iem_with_queue_def) (simp add: iem_vm_def demo_start_def)
  define s3 where "s3 = s2\<lparr>pio_state := [8, 0, 0]\<rparr>"
  have c: "calculateInputEvents s3 = Some 1"
  proof -
    obtain e where e: "calculateInputEvents s3 = Some e"
      "\<forall>j<32. bit e j \<longleftrightarrow> (\<exists>pin<96. pin_set [8, 0, 0] pin \<and> event_of demo_config pin = j)"
      using calculateInputEvents_done [of s3] demo_pins_ok(2) by (auto simp: s3_def f)
    have "event_of demo_config 3 = 0" by (simp add: event_of_def demo_config_def)
    moreover have "(\<exists>pin<96. pin_set [8, 0, 0] pin \<and> event_of demo_config pin = j) \<longleftrightarrow> event_of demo_config 3 = j" for j
      using demo_pin by (auto intro!: exI [of _ 3])
    ultimately have "\<forall>j<32. bit e j \<longleftrightarrow> j = 0" using e(2) by auto
    then have "e = 1" by (intro bit_eqI) (auto simp: bit_1_iff)
    then show ?thesis using e(1) by simp
  qed
  have h: "heldAction 0 100 0 (demo_actions ! 0) 1 s3 = Some (with_iem_vm ((iem_vm demo_start)\<lparr>vm_message_queue := [demo_held_message],
      sched_event_pending := True\<rparr>) s3)"
    by (simp add: heldAction_def heldActionButtonDownAction_def demo_actions_def actionIsPress_def iem_send_later_def
        MessageSendLater_def vm_message_send_later_def recipients_of_def s3_def f insert_msg_def)
      (simp add: demo_start_def iem_vm_def vm_event_trigger_def demo_held_message_def plain_msg_def)
  define s4 where "s4 = (with_iem_vm ((iem_vm demo_start)\<lparr>vm_message_queue := [demo_held_message],
      sched_event_pending := True\<rparr>) s3)\<lparr>input_event_bits := 1\<rparr>"
  have a0: "ia_action (demo_actions ! 0) = HELD" "ia_mask (demo_actions ! 0) = 1" by (simp_all add: demo_actions_def)
  have n3: "num_action_messages s3 = 1" "action_table s3 = [demo_actions ! 0]" "input_event_bits s3 = 0" by (simp_all add: s3_def f)
  have a1: "action_at s3 0 = Some (demo_actions ! 0)" by (simp add: action_at_def n3)
  have "action_loop 0 100 1 1 [0] False s3 = Some (with_iem_vm ((iem_vm demo_start)\<lparr>vm_message_queue := [demo_held_message],
      sched_event_pending := True\<rparr>) s3)"
    using h by (simp add: a0 a1 perform_action_def)
  then have i: "inputEventsChanged 0 100 1 s3 = Some s4" by (simp add: inputEventsChanged_def n3 s4_def)
  have m0: "pio_input_mask demo_config = [8, 0, 0]" by (simp add: demo_config_def)
  have "s2\<lparr>pio_state := (pio_state s2)[0 := 8]\<rparr> = s3" by (simp add: f s3_def)
  then have "handleMessagePioChangedEvents 0 100 \<lparr>mpc_state = 8, mpc_time = 0, mpc_state16to31 = 0, mpc_bank = 0\<rparr> s2 = Some s4"
    using c i by (simp add: handleMessagePioChangedEvents_def f m0)
  then have "iemHandler 0 100 (\<lambda>_. 0) (am_id demo_pin_message) (am_message demo_pin_message) s2 = Some s4"
    by (simp add: iemHandler_def demo_pin_message_def plain_msg_def)
  moreover have "unicast_to (iem_task ?s1) demo_pin_message" by (simp add: s(2) unicast_to_def demo_pin_message_def plain_msg_def)
  moreover have "vm_message_queue (iem_vm ?s1) = [] @ demo_pin_message # []" by (simp add: v)
  ultimately have "iem_step ?s1 s4"
    unfolding s2_def by (intro iem_step.deliver [of ?s1 "[]" demo_pin_message "[]" 0 100 "\<lambda>_. 0"]) simp_all
  from iem_reachable.step [OF r1 this] show ?thesis using f by (intro exI [of _ s4]) (simp add: s4_def s3_def)
qed

lemma held_only_while_pressed_witness:
  "\<exists>s s'. iem_reachable s \<and> vm_message_queue (iem_vm s) = [demo_held_message]
     \<and> iemHandler 0 0 (\<lambda>_. 0) IEM_INTERNAL_HELD_TIMER (pointer_to 100 0) (iem_with_queue [] s) = Some s'
     \<and> posted_data 7 (iem_vm s') = {#(0x501, None)#}
     \<and> (\<exists>pin<96. pin_set (pio_state s) pin \<and> event_of (input_config s) pin = 0)"
proof -
  obtain s where s: "iem_reachable s" "iem_task s = 9" "tl_members (client_tasks s) = [7]" "action_table s = [demo_actions ! 0]"
    "vm_message_queue (iem_vm s) = [demo_held_message]" using demo_held by blast
  have u: "unicast_to (iem_task s) demo_held_message" "am_id demo_held_message = IEM_INTERNAL_HELD_TIMER"
    by (simp_all add: s(2) unicast_to_def demo_held_message_def plain_msg_def)
  have i: "(7 :: task) \<noteq> INVALIDATED_TASK" by (simp add: INVALIDATED_TASK_def)
  have e: "posted_data 7 (iem_vm s) = {#}"
    by (simp add: posted_data_def s(5) demo_held_message_def plain_msg_def addressed_to_def)
  have a: "bit (ia_mask (demo_actions ! 0)) 0" "bit (ia_bits (demo_actions ! 0)) 0" "ia_message (demo_actions ! 0) = 0x501"
    by (simp_all add: demo_actions_def)
  have m: "am_message demo_held_message = pointer_to 100 0" by (simp add: demo_held_message_def)
  obtain s' where h: "iemHandler 0 0 (\<lambda>_. 0) IEM_INTERNAL_HELD_TIMER (pointer_to 100 0) (iem_with_queue [] s) = Some s'"
    "posted_data 7 (iem_vm s') = {#(0x501, None)#}"
    "\<forall>j<32. bit (ia_mask (demo_actions ! 0)) j \<longrightarrow> bit (ia_bits (demo_actions ! 0)) j
      = (\<exists>pin<96. pin_set (pio_state s) pin \<and> event_of (input_config s) pin = j)"
    using held_only_while_pressed [OF s(1) _ u, of "[]" "[]" 0 0 "\<lambda>_. 0"] s(3,4,5) a(3) i e u(2) m by auto
  then have "\<exists>pin<96. pin_set (pio_state s) pin \<and> event_of (input_config s) pin = 0"
    using h(3) [rule_format, of 0] a by simp
  then show ?thesis using s(1,5) h(1,2) by blast
qed

section \<open>Where the code differs from its description\<close>

text \<open>
  \<open>InputEventManagerInit\<close> passes the debounce period as the number of reads and the number of reads as the
  period. (The configuration gives the reads first; \<open>PioMonitorSetDebounceParameters\<close> expects them first.)
\<close>

lemma debounce_parameters_swapped:
  assumes "InputEventManagerInit get res1 res2 t tab n c s0 = Some (t', s)"
  shows "debounce_reads (iem_monitor s) = cfg_debounce_period c \<and> debounce_period (iem_monitor s) = cfg_debounce_reads c"
  using InputEventManagerInit_fields(14,15) [OF assms] by simp

text \<open>
  A press that is longer than the click time-out, but not held long enough for a hold, is not forgotten: the timer
  is ignored while the button is pressed, the release is then counted without a timer, and the next click is the
  second one.
\<close>

lemma long_press_counts_as_click:
  assumes "iem_ok s" "iem_now s" "counts_clicks (action_table s) i m" "input_event_bits s = m" "multi_click_state s = counting m 0"
    "timers s IEM_INTERNAL_MULTI_CLICK_TIMER = {#}"
  shows "multi_click_timer now i s = Some s
    \<and> (\<exists>s1 s2. inputEventsChanged now addr 0 s = Some s1 \<and> timers s1 IEM_INTERNAL_MULTI_CLICK_TIMER = {#}
        \<and> multi_click_state s1 = counting m 1 \<and> click now addr m s1 = Some s2 \<and> multi_click_state s2 = counting m 2)"
proof
  let ?a = "action_table s ! i"
  have a: "i < length (action_table s)" "ia_bits ?a = m" "ia_mask ?a = m" "m \<noteq> 0" using assms(3) by (simp_all add: counts_clicks_def)
  show "multi_click_timer now i s = Some s" using a(1,3) assms(4) by (simp add: multi_click_timer_def action_at_def)
  have rel: "actionIsRelease s ?a 0" "\<not> actionIsPress 0 ?a"
    using a assms(4) by (simp_all add: actionIsRelease_def getPreviousBitState_def actionIsPress_def)
  obtain s1 where s1: "inputEventsChanged now addr 0 s = Some s1" "iem_ok s1" "iem_now s1" "same_set_up s s1" "input_event_bits s1 = 0"
    "(multi_click_state s1, timers s1 IEM_INTERNAL_MULTI_CLICK_TIMER) = click_step addr i ?a False True
      (multi_click_state s, timers s IEM_INTERNAL_MULTI_CLICK_TIMER)"
    using change_counted [OF assms(1-3), of 0 now addr] assms(4) rel by auto
  have c: "multi_click_state s1 = counting m 1" "timers s1 IEM_INTERNAL_MULTI_CLICK_TIMER = {#}"
    using s1(6) assms(5,6) a by (simp_all add: click_step_def counting_def)
  have "counts_clicks (action_table s1) i m" using assms(3) s1(4) by (simp add: same_set_up_def)
  then obtain s2 where "click now addr m s1 = Some s2" "multi_click_state s2 = counting m 2"
    using click_once [OF s1(2,3), of i m 1 False now addr] s1(5) c(1) by (auto simp: numeral_2_eq_2)
  then show "\<exists>s1 s2. inputEventsChanged now addr 0 s = Some s1 \<and> timers s1 IEM_INTERNAL_MULTI_CLICK_TIMER = {#}
        \<and> multi_click_state s1 = counting m 1 \<and> click now addr m s1 = Some s2 \<and> multi_click_state s2 = counting m 2"
    using s1(1) c by blast
qed

text \<open>Releasing one held button stops the hold timers of all others, although they are still held.\<close>

lemma release_stops_other_holds:
  assumes "iem_ok s" "actionIsRelease s a b" "heldAction now addr i a b s = Some s'"
  shows "timers s' IEM_INTERNAL_HELD_TIMER = {#}"
proof -
  have t: "iem_task s \<noteq> INVALIDATED_TASK" using assms(1) by (simp add: iem_ok_def)
  obtain n q where q: "iem_cancel_all IEM_INTERNAL_HELD_TIMER s = Some (n, with_iem_vm q s)"
    "vm_moved s q ((timers s)(IEM_INTERNAL_HELD_TIMER := {#})) []" using moved_cancel_all [OF t] by blast
  have t1: "timers (with_iem_vm q s) = (timers s)(IEM_INTERNAL_HELD_TIMER := {#})" by (rule vm_moved_timers [OF q(2)]) simp_all
  obtain q' where q': "iem_cancel IEM_INTERNAL_REPEAT_TIMER (with_iem_vm q s) = Some (with_iem_vm q' s)"
    "vm_moved (with_iem_vm q s) q' ((timers s)(IEM_INTERNAL_HELD_TIMER := {#}, IEM_INTERNAL_REPEAT_TIMER := {#})) []"
    using moved_cancel [of "with_iem_vm q s" IEM_INTERNAL_REPEAT_TIMER] t t1 by auto
  have t2: "timers (with_iem_vm q' s) = (timers s)(IEM_INTERNAL_HELD_TIMER := {#}, IEM_INTERNAL_REPEAT_TIMER := {#})"
    by (rule vm_moved_timers [OF q'(2)]) simp_all
  have "\<not> actionIsPress b a" using assms(2) by (simp add: actionIsRelease_def)
  then have "s' = with_iem_vm q s \<or> s' = with_iem_vm q' s"
    using assms(2,3) q(1) q'(1) by (auto simp: heldAction_def heldActionButtonReleaseAction_def split: if_splits)
  then show ?thesis using t1 t2 by (auto simp: internal_ids)
qed

end
