(* ===== verification/Outcomes.thy ===== *)
theory Outcomes
  imports MessageData
begin

text \<open>
  Reasoning about operations that can fail: \<open>succeeds m Q\<close> says that the operation does not panic and that
  its result satisfies \<open>Q\<close>. The equations compute it along a sequence of operations; the rules for the
  scheduler's operations describe the queue after them by the messages each task has pending. Components whose
  handlers are long sequences of small operations are verified with them.
\<close>

section \<open>Operations that succeed\<close>

definition succeeds :: "'a option \<Rightarrow> ('a \<Rightarrow> bool) \<Rightarrow> bool" where
  "succeeds m Q = (\<exists>x. m = Some x \<and> Q x)"

lemma succeeds_simps [simp]:
  "succeeds (Some x) Q = Q x"
  "succeeds None Q = False"
  "succeeds (m \<bind> f) Q = succeeds m (\<lambda>x. succeeds (f x) Q)"
  "succeeds (map_option h m) Q = succeeds m (\<lambda>x. Q (h x))"
  "succeeds (PanicFalse b) P = (b \<and> P ())"
  by (auto simp: succeeds_def bind_eq_Some_conv)

lemma succeeds_if [simp]: "succeeds (if b then m else n) Q = (if b then succeeds m Q else succeeds n Q)"
  by simp

lemma succeeds_mono: "succeeds m P \<Longrightarrow> (\<And>x. P x \<Longrightarrow> Q x) \<Longrightarrow> succeeds m Q"
  by (auto simp: succeeds_def)

lemma succeeds_conj: "succeeds m P \<Longrightarrow> succeeds m Q \<Longrightarrow> succeeds m (\<lambda>x. P x \<and> Q x)"
  by (auto simp: succeeds_def)

lemma succeedsD: "succeeds m Q \<Longrightarrow> m = Some x \<Longrightarrow> Q x"
  by (simp add: succeeds_def)

lemma succeedsE: "succeeds m Q \<Longrightarrow> (\<And>x. m = Some x \<Longrightarrow> Q x \<Longrightarrow> R) \<Longrightarrow> R"
  by (auto simp: succeeds_def)

section \<open>The scheduler's operations\<close>

lemma MessageSendLater_succeeds:
  assumes "\<not> combinable i"
    and "\<And>q'. (\<And>u. posted_data u q' = (if u = t then add_mset (i, m) (posted_data u q) else posted_data u q)) \<Longrightarrow> Q q'"
  shows "succeeds (MessageSendLater now t i m d q) Q"
  using send_later_data [OF assms(1), of "(now, d)" t m q] assms(2) by (auto simp: succeeds_def data_send_def)

lemma MessageSend_succeeds:
  assumes "\<not> combinable i"
    and "\<And>q'. (\<And>u. posted_data u q' = (if u = t then add_mset (i, m) (posted_data u q) else posted_data u q)) \<Longrightarrow> Q q'"
  shows "succeeds (MessageSend now t i m q) Q"
proof -
  have "MessageSend now t i m q = MessageSendLater now t i m D_IMMEDIATE q"
    by (simp add: MessageSend_def MessageSendLater_def)
  then show ?thesis using MessageSendLater_succeeds [OF assms(1)] assms(2) by metis
qed

lemma MessageCancelAll_succeeds:
  assumes "t \<noteq> INVALIDATED_TASK"
    and "\<And>n q'. (\<And>u. u \<noteq> INVALIDATED_TASK \<Longrightarrow>
      posted_data u q' = (if u = t then filter_mset (\<lambda>p. fst p \<noteq> i) (posted_data u q) else posted_data u q)) \<Longrightarrow> Q (n, q')"
  shows "succeeds (MessageCancelAll t i q) Q"
  using cancel_data [OF assms(1), of i q] assms(2) by (auto simp: succeeds_def mb_cancel_def)

lemma TaskList_send_succeeds:
  assumes "tl_valid l" "length (tl_members l) \<le> 14" "n = 0 \<longrightarrow> data = None"
    and "\<And>q'. (\<And>u. posted_data u q' = (if u \<in> set (tl_members l) then add_mset (i, data) (posted_data u q)
      else posted_data u q)) \<Longrightarrow> Q q'"
  shows "succeeds (TaskList_MessageSendLaterWithSize now l i data n delay q) Q"
proof -
  obtain ds where r: "tl_repr l (tl_members l) ds" "tasks_ok (tl_members l)"
    using assms(1) by (auto simp: tl_valid_def)
  show ?thesis using message_send_data [OF r assms(3,2), of now i delay q] assms(4) by (auto simp: succeeds_def)
qed

text \<open>How often a task has messages with an id pending.\<close>

definition pending_id :: "task \<Rightarrow> message_id \<Rightarrow> 'm vm \<Rightarrow> nat" where
  "pending_id t i q = size (filter_mset (\<lambda>p. fst p = i) (posted_data t q))"

lemma pending_id_sent:
  "posted_data u q' = (if u = t then add_mset (i, m) (posted_data u q) else posted_data u q) \<Longrightarrow>
    pending_id u j q' = (if u = t \<and> j = i then Suc (pending_id u j q) else pending_id u j q)"
  by (auto simp: pending_id_def)

lemma pending_id_cancelled:
  assumes "posted_data u q' = (if u = t then filter_mset (\<lambda>p. fst p \<noteq> i) (posted_data u q) else posted_data u q)"
  shows "pending_id u j q' = (if u = t \<and> j = i then 0 else pending_id u j q)"
proof (cases "u = t")
  case True
  have "filter_mset (\<lambda>p. fst p = j) (filter_mset (\<lambda>p. fst p \<noteq> i) M)
      = (if j = i then {#} else filter_mset (\<lambda>p. fst p = j) M)" for M :: "(message_id \<times> 'a msg_data option) multiset"
    by (induction M) auto
  with True assms show ?thesis by (simp add: pending_id_def)
qed (simp add: assms pending_id_def)

lemma pending_id_taken:
  assumes "vm_message_queue q = q1 @ a # q2" "unicast_to t a"
  shows "pending_id t i q
    = (if i = am_id a then Suc (pending_id t i (q\<lparr>vm_message_queue := q1 @ q2\<rparr>))
       else pending_id t i (q\<lparr>vm_message_queue := q1 @ q2\<rparr>))"
  using posted_data_taken [OF assms] by (auto simp: pending_id_def)

section \<open>Widening words\<close>

lemma unat_ucast_wider [simp]:
  assumes "LENGTH('a) \<le> LENGTH('b)"
  shows "unat (ucast (x :: 'a::len word) :: 'b::len word) = unat x"
proof -
  have "unat x < 2 ^ LENGTH('b)"
    using less_le_trans [OF unsigned_less [of x, where 'a = nat] power_increasing [OF assms]] by simp
  then show ?thesis by (simp add: unsigned_ucast_eq take_bit_nat_eq_self)
qed

lemma unat_ucast_fits:
  "unat x < 2 ^ LENGTH('b) \<Longrightarrow> unat (ucast (x :: 'a::len word) :: 'b::len word) = unat x"
  by (simp add: unsigned_ucast_eq take_bit_nat_eq_self)

lemma ucast_wider_0:
  assumes "LENGTH('a) \<le> LENGTH('b)"
  shows "(ucast (x :: 'a::len word) :: 'b::len word) = 0 \<longleftrightarrow> x = 0"
  using unat_ucast_wider [OF assms, of x] by (metis unsigned_0 unsigned_eq_0_iff)

end
