(* ===== verification/ChargerMonitor.thy ===== *)
theory ChargerMonitor
  imports BatteryRegion Outcomes
begin

text \<open>
  The charger monitor, \<open>domains/power/charger_monitor\<close>: \<open>charger_monitor.c\<close> switches the charger by a set of
  reasons to disable it and sets its fast current; \<open>charger_detect.c\<close> with its table of chargers limits the
  current to what the attached charger can give, and \<open>charger_vchg_monitor.c\<close> probes that limit by raising the
  current until the input voltage drops. The three files share one state.
  The build options are part of the state (\<open>build\<close>); answers from outside are in \<open>charger_env\<close>: the clock, the
  current the battery region allows, whether the hardware accepts a setting, the state of the USB device and so on.
  What the code tells the hardware, the user interface and other components is the list of calls, oldest first.
  A pointer to a charger configuration is its name. Panics and NULL pointers that are followed are \<open>None\<close>.
\<close>

section \<open>Chargers\<close>

type_synonym u12 = "12 word"
type_synonym u2 = "2 word"

datatype charger_status =
    NO_POWER | TRICKLE_CHARGE | PRE_CHARGE | FAST_CHARGE | HEADROOM_ERROR | VBAT_OVERVOLT_ERROR | STANDBY
  | DISABLED_ERROR | CONFIG_FAIL_UNKNOWN | CONFIG_FAIL_CHARGER_ENABLED | CONFIG_FAIL_EFUSE_CRC_INVALID
  | CONFIG_FAIL_EFUSE_TRIMS_ZERO | CONFIG_FAIL_CURRENTS_ZERO | CONFIG_FAIL_VALUES_OUT_OF_RANGE
  | ENABLE_FAIL_UNKNOWN | ENABLE_FAIL_EFUSE_CRC_INVALID | INTERNAL_CURRENT_SOURCE_CONFIG_FAIL

datatype usb_attached_status =
    DETACHED | HOST_OR_HUB | DEDICATED_CHARGER | HOST_OR_HUB_CHARGER | CHARGING_PORT
  | NON_COMPLIANT_CHARGER | FLOATING_CHARGER | NON_USB_CHARGER | UNKNOWN_STATUS

datatype usb_type_c_advertisement = CC_CURRENT_DEFAULT | CC_CURRENT_1500 | CC_CURRENT_3000

record MessageChargerDetected =
  attached_status :: usb_attached_status
  charger_dp_millivolts :: u16
  charger_dm_millivolts :: u16
  cc_status :: usb_type_c_advertisement

datatype charger_detect_type =
    CHARGER_TYPE_DETACHED | CHARGER_TYPE_SDP | CHARGER_TYPE_DCP | CHARGER_TYPE_CDP | CHARGER_TYPE_USB_C_15
  | CHARGER_TYPE_USB_C_30 | CHARGER_TYPE_FLOAT | CHARGER_TYPE_NON_USB | CHARGER_TYPE_PROPRIETARY_500
  | CHARGER_TYPE_PROPRIETARY_1000 | CHARGER_TYPE_PROPRIETARY_2100 | CHARGER_TYPE_PROPRIETARY_2400
  | CHARGER_TYPE_PROPRIETARY_2000 | CHARGER_TYPE_SAFE | CHARGER_TYPE_NOT_RESOLVED

record charger_config =
  charger_type :: charger_detect_type
  usb_events_apply :: bool
  current_limiting :: bool
  cc_current :: u12

text \<open>The constants a configuration pointer can point to; an entry of the proprietary table with its index.\<close>

datatype charger_config_ptr =
    config_sdp | config_dcp | config_cdp | config_usbc_15 | config_usbc_30 | config_floating
  | config_non_usb | config_safe | config_detached | config_proprietary nat charger_config

definition a_config :: "charger_detect_type \<Rightarrow> u12 \<Rightarrow> charger_config" where
  "a_config t c = \<lparr>charger_type = t, usb_events_apply = False, current_limiting = False, cc_current = c\<rparr>"

fun config_of :: "charger_config_ptr \<Rightarrow> charger_config" where
  "config_of config_sdp = (a_config CHARGER_TYPE_SDP 500)\<lparr>usb_events_apply := True\<rparr>"
| "config_of config_dcp = (a_config CHARGER_TYPE_DCP 1500)\<lparr>current_limiting := True\<rparr>"
| "config_of config_cdp = (a_config CHARGER_TYPE_CDP 1500)\<lparr>current_limiting := True\<rparr>"
| "config_of config_usbc_15 = a_config CHARGER_TYPE_USB_C_15 1500"
| "config_of config_usbc_30 = a_config CHARGER_TYPE_USB_C_30 1800"
| "config_of config_floating = a_config CHARGER_TYPE_FLOAT 500"
| "config_of config_non_usb = a_config CHARGER_TYPE_NON_USB 500"
| "config_of config_safe = a_config CHARGER_TYPE_SAFE 100"
| "config_of config_detached = a_config CHARGER_TYPE_DETACHED 0"
| "config_of (config_proprietary _ c) = c"

record proprietary_charger_config =
  dp_mV :: u16
  dm_mV :: u16
  tolerance_mV :: u16
  pc_config :: charger_config

definition proprietary :: "u16 \<Rightarrow> u16 \<Rightarrow> charger_detect_type \<Rightarrow> u12 \<Rightarrow> proprietary_charger_config" where
  "proprietary dp dm t c = \<lparr>dp_mV = dp, dm_mV = dm, tolerance_mV = 300, pc_config = a_config t c\<rparr>"

definition proprietary_chargers :: "proprietary_charger_config list" where
  "proprietary_chargers =
     [proprietary 2700 2700 CHARGER_TYPE_PROPRIETARY_2400 1800,
      proprietary 2700 2000 CHARGER_TYPE_PROPRIETARY_2100 1800,
      proprietary 2000 2700 CHARGER_TYPE_PROPRIETARY_1000 1000,
      proprietary 2000 2000 CHARGER_TYPE_PROPRIETARY_500 500,
      proprietary 1200 1200 CHARGER_TYPE_PROPRIETARY_2000 1800,
      proprietary 3100 3100 CHARGER_TYPE_PROPRIETARY_1000 1000]"

text \<open>The sums are computed in \<open>int\<close>.\<close>

definition proprietary_matches :: "MessageChargerDetected \<Rightarrow> proprietary_charger_config \<Rightarrow> bool" where
  "proprietary_matches msg cfg =
     (uint (dp_mV cfg) - uint (tolerance_mV cfg) \<le> uint (charger_dp_millivolts msg)
      \<and> uint (dp_mV cfg) + uint (tolerance_mV cfg) \<ge> uint (charger_dp_millivolts msg)
      \<and> uint (dm_mV cfg) - uint (tolerance_mV cfg) \<le> uint (charger_dm_millivolts msg)
      \<and> uint (dm_mV cfg) + uint (tolerance_mV cfg) \<ge> uint (charger_dm_millivolts msg))"

fun find_proprietary ::
  "MessageChargerDetected \<Rightarrow> nat \<Rightarrow> proprietary_charger_config list \<Rightarrow> charger_config_ptr option" where
  "find_proprietary msg i [] = None"
| "find_proprietary msg i (cfg # cfgs) =
     (if proprietary_matches msg cfg then Some (config_proprietary i (pc_config cfg))
      else find_proprietary msg (i + 1) cfgs)"

text \<open>\<open>None\<close> is the NULL pointer.\<close>

definition ChargerDetect_GetConfig :: "MessageChargerDetected \<Rightarrow> charger_config_ptr option" where
  "ChargerDetect_GetConfig msg =
     (case attached_status msg of
        DETACHED \<Rightarrow> Some config_detached
      | NON_USB_CHARGER \<Rightarrow> Some config_non_usb
      | UNKNOWN_STATUS \<Rightarrow> None
      | CHARGING_PORT \<Rightarrow> None
      | status \<Rightarrow>
          (case cc_status msg of
             CC_CURRENT_1500 \<Rightarrow> Some config_usbc_15
           | CC_CURRENT_3000 \<Rightarrow> Some config_usbc_30
           | CC_CURRENT_DEFAULT \<Rightarrow>
               (case status of
                  HOST_OR_HUB \<Rightarrow> Some config_sdp
                | DEDICATED_CHARGER \<Rightarrow> Some config_dcp
                | HOST_OR_HUB_CHARGER \<Rightarrow> Some config_cdp
                | FLOATING_CHARGER \<Rightarrow> Some config_floating
                | NON_COMPLIANT_CHARGER \<Rightarrow>
                    (case find_proprietary msg 0 proprietary_chargers of
                       Some c \<Rightarrow> Some c | None \<Rightarrow> Some config_floating)
                | _ \<Rightarrow> None)))"

definition ChargerDetect_GetConnectedConfig :: "bool \<Rightarrow> charger_config_ptr option" where
  "ChargerDetect_GetConnectedConfig connected = Some (if connected then config_safe else config_detached)"

section \<open>State\<close>

text \<open>
  The options of the build. \<open>FAST_CHARGE_EXTERNAL_RESISTOR\<close> is 0 when the external mode is not supported;
  \<open>CF133_BATT\<close> enables the charge timeouts.
\<close>

record charger_build =
  INCLUDE_CHARGER_DETECT :: bool
  FAST_CHARGE_EXTERNAL_RESISTOR :: u32
  FAST_CHARGE_CURRENT :: u12
  CF133_BATT :: bool
  QCC3020_FF_ENTRY_LEVEL_AA :: bool
  HAVE_RDP_HW :: bool

definition appConfigChargerStateChangeDebounce :: u32 where "appConfigChargerStateChangeDebounce = 128"
definition appConfigChargerTrickleCurrent :: "charger_build \<Rightarrow> u32" where
  "appConfigChargerTrickleCurrent b =
     (if QCC3020_FF_ENTRY_LEVEL_AA b then 8 else if HAVE_RDP_HW b then 30 else 10)"
definition appConfigChargerFastCurrent :: "charger_build \<Rightarrow> u12" where
  "appConfigChargerFastCurrent b =
     (if INCLUDE_CHARGER_DETECT b then FAST_CHARGE_CURRENT b else min (FAST_CHARGE_CURRENT b) 500)"
definition appConfigChargerTerminationCurrent :: u32 where "appConfigChargerTerminationCurrent = 10"
definition appConfigChargerStandbyFastVoltageHysteresis :: u32 where
  "appConfigChargerStandbyFastVoltageHysteresis = 250"
definition appConfigChargerPreChargeTimeoutMs :: "charger_build \<Rightarrow> u32" where
  "appConfigChargerPreChargeTimeoutMs b = (if CF133_BATT b then D_MIN 5 else D_MIN 0)"
definition appConfigChargerFastChargeTimeoutMs :: "charger_build \<Rightarrow> u32" where
  "appConfigChargerFastChargeTimeoutMs b = (if CF133_BATT b then D_MIN 15 else D_MIN 0)"
definition appConfigChargerReEnableTimeoutMs :: u32 where "appConfigChargerReEnableTimeoutMs = 1000"
definition appConfigChargerInternalMaxCurrent :: u16 where "appConfigChargerInternalMaxCurrent = 200"
definition appConfigChargerUsbUnconfiguredCurrent :: u32 where "appConfigChargerUsbUnconfiguredCurrent = 100"
definition appConfigChargerDCPMinCurrent :: u16 where "appConfigChargerDCPMinCurrent = 500"
definition appConfigChargerVchgPollingPeriodMs :: u32 where "appConfigChargerVchgPollingPeriodMs = 100"
definition appConfigChargerVchgLowThreshold :: u16 where "appConfigChargerVchgLowThreshold = 4550"
definition appConfigChargerVchgRecoveryThreshold :: u16 where "appConfigChargerVchgRecoveryThreshold = 4650"
definition appConfigChargerVchgStep :: u16 where "appConfigChargerVchgStep = 10"

definition CHARGER_DISABLE_REASON_TIMEOUT :: u32 where "CHARGER_DISABLE_REASON_TIMEOUT = 1"
definition CHARGER_DISABLE_REASON_REQUEST :: u32 where "CHARGER_DISABLE_REASON_REQUEST = 2"
definition CHARGER_DISABLE_REASON_ERROR :: u32 where "CHARGER_DISABLE_REASON_ERROR = 4"
definition CHARGER_DISABLE_REASON_ZERO_CURRENT :: u32 where "CHARGER_DISABLE_REASON_ZERO_CURRENT = 8"
definition CHARGER_DISABLE_REASON_NOT_CONNECTED :: u32 where "CHARGER_DISABLE_REASON_NOT_CONNECTED = 16"
definition CHARGER_DISABLE_REASON_INTERNAL :: u32 where "CHARGER_DISABLE_REASON_INTERNAL = 32"

definition CHARGER_CONNECTION_UNKNOWN :: u2 where "CHARGER_CONNECTION_UNKNOWN = 2"

definition CHARGER_MESSAGE_ATTACHED :: message_id where "CHARGER_MESSAGE_ATTACHED = MESSAGE_BASE ''CHARGER''"
definition CHARGER_MESSAGE_COMPLETED :: message_id where "CHARGER_MESSAGE_COMPLETED = MESSAGE_BASE ''CHARGER'' + 2"
definition CHARGER_MESSAGE_CHARGING_OK :: message_id where "CHARGER_MESSAGE_CHARGING_OK = MESSAGE_BASE ''CHARGER'' + 3"
definition CHARGER_MESSAGE_CHARGING_LOW :: message_id where "CHARGER_MESSAGE_CHARGING_LOW = MESSAGE_BASE ''CHARGER'' + 4"
definition CHARGER_MESSAGE_DISABLED :: message_id where "CHARGER_MESSAGE_DISABLED = MESSAGE_BASE ''CHARGER'' + 5"
definition CHARGER_MESSAGE_ERROR :: message_id where "CHARGER_MESSAGE_ERROR = MESSAGE_BASE ''CHARGER'' + 6"
definition CHARGER_INTERNAL_CHARGE_TIMEOUT :: message_id where "CHARGER_INTERNAL_CHARGE_TIMEOUT = INTERNAL_MESSAGE_BASE"
definition CHARGER_INTERNAL_RE_ENABLE_TIMEOUT :: message_id where
  "CHARGER_INTERNAL_RE_ENABLE_TIMEOUT = INTERNAL_MESSAGE_BASE + 1"
definition CHARGER_INTERNAL_VCHG_MEASUREMENT :: message_id where
  "CHARGER_INTERNAL_VCHG_MEASUREMENT = INTERNAL_MESSAGE_BASE + 2"
definition MESSAGE_CHARGER_CHANGED :: message_id where "MESSAGE_CHARGER_CHANGED = SYSTEM_MESSAGE_BASE + 45"
definition MESSAGE_CHARGER_DETECTED :: message_id where "MESSAGE_CHARGER_DETECTED = SYSTEM_MESSAGE_BASE + 64"
definition MESSAGE_CHARGER_STATUS :: message_id where "MESSAGE_CHARGER_STATUS = SYSTEM_MESSAGE_BASE + 65"
definition MESSAGE_CHARGER_ADC_RESULT :: message_id where "MESSAGE_CHARGER_ADC_RESULT = SYSTEM_MESSAGE_BASE + 37"
definition USB_DEVICE_ENUMERATED :: message_id where "USB_DEVICE_ENUMERATED = MESSAGE_BASE ''USB_DEVICE''"
definition USB_DEVICE_DECONFIGURED :: message_id where "USB_DEVICE_DECONFIGURED = MESSAGE_BASE ''USB_DEVICE'' + 1"
definition USB_DEVICE_SUSPEND :: message_id where "USB_DEVICE_SUSPEND = MESSAGE_BASE ''USB_DEVICE'' + 2"
definition USB_DEVICE_RESUME :: message_id where "USB_DEVICE_RESUME = MESSAGE_BASE ''USB_DEVICE'' + 3"

definition CHG_MON_REQUEST_READING :: u16 where "CHG_MON_REQUEST_READING = 0xffff"

text \<open>The settings of the hardware charger that are used.\<close>

datatype charger_config_key =
    CHARGER_ENABLE | CHARGER_TERM_VOLTAGE | CHARGER_STANDBY_FAST_HYSTERESIS | CHARGER_TRICKLE_CURRENT
  | CHARGER_PRE_CURRENT | CHARGER_FAST_CURRENT | CHARGER_EXTERNAL_RESISTOR
  | CHARGER_USE_EXTERNAL_RESISTOR_FOR_FAST_CHARGE | CHARGER_PRE_FAST_THRESHOLD | CHARGER_ITERM_CTRL
  | CHARGER_STATE_CHANGE_DEBOUNCE

datatype charger_provider_context =
    context_charger_disabled | context_charger_detached | context_charger_completed | context_charger_low
  | context_charger_fast | context_charger_error | BAD_CONTEXT

datatype charger_adc = adcsel_chg_mon | adcsel_pmu_vchg_sns | adcsel_vref_hq_buff | adcsel_other

datatype charger_call =
    Configure charger_config_key u32
  | Call_PsuConfigure_VBAT bool
  | Call_LedManager_ForceLeds_0
  | Call_LedManager_ForceLedsStop
  | Call_Ui_InformContextChange charger_provider_context
  | Call_Ui_RegisterUiProvider
  | Call_MessageChargerTask task
  | Call_UsbDevice_ClientRegister task
  | Call_ChargerMessageRequest
  | Call_AdcReadRequest charger_adc

record charger_data =
  cm_task :: task
  is_connected :: u2
  is_enabled :: bool
  force_allow_power_off :: bool
  test_mode :: bool
  ext_mode_enabled :: bool
  fast_current :: u12
  max_supported_current :: u12
  power_source_vbat :: bool
  usb_enumerated :: bool
  usb_suspend :: bool
  usb_leds_forced_off :: bool
  vchg_monitor_enabled :: bool
  vchg_monitor_read_pending :: bool
  current_limit_detected :: bool
  current_increasing :: bool
  current_limit :: u12
  vref_reading :: u16
  chg_mon_reading :: u16
  status :: charger_status
  test_attached_status :: usb_attached_status
  disable_reason :: u32
  charger_config :: "charger_config_ptr option"
  charger_client_tasks :: "task_list option"
  build :: charger_build
  cm_vm :: "unit vm"
  cm_calls :: "charger_call list"

record charger_env =
  env_now :: u32
  env_region_current :: u16
  env_configure :: "charger_config_key \<Rightarrow> u32 \<Rightarrow> bool"
  env_usb_suspended :: bool
  env_adc_accepts :: bool
  env_vref_constant :: u16
  env_charger_status :: charger_status
  env_attached_status :: usb_attached_status

definition cm_log :: "charger_call \<Rightarrow> charger_data \<Rightarrow> charger_data" where
  "cm_log c s = s\<lparr>cm_calls := cm_calls s @ [c]\<rparr>"

text \<open>\<open>PanicFalse(ChargerConfigure(key, value))\<close>.\<close>

definition panic_configure :: "charger_env \<Rightarrow> charger_config_key \<Rightarrow> u32 \<Rightarrow> charger_data \<Rightarrow> charger_data option" where
  "panic_configure e k v s = do { PanicFalse (env_configure e k v); Some (cm_log (Configure k v) s) }"

definition cm_send_later :: "charger_env \<Rightarrow> message_id \<Rightarrow> u32 \<Rightarrow> charger_data \<Rightarrow> charger_data option" where
  "cm_send_later e i delay s =
     map_option (\<lambda>q. s\<lparr>cm_vm := q\<rparr>) (MessageSendLater (env_now e) (cm_task s) i None delay (cm_vm s))"

definition cm_send :: "charger_env \<Rightarrow> message_id \<Rightarrow> charger_data \<Rightarrow> charger_data option" where
  "cm_send e i s = map_option (\<lambda>q. s\<lparr>cm_vm := q\<rparr>) (MessageSend (env_now e) (cm_task s) i None (cm_vm s))"

definition cm_cancel_all :: "message_id \<Rightarrow> charger_data \<Rightarrow> charger_data option" where
  "cm_cancel_all i s = map_option (\<lambda>(_, q). s\<lparr>cm_vm := q\<rparr>) (MessageCancelAll (cm_task s) i (cm_vm s))"

section \<open>Enabling and disabling\<close>

definition Charger_Status :: "charger_env \<Rightarrow> charger_data \<Rightarrow> charger_status" where
  "Charger_Status e s = (if test_mode s then status s else env_charger_status e)"

definition Charger_AttachedStatus :: "charger_env \<Rightarrow> charger_data \<Rightarrow> usb_attached_status" where
  "Charger_AttachedStatus e s = (if test_mode s then test_attached_status s else env_attached_status e)"

definition Charger_AttachedStatusPending :: "charger_env \<Rightarrow> charger_data \<Rightarrow> bool" where
  "Charger_AttachedStatusPending e s = (Charger_AttachedStatus e s = UNKNOWN_STATUS)"

definition Charger_IsConnected :: "charger_data \<Rightarrow> bool" where "Charger_IsConnected s = (is_connected s \<noteq> 0)"

definition Charger_IsEnabled :: "charger_data \<Rightarrow> bool" where "Charger_IsEnabled s = is_enabled s"

definition Charger_IsCharging :: "charger_data \<Rightarrow> bool" where
  "Charger_IsCharging s =
     (Charger_IsConnected s \<and> Charger_IsEnabled s \<and> status s \<in> {TRICKLE_CHARGE, FAST_CHARGE, PRE_CHARGE})"

definition Charger_ForceAllowPowerOff :: "bool \<Rightarrow> charger_data \<Rightarrow> charger_data" where
  "Charger_ForceAllowPowerOff b s = s\<lparr>force_allow_power_off := b\<rparr>"

definition Charger_CanPowerOff :: "charger_data \<Rightarrow> bool" where
  "Charger_CanPowerOff s = (if force_allow_power_off s then True else \<not> Charger_IsConnected s)"

definition Charger_CanEnterDormant :: "charger_data \<Rightarrow> bool" where
  "Charger_CanEnterDormant s = (if force_allow_power_off s then True else \<not> Charger_IsCharging s)"

definition appChargerCurrentContext :: "charger_data \<Rightarrow> charger_provider_context" where
  "appChargerCurrentContext s =
     (if Charger_IsConnected s then
        if Charger_IsEnabled s then
          (case status s of
             TRICKLE_CHARGE \<Rightarrow> context_charger_low
           | PRE_CHARGE \<Rightarrow> context_charger_low
           | FAST_CHARGE \<Rightarrow> context_charger_fast
           | STANDBY \<Rightarrow> context_charger_completed
           | VBAT_OVERVOLT_ERROR \<Rightarrow> context_charger_error
           | HEADROOM_ERROR \<Rightarrow> context_charger_error
           | DISABLED_ERROR \<Rightarrow> context_charger_error
           | _ \<Rightarrow> BAD_CONTEXT)
        else context_charger_disabled
      else context_charger_detached)"

definition Charger_Enable :: "charger_env \<Rightarrow> charger_data \<Rightarrow> charger_data option" where
  "Charger_Enable e s = panic_configure e CHARGER_ENABLE 1 (s\<lparr>is_enabled := True\<rparr>)"

definition Charger_Disable :: "charger_env \<Rightarrow> charger_data \<Rightarrow> charger_data option" where
  "Charger_Disable e s =
     do {
       s \<leftarrow> panic_configure e CHARGER_ENABLE 0 (s\<lparr>is_enabled := False\<rparr>);
       cm_cancel_all CHARGER_INTERNAL_CHARGE_TIMEOUT s
     }"

definition Charger_DisableReasonAdd :: "charger_env \<Rightarrow> u32 \<Rightarrow> charger_data \<Rightarrow> charger_data option" where
  "Charger_DisableReasonAdd e reason s =
     (if reason \<noteq> 0 then
        do {
          s \<leftarrow> (if disable_reason s = 0 then Charger_Disable e s else Some s);
          Some (s\<lparr>disable_reason := disable_reason s OR reason\<rparr>)
        }
      else Some s)"

definition Charger_DisableReasonClear :: "charger_env \<Rightarrow> u32 \<Rightarrow> charger_data \<Rightarrow> charger_data option" where
  "Charger_DisableReasonClear e reason s =
     (if reason \<noteq> 0 \<and> disable_reason s \<noteq> 0 then
        let s = s\<lparr>disable_reason := disable_reason s AND NOT reason\<rparr>
        in if disable_reason s = 0 then Charger_Enable e s else Some s
      else Some s)"

definition Charger_ForceDisable :: "charger_env \<Rightarrow> charger_data \<Rightarrow> charger_data option" where
  "Charger_ForceDisable e s = Charger_DisableReasonAdd e CHARGER_DISABLE_REASON_REQUEST s"

definition Charger_RestoreState :: "charger_env \<Rightarrow> charger_data \<Rightarrow> charger_data option" where
  "Charger_RestoreState e s = Charger_DisableReasonClear e CHARGER_DISABLE_REASON_REQUEST s"

definition Charger_Error :: "charger_env \<Rightarrow> charger_data \<Rightarrow> charger_data option" where
  "Charger_Error e s =
     do {
       s \<leftarrow> Charger_DisableReasonAdd e CHARGER_DISABLE_REASON_ERROR s;
       s \<leftarrow> cm_cancel_all CHARGER_INTERNAL_RE_ENABLE_TIMEOUT s;
       cm_send_later e CHARGER_INTERNAL_RE_ENABLE_TIMEOUT appConfigChargerReEnableTimeoutMs s
     }"

section \<open>Monitoring the input voltage: start and stop\<close>

definition Charger_VChgMonitorStart :: "charger_env \<Rightarrow> charger_data \<Rightarrow> charger_data option" where
  "Charger_VChgMonitorStart e s =
     (if \<not> vchg_monitor_enabled s then
        cm_send e CHARGER_INTERNAL_VCHG_MEASUREMENT
          (s\<lparr>vchg_monitor_enabled := True, chg_mon_reading := CHG_MON_REQUEST_READING\<rparr>)
      else Some s)"

definition Charger_VChgMonitorStop :: "charger_data \<Rightarrow> charger_data option" where
  "Charger_VChgMonitorStop s =
     (if vchg_monitor_enabled s then
        cm_cancel_all CHARGER_INTERNAL_VCHG_MEASUREMENT (s\<lparr>vchg_monitor_enabled := False\<rparr>)
      else Some s)"

section \<open>The fast current\<close>

definition Charger_GetFastCurrent :: "charger_data \<Rightarrow> u32" where "Charger_GetFastCurrent s = ucast (fast_current s)"

text \<open>A flag of the configuration, when there is one.\<close>

definition config_flag :: "(charger_config \<Rightarrow> bool) \<Rightarrow> charger_data \<Rightarrow> bool" where
  "config_flag flag s = (case charger_config s of None \<Rightarrow> False | Some p \<Rightarrow> flag (config_of p))"

lemma config_flag_iff [simp]: "config_flag flag s \<longleftrightarrow> (\<exists>p. charger_config s = Some p \<and> flag (config_of p))"
  by (simp add: config_flag_def split: option.split)

definition ChargerDetect_Current :: "charger_data \<Rightarrow> u32" where
  "ChargerDetect_Current s =
     (case charger_config s of
        None \<Rightarrow> 0
      | Some p \<Rightarrow>
          let c = config_of p;
              mA = ucast (cc_current c) :: u32;
              mA = (if usb_events_apply c then
                           if usb_suspend s then 0
                           else if \<not> usb_enumerated s then min mA appConfigChargerUsbUnconfiguredCurrent
                           else mA
                         else mA)
          in if current_limiting c then min mA (ucast (current_limit s)) else mA)"

definition ChargerDetect_NotifyCurrentChanged :: "charger_env \<Rightarrow> charger_data \<Rightarrow> charger_data option" where
  "ChargerDetect_NotifyCurrentChanged e s =
     (if \<not> vchg_monitor_enabled s \<and> config_flag current_limiting s
         \<and> \<not> current_limit_detected s \<and> ucast (current_limit s) = Charger_GetFastCurrent s
      then Charger_VChgMonitorStart e (s\<lparr>current_increasing := True\<rparr>)
      else Some s)"

text \<open>Changing between the internal and the external mode, or staying within what the internal mode can give.\<close>

definition select_charge_mode :: "charger_env \<Rightarrow> u16 \<Rightarrow> charger_data \<Rightarrow> (u16 \<times> charger_data) option" where
  "select_charge_mode e mA s =
     (if mA > appConfigChargerInternalMaxCurrent then
        if FAST_CHARGE_EXTERNAL_RESISTOR (build s) \<noteq> 0 then
          if \<not> ext_mode_enabled s then
            do {
              s \<leftarrow> Charger_DisableReasonAdd e CHARGER_DISABLE_REASON_INTERNAL s;
              s \<leftarrow> panic_configure e CHARGER_USE_EXTERNAL_RESISTOR_FOR_FAST_CHARGE 1 s;
              Some (mA, s\<lparr>ext_mode_enabled := True\<rparr>)
            }
          else Some (mA, s)
        else Some (appConfigChargerInternalMaxCurrent, s)
      else if FAST_CHARGE_EXTERNAL_RESISTOR (build s) \<noteq> 0 \<and> ext_mode_enabled s then
        do {
          s \<leftarrow> Charger_DisableReasonAdd e CHARGER_DISABLE_REASON_INTERNAL s;
          s \<leftarrow> panic_configure e CHARGER_USE_EXTERNAL_RESISTOR_FOR_FAST_CHARGE 0 s;
          Some (mA, s\<lparr>ext_mode_enabled := False\<rparr>)
        }
      else Some (mA, s))"

definition apply_current :: "charger_env \<Rightarrow> u16 \<times> charger_data \<Rightarrow> charger_data option" where
  "apply_current e r =
     (let (mA, s) = r
      in do {
        s \<leftarrow> panic_configure e CHARGER_FAST_CURRENT (ucast mA) s;
        let s = s\<lparr>fast_current := ucast mA\<rparr>;
        s \<leftarrow> (if FAST_CHARGE_EXTERNAL_RESISTOR (build s) \<noteq> 0
              then Charger_DisableReasonClear e CHARGER_DISABLE_REASON_INTERNAL s else Some s);
        if mA \<noteq> 0 then Charger_DisableReasonClear e CHARGER_DISABLE_REASON_ZERO_CURRENT s else Some s
      })"

definition charger_SetFastCurrent :: "charger_env \<Rightarrow> u16 \<Rightarrow> charger_data \<Rightarrow> charger_data option" where
  "charger_SetFastCurrent e mA s =
     do {
       s \<leftarrow> (if mA = 0 then Charger_DisableReasonAdd e CHARGER_DISABLE_REASON_ZERO_CURRENT s else Some s);
       r \<leftarrow> select_charge_mode e mA s;
       apply_current e r
     }"

definition Charger_UpdateCurrent :: "charger_env \<Rightarrow> charger_data \<Rightarrow> charger_data option" where
  "Charger_UpdateCurrent e s =
     (let mA = ucast (max_supported_current s) :: u32;
          mA = (if INCLUDE_CHARGER_DETECT (build s) then min (ChargerDetect_Current s) mA else mA);
          mA = min (ucast (env_region_current e)) mA
      in if ucast (fast_current s) \<noteq> mA then
           do {
             s \<leftarrow> charger_SetFastCurrent e (ucast mA) s;
             if INCLUDE_CHARGER_DETECT (build s) then ChargerDetect_NotifyCurrentChanged e s else Some s
           }
         else Some s)"

section \<open>Power supply and connection\<close>

definition ChargerDetect_UsbIsSuspend :: "charger_data \<Rightarrow> bool" where
  "ChargerDetect_UsbIsSuspend s =
     (config_flag usb_events_apply s \<and> usb_suspend s)"

text \<open>The result of \<open>PsuConfigure\<close> is only reported.\<close>

definition Charger_UpdatePowerSupplySource :: "charger_data \<Rightarrow> charger_data" where
  "Charger_UpdatePowerSupplySource s =
     (let vbat = \<not> Charger_IsConnected s;
          usb_is_suspend = ChargerDetect_UsbIsSuspend s;
          (vbat, s) =
            (if INCLUDE_CHARGER_DETECT (build s) then
               (vbat \<or> usb_is_suspend,
                if usb_leds_forced_off s \<noteq> usb_is_suspend
                then cm_log (if usb_is_suspend then Call_LedManager_ForceLeds_0 else Call_LedManager_ForceLedsStop)
                       (s\<lparr>usb_leds_forced_off := usb_is_suspend\<rparr>)
                else s)
             else (vbat, s))
      in if power_source_vbat s \<noteq> vbat
         then cm_log (Call_PsuConfigure_VBAT vbat) (s\<lparr>power_source_vbat := vbat\<rparr>) else s)"

definition Charger_NotifyClients :: "charger_env \<Rightarrow> message_id \<Rightarrow> charger_data \<Rightarrow> charger_data option" where
  "Charger_NotifyClients e i s =
     (case charger_client_tasks s of
        None \<Rightarrow> Some s
      | Some l \<Rightarrow> map_option (\<lambda>q. s\<lparr>cm_vm := q\<rparr>) (TaskList_MessageSendWithSize (env_now e) l i None 0 (cm_vm s)))"

definition Charger_UpdateConnected :: "charger_env \<Rightarrow> bool \<Rightarrow> charger_data \<Rightarrow> charger_data option" where
  "Charger_UpdateConnected e charger_is_connected s =
     (let new_is_connected = (if charger_is_connected then 1 else 0)
      in if is_connected s = new_is_connected then Some s
         else do {
           let s = s\<lparr>is_connected := new_is_connected\<rparr>;
           s \<leftarrow> (if is_connected s \<noteq> 0 then
                   do {
                     s \<leftarrow> Charger_UpdateCurrent e s;
                     Charger_DisableReasonClear e CHARGER_DISABLE_REASON_NOT_CONNECTED s
                   }
                 else
                   do {
                     s \<leftarrow> Charger_DisableReasonAdd e CHARGER_DISABLE_REASON_NOT_CONNECTED s;
                     Charger_DisableReasonClear e CHARGER_DISABLE_REASON_TIMEOUT s
                   });
           let s = Charger_UpdatePowerSupplySource s;
           Charger_NotifyClients e
             (if is_connected s \<noteq> 0 then CHARGER_MESSAGE_ATTACHED else CHARGER_MESSAGE_DETACHED) s
         })"

section \<open>Detecting the charger\<close>

definition chargerDetect_Resolved :: "charger_env \<Rightarrow> bool \<Rightarrow> charger_data \<Rightarrow> charger_data option" where
  "chargerDetect_Resolved e connected s =
     do {
       p \<leftarrow> charger_config s;
       s \<leftarrow> (if current_limiting (config_of p)
             then Charger_VChgMonitorStart e (s\<lparr>current_limit := ucast appConfigChargerDCPMinCurrent,
                    current_increasing := True, current_limit_detected := False\<rparr>)
             else Charger_VChgMonitorStop s);
       s \<leftarrow> Charger_UpdateConnected e connected (s\<lparr>usb_enumerated := False, usb_suspend := env_usb_suspended e\<rparr>);
       s \<leftarrow> Charger_UpdateCurrent e s;
       Some (Charger_UpdatePowerSupplySource s)
     }"

definition new_config ::
  "charger_env \<Rightarrow> charger_config_ptr option \<Rightarrow> bool \<Rightarrow> charger_data \<Rightarrow> charger_data option" where
  "new_config e config connected s =
     (if config = None \<or> charger_config s = config then Some s
      else chargerDetect_Resolved e connected (s\<lparr>charger_config := config\<rparr>))"

definition ChargerDetect_Detected :: "charger_env \<Rightarrow> MessageChargerDetected \<Rightarrow> charger_data \<Rightarrow> charger_data option" where
  "ChargerDetect_Detected e msg s = new_config e (ChargerDetect_GetConfig msg) (attached_status msg \<noteq> DETACHED) s"

definition ChargerDetect_Changed :: "charger_env \<Rightarrow> bool \<Rightarrow> charger_data \<Rightarrow> charger_data option" where
  "ChargerDetect_Changed e charger_connected s =
     new_config e (ChargerDetect_GetConnectedConfig charger_connected) charger_connected s"

definition ChargerDetect_UpdateUsbStatus :: "charger_env \<Rightarrow> message_id \<Rightarrow> charger_data \<Rightarrow> charger_data option" where
  "ChargerDetect_UpdateUsbStatus e i s =
     (let old_usb_suspend = usb_suspend s
      in if i \<in> {USB_DEVICE_ENUMERATED, USB_DEVICE_DECONFIGURED, USB_DEVICE_SUSPEND, USB_DEVICE_RESUME} then
           do {
             let s = (if i = USB_DEVICE_ENUMERATED then s\<lparr>usb_enumerated := True\<rparr>
                      else if i = USB_DEVICE_DECONFIGURED then s\<lparr>usb_enumerated := False, usb_suspend := False\<rparr>
                      else s\<lparr>usb_suspend := (i = USB_DEVICE_SUSPEND)\<rparr>);
             s \<leftarrow> Charger_UpdateCurrent e s;
             Some (if config_flag usb_events_apply s \<and> old_usb_suspend \<noteq> usb_suspend s
                   then Charger_UpdatePowerSupplySource s else s)
           }
         else Some s)"

definition ChargerDetect_GetChargerType :: "charger_data \<Rightarrow> charger_detect_type" where
  "ChargerDetect_GetChargerType s =
     (case charger_config s of Some p \<Rightarrow> charger_type (config_of p) | None \<Rightarrow> CHARGER_TYPE_NOT_RESOLVED)"

section \<open>Probing the limit of the charger\<close>

text \<open>The input voltage is good: raise the current, or stop.\<close>

definition vchg_good :: "charger_env \<Rightarrow> u16 \<Rightarrow> charger_data \<Rightarrow> charger_data option" where
  "vchg_good e requested s =
     (if (ucast (current_limit s) :: u16) > requested then Charger_VChgMonitorStop s
      else do {
        let new_current_limit = ucast (current_limit s) + appConfigChargerVchgStep;
        p \<leftarrow> charger_config s;
        if new_current_limit > ucast (cc_current (config_of p))
        then Charger_VChgMonitorStop (s\<lparr>current_limit_detected := True\<rparr>)
        else Charger_UpdateCurrent e (s\<lparr>current_limit := ucast new_current_limit\<rparr>)
      })"

text \<open>The current is being lowered until the input voltage has recovered.\<close>

definition vchg_recover :: "charger_env \<Rightarrow> u16 \<Rightarrow> charger_data \<Rightarrow> charger_data option" where
  "vchg_recover e voltage_mv s =
     (if voltage_mv \<le> appConfigChargerVchgRecoveryThreshold then
        if ucast (current_limit s) = appConfigChargerDCPMinCurrent
        then Charger_VChgMonitorStop (s\<lparr>current_limit_detected := True\<rparr>)
        else Charger_UpdateCurrent e (s\<lparr>current_limit := current_limit s - ucast appConfigChargerVchgStep\<rparr>)
      else Charger_VChgMonitorStop (s\<lparr>current_limit_detected := True\<rparr>))"

definition ChargerDetect_VchgReading :: "charger_env \<Rightarrow> u16 \<Rightarrow> u16 \<Rightarrow> charger_data \<Rightarrow> charger_data option" where
  "ChargerDetect_VchgReading e voltage_mv current_mA s =
     (let requested_current = ucast (Charger_GetFastCurrent s) :: u16
      in if (ucast current_mA :: u32) < ucast requested_current * 9 div 10 then
           do {
             s \<leftarrow> Charger_VChgMonitorStop (s\<lparr>current_limit := ucast (max current_mA appConfigChargerDCPMinCurrent),
               current_limit_detected := True\<rparr>);
             Charger_UpdateCurrent e s
           }
         else do {
           s \<leftarrow> (if current_increasing s then
                   if voltage_mv \<le> appConfigChargerVchgLowThreshold then Some (s\<lparr>current_increasing := False\<rparr>)
                   else vchg_good e requested_current s
                 else Some s);
           if \<not> current_increasing s then vchg_recover e voltage_mv s else Some s
         })"

definition Charger_VchgMonitorPeriodic :: "charger_env \<Rightarrow> charger_data \<Rightarrow> charger_data option" where
  "Charger_VchgMonitorPeriodic e s =
     (if \<not> vchg_monitor_enabled s \<or> vchg_monitor_read_pending s then Some s
      else
        (let adc_source = (if vref_reading s = 0 then adcsel_vref_hq_buff
                           else if chg_mon_reading s = CHG_MON_REQUEST_READING then adcsel_chg_mon
                           else adcsel_pmu_vchg_sns)
         in if \<not> env_adc_accepts e then cm_send_later e CHARGER_INTERNAL_VCHG_MEASUREMENT 10 s
            else Some (cm_log (Call_AdcReadRequest adc_source) (s\<lparr>vchg_monitor_read_pending := True\<rparr>))))"

definition Charger_VChgMonitorReading ::
  "charger_env \<Rightarrow> charger_adc \<Rightarrow> u16 \<Rightarrow> charger_data \<Rightarrow> charger_data option" where
  "Charger_VChgMonitorReading e adc_source reading s =
     (case adc_source of
        adcsel_vref_hq_buff \<Rightarrow>
          cm_send e CHARGER_INTERNAL_VCHG_MEASUREMENT (s\<lparr>vchg_monitor_read_pending := False, vref_reading := reading\<rparr>)
      | adcsel_chg_mon \<Rightarrow>
          let s = s\<lparr>vchg_monitor_read_pending := False\<rparr>
          in if vchg_monitor_enabled s \<and> vref_reading s \<noteq> 0 then
               cm_send e CHARGER_INTERNAL_VCHG_MEASUREMENT
                 (s\<lparr>chg_mon_reading := ucast (Charger_GetFastCurrent s * ucast reading div ucast (vref_reading s))\<rparr>)
             else Some s
      | adcsel_pmu_vchg_sns \<Rightarrow>
          let s = s\<lparr>vchg_monitor_read_pending := False\<rparr>
          in if vchg_monitor_enabled s \<and> vref_reading s \<noteq> 0 then
               do {
                 let reading_mv = ucast ((ucast (env_vref_constant e) :: u32) * ucast reading div ucast (vref_reading s));
                 s \<leftarrow> ChargerDetect_VchgReading e reading_mv (chg_mon_reading s) s;
                 cm_send_later e CHARGER_INTERNAL_VCHG_MEASUREMENT appConfigChargerVchgPollingPeriodMs
                   (s\<lparr>chg_mon_reading := CHG_MON_REQUEST_READING\<rparr>)
               }
             else Some s
      | adcsel_other \<Rightarrow> Some s)"

section \<open>Status of the hardware\<close>

definition charger_StatusMessageId :: "charger_status \<Rightarrow> message_id" where
  "charger_StatusMessageId st =
     (case st of
        TRICKLE_CHARGE \<Rightarrow> CHARGER_MESSAGE_CHARGING_LOW
      | PRE_CHARGE \<Rightarrow> CHARGER_MESSAGE_CHARGING_LOW
      | FAST_CHARGE \<Rightarrow> CHARGER_MESSAGE_CHARGING_OK
      | STANDBY \<Rightarrow> CHARGER_MESSAGE_COMPLETED
      | VBAT_OVERVOLT_ERROR \<Rightarrow> CHARGER_MESSAGE_ERROR
      | HEADROOM_ERROR \<Rightarrow> CHARGER_MESSAGE_ERROR
      | _ \<Rightarrow> CHARGER_MESSAGE_DISABLED)"

text \<open>A setting was out of range: try with less current, or treat it as an error.\<close>

definition values_out_of_range :: "charger_env \<Rightarrow> charger_data \<Rightarrow> charger_data option" where
  "values_out_of_range e s =
     (if ucast (fast_current s) > appConfigChargerInternalMaxCurrent then
        do {
          s \<leftarrow> Charger_UpdateCurrent e (s\<lparr>max_supported_current := fast_current s - 50\<rparr>);
          s \<leftarrow> Charger_DisableReasonAdd e CHARGER_DISABLE_REASON_INTERNAL s;
          Charger_DisableReasonClear e CHARGER_DISABLE_REASON_INTERNAL s
        }
      else Charger_Error e s)"

definition Charger_StatusChanged :: "charger_env \<Rightarrow> charger_status \<Rightarrow> charger_data \<Rightarrow> charger_data option" where
  "Charger_StatusChanged e chg_status s =
     do {
       let s = s\<lparr>status := chg_status\<rparr>;
       let charge_timeout_ms = (case chg_status of
             FAST_CHARGE \<Rightarrow> appConfigChargerFastChargeTimeoutMs (build s)
           | PRE_CHARGE \<Rightarrow> appConfigChargerPreChargeTimeoutMs (build s)
           | _ \<Rightarrow> 0);
       s \<leftarrow> (case chg_status of
             HEADROOM_ERROR \<Rightarrow> Charger_Error e s
           | VBAT_OVERVOLT_ERROR \<Rightarrow> Charger_Error e s
           | CONFIG_FAIL_VALUES_OUT_OF_RANGE \<Rightarrow> values_out_of_range e s
           | _ \<Rightarrow> Some s);
       s \<leftarrow> Charger_NotifyClients e (charger_StatusMessageId (status s)) s;
       let s = cm_log (Call_Ui_InformContextChange (appChargerCurrentContext s)) s;
       s \<leftarrow> cm_cancel_all CHARGER_INTERNAL_CHARGE_TIMEOUT s;
       if charge_timeout_ms \<noteq> 0 then cm_send_later e CHARGER_INTERNAL_CHARGE_TIMEOUT charge_timeout_ms s else Some s
     }"

section \<open>Message handler\<close>

text \<open>The contents of the firmware's messages; a handler reads the contents that belong to the id.\<close>

datatype charger_message =
    No_contents | Detected MessageChargerDetected | Changed bool | Status charger_status | Adc_result charger_adc u16

definition charger_HandleMessage ::
  "charger_env \<Rightarrow> message_id \<Rightarrow> charger_message \<Rightarrow> charger_data \<Rightarrow> charger_data option" where
  "charger_HandleMessage e i message s =
     (if i = CHARGER_INTERNAL_CHARGE_TIMEOUT then Charger_DisableReasonAdd e CHARGER_DISABLE_REASON_TIMEOUT s
      else if i = CHARGER_INTERNAL_RE_ENABLE_TIMEOUT then Charger_DisableReasonClear e CHARGER_DISABLE_REASON_ERROR s
      else if i = MESSAGE_CHARGER_DETECTED then
        (if INCLUDE_CHARGER_DETECT (build s) \<and> \<not> test_mode s
         then case message of Detected msg \<Rightarrow> ChargerDetect_Detected e msg s | _ \<Rightarrow> None
         else Some s)
      else if i = MESSAGE_CHARGER_CHANGED then
        (if \<not> test_mode s
         then case message of
                Changed b \<Rightarrow> if INCLUDE_CHARGER_DETECT (build s) then ChargerDetect_Changed e b s
                             else Charger_UpdateConnected e b s
              | _ \<Rightarrow> None
         else Some s)
      else if i = MESSAGE_CHARGER_STATUS then
        (if \<not> test_mode s then case message of Status st \<Rightarrow> Charger_StatusChanged e st s | _ \<Rightarrow> None
         else Some s)
      else if INCLUDE_CHARGER_DETECT (build s) then
        if i \<in> {USB_DEVICE_ENUMERATED, USB_DEVICE_DECONFIGURED, USB_DEVICE_SUSPEND, USB_DEVICE_RESUME}
        then ChargerDetect_UpdateUsbStatus e i s
        else if i = CHARGER_INTERNAL_VCHG_MEASUREMENT then Charger_VchgMonitorPeriodic e s
        else if i = MESSAGE_CHARGER_ADC_RESULT
        then case message of Adc_result src reading \<Rightarrow> Charger_VChgMonitorReading e src reading s | _ \<Rightarrow> None
        else Some s
      else Some s)"

section \<open>Start, clients and tests\<close>

definition charger_ConfigureCharger :: "charger_env \<Rightarrow> charger_data \<Rightarrow> charger_data option" where
  "charger_ConfigureCharger e s =
     do {
       s \<leftarrow> panic_configure e CHARGER_TRICKLE_CURRENT (appConfigChargerTrickleCurrent (build s)) s;
       s \<leftarrow> panic_configure e CHARGER_PRE_CURRENT (ucast appConfigChargerPreCurrent) s;
       s \<leftarrow> panic_configure e CHARGER_ITERM_CTRL appConfigChargerTerminationCurrent s;
       s \<leftarrow> (if FAST_CHARGE_EXTERNAL_RESISTOR (build s) \<noteq> 0
             then panic_configure e CHARGER_EXTERNAL_RESISTOR (FAST_CHARGE_EXTERNAL_RESISTOR (build s)) s else Some s);
       s \<leftarrow> charger_SetFastCurrent e 0 s;
       s \<leftarrow> panic_configure e CHARGER_PRE_FAST_THRESHOLD (ucast appConfigChargerPreFastThresholdVoltage) s;
       s \<leftarrow> panic_configure e CHARGER_TERM_VOLTAGE (ucast appConfigChargerTerminationVoltage) s;
       s \<leftarrow> panic_configure e CHARGER_STANDBY_FAST_HYSTERESIS appConfigChargerStandbyFastVoltageHysteresis s;
       panic_configure e CHARGER_STATE_CHANGE_DEBOUNCE appConfigChargerStateChangeDebounce s
     }"

definition ChargerDetect_Init :: "charger_env \<Rightarrow> charger_data \<Rightarrow> charger_data option" where
  "ChargerDetect_Init e s =
     do {
       let s = cm_log (Call_UsbDevice_ClientRegister (cm_task s)) s;
       s \<leftarrow> ChargerDetect_Changed e (Charger_Status e s \<noteq> NO_POWER) s;
       Some (cm_log Call_ChargerMessageRequest s)
     }"

definition Charger_Init :: "charger_env \<Rightarrow> charger_data \<Rightarrow> charger_data option" where
  "Charger_Init e s =
     do {
       let s = s\<lparr>status := ENABLE_FAIL_UNKNOWN, is_connected := CHARGER_CONNECTION_UNKNOWN,
                 max_supported_current := appConfigChargerFastCurrent (build s)\<rparr>;
       s \<leftarrow> Charger_DisableReasonAdd e CHARGER_DISABLE_REASON_NOT_CONNECTED (cm_log (Call_MessageChargerTask (cm_task s)) s);
       s \<leftarrow> charger_ConfigureCharger e s;
       s \<leftarrow> (if INCLUDE_CHARGER_DETECT (build s) then ChargerDetect_Init e s
             else Charger_UpdateConnected e (Charger_Status e s \<noteq> NO_POWER) s);
       Some (cm_log Call_Ui_RegisterUiProvider s)
     }"

definition Charger_ClientRegister :: "charger_env \<Rightarrow> task \<Rightarrow> charger_data \<Rightarrow> (bool \<times> charger_data) option" where
  "Charger_ClientRegister e client_task s =
     do {
       l \<leftarrow> (case charger_client_tasks s of None \<Rightarrow> TaskList_Create | Some l \<Rightarrow> Some l);
       (added, l) \<leftarrow> TaskList_AddTask l client_task;
       let s = s\<lparr>charger_client_tasks := Some l\<rparr>;
       if added then
         do {
           q \<leftarrow> MessageSend (env_now e) client_task
                 (if Charger_IsConnected s then CHARGER_MESSAGE_ATTACHED else CHARGER_MESSAGE_DETACHED) None (cm_vm s);
           q \<leftarrow> MessageSend (env_now e) client_task (charger_StatusMessageId (status s)) None q;
           Some (True, s\<lparr>cm_vm := q\<rparr>)
         }
       else Some (False, s)
     }"

text \<open>Removing from the list before it exists panics.\<close>

definition Charger_ClientUnregister :: "task \<Rightarrow> charger_data \<Rightarrow> charger_data option" where
  "Charger_ClientUnregister client_task s =
     do {
       l \<leftarrow> charger_client_tasks s;
       (_, l) \<leftarrow> TaskList_RemoveTask l client_task;
       Some (s\<lparr>charger_client_tasks := Some l\<rparr>)
     }"

definition chargerMonitor_RegisterMessageGroup ::
  "charger_env \<Rightarrow> task \<Rightarrow> message_group \<Rightarrow> charger_data \<Rightarrow> charger_data option" where
  "chargerMonitor_RegisterMessageGroup e t grp s =
     do { PanicFalse (grp = MESSAGE_GROUP ''CHARGER''); map_option snd (Charger_ClientRegister e t s) }"

definition Charger_TestModeControl :: "charger_env \<Rightarrow> bool \<Rightarrow> charger_data \<Rightarrow> charger_data option" where
  "Charger_TestModeControl e enabled s =
     (if enabled then Some (s\<lparr>test_mode := True\<rparr>)
      else if test_mode s then
        let s = s\<lparr>test_mode := False\<rparr>
        in if INCLUDE_CHARGER_DETECT (build s) then
             do {
               s \<leftarrow> ChargerDetect_Changed e (Charger_Status e s \<noteq> NO_POWER) s;
               ChargerDetect_Detected e \<lparr>attached_status = Charger_AttachedStatus e s, charger_dp_millivolts = 0,
                 charger_dm_millivolts = 0, cc_status = CC_CURRENT_DEFAULT\<rparr> s
             }
           else Charger_UpdateConnected e (Charger_Status e s \<noteq> NO_POWER) s
      else Some s)"

definition Charger_TestChargerConnected :: "charger_env \<Rightarrow> bool \<Rightarrow> charger_data \<Rightarrow> charger_data option" where
  "Charger_TestChargerConnected e connected s =
     (if \<not> test_mode s then Some s
      else if INCLUDE_CHARGER_DETECT (build s) then ChargerDetect_Changed e connected s
      else Charger_UpdateConnected e connected s)"

definition Charger_TestChargerDetected ::
  "charger_env \<Rightarrow> MessageChargerDetected \<Rightarrow> charger_data \<Rightarrow> charger_data option" where
  "Charger_TestChargerDetected e msg s =
     (if \<not> test_mode s then Some s
      else let s = s\<lparr>test_attached_status := attached_status msg\<rparr>
           in if INCLUDE_CHARGER_DETECT (build s) then ChargerDetect_Detected e msg s else Some s)"

definition Charger_TestChargerStatus :: "charger_env \<Rightarrow> charger_status \<Rightarrow> charger_data \<Rightarrow> charger_data option" where
  "Charger_TestChargerStatus e chg_status s =
     (if \<not> test_mode s then Some s else Charger_StatusChanged e chg_status s)"

section \<open>What the hardware has been told\<close>

text \<open>Every setting is accepted; a refused one panics.\<close>

definition env_ok :: "charger_env \<Rightarrow> bool" where "env_ok e = (\<forall>k v. env_configure e k v)"

definition configured :: "charger_config_key \<Rightarrow> charger_call list \<Rightarrow> u32 option" where
  "configured k cs = fold (\<lambda>c r. case c of Configure k' v \<Rightarrow> if k' = k then Some v else r | _ \<Rightarrow> r) cs None"

lemma configured_simps [simp]:
  "configured k [] = None"
  "configured k (cs @ [Configure k' v]) = (if k' = k then Some v else configured k cs)"
  by (simp_all add: configured_def)

lemma configured_other [simp]: "\<forall>k v. c \<noteq> Configure k v \<Longrightarrow> configured k (cs @ [c]) = configured k cs"
  by (cases c) (simp_all add: configured_def)

text \<open>The conversion that was asked for last.\<close>

definition requested_adc :: "charger_call list \<Rightarrow> charger_adc option" where
  "requested_adc cs = fold (\<lambda>c r. case c of Call_AdcReadRequest a \<Rightarrow> Some a | _ \<Rightarrow> r) cs None"

lemma requested_adc_simps [simp]:
  "requested_adc (cs @ [Call_AdcReadRequest a]) = Some a"
  "\<forall>a. c \<noteq> Call_AdcReadRequest a \<Longrightarrow> requested_adc (cs @ [c]) = requested_adc cs"
  by (cases c; simp add: requested_adc_def)+

text \<open>Calls that leave everything but the switch as it was.\<close>

definition only_switched :: "charger_call list \<Rightarrow> charger_call list \<Rightarrow> bool" where
  "only_switched cs cs' = ((\<forall>k. k \<noteq> CHARGER_ENABLE \<longrightarrow> configured k cs' = configured k cs) \<and> requested_adc cs' = requested_adc cs)"

lemma only_switched_simps [simp]: "only_switched cs cs" "only_switched cs (cs @ [Configure CHARGER_ENABLE v])"
  by (simp_all add: only_switched_def)

text \<open>
  The settings the charger may only be given in the right state: no fast current of zero and no change of the
  mode while it is enabled, and it is enabled only with a fast current.
\<close>

definition call_safe :: "charger_call list \<Rightarrow> charger_call \<Rightarrow> bool" where
  "call_safe cs c =
     (case c of
        Configure k v \<Rightarrow>
          (k = CHARGER_FAST_CURRENT \<and> v = 0 \<or> k = CHARGER_USE_EXTERNAL_RESISTOR_FOR_FAST_CHARGE
             \<longrightarrow> configured CHARGER_ENABLE cs = Some 0)
          \<and> (k = CHARGER_ENABLE \<and> v \<noteq> 0 \<longrightarrow> (\<exists>c. configured CHARGER_FAST_CURRENT cs = Some c \<and> c \<noteq> 0))
      | _ \<Rightarrow> True)"

definition log_safe :: "charger_call list \<Rightarrow> bool" where
  "log_safe cs = (\<forall>as c bs. cs = as @ c # bs \<longrightarrow> call_safe as c)"

lemma log_safe_simps [simp]: "log_safe []" "log_safe (cs @ [c]) = (log_safe cs \<and> call_safe cs c)"
proof -
  show "log_safe (cs @ [c]) = (log_safe cs \<and> call_safe cs c)"
  proof
    assume l: "log_safe (cs @ [c])"
    have "call_safe as d" if "cs = as @ d # bs" for as d bs
    proof -
      have "cs @ [c] = as @ d # (bs @ [c])" using that by simp
      with l show ?thesis unfolding log_safe_def by blast
    qed
    then show "log_safe cs \<and> call_safe cs c" using l by (auto simp: log_safe_def)
  next
    assume "log_safe cs \<and> call_safe cs c"
    then show "log_safe (cs @ [c])"
      by (auto simp: log_safe_def append_eq_append_conv2 Cons_eq_append_conv append_eq_Cons_conv)
  qed
qed (simp add: log_safe_def)

lemma call_safe_simps [simp]:
  "call_safe cs (Configure CHARGER_ENABLE 0)"
  "call_safe cs (Configure CHARGER_ENABLE 1) = (\<exists>c. configured CHARGER_FAST_CURRENT cs = Some c \<and> c \<noteq> 0)"
  "call_safe cs (Configure CHARGER_FAST_CURRENT v) = (v = 0 \<longrightarrow> configured CHARGER_ENABLE cs = Some 0)"
  "call_safe cs (Configure CHARGER_USE_EXTERNAL_RESISTOR_FOR_FAST_CHARGE v) = (configured CHARGER_ENABLE cs = Some 0)"
  "k \<notin> {CHARGER_ENABLE, CHARGER_FAST_CURRENT, CHARGER_USE_EXTERNAL_RESISTOR_FOR_FAST_CHARGE} \<Longrightarrow> call_safe cs (Configure k v)"
  "\<forall>k v. c \<noteq> Configure k v \<Longrightarrow> call_safe cs c"
  by (auto simp: call_safe_def split: charger_call.splits)

section \<open>The reasons\<close>

lemma reason_bits [simp]:
  "bit CHARGER_DISABLE_REASON_TIMEOUT n \<longleftrightarrow> n = 0"
  "bit CHARGER_DISABLE_REASON_REQUEST n \<longleftrightarrow> n = 1"
  "bit CHARGER_DISABLE_REASON_ERROR n \<longleftrightarrow> n = 2"
  "bit CHARGER_DISABLE_REASON_ZERO_CURRENT n \<longleftrightarrow> n = 3"
  "bit CHARGER_DISABLE_REASON_NOT_CONNECTED n \<longleftrightarrow> n = 4"
  "bit CHARGER_DISABLE_REASON_INTERNAL n \<longleftrightarrow> n = 5"
proof -
  have p: "bit (2 ^ m :: u32) n \<longleftrightarrow> n = m" if "m < 32" for m using that by (auto simp: bit_exp_iff)
  show "bit CHARGER_DISABLE_REASON_TIMEOUT n \<longleftrightarrow> n = 0" using p [of 0] by (simp add: CHARGER_DISABLE_REASON_TIMEOUT_def)
  show "bit CHARGER_DISABLE_REASON_REQUEST n \<longleftrightarrow> n = 1" using p [of 1] by (simp add: CHARGER_DISABLE_REASON_REQUEST_def)
  show "bit CHARGER_DISABLE_REASON_ERROR n \<longleftrightarrow> n = 2" using p [of 2] by (simp add: CHARGER_DISABLE_REASON_ERROR_def)
  show "bit CHARGER_DISABLE_REASON_ZERO_CURRENT n \<longleftrightarrow> n = 3" using p [of 3] by (simp add: CHARGER_DISABLE_REASON_ZERO_CURRENT_def)
  show "bit CHARGER_DISABLE_REASON_NOT_CONNECTED n \<longleftrightarrow> n = 4" using p [of 4] by (simp add: CHARGER_DISABLE_REASON_NOT_CONNECTED_def)
  show "bit CHARGER_DISABLE_REASON_INTERNAL n \<longleftrightarrow> n = 5" using p [of 5] by (simp add: CHARGER_DISABLE_REASON_INTERNAL_def)
qed

lemma reason_nonzero: "bit (r :: u32) n \<Longrightarrow> r \<noteq> 0"
  by auto

lemma reasons_nonzero [simp]:
  "CHARGER_DISABLE_REASON_TIMEOUT \<noteq> 0" "CHARGER_DISABLE_REASON_REQUEST \<noteq> 0" "CHARGER_DISABLE_REASON_ERROR \<noteq> 0"
  "CHARGER_DISABLE_REASON_ZERO_CURRENT \<noteq> 0" "CHARGER_DISABLE_REASON_NOT_CONNECTED \<noteq> 0"
  "CHARGER_DISABLE_REASON_INTERNAL \<noteq> 0"
  by (rule reason_nonzero, rule reason_bits [THEN iffD2], rule refl)+

lemma toggle_internal [simp]:
  assumes "\<not> bit d 5"
  shows "d AND NOT CHARGER_DISABLE_REASON_INTERNAL = d"
    "(d OR CHARGER_DISABLE_REASON_INTERNAL) AND NOT CHARGER_DISABLE_REASON_INTERNAL = d"
  using assms by (auto intro!: bit_word_eqI simp: bit_simps)

lemma or_nonzero: "(d :: u32) OR r = 0 \<longleftrightarrow> d = 0 \<and> r = 0"
  by (simp add: or_eq_0_iff)

section \<open>The switch\<close>

definition sw_ok :: "charger_data \<Rightarrow> bool" where
  "sw_ok s = (cm_task s \<noteq> INVALIDATED_TASK \<and> (is_enabled s \<longleftrightarrow> disable_reason s = 0)
     \<and> configured CHARGER_ENABLE (cm_calls s) = Some (if is_enabled s then 1 else 0) \<and> log_safe (cm_calls s))"

text \<open>The scheduler after an operation that may have cancelled the charge timeout.\<close>

definition quiet :: "task \<Rightarrow> unit vm \<Rightarrow> unit vm \<Rightarrow> bool" where
  "quiet t q q' =
     ((\<forall>u. u \<noteq> t \<and> u \<noteq> INVALIDATED_TASK \<longrightarrow> posted_data u q' = posted_data u q)
      \<and> (\<forall>i. i \<noteq> CHARGER_INTERNAL_CHARGE_TIMEOUT \<longrightarrow> pending_id t i q' = pending_id t i q)
      \<and> pending_id t CHARGER_INTERNAL_CHARGE_TIMEOUT q' \<le> pending_id t CHARGER_INTERNAL_CHARGE_TIMEOUT q)"

lemma quiet_refl [simp]: "quiet t q q" by (simp add: quiet_def)

lemma quiet_trans: "quiet t q q' \<Longrightarrow> quiet t q' q'' \<Longrightarrow> quiet t q q''"
  by (auto simp: quiet_def intro: order_trans)

abbreviation switched :: "u32 \<Rightarrow> charger_call list \<Rightarrow> unit vm \<Rightarrow> charger_data \<Rightarrow> charger_data" where
  "switched d cs q s \<equiv> s\<lparr>is_enabled := (d = 0), disable_reason := d, cm_calls := cs, cm_vm := q\<rparr>"

lemma cancel_timeout_succeeds:
  assumes "cm_task s \<noteq> INVALIDATED_TASK"
    and "\<And>q. quiet (cm_task s) (cm_vm s) q \<Longrightarrow> pending_id (cm_task s) CHARGER_INTERNAL_CHARGE_TIMEOUT q = 0 \<Longrightarrow> Q (s\<lparr>cm_vm := q\<rparr>)"
  shows "succeeds (cm_cancel_all CHARGER_INTERNAL_CHARGE_TIMEOUT s) Q"
  unfolding cm_cancel_all_def succeeds_simps
proof (rule MessageCancelAll_succeeds [OF assms(1)], simp)
  fix q'
  assume *: "\<And>u. u \<noteq> INVALIDATED_TASK \<Longrightarrow> posted_data u q'
      = (if u = cm_task s then filter_mset (\<lambda>p. fst p \<noteq> CHARGER_INTERNAL_CHARGE_TIMEOUT) (posted_data u (cm_vm s))
         else posted_data u (cm_vm s))"
  have p: "pending_id (cm_task s) j q' = (if j = CHARGER_INTERNAL_CHARGE_TIMEOUT then 0 else pending_id (cm_task s) j (cm_vm s))" for j
    using pending_id_cancelled [OF * [OF assms(1)], of j] by simp
  show "Q (s\<lparr>cm_vm := q'\<rparr>)" by (rule assms(2)) (auto simp: quiet_def p *)
qed

lemma Add_succeeds:
  assumes "env_ok e" "sw_ok s" "r \<noteq> 0"
    and "\<And>cs q. sw_ok (switched (disable_reason s OR r) cs q s) \<Longrightarrow>
      only_switched (cm_calls s) cs \<Longrightarrow> quiet (cm_task s) (cm_vm s) q \<Longrightarrow>
      Q (switched (disable_reason s OR r) cs q s)"
  shows "succeeds (Charger_DisableReasonAdd e r s) Q"
proof -
  have t: "cm_task s \<noteq> INVALIDATED_TASK" using assms(2) by (simp add: sw_ok_def)
  have d: "disable_reason s OR r \<noteq> 0" using assms(3) by (simp add: or_nonzero)
  show ?thesis
  proof (cases "disable_reason s = 0")
    case True
    let ?cs = "cm_calls s @ [Configure CHARGER_ENABLE 0]"
    have "Q (s\<lparr>is_enabled := False, cm_calls := ?cs, cm_vm := q, disable_reason := r\<rparr>)" if "quiet (cm_task s) (cm_vm s) q" for q
    proof -
      have "s\<lparr>is_enabled := False, cm_calls := ?cs, cm_vm := q, disable_reason := r\<rparr> = switched (disable_reason s OR r) ?cs q s"
        using True assms(3) by simp
      moreover have "Q (switched (disable_reason s OR r) ?cs q s)"
        using assms(2) d that by (intro assms(4)) (simp_all add: sw_ok_def)
      ultimately show ?thesis by simp
    qed
    then have "succeeds (cm_cancel_all CHARGER_INTERNAL_CHARGE_TIMEOUT (s\<lparr>is_enabled := False, cm_calls := ?cs\<rparr>))
        (\<lambda>x. Q (x\<lparr>disable_reason := disable_reason x OR r\<rparr>))"
      using t True by (intro cancel_timeout_succeeds) simp_all
    then show ?thesis
      using assms(1,3) True
      by (simp add: Charger_DisableReasonAdd_def Charger_Disable_def panic_configure_def env_ok_def cm_log_def)
  next
    case False
    then have "s = switched (disable_reason s) (cm_calls s) (cm_vm s) s" using assms(2) by (simp add: sw_ok_def)
    then show ?thesis
      using assms(2) assms(4) [where cs = "cm_calls s" and q = "cm_vm s"] False assms(3) d
      by (simp add: Charger_DisableReasonAdd_def sw_ok_def)
  qed
qed

lemma Clear_succeeds:
  assumes "env_ok e" "sw_ok s" "r \<noteq> 0"
    and "disable_reason s \<noteq> 0 \<Longrightarrow> disable_reason s AND NOT r = 0 \<Longrightarrow>
      \<exists>c. configured CHARGER_FAST_CURRENT (cm_calls s) = Some c \<and> c \<noteq> 0"
    and "\<And>cs. sw_ok (switched (disable_reason s AND NOT r) cs (cm_vm s) s) \<Longrightarrow>
      only_switched (cm_calls s) cs \<Longrightarrow>
      Q (switched (disable_reason s AND NOT r) cs (cm_vm s) s)"
  shows "succeeds (Charger_DisableReasonClear e r s) Q"
proof (cases "disable_reason s = 0 \<or> disable_reason s AND NOT r \<noteq> 0")
  case True
  let ?s = "s\<lparr>disable_reason := disable_reason s AND NOT r\<rparr>"
  have "s = ?s" if "disable_reason s = 0" using that by simp
  have "s\<lparr>disable_reason := disable_reason s AND NOT r\<rparr> = switched (disable_reason s AND NOT r) (cm_calls s) (cm_vm s) s"
    using assms(2) True by (cases "disable_reason s = 0") (auto simp: sw_ok_def)
  moreover have "Q (switched (disable_reason s AND NOT r) (cm_calls s) (cm_vm s) s)"
    using assms(2) True by (intro assms(5)) (auto simp: sw_ok_def)
  ultimately have "Q ?s" by simp
  moreover have "Q s" if "disable_reason s = 0" using \<open>Q ?s\<close> \<open>disable_reason s = 0 \<Longrightarrow> s = ?s\<close> that by metis
  ultimately show ?thesis
    using assms(3) True by (cases "disable_reason s = 0") (auto simp: Charger_DisableReasonClear_def Let_def)
next
  case False
  let ?cs = "cm_calls s @ [Configure CHARGER_ENABLE 1]"
  have "s\<lparr>disable_reason := 0, is_enabled := True, cm_calls := ?cs\<rparr> = switched (disable_reason s AND NOT r) ?cs (cm_vm s) s"
    using False by simp
  moreover have "Q (switched (disable_reason s AND NOT r) ?cs (cm_vm s) s)"
    using assms(2,4) False by (intro assms(5)) (auto simp: sw_ok_def)
  ultimately have "Q (s\<lparr>disable_reason := 0, is_enabled := True, cm_calls := ?cs\<rparr>)" by simp
  then show ?thesis
    using assms(1,3) False
    by (simp add: Charger_DisableReasonClear_def Let_def Charger_Enable_def panic_configure_def env_ok_def cm_log_def)
qed
text \<open>What the switch and the fast current leave alone.\<close>

definition rest_same :: "charger_data \<Rightarrow> charger_data \<Rightarrow> bool" where
  "rest_same s s' = (cm_task s' = cm_task s \<and> is_connected s' = is_connected s
     \<and> force_allow_power_off s' = force_allow_power_off s \<and> test_mode s' = test_mode s
     \<and> max_supported_current s' = max_supported_current s \<and> power_source_vbat s' = power_source_vbat s
     \<and> usb_enumerated s' = usb_enumerated s \<and> usb_suspend s' = usb_suspend s
     \<and> usb_leds_forced_off s' = usb_leds_forced_off s \<and> vchg_monitor_enabled s' = vchg_monitor_enabled s
     \<and> vchg_monitor_read_pending s' = vchg_monitor_read_pending s
     \<and> current_limit_detected s' = current_limit_detected s \<and> current_increasing s' = current_increasing s
     \<and> current_limit s' = current_limit s \<and> vref_reading s' = vref_reading s \<and> chg_mon_reading s' = chg_mon_reading s
     \<and> status s' = status s \<and> test_attached_status s' = test_attached_status s
     \<and> charger_config s' = charger_config s \<and> charger_client_tasks s' = charger_client_tasks s
     \<and> build s' = build s \<and> requested_adc (cm_calls s') = requested_adc (cm_calls s)
     \<and> quiet (cm_task s) (cm_vm s) (cm_vm s'))"

lemma rest_same_refl [simp]: "rest_same s s" by (simp add: rest_same_def)

lemma rest_same_trans: "rest_same s s' \<Longrightarrow> rest_same s' s'' \<Longrightarrow> rest_same s s''"
  by (simp add: rest_same_def) (metis quiet_trans)

text \<open>A change of the reasons: the switch follows them.\<close>

definition reasons_changed :: "u32 \<Rightarrow> charger_data \<Rightarrow> charger_data \<Rightarrow> bool" where
  "reasons_changed d s s' = (sw_ok s' \<and> disable_reason s' = d \<and> rest_same s s' \<and> only_switched (cm_calls s) (cm_calls s')
     \<and> fast_current s' = fast_current s \<and> ext_mode_enabled s' = ext_mode_enabled s)"

lemma reasons_changedD:
  assumes "reasons_changed d s s'"
  shows "sw_ok s'" "disable_reason s' = d" "rest_same s s'" "fast_current s' = fast_current s"
    "ext_mode_enabled s' = ext_mode_enabled s"
    "k \<noteq> CHARGER_ENABLE \<Longrightarrow> configured k (cm_calls s') = configured k (cm_calls s)"
  using assms by (simp_all add: reasons_changed_def only_switched_def)

lemma reason_added:
  assumes "env_ok e" "sw_ok s" "r \<noteq> 0"
  shows "succeeds (Charger_DisableReasonAdd e r s) (reasons_changed (disable_reason s OR r) s)"
  by (rule Add_succeeds [OF assms]) (simp add: reasons_changed_def rest_same_def only_switched_def)

lemma reason_cleared:
  assumes "env_ok e" "sw_ok s" "r \<noteq> 0"
    and "disable_reason s \<noteq> 0 \<Longrightarrow> disable_reason s AND NOT r = 0 \<Longrightarrow>
      \<exists>v. configured CHARGER_FAST_CURRENT (cm_calls s) = Some v \<and> v \<noteq> 0"
  shows "succeeds (Charger_DisableReasonClear e r s) (reasons_changed (disable_reason s AND NOT r) s)"
  by (rule Clear_succeeds [OF assms]) (simp_all add: reasons_changed_def rest_same_def only_switched_def)

lemma configure_accepted: "env_ok e \<Longrightarrow> panic_configure e k v s = Some (cm_log (Configure k v) s)"
  by (simp add: env_ok_def panic_configure_def)

text \<open>The current the hardware is given for a requested one.\<close>

definition given_current :: "charger_data \<Rightarrow> u16 \<Rightarrow> u16" where
  "given_current s c = (if c > appConfigChargerInternalMaxCurrent \<and> FAST_CHARGE_EXTERNAL_RESISTOR (build s) = 0
     then appConfigChargerInternalMaxCurrent else c)"

lemma given_current_0: "given_current s c = 0 \<longleftrightarrow> c = 0"
  by (auto simp: given_current_def appConfigChargerInternalMaxCurrent_def word_less_nat_alt)

text \<open>While the mode is being changed the charger is disabled for an internal reason.\<close>

definition mode_selected :: "u16 \<Rightarrow> charger_data \<Rightarrow> u16 \<times> charger_data \<Rightarrow> bool" where
  "mode_selected c s r = (case r of (m, s') \<Rightarrow> m = given_current s c \<and> sw_ok s' \<and> rest_same s s'
     \<and> fast_current s' = fast_current s
     \<and> configured CHARGER_FAST_CURRENT (cm_calls s') = configured CHARGER_FAST_CURRENT (cm_calls s)
     \<and> (if FAST_CHARGE_EXTERNAL_RESISTOR (build s) = 0
        then disable_reason s' = disable_reason s \<and> ext_mode_enabled s' = ext_mode_enabled s
        else disable_reason s' \<in> {disable_reason s, disable_reason s OR CHARGER_DISABLE_REASON_INTERNAL}
          \<and> (ext_mode_enabled s' \<longleftrightarrow> c > appConfigChargerInternalMaxCurrent)))"

lemma mode_changed:
  assumes "env_ok e" "sw_ok s" "FAST_CHARGE_EXTERNAL_RESISTOR (build s) \<noteq> 0"
    and "x \<longleftrightarrow> c > appConfigChargerInternalMaxCurrent"
  shows "succeeds (do { s \<leftarrow> Charger_DisableReasonAdd e CHARGER_DISABLE_REASON_INTERNAL s;
      s \<leftarrow> panic_configure e CHARGER_USE_EXTERNAL_RESISTOR_FOR_FAST_CHARGE v s;
      Some (c, s\<lparr>ext_mode_enabled := x\<rparr>) }) (mode_selected c s)"
  unfolding succeeds_simps
proof (rule succeeds_mono [OF reason_added [OF assms(1,2)]], simp)
  fix s1 assume r: "reasons_changed (disable_reason s OR CHARGER_DISABLE_REASON_INTERNAL) s s1"
  have n: "disable_reason s OR CHARGER_DISABLE_REASON_INTERNAL \<noteq> 0" by (simp add: or_nonzero)
  have "sw_ok s1" "rest_same s s1" "disable_reason s1 \<noteq> 0" "fast_current s1 = fast_current s"
    using reasons_changedD [OF r] n by simp_all
  then have "sw_ok (cm_log (Configure CHARGER_USE_EXTERNAL_RESISTOR_FOR_FAST_CHARGE v) s1\<lparr>ext_mode_enabled := x\<rparr>)"
    "rest_same s (cm_log (Configure CHARGER_USE_EXTERNAL_RESISTOR_FOR_FAST_CHARGE v) s1\<lparr>ext_mode_enabled := x\<rparr>)"
    by (simp_all add: sw_ok_def cm_log_def rest_same_def)
  then show "succeeds (panic_configure e CHARGER_USE_EXTERNAL_RESISTOR_FOR_FAST_CHARGE v s1)
      (\<lambda>s'. mode_selected c s (c, s'\<lparr>ext_mode_enabled := x\<rparr>))"
    using assms(1,3,4) reasons_changedD [OF r]
    by (simp add: configure_accepted mode_selected_def cm_log_def given_current_def)
qed

lemma select_mode_done:
  assumes "env_ok e" "sw_ok s"
  shows "succeeds (select_charge_mode e c s) (mode_selected c s)"
proof -
  have keep: "mode_selected c s (given_current s c, s)"
    if "FAST_CHARGE_EXTERNAL_RESISTOR (build s) = 0 \<or> (ext_mode_enabled s \<longleftrightarrow> c > appConfigChargerInternalMaxCurrent)"
    using that assms(2) by (auto simp: mode_selected_def)
  show ?thesis
    unfolding select_charge_mode_def succeeds_if
    using mode_changed [OF assms, of True c] mode_changed [OF assms, of False c] keep
    by (auto simp: given_current_def simp del: succeeds_simps(3) intro: succeeds_simps(1) [THEN iffD2])
qed

text \<open>Setting the fast current: zero disables the charger, any other current withdraws that reason.\<close>

definition current_set :: "u16 \<Rightarrow> charger_data \<Rightarrow> charger_data \<Rightarrow> bool" where
  "current_set c s s' = (sw_ok s' \<and> rest_same s s'
     \<and> disable_reason s' = (if c = 0 then disable_reason s OR CHARGER_DISABLE_REASON_ZERO_CURRENT
          else disable_reason s AND NOT CHARGER_DISABLE_REASON_ZERO_CURRENT)
     \<and> fast_current s' = ucast (given_current s c)
     \<and> configured CHARGER_FAST_CURRENT (cm_calls s') = Some (ucast (given_current s c))
     \<and> (if FAST_CHARGE_EXTERNAL_RESISTOR (build s) = 0 then ext_mode_enabled s' = ext_mode_enabled s
        else ext_mode_enabled s' \<longleftrightarrow> c > appConfigChargerInternalMaxCurrent))"

lemma configure_current:
  fixes v :: u16
  assumes "env_ok e" "sw_ok s" "v = 0 \<longrightarrow> disable_reason s \<noteq> 0"
    "s' = (cm_log (Configure CHARGER_FAST_CURRENT (ucast v)) s)\<lparr>fast_current := ucast v\<rparr>"
  shows "sw_ok s'" "rest_same s s'"
  using assms by (auto simp: sw_ok_def cm_log_def rest_same_def ucast_wider_0)

lemma internal_bit: "d = disable_reason s \<or> d = disable_reason s OR CHARGER_DISABLE_REASON_INTERNAL \<Longrightarrow> \<not> bit (disable_reason s) 5
    \<Longrightarrow> d AND NOT CHARGER_DISABLE_REASON_INTERNAL = disable_reason s"
  by auto

lemma current_applied:
  assumes "env_ok e" "\<not> bit (disable_reason s) 5" "reasons_changed d s s1"
    "d = (if c = 0 then disable_reason s OR CHARGER_DISABLE_REASON_ZERO_CURRENT else disable_reason s)"
    "mode_selected c s1 (m, s2)"
    "s3 = (cm_log (Configure CHARGER_FAST_CURRENT (ucast m)) s2)\<lparr>fast_current := ucast m\<rparr>"
  shows "succeeds (if FAST_CHARGE_EXTERNAL_RESISTOR (build s3) \<noteq> 0
          then Charger_DisableReasonClear e CHARGER_DISABLE_REASON_INTERNAL s3 else Some s3)
      (\<lambda>s4. succeeds (if m \<noteq> 0 then Charger_DisableReasonClear e CHARGER_DISABLE_REASON_ZERO_CURRENT s4 else Some s4)
        (current_set c s))"
proof -
  note r = reasons_changedD [OF assms(3)]
  have m: "m = given_current s c" "sw_ok s2" "rest_same s1 s2" "build s1 = build s"
    "disable_reason s2 = disable_reason s1 \<or> FAST_CHARGE_EXTERNAL_RESISTOR (build s) \<noteq> 0
      \<and> disable_reason s2 = disable_reason s1 OR CHARGER_DISABLE_REASON_INTERNAL"
    "if FAST_CHARGE_EXTERNAL_RESISTOR (build s) = 0 then ext_mode_enabled s2 = ext_mode_enabled s
     else ext_mode_enabled s2 \<longleftrightarrow> c > appConfigChargerInternalMaxCurrent"
    using assms(5) r(3,5) by (auto simp: mode_selected_def given_current_def rest_same_def split: if_splits)
  have s2: "rest_same s s2" using rest_same_trans [OF r(3) m(3)] .
  have m0: "m = 0 \<longleftrightarrow> c = 0" using m(1) given_current_0 by simp
  have d1: "disable_reason s1 = d" "\<not> bit (disable_reason s1) 5" "c = 0 \<longrightarrow> disable_reason s1 \<noteq> 0"
    using r(2) assms(2,4) by (auto simp: bit_or_iff or_nonzero)
  have z: "m = 0 \<longrightarrow> disable_reason s2 \<noteq> 0" using d1 m(5) m0 by (auto simp: or_nonzero)
  have s3: "sw_ok s3" "rest_same s s3" "disable_reason s3 = disable_reason s2" "fast_current s3 = ucast m"
    using configure_current [OF assms(1) m(2) z assms(6)] rest_same_trans [OF s2] assms(6) by (simp_all add: cm_log_def)
  let ?P = "\<lambda>s4. reasons_changed d s3 s4 \<or> FAST_CHARGE_EXTERNAL_RESISTOR (build s) = 0 \<and> s4 = s3"
  have i: "disable_reason s3 AND NOT CHARGER_DISABLE_REASON_INTERNAL = d" using d1 m(5) s3(3) by auto
  have v: "\<exists>v. configured CHARGER_FAST_CURRENT (cm_calls s3) = Some v \<and> v \<noteq> 0" if "c \<noteq> 0"
    using m0 that assms(6) by (simp add: ucast_wider_0 cm_log_def)
  have "succeeds (if FAST_CHARGE_EXTERNAL_RESISTOR (build s3) \<noteq> 0
      then Charger_DisableReasonClear e CHARGER_DISABLE_REASON_INTERNAL s3 else Some s3) ?P"
  proof (cases "FAST_CHARGE_EXTERNAL_RESISTOR (build s) = 0")
    case True
    then show ?thesis using s3(2) by (simp add: rest_same_def)
  next
    case False
    have "succeeds (Charger_DisableReasonClear e CHARGER_DISABLE_REASON_INTERNAL s3) (reasons_changed d s3)"
      using reason_cleared [OF assms(1) s3(1), of CHARGER_DISABLE_REASON_INTERNAL] v d1(1,3) i by fastforce
    then have "succeeds (Charger_DisableReasonClear e CHARGER_DISABLE_REASON_INTERNAL s3) ?P"
      by (rule succeeds_mono) simp
    moreover have "build s3 = build s" using s3(2) by (simp add: rest_same_def)
    ultimately show ?thesis using False by simp
  qed
  then show ?thesis
  proof (rule succeeds_mono)
    fix s4 assume s4: "?P s4"
    have e4: "sw_ok s4" "rest_same s s4" "disable_reason s4 = d" "ext_mode_enabled s4 = ext_mode_enabled s2"
      "fast_current s4 = ucast m" "configured CHARGER_FAST_CURRENT (cm_calls s4) = Some (ucast m)"
      using s4 reasons_changedD [of d s3 s4] s3 rest_same_trans [OF s3(2), of s4] i assms(6) d1(1) m(5)
      by (auto simp: cm_log_def)
    show "succeeds (if m \<noteq> 0 then Charger_DisableReasonClear e CHARGER_DISABLE_REASON_ZERO_CURRENT s4 else Some s4)
        (current_set c s)"
    proof (cases "m = 0")
      case True
      then show ?thesis using e4 m m0 d1(1) r(2) assms(4) by (simp add: current_set_def)
    next
      case False
      have "succeeds (Charger_DisableReasonClear e CHARGER_DISABLE_REASON_ZERO_CURRENT s4)
          (reasons_changed (disable_reason s4 AND NOT CHARGER_DISABLE_REASON_ZERO_CURRENT) s4)"
        using e4(6) False by (intro reason_cleared [OF assms(1) e4(1)]) (simp_all add: ucast_wider_0)
      then have "succeeds (Charger_DisableReasonClear e CHARGER_DISABLE_REASON_ZERO_CURRENT s4) (current_set c s)"
      proof (rule succeeds_mono)
        fix s5 assume s5: "reasons_changed (disable_reason s4 AND NOT CHARGER_DISABLE_REASON_ZERO_CURRENT) s4 s5"
        show "current_set c s s5"
          using reasons_changedD [OF s5] rest_same_trans [OF e4(2), of s5] e4 False m m0 assms(4)
          by (simp add: current_set_def)
      qed
      with False show ?thesis by simp
    qed
  qed
qed

lemma SetFastCurrent_done:
  assumes "env_ok e" "sw_ok s" "\<not> bit (disable_reason s) 5"
  shows "succeeds (charger_SetFastCurrent e c s) (current_set c s)"
  unfolding charger_SetFastCurrent_def succeeds_simps(3)
proof (rule succeeds_mono)
  let ?d = "if c = 0 then disable_reason s OR CHARGER_DISABLE_REASON_ZERO_CURRENT else disable_reason s"
  show "succeeds (if c = 0 then Charger_DisableReasonAdd e CHARGER_DISABLE_REASON_ZERO_CURRENT s else Some s)
      (reasons_changed ?d s)"
    using reason_added [OF assms(1,2), of CHARGER_DISABLE_REASON_ZERO_CURRENT] assms(2)
    by (simp add: reasons_changed_def)
  fix s1 assume r1: "reasons_changed ?d s s1"
  have "succeeds (select_charge_mode e c s1) (mode_selected c s1)"
    by (rule select_mode_done [OF assms(1)]) (simp add: reasons_changedD [OF r1])
  then show "succeeds (select_charge_mode e c s1) (\<lambda>r. succeeds (apply_current e r) (current_set c s))"
  proof (rule succeeds_mono)
    fix r assume r: "mode_selected c s1 r"
    obtain m s2 where "r = (m, s2)" by fastforce
    with current_applied [OF assms(1,3) r1 refl _ refl, of m s2] r
    show "succeeds (apply_current e r) (current_set c s)"
      by (simp add: apply_current_def configure_accepted [OF assms(1)] Let_def del: succeeds_if)
  qed
qed
section \<open>Switch and current together\<close>

text \<open>
  The charger is on exactly when there is no reason against it, the hardware knows it and was never given an
  unsafe setting, a current of zero is a reason, and the hardware has the current of the state.
\<close>

definition power_ok :: "charger_data \<Rightarrow> bool" where
  "power_ok s = (sw_ok s \<and> \<not> bit (disable_reason s) 5 \<and> (bit (disable_reason s) 3 \<longleftrightarrow> fast_current s = 0)
     \<and> configured CHARGER_FAST_CURRENT (cm_calls s) = Some (ucast (fast_current s))
     \<and> (if FAST_CHARGE_EXTERNAL_RESISTOR (build s) = 0 then unat (fast_current s) \<le> 200
        else (ext_mode_enabled s \<longleftrightarrow> unat (fast_current s) > 200)))"

definition reasons_moved :: "u32 \<Rightarrow> charger_data \<Rightarrow> charger_data \<Rightarrow> bool" where
  "reasons_moved d s s' = (power_ok s' \<and> rest_same s s' \<and> disable_reason s' = d \<and> fast_current s' = fast_current s)"

lemma reasons_moved_if:
  assumes "power_ok s" "reasons_changed d s s'" "bit d 3 = bit (disable_reason s) 3" "\<not> bit d 5"
  shows "reasons_moved d s s'"
  using assms reasons_changedD [OF assms(2)] by (simp add: reasons_moved_def power_ok_def rest_same_def)

lemma power_added:
  assumes "env_ok e" "power_ok s" "r \<noteq> 0" "\<not> bit r 3" "\<not> bit r 5"
  shows "succeeds (Charger_DisableReasonAdd e r s) (reasons_moved (disable_reason s OR r) s)"
proof (rule succeeds_mono [OF reason_added [OF assms(1) _ assms(3)]])
  show "sw_ok s" using assms(2) by (simp add: power_ok_def)
  show "reasons_moved (disable_reason s OR r) s s'" if "reasons_changed (disable_reason s OR r) s s'" for s'
    using that assms by (intro reasons_moved_if) (auto simp: power_ok_def bit_or_iff)
qed

lemma power_cleared:
  assumes "env_ok e" "power_ok s" "r \<noteq> 0" "\<not> bit r 3"
  shows "succeeds (Charger_DisableReasonClear e r s) (reasons_moved (disable_reason s AND NOT r) s)"
proof (rule succeeds_mono [OF reason_cleared [OF assms(1) _ assms(3)]])
  show "sw_ok s" using assms(2) by (simp add: power_ok_def)
  have b: "bit (disable_reason s AND NOT r) 3 = bit (disable_reason s) 3" "\<not> bit (disable_reason s AND NOT r) 5"
    using assms(2,4) by (auto simp: power_ok_def bit_simps)
  show "\<exists>v. configured CHARGER_FAST_CURRENT (cm_calls s) = Some v \<and> v \<noteq> 0" if "disable_reason s AND NOT r = 0"
    using b(1) that assms(2) by (simp add: power_ok_def ucast_wider_0)
  show "reasons_moved (disable_reason s AND NOT r) s s'" if "reasons_changed (disable_reason s AND NOT r) s s'" for s'
    using that assms(2) b by (intro reasons_moved_if) auto
qed

text \<open>The current that the hardware, the attached charger and the battery region allow together.\<close>

definition wanted_current :: "charger_env \<Rightarrow> charger_data \<Rightarrow> u32" where
  "wanted_current e s = min (ucast (env_region_current e))
     (if INCLUDE_CHARGER_DETECT (build s) then min (ChargerDetect_Current s) (ucast (max_supported_current s))
      else ucast (max_supported_current s))"

lemma wanted_current_bound: "unat (wanted_current e s) < 2 ^ 12"
proof -
  have "unat (wanted_current e s) \<le> unat (ucast (max_supported_current s) :: u32)"
    by (simp add: wanted_current_def min_def word_le_nat_alt)
  then show ?thesis using unsigned_less [of "max_supported_current s", where 'a = nat] by simp
qed

definition current_moved :: "charger_env \<Rightarrow> charger_data \<Rightarrow> charger_data \<Rightarrow> bool" where
  "current_moved e s s' = (power_ok s' \<and> unat (fast_current s') \<le> unat (wanted_current e s)
     \<and> (\<forall>n. n \<noteq> 3 \<longrightarrow> bit (disable_reason s') n = bit (disable_reason s) n))"

lemma set_current_moved:
  assumes "env_ok e" "power_ok s"
  shows "succeeds (charger_SetFastCurrent e (ucast (wanted_current e s)) s)
    (\<lambda>s'. current_moved e s s' \<and> rest_same s s')"
proof (rule succeeds_mono [OF SetFastCurrent_done [OF assms(1)]])
  show "sw_ok s" "\<not> bit (disable_reason s) 5" using assms(2) by (simp_all add: power_ok_def)
  let ?c = "ucast (wanted_current e s) :: u16"
  have c: "unat ?c = unat (wanted_current e s)"
    using wanted_current_bound [of e s] by (intro unat_ucast_fits) simp
  have c0: "?c = 0 \<longleftrightarrow> wanted_current e s = 0" using c by (metis unsigned_0 unsigned_eq_0_iff)
  have g: "unat (given_current s ?c) \<le> unat (wanted_current e s)" "unat (given_current s ?c) < 2 ^ 12"
    using c wanted_current_bound [of e s]
    by (auto simp: given_current_def appConfigChargerInternalMaxCurrent_def word_less_nat_alt)
  have f: "unat (ucast (given_current s ?c) :: u12) = unat (given_current s ?c)"
    using g(2) by (intro unat_ucast_fits) simp
  have f0: "(ucast (given_current s ?c) :: u12) = 0 \<longleftrightarrow> ?c = 0"
    using f given_current_0 [of s ?c] by (metis unsigned_0 unsigned_eq_0_iff)
  have fu: "(ucast (ucast (given_current s ?c) :: u12) :: u32) = ucast (given_current s ?c)"
    using f by (intro unsigned_word_eqI [where ?'a = nat]) simp
  fix s' assume s': "current_set ?c s s'"
  then have r: "rest_same s s'" "build s' = build s" by (auto simp: current_set_def rest_same_def)
  have "power_ok s'"
    using s' r(2) assms(2) f f0 fu g c
    by (auto simp: power_ok_def current_set_def given_current_def appConfigChargerInternalMaxCurrent_def
        word_less_nat_alt bit_simps split: if_splits)
  moreover have "unat (fast_current s') \<le> unat (wanted_current e s)" using s' f g(1) by (simp add: current_set_def)
  moreover have "\<forall>n. n \<noteq> 3 \<longrightarrow> bit (disable_reason s') n = bit (disable_reason s) n"
    using s' by (auto simp: current_set_def bit_simps dest: bit_imp_le_length)
  ultimately show "current_moved e s s' \<and> rest_same s s'" using r by (simp add: current_moved_def)
qed

end
