(* ===== verification/ChargerInvariant.thy ===== *)
theory ChargerInvariant
  imports ChargerMonitor
begin

unbundle bit_operations_syntax

text \<open>
  The invariant of the charger monitor between messages, and that every operation keeps it and does not panic:
  \<open>power_ok\<close> (from \<open>ChargerMonitor\<close>) for the switch and the current the hardware was given, \<open>vchg_ok\<close> and \<open>awake\<close>
  for probing, \<open>timers_ok\<close> and \<open>cm_clients_ok\<close> for messages, \<open>connected_ok\<close>, \<open>current_ok\<close> and \<open>supply_ok\<close> for the
  connection, the limits of the current and the power supply. Frames (\<open>kept\<close>, \<open>detect_same\<close>, \<open>steady\<close>) say what an
  operation leaves alone.
\<close>

section \<open>Timers and clients\<close>

abbreviation pend :: "charger_data \<Rightarrow> message_id \<Rightarrow> nat" where "pend s i \<equiv> pending_id (cm_task s) i (cm_vm s)"

lemma charger_ids:
  "CHARGER_INTERNAL_CHARGE_TIMEOUT = 0" "CHARGER_INTERNAL_RE_ENABLE_TIMEOUT = 1" "CHARGER_INTERNAL_VCHG_MEASUREMENT = 2"
  by (simp_all add: CHARGER_INTERNAL_CHARGE_TIMEOUT_def CHARGER_INTERNAL_RE_ENABLE_TIMEOUT_def
      CHARGER_INTERNAL_VCHG_MEASUREMENT_def INTERNAL_MESSAGE_BASE_def MESSAGE_BASE_def MSG_GRP_TO_ID_def
      MESSAGE_GROUP_def message_groups_def domains_message_groups_def)

text \<open>The queue after a message to the component itself, and after cancelling its messages with an id.\<close>

definition own_sent :: "message_id \<Rightarrow> charger_data \<Rightarrow> unit vm \<Rightarrow> bool" where
  "own_sent i s q = ((\<forall>u. u \<noteq> cm_task s \<longrightarrow> posted_data u q = posted_data u (cm_vm s))
     \<and> (\<forall>j. pending_id (cm_task s) j q = (if j = i then Suc (pend s j) else pend s j)))"

definition own_cancelled :: "message_id \<Rightarrow> charger_data \<Rightarrow> unit vm \<Rightarrow> bool" where
  "own_cancelled i s q = ((\<forall>u. u \<noteq> cm_task s \<and> u \<noteq> INVALIDATED_TASK \<longrightarrow> posted_data u q = posted_data u (cm_vm s))
     \<and> (\<forall>j. pending_id (cm_task s) j q = (if j = i then 0 else pend s j)))"

lemma own_id_sent:
  "(\<And>u. posted_data u q = (if u = cm_task s then add_mset (i, m) (posted_data u (cm_vm s)) else posted_data u (cm_vm s)))
   \<Longrightarrow> own_sent i s q"
  using pending_id_sent [of "cm_task s" q "cm_task s" i m "cm_vm s"] by (auto simp: own_sent_def)

lemma own_id_cancelled:
  assumes "cm_task s \<noteq> INVALIDATED_TASK"
    "\<And>u. u \<noteq> INVALIDATED_TASK \<Longrightarrow> posted_data u q
      = (if u = cm_task s then filter_mset (\<lambda>p. fst p \<noteq> i) (posted_data u (cm_vm s)) else posted_data u (cm_vm s))"
  shows "own_cancelled i s q"
  using pending_id_cancelled [OF assms(2) [OF assms(1)]] assms(2) by (auto simp: own_cancelled_def)

lemma cm_sends:
  assumes "\<not> combinable i" "\<And>q. own_sent i s q \<Longrightarrow> Q (s\<lparr>cm_vm := q\<rparr>)"
  shows "succeeds (cm_send e i s) Q" "succeeds (cm_send_later e i d s) Q"
proof -
  show "succeeds (cm_send e i s) Q"
    unfolding cm_send_def succeeds_simps by (rule MessageSend_succeeds [OF assms(1)]) (rule assms(2), rule own_id_sent)
  show "succeeds (cm_send_later e i d s) Q"
    unfolding cm_send_later_def succeeds_simps by (rule MessageSendLater_succeeds [OF assms(1)]) (rule assms(2), rule own_id_sent)
qed

lemma cm_cancels:
  assumes "cm_task s \<noteq> INVALIDATED_TASK" "\<And>q. own_cancelled i s q \<Longrightarrow> Q (s\<lparr>cm_vm := q\<rparr>)"
  shows "succeeds (cm_cancel_all i s) Q"
  unfolding cm_cancel_all_def succeeds_simps
  by (rule MessageCancelAll_succeeds [OF assms(1)]) (auto intro: assms(2) own_id_cancelled [OF assms(1)])

lemma not_combinable_charger:
  "\<not> combinable CHARGER_INTERNAL_CHARGE_TIMEOUT" "\<not> combinable CHARGER_INTERNAL_RE_ENABLE_TIMEOUT"
  "\<not> combinable CHARGER_INTERNAL_VCHG_MEASUREMENT"
  by (simp_all add: combinable_def system_message_ids charger_ids)

section \<open>The invariant\<close>

text \<open>Configurations the code can point to.\<close>

definition known_config :: "charger_config_ptr \<Rightarrow> bool" where
  "known_config p = (case p of config_proprietary i c \<Rightarrow> c \<in> pc_config ` set proprietary_chargers | _ \<Rightarrow> True)"

lemma known_limiting: "known_config p \<Longrightarrow> current_limiting (config_of p) \<Longrightarrow> cc_current (config_of p) = 1500"
  by (cases p) (auto simp: known_config_def proprietary_chargers_def proprietary_def a_config_def)

lemma find_proprietary_known:
  "find_proprietary msg i cfgs = Some p \<Longrightarrow> set cfgs \<subseteq> set proprietary_chargers \<Longrightarrow> known_config p"
  by (induction msg i cfgs rule: find_proprietary.induct) (auto simp: known_config_def split: if_splits)

lemma GetConfig_known: "ChargerDetect_GetConfig msg = Some p \<Longrightarrow> known_config p"
  by (auto simp: ChargerDetect_GetConfig_def known_config_def [of config_sdp] split: usb_attached_status.splits
      usb_type_c_advertisement.splits option.splits dest: find_proprietary_known)
    (simp_all add: known_config_def)

lemma GetConnectedConfig_known: "ChargerDetect_GetConnectedConfig b = Some p \<Longrightarrow> known_config p"
  by (auto simp: ChargerDetect_GetConnectedConfig_def known_config_def split: if_splits)

definition limiting :: "charger_data \<Rightarrow> bool" where
  "limiting s = (\<exists>p. charger_config s = Some p \<and> current_limiting (config_of p))"

text \<open>
  Probing: no reading is compared with a missing reference. The limit stays between the minimum of a dedicated charger and the charger's own current; until
  it is detected it is reached in whole steps.
\<close>

definition vchg_ok :: "charger_data \<Rightarrow> bool" where
  "vchg_ok s =
     ((vchg_monitor_enabled s \<longrightarrow> INCLUDE_CHARGER_DETECT (build s) \<and> limiting s \<and> \<not> current_limit_detected s)
      \<and> (limiting s \<longrightarrow> 500 \<le> unat (current_limit s) \<and> unat (current_limit s) \<le> 1500
           \<and> (current_limit_detected s \<or> 10 dvd unat (current_limit s)))
      \<and> (vchg_monitor_read_pending s \<longrightarrow>
           (\<exists>a. requested_adc (cm_calls s) = Some a \<and> a \<noteq> adcsel_other \<and> (a \<noteq> adcsel_vref_hq_buff \<longrightarrow> vref_reading s \<noteq> 0))))"

text \<open>A monitor that runs has a reading or a message to come.\<close>

definition awake :: "charger_data \<Rightarrow> bool" where
  "awake s = (vchg_monitor_enabled s \<longrightarrow> vchg_monitor_read_pending s \<or> pend s CHARGER_INTERNAL_VCHG_MEASUREMENT \<noteq> 0)"

definition cm_clients_ok :: "charger_data \<Rightarrow> bool" where
  "cm_clients_ok s = (\<forall>l. charger_client_tasks s = Some l \<longrightarrow>
     tl_valid l \<and> length (tl_members l) \<le> 14 \<and> cm_task s \<notin> set (tl_members l))"

text \<open>An error is the reason as long as the timer that withdraws it is pending.\<close>

definition timers_ok :: "charger_data \<Rightarrow> bool" where
  "timers_ok s = (pend s CHARGER_INTERNAL_RE_ENABLE_TIMEOUT = (if bit (disable_reason s) 2 then 1 else 0)
     \<and> pend s CHARGER_INTERNAL_CHARGE_TIMEOUT \<le> 1)"

definition base_inv :: "charger_data \<Rightarrow> bool" where
  "base_inv s = (power_ok s \<and> vchg_ok s \<and> cm_clients_ok s \<and> timers_ok s
     \<and> (\<forall>p. charger_config s = Some p \<longrightarrow> known_config p))"

text \<open>What changing the current leaves alone.\<close>

definition kept :: "charger_data \<Rightarrow> charger_data \<Rightarrow> bool" where
  "kept s s' = (cm_task s' = cm_task s \<and> is_connected s' = is_connected s
     \<and> force_allow_power_off s' = force_allow_power_off s \<and> test_mode s' = test_mode s
     \<and> max_supported_current s' = max_supported_current s \<and> power_source_vbat s' = power_source_vbat s
     \<and> usb_enumerated s' = usb_enumerated s \<and> usb_suspend s' = usb_suspend s
     \<and> usb_leds_forced_off s' = usb_leds_forced_off s
     \<and> vchg_monitor_read_pending s' = vchg_monitor_read_pending s
     \<and> current_limit_detected s' = current_limit_detected s
     \<and> current_limit s' = current_limit s \<and> vref_reading s' = vref_reading s
     \<and> status s' = status s \<and> test_attached_status s' = test_attached_status s
     \<and> charger_config s' = charger_config s \<and> charger_client_tasks s' = charger_client_tasks s
     \<and> build s' = build s \<and> (awake s \<longrightarrow> awake s')
     \<and> (\<forall>u. u \<noteq> cm_task s \<and> u \<noteq> INVALIDATED_TASK \<longrightarrow> posted_data u (cm_vm s') = posted_data u (cm_vm s))
     \<and> (vchg_monitor_enabled s \<or> current_limit_detected s \<or> \<not> limiting s \<longrightarrow> vchg_monitor_enabled s' = vchg_monitor_enabled s
          \<and> current_increasing s' = current_increasing s \<and> chg_mon_reading s' = chg_mon_reading s))"

lemma rest_same_awake: "rest_same s s' \<Longrightarrow> awake s' = awake s"
  by (simp add: rest_same_def quiet_def awake_def charger_ids)

lemma rest_same_kept: "rest_same s s' \<Longrightarrow> kept s s'"
  using rest_same_awake [of s s'] by (simp add: rest_same_def kept_def quiet_def)

lemma kept_trans: "kept s s' \<Longrightarrow> kept s' s'' \<Longrightarrow> kept s s''"
  by (auto simp: kept_def limiting_def)

lemma kept_detect:
  assumes "kept s s'"
  shows "ChargerDetect_Current s' = ChargerDetect_Current s" "ChargerDetect_UsbIsSuspend s' = ChargerDetect_UsbIsSuspend s"
proof -
  have "charger_config s' = charger_config s" "usb_suspend s' = usb_suspend s" "usb_enumerated s' = usb_enumerated s"
    "current_limit s' = current_limit s" using assms by (simp_all add: kept_def)
  then show "ChargerDetect_Current s' = ChargerDetect_Current s" "ChargerDetect_UsbIsSuspend s' = ChargerDetect_UsbIsSuspend s"
    by (simp_all only: ChargerDetect_Current_def ChargerDetect_UsbIsSuspend_def config_flag_iff)
qed

lemma rest_same_pend:
  assumes "rest_same s s'"
  shows "pend s' CHARGER_INTERNAL_RE_ENABLE_TIMEOUT = pend s CHARGER_INTERNAL_RE_ENABLE_TIMEOUT"
    "pend s' CHARGER_INTERNAL_VCHG_MEASUREMENT = pend s CHARGER_INTERNAL_VCHG_MEASUREMENT"
    "pend s' CHARGER_INTERNAL_CHARGE_TIMEOUT \<le> pend s CHARGER_INTERNAL_CHARGE_TIMEOUT"
  using assms by (simp_all add: rest_same_def quiet_def charger_ids)

lemma rest_same_ok:
  assumes "rest_same s s'"
  shows "vchg_ok s' = vchg_ok s" "cm_clients_ok s' = cm_clients_ok s"
    "timers_ok s \<Longrightarrow> bit (disable_reason s') 2 = bit (disable_reason s) 2 \<Longrightarrow> timers_ok s'"
    "base_inv s \<Longrightarrow> power_ok s' \<Longrightarrow> bit (disable_reason s') 2 = bit (disable_reason s) 2 \<Longrightarrow> base_inv s'"
proof -
  have "limiting s' = limiting s" using assms by (simp add: rest_same_def limiting_def)
  then show v: "vchg_ok s' = vchg_ok s"
    using assms rest_same_pend(2) [OF assms] by (simp add: rest_same_def vchg_ok_def)
  show c: "cm_clients_ok s' = cm_clients_ok s" using assms by (simp add: rest_same_def cm_clients_ok_def)
  show t: "timers_ok s'" if "timers_ok s" "bit (disable_reason s') 2 = bit (disable_reason s) 2"
    using rest_same_pend [OF assms] that by (simp add: timers_ok_def)
  show "base_inv s'" if "base_inv s" "power_ok s'" "bit (disable_reason s') 2 = bit (disable_reason s) 2"
    using that v c t assms by (simp add: base_inv_def rest_same_def)
qed

section \<open>Updating the current\<close>

lemma base_invD:
  assumes "base_inv s"
  shows "power_ok s" "vchg_ok s" "cm_clients_ok s" "timers_ok s" "cm_task s \<noteq> INVALIDATED_TASK"
    "charger_config s = Some p \<Longrightarrow> known_config p"
  using assms by (simp_all add: base_inv_def power_ok_def sw_ok_def)

lemma start_monitor:
  assumes "base_inv s" "INCLUDE_CHARGER_DETECT (build s)" "limiting s" "\<not> current_limit_detected s"
    "500 \<le> unat (current_limit s)" "unat (current_limit s) \<le> 1500" "10 dvd unat (current_limit s)"
  shows "succeeds (Charger_VChgMonitorStart e s)
    (\<lambda>s'. base_inv s' \<and> (awake s \<longrightarrow> awake s') \<and> kept s (s'\<lparr>vchg_monitor_enabled := vchg_monitor_enabled s, chg_mon_reading := chg_mon_reading s\<rparr>)
      \<and> vchg_monitor_enabled s' \<and> current_increasing s' = current_increasing s
      \<and> disable_reason s' = disable_reason s \<and> fast_current s' = fast_current s \<and> cm_calls s' = cm_calls s)"
proof (cases "vchg_monitor_enabled s")
  case True
  then show ?thesis using assms(1) by (simp add: Charger_VChgMonitorStart_def kept_def awake_def)
next
  case False
  let ?s = "s\<lparr>vchg_monitor_enabled := True, chg_mon_reading := CHG_MON_REQUEST_READING\<rparr>"
  show ?thesis
    unfolding Charger_VChgMonitorStart_def if_P [OF False]
  proof (rule cm_sends(1) [OF not_combinable_charger(3)])
    fix vm assume q: "own_sent CHARGER_INTERNAL_VCHG_MEASUREMENT ?s vm"
    let ?t = "?s\<lparr>cm_vm := vm\<rparr>"
    have v: "\<forall>j. pending_id (cm_task s) j vm = (if j = CHARGER_INTERNAL_VCHG_MEASUREMENT then Suc (pend s j) else pend s j)"
      "\<forall>u. u \<noteq> cm_task s \<longrightarrow> posted_data u vm = posted_data u (cm_vm s)"
      using q by (simp_all add: own_sent_def)
    have "vchg_ok ?t" using base_invD(2) [OF assms(1)] assms(2-) v by (simp add: vchg_ok_def limiting_def)
    moreover have "power_ok ?t" "cm_clients_ok ?t" "timers_ok ?t"
      using base_invD(1,3,4) [OF assms(1)] v by (simp_all add: power_ok_def sw_ok_def cm_clients_ok_def timers_ok_def charger_ids)
    ultimately have "base_inv ?t" using assms(1) by (simp add: base_inv_def)
    moreover have "kept s (?t\<lparr>vchg_monitor_enabled := vchg_monitor_enabled s, chg_mon_reading := chg_mon_reading s\<rparr>)"
      using v False by (simp add: kept_def awake_def)
    moreover have "awake ?t" using v(1) by (simp add: awake_def)
    ultimately show "base_inv ?t \<and> (awake s \<longrightarrow> awake ?t) \<and> kept s (?t\<lparr>vchg_monitor_enabled := vchg_monitor_enabled s, chg_mon_reading := chg_mon_reading s\<rparr>)
      \<and> vchg_monitor_enabled ?t \<and> current_increasing ?t = current_increasing s
      \<and> disable_reason ?t = disable_reason s \<and> fast_current ?t = fast_current s \<and> cm_calls ?t = cm_calls s"
      by simp
  qed
qed

lemma stop_monitor:
  assumes "cm_task s \<noteq> INVALIDATED_TASK"
  shows "succeeds (Charger_VChgMonitorStop s) (\<lambda>s'. \<exists>vm. s' = s\<lparr>vchg_monitor_enabled := False, cm_vm := vm\<rparr>
    \<and> (\<forall>u. u \<noteq> cm_task s \<and> u \<noteq> INVALIDATED_TASK \<longrightarrow> posted_data u vm = posted_data u (cm_vm s))
    \<and> (\<forall>i. i \<noteq> CHARGER_INTERNAL_VCHG_MEASUREMENT \<longrightarrow> pending_id (cm_task s) i vm = pend s i))"
proof (cases "vchg_monitor_enabled s")
  case True
  show ?thesis
    unfolding Charger_VChgMonitorStop_def if_P [OF True]
  proof (rule cm_cancels)
    fix vm assume "own_cancelled CHARGER_INTERNAL_VCHG_MEASUREMENT (s\<lparr>vchg_monitor_enabled := False\<rparr>) vm"
    then show "\<exists>v. s\<lparr>vchg_monitor_enabled := False, cm_vm := vm\<rparr> = s\<lparr>vchg_monitor_enabled := False, cm_vm := v\<rparr>
      \<and> (\<forall>u. u \<noteq> cm_task s \<and> u \<noteq> INVALIDATED_TASK \<longrightarrow> posted_data u v = posted_data u (cm_vm s))
      \<and> (\<forall>i. i \<noteq> CHARGER_INTERNAL_VCHG_MEASUREMENT \<longrightarrow> pending_id (cm_task s) i v = pend s i)"
      by (intro exI [of _ vm]) (simp add: own_cancelled_def)
  qed (simp add: assms)
next
  case False
  have "s = s\<lparr>vchg_monitor_enabled := False, cm_vm := cm_vm s\<rparr>" using False by simp
  then show ?thesis
    unfolding Charger_VChgMonitorStop_def if_not_P [OF False] succeeds_simps by (intro exI [of _ "cm_vm s"] conjI) simp_all
qed

lemma NotifyCurrentChanged_done:
  assumes "base_inv s" "INCLUDE_CHARGER_DETECT (build s)"
  shows "succeeds (ChargerDetect_NotifyCurrentChanged e s) (\<lambda>s'. base_inv s' \<and> kept s s'
    \<and> disable_reason s' = disable_reason s \<and> fast_current s' = fast_current s)"
proof (cases "\<not> vchg_monitor_enabled s \<and> limiting s \<and> \<not> current_limit_detected s
    \<and> ucast (current_limit s) = Charger_GetFastCurrent s")
  case True
  let ?s = "s\<lparr>current_increasing := True\<rparr>"
  have b: "base_inv ?s" using assms(1) by (simp add: base_inv_def power_ok_def sw_ok_def vchg_ok_def limiting_def cm_clients_ok_def timers_ok_def)
  have v: "500 \<le> unat (current_limit s)" "unat (current_limit s) \<le> 1500" "10 dvd unat (current_limit s)"
    using base_invD(2) [OF assms(1)] True by (simp_all add: vchg_ok_def)
  have "succeeds (Charger_VChgMonitorStart e ?s) (\<lambda>s'. base_inv s' \<and> kept s s'
      \<and> disable_reason s' = disable_reason s \<and> fast_current s' = fast_current s)"
  proof (rule succeeds_mono [OF start_monitor [OF b]])
    show "INCLUDE_CHARGER_DETECT (build ?s)" "limiting ?s" "\<not> current_limit_detected ?s" "500 \<le> unat (current_limit ?s)"
      "unat (current_limit ?s) \<le> 1500" "10 dvd unat (current_limit ?s)"
      using assms(2) True v by (simp_all add: limiting_def)
  qed (use True in \<open>clarsimp simp: kept_def awake_def\<close>)
  then show ?thesis using True by (simp add: ChargerDetect_NotifyCurrentChanged_def limiting_def)
next
  case False
  have "ChargerDetect_NotifyCurrentChanged e s = Some s"
    unfolding ChargerDetect_NotifyCurrentChanged_def config_flag_iff limiting_def [symmetric] using False by auto
  then show ?thesis using assms(1) by (simp add: kept_def)
qed

lemma UpdateCurrent_done:
  assumes "env_ok e" "base_inv s"
  shows "succeeds (Charger_UpdateCurrent e s) (\<lambda>s'. base_inv s' \<and> kept s s' \<and> current_moved e s s')"
proof -
  have u: "Charger_UpdateCurrent e s = (if ucast (fast_current s) \<noteq> wanted_current e s then
      do { s \<leftarrow> charger_SetFastCurrent e (ucast (wanted_current e s)) s;
           if INCLUDE_CHARGER_DETECT (build s) then ChargerDetect_NotifyCurrentChanged e s else Some s } else Some s)"
    by (simp add: Charger_UpdateCurrent_def wanted_current_def Let_def)
  show ?thesis
  proof (cases "ucast (fast_current s) = wanted_current e s")
    case True
    have "unat (fast_current s) = unat (wanted_current e s)" unfolding True [symmetric] by simp
    then show ?thesis using assms(2) True by (simp add: u current_moved_def kept_def base_inv_def)
  next
    case False
    have "succeeds (charger_SetFastCurrent e (ucast (wanted_current e s)) s) (\<lambda>s1. succeeds
        (if INCLUDE_CHARGER_DETECT (build s1) then ChargerDetect_NotifyCurrentChanged e s1 else Some s1)
        (\<lambda>s'. base_inv s' \<and> kept s s' \<and> current_moved e s s'))"
    proof (rule succeeds_mono [OF set_current_moved [OF assms(1) base_invD(1) [OF assms(2)]]], elim conjE)
      fix s1 assume c: "current_moved e s s1" and r: "rest_same s s1"
      then have b: "base_inv s1"
        using rest_same_ok(4) [OF r assms(2)] by (simp add: current_moved_def)
      have n: "succeeds (ChargerDetect_NotifyCurrentChanged e s1) (\<lambda>s'. base_inv s' \<and> kept s s' \<and> current_moved e s s')"
        if "INCLUDE_CHARGER_DETECT (build s1)"
      proof (rule succeeds_mono [OF NotifyCurrentChanged_done [OF b that]])
        fix s' assume *: "base_inv s' \<and> kept s1 s' \<and> disable_reason s' = disable_reason s1 \<and> fast_current s' = fast_current s1"
        then have "kept s s'" using kept_trans [OF rest_same_kept [OF r]] by blast
        with * c show "base_inv s' \<and> kept s s' \<and> current_moved e s s'" by (simp add: current_moved_def base_inv_def)
      qed
      show "succeeds (if INCLUDE_CHARGER_DETECT (build s1) then ChargerDetect_NotifyCurrentChanged e s1 else Some s1)
          (\<lambda>s'. base_inv s' \<and> kept s s' \<and> current_moved e s s')"
        using n b c rest_same_kept [OF r] by simp
    qed
    then show ?thesis using False by (simp add: u)
  qed
qed

section \<open>Connection and power supply\<close>

text \<open>What detecting the charger depends on.\<close>

definition detect_same :: "charger_data \<Rightarrow> charger_data \<Rightarrow> bool" where
  "detect_same s s' = (cm_task s' = cm_task s \<and> build s' = build s \<and> charger_config s' = charger_config s
     \<and> usb_enumerated s' = usb_enumerated s \<and> usb_suspend s' = usb_suspend s \<and> current_limit s' = current_limit s
     \<and> current_limit_detected s' = current_limit_detected s \<and> max_supported_current s' = max_supported_current s
     \<and> vchg_monitor_read_pending s' = vchg_monitor_read_pending s \<and> vref_reading s' = vref_reading s
     \<and> status s' = status s \<and> charger_client_tasks s' = charger_client_tasks s \<and> test_mode s' = test_mode s
     \<and> (awake s \<longrightarrow> awake s'))"

lemma detect_same_refl [simp]: "detect_same s s" by (simp add: detect_same_def)

lemma detect_same_trans: "detect_same s s' \<Longrightarrow> detect_same s' s'' \<Longrightarrow> detect_same s s''"
  by (simp add: detect_same_def)

lemma kept_detect_same: "kept s s' \<Longrightarrow> detect_same s s'"
  by (simp add: kept_def detect_same_def)

lemma rest_same_detect_same: "rest_same s s' \<Longrightarrow> detect_same s s'"
  using rest_same_awake [of s s'] by (simp add: rest_same_def detect_same_def)

lemma detect_sameD:
  assumes "detect_same s s'"
  shows "build s' = build s" "charger_config s' = charger_config s" "max_supported_current s' = max_supported_current s"
    "ChargerDetect_Current s' = ChargerDetect_Current s" "ChargerDetect_UsbIsSuspend s' = ChargerDetect_UsbIsSuspend s"
proof -
  have *: "build s' = build s" "charger_config s' = charger_config s" "max_supported_current s' = max_supported_current s"
    "usb_suspend s' = usb_suspend s" "usb_enumerated s' = usb_enumerated s" "current_limit s' = current_limit s"
    using assms by (simp_all add: detect_same_def)
  then show "build s' = build s" "charger_config s' = charger_config s" "max_supported_current s' = max_supported_current s"
    "ChargerDetect_Current s' = ChargerDetect_Current s" "ChargerDetect_UsbIsSuspend s' = ChargerDetect_UsbIsSuspend s"
    by (simp_all only: ChargerDetect_Current_def ChargerDetect_UsbIsSuspend_def config_flag_iff)
qed

text \<open>The current is within what the attached charger and the hardware can give.\<close>

definition current_ok :: "charger_data \<Rightarrow> bool" where
  "current_ok s = (unat (fast_current s) \<le> unat (max_supported_current s)
     \<and> (INCLUDE_CHARGER_DETECT (build s) \<longrightarrow> unat (fast_current s) \<le> unat (ChargerDetect_Current s)))"

lemma wanted_ok:
  "unat (wanted_current e s) \<le> unat (max_supported_current s)"
  "INCLUDE_CHARGER_DETECT (build s) \<Longrightarrow> unat (wanted_current e s) \<le> unat (ChargerDetect_Current s)"
  "unat (wanted_current e s) \<le> unat (env_region_current e)"
  by (auto simp: wanted_current_def min_def word_le_nat_alt)

lemma current_moved_ok:
  assumes "current_moved e s s'" "detect_same s s'"
  shows "current_ok s'"
  using assms(1) wanted_ok [where e = e and s = s] detect_sameD [OF assms(2)] by (auto simp: current_moved_def current_ok_def)

lemma current_ok_same:
  assumes "detect_same s s'" "fast_current s' = fast_current s"
  shows "current_ok s' = current_ok s"
  using detect_sameD [OF assms(1)] assms(2) by (simp add: current_ok_def)

text \<open>
  The chip runs from the battery when no charger is connected or the USB host has suspended it, and then the
  LEDs are off for the suspend.
\<close>

definition supply_ok :: "charger_data \<Rightarrow> bool" where
  "supply_ok s = ((power_source_vbat s \<longleftrightarrow> is_connected s = 0
       \<or> INCLUDE_CHARGER_DETECT (build s) \<and> ChargerDetect_UsbIsSuspend s)
     \<and> (INCLUDE_CHARGER_DETECT (build s) \<longrightarrow> (usb_leds_forced_off s \<longleftrightarrow> ChargerDetect_UsbIsSuspend s)))"

abbreviation supplied :: "bool \<Rightarrow> bool \<Rightarrow> charger_call list \<Rightarrow> charger_data \<Rightarrow> charger_data" where
  "supplied v l cs s \<equiv> s\<lparr>power_source_vbat := v, usb_leds_forced_off := l, cm_calls := cs\<rparr>"

lemma supplied_ok:
  assumes "base_inv s" "\<And>k. configured k cs = configured k (cm_calls s)" "requested_adc cs = requested_adc (cm_calls s)" "log_safe cs"
  shows "base_inv (supplied v l cs s)"
  using assms by (simp add: base_inv_def power_ok_def sw_ok_def vchg_ok_def limiting_def cm_clients_ok_def timers_ok_def)

lemma suspend_same [simp]:
  "ChargerDetect_UsbIsSuspend (supplied v l cs s) = ChargerDetect_UsbIsSuspend s"
  "ChargerDetect_UsbIsSuspend (s\<lparr>usb_leds_forced_off := l\<rparr>) = ChargerDetect_UsbIsSuspend s"
  "ChargerDetect_UsbIsSuspend (s\<lparr>power_source_vbat := v\<rparr>) = ChargerDetect_UsbIsSuspend s"
  "ChargerDetect_UsbIsSuspend (s\<lparr>cm_calls := cs\<rparr>) = ChargerDetect_UsbIsSuspend s"
  by (simp_all add: ChargerDetect_UsbIsSuspend_def)

lemma two_calls:
  assumes "\<forall>k v. c \<noteq> Configure k v" "\<forall>k v. d \<noteq> Configure k v"
  shows "configured k (cs @ [c, d]) = configured k cs" "log_safe (cs @ [c, d]) = log_safe cs"
    "\<forall>a. c \<noteq> Call_AdcReadRequest a \<Longrightarrow> \<forall>a. d \<noteq> Call_AdcReadRequest a \<Longrightarrow> requested_adc (cs @ [c, d]) = requested_adc cs"
  using assms configured_other [of d k "cs @ [c]"] log_safe_simps(2) [of "cs @ [c]" d] requested_adc_simps(2) [of d "cs @ [c]"]
  by simp_all

lemma UpdatePowerSupplySource_done:
  assumes "base_inv s"
  shows "base_inv (Charger_UpdatePowerSupplySource s)" "supply_ok (Charger_UpdatePowerSupplySource s)"
    "\<exists>v l cs. Charger_UpdatePowerSupplySource s = supplied v l cs s"
proof -
  have l: "log_safe (cm_calls s)" using assms by (simp add: base_inv_def power_ok_def sw_ok_def)
  have "\<exists>v l cs. Charger_UpdatePowerSupplySource s = supplied v l cs s \<and> supply_ok (supplied v l cs s)
      \<and> (\<forall>k. configured k cs = configured k (cm_calls s)) \<and> requested_adc cs = requested_adc (cm_calls s) \<and> log_safe cs"
    (is "\<exists>v l cs. ?P v l cs")
  proof -
    let ?u = "ChargerDetect_UsbIsSuspend s" and ?d = "INCLUDE_CHARGER_DETECT (build s)"
    let ?v = "\<not> Charger_IsConnected s \<or> ?d \<and> ?u"
    let ?l = "if ?d then ?u else usb_leds_forced_off s"
    let ?c1 = "if ?d \<and> usb_leds_forced_off s \<noteq> ?u
       then cm_calls s @ [if ?u then Call_LedManager_ForceLeds_0 else Call_LedManager_ForceLedsStop] else cm_calls s"
    let ?c2 = "if power_source_vbat s \<noteq> ?v then ?c1 @ [Call_PsuConfigure_VBAT ?v] else ?c1"
    have "?P ?v ?l ?c2"
      using l
      by (cases ?u; cases ?d; cases "is_connected s = 0"; cases "power_source_vbat s"; cases "usb_leds_forced_off s")
        (simp_all add: Charger_UpdatePowerSupplySource_def Let_def cm_log_def supply_ok_def Charger_IsConnected_def two_calls)
    then show ?thesis by blast
  qed
  then obtain v l cs where *: "Charger_UpdatePowerSupplySource s = supplied v l cs s" "?P v l cs" by blast
  then show "base_inv (Charger_UpdatePowerSupplySource s)" "supply_ok (Charger_UpdatePowerSupplySource s)"
    "\<exists>v l cs. Charger_UpdatePowerSupplySource s = supplied v l cs s"
    using supplied_ok [OF assms, where cs = cs and v = v and l = l] by auto
qed


lemma SupplySource_detect_same: "base_inv s \<Longrightarrow> detect_same s (Charger_UpdatePowerSupplySource s)"
  using UpdatePowerSupplySource_done(3) [of s] by (auto simp: detect_same_def awake_def)

lemma SupplySource_rest:
  assumes "base_inv s"
  shows "is_connected (Charger_UpdatePowerSupplySource s) = is_connected s"
    "disable_reason (Charger_UpdatePowerSupplySource s) = disable_reason s"
    "fast_current (Charger_UpdatePowerSupplySource s) = fast_current s"
    "cm_vm (Charger_UpdatePowerSupplySource s) = cm_vm s"
  using UpdatePowerSupplySource_done(3) [OF assms] by auto

lemma supply_ok_same:
  assumes "detect_same s s'" "is_connected s' = is_connected s" "power_source_vbat s' = power_source_vbat s"
    "usb_leds_forced_off s' = usb_leds_forced_off s"
  shows "supply_ok s' = supply_ok s"
  using assms(2-4) detect_sameD [OF assms(1)] by (simp add: supply_ok_def)

text \<open>Sending to the clients concerns nobody else.\<close>

lemma NotifyClients_done:
  assumes "base_inv s"
    and "\<And>q. base_inv (s\<lparr>cm_vm := q\<rparr>) \<Longrightarrow> posted_data (cm_task s) q = posted_data (cm_task s) (cm_vm s) \<Longrightarrow>
      (\<And>l u. charger_client_tasks s = Some l \<Longrightarrow> u \<in> set (tl_members l) \<Longrightarrow>
        posted_data u q = add_mset (i, None) (posted_data u (cm_vm s))) \<Longrightarrow> Q (s\<lparr>cm_vm := q\<rparr>)"
  shows "succeeds (Charger_NotifyClients e i s) Q"
proof (cases "charger_client_tasks s")
  case None
  have "s\<lparr>cm_vm := cm_vm s\<rparr> = s" by simp
  with assms None show ?thesis by (metis Charger_NotifyClients_def option.simps(4) option.distinct(1) succeeds_simps(1))
next
  case (Some l)
  have l: "tl_valid l" "length (tl_members l) \<le> 14" "cm_task s \<notin> set (tl_members l)"
    using base_invD(3) [OF assms(1)] Some by (simp_all add: cm_clients_ok_def)
  show ?thesis
    unfolding Charger_NotifyClients_def Some option.case succeeds_simps TaskList_MessageSendWithSize_def
  proof (rule TaskList_send_succeeds [OF l(1,2)], simp)
    fix q assume q: "\<And>u. posted_data u q = (if u \<in> set (tl_members l) then add_mset (i, None) (posted_data u (cm_vm s))
        else posted_data u (cm_vm s))"
    have "pending_id (cm_task s) j q = pend s j" for j using l(3) by (simp add: pending_id_def q)
    then have "base_inv (s\<lparr>cm_vm := q\<rparr>)"
      using assms(1) by (simp add: base_inv_def power_ok_def sw_ok_def vchg_ok_def limiting_def cm_clients_ok_def timers_ok_def)
    then show "Q (s\<lparr>cm_vm := q\<rparr>)" using q l(3) Some by (intro assms(2)) auto
  qed
qed

text \<open>Changing the connection.\<close>

definition connected_ok :: "charger_data \<Rightarrow> bool" where
  "connected_ok s = (is_connected s \<in> {0, 1} \<and> (bit (disable_reason s) 4 \<longleftrightarrow> is_connected s = 0))"

lemma connected_done:
  assumes "env_ok e" "base_inv s" "is_connected s = 1"
  shows "succeeds (Charger_UpdateCurrent e s)
    (\<lambda>t. succeeds (Charger_DisableReasonClear e CHARGER_DISABLE_REASON_NOT_CONNECTED t)
      (\<lambda>s'. base_inv s' \<and> connected_ok s' \<and> is_connected s' = 1 \<and> detect_same s s' \<and> current_ok s'))"
proof (rule succeeds_mono [OF UpdateCurrent_done [OF assms(1,2)]], elim conjE)
  fix t assume t: "base_inv t" "kept s t" "current_moved e s t"
  show "succeeds (Charger_DisableReasonClear e CHARGER_DISABLE_REASON_NOT_CONNECTED t)
      (\<lambda>s'. base_inv s' \<and> connected_ok s' \<and> is_connected s' = 1 \<and> detect_same s s' \<and> current_ok s')"
  proof (rule succeeds_mono [OF power_cleared [OF assms(1) base_invD(1) [OF t(1)]]])
    fix s' assume "reasons_moved (disable_reason t AND NOT CHARGER_DISABLE_REASON_NOT_CONNECTED) t s'"
    then have r: "power_ok s'" "rest_same t s'" "disable_reason s' = disable_reason t AND NOT CHARGER_DISABLE_REASON_NOT_CONNECTED"
      "fast_current s' = fast_current t"
      by (simp_all add: reasons_moved_def)
    have "base_inv s'" using rest_same_ok(4) [OF r(2) t(1) r(1)] r(3) by (simp add: bit_simps)
    moreover have "is_connected s' = 1" using r(2) t(2) assms(3) by (simp add: rest_same_def kept_def)
    moreover have "current_ok s'"
      using current_ok_same [OF rest_same_detect_same [OF r(2)] r(4)] current_moved_ok [OF t(3) kept_detect_same [OF t(2)]] by simp
    ultimately show "base_inv s' \<and> connected_ok s' \<and> is_connected s' = 1 \<and> detect_same s s' \<and> current_ok s'"
      using r(3) detect_same_trans [OF kept_detect_same [OF t(2)] rest_same_detect_same [OF r(2)]]
      by (simp add: connected_ok_def bit_simps)
  qed simp_all
qed

lemma disconnected_done:
  assumes "env_ok e" "base_inv s" "is_connected s = 0"
  shows "succeeds (Charger_DisableReasonAdd e CHARGER_DISABLE_REASON_NOT_CONNECTED s)
    (\<lambda>t. succeeds (Charger_DisableReasonClear e CHARGER_DISABLE_REASON_TIMEOUT t)
      (\<lambda>s'. base_inv s' \<and> connected_ok s' \<and> is_connected s' = 0 \<and> detect_same s s' \<and> (current_ok s \<longrightarrow> current_ok s')))"
proof (rule succeeds_mono [OF power_added [OF assms(1) base_invD(1) [OF assms(2)]]])
  fix t assume "reasons_moved (disable_reason s OR CHARGER_DISABLE_REASON_NOT_CONNECTED) s t"
  then have r: "power_ok t" "rest_same s t" "disable_reason t = disable_reason s OR CHARGER_DISABLE_REASON_NOT_CONNECTED"
    "fast_current t = fast_current s"
    by (simp_all add: reasons_moved_def)
  have b: "base_inv t" using rest_same_ok(4) [OF r(2) assms(2) r(1)] r(3) by (simp add: bit_simps)
  show "succeeds (Charger_DisableReasonClear e CHARGER_DISABLE_REASON_TIMEOUT t)
      (\<lambda>s'. base_inv s' \<and> connected_ok s' \<and> is_connected s' = 0 \<and> detect_same s s' \<and> (current_ok s \<longrightarrow> current_ok s'))"
  proof (rule succeeds_mono [OF power_cleared [OF assms(1) r(1)]])
    fix s' assume "reasons_moved (disable_reason t AND NOT CHARGER_DISABLE_REASON_TIMEOUT) t s'"
    then have q: "power_ok s'" "rest_same t s'" "disable_reason s' = disable_reason t AND NOT CHARGER_DISABLE_REASON_TIMEOUT"
      "fast_current s' = fast_current t"
      by (simp_all add: reasons_moved_def)
    have "base_inv s'" using rest_same_ok(4) [OF q(2) b q(1)] q(3) by (simp add: bit_simps)
    moreover have "is_connected s' = 0" using r(2) q(2) assms(3) by (simp add: rest_same_def)
    moreover have d: "detect_same s s'" by (rule detect_same_trans [OF rest_same_detect_same [OF r(2)] rest_same_detect_same [OF q(2)]])
    moreover have "current_ok s' = current_ok s" by (rule current_ok_same [OF d]) (simp add: r q)
    ultimately show "base_inv s' \<and> connected_ok s' \<and> is_connected s' = 0 \<and> detect_same s s' \<and> (current_ok s \<longrightarrow> current_ok s')"
      using r(3) q(3) by (simp add: connected_ok_def bit_simps)
  qed simp_all
qed simp_all


definition conn_flag :: "bool \<Rightarrow> u2" where "conn_flag b = (if b then 1 else 0)"

lemma conn_flag_simps [simp]:
  "conn_flag b = 0 \<longleftrightarrow> \<not> b" "0 = conn_flag b \<longleftrightarrow> \<not> b" "conn_flag b = 1 \<longleftrightarrow> b" "1 = conn_flag b \<longleftrightarrow> b" "conn_flag b \<in> {0, 1}"
  by (simp_all add: conn_flag_def)

text \<open>What a handler that changes the connection leaves behind: \<open>d\<close> says whether the current is known to fit.\<close>

definition connection_updated :: "bool \<Rightarrow> charger_data \<Rightarrow> charger_data \<Rightarrow> bool" where
  "connection_updated b s s' = (base_inv s' \<and> connected_ok s' \<and> is_connected s' = conn_flag b \<and> detect_same s s'
     \<and> (current_ok s \<longrightarrow> current_ok s') \<and> (is_connected s \<in> {0, 1} \<and> supply_ok s \<or> is_connected s \<noteq> conn_flag b \<longrightarrow> supply_ok s'))"

lemma finish_connection:
  assumes "base_inv t" "connected_ok t" "is_connected t = conn_flag b" "detect_same s t" "current_ok s \<longrightarrow> current_ok t"
    "i = (if is_connected t \<noteq> 0 then CHARGER_MESSAGE_ATTACHED else CHARGER_MESSAGE_DETACHED)"
  shows "succeeds (Charger_NotifyClients e i (Charger_UpdatePowerSupplySource t)) (connection_updated b s)"
proof (rule NotifyClients_done [OF UpdatePowerSupplySource_done(1) [OF assms(1)]])
  let ?t = "Charger_UpdatePowerSupplySource t"
  fix q assume q: "base_inv (?t\<lparr>cm_vm := q\<rparr>)" and p: "posted_data (cm_task ?t) q = posted_data (cm_task ?t) (cm_vm ?t)"
  have a: "awake (?t\<lparr>cm_vm := q\<rparr>) = awake ?t" using p by (simp add: awake_def pending_id_def)
  have u: "detect_same ?t (?t\<lparr>cm_vm := q\<rparr>)" using a by (simp add: detect_same_def)
  have d: "detect_same t (?t\<lparr>cm_vm := q\<rparr>)" by (rule detect_same_trans [OF SupplySource_detect_same [OF assms(1)] u])
  have "connected_ok (?t\<lparr>cm_vm := q\<rparr>)" using assms(2) SupplySource_rest [OF assms(1)] by (simp add: connected_ok_def)
  moreover have "supply_ok (?t\<lparr>cm_vm := q\<rparr>) = supply_ok ?t" by (rule supply_ok_same [OF u]) simp_all
  moreover have "current_ok (?t\<lparr>cm_vm := q\<rparr>) = current_ok t" using SupplySource_rest [OF assms(1)] by (intro current_ok_same [OF d]) simp
  ultimately show "connection_updated b s (?t\<lparr>cm_vm := q\<rparr>)"
    using q d detect_same_trans [OF assms(4) d] UpdatePowerSupplySource_done(2) [OF assms(1)] SupplySource_rest [OF assms(1)] assms(3,5)
    by (simp add: connection_updated_def)
qed

lemma set_connected:
  assumes "base_inv s"
  shows "base_inv (s\<lparr>is_connected := c\<rparr>)" "detect_same s (s\<lparr>is_connected := c\<rparr>)"
  using assms by (simp_all add: base_inv_def power_ok_def sw_ok_def vchg_ok_def limiting_def cm_clients_ok_def timers_ok_def
      detect_same_def awake_def)

lemma UpdateConnected_done:
  assumes "env_ok e" "base_inv s" "is_connected s \<in> {0, 1} \<longrightarrow> connected_ok s"
  shows "succeeds (Charger_UpdateConnected e b s) (connection_updated b s)"
proof (cases "is_connected s = conn_flag b")
  case True
  then show ?thesis using assms(2,3)
    by (simp add: Charger_UpdateConnected_def conn_flag_def [symmetric] connection_updated_def)
next
  case False
  let ?s = "s\<lparr>is_connected := conn_flag b\<rparr>"
  have s: "base_inv ?s" "detect_same s ?s" by (rule set_connected [OF assms(2)])+
  have c: "current_ok ?s = current_ok s" by (rule current_ok_same [OF s(2)]) simp
  have "succeeds (if is_connected ?s \<noteq> 0
      then do { s \<leftarrow> Charger_UpdateCurrent e ?s; Charger_DisableReasonClear e CHARGER_DISABLE_REASON_NOT_CONNECTED s }
      else do { s \<leftarrow> Charger_DisableReasonAdd e CHARGER_DISABLE_REASON_NOT_CONNECTED ?s;
                Charger_DisableReasonClear e CHARGER_DISABLE_REASON_TIMEOUT s })
    (\<lambda>t. base_inv t \<and> connected_ok t \<and> is_connected t = conn_flag b \<and> detect_same s t \<and> (current_ok s \<longrightarrow> current_ok t))"
  proof (cases b)
    case True
    then have "is_connected ?s = 1" by simp
    from connected_done [OF assms(1) s(1) this]
    have "succeeds (do { s \<leftarrow> Charger_UpdateCurrent e ?s; Charger_DisableReasonClear e CHARGER_DISABLE_REASON_NOT_CONNECTED s })
        (\<lambda>t. base_inv t \<and> connected_ok t \<and> is_connected t = 1 \<and> detect_same ?s t \<and> current_ok t)"
      unfolding succeeds_simps .
    then have "succeeds (do { s \<leftarrow> Charger_UpdateCurrent e ?s; Charger_DisableReasonClear e CHARGER_DISABLE_REASON_NOT_CONNECTED s })
        (\<lambda>t. base_inv t \<and> connected_ok t \<and> is_connected t = conn_flag b \<and> detect_same s t \<and> (current_ok s \<longrightarrow> current_ok t))"
    proof (rule succeeds_mono)
      show "base_inv t \<and> connected_ok t \<and> is_connected t = conn_flag b \<and> detect_same s t \<and> (current_ok s \<longrightarrow> current_ok t)"
        if "base_inv t \<and> connected_ok t \<and> is_connected t = 1 \<and> detect_same ?s t \<and> current_ok t" for t
        using that detect_same_trans [OF s(2), of t] True by simp
    qed
    then show ?thesis using True by (simp add: conn_flag_def del: succeeds_simps(3))
  next
    case False
    then have "is_connected ?s = 0" by simp
    from disconnected_done [OF assms(1) s(1) this]
    have "succeeds (do { s \<leftarrow> Charger_DisableReasonAdd e CHARGER_DISABLE_REASON_NOT_CONNECTED ?s;
                Charger_DisableReasonClear e CHARGER_DISABLE_REASON_TIMEOUT s })
        (\<lambda>t. base_inv t \<and> connected_ok t \<and> is_connected t = 0 \<and> detect_same ?s t \<and> (current_ok ?s \<longrightarrow> current_ok t))"
      unfolding succeeds_simps .
    then have "succeeds (do { s \<leftarrow> Charger_DisableReasonAdd e CHARGER_DISABLE_REASON_NOT_CONNECTED ?s;
                Charger_DisableReasonClear e CHARGER_DISABLE_REASON_TIMEOUT s })
        (\<lambda>t. base_inv t \<and> connected_ok t \<and> is_connected t = conn_flag b \<and> detect_same s t \<and> (current_ok s \<longrightarrow> current_ok t))"
    proof (rule succeeds_mono)
      show "base_inv t \<and> connected_ok t \<and> is_connected t = conn_flag b \<and> detect_same s t \<and> (current_ok s \<longrightarrow> current_ok t)"
        if "base_inv t \<and> connected_ok t \<and> is_connected t = 0 \<and> detect_same ?s t \<and> (current_ok ?s \<longrightarrow> current_ok t)" for t
        using that detect_same_trans [OF s(2), of t] False c by simp
    qed
    then show ?thesis using False by (simp add: conn_flag_def del: succeeds_simps(3))
  qed
  then show ?thesis
    unfolding Charger_UpdateConnected_def Let_def conn_flag_def [symmetric] if_not_P [OF False] succeeds_simps(3)
    by (rule succeeds_mono) (elim conjE, rule finish_connection, assumption+, simp add: SupplySource_rest)
qed


section \<open>Detecting the charger\<close>

text \<open>The invariant between messages.\<close>

definition cm_inv :: "charger_data \<Rightarrow> bool" where
  "cm_inv s = (base_inv s \<and> connected_ok s \<and> current_ok s \<and> supply_ok s)"

lemma cm_invD:
  assumes "cm_inv s"
  shows "base_inv s" "connected_ok s" "current_ok s" "supply_ok s" "is_connected s \<in> {0, 1}"
  using assms by (simp_all add: cm_inv_def connected_ok_def)

text \<open>What a step never changes; a monitor that is awake stays awake.\<close>

definition steady :: "charger_data \<Rightarrow> charger_data \<Rightarrow> bool" where
  "steady s s' = (cm_task s' = cm_task s \<and> build s' = build s \<and> (awake s \<longrightarrow> awake s'))"

lemma steady_simps [simp]: "steady s s" "detect_same s s' \<Longrightarrow> steady s s'" "kept s s' \<Longrightarrow> steady s s'"
    "rest_same s s' \<Longrightarrow> steady s s'"
proof -
  show d: "detect_same s s' \<Longrightarrow> steady s s'" for s s' by (simp add: steady_def detect_same_def)
  show "steady s s" by (simp add: steady_def)
  show "kept s s' \<Longrightarrow> steady s s'" "rest_same s s' \<Longrightarrow> steady s s'"
    using d kept_detect_same rest_same_detect_same by blast+
qed

lemma steady_trans: "steady s s' \<Longrightarrow> steady s' s'' \<Longrightarrow> steady s s''"
  by (simp add: steady_def)

lemma steady_supply: "steady s t \<Longrightarrow> detect_same t u \<Longrightarrow> base_inv u \<Longrightarrow> steady s (Charger_UpdatePowerSupplySource u)"
  by (meson SupplySource_detect_same steady_simps(2) steady_trans)

lemma UpdateConnected_inv:
  assumes "env_ok e" "cm_inv s"
  shows "succeeds (Charger_UpdateConnected e b s) (\<lambda>s'. cm_inv s' \<and> steady s s' \<and> is_connected s' = conn_flag b)"
  by (rule succeeds_mono [OF UpdateConnected_done [OF assms(1) cm_invD(1) [OF assms(2)]]])
    (use cm_invD [OF assms(2)] in \<open>auto simp: connection_updated_def cm_inv_def\<close>)

text \<open>Updating the current and then the supply restores the invariant.\<close>

lemma update_current_inv:
  assumes "env_ok e" "base_inv s" "connected_ok s"
  shows "succeeds (Charger_UpdateCurrent e s)
    (\<lambda>s'. cm_inv (Charger_UpdatePowerSupplySource s') \<and> detect_same s s' \<and> base_inv s' \<and> connected_ok s' \<and> current_ok s'
       \<and> is_connected s' = is_connected s \<and> (supply_ok s \<longrightarrow> supply_ok s'))"
proof (rule succeeds_mono [OF UpdateCurrent_done [OF assms(1,2)]], elim conjE)
  fix s' assume s': "base_inv s'" "kept s s'" "current_moved e s s'"
  have d: "detect_same s s'" by (rule kept_detect_same [OF s'(2)])
  have f: "is_connected s' = is_connected s" "power_source_vbat s' = power_source_vbat s"
    "usb_leds_forced_off s' = usb_leds_forced_off s"
    using s'(2) by (simp_all add: kept_def)
  have c: "connected_ok s'" "current_ok s'" "supply_ok s \<longrightarrow> supply_ok s'"
    using assms(3) s'(3) f current_moved_ok [OF s'(3) d] supply_ok_same [OF d f]
    by (simp_all add: connected_ok_def current_moved_def)
  have "connected_ok (Charger_UpdatePowerSupplySource s')" "current_ok (Charger_UpdatePowerSupplySource s')"
    using c SupplySource_rest [OF s'(1)] current_ok_same [OF SupplySource_detect_same [OF s'(1)]] by (simp_all add: connected_ok_def)
  then show "cm_inv (Charger_UpdatePowerSupplySource s') \<and> detect_same s s' \<and> base_inv s' \<and> connected_ok s' \<and> current_ok s'
      \<and> is_connected s' = is_connected s \<and> (supply_ok s \<longrightarrow> supply_ok s')"
    using UpdatePowerSupplySource_done [OF s'(1)] s'(1) d c f by (simp add: cm_inv_def)
qed

lemma update_current_cm_inv:
  assumes "env_ok e" "base_inv s" "connected_ok s" "supply_ok s"
  shows "succeeds (Charger_UpdateCurrent e s) (\<lambda>s'. cm_inv s' \<and> steady s s' \<and> is_connected s' = is_connected s)"
  by (rule succeeds_mono [OF update_current_inv [OF assms(1-3)]]) (use assms(4) in \<open>simp add: cm_inv_def\<close>)

text \<open>A new charger: probing starts over or ends.\<close>

lemma new_charger:
  assumes "base_inv s" "known_config p" "current_limiting (config_of p) \<longrightarrow> INCLUDE_CHARGER_DETECT (build s)"
  shows "succeeds (if current_limiting (config_of p)
      then Charger_VChgMonitorStart e (s\<lparr>charger_config := Some p, current_limit := ucast appConfigChargerDCPMinCurrent,
             current_increasing := True, current_limit_detected := False\<rparr>)
      else Charger_VChgMonitorStop (s\<lparr>charger_config := Some p\<rparr>))
    (\<lambda>s'. base_inv s' \<and> is_connected s' = is_connected s \<and> disable_reason s' = disable_reason s \<and> steady s s'
       \<and> charger_config s' = Some p)"
proof (cases "current_limiting (config_of p)")
  case True
  let ?s = "s\<lparr>charger_config := Some p, current_limit := ucast appConfigChargerDCPMinCurrent,
      current_increasing := True, current_limit_detected := False\<rparr>"
  have l: "unat (current_limit ?s) = 500" by (simp add: appConfigChargerDCPMinCurrent_def)
  have b: "base_inv ?s"
    using assms True l by (simp add: base_inv_def power_ok_def sw_ok_def vchg_ok_def limiting_def cm_clients_ok_def timers_ok_def)
  have "succeeds (Charger_VChgMonitorStart e ?s) (\<lambda>s'. base_inv s' \<and> is_connected s' = is_connected s
      \<and> disable_reason s' = disable_reason s \<and> steady s s' \<and> charger_config s' = Some p)"
  proof (rule succeeds_mono [OF start_monitor [OF b]])
    show "INCLUDE_CHARGER_DETECT (build ?s)" "limiting ?s" "\<not> current_limit_detected ?s" "500 \<le> unat (current_limit ?s)"
      "unat (current_limit ?s) \<le> 1500" "10 dvd unat (current_limit ?s)"
      using assms(3) True l by (simp_all add: limiting_def)
  qed (clarsimp simp: kept_def steady_def awake_def)
  with True show ?thesis by simp
next
  case False
  let ?s = "s\<lparr>charger_config := Some p\<rparr>"
  have "succeeds (Charger_VChgMonitorStop ?s) (\<lambda>s'. base_inv s' \<and> is_connected s' = is_connected s
      \<and> disable_reason s' = disable_reason s \<and> steady s s' \<and> charger_config s' = Some p)"
  proof (rule succeeds_mono [OF stop_monitor], goal_cases)
    case 1 then show ?case using base_invD(5) [OF assms(1)] by simp
  next
    case (2 s')
    then obtain vm where s': "s' = ?s\<lparr>vchg_monitor_enabled := False, cm_vm := vm\<rparr>"
      and p: "\<forall>i. i \<noteq> CHARGER_INTERNAL_VCHG_MEASUREMENT \<longrightarrow> pending_id (cm_task s) i vm = pend s i" by auto
    show ?case unfolding s' using assms(1,2) False p
      by (simp add: base_inv_def power_ok_def sw_ok_def vchg_ok_def limiting_def cm_clients_ok_def timers_ok_def steady_def
          charger_ids awake_def)
  qed
  with False show ?thesis by simp
qed


lemma usb_state_base:
  "base_inv (s\<lparr>usb_enumerated := a, usb_suspend := b\<rparr>) = base_inv s" "base_inv (s\<lparr>usb_enumerated := a\<rparr>) = base_inv s"
  "base_inv (s\<lparr>usb_suspend := b\<rparr>) = base_inv s"
  by (simp_all add: base_inv_def power_ok_def sw_ok_def vchg_ok_def limiting_def cm_clients_ok_def timers_ok_def)

lemma Resolved_done:
  assumes "env_ok e" "base_inv s" "is_connected s \<in> {0, 1} \<longrightarrow> connected_ok s" "known_config p" "INCLUDE_CHARGER_DETECT (build s)"
  shows "succeeds (chargerDetect_Resolved e b (s\<lparr>charger_config := Some p\<rparr>))
    (\<lambda>s'. cm_inv s' \<and> steady s s' \<and> is_connected s' = conn_flag b)"
proof -
  let ?Q = "\<lambda>s'. cm_inv s' \<and> steady s s' \<and> is_connected s' = conn_flag b"
  have "succeeds (do { s \<leftarrow> Charger_UpdateConnected e b (t\<lparr>usb_enumerated := False, usb_suspend := env_usb_suspended e\<rparr>);
         s \<leftarrow> Charger_UpdateCurrent e s; Some (Charger_UpdatePowerSupplySource s) }) ?Q"
    if t: "base_inv t" "is_connected t = is_connected s" "disable_reason t = disable_reason s" "steady s t" for t
  proof -
    let ?t = "t\<lparr>usb_enumerated := False, usb_suspend := env_usb_suspended e\<rparr>"
    have "base_inv ?t" "is_connected ?t \<in> {0, 1} \<longrightarrow> connected_ok ?t"
      using t assms(3) by (simp_all add: usb_state_base connected_ok_def)
    then have "succeeds (Charger_UpdateConnected e b ?t) (\<lambda>u. succeeds
        (do { s \<leftarrow> Charger_UpdateCurrent e u; Some (Charger_UpdatePowerSupplySource s) }) ?Q)"
    proof (rule succeeds_mono [OF UpdateConnected_done [OF assms(1)]])
      fix u assume "connection_updated b ?t u"
      then have u: "base_inv u" "connected_ok u" "is_connected u = conn_flag b" "detect_same ?t u"
        by (simp_all add: connection_updated_def)
      have "steady t ?t" by (simp add: steady_def awake_def)
      then have su: "steady s u" using steady_trans [OF t(4)] steady_trans [of t ?t u] u(4) by simp
      then show "succeeds (do { s \<leftarrow> Charger_UpdateCurrent e u; Some (Charger_UpdatePowerSupplySource s) }) ?Q"
        unfolding succeeds_simps
        by (intro succeeds_mono [OF update_current_inv [OF assms(1) u(1,2)]])
          (use u(3) steady_supply [OF su] in \<open>simp add: SupplySource_rest\<close>)
    qed
    then show ?thesis by simp
  qed
  then have "succeeds (if current_limiting (config_of p)
      then Charger_VChgMonitorStart e (s\<lparr>charger_config := Some p, current_limit := ucast appConfigChargerDCPMinCurrent,
             current_increasing := True, current_limit_detected := False\<rparr>)
      else Charger_VChgMonitorStop (s\<lparr>charger_config := Some p\<rparr>))
    (\<lambda>t. succeeds (do { s \<leftarrow> Charger_UpdateConnected e b (t\<lparr>usb_enumerated := False, usb_suspend := env_usb_suspended e\<rparr>);
         s \<leftarrow> Charger_UpdateCurrent e s; Some (Charger_UpdatePowerSupplySource s) }) ?Q)"
    using assms(5) by (intro succeeds_mono [OF new_charger [OF assms(2,4)]]) blast+
  then show ?thesis by (simp add: chargerDetect_Resolved_def)
qed

lemma new_config_done:
  assumes "env_ok e" "base_inv s" "is_connected s \<in> {0, 1} \<longrightarrow> connected_ok s" "INCLUDE_CHARGER_DETECT (build s)"
    "\<And>p. c = Some p \<Longrightarrow> known_config p"
  shows "c \<noteq> None \<and> c \<noteq> charger_config s \<Longrightarrow> succeeds (new_config e c b s)
      (\<lambda>s'. cm_inv s' \<and> steady s s' \<and> is_connected s' = conn_flag b)"
    "cm_inv s \<Longrightarrow> succeeds (new_config e c b s) (\<lambda>s'. cm_inv s' \<and> steady s s')"
proof -
  show n: "succeeds (new_config e c b s) (\<lambda>s'. cm_inv s' \<and> steady s s' \<and> is_connected s' = conn_flag b)"
    if "c \<noteq> None \<and> c \<noteq> charger_config s"
    using that Resolved_done [OF assms(1-3) assms(5) assms(4), of _ b] by (auto simp: new_config_def)
  show "succeeds (new_config e c b s) (\<lambda>s'. cm_inv s' \<and> steady s s')" if "cm_inv s"
  proof (cases "c \<noteq> None \<and> c \<noteq> charger_config s")
    case True
    show ?thesis by (rule succeeds_mono [OF n [OF True]]) simp
  next
    case False
    with that show ?thesis by (auto simp: new_config_def)
  qed
qed

lemma Detected_inv:
  assumes "env_ok e" "cm_inv s" "INCLUDE_CHARGER_DETECT (build s)"
  shows "succeeds (ChargerDetect_Detected e msg s) (\<lambda>s'. cm_inv s' \<and> steady s s')"
  unfolding ChargerDetect_Detected_def
  using cm_invD [OF assms(2)] GetConfig_known by (intro new_config_done(2)) (simp_all add: assms)

lemma Changed_inv:
  assumes "env_ok e" "cm_inv s" "INCLUDE_CHARGER_DETECT (build s)"
  shows "succeeds (ChargerDetect_Changed e b s) (\<lambda>s'. cm_inv s' \<and> steady s s')"
  unfolding ChargerDetect_Changed_def
  using cm_invD [OF assms(2)] GetConnectedConfig_known by (intro new_config_done(2)) (simp_all add: assms)

text \<open>The connection is followed by every build.\<close>

lemma connection_inv:
  assumes "env_ok e" "cm_inv s"
  shows "succeeds (if INCLUDE_CHARGER_DETECT (build s) then ChargerDetect_Changed e b s else Charger_UpdateConnected e b s)
    (\<lambda>s'. cm_inv s' \<and> steady s s')"
proof -
  have "succeeds (Charger_UpdateConnected e b s) (\<lambda>s'. cm_inv s' \<and> steady s s')"
    by (rule succeeds_mono [OF UpdateConnected_inv [OF assms]]) blast
  then show ?thesis using Changed_inv [OF assms] by simp
qed

lemma UpdateUsbStatus_inv:
  assumes "env_ok e" "cm_inv s"
  shows "succeeds (ChargerDetect_UpdateUsbStatus e i s) (\<lambda>s'. cm_inv s' \<and> steady s s')"
proof (cases "i \<in> {USB_DEVICE_ENUMERATED, USB_DEVICE_DECONFIGURED, USB_DEVICE_SUSPEND, USB_DEVICE_RESUME}")
  case True
  let ?s = "if i = USB_DEVICE_ENUMERATED then s\<lparr>usb_enumerated := True\<rparr>
     else if i = USB_DEVICE_DECONFIGURED then s\<lparr>usb_enumerated := False, usb_suspend := False\<rparr>
     else s\<lparr>usb_suspend := (i = USB_DEVICE_SUSPEND)\<rparr>"
  let ?up = "\<lambda>t. (\<exists>p. charger_config t = Some p \<and> usb_events_apply (config_of p)) \<and> usb_suspend s \<noteq> usb_suspend t"
  have b: "base_inv ?s" using cm_invD(1) [OF assms(2)] by (simp add: usb_state_base)
  have c: "connected_ok ?s" "steady s ?s" using cm_invD(2) [OF assms(2)] by (simp_all add: connected_ok_def steady_def awake_def)
  have sup: "supply_ok ?s" if "\<not> ?up ?s"
    using cm_invD(4) [OF assms(2)] that by (auto simp: supply_ok_def ChargerDetect_UsbIsSuspend_def split: if_splits)
  have "succeeds (Charger_UpdateCurrent e ?s) (\<lambda>t. cm_inv (if ?up t then Charger_UpdatePowerSupplySource t else t)
      \<and> steady s (if ?up t then Charger_UpdatePowerSupplySource t else t))"
  proof (rule succeeds_mono [OF update_current_inv [OF assms(1) b c(1)]], elim conjE)
    fix t assume t: "cm_inv (Charger_UpdatePowerSupplySource t)" "detect_same ?s t" "base_inv t" "connected_ok t" "current_ok t"
      "supply_ok ?s \<longrightarrow> supply_ok t"
    have "?up t = ?up ?s" using t(2) unfolding detect_same_def by presburger
    then have "supply_ok t" if "\<not> ?up t" using t(6) sup that by blast
    moreover have "steady s t" using steady_trans [OF c(2)] t(2) by simp
    ultimately show "cm_inv (if ?up t then Charger_UpdatePowerSupplySource t else t)
        \<and> steady s (if ?up t then Charger_UpdatePowerSupplySource t else t)"
      using t steady_trans [of s t] SupplySource_detect_same [OF t(3)] by (simp add: cm_inv_def)
  qed
  then show ?thesis
    unfolding ChargerDetect_UpdateUsbStatus_def config_flag_iff Let_def if_P [OF True] succeeds_simps .
qed (use assms(2) in \<open>simp add: ChargerDetect_UpdateUsbStatus_def\<close>)



section \<open>Probing the charger\<close>

lemma stop_with:
  assumes "base_inv s" "limiting s \<longrightarrow> 500 \<le> unat l \<and> unat l \<le> 1500 \<and> (d \<or> 10 dvd unat l)"
  shows "succeeds (Charger_VChgMonitorStop (s\<lparr>current_limit := l, current_limit_detected := d\<rparr>))
    (\<lambda>s'. base_inv s' \<and> \<not> vchg_monitor_enabled s' \<and> awake s' \<and> disable_reason s' = disable_reason s
       \<and> fast_current s' = fast_current s \<and> is_connected s' = is_connected s \<and> cm_task s' = cm_task s \<and> build s' = build s
       \<and> charger_config s' = charger_config s \<and> usb_suspend s' = usb_suspend s \<and> usb_enumerated s' = usb_enumerated s
       \<and> power_source_vbat s' = power_source_vbat s \<and> usb_leds_forced_off s' = usb_leds_forced_off s
       \<and> max_supported_current s' = max_supported_current s \<and> current_limit s' = l \<and> current_limit_detected s' = d
       \<and> current_increasing s' = current_increasing s)"
proof (rule succeeds_mono [OF stop_monitor], goal_cases)
  case 1 then show ?case using base_invD(5) [OF assms(1)] by simp
next
  case (2 s')
  then obtain vm where s': "s' = s\<lparr>current_limit := l, current_limit_detected := d, vchg_monitor_enabled := False, cm_vm := vm\<rparr>"
    and p: "\<forall>i. i \<noteq> CHARGER_INTERNAL_VCHG_MEASUREMENT \<longrightarrow> pending_id (cm_task s) i vm = pend s i" by auto
  show ?case unfolding s' using assms p
    by (simp add: base_inv_def power_ok_def sw_ok_def vchg_ok_def limiting_def cm_clients_ok_def timers_ok_def awake_def
        charger_ids)
qed

lemma supply_ok_fields:
  assumes "is_connected s' = is_connected s" "build s' = build s" "charger_config s' = charger_config s"
    "usb_suspend s' = usb_suspend s" "power_source_vbat s' = power_source_vbat s" "usb_leds_forced_off s' = usb_leds_forced_off s"
  shows "supply_ok s' = supply_ok s"
  using assms by (simp add: supply_ok_def ChargerDetect_UsbIsSuspend_def)

lemma stop_inv:
  assumes "cm_inv s" "d \<or> \<not> current_limit_detected s"
  shows "succeeds (Charger_VChgMonitorStop (s\<lparr>current_limit_detected := d\<rparr>))
    (\<lambda>s'. cm_inv s' \<and> steady s s' \<and> \<not> vchg_monitor_enabled s' \<and> current_increasing s' = current_increasing s)"
proof -
  have "limiting s \<longrightarrow> 500 \<le> unat (current_limit s) \<and> unat (current_limit s) \<le> 1500 \<and> (d \<or> 10 dvd unat (current_limit s))"
    using base_invD(2) [OF cm_invD(1) [OF assms(1)]] assms(2) by (auto simp: vchg_ok_def)
  from stop_with [OF cm_invD(1) [OF assms(1)] this]
  have "succeeds (Charger_VChgMonitorStop (s\<lparr>current_limit := current_limit s, current_limit_detected := d\<rparr>))
    (\<lambda>s'. cm_inv s' \<and> steady s s' \<and> \<not> vchg_monitor_enabled s' \<and> current_increasing s' = current_increasing s)"
  proof (rule succeeds_mono, elim conjE)
    fix s'
    assume s': "base_inv s'" "\<not> vchg_monitor_enabled s'" "awake s'" "disable_reason s' = disable_reason s"
      "fast_current s' = fast_current s" "is_connected s' = is_connected s" "cm_task s' = cm_task s" "build s' = build s"
      "charger_config s' = charger_config s" "usb_suspend s' = usb_suspend s" "usb_enumerated s' = usb_enumerated s"
      "power_source_vbat s' = power_source_vbat s" "usb_leds_forced_off s' = usb_leds_forced_off s"
      "max_supported_current s' = max_supported_current s" "current_limit s' = current_limit s"
      "current_increasing s' = current_increasing s"
    have "supply_ok s' = supply_ok s" by (rule supply_ok_fields) (use s' in simp_all)
    moreover have "current_ok s' = current_ok s" 
    proof -
      have "ChargerDetect_Current s' = ChargerDetect_Current s" using s' by (simp only: ChargerDetect_Current_def)
      with s' show ?thesis by (simp add: current_ok_def)
    qed
    moreover have "connected_ok s' = connected_ok s" using s' by (simp add: connected_ok_def)
    ultimately show "cm_inv s' \<and> steady s s' \<and> \<not> vchg_monitor_enabled s' \<and> current_increasing s' = current_increasing s"
      using s' assms(1) by (simp add: cm_inv_def steady_def)
  qed
  moreover have "s\<lparr>current_limit := current_limit s, current_limit_detected := d\<rparr> = s\<lparr>current_limit_detected := d\<rparr>" by simp
  ultimately show ?thesis by simp
qed

text \<open>A new limit, and the current that goes with it, while probing goes on.\<close>

lemma limit_update:
  assumes "env_ok e" "cm_inv s" "vchg_monitor_enabled s" "500 \<le> unat l" "unat l \<le> 1500" "10 dvd unat l"
  shows "succeeds (Charger_UpdateCurrent e (s\<lparr>current_limit := l\<rparr>))
    (\<lambda>s'. cm_inv s' \<and> steady s s' \<and> vchg_monitor_enabled s' \<and> current_increasing s' = current_increasing s \<and> current_limit s' = l)"
proof -
  let ?s = "s\<lparr>current_limit := l\<rparr>"
  have b: "base_inv ?s"
    using cm_invD(1) [OF assms(2)] assms(4-6)
    by (simp add: base_inv_def power_ok_def sw_ok_def vchg_ok_def limiting_def cm_clients_ok_def timers_ok_def)
  have c: "connected_ok ?s" "supply_ok ?s" "steady s ?s"
    using cm_invD(2) [OF assms(2)] supply_ok_fields [of ?s s] cm_invD(4) [OF assms(2)]
    by (simp_all add: connected_ok_def steady_def awake_def)
  show ?thesis
  proof (rule succeeds_mono [OF succeeds_conj [OF update_current_cm_inv [OF assms(1) b c(1,2)] UpdateCurrent_done [OF assms(1) b]]],
      elim conjE)
    fix s' assume s': "cm_inv s'" "steady ?s s'" and k: "kept ?s s'"
    have "vchg_monitor_enabled s' = vchg_monitor_enabled ?s" "current_increasing s' = current_increasing ?s"
      "current_limit s' = current_limit ?s"
      using k assms(3) unfolding kept_def by simp_all
    with s' assms(3) steady_trans [OF c(3) s'(2)]
    show "cm_inv s' \<and> steady s s' \<and> vchg_monitor_enabled s' \<and> current_increasing s' = current_increasing s \<and> current_limit s' = l"
      by simp
  qed
qed

text \<open>How many readings probing can still take.\<close>

definition probe_left :: "charger_data \<Rightarrow> nat" where
  "probe_left s =
     (if \<not> vchg_monitor_enabled s then 0
      else if current_increasing s then 102 + (1500 - unat (current_limit s)) div 10
      else 1 + (unat (current_limit s) - 500) div 10)"

lemma probing_limit:
  assumes "cm_inv s" "vchg_monitor_enabled s"
  shows "INCLUDE_CHARGER_DETECT (build s)" "\<not> current_limit_detected s"
    "\<exists>p. charger_config s = Some p \<and> current_limiting (config_of p) \<and> cc_current (config_of p) = 1500"
    "\<exists>k. unat (current_limit s) = 500 + 10 * k \<and> k \<le> 100"
proof -
  have v: "INCLUDE_CHARGER_DETECT (build s)" "\<not> current_limit_detected s" "limiting s"
    "500 \<le> unat (current_limit s)" "unat (current_limit s) \<le> 1500" "10 dvd unat (current_limit s)"
    using base_invD(2) [OF cm_invD(1) [OF assms(1)]] assms(2) by (auto simp: vchg_ok_def)
  then show "INCLUDE_CHARGER_DETECT (build s)" "\<not> current_limit_detected s" by simp_all
  show "\<exists>p. charger_config s = Some p \<and> current_limiting (config_of p) \<and> cc_current (config_of p) = 1500"
    using v(3) known_limiting base_invD(6) [OF cm_invD(1) [OF assms(1)]] by (auto simp: limiting_def)
  from v(6) obtain m where "unat (current_limit s) = 10 * m" ..
  with v(4,5) show "\<exists>k. unat (current_limit s) = 500 + 10 * k \<and> k \<le> 100" by (intro exI [of _ "m - 50"]) auto
qed

lemma vchg_good_done:
  assumes "env_ok e" "cm_inv s" "vchg_monitor_enabled s" "current_increasing s"
  shows "succeeds (vchg_good e r s) (\<lambda>s'. cm_inv s' \<and> steady s s' \<and> probe_left s' < probe_left s
    \<and> current_increasing s')"
proof -
  obtain p where p: "charger_config s = Some p" "cc_current (config_of p) = 1500" using probing_limit(3) [OF assms(2,3)] by blast
  obtain k where k: "unat (current_limit s) = 500 + 10 * k" "k \<le> 100" using probing_limit(4) [OF assms(2,3)] by blast
  have l0: "0 < probe_left s" using assms(3) by (simp add: probe_left_def)
  have s: "s\<lparr>current_limit_detected := False\<rparr> = s" using probing_limit(2) [OF assms(2,3)] by simp
  have st: "succeeds (Charger_VChgMonitorStop (s\<lparr>current_limit_detected := d\<rparr>)) (\<lambda>s'. cm_inv s' \<and> steady s s'
      \<and> probe_left s' < probe_left s \<and> current_increasing s')" for d
    by (rule succeeds_mono [OF stop_inv [OF assms(2)]]) (use probing_limit(2) [OF assms(2,3)] l0 assms(4) in \<open>auto simp: probe_left_def\<close>)
  let ?n = "ucast (current_limit s) + appConfigChargerVchgStep :: u16"
  have n: "unat ?n = 510 + 10 * k"
    using k by (simp add: appConfigChargerVchgStep_def unat_word_ariths)
  have up: "succeeds (Charger_UpdateCurrent e (s\<lparr>current_limit := ucast ?n\<rparr>)) (\<lambda>s'. cm_inv s' \<and> steady s s'
      \<and> probe_left s' < probe_left s \<and> current_increasing s')" if "\<not> ?n > ucast (1500 :: u12)"
  proof -
    have k': "k < 100" using that n by (simp add: word_less_nat_alt)
    have u: "unat (ucast ?n :: u12) = 510 + 10 * k" using n k' by (subst unat_ucast_fits) simp_all
    have "10 dvd 510 + 10 * k" by (rule dvdI [of _ _ "51 + k"]) simp
    then show ?thesis
      by (intro succeeds_mono [OF limit_update [OF assms(1-3)]])
        (use u k k' assms(3,4) in \<open>auto simp: probe_left_def\<close>)
  qed
  show ?thesis
    using st [of False] st [of True] up p s by (simp add: vchg_good_def Let_def)
qed

lemma vchg_recover_done:
  assumes "env_ok e" "cm_inv s" "vchg_monitor_enabled s" "\<not> current_increasing s"
  shows "succeeds (vchg_recover e mv s) (\<lambda>s'. cm_inv s' \<and> steady s s' \<and> probe_left s' < probe_left s)"
proof -
  obtain k where k: "unat (current_limit s) = 500 + 10 * k" "k \<le> 100" using probing_limit(4) [OF assms(2,3)] by blast
  have l0: "0 < probe_left s" using assms(3) by (simp add: probe_left_def)
  have st: "succeeds (Charger_VChgMonitorStop (s\<lparr>current_limit_detected := True\<rparr>))
      (\<lambda>s'. cm_inv s' \<and> steady s s' \<and> probe_left s' < probe_left s)"
    by (rule succeeds_mono [OF stop_inv [OF assms(2)]]) (use l0 in \<open>auto simp: probe_left_def\<close>)
  have dn: "succeeds (Charger_UpdateCurrent e (s\<lparr>current_limit := current_limit s - ucast appConfigChargerVchgStep\<rparr>))
      (\<lambda>s'. cm_inv s' \<and> steady s s' \<and> probe_left s' < probe_left s)"
    if "ucast (current_limit s) \<noteq> appConfigChargerDCPMinCurrent"
  proof -
    have "unat (ucast (current_limit s) :: u16) \<noteq> unat appConfigChargerDCPMinCurrent" using that by (metis unsigned_word_eqI)
    then have "k \<noteq> 0" using k by (simp add: appConfigChargerDCPMinCurrent_def)
    then obtain j where j: "k = Suc j" by (cases k) auto
    have u: "unat (current_limit s - ucast appConfigChargerVchgStep) = 500 + 10 * j"
      using k j by (simp add: appConfigChargerVchgStep_def unat_sub word_le_nat_alt)
    have "10 dvd 500 + 10 * j" by (rule dvdI [of _ _ "50 + j"]) simp
    then show ?thesis
      by (intro succeeds_mono [OF limit_update [OF assms(1-3)]])
        (use u k j assms(3,4) in \<open>auto simp: probe_left_def\<close>)
  qed
  show ?thesis using st dn by (simp add: vchg_recover_def)
qed


lemma VchgReading_done:
  assumes "env_ok e" "cm_inv s" "vchg_monitor_enabled s"
  shows "succeeds (ChargerDetect_VchgReading e mv mA s) (\<lambda>s'. cm_inv s' \<and> steady s s' \<and> probe_left s' < probe_left s)"
    (is "succeeds _ ?Q")
proof -
  let ?r = "ucast (Charger_GetFastCurrent s) :: u16"
  show ?thesis
  proof (cases "(ucast mA :: u32) < ucast ?r * 9 div 10")
    case True
    let ?l = "ucast (max mA appConfigChargerDCPMinCurrent) :: u12"
    have "unat (fast_current s) \<le> 1500"
    proof -
      obtain p where p: "charger_config s = Some p" "current_limiting (config_of p)" "cc_current (config_of p) = 1500"
        using probing_limit(3) [OF assms(2,3)] by blast
      have "unat (ChargerDetect_Current s) \<le> unat (ucast (current_limit s) :: u32)"
        using p by (simp add: ChargerDetect_Current_def Let_def min_def word_le_nat_alt)
      also have "\<dots> \<le> 1500" using probing_limit(4) [OF assms(2,3)] by auto
      finally show ?thesis using cm_invD(3) [OF assms(2)] probing_limit(1) [OF assms(2,3)] by (simp add: current_ok_def)
    qed
    then have "unat ?r \<le> 1500" by (simp add: Charger_GetFastCurrent_def unat_ucast_fits)
    then have "unat (ucast ?r * 9 div 10 :: u32) \<le> 1350"
      by (simp add: unat_div unat_word_ariths)
    then have m: "unat mA < 1350" using True by (simp add: word_less_nat_alt)
    have x: "unat (max mA appConfigChargerDCPMinCurrent) = max (unat mA) 500"
      by (simp add: max_def appConfigChargerDCPMinCurrent_def word_le_nat_alt)
    then have l: "unat ?l = max (unat mA) 500" using m by (subst unat_ucast_fits) simp_all
    have "succeeds (Charger_VChgMonitorStop (s\<lparr>current_limit := ?l, current_limit_detected := True\<rparr>))
        (\<lambda>t. succeeds (Charger_UpdateCurrent e t) ?Q)"
    proof (rule succeeds_mono [OF stop_with [OF cm_invD(1) [OF assms(2)]]])
      show "limiting s \<longrightarrow> 500 \<le> unat ?l \<and> unat ?l \<le> 1500 \<and> (True \<or> 10 dvd unat ?l)" using l m by simp
      fix t
      assume t: "base_inv t \<and> \<not> vchg_monitor_enabled t \<and> awake t \<and> disable_reason t = disable_reason s
         \<and> fast_current t = fast_current s \<and> is_connected t = is_connected s \<and> cm_task t = cm_task s \<and> build t = build s
         \<and> charger_config t = charger_config s \<and> usb_suspend t = usb_suspend s \<and> usb_enumerated t = usb_enumerated s
         \<and> power_source_vbat t = power_source_vbat s \<and> usb_leds_forced_off t = usb_leds_forced_off s
         \<and> max_supported_current t = max_supported_current s \<and> current_limit t = ?l \<and> current_limit_detected t = True
         \<and> current_increasing t = current_increasing s"
      then have b: "base_inv t" "connected_ok t" "supply_ok t" "steady s t"
        using cm_invD(2) [OF assms(2)] supply_ok_fields [of t s] cm_invD(4) [OF assms(2)] by (simp_all add: connected_ok_def steady_def)
      show "succeeds (Charger_UpdateCurrent e t) ?Q"
      proof (rule succeeds_mono [OF succeeds_conj [OF update_current_cm_inv [OF assms(1) b(1-3)] UpdateCurrent_done [OF assms(1) b(1)]]],
          elim conjE)
        fix u assume u: "cm_inv u" "steady t u" "kept t u"
        have "\<not> vchg_monitor_enabled u" using u(3) t unfolding kept_def by simp
        with u(1) steady_trans [OF b(4) u(2)] assms(3) show "?Q u" by (simp add: probe_left_def)
      qed
    qed
    then show ?thesis using True by (simp add: ChargerDetect_VchgReading_def Let_def)
  next
    case False
    show ?thesis
    proof (cases "current_increasing s")
      case inc: True
      show ?thesis
      proof (cases "mv \<le> appConfigChargerVchgLowThreshold")
        case True
        let ?s = "s\<lparr>current_increasing := False\<rparr>"
        have d: "detect_same s ?s" by (simp add: detect_same_def awake_def)
        have "cm_inv ?s"
          using assms(2) current_ok_same [OF d] supply_ok_same [OF d]
          by (simp add: cm_inv_def base_inv_def power_ok_def sw_ok_def vchg_ok_def limiting_def cm_clients_ok_def timers_ok_def
              connected_ok_def)
        moreover have "probe_left ?s < probe_left s"
          using inc assms(3) probing_limit(4) [OF assms(2,3)] by (auto simp: probe_left_def)
        ultimately have "succeeds (vchg_recover e mv ?s) ?Q"
          using steady_trans [OF steady_simps(2) [OF d]] assms(3)
          by (intro succeeds_mono [OF vchg_recover_done [OF assms(1), of ?s]]) auto
        then show ?thesis using False inc True by (simp add: ChargerDetect_VchgReading_def Let_def)
      next
        case good: False
        have "succeeds (vchg_good e ?r s) (\<lambda>t. succeeds (if \<not> current_increasing t then vchg_recover e mv t else Some t) ?Q)"
          by (rule succeeds_mono [OF vchg_good_done [OF assms inc]]) simp
        then show ?thesis using False inc good by (simp add: ChargerDetect_VchgReading_def Let_def)
      qed
    next
      case dec: False
      have "succeeds (vchg_recover e mv s) ?Q" by (rule vchg_recover_done [OF assms dec])
      then show ?thesis using False dec by (simp add: ChargerDetect_VchgReading_def Let_def)
    qed
  qed
qed


section \<open>Readings\<close>

definition woken :: "charger_data \<Rightarrow> charger_data \<Rightarrow> bool" where
  "woken s s' = (cm_task s' = cm_task s \<and> build s' = build s \<and> awake s')"

lemma woken_steady: "steady s t \<Longrightarrow> woken t u \<Longrightarrow> woken s u"
  by (simp add: woken_def steady_def)

text \<open>Fields the invariant depends on only through the monitor.\<close>

lemma cm_inv_fields:
  assumes "cm_inv s" "base_inv s'" "is_connected s' = is_connected s" "bit (disable_reason s') 4 = bit (disable_reason s) 4"
    "fast_current s' = fast_current s" "max_supported_current s' = max_supported_current s" "build s' = build s"
    "charger_config s' = charger_config s" "usb_suspend s' = usb_suspend s" "usb_enumerated s' = usb_enumerated s"
    "current_limit s' = current_limit s" "power_source_vbat s' = power_source_vbat s" "usb_leds_forced_off s' = usb_leds_forced_off s"
  shows "cm_inv s'"
proof -
  have "supply_ok s' = supply_ok s" by (rule supply_ok_fields) (use assms in simp_all)
  moreover have "ChargerDetect_Current s' = ChargerDetect_Current s" using assms(8-11) by (simp only: ChargerDetect_Current_def)
  ultimately show ?thesis using assms by (simp add: cm_inv_def current_ok_def connected_ok_def)
qed

lemma send_measurement:
  assumes "cm_inv s"
  shows "succeeds (cm_send e CHARGER_INTERNAL_VCHG_MEASUREMENT s) (\<lambda>s'. cm_inv s' \<and> woken s s')"
    "succeeds (cm_send_later e CHARGER_INTERNAL_VCHG_MEASUREMENT d s) (\<lambda>s'. cm_inv s' \<and> woken s s')"
proof -
  have *: "cm_inv (s\<lparr>cm_vm := q\<rparr>) \<and> woken s (s\<lparr>cm_vm := q\<rparr>)" if q: "own_sent CHARGER_INTERNAL_VCHG_MEASUREMENT s q" for q
  proof -
    have "base_inv (s\<lparr>cm_vm := q\<rparr>)"
      using cm_invD(1) [OF assms] q
      by (simp add: base_inv_def power_ok_def sw_ok_def vchg_ok_def limiting_def cm_clients_ok_def timers_ok_def own_sent_def charger_ids)
    then have "cm_inv (s\<lparr>cm_vm := q\<rparr>)" by (rule cm_inv_fields [OF assms]) simp_all
    then show ?thesis using q by (simp add: woken_def awake_def own_sent_def)
  qed
  show "succeeds (cm_send e CHARGER_INTERNAL_VCHG_MEASUREMENT s) (\<lambda>s'. cm_inv s' \<and> woken s s')"
    "succeeds (cm_send_later e CHARGER_INTERNAL_VCHG_MEASUREMENT d s) (\<lambda>s'. cm_inv s' \<and> woken s s')"
    by (rule cm_sends [OF not_combinable_charger(3)], rule *, assumption)+
qed

lemma Periodic_done:
  assumes "cm_inv s"
  shows "succeeds (Charger_VchgMonitorPeriodic e s) (\<lambda>s'. cm_inv s' \<and> woken s s')"
proof (cases "\<not> vchg_monitor_enabled s \<or> vchg_monitor_read_pending s")
  case True
  then show ?thesis using assms by (auto simp: Charger_VchgMonitorPeriodic_def woken_def awake_def)
next
  case False
  let ?a = "if vref_reading s = 0 then adcsel_vref_hq_buff else if chg_mon_reading s = CHG_MON_REQUEST_READING then adcsel_chg_mon
     else adcsel_pmu_vchg_sns"
  let ?s = "cm_log (Call_AdcReadRequest ?a) (s\<lparr>vchg_monitor_read_pending := True\<rparr>)"
  have "base_inv ?s"
    using cm_invD(1) [OF assms]
    by (simp add: base_inv_def power_ok_def sw_ok_def vchg_ok_def limiting_def cm_clients_ok_def timers_ok_def cm_log_def)
  then have "cm_inv ?s" by (rule cm_inv_fields [OF assms]) (simp_all add: cm_log_def)
  moreover have "woken s ?s" by (simp add: woken_def awake_def cm_log_def)
  ultimately show ?thesis
    using send_measurement(2) [OF assms] unfolding Charger_VchgMonitorPeriodic_def Let_def if_not_P [OF False] by simp
qed

lemma read_done_inv:
  assumes "cm_inv s"
  shows "cm_inv (s\<lparr>vchg_monitor_read_pending := False\<rparr>)" "cm_inv (s\<lparr>vchg_monitor_read_pending := False, vref_reading := v\<rparr>)"
    "cm_inv (s\<lparr>chg_mon_reading := c\<rparr>)"
  by (rule cm_inv_fields [OF assms]; use cm_invD(1) [OF assms] in
    \<open>simp add: base_inv_def power_ok_def sw_ok_def vchg_ok_def limiting_def cm_clients_ok_def timers_ok_def\<close>)+

lemma Reading_done:
  assumes "env_ok e" "cm_inv s" "vchg_monitor_read_pending s" "requested_adc (cm_calls s) = Some a"
  shows "succeeds (Charger_VChgMonitorReading e a r s) (\<lambda>s'. cm_inv s' \<and> woken s s')"
proof -
  let ?s = "s\<lparr>vchg_monitor_read_pending := False\<rparr>"
  have a: "a \<noteq> adcsel_other" "a \<noteq> adcsel_vref_hq_buff \<longrightarrow> vref_reading s \<noteq> 0"
    using base_invD(2) [OF cm_invD(1) [OF assms(2)]] assms(3,4) by (auto simp: vchg_ok_def)
  have i: "cm_inv ?s" by (rule read_done_inv(1) [OF assms(2)])
  have off: "woken s ?s" if "\<not> vchg_monitor_enabled s" using that by (simp add: woken_def awake_def)
  have w: "woken (s\<lparr>vchg_monitor_read_pending := False, vref_reading := x\<rparr>) u \<Longrightarrow> woken s u"
    "woken (?s\<lparr>chg_mon_reading := y\<rparr>) u \<Longrightarrow> woken s u" for u x y
    by (simp_all add: woken_def)
  show ?thesis
  proof (cases a)
    case adcsel_vref_hq_buff
    have "succeeds (cm_send e CHARGER_INTERNAL_VCHG_MEASUREMENT (s\<lparr>vchg_monitor_read_pending := False, vref_reading := r\<rparr>))
        (\<lambda>s'. cm_inv s' \<and> woken s s')"
      by (rule succeeds_mono [OF send_measurement(1) [OF read_done_inv(2) [OF assms(2)]]]) (use w in blast)
    then show ?thesis by (simp add: adcsel_vref_hq_buff Charger_VChgMonitorReading_def)
  next
    case adcsel_chg_mon
    have "succeeds (cm_send e CHARGER_INTERNAL_VCHG_MEASUREMENT (?s\<lparr>chg_mon_reading := y\<rparr>))
        (\<lambda>s'. cm_inv s' \<and> woken s s')" for y
      by (rule succeeds_mono [OF send_measurement(1) [OF read_done_inv(3) [OF i]]]) (use w in blast)
    then show ?thesis using i off a by (simp add: adcsel_chg_mon Charger_VChgMonitorReading_def Let_def)
  next
    case adcsel_pmu_vchg_sns
    have "succeeds (do { t \<leftarrow> ChargerDetect_VchgReading e mv (chg_mon_reading ?s) ?s;
           cm_send_later e CHARGER_INTERNAL_VCHG_MEASUREMENT appConfigChargerVchgPollingPeriodMs
             (t\<lparr>chg_mon_reading := CHG_MON_REQUEST_READING\<rparr>) }) (\<lambda>s'. cm_inv s' \<and> woken s s')"
      if on: "vchg_monitor_enabled s" for mv
      unfolding succeeds_simps
    proof (rule succeeds_mono [OF VchgReading_done [OF assms(1) i]])
      fix t assume t: "cm_inv t \<and> steady ?s t \<and> probe_left t < probe_left ?s"
      have "woken s v" if "woken (t\<lparr>chg_mon_reading := CHG_MON_REQUEST_READING\<rparr>) v" for v
        using that t by (simp add: woken_def steady_def)
      then show "succeeds (cm_send_later e CHARGER_INTERNAL_VCHG_MEASUREMENT appConfigChargerVchgPollingPeriodMs
          (t\<lparr>chg_mon_reading := CHG_MON_REQUEST_READING\<rparr>)) (\<lambda>s'. cm_inv s' \<and> woken s s')"
        using t by (intro succeeds_mono [OF send_measurement(2) [OF read_done_inv(3)]]) blast+
    qed (simp add: on)
    then show ?thesis using i off a by (simp add: adcsel_pmu_vchg_sns Charger_VChgMonitorReading_def Let_def)
  qed (use a in simp)
qed


section \<open>Errors and the state of the hardware\<close>

lemma rest_same_inv:
  assumes "cm_inv s" "rest_same s s'" "power_ok s'" "fast_current s' = fast_current s"
    "bit (disable_reason s') 2 = bit (disable_reason s) 2" "bit (disable_reason s') 4 = bit (disable_reason s) 4"
  shows "cm_inv s'" "steady s s'"
proof -
  note d = rest_same_detect_same [OF assms(2)]
  have "base_inv s'" by (rule rest_same_ok(4) [OF assms(2) cm_invD(1) [OF assms(1)] assms(3,5)])
  moreover have "current_ok s'" using current_ok_same [OF d assms(4)] cm_invD(3) [OF assms(1)] by simp
  moreover have "supply_ok s'" using supply_ok_same [OF d] assms(2) cm_invD(4) [OF assms(1)] by (simp add: rest_same_def)
  moreover have "connected_ok s'" using cm_invD(2) [OF assms(1)] assms(2,6) by (simp add: connected_ok_def rest_same_def)
  ultimately show "cm_inv s'" by (simp add: cm_inv_def)
  show "steady s s'" using d by simp
qed

lemma reason_added_inv:
  assumes "env_ok e" "cm_inv s" "r \<noteq> 0" "\<not> bit r 2" "\<not> bit r 3" "\<not> bit r 4" "\<not> bit r 5"
  shows "succeeds (Charger_DisableReasonAdd e r s) (\<lambda>s'. cm_inv s' \<and> steady s s' \<and> disable_reason s' = disable_reason s OR r)"
  by (rule succeeds_mono [OF power_added [OF assms(1) base_invD(1) [OF cm_invD(1) [OF assms(2)]] assms(3,5,7)]])
    (use rest_same_inv [OF assms(2)] assms(4,6) in \<open>simp add: reasons_moved_def bit_or_iff\<close>)

lemma reason_cleared_inv:
  assumes "env_ok e" "cm_inv s" "r \<noteq> 0" "\<not> bit r 2" "\<not> bit r 3" "\<not> bit r 4"
  shows "succeeds (Charger_DisableReasonClear e r s) (\<lambda>s'. cm_inv s' \<and> steady s s' \<and> disable_reason s' = disable_reason s AND NOT r)"
  by (rule succeeds_mono [OF power_cleared [OF assms(1) base_invD(1) [OF cm_invD(1) [OF assms(2)]] assms(3,5)]])
    (use rest_same_inv [OF assms(2)] assms(4,6) in \<open>simp add: reasons_moved_def bit_simps\<close>)

text \<open>After an error the charger is off and exactly one timer is pending that withdraws the reason.\<close>

lemma Error_done:
  assumes "env_ok e" "cm_inv s"
  shows "succeeds (Charger_Error e s) (\<lambda>s'. cm_inv s' \<and> steady s s' \<and> bit (disable_reason s') 2)"
proof -
  have r: "CHARGER_DISABLE_REASON_ERROR \<noteq> 0" "\<not> bit CHARGER_DISABLE_REASON_ERROR 3" "\<not> bit CHARGER_DISABLE_REASON_ERROR 5" by simp_all
  show ?thesis
    unfolding Charger_Error_def succeeds_simps
  proof (rule succeeds_mono [OF power_added [OF assms(1) base_invD(1) [OF cm_invD(1) [OF assms(2)]] r]])
    fix t assume "reasons_moved (disable_reason s OR CHARGER_DISABLE_REASON_ERROR) s t"
    then have t: "power_ok t" "rest_same s t" "disable_reason t = disable_reason s OR CHARGER_DISABLE_REASON_ERROR"
      "fast_current t = fast_current s"
      by (simp_all add: reasons_moved_def)
    have k: "cm_task t \<noteq> INVALIDATED_TASK" using t(1) by (simp add: power_ok_def sw_ok_def)
    show "succeeds (cm_cancel_all CHARGER_INTERNAL_RE_ENABLE_TIMEOUT t) (\<lambda>u. succeeds
        (cm_send_later e CHARGER_INTERNAL_RE_ENABLE_TIMEOUT appConfigChargerReEnableTimeoutMs u)
        (\<lambda>s'. cm_inv s' \<and> steady s s' \<and> bit (disable_reason s') 2))"
    proof (rule cm_cancels [OF k], rule cm_sends [OF not_combinable_charger(2)])
      fix q q'
      assume q: "own_cancelled CHARGER_INTERNAL_RE_ENABLE_TIMEOUT t q"
        and q': "own_sent CHARGER_INTERNAL_RE_ENABLE_TIMEOUT (t\<lparr>cm_vm := q\<rparr>) q'"
      let ?u = "t\<lparr>cm_vm := q, cm_vm := q'\<rparr>"
      have p: "pend ?u CHARGER_INTERNAL_RE_ENABLE_TIMEOUT = 1"
        "pend ?u CHARGER_INTERNAL_VCHG_MEASUREMENT = pend s CHARGER_INTERNAL_VCHG_MEASUREMENT"
        "pend ?u CHARGER_INTERNAL_CHARGE_TIMEOUT \<le> pend s CHARGER_INTERNAL_CHARGE_TIMEOUT"
        using q q' rest_same_pend [OF t(2)] by (simp_all add: own_sent_def own_cancelled_def charger_ids)
      have v: "vchg_ok ?u" "cm_clients_ok ?u"
        using rest_same_ok(1,2) [OF t(2)] base_invD(2,3) [OF cm_invD(1) [OF assms(2)]]
        by (simp_all add: vchg_ok_def limiting_def cm_clients_ok_def)
      have "power_ok ?u" using t(1) by (simp add: power_ok_def sw_ok_def)
      moreover have "timers_ok ?u" using p t(3) base_invD(4) [OF cm_invD(1) [OF assms(2)]] by (simp add: timers_ok_def bit_simps)
      moreover have "charger_config ?u = charger_config s" using t(2) by (simp add: rest_same_def)
      ultimately have b: "base_inv ?u" using v cm_invD(1) [OF assms(2)] by (simp add: base_inv_def)
      have a: "awake ?u = awake s" using p(2) t(2) by (simp add: awake_def rest_same_def)
      have d: "detect_same s ?u" using a rest_same_detect_same [OF t(2)] by (simp add: detect_same_def)
      have "current_ok ?u" using current_ok_same [OF d] t(4) cm_invD(3) [OF assms(2)] by simp
      moreover have "supply_ok ?u" using supply_ok_same [OF d] t(2) cm_invD(4) [OF assms(2)] by (simp add: rest_same_def)
      moreover have "connected_ok ?u" using cm_invD(2) [OF assms(2)] t(2,3) by (simp add: connected_ok_def rest_same_def bit_simps)
      ultimately show "cm_inv ?u \<and> steady s ?u \<and> bit (disable_reason ?u) 2" using b d t(3) by (simp add: cm_inv_def bit_simps)
    qed
  qed
qed

text \<open>A smaller maximum, and the charger switched on again with the current that goes with it.\<close>

lemma out_of_range_done:
  assumes "env_ok e" "cm_inv s"
  shows "succeeds (values_out_of_range e s) (\<lambda>s'. cm_inv s' \<and> steady s s')"
proof (cases "(ucast (fast_current s) :: u16) > appConfigChargerInternalMaxCurrent")
  case False
  then show ?thesis unfolding values_out_of_range_def if_not_P [OF False]
    by (intro succeeds_mono [OF Error_done [OF assms]]) simp
next
  case True
  let ?s = "s\<lparr>max_supported_current := fast_current s - 50\<rparr>"
  have b: "base_inv ?s"
    using cm_invD(1) [OF assms(2)]
    by (simp add: base_inv_def power_ok_def sw_ok_def vchg_ok_def limiting_def cm_clients_ok_def timers_ok_def)
  have c: "connected_ok ?s" "supply_ok ?s" "steady s ?s"
    using cm_invD(2) [OF assms(2)] supply_ok_fields [of ?s s] cm_invD(4) [OF assms(2)]
    by (simp_all add: connected_ok_def steady_def awake_def)
  have "succeeds (Charger_UpdateCurrent e ?s) (\<lambda>t. succeeds (Charger_DisableReasonAdd e CHARGER_DISABLE_REASON_INTERNAL t)
      (\<lambda>u. succeeds (Charger_DisableReasonClear e CHARGER_DISABLE_REASON_INTERNAL u) (\<lambda>s'. cm_inv s' \<and> steady s s')))"
  proof (rule succeeds_mono [OF update_current_cm_inv [OF assms(1) b c(1,2)]], elim conjE)
    fix t assume t: "cm_inv t" "steady ?s t"
    have st: "steady s t" by (rule steady_trans [OF c(3) t(2)])
    have p: "power_ok t" "sw_ok t" using base_invD(1) [OF cm_invD(1) [OF t(1)]] by (simp_all add: power_ok_def)
    show "succeeds (Charger_DisableReasonAdd e CHARGER_DISABLE_REASON_INTERNAL t)
        (\<lambda>u. succeeds (Charger_DisableReasonClear e CHARGER_DISABLE_REASON_INTERNAL u) (\<lambda>s'. cm_inv s' \<and> steady s s'))"
    proof (rule succeeds_mono [OF reason_added [OF assms(1) p(2)]], simp)
      fix u assume u: "reasons_changed (disable_reason t OR CHARGER_DISABLE_REASON_INTERNAL) t u"
      note r = reasons_changedD [OF u]
      have n: "disable_reason u AND NOT CHARGER_DISABLE_REASON_INTERNAL = disable_reason t"
        using r(2) p(1) by (simp add: power_ok_def)
      show "succeeds (Charger_DisableReasonClear e CHARGER_DISABLE_REASON_INTERNAL u) (\<lambda>s'. cm_inv s' \<and> steady s s')"
      proof (rule succeeds_mono [OF reason_cleared [OF assms(1) r(1)]], simp)
        show "\<exists>v. configured CHARGER_FAST_CURRENT (cm_calls u) = Some v \<and> v \<noteq> 0"
          if "disable_reason u AND NOT CHARGER_DISABLE_REASON_INTERNAL = 0"
          using that n p(1) r(6) by (simp add: power_ok_def ucast_wider_0)
        fix v assume v: "reasons_changed (disable_reason u AND NOT CHARGER_DISABLE_REASON_INTERNAL) u v"
        note w = reasons_changedD [OF v]
        have rs: "rest_same t v" by (rule rest_same_trans [OF r(3) w(3)])
        have f: "fast_current v = fast_current t" "disable_reason v = disable_reason t"
          "ext_mode_enabled v = ext_mode_enabled t"
          using r w n by simp_all
        have "configured CHARGER_FAST_CURRENT (cm_calls v) = configured CHARGER_FAST_CURRENT (cm_calls t)"
          using r(6) w(6) by simp
        then have "power_ok v" using p(1) w(1) f rs by (simp add: power_ok_def rest_same_def)
        from rest_same_inv [OF t(1) rs this f(1)] f(2) show "cm_inv v \<and> steady s v" using steady_trans [OF st] by simp
      qed
    qed
  qed
  then show ?thesis unfolding values_out_of_range_def if_P [OF True] succeeds_simps .
qed


text \<open>A notification, the user interface and the timeout do not concern the rest.\<close>

lemma notify_inv:
  assumes "cm_inv s"
  shows "succeeds (Charger_NotifyClients e i s) (\<lambda>s'. cm_inv s' \<and> steady s s')"
proof (rule NotifyClients_done [OF cm_invD(1) [OF assms]])
  fix q assume q: "base_inv (s\<lparr>cm_vm := q\<rparr>)" "posted_data (cm_task s) q = posted_data (cm_task s) (cm_vm s)"
  have "cm_inv (s\<lparr>cm_vm := q\<rparr>)" by (rule cm_inv_fields [OF assms q(1)]) simp_all
  then show "cm_inv (s\<lparr>cm_vm := q\<rparr>) \<and> steady s (s\<lparr>cm_vm := q\<rparr>)" using q(2) by (simp add: steady_def awake_def pending_id_def)
qed

lemma inform_inv:
  assumes "cm_inv s" "\<forall>k v. c \<noteq> Configure k v" "\<forall>a. c \<noteq> Call_AdcReadRequest a"
  shows "cm_inv (cm_log c s)" "steady s (cm_log c s)"
proof -
  have "base_inv (cm_log c s)"
    using cm_invD(1) [OF assms(1)] assms(2,3)
    by (simp add: base_inv_def power_ok_def sw_ok_def vchg_ok_def limiting_def cm_clients_ok_def timers_ok_def cm_log_def)
  then show "cm_inv (cm_log c s)" by (rule cm_inv_fields [OF assms(1)]) (simp_all add: cm_log_def)
  show "steady s (cm_log c s)" by (simp add: steady_def awake_def cm_log_def)
qed

lemma own_queue_inv:
  assumes "cm_inv s" "pending_id (cm_task s) CHARGER_INTERNAL_RE_ENABLE_TIMEOUT q = pend s CHARGER_INTERNAL_RE_ENABLE_TIMEOUT"
    "pending_id (cm_task s) CHARGER_INTERNAL_CHARGE_TIMEOUT q \<le> 1"
  shows "cm_inv (s\<lparr>cm_vm := q\<rparr>)"
proof -
  have "base_inv (s\<lparr>cm_vm := q\<rparr>)"
    using cm_invD(1) [OF assms(1)] assms(2,3)
    by (simp add: base_inv_def power_ok_def sw_ok_def vchg_ok_def limiting_def cm_clients_ok_def timers_ok_def)
  then show ?thesis by (rule cm_inv_fields [OF assms(1)]) simp_all
qed

lemma restart_timeout:
  assumes "cm_inv s"
  shows "succeeds (do { s \<leftarrow> cm_cancel_all CHARGER_INTERNAL_CHARGE_TIMEOUT s;
      if d \<noteq> 0 then cm_send_later e CHARGER_INTERNAL_CHARGE_TIMEOUT d s else Some s }) (\<lambda>s'. cm_inv s' \<and> steady s s'
        \<and> pend s' CHARGER_INTERNAL_CHARGE_TIMEOUT = (if d \<noteq> 0 then 1 else 0))"
  unfolding succeeds_simps(3)
proof (rule cm_cancels [OF base_invD(5) [OF cm_invD(1) [OF assms]]])
  fix q assume q: "own_cancelled CHARGER_INTERNAL_CHARGE_TIMEOUT s q"
  let ?s = "s\<lparr>cm_vm := q\<rparr>"
  have i: "cm_inv ?s" "steady s ?s" "pend ?s CHARGER_INTERNAL_CHARGE_TIMEOUT = 0"
    using q own_queue_inv [OF assms, of q] by (simp_all add: own_cancelled_def charger_ids steady_def awake_def)
  have "succeeds (cm_send_later e CHARGER_INTERNAL_CHARGE_TIMEOUT d ?s) (\<lambda>s'. cm_inv s' \<and> steady s s'
      \<and> pend s' CHARGER_INTERNAL_CHARGE_TIMEOUT = 1)"
  proof (rule cm_sends(2) [OF not_combinable_charger(1)])
    fix q' assume "own_sent CHARGER_INTERNAL_CHARGE_TIMEOUT ?s q'"
    then have p: "pending_id (cm_task s) j q' = (if j = CHARGER_INTERNAL_CHARGE_TIMEOUT then 1 else pend ?s j)" for j
      using i(3) by (simp add: own_sent_def)
    have "cm_inv (?s\<lparr>cm_vm := q'\<rparr>)" by (rule own_queue_inv [OF i(1)]) (simp_all add: p charger_ids)
    moreover have "steady s (?s\<lparr>cm_vm := q'\<rparr>)" using i(2) p by (simp add: steady_def awake_def charger_ids)
    ultimately show "cm_inv (?s\<lparr>cm_vm := q'\<rparr>) \<and> steady s (?s\<lparr>cm_vm := q'\<rparr>) \<and> pend (?s\<lparr>cm_vm := q'\<rparr>) CHARGER_INTERNAL_CHARGE_TIMEOUT = 1"
      using p by simp
  qed
  then show "succeeds (if d \<noteq> 0 then cm_send_later e CHARGER_INTERNAL_CHARGE_TIMEOUT d ?s else Some ?s) (\<lambda>s'. cm_inv s' \<and> steady s s'
        \<and> pend s' CHARGER_INTERNAL_CHARGE_TIMEOUT = (if d \<noteq> 0 then 1 else 0))"
    using i by simp
qed

lemma StatusChanged_done:
  assumes "env_ok e" "cm_inv s"
  shows "succeeds (Charger_StatusChanged e st s) (\<lambda>s'. cm_inv s' \<and> steady s s')"
proof -
  let ?s = "s\<lparr>status := st\<rparr>"
  have b: "base_inv ?s"
    using cm_invD(1) [OF assms(2)]
    by (simp add: base_inv_def power_ok_def sw_ok_def vchg_ok_def limiting_def cm_clients_ok_def timers_ok_def)
  have i: "cm_inv ?s" by (rule cm_inv_fields [OF assms(2) b]) simp_all
  have st: "steady s ?s" by (simp add: steady_def awake_def)
  let ?Q = "\<lambda>s'. cm_inv s' \<and> steady s s'"
  have err: "succeeds (Charger_Error e ?s) ?Q"
    by (rule succeeds_mono [OF Error_done [OF assms(1) i]]) (use steady_trans [OF st] in blast)
  have rng: "succeeds (values_out_of_range e ?s) ?Q"
    by (rule succeeds_mono [OF out_of_range_done [OF assms(1) i]]) (use steady_trans [OF st] in blast)
  have "succeeds (case st of HEADROOM_ERROR \<Rightarrow> Charger_Error e ?s | VBAT_OVERVOLT_ERROR \<Rightarrow> Charger_Error e ?s
      | CONFIG_FAIL_VALUES_OUT_OF_RANGE \<Rightarrow> values_out_of_range e ?s | _ \<Rightarrow> Some ?s) ?Q"
    using err rng i st by (cases st) simp_all
  moreover have "succeeds (Charger_NotifyClients e m t) (\<lambda>u. succeeds (do {
        v \<leftarrow> cm_cancel_all CHARGER_INTERNAL_CHARGE_TIMEOUT (cm_log (Call_Ui_InformContextChange (appChargerCurrentContext u)) u);
        if d \<noteq> 0 then cm_send_later e CHARGER_INTERNAL_CHARGE_TIMEOUT d v else Some v }) ?Q)"
    if t: "?Q t" for t m d
  proof (rule succeeds_mono [OF notify_inv])
    fix u assume u: "cm_inv u \<and> steady t u"
    let ?u = "cm_log (Call_Ui_InformContextChange (appChargerCurrentContext u)) u"
    have "cm_inv ?u" "steady u ?u" using inform_inv [of u] u by simp_all
    then show "succeeds (do { v \<leftarrow> cm_cancel_all CHARGER_INTERNAL_CHARGE_TIMEOUT ?u;
        if d \<noteq> 0 then cm_send_later e CHARGER_INTERNAL_CHARGE_TIMEOUT d v else Some v }) ?Q"
      using t u by (intro succeeds_mono [OF restart_timeout]) (auto dest!: steady_trans [of s t] intro: steady_trans)
  qed (use t in blast)
  ultimately show ?thesis
    unfolding Charger_StatusChanged_def Let_def succeeds_simps(3) by (rule succeeds_mono)
qed

end
