(* ===== verification/ChargerRuns.thy ===== *)
theory ChargerRuns
  imports ChargerInvariant
begin

unbundle bit_operations_syntax

text \<open>
  The charger monitor at work: its message handler, clients and tests keep the invariant (\<open>full_inv\<close>); \<open>charger_step\<close>
  is one step of the component between the rest of the system, \<open>charger_reachable\<close> the states after \<open>Charger_Init\<close>.
  The properties are about these states, and about runs of readings while the charger is probed.
\<close>

section \<open>Messages, clients and tests\<close>

definition full_inv :: "charger_data \<Rightarrow> bool" where "full_inv s = (cm_inv s \<and> awake s)"

text \<open>A step keeps the task and the build, and a monitor awake.\<close>

definition step_ok :: "charger_data \<Rightarrow> charger_data \<Rightarrow> bool" where
  "step_ok s s' = (full_inv s' \<and> cm_task s' = cm_task s \<and> build s' = build s)"

lemma full_invD: "full_inv s \<Longrightarrow> cm_inv s" "full_inv s \<Longrightarrow> awake s"
  by (simp_all add: full_inv_def)

lemma step_okI: "cm_inv s' \<and> steady s s' \<Longrightarrow> awake s \<Longrightarrow> step_ok s s'" "cm_inv s' \<and> woken s s' \<Longrightarrow> step_ok s s'"
  by (simp_all add: step_ok_def full_inv_def steady_def woken_def)

lemma step_ok_trans: "step_ok s s' \<Longrightarrow> step_ok s' s'' \<Longrightarrow> step_ok s s''"
  by (simp add: step_ok_def)

lemma step_ok_refl: "full_inv s \<Longrightarrow> step_ok s s"
  by (simp add: step_ok_def)

lemma steady_step: "full_inv s \<Longrightarrow> succeeds m (\<lambda>s'. cm_inv s' \<and> steady s s') \<Longrightarrow> succeeds m (step_ok s)"
  by (rule succeeds_mono, assumption) (auto intro: step_okI(1) full_invD(2))

lemma charger_firmware_ids:
  "MESSAGE_CHARGER_CHANGED = 0x802D" "MESSAGE_CHARGER_DETECTED = 0x8040" "MESSAGE_CHARGER_STATUS = 0x8041"
  "MESSAGE_CHARGER_ADC_RESULT = 0x8025"
  by (simp_all add: MESSAGE_CHARGER_CHANGED_def MESSAGE_CHARGER_DETECTED_def MESSAGE_CHARGER_STATUS_def
      MESSAGE_CHARGER_ADC_RESULT_def SYSTEM_MESSAGE_BASE_def)

definition own_ids :: "message_id set" where
  "own_ids = {CHARGER_INTERNAL_CHARGE_TIMEOUT, CHARGER_INTERNAL_RE_ENABLE_TIMEOUT, CHARGER_INTERNAL_VCHG_MEASUREMENT}"

text \<open>A message with the contents that belong to it, from the firmware or the USB device; a reading only of the
  conversion that was asked for.\<close>

fun from_firmware :: "message_id \<Rightarrow> charger_message \<Rightarrow> charger_data \<Rightarrow> bool" where
  "from_firmware i (Detected _) s = (i = MESSAGE_CHARGER_DETECTED)"
| "from_firmware i (Changed _) s = (i = MESSAGE_CHARGER_CHANGED)"
| "from_firmware i (Status _) s = (i = MESSAGE_CHARGER_STATUS)"
| "from_firmware i (Adc_result a _) s =
     (i = MESSAGE_CHARGER_ADC_RESULT \<and> vchg_monitor_read_pending s \<and> requested_adc (cm_calls s) = Some a)"
| "from_firmware i No_contents s =
     (i \<notin> own_ids \<union> {MESSAGE_CHARGER_DETECTED, MESSAGE_CHARGER_CHANGED, MESSAGE_CHARGER_STATUS, MESSAGE_CHARGER_ADC_RESULT})"

lemma usb_ids_apart:
  "i \<in> {USB_DEVICE_ENUMERATED, USB_DEVICE_DECONFIGURED, USB_DEVICE_SUSPEND, USB_DEVICE_RESUME} \<Longrightarrow>
    i \<notin> own_ids \<union> {MESSAGE_CHARGER_DETECTED, MESSAGE_CHARGER_CHANGED, MESSAGE_CHARGER_STATUS, MESSAGE_CHARGER_ADC_RESULT}"
  by (auto simp: own_ids_def charger_ids charger_firmware_ids USB_DEVICE_ENUMERATED_def USB_DEVICE_DECONFIGURED_def
      USB_DEVICE_SUSPEND_def USB_DEVICE_RESUME_def MESSAGE_BASE_def MSG_GRP_TO_ID_def MESSAGE_GROUP_def message_groups_def
      domains_message_groups_def)

lemma firmware_message_ok:
  assumes "env_ok e" "full_inv s" "from_firmware i m s"
  shows "succeeds (charger_HandleMessage e i m s) (step_ok s)"
proof -
  note inv = full_invD(1) [OF assms(2)]
  note st = steady_step [OF assms(2)]
  have r: "succeeds (Some s) (step_ok s)" using step_ok_refl [OF assms(2)] by simp
  show ?thesis
  proof (cases m)
    case (Detected d)
    then show ?thesis using assms(3) r st [OF Detected_inv [OF assms(1) inv]]
      by (simp add: charger_HandleMessage_def charger_ids charger_firmware_ids)
  next
    case (Changed b)
    then show ?thesis using assms(3) r st [OF connection_inv [OF assms(1) inv], of b]
      by (simp add: charger_HandleMessage_def charger_ids charger_firmware_ids)
  next
    case (Status c)
    then show ?thesis using assms(3) r st [OF StatusChanged_done [OF assms(1) inv]]
      by (simp add: charger_HandleMessage_def charger_ids charger_firmware_ids)
  next
    case (Adc_result a x)
    have "succeeds (Charger_VChgMonitorReading e a x s) (step_ok s)"
      using assms(3) Adc_result by (intro succeeds_mono [OF Reading_done [OF assms(1) inv]] step_okI(2)) simp_all
    moreover have "i \<notin> {USB_DEVICE_ENUMERATED, USB_DEVICE_DECONFIGURED, USB_DEVICE_SUSPEND, USB_DEVICE_RESUME}"
      using usb_ids_apart [of i] assms(3) Adc_result by auto
    ultimately show ?thesis using assms(3) Adc_result r
      by (simp add: charger_HandleMessage_def charger_ids charger_firmware_ids)
  next
    case No_contents
    then show ?thesis using assms(3) r st [OF UpdateUsbStatus_inv [OF assms(1) inv], of i]
      by (simp add: charger_HandleMessage_def own_ids_def)
  qed
qed

text \<open>The scheduler takes a message of the component out of the queue and hands it over.\<close>

abbreviation cm_with_queue :: "unit msg_queue \<Rightarrow> charger_data \<Rightarrow> charger_data" where
  "cm_with_queue q s \<equiv> s\<lparr>cm_vm := (cm_vm s)\<lparr>vm_message_queue := q\<rparr>\<rparr>"

lemma delivered_ok:
  assumes "env_ok e" "full_inv s" "vm_message_queue (cm_vm s) = q1 @ a # q2" "unicast_to (cm_task s) a" "am_id a \<in> own_ids"
  shows "succeeds (charger_HandleMessage e (am_id a) m (cm_with_queue (q1 @ q2) s))
    (\<lambda>s'. step_ok s s' \<and> (am_id a = CHARGER_INTERNAL_RE_ENABLE_TIMEOUT \<longrightarrow>
        disable_reason s' = disable_reason s AND NOT CHARGER_DISABLE_REASON_ERROR))"
proof -
  note inv = full_invD(1) [OF assms(2)]
  let ?q = "(cm_vm s)\<lparr>vm_message_queue := q1 @ q2\<rparr>"
  have p: "pend s i = (if i = am_id a then Suc (pending_id (cm_task s) i ?q) else pending_id (cm_task s) i ?q)" for i
    by (rule pending_id_taken [OF assms(3,4)])
  have t: "pend s CHARGER_INTERNAL_RE_ENABLE_TIMEOUT = (if bit (disable_reason s) 2 then 1 else 0)"
    "pend s CHARGER_INTERNAL_CHARGE_TIMEOUT \<le> 1"
    using base_invD(4) [OF cm_invD(1) [OF inv]] by (simp_all add: timers_ok_def)
  let ?s = "cm_with_queue (q1 @ q2) s"
  consider "am_id a = CHARGER_INTERNAL_CHARGE_TIMEOUT" | "am_id a = CHARGER_INTERNAL_RE_ENABLE_TIMEOUT"
    | "am_id a = CHARGER_INTERNAL_VCHG_MEASUREMENT"
    using assms(5) by (auto simp: own_ids_def)
  then show ?thesis
  proof cases
    case 1
    have i: "cm_inv ?s" by (rule own_queue_inv [OF inv]) (use p t 1 in \<open>simp_all add: charger_ids\<close>)
    have st: "steady s ?s" using p 1 by (simp add: steady_def awake_def charger_ids)
    have "succeeds (Charger_DisableReasonAdd e CHARGER_DISABLE_REASON_TIMEOUT ?s) (step_ok s)"
      by (rule succeeds_mono [OF reason_added_inv [OF assms(1) i]])
        (auto intro!: step_okI(1) full_invD(2) [OF assms(2)] intro: steady_trans [OF st])
    then show ?thesis using 1 by (simp add: charger_HandleMessage_def charger_ids)
  next
    case 2
    have b: "bit (disable_reason s) 2" "pending_id (cm_task s) CHARGER_INTERNAL_RE_ENABLE_TIMEOUT ?q = 0"
      using p [of "am_id a"] t(1) 2 by (auto split: if_splits)
    have pw: "power_ok ?s" using base_invD(1) [OF cm_invD(1) [OF inv]] by (simp add: power_ok_def sw_ok_def)
    have "succeeds (Charger_DisableReasonClear e CHARGER_DISABLE_REASON_ERROR ?s)
        (\<lambda>s'. step_ok s s' \<and> disable_reason s' = disable_reason s AND NOT CHARGER_DISABLE_REASON_ERROR)"
    proof (rule succeeds_mono [OF power_cleared [OF assms(1) pw]])
      fix s' assume "reasons_moved (disable_reason ?s AND NOT CHARGER_DISABLE_REASON_ERROR) ?s s'"
      then have r: "power_ok s'" "rest_same ?s s'" "disable_reason s' = disable_reason s AND NOT CHARGER_DISABLE_REASON_ERROR"
        "fast_current s' = fast_current s"
        by (simp_all add: reasons_moved_def)
      have pp: "pend s' CHARGER_INTERNAL_RE_ENABLE_TIMEOUT = 0"
        "pend s' CHARGER_INTERNAL_VCHG_MEASUREMENT = pend s CHARGER_INTERNAL_VCHG_MEASUREMENT"
        "pend s' CHARGER_INTERNAL_CHARGE_TIMEOUT \<le> 1"
        using rest_same_pend [OF r(2)] b(2) p t(2) 2 by (simp_all add: charger_ids)
      have c: "vchg_ok s'" "cm_clients_ok s'"
        using rest_same_ok(1,2) [OF r(2)] base_invD(2,3) [OF cm_invD(1) [OF inv]] by (simp_all add: vchg_ok_def limiting_def cm_clients_ok_def)
      have "timers_ok s'" using pp(1,3) r(3) by (simp add: timers_ok_def bit_simps)
      moreover have "charger_config s' = charger_config s" using r(2) by (simp add: rest_same_def)
      ultimately have "base_inv s'" using r(1) c cm_invD(1) [OF inv] by (simp add: base_inv_def)
      then have "cm_inv s'"
        by (rule cm_inv_fields [OF inv]) (use r(2-4) in \<open>simp_all add: rest_same_def bit_simps\<close>)
      moreover have "woken s s'" using pp(2) r(2) full_invD(2) [OF assms(2)] by (simp add: woken_def awake_def rest_same_def)
      ultimately show "step_ok s s' \<and> disable_reason s' = disable_reason s AND NOT CHARGER_DISABLE_REASON_ERROR"
        using r(3) step_okI(2) by simp
    qed simp_all
    then show ?thesis using 2 by (simp add: charger_HandleMessage_def charger_ids)
  next
    case 3
    have i: "cm_inv ?s" by (rule own_queue_inv [OF inv]) (use p t 3 in \<open>simp_all add: charger_ids\<close>)
    have "woken ?s u \<Longrightarrow> woken s u" for u by (simp add: woken_def)
    then have m: "succeeds (Charger_VchgMonitorPeriodic e ?s) (step_ok s)"
      by (intro succeeds_mono [OF Periodic_done [OF i]] step_okI(2)) blast
    have "CHARGER_INTERNAL_VCHG_MEASUREMENT \<notin> {USB_DEVICE_ENUMERATED, USB_DEVICE_DECONFIGURED, USB_DEVICE_SUSPEND, USB_DEVICE_RESUME}"
      using usb_ids_apart [of CHARGER_INTERNAL_VCHG_MEASUREMENT] by (auto simp: own_ids_def)
    moreover have "step_ok s ?s" if "\<not> INCLUDE_CHARGER_DETECT (build s)"
    proof -
      have "\<not> vchg_monitor_enabled s" using that base_invD(2) [OF cm_invD(1) [OF inv]] by (auto simp: vchg_ok_def)
      then show ?thesis using i by (simp add: step_ok_def full_inv_def awake_def)
    qed
    ultimately show ?thesis using m 3 by (simp add: charger_HandleMessage_def charger_ids charger_firmware_ids)
  qed
qed



text \<open>Clients.\<close>

definition client_list :: "charger_data \<Rightarrow> task list" where
  "client_list s = (case charger_client_tasks s of None \<Rightarrow> [] | Some l \<Rightarrow> tl_members l)"

lemma TaskList_Create_empty: "\<exists>l. TaskList_Create = Some l \<and> tl_valid l \<and> tl_members l = []"
proof -
  obtain l where l: "TaskList_Create = Some l" "tl_repr l [] []"
    by (auto simp: TaskList_Create_def TaskList_CreateWithCapacity_def TaskList_InitialiseWithCapacity_def TASK_LIST_MAX_TASKS_def
        TASK_LIST_SIZE_BITS_def taskList_FlexibleSizeSet_def tl_repr_def union_of_def data_of_def)
  then show ?thesis using tl_validI [OF l(2)] tl_members_repr [OF l(2)] by (auto simp: tasks_ok_def)
qed

lemma clients_inv:
  assumes "full_inv s" "tl_valid l" "length (tl_members l) \<le> 14" "cm_task s \<notin> set (tl_members l)"
  shows "full_inv (s\<lparr>charger_client_tasks := Some l\<rparr>)"
proof -
  note inv = full_invD(1) [OF assms(1)]
  have "base_inv (s\<lparr>charger_client_tasks := Some l\<rparr>)"
    using cm_invD(1) [OF inv] assms(2-4)
    by (simp add: base_inv_def power_ok_def sw_ok_def vchg_ok_def limiting_def cm_clients_ok_def timers_ok_def)
  then have "cm_inv (s\<lparr>charger_client_tasks := Some l\<rparr>)" by (rule cm_inv_fields [OF inv]) simp_all
  then show ?thesis using full_invD(2) [OF assms(1)] by (simp add: full_inv_def awake_def)
qed

lemma others_inv:
  assumes "full_inv s" "posted_data (cm_task s) q = posted_data (cm_task s) (cm_vm s)"
  shows "full_inv (s\<lparr>cm_vm := q\<rparr>)"
proof -
  note inv = full_invD(1) [OF assms(1)]
  have p: "pending_id (cm_task s) i q = pend s i" for i by (simp add: pending_id_def assms(2))
  have "pend s CHARGER_INTERNAL_CHARGE_TIMEOUT \<le> 1" using base_invD(4) [OF cm_invD(1) [OF inv]] by (simp add: timers_ok_def)
  then have "cm_inv (s\<lparr>cm_vm := q\<rparr>)" by (intro own_queue_inv [OF inv]) (simp_all add: p)
  then show ?thesis using full_invD(2) [OF assms(1)] by (simp add: full_inv_def awake_def p)
qed

lemma charger_client_ids:
  "\<not> combinable CHARGER_MESSAGE_ATTACHED" "\<not> combinable CHARGER_MESSAGE_DETACHED" "\<not> combinable CHARGER_MESSAGE_COMPLETED"
  "\<not> combinable CHARGER_MESSAGE_CHARGING_OK" "\<not> combinable CHARGER_MESSAGE_CHARGING_LOW"
  "\<not> combinable CHARGER_MESSAGE_DISABLED" "\<not> combinable CHARGER_MESSAGE_ERROR"
  by (simp_all add: combinable_def system_message_ids CHARGER_MESSAGE_ATTACHED_def CHARGER_MESSAGE_DETACHED_def
      CHARGER_MESSAGE_COMPLETED_def CHARGER_MESSAGE_CHARGING_OK_def CHARGER_MESSAGE_CHARGING_LOW_def CHARGER_MESSAGE_DISABLED_def
      CHARGER_MESSAGE_ERROR_def MESSAGE_BASE_def MSG_GRP_TO_ID_def MESSAGE_GROUP_def message_groups_def domains_message_groups_def)

lemma charger_ids_plain: "\<not> combinable (charger_StatusMessageId st)"
  by (cases st) (simp_all add: charger_StatusMessageId_def charger_client_ids)

lemma ClientRegister_ok:
  assumes "full_inv s" "t \<noteq> cm_task s" "t \<noteq> NULL_TASK" "length (client_list s) < 14"
  shows "succeeds (Charger_ClientRegister e t s) (\<lambda>r. step_ok s (snd r) \<and> fst r = (t \<notin> set (client_list s))
    \<and> client_list (snd r) = (if t \<in> set (client_list s) then client_list s else client_list s @ [t])
    \<and> posted_data t (cm_vm (snd r)) = (if t \<in> set (client_list s) then posted_data t (cm_vm s)
        else add_mset (charger_StatusMessageId (status s), None)
          (add_mset (if Charger_IsConnected s then CHARGER_MESSAGE_ATTACHED else CHARGER_MESSAGE_DETACHED, None) (posted_data t (cm_vm s)))))"
    (is "succeeds _ ?Q")
proof -
  note c = base_invD(3) [OF cm_invD(1) [OF full_invD(1) [OF assms(1)]]]
  obtain l where l: "(case charger_client_tasks s of None \<Rightarrow> TaskList_Create | Some l \<Rightarrow> Some l) = Some l"
    "tl_valid l" "tl_members l = client_list s" "cm_task s \<notin> set (tl_members l)"
    using TaskList_Create_empty c by (cases "charger_client_tasks s") (auto simp: client_list_def cm_clients_ok_def)
  show ?thesis
  proof (cases "t \<in> set (client_list s)")
    case True
    then have a: "TaskList_AddTask l t = Some (False, l)" using tl.add_old [OF l(2)] l(3) by simp
    have "full_inv (s\<lparr>charger_client_tasks := Some l\<rparr>)" by (rule clients_inv [OF assms(1) l(2)]) (use l assms(4) in simp_all)
    then show ?thesis using a l True by (simp add: Charger_ClientRegister_def step_ok_def client_list_def)
  next
    case False
    obtain l' where l': "TaskList_AddTask l t = Some (True, l')" "tl_valid l'" "tl_members l' = client_list s @ [t]"
      using tl.add_new [OF l(2) assms(3)] False l(3) assms(4) by auto
    let ?s = "s\<lparr>charger_client_tasks := Some l'\<rparr>"
    let ?i = "if Charger_IsConnected ?s then CHARGER_MESSAGE_ATTACHED else CHARGER_MESSAGE_DETACHED"
    have f: "full_inv ?s" by (rule clients_inv [OF assms(1) l'(2)]) (use l' l assms(2,4) in simp_all)
    have "succeeds (MessageSend (env_now e) t ?i None (cm_vm ?s)) (\<lambda>q. succeeds
        (MessageSend (env_now e) t (charger_StatusMessageId (status ?s)) None q) (\<lambda>q. ?Q (True, ?s\<lparr>cm_vm := q\<rparr>)))"
    proof (rule MessageSend_succeeds)
      fix q assume q: "\<And>u. posted_data u q = (if u = t then add_mset (?i, None) (posted_data u (cm_vm ?s)) else posted_data u (cm_vm ?s))"
      show "succeeds (MessageSend (env_now e) t (charger_StatusMessageId (status ?s)) None q) (\<lambda>q. ?Q (True, ?s\<lparr>cm_vm := q\<rparr>))"
      proof (rule MessageSend_succeeds [OF charger_ids_plain])
        fix q' assume q': "\<And>u. posted_data u q' = (if u = t then add_mset (charger_StatusMessageId (status ?s), None) (posted_data u q)
            else posted_data u q)"
        have "full_inv (?s\<lparr>cm_vm := q'\<rparr>)" by (rule others_inv [OF f]) (use q q' assms(2) in simp)
        then show "?Q (True, ?s\<lparr>cm_vm := q'\<rparr>)"
          using False l'(3) q q' by (simp add: step_ok_def client_list_def Charger_IsConnected_def)
      qed
    qed (simp add: charger_client_ids)
    moreover have "Charger_ClientRegister e t s = do { q \<leftarrow> MessageSend (env_now e) t ?i None (cm_vm ?s);
        q \<leftarrow> MessageSend (env_now e) t (charger_StatusMessageId (status ?s)) None q; Some (True, ?s\<lparr>cm_vm := q\<rparr>) }"
      unfolding Charger_ClientRegister_def l(1) Option.bind.bind_lunit l'(1) prod.case Let_def by simp
    ultimately show ?thesis by (simp only: succeeds_simps)
  qed
qed

lemma ClientUnregister_ok:
  assumes "full_inv s" "charger_client_tasks s \<noteq> None" "t \<noteq> NULL_TASK"
  shows "succeeds (Charger_ClientUnregister t s) (\<lambda>s'. step_ok s s' \<and> client_list s' = remove1 t (client_list s))"
proof -
  obtain l where l: "charger_client_tasks s = Some l" using assms(2) by blast
  have c: "tl_valid l" "length (tl_members l) \<le> 14" "cm_task s \<notin> set (tl_members l)"
    using base_invD(3) [OF cm_invD(1) [OF full_invD(1) [OF assms(1)]]] l by (simp_all add: cm_clients_ok_def)
  obtain b l' where r: "TaskList_RemoveTask l t = Some (b, l')" "tl_valid l'" "tl_members l' = remove1 t (tl_members l)"
    using tl.remove_old [OF c(1), of t] tl.remove_absent [OF c(1) assms(3)] c(1) remove1_idem [of t "tl_members l"]
    by (cases "t \<in> set (tl_members l)") fastforce+
  have "full_inv (s\<lparr>charger_client_tasks := Some l'\<rparr>)"
    by (rule clients_inv [OF assms(1) r(2)])
      (use c r(3) length_remove1 [of t "tl_members l"] set_remove1_subset [of t "tl_members l"] in \<open>auto split: if_splits\<close>)
  then show ?thesis using l r by (simp add: Charger_ClientUnregister_def step_ok_def client_list_def)
qed

text \<open>Test mode.\<close>

lemma test_mode_inv: "full_inv s \<Longrightarrow> full_inv (s\<lparr>test_mode := b\<rparr>)" "full_inv s \<Longrightarrow> full_inv (s\<lparr>test_attached_status := a\<rparr>)"
  "full_inv s \<Longrightarrow> full_inv (s\<lparr>force_allow_power_off := b\<rparr>)"
proof -
  have f: "full_inv s'" if "full_inv s" "base_inv s'" "is_connected s' = is_connected s" "disable_reason s' = disable_reason s"
    "fast_current s' = fast_current s" "max_supported_current s' = max_supported_current s" "build s' = build s"
    "charger_config s' = charger_config s" "usb_suspend s' = usb_suspend s" "usb_enumerated s' = usb_enumerated s"
    "current_limit s' = current_limit s" "power_source_vbat s' = power_source_vbat s" "usb_leds_forced_off s' = usb_leds_forced_off s"
    "awake s' = awake s" for s s'
    using cm_inv_fields [OF full_invD(1) [OF that(1)] that(2)] that by (simp add: full_inv_def)
  have b: "base_inv (s\<lparr>test_mode := b\<rparr>) = base_inv s" "base_inv (s\<lparr>test_attached_status := a\<rparr>) = base_inv s"
    "base_inv (s\<lparr>force_allow_power_off := b\<rparr>) = base_inv s"
    by (simp_all add: base_inv_def power_ok_def sw_ok_def vchg_ok_def limiting_def cm_clients_ok_def timers_ok_def)
  show "full_inv s \<Longrightarrow> full_inv (s\<lparr>test_mode := b\<rparr>)" "full_inv s \<Longrightarrow> full_inv (s\<lparr>test_attached_status := a\<rparr>)"
    "full_inv s \<Longrightarrow> full_inv (s\<lparr>force_allow_power_off := b\<rparr>)"
    by (rule f, assumption, use cm_invD(1) [OF full_invD(1)] in \<open>simp_all add: b awake_def\<close>)+
qed

lemma TestChargerConnected_ok:
  assumes "env_ok e" "full_inv s"
  shows "succeeds (Charger_TestChargerConnected e b s) (step_ok s)"
  using steady_step [OF assms(2) connection_inv [OF assms(1) full_invD(1) [OF assms(2)], of b]] step_ok_refl [OF assms(2)]
  by (simp add: Charger_TestChargerConnected_def)

lemma TestChargerDetected_ok:
  assumes "env_ok e" "full_inv s"
  shows "succeeds (Charger_TestChargerDetected e msg s) (step_ok s)"
proof -
  let ?s = "s\<lparr>test_attached_status := attached_status msg\<rparr>"
  have f: "full_inv ?s" by (rule test_mode_inv(2) [OF assms(2)])
  have "step_ok s ?s" using f by (simp add: step_ok_def)
  moreover have "succeeds (ChargerDetect_Detected e msg ?s) (step_ok s)" if "INCLUDE_CHARGER_DETECT (build s)"
    using that by (intro succeeds_mono [OF steady_step [OF f Detected_inv [OF assms(1) full_invD(1) [OF f]]]] step_ok_trans [OF \<open>step_ok s ?s\<close>]) simp
  ultimately show ?thesis using step_ok_refl [OF assms(2)] by (simp add: Charger_TestChargerDetected_def Let_def)
qed

lemma TestChargerStatus_ok:
  assumes "env_ok e" "full_inv s"
  shows "succeeds (Charger_TestChargerStatus e st s) (step_ok s)"
  using steady_step [OF assms(2) StatusChanged_done [OF assms(1) full_invD(1) [OF assms(2)], of st]] step_ok_refl [OF assms(2)]
  by (simp add: Charger_TestChargerStatus_def)

lemma TestModeControl_ok:
  assumes "env_ok e" "full_inv s"
  shows "succeeds (Charger_TestModeControl e b s) (step_ok s)"
proof -
  have t: "step_ok s (s\<lparr>test_mode := c\<rparr>)" for c using test_mode_inv(1) [OF assms(2)] by (simp add: step_ok_def)
  let ?s = "s\<lparr>test_mode := False\<rparr>"
  have f: "full_inv ?s" by (rule test_mode_inv(1) [OF assms(2)])
  have conn: "succeeds (if INCLUDE_CHARGER_DETECT (build ?s) then ChargerDetect_Changed e c ?s else Charger_UpdateConnected e c ?s)
      (step_ok s)" for c
    by (rule succeeds_mono [OF steady_step [OF f connection_inv [OF assms(1) full_invD(1) [OF f]]]]) (rule step_ok_trans [OF t])
  have det: "succeeds (ChargerDetect_Detected e m u) (step_ok s)" if "step_ok s u" "INCLUDE_CHARGER_DETECT (build s)" for m u
  proof -
    have "full_inv u" "INCLUDE_CHARGER_DETECT (build u)" using that by (simp_all add: step_ok_def)
    then show ?thesis
      by (intro succeeds_mono [OF steady_step [OF _ Detected_inv [OF assms(1) full_invD(1)]]] step_ok_trans [OF that(1)]) simp_all
  qed
  show ?thesis
  proof (cases "b \<or> \<not> test_mode s")
    case True
    then show ?thesis using t step_ok_refl [OF assms(2)] by (auto simp: Charger_TestModeControl_def)
  next
    case False
    have "succeeds (Charger_TestModeControl e b s) (step_ok s) = succeeds
       (if INCLUDE_CHARGER_DETECT (build s) then do {
          s \<leftarrow> ChargerDetect_Changed e (Charger_Status e ?s \<noteq> NO_POWER) ?s;
          ChargerDetect_Detected e \<lparr>attached_status = Charger_AttachedStatus e s, charger_dp_millivolts = 0,
            charger_dm_millivolts = 0, cc_status = CC_CURRENT_DEFAULT\<rparr> s }
        else Charger_UpdateConnected e (Charger_Status e ?s \<noteq> NO_POWER) ?s) (step_ok s)"
      using False by (simp add: Charger_TestModeControl_def Let_def)
    also have "\<dots>"
      using conn [of "Charger_Status e ?s \<noteq> NO_POWER"] det by (auto elim!: succeeds_mono split: if_splits)
    finally show ?thesis .
  qed
qed


section \<open>Start\<close>

text \<open>The state before the component starts: memory is zero.\<close>

definition charger_zeroed :: "charger_data \<Rightarrow> bool" where
  "charger_zeroed s = (cm_task s \<noteq> INVALIDATED_TASK \<and> \<not> is_enabled s \<and> \<not> ext_mode_enabled s \<and> fast_current s = 0
     \<and> \<not> power_source_vbat s \<and> \<not> usb_leds_forced_off s \<and> \<not> vchg_monitor_enabled s \<and> \<not> vchg_monitor_read_pending s
     \<and> disable_reason s = 0 \<and> charger_config s = None \<and> charger_client_tasks s = None \<and> cm_calls s = [] \<and> \<not> test_mode s
     \<and> posted_data (cm_task s) (cm_vm s) = {#})"

lemma cm_log_fields [simp]:
  "cm_task (cm_log c s) = cm_task s" "disable_reason (cm_log c s) = disable_reason s" "fast_current (cm_log c s) = fast_current s"
  "ext_mode_enabled (cm_log c s) = ext_mode_enabled s" "build (cm_log c s) = build s" "is_connected (cm_log c s) = is_connected s"
  "charger_config (cm_log c s) = charger_config s" "cm_vm (cm_log c s) = cm_vm s" "is_enabled (cm_log c s) = is_enabled s"
  "charger_client_tasks (cm_log c s) = charger_client_tasks s" "vchg_monitor_enabled (cm_log c s) = vchg_monitor_enabled s"
  "vchg_monitor_read_pending (cm_log c s) = vchg_monitor_read_pending s" "max_supported_current (cm_log c s) = max_supported_current s"
  by (simp_all add: cm_log_def)

abbreviation "other_setting k \<equiv> k \<notin> {CHARGER_ENABLE, CHARGER_FAST_CURRENT, CHARGER_USE_EXTERNAL_RESISTOR_FOR_FAST_CHARGE}"

lemma log_setting [simp]:
  "other_setting k \<Longrightarrow> sw_ok (cm_log (Configure k v) s) = sw_ok s"
  "rest_same t (cm_log (Configure k v) s) = rest_same t s"
  "other_setting k \<Longrightarrow> configured CHARGER_FAST_CURRENT (cm_calls (cm_log (Configure k v) s)) = configured CHARGER_FAST_CURRENT (cm_calls s)"
  by (simp_all add: cm_log_def sw_ok_def rest_same_def)

lemma ConfigureCharger_done:
  assumes "env_ok e" "sw_ok s" "\<not> bit (disable_reason s) 5" "\<not> ext_mode_enabled s"
  shows "succeeds (charger_ConfigureCharger e s) (\<lambda>s'. power_ok s' \<and> rest_same s s' \<and> fast_current s' = 0
    \<and> (\<forall>n. n \<noteq> 3 \<longrightarrow> bit (disable_reason s') n = bit (disable_reason s) n))"
proof -
  let ?Q = "\<lambda>s'. power_ok s' \<and> rest_same s s' \<and> fast_current s' = 0
    \<and> (\<forall>n. n \<noteq> 3 \<longrightarrow> bit (disable_reason s') n = bit (disable_reason s) n)"
  have p: "power_ok (cm_log (Configure k v) u) = power_ok u" if "other_setting k" for k v u
    using that by (simp add: power_ok_def)
  have d: "?Q u" if "current_set 0 t u" "rest_same s t" "disable_reason t = disable_reason s" "\<not> ext_mode_enabled t" for t u
  proof -
    have r: "rest_same s u" using that rest_same_trans [of s t u] by (simp add: current_set_def)
    have b: "disable_reason u = disable_reason s OR CHARGER_DISABLE_REASON_ZERO_CURRENT" "build u = build t"
      using that(1,3) by (simp_all add: current_set_def rest_same_def)
    have "\<not> bit (disable_reason u) 5" "bit (disable_reason u) 3" using b(1) assms(3) by (simp_all add: bit_or_iff)
    moreover have "sw_ok u" "fast_current u = 0" "configured CHARGER_FAST_CURRENT (cm_calls u) = Some 0" "\<not> ext_mode_enabled u"
      using that(1,4) by (simp_all add: current_set_def given_current_def appConfigChargerInternalMaxCurrent_def split: if_splits)
    ultimately have "power_ok u" by (simp add: power_ok_def)
    moreover have "\<forall>n. n \<noteq> 3 \<longrightarrow> bit (disable_reason u) n = bit (disable_reason s) n" by (simp add: b(1) bit_or_iff)
    moreover have "fast_current u = 0" using that(1) by (simp add: current_set_def given_current_def appConfigChargerInternalMaxCurrent_def)
    ultimately show "?Q u" using r by simp
  qed
  let ?L = "\<lambda>u. cm_log (Configure CHARGER_STATE_CHANGE_DEBOUNCE appConfigChargerStateChangeDebounce)
      (cm_log (Configure CHARGER_STANDBY_FAST_HYSTERESIS appConfigChargerStandbyFastVoltageHysteresis)
        (cm_log (Configure CHARGER_TERM_VOLTAGE (ucast appConfigChargerTerminationVoltage))
          (cm_log (Configure CHARGER_PRE_FAST_THRESHOLD (ucast appConfigChargerPreFastThresholdVoltage)) u)))"
  have c: "succeeds (charger_SetFastCurrent e 0 t) (\<lambda>u. power_ok (?L u) \<and> rest_same s (?L u) \<and> fast_current u = 0
      \<and> (\<forall>n. n \<noteq> 3 \<longrightarrow> bit (disable_reason u) n = bit (disable_reason s) n))"
    if "sw_ok t" "rest_same s t" "disable_reason t = disable_reason s" "\<not> ext_mode_enabled t" for t
    by (rule succeeds_mono [OF SetFastCurrent_done [OF assms(1) that(1)]]) (use that assms(3) d [OF _ that(2-4)] in \<open>simp_all add: p\<close>)
  show ?thesis
    unfolding charger_ConfigureCharger_def configure_accepted [OF assms(1)] succeeds_simps(1,3) succeeds_if
    by (cases "FAST_CHARGE_EXTERNAL_RESISTOR (build s) = 0"; simp only: cm_log_fields; simp only: simp_thms if_True if_False; rule c;
        use assms in simp)
qed

lemma Init_done:
  assumes "env_ok e" "charger_zeroed s"
  shows "succeeds (Charger_Init e s) (\<lambda>s'. full_inv s' \<and> cm_task s' = cm_task s \<and> build s' = build s)"
proof -
  note z = assms(2) [unfolded charger_zeroed_def]
  let ?s = "cm_log (Call_MessageChargerTask (cm_task s)) (s\<lparr>status := ENABLE_FAIL_UNKNOWN, is_connected := CHARGER_CONNECTION_UNKNOWN,
      max_supported_current := appConfigChargerFastCurrent (build s)\<rparr>)"
  define P where "P t = (sw_ok t \<and> disable_reason t = CHARGER_DISABLE_REASON_NOT_CONNECTED \<and> \<not> ext_mode_enabled t \<and> cm_task t = cm_task s
     \<and> build t = build s \<and> is_connected t = CHARGER_CONNECTION_UNKNOWN \<and> \<not> vchg_monitor_enabled t \<and> \<not> vchg_monitor_read_pending t
     \<and> charger_config t = None \<and> charger_client_tasks t = None \<and> (\<forall>i. pend t i = 0))" for t
  have a: "succeeds (Charger_DisableReasonAdd e CHARGER_DISABLE_REASON_NOT_CONNECTED ?s) P"
  proof -
    let ?t = "s\<lparr>status := ENABLE_FAIL_UNKNOWN, is_connected := CHARGER_CONNECTION_UNKNOWN,
      max_supported_current := appConfigChargerFastCurrent (build s),
      cm_calls := [Call_MessageChargerTask (cm_task s), Configure CHARGER_ENABLE 0]\<rparr>"
    have "succeeds (cm_cancel_all CHARGER_INTERNAL_CHARGE_TIMEOUT ?t)
        (\<lambda>t. P (t\<lparr>disable_reason := disable_reason t OR CHARGER_DISABLE_REASON_NOT_CONNECTED\<rparr>))"
    proof (rule cancel_timeout_succeeds)
      fix q assume q: "quiet (cm_task ?t) (cm_vm ?t) q" "pending_id (cm_task ?t) CHARGER_INTERNAL_CHARGE_TIMEOUT q = 0"
      have "pending_id (cm_task s) i q = 0" for i
        using q z by (cases "i = CHARGER_INTERNAL_CHARGE_TIMEOUT") (simp_all add: quiet_def pending_id_def)
      moreover have "log_safe [Call_MessageChargerTask (cm_task s), Configure CHARGER_ENABLE 0]"
        "configured CHARGER_ENABLE [Call_MessageChargerTask (cm_task s), Configure CHARGER_ENABLE 0] = Some 0"
        using log_safe_simps(2) [of "[Call_MessageChargerTask (cm_task s)]"] log_safe_simps(2) [of "[]"]
          configured_simps(2) [of _ "[Call_MessageChargerTask (cm_task s)]"] by simp_all
      ultimately show "P (?t\<lparr>cm_vm := q\<rparr>\<lparr>disable_reason := disable_reason (?t\<lparr>cm_vm := q\<rparr>) OR CHARGER_DISABLE_REASON_NOT_CONNECTED\<rparr>)"
        using z by (simp add: P_def sw_ok_def)
    qed (use z in simp)
    moreover have "?t = (?s\<lparr>is_enabled := False, cm_calls := cm_calls ?s @ [Configure CHARGER_ENABLE 0]\<rparr>)"
      using z by (simp add: cm_log_def)
    ultimately show ?thesis
      using assms(1) z by (simp add: Charger_DisableReasonAdd_def Charger_Disable_def configure_accepted) (simp add: cm_log_def)
  qed
  have b: "succeeds (charger_ConfigureCharger e t) (\<lambda>u. base_inv u \<and> is_connected u = CHARGER_CONNECTION_UNKNOWN
      \<and> fast_current u = 0 \<and> cm_task u = cm_task s \<and> build u = build s \<and> charger_config u = None \<and> awake u)" (is "succeeds _ ?B")
    if P: "P t" for t
  proof (rule succeeds_mono [OF ConfigureCharger_done [OF assms(1)]], goal_cases)
    case (4 u)
    have r: "rest_same t u" "power_ok u" "fast_current u = 0" "\<not> bit (disable_reason u) 2" using 4 P by (simp_all add: P_def)
    have p: "pend u CHARGER_INTERNAL_RE_ENABLE_TIMEOUT = 0" "pend u CHARGER_INTERNAL_CHARGE_TIMEOUT = 0"
      using rest_same_pend(1,3) [OF r(1)] P by (auto simp: P_def)
    have f: "charger_config u = None" "charger_client_tasks u = None" "\<not> vchg_monitor_enabled u" "\<not> vchg_monitor_read_pending u"
      "is_connected u = CHARGER_CONNECTION_UNKNOWN" "cm_task u = cm_task s" "build u = build s"
      using r(1) P by (simp_all add: P_def rest_same_def)
    have "base_inv u" using r p f by (simp add: base_inv_def vchg_ok_def limiting_def cm_clients_ok_def timers_ok_def)
    then show ?case using f r(3) by (simp add: awake_def)
  qed (use P in \<open>simp_all add: P_def\<close>)
  have c: "succeeds (if INCLUDE_CHARGER_DETECT (build u) then ChargerDetect_Init e u
      else Charger_UpdateConnected e (Charger_Status e u \<noteq> NO_POWER) u) (\<lambda>v. full_inv v \<and> cm_task v = cm_task s \<and> build v = build s)"
    if B: "?B u" for u
  proof (cases "INCLUDE_CHARGER_DETECT (build u)")
    case True
    let ?u = "cm_log (Call_UsbDevice_ClientRegister (cm_task u)) u"
    have "base_inv u" "awake u" using B by simp_all
    then have i: "base_inv ?u" "awake ?u"
      by (simp_all add: base_inv_def power_ok_def sw_ok_def vchg_ok_def limiting_def cm_clients_ok_def timers_ok_def
          cm_log_def awake_def)
    have "succeeds (new_config e (ChargerDetect_GetConnectedConfig x) x ?u) (\<lambda>v. cm_inv v \<and> steady ?u v \<and> is_connected v = conn_flag x)" for x
      by (rule new_config_done(1) [OF assms(1) i(1)])
        (use B True GetConnectedConfig_known in \<open>simp_all add: CHARGER_CONNECTION_UNKNOWN_def ChargerDetect_GetConnectedConfig_def\<close>)
    then have "succeeds (ChargerDetect_Changed e x ?u) (\<lambda>v. full_inv (cm_log Call_ChargerMessageRequest v) \<and> cm_task v = cm_task s \<and> build v = build s)" for x
      unfolding ChargerDetect_Changed_def
    proof (rule succeeds_mono, elim conjE)
      fix v assume v: "cm_inv v" "steady ?u v"
      then show "full_inv (cm_log Call_ChargerMessageRequest v) \<and> cm_task v = cm_task s \<and> build v = build s"
        using inform_inv [OF v(1), of Call_ChargerMessageRequest] i(2) B by (simp add: full_inv_def steady_def)
    qed
    then show ?thesis using True by (simp add: ChargerDetect_Init_def Let_def)
  next
    case False
    have i: "base_inv u" "is_connected u \<in> {0, 1} \<longrightarrow> connected_ok u" "current_ok u"
      using B by (simp_all add: CHARGER_CONNECTION_UNKNOWN_def current_ok_def)
    have "succeeds (Charger_UpdateConnected e x u) (\<lambda>v. full_inv v \<and> cm_task v = cm_task s \<and> build v = build s)" for x
    proof (rule succeeds_mono [OF UpdateConnected_done [OF assms(1) i(1,2)]])
      fix v assume v: "connection_updated x u v"
      have "is_connected u \<noteq> conn_flag x" using B by (simp add: CHARGER_CONNECTION_UNKNOWN_def conn_flag_def)
      with v i(3) have "cm_inv v" "detect_same u v" by (simp_all add: connection_updated_def cm_inv_def)
      then show "full_inv v \<and> cm_task v = cm_task s \<and> build v = build s"
        using B by (simp add: full_inv_def detect_same_def)
    qed
    then show ?thesis using False by simp
  qed
  have d: "full_inv (cm_log Call_Ui_RegisterUiProvider v)" if "full_inv v" for v
    using inform_inv [OF full_invD(1) [OF that], of Call_Ui_RegisterUiProvider] full_invD(2) [OF that]
    by (simp add: full_inv_def steady_def)
  have "succeeds (Charger_DisableReasonAdd e CHARGER_DISABLE_REASON_NOT_CONNECTED ?s) (\<lambda>t. succeeds (charger_ConfigureCharger e t)
     (\<lambda>u. succeeds (if INCLUDE_CHARGER_DETECT (build u) then ChargerDetect_Init e u
      else Charger_UpdateConnected e (Charger_Status e u \<noteq> NO_POWER) u)
      (\<lambda>v. full_inv (cm_log Call_Ui_RegisterUiProvider v) \<and> cm_task v = cm_task s \<and> build v = build s)))"
    by (rule succeeds_mono [OF a], rule succeeds_mono [OF b], assumption, rule succeeds_mono [OF c], assumption) (use d in simp)
  then show ?thesis by (simp add: Charger_Init_def Let_def del: succeeds_if)
qed



section \<open>The life of the component\<close>

text \<open>
  One step: the scheduler takes a message of the component out of its queue and hands it over; the firmware, the
  USB device or the ADC sends one; the battery region or the power manager calls in; a client comes or goes; a
  test runs; or the rest of the system uses the queue without the messages of this component. Every step has
  its own answers from outside.
\<close>

inductive charger_step :: "charger_data \<Rightarrow> charger_data \<Rightarrow> bool" where
  deliver: "env_ok e \<Longrightarrow> vm_message_queue (cm_vm s) = q1 @ a # q2 \<Longrightarrow> unicast_to (cm_task s) a \<Longrightarrow> am_id a \<in> own_ids \<Longrightarrow>
    charger_HandleMessage e (am_id a) No_contents (cm_with_queue (q1 @ q2) s) = Some s' \<Longrightarrow> charger_step s s'"
| firmware: "env_ok e \<Longrightarrow> from_firmware i m s \<Longrightarrow> charger_HandleMessage e i m s = Some s' \<Longrightarrow> charger_step s s'"
| region_current: "env_ok e \<Longrightarrow> Charger_UpdateCurrent e s = Some s' \<Longrightarrow> charger_step s s'"
| region_add: "env_ok e \<Longrightarrow> Charger_DisableReasonAdd e CHARGER_DISABLE_REASON_TIMEOUT s = Some s' \<Longrightarrow> charger_step s s'"
| region_clear: "env_ok e \<Longrightarrow> Charger_DisableReasonClear e CHARGER_DISABLE_REASON_TIMEOUT s = Some s' \<Longrightarrow> charger_step s s'"
| force_disable: "env_ok e \<Longrightarrow> Charger_ForceDisable e s = Some s' \<Longrightarrow> charger_step s s'"
| restore: "env_ok e \<Longrightarrow> Charger_RestoreState e s = Some s' \<Longrightarrow> charger_step s s'"
| register: "t \<noteq> cm_task s \<Longrightarrow> t \<noteq> NULL_TASK \<Longrightarrow> length (client_list s) < 14 \<Longrightarrow>
    Charger_ClientRegister e t s = Some r \<Longrightarrow> charger_step s (snd r)"
| unregister: "t \<noteq> NULL_TASK \<Longrightarrow> Charger_ClientUnregister t s = Some s' \<Longrightarrow> charger_step s s'"
| allow_power_off: "charger_step s (Charger_ForceAllowPowerOff b s)"
| test_mode: "env_ok e \<Longrightarrow> Charger_TestModeControl e b s = Some s' \<Longrightarrow> charger_step s s'"
| test_connected: "env_ok e \<Longrightarrow> Charger_TestChargerConnected e b s = Some s' \<Longrightarrow> charger_step s s'"
| test_detected: "env_ok e \<Longrightarrow> Charger_TestChargerDetected e msg s = Some s' \<Longrightarrow> charger_step s s'"
| test_status: "env_ok e \<Longrightarrow> Charger_TestChargerStatus e st s = Some s' \<Longrightarrow> charger_step s s'"
| others: "posted_data (cm_task s) q = posted_data (cm_task s) (cm_vm s) \<Longrightarrow> charger_step s (s\<lparr>cm_vm := q\<rparr>)"

inductive charger_reachable :: "charger_data \<Rightarrow> bool" where
  init: "env_ok e \<Longrightarrow> charger_zeroed s0 \<Longrightarrow> Charger_Init e s0 = Some s \<Longrightarrow> charger_reachable s"
| step: "charger_reachable s \<Longrightarrow> charger_step s s' \<Longrightarrow> charger_reachable s'"

text \<open>The calls from other components.\<close>

lemma region_current_ok:
  assumes "env_ok e" "full_inv s"
  shows "succeeds (Charger_UpdateCurrent e s) (step_ok s)"
proof (rule steady_step [OF assms(2)])
  note inv = cm_invD [OF full_invD(1) [OF assms(2)]]
  show "succeeds (Charger_UpdateCurrent e s) (\<lambda>s'. cm_inv s' \<and> steady s s')"
    by (rule succeeds_mono [OF update_current_cm_inv [OF assms(1) inv(1,2,4)]]) blast
qed

lemma reasons_ok:
  assumes "env_ok e" "full_inv s" "r \<in> {CHARGER_DISABLE_REASON_TIMEOUT, CHARGER_DISABLE_REASON_REQUEST}"
  shows "succeeds (Charger_DisableReasonAdd e r s) (step_ok s)" "succeeds (Charger_DisableReasonClear e r s) (step_ok s)"
proof -
  have r: "r \<noteq> 0" "\<not> bit r 2" "\<not> bit r 3" "\<not> bit r 4" "\<not> bit r 5" using assms(3) by auto
  note inv = full_invD(1) [OF assms(2)]
  show "succeeds (Charger_DisableReasonAdd e r s) (step_ok s)"
    by (rule steady_step [OF assms(2) succeeds_mono [OF reason_added_inv [OF assms(1) inv r]]]) blast
  show "succeeds (Charger_DisableReasonClear e r s) (step_ok s)"
    by (rule steady_step [OF assms(2) succeeds_mono [OF reason_cleared_inv [OF assms(1) inv r(1-4)]]]) blast
qed

lemma charger_step_inv:
  assumes "charger_step s s'" "full_inv s"
  shows "full_inv s'"
proof -
  have "step_ok s s'"
    using assms
  proof cases
    case (deliver e q1 a q2)
    then show ?thesis using succeedsD [OF delivered_ok [OF deliver(1) assms(2) deliver(2-4)] deliver(5)] by blast
  next
    case (firmware e i m)
    then show ?thesis using succeedsD [OF firmware_message_ok [OF firmware(1) assms(2) firmware(2)]] by blast
  next
    case (region_current e)
    then show ?thesis using succeedsD [OF region_current_ok] assms(2) by blast
  next
    case (region_add e)
    then show ?thesis using succeedsD [OF reasons_ok(1)] assms(2) by blast
  next
    case (region_clear e)
    then show ?thesis using succeedsD [OF reasons_ok(2)] assms(2) by blast
  next
    case (force_disable e)
    then show ?thesis using succeedsD [OF reasons_ok(1)] assms(2) by (auto simp: Charger_ForceDisable_def)
  next
    case (restore e)
    then show ?thesis using succeedsD [OF reasons_ok(2)] assms(2) by (auto simp: Charger_RestoreState_def)
  next
    case (register t e r)
    then show ?thesis using succeedsD [OF ClientRegister_ok [OF assms(2) register(2-4)]] by blast
  next
    case (unregister t)
    then have "charger_client_tasks s \<noteq> None" by (auto simp: Charger_ClientUnregister_def bind_eq_Some_conv)
    then show ?thesis using succeedsD [OF ClientUnregister_ok [OF assms(2)]] unregister by blast
  next
    case (allow_power_off b)
    then show ?thesis using test_mode_inv(3) [OF assms(2)] by (simp add: Charger_ForceAllowPowerOff_def step_ok_def)
  next
    case (test_mode e b)
    then show ?thesis using succeedsD [OF TestModeControl_ok] assms(2) by blast
  next
    case (test_connected e b)
    then show ?thesis using succeedsD [OF TestChargerConnected_ok] assms(2) by blast
  next
    case (test_detected e msg)
    then show ?thesis using succeedsD [OF TestChargerDetected_ok] assms(2) by blast
  next
    case (test_status e st)
    then show ?thesis using succeedsD [OF TestChargerStatus_ok] assms(2) by blast
  next
    case (others q)
    then show ?thesis using others_inv [OF assms(2)] by (simp add: step_ok_def)
  qed
  then show ?thesis by (simp add: step_ok_def)
qed

lemma charger_reachable_inv: "charger_reachable s \<Longrightarrow> full_inv s"
proof (induction rule: charger_reachable.induct)
  case (init e s0 s)
  then show ?case using succeedsD [OF Init_done [OF init(1,2)]] by blast
next
  case (step s s')
  then show ?case by (blast intro: charger_step_inv)
qed


section \<open>Requests of other components\<close>

text \<open>
  What the battery region and the power manager rely on: a switch that is off as long as there is any reason, and
  reasons that each of them adds and withdraws on its own.
\<close>

fun requests ::
  "('e \<Rightarrow> 'r \<Rightarrow> 's \<Rightarrow> 's option) \<Rightarrow> ('e \<Rightarrow> 'r \<Rightarrow> 's \<Rightarrow> 's option) \<Rightarrow> ('e \<times> bool \<times> 'r) list \<Rightarrow> 's \<Rightarrow> 's option" where
  "requests add clear [] s = Some s"
| "requests add clear ((e, b, r) # cs) s = (if b then add e r s else clear e r s) \<bind> requests add clear cs"

locale reason_switch =
  fixes inv :: "'s \<Rightarrow> bool" and on :: "'s \<Rightarrow> bool" and reasons :: "'s \<Rightarrow> nat set"
    and add clear :: "'e \<Rightarrow> 'r \<Rightarrow> 's \<Rightarrow> 's option" and bits :: "'r \<Rightarrow> nat set"
    and valid :: "'e \<Rightarrow> bool" and client :: "'r \<Rightarrow> bool"
  assumes on_law: "inv s \<Longrightarrow> on s \<longleftrightarrow> reasons s = {}"
    and add_law: "inv s \<Longrightarrow> valid e \<Longrightarrow> client r \<Longrightarrow> \<exists>s'. add e r s = Some s' \<and> inv s' \<and> reasons s' = reasons s \<union> bits r"
    and clear_law: "inv s \<Longrightarrow> valid e \<Longrightarrow> client r \<Longrightarrow> \<exists>s'. clear e r s = Some s' \<and> inv s' \<and> reasons s' = reasons s - bits r"
begin

lemma requests_keep:
  assumes "inv s" "\<forall>(e, b, r)\<in>set cs. valid e \<and> client r \<and> (b \<or> bits r \<inter> B = {})" "B \<subseteq> reasons s"
  shows "\<exists>s'. requests add clear cs s = Some s' \<and> inv s' \<and> B \<subseteq> reasons s'"
  using assms
proof (induction cs arbitrary: s)
  case (Cons c cs)
  obtain e b r where c: "c = (e, b, r)" by (cases c) auto
  have v: "valid e" "client r" "b \<or> bits r \<inter> B = {}" using Cons.prems(2) c by auto
  have d: "\<not> b \<Longrightarrow> B \<subseteq> reasons s - bits r" using Cons.prems(3) v(3) by blast
  obtain s1 where s1: "(if b then add e r s else clear e r s) = Some s1" "inv s1" "B \<subseteq> reasons s1"
    using add_law [OF Cons.prems(1) v(1,2)] clear_law [OF Cons.prems(1) v(1,2)] Cons.prems(3) d by (cases b) auto
  obtain s2 where "requests add clear cs s1 = Some s2 \<and> inv s2 \<and> B \<subseteq> reasons s2"
    using Cons.IH [OF s1(2) _ s1(3)] Cons.prems(2) by auto
  then show ?case using s1(1) c by auto
qed auto

lemma off_until_withdrawn:
  assumes "inv s" "valid e" "client r" "bits r \<noteq> {}" "add e r s = Some s1"
    and "\<forall>(e, b, r')\<in>set cs. valid e \<and> client r' \<and> (b \<or> bits r' \<inter> bits r = {})"
  shows "\<exists>s2. requests add clear cs s1 = Some s2 \<and> inv s2 \<and> \<not> on s2"
proof -
  have "inv s1" "bits r \<subseteq> reasons s1" using add_law [OF assms(1-3)] assms(5) by auto
  from requests_keep [OF this(1) assms(6) this(2)] show ?thesis using assms(4) on_law by auto
qed

end

abbreviation charger_client :: "u32 \<Rightarrow> bool" where
  "charger_client r \<equiv> r \<in> {CHARGER_DISABLE_REASON_TIMEOUT, CHARGER_DISABLE_REASON_REQUEST}"

abbreviation set_bits_of :: "u32 \<Rightarrow> nat set" where "set_bits_of d \<equiv> {n. bit d n}"

lemma set_bits_of_empty: "set_bits_of d = {} \<longleftrightarrow> d = 0"
  by (auto intro: bit_word_eqI)

lemma charger_reasons_ok:
  assumes "full_inv s" "env_ok e" "charger_client r"
  shows "\<exists>s'. Charger_DisableReasonAdd e r s = Some s' \<and> full_inv s' \<and> disable_reason s' = disable_reason s OR r"
    "\<exists>s'. Charger_DisableReasonClear e r s = Some s' \<and> full_inv s' \<and> disable_reason s' = disable_reason s AND NOT r"
proof -
  have r: "r \<noteq> 0" "\<not> bit r 2" "\<not> bit r 3" "\<not> bit r 4" "\<not> bit r 5" using assms(3) by auto
  note inv = full_invD [OF assms(1)]
  show "\<exists>s'. Charger_DisableReasonAdd e r s = Some s' \<and> full_inv s' \<and> disable_reason s' = disable_reason s OR r"
    using reason_added_inv [OF assms(2) inv(1) r] inv(2) by (auto simp: succeeds_def full_inv_def steady_def)
  show "\<exists>s'. Charger_DisableReasonClear e r s = Some s' \<and> full_inv s' \<and> disable_reason s' = disable_reason s AND NOT r"
    using reason_cleared_inv [OF assms(2) inv(1) r(1-4)] inv(2) by (auto simp: succeeds_def full_inv_def steady_def)
qed

interpretation charger: reason_switch full_inv Charger_IsEnabled "\<lambda>s. set_bits_of (disable_reason s)"
  Charger_DisableReasonAdd Charger_DisableReasonClear set_bits_of env_ok charger_client
proof
  show "Charger_IsEnabled s \<longleftrightarrow> set_bits_of (disable_reason s) = {}" if "full_inv s" for s
    using base_invD(1) [OF cm_invD(1) [OF full_invD(1) [OF that]]]
    by (simp only: set_bits_of_empty) (simp add: power_ok_def sw_ok_def Charger_IsEnabled_def)
  show "\<exists>s'. Charger_DisableReasonAdd e r s = Some s' \<and> full_inv s' \<and> set_bits_of (disable_reason s') = set_bits_of (disable_reason s) \<union> set_bits_of r"
    if "full_inv s" "env_ok e" "charger_client r" for s e r
    using charger_reasons_ok(1) [OF that] by (auto simp: bit_or_iff)
  show "\<exists>s'. Charger_DisableReasonClear e r s = Some s' \<and> full_inv s' \<and> set_bits_of (disable_reason s') = set_bits_of (disable_reason s) - set_bits_of r"
    if "full_inv s" "env_ok e" "charger_client r" for s e r
    using charger_reasons_ok(2) [OF that] by (force simp: bit_simps dest: bit_imp_le_length)
qed

section \<open>Properties\<close>

lemma suspended_current: "ChargerDetect_UsbIsSuspend s \<Longrightarrow> ChargerDetect_Current s = 0"
  by (auto simp: ChargerDetect_UsbIsSuspend_def ChargerDetect_Current_def Let_def)

text \<open>Settings of a charger on the way: the current the hardware was given last.\<close>

lemma hardware_current:
  assumes "full_inv s"
  shows "configured CHARGER_FAST_CURRENT (cm_calls s) = Some (Charger_GetFastCurrent s)"
    "unat (Charger_GetFastCurrent s) \<le> unat (max_supported_current s)"
    "INCLUDE_CHARGER_DETECT (build s) \<Longrightarrow> Charger_GetFastCurrent s \<le> ChargerDetect_Current s"
    "if FAST_CHARGE_EXTERNAL_RESISTOR (build s) = 0 then unat (Charger_GetFastCurrent s) \<le> 200
     else (ext_mode_enabled s \<longleftrightarrow> unat (Charger_GetFastCurrent s) > 200)"
    "is_enabled s \<Longrightarrow> Charger_IsConnected s \<and> Charger_GetFastCurrent s \<noteq> 0"
proof -
  note inv = cm_invD [OF full_invD(1) [OF assms]]
  have p: "power_ok s" by (rule base_invD(1) [OF inv(1)])
  then show "configured CHARGER_FAST_CURRENT (cm_calls s) = Some (Charger_GetFastCurrent s)"
    "if FAST_CHARGE_EXTERNAL_RESISTOR (build s) = 0 then unat (Charger_GetFastCurrent s) \<le> 200
     else (ext_mode_enabled s \<longleftrightarrow> unat (Charger_GetFastCurrent s) > 200)"
    by (simp_all add: power_ok_def Charger_GetFastCurrent_def)
  show "unat (Charger_GetFastCurrent s) \<le> unat (max_supported_current s)"
    "INCLUDE_CHARGER_DETECT (build s) \<Longrightarrow> Charger_GetFastCurrent s \<le> ChargerDetect_Current s"
    using inv(3) by (simp_all add: current_ok_def Charger_GetFastCurrent_def word_le_nat_alt)
  show "Charger_IsConnected s \<and> Charger_GetFastCurrent s \<noteq> 0" if "is_enabled s"
  proof -
    have "disable_reason s = 0" using p that by (simp add: power_ok_def sw_ok_def)
    then show ?thesis
      using p inv(2) by (simp add: power_ok_def connected_ok_def Charger_IsConnected_def Charger_GetFastCurrent_def ucast_wider_0)
  qed
qed

text \<open>
  C20: The charger is on exactly while there is no reason against it, and the hardware was told so. The hardware
  was told the fast current of the state; it is never above the maximum that was found to be supported, never
  above what the attached charger can give (where it is detected), never above what the internal mode can give,
  and the external mode is used exactly when that needs it. The charger is on only when one is connected and
  with a current above zero; no setting was ever changed that must not be changed while charging. The chip runs
  from the battery when no charger is connected or the USB host suspended it, and then it does not charge.
\<close>
theorem charger_switch_sound:
  assumes "charger_reachable s"
  shows "(Charger_IsEnabled s \<longleftrightarrow> disable_reason s = 0)
    \<and> configured CHARGER_ENABLE (cm_calls s) = Some (if Charger_IsEnabled s then 1 else 0)
    \<and> configured CHARGER_FAST_CURRENT (cm_calls s) = Some (Charger_GetFastCurrent s)
    \<and> unat (Charger_GetFastCurrent s) \<le> unat (max_supported_current s)
    \<and> (INCLUDE_CHARGER_DETECT (build s) \<longrightarrow> Charger_GetFastCurrent s \<le> ChargerDetect_Current s)
    \<and> (if FAST_CHARGE_EXTERNAL_RESISTOR (build s) = 0 then unat (Charger_GetFastCurrent s) \<le> 200
       else (ext_mode_enabled s \<longleftrightarrow> unat (Charger_GetFastCurrent s) > 200))
    \<and> (Charger_IsEnabled s \<longrightarrow> Charger_IsConnected s \<and> Charger_GetFastCurrent s \<noteq> 0)
    \<and> log_safe (cm_calls s)
    \<and> (power_source_vbat s \<longleftrightarrow> \<not> Charger_IsConnected s \<or> INCLUDE_CHARGER_DETECT (build s) \<and> ChargerDetect_UsbIsSuspend s)
    \<and> (power_source_vbat s \<longrightarrow> \<not> Charger_IsEnabled s)"
proof -
  have f: "full_inv s" by (rule charger_reachable_inv [OF assms])
  note inv = cm_invD [OF full_invD(1) [OF f]]
  note hw = hardware_current [OF f]
  have sw: "Charger_IsEnabled s \<longleftrightarrow> disable_reason s = 0"
    "configured CHARGER_ENABLE (cm_calls s) = Some (if Charger_IsEnabled s then 1 else 0)" "log_safe (cm_calls s)"
    using base_invD(1) [OF inv(1)] by (simp_all add: power_ok_def sw_ok_def Charger_IsEnabled_def)
  have v: "power_source_vbat s \<longleftrightarrow> \<not> Charger_IsConnected s \<or> INCLUDE_CHARGER_DETECT (build s) \<and> ChargerDetect_UsbIsSuspend s"
    using inv(4) by (simp add: supply_ok_def Charger_IsConnected_def)
  have d: "INCLUDE_CHARGER_DETECT (build s) \<longrightarrow> Charger_GetFastCurrent s \<le> ChargerDetect_Current s"
    "Charger_IsEnabled s \<longrightarrow> Charger_IsConnected s \<and> Charger_GetFastCurrent s \<noteq> 0"
    using hw(3,5) by (simp_all add: Charger_IsEnabled_def)
  then have "power_source_vbat s \<longrightarrow> \<not> Charger_IsEnabled s"
    using v suspended_current [of s] by auto
  with sw v d hw(1,2,4) show ?thesis by (intro conjI)
qed


text \<open>
  C22: An error does not disable the charger for ever: while it is a reason, exactly one message is pending that
  withdraws it, and when the scheduler delivers it the handler succeeds, the reason is gone and all others are
  as they were; if it was the only one the charger is on again.
\<close>
theorem charger_error_recovers:
  assumes "charger_reachable s" "bit (disable_reason s) 2"
  shows "\<not> Charger_IsEnabled s \<and> pending_id (cm_task s) CHARGER_INTERNAL_RE_ENABLE_TIMEOUT (cm_vm s) = 1
    \<and> (\<forall>e q1 a q2. env_ok e \<and> vm_message_queue (cm_vm s) = q1 @ a # q2 \<and> unicast_to (cm_task s) a
          \<and> am_id a = CHARGER_INTERNAL_RE_ENABLE_TIMEOUT \<longrightarrow>
        (\<exists>s'. charger_HandleMessage e (am_id a) No_contents (cm_with_queue (q1 @ q2) s) = Some s'
           \<and> charger_reachable s' \<and> disable_reason s' = disable_reason s AND NOT CHARGER_DISABLE_REASON_ERROR
           \<and> pending_id (cm_task s) CHARGER_INTERNAL_RE_ENABLE_TIMEOUT (cm_vm s') = 0
           \<and> (disable_reason s = CHARGER_DISABLE_REASON_ERROR \<longrightarrow> Charger_IsEnabled s')))"
proof -
  have f: "full_inv s" by (rule charger_reachable_inv [OF assms(1)])
  note b = base_invD [OF cm_invD(1) [OF full_invD(1) [OF f]]]
  have n: "disable_reason s \<noteq> 0" by (rule reason_nonzero [OF assms(2)])
  have "\<exists>s'. charger_HandleMessage e (am_id a) No_contents (cm_with_queue (q1 @ q2) s) = Some s'
           \<and> charger_reachable s' \<and> disable_reason s' = disable_reason s AND NOT CHARGER_DISABLE_REASON_ERROR
           \<and> pending_id (cm_task s) CHARGER_INTERNAL_RE_ENABLE_TIMEOUT (cm_vm s') = 0
           \<and> (disable_reason s = CHARGER_DISABLE_REASON_ERROR \<longrightarrow> Charger_IsEnabled s')"
    if *: "env_ok e" "vm_message_queue (cm_vm s) = q1 @ a # q2" "unicast_to (cm_task s) a" "am_id a = CHARGER_INTERNAL_RE_ENABLE_TIMEOUT"
    for e q1 a q2
  proof -
    have o: "am_id a \<in> own_ids" using *(4) by (simp add: own_ids_def)
    obtain s' where s': "charger_HandleMessage e (am_id a) No_contents (cm_with_queue (q1 @ q2) s) = Some s'" "step_ok s s'"
      "disable_reason s' = disable_reason s AND NOT CHARGER_DISABLE_REASON_ERROR"
      using delivered_ok [OF *(1) f *(2,3) o, of No_contents] *(4) by (auto simp: succeeds_def)
    have "charger_reachable s'" by (rule charger_reachable.step [OF assms(1) charger_step.deliver [OF *(1-3) o s'(1)]])
    moreover have "timers_ok s'" "sw_ok s'" "cm_task s' = cm_task s"
      using s'(2) base_invD(1,4) [OF cm_invD(1) [OF full_invD(1)], of s'] by (simp_all add: step_ok_def power_ok_def)
    ultimately show ?thesis using s'(1,3) by (auto simp: timers_ok_def sw_ok_def Charger_IsEnabled_def bit_simps)
  qed
  then show ?thesis using n assms(2) b(1,4) by (simp add: power_ok_def sw_ok_def timers_ok_def Charger_IsEnabled_def)
qed

text \<open>A run of readings of the input voltage, each with its answers from outside, while the monitor is on.\<close>

fun probe :: "(charger_env \<times> u16 \<times> u16) list \<Rightarrow> charger_data \<Rightarrow> charger_data option" where
  "probe [] s = Some s"
| "probe ((e, voltage, mA) # rs) s =
     (if vchg_monitor_enabled s then ChargerDetect_VchgReading e voltage mA s \<bind> probe rs else Some s)"

lemma probe_steps:
  assumes "cm_inv s" "\<forall>r\<in>set rs. env_ok (fst r)"
  shows "succeeds (probe rs s) (\<lambda>s'. cm_inv s' \<and> probe_left s' \<le> probe_left s - length rs)"
  using assms
proof (induction rs s rule: probe.induct)
  case (2 e v m rs s)
  show ?case
  proof (cases "vchg_monitor_enabled s")
    case True
    have e: "env_ok e" using 2(3) by simp
    obtain t where t: "ChargerDetect_VchgReading e v m s = Some t" "cm_inv t" "probe_left t < probe_left s"
      using VchgReading_done [OF e 2(2) True, of v m] by (auto simp: succeeds_def)
    have "succeeds (probe rs t) (\<lambda>s'. cm_inv s' \<and> probe_left s' \<le> probe_left t - length rs)"
      using 2(1) [OF True t(1,2)] 2(3) by simp
    then have "succeeds (probe rs t) (\<lambda>s'. cm_inv s' \<and> probe_left s' \<le> probe_left s - length ((e, v, m) # rs))"
      by (rule succeeds_mono) (use t(3) in auto)
    with t(1) have "succeeds (probe ((e, v, m) # rs) s) (\<lambda>s'. cm_inv s' \<and> probe_left s' \<le> probe_left s - length ((e, v, m) # rs))"
      using True by (simp add: succeeds_def)
    then show ?thesis using True by simp
  next
    case False
    then show ?thesis using 2(2) by (simp add: probe_left_def)
  qed
qed simp

text \<open>
  C23: Probing ends: whatever the readings of the input voltage and of the charging current are, at the latest
  the 202nd stops the monitor, no operation on the way fails, and the limit is then one the charger can be
  operated with.
\<close>
theorem probing_stops:
  assumes "charger_reachable s" "\<forall>r\<in>set rs. env_ok (fst r)" "202 \<le> length rs"
  shows "\<exists>s'. probe rs s = Some s' \<and> \<not> vchg_monitor_enabled s'
    \<and> (limiting s' \<longrightarrow> 500 \<le> unat (current_limit s') \<and> unat (current_limit s') \<le> 1500)"
proof -
  have inv: "cm_inv s" by (rule full_invD(1) [OF charger_reachable_inv [OF assms(1)]])
  have "probe_left s \<le> 202"
  proof (cases "vchg_monitor_enabled s")
    case True
    then show ?thesis using probing_limit(4) [OF inv] by (auto simp: probe_left_def)
  qed (simp add: probe_left_def)
  moreover obtain s' where s': "probe rs s = Some s'" "cm_inv s'" "probe_left s' \<le> probe_left s - length rs"
    using probe_steps [OF inv assms(2)] by (auto simp: succeeds_def)
  ultimately have "probe_left s' = 0" using assms(3) by simp
  then have "\<not> vchg_monitor_enabled s'" by (simp add: probe_left_def split: if_splits)
  then show ?thesis using s' base_invD(2) [OF cm_invD(1) [OF s'(2)]] by (auto simp: vchg_ok_def)
qed

text \<open>The battery region adds and withdraws its reason.\<close>

abbreviation region_requests :: "(charger_env \<times> bool) list \<Rightarrow> charger_data \<Rightarrow> charger_data option" where
  "region_requests cs \<equiv> requests Charger_DisableReasonAdd Charger_DisableReasonClear
     (map (\<lambda>(e, b). (e, b, CHARGER_DISABLE_REASON_TIMEOUT)) cs)"

text \<open>
  C24: The power manager's request to disable the charger holds: \<open>Charger_ForceDisable\<close> never fails, and whatever the
  battery region adds and withdraws afterwards, the charger is off until \<open>Charger_RestoreState\<close>; that never fails
  either, removes exactly this reason, and the charger is on again exactly if no other is left.
\<close>
theorem force_disable_holds:
  assumes "charger_reachable s" "env_ok e" "\<forall>c\<in>set cs. env_ok (fst c)"
  shows "\<exists>s1 s2. Charger_ForceDisable e s = Some s1 \<and> region_requests cs s1 = Some s2 \<and> \<not> Charger_IsEnabled s2
    \<and> (\<forall>e'. env_ok e' \<longrightarrow> (\<exists>s3. Charger_RestoreState e' s2 = Some s3
         \<and> disable_reason s3 = disable_reason s2 AND NOT CHARGER_DISABLE_REASON_REQUEST
         \<and> (Charger_IsEnabled s3 \<longleftrightarrow> disable_reason s3 = 0)))"
proof -
  have f: "full_inv s" by (rule charger_reachable_inv [OF assms(1)])
  obtain s1 where s1: "Charger_ForceDisable e s = Some s1"
    using charger_reasons_ok(1) [OF f assms(2), of CHARGER_DISABLE_REASON_REQUEST] by (auto simp: Charger_ForceDisable_def)
  have d: "set_bits_of CHARGER_DISABLE_REASON_TIMEOUT \<inter> set_bits_of CHARGER_DISABLE_REASON_REQUEST = {}"
    "set_bits_of CHARGER_DISABLE_REASON_REQUEST \<noteq> {}" by auto
  have a: "Charger_DisableReasonAdd e CHARGER_DISABLE_REASON_REQUEST s = Some s1" using s1 by (simp add: Charger_ForceDisable_def)
  obtain s2 where s2: "region_requests cs s1 = Some s2" "full_inv s2" "\<not> Charger_IsEnabled s2"
    using charger.off_until_withdrawn [OF f assms(2) _ d(2) a, of "map (\<lambda>(e, b). (e, b, CHARGER_DISABLE_REASON_TIMEOUT)) cs"]
      assms(3) d(1) by force
  have "\<exists>s3. Charger_RestoreState e' s2 = Some s3 \<and> disable_reason s3 = disable_reason s2 AND NOT CHARGER_DISABLE_REASON_REQUEST
      \<and> (Charger_IsEnabled s3 \<longleftrightarrow> disable_reason s3 = 0)" if e': "env_ok e'" for e'
  proof -
    obtain s3 where s3: "Charger_DisableReasonClear e' CHARGER_DISABLE_REASON_REQUEST s2 = Some s3" "full_inv s3"
      "disable_reason s3 = disable_reason s2 AND NOT CHARGER_DISABLE_REASON_REQUEST"
      using charger_reasons_ok(2) [OF s2(2) e', of CHARGER_DISABLE_REASON_REQUEST] by auto
    then show ?thesis using charger.on_law [OF s3(2)] set_bits_of_empty by (auto simp: Charger_RestoreState_def)
  qed
  with s1 s2 show ?thesis by blast
qed

section \<open>Examples\<close>

text \<open>A build with detection and the external mode; a charger is connected at the start and then found to be a dedicated one.\<close>

definition demo_charger_build :: charger_build where
  "demo_charger_build = \<lparr>INCLUDE_CHARGER_DETECT = True, FAST_CHARGE_EXTERNAL_RESISTOR = 220, FAST_CHARGE_CURRENT = 1000,
     CF133_BATT = True, QCC3020_FF_ENTRY_LEVEL_AA = False, HAVE_RDP_HW = False\<rparr>"

definition demo_charger_env :: charger_env where
  "demo_charger_env = \<lparr>env_now = 0, env_region_current = 500, env_configure = (\<lambda>_ _. True), env_usb_suspended = False,
     env_adc_accepts = True, env_vref_constant = 1000, env_charger_status = FAST_CHARGE, env_attached_status = DEDICATED_CHARGER\<rparr>"

definition demo_charger :: charger_data where
  "demo_charger = \<lparr>cm_task = 9, is_connected = 0, is_enabled = False, force_allow_power_off = False, test_mode = False,
     ext_mode_enabled = False, fast_current = 0, max_supported_current = 0, power_source_vbat = False, usb_enumerated = False,
     usb_suspend = False, usb_leds_forced_off = False, vchg_monitor_enabled = False, vchg_monitor_read_pending = False,
     current_limit_detected = False, current_increasing = False, current_limit = 0, vref_reading = 0, chg_mon_reading = 0,
     status = NO_POWER, test_attached_status = DETACHED, disable_reason = 0, charger_config = None, charger_client_tasks = None,
     build = demo_charger_build, cm_vm = \<lparr>vm_message_queue = [], vm_delivered_messages = [],
       sched_event_pending = False, put_message_ok = True, registered_hdlrs = [], sink_source_hdlrs = [], run_timer = None\<rparr>, cm_calls = []\<rparr>"

definition demo_dedicated :: MessageChargerDetected where
  "demo_dedicated = \<lparr>attached_status = DEDICATED_CHARGER, charger_dp_millivolts = 600, charger_dm_millivolts = 600,
     cc_status = CC_CURRENT_DEFAULT\<rparr>"

definition demo_charging :: "charger_data option" where
  "demo_charging = Charger_Init demo_charger_env demo_charger
     \<bind> charger_HandleMessage demo_charger_env MESSAGE_CHARGER_DETECTED (Detected demo_dedicated)"

definition demo_error :: "charger_data option" where
  "demo_error = demo_charging
     \<bind> charger_HandleMessage demo_charger_env MESSAGE_CHARGER_STATUS (Status HEADROOM_ERROR)"

definition shown :: "(charger_data \<Rightarrow> bool) \<Rightarrow> charger_data option \<Rightarrow> bool" where
  "shown P m = (case m of None \<Rightarrow> False | Some s \<Rightarrow> P s)"

lemma shownI: "m = Some s \<Longrightarrow> P s \<Longrightarrow> shown P m"
  by (simp add: shown_def)

lemma shownD: "shown P m \<Longrightarrow> m = Some s \<Longrightarrow> P s"
  by (simp add: shown_def)

lemma shownE: "shown P m \<Longrightarrow> (\<And>s. m = Some s \<Longrightarrow> P s \<Longrightarrow> R) \<Longrightarrow> R"
  by (auto simp: shown_def split: option.splits)

declare cancel_all_loop.simps [code]

lemma demo_values:
  "shown (\<lambda>s. is_enabled s \<and> fast_current s = 500 \<and> vchg_monitor_enabled s) demo_charging"
  "shown (\<lambda>s. bit (disable_reason s) 2 \<and> disable_reason s AND NOT CHARGER_DISABLE_REASON_ERROR = 0
     \<and> map (\<lambda>a. (am_t a, am_id a)) (vm_message_queue (cm_vm s))
       = [(Unicast 9, CHARGER_INTERNAL_VCHG_MEASUREMENT), (Unicast 9, CHARGER_INTERNAL_RE_ENABLE_TIMEOUT)]
     \<and> cm_task s = 9) demo_error"
  by code_simp+

lemma demo_env_ok: "env_ok demo_charger_env"
  by (simp add: env_ok_def demo_charger_env_def)

lemma demo_charging_reachable: "demo_charging = Some s \<Longrightarrow> charger_reachable s"
  unfolding demo_charging_def bind_eq_Some_conv
  by (elim exE conjE, rule charger_reachable.step [OF charger_reachable.init [OF demo_env_ok]], simp_all add: charger_zeroed_def
      demo_charger_def posted_data_def pending_of_def INVALIDATED_TASK_def)
    (rule charger_step.firmware [OF demo_env_ok], simp_all)

lemma demo_error_reachable: "demo_error = Some s \<Longrightarrow> charger_reachable s"
  unfolding demo_error_def bind_eq_Some_conv
  by (elim exE conjE, rule charger_reachable.step [OF demo_charging_reachable], assumption)
    (rule charger_step.firmware [OF demo_env_ok], simp_all)

theorem charger_switch_sound_witness:
  "shown (\<lambda>s. charger_reachable s \<and> Charger_IsEnabled s \<and> configured CHARGER_ENABLE (cm_calls s) = Some 1
     \<and> configured CHARGER_FAST_CURRENT (cm_calls s) = Some 500 \<and> ext_mode_enabled s \<and> Charger_IsConnected s
     \<and> \<not> power_source_vbat s) demo_charging"
proof (rule shownE [OF demo_values(1)])
  fix s assume s: "demo_charging = Some s" "is_enabled s \<and> fast_current s = 500 \<and> vchg_monitor_enabled s"
  have r: "charger_reachable s" by (rule demo_charging_reachable [OF s(1)])
  have c: "Charger_GetFastCurrent s = 500" using s(2) by (simp add: Charger_GetFastCurrent_def)
  have b: "FAST_CHARGE_EXTERNAL_RESISTOR (build s) \<noteq> 0"
  proof -
    have "shown (\<lambda>s. FAST_CHARGE_EXTERNAL_RESISTOR (build s) = 220) demo_charging" by code_simp
    from shownD [OF this s(1)] show ?thesis by simp
  qed
  show ?thesis using charger_switch_sound [OF r] c b s(2) r by (intro shownI [OF s(1)]) (auto simp: Charger_IsEnabled_def)
qed


theorem charger_error_recovers_witness:
  "shown (\<lambda>s. charger_reachable s \<and> \<not> Charger_IsEnabled s \<and> (\<exists>a b s'. vm_message_queue (cm_vm s) = [a, b]
     \<and> charger_HandleMessage demo_charger_env (am_id b) No_contents (cm_with_queue [a] s) = Some s' \<and> charger_reachable s'
     \<and> Charger_IsEnabled s')) demo_error"
proof (rule shownE [OF demo_values(2)], elim conjE)
  fix s
  assume s: "demo_error = Some s" "bit (disable_reason s) 2" "disable_reason s AND NOT CHARGER_DISABLE_REASON_ERROR = 0"
    "map (\<lambda>a. (am_t a, am_id a)) (vm_message_queue (cm_vm s))
       = [(Unicast 9, CHARGER_INTERNAL_VCHG_MEASUREMENT), (Unicast 9, CHARGER_INTERNAL_RE_ENABLE_TIMEOUT)]" "cm_task s = 9"
  have r: "charger_reachable s" by (rule demo_error_reachable [OF s(1)])
  from s(4) obtain a b where q: "vm_message_queue (cm_vm s) = [a, b]" "am_t b = Unicast 9" "am_id b = CHARGER_INTERNAL_RE_ENABLE_TIMEOUT"
    by (auto simp: map_eq_Cons_conv)
  have "disable_reason s = CHARGER_DISABLE_REASON_ERROR"
  proof (rule bit_word_eqI)
    fix n assume "n < LENGTH(32)"
    then have "\<not> bit (disable_reason s AND NOT CHARGER_DISABLE_REASON_ERROR) n" by (simp add: s(3))
    then show "bit (disable_reason s) n = bit CHARGER_DISABLE_REASON_ERROR n" using s(2) \<open>n < LENGTH(32)\<close> by (auto simp: bit_simps)
  qed
  moreover have "vm_message_queue (cm_vm s) = [a] @ b # []" "unicast_to (cm_task s) b" using q s(5) by (simp_all add: unicast_to_def)
  ultimately obtain s' where "charger_HandleMessage demo_charger_env (am_id b) No_contents (cm_with_queue ([a] @ []) s) = Some s'"
    "charger_reachable s'" "Charger_IsEnabled s'"
    using charger_error_recovers [OF r s(2)] demo_env_ok q(3) by blast
  then show ?thesis using charger_error_recovers [OF r s(2)] r q(1) by (intro shownI [OF s(1)]) auto
qed

theorem probing_stops_witness:
  "shown (\<lambda>s. vchg_monitor_enabled s \<and> (\<exists>s'. probe (replicate 202 (demo_charger_env, 5000, 500)) s = Some s'
     \<and> \<not> vchg_monitor_enabled s')) demo_charging"
proof (rule shownE [OF demo_values(1)])
  fix s assume s: "demo_charging = Some s" "is_enabled s \<and> fast_current s = 500 \<and> vchg_monitor_enabled s"
  have "\<forall>r\<in>set (replicate 202 (demo_charger_env, 5000 :: u16, 500 :: u16)). env_ok (fst r)" by (simp add: demo_env_ok)
  from probing_stops [OF demo_charging_reachable [OF s(1)] this] show ?thesis using s(2) by (intro shownI [OF s(1)]) auto
qed

theorem force_disable_holds_witness:
  "shown (\<lambda>s. Charger_IsEnabled s \<and> (\<exists>s1 s2. Charger_ForceDisable demo_charger_env s = Some s1
     \<and> region_requests [(demo_charger_env, True), (demo_charger_env, False)] s1 = Some s2 \<and> \<not> Charger_IsEnabled s2)) demo_charging"
proof (rule shownE [OF demo_values(1)])
  fix s assume s: "demo_charging = Some s" "is_enabled s \<and> fast_current s = 500 \<and> vchg_monitor_enabled s"
  have "\<forall>c\<in>set [(demo_charger_env, True), (demo_charger_env, False)]. env_ok (fst c)" by (simp add: demo_env_ok)
  from force_disable_holds [OF demo_charging_reachable [OF s(1)] demo_env_ok this] show ?thesis
    using s(2) by (intro shownI [OF s(1)]) (auto simp: Charger_IsEnabled_def)
qed

end
