(* ===== verification/PhyState.thy ===== *)
theory PhyState
  imports ChargerMonitor
begin

unbundle bit_operations_syntax

text \<open>
  The physical state of an earbud, \<open>domains/sensor/phy_state/phy_state.c\<close>: in the case, in the ear, moving or at
  rest outside the ear. The events of the charger (or the magnet sensor), the proximity sensor and the accelerometer
  become messages of the component to itself; their handlers follow the true state, and \<open>appPhyStateSetState\<close> tells the
  clients one transition at a time, with a timer between two of them. The clock, the address of the allocated
  indication (one run of a handler allocates at most one) and the answers of the sensors to a registration are in
  \<open>phy_env\<close>; the options of the build are in the state, and the registrations with other components are its calls,
  oldest first. Panics are \<open>None\<close>.
\<close>

section \<open>Data\<close>

datatype phyState =
    PHY_STATE_UNKNOWN | PHY_STATE_IN_CASE | PHY_STATE_OUT_OF_EAR | PHY_STATE_OUT_OF_EAR_AT_REST | PHY_STATE_IN_EAR

datatype phy_state_event =
    phy_state_event_in_case | phy_state_event_out_of_case | phy_state_event_in_ear | phy_state_event_out_of_ear
  | phy_state_event_in_motion | phy_state_event_not_in_motion

record phy_changed_ind =
  ind_new_state :: phyState
  ind_event :: phy_state_event

definition PHY_STATE_INIT_CFM :: message_id where "PHY_STATE_INIT_CFM = MESSAGE_BASE ''PHY_STATE''"
definition PHY_STATE_CHANGED_IND :: message_id where "PHY_STATE_CHANGED_IND = MESSAGE_BASE ''PHY_STATE'' + 1"

definition PHY_STATE_INTERNAL_IN_CASE_EVENT :: message_id where
  "PHY_STATE_INTERNAL_IN_CASE_EVENT = INTERNAL_MESSAGE_BASE"
definition PHY_STATE_INTERNAL_OUT_OF_CASE_EVENT :: message_id where
  "PHY_STATE_INTERNAL_OUT_OF_CASE_EVENT = INTERNAL_MESSAGE_BASE + 1"
definition PHY_STATE_INTERNAL_IN_EAR_EVENT :: message_id where
  "PHY_STATE_INTERNAL_IN_EAR_EVENT = INTERNAL_MESSAGE_BASE + 2"
definition PHY_STATE_INTERNAL_OUT_OF_EAR_EVENT :: message_id where
  "PHY_STATE_INTERNAL_OUT_OF_EAR_EVENT = INTERNAL_MESSAGE_BASE + 3"
definition PHY_STATE_INTERNAL_MOTION :: message_id where
  "PHY_STATE_INTERNAL_MOTION = INTERNAL_MESSAGE_BASE + 4"
definition PHY_STATE_INTERNAL_NOT_IN_MOTION :: message_id where
  "PHY_STATE_INTERNAL_NOT_IN_MOTION = INTERNAL_MESSAGE_BASE + 5"
definition PHY_STATE_INTERNAL_TIMEOUT_NOTIFICATION_LIMIT :: message_id where
  "PHY_STATE_INTERNAL_TIMEOUT_NOTIFICATION_LIMIT = INTERNAL_MESSAGE_BASE + 6"

definition HALL_EFFECT_MESSAGE_MAGNET_PRESENT :: message_id where
  "HALL_EFFECT_MESSAGE_MAGNET_PRESENT = MESSAGE_BASE ''HALL_EFFECT''"
definition HALL_EFFECT_MESSAGE_MAGNET_NOT_PRESENT :: message_id where
  "HALL_EFFECT_MESSAGE_MAGNET_NOT_PRESENT = MESSAGE_BASE ''HALL_EFFECT'' + 1"
definition ACCELEROMETER_MESSAGE_IN_MOTION :: message_id where
  "ACCELEROMETER_MESSAGE_IN_MOTION = MESSAGE_BASE ''ACCELEROMETER''"
definition ACCELEROMETER_MESSAGE_NOT_IN_MOTION :: message_id where
  "ACCELEROMETER_MESSAGE_NOT_IN_MOTION = MESSAGE_BASE ''ACCELEROMETER'' + 1"
definition PROXIMITY_MESSAGE_IN_PROXIMITY :: message_id where
  "PROXIMITY_MESSAGE_IN_PROXIMITY = MESSAGE_BASE ''PROXIMITY''"
definition PROXIMITY_MESSAGE_NOT_IN_PROXIMITY :: message_id where
  "PROXIMITY_MESSAGE_NOT_IN_PROXIMITY = MESSAGE_BASE ''PROXIMITY'' + 1"

definition PHY_STATE_CLIENT_TASK_LIST_INIT_CAPACITY :: nat where "PHY_STATE_CLIENT_TASK_LIST_INIT_CAPACITY = 6"

definition PHY_STATE_LOCK_EAR :: u16 where "PHY_STATE_LOCK_EAR = 1"
definition PHY_STATE_LOCK_MOTION :: u16 where "PHY_STATE_LOCK_MOTION = 2"
definition PHY_STATE_LOCK_CASE :: u16 where "PHY_STATE_LOCK_CASE = 4"

definition appPhyStateOutOfCaseNotificationsLimitMs :: u32 where "appPhyStateOutOfCaseNotificationsLimitMs = 500"
definition appPhyStateInCaseNotificationsLimitMs :: u32 where "appPhyStateInCaseNotificationsLimitMs = 500"
definition appPhyStateInEarNotificationsLimitMs :: u32 where "appPhyStateInEarNotificationsLimitMs = 500"
definition appPhyStateOutOfEarNotificationsLimitMs :: u32 where "appPhyStateOutOfEarNotificationsLimitMs = 500"
definition appPhyStateInMotionNotificationsLimitMs :: u32 where "appPhyStateInMotionNotificationsLimitMs = 500"
definition appPhyStateNotInMotionNotificationsLimitMs :: u32 where "appPhyStateNotInMotionNotificationsLimitMs = 500"

text \<open>\<open>sizeof(PHY_STATE_CHANGED_IND_T)\<close>: two enumerations.\<close>

definition sizeof_changed_ind :: nat where "sizeof_changed_ind = 8"

datatype sensor = Hall_effect | Charger | Proximity | Accelerometer | Touch

datatype phy_call = Client_register sensor task | Client_unregister sensor task

record phy_build =
  INCLUDE_HALL_EFFECT_SENSOR :: bool
  DISABLE_IN_CASE_PHY_STATE :: bool

text \<open>\<open>lock_addr\<close> is the address of \<open>lock\<close>, which the scheduler reads.\<close>

record phyStateTaskData =
  phy_task :: task
  phy_state :: phyState
  phy_client_tasks :: task_list
  in_motion :: bool
  in_proximity :: bool
  lock :: u16
  reported_state :: phyState
  lock_addr :: nat
  phy_build :: phy_build
  phy_vm :: "phy_changed_ind vm"
  phy_calls :: "phy_call list"

record phy_env =
  phy_now :: u32
  ind_addr :: nat
  accepts_client :: "sensor \<Rightarrow> bool"

definition phy_log :: "phy_call \<Rightarrow> phyStateTaskData \<Rightarrow> phyStateTaskData" where
  "phy_log c s = s\<lparr>phy_calls := phy_calls s @ [c]\<rparr>"

definition phy_send :: "phy_env \<Rightarrow> message_id \<Rightarrow> phyStateTaskData \<Rightarrow> phyStateTaskData option" where
  "phy_send e i s = map_option (\<lambda>q. s\<lparr>phy_vm := q\<rparr>) (MessageSend (phy_now e) (phy_task s) i None (phy_vm s))"

definition phy_cancel_all :: "message_id \<Rightarrow> phyStateTaskData \<Rightarrow> phyStateTaskData option" where
  "phy_cancel_all i s = map_option (\<lambda>(_, q). s\<lparr>phy_vm := q\<rparr>) (MessageCancelAll (phy_task s) i (phy_vm s))"

section \<open>Telling the clients\<close>

definition appPhyStateMsgSendStateChangedInd ::
  "phy_env \<Rightarrow> phyState \<Rightarrow> phy_state_event \<Rightarrow> u32 \<Rightarrow> phyStateTaskData \<Rightarrow> phyStateTaskData option" where
  "appPhyStateMsgSendStateChangedInd e new_state event transition_delay s =
     do {
       q1 \<leftarrow> (if transition_delay \<noteq> 0 then
                MessageSendLater (phy_now e) (phy_task s) PHY_STATE_INTERNAL_TIMEOUT_NOTIFICATION_LIMIT None
                  transition_delay (phy_vm s)
              else Some (phy_vm s));
       q2 \<leftarrow> TaskList_MessageSendWithSize (phy_now e) (phy_client_tasks s) PHY_STATE_CHANGED_IND
               (Some (ind_addr e, App \<lparr>ind_new_state = new_state, ind_event = event\<rparr>)) sizeof_changed_ind q1;
       Some (s\<lparr>phy_vm := q2\<rparr>)
     }"

text \<open>The functions \<open>appPhyStateExit...\<close> and \<open>appPhyStateEnter...\<close>, selected by the reported state.\<close>

definition exit_reported :: "phy_env \<Rightarrow> phyStateTaskData \<Rightarrow> phyStateTaskData option" where
  "exit_reported e s =
     (case reported_state s of
        PHY_STATE_UNKNOWN \<Rightarrow> Some s
      | PHY_STATE_IN_CASE \<Rightarrow>
          appPhyStateMsgSendStateChangedInd e PHY_STATE_OUT_OF_EAR phy_state_event_out_of_case
            appPhyStateOutOfCaseNotificationsLimitMs s
      | PHY_STATE_OUT_OF_EAR \<Rightarrow> Some s
      | PHY_STATE_OUT_OF_EAR_AT_REST \<Rightarrow>
          appPhyStateMsgSendStateChangedInd e PHY_STATE_OUT_OF_EAR phy_state_event_in_motion
            appPhyStateInMotionNotificationsLimitMs s
      | PHY_STATE_IN_EAR \<Rightarrow>
          appPhyStateMsgSendStateChangedInd e PHY_STATE_OUT_OF_EAR phy_state_event_out_of_ear
            appPhyStateOutOfEarNotificationsLimitMs s)"

definition enter_reported :: "phy_env \<Rightarrow> phyStateTaskData \<Rightarrow> phyStateTaskData option" where
  "enter_reported e s =
     (case reported_state s of
        PHY_STATE_IN_CASE \<Rightarrow>
          appPhyStateMsgSendStateChangedInd e PHY_STATE_IN_CASE phy_state_event_in_case
            appPhyStateInCaseNotificationsLimitMs s
      | PHY_STATE_OUT_OF_EAR \<Rightarrow> Some s
      | PHY_STATE_OUT_OF_EAR_AT_REST \<Rightarrow>
          appPhyStateMsgSendStateChangedInd e PHY_STATE_OUT_OF_EAR_AT_REST phy_state_event_not_in_motion
            appPhyStateNotInMotionNotificationsLimitMs s
      | PHY_STATE_IN_EAR \<Rightarrow>
          appPhyStateMsgSendStateChangedInd e PHY_STATE_IN_EAR phy_state_event_in_ear
            appPhyStateInEarNotificationsLimitMs s
      | PHY_STATE_UNKNOWN \<Rightarrow> None)"

definition appPhyStateSetState :: "phy_env \<Rightarrow> phyState \<Rightarrow> phyStateTaskData \<Rightarrow> phyStateTaskData option" where
  "appPhyStateSetState e new_state s0 =
     (let s = s0\<lparr>phy_state := new_state\<rparr>
      in if fst (MessagePendingFirst (phy_now e) (phy_task s) PHY_STATE_INTERNAL_TIMEOUT_NOTIFICATION_LIMIT (phy_vm s))
         then Some s
         else do {
           s1 \<leftarrow> exit_reported e s;
           enter_reported e
             (if reported_state s1 = PHY_STATE_UNKNOWN \<or> reported_state s1 = PHY_STATE_OUT_OF_EAR
              then s1\<lparr>reported_state := new_state\<rparr>
              else s1\<lparr>reported_state := PHY_STATE_OUT_OF_EAR\<rparr>)
         })"

section \<open>Handlers of the component's messages\<close>

definition appPhyStateHandleInternalInCaseEvent :: "phy_env \<Rightarrow> phyStateTaskData \<Rightarrow> phyStateTaskData option" where
  "appPhyStateHandleInternalInCaseEvent e s =
     (if phy_state s = PHY_STATE_IN_CASE then Some s
      else do {
        s1 \<leftarrow> (if phy_state s = PHY_STATE_OUT_OF_EAR_AT_REST \<or> phy_state s = PHY_STATE_IN_EAR
               then appPhyStateSetState e PHY_STATE_OUT_OF_EAR s else Some s);
        appPhyStateSetState e PHY_STATE_IN_CASE s1
      })"

definition appPhyStateHandleInternalOutOfCaseEvent :: "phy_env \<Rightarrow> phyStateTaskData \<Rightarrow> phyStateTaskData option" where
  "appPhyStateHandleInternalOutOfCaseEvent e s =
     (if phy_state s = PHY_STATE_IN_CASE \<or> phy_state s = PHY_STATE_UNKNOWN then
        do {
          s1 \<leftarrow> appPhyStateSetState e PHY_STATE_OUT_OF_EAR s;
          if in_proximity s1 then appPhyStateSetState e PHY_STATE_IN_EAR s1
          else if \<not> in_motion s1 then appPhyStateSetState e PHY_STATE_OUT_OF_EAR_AT_REST s1
          else Some s1
        }
      else Some s)"

definition appPhyStateHandleInternalInEarEvent :: "phy_env \<Rightarrow> phyStateTaskData \<Rightarrow> phyStateTaskData option" where
  "appPhyStateHandleInternalInEarEvent e s0 =
     (let s = s0\<lparr>in_proximity := True\<rparr>
      in if phy_state s = PHY_STATE_IN_CASE \<or> phy_state s = PHY_STATE_IN_EAR then Some s
         else do {
           s1 \<leftarrow> (if phy_state s = PHY_STATE_OUT_OF_EAR_AT_REST
                  then appPhyStateSetState e PHY_STATE_OUT_OF_EAR s else Some s);
           appPhyStateSetState e PHY_STATE_IN_EAR s1
         })"

definition appPhyStateHandleInternalOutOfEarEvent :: "phy_env \<Rightarrow> phyStateTaskData \<Rightarrow> phyStateTaskData option" where
  "appPhyStateHandleInternalOutOfEarEvent e s0 =
     (let s = s0\<lparr>in_proximity := False\<rparr>
      in if phy_state s = PHY_STATE_UNKNOWN \<or> phy_state s = PHY_STATE_IN_EAR then
           do {
             s1 \<leftarrow> appPhyStateSetState e PHY_STATE_OUT_OF_EAR s;
             if \<not> in_motion s1 then appPhyStateSetState e PHY_STATE_OUT_OF_EAR_AT_REST s1 else Some s1
           }
         else Some s)"

definition appPhyStateHandleInternalMotionEvent :: "phy_env \<Rightarrow> phyStateTaskData \<Rightarrow> phyStateTaskData option" where
  "appPhyStateHandleInternalMotionEvent e s0 =
     (let s = s0\<lparr>in_motion := True\<rparr>
      in if phy_state s = PHY_STATE_OUT_OF_EAR_AT_REST then appPhyStateSetState e PHY_STATE_OUT_OF_EAR s else Some s)"

definition appPhyStateHandleInternalNotInMotionEvent :: "phy_env \<Rightarrow> phyStateTaskData \<Rightarrow> phyStateTaskData option" where
  "appPhyStateHandleInternalNotInMotionEvent e s0 =
     (let s = s0\<lparr>in_motion := False\<rparr>
      in if phy_state s = PHY_STATE_OUT_OF_EAR then appPhyStateSetState e PHY_STATE_OUT_OF_EAR_AT_REST s else Some s)"

definition appPhyStateHandleInternalTimeoutNotificationLimit ::
  "phy_env \<Rightarrow> phyStateTaskData \<Rightarrow> phyStateTaskData option" where
  "appPhyStateHandleInternalTimeoutNotificationLimit e s =
     (if phy_state s \<noteq> reported_state s then appPhyStateSetState e (phy_state s) s else Some s)"

section \<open>Events\<close>

definition appPhyStateClearLockBit :: "u16 \<Rightarrow> phyStateTaskData \<Rightarrow> phyStateTaskData" where
  "appPhyStateClearLockBit b s = s\<lparr>lock := lock s AND NOT b\<rparr>"

text \<open>The common body of the functions \<open>appPhyState...Event\<close>.\<close>

definition post_event :: "phy_env \<Rightarrow> message_id \<Rightarrow> u16 \<Rightarrow> phyStateTaskData \<Rightarrow> phyStateTaskData option" where
  "post_event e i b s =
     do {
       s1 \<leftarrow> phy_cancel_all i s;
       s2 \<leftarrow> phy_send e i s1;
       Some (appPhyStateClearLockBit b s2)
     }"

definition appPhyStateInCaseEvent :: "phy_env \<Rightarrow> phyStateTaskData \<Rightarrow> phyStateTaskData option" where
  "appPhyStateInCaseEvent e s = post_event e PHY_STATE_INTERNAL_IN_CASE_EVENT PHY_STATE_LOCK_CASE s"
definition appPhyStateOutOfCaseEvent :: "phy_env \<Rightarrow> phyStateTaskData \<Rightarrow> phyStateTaskData option" where
  "appPhyStateOutOfCaseEvent e s = post_event e PHY_STATE_INTERNAL_OUT_OF_CASE_EVENT PHY_STATE_LOCK_CASE s"
definition appPhyStateInEarEvent :: "phy_env \<Rightarrow> phyStateTaskData \<Rightarrow> phyStateTaskData option" where
  "appPhyStateInEarEvent e s = post_event e PHY_STATE_INTERNAL_IN_EAR_EVENT PHY_STATE_LOCK_EAR s"
definition appPhyStateOutOfEarEvent :: "phy_env \<Rightarrow> phyStateTaskData \<Rightarrow> phyStateTaskData option" where
  "appPhyStateOutOfEarEvent e s = post_event e PHY_STATE_INTERNAL_OUT_OF_EAR_EVENT PHY_STATE_LOCK_EAR s"
definition appPhyStateMotionEvent :: "phy_env \<Rightarrow> phyStateTaskData \<Rightarrow> phyStateTaskData option" where
  "appPhyStateMotionEvent e s = post_event e PHY_STATE_INTERNAL_MOTION PHY_STATE_LOCK_MOTION s"
definition appPhyStateNotInMotionEvent :: "phy_env \<Rightarrow> phyStateTaskData \<Rightarrow> phyStateTaskData option" where
  "appPhyStateNotInMotionEvent e s = post_event e PHY_STATE_INTERNAL_NOT_IN_MOTION PHY_STATE_LOCK_MOTION s"

text \<open>The cases that depend on the build, then those of the other sensors.\<close>

definition handle_sensor :: "phy_env \<Rightarrow> message_id \<Rightarrow> phyStateTaskData \<Rightarrow> phyStateTaskData option" where
  "handle_sensor e i s =
     (if INCLUDE_HALL_EFFECT_SENSOR (phy_build s) \<and> i = HALL_EFFECT_MESSAGE_MAGNET_PRESENT then appPhyStateInCaseEvent e s
      else if INCLUDE_HALL_EFFECT_SENSOR (phy_build s) \<and> i = HALL_EFFECT_MESSAGE_MAGNET_NOT_PRESENT then
        appPhyStateOutOfCaseEvent e s
      else if \<not> INCLUDE_HALL_EFFECT_SENSOR (phy_build s) \<and> i = CHARGER_MESSAGE_ATTACHED then appPhyStateInCaseEvent e s
      else if \<not> INCLUDE_HALL_EFFECT_SENSOR (phy_build s) \<and> i = CHARGER_MESSAGE_DETACHED then appPhyStateOutOfCaseEvent e s
      else if \<not> INCLUDE_HALL_EFFECT_SENSOR (phy_build s)
              \<and> (i = CHARGER_MESSAGE_CHARGING_OK \<or> i = CHARGER_MESSAGE_CHARGING_LOW) then Some s
      else if i = ACCELEROMETER_MESSAGE_IN_MOTION then appPhyStateMotionEvent e s
      else if i = ACCELEROMETER_MESSAGE_NOT_IN_MOTION then appPhyStateNotInMotionEvent e s
      else if i = PROXIMITY_MESSAGE_IN_PROXIMITY then appPhyStateInEarEvent e s
      else if i = PROXIMITY_MESSAGE_NOT_IN_PROXIMITY then appPhyStateOutOfEarEvent e s
      else Some s)"

definition appPhyStateHandleMessage :: "phy_env \<Rightarrow> message_id \<Rightarrow> phyStateTaskData \<Rightarrow> phyStateTaskData option" where
  "appPhyStateHandleMessage e i s =
     (if i = PHY_STATE_INTERNAL_IN_CASE_EVENT then appPhyStateHandleInternalInCaseEvent e s
      else if i = PHY_STATE_INTERNAL_OUT_OF_CASE_EVENT then appPhyStateHandleInternalOutOfCaseEvent e s
      else if i = PHY_STATE_INTERNAL_IN_EAR_EVENT then appPhyStateHandleInternalInEarEvent e s
      else if i = PHY_STATE_INTERNAL_OUT_OF_EAR_EVENT then appPhyStateHandleInternalOutOfEarEvent e s
      else if i = PHY_STATE_INTERNAL_MOTION then appPhyStateHandleInternalMotionEvent e s
      else if i = PHY_STATE_INTERNAL_NOT_IN_MOTION then appPhyStateHandleInternalNotInMotionEvent e s
      else if i = PHY_STATE_INTERNAL_TIMEOUT_NOTIFICATION_LIMIT then
        appPhyStateHandleInternalTimeoutNotificationLimit e s
      else handle_sensor e i s)"

section \<open>Interface\<close>

definition appPhyStateRegisterClient :: "task \<Rightarrow> phyStateTaskData \<Rightarrow> phyStateTaskData option" where
  "appPhyStateRegisterClient t s =
     map_option (\<lambda>(_, l). s\<lparr>phy_client_tasks := l\<rparr>) (TaskList_AddTask (phy_client_tasks s) t)"

definition appPhyStateUnregisterClient :: "task \<Rightarrow> phyStateTaskData \<Rightarrow> phyStateTaskData option" where
  "appPhyStateUnregisterClient t s =
     map_option (\<lambda>(_, l). s\<lparr>phy_client_tasks := l\<rparr>) (TaskList_RemoveTask (phy_client_tasks s) t)"

text \<open>A registration that is refused is replaced by one message.\<close>

definition register_or_assume :: "phy_env \<Rightarrow> sensor \<Rightarrow> message_id \<Rightarrow> phyStateTaskData \<Rightarrow> phyStateTaskData option" where
  "register_or_assume e c i s =
     (let s1 = phy_log (Client_register c (phy_task s)) s
      in if \<not> accepts_client e c then phy_send e i s1 else Some s1)"

definition appPhyStateInit :: "phy_env \<Rightarrow> task \<Rightarrow> phyStateTaskData \<Rightarrow> (bool \<times> phyStateTaskData) option" where
  "appPhyStateInit e init_task s =
     do {
       l \<leftarrow> TaskList_InitialiseWithCapacity PHY_STATE_CLIENT_TASK_LIST_INIT_CAPACITY;
       let s1 = s\<lparr>phy_state := PHY_STATE_UNKNOWN, reported_state := PHY_STATE_UNKNOWN, phy_client_tasks := l,
                  in_motion := False, in_proximity := False\<rparr>;
       s2 \<leftarrow> (if INCLUDE_HALL_EFFECT_SENSOR (phy_build s1) then
                Some (phy_log (Client_register Hall_effect (phy_task s1)) s1)
              else if \<not> DISABLE_IN_CASE_PHY_STATE (phy_build s1) then
                Some (phy_log (Client_register Charger (phy_task s1)) s1)
              else phy_send e CHARGER_MESSAGE_DETACHED s1);
       s3 \<leftarrow> register_or_assume e Proximity PROXIMITY_MESSAGE_IN_PROXIMITY s2;
       s4 \<leftarrow> register_or_assume e Accelerometer ACCELEROMETER_MESSAGE_IN_MOTION s3;
       let s5 = s4\<lparr>lock := PHY_STATE_LOCK_EAR OR PHY_STATE_LOCK_MOTION OR PHY_STATE_LOCK_CASE\<rparr>;
       q \<leftarrow> MessageSendConditionally (phy_now e) init_task PHY_STATE_INIT_CFM None (Some (lock_addr s5)) (phy_vm s5);
       Some (True, s5\<lparr>phy_vm := q\<rparr>)
     }"

definition appPhyStatePrepareToEnterDormant :: "phyStateTaskData \<Rightarrow> phyStateTaskData" where
  "appPhyStatePrepareToEnterDormant s =
     (let unregister = (\<lambda>c. phy_log (Client_unregister c (phy_task s)));
          s1 = unregister Touch (unregister Accelerometer (unregister Proximity s))
      in if INCLUDE_HALL_EFFECT_SENSOR (phy_build s) then unregister Hall_effect s1 else s1)"

definition appPhyStateGetState :: "phyStateTaskData \<Rightarrow> phyState" where
  "appPhyStateGetState s = reported_state s"

text \<open>\<open>appProximityIsClientRegistered\<close> is the argument.\<close>

definition appPhyStateIsInEarDetectionSupported :: "(task \<Rightarrow> bool) \<Rightarrow> phyStateTaskData \<Rightarrow> bool" where
  "appPhyStateIsInEarDetectionSupported proximity_registered s = proximity_registered (phy_task s)"

definition appPhyStateIsOutOfCase :: "phyStateTaskData \<Rightarrow> bool" where
  "appPhyStateIsOutOfCase s =
     (case appPhyStateGetState s of
        PHY_STATE_UNKNOWN \<Rightarrow> False
      | PHY_STATE_IN_CASE \<Rightarrow> False
      | PHY_STATE_OUT_OF_EAR \<Rightarrow> True
      | PHY_STATE_OUT_OF_EAR_AT_REST \<Rightarrow> True
      | PHY_STATE_IN_EAR \<Rightarrow> True)"

section \<open>The specification\<close>

text \<open>What the sensors have said, the state the clients were told, and whether the next indication has to wait.\<close>

record phy_view =
  v_case :: "bool option"
  v_near :: bool
  v_moving :: bool
  v_told :: phyState
  v_limited :: bool

datatype phy_input = Case_event bool | Ear_event bool | Motion_event bool | Limit_expired

text \<open>The state is a function of the last events: without a case event, one of the proximity sensor counts as outside.\<close>

definition true_state :: "phy_view \<Rightarrow> phyState" where
  "true_state v =
     (case v_case v of
        None \<Rightarrow> PHY_STATE_UNKNOWN
      | Some True \<Rightarrow> PHY_STATE_IN_CASE
      | Some False \<Rightarrow>
          (if v_near v then PHY_STATE_IN_EAR else if v_moving v then PHY_STATE_OUT_OF_EAR else PHY_STATE_OUT_OF_EAR_AT_REST))"

fun sense :: "phy_input \<Rightarrow> phy_view \<Rightarrow> phy_view" where
  "sense (Case_event b) v = v\<lparr>v_case := Some b\<rparr>"
| "sense (Ear_event b) v = v\<lparr>v_near := b, v_case := (case v_case v of None \<Rightarrow> Some False | c \<Rightarrow> c)\<rparr>"
| "sense (Motion_event b) v = v\<lparr>v_moving := b\<rparr>"
| "sense Limit_expired v = v\<lparr>v_limited := False\<rparr>"

text \<open>The transitions of the diagram in \<open>phy_state.h\<close>: every one starts or ends outside the ear.\<close>

definition phy_diagram :: "(phyState \<times> phy_state_event \<times> phyState) set" where
  "phy_diagram =
     {(PHY_STATE_IN_CASE, phy_state_event_out_of_case, PHY_STATE_OUT_OF_EAR),
      (PHY_STATE_OUT_OF_EAR, phy_state_event_in_ear, PHY_STATE_IN_EAR),
      (PHY_STATE_OUT_OF_EAR, phy_state_event_in_case, PHY_STATE_IN_CASE),
      (PHY_STATE_OUT_OF_EAR, phy_state_event_not_in_motion, PHY_STATE_OUT_OF_EAR_AT_REST),
      (PHY_STATE_OUT_OF_EAR_AT_REST, phy_state_event_in_motion, PHY_STATE_OUT_OF_EAR),
      (PHY_STATE_IN_EAR, phy_state_event_out_of_ear, PHY_STATE_OUT_OF_EAR)}"

fun leaving :: "phyState \<Rightarrow> phy_state_event option" where
  "leaving PHY_STATE_IN_CASE = Some phy_state_event_out_of_case"
| "leaving PHY_STATE_OUT_OF_EAR_AT_REST = Some phy_state_event_in_motion"
| "leaving PHY_STATE_IN_EAR = Some phy_state_event_out_of_ear"
| "leaving _ = None"

fun entering :: "phyState \<Rightarrow> phy_state_event option" where
  "entering PHY_STATE_IN_CASE = Some phy_state_event_in_case"
| "entering PHY_STATE_OUT_OF_EAR_AT_REST = Some phy_state_event_not_in_motion"
| "entering PHY_STATE_IN_EAR = Some phy_state_event_in_ear"
| "entering _ = None"

text \<open>One transition towards a state, with its indication; waiting changes nothing.\<close>

definition hop :: "phyState \<Rightarrow> phyState \<Rightarrow> bool \<Rightarrow> phyState \<times> bool \<times> phy_changed_ind option" where
  "hop target told limited =
     (if limited then (told, True, None)
      else case leaving told of
        Some ev \<Rightarrow> (PHY_STATE_OUT_OF_EAR, True, Some \<lparr>ind_new_state = PHY_STATE_OUT_OF_EAR, ind_event = ev\<rparr>)
      | None \<Rightarrow>
          (case entering target of
             Some ev \<Rightarrow> (target, True, Some \<lparr>ind_new_state = target, ind_event = ev\<rparr>)
           | None \<Rightarrow> (target, False, None)))"

definition report :: "phy_view \<Rightarrow> phy_view \<times> phy_changed_ind option" where
  "report v =
     (if v_told v = true_state v then (v, None)
      else let (r, l, ind) = hop (true_state v) (v_told v) (v_limited v)
           in (v\<lparr>v_told := r, v_limited := l\<rparr>, ind))"

definition phy_spec :: "phy_input \<Rightarrow> phy_view \<Rightarrow> phy_view \<times> phy_changed_ind option" where
  "phy_spec x v = report (sense x v)"

text \<open>The clients know the state, or a timer is running.\<close>

definition settled :: "phy_view \<Rightarrow> bool" where
  "settled v = (v_limited v \<or> v_told v = true_state v)"

lemma spec_settled: "settled (fst (phy_spec x v))"
proof -
  have "settled (fst (report w))" for w
    by (auto simp: report_def settled_def hop_def true_state_def split: prod.splits option.splits bool.splits
        elim!: leaving.elims entering.elims)
  then show ?thesis by (simp add: phy_spec_def)
qed

text \<open>
  Setting a state in two steps, by way of outside the ear, is one transition towards it: the first step either starts
  the timer or changes nothing the clients see.
\<close>

definition and_then ::
  "phyState \<Rightarrow> phyState \<times> bool \<times> phy_changed_ind option \<Rightarrow> phyState \<times> bool \<times> phy_changed_ind option" where
  "and_then n r = (case r of (told, limited, ind) \<Rightarrow>
     (case hop n told limited of (told', limited', ind') \<Rightarrow> (told', limited', if ind = None then ind' else ind)))"

lemma hop_twice: "limited \<or> told \<noteq> PHY_STATE_OUT_OF_EAR \<Longrightarrow>
    and_then n (hop PHY_STATE_OUT_OF_EAR told limited) = hop n told limited"
  by (cases told) (auto simp: and_then_def hop_def)

lemma hop_silent: "hop n told l = (told', l', ind) \<Longrightarrow> ind \<noteq> None \<Longrightarrow> l'"
  by (auto simp: hop_def split: if_splits option.splits)

section \<open>Setting the state\<close>

abbreviation phy_pend :: "phyStateTaskData \<Rightarrow> message_id \<Rightarrow> nat" where
  "phy_pend s i \<equiv> pending_id (phy_task s) i (phy_vm s)"

abbreviation phy_limited :: "phyStateTaskData \<Rightarrow> bool" where
  "phy_limited s \<equiv> phy_pend s PHY_STATE_INTERNAL_TIMEOUT_NOTIFICATION_LIMIT \<noteq> 0"

abbreviation phy_clients :: "phyStateTaskData \<Rightarrow> task list" where
  "phy_clients s \<equiv> tl_members (phy_client_tasks s)"

definition phy_ok :: "phyStateTaskData \<Rightarrow> bool" where
  "phy_ok s = (phy_task s \<noteq> INVALIDATED_TASK \<and> tl_valid (phy_client_tasks s) \<and> length (phy_clients s) \<le> 14
     \<and> phy_task s \<notin> set (phy_clients s) \<and> phy_pend s PHY_STATE_INTERNAL_TIMEOUT_NOTIFICATION_LIMIT \<le> 1)"

lemma phy_ids:
  "PHY_STATE_INTERNAL_IN_CASE_EVENT = 0" "PHY_STATE_INTERNAL_OUT_OF_CASE_EVENT = 1" "PHY_STATE_INTERNAL_IN_EAR_EVENT = 2"
  "PHY_STATE_INTERNAL_OUT_OF_EAR_EVENT = 3" "PHY_STATE_INTERNAL_MOTION = 4" "PHY_STATE_INTERNAL_NOT_IN_MOTION = 5"
  "PHY_STATE_INTERNAL_TIMEOUT_NOTIFICATION_LIMIT = 6"
  by (simp_all add: PHY_STATE_INTERNAL_IN_CASE_EVENT_def PHY_STATE_INTERNAL_OUT_OF_CASE_EVENT_def
      PHY_STATE_INTERNAL_IN_EAR_EVENT_def PHY_STATE_INTERNAL_OUT_OF_EAR_EVENT_def PHY_STATE_INTERNAL_MOTION_def
      PHY_STATE_INTERNAL_NOT_IN_MOTION_def PHY_STATE_INTERNAL_TIMEOUT_NOTIFICATION_LIMIT_def INTERNAL_MESSAGE_BASE_def
      MESSAGE_BASE_def MSG_GRP_TO_ID_def MESSAGE_GROUP_def message_groups_def domains_message_groups_def)

lemma phy_client_ids: "\<not> combinable PHY_STATE_CHANGED_IND" "\<not> combinable PHY_STATE_INIT_CFM" "PHY_STATE_INIT_CFM \<noteq> PHY_STATE_CHANGED_IND"
  by (simp_all add: combinable_def system_message_ids PHY_STATE_CHANGED_IND_def PHY_STATE_INIT_CFM_def MESSAGE_BASE_def
      MSG_GRP_TO_ID_def MESSAGE_GROUP_def message_groups_def domains_message_groups_def)

lemma phy_ids_plain: "i \<le> 6 \<Longrightarrow> \<not> combinable i"
  by (auto simp: combinable_def system_message_ids)

lemma pending_first: "fst (MessagePendingFirst now t i q) = (pending_id t i q \<noteq> 0)"
proof -
  have "pending_id t i q = length (filter (\<lambda>p. addressed_to t p \<and> am_id p = i) (vm_message_queue q))"
    by (simp add: pending_id_def posted_data_def pending_of_def filter_map o_def conj_commute del: mset_map flip: mset_filter)
  then show ?thesis
    by (auto simp: MessagePendingFirst_def find_None_iff filter_empty_conv find_Some_iff split: option.splits)
qed

text \<open>What the clients get.\<close>

definition tells :: "phy_env \<Rightarrow> phy_changed_ind option \<Rightarrow> phyStateTaskData \<Rightarrow> phyStateTaskData \<Rightarrow> bool" where
  "tells e ind s s' = (\<forall>u. u \<noteq> phy_task s \<longrightarrow> posted_data u (phy_vm s') =
     (if u \<in> set (phy_clients s)
      then (case ind of None \<Rightarrow> {#} | Some x \<Rightarrow> {#(PHY_STATE_CHANGED_IND, Some (ind_addr e, App x))#}) else {#})
     + posted_data u (phy_vm s))"

definition phy_moved ::
  "phy_env \<Rightarrow> phyState \<Rightarrow> phyState \<times> bool \<times> phy_changed_ind option \<Rightarrow> phyStateTaskData \<Rightarrow> phyStateTaskData \<Rightarrow> bool" where
  "phy_moved e n r s s' = (case r of (told, limited, ind) \<Rightarrow>
     phy_state s' = n \<and> reported_state s' = told \<and> phy_limited s' = limited \<and> phy_ok s'
     \<and> (\<forall>i. i \<noteq> PHY_STATE_INTERNAL_TIMEOUT_NOTIFICATION_LIMIT \<longrightarrow> phy_pend s' i = phy_pend s i)
     \<and> phy_task s' = phy_task s \<and> phy_client_tasks s' = phy_client_tasks s \<and> in_motion s' = in_motion s
     \<and> in_proximity s' = in_proximity s \<and> lock s' = lock s \<and> lock_addr s' = lock_addr s \<and> phy_build s' = phy_build s
     \<and> phy_calls s' = phy_calls s \<and> tells e ind s s')"

lemma phy_moved_refl: "phy_ok s \<Longrightarrow> phy_moved e (phy_state s) (reported_state s, phy_limited s, None) s s"
  by (simp add: phy_moved_def tells_def)

lemma tells_trans:
  assumes "tells e ind s s1" "tells e ind' s1 s'" "ind = None \<or> ind' = None"
    "phy_task s1 = phy_task s" "phy_client_tasks s1 = phy_client_tasks s"
  shows "tells e (if ind = None then ind' else ind) s s'"
  using assms by (cases ind; cases ind') (simp_all add: tells_def)

lemma phy_moved_trans:
  assumes "phy_moved e m (told, limited, ind) s s1" "phy_moved e n (told', limited', ind') s1 s'" "ind = None \<or> ind' = None"
  shows "phy_moved e n (told', limited', if ind = None then ind' else ind) s s'"
proof -
  have "tells e (if ind = None then ind' else ind) s s'"
    by (rule tells_trans [of e ind s s1]) (use assms in \<open>simp_all add: phy_moved_def\<close>)
  moreover have "phy_pend s' i = phy_pend s i" if "i \<noteq> PHY_STATE_INTERNAL_TIMEOUT_NOTIFICATION_LIMIT" for i
  proof -
    have "phy_pend s' i = phy_pend s1 i" "phy_pend s1 i = phy_pend s i"
      using assms(1,2) that unfolding phy_moved_def by blast+
    then show ?thesis by simp
  qed
  ultimately show ?thesis
    using assms(1,2) unfolding phy_moved_def prod.case by (elim conjE, intro conjI) simp_all
qed

lemma Ind_sent:
  assumes "phy_ok s" "\<not> phy_limited s" "d \<noteq> 0"
    and "\<And>s'. phy_moved e (phy_state s) (reported_state s, True, Some \<lparr>ind_new_state = n, ind_event = ev\<rparr>) s s' \<Longrightarrow> Q s'"
  shows "succeeds (appPhyStateMsgSendStateChangedInd e n ev d s) Q"
proof -
  let ?m = "Some (ind_addr e, App \<lparr>ind_new_state = n, ind_event = ev\<rparr>)"
  let ?l = PHY_STATE_INTERNAL_TIMEOUT_NOTIFICATION_LIMIT
  have ok: "tl_valid (phy_client_tasks s)" "length (phy_clients s) \<le> 14" "phy_task s \<notin> set (phy_clients s)"
    using assms(1) by (simp_all add: phy_ok_def)
  have "succeeds (MessageSendLater (phy_now e) (phy_task s) ?l None d (phy_vm s)) (\<lambda>q1.
      succeeds (TaskList_MessageSendLaterWithSize (phy_now e) (phy_client_tasks s) PHY_STATE_CHANGED_IND ?m sizeof_changed_ind
        D_IMMEDIATE q1) (\<lambda>q2. Q (s\<lparr>phy_vm := q2\<rparr>)))"
  proof (rule MessageSendLater_succeeds)
    fix q1 assume q1: "\<And>u. posted_data u q1 = (if u = phy_task s then add_mset (?l, None) (posted_data u (phy_vm s)) else posted_data u (phy_vm s))"
    show "succeeds (TaskList_MessageSendLaterWithSize (phy_now e) (phy_client_tasks s) PHY_STATE_CHANGED_IND ?m sizeof_changed_ind
        D_IMMEDIATE q1) (\<lambda>q2. Q (s\<lparr>phy_vm := q2\<rparr>))"
    proof (rule TaskList_send_succeeds [OF ok(1,2)])
      fix q2 assume q2: "\<And>u. posted_data u q2 = (if u \<in> set (phy_clients s) then add_mset (PHY_STATE_CHANGED_IND, ?m) (posted_data u q1)
          else posted_data u q1)"
      have p: "pending_id (phy_task s) i q2 = (if i = ?l then Suc (phy_pend s i) else phy_pend s i)" for i
        using q1 [of "phy_task s"] q2 [of "phy_task s"] ok(3) by (simp add: pending_id_def)
      show "Q (s\<lparr>phy_vm := q2\<rparr>)"
        by (rule assms(4)) (use assms(1,2) q1 q2 p in \<open>simp add: phy_moved_def phy_ok_def tells_def\<close>)
    qed (simp add: sizeof_changed_ind_def)
  qed (simp add: phy_ids phy_ids_plain)
  then show ?thesis
    using assms(3) by (simp add: appPhyStateMsgSendStateChangedInd_def TaskList_MessageSendWithSize_def)
qed

lemma SetState_hops:
  assumes "phy_ok s" "n \<noteq> PHY_STATE_UNKNOWN"
    and "\<And>s'. phy_moved e n (hop n (reported_state s) (phy_limited s)) s s' \<Longrightarrow> Q s'"
  shows "succeeds (appPhyStateSetState e n s) Q"
proof (cases "phy_limited s")
  case True
  then show ?thesis
    using assms(1) assms(3) [of "s\<lparr>phy_state := n\<rparr>"]
    by (simp add: appPhyStateSetState_def pending_first Let_def hop_def phy_moved_def phy_ok_def tells_def)
next
  case False
  let ?s = "s\<lparr>phy_state := n\<rparr>"
  have ok: "phy_ok ?s" "\<not> phy_limited ?s" using assms(1) False by (simp_all add: phy_ok_def)
  have m: "phy_moved e n r s s'" if "phy_moved e n r ?s s'" for r s'
    using that by (simp add: phy_moved_def tells_def)
  have d: "appPhyStateOutOfCaseNotificationsLimitMs \<noteq> 0" "appPhyStateInCaseNotificationsLimitMs \<noteq> 0" "appPhyStateInEarNotificationsLimitMs \<noteq> 0"
    "appPhyStateOutOfEarNotificationsLimitMs \<noteq> 0" "appPhyStateInMotionNotificationsLimitMs \<noteq> 0" "appPhyStateNotInMotionNotificationsLimitMs \<noteq> 0"
    by (simp_all add: appPhyStateOutOfCaseNotificationsLimitMs_def appPhyStateInCaseNotificationsLimitMs_def appPhyStateInEarNotificationsLimitMs_def
      appPhyStateOutOfEarNotificationsLimitMs_def appPhyStateInMotionNotificationsLimitMs_def appPhyStateNotInMotionNotificationsLimitMs_def)
  have i: "succeeds (enter_reported e (?s\<lparr>reported_state := n\<rparr>)) Q" if "leaving (reported_state s) = None"
  proof -
    have r: "hop n (reported_state s) False = (case entering n of Some ev \<Rightarrow> (n, True, Some \<lparr>ind_new_state = n, ind_event = ev\<rparr>)
        | None \<Rightarrow> (n, False, None))" using that by (simp add: hop_def)
    have t: "phy_ok (?s\<lparr>reported_state := n\<rparr>)" "\<not> phy_limited (?s\<lparr>reported_state := n\<rparr>)" using ok by (simp_all add: phy_ok_def)
    have u: "Q s'" if "phy_moved e n (hop n (reported_state s) False) (?s\<lparr>reported_state := n\<rparr>) s'" for s'
      using that False by (intro assms(3)) (simp add: phy_moved_def tells_def)
    show ?thesis
    proof (cases "entering n")
      case None
      then have "n = PHY_STATE_OUT_OF_EAR" using assms(2) by (cases n) auto
      then show ?thesis using u [of "?s\<lparr>reported_state := n\<rparr>"] t r by (simp add: enter_reported_def phy_moved_def tells_def)
    next
      case (Some ev)
      then obtain d' where d': "d' \<noteq> 0"
        "enter_reported e (?s\<lparr>reported_state := n\<rparr>) = appPhyStateMsgSendStateChangedInd e n ev d' (?s\<lparr>reported_state := n\<rparr>)"
        using d assms(2) by (cases n) (auto simp: enter_reported_def)
      show ?thesis
        unfolding d'(2) by (rule Ind_sent [OF t d'(1)]) (use u r Some in simp)
    qed
  qed
  have x: "succeeds (do { s1 \<leftarrow> appPhyStateMsgSendStateChangedInd e PHY_STATE_OUT_OF_EAR ev d' ?s;
      enter_reported e (if reported_state s1 = PHY_STATE_UNKNOWN \<or> reported_state s1 = PHY_STATE_OUT_OF_EAR
        then s1\<lparr>reported_state := n\<rparr> else s1\<lparr>reported_state := PHY_STATE_OUT_OF_EAR\<rparr>) }) Q"
    if "leaving (reported_state s) = Some ev" "d' \<noteq> 0" for ev d'
    unfolding succeeds_simps
  proof (rule Ind_sent [OF ok that(2)])
    fix s1 assume a: "phy_moved e (phy_state ?s) (reported_state ?s, True,
      Some \<lparr>ind_new_state = PHY_STATE_OUT_OF_EAR, ind_event = ev\<rparr>) ?s s1"
    then have "reported_state s1 = reported_state s" by (simp add: phy_moved_def)
    then have r: "\<not> (reported_state s1 = PHY_STATE_UNKNOWN \<or> reported_state s1 = PHY_STATE_OUT_OF_EAR)"
      using that(1) by auto
    have "Q (s1\<lparr>reported_state := PHY_STATE_OUT_OF_EAR\<rparr>)"
      by (rule assms(3)) (use a that False in \<open>auto simp: hop_def phy_moved_def phy_ok_def tells_def\<close>)
    then show "succeeds (enter_reported e (if reported_state s1 = PHY_STATE_UNKNOWN \<or> reported_state s1 = PHY_STATE_OUT_OF_EAR
        then s1\<lparr>reported_state := n\<rparr> else s1\<lparr>reported_state := PHY_STATE_OUT_OF_EAR\<rparr>)) Q"
      using r by (simp add: enter_reported_def)
  qed
  show ?thesis
    using x d i False
    by (cases "reported_state s") (simp_all add: appPhyStateSetState_def pending_first Let_def exit_reported_def)
qed

section \<open>The handlers follow the specification\<close>

definition phy_rel :: "phy_view \<Rightarrow> phyStateTaskData \<Rightarrow> bool" where
  "phy_rel v s = (phy_ok s \<and> phy_state s = true_state v \<and> in_proximity s = v_near v \<and> in_motion s = v_moving v
     \<and> reported_state s = v_told v \<and> phy_limited s = v_limited v)"

definition phy_input_of :: "message_id \<Rightarrow> phy_input option" where
  "phy_input_of i =
     (if i = PHY_STATE_INTERNAL_IN_CASE_EVENT then Some (Case_event True)
      else if i = PHY_STATE_INTERNAL_OUT_OF_CASE_EVENT then Some (Case_event False)
      else if i = PHY_STATE_INTERNAL_IN_EAR_EVENT then Some (Ear_event True)
      else if i = PHY_STATE_INTERNAL_OUT_OF_EAR_EVENT then Some (Ear_event False)
      else if i = PHY_STATE_INTERNAL_MOTION then Some (Motion_event True)
      else if i = PHY_STATE_INTERNAL_NOT_IN_MOTION then Some (Motion_event False)
      else if i = PHY_STATE_INTERNAL_TIMEOUT_NOTIFICATION_LIMIT then Some Limit_expired
      else None)"

text \<open>What one run of a handler leaves alone.\<close>

definition phy_frame :: "phy_env \<Rightarrow> phy_changed_ind option \<Rightarrow> phyStateTaskData \<Rightarrow> phyStateTaskData \<Rightarrow> bool" where
  "phy_frame e ind s s' = (phy_task s' = phy_task s \<and> phy_client_tasks s' = phy_client_tasks s \<and> lock s' = lock s
     \<and> lock_addr s' = lock_addr s \<and> phy_build s' = phy_build s \<and> phy_calls s' = phy_calls s
     \<and> (\<forall>i. i \<noteq> PHY_STATE_INTERNAL_TIMEOUT_NOTIFICATION_LIMIT \<longrightarrow> phy_pend s' i = phy_pend s i) \<and> tells e ind s s')"

definition follows :: "phy_env \<Rightarrow> phy_view \<times> phy_changed_ind option \<Rightarrow> phyStateTaskData \<Rightarrow> phyStateTaskData \<Rightarrow> bool" where
  "follows e r s s' = (phy_rel (fst r) s' \<and> phy_frame e (snd r) s s')"

text \<open>A handler that sets the new state, directly or by way of outside the ear, when the state is not what it was.\<close>

lemma SetState_twice:
  assumes "phy_ok s" "n \<noteq> PHY_STATE_UNKNOWN" "phy_limited s \<or> reported_state s \<noteq> PHY_STATE_OUT_OF_EAR"
    and "\<And>s'. phy_moved e n (hop n (reported_state s) (phy_limited s)) s s' \<Longrightarrow> Q s'"
  shows "succeeds (appPhyStateSetState e PHY_STATE_OUT_OF_EAR s) (\<lambda>s1. succeeds (appPhyStateSetState e n s1) Q)"
proof (rule SetState_hops [OF assms(1)])
  fix s1 assume a: "phy_moved e PHY_STATE_OUT_OF_EAR (hop PHY_STATE_OUT_OF_EAR (reported_state s) (phy_limited s)) s s1"
  obtain told l ind where r: "hop PHY_STATE_OUT_OF_EAR (reported_state s) (phy_limited s) = (told, l, ind)" by (rule prod_cases3)
  have s1: "phy_ok s1" "reported_state s1 = told" "phy_limited s1 = l" using a r by (auto simp: phy_moved_def)
  show "succeeds (appPhyStateSetState e n s1) Q"
  proof (rule SetState_hops [OF s1(1) assms(2)])
    fix s' assume b: "phy_moved e n (hop n (reported_state s1) (phy_limited s1)) s1 s'"
    obtain told' l' ind' where r': "hop n told l = (told', l', ind')" by (rule prod_cases3)
    have "ind = None \<or> ind' = None" using hop_silent [OF r] r' by (cases l; cases ind) (auto simp: hop_def)
    then have "phy_moved e n (and_then n (told, l, ind)) s s'"
      using phy_moved_trans [of e _ told l ind s s1 n told' l' ind' s'] a b r r' s1 by (simp add: and_then_def)
    then show "Q s'" using assms(4) hop_twice [OF assms(3), of n] r by simp
  qed
qed simp

text \<open>The state a handler starts from: the sensor's value is stored, the queue is without the delivered message.\<close>

lemma moved_follows:
  assumes "phy_moved e (true_state w) (hop (true_state w) (v_told w) (v_limited w)) s s'"
    "in_proximity s = v_near w" "in_motion s = v_moving w" "true_state w \<noteq> v_told w \<or> v_limited w"
    "phy_frame e None t s" "reported_state s = v_told w"
  shows "follows e (report w) t s'"
proof -
  obtain told l ind where r: "hop (true_state w) (v_told w) (v_limited w) = (told, l, ind)" by (rule prod_cases3)
  have w: "report w = (w\<lparr>v_told := told, v_limited := l\<rparr>, ind)"
    using assms(4) r by (cases "v_told w = true_state w") (auto simp: report_def hop_def)
  have "tells e ind t s'"
    using assms(1,5) r by (auto simp: phy_moved_def phy_frame_def tells_def)
  then show ?thesis
    using assms w r by (auto simp: follows_def phy_rel_def phy_moved_def phy_frame_def true_state_def)
qed

lemma kept_follows:
  assumes "phy_rel w s" "settled w" "phy_frame e None t s"
  shows "follows e (report w) t s"
proof -
  have "report w = (w, None)"
    using assms(2) by (cases w) (auto simp: report_def settled_def hop_def)
  then show ?thesis using assms by (simp add: follows_def)
qed

lemma set_follows:
  assumes "phy_rel v s" "settled v" "v_told w = v_told v" "v_limited w = v_limited v"
    "true_state w \<noteq> true_state v" "true_state w \<noteq> PHY_STATE_UNKNOWN"
    "phy_ok t" "in_proximity t = v_near w" "in_motion t = v_moving w" "phy_frame e None s t"
    "reported_state t = reported_state s" "phy_limited t = phy_limited s"
  shows "succeeds (appPhyStateSetState e (true_state w) t) (follows e (report w) s)"
    and "true_state v \<noteq> PHY_STATE_OUT_OF_EAR \<Longrightarrow> succeeds (appPhyStateSetState e PHY_STATE_OUT_OF_EAR t)
      (\<lambda>s1. succeeds (appPhyStateSetState e (true_state w) s1) (follows e (report w) s))"
proof -
  have r: "reported_state t = v_told w" "phy_limited t = v_limited w" "true_state w \<noteq> v_told w \<or> v_limited w"
    using assms(1-5,11,12) by (auto simp: phy_rel_def settled_def)
  have f: "follows e (report w) s s'" if "phy_moved e (true_state w) (hop (true_state w) (reported_state t) (phy_limited t)) t s'" for s'
    using that r by (intro moved_follows [OF _ assms(8,9) r(3) assms(10)]) simp_all
  show "succeeds (appPhyStateSetState e (true_state w) t) (follows e (report w) s)"
    by (rule SetState_hops [OF assms(7,6)]) (rule f)
  show "succeeds (appPhyStateSetState e PHY_STATE_OUT_OF_EAR t)
      (\<lambda>s1. succeeds (appPhyStateSetState e (true_state w) s1) (follows e (report w) s))" if "true_state v \<noteq> PHY_STATE_OUT_OF_EAR"
    using that r assms(2-4) by (intro SetState_twice [OF assms(7,6)] f) (auto simp: settled_def)
qed

lemma SetState_fields:
  assumes "phy_ok s" "n \<noteq> PHY_STATE_UNKNOWN"
  shows "succeeds (appPhyStateSetState e n s) (\<lambda>s1. in_proximity s1 = in_proximity s \<and> in_motion s1 = in_motion s)"
  by (rule SetState_hops [OF assms]) (auto simp: phy_moved_def split: prod.splits)

lemma phy_frame_refl: "phy_frame e None s s"
  by (simp add: phy_frame_def tells_def)

lemma sensor_fields:
  "phy_ok s \<Longrightarrow> phy_ok (s\<lparr>in_proximity := b\<rparr>)" "phy_ok s \<Longrightarrow> phy_ok (s\<lparr>in_motion := b\<rparr>)"
  "phy_frame e None s (s\<lparr>in_proximity := b\<rparr>)" "phy_frame e None s (s\<lparr>in_motion := b\<rparr>)"
  by (simp_all add: phy_ok_def phy_frame_def tells_def)

lemma case_follows:
  assumes "phy_rel v s" "settled v"
  shows "succeeds (appPhyStateHandleInternalInCaseEvent e s) (follows e (phy_spec (Case_event True) v) s)"
    and "succeeds (appPhyStateHandleInternalOutOfCaseEvent e s) (follows e (phy_spec (Case_event False) v) s)"
proof -
  have s: "phy_ok s" "phy_state s = true_state v" "in_proximity s = v_near v" "in_motion s = v_moving v"
    using assms(1) by (simp_all add: phy_rel_def)
  let ?w = "\<lambda>b. sense (Case_event b) v"
  have kept: "succeeds (Some s) (follows e (report (?w b)) s)" if "true_state (?w b) = true_state v" for b
    using assms that by (auto intro!: kept_follows phy_frame_refl simp: phy_rel_def settled_def)
  have w: "v_told (?w b) = v_told v" "v_limited (?w b) = v_limited v" "in_proximity s = v_near (?w b)" "in_motion s = v_moving (?w b)"
    "true_state (?w b) \<noteq> PHY_STATE_UNKNOWN" for b
    using s by (auto simp: true_state_def split: bool.splits)
  note set = set_follows [OF assms w(1,2) _ w(5) s(1) w(3,4) phy_frame_refl refl refl]
  have T: "true_state (?w True) = PHY_STATE_IN_CASE" by (simp add: true_state_def)
  show "succeeds (appPhyStateHandleInternalInCaseEvent e s) (follows e (phy_spec (Case_event True) v) s)"
    using kept [of True] set [of True] T s by (auto simp: appPhyStateHandleInternalInCaseEvent_def phy_spec_def)
  show "succeeds (appPhyStateHandleInternalOutOfCaseEvent e s) (follows e (phy_spec (Case_event False) v) s)"
  proof (cases "true_state v = PHY_STATE_IN_CASE \<or> true_state v = PHY_STATE_UNKNOWN")
    case False
    then have "true_state (?w False) = true_state v" by (auto simp: true_state_def split: option.splits bool.splits)
    then show ?thesis using kept [of False] s False by (simp add: appPhyStateHandleInternalOutOfCaseEvent_def phy_spec_def)
  next
    case True
    moreover have "true_state (?w False) \<noteq> PHY_STATE_IN_CASE" "true_state (?w False) \<noteq> PHY_STATE_UNKNOWN"
      by (simp_all add: true_state_def)
    ultimately have n: "true_state (?w False) \<noteq> true_state v" "true_state v \<noteq> PHY_STATE_OUT_OF_EAR"
      by (elim disjE; simp)+
    have "succeeds (appPhyStateSetState e PHY_STATE_OUT_OF_EAR s) (\<lambda>s1. succeeds
        (if in_proximity s1 then appPhyStateSetState e PHY_STATE_IN_EAR s1
         else if \<not> in_motion s1 then appPhyStateSetState e PHY_STATE_OUT_OF_EAR_AT_REST s1 else Some s1)
        (follows e (report (?w False)) s))"
    proof (cases "v_moving v \<and> \<not> v_near v")
      case True
      then have T: "true_state (?w False) = PHY_STATE_OUT_OF_EAR" by (simp add: true_state_def)
      show ?thesis
        by (rule succeeds_mono [OF succeeds_conj [OF set(1) [OF n(1), unfolded T] SetState_fields [OF s(1)]]])
          (use True s in simp_all)
    next
      case False
      show ?thesis
        by (rule succeeds_mono [OF succeeds_conj [OF set(2) [OF n] SetState_fields [OF s(1)]]])
          (use False s in \<open>auto simp: true_state_def\<close>)
    qed
    then show ?thesis using True s by (simp add: appPhyStateHandleInternalOutOfCaseEvent_def phy_spec_def del: succeeds_if)
  qed
qed

lemma ear_follows:
  assumes "phy_rel v s" "settled v"
  shows "succeeds (appPhyStateHandleInternalInEarEvent e s) (follows e (phy_spec (Ear_event True) v) s)"
    and "succeeds (appPhyStateHandleInternalOutOfEarEvent e s) (follows e (phy_spec (Ear_event False) v) s)"
proof -
  let ?w = "\<lambda>b. sense (Ear_event b) v" and ?s = "\<lambda>b. s\<lparr>in_proximity := b\<rparr>"
  have s: "phy_ok (?s b)" "phy_state (?s b) = true_state v" "in_proximity (?s b) = v_near (?w b)"
    "in_motion (?s b) = v_moving (?w b)" "phy_frame e None s (?s b)" for b
    using assms(1) sensor_fields(1) by (auto simp: phy_rel_def sensor_fields)
  have kept: "succeeds (Some (?s b)) (follows e (report (?w b)) s)" if "true_state (?w b) = true_state v" for b
    using assms that s by (auto intro!: kept_follows simp: phy_rel_def settled_def)
  have w: "v_told (?w b) = v_told v" "v_limited (?w b) = v_limited v" "true_state (?w b) \<noteq> PHY_STATE_UNKNOWN" for b
    by (auto simp: true_state_def split: bool.splits option.splits)
  have r: "reported_state (?s b) = reported_state s" "phy_limited (?s b) = phy_limited s" for b by simp_all
  note set = set_follows [OF assms w(1,2) _ w(3) s(1,3,4,5) r]
  show "succeeds (appPhyStateHandleInternalInEarEvent e s) (follows e (phy_spec (Ear_event True) v) s)"
  proof (cases "true_state v = PHY_STATE_IN_CASE \<or> true_state v = PHY_STATE_IN_EAR")
    case True
    then have "true_state (?w True) = true_state v" by (auto simp: true_state_def split: bool.splits option.splits if_splits)
    then show ?thesis using kept [of True] True s(2) [of True] by (simp add: appPhyStateHandleInternalInEarEvent_def phy_spec_def)
  next
    case False
    then have T: "true_state (?w True) = PHY_STATE_IN_EAR" by (auto simp: true_state_def split: bool.splits option.splits if_splits)
    then show ?thesis using set [of True] False s(2) [of True]
      by (auto simp: appPhyStateHandleInternalInEarEvent_def phy_spec_def Let_def)
  qed
  show "succeeds (appPhyStateHandleInternalOutOfEarEvent e s) (follows e (phy_spec (Ear_event False) v) s)"
  proof (cases "true_state v = PHY_STATE_UNKNOWN \<or> true_state v = PHY_STATE_IN_EAR")
    case False
    then have "true_state (?w False) = true_state v" by (auto simp: true_state_def split: bool.splits option.splits if_splits)
    then show ?thesis using kept [of False] False s(2) [of False] by (simp add: appPhyStateHandleInternalOutOfEarEvent_def phy_spec_def)
  next
    case True
    then have T: "true_state (?w False) = (if v_moving v then PHY_STATE_OUT_OF_EAR else PHY_STATE_OUT_OF_EAR_AT_REST)"
      by (auto simp: true_state_def split: bool.splits option.splits if_splits)
    then have n: "true_state (?w False) \<noteq> true_state v" "true_state v \<noteq> PHY_STATE_OUT_OF_EAR" using True by auto
    have "succeeds (appPhyStateSetState e PHY_STATE_OUT_OF_EAR (?s False)) (\<lambda>s1. succeeds
        (if \<not> in_motion s1 then appPhyStateSetState e PHY_STATE_OUT_OF_EAR_AT_REST s1 else Some s1)
        (follows e (report (?w False)) s))"
    proof (cases "v_moving v")
      case True
      then have U: "true_state (?w False) = PHY_STATE_OUT_OF_EAR" using T by simp
      show ?thesis
        by (rule succeeds_mono [OF succeeds_conj [OF set(1) [OF n(1), unfolded U] SetState_fields [OF s(1)]]])
          (use True s(4) [of False] in simp_all)
    next
      case False
      show ?thesis
        by (rule succeeds_mono [OF succeeds_conj [OF set(2) [OF n] SetState_fields [OF s(1)]]])
          (use False T s(4) [of False] in auto)
    qed
    then show ?thesis using True s(2) [of False]
      by (simp add: appPhyStateHandleInternalOutOfEarEvent_def phy_spec_def del: succeeds_if)
  qed
qed

lemma motion_follows:
  assumes "phy_rel v s" "settled v"
  shows "succeeds (appPhyStateHandleInternalMotionEvent e s) (follows e (phy_spec (Motion_event True) v) s)"
    and "succeeds (appPhyStateHandleInternalNotInMotionEvent e s) (follows e (phy_spec (Motion_event False) v) s)"
proof -
  let ?w = "\<lambda>b. sense (Motion_event b) v" and ?s = "\<lambda>b. s\<lparr>in_motion := b\<rparr>"
  have s: "phy_ok (?s b)" "phy_state (?s b) = true_state v" "in_proximity (?s b) = v_near (?w b)"
    "in_motion (?s b) = v_moving (?w b)" "phy_frame e None s (?s b)" for b
    using assms(1) sensor_fields(2) by (auto simp: phy_rel_def sensor_fields)
  have kept: "succeeds (Some (?s b)) (follows e (report (?w b)) s)" if "true_state (?w b) = true_state v" for b
    using assms that s by (auto intro!: kept_follows simp: phy_rel_def settled_def)
  have w: "v_told (?w b) = v_told v" "v_limited (?w b) = v_limited v" for b by simp_all
  have r: "reported_state (?s b) = reported_state s" "phy_limited (?s b) = phy_limited s" for b by simp_all
  note set = set_follows(1) [OF assms w _ _ s(1,3,4,5) r]
  show "succeeds (appPhyStateHandleInternalMotionEvent e s) (follows e (phy_spec (Motion_event True) v) s)"
  proof (cases "true_state v = PHY_STATE_OUT_OF_EAR_AT_REST")
    case False
    then have "true_state (?w True) = true_state v" by (auto simp: true_state_def split: bool.splits option.splits if_splits)
    then show ?thesis using kept [of True] False s(2) [of True] by (simp add: appPhyStateHandleInternalMotionEvent_def phy_spec_def)
  next
    case True
    then have "true_state (?w True) = PHY_STATE_OUT_OF_EAR" by (auto simp: true_state_def split: bool.splits option.splits if_splits)
    then show ?thesis using set [of True] True s(2) [of True] by (simp add: appPhyStateHandleInternalMotionEvent_def phy_spec_def)
  qed
  show "succeeds (appPhyStateHandleInternalNotInMotionEvent e s) (follows e (phy_spec (Motion_event False) v) s)"
  proof (cases "true_state v = PHY_STATE_OUT_OF_EAR")
    case False
    then have "true_state (?w False) = true_state v" by (auto simp: true_state_def split: bool.splits option.splits if_splits)
    then show ?thesis using kept [of False] False s(2) [of False] by (simp add: appPhyStateHandleInternalNotInMotionEvent_def phy_spec_def)
  next
    case True
    then have "true_state (?w False) = PHY_STATE_OUT_OF_EAR_AT_REST" by (auto simp: true_state_def split: bool.splits option.splits if_splits)
    then show ?thesis using set [of False] True s(2) [of False] by (simp add: appPhyStateHandleInternalNotInMotionEvent_def phy_spec_def)
  qed
qed

text \<open>The timer has just left the queue.\<close>

lemma limit_follows:
  assumes "phy_rel v s" "\<not> v_limited v" "true_state v = PHY_STATE_UNKNOWN \<Longrightarrow> v_told v = PHY_STATE_UNKNOWN"
  shows "succeeds (appPhyStateHandleInternalTimeoutNotificationLimit e s) (follows e (phy_spec Limit_expired v) s)"
proof -
  have w: "sense Limit_expired v = v" using assms(2) by (cases v) simp
  have s: "phy_ok s" "phy_state s = true_state v" "in_proximity s = v_near v" "in_motion s = v_moving v"
    "reported_state s = v_told v" "phy_limited s = v_limited v"
    using assms(1) by (simp_all add: phy_rel_def)
  show ?thesis
  proof (cases "true_state v = v_told v")
    case True
    then have "follows e (report v) s s" by (intro kept_follows [OF assms(1)] phy_frame_refl) (simp add: settled_def)
    then show ?thesis using True s w by (simp add: appPhyStateHandleInternalTimeoutNotificationLimit_def phy_spec_def)
  next
    case False
    then have n: "true_state v \<noteq> PHY_STATE_UNKNOWN" using assms(3) by auto
    have "succeeds (appPhyStateSetState e (true_state v) s) (follows e (report v) s)"
      by (rule SetState_hops [OF s(1) n], rule moved_follows [OF _ s(3,4)]) (use s False phy_frame_refl in auto)
    then show ?thesis using False s w by (simp add: appPhyStateHandleInternalTimeoutNotificationLimit_def phy_spec_def)
  qed
qed

section \<open>Invariant\<close>

text \<open>The view of a state: the case event is the one that led to it.\<close>

definition phy_abs :: "phyStateTaskData \<Rightarrow> phy_view" where
  "phy_abs s = \<lparr>v_case = (case phy_state s of PHY_STATE_UNKNOWN \<Rightarrow> None | PHY_STATE_IN_CASE \<Rightarrow> Some True | _ \<Rightarrow> Some False),
     v_near = in_proximity s, v_moving = in_motion s, v_told = reported_state s, v_limited = phy_limited s\<rparr>"

lemma phy_rel_abs: "phy_rel v s \<longleftrightarrow> phy_ok s \<and> v = phy_abs s \<and> phy_state s = true_state (phy_abs s)"
proof -
  have "v = phy_abs s" if "phy_rel v s"
    using that by (cases v) (auto simp: phy_rel_def phy_abs_def true_state_def split: option.splits bool.splits if_splits)
  then show ?thesis by (auto simp: phy_rel_def phy_abs_def)
qed

definition phy_inv :: "phyStateTaskData \<Rightarrow> bool" where
  "phy_inv s = (phy_ok s \<and> phy_state s = true_state (phy_abs s) \<and> settled (phy_abs s)
     \<and> (phy_state s = PHY_STATE_UNKNOWN \<longrightarrow> reported_state s = PHY_STATE_UNKNOWN))"

text \<open>Only the state before the first event is unknown.\<close>

lemma report_true_state: "true_state (fst (report w)) = true_state w"
  by (cases "hop (true_state w) (v_told w) (v_limited w)") (auto simp: report_def true_state_def split: prod.splits)

lemma spec_unknown:
  assumes "true_state v = PHY_STATE_UNKNOWN \<Longrightarrow> v_told v = PHY_STATE_UNKNOWN" "true_state (fst (phy_spec x v)) = PHY_STATE_UNKNOWN"
  shows "v_told (fst (phy_spec x v)) = PHY_STATE_UNKNOWN"
proof -
  have "true_state (sense x v) = PHY_STATE_UNKNOWN" using assms(2) by (simp add: phy_spec_def report_true_state)
  then have "v_told (sense x v) = PHY_STATE_UNKNOWN" "true_state (sense x v) = PHY_STATE_UNKNOWN"
    using assms(1) by (cases x; auto simp: true_state_def split: option.splits bool.splits if_splits)+
  then show ?thesis by (simp add: phy_spec_def report_def)
qed

lemma HandleMessage_follows:
  assumes "phy_rel v s" "phy_input_of i = Some x" "x \<noteq> Limit_expired \<Longrightarrow> settled v" "x = Limit_expired \<Longrightarrow> \<not> v_limited v"
    "true_state v = PHY_STATE_UNKNOWN \<Longrightarrow> v_told v = PHY_STATE_UNKNOWN"
  shows "succeeds (appPhyStateHandleMessage e i s) (follows e (phy_spec x v) s)"
  using assms(2-5) case_follows [OF assms(1), of e] ear_follows [OF assms(1), of e] motion_follows [OF assms(1), of e]
    limit_follows [OF assms(1), of e]
  by (auto simp: phy_input_of_def appPhyStateHandleMessage_def split: if_splits)

abbreviation phy_with_queue :: "phy_changed_ind msg_queue \<Rightarrow> phyStateTaskData \<Rightarrow> phyStateTaskData" where
  "phy_with_queue q s \<equiv> s\<lparr>phy_vm := (phy_vm s)\<lparr>vm_message_queue := q\<rparr>\<rparr>"

lemma posted_data_others:
  assumes "vm_message_queue s = q1 @ a # q2" "unicast_to t a" "u \<noteq> t"
  shows "posted_data u (s\<lparr>vm_message_queue := q1 @ q2\<rparr>) = posted_data u s"
  using assms by (simp add: posted_data_def pending_of_def addressed_to_def unicast_to_def)

text \<open>The effect of the delivery of one of the component's messages.\<close>

definition delivered ::
  "phy_env \<Rightarrow> phy_view \<times> phy_changed_ind option \<Rightarrow> phyStateTaskData \<Rightarrow> phyStateTaskData \<Rightarrow> bool" where
  "delivered e r s s' = (phy_inv s' \<and> phy_abs s' = fst r \<and> phy_task s' = phy_task s \<and> phy_client_tasks s' = phy_client_tasks s
     \<and> lock s' = lock s \<and> lock_addr s' = lock_addr s \<and> phy_build s' = phy_build s \<and> phy_calls s' = phy_calls s
     \<and> tells e (snd r) s s')"

lemma delivery_follows:
  assumes "phy_inv s" "vm_message_queue (phy_vm s) = q1 @ a # q2" "unicast_to (phy_task s) a" "phy_input_of (am_id a) = Some x"
  shows "succeeds (appPhyStateHandleMessage e (am_id a) (phy_with_queue (q1 @ q2) s)) (delivered e (phy_spec x (phy_abs s)) s)"
proof -
  let ?s = "phy_with_queue (q1 @ q2) s" and ?l = PHY_STATE_INTERNAL_TIMEOUT_NOTIFICATION_LIMIT
  have p: "phy_pend s i = (if i = am_id a then Suc (phy_pend ?s i) else phy_pend ?s i)" for i
    using pending_id_taken [OF assms(2,3), of i] by simp
  have inv: "phy_ok s" "phy_state s = true_state (phy_abs s)" "settled (phy_abs s)"
    "phy_state s = PHY_STATE_UNKNOWN \<Longrightarrow> reported_state s = PHY_STATE_UNKNOWN"
    using assms(1) by (simp_all add: phy_inv_def)
  have lim: "phy_limited ?s = (if x = Limit_expired then False else phy_limited s)"
    using p [of ?l] inv(1) assms(4)
    by (cases "am_id a = ?l") (auto simp: phy_ok_def phy_input_of_def phy_ids split: if_splits)
  have ok: "phy_ok ?s" using inv(1) p [of ?l] by (auto simp: phy_ok_def split: if_splits)
  have abs: "phy_abs ?s = (if x = Limit_expired then (phy_abs s)\<lparr>v_limited := False\<rparr> else phy_abs s)"
    using lim by (auto simp: phy_abs_def)
  have T: "true_state (phy_abs ?s) = true_state (phy_abs s)" by (simp add: true_state_def phy_abs_def)
  have rel: "phy_rel (phy_abs ?s) ?s" using ok inv(2) T by (simp add: phy_rel_abs)
  have spec: "phy_spec x (phy_abs ?s) = phy_spec x (phy_abs s)" using abs by (cases x) (auto simp: phy_spec_def)
  have known: "v_told (phy_abs s) = PHY_STATE_UNKNOWN" if "true_state (phy_abs s) = PHY_STATE_UNKNOWN"
    using inv(4) [unfolded inv(2), OF that] by (simp add: phy_abs_def)
  have unknown: "v_told (phy_abs ?s) = PHY_STATE_UNKNOWN" if "true_state (phy_abs ?s) = PHY_STATE_UNKNOWN"
    using known that [unfolded T] by (simp add: phy_abs_def)
  have "succeeds (appPhyStateHandleMessage e (am_id a) ?s) (follows e (phy_spec x (phy_abs ?s)) ?s)"
    by (rule HandleMessage_follows [OF rel assms(4) _ _ unknown]) (use abs inv(3) in simp_all)
  then show ?thesis
  proof (rule succeeds_mono)
    fix s' assume "follows e (phy_spec x (phy_abs ?s)) ?s s'"
    then have f: "phy_rel (fst (phy_spec x (phy_abs s))) s'" "phy_frame e (snd (phy_spec x (phy_abs s))) ?s s'"
      using spec by (simp_all add: follows_def)
    have v: "fst (phy_spec x (phy_abs s)) = phy_abs s'" "phy_ok s'" "phy_state s' = true_state (phy_abs s')"
      using f(1) by (simp_all add: phy_rel_abs)
    have k: "v_told (phy_abs s') = PHY_STATE_UNKNOWN" if "true_state (phy_abs s') = PHY_STATE_UNKNOWN"
      using spec_unknown [OF known, of x] that v(1) by simp
    have "v_told (phy_abs s') = reported_state s'" by (simp add: phy_abs_def)
    with k v(3) have "phy_state s' = PHY_STATE_UNKNOWN \<longrightarrow> reported_state s' = PHY_STATE_UNKNOWN" by metis
    then have "phy_inv s'" unfolding phy_inv_def using v spec_settled [of x "phy_abs s"] by metis
    moreover have "tells e (snd (phy_spec x (phy_abs s))) s s'"
      using f(2) posted_data_others [OF assms(2,3)] by (simp add: phy_frame_def tells_def)
    ultimately show "delivered e (phy_spec x (phy_abs s)) s s'"
      using f(2) v(1) by (simp add: delivered_def phy_frame_def)
  qed
qed

section \<open>Events and clients\<close>

definition phy_event_ids :: "message_id set" where
  "phy_event_ids = {PHY_STATE_INTERNAL_IN_CASE_EVENT, PHY_STATE_INTERNAL_OUT_OF_CASE_EVENT, PHY_STATE_INTERNAL_IN_EAR_EVENT,
     PHY_STATE_INTERNAL_OUT_OF_EAR_EVENT, PHY_STATE_INTERNAL_MOTION, PHY_STATE_INTERNAL_NOT_IN_MOTION}"

text \<open>Everything but the queue, the lock and the list of calls.\<close>

definition phy_same :: "phyStateTaskData \<Rightarrow> phyStateTaskData \<Rightarrow> bool" where
  "phy_same s s' = (phy_task s' = phy_task s \<and> phy_state s' = phy_state s \<and> phy_client_tasks s' = phy_client_tasks s
     \<and> in_motion s' = in_motion s \<and> in_proximity s' = in_proximity s \<and> reported_state s' = reported_state s
     \<and> lock_addr s' = lock_addr s \<and> phy_build s' = phy_build s
     \<and> pending_id (phy_task s) PHY_STATE_INTERNAL_TIMEOUT_NOTIFICATION_LIMIT (phy_vm s')
       = phy_pend s PHY_STATE_INTERNAL_TIMEOUT_NOTIFICATION_LIMIT)"

lemma phy_same_abs:
  assumes "phy_same s s'"
  shows "phy_abs s' = phy_abs s" "phy_ok s' = phy_ok s" "phy_inv s' = phy_inv s"
proof -
  show a: "phy_abs s' = phy_abs s" using assms by (simp add: phy_same_def phy_abs_def)
  show o: "phy_ok s' = phy_ok s" using assms by (simp add: phy_same_def phy_ok_def)
  show "phy_inv s' = phy_inv s" unfolding phy_inv_def a o using assms by (simp add: phy_same_def)
qed

lemma post_event_done:
  assumes "phy_ok s" "i \<in> phy_event_ids"
  shows "succeeds (post_event e i b s) (\<lambda>s'. phy_same s s' \<and> lock s' = lock s AND NOT b \<and> phy_calls s' = phy_calls s
    \<and> (\<forall>j. phy_pend s' j = (if j = i then 1 else phy_pend s j))
    \<and> (\<forall>u. u \<noteq> phy_task s \<and> u \<noteq> INVALIDATED_TASK \<longrightarrow> posted_data u (phy_vm s') = posted_data u (phy_vm s)))"
proof -
  have t: "phy_task s \<noteq> INVALIDATED_TASK" using assms(1) by (simp add: phy_ok_def)
  have i: "\<not> combinable i" "i \<noteq> PHY_STATE_INTERNAL_TIMEOUT_NOTIFICATION_LIMIT"
    using assms(2) by (auto simp: phy_event_ids_def phy_ids intro!: phy_ids_plain)
  show ?thesis (is "succeeds _ ?Q")
    unfolding post_event_def phy_cancel_all_def phy_send_def succeeds_simps
  proof (rule MessageCancelAll_succeeds [OF t])
    fix n q assume q: "\<And>u. u \<noteq> INVALIDATED_TASK \<Longrightarrow> posted_data u q
      = (if u = phy_task s then filter_mset (\<lambda>p. fst p \<noteq> i) (posted_data u (phy_vm s)) else posted_data u (phy_vm s))"
    have pq: "pending_id (phy_task s) j q = (if j = i then 0 else phy_pend s j)" for j
      using pending_id_cancelled [OF q [OF t]] by simp
    have "succeeds (MessageSend (phy_now e) (phy_task s) i None q) (\<lambda>q'. ?Q (appPhyStateClearLockBit b (s\<lparr>phy_vm := q'\<rparr>)))"
    proof (rule MessageSend_succeeds [OF i(1)])
      fix q' assume q': "\<And>u. posted_data u q' = (if u = phy_task s then add_mset (i, None) (posted_data u q) else posted_data u q)"
      have p: "pending_id (phy_task s) j q' = (if j = i then 1 else phy_pend s j)" for j
        using pending_id_sent [OF q', of "phy_task s" j] pq by simp
      show "?Q (appPhyStateClearLockBit b (s\<lparr>phy_vm := q'\<rparr>))"
        using q q' p i(2) by (simp add: appPhyStateClearLockBit_def phy_same_def)
    qed
    then show "succeeds (MessageSend (phy_now e) (phy_task (case (n, q) of (_, q) \<Rightarrow> s\<lparr>phy_vm := q\<rparr>)) i None
        (phy_vm (case (n, q) of (_, q) \<Rightarrow> s\<lparr>phy_vm := q\<rparr>)))
      (\<lambda>q'. ?Q (appPhyStateClearLockBit b ((case (n, q) of (_, q) \<Rightarrow> s\<lparr>phy_vm := q\<rparr>)\<lparr>phy_vm := q'\<rparr>)))"
      by simp
  qed
qed

lemma phy_sensor_ids:
  assumes "phy_input_of i = None"
  shows "appPhyStateHandleMessage e i s = handle_sensor e i s"
  using assms by (auto simp: phy_input_of_def appPhyStateHandleMessage_def split: if_splits)

text \<open>The bit of the lock a message from outside clears, and the event it leads to.\<close>

definition sensor_event :: "phy_build \<Rightarrow> message_id \<Rightarrow> (message_id \<times> u16) option" where
  "sensor_event b i =
     (if i = (if INCLUDE_HALL_EFFECT_SENSOR b then HALL_EFFECT_MESSAGE_MAGNET_PRESENT else CHARGER_MESSAGE_ATTACHED)
      then Some (PHY_STATE_INTERNAL_IN_CASE_EVENT, PHY_STATE_LOCK_CASE)
      else if i = (if INCLUDE_HALL_EFFECT_SENSOR b then HALL_EFFECT_MESSAGE_MAGNET_NOT_PRESENT else CHARGER_MESSAGE_DETACHED)
      then Some (PHY_STATE_INTERNAL_OUT_OF_CASE_EVENT, PHY_STATE_LOCK_CASE)
      else if i = ACCELEROMETER_MESSAGE_IN_MOTION then Some (PHY_STATE_INTERNAL_MOTION, PHY_STATE_LOCK_MOTION)
      else if i = ACCELEROMETER_MESSAGE_NOT_IN_MOTION then Some (PHY_STATE_INTERNAL_NOT_IN_MOTION, PHY_STATE_LOCK_MOTION)
      else if i = PROXIMITY_MESSAGE_IN_PROXIMITY then Some (PHY_STATE_INTERNAL_IN_EAR_EVENT, PHY_STATE_LOCK_EAR)
      else if i = PROXIMITY_MESSAGE_NOT_IN_PROXIMITY then Some (PHY_STATE_INTERNAL_OUT_OF_EAR_EVENT, PHY_STATE_LOCK_EAR)
      else None)"

lemma sensor_message_ids:
  "CHARGER_MESSAGE_CHARGING_OK \<notin> {CHARGER_MESSAGE_ATTACHED, CHARGER_MESSAGE_DETACHED, ACCELEROMETER_MESSAGE_IN_MOTION,
    ACCELEROMETER_MESSAGE_NOT_IN_MOTION, PROXIMITY_MESSAGE_IN_PROXIMITY, PROXIMITY_MESSAGE_NOT_IN_PROXIMITY}"
  "CHARGER_MESSAGE_CHARGING_LOW \<notin> {CHARGER_MESSAGE_ATTACHED, CHARGER_MESSAGE_DETACHED, ACCELEROMETER_MESSAGE_IN_MOTION,
    ACCELEROMETER_MESSAGE_NOT_IN_MOTION, PROXIMITY_MESSAGE_IN_PROXIMITY, PROXIMITY_MESSAGE_NOT_IN_PROXIMITY}"
  by (simp_all add: CHARGER_MESSAGE_CHARGING_OK_def CHARGER_MESSAGE_CHARGING_LOW_def CHARGER_MESSAGE_ATTACHED_def
      CHARGER_MESSAGE_DETACHED_def ACCELEROMETER_MESSAGE_IN_MOTION_def ACCELEROMETER_MESSAGE_NOT_IN_MOTION_def
      PROXIMITY_MESSAGE_IN_PROXIMITY_def PROXIMITY_MESSAGE_NOT_IN_PROXIMITY_def MESSAGE_BASE_def MSG_GRP_TO_ID_def
      MESSAGE_GROUP_def message_groups_def domains_message_groups_def)

lemma handle_sensor_event:
  "handle_sensor e i s = (case sensor_event (phy_build s) i of None \<Rightarrow> Some s | Some (j, b) \<Rightarrow> post_event e j b s)"
  using sensor_message_ids
  by (cases "INCLUDE_HALL_EFFECT_SENSOR (phy_build s)")
    (auto simp: handle_sensor_def sensor_event_def appPhyStateInCaseEvent_def appPhyStateOutOfCaseEvent_def
      appPhyStateInEarEvent_def appPhyStateOutOfEarEvent_def appPhyStateMotionEvent_def appPhyStateNotInMotionEvent_def)

lemma sensor_event_cases:
  assumes "sensor_event b i = Some (j, c)"
  shows "j \<in> phy_event_ids" "c \<in> {PHY_STATE_LOCK_CASE, PHY_STATE_LOCK_MOTION, PHY_STATE_LOCK_EAR}"
  using assms by (auto simp: sensor_event_def phy_event_ids_def split: if_splits)

lemma sensor_done:
  assumes "phy_ok s"
  shows "succeeds (handle_sensor e i s) (\<lambda>s'. phy_same s s'
    \<and> (\<forall>u. u \<noteq> phy_task s \<and> u \<noteq> INVALIDATED_TASK \<longrightarrow> posted_data u (phy_vm s') = posted_data u (phy_vm s))
    \<and> lock s' = lock s AND NOT (case sensor_event (phy_build s) i of None \<Rightarrow> 0 | Some (_, b) \<Rightarrow> b))"
proof (cases "sensor_event (phy_build s) i")
  case (Some p)
  obtain j b where p: "p = (j, b)" by fastforce
  show ?thesis
    using sensor_event_cases(1) [OF Some [unfolded p]] Some p
    by (auto simp: handle_sensor_event intro: succeeds_mono [OF post_event_done [OF assms]])
qed (simp add: handle_sensor_event phy_same_def)

lemma clients_same:
  assumes "phy_inv s" "tl_valid l" "length (tl_members l) \<le> 14" "phy_task s \<notin> set (tl_members l)"
  shows "phy_inv (s\<lparr>phy_client_tasks := l\<rparr>)"
proof -
  have a: "phy_abs (s\<lparr>phy_client_tasks := l\<rparr>) = phy_abs s" by (simp add: phy_abs_def)
  show ?thesis using assms unfolding phy_inv_def a by (simp add: phy_ok_def)
qed

lemma Register_done:
  assumes "phy_inv s" "t \<noteq> NULL_TASK" "t \<noteq> phy_task s" "length (phy_clients s) < 14"
  shows "succeeds (appPhyStateRegisterClient t s) (\<lambda>s'. phy_inv s' \<and> s' = s\<lparr>phy_client_tasks := phy_client_tasks s'\<rparr>
    \<and> phy_clients s' = (if t \<in> set (phy_clients s) then phy_clients s else phy_clients s @ [t]))"
proof -
  have c: "tl_valid (phy_client_tasks s)" "phy_task s \<notin> set (phy_clients s)" using assms(1) by (simp_all add: phy_inv_def phy_ok_def)
  show ?thesis
  proof (cases "t \<in> set (phy_clients s)")
    case True
    then show ?thesis using tl.add_old [OF c(1) True] assms(1) by (simp add: appPhyStateRegisterClient_def)
  next
    case False
    obtain l where l: "TaskList_AddTask (phy_client_tasks s) t = Some (True, l)" "tl_valid l" "tl_members l = phy_clients s @ [t]"
      using tl.add_new [OF c(1) assms(2) False] assms(4) by auto
    have "phy_inv (s\<lparr>phy_client_tasks := l\<rparr>)" by (rule clients_same [OF assms(1) l(2)]) (use l(3) c(2) assms(3,4) in simp_all)
    then show ?thesis using False l by (simp add: appPhyStateRegisterClient_def)
  qed
qed

lemma Unregister_done:
  assumes "phy_inv s" "t \<noteq> NULL_TASK"
  shows "succeeds (appPhyStateUnregisterClient t s) (\<lambda>s'. phy_inv s' \<and> s' = s\<lparr>phy_client_tasks := phy_client_tasks s'\<rparr>
    \<and> phy_clients s' = remove1 t (phy_clients s))"
proof -
  have c: "tl_valid (phy_client_tasks s)" "phy_task s \<notin> set (phy_clients s)" "length (phy_clients s) \<le> 14"
    using assms(1) by (simp_all add: phy_inv_def phy_ok_def)
  obtain b l where r: "TaskList_RemoveTask (phy_client_tasks s) t = Some (b, l)" "tl_valid l" "tl_members l = remove1 t (phy_clients s)"
    using tl.remove_old [OF c(1), of t] tl.remove_absent [OF c(1) assms(2)] c(1) remove1_idem [of t "phy_clients s"]
    by (cases "t \<in> set (phy_clients s)") fastforce+
  have "phy_inv (s\<lparr>phy_client_tasks := l\<rparr>)"
    by (rule clients_same [OF assms(1) r(2)])
      (use c r(3) length_remove1 [of t "phy_clients s"] set_remove1_subset [of t "phy_clients s"] in \<open>auto split: if_splits\<close>)
  then show ?thesis using r by (simp add: appPhyStateUnregisterClient_def)
qed

end
