(* ===== verification/PhyRuns.thy ===== *)
theory PhyRuns
  imports PhyState
begin

unbundle bit_operations_syntax

text \<open>
  The physical state component at work: its operations (\<open>phy_op\<close>), the states after \<open>appPhyStateInit\<close>
  (\<open>phy_reachable\<close>), and what a registered client gets to hear (\<open>phy_heard\<close>). The properties say that deliveries
  implement the specification of \<open>PhyState\<close>, that clients hear a path of the documented diagram, and that they
  catch up with the true state.
\<close>

section \<open>Runs\<close>

text \<open>The component's operations: messages from outside, calls of the event functions, its own messages in any order, clients.\<close>

inductive phy_op :: "phyStateTaskData \<Rightarrow> phyStateTaskData \<Rightarrow> bool" where
  op_sensor: "phy_input_of i = None \<Longrightarrow> appPhyStateHandleMessage e i s = Some s' \<Longrightarrow> phy_op s s'"
| op_event: "f \<in> {appPhyStateInCaseEvent, appPhyStateOutOfCaseEvent, appPhyStateInEarEvent, appPhyStateOutOfEarEvent,
      appPhyStateMotionEvent, appPhyStateNotInMotionEvent} \<Longrightarrow> f e s = Some s' \<Longrightarrow> phy_op s s'"
| op_deliver: "vm_message_queue (phy_vm s) = q1 @ a # q2 \<Longrightarrow> unicast_to (phy_task s) a \<Longrightarrow> phy_input_of (am_id a) \<noteq> None \<Longrightarrow>
    appPhyStateHandleMessage e (am_id a) (phy_with_queue (q1 @ q2) s) = Some s' \<Longrightarrow> phy_op s s'"
| op_register: "t \<noteq> NULL_TASK \<Longrightarrow> t \<noteq> phy_task s \<Longrightarrow> length (phy_clients s) < 14 \<Longrightarrow>
    appPhyStateRegisterClient t s = Some s' \<Longrightarrow> phy_op s s'"
| op_unregister: "t \<noteq> NULL_TASK \<Longrightarrow> appPhyStateUnregisterClient t s = Some s' \<Longrightarrow> phy_op s s'"
| op_dormant: "phy_op s (appPhyStatePrepareToEnterDormant s)"

text \<open>The indications a task has pending, without their addresses.\<close>

definition ind_of :: "phy_changed_ind msg_data option \<Rightarrow> phy_changed_ind option" where
  "ind_of m = (case m of Some (_, App x) \<Rightarrow> Some x | _ \<Rightarrow> None)"

definition indications :: "task \<Rightarrow> phy_changed_ind vm \<Rightarrow> phy_changed_ind option multiset" where
  "indications u q = image_mset (\<lambda>p. ind_of (snd p)) (filter_mset (\<lambda>p. fst p = PHY_STATE_CHANGED_IND) (posted_data u q))"

text \<open>The rest of the system takes and posts messages, but not those of the component.\<close>

definition phy_rest :: "phyStateTaskData \<Rightarrow> phyStateTaskData \<Rightarrow> bool" where
  "phy_rest s s' = (s' = s\<lparr>phy_vm := phy_vm s'\<rparr>
     \<and> (\<forall>i. phy_input_of i \<noteq> None \<longrightarrow> phy_pend s' i = phy_pend s i)
     \<and> (\<forall>u. indications u (phy_vm s') \<subseteq># indications u (phy_vm s)))"

definition phy_start :: "phyStateTaskData \<Rightarrow> bool" where
  "phy_start s = (phy_task s \<noteq> NULL_TASK \<and> phy_task s \<noteq> INVALIDATED_TASK \<and> (\<forall>i. phy_input_of i \<noteq> None \<longrightarrow> phy_pend s i = 0))"

inductive phy_reachable :: "phyStateTaskData \<Rightarrow> bool" where
  phy_init: "phy_start s0 \<Longrightarrow> appPhyStateInit e t s0 = Some (r, s) \<Longrightarrow> phy_reachable s"
| phy_step: "phy_reachable s \<Longrightarrow> phy_op s s' \<Longrightarrow> phy_reachable s'"
| phy_other: "phy_reachable s \<Longrightarrow> phy_rest s s' \<Longrightarrow> phy_reachable s'"

text \<open>What a client gets to hear while it is registered.\<close>

inductive phy_heard :: "task \<Rightarrow> phyStateTaskData \<Rightarrow> phy_changed_ind list \<Rightarrow> phyStateTaskData \<Rightarrow> bool" for u s0 where
  heard_start: "phy_reachable s0 \<Longrightarrow> u \<in> set (phy_clients s0) \<Longrightarrow> u \<noteq> INVALIDATED_TASK \<Longrightarrow> phy_heard u s0 [] s0"
| heard_op: "phy_heard u s0 tr s \<Longrightarrow> phy_op s s' \<Longrightarrow> u \<in> set (phy_clients s') \<Longrightarrow>
    indications u (phy_vm s') = indications u (phy_vm s) + mset (map Some new) \<Longrightarrow> phy_heard u s0 (tr @ new) s'"
| heard_other: "phy_heard u s0 tr s \<Longrightarrow> phy_rest s s' \<Longrightarrow> phy_heard u s0 tr s'"

lemma InitialiseWithCapacity_empty:
  assumes "0 < n" "n \<le> 15"
  shows "\<exists>l. TaskList_InitialiseWithCapacity n = Some l \<and> tl_valid l \<and> tl_members l = []"
proof -
  obtain l where l: "TaskList_InitialiseWithCapacity n = Some l" "tl_repr l [] []"
    using assms by (auto simp: TaskList_InitialiseWithCapacity_def TASK_LIST_MAX_TASKS_def
        TASK_LIST_SIZE_BITS_def taskList_FlexibleSizeSet_def tl_repr_def union_of_def data_of_def)
  then show ?thesis using tl_validI [OF l(2)] tl_members_repr [OF l(2)] by (auto simp: tasks_ok_def)
qed

lemma SendConditionally_pending:
  assumes "\<not> combinable i"
    and "\<And>q'. (\<And>u j. pending_id u j q' = (if u = t \<and> j = i then Suc (pending_id u j q) else pending_id u j q)) \<Longrightarrow> Q q'"
  shows "succeeds (MessageSendConditionally now t i m c q) Q"
proof -
  define a where "a = \<lparr>am_due = D_IMMEDIATE + now, am_t = Unicast t, am_message = m,
    am_condition_addr = c, am_id = i, am_c_width = CONDITION_WIDTH_16BIT, am_refcount = 1\<rparr>"
  obtain q' where q': "insert_msg a (vm_message_queue q) = (True, q')"
    using insert_after_accepts [of a None "vm_message_queue q"] assms
    by (cases "insert_msg a (vm_message_queue q)") (simp add: insert_msg_def a_def)
  have "mset (pending_of u q') = (if u = t then {#(am_due a, i, m)#} else {#}) + mset (pending_of u (vm_message_queue q))"
    for u using insert_after_pending [OF q' [unfolded insert_msg_def], of u] by (simp add: addressed_to_def a_def)
  then have p: "posted_data u (vm_event_trigger (q\<lparr>vm_message_queue := q'\<rparr>)) =
      (if u = t then add_mset (i, m) (posted_data u q) else posted_data u q)" for u
    by (simp add: posted_data_def)
  have "MessageSendConditionally now t i m c q = Some (vm_event_trigger (q\<lparr>vm_message_queue := q'\<rparr>))"
    using q' by (simp add: MessageSendConditionally_def vm_message_send_later_def recipients_of_def a_def [symmetric])
  then show ?thesis using assms(2) [OF pending_id_sent [OF p]] by (simp add: succeeds_def)
qed


lemma send_same:
  assumes "\<not> combinable i" "i \<noteq> PHY_STATE_INTERNAL_TIMEOUT_NOTIFICATION_LIMIT" "\<And>s'. phy_same s s' \<Longrightarrow> Q s'"
  shows "succeeds (phy_send e i s) Q"
  unfolding phy_send_def succeeds_simps
proof (rule MessageSend_succeeds [OF assms(1)])
  fix q assume "\<And>u. posted_data u q = (if u = phy_task s then add_mset (i, None) (posted_data u (phy_vm s)) else posted_data u (phy_vm s))"
  from pending_id_sent [OF this, of "phy_task s"] assms(2) show "Q (s\<lparr>phy_vm := q\<rparr>)"
    by (intro assms(3)) (simp add: phy_same_def)
qed

lemma phy_same_trans: "phy_same s s' \<Longrightarrow> phy_same s' s'' \<Longrightarrow> phy_same s s''"
  by (simp add: phy_same_def)

lemma phy_same_refl: "phy_same s s" by (simp add: phy_same_def)

lemma phy_same_log: "phy_same s (phy_log c s)" by (simp add: phy_same_def phy_log_def)

lemma default_ids:
  "\<not> combinable CHARGER_MESSAGE_DETACHED" "\<not> combinable PROXIMITY_MESSAGE_IN_PROXIMITY" "\<not> combinable ACCELEROMETER_MESSAGE_IN_MOTION"
  "CHARGER_MESSAGE_DETACHED \<noteq> 6" "PROXIMITY_MESSAGE_IN_PROXIMITY \<noteq> 6" "ACCELEROMETER_MESSAGE_IN_MOTION \<noteq> 6"
  "PHY_STATE_INIT_CFM \<noteq> 6"
  by (simp_all add: combinable_def system_message_ids CHARGER_MESSAGE_DETACHED_def PROXIMITY_MESSAGE_IN_PROXIMITY_def
      ACCELEROMETER_MESSAGE_IN_MOTION_def PHY_STATE_INIT_CFM_def MESSAGE_BASE_def MSG_GRP_TO_ID_def MESSAGE_GROUP_def
      message_groups_def domains_message_groups_def)

lemma register_or_assume_same:
  assumes "\<not> combinable i" "i \<noteq> 6"
  shows "succeeds (register_or_assume e c i s) (phy_same s)"
proof (cases "accepts_client e c")
  case False
  have "succeeds (phy_send e i (phy_log (Client_register c (phy_task s)) s)) (phy_same s)"
    by (rule send_same [OF assms(1)]) (use assms(2) in \<open>simp_all add: phy_ids phy_same_trans [OF phy_same_log]\<close>)
  with False show ?thesis by (simp add: register_or_assume_def Let_def)
qed (simp add: register_or_assume_def Let_def phy_same_log)

lemma phy_Init_done:
  assumes "phy_start s"
  shows "succeeds (appPhyStateInit e t s) (\<lambda>(r, s'). r \<and> phy_inv s' \<and> phy_clients s' = [] \<and> phy_task s' = phy_task s
    \<and> phy_state s' = PHY_STATE_UNKNOWN \<and> lock s' = 7)"
proof -
  obtain l where l: "TaskList_InitialiseWithCapacity PHY_STATE_CLIENT_TASK_LIST_INIT_CAPACITY = Some l" "tl_valid l" "tl_members l = []"
    using InitialiseWithCapacity_empty [of PHY_STATE_CLIENT_TASK_LIST_INIT_CAPACITY] by (auto simp: PHY_STATE_CLIENT_TASK_LIST_INIT_CAPACITY_def)
  let ?s1 = "s\<lparr>phy_state := PHY_STATE_UNKNOWN, reported_state := PHY_STATE_UNKNOWN, phy_client_tasks := l,
    in_motion := False, in_proximity := False\<rparr>"
  have "phy_input_of PHY_STATE_INTERNAL_TIMEOUT_NOTIFICATION_LIMIT \<noteq> None" by (simp add: phy_input_of_def)
  then have s1: "phy_inv ?s1"
    using assms l by (auto simp: phy_inv_def phy_ok_def phy_start_def settled_def true_state_def phy_abs_def)
  have A: "succeeds (if INCLUDE_HALL_EFFECT_SENSOR (phy_build ?s1) then Some (phy_log (Client_register Hall_effect (phy_task ?s1)) ?s1)
      else if \<not> DISABLE_IN_CASE_PHY_STATE (phy_build ?s1) then Some (phy_log (Client_register Charger (phy_task ?s1)) ?s1)
      else phy_send e CHARGER_MESSAGE_DETACHED ?s1) (phy_same ?s1)"
    using phy_same_log default_ids by (auto simp: phy_ids intro!: send_same)
  have Q: "succeeds (MessageSendConditionally (phy_now e) t PHY_STATE_INIT_CFM None (Some (lock_addr s5)) (phy_vm s5)) (\<lambda>q. phy_same s5 (s5\<lparr>phy_vm := q\<rparr>))"
    for s5 by (rule SendConditionally_pending) (use phy_client_ids default_ids in \<open>auto simp: phy_same_def phy_ids\<close>)
  have L: "phy_same s4 (s4\<lparr>lock := 7\<rparr>)" for s4 by (simp add: phy_same_def)
  have l7: "PHY_STATE_LOCK_EAR OR PHY_STATE_LOCK_MOTION OR PHY_STATE_LOCK_CASE = 7"
    by (simp add: PHY_STATE_LOCK_EAR_def PHY_STATE_LOCK_MOTION_def PHY_STATE_LOCK_CASE_def)
  have fin: "r \<and> phy_inv s' \<and> phy_clients s' = [] \<and> phy_task s' = phy_task s \<and> phy_state s' = PHY_STATE_UNKNOWN"
    if "phy_same ?s1 s'" "r" for s' r
    using phy_same_abs(3) [OF that(1)] s1 that l by (simp add: phy_same_def)
  show ?thesis
    unfolding appPhyStateInit_def l(1) Option.bind.bind_lunit Let_def l7 succeeds_simps
  proof (rule succeeds_mono [OF A], rule succeeds_mono [OF register_or_assume_same [OF default_ids(2,5)]],
      rule succeeds_mono [OF register_or_assume_same [OF default_ids(3,6)]])
    fix s2 s3 s4 assume a: "phy_same ?s1 s2" "phy_same s2 s3" "phy_same s3 s4"
    have b: "phy_same ?s1 (s4\<lparr>lock := 7\<rparr>)" by (rule phy_same_trans [OF phy_same_trans [OF phy_same_trans [OF a(1) a(2)] a(3)] L])
    show "succeeds (MessageSendConditionally (phy_now e) t PHY_STATE_INIT_CFM None (Some (lock_addr (s4\<lparr>lock := 7\<rparr>))) (phy_vm (s4\<lparr>lock := 7\<rparr>)))
      (\<lambda>q. case (True, s4\<lparr>lock := 7\<rparr>\<lparr>phy_vm := q\<rparr>) of (r, s') \<Rightarrow> r \<and> phy_inv s' \<and> phy_clients s' = [] \<and> phy_task s' = phy_task s
        \<and> phy_state s' = PHY_STATE_UNKNOWN \<and> lock s' = 7)"
    proof (rule succeeds_mono [OF Q])
      fix q assume "phy_same (s4\<lparr>lock := 7\<rparr>) (s4\<lparr>lock := 7\<rparr>\<lparr>phy_vm := q\<rparr>)"
      from fin [OF phy_same_trans [OF b this], of True]
      show "case (True, s4\<lparr>lock := 7\<rparr>\<lparr>phy_vm := q\<rparr>) of (r, s') \<Rightarrow> r \<and> phy_inv s' \<and> phy_clients s' = [] \<and> phy_task s' = phy_task s
        \<and> phy_state s' = PHY_STATE_UNKNOWN \<and> lock s' = 7" by simp
    qed
  qed
qed

lemma event_function:
  assumes "f \<in> {appPhyStateInCaseEvent, appPhyStateOutOfCaseEvent, appPhyStateInEarEvent, appPhyStateOutOfEarEvent,
      appPhyStateMotionEvent, appPhyStateNotInMotionEvent}"
  shows "\<exists>i b. i \<in> phy_event_ids \<and> f e = post_event e i b"
  using assms by (auto simp: fun_eq_iff appPhyStateInCaseEvent_def appPhyStateOutOfCaseEvent_def appPhyStateInEarEvent_def
      appPhyStateOutOfEarEvent_def appPhyStateMotionEvent_def appPhyStateNotInMotionEvent_def phy_event_ids_def)

lemma dormant_same: "phy_same s (appPhyStatePrepareToEnterDormant s)" "phy_vm (appPhyStatePrepareToEnterDormant s) = phy_vm s"
  by (simp_all add: appPhyStatePrepareToEnterDormant_def Let_def phy_same_def phy_log_def)

lemma phy_same_clients: "phy_same s s' \<Longrightarrow> phy_client_tasks s' = phy_client_tasks s" "phy_same s s' \<Longrightarrow> phy_task s' = phy_task s"
  "phy_same s s' \<Longrightarrow> reported_state s' = reported_state s"
  by (simp_all add: phy_same_def)

text \<open>An operation: either no client hears anything and the reported state stays, or a message of the component was delivered.\<close>

definition phy_quiet :: "phyStateTaskData \<Rightarrow> phyStateTaskData \<Rightarrow> bool" where
  "phy_quiet s s' = (reported_state s' = reported_state s \<and> phy_task s' = phy_task s
     \<and> (\<forall>u. u \<noteq> phy_task s \<and> u \<noteq> INVALIDATED_TASK \<longrightarrow> posted_data u (phy_vm s') = posted_data u (phy_vm s)))"

lemma phy_op_done:
  assumes "phy_op s s'" "phy_inv s"
  shows "phy_inv s' \<and> (phy_quiet s s' \<or> (\<exists>e x. delivered e (phy_spec x (phy_abs s)) s s'))"
  using assms
proof cases
  case (op_sensor i e)
  have "phy_same s s' \<and> phy_quiet s s'"
    using succeedsD [OF sensor_done op_sensor(2) [unfolded phy_sensor_ids [OF op_sensor(1)]]] assms(2)
    by (simp add: phy_inv_def phy_quiet_def phy_same_def)
  then show ?thesis using assms(2) phy_same_abs(3) [of s s'] by simp
next
  case (op_event f e)
  obtain i b where f: "i \<in> phy_event_ids" "f e = post_event e i b" using event_function [OF op_event(1), of e] by blast
  have "phy_same s s' \<and> phy_quiet s s'"
    using succeedsD [OF post_event_done [OF _ f(1)] op_event(2) [unfolded f(2)]] assms(2)
    by (simp add: phy_inv_def phy_quiet_def phy_same_def)
  then show ?thesis using assms(2) phy_same_abs(3) [of s s'] by simp
next
  case (op_deliver q1 a q2 e)
  then obtain x where x: "phy_input_of (am_id a) = Some x" by blast
  from succeedsD [OF delivery_follows [OF assms(2) op_deliver(1,2) x] op_deliver(4)]
  have "delivered e (phy_spec x (phy_abs s)) s s'" .
  then show ?thesis by (auto simp: delivered_def)
next
  case (op_register t)
  have i: "phy_inv s'" and f: "s' = s\<lparr>phy_client_tasks := phy_client_tasks s'\<rparr>"
    using succeedsD [OF Register_done [OF assms(2) op_register(1-3)] op_register(4)] by blast+
  have "phy_quiet s s'" by (subst f) (simp add: phy_quiet_def)
  with i show ?thesis by simp
next
  case (op_unregister t)
  have i: "phy_inv s'" and f: "s' = s\<lparr>phy_client_tasks := phy_client_tasks s'\<rparr>"
    using succeedsD [OF Unregister_done [OF assms(2) op_unregister(1)] op_unregister(2)] by blast+
  have "phy_quiet s s'" by (subst f) (simp add: phy_quiet_def)
  with i show ?thesis by simp
next
  case op_dormant
  have "phy_quiet s s'" using dormant_same [of s] by (simp add: op_dormant phy_quiet_def phy_same_def)
  then show ?thesis using assms(2) phy_same_abs(3) [OF dormant_same(1)] op_dormant by simp
qed

lemma phy_rest_inv:
  assumes "phy_rest s s'" "phy_inv s"
  shows "phy_inv s'" "reported_state s' = reported_state s" "phy_client_tasks s' = phy_client_tasks s" "phy_task s' = phy_task s"
proof -
  obtain q where q: "s' = s\<lparr>phy_vm := q\<rparr>" using assms(1) unfolding phy_rest_def by blast
  have "phy_input_of PHY_STATE_INTERNAL_TIMEOUT_NOTIFICATION_LIMIT \<noteq> None" by (simp add: phy_input_of_def)
  then have "phy_same s s'" using assms(1) q by (simp add: phy_rest_def phy_same_def)
  then show "phy_inv s'" "reported_state s' = reported_state s" "phy_client_tasks s' = phy_client_tasks s" "phy_task s' = phy_task s"
    using phy_same_abs(3) assms(2) phy_same_clients by simp_all
qed

lemma phy_reachable_inv: "phy_reachable s \<Longrightarrow> phy_inv s"
proof (induction rule: phy_reachable.induct)
  case (phy_init s0 e t r s)
  then show ?case using succeedsD [OF phy_Init_done [OF phy_init(1)] phy_init(2)] by simp
next
  case (phy_step s s')
  then show ?case using phy_op_done by simp
next
  case (phy_other s s')
  then show ?case using phy_rest_inv(1) by simp
qed

section \<open>Properties\<close>

text \<open>C33: The handlers implement the specification: when one of the component's own messages is delivered in a reachable
state, its handler returns and the view of the new state is that of the specification: the state is the function
\<open>true_state\<close> of the last events delivered, the reported state moves by at most one transition, and not while the
timer runs; exactly the registered clients get the indication of that transition, if there is one, and the messages
of the other tasks stay as they are.\<close>

theorem phy_state_follows_sensors:
  assumes "phy_reachable s" "vm_message_queue (phy_vm s) = q1 @ a # q2" "unicast_to (phy_task s) a"
    "phy_input_of (am_id a) = Some x"
  shows "\<exists>s'. appPhyStateHandleMessage e (am_id a) (phy_with_queue (q1 @ q2) s) = Some s'
    \<and> phy_abs s' = fst (phy_spec x (phy_abs s)) \<and> phy_state s' = true_state (phy_abs s')
    \<and> (\<forall>u. u \<noteq> phy_task s \<longrightarrow> posted_data u (phy_vm s') =
         (case snd (phy_spec x (phy_abs s)) of
            Some ind \<Rightarrow> if u \<in> set (phy_clients s) then {#(PHY_STATE_CHANGED_IND, Some (ind_addr e, App ind))#} else {#}
          | None \<Rightarrow> {#}) + posted_data u (phy_vm s))"
proof -
  obtain s' where s': "appPhyStateHandleMessage e (am_id a) (phy_with_queue (q1 @ q2) s) = Some s'"
    "delivered e (phy_spec x (phy_abs s)) s s'"
    by (rule succeedsE [OF delivery_follows [OF phy_reachable_inv [OF assms(1)] assms(2-4)]])
  have "phy_state s' = true_state (phy_abs s')" using s'(2) unfolding delivered_def phy_inv_def by blast
  then show ?thesis using s' by (auto simp: delivered_def tells_def split: option.splits)
qed

text \<open>A client that has heard nothing yet is outside the ear.\<close>

definition shown_state :: "phyStateTaskData \<Rightarrow> phyState" where
  "shown_state s = (if appPhyStateGetState s = PHY_STATE_UNKNOWN then PHY_STATE_OUT_OF_EAR else appPhyStateGetState s)"

fun diagram_path :: "phyState \<Rightarrow> phy_changed_ind list \<Rightarrow> phyState \<Rightarrow> bool" where
  "diagram_path a [] b = (a = b)"
| "diagram_path a (x # xs) b = ((a, ind_event x, ind_new_state x) \<in> phy_diagram \<and> diagram_path (ind_new_state x) xs b)"

lemma diagram_path_append: "diagram_path a (xs @ ys) c \<longleftrightarrow> (\<exists>b. diagram_path a xs b \<and> diagram_path b ys c)"
  by (induction xs arbitrary: a) auto

lemma report_diagram:
  assumes "v' = fst (report v)"
  shows "diagram_path (if v_told v = PHY_STATE_UNKNOWN then PHY_STATE_OUT_OF_EAR else v_told v)
    (case snd (report v) of None \<Rightarrow> [] | Some x \<Rightarrow> [x])
    (if v_told v' = PHY_STATE_UNKNOWN then PHY_STATE_OUT_OF_EAR else v_told v')"
proof (cases "v_told v = true_state v \<or> v_limited v")
  case False
  then show ?thesis unfolding assms
    by (cases "v_told v"; cases "true_state v") (simp_all add: report_def hop_def phy_diagram_def)
qed (auto simp: assms report_def hop_def)

lemma op_heard:
  assumes "phy_inv s" "phy_op s s'" "u \<in> set (phy_clients s')" "u \<noteq> INVALIDATED_TASK"
    "indications u (phy_vm s') = indications u (phy_vm s) + mset (map Some new)"
  shows "diagram_path (shown_state s) new (shown_state s')"
proof -
  have t: "u \<noteq> phy_task s'" "phy_task s' = phy_task s"
    using phy_op_done [OF assms(2,1)] assms(3) by (auto simp: phy_inv_def phy_ok_def phy_quiet_def delivered_def)
  from phy_op_done [OF assms(2,1)] consider "phy_quiet s s'" | e x where "delivered e (phy_spec x (phy_abs s)) s s'" by blast
  then show ?thesis
  proof cases
    case 1
    then have "indications u (phy_vm s') = indications u (phy_vm s)" using t assms(4) by (simp add: phy_quiet_def indications_def)
    then have "new = []" using assms(5) by simp
    then show ?thesis using 1 by (simp add: phy_quiet_def shown_state_def appPhyStateGetState_def)
  next
    case 2
    let ?r = "phy_spec x (phy_abs s)"
    have "u \<in> set (phy_clients s)" using 2 assms(3) by (simp add: delivered_def)
    then have "posted_data u (phy_vm s') = (case snd ?r of None \<Rightarrow> {#} | Some y \<Rightarrow> {#(PHY_STATE_CHANGED_IND, Some (ind_addr e, App y))#})
        + posted_data u (phy_vm s)"
      using 2 t by (simp add: delivered_def tells_def)
    then have "indications u (phy_vm s') = indications u (phy_vm s) + mset (map Some (case snd ?r of None \<Rightarrow> [] | Some y \<Rightarrow> [y]))"
      by (simp add: indications_def ind_of_def split: option.splits)
    then have "mset (map Some new) = mset (map Some (case snd ?r of None \<Rightarrow> [] | Some y \<Rightarrow> [y]))"
      using assms(5) by simp
    then have n: "new = (case snd ?r of None \<Rightarrow> [] | Some y \<Rightarrow> [y])" by (cases new) (auto split: option.splits)
    have told: "v_told (phy_abs s') = reported_state s'" "v_told (sense x (phy_abs s)) = reported_state s"
      by (cases x; simp add: phy_abs_def)+
    have "phy_abs s' = fst (report (sense x (phy_abs s)))" using 2 by (simp add: delivered_def phy_spec_def)
    from report_diagram [OF this] show ?thesis
      unfolding shown_state_def appPhyStateGetState_def n phy_spec_def told .
  qed
qed

lemma heard_path:
  "phy_heard u s0 tr s \<Longrightarrow> phy_reachable s \<and> u \<noteq> INVALIDATED_TASK \<and> diagram_path (shown_state s0) tr (shown_state s)"
proof (induction rule: phy_heard.induct)
  case (heard_op tr s s' new)
  then have "diagram_path (shown_state s) new (shown_state s')"
    using op_heard [OF phy_reachable_inv] by blast
  then show ?case using heard_op phy_step by (auto simp: diagram_path_append)
next
  case (heard_other tr s s')
  then show ?case
    using phy_rest_inv(2) [OF _ phy_reachable_inv, of s s'] phy_other by (auto simp: shown_state_def appPhyStateGetState_def)
qed simp

text \<open>C34: Whatever the sensors report, in whatever order the component's messages are handled and clients come and go,
the indications a client gets while it is registered, in the order in which they are sent, are a path of the
diagram documented in \<open>phy_state.h\<close>, from the state reported when it began to listen to the state reported now; a state that
was never reported counts as outside the ear.\<close>

theorem clients_hear_diagram:
  assumes "phy_heard u s0 inds s"
  shows "diagram_path (shown_state s0) inds (shown_state s)"
  using heard_path [OF assms] by simp

text \<open>The delivery of the timer.\<close>

inductive limit_delivery :: "phy_env \<Rightarrow> phyStateTaskData \<Rightarrow> phyStateTaskData \<Rightarrow> bool" where
  "vm_message_queue (phy_vm s) = q1 @ a # q2 \<Longrightarrow> unicast_to (phy_task s) a \<Longrightarrow>
    am_id a = PHY_STATE_INTERNAL_TIMEOUT_NOTIFICATION_LIMIT \<Longrightarrow>
    appPhyStateHandleMessage e (am_id a) (phy_with_queue (q1 @ q2) s) = Some s' \<Longrightarrow> limit_delivery e s s'"

text \<open>How many transitions the clients are behind.\<close>

definition phy_behind :: "phyStateTaskData \<Rightarrow> nat" where
  "phy_behind s = (if appPhyStateGetState s = phy_state s then 0
     else if appPhyStateGetState s \<in> {PHY_STATE_UNKNOWN, PHY_STATE_OUT_OF_EAR} \<or> phy_state s = PHY_STATE_OUT_OF_EAR then 1
     else 2)"

text \<open>C35: The clients catch up: while the reported state is not the true one, the timer is pending, and each delivery of the
timer leaves the true state as it is and takes the reported state one transition closer, so that two deliveries
are enough; once the two agree, the timer changes nothing.\<close>

theorem reported_state_catches_up:
  assumes "phy_reachable s"
  shows "(phy_behind s \<noteq> 0 \<longrightarrow> fst (MessagePendingFirst now (phy_task s) PHY_STATE_INTERNAL_TIMEOUT_NOTIFICATION_LIMIT (phy_vm s)))
    \<and> (\<forall>e s'. limit_delivery e s s' \<longrightarrow> phy_state s' = phy_state s \<and> phy_behind s' = phy_behind s - 1)
    \<and> phy_behind s \<le> 2"
proof -
  note inv = phy_reachable_inv [OF assms]
  have i: "settled (phy_abs s)" "phy_state s = true_state (phy_abs s)"
    "phy_state s = PHY_STATE_UNKNOWN \<longrightarrow> reported_state s = PHY_STATE_UNKNOWN"
    using inv unfolding phy_inv_def by blast+
  have a: "v_told (phy_abs s) = reported_state s" "v_limited (phy_abs s) = phy_limited s" by (simp_all add: phy_abs_def)
  have 1: "phy_limited s" if "phy_behind s \<noteq> 0"
  proof -
    have "v_told (phy_abs s) \<noteq> true_state (phy_abs s)"
      using that a(1) unfolding phy_behind_def appPhyStateGetState_def i(2) [symmetric] by presburger
    then show ?thesis using i(1) a(2) by (simp add: settled_def)
  qed
  have 2: "phy_state s' = phy_state s \<and> phy_behind s' = phy_behind s - 1" if "limit_delivery e s s'" for e s'
    using that
  proof cases
    case (1 q1 m q2)
    have "phy_input_of (am_id m) = Some Limit_expired" using 1(3) by (simp add: phy_input_of_def phy_ids)
    from succeedsD [OF delivery_follows [OF inv 1(1,2) this] 1(4)]
    have d: "phy_inv s'" "phy_abs s' = fst (phy_spec Limit_expired (phy_abs s))" by (simp_all add: delivered_def)
    let ?v = "sense Limit_expired (phy_abs s)"
    have v: "true_state ?v = phy_state s" "v_told ?v = reported_state s" "\<not> v_limited ?v"
      using i(2) a(1) by (simp_all add: true_state_def)
    have s': "phy_state s' = true_state (phy_abs s')" "reported_state s' = v_told (phy_abs s')"
      using d(1) unfolding phy_inv_def by (blast, simp add: phy_abs_def)
    have "true_state (phy_abs s') = phy_state s"
      unfolding d(2) phy_spec_def report_true_state v(1) ..
    moreover have "v_told (phy_abs s') = (if reported_state s = phy_state s then reported_state s
        else fst (hop (phy_state s) (reported_state s) False))"
      using v(3) unfolding d(2) phy_spec_def report_def v(1,2) by (simp add: v(2) a(1) split: prod.splits)
    ultimately show ?thesis
      unfolding phy_behind_def appPhyStateGetState_def s' using i(3)
      by (cases "reported_state s"; cases "phy_state s") (simp_all add: hop_def)
  qed
  have "phy_behind s \<le> 2" by (simp add: phy_behind_def)
  then show ?thesis unfolding pending_first using 1 2 by blast
qed

section \<open>Examples\<close>

declare cancel_all_loop.simps [code] array_loop.simps [code] phy_ids [code]

lemma succeeds_code [code]: "succeeds m P = (case m of None \<Rightarrow> False | Some x \<Rightarrow> P x)"
  by (cases m) simp_all

text \<open>The values of the ids, and the index of a new task without the detour over 16 bits.\<close>

lemma phy_message_values [code]:
  "CHARGER_MESSAGE_ATTACHED = 1152" "CHARGER_MESSAGE_DETACHED = 1153" "CHARGER_MESSAGE_CHARGING_OK = 1155"
  "CHARGER_MESSAGE_CHARGING_LOW = 1156" "HALL_EFFECT_MESSAGE_MAGNET_PRESENT = 1024" "HALL_EFFECT_MESSAGE_MAGNET_NOT_PRESENT = 1025"
  "ACCELEROMETER_MESSAGE_IN_MOTION = 960" "ACCELEROMETER_MESSAGE_NOT_IN_MOTION = 961" "PROXIMITY_MESSAGE_IN_PROXIMITY = 896"
  "PROXIMITY_MESSAGE_NOT_IN_PROXIMITY = 897" "PHY_STATE_INIT_CFM = 576" "PHY_STATE_CHANGED_IND = 577"
  by (simp_all add: CHARGER_MESSAGE_CHARGING_OK_def CHARGER_MESSAGE_CHARGING_LOW_def CHARGER_MESSAGE_ATTACHED_def
      CHARGER_MESSAGE_DETACHED_def HALL_EFFECT_MESSAGE_MAGNET_PRESENT_def HALL_EFFECT_MESSAGE_MAGNET_NOT_PRESENT_def
      ACCELEROMETER_MESSAGE_IN_MOTION_def ACCELEROMETER_MESSAGE_NOT_IN_MOTION_def PROXIMITY_MESSAGE_IN_PROXIMITY_def
      PROXIMITY_MESSAGE_NOT_IN_PROXIMITY_def PHY_STATE_INIT_CFM_def PHY_STATE_CHANGED_IND_def MESSAGE_BASE_def MSG_GRP_TO_ID_def
      MESSAGE_GROUP_def message_groups_def domains_message_groups_def)

lemma AddTask_code [code]:
  "TaskList_AddTask l t =
     do {
       PanicNull t;
       on_list \<leftarrow> TaskList_IsTaskOnList l t;
       if on_list then Some (False, l)
       else do {
         l1 \<leftarrow> taskList_Resize l (size_list l + 1);
         l2 \<leftarrow> taskList_SetTaskAtIndex l1 t
                (if 0 < size_list l1 \<and> size_list l1 \<le> 16 then size_list l1 - 1 else (size_list l1 + 0xFFFF) mod 0x10000);
         Some (True, l2)
       }
     }"
proof -
  have "(if 0 < n \<and> n \<le> 16 then n - 1 else (n + 0xFFFF) mod 0x10000) = (n + 0xFFFF) mod 0x10000" for n :: nat
  proof (cases "0 < n \<and> n \<le> 16")
    case True
    then have "n + 0xFFFF = (n - 1) + 0x10000" by simp
    then have "(n + 0xFFFF) mod 0x10000 = (n - 1) mod 0x10000" by (metis mod_add_self2)
    moreover have "(n - 1) mod 0x10000 = n - 1" by (rule mod_less) (use True in linarith)
    ultimately show ?thesis using True by simp
  qed auto
  then show ?thesis by (simp only: TaskList_AddTask_def)
qed

definition demo_phy_env :: phy_env where
  "demo_phy_env = \<lparr>phy_now = 100, ind_addr = 500, accepts_client = (\<lambda>c. c = Proximity \<or> c = Accelerometer)\<rparr>"

definition demo_phy :: phyStateTaskData where
  "demo_phy = \<lparr>phy_task = 9, phy_state = PHY_STATE_IN_EAR, phy_client_tasks = list_of_3, in_motion = False, in_proximity = False, lock = 0,
     reported_state = PHY_STATE_IN_EAR, lock_addr = 64,
     phy_build = \<lparr>INCLUDE_HALL_EFFECT_SENSOR = False, DISABLE_IN_CASE_PHY_STATE = False\<rparr>,
     phy_vm = \<lparr>vm_message_queue = [], vm_delivered_messages = [], sched_event_pending = False, put_message_ok = True,
       registered_hdlrs = [], sink_source_hdlrs = [], run_timer = None\<rparr>, phy_calls = []\<rparr>"

text \<open>Messages from outside, the delivery of the message at a position of the queue, and registrations.\<close>

datatype phy_command = Outside message_id | Own_message nat | Join task

fun phy_exec :: "phy_command list \<Rightarrow> phyStateTaskData \<Rightarrow> phyStateTaskData option" where
  "phy_exec [] s = Some s"
| "phy_exec (Outside i # cs) s =
     (if phy_input_of i = None then appPhyStateHandleMessage demo_phy_env i s \<bind> phy_exec cs else None)"
| "phy_exec (Own_message n # cs) s =
     (let q = vm_message_queue (phy_vm s)
      in if n < length q \<and> unicast_to (phy_task s) (q ! n) \<and> phy_input_of (am_id (q ! n)) \<noteq> None
         then appPhyStateHandleMessage demo_phy_env (am_id (q ! n)) (phy_with_queue (take n q @ drop (Suc n) q) s) \<bind> phy_exec cs
         else None)"
| "phy_exec (Join t # cs) s =
     (if t \<noteq> NULL_TASK \<and> t \<noteq> phy_task s \<and> length (phy_clients s) < 14
      then appPhyStateRegisterClient t s \<bind> phy_exec cs else None)"

lemma phy_exec_reachable: "phy_exec cs s = Some s' \<Longrightarrow> phy_reachable s \<Longrightarrow> phy_reachable s'"
proof (induction cs s rule: phy_exec.induct)
  case (2 i cs s)
  then show ?case using phy_step [OF _ op_sensor] by (auto simp: bind_eq_Some_conv split: if_splits)
next
  case (3 n cs s)
  then show ?case using phy_step [OF _ op_deliver [OF id_take_nth_drop]] by (auto simp: bind_eq_Some_conv Let_def split: if_splits)
next
  case (4 t cs s)
  then show ?case using phy_step [OF _ op_register] by (auto simp: bind_eq_Some_conv split: if_splits)
qed simp

text \<open>Clients 20 and 21 are registered; the earbud is put into the case, and taken out while the timer runs.\<close>

definition demo_joined :: "phyStateTaskData option" where
  "demo_joined = map_option snd (appPhyStateInit demo_phy_env 30 demo_phy) \<bind> phy_exec [Join 20, Join 21]"
definition demo_docked :: "phyStateTaskData option" where
  "demo_docked = demo_joined \<bind> phy_exec [Outside CHARGER_MESSAGE_ATTACHED]"
definition demo_told :: "phyStateTaskData option" where "demo_told = demo_docked \<bind> phy_exec [Own_message 1]"
definition demo_undocked :: "phyStateTaskData option" where
  "demo_undocked = demo_told \<bind> phy_exec [Outside CHARGER_MESSAGE_DETACHED]"
definition demo_behind :: "phyStateTaskData option" where "demo_behind = demo_undocked \<bind> phy_exec [Own_message 2]"

lemma demo_phy_reachable:
  "demo_joined = Some s \<Longrightarrow> phy_reachable s" "demo_docked = Some s \<Longrightarrow> phy_reachable s" "demo_told = Some s \<Longrightarrow> phy_reachable s"
  "demo_undocked = Some s \<Longrightarrow> phy_reachable s" "demo_behind = Some s \<Longrightarrow> phy_reachable s"
proof -
  have "phy_start demo_phy"
    by (simp add: phy_start_def demo_phy_def pending_id_def posted_data_def pending_of_def INVALIDATED_TASK_def)
  then have i: "appPhyStateInit demo_phy_env 30 demo_phy = Some (r, s1) \<Longrightarrow> phy_reachable s1" for r s1 by (rule phy_init)
  show j: "demo_joined = Some s \<Longrightarrow> phy_reachable s" for s
    using i by (auto simp: demo_joined_def bind_eq_Some_conv intro: phy_exec_reachable simp del: phy_exec.simps)
  show d: "demo_docked = Some s \<Longrightarrow> phy_reachable s" for s
    using j by (auto simp: demo_docked_def bind_eq_Some_conv intro: phy_exec_reachable simp del: phy_exec.simps)
  show t: "demo_told = Some s \<Longrightarrow> phy_reachable s" for s
    using d by (auto simp: demo_told_def bind_eq_Some_conv intro: phy_exec_reachable simp del: phy_exec.simps)
  show u: "demo_undocked = Some s \<Longrightarrow> phy_reachable s" for s
    using t by (auto simp: demo_undocked_def bind_eq_Some_conv intro: phy_exec_reachable simp del: phy_exec.simps)
  show "demo_behind = Some s \<Longrightarrow> phy_reachable s" for s
    using u by (auto simp: demo_behind_def bind_eq_Some_conv intro: phy_exec_reachable simp del: phy_exec.simps)
qed

text \<open>The queue in short.\<close>

definition phy_messages :: "phyStateTaskData \<Rightarrow> (recipients \<times> message_id \<times> phy_changed_ind option) list" where
  "phy_messages s = map (\<lambda>a. (am_t a, am_id a, ind_of (am_message a))) (vm_message_queue (phy_vm s))"

lemma indications_messages:
  "indications u (phy_vm s) = mset (map (\<lambda>(_, _, d). d)
     (filter (\<lambda>(t, i, _). i = PHY_STATE_CHANGED_IND \<and> (case t of Unicast v \<Rightarrow> v = u | Multicast ts \<Rightarrow> u \<in> set ts)) (phy_messages s)))"
proof -
  have "image_mset (\<lambda>p. ind_of (snd p)) (filter_mset (\<lambda>p. fst p = PHY_STATE_CHANGED_IND) (mset (map snd (pending_of u xs))))
    = mset (map (\<lambda>(_, _, d). d) (filter (\<lambda>(t, i, _). i = PHY_STATE_CHANGED_IND
        \<and> (case t of Unicast v \<Rightarrow> v = u | Multicast ts \<Rightarrow> u \<in> set ts)) (map (\<lambda>a. (am_t a, am_id a, ind_of (am_message a))) xs)))"
    for xs by (induction xs) (auto simp: addressed_to_def split: recipients.splits)
  then show ?thesis by (simp add: indications_def posted_data_def phy_messages_def)
qed

lemma demo_phy_values:
  "succeeds demo_joined (\<lambda>s. reported_state s = PHY_STATE_UNKNOWN \<and> phy_clients s = [20, 21]
     \<and> phy_messages s = [(Unicast 30, 576, None)])"
  "succeeds demo_docked (\<lambda>s. phy_clients s = [20, 21] \<and> phy_messages s = [(Unicast 30, 576, None), (Unicast 9, 0, None)])"
  "succeeds demo_told (\<lambda>s. reported_state s = PHY_STATE_IN_CASE \<and> phy_clients s = [20, 21]
     \<and> phy_messages s = [(Unicast 30, 576, None),
       (Multicast [20, 21], 577, Some \<lparr>ind_new_state = PHY_STATE_IN_CASE, ind_event = phy_state_event_in_case\<rparr>), (Unicast 9, 6, None)])"
  "succeeds demo_undocked (\<lambda>s. phy_task s = 9 \<and> phy_abs s = \<lparr>v_case = Some True, v_near = False, v_moving = False, v_told = PHY_STATE_IN_CASE, v_limited = True\<rparr>
     \<and> map (\<lambda>a. (am_t a, am_id a)) (vm_message_queue (phy_vm s)) = [(Unicast 30, 576), (Multicast [20, 21], 577), (Unicast 9, 1), (Unicast 9, 6)])"
  "succeeds demo_behind (\<lambda>s. phy_task s = 9 \<and> phy_state s = PHY_STATE_OUT_OF_EAR_AT_REST \<and> reported_state s = PHY_STATE_IN_CASE
     \<and> map (\<lambda>a. (am_t a, am_id a)) (vm_message_queue (phy_vm s)) = [(Unicast 30, 576), (Multicast [20, 21], 577), (Unicast 9, 6)])"
  by code_simp+

theorem phy_state_follows_sensors_witness:
  "succeeds demo_undocked (\<lambda>s. phy_state s = PHY_STATE_IN_CASE \<and> (\<exists>q1 a q2 s'. vm_message_queue (phy_vm s) = q1 @ a # q2
     \<and> appPhyStateHandleMessage demo_phy_env (am_id a) (phy_with_queue (q1 @ q2) s) = Some s'
     \<and> phy_state s' = PHY_STATE_OUT_OF_EAR_AT_REST))"
proof (rule succeedsE [OF demo_phy_values(4)], elim conjE)
  fix s
  assume s: "demo_undocked = Some s" "phy_task s = 9"
    "phy_abs s = \<lparr>v_case = Some True, v_near = False, v_moving = False, v_told = PHY_STATE_IN_CASE, v_limited = True\<rparr>"
    "map (\<lambda>a. (am_t a, am_id a)) (vm_message_queue (phy_vm s)) = [(Unicast 30, 576), (Multicast [20, 21], 577), (Unicast 9, 1), (Unicast 9, 6)]"
  from s(4) obtain m n a l where q: "vm_message_queue (phy_vm s) = [m, n] @ a # [l]" "am_t a = Unicast 9" "am_id a = 1"
    by (auto simp: map_eq_Cons_conv)
  have r: "phy_reachable s" by (rule demo_phy_reachable(4) [OF s(1)])
  have "unicast_to (phy_task s) a" "phy_input_of (am_id a) = Some (Case_event False)"
    using q(2,3) s(2) by (simp_all add: unicast_to_def phy_input_of_def phy_ids)
  from phy_state_follows_sensors [OF r q(1) this, of demo_phy_env]
  obtain s' where s': "appPhyStateHandleMessage demo_phy_env (am_id a) (phy_with_queue ([m, n] @ [l]) s) = Some s'"
    "phy_abs s' = fst (phy_spec (Case_event False) (phy_abs s))" "phy_state s' = true_state (phy_abs s')" by blast
  have "phy_state s' = PHY_STATE_OUT_OF_EAR_AT_REST"
    unfolding s'(3) s'(2) s(3) by (simp add: phy_spec_def report_def hop_def true_state_def)
  moreover have "phy_state s = PHY_STATE_IN_CASE"
    using phy_reachable_inv [OF r] s(3) by (simp add: phy_inv_def true_state_def)
  ultimately show ?thesis unfolding succeeds_def
    by (intro exI [of _ s] conjI exI [of _ "[m, n]"] exI [of _ a] exI [of _ "[l]"] exI [of _ s'] s(1) q(1) s'(1))
qed

theorem clients_hear_diagram_witness:
  "succeeds demo_joined (\<lambda>s0. succeeds demo_told (\<lambda>s. phy_heard 20 s0 [\<lparr>ind_new_state = PHY_STATE_IN_CASE, ind_event = phy_state_event_in_case\<rparr>] s
     \<and> diagram_path PHY_STATE_OUT_OF_EAR [\<lparr>ind_new_state = PHY_STATE_IN_CASE, ind_event = phy_state_event_in_case\<rparr>] PHY_STATE_IN_CASE))"
proof (rule succeedsE [OF demo_phy_values(1)], rule succeedsE [OF demo_phy_values(2)], rule succeedsE [OF demo_phy_values(3)], elim conjE)
  let ?i = "\<lparr>ind_new_state = PHY_STATE_IN_CASE, ind_event = phy_state_event_in_case\<rparr>"
  fix s0 s1 s
  assume s0: "demo_joined = Some s0" "reported_state s0 = PHY_STATE_UNKNOWN" "phy_clients s0 = [20, 21]" "phy_messages s0 = [(Unicast 30, 576, None)]"
    and s1: "demo_docked = Some s1" "phy_clients s1 = [20, 21]" "phy_messages s1 = [(Unicast 30, 576, None), (Unicast 9, 0, None)]"
    and s: "demo_told = Some s" "reported_state s = PHY_STATE_IN_CASE" "phy_clients s = [20, 21]"
      "phy_messages s = [(Unicast 30, 576, None), (Multicast [20, 21], 577, Some ?i), (Unicast 9, 6, None)]"
  have o1: "phy_op s0 s1" using s1(1) by (auto simp: demo_docked_def s0(1) bind_eq_Some_conv split: if_splits intro: op_sensor)
  have o2: "phy_op s1 s" using s(1) op_deliver [OF id_take_nth_drop, of 1 s1]
    by (auto simp: demo_told_def s1(1) bind_eq_Some_conv Let_def split: if_splits)
  have "phy_heard 20 s0 [] s0" using demo_phy_reachable(1) [OF s0(1)] s0(3) by (intro heard_start) (simp_all add: INVALIDATED_TASK_def)
  from heard_op [OF this o1, of "[]"] have "phy_heard 20 s0 [] s1"
    using s0(4) s1(2,3) by (simp add: indications_messages phy_message_values)
  from heard_op [OF this o2, of "[?i]"] have h: "phy_heard 20 s0 [?i] s"
    using s1(3) s(3,4) by (simp add: indications_messages phy_message_values)
  have "diagram_path PHY_STATE_OUT_OF_EAR [?i] PHY_STATE_IN_CASE"
    using clients_hear_diagram [OF h] by (simp add: s0(2) s(2) shown_state_def appPhyStateGetState_def)
  then show ?thesis unfolding succeeds_def
    by (intro exI [of _ s0] exI [of _ s] conjI s0(1) s(1) h)
qed

theorem reported_state_catches_up_witness:
  "succeeds demo_behind (\<lambda>s. phy_behind s = 2
     \<and> fst (MessagePendingFirst 0 (phy_task s) PHY_STATE_INTERNAL_TIMEOUT_NOTIFICATION_LIMIT (phy_vm s))
     \<and> (\<exists>s'. limit_delivery demo_phy_env s s' \<and> phy_behind s' = 1))"
proof (rule succeedsE [OF demo_phy_values(5)], elim conjE)
  fix s
  assume s: "demo_behind = Some s" "phy_task s = 9" "phy_state s = PHY_STATE_OUT_OF_EAR_AT_REST" "reported_state s = PHY_STATE_IN_CASE"
    "map (\<lambda>a. (am_t a, am_id a)) (vm_message_queue (phy_vm s)) = [(Unicast 30, 576), (Multicast [20, 21], 577), (Unicast 9, 6)]"
  from s(5) obtain m n a where q: "vm_message_queue (phy_vm s) = [m, n] @ a # []" "am_t a = Unicast 9" "am_id a = 6"
    by (auto simp: map_eq_Cons_conv)
  have r: "phy_reachable s" by (rule demo_phy_reachable(5) [OF s(1)])
  have a: "unicast_to (phy_task s) a" "am_id a = PHY_STATE_INTERNAL_TIMEOUT_NOTIFICATION_LIMIT" "phy_input_of (am_id a) = Some Limit_expired"
    using q(2,3) s(2) by (simp_all add: unicast_to_def phy_input_of_def phy_ids)
  obtain s' where "appPhyStateHandleMessage demo_phy_env (am_id a) (phy_with_queue ([m, n] @ []) s) = Some s'"
    by (rule succeedsE [OF delivery_follows [OF phy_reachable_inv [OF r] q(1) a(1,3)]])
  then have "limit_delivery demo_phy_env s s'" by (rule limit_delivery.intros [OF q(1) a(1,2)])
  moreover have b: "phy_behind s = 2" using s(3,4) by (simp add: phy_behind_def appPhyStateGetState_def)
  ultimately show ?thesis using reported_state_catches_up [OF r, of 0] s(1) by (auto simp: succeeds_def)
qed

text \<open>
  A build without sensors: the three messages that stand for them are handled first, the lock is open, and the
  confirmation is the next message to be delivered; the state is still unknown, as the events wait behind it.
\<close>

definition demo_no_sensors :: phyStateTaskData where
  "demo_no_sensors = demo_phy\<lparr>phy_build := \<lparr>INCLUDE_HALL_EFFECT_SENSOR = False, DISABLE_IN_CASE_PHY_STATE = True\<rparr>\<rparr>"

definition deliver_first :: "phyStateTaskData \<Rightarrow> phyStateTaskData option" where
  "deliver_first s = (case vm_message_queue (phy_vm s) of
     [] \<Rightarrow> None | a # q \<Rightarrow> appPhyStateHandleMessage demo_phy_env (am_id a) (phy_with_queue q s))"

lemma confirmed_before_known:
  "succeeds (map_option snd (appPhyStateInit (demo_phy_env\<lparr>accepts_client := (\<lambda>_. False)\<rparr>) 30 demo_no_sensors)
       \<bind> deliver_first \<bind> deliver_first \<bind> deliver_first)
     (\<lambda>s. map_option (\<lambda>p. (am_t (fst p), am_id (fst p))) (first_unblocked (\<lambda>_. ucast (lock s)) (vm_message_queue (phy_vm s)))
            = Some (Unicast 30, PHY_STATE_INIT_CFM)
        \<and> phy_state s = PHY_STATE_UNKNOWN \<and> appPhyStateGetState s = PHY_STATE_UNKNOWN)"
  by code_simp

text \<open>A moving earbud that is first found outside the case: the state is reported, but no client is told.\<close>

lemma first_state_not_told:
  "succeeds (demo_joined \<bind> phy_exec [Outside ACCELEROMETER_MESSAGE_IN_MOTION, Own_message 1, Outside CHARGER_MESSAGE_DETACHED, Own_message 1])
     (\<lambda>s. appPhyStateGetState s = PHY_STATE_OUT_OF_EAR \<and> phy_messages s = [(Unicast 30, PHY_STATE_INIT_CFM, None)])"
  by code_simp

end
