(* ===== verification/Spec2Isabelle.thy ===== *)
theory Spec2Isabelle
  imports RwcpServer GoalsEngine Device BandwidthManager PowerManager InputEvents ChargerRuns PhyRuns
begin

text \<open>
  This development models parts of the application firmware of an earbud (an ADK for the QCC514x and
  QCC304x) and of the firmware of its message scheduler, and proves what makes them correct. It follows
  the C code function by function; the theory names below are those of this directory.

  The program. The ADK is a set of single-threaded components on an event loop. A component has a
  state, functions that other components call, and a handler for the messages posted to its \<open>Task\<close>.
  \<^item> The firmware posts and delivers messages in time order (theory \<open>MessageQueue\<close>:
    \<open>os/.../trap_api/trap_api_message.c\<close>), to one task or to a list of tasks.
  \<^item> Components keep their clients in task lists (\<open>TaskList\<close>: \<open>libs/task_list/task_list.c\<close>), some with
    a word of data per client (\<open>ClientData\<close>: the contract such a component relies on), and number
    their messages by groups, which clients join through the message broker (\<open>DomainMessage\<close>:
    \<open>domains/common/domain_message.h\<close>, \<open>libs/message_broker\<close>).
  \<^item> A topology decides what to do by rules over events (\<open>RulesEngine\<close>:
    \<open>common/rules_engine\<close>), queues the resulting goals by contention rules (\<open>GoalsEngine\<close>), runs their
    procedures, single ones or scripts of them (\<open>ScriptEngine\<close>), and gets their completions,
    some of them delayed (\<open>Procedures\<close>): \<open>topologies/common\<close>.
  \<^item> Devices are stores of properties (\<open>KeyValueList\<close>: \<open>libs/key_value_list\<close>; \<open>Device\<close>: \<open>libs/device\<close> and
    \<open>libs/device_list\<close>). Bluetooth features share the radio by priority (\<open>BandwidthManager\<close>:
    \<open>domains/bt/bandwidth_manager\<close>). Upgrade data arrive by a sliding-window protocol
    (\<open>RwcpServer\<close>: \<open>libs/rwcp_server\<close>).
  \<^item> Power: the battery is classified into regions that set the charging current and the battery state
    (\<open>BatteryRegion\<close>: \<open>domains/power/battery_region\<close> and the earbud's tables); the power manager
    (\<open>PowerManager\<close>: \<open>domains/power/power_manager\<close>) negotiates sleep and shutdown with its clients and
    has the system state component (\<open>SystemState\<close>: \<open>domains/power/system_state\<close>) carry them out. The charger
    monitor (\<open>domains/power/charger_monitor\<close>) switches the charger, sets its current and probes what the attached
    charger can give: \<open>ChargerMonitor\<close> holds its model and the proofs on the switch, \<open>ChargerInvariant\<close> the invariant,
    \<open>ChargerRuns\<close> its reachable states and properties; \<open>Outcomes\<close> is the small calculus of operations that succeed
    they are written with.
  \<^item> Sensors: the temperature component (\<open>Temperature\<close>: \<open>domains/sensor/temperature\<close>, with the earbud's
    thermistor table) filters the readings and tells its clients, the power manager among them, when a limit
    is crossed. The physical state (\<open>PhyState\<close>, \<open>PhyRuns\<close>: \<open>domains/sensor/phy_state\<close>) follows the charger, the
    proximity sensor and the accelerometer, and tells its clients one transition of the documented diagram at a time.
  \<^item> Inputs: the pin monitor (\<open>PioMonitor\<close>: \<open>libs/pio_monitor\<close>) tells tasks of the changes of their pins; the
    input event manager (\<open>InputEvents\<close>: \<open>libs/input_event_manager\<close>) turns them into presses, holds and clicks by
    a table of actions. \<open>MessageData\<close> is the contract on posted data that both rely on.

  How a theory models its code. A struct is a record with the source's fields, an enumeration a
  datatype (or words where its numbers matter), a machine integer a word of its width. A function of the code is
  a definition of the same name that takes the state and returns it updated; what it asks of
  components outside the theory (clocks, addresses of allocated messages, sensor readings, the
  hardware) is an argument, and what it does to them is an output, a list of calls. A component that posts
  messages has the modelled scheduler as a part of its state, so that sending, cancelling and flushing are
  those of \<open>MessageQueue\<close>. \<open>Panic()\<close>, a read or write outside an allocation and a call through NULL are the result
  \<open>None\<close>; theorems that an operation succeeds say that the result is \<open>Some\<close>. The removal from a key-value list
  reads one element behind its arrays: what lies there, if it can be read at all, is an argument of the
  operations that remove (\<open>memory_behind\<close> in \<open>KeyValueList\<close>), and the properties say what they need of it.
  \<open>Prelude\<close> holds the vocabulary and the lemmas all theories share.

  Loops. Loops over an array are structural or have a termination proof. Loops whose end depends on
  the data (the walk over a task list, the search of \<open>MessageCancelAll\<close>, the passes of the rules engine) are
  \<open>partial_function (option)\<close>, so that not returning is \<open>None\<close>, and are proved to return where a
  property says so. There is no fuel. Times are 32-bit words compared by the sign of their
  difference; the theorems on time order assume that all due times lie in one half of
  the range, as the code does. Sequence numbers of RWCP are six bits; a transfer is correct when
  the client keeps its window.

  Contracts. \<open>MessageQueue\<close>, \<open>MessageData\<close>, \<open>TaskList\<close>, \<open>ClientData\<close>, \<open>KeyValueList\<close> and \<open>ChargerRuns\<close> state what a client of a
  component relies on as a locale and interpret it on the component's own model; the clients'
  proofs use the interpreted facts.

  What the lemmas show. The numbered texts state the properties. For each component there is an
  invariant that every operation preserves, over all interleavings of its operations (\<open>rwcp_run\<close>, \<open>goals_reachable\<close>, \<open>bw_reachable\<close>,
  \<open>power_reachable\<close>, \<open>ss_reachable\<close>, \<open>iem_reachable\<close>, \<open>charger_reachable\<close>, \<open>phy_reachable\<close> and their like), the behaviour of the operations on every branch, and what
  the component promises its clients. The unnumbered lemmas after them record places where the
  code behaves differently from what its comments say, each with the input that shows it.
  Where a component has a contract of its own, the model refines it: the RWCP server the receiver of the Go-Back-N
  protocol (\<open>gbn_run\<close>), the task list a list, the script engine an abstract run, the pin monitor a table of
  registrations, the physical state what its sensors say.
  This theory connects the scheduler with the goals engine, the temperature with the power manager, and the
  battery regions with the charger.

  Not modelled. The audio processor firmware, the Bluetooth stack and the profile libraries (state
  machines driven by a closed firmware), drivers and hardware control, generated code, host tools and examples.
  Memory management (frees, allocation failure), debug output and handlers' private data are not represented.
  Planned next: the battery monitor, the user interface, the upgrade state machine.
\<close>

section \<open>From the message scheduler to the goals engine\<close>

definition slots_in_table :: "('p, 's, 'm) goal_set \<Rightarrow> bool" where
  "slots_in_table gs = (\<forall>e\<in>set (pending_goals gs). pg_id e < length (gs_goals gs))"

definition has_procedure :: "('p, 's) goal_entry \<Rightarrow> bool" where
  "has_procedure e = (proc_fns e \<noteq> None \<or> proc_script e \<noteq> None)"

lemma StartGoal_defined:
  assumes "goal_at gs g = Some e" "has_procedure e" "slots_in_table gs"
  shows "\<exists>gs'. goalsEngine_StartGoal g d gs = Some gs'"
proof -
  have upd: "goalsEngine_UpdateQueueMasks gs' \<noteq> None" if "slots_in_table gs'" for gs' :: "('p, 's, 'm) goal_set"
  proof -
    have "update_queue_entry gs' e \<noteq> None" if "e \<in> set (pending_goals gs')" for e
      using that \<open>slots_in_table gs'\<close>
      by (auto simp: slots_in_table_def update_queue_entry_def goal_at_def Let_def)
    then have "those (map (update_queue_entry gs') es) \<noteq> None" if "set es \<subseteq> set (pending_goals gs')" for es
      using that by (induction es) (auto split: option.splits)
    then show ?thesis by (auto simp: goalsEngine_UpdateQueueMasks_def)
  qed
  have "slots_in_table (log_call c (gs\<lparr>active_goals_mask := active_goals_mask gs OR GOAL_MASK g\<rparr>))" for c
    using assms(3) by (simp add: slots_in_table_def log_call_def)
  note upd [OF this]
  then show ?thesis
    using assms(1,2) by (auto simp: goalsEngine_StartGoal_def has_procedure_def Let_def split: option.splits)
qed

text \<open>The call that starts the procedure of a goal: its script if it has one, else its own procedure.\<close>

definition start_call :: "('p, 's) goal_entry \<Rightarrow> 'm msg_data option \<Rightarrow> ('p, 's, 'm) ge_call" where
  "start_call e d =
     (case proc_script e of
        Some s \<Rightarrow> Call_start_script s (goal_proc e)
      | None \<Rightarrow> Call_start_proc (the (proc_fns e)) d)"

lemma StartGoal_calls:
  assumes "goalsEngine_StartGoal g d gs = Some gs'" "goal_at gs g = Some e"
  shows "gs_calls gs' = gs_calls gs @ [start_call e d]"
  using assms
  by (auto simp: goalsEngine_StartGoal_def Let_def bind_eq_Some_conv log_call_def start_call_def
    split: option.splits dest!: UpdateQueueMasks_frame)

lemma Reset_calls [simp]: "gs_calls (goalsEngine_ResetPendingQueueIfEmpty gs) = gs_calls gs"
  by (simp add: goalsEngine_ResetPendingQueueIfEmpty_def)

text \<open>
  C12: A queued goal runs once the goals it waited for are done: in a goal set that satisfies the invariant
  and whose slots are for goals of its table, when no goal is active and the
  scheduler finds, as the first message that is not blocked, the decision of a goal that has a procedure
  or a script, handing it to the goals engine calls the start of exactly that procedure or script, with the
  decision's data, and nothing else; the goal becomes the only active goal and the
  invariant of the goal set holds again.
\<close>
theorem queued_goal_starts_when_idle:
  assumes "ge_inv 0 gs" "active_goals_mask gs = GOAL_MASK_NONE"
    "first_unblocked mem (vm_message_queue (gs_vm gs)) = Some (a, q)" "unicast_to (queue_task gs) a"
    "goal_at gs g = Some e" "has_procedure e" "slots_in_table gs"
    "g \<noteq> GOAL_ID_NONE" "length (gs_goals gs) \<le> GOAL_ID_MAX"
  shows "\<exists>gs'. GoalsEngine_ActivateGoal now addr sync g (queue_task gs) (am_id a) d (taken_from_queue q gs) = Some gs'
    \<and> gs_calls gs' = gs_calls gs @ [start_call e d]
    \<and> active_goals_mask gs' = GOAL_MASK g \<and> ge_inv 0 gs'"
proof -
  obtain q1 q2 where "vm_message_queue (gs_vm gs) = q1 @ a # q2" "q = q1 @ q2"
    using first_unblocked_SomeD [OF assms(3)] by blast
  with taken_from_queue_inv assms(1,4) have i: "ge_inv 1 (taken_from_queue q gs)" by blast
  let ?gs = "(taken_from_queue q gs)\<lparr>queue_msg_count := queue_msg_count gs - 1\<rparr>"
  have i0: "ge_inv 0 ?gs" using i by (simp add: ge_inv_def queue_ok_def lock_address_def taken_from_queue_def)
  have e: "goal_at ?gs g = Some e" "slots_in_table ?gs" "active_goals_mask ?gs = 0"
    using assms(2,5,7) by (simp_all add: goal_at_def slots_in_table_def taken_from_queue_def GOAL_MASK_NONE_def
      split: if_split_asm)
  obtain gs1 where gs1: "goalsEngine_StartGoal g d ?gs = Some gs1"
    using StartGoal_defined [OF e(1) assms(6) e(2)] by blast
  have g: "g < 64" using assms(5,9) by (auto simp: goal_at_def GOAL_ID_MAX_def split: if_splits)
  have "\<not> GoalsEngine_IsGoalActive ?gs g"
    by (simp only: IsGoalActive_bit [OF g] e(3) bit_0_eq bot_apply bot_bool_def not_False_eq_True)
  then have "GoalsEngine_ActivateGoal now addr sync g (queue_task gs) (am_id a) d (taken_from_queue q gs)
      = Some (goalsEngine_ResetPendingQueueIfEmpty gs1)"
    using assms(8) e gs1
    by (simp add: GoalsEngine_ActivateGoal_def goalsEngine_HandleDuplicateCancellationGoal_def Let_def
      goalsEngine_GoalCanRunNow_def GOAL_MASK_NONE_def taken_from_queue_def)
  moreover have "active_goals_mask gs1 = GOAL_MASK g" using StartGoal_frame [OF gs1] e(3) by simp
  moreover have "gs_calls gs1 = gs_calls gs @ [start_call e d]"
    using StartGoal_calls [OF gs1 e(1)] by (simp add: taken_from_queue_def)
  ultimately show ?thesis
    using Reset_inv [OF StartGoal_inv [OF gs1 i0]] Reset_frame(2) [of gs1] by simp
qed

theorem queued_goal_starts_when_idle_witness:
  "\<exists>gs'. GoalsEngine_ActivateGoal 0 0 (\<lambda>_. False) 3 7 103 None (taken_from_queue [] goal_3_queued) = Some gs'
    \<and> gs_calls gs' = [Call_start_proc 3 None] \<and> active_goals_mask gs' = GOAL_MASK 3"
proof -
  have "posted_ids 7 (gs_vm goal_3_queued) = {#103#}"
    by (simp add: posted_ids_def goal_3_queued_def plain_msg_def addressed_to_def)
  moreover have "\<forall>e\<in>set (pending_goals goal_3_queued). slot_ok 0 e"
    by (simp add: goal_3_queued_def slot_ok_def empty_entry_def sub_mask_def GOAL_ID_NONE_def)
  moreover have "queue_ok goal_3_queued"
    by (auto simp: queue_ok_def goal_3_queued_def goals_running_def plain_msg_def unicast_to_def lock_address_def
      intro!: exI [of _ 0])
  ultimately have i: "ge_inv 0 goal_3_queued"
    by (simp add: ge_inv_def goal_3_queued_def goals_running_def INVALIDATED_TASK_def)
  have a: "active_goals_mask goal_3_queued = GOAL_MASK_NONE"
    by (simp add: goal_3_queued_def goals_running_def GOAL_MASK_NONE_def)
  let ?a = "(plain_msg 7 103 0 :: unit app_message)\<lparr>am_condition_addr := Some 1004, am_c_width := CONDITION_WIDTH_16BIT\<rparr>"
  have f: "first_unblocked (\<lambda>_. 0) (vm_message_queue (gs_vm goal_3_queued)) = Some (?a, [])"
    by (simp add: goal_3_queued_def unblocked_def get_message_condition_value_def)
  have u: "unicast_to (queue_task goal_3_queued) ?a"
    by (simp add: unicast_to_def goal_3_queued_def goals_running_def plain_msg_def)
  have e: "goal_at goal_3_queued 3 = Some (simple_goal goal_contention_wait None 3)"
    by (simp add: goal_at_def goal_3_queued_def goals_running_def three_goals_def)
  have h: "has_procedure (simple_goal goal_contention_wait None 3)"
    by (simp add: has_procedure_def simple_goal_def)
  have s: "slots_in_table goal_3_queued"
    by (simp add: slots_in_table_def goal_3_queued_def goals_running_def three_goals_def empty_entry_def)
  have "(3 :: goal_id) \<noteq> GOAL_ID_NONE \<and> length (gs_goals goal_3_queued) \<le> GOAL_ID_MAX"
    by (simp add: GOAL_ID_NONE_def goal_3_queued_def goals_running_def three_goals_def GOAL_ID_MAX_def)
  with queued_goal_starts_when_idle [OF i a f u e h s, of 0 0 "\<lambda>_. False" None]
  show ?thesis by (auto simp: goal_3_queued_def goals_running_def plain_msg_def start_call_def simple_goal_def)
qed

section \<open>From the temperature to the shutdown\<close>

text \<open>
  The question the power manager asks the temperature component about its own limits.
\<close>

definition temperature_condition :: "task \<Rightarrow> temperature_data \<Rightarrow> power_conditions \<Rightarrow> power_conditions" where
  "temperature_condition t st c =
     c\<lparr>temperature_within_limits := (appTemperatureClientGetState t st = Some TEMPERATURE_STATE_WITHIN_LIMITS)\<rparr>"

lemma send_clients_posted:
  assumes "td_valid (clients s)" "length (td_table (clients s)) \<le> 14"
  shows "\<exists>q. send_clients now i s = Some (with_vm q s) \<and> (\<forall>u. posted_ids u q =
    (if u \<in> fst ` set (td_table (clients s)) then add_mset i (posted_ids u (power_vm s)) else posted_ids u (power_vm s)))"
proof -
  obtain ds where r: "tl_repr (clients s) (map fst (td_table (clients s))) (map Some ds)"
    using td_validD(1) [OF assms(1)] by blast
  have P: "\<exists>q. TaskList_MessageSendLaterWithSize now (clients s) i None 0 D_IMMEDIATE (power_vm s) = Some q
      \<and> posted_ids u q = (if u \<in> fst ` set (td_table (clients s)) then add_mset i (posted_ids u (power_vm s))
           else posted_ids u (power_vm s))" for u
    using message_send_posted [OF r td_validD(2) [OF assms(1)], of 0 None now i D_IMMEDIATE "power_vm s" u] assms(2) by simp
  then obtain q where q: "TaskList_MessageSendLaterWithSize now (clients s) i None 0 D_IMMEDIATE (power_vm s) = Some q"
    by blast
  have "posted_ids u q = (if u \<in> fst ` set (td_table (clients s)) then add_mset i (posted_ids u (power_vm s))
      else posted_ids u (power_vm s))" for u
    using P [of u] unfolding q by (simp only: option.inject ex_simps) metis
  then show ?thesis
    using q by (intro exI [of _ q]) (simp add: send_clients_def TaskList_MessageSendWithSize_def)
qed

lemma shutdown_requested:
  assumes "power_inv s" "power_state s = POWER_STATE_OK" "appPowerNeedsToPowerOff c s"
    "length (td_table (clients s)) \<le> 14" "\<not> no_clients s"
  shows "\<exists>s'. appPowerHandlePowerEvent now addr c s = Some s'
    \<and> power_state s' = POWER_STATE_TERMINATING_CLIENTS_NOTIFIED
    \<and> td_table (clients s') = map (with_flag APP_POWER_SHUTDOWN_PREPARE_RESPONSE_PENDING) (td_table (clients s))
    \<and> (\<forall>(t, e)\<in>set (td_table (clients s)). posted_ids t (power_vm s')
         = posted_ids t (power_vm s) + {#APP_POWER_SHUTDOWN_PREPARE_IND, POWER_OFF#})"
proof -
  have v: "td_valid (clients s)" using assms(1) by (simp add: power_inv_def)
  let ?v = "s\<lparr>power_state := POWER_STATE_TERMINATING_CLIENTS_NOTIFIED\<rparr>"
  obtain q1 where q1: "send_clients now APP_POWER_SHUTDOWN_PREPARE_IND ?v = Some (with_vm q1 ?v)"
    "\<forall>u. u \<in> fst ` set (td_table (clients s)) \<longrightarrow>
       posted_ids u q1 = add_mset APP_POWER_SHUTDOWN_PREPARE_IND (posted_ids u (power_vm s))"
    using send_clients_posted [of ?v now APP_POWER_SHUTDOWN_PREPARE_IND] v assms(4) by (auto simp: power_vm_def)
  obtain l where l: "appPowerSetFlagInAllClients APP_POWER_SHUTDOWN_PREPARE_RESPONSE_PENDING (with_vm q1 ?v)
      = Some ((with_vm q1 ?v)\<lparr>clients := l\<rparr>)" "td_valid l"
    "td_table l = map (with_flag APP_POWER_SHUTDOWN_PREPARE_RESPONSE_PENDING) (td_table (clients s))"
    using SetFlagInAllClients_table [of "with_vm q1 ?v" APP_POWER_SHUTDOWN_PREPARE_RESPONSE_PENDING] v by auto
  let ?w = "(with_vm q1 ?v)\<lparr>clients := l\<rparr>"
  have m: "fst ` set (td_table l) = fst ` set (td_table (clients s))" unfolding l(3) by force
  have "length (td_table l) \<le> 14" using l(3) assms(4) by simp
  then obtain q2 where q2: "send_clients now POWER_OFF ?w = Some (with_vm q2 ?w)"
    "\<forall>u. u \<in> fst ` set (td_table (clients s)) \<longrightarrow> posted_ids u q2 = add_mset POWER_OFF (posted_ids u q1)"
    using send_clients_posted [of ?w now POWER_OFF] l(2) m by (auto simp: power_vm_def with_vm_def)
  have "appPowerSetState now addr c POWER_STATE_TERMINATING_CLIENTS_NOTIFIED s = Some (with_vm q2 ?w)"
    using q1(1) l(1) q2(1) TaskList_Size_table [OF v] assms(2,5)
    by (subst appPowerSetState.simps) (simp add: exit_power_state_def)
  then have "appPowerHandlePowerEvent now addr c s = Some (with_vm q2 ?w)"
    using assms(2,3) by (simp add: appPowerHandlePowerEvent_def)
  moreover have "\<forall>(t, e)\<in>set (td_table (clients s)). posted_ids t q2
      = posted_ids t (power_vm s) + {#APP_POWER_SHUTDOWN_PREPARE_IND, POWER_OFF#}"
    using q1(2) q2(2) by force
  ultimately show ?thesis using l(3) by (intro exI [of _ "with_vm q2 ?w"]) (simp add: power_vm_def with_vm_def)
qed

text \<open>A reading serves the clients with the average it gives.\<close>

lemma reading_informs:
  assumes "temp_inv hist s" "in_range r" "(t, d) \<in> set (td_table (temp_clients s))"
  shows "\<exists>s'. handleTemperatureReading now addr r s = Some s' \<and> td_valid (temp_clients s')
    \<and> (t, with_client_state (limits_state (appTemperatureGetAverage s') d) d) \<in> set (td_table (temp_clients s'))
    \<and> (limits_state (appTemperatureGetAverage s') d \<noteq> client_state d \<longrightarrow>
         TEMPERATURE_STATE_CHANGED_IND \<in># posted_ids t (temp_vm s'))"
proof -
  have v: "td_valid (temp_clients s)" using assms(1) by (rule temp_inv_clients)
  obtain s' where s': "handleTemperatureReading now addr r s = Some s'"
    using handleTemperatureReading_done [OF assms(1,2)] by blast
  then obtain m s1 where m1: "temperature_MedianFiltering r s = Some (m, s1)"
    by (auto simp: handleTemperatureReading_def bind_eq_Some_conv)
  obtain ema s3 where m2: "temperature_ExponentialAverage m (s1\<lparr>instantaneous := m, last_ema := current_ema s1\<rparr>) = (ema, s3)"
    by fastforce
  note m = m1 m2
  have m3: "appTemperatureServiceClients now addr (s3\<lparr>current_ema := ema\<rparr>) = Some s'"
    using s' by (simp add: handleTemperatureReading_def m)
  let ?s4 = "s3\<lparr>current_ema := ema\<rparr>"
  have "filter_holds hist s" using assms(1) by (simp add: temp_inv_def)
  from median_step [OF this, of r] m(1) obtain arr i where "s1 = s\<lparr>input_arr := arr, filter_index := i\<rparr>" by auto
  then have s1: "temp_clients s1 = temp_clients s" by simp
  let ?s2 = "s1\<lparr>instantaneous := m, last_ema := current_ema s1\<rparr>"
  have "s3 = ?s2\<lparr>ema_t := ema_t s3\<rparr> \<or> s3 = ?s2" using ExponentialAverage_frame [OF m2] by blast
  then have "temp_clients s3 = temp_clients s1"
  proof
    assume "s3 = ?s2\<lparr>ema_t := ema_t s3\<rparr>"
    from arg_cong [OF this, of temp_clients] show "temp_clients s3 = temp_clients s1" by simp
  qed simp
  with s1 have c: "temp_clients ?s4 = temp_clients s" by simp
  with inform_clients_done [of ?s4 now addr t] m3 v obtain l q where l: "s' = ?s4\<lparr>temp_vm := q, temp_clients := l\<rparr>"
    "td_valid l"
    "td_table l = map (\<lambda>(t, d). (t, with_client_state (limits_state (appTemperatureGetAverage ?s4) d) d)) (td_table (temp_clients s))"
    "posted_ids t q = posted_ids t (temp_vm ?s4) + mset (map (\<lambda>_. TEMPERATURE_STATE_CHANGED_IND)
        (filter (\<lambda>(u, d). u = t \<and> limits_state (appTemperatureGetAverage ?s4) d \<noteq> client_state d) (td_table (temp_clients s))))"
    by auto
  have a: "appTemperatureGetAverage s' = appTemperatureGetAverage ?s4" by (simp add: l(1) appTemperatureGetAverage_def)
  have "(t, with_client_state (limits_state (appTemperatureGetAverage s') d) d) \<in> set (td_table l)"
    using assms(3) unfolding l(3) a by force
  moreover have "TEMPERATURE_STATE_CHANGED_IND \<in># posted_ids t q"
    if "limits_state (appTemperatureGetAverage s') d \<noteq> client_state d"
    using assms(3) that unfolding l(4) a by (force simp: image_iff)
  ultimately show ?thesis using s' l(1,2) by (intro exI [of _ s']) simp
qed

text \<open>
  C32: An extreme temperature shuts the device down. A reading is always handled; if the average it gives
  puts the power manager, a client with limits of its own, into another state than the one it was told last,
  an indication is posted to it. And if that state is outside its limits and the power manager, in its
  normal state with between 1 and 14 clients and allowed by the charger to power off, handles the
  indication, it posts one more \<open>APP_POWER_SHUTDOWN_PREPARE_IND\<close> (and the power-off prompt) to every
  client, marks every client's response as outstanding, and waits for the responses.
\<close>
theorem extreme_temperature_starts_shutdown:
  assumes "temperature_reachable xs hist st" "in_range r" "(power_task sp, d) \<in> set (td_table (temp_clients st))"
    "power_reachable sp" "power_state sp = POWER_STATE_OK" "charger_can_power_off c"
    "td_table (clients sp) \<noteq> []" "length (td_table (clients sp)) \<le> 14"
  shows "\<exists>st'. handleTemperatureReading now addr r st = Some st'
    \<and> (limits_state (appTemperatureGetAverage st') d \<noteq> client_state d \<longrightarrow>
         TEMPERATURE_STATE_CHANGED_IND \<in># posted_ids (power_task sp) (temp_vm st'))
    \<and> (limits_state (appTemperatureGetAverage st') d \<noteq> TEMPERATURE_STATE_WITHIN_LIMITS \<longrightarrow>
        (\<exists>sp'. appPowerHandleMessage now' addr' (temperature_condition (power_task sp) st' c) TEMPERATURE_STATE_CHANGED_IND sp = Some sp'
          \<and> power_state sp' = POWER_STATE_TERMINATING_CLIENTS_NOTIFIED
          \<and> td_table (clients sp') = map (with_flag APP_POWER_SHUTDOWN_PREPARE_RESPONSE_PENDING) (td_table (clients sp))
          \<and> (\<forall>(t, e)\<in>set (td_table (clients sp)). posted_ids t (power_vm sp')
               = posted_ids t (power_vm sp) + {#APP_POWER_SHUTDOWN_PREPARE_IND, POWER_OFF#})))"
proof -
  have i: "temp_inv hist st" using temperature_reachable_inv [OF assms(1)] by blast
  obtain st' where st': "handleTemperatureReading now addr r st = Some st'" "td_valid (temp_clients st')"
    "(power_task sp, with_client_state (limits_state (appTemperatureGetAverage st') d) d) \<in> set (td_table (temp_clients st'))"
    "limits_state (appTemperatureGetAverage st') d \<noteq> client_state d \<longrightarrow>
       TEMPERATURE_STATE_CHANGED_IND \<in># posted_ids (power_task sp) (temp_vm st')"
    using reading_informs [OF i assms(2,3)] by blast
  have g: "appTemperatureClientGetState (power_task sp) st' = Some (limits_state (appTemperatureGetAverage st') d)"
    using ClientGetState_table [OF st'(2,3)] by (simp add: s8_simps CLIENT_CURRENT_STATE_INDEX_def)
  have ui: "\<not> isMessageUiInput TEMPERATURE_STATE_CHANGED_IND" by code_simp
  have h: "appPowerHandleMessage now' addr' c' TEMPERATURE_STATE_CHANGED_IND sp = appPowerHandlePowerEvent now' addr' c' sp" for c'
    using ui by (simp add: appPowerHandleMessage_def)
  have "\<exists>sp'. appPowerHandleMessage now' addr' (temperature_condition (power_task sp) st' c) TEMPERATURE_STATE_CHANGED_IND sp = Some sp'
          \<and> power_state sp' = POWER_STATE_TERMINATING_CLIENTS_NOTIFIED
          \<and> td_table (clients sp') = map (with_flag APP_POWER_SHUTDOWN_PREPARE_RESPONSE_PENDING) (td_table (clients sp))
          \<and> (\<forall>(t, e)\<in>set (td_table (clients sp)). posted_ids t (power_vm sp')
               = posted_ids t (power_vm sp) + {#APP_POWER_SHUTDOWN_PREPARE_IND, POWER_OFF#})"
    if "limits_state (appTemperatureGetAverage st') d \<noteq> TEMPERATURE_STATE_WITHIN_LIMITS"
  proof -
    have "appPowerNeedsToPowerOff (temperature_condition (power_task sp) st' c) sp"
      using that g assms(6) by (simp add: appPowerNeedsToPowerOff_def appPowerCanPowerOff_def temperature_condition_def)
    from shutdown_requested [OF power_reachable_inv [OF assms(4)] assms(5) this assms(8,7), of now' addr']
    show ?thesis unfolding h .
  qed
  with st'(1,4) show ?thesis by blast
qed

text \<open>
  A power manager with limits of -10 and 40 degrees has been told that the temperature is within them, a
  first reading of -30 degrees arrives, and its only client, task 7, is asked to prepare.
\<close>

lemma demo_within_client:
  "\<exists>s d. temperature_reachable earbud_temperature_config_table [] s \<and> (3, d) \<in> set (td_table (temp_clients s))
    \<and> client_state d = TEMPERATURE_STATE_WITHIN_LIMITS \<and> fake_battery_temperature s = INVALID_TEMPERATURE
    \<and> limits_state (- 30) d = TEMPERATURE_STATE_BELOW_LOWER_LIMIT"
proof -
  have v: "td_valid (temp_clients demo_init)" "td_table (temp_clients demo_init) = []"
    using td_create by (simp_all add: appTemperatureInit_def log_temp_def Let_def)
  let ?d = "set_s8 CLIENT_CURRENT_STATE_INDEX TEMPERATURE_STATE_UNKNOWN
      (set_s8 CLIENT_UPPER_LIMIT_INDEX 40 (set_s8 CLIENT_LOWER_LIMIT_INDEX (- 10) 0))"
  obtain q where q: "appTemperatureServiceClient 5 (\<lambda>_. 0) 3 ?d demo_init
      = Some (with_client_state (limits_state (appTemperatureGetAverage demo_init) ?d) ?d, demo_init\<lparr>temp_vm := q\<rparr>)"
    using ServiceClient_done [where now = 5 and addr = "\<lambda>_. 0" and t = 3 and d = ?d and s = demo_init] by blast
  let ?e = "with_client_state (limits_state (appTemperatureGetAverage demo_init) ?d) ?d"
  obtain l where l: "TaskList_AddTaskWithData (temp_clients demo_init) 3 ?e = Some (True, l)" "td_table l = [(3, ?e)]"
    using td.add_new [OF v(1), of 3 ?e] v(2) by auto
  let ?s = "demo_init\<lparr>temp_vm := q, temp_clients := l\<rparr>"
  have "appTemperatureClientRegister 5 (\<lambda>_. 0) 3 (- 10) 40 demo_init = Some (True, ?s)"
    using q l(1) by (simp add: appTemperatureClientRegister_def)
  from temperature_reachable.client_register [OF demo_reachable _ _ this] v(2)
  have re: "temperature_reachable earbud_temperature_config_table [] ?s" by simp
  have "current_ema demo_init = 0"
    by (simp add: appTemperatureInit_def Temperature_SetConfigurationTable_def log_temp_def Let_def demo_temperature_def)
  then have a: "appTemperatureGetAverage demo_init = 0" using demo_fake by (simp add: appTemperatureGetAverage_def signed_divide_int_def)
  have "limits_state (appTemperatureGetAverage demo_init) ?d = TEMPERATURE_STATE_WITHIN_LIMITS"
    by (simp add: a limits_state_def s8_simps s8_other CLIENT_CURRENT_STATE_INDEX_def CLIENT_UPPER_LIMIT_INDEX_def
        CLIENT_LOWER_LIMIT_INDEX_def)
  then have "client_state ?e = TEMPERATURE_STATE_WITHIN_LIMITS" "limits_state (- 30) ?e = TEMPERATURE_STATE_BELOW_LOWER_LIMIT"
    by (simp_all add: limits_state_def s8_simps s8_other CLIENT_CURRENT_STATE_INDEX_def CLIENT_UPPER_LIMIT_INDEX_def
        CLIENT_LOWER_LIMIT_INDEX_def)
  then show ?thesis using re l(2) demo_fake by (intro exI [of _ ?s] exI [of _ ?e]) simp
qed

theorem extreme_temperature_starts_shutdown_witness:
  "\<exists>st st' (sp :: string power_data) sp'. handleTemperatureReading 5 (\<lambda>_. 0) (- 30) st = Some st'
    \<and> TEMPERATURE_STATE_CHANGED_IND \<in># posted_ids 3 (temp_vm st')
    \<and> appPowerHandleMessage 5 0 (temperature_condition 3 st' demo_conditions) TEMPERATURE_STATE_CHANGED_IND sp = Some sp'
    \<and> power_state sp' = POWER_STATE_TERMINATING_CLIENTS_NOTIFIED
    \<and> APP_POWER_SHUTDOWN_PREPARE_IND \<in># posted_ids 7 (power_vm sp')"
proof -
  obtain sp sp' :: "string power_data" where sp: "power_reachable sp" "power_state sp = POWER_STATE_OK"
    "td_table (clients sp) = [(7, 0)]" "power_task sp = 3" using demo_notified by blast
  obtain st d where st: "temperature_reachable earbud_temperature_config_table [] st" "(3, d) \<in> set (td_table (temp_clients st))"
    "client_state d = TEMPERATURE_STATE_WITHIN_LIMITS" "fake_battery_temperature st = INVALID_TEMPERATURE"
    "limits_state (- 30) d = TEMPERATURE_STATE_BELOW_LOWER_LIMIT" using demo_within_client by blast
  have r: "in_range (- 30)" by (simp add: in_range_def TEMPERATURE_MIN_def TEMPERATURE_MAX_def)
  have i: "temp_inv [] st" using temperature_reachable_inv [OF st(1)] by blast
  have avg: "appTemperatureGetAverage st' = - 30" if "handleTemperatureReading 5 (\<lambda>_. 0) (- 30) st = Some st'" for st'
  proof -
    have "temp_inv [- 30] st'" "fake_battery_temperature st' = INVALID_TEMPERATURE"
      using handleTemperatureReading_done [OF i r, of 5 "\<lambda>_. 0"] that st(4) by auto
    moreover from this(1) have "sint (current_ema st') = - 3000" by (simp add: temp_inv_def lowest_def highest_def)
    ultimately show ?thesis by (simp add: appTemperatureGetAverage_def signed_divide_int_def)
  qed
  have m: "(power_task sp, d) \<in> set (td_table (temp_clients st))" using st(2) sp(4) by simp
  have c: "charger_can_power_off demo_conditions" "td_table (clients sp) \<noteq> []" "length (td_table (clients sp)) \<le> 14"
    using sp(3) by (simp_all add: demo_conditions_def)
  note shut = extreme_temperature_starts_shutdown [OF st(1) r m sp(1,2) c, of 5 "\<lambda>_. 0" 5 0]
  then obtain st' where st': "handleTemperatureReading 5 (\<lambda>_. 0) (- 30) st = Some st'" by blast
  have "limits_state (appTemperatureGetAverage st') d \<noteq> client_state d"
    "limits_state (appTemperatureGetAverage st') d \<noteq> TEMPERATURE_STATE_WITHIN_LIMITS"
    using avg [OF st'] st(3,5) by (simp_all add: TEMPERATURE_STATE_BELOW_LOWER_LIMIT_def TEMPERATURE_STATE_WITHIN_LIMITS_def)
  with shut st' obtain sp2 where "TEMPERATURE_STATE_CHANGED_IND \<in># posted_ids (power_task sp) (temp_vm st')"
    "appPowerHandleMessage 5 0 (temperature_condition (power_task sp) st' demo_conditions) TEMPERATURE_STATE_CHANGED_IND sp = Some sp2"
    "power_state sp2 = POWER_STATE_TERMINATING_CLIENTS_NOTIFIED"
    "\<forall>(t, e)\<in>set (td_table (clients sp)). posted_ids t (power_vm sp2)
       = posted_ids t (power_vm sp) + {#APP_POWER_SHUTDOWN_PREPARE_IND, POWER_OFF#}" by auto
  then show ?thesis
    using st' sp(3,4) by (intro exI [of _ st] exI [of _ st'] exI [of _ sp] exI [of _ sp2]) simp
qed

section \<open>The battery regions and the charger\<close>

text \<open>
  C21: A battery that must not be charged is not: with the earbud's tables and any reading in range while a charger is
  connected, the battery region selects a current, and when it then calls \<open>Charger_UpdateCurrent\<close> in any state
  the charger monitor can be in, that succeeds and the hardware is given at most this current; if the reading is
  outside of the safe window (above 4250 mV, below -1 or above 46 degrees) the charger is off, the hardware was told so,
  and its current was set to zero.
\<close>
theorem unsafe_battery_not_charged:
  assumes "earbud_configured half FAST TRICKLE timeout b" "region_ok b" "clients_ok b" "in_battery_range v t"
    "charger_reachable s" "env_ok e"
  shows "\<exists>b' cur s'. batteryRegion_UpdateRegion now addr v t True b = Some b' \<and> BatteryRegion_GetCurrent b' = Some cur
    \<and> Charger_UpdateCurrent (e\<lparr>env_region_current := cur\<rparr>) s = Some s' \<and> charger_reachable s'
    \<and> unat (Charger_GetFastCurrent s') \<le> unat cur
    \<and> (\<not> (uint v \<le> 4250 \<and> - 1 \<le> sint t \<and> sint t \<le> 46) \<longrightarrow> \<not> Charger_IsEnabled s'
         \<and> configured CHARGER_ENABLE (cm_calls s') = Some 0 \<and> configured CHARGER_FAST_CURRENT (cm_calls s') = Some 0)"
proof -
  obtain b' r where b': "batteryRegion_UpdateRegion now addr v t True b = Some b'"
    "r \<in> set (earbud_charge_mode_config_table half FAST TRICKLE timeout)" "contains True v t r"
    "BatteryRegion_GetCurrent b' = Some (current r)"
    using UpdateRegion_earbud [OF assms(1-4), of now addr True] assms(1)
    by (auto simp: mode_table_def earbud_configured_def Let_def)
  have z: "current r = 0" if "\<not> (uint v \<le> 4250 \<and> - 1 \<le> sint t \<and> sint t \<le> 46)"
    using earbud_charge_current [OF b'(2,3)] that by blast
  let ?e = "e\<lparr>env_region_current := current r\<rparr>"
  have e: "env_ok ?e" using assms(6) by (simp add: env_ok_def)
  obtain s' where s': "Charger_UpdateCurrent ?e s = Some s'" "current_moved ?e s s'"
    using UpdateCurrent_done [OF e cm_invD(1) [OF full_invD(1) [OF charger_reachable_inv [OF assms(5)]]]]
    by (auto simp: succeeds_def)
  have r: "charger_reachable s'" by (rule charger_reachable.step [OF assms(5) charger_step.region_current [OF e s'(1)]])
  have c: "unat (Charger_GetFastCurrent s') \<le> unat (current r)"
    using s'(2) wanted_ok(3) [where e = ?e and s = s] by (simp add: current_moved_def Charger_GetFastCurrent_def)
  have off: "\<not> Charger_IsEnabled s' \<and> configured CHARGER_ENABLE (cm_calls s') = Some 0
      \<and> configured CHARGER_FAST_CURRENT (cm_calls s') = Some 0" if "current r = 0"
  proof -
    have g: "Charger_GetFastCurrent s' = 0" using c that by (simp add: unsigned_eq_0_iff)
    note hw = hardware_current [OF charger_reachable_inv [OF r]]
    have "sw_ok s'"
      using base_invD(1) [OF cm_invD(1) [OF full_invD(1) [OF charger_reachable_inv [OF r]]]] by (simp add: power_ok_def)
    then show ?thesis using hw(1,5) g by (auto simp: sw_ok_def Charger_IsEnabled_def)
  qed
  show ?thesis using b'(1,4) s'(1) r c off z by (intro exI [of _ b'] exI [of _ "current r"] exI [of _ s']) blast
qed

theorem unsafe_battery_not_charged_witness:
  "shown (\<lambda>s. Charger_IsEnabled s \<and> (\<exists>b' cur s'. batteryRegion_UpdateRegion 0 0 4000 60 True demo_region_data = Some b'
     \<and> BatteryRegion_GetCurrent b' = Some cur \<and> Charger_UpdateCurrent (demo_charger_env\<lparr>env_region_current := cur\<rparr>) s = Some s'
     \<and> \<not> Charger_IsEnabled s')) demo_charging"
proof (rule shownE [OF demo_values(1)])
  fix s assume s: "demo_charging = Some s" "is_enabled s \<and> fast_current s = 500 \<and> vchg_monitor_enabled s"
  have "in_battery_range 4000 60" by (simp add: in_battery_range_def)
  from unsafe_battery_not_charged [OF demo_region_ok(1-3) this demo_charging_reachable [OF s(1)] demo_env_ok, of 0 0]
  show ?thesis using s(2) by (intro shownI [OF s(1)]) (auto simp: Charger_IsEnabled_def)
qed

end
